(* ===== verification/Prelude.thy ===== *)
theory Prelude
  imports "HOL-Library.Word"
begin

text \<open>What the components share: byte strings and the fixed-width integers of the Rust code, their
  big-endian encodings, the result type of a fallible operation, and the contract of a
  streaming decoder (\<open>tokio_util::codec::Decoder\<close>): a step that either asks for more bytes or
  takes one frame off the front of the buffer.\<close>

unbundle bit_operations_syntax

section \<open>Machine integers and byte strings\<close>

type_synonym u8 = "8 word"
type_synonym u16 = "16 word"
type_synonym u32 = "32 word"
type_synonym u64 = "64 word"
type_synonym bytes = "u8 list"

named_theorems wire_simps \<open>evaluation of encoders and decoders on explicit byte strings\<close>
named_theorems inv_intros \<open>preservation of the state invariants\<close>

text \<open>Big-endian encodings. \<open>nat_be k x\<close> is the \<open>k\<close>-byte encoding of \<open>x\<close> (the high bytes of a
  larger \<open>x\<close> are lost, as in an \<open>as\<close> cast), \<open>be_nat\<close> reads it back.\<close>

primrec nat_be :: "nat \<Rightarrow> nat \<Rightarrow> bytes" where
  "nat_be 0 x = []"
| "nat_be (Suc k) x = nat_be k (x div 256) @ [of_nat x]"

definition be_nat :: "bytes \<Rightarrow> nat" where
  "be_nat bs = foldl (\<lambda>acc b. acc * 256 + unat b) 0 bs"

definition be16 :: "u16 \<Rightarrow> bytes" where "be16 x = nat_be 2 (unat x)"
definition be32 :: "u32 \<Rightarrow> bytes" where "be32 x = nat_be 4 (unat x)"
definition be64 :: "u64 \<Rightarrow> bytes" where "be64 x = nat_be 8 (unat x)"
definition get16 :: "bytes \<Rightarrow> u16" where "get16 bs = of_nat (be_nat bs)"
definition get32 :: "bytes \<Rightarrow> u32" where "get32 bs = of_nat (be_nat bs)"
definition get64 :: "bytes \<Rightarrow> u64" where "get64 bs = of_nat (be_nat bs)"

lemma length_nat_be [simp]: "length (nat_be k x) = k"
  by (induction k arbitrary: x) auto

lemma be_nat_Nil [simp]: "be_nat [] = 0"
  by (simp add: be_nat_def)

lemma be_nat_snoc [simp]: "be_nat (bs @ [b]) = be_nat bs * 256 + unat b"
  by (simp add: be_nat_def)

lemma unat8_less [simp]: "unat (b :: u8) < 256"
  using unsigned_less [of b] by simp
lemma unat16_less [simp]: "unat (w :: u16) < 65536"
  using unsigned_less [of w] by simp
lemma unat32_less [simp]: "unat (w :: u32) < 4294967296"
  using unsigned_less [of w] by simp
lemma unat64_less [simp]: "unat (w :: u64) < 18446744073709551616"
  using unsigned_less [of w] by simp

lemma unat_of_nat8 [simp]: "unat (of_nat n :: u8) = n mod 256"
  by (simp add: unat_of_nat)

lemma be_nat_nat_be [simp]: "be_nat (nat_be k x) = x mod 256 ^ k"
proof (induction k arbitrary: x)
  case (Suc k)
  have "x mod (256 * 256 ^ k) = 256 * (x div 256 mod 256 ^ k) + x mod 256"
    by (rule mod_mult2_eq)
  then show ?case using Suc by simp
qed simp

lemma be_nat_less: "be_nat bs < 256 ^ length bs"
proof (induction bs rule: rev_induct)
  case (snoc b bs)
  then have "be_nat bs * 256 + 256 \<le> 256 ^ length (bs @ [b])" by simp
  then show ?case using unat8_less [of b] by (simp del: unat8_less)
qed simp

lemma nat_be_be_nat: "length bs = k \<Longrightarrow> nat_be k (be_nat bs) = bs"
proof (induction bs arbitrary: k rule: rev_induct)
  case (snoc b bs)
  have "(of_nat (be_nat bs * 256 + unat b) :: u8) = b"
    by (simp only: word_unat_eq_iff unat_of_nat8) simp
  then show ?case using snoc by auto
qed simp

lemma get16_be16 [simp]: "get16 (be16 x) = x"
  by (simp add: get16_def be16_def)
lemma get32_be32 [simp]: "get32 (be32 x) = x"
  by (simp add: get32_def be32_def)
lemma get64_be64 [simp]: "get64 (be64 x) = x"
  by (simp add: get64_def be64_def)

lemma length_be [simp]: "length (be16 a) = 2" "length (be32 b) = 4" "length (be64 c) = 8"
  by (simp_all add: be16_def be32_def be64_def)

lemma be16_get16: "length bs = 2 \<Longrightarrow> be16 (get16 bs) = bs"
  using be_nat_less [of bs] by (simp add: be16_def get16_def unat_of_nat nat_be_be_nat)
lemma be32_get32: "length bs = 4 \<Longrightarrow> be32 (get32 bs) = bs"
  using be_nat_less [of bs] by (simp add: be32_def get32_def unat_of_nat nat_be_be_nat)
lemma be64_get64: "length bs = 8 \<Longrightarrow> be64 (get64 bs) = bs"
  using be_nat_less [of bs] by (simp add: be64_def get64_def unat_of_nat nat_be_be_nat)

section \<open>Fallible operations\<close>

text \<open>A Rust \<open>Result<T, E>\<close> is \<open>'e + 'a\<close>, the error on the left; \<open>res_bind\<close> is the \<open>?\<close> operator.\<close>

fun res_bind :: "'e + 'a \<Rightarrow> ('a \<Rightarrow> 'e + 'b) \<Rightarrow> 'e + 'b" where
  "res_bind (Inl e) f = Inl e"
| "res_bind (Inr x) f = f x"

lemma res_bind_cong [fundef_cong]:
  "m = m' \<Longrightarrow> (\<And>x. m' = Inr x \<Longrightarrow> f x = g x) \<Longrightarrow> res_bind m f = res_bind m' g"
  by (cases m') auto

lemma res_bind_eq_Inr: "res_bind m f = Inr y \<longleftrightarrow> (\<exists>x. m = Inr x \<and> f x = Inr y)"
  by (cases m) auto

lemma res_bind_eq_Inl: "res_bind m f = Inl e \<longleftrightarrow> m = Inl e \<or> (\<exists>x. m = Inr x \<and> f x = Inl e)"
  by (cases m) auto

lemma res_bind_split:
  "P (res_bind m f) \<longleftrightarrow> (\<forall>e. m = Inl e \<longrightarrow> P (Inl e)) \<and> (\<forall>x. m = Inr x \<longrightarrow> P (f x))"
  by (cases m) auto

section \<open>Streaming decoders\<close>

text \<open>One call of \<open>Decoder::decode\<close> maps the buffer to a result and the buffer it leaves. \<open>drain\<close> is
  the reader's loop \<open>while let Some(frame) = codec.decode(&mut buf)?\<close>; its fuel, one more than the
  buffer's length, is never used up because every frame consumes at least one byte
  (\<open>drain_unfold\<close> below).\<close>

type_synonym ('e, 'f) decode_step = "bytes \<Rightarrow> ('e + 'f option) \<times> bytes"

primrec drain_fuel :: "nat \<Rightarrow> ('e, 'f) decode_step \<Rightarrow> bytes \<Rightarrow> 'f list \<times> 'e option \<times> bytes" where
  "drain_fuel 0 dec buf = ([], None, buf)"
| "drain_fuel (Suc n) dec buf =
    (case dec buf of
       (Inl e, r) \<Rightarrow> ([], Some e, r)
     | (Inr None, r) \<Rightarrow> ([], None, r)
     | (Inr (Some f), r) \<Rightarrow> (let (fs, e, r') = drain_fuel n dec r in (f # fs, e, r')))"

definition drain :: "('e, 'f) decode_step \<Rightarrow> bytes \<Rightarrow> 'f list \<times> 'e option \<times> bytes" where
  "drain dec buf = drain_fuel (Suc (length buf)) dec buf"

text \<open>\<open>feed\<close> is the reader fed chunk by chunk: it appends each chunk to what the previous calls left
  in the buffer and drains; it stops at the first decoder error.\<close>

fun feed :: "('e, 'f) decode_step \<Rightarrow> bytes \<Rightarrow> bytes list \<Rightarrow> 'f list \<times> 'e option \<times> bytes" where
  "feed dec buf [] = ([], None, buf)"
| "feed dec buf (c # cs) =
    (case drain dec (buf @ c) of
       (fs, Some e, r) \<Rightarrow> (fs, Some e, r @ concat cs)
     | (fs, None, r) \<Rightarrow> (let (gs, e, r') = feed dec r cs in (fs @ gs, e, r')))"

locale stream_decoder =
  fixes dec :: "bytes \<Rightarrow> ('e + 'f option) \<times> bytes"
    and enc :: "'f \<Rightarrow> bytes"
    and ok :: "'f \<Rightarrow> bool"
  assumes dec_enc: "ok f \<Longrightarrow> dec (enc f @ rest) = (Inr (Some f), rest)"
    and dec_shrinks: "dec buf = (Inr (Some f), r) \<Longrightarrow> length r < length buf"
    and dec_Nil: "dec [] = (Inr None, [])"
begin

lemma drain_fuel_enough:
  "length buf < n \<Longrightarrow> length buf < m \<Longrightarrow> drain_fuel n dec buf = drain_fuel m dec buf"
proof (induction n arbitrary: buf m)
  case (Suc n)
  then obtain m' where m: "m = Suc m'" by (cases m) auto
  have "drain_fuel n dec r = drain_fuel m' dec r" if "dec buf = (Inr (Some f), r)" for f r
    using Suc.IH [of r m'] dec_shrinks [OF that] Suc.prems m by simp
  then show ?case unfolding m by (auto split: prod.splits sum.splits option.splits)
qed simp

lemma drain_unfold:
  "drain dec buf =
    (case dec buf of
       (Inl e, r) \<Rightarrow> ([], Some e, r)
     | (Inr None, r) \<Rightarrow> ([], None, r)
     | (Inr (Some f), r) \<Rightarrow> (let (fs, e, r') = drain dec r in (f # fs, e, r')))"
proof -
  have "drain_fuel (length buf) dec r = drain_fuel (Suc (length r)) dec r"
    if "dec buf = (Inr (Some f), r)" for f r
    using dec_shrinks [OF that] by (intro drain_fuel_enough) auto
  then show ?thesis
    unfolding drain_def by (auto split: prod.splits sum.splits option.splits)
qed

lemma drain_frame:
  "dec buf = (Inr (Some f), r) \<Longrightarrow>
   drain dec buf = (let (fs, e, r') = drain dec r in (f # fs, e, r'))"
  by (subst drain_unfold) simp

lemma drain_error: "dec buf = (Inl e, r) \<Longrightarrow> drain dec buf = ([], Some e, r)"
  by (subst drain_unfold) simp

lemma drain_pending: "dec buf = (Inr None, r) \<Longrightarrow> drain dec buf = ([], None, r)"
  by (subst drain_unfold) simp

lemma drain_encoded:
  "\<forall>f \<in> set fs. ok f \<Longrightarrow>
   drain dec (concat (map enc fs) @ rest) = (let (gs, e, r) = drain dec rest in (fs @ gs, e, r))"
proof (induction fs)
  case Nil
  then show ?case by (simp add: case_prod_unfold)
next
  case (Cons f fs)
  then show ?case
    by (simp add: drain_frame [OF dec_enc] case_prod_unfold Let_def)
qed

lemma drain_Nil: "drain dec [] = ([], None, [])"
  by (simp add: drain_unfold [of "[]"] dec_Nil)

lemma drain_all_encoded: "\<forall>f \<in> set fs. ok f \<Longrightarrow> drain dec (concat (map enc fs)) = (fs, None, [])"
  using drain_encoded [of fs "[]"] by (simp add: drain_Nil)

end

text \<open>A decoder whose answer does not depend on how the bytes were split: more bytes never change a
  frame or an error already found, and an incomplete buffer may be retried with more bytes.\<close>

locale incremental_decoder = stream_decoder +
  assumes dec_mono_frame: "dec buf = (Inr (Some f), r) \<Longrightarrow> dec (buf @ c) = (Inr (Some f), r @ c)"
    and dec_mono_error: "dec buf = (Inl e, r) \<Longrightarrow> dec (buf @ c) = (Inl e, r @ c)"
    and dec_retry: "dec buf = (Inr None, r) \<Longrightarrow> dec (buf @ c) = dec (r @ c)"
begin

lemma drain_append:
  "drain dec buf = (fs, e, r) \<Longrightarrow>
   drain dec (buf @ c) =
     (case e of Some _ \<Rightarrow> (fs, e, r @ c)
      | None \<Rightarrow> (let (gs, e', r') = drain dec (r @ c) in (fs @ gs, e', r')))"
proof (induction "length buf" arbitrary: buf fs e r rule: less_induct)
  case less
  obtain res s where d: "dec buf = (res, s)" by force
  consider (err) e' where "res = Inl e'" | (pend) "res = Inr None" | (frame) f where "res = Inr (Some f)"
    by (cases res) auto
  then show ?case
  proof cases
    case err
    with d less.prems show ?thesis
      by (auto simp: drain_error [OF dec_mono_error] drain_error)
  next
    case pend
    then have eq: "dec (buf @ c) = dec (s @ c)" using d dec_retry by simp
    have "drain dec (buf @ c) = drain dec (s @ c)"
      by (subst (1 2) drain_unfold) (simp add: eq)
    with pend d less.prems show ?thesis by (auto simp: drain_pending case_prod_unfold)
  next
    case frame
    obtain gs e2 r2 where g: "drain dec s = (gs, e2, r2)" by (metis prod_cases3)
    have "length s < length buf" using d frame dec_shrinks by simp
    from less.hyps [OF this g] less.prems d frame g show ?thesis
      by (auto simp: drain_frame drain_frame [OF dec_mono_frame] case_prod_unfold Let_def split: option.splits)
  qed
qed

text \<open>Any way of cutting a byte stream into reads decodes to the same frames.\<close>

lemma feed_eq_drain:
  "drain dec buf = ([], None, buf) \<Longrightarrow> feed dec buf cs = drain dec (buf @ concat cs)"
proof (induction cs arbitrary: buf)
  case (Cons c cs)
  obtain fs e r where d: "drain dec (buf @ c) = (fs, e, r)" by (metis prod_cases3)
  show ?case
  proof (cases e)
    case None
    have stuck: "drain dec r = ([], None, r)" if "drain dec b = (fs, None, r)" for b fs
      using that drain_append [of b fs None r "[]"]
      by (cases "drain dec r") (simp add: Let_def)
    show ?thesis
      using Cons.IH [OF stuck [OF d [unfolded None]]] drain_append [OF d, of "concat cs"] d None
      by (simp add: case_prod_unfold)
  next
    case (Some x)
    then show ?thesis using drain_append [OF d, of "concat cs"] d by simp
  qed
qed simp

lemma feed_Nil_eq_drain: "feed dec [] cs = drain dec (concat cs)"
  using feed_eq_drain [of "[]" cs] by (simp add: drain_Nil)

end

end
