(* ===== verification/Link_Frame.thy ===== *)
theory Link_Frame
  imports Prelude
begin

text \<open>The iAP2 link frame (\<open>crates/iap2/src/frame.rs\<close>): the nine-byte header, the modular-sum
  checksums of header and payload, the link synchronisation payload (LSP), and \<open>LinkCodec\<close>, which
  finds packets in a byte stream and resynchronises after damaged ones.\<close>

section \<open>Constants and data\<close>

definition LINK_HEADER_LEN :: nat where "LINK_HEADER_LEN = 9"
definition PAYLOAD_TRAILER :: nat where "PAYLOAD_TRAILER = 1"
definition LINK_FRAME_OVERHEAD :: nat where
  "LINK_FRAME_OVERHEAD = LINK_HEADER_LEN + PAYLOAD_TRAILER"
definition LINK_MAGIC :: bytes where "LINK_MAGIC = [0xFF, 0x5A]"
definition DETECT_MARKER :: bytes where
  "DETECT_MARKER = [0xFF, 0x55, 0x02, 0x00, 0xEE, 0x10]"

text \<open>\<open>ControlBits\<close> is a \<open>bitflags\<close> set over one byte: a flag set is its bits.\<close>

type_synonym ControlBits = u8

definition SYN :: ControlBits where "SYN = 0x80"
definition ACK :: ControlBits where "ACK = 0x40"
definition EAK :: ControlBits where "EAK = 0x20"
definition RST :: ControlBits where "RST = 0x10"
definition all_bits :: ControlBits where "all_bits = SYN OR ACK OR EAK OR RST"
definition from_bits_truncate :: "u8 \<Rightarrow> ControlBits" where
  "from_bits_truncate b = b AND all_bits"
definition control_contains :: "ControlBits \<Rightarrow> ControlBits \<Rightarrow> bool" where
  "control_contains c f \<longleftrightarrow> c AND f = f"

datatype SessionType = Control | FileTransfer | ExternalAccessory

definition SessionType_from_u8 :: "u8 \<Rightarrow> SessionType option" where
  "SessionType_from_u8 b =
    (if b = 0 then Some Control
     else if b = 1 then Some FileTransfer
     else if b = 2 then Some ExternalAccessory
     else None)"

record LinkHeader =
  lh_length :: u16
  lh_control :: ControlBits
  lh_seq :: u8
  lh_ack :: u8
  lh_session_id :: u8

record LinkPacket =
  lp_header :: LinkHeader
  lp_payload :: bytes

record SessionTriple =
  st_id :: u8
  st_session_type :: u8
  st_version :: u8

record Lsp =
  lsp_version :: u8
  lsp_max_outgoing :: u8
  lsp_max_len :: u16
  lsp_retransmission_timeout_ms :: u16
  lsp_ack_timeout_ms :: u16
  lsp_max_retransmissions :: u8
  lsp_max_ack :: u8
  lsp_sessions :: "SessionTriple list"

datatype FrameError =
    Incomplete
  | BadMagic
  | BadHeaderChecksum
  | BadPayloadChecksum
  | ImplausibleLength u16 nat
  | ShortLsp
  | BadLspSessionList

section \<open>Checksums\<close>

text \<open>The byte sum is a \<open>u32\<close>; the checksum negates it as \<open>i32\<close> (the same bits) and keeps the low
  byte.\<close>

definition byte_sum :: "bytes \<Rightarrow> u32" where
  "byte_sum buf = foldl (\<lambda>acc b. acc + ucast b) 0 buf"

definition modular_sum_checksum :: "bytes \<Rightarrow> u8" where
  "modular_sum_checksum buf = ucast ((- byte_sum buf) AND 0xFF)"

definition verify_modular_sum :: "bytes \<Rightarrow> bool" where
  "verify_modular_sum buf \<longleftrightarrow> byte_sum buf AND 0xFF = 0"

section \<open>Header and packet\<close>

definition LinkHeader_header_only :: "ControlBits \<Rightarrow> u8 \<Rightarrow> u8 \<Rightarrow> LinkHeader" where
  "LinkHeader_header_only control seq ack =
    \<lparr>lh_length = of_nat LINK_HEADER_LEN, lh_control = control, lh_seq = seq, lh_ack = ack,
     lh_session_id = 0\<rparr>"

definition LinkHeader_with_payload :: "ControlBits \<Rightarrow> u8 \<Rightarrow> u8 \<Rightarrow> u8 \<Rightarrow> nat \<Rightarrow> LinkHeader" where
  "LinkHeader_with_payload control seq ack session_id payload_len =
    \<lparr>lh_length = of_nat (LINK_HEADER_LEN + payload_len + 1), lh_control = control, lh_seq = seq,
     lh_ack = ack, lh_session_id = session_id\<rparr>"

definition has_payload :: "LinkHeader \<Rightarrow> bool" where
  "has_payload h \<longleftrightarrow> unat (lh_length h) > LINK_HEADER_LEN"

definition LinkHeader_encode :: "LinkHeader \<Rightarrow> bytes" where
  "LinkHeader_encode h =
    (let buf = LINK_MAGIC @ be16 (lh_length h) @
               [lh_control h, lh_seq h, lh_ack h, lh_session_id h]
     in buf @ [modular_sum_checksum buf])"

definition LinkHeader_decode :: "bytes \<Rightarrow> FrameError + LinkHeader" where
  "LinkHeader_decode buf =
    (if length buf < LINK_HEADER_LEN then Inl Incomplete
     else if take 2 buf \<noteq> LINK_MAGIC then Inl BadMagic
     else if \<not> verify_modular_sum (take LINK_HEADER_LEN buf) then Inl BadHeaderChecksum
     else Inr \<lparr>lh_length = get16 [buf ! 2, buf ! 3],
               lh_control = from_bits_truncate (buf ! 4),
               lh_seq = buf ! 5,
               lh_ack = buf ! 6,
               lh_session_id = buf ! 7\<rparr>)"

definition LinkPacket_header_only :: "ControlBits \<Rightarrow> u8 \<Rightarrow> u8 \<Rightarrow> LinkPacket" where
  "LinkPacket_header_only control seq ack =
    \<lparr>lp_header = LinkHeader_header_only control seq ack, lp_payload = []\<rparr>"

definition LinkPacket_with_payload ::
    "ControlBits \<Rightarrow> u8 \<Rightarrow> u8 \<Rightarrow> u8 \<Rightarrow> bytes \<Rightarrow> LinkPacket" where
  "LinkPacket_with_payload control seq ack session_id payload =
    \<lparr>lp_header = LinkHeader_with_payload control seq ack session_id (length payload),
     lp_payload = payload\<rparr>"

section \<open>The link synchronisation payload\<close>

definition SessionTriple_encode :: "SessionTriple \<Rightarrow> bytes" where
  "SessionTriple_encode s = [st_id s, st_session_type s, st_version s]"

definition Lsp_accessory_default :: Lsp where
  "Lsp_accessory_default =
    \<lparr>lsp_version = 1, lsp_max_outgoing = 32, lsp_max_len = 4096,
     lsp_retransmission_timeout_ms = 6000, lsp_ack_timeout_ms = 3000,
     lsp_max_retransmissions = 30, lsp_max_ack = 3,
     lsp_sessions =
       [\<lparr>st_id = 1, st_session_type = 0, st_version = 1\<rparr>,
        \<lparr>st_id = 2, st_session_type = 1, st_version = 2\<rparr>,
        \<lparr>st_id = 3, st_session_type = 2, st_version = 1\<rparr>]\<rparr>"

definition Lsp_encode :: "Lsp \<Rightarrow> bytes" where
  "Lsp_encode l =
    [lsp_version l, lsp_max_outgoing l] @ be16 (lsp_max_len l) @
    be16 (lsp_retransmission_timeout_ms l) @ be16 (lsp_ack_timeout_ms l) @
    [lsp_max_retransmissions l, lsp_max_ack l] @
    concat (map SessionTriple_encode (lsp_sessions l))"

text \<open>\<open>as_chunks::<3>()\<close>: the whole triples, the remainder dropped.\<close>

fun session_triples :: "bytes \<Rightarrow> SessionTriple list" where
  "session_triples (a # b # c # rest) =
    \<lparr>st_id = a, st_session_type = b, st_version = c\<rparr> # session_triples rest"
| "session_triples _ = []"

definition Lsp_decode :: "bytes \<Rightarrow> FrameError + Lsp" where
  "Lsp_decode buf =
    (if length buf < 10 then Inl ShortLsp
     else let session_bytes = drop 10 buf in
       if length session_bytes mod 3 \<noteq> 0 then Inl BadLspSessionList
       else Inr \<lparr>lsp_version = buf ! 0, lsp_max_outgoing = buf ! 1,
                 lsp_max_len = get16 [buf ! 2, buf ! 3],
                 lsp_retransmission_timeout_ms = get16 [buf ! 4, buf ! 5],
                 lsp_ack_timeout_ms = get16 [buf ! 6, buf ! 7],
                 lsp_max_retransmissions = buf ! 8, lsp_max_ack = buf ! 9,
                 lsp_sessions = session_triples session_bytes\<rparr>)"

section \<open>The codec\<close>

definition link_encode :: "LinkPacket \<Rightarrow> bytes" where
  "link_encode item =
    LinkHeader_encode (lp_header item) @
    (if lp_payload item \<noteq> []
     then lp_payload item @ [modular_sum_checksum (lp_payload item)]
     else [])"

text \<open>\<open>LinkCodec::decode\<close>: the loop over the buffer, each \<open>continue\<close> a recursive call on the buffer
  after \<open>advance\<close>. The other \<open>FrameError\<close>s of the header decoder become an IO error.\<close>

function link_decode :: "bytes \<Rightarrow> (FrameError + LinkPacket option) \<times> bytes" where
  "link_decode src =
    (if length src < LINK_HEADER_LEN then (Inr None, src)
     else if take 2 src \<noteq> LINK_MAGIC then link_decode (drop 1 src)
     else case LinkHeader_decode (take LINK_HEADER_LEN src) of
       Inl e \<Rightarrow>
         (if e = Incomplete then (Inr None, src)
          else if e = BadHeaderChecksum \<or> e = BadMagic then link_decode (drop 1 src)
          else (Inl e, src))
     | Inr header \<Rightarrow>
        (let total_len = unat (lh_length header) in
         if total_len < LINK_HEADER_LEN then link_decode (drop 1 src)
         else if length src < total_len then (Inr None, src)
         else let trailer_len = total_len - LINK_HEADER_LEN in
           if trailer_len = 0
           then (Inr (Some \<lparr>lp_header = header, lp_payload = []\<rparr>), drop total_len src)
           else if \<not> verify_modular_sum (take trailer_len (drop LINK_HEADER_LEN src))
           then link_decode (drop total_len src)
           else (Inr (Some \<lparr>lp_header = header,
                            lp_payload = take (trailer_len - 1) (drop LINK_HEADER_LEN src)\<rparr>),
                 drop total_len src)))"
  by pat_completeness auto
termination
  by (relation "measure length") (auto simp: LINK_HEADER_LEN_def)

declare link_decode.simps [simp del]

section \<open>Checksum lemmas\<close>

text \<open>The low byte of the \<open>u32\<close> sum is the sum of the bytes modulo 256, whatever the length of the
  buffer, because truncation is a ring homomorphism.\<close>

lemma take_bit_8_32:
  "take_bit 8 (take_bit 32 x + take_bit 32 y :: int) = take_bit 8 (x + y)"
  "take_bit 8 (- take_bit 32 x :: int) = take_bit 8 (- x)"
  using take_bit_add [of 8 "take_bit 32 x" "take_bit 32 y"] take_bit_add [of 8 x y]
    take_bit_minus [of 8 "take_bit 32 x"] take_bit_minus [of 8 x]
  by simp_all

lemma ucast8_add: "(ucast (x + y :: u32) :: u8) = ucast x + ucast y"
  by transfer (simp add: take_bit_8_32 take_bit_add)

lemma ucast8_uminus: "(ucast (- x :: u32) :: u8) = - ucast x"
  by transfer (simp add: take_bit_8_32 take_bit_minus)

lemma and_FF: "(x :: u32) AND 0xFF = take_bit 8 x"
  by (simp add: take_bit_eq_mask mask_eq_exp_minus_1)

lemma ucast8_mask: "(ucast (x AND 0xFF :: u32) :: u8) = ucast x"
  by (rule bit_word_eqI) (auto simp: bit_simps and_FF)

lemma ucast8_ucast32: "(ucast (ucast (b :: u8) :: u32) :: u8) = b"
  by (rule bit_word_eqI) (auto simp: bit_simps)

lemma low_byte_zero_iff: "(x :: u32) AND 0xFF = 0 \<longleftrightarrow> (ucast x :: u8) = 0"
proof
  assume "(x :: u32) AND 0xFF = 0"
  then show "(ucast x :: u8) = 0" using ucast8_mask [of x] by simp
next
  assume z: "(ucast x :: u8) = 0"
  have "bit (x AND 0xFF) n \<longleftrightarrow> bit (ucast x :: u8) n" if "n < LENGTH(32)" for n
    using that by (auto simp: bit_simps and_FF)
  then show "x AND 0xFF = 0" unfolding z by (intro bit_word_eqI) auto
qed

lemma ucast_byte_sum: "(ucast (byte_sum buf) :: u8) = sum_list buf"
proof -
  have "(ucast (foldl (\<lambda>acc b. acc + ucast b) a buf :: u32) :: u8) = ucast a + sum_list buf"
    for a :: u32
    by (induction buf arbitrary: a) (simp_all add: ucast8_add ucast8_ucast32 add.assoc)
  from this [of 0] show ?thesis by (simp add: byte_sum_def)
qed

lemma modular_sum_checksum_eq: "modular_sum_checksum buf = - sum_list buf"
  by (simp add: modular_sum_checksum_def ucast8_mask ucast8_uminus ucast_byte_sum)

lemma verify_modular_sum_eq: "verify_modular_sum buf \<longleftrightarrow> sum_list buf = 0"
  by (simp add: verify_modular_sum_def low_byte_zero_iff ucast_byte_sum)

lemma verify_checksummed [simp]: "verify_modular_sum (buf @ [modular_sum_checksum buf])"
  by (simp add: verify_modular_sum_eq modular_sum_checksum_eq)

lemma sum_list_update_word:
  "i < length xs \<Longrightarrow> sum_list (xs[i := (b :: u8)]) = sum_list xs - xs ! i + b"
  by (induction xs arbitrary: i) (auto split: nat.splits simp: algebra_simps)

text \<open>A modular sum detects every change of a single byte.\<close>

lemma verify_single_byte_change:
  assumes "verify_modular_sum buf" "i < length buf" "b \<noteq> buf ! i"
  shows "\<not> verify_modular_sum (buf[i := b])"
  using assms by (simp add: verify_modular_sum_eq sum_list_update_word)

section \<open>Header lemmas\<close>

lemma length_LINK_MAGIC [simp]: "length LINK_MAGIC = 2"
  by (simp add: LINK_MAGIC_def)

lemma all_bits_eq: "all_bits = 0xF0"
  by (simp add: all_bits_def SYN_def ACK_def EAK_def RST_def)

text \<open>A control byte is canonical when it holds flags only; the decoder always produces one.\<close>

definition canonical_control :: "ControlBits \<Rightarrow> bool" where
  "canonical_control c \<longleftrightarrow> from_bits_truncate c = c"

lemma canonical_truncate [simp]: "canonical_control (from_bits_truncate b)"
  by (simp add: canonical_control_def from_bits_truncate_def and.assoc)

lemma canonical_flags [simp]:
  "canonical_control SYN" "canonical_control ACK" "canonical_control EAK" "canonical_control RST"
  "canonical_control (SYN OR ACK)" "canonical_control (ACK OR EAK)" "canonical_control (EAK OR ACK)"
  by (simp_all add: canonical_control_def from_bits_truncate_def all_bits_eq
      SYN_def ACK_def EAK_def RST_def)

lemma length_LinkHeader_encode [simp]: "length (LinkHeader_encode h) = LINK_HEADER_LEN"
  by (simp add: LinkHeader_encode_def Let_def LINK_HEADER_LEN_def)

lemma take2_LinkHeader_encode: "take 2 (LinkHeader_encode h @ rest) = LINK_MAGIC"
  by (simp add: LinkHeader_encode_def Let_def)

lemma verify_LinkHeader_encode [simp]: "verify_modular_sum (LinkHeader_encode h)"
  by (simp add: LinkHeader_encode_def Let_def del: append_assoc)

lemma be16_nth: "[be16 x ! 0, be16 x ! Suc 0] = be16 x"
  by (rule nth_equalityI) (auto simp: less_Suc_eq)

lemma LinkHeader_decode_encode:
  assumes "canonical_control (lh_control h)"
  shows "LinkHeader_decode (LinkHeader_encode h) = Inr h"
proof -
  have "take 2 (LinkHeader_encode h) = LINK_MAGIC"
    using take2_LinkHeader_encode [of h "[]"] by simp
  moreover have "LinkHeader_encode h ! 2 = be16 (lh_length h) ! 0"
    "LinkHeader_encode h ! 3 = be16 (lh_length h) ! Suc 0"
    "LinkHeader_encode h ! 4 = lh_control h" "LinkHeader_encode h ! 5 = lh_seq h"
    "LinkHeader_encode h ! 6 = lh_ack h" "LinkHeader_encode h ! 7 = lh_session_id h"
    by (simp_all add: LinkHeader_encode_def Let_def nth_append)
  ultimately show ?thesis
    using assms by (simp add: LinkHeader_decode_def be16_nth canonical_control_def)
qed

lemma LinkHeader_decode_errors:
  "LinkHeader_decode buf = Inl e \<Longrightarrow> e \<in> {Incomplete, BadMagic, BadHeaderChecksum}"
  by (auto simp: LinkHeader_decode_def split: if_splits)

lemma LinkHeader_decode_complete:
  "LINK_HEADER_LEN \<le> length src \<Longrightarrow> LinkHeader_decode (take LINK_HEADER_LEN src) \<noteq> Inl Incomplete"
  by (auto simp: LinkHeader_decode_def)

section \<open>LSP lemmas\<close>

lemma session_triples_encode [simp]:
  "session_triples (concat (map SessionTriple_encode ts)) = ts"
  by (induction ts) (simp_all add: SessionTriple_encode_def)

lemma encode_session_triples:
  "length bs mod 3 = 0 \<Longrightarrow> concat (map SessionTriple_encode (session_triples bs)) = bs"
  by (induction bs rule: session_triples.induct) (auto simp: SessionTriple_encode_def mod_Suc split: if_splits)

lemma length_encode_triples:
  "length (concat (map SessionTriple_encode ts)) = 3 * length ts"
  by (induction ts) (simp_all add: SessionTriple_encode_def)

section \<open>Codec lemmas\<close>

text \<open>A packet the link builds: canonical control bits and a length field that declares exactly what
  is sent, which the two constructors ensure for payloads that fit the field.\<close>

definition wf_packet :: "LinkPacket \<Rightarrow> bool" where
  "wf_packet p \<longleftrightarrow>
    canonical_control (lh_control (lp_header p)) \<and>
    unat (lh_length (lp_header p)) =
      (if lp_payload p = [] then LINK_HEADER_LEN
       else LINK_FRAME_OVERHEAD + length (lp_payload p))"

lemma wf_header_only: "canonical_control c \<Longrightarrow> wf_packet (LinkPacket_header_only c s a)"
  by (simp add: wf_packet_def LinkPacket_header_only_def LinkHeader_header_only_def
      LINK_HEADER_LEN_def)

lemma with_payload_length:
  "unat (lh_length (LinkHeader_with_payload c s a sid n)) = (LINK_FRAME_OVERHEAD + n) mod 65536"
proof -
  have "unat (of_nat (LINK_HEADER_LEN + n + 1) :: u16) = (LINK_HEADER_LEN + n + 1) mod 65536"
    by (simp only: unat_of_nat) simp
  then show ?thesis
    by (simp add: LinkHeader_with_payload_def LINK_FRAME_OVERHEAD_def PAYLOAD_TRAILER_def)
qed

lemma wf_with_payload:
  "canonical_control c \<Longrightarrow> pl \<noteq> [] \<Longrightarrow> LINK_FRAME_OVERHEAD + length pl < 65536 \<Longrightarrow>
   wf_packet (LinkPacket_with_payload c s a sid pl)"
  unfolding wf_packet_def
  by (simp add: LinkPacket_with_payload_def with_payload_length)
    (simp add: LinkHeader_with_payload_def)

lemma link_decode_short: "length src < LINK_HEADER_LEN \<Longrightarrow> link_decode src = (Inr None, src)"
  by (simp add: link_decode.simps)

lemma link_decode_skip:
  "LINK_HEADER_LEN \<le> length src \<Longrightarrow> take 2 src \<noteq> LINK_MAGIC \<Longrightarrow>
   link_decode src = link_decode (drop 1 src)"
  by (subst link_decode.simps) simp

lemma link_decode_bad_header:
  "LINK_HEADER_LEN \<le> length src \<Longrightarrow> \<not> verify_modular_sum (take LINK_HEADER_LEN src) \<Longrightarrow>
   link_decode src = link_decode (drop 1 src)"
  by (subst link_decode.simps) (simp add: LinkHeader_decode_def LINK_HEADER_LEN_def)

text \<open>What the decoder does at a position whose header is valid.\<close>

lemma link_decode_header:
  assumes "LinkHeader_decode (take LINK_HEADER_LEN src) = Inr h"
    "LINK_HEADER_LEN \<le> unat (lh_length h)" "unat (lh_length h) \<le> length src"
  shows "link_decode src =
    (let n = unat (lh_length h) - LINK_HEADER_LEN; body = take n (drop LINK_HEADER_LEN src) in
     if n \<noteq> 0 \<and> \<not> verify_modular_sum body then link_decode (drop (unat (lh_length h)) src)
     else (Inr (Some \<lparr>lp_header = h, lp_payload = butlast body\<rparr>), drop (unat (lh_length h)) src))"
proof -
  have len: "LINK_HEADER_LEN \<le> length src" using assms by linarith
  have magic: "take 2 src = LINK_MAGIC"
    using assms(1) len
    by (simp add: LinkHeader_decode_def LINK_HEADER_LEN_def split: if_splits)
  show ?thesis
    using assms len magic
    by (subst link_decode.simps) (simp add: Let_def butlast_take not_le)
qed

lemma link_decode_encode:
  assumes wf: "wf_packet p"
  shows "link_decode (link_encode p @ rest) = (Inr (Some p), rest)"
proof -
  let ?h = "lp_header p" and ?src = "link_encode p @ rest"
  have hd: "take LINK_HEADER_LEN ?src = LinkHeader_encode ?h"
    and tl: "drop LINK_HEADER_LEN ?src = drop LINK_HEADER_LEN (link_encode p) @ rest"
    by (simp_all add: link_encode_def)
  have dec: "LinkHeader_decode (take LINK_HEADER_LEN ?src) = Inr ?h"
    unfolding hd using wf by (intro LinkHeader_decode_encode) (simp add: wf_packet_def)
  have len: "unat (lh_length ?h) = length (link_encode p)"
    using wf by (simp add: wf_packet_def link_encode_def LINK_FRAME_OVERHEAD_def PAYLOAD_TRAILER_def)
  have body: "drop LINK_HEADER_LEN (link_encode p) =
      (if lp_payload p = [] then [] else lp_payload p @ [modular_sum_checksum (lp_payload p)])"
    by (simp add: link_encode_def)
  have ge: "LINK_HEADER_LEN \<le> length (link_encode p)" by (simp add: link_encode_def)
  then have n: "length (link_encode p) - LINK_HEADER_LEN =
      (if lp_payload p = [] then 0 else Suc (length (lp_payload p)))"
    using arg_cong [OF body, of length] by (simp split: if_splits)
  show ?thesis
    using ge by (subst link_decode_header [OF dec]) (simp_all add: len tl body n Let_def)
qed

text \<open>One turn of the decoder's loop: it waits, returns a packet, or drops bytes, and in the last two
  cases it does the same whatever follows in the buffer.\<close>

lemma link_decode_turn:
  obtains (pending) "link_decode src = (Inr None, src)"
  | (frame) p n where "0 < n" "n \<le> length src"
      "\<And>c. link_decode (src @ c) = (Inr (Some p), drop n src @ c)"
  | (skip) n where "0 < n" "n \<le> length src"
      "\<And>c. link_decode (src @ c) = link_decode (drop n src @ c)"
proof -
  let ?hd = "take LINK_HEADER_LEN src"
  consider (short) "length src < LINK_HEADER_LEN"
    | (bad) e where "LINK_HEADER_LEN \<le> length src" "LinkHeader_decode ?hd = Inl e"
    | (tiny) h where "LINK_HEADER_LEN \<le> length src" "LinkHeader_decode ?hd = Inr h"
        "unat (lh_length h) < LINK_HEADER_LEN"
    | (more) h where "LINK_HEADER_LEN \<le> length src" "LinkHeader_decode ?hd = Inr h"
        "LINK_HEADER_LEN \<le> unat (lh_length h)" "length src < unat (lh_length h)"
    | (full) h where "LinkHeader_decode ?hd = Inr h"
        "LINK_HEADER_LEN \<le> unat (lh_length h)" "unat (lh_length h) \<le> length src"
    by (cases "LinkHeader_decode ?hd") (metis not_le)+
  then show thesis
  proof cases
    case short
    then show ?thesis by (intro pending link_decode_short)
  next
    case bad
    then have "e = BadMagic \<and> take 2 src \<noteq> LINK_MAGIC \<or>
        e = BadHeaderChecksum \<and> \<not> verify_modular_sum ?hd"
      by (auto simp: LinkHeader_decode_def LINK_HEADER_LEN_def split: if_splits)
    then have "link_decode (src @ c) = link_decode (drop 1 src @ c)" for c
      using bad(1) link_decode_skip [of "src @ c"] link_decode_bad_header [of "src @ c"]
      by (auto simp: LINK_HEADER_LEN_def)
    then show ?thesis using bad(1) by (intro skip [of 1]) (auto simp: LINK_HEADER_LEN_def)
  next
    case tiny
    then have "take 2 src = LINK_MAGIC"
      by (simp add: LinkHeader_decode_def LINK_HEADER_LEN_def split: if_splits)
    then have "link_decode (src @ c) = link_decode (drop 1 src @ c)" for c
      using tiny by (subst link_decode.simps) (simp add: LINK_HEADER_LEN_def)
    then show ?thesis using tiny(1) by (intro skip [of 1]) (auto simp: LINK_HEADER_LEN_def)
  next
    case more
    then have "take 2 src = LINK_MAGIC"
      by (simp add: LinkHeader_decode_def LINK_HEADER_LEN_def split: if_splits)
    with more show ?thesis
      by (intro pending) (subst link_decode.simps, simp add: Let_def)
  next
    case full
    let ?n = "unat (lh_length h)"
    have hd: "LinkHeader_decode (take LINK_HEADER_LEN (src @ c)) = Inr h" for c
      using full by simp
    have pos: "0 < ?n" using full by (simp add: LINK_HEADER_LEN_def)
    let ?body = "take (?n - LINK_HEADER_LEN) (drop LINK_HEADER_LEN src)"
    show ?thesis
    proof (cases "?n \<noteq> LINK_HEADER_LEN \<and> \<not> verify_modular_sum ?body")
      case True
      then show ?thesis
        using full pos by (intro skip [of ?n]) (simp_all add: link_decode_header [OF hd] Let_def)
    next
      case False
      then show ?thesis
        using full pos
        by (intro frame [of ?n "\<lparr>lp_header = h, lp_payload = butlast ?body\<rparr>"])
          (auto simp: link_decode_header [OF hd] Let_def)
    qed
  qed
qed

lemma link_decode_induct [case_names pending frame skip]:
  assumes "\<And>src. link_decode src = (Inr None, src) \<Longrightarrow> P src"
    and "\<And>src p n. 0 < n \<Longrightarrow> n \<le> length src \<Longrightarrow>
      (\<And>c. link_decode (src @ c) = (Inr (Some p), drop n src @ c)) \<Longrightarrow> P src"
    and "\<And>src n. 0 < n \<Longrightarrow> n \<le> length src \<Longrightarrow>
      (\<And>c. link_decode (src @ c) = link_decode (drop n src @ c)) \<Longrightarrow> P (drop n src) \<Longrightarrow> P src"
  shows "P src"
proof (induction "length src" arbitrary: src rule: less_induct)
  case less
  show ?case
    by (rule link_decode_turn [of src]) (use assms less in auto)
qed

text \<open>The header errors that would become an IO error cannot arise from a nine-byte slice, and the
  buffer left is a suffix of the buffer given.\<close>

lemma link_decode_never_fails: "fst (link_decode src) \<noteq> Inl e"
proof (induction src rule: link_decode_induct)
  case (frame src p n)
  from frame(3) [of "[]"] show ?case by simp
next
  case (skip src n)
  from skip(3) [of "[]"] skip(4) show ?case by simp
qed simp

lemma link_decode_suffix: "\<exists>j. src = j @ snd (link_decode src)"
proof (induction src rule: link_decode_induct)
  case (frame src p n)
  from frame(3) [of "[]"] show ?case by (simp add: exI [of _ "take n src"])
next
  case (skip src n)
  then obtain j where "drop n src = j @ snd (link_decode (drop n src))" by blast
  then have "src = (take n src @ j) @ snd (link_decode (drop n src))" by simp
  then show ?case using skip(3) [of "[]"] by (metis append_Nil2)
qed simp

lemma link_decode_shrinks: "link_decode src = (Inr (Some p), r) \<Longrightarrow> length r < length src"
proof (induction src rule: link_decode_induct)
  case (frame src q n)
  from frame(1,2,4) frame(3) [of "[]"] show ?case by auto
next
  case (skip src n)
  from skip(1,2,4,5) skip(3) [of "[]"] show ?case by auto
qed auto

lemma link_decode_more_frame:
  "link_decode src = (Inr (Some p), r) \<Longrightarrow> link_decode (src @ c) = (Inr (Some p), r @ c)"
proof (induction src rule: link_decode_induct)
  case (frame src q n)
  from frame(3) [of "[]"] frame(3) [of c] frame(4) show ?case by simp
next
  case (skip src n)
  from skip(3) [of "[]"] skip(3) [of c] skip(4,5) show ?case by simp
qed auto

lemma link_decode_more_pending:
  "link_decode src = (Inr None, r) \<Longrightarrow> link_decode (src @ c) = link_decode (r @ c)"
proof (induction src rule: link_decode_induct)
  case (frame src q n)
  from frame(3) [of "[]"] frame(4) show ?case by simp
next
  case (skip src n)
  from skip(3) [of "[]"] skip(3) [of c] skip(4,5) show ?case by simp
qed auto

interpretation link_codec: incremental_decoder link_decode link_encode wf_packet
proof (unfold_locales, goal_cases)
  case (1 f rest)
  then show ?case by (rule link_decode_encode)
next
  case (2 buf f r)
  then show ?case by (rule link_decode_shrinks)
next
  case 3
  show ?case by (simp add: link_decode_short LINK_HEADER_LEN_def)
next
  case (4 buf f r c)
  then show ?case by (rule link_decode_more_frame)
next
  case (5 buf e r c)
  then show ?case using link_decode_never_fails [of buf e] by simp
next
  case (6 buf r c)
  then show ?case by (rule link_decode_more_pending)
qed

section \<open>Properties of the frame layer\<close>

text \<open>Bytes that hold no link magic; the last byte may be the first byte of one.\<close>

fun no_magic :: "bytes \<Rightarrow> bool" where
  "no_magic (a # b # rest) \<longleftrightarrow> \<not> (a = 0xFF \<and> b = 0x5A) \<and> no_magic (b # rest)"
| "no_magic _ \<longleftrightarrow> True"

lemma link_encode_hd: "link_encode p = 0xFF # 0x5A # drop 2 (link_encode p)"
  by (simp add: link_encode_def LinkHeader_encode_def LINK_MAGIC_def Let_def)

lemma length_link_encode_ge: "LINK_HEADER_LEN \<le> length (link_encode p)"
  by (simp add: link_encode_def)

lemma link_decode_garbage:
  "no_magic g \<Longrightarrow> link_decode (g @ link_encode p @ rest) = link_decode (link_encode p @ rest)"
proof (induction g rule: no_magic.induct [case_names pair empty single])
  case (pair a b g)
  then show ?case
    using length_link_encode_ge [of p]
    by (subst link_decode_skip) (auto simp: LINK_MAGIC_def LINK_HEADER_LEN_def)
next
  case (single a)
  obtain t where "link_encode p = 0xFF # 0x5A # t" using link_encode_hd by blast
  then show ?case
    using length_link_encode_ge [of p]
    by (subst link_decode_skip) (auto simp: LINK_MAGIC_def LINK_HEADER_LEN_def)
qed simp

text \<open>C29. A sequence of link packets written by the encoder is read back exactly, packet for packet
  and with nothing left over, however the transport cuts the byte stream into reads.\<close>

theorem link_stream_roundtrip:
  assumes "\<forall>p \<in> set ps. wf_packet p" "concat chunks = concat (map link_encode ps)"
  shows "feed link_decode [] chunks = (ps, None, [])"
  using assms link_codec.drain_all_encoded by (simp add: link_codec.feed_Nil_eq_drain)

theorem link_stream_roundtrip_witness:
  "let p = LinkPacket_with_payload ACK 7 3 1 [1, 2, 3]; q = LinkPacket_header_only ACK 7 4 in
   feed link_decode [] [take 4 (link_encode p), drop 4 (link_encode p) @ link_encode q] = ([p, q], None, [])"
  unfolding Let_def
  by (rule link_stream_roundtrip) (auto intro: wf_with_payload wf_header_only simp: LINK_FRAME_OVERHEAD_def
    LINK_HEADER_LEN_def PAYLOAD_TRAILER_def)

text \<open>The decoder skips any bytes without a link magic and finds the packet behind them, consuming
  exactly the garbage and the packet.\<close>

theorem link_resync:
  assumes "no_magic g" "wf_packet p"
  shows "link_decode (g @ link_encode p @ rest) = (Inr (Some p), rest)"
  using assms by (simp add: link_decode_garbage link_decode_encode)

theorem link_resync_witness:
  "link_decode ([0xFF, 0x55, 0xFF] @ link_encode (LinkPacket_header_only SYN 1 0) @ [9]) =
     (Inr (Some (LinkPacket_header_only SYN 1 0)), [9])"
  by (rule link_resync) (simp_all add: wf_header_only)

text \<open>C30. A packet with one damaged byte is never delivered: damage in the body skips exactly this
  packet, so what follows is decoded as if it had not been sent, and damage in the header makes the
  decoder give the position up.\<close>

theorem link_damaged_byte:
  assumes "wf_packet p" "i < length (link_encode p)" "b \<noteq> link_encode p ! i"
  shows "link_decode ((link_encode p)[i := b] @ rest) =
    link_decode (drop (if i < LINK_HEADER_LEN then 1 else length (link_encode p))
      ((link_encode p)[i := b]) @ rest)"
proof (cases "i < LINK_HEADER_LEN")
  case True
  let ?w = "(link_encode p)[i := b]"
  have "take LINK_HEADER_LEN ?w = (LinkHeader_encode (lp_header p))[i := b]"
    using True by (simp add: link_encode_def list_update_append)
  moreover have "\<not> verify_modular_sum ((LinkHeader_encode (lp_header p))[i := b])"
    using True assms(3) by (intro verify_single_byte_change) (auto simp: link_encode_def nth_append)
  ultimately show ?thesis
    using True length_link_encode_ge [of p] link_decode_bad_header [of "?w @ rest"]
    by (simp add: LINK_HEADER_LEN_def)
next
  case False
  let ?w = "(link_encode p)[i := b]" and ?h = "lp_header p"
  have pl: "lp_payload p \<noteq> []" using False assms(2) by (auto simp: link_encode_def)
  let ?body = "lp_payload p @ [modular_sum_checksum (lp_payload p)]"
  have w: "?w = LinkHeader_encode ?h @ ?body[i - LINK_HEADER_LEN := b]"
    using False pl by (simp add: link_encode_def list_update_append)
  have hd: "LinkHeader_decode (take LINK_HEADER_LEN (?w @ rest)) = Inr ?h"
    using assms(1) by (simp add: w LinkHeader_decode_encode wf_packet_def)
  have len: "unat (lh_length ?h) = LINK_HEADER_LEN + length ?body" "length ?w = LINK_HEADER_LEN + length ?body"
    using assms(1) pl
    by (simp_all add: wf_packet_def link_encode_def LINK_FRAME_OVERHEAD_def PAYLOAD_TRAILER_def)
  have "\<not> verify_modular_sum (?body[i - LINK_HEADER_LEN := b])"
    using False assms(2,3) pl
    by (intro verify_single_byte_change) (auto simp: link_encode_def nth_append split: if_splits)
  then have "link_decode ((LinkHeader_encode ?h @ ?body[i - LINK_HEADER_LEN := b]) @ rest) =
      link_decode rest"
    using len(1) hd [unfolded w] by (subst link_decode_header [of _ ?h]) (simp_all add: Let_def)
  then show ?thesis
    using False len(2) unfolding w by (simp add: link_encode_def pl)
qed

theorem link_damaged_byte_witness:
  "link_decode ((link_encode (LinkPacket_with_payload ACK 7 3 1 [1, 2, 3]))[10 := 5] @ [8]) =
   link_decode [8]"
proof -
  let ?p = "LinkPacket_with_payload ACK 7 3 1 [1, 2, 3]"
  have e: "link_encode ?p = [0xFF, 0x5A, 0, 13, 0x40, 7, 3, 1, 79, 1, 2, 3, 250]" by code_simp
  have "wf_packet ?p" by code_simp
  from link_damaged_byte [OF this, of 10 5 "[8]"] show ?thesis
    by (simp add: e LINK_HEADER_LEN_def)
qed

text \<open>The LSP decoder accepts exactly the encodings of LSPs: it inverts the encoder, and what it
  accepts re-encodes to the same bytes.\<close>

theorem Lsp_decode_iff_encode: "Lsp_decode buf = Inr l \<longleftrightarrow> buf = Lsp_encode l"
proof
  assume "buf = Lsp_encode l"
  then show "Lsp_decode buf = Inr l"
    by (simp add: Lsp_decode_def Lsp_encode_def length_encode_triples nth_append be16_nth)
next
  assume d: "Lsp_decode buf = Inr l"
  then have len: "10 \<le> length buf" "length (drop 10 buf) mod 3 = 0"
    by (auto simp: Lsp_decode_def Let_def split: if_splits)
  have "take 10 buf = [buf!0, buf!1, buf!2, buf!3, buf!4, buf!5, buf!6, buf!7, buf!8, buf!9]"
    using len(1) by (intro nth_equalityI) (auto simp: less_Suc_eq numeral_nat)
  then have "buf = [buf!0, buf!1, buf!2, buf!3, buf!4, buf!5, buf!6, buf!7, buf!8, buf!9] @ drop 10 buf"
    by (metis append_take_drop_id)
  with d len show "buf = Lsp_encode l"
    by (auto simp: Lsp_decode_def Lsp_encode_def Let_def be16_get16 encode_session_triples split: if_splits)
qed

end
