(* ===== verification/Iap2_Io.thy ===== *)
theory Iap2_Io
  imports Link_Frame
begin

text \<open>The error type of the \<open>iap2\<close> crate (\<open>crates/iap2/src/error.rs\<close>, with the decode errors of
  \<open>csm/mod.rs\<close>) and the writer half of the transport the link writes to.\<close>

section \<open>Errors\<close>

datatype CsmDecodeError =
    BadStartMarker u16
  | LengthTooSmall u16
  | LengthOverrun u16 nat nat
  | ParamLengthTooSmall u16
  | ParamLengthOverrun nat u16 nat
  | WrongMsgId u16 u16
  | MissingParam u16
  | DuplicateParam u16
  | ParamLength u16 nat nat
  | ParamDecode u16 string
  | StringNotTerminated u16
  | StringNotUtf8 u16

text \<open>\<open>Error::Mfi\<close> carries an error of the coprocessor crate, of which only the message matters
  here.\<close>

datatype Iap2Error =
    IoError
  | FrameErr FrameError
  | PeerDisconnectedDuringHandshake
  | PeerDisconnected
  | PeerReset
  | HandshakeTimeout string
  | UnexpectedHandshakePacket ControlBits
  | RetransmitLimit
  | CsmDecode CsmDecodeError
  | MfiError string
  | LinkClosed

section \<open>The transport's writer\<close>

text \<open>\<open>AsyncWrite\<close> of the transport: the writes that succeeded, in order, and how many more
  operations succeed before the transport fails (\<open>None\<close>: it never does).\<close>

record Writer =
  wr_sent :: "bytes list"
  wr_budget :: "nat option"

definition write_all :: "bytes \<Rightarrow> Writer \<Rightarrow> (Iap2Error + unit) \<times> Writer" where
  "write_all buf w =
    (case wr_budget w of
       None \<Rightarrow> (Inr (), w\<lparr>wr_sent := wr_sent w @ [buf]\<rparr>)
     | Some 0 \<Rightarrow> (Inl IoError, w)
     | Some (Suc n) \<Rightarrow> (Inr (), w\<lparr>wr_sent := wr_sent w @ [buf], wr_budget := Some n\<rparr>))"

definition flush :: "Writer \<Rightarrow> (Iap2Error + unit) \<times> Writer" where
  "flush w =
    (case wr_budget w of
       None \<Rightarrow> (Inr (), w)
     | Some 0 \<Rightarrow> (Inl IoError, w)
     | Some (Suc n) \<Rightarrow> (Inr (), w\<lparr>wr_budget := Some n\<rparr>))"

text \<open>\<open>write_all\<close> then \<open>flush\<close>, the second only if the first succeeded.\<close>

definition write_flush :: "bytes \<Rightarrow> Writer \<Rightarrow> (Iap2Error + unit) \<times> Writer" where
  "write_flush buf w =
    (case write_all buf w of (Inl e, w') \<Rightarrow> (Inl e, w') | (Inr _, w') \<Rightarrow> flush w')"

definition encode_packet :: "LinkPacket \<Rightarrow> bytes" where
  "encode_packet p = link_encode p"

definition write_packet :: "LinkPacket \<Rightarrow> Writer \<Rightarrow> (Iap2Error + unit) \<times> Writer" where
  "write_packet p w = write_flush (encode_packet p) w"

definition reliable :: "Writer \<Rightarrow> bool" where
  "reliable w \<longleftrightarrow> wr_budget w = None"

lemma write_flush_reliable:
  "reliable w \<Longrightarrow> write_flush buf w = (Inr (), w\<lparr>wr_sent := wr_sent w @ [buf]\<rparr>)"
  by (simp add: write_flush_def write_all_def flush_def reliable_def)

lemma write_packet_reliable:
  "reliable w \<Longrightarrow> write_packet p w = (Inr (), w\<lparr>wr_sent := wr_sent w @ [link_encode p]\<rparr>)"
  by (simp add: write_packet_def encode_packet_def write_flush_reliable)

lemma reliable_update [simp]: "reliable (w\<lparr>wr_sent := s\<rparr>) = reliable w"
  by (simp add: reliable_def)

lemma write_flush_error: "write_flush buf w = (Inl e, w') \<Longrightarrow> e = IoError"
  by (auto simp: write_flush_def write_all_def flush_def split: option.splits nat.splits)

text \<open>A successful write puts exactly its bytes on the wire; a failed one at most those.\<close>

lemma write_flush_sent:
  "write_flush buf w = (x, w') \<Longrightarrow>
   (x = Inr () \<longrightarrow> wr_sent w' = wr_sent w @ [buf]) \<and> wr_sent w' \<in> {wr_sent w, wr_sent w @ [buf]}"
  by (auto simp: write_flush_def write_all_def flush_def split: option.splits nat.splits)

end
