(* ===== verification/Link_State.thy ===== *)
theory Link_State
  imports Iap2_Io
begin

text \<open>The established link (\<open>crates/iap2/src/link/established.rs\<close>): the send window with its
  retransmission queue and timer, the receive side with its reorder buffer, the round-trip estimator
  and the throughput meter. Durations and instants are nanoseconds; a handler reads the clock once,
  as its \<open>now\<close> argument. An operation that writes returns its result, the state and the writer as
  the code leaves them, also when the write fails.\<close>

section \<open>Round-trip estimation\<close>

definition millis :: "nat \<Rightarrow> nat" where "millis n = n * 1000000"
definition secs :: "nat \<Rightarrow> nat" where "secs n = n * 1000000000"

definition RETRANSMIT_STALL_MARKER :: u8 where "RETRANSMIT_STALL_MARKER = 3"
definition METER_INTERVAL :: nat where "METER_INTERVAL = secs 5"
definition RTO_MIN :: nat where "RTO_MIN = millis 500"
definition RTO_MAX :: nat where "RTO_MAX = secs 8"
definition RETRANSMIT_GIVE_UP :: nat where "RETRANSMIT_GIVE_UP = secs 60"

record RttEstimator =
  rtt_srtt :: "nat option"
  rtt_rttvar :: nat
  rtt_seed :: nat

definition RttEstimator_new :: "nat \<Rightarrow> RttEstimator" where
  "RttEstimator_new seed = \<lparr>rtt_srtt = None, rtt_rttvar = 0, rtt_seed = seed\<rparr>"

definition abs_diff :: "nat \<Rightarrow> nat \<Rightarrow> nat" where
  "abs_diff a b = (if a < b then b - a else a - b)"

definition rtt_sample :: "nat \<Rightarrow> RttEstimator \<Rightarrow> RttEstimator" where
  "rtt_sample rtt est =
    (case rtt_srtt est of
       None \<Rightarrow> est\<lparr>rtt_srtt := Some rtt, rtt_rttvar := rtt div 2\<rparr>
     | Some srtt \<Rightarrow>
         (let err = abs_diff srtt rtt in
          est\<lparr>rtt_rttvar := (rtt_rttvar est * 3 + err) div 4,
              rtt_srtt := Some ((srtt * 7 + rtt) div 8)\<rparr>))"

definition clamp_nat :: "nat \<Rightarrow> nat \<Rightarrow> nat \<Rightarrow> nat" where
  "clamp_nat lo hi x = (if x < lo then lo else if hi < x then hi else x)"

definition rtt_rto :: "RttEstimator \<Rightarrow> nat" where
  "rtt_rto est =
    (case rtt_srtt est of
       None \<Rightarrow> rtt_seed est
     | Some srtt \<Rightarrow> clamp_nat RTO_MIN RTO_MAX (srtt + 4 * rtt_rttvar est))"

section \<open>Throughput meter\<close>

text \<open>The logged rates are left out; the report's effect is that the counters start again.\<close>

record Meter =
  mt_since :: nat
  mt_tx_bytes :: u64
  mt_tx_packets :: u32
  mt_rx_bytes :: u64
  mt_rx_packets :: u32
  mt_retransmits :: u32
  mt_window_stalls :: u32

definition Meter_new :: "nat \<Rightarrow> Meter" where
  "Meter_new now =
    \<lparr>mt_since = now, mt_tx_bytes = 0, mt_tx_packets = 0, mt_rx_bytes = 0, mt_rx_packets = 0,
     mt_retransmits = 0, mt_window_stalls = 0\<rparr>"

definition Meter_report :: "nat \<Rightarrow> Meter \<Rightarrow> Meter" where
  "Meter_report now m = Meter_new now"

section \<open>Parameters and state\<close>

record LinkParams =
  pa_max_outgoing :: u8
  pa_max_payload_len :: u16
  pa_seed_rto :: nat

definition LinkParams_from_peer_lsp :: "Lsp \<Rightarrow> LinkParams" where
  "LinkParams_from_peer_lsp lsp =
    \<lparr>pa_max_outgoing = max (lsp_max_outgoing lsp) 1,
     pa_max_payload_len =
       max (if lsp_max_len lsp < of_nat LINK_FRAME_OVERHEAD then 0
            else lsp_max_len lsp - of_nat LINK_FRAME_OVERHEAD) 1,
     pa_seed_rto = millis (unat (lsp_retransmission_timeout_ms lsp))\<rparr>"

record UnackedPacket =
  up_seq :: u8
  up_wire :: bytes
  up_sent_at :: nat
  up_retry_count :: u8

record DeliveredData =
  dd_session_id :: u8
  dd_payload :: bytes

record EstablishedState =
  es_params :: LinkParams
  es_last_sent_psn :: u8
  es_unacked :: "UnackedPacket list"
  es_pending_send :: "(u8 \<times> bytes) list"
  es_last_received_in_sequence_psn :: u8
  es_out_of_order :: "u8 \<rightharpoonup> LinkPacket"
  es_unacked_delivery :: bool
  es_must_send_ack :: bool
  es_rtt :: RttEstimator
  es_rto :: nat
  es_retransmit_at :: "nat option"
  es_last_progress :: nat
  es_give_up_after :: nat
  es_meter :: Meter

definition EstablishedState_new :: "u8 \<Rightarrow> u8 \<Rightarrow> Lsp \<Rightarrow> nat \<Rightarrow> nat \<Rightarrow> EstablishedState" where
  "EstablishedState_new initial_psn peer_initial_psn peer_lsp give_up_after now =
    (let params = LinkParams_from_peer_lsp peer_lsp in
     \<lparr>es_params = params,
      es_last_sent_psn = initial_psn,
      es_unacked = [],
      es_pending_send = [],
      es_last_received_in_sequence_psn = peer_initial_psn,
      es_out_of_order = Map.empty,
      es_unacked_delivery = False,
      es_must_send_ack = False,
      es_rtt = RttEstimator_new (pa_seed_rto params),
      es_rto = pa_seed_rto params,
      es_retransmit_at = None,
      es_last_progress = now,
      es_give_up_after = give_up_after,
      es_meter = Meter_new now\<rparr>)"

definition report_meter :: "nat \<Rightarrow> EstablishedState \<Rightarrow> EstablishedState" where
  "report_meter now st = st\<lparr>es_meter := Meter_report now (es_meter st)\<rparr>"

definition next_retransmit_deadline :: "EstablishedState \<Rightarrow> nat option" where
  "next_retransmit_deadline st = es_retransmit_at st"

definition arm_retransmit :: "nat \<Rightarrow> EstablishedState \<Rightarrow> EstablishedState" where
  "arm_retransmit now st =
    st\<lparr>es_retransmit_at := (if es_unacked st \<noteq> [] then Some (now + es_rto st) else None)\<rparr>"

text \<open>The keys of the reorder buffer in the order of the \<open>BTreeMap\<close>.\<close>

definition all_keys :: "u8 list" where "all_keys = map of_nat [0..<256]"

definition map_keys :: "(u8 \<rightharpoonup> 'a) \<Rightarrow> u8 list" where
  "map_keys m = filter (\<lambda>k. m k \<noteq> None) all_keys"

definition has_buffered_out_of_order :: "EstablishedState \<Rightarrow> bool" where
  "has_buffered_out_of_order st \<longleftrightarrow> map_keys (es_out_of_order st) \<noteq> []"

definition needs_ack :: "EstablishedState \<Rightarrow> bool" where
  "needs_ack st \<longleftrightarrow> es_must_send_ack st \<or> es_unacked_delivery st"

section \<open>Sending\<close>

text \<open>The splitting loop of \<open>enqueue_send\<close>. A maximum of zero would make it loop for ever; the
  parameters exclude it (\<open>wf_params\<close> below), and the model stops there.\<close>

function split_payload :: "nat \<Rightarrow> bytes \<Rightarrow> bytes list" where
  "split_payload maxlen remaining =
    (if 0 < maxlen \<and> length remaining > maxlen
     then take maxlen remaining # split_payload maxlen (drop maxlen remaining)
     else if remaining \<noteq> [] then [remaining] else [])"
  by pat_completeness auto
termination by (relation "measure (length \<circ> snd)") auto

declare split_payload.simps [simp del]

definition enqueue_send :: "u8 \<Rightarrow> bytes \<Rightarrow> EstablishedState \<Rightarrow> EstablishedState" where
  "enqueue_send session_id payload st =
    (if payload = [] then st
     else let maxlen = unat (pa_max_payload_len (es_params st)) in
       if length payload \<le> maxlen
       then st\<lparr>es_pending_send := es_pending_send st @ [(session_id, payload)]\<rparr>
       else st\<lparr>es_pending_send := es_pending_send st @
                 map (Pair session_id) (split_payload maxlen payload)\<rparr>)"

definition window_has_room :: "EstablishedState \<Rightarrow> bool" where
  "window_has_room st \<longleftrightarrow> length (es_unacked st) < unat (pa_max_outgoing (es_params st))"

definition mark_delivered :: "EstablishedState \<Rightarrow> EstablishedState" where
  "mark_delivered st = st\<lparr>es_unacked_delivery := True\<rparr>"

definition data_packet :: "u8 \<Rightarrow> bytes \<Rightarrow> EstablishedState \<Rightarrow> LinkPacket" where
  "data_packet session_id payload st =
    LinkPacket_with_payload ACK (es_last_sent_psn st + 1) (es_last_received_in_sequence_psn st)
      session_id payload"

text \<open>The state after a data packet has gone out.\<close>

definition record_sent :: "nat \<Rightarrow> bytes \<Rightarrow> EstablishedState \<Rightarrow> EstablishedState" where
  "record_sent now wire st =
    (let seq = es_last_sent_psn st + 1;
         m = es_meter st;
         opening = (es_unacked st = []);
         st1 = st\<lparr>es_meter := m\<lparr>mt_tx_packets := mt_tx_packets m + 1,
                                 mt_tx_bytes := mt_tx_bytes m + of_nat (length wire)\<rparr>,
                 es_last_sent_psn := seq,
                 es_unacked_delivery := False,
                 es_must_send_ack := False,
                 es_unacked := es_unacked st @
                   [\<lparr>up_seq = seq, up_wire = wire, up_sent_at = now, up_retry_count = 0\<rparr>]\<rparr>
     in if opening then arm_retransmit now (st1\<lparr>es_last_progress := now\<rparr>) else st1)"

definition send_data_packet ::
    "nat \<Rightarrow> u8 \<Rightarrow> bytes \<Rightarrow> EstablishedState \<Rightarrow> Writer \<Rightarrow> (Iap2Error + unit) \<times> EstablishedState \<times> Writer" where
  "send_data_packet now session_id payload st w =
    (let wire = encode_packet (data_packet session_id payload st) in
     case write_flush wire w of
       (Inl e, w') \<Rightarrow> (Inl e, st, w')
     | (Inr _, w') \<Rightarrow> (Inr (), record_sent now wire st, w'))"

function drain_pending_loop ::
    "nat \<Rightarrow> EstablishedState \<Rightarrow> Writer \<Rightarrow> (Iap2Error + unit) \<times> EstablishedState \<times> Writer" where
  "drain_pending_loop now st w =
    (if window_has_room st then
       (case es_pending_send st of
          [] \<Rightarrow> (Inr (), st, w)
        | (session_id, payload) # rest \<Rightarrow>
            (case send_data_packet now session_id payload (st\<lparr>es_pending_send := rest\<rparr>) w of
               (Inl e, st', w') \<Rightarrow> (Inl e, st', w')
             | (Inr _, st', w') \<Rightarrow> drain_pending_loop now st' w'))
     else (Inr (), st, w))"
  by pat_completeness auto
termination
  by (relation "measure (\<lambda>(now, st, w). length (es_pending_send st))")
    (auto simp: send_data_packet_def record_sent_def arm_retransmit_def Let_def
      split: prod.splits sum.splits if_splits)

declare drain_pending_loop.simps [simp del]

definition drain_pending_send ::
    "nat \<Rightarrow> EstablishedState \<Rightarrow> Writer \<Rightarrow> (Iap2Error + unit) \<times> EstablishedState \<times> Writer" where
  "drain_pending_send now st w =
    (case drain_pending_loop now st w of
       (Inl e, st', w') \<Rightarrow> (Inl e, st', w')
     | (Inr _, st', w') \<Rightarrow>
        (Inr (),
         (if es_pending_send st' \<noteq> []
          then st'\<lparr>es_meter := (es_meter st')\<lparr>mt_window_stalls := mt_window_stalls (es_meter st') + 1\<rparr>\<rparr>
          else st'),
         w'))"

section \<open>Acknowledging\<close>

definition clear_ack_flags :: "EstablishedState \<Rightarrow> EstablishedState" where
  "clear_ack_flags st = st\<lparr>es_unacked_delivery := False, es_must_send_ack := False\<rparr>"

definition send_standalone_ack ::
    "EstablishedState \<Rightarrow> Writer \<Rightarrow> (Iap2Error + unit) \<times> EstablishedState \<times> Writer" where
  "send_standalone_ack st w =
    (case write_packet (LinkPacket_header_only ACK (es_last_sent_psn st)
            (es_last_received_in_sequence_psn st)) w of
       (Inl e, w') \<Rightarrow> (Inl e, st, w')
     | (Inr _, w') \<Rightarrow> (Inr (), clear_ack_flags st, w'))"

text \<open>The sequence numbers an EAK lists: those after the last delivered one, up to the last key of
  the reorder buffer, that are not buffered.\<close>

definition eak_missing :: "EstablishedState \<Rightarrow> u8 \<Rightarrow> bytes" where
  "eak_missing st furthest_buffered =
    (let base = es_last_received_in_sequence_psn st;
         total = furthest_buffered - base
     in filter (\<lambda>probe. es_out_of_order st probe = None)
          (map (\<lambda>i. base + 1 + of_nat i) [0..<unat total]))"

definition send_eak ::
    "EstablishedState \<Rightarrow> Writer \<Rightarrow> (Iap2Error + unit) \<times> EstablishedState \<times> Writer" where
  "send_eak st w =
    (if map_keys (es_out_of_order st) = [] then (Inr (), st, w)
     else let payload = eak_missing st (last (map_keys (es_out_of_order st))) in
       if payload = [] then (Inr (), st, w)
       else case write_packet (LinkPacket_with_payload (EAK OR ACK) (es_last_sent_psn st)
                  (es_last_received_in_sequence_psn st) 0 payload) w of
              (Inl e, w') \<Rightarrow> (Inl e, st, w')
            | (Inr _, w') \<Rightarrow> (Inr (), clear_ack_flags st, w'))"

text \<open>\<open>find\<close> and update of the retry count of the first packet with the sequence number.\<close>

definition sat_inc :: "u8 \<Rightarrow> u8" where
  "sat_inc x = (if x = 255 then 255 else x + 1)"

fun bump_retry :: "u8 \<Rightarrow> UnackedPacket list \<Rightarrow> (UnackedPacket list \<times> bytes) option" where
  "bump_retry seq [] = None"
| "bump_retry seq (p # ps) =
    (if up_seq p = seq then Some (p\<lparr>up_retry_count := sat_inc (up_retry_count p)\<rparr> # ps, up_wire p)
     else case bump_retry seq ps of
       None \<Rightarrow> None
     | Some (ps', wire) \<Rightarrow> Some (p # ps', wire))"

fun eak_loop :: "bytes \<Rightarrow> EstablishedState \<Rightarrow> Writer \<Rightarrow> (Iap2Error + unit) \<times> EstablishedState \<times> Writer" where
  "eak_loop [] st w = (Inr (), st, w)"
| "eak_loop (missing_seq # rest) st w =
    (case bump_retry missing_seq (es_unacked st) of
       None \<Rightarrow> eak_loop rest st w
     | Some (ps, wire) \<Rightarrow>
        (case write_all wire w of
           (Inl e, w') \<Rightarrow> (Inl e, st\<lparr>es_unacked := ps\<rparr>, w')
         | (Inr _, w') \<Rightarrow> eak_loop rest (st\<lparr>es_unacked := ps\<rparr>) w'))"

definition handle_inbound_eak ::
    "bytes \<Rightarrow> EstablishedState \<Rightarrow> Writer \<Rightarrow> (Iap2Error + unit) \<times> EstablishedState \<times> Writer" where
  "handle_inbound_eak payload st w =
    (case eak_loop payload st w of
       (Inl e, st', w') \<Rightarrow> (Inl e, st', w')
     | (Inr _, st', w') \<Rightarrow> (case flush w' of (x, w'') \<Rightarrow> (x, st', w'')))"

text \<open>The loop of \<open>handle_inbound_ack\<close>: it pops packets off the front while the acknowledgement is at
  most 127 ahead of them, and takes the round-trip sample of the first one that was never
  retransmitted.\<close>

fun pop_acked :: "nat \<Rightarrow> u8 \<Rightarrow> nat option \<Rightarrow> UnackedPacket list \<Rightarrow> UnackedPacket list \<times> nat option" where
  "pop_acked now ack_value sample [] = ([], sample)"
| "pop_acked now ack_value sample (front # rest) =
    (if ack_value - up_seq front > 127 then (front # rest, sample)
     else pop_acked now ack_value
       (if sample = None \<and> up_retry_count front = 0 then Some (now - up_sent_at front) else sample)
       rest)"

definition handle_inbound_ack :: "nat \<Rightarrow> u8 \<Rightarrow> EstablishedState \<Rightarrow> EstablishedState" where
  "handle_inbound_ack now ack_value st =
    (case pop_acked now ack_value None (es_unacked st) of
       (rest, sample) \<Rightarrow>
         if length rest = length (es_unacked st) then st
         else
           let st1 = st\<lparr>es_unacked := rest\<rparr>;
               st2 = (case sample of
                        None \<Rightarrow> st1
                      | Some rtt \<Rightarrow>
                          (let est = rtt_sample rtt (es_rtt st1) in
                           st1\<lparr>es_rtt := est, es_rto := rtt_rto est\<rparr>))
           in arm_retransmit now (st2\<lparr>es_last_progress := now\<rparr>))"

section \<open>Receiving\<close>

definition delivered_of :: "LinkPacket \<Rightarrow> DeliveredData" where
  "delivered_of p = \<lparr>dd_session_id = lh_session_id (lp_header p), dd_payload = lp_payload p\<rparr>"

definition accept_in_sequence :: "u8 \<Rightarrow> EstablishedState \<Rightarrow> EstablishedState" where
  "accept_in_sequence seq st = mark_delivered (st\<lparr>es_last_received_in_sequence_psn := seq\<rparr>)"

text \<open>The inner loop of \<open>handle_inbound_data\<close>, which takes the packets that have become next out of
  the reorder buffer. The buffer has at most 256 keys and each turn removes one, so 256 turns are
  enough (\<open>deliver_buffered_enough\<close>).\<close>

primrec deliver_buffered :: "nat \<Rightarrow> EstablishedState \<Rightarrow> DeliveredData list \<times> EstablishedState" where
  "deliver_buffered 0 st = ([], st)"
| "deliver_buffered (Suc n) st =
    (let nxt = es_last_received_in_sequence_psn st + 1 in
     case es_out_of_order st nxt of
       None \<Rightarrow> ([], st)
     | Some buffered \<Rightarrow>
        (let (out, st') = deliver_buffered n
               (accept_in_sequence nxt (st\<lparr>es_out_of_order := (es_out_of_order st)(nxt := None)\<rparr>))
         in (delivered_of buffered # out, st')))"

definition handle_inbound_data :: "LinkPacket \<Rightarrow> EstablishedState \<Rightarrow> DeliveredData list \<times> EstablishedState" where
  "handle_inbound_data packet st0 =
    (let recv_seq = lh_seq (lp_header packet);
         m = es_meter st0;
         st = st0\<lparr>es_meter := m\<lparr>mt_rx_packets := mt_rx_packets m + 1,
                   mt_rx_bytes := mt_rx_bytes m + of_nat (length (lp_payload packet))\<rparr>\<rparr>;
         delta = recv_seq - es_last_received_in_sequence_psn st
     in if delta = 0 then ([], st\<lparr>es_must_send_ack := True\<rparr>)
        else if delta = 1 then
          (let (out, st') = deliver_buffered 256 (accept_in_sequence recv_seq st)
           in (delivered_of packet # out, st'))
        else if unat delta < unat (pa_max_outgoing (es_params st)) then
          ([], st\<lparr>es_out_of_order := (es_out_of_order st)(recv_seq \<mapsto> packet)\<rparr>)
        else ([], st\<lparr>es_must_send_ack := True\<rparr>))"

section \<open>Retransmitting\<close>

definition handle_retransmit_fire ::
    "nat \<Rightarrow> EstablishedState \<Rightarrow> Writer \<Rightarrow> (Iap2Error + bool) \<times> EstablishedState \<times> Writer" where
  "handle_retransmit_fire now st w =
    (if (case es_retransmit_at st of None \<Rightarrow> True | Some at \<Rightarrow> at > now) then (Inr False, st, w)
     else let stalled_for = now - es_last_progress st in
       case es_unacked st of
         [] \<Rightarrow> (Inr False, st\<lparr>es_retransmit_at := None\<rparr>, w)
       | front # rest \<Rightarrow>
           if stalled_for \<ge> es_give_up_after st then (Inr True, st, w)
           else
             let m = es_meter st;
                 st' = arm_retransmit now
                   (st\<lparr>es_unacked := front\<lparr>up_retry_count := up_retry_count front + 1\<rparr> # rest,
                       es_meter := m\<lparr>mt_retransmits := mt_retransmits m + 1\<rparr>,
                       es_rto := min (es_rto st * 2) RTO_MAX\<rparr>)
             in case write_flush (up_wire front) w of
                  (Inl e, w') \<Rightarrow> (Inl e, st', w')
                | (Inr _, w') \<Rightarrow> (Inr False, st', w'))"

end
