(* ===== verification/Link_State_Facts.thy ===== *)
theory Link_State_Facts
  imports Link_State
begin

text \<open>The invariant of an established link and its preservation by every operation of
  \<open>established.rs\<close>, then the functional behaviour of the operations: segmentation, cumulative
  acknowledgement, in-order delivery, selective acknowledgement and timer back-off.\<close>

section \<open>The invariant\<close>

definition wf_params :: "LinkParams \<Rightarrow> bool" where
  "wf_params p \<longleftrightarrow> 1 \<le> unat (pa_max_outgoing p) \<and>
    1 \<le> unat (pa_max_payload_len p) \<and> unat (pa_max_payload_len p) \<le> 65525"

text \<open>Sequence numbers are consecutive and end at the last one sent.\<close>

fun seqs_upto :: "u8 \<Rightarrow> UnackedPacket list \<Rightarrow> bool" where
  "seqs_upto l [] \<longleftrightarrow> True"
| "seqs_upto l (p # ps) \<longleftrightarrow> up_seq p + of_nat (length ps) = l \<and> seqs_upto l ps"

text \<open>What waits for an acknowledgement is the encoding of a data packet of its sequence number.\<close>

definition wf_unacked :: "UnackedPacket \<Rightarrow> bool" where
  "wf_unacked u \<longleftrightarrow> (\<exists>p. up_wire u = link_encode p \<and> wf_packet p \<and> lh_seq (lp_header p) = up_seq u \<and>
    lp_payload p \<noteq> [])"

definition wf_buffered :: "nat \<Rightarrow> u8 \<Rightarrow> u8 \<Rightarrow> (u8 \<rightharpoonup> LinkPacket) \<Rightarrow> bool" where
  "wf_buffered lo base mx m \<longleftrightarrow>
    (\<forall>k p. m k = Some p \<longrightarrow> lh_seq (lp_header p) = k \<and> lo \<le> unat (k - base) \<and> unat (k - base) < unat mx)"

definition wf_pending :: "LinkParams \<Rightarrow> (u8 \<times> bytes) list \<Rightarrow> bool" where
  "wf_pending pa q \<longleftrightarrow>
    (\<forall>(sid, pl) \<in> set q. pl \<noteq> [] \<and> length pl \<le> unat (pa_max_payload_len pa))"

definition es_inv :: "EstablishedState \<Rightarrow> bool" where
  "es_inv st \<longleftrightarrow>
    wf_params (es_params st) \<and>
    length (es_unacked st) \<le> unat (pa_max_outgoing (es_params st)) \<and>
    seqs_upto (es_last_sent_psn st) (es_unacked st) \<and>
    (\<forall>u \<in> set (es_unacked st). wf_unacked u) \<and>
    wf_buffered 2 (es_last_received_in_sequence_psn st) (pa_max_outgoing (es_params st))
      (es_out_of_order st) \<and>
    wf_pending (es_params st) (es_pending_send st) \<and>
    (es_retransmit_at st = None \<longleftrightarrow> es_unacked st = [])"

lemma seqs_upto_snoc:
  "seqs_upto l ps \<Longrightarrow> up_seq p = l + 1 \<Longrightarrow> seqs_upto (l + 1) (ps @ [p])"
  by (induction ps) auto

lemma seqs_upto_tl: "seqs_upto l ps \<Longrightarrow> seqs_upto l (drop n ps)"
  by (induction ps arbitrary: n) (auto simp: drop_Cons split: nat.splits)

lemma seqs_upto_nth:
  "seqs_upto l ps \<Longrightarrow> i < length ps \<Longrightarrow> up_seq (ps ! i) = l - of_nat (length ps - 1 - i)"
proof (induction ps arbitrary: i)
  case (Cons p ps)
  then show ?case by (cases i) (auto simp: eq_diff_eq)
qed simp

lemma seqs_upto_map: "map up_seq ps = map up_seq qs \<Longrightarrow> seqs_upto l ps = seqs_upto l qs"
proof (induction ps arbitrary: qs)
  case (Cons p ps)
  then obtain q qs' where q: "qs = q # qs'" "map up_seq ps = map up_seq qs'" "up_seq p = up_seq q"
    by (auto simp: Cons_eq_map_conv)
  from q(2) have "length ps = length qs'" by (metis length_map)
  with q Cons.IH [OF q(2)] show ?case by simp
qed simp

lemma in_all_keys [simp]: "k \<in> set all_keys"
proof -
  have "k = of_nat (unat k)" by simp
  moreover have "unat k \<in> set [0..<256]" by simp
  ultimately show ?thesis unfolding all_keys_def by (metis image_eqI set_map)
qed

lemma map_keys_empty [simp]: "map_keys m = [] \<longleftrightarrow> m = Map.empty"
  by (auto simp: map_keys_def filter_empty_conv fun_eq_iff)

lemma set_map_keys: "set (map_keys m) = dom m"
  by (auto simp: map_keys_def)

lemma wf_params_from_peer_lsp: "wf_params (LinkParams_from_peer_lsp lsp)"
proof -
  have ge8: "1 \<le> unat (max m (1 :: u8))" for m
    using word_le_nat_alt [of 1 "max m (1 :: u8)"] by simp
  have ge16: "1 \<le> unat (max m (1 :: u16))" for m
    using word_le_nat_alt [of 1 "max m (1 :: u16)"] by simp
  have le16: "unat (max m (1 :: u16)) \<le> 65525" if "unat m \<le> 65525" for m
    using that by (simp add: max_def)
  have "unat (lsp_max_len lsp - 10) \<le> 65525" if "\<not> lsp_max_len lsp < (10 :: u16)"
    using that unat16_less [of "lsp_max_len lsp"]
    by (simp add: unat_sub_if' word_less_nat_alt del: unat16_less)
  then have "unat (if lsp_max_len lsp < 10 then 0 else lsp_max_len lsp - 10) \<le> 65525" by simp
  from le16 [OF this] ge8 ge16 show ?thesis
    by (auto simp: wf_params_def LinkParams_from_peer_lsp_def LINK_FRAME_OVERHEAD_def
        LINK_HEADER_LEN_def PAYLOAD_TRAILER_def split: if_splits)
qed

section \<open>Preservation\<close>

lemma es_inv_new [inv_intros]: "es_inv (EstablishedState_new psn peer_psn lsp give_up now)"
  by (simp add: es_inv_def EstablishedState_new_def Let_def wf_params_from_peer_lsp
      wf_buffered_def wf_pending_def)

lemma es_inv_report_meter [inv_intros]: "es_inv st \<Longrightarrow> es_inv (report_meter now st)"
  by (simp add: es_inv_def report_meter_def)

lemma es_inv_clear_ack_flags [inv_intros]: "es_inv st \<Longrightarrow> es_inv (clear_ack_flags st)"
  by (simp add: es_inv_def clear_ack_flags_def)

lemma split_payload_props:
  "0 < m \<Longrightarrow> concat (split_payload m xs) = xs \<and> (\<forall>c \<in> set (split_payload m xs). c \<noteq> [] \<and> length c \<le> m)"
proof (induction m xs rule: split_payload.induct)
  case (1 m xs)
  then show ?case by (subst (1 2) split_payload.simps) auto
qed

lemma es_inv_enqueue_send [inv_intros]: "es_inv st \<Longrightarrow> es_inv (enqueue_send sid pl st)"
  using split_payload_props [of "unat (pa_max_payload_len (es_params st))" pl]
  by (auto simp: es_inv_def enqueue_send_def Let_def wf_pending_def wf_params_def)

lemma wf_data_packet:
  "pl \<noteq> [] \<Longrightarrow> length pl \<le> 65525 \<Longrightarrow> wf_packet (data_packet sid pl st)"
  by (simp add: data_packet_def wf_with_payload LINK_FRAME_OVERHEAD_def LINK_HEADER_LEN_def
      PAYLOAD_TRAILER_def)

lemma es_inv_record_sent:
  assumes "es_inv st" "window_has_room st" "pl \<noteq> []" "length pl \<le> unat (pa_max_payload_len (es_params st))"
  shows "es_inv (record_sent now (encode_packet (data_packet sid pl st)) st)"
proof -
  let ?p = "data_packet sid pl st"
  have "wf_packet ?p" using assms by (intro wf_data_packet) (auto simp: es_inv_def wf_params_def)
  moreover have "lh_seq (lp_header ?p) = es_last_sent_psn st + 1" "lp_payload ?p = pl"
    by (simp_all add: data_packet_def LinkPacket_with_payload_def LinkHeader_with_payload_def)
  ultimately have "wf_unacked \<lparr>up_seq = es_last_sent_psn st + 1, up_wire = encode_packet ?p,
      up_sent_at = now, up_retry_count = 0\<rparr>"
    using assms(3) by (auto simp: wf_unacked_def encode_packet_def)
  then show ?thesis
    using assms by (auto simp: es_inv_def record_sent_def arm_retransmit_def Let_def window_has_room_def
        seqs_upto_snoc)
qed

lemma es_inv_send_data_packet:
  assumes "es_inv st" "window_has_room st" "pl \<noteq> []" "length pl \<le> unat (pa_max_payload_len (es_params st))"
    and "send_data_packet now sid pl st w = (x, st', w')"
  shows "es_inv st'"
  using assms es_inv_record_sent
  by (auto simp: send_data_packet_def Let_def split: prod.splits sum.splits)

lemma es_inv_drain_pending_loop:
  "drain_pending_loop now st w = (x, st', w') \<Longrightarrow> es_inv st \<Longrightarrow> es_inv st'"
proof (induction now st w arbitrary: x st' w' rule: drain_pending_loop.induct)
  case (1 now st w)
  show ?case
  proof (cases "window_has_room st \<and> es_pending_send st \<noteq> []")
    case True
    then obtain sid pl rest where q: "es_pending_send st = (sid, pl) # rest"
      by (cases "es_pending_send st") auto
    let ?st = "st\<lparr>es_pending_send := rest\<rparr>"
    have inv: "es_inv ?st" "pl \<noteq> []" "length pl \<le> unat (pa_max_payload_len (es_params ?st))"
      using "1.prems"(2) q by (auto simp: es_inv_def wf_pending_def)
    have room: "window_has_room ?st" using True by (simp add: window_has_room_def)
    obtain y st1 w1 where s: "send_data_packet now sid pl ?st w = (y, st1, w1)" by (metis prod_cases3)
    have "es_inv st1" using es_inv_send_data_packet [OF inv(1) room inv(2,3) s] .
    then show ?thesis
      using "1.prems"(1) "1.IH" True q s
      by (subst (asm) drain_pending_loop.simps) (auto split: sum.splits)
  next
    case False
    then show ?thesis
      using "1.prems" by (subst (asm) drain_pending_loop.simps) (auto split: if_splits list.splits)
  qed
qed

lemma es_inv_drain_pending_send [inv_intros]:
  "drain_pending_send now st w = (x, st', w') \<Longrightarrow> es_inv st \<Longrightarrow> es_inv st'"
  unfolding drain_pending_send_def
  by (auto split: prod.splits sum.splits if_splits dest!: es_inv_drain_pending_loop simp: es_inv_def)

lemma es_inv_send_standalone_ack [inv_intros]:
  "send_standalone_ack st w = (x, st', w') \<Longrightarrow> es_inv st \<Longrightarrow> es_inv st'"
  by (auto simp: send_standalone_ack_def es_inv_clear_ack_flags split: prod.splits sum.splits)

lemma es_inv_send_eak [inv_intros]:
  "send_eak st w = (x, st', w') \<Longrightarrow> es_inv st \<Longrightarrow> es_inv st'"
  by (auto simp: send_eak_def es_inv_clear_ack_flags Let_def split: prod.splits sum.splits if_splits)

lemma bump_retry_props:
  "bump_retry s ps = Some (qs, wire) \<Longrightarrow>
   map up_seq qs = map up_seq ps \<and> map up_wire qs = map up_wire ps \<and> map up_sent_at qs = map up_sent_at ps \<and>
   (\<exists>p \<in> set ps. up_seq p = s \<and> up_wire p = wire)"
  by (induction ps arbitrary: qs wire) (auto split: if_splits option.splits)

lemma wf_unacked_map:
  "map up_seq qs = map up_seq ps \<Longrightarrow> map up_wire qs = map up_wire ps \<Longrightarrow>
   (\<forall>u \<in> set ps. wf_unacked u) \<Longrightarrow> \<forall>u \<in> set qs. wf_unacked u"
  by (induction qs arbitrary: ps) (auto simp: Cons_eq_map_conv wf_unacked_def)

lemma es_inv_unacked_map:
  assumes "es_inv st" "map up_seq qs = map up_seq (es_unacked st)"
    "map up_wire qs = map up_wire (es_unacked st)"
  shows "es_inv (st\<lparr>es_unacked := qs\<rparr>)"
  using assms map_eq_imp_length_eq [OF assms(2)] seqs_upto_map [OF assms(2)] wf_unacked_map [OF assms(2,3)]
  by (auto simp: es_inv_def)

lemma es_inv_eak_loop:
  "eak_loop payload st w = (x, st', w') \<Longrightarrow> es_inv st \<Longrightarrow> es_inv st'"
proof (induction payload arbitrary: st w)
  case (Cons m rest)
  show ?case
  proof (cases "bump_retry m (es_unacked st)")
    case None
    then show ?thesis using Cons by simp
  next
    case (Some r)
    obtain ps wire where r: "r = (ps, wire)" by force
    have inv: "es_inv (st\<lparr>es_unacked := ps\<rparr>)"
      using Cons.prems(2) bump_retry_props [OF Some [unfolded r]] by (auto intro: es_inv_unacked_map)
    obtain y w1 where "write_all wire w = (y, w1)" by force
    then show ?thesis
      using Cons.prems(1) Some r inv Cons.IH [of "st\<lparr>es_unacked := ps\<rparr>" w1]
      by (auto split: sum.splits)
  qed
qed simp

lemma es_inv_handle_inbound_eak [inv_intros]:
  "handle_inbound_eak payload st w = (x, st', w') \<Longrightarrow> es_inv st \<Longrightarrow> es_inv st'"
  by (auto simp: handle_inbound_eak_def split: prod.splits sum.splits dest: es_inv_eak_loop)

lemma pop_acked_drop:
  "pop_acked now a sample ps = (rest, s') \<Longrightarrow> rest = dropWhile (\<lambda>p. a - up_seq p \<le> 127) ps"
  by (induction now a sample ps rule: pop_acked.induct) (auto split: if_splits)

lemma dropWhile_drop: "\<exists>n. dropWhile P xs = drop n xs"
  by (metis dropWhile_eq_drop)

lemma dropWhile_length_eq: "length (dropWhile P xs) = length xs \<Longrightarrow> dropWhile P xs = xs"
  using length_dropWhile_le [of P "tl xs"] by (cases xs) auto

lemma es_inv_drop_unacked:
  assumes "es_inv st"
  shows "es_inv (arm_retransmit now (st\<lparr>es_unacked := drop n (es_unacked st), es_rtt := est,
    es_rto := rto, es_last_progress := t\<rparr>))"
  using assms
  by (auto simp: es_inv_def arm_retransmit_def seqs_upto_tl dest: in_set_dropD)

lemma handle_inbound_ack_cases:
  obtains (idle) "handle_inbound_ack now a st = st"
      "dropWhile (\<lambda>p. a - up_seq p \<le> 127) (es_unacked st) = es_unacked st"
  | (advanced) est rto where "handle_inbound_ack now a st =
      arm_retransmit now (st\<lparr>es_unacked := dropWhile (\<lambda>p. a - up_seq p \<le> 127) (es_unacked st),
        es_rtt := est, es_rto := rto, es_last_progress := now\<rparr>)"
      "rto = es_rto st \<or> rto = rtt_rto est \<and> rtt_srtt est \<noteq> None"
      "dropWhile (\<lambda>p. a - up_seq p \<le> 127) (es_unacked st) \<noteq> es_unacked st"
proof -
  obtain rest s where p: "pop_acked now a None (es_unacked st) = (rest, s)" by force
  note r = pop_acked_drop [OF p]
  show thesis
  proof (cases "length rest = length (es_unacked st)")
    case True
    then have "rest = es_unacked st" unfolding r by (rule dropWhile_length_eq)
    then show ?thesis using True p r by (intro idle) (simp_all add: handle_inbound_ack_def)
  next
    case False
    have ne: "dropWhile (\<lambda>p. a - up_seq p \<le> 127) (es_unacked st) \<noteq> es_unacked st"
      using False r by metis
    show ?thesis
    proof (cases s)
      case None
      then show ?thesis
        using False p r ne by (intro advanced [where est = "es_rtt st" and rto = "es_rto st"]) (simp_all add: handle_inbound_ack_def)
    next
      case (Some rtt)
      let ?e = "rtt_sample rtt (es_rtt st)"
      have "rtt_srtt ?e \<noteq> None" by (auto simp: rtt_sample_def Let_def split: option.splits)
      then show ?thesis
        using False p r ne Some
        by (intro advanced [where est = ?e and rto = "rtt_rto ?e"]) (simp_all add: handle_inbound_ack_def Let_def)
    qed
  qed
qed

lemma es_inv_handle_inbound_ack [inv_intros]: "es_inv st \<Longrightarrow> es_inv (handle_inbound_ack now a st)"
proof (cases rule: handle_inbound_ack_cases [of now a st])
  case (advanced est rto)
  assume inv: "es_inv st"
  obtain n where "dropWhile (\<lambda>p. a - up_seq p \<le> 127) (es_unacked st) = drop n (es_unacked st)"
    using dropWhile_drop by blast
  then show ?thesis
    unfolding advanced(1) by (simp only:) (rule es_inv_drop_unacked [OF inv])
qed simp

text \<open>Moving the base of the reorder buffer on by one lowers every distance by one.\<close>

lemma unat_minus_one: "x \<noteq> 0 \<Longrightarrow> unat (x - 1) = unat (x :: 'a :: len word) - 1"
  by (rule unat_minus_one)

lemma unat_base_Suc:
  assumes "1 \<le> unat (k - base)"
  shows "unat (k - (base + 1)) = unat (k - base :: u8) - 1"
proof -
  have "k - base \<noteq> 0" using assms by auto
  from unat_minus_one [OF this] show ?thesis by (simp add: diff_diff_eq)
qed

lemma wf_buffered_advance:
  assumes "wf_buffered 1 base mx m"
  shows "wf_buffered 1 (base + 1) mx (m(base + 1 := None))"
  unfolding wf_buffered_def
proof (intro allI impI)
  fix k p assume k: "(m(base + 1 := None)) k = Some p"
  then have ne: "k \<noteq> base + 1" and m: "m k = Some p" by (auto split: if_splits)
  from m assms have b: "lh_seq (lp_header p) = k" "1 \<le> unat (k - base)" "unat (k - base) < unat mx"
    by (auto simp: wf_buffered_def)
  have "unat (k - base) \<noteq> 1" using ne by (metis add.commute diff_eq_eq unat_1 word_unat_eq_iff)
  then show "lh_seq (lp_header p) = k \<and> 1 \<le> unat (k - (base + 1)) \<and> unat (k - (base + 1)) < unat mx"
    using b unat_base_Suc [OF b(2)] by linarith
qed

lemma wf_buffered_no_next:
  assumes "wf_buffered 1 base mx m" "m (base + 1) = None"
  shows "wf_buffered 2 base mx m"
  unfolding wf_buffered_def
proof (intro allI impI)
  fix k p assume m: "m k = Some p"
  with assms(2) have ne: "k \<noteq> base + 1" by auto
  from m assms have b: "lh_seq (lp_header p) = k" "1 \<le> unat (k - base)" "unat (k - base) < unat mx"
    by (auto simp: wf_buffered_def)
  have "unat (k - base) \<noteq> 1" using ne by (metis add.commute diff_eq_eq unat_1 word_unat_eq_iff)
  then show "lh_seq (lp_header p) = k \<and> 2 \<le> unat (k - base) \<and> unat (k - base) < unat mx"
    using b by simp
qed

text \<open>What \<open>deliver_buffered\<close> leaves alone, and the buffer it leaves.\<close>

definition same_sender :: "EstablishedState \<Rightarrow> EstablishedState \<Rightarrow> bool" where
  "same_sender s t \<longleftrightarrow> es_params s = es_params t \<and> es_last_sent_psn s = es_last_sent_psn t \<and>
    es_unacked s = es_unacked t \<and> es_pending_send s = es_pending_send t \<and>
    es_retransmit_at s = es_retransmit_at t \<and> es_rto s = es_rto t"

lemma accept_in_sequence_simps [simp]:
  "es_last_received_in_sequence_psn (accept_in_sequence q st) = q"
  "es_out_of_order (accept_in_sequence q st) = es_out_of_order st"
  "es_params (accept_in_sequence q st) = es_params st"
  "es_unacked_delivery (accept_in_sequence q st)"
  by (simp_all add: accept_in_sequence_def mark_delivered_def)

lemma same_sender_accept:
  "same_sender (accept_in_sequence q (st\<lparr>es_out_of_order := m\<rparr>)) st"
  "same_sender (accept_in_sequence q st) st"
  by (simp_all add: accept_in_sequence_def mark_delivered_def same_sender_def)

lemma same_sender_refl [simp]: "same_sender st st"
  by (simp add: same_sender_def)

lemma same_sender_trans: "same_sender a b \<Longrightarrow> same_sender b c \<Longrightarrow> same_sender a c"
  by (simp add: same_sender_def)

lemma deliver_buffered_same_sender: "same_sender (snd (deliver_buffered n st)) st"
proof (induction n arbitrary: st)
  case (Suc n)
  then show ?case
    using same_sender_trans [OF Suc same_sender_accept(1)]
    by (auto simp: Let_def case_prod_unfold split: option.splits)
qed simp

text \<open>The fuel: a buffer whose keys are within the window holds fewer than 256 of them, one key less
  each turn.\<close>

lemma wf_buffered_bound: "wf_buffered 1 base mx m \<Longrightarrow> card (dom m) < 256"
proof -
  assume wf: "wf_buffered 1 base mx m"
  have "m base \<noteq> Some p" for p
  proof
    assume "m base = Some p"
    with wf have "1 \<le> unat (base - base)" unfolding wf_buffered_def by blast
    then show False by simp
  qed
  then have "base \<notin> dom m" by (metis domD)
  then have "dom m \<subset> UNIV" by auto
  then have "card (dom m) < card (UNIV :: u8 set)" by (intro psubset_card_mono) auto
  then show ?thesis by (simp add: card_word)
qed

lemma deliver_buffered_done:
  assumes "wf_buffered 1 (es_last_received_in_sequence_psn st) (pa_max_outgoing (es_params st)) (es_out_of_order st)"
    "card (dom (es_out_of_order st)) < n"
  shows "let st' = snd (deliver_buffered n st) in
    wf_buffered 2 (es_last_received_in_sequence_psn st') (pa_max_outgoing (es_params st')) (es_out_of_order st') \<and>
    es_out_of_order st' (es_last_received_in_sequence_psn st' + 1) = None"
  using assms
proof (induction n arbitrary: st)
  case (Suc n)
  let ?nxt = "es_last_received_in_sequence_psn st + 1"
  show ?case
  proof (cases "es_out_of_order st ?nxt")
    case None
    then show ?thesis using Suc.prems by (simp add: wf_buffered_no_next)
  next
    case (Some b)
    let ?m = "(es_out_of_order st)(?nxt := None)"
    let ?st = "accept_in_sequence ?nxt (st\<lparr>es_out_of_order := ?m\<rparr>)"
    have "card (dom ?m) < card (dom (es_out_of_order st))"
      using Some by (intro psubset_card_mono) auto
    then have card: "card (dom (es_out_of_order ?st)) < n" using Suc.prems by simp
    have "wf_buffered 1 (es_last_received_in_sequence_psn ?st)
        (pa_max_outgoing (es_params ?st)) (es_out_of_order ?st)"
      using wf_buffered_advance [OF Suc.prems(1)]
      by (simp add: accept_in_sequence_def mark_delivered_def)
    note Suc.IH [OF this card]
    moreover have "snd (deliver_buffered (Suc n) st) = snd (deliver_buffered n ?st)"
      using Some by (simp add: Let_def case_prod_unfold)
    ultimately show ?thesis by (simp only:)
  qed
qed simp

lemma es_inv_same_sender:
  assumes "es_inv st" "same_sender st' st"
    "wf_buffered 2 (es_last_received_in_sequence_psn st') (pa_max_outgoing (es_params st')) (es_out_of_order st')"
  shows "es_inv st'"
  using assms by (simp add: es_inv_def same_sender_def)

lemma wf_buffered_mono: "wf_buffered n base mx m \<Longrightarrow> k \<le> n \<Longrightarrow> wf_buffered k base mx m"
  unfolding wf_buffered_def by (meson order.trans)

lemma wf_buffered_insert:
  assumes "wf_buffered 2 base mx m" "lh_seq (lp_header p) = k" "2 \<le> unat (k - base)" "unat (k - base) < unat mx"
  shows "wf_buffered 2 base mx (m(k \<mapsto> p))"
  using assms by (simp add: wf_buffered_def)

lemma unat_ge_2: "(d :: u8) \<noteq> 0 \<Longrightarrow> d \<noteq> 1 \<Longrightarrow> 2 \<le> unat d"
proof -
  assume "d \<noteq> 0" "d \<noteq> 1"
  then have "unat d \<noteq> unat (0 :: u8)" "unat d \<noteq> unat (1 :: u8)"
    by (simp_all only: word_unat_eq_iff [symmetric] not_False_eq_True)
  then show ?thesis by simp
qed

text \<open>The next packet in order: the buffer starts again from one further on.\<close>

lemma wf_buffered_in_sequence:
  assumes "wf_buffered 2 base mx m"
  shows "wf_buffered 1 (base + 1) mx m"
  unfolding wf_buffered_def
proof (intro allI impI)
  fix k p assume "m k = Some p"
  with assms have b: "lh_seq (lp_header p) = k" "2 \<le> unat (k - base)" "unat (k - base) < unat mx"
    by (auto simp: wf_buffered_def)
  then show "lh_seq (lp_header p) = k \<and> 1 \<le> unat (k - (base + 1)) \<and> unat (k - (base + 1)) < unat mx"
    using unat_base_Suc [of k base] by linarith
qed

lemma es_inv_handle_inbound_data [inv_intros]:
  assumes "es_inv st"
  shows "es_inv (snd (handle_inbound_data p st))"
proof -
  let ?q = "lh_seq (lp_header p)" and ?base = "es_last_received_in_sequence_psn st"
  let ?m = "es_meter st"
  let ?st = "st\<lparr>es_meter := ?m\<lparr>mt_rx_packets := mt_rx_packets ?m + 1,
                   mt_rx_bytes := mt_rx_bytes ?m + of_nat (length (lp_payload p))\<rparr>\<rparr>"
  have wf: "wf_buffered 2 ?base (pa_max_outgoing (es_params st)) (es_out_of_order st)"
    using assms by (simp add: es_inv_def)
  consider (dup) "?q - ?base = 0" | (nxt) "?q - ?base = 1"
    | (far) "?q - ?base \<noteq> 0" "?q - ?base \<noteq> 1" by blast
  then show ?thesis
  proof cases
    case dup
    then show ?thesis using assms by (simp add: handle_inbound_data_def Let_def es_inv_def)
  next
    case nxt
    let ?acc = "accept_in_sequence ?q ?st"
    have q: "?q = ?base + 1" using nxt by (simp add: diff_eq_eq add.commute)
    have ne: "?q \<noteq> ?base" using nxt by auto
    have wf1: "wf_buffered 1 (es_last_received_in_sequence_psn ?acc) (pa_max_outgoing (es_params ?acc)) (es_out_of_order ?acc)"
      using wf_buffered_in_sequence [OF wf] q by simp
    from deliver_buffered_done [OF wf1 wf_buffered_bound [OF wf1]]
    have "wf_buffered 2 (es_last_received_in_sequence_psn (snd (deliver_buffered 256 ?acc)))
      (pa_max_outgoing (es_params (snd (deliver_buffered 256 ?acc)))) (es_out_of_order (snd (deliver_buffered 256 ?acc)))"
      by (simp add: Let_def)
    moreover have "same_sender (snd (deliver_buffered 256 ?acc)) st"
      using deliver_buffered_same_sender [of 256 ?acc]
      by (simp add: same_sender_def accept_in_sequence_def mark_delivered_def)
    moreover have "snd (handle_inbound_data p st) = snd (deliver_buffered 256 ?acc)"
      using nxt ne by (simp add: handle_inbound_data_def Let_def case_prod_unfold)
    ultimately show ?thesis using es_inv_same_sender [OF assms] by (simp only:)
  next
    case far
    then show ?thesis
      using assms wf_buffered_insert [OF wf, of p ?q] unat_ge_2 [OF far]
      by (auto simp: handle_inbound_data_def Let_def es_inv_def)
  qed
qed

lemma es_inv_handle_retransmit_fire [inv_intros]:
  assumes "handle_retransmit_fire now st w = (x, st', w')" "es_inv st"
  shows "es_inv st'"
proof (cases "es_unacked st")
  case Nil
  then show ?thesis
    using assms by (auto simp: handle_retransmit_fire_def es_inv_def Let_def split: if_splits)
next
  case (Cons u us)
  let ?m = "es_meter st"
  let ?us = "u\<lparr>up_retry_count := up_retry_count u + 1\<rparr> # us"
  have "es_inv (st\<lparr>es_unacked := ?us\<rparr>)" using assms(2) Cons by (intro es_inv_unacked_map) auto
  then have "es_inv (arm_retransmit now (st\<lparr>es_unacked := ?us,
     es_meter := ?m\<lparr>mt_retransmits := mt_retransmits ?m + 1\<rparr>, es_rto := min (es_rto st * 2) RTO_MAX\<rparr>))"
    by (auto simp: es_inv_def arm_retransmit_def)
  then show ?thesis
    using assms Cons
    by (auto simp: handle_retransmit_fire_def Let_def split: if_splits prod.splits sum.splits)
qed

section \<open>Reachable states\<close>

text \<open>What the link task does to an established state, in any order and with any input.\<close>

inductive link_step :: "EstablishedState \<Rightarrow> EstablishedState \<Rightarrow> bool" where
  meter: "link_step st (report_meter now st)"
| enqueue: "link_step st (enqueue_send sid pl st)"
| drain: "drain_pending_send now st w = (x, st', w') \<Longrightarrow> link_step st st'"
| ack_out: "send_standalone_ack st w = (x, st', w') \<Longrightarrow> link_step st st'"
| eak_out: "send_eak st w = (x, st', w') \<Longrightarrow> link_step st st'"
| ack_in: "link_step st (handle_inbound_ack now a st)"
| eak_in: "handle_inbound_eak payload st w = (x, st', w') \<Longrightarrow> link_step st st'"
| data_in: "link_step st (snd (handle_inbound_data p st))"
| fire: "handle_retransmit_fire now st w = (x, st', w') \<Longrightarrow> link_step st st'"

inductive link_reachable :: "EstablishedState \<Rightarrow> bool" where
  start: "link_reachable (EstablishedState_new psn peer_psn lsp give_up now)"
| step: "link_reachable st \<Longrightarrow> link_step st st' \<Longrightarrow> link_reachable st'"

inductive_cases link_stepE: "link_step st st'"

lemma es_inv_step: "link_step st st' \<Longrightarrow> es_inv st \<Longrightarrow> es_inv st'"
  by (induction rule: link_step.induct) (auto intro: inv_intros)

text \<open>The retransmission timeout: the peer's value until a round trip has been measured, between
  500 ms and 8 s afterwards, and at most doubled by a retransmission.\<close>

definition rto_inv :: "EstablishedState \<Rightarrow> bool" where
  "rto_inv st \<longleftrightarrow> min (pa_seed_rto (es_params st)) RTO_MIN \<le> es_rto st \<and>
    es_rto st \<le> max (pa_seed_rto (es_params st)) RTO_MAX"

lemma clamp_nat_bounds: "lo \<le> hi \<Longrightarrow> lo \<le> clamp_nat lo hi x \<and> clamp_nat lo hi x \<le> hi"
  by (simp add: clamp_nat_def)

lemma rto_min_max: "RTO_MIN \<le> RTO_MAX"
  by (simp add: RTO_MIN_def RTO_MAX_def millis_def secs_def)

lemma rtt_rto_bounds: "rtt_srtt est \<noteq> None \<Longrightarrow> RTO_MIN \<le> rtt_rto est \<and> rtt_rto est \<le> RTO_MAX"
  using clamp_nat_bounds [OF rto_min_max] by (auto simp: rtt_rto_def)

definition same_timer :: "EstablishedState \<Rightarrow> EstablishedState \<Rightarrow> bool" where
  "same_timer s t \<longleftrightarrow> es_params s = es_params t \<and> es_rto s = es_rto t"

lemma same_timer_trans: "same_timer a b \<Longrightarrow> same_timer b c \<Longrightarrow> same_timer a c"
  by (simp add: same_timer_def)

lemma rto_inv_same_timer: "same_timer st' st \<Longrightarrow> rto_inv st \<Longrightarrow> rto_inv st'"
  by (simp add: same_timer_def rto_inv_def)

lemma same_timer_send_data:
  "send_data_packet now sid pl st w = (x, st', w') \<Longrightarrow> same_timer st' st"
  by (auto simp: send_data_packet_def record_sent_def arm_retransmit_def Let_def same_timer_def
      split: prod.splits sum.splits)

lemma same_timer_drain_loop:
  "drain_pending_loop now st w = (x, st', w') \<Longrightarrow> same_timer st' st"
proof (induction now st w arbitrary: x st' w' rule: drain_pending_loop.induct)
  case (1 now st w)
  show ?case
  proof (cases "window_has_room st \<and> es_pending_send st \<noteq> []")
    case True
    then obtain sid pl rest where q: "es_pending_send st = (sid, pl) # rest"
      by (cases "es_pending_send st") auto
    let ?st = "st\<lparr>es_pending_send := rest\<rparr>"
    obtain y st1 w1 where s: "send_data_packet now sid pl ?st w = (y, st1, w1)" by (metis prod_cases3)
    have t: "same_timer st1 st" using same_timer_send_data [OF s] by (simp add: same_timer_def)
    then show ?thesis
      using "1.prems" "1.IH" True q s same_timer_trans [OF _ t]
      by (subst (asm) drain_pending_loop.simps) (auto split: sum.splits)
  next
    case False
    then show ?thesis
      using "1.prems"
      by (subst (asm) drain_pending_loop.simps) (auto split: if_splits list.splits simp: same_timer_def)
  qed
qed

lemma same_timer_eak_loop: "eak_loop payload st w = (x, st', w') \<Longrightarrow> same_timer st' st"
proof (induction payload arbitrary: st w)
  case (Cons m rest)
  have "same_timer (st\<lparr>es_unacked := ps\<rparr>) st" for ps by (simp add: same_timer_def)
  with Cons show ?case
    by (fastforce split: option.splits prod.splits sum.splits intro: same_timer_trans)
qed (simp add: same_timer_def)

lemma same_timer_deliver: "same_timer (snd (deliver_buffered n st)) st"
  using deliver_buffered_same_sender [of n st] by (simp add: same_timer_def same_sender_def)

lemma same_timer_inbound_data: "same_timer (snd (handle_inbound_data p st)) st"
  using same_timer_deliver
  by (auto simp: handle_inbound_data_def Let_def case_prod_unfold same_timer_def accept_in_sequence_def
      mark_delivered_def)

lemma rto_inv_step: "link_step st st' \<Longrightarrow> rto_inv st \<Longrightarrow> rto_inv st'"
proof (induction rule: link_step.induct)
  case (drain now st w x st' w')
  then show ?case
    by (auto simp: drain_pending_send_def rto_inv_def same_timer_def dest!: same_timer_drain_loop
        split: prod.splits sum.splits if_splits)
next
  case (ack_in st now a)
  then show ?case
  proof (cases rule: handle_inbound_ack_cases [of now a st])
    case (advanced est rto)
    then show ?thesis
      using ack_in rtt_rto_bounds [of est] by (auto simp: rto_inv_def arm_retransmit_def)
  qed simp
next
  case (eak_in payload st w x st' w')
  then show ?case
    by (auto simp: handle_inbound_eak_def dest!: same_timer_eak_loop split: prod.splits sum.splits
        intro: rto_inv_same_timer)
next
  case (data_in st p)
  then show ?case using rto_inv_same_timer [OF same_timer_inbound_data] by blast
next
  case (fire now st w x st' w')
  then show ?case
    by (auto simp: handle_retransmit_fire_def Let_def rto_inv_def arm_retransmit_def RTO_MIN_def RTO_MAX_def
        millis_def secs_def split: if_splits list.splits prod.splits sum.splits)
qed (auto simp: rto_inv_def report_meter_def enqueue_send_def Let_def send_standalone_ack_def send_eak_def
    clear_ack_flags_def split: prod.splits sum.splits if_splits)

lemma reachable_invariants: "link_reachable st \<Longrightarrow> es_inv st \<and> rto_inv st"
proof (induction rule: link_reachable.induct)
  case (start psn peer_psn lsp give_up now)
  have "rto_inv (EstablishedState_new psn peer_psn lsp give_up now)"
    by (simp add: rto_inv_def EstablishedState_new_def Let_def)
  then show ?case by (simp add: es_inv_new)
next
  case (step st st')
  then show ?case using es_inv_step rto_inv_step by blast
qed

end
