(* ===== verification/Link_Behaviour.thy ===== *)
theory Link_Behaviour
  imports Link_State_Facts
begin

text \<open>What the operations of the established link compute, on every branch: the properties of
  \<open>established.rs\<close> that rest on the invariant of \<open>Link_State_Facts\<close>.\<close>

section \<open>Reachable states\<close>

text \<open>C27. Whatever the order of sends, timer firings and received packets, the established link keeps
  its invariant: at most \<open>max_outgoing\<close> packets are outstanding, their sequence numbers are
  consecutive up to the last one sent and their retransmission copies are encodings of them, the
  reorder buffer holds packets under their own number inside the window and never the next expected
  one, queued chunks fit a packet, and the retransmission timer is armed exactly while something is
  outstanding.\<close>

theorem link_reachable_invariant: "link_reachable st \<Longrightarrow> es_inv st"
  using reachable_invariants by blast

theorem link_reachable_invariant_witness:
  "es_inv (enqueue_send 1 [1, 2] (EstablishedState_new 99 50 Lsp_accessory_default 60 0))"
  by (rule link_reachable_invariant)
    (rule link_reachable.step [OF link_reachable.start link_step.enqueue])

text \<open>In every reachable state the retransmission timeout lies between the smaller of the peer's
  announced timeout and 500 ms and the larger of it and 8 s.\<close>

theorem link_rto_bounds:
  assumes "link_reachable st"
  shows "min (pa_seed_rto (es_params st)) RTO_MIN \<le> es_rto st \<and>
    es_rto st \<le> max (pa_seed_rto (es_params st)) RTO_MAX"
  using reachable_invariants [OF assms] by (simp add: rto_inv_def)

theorem link_rto_bounds_witness:
  "let st = report_meter 5 (EstablishedState_new 99 50 Lsp_accessory_default 60 0) in
   min (pa_seed_rto (es_params st)) RTO_MIN \<le> es_rto st \<and> es_rto st \<le> max (pa_seed_rto (es_params st)) RTO_MAX"
  unfolding Let_def
  by (rule link_rto_bounds) (rule link_reachable.step [OF link_reachable.start link_step.meter])

section \<open>Segmentation\<close>

lemma enqueue_send_eq:
  "enqueue_send sid pl st = st\<lparr>es_pending_send := es_pending_send st @
     map (Pair sid) (split_payload (unat (pa_max_payload_len (es_params st))) pl)\<rparr>"
  by (auto simp: enqueue_send_def Let_def split_payload.simps)

lemma split_payload_more:
  "0 < m \<Longrightarrow> length xs > m \<Longrightarrow> split_payload m xs = take m xs # split_payload m (drop m xs)"
  by (subst split_payload.simps) simp

lemma split_payload_last:
  "length xs \<le> m \<Longrightarrow> split_payload m xs = (if xs = [] then [] else [xs])"
  by (subst split_payload.simps) simp

lemma length_split_payload: "0 < m \<Longrightarrow> length (split_payload m xs) = (length xs + m - 1) div m"
proof (induction m xs rule: split_payload.induct)
  case (1 m xs)
  consider (more) "length xs > m" | (one) "length xs \<le> m" "xs \<noteq> []" | (none) "xs = []" by force
  then show ?case
  proof cases
    case more
    have "length xs + m - 1 = (length (drop m xs) + m - 1) + m" using more by simp
    then have "(length xs + m - 1) div m = Suc ((length (drop m xs) + m - 1) div m)"
      using \<open>0 < m\<close> by (simp only: div_add_self2)
    with more 1 show ?thesis by (simp add: split_payload_more)
  next
    case one
    then have "length xs + m - 1 = (length xs - 1) + m" by (cases xs) auto
    moreover have "(length xs - 1) div m = 0" using one \<open>0 < m\<close> by (cases xs) auto
    ultimately have "(length xs + m - 1) div m = 1"
      using \<open>0 < m\<close> by (simp only: div_add_self2)
    with one show ?thesis by (simp add: split_payload_last)
  next
    case none
    with \<open>0 < m\<close> show ?thesis by (simp add: split_payload_last)
  qed
qed

text \<open>Queuing a payload appends the fewest segments that carry it: they concatenate to the
  payload, each holds between one byte and the peer's maximum, there are the payload's length over
  the maximum of them, rounded up, and nothing else of the state changes.\<close>

theorem enqueue_send_segments:
  assumes "wf_params (es_params st)"
  shows "let mx = unat (pa_max_payload_len (es_params st));
      new = drop (length (es_pending_send st)) (es_pending_send (enqueue_send sid pl st))
    in enqueue_send sid pl st = st\<lparr>es_pending_send := es_pending_send st @ new\<rparr> \<and>
       concat (map snd new) = pl \<and>
       (\<forall>(s, c) \<in> set new. s = sid \<and> 1 \<le> length c \<and> length c \<le> mx) \<and>
       length new = (length pl + mx - 1) div mx"
proof -
  let ?mx = "unat (pa_max_payload_len (es_params st))"
  have pos: "0 < ?mx" using assms(1) by (simp add: wf_params_def)
  show ?thesis
    using split_payload_props [OF pos, of pl] length_split_payload [OF pos, of pl]
    by (auto simp: enqueue_send_eq comp_def Suc_le_eq Let_def)
qed

theorem enqueue_send_segments_witness:
  "let st = EstablishedState_new 99 50 (Lsp_accessory_default\<lparr>lsp_max_len := 12\<rparr>) 60 0;
     st' = enqueue_send 7 [1, 2, 3, 4, 5] st
   in es_pending_send st' = [(7, [1, 2]), (7, [3, 4]), (7, [5])] \<and> length (es_pending_send st') = 3"
proof -
  let ?st = "EstablishedState_new 99 50 (Lsp_accessory_default\<lparr>lsp_max_len := 12\<rparr>) 60 0"
  have m: "unat (pa_max_payload_len (es_params ?st)) = 2" "es_pending_send ?st = []"
    by (simp_all add: EstablishedState_new_def Let_def LinkParams_from_peer_lsp_def
        LINK_FRAME_OVERHEAD_def LINK_HEADER_LEN_def PAYLOAD_TRAILER_def)
  then have e: "es_pending_send (enqueue_send 7 [1, 2, 3, 4, 5] ?st) = [(7, [1, 2]), (7, [3, 4]), (7, [5])]"
    by (simp add: enqueue_send_eq split_payload_more split_payload_last)
  have "wf_params (es_params ?st)" by (simp add: EstablishedState_new_def Let_def wf_params_from_peer_lsp)
  from enqueue_send_segments [OF this, of 7 "[1, 2, 3, 4, 5]"] e m show ?thesis by (simp add: Let_def)
qed

section \<open>Cumulative acknowledgement\<close>

lemma unat_sub_of_nat: "k \<le> i \<Longrightarrow> i < 256 \<Longrightarrow> unat (of_nat i - of_nat k :: u8) = i - k"
  by (simp add: of_nat_diff [symmetric] del: of_nat_diff)

lemma unat_sub_of_nat_neg: "i < k \<Longrightarrow> k - i \<le> 255 \<Longrightarrow> unat (of_nat i - of_nat k :: u8) = 256 - (k - i)"
proof -
  assume a: "i < k" "k - i \<le> 255"
  have "(of_nat i - of_nat k :: u8) = of_nat (256 + i - k)"
  proof -
    have "(of_nat (256 + i - k) :: u8) = of_nat (256 + i) - of_nat k"
      using a by (intro of_nat_diff) auto
    then show ?thesis by simp
  qed
  then have "unat (of_nat i - of_nat k :: u8) = (256 + i - k) mod 256"
    by (simp only: unat_of_nat8)
  then show ?thesis using a by simp
qed

lemma acked_nth:
  assumes "seqs_upto l ps" "i < length ps" "length ps \<le> 128" "k < length ps \<or> i = 0 \<and> k \<le> length ps + 127"
  shows "(l - of_nat k - up_seq (ps ! i) \<le> 127) = (k + i < length ps)"
proof -
  let ?j = "length ps - 1 - i"
  have e: "l - of_nat k - up_seq (ps ! i) = of_nat ?j - of_nat k"
    using seqs_upto_nth [OF assms(1,2)] by simp
  have "unat (of_nat ?j - of_nat k :: u8) \<le> 127 \<longleftrightarrow> k \<le> ?j"
  proof (cases "k \<le> ?j")
    case True
    have "?j - k \<le> 127" using assms(3) by linarith
    then show ?thesis using True assms(3) unat_sub_of_nat [of k ?j] by linarith
  next
    case False
    have "256 - (k - ?j) \<ge> 128" using assms(2-4) by linarith
    moreover have "unat (of_nat ?j - of_nat k :: u8) = 256 - (k - ?j)"
      using False assms(2-4) by (intro unat_sub_of_nat_neg) linarith+
    ultimately show ?thesis using False by linarith
  qed
  moreover have "k \<le> ?j \<longleftrightarrow> k + i < length ps" using assms(2) by linarith
  ultimately show ?thesis unfolding e word_le_nat_alt by simp
qed

lemma dropWhile_threshold:
  "(\<And>i. i < length xs \<Longrightarrow> P (xs ! i) = (i < n)) \<Longrightarrow> dropWhile P xs = drop n xs"
proof (induction xs arbitrary: n)
  case (Cons x xs)
  show ?case
  proof (cases n)
    case 0
    then show ?thesis using Cons.prems [of 0] by simp
  next
    case (Suc m)
    have "dropWhile P xs = drop m xs"
      using Cons.prems [of "Suc _"] Suc by (intro Cons.IH) simp
    then show ?thesis using Cons.prems [of 0] Suc by simp
  qed
qed simp

lemma handle_inbound_ack_unacked:
  "es_unacked (handle_inbound_ack now a st) = dropWhile (\<lambda>p. a - up_seq p \<le> 127) (es_unacked st)"
  by (cases rule: handle_inbound_ack_cases [of now a st]) (auto simp: arm_retransmit_def)

lemma inbound_ack_drop:
  assumes "es_inv st" "length (es_unacked st) \<le> 128" "k \<le> length (es_unacked st) + 127"
  shows "es_unacked (handle_inbound_ack now (es_last_sent_psn st - of_nat k) st) =
      drop (length (es_unacked st) - k) (es_unacked st)"
proof -
  let ?us = "es_unacked st"
  have s: "seqs_upto (es_last_sent_psn st) ?us" using assms(1) by (simp add: es_inv_def)
  show ?thesis
  proof (cases "k < length ?us")
    case True
    then show ?thesis
      unfolding handle_inbound_ack_unacked
      using acked_nth [OF s _ assms(2)] by (intro dropWhile_threshold) (simp add: less_diff_conv add.commute)
  next
    case False
    then show ?thesis
      unfolding handle_inbound_ack_unacked
      using acked_nth [OF s _ assms(2), of 0 k] assms(3) by (cases ?us) auto
  qed
qed

lemma inbound_ack_frame:
  "es_last_sent_psn (handle_inbound_ack now a st) = es_last_sent_psn st"
  "es_params (handle_inbound_ack now a st) = es_params st"
  "es_pending_send (handle_inbound_ack now a st) = es_pending_send st"
  "es_out_of_order (handle_inbound_ack now a st) = es_out_of_order st"
  by (cases rule: handle_inbound_ack_cases [of now a st]; simp add: arm_retransmit_def)+

text \<open>With at most 128 packets outstanding, an acknowledgement of the packet \<open>k\<close> before the last
  one sent removes exactly the packets up to that one, in whatever order acknowledgements arrive: one
  that is up to 128 packets behind the oldest outstanding packet is stale and changes nothing at all,
  and any other restarts the give-up clock and the timer.\<close>

theorem cumulative_ack:
  assumes "es_inv st" "length (es_unacked st) \<le> 128" "k \<le> length (es_unacked st) + 127"
  shows "let st' = handle_inbound_ack now (es_last_sent_psn st - of_nat k) st in
    es_unacked st' = drop (length (es_unacked st) - k) (es_unacked st) \<and>
    (if k < length (es_unacked st)
     then es_last_progress st' = now \<and>
       es_retransmit_at st' = (if es_unacked st' = [] then None else Some (now + es_rto st'))
     else st' = st)"
proof -
  let ?a = "es_last_sent_psn st - of_nat k"
  have drop: "es_unacked (handle_inbound_ack now ?a st) = drop (length (es_unacked st) - k) (es_unacked st)"
    by (rule inbound_ack_drop [OF assms])
  show ?thesis
  proof (cases rule: handle_inbound_ack_cases [of now ?a st])
    case idle
    have "length (drop (length (es_unacked st) - k) (es_unacked st)) = length (es_unacked st)"
      using drop idle(1) by simp
    then have "\<not> k < length (es_unacked st)" by simp
    then show ?thesis using drop idle(1) by (simp add: Let_def)
  next
    case (advanced est rto)
    have "drop (length (es_unacked st) - k) (es_unacked st) \<noteq> es_unacked st"
      using advanced(3) drop handle_inbound_ack_unacked [of now ?a st] by simp
    then have "k < length (es_unacked st)" by (cases "k < length (es_unacked st)") simp_all
    then show ?thesis
      using drop unfolding Let_def advanced(1) by (simp add: arm_retransmit_def)
  qed
qed

definition sample_send :: "bytes \<Rightarrow> EstablishedState \<Rightarrow> EstablishedState" where
  "sample_send pl st = record_sent 7 (encode_packet (data_packet 1 pl st)) st"

definition sample_state :: EstablishedState where
  "sample_state = sample_send [3] (sample_send [2] (sample_send [1]
     (EstablishedState_new 254 50 Lsp_accessory_default RETRANSMIT_GIVE_UP 0)))"

lemma sample_send_simps [simp]:
  "es_last_sent_psn (sample_send pl st) = es_last_sent_psn st + 1"
  "map up_seq (es_unacked (sample_send pl st)) = map up_seq (es_unacked st) @ [es_last_sent_psn st + 1]"
  "length (es_unacked (sample_send pl st)) = Suc (length (es_unacked st))"
  "es_params (sample_send pl st) = es_params st"
  "es_out_of_order (sample_send pl st) = es_out_of_order st"
  "es_last_received_in_sequence_psn (sample_send pl st) = es_last_received_in_sequence_psn st"
  by (simp_all add: sample_send_def record_sent_def Let_def arm_retransmit_def)

lemma sample_start_simps [simp]:
  "es_last_sent_psn (EstablishedState_new psn peer lsp g now) = psn"
  "es_unacked (EstablishedState_new psn peer lsp g now) = []"
  "es_pending_send (EstablishedState_new psn peer lsp g now) = []"
  "es_params (EstablishedState_new psn peer lsp g now) = LinkParams_from_peer_lsp lsp"
  "es_out_of_order (EstablishedState_new psn peer lsp g now) = Map.empty"
  "es_last_received_in_sequence_psn (EstablishedState_new psn peer lsp g now) = peer"
  by (simp_all add: EstablishedState_new_def Let_def)

lemma default_params [simp]:
  "unat (pa_max_outgoing (LinkParams_from_peer_lsp Lsp_accessory_default)) = 32"
  "unat (pa_max_payload_len (LinkParams_from_peer_lsp Lsp_accessory_default)) = 4086"
  by (simp_all add: LinkParams_from_peer_lsp_def Lsp_accessory_default_def LINK_FRAME_OVERHEAD_def
      LINK_HEADER_LEN_def PAYLOAD_TRAILER_def)

lemma es_inv_sample_send:
  "es_inv st \<Longrightarrow> window_has_room st \<Longrightarrow> es_inv (sample_send [x] st)"
  unfolding sample_send_def by (rule es_inv_record_sent) (auto simp: es_inv_def wf_params_def)

lemma es_inv_sample: "es_inv sample_state"
  unfolding sample_state_def
  by (intro es_inv_sample_send es_inv_new) (simp_all add: window_has_room_def)

lemma sample_state_seqs: "map up_seq (es_unacked sample_state) = [255, 0, 1]"
  "es_last_sent_psn sample_state = 1" "length (es_unacked sample_state) = 3"
  by (simp_all add: sample_state_def)

theorem cumulative_ack_witness:
  "map up_seq (es_unacked sample_state) = [255, 0, 1] \<and>
   map up_seq (es_unacked (handle_inbound_ack 9 0 sample_state)) = [1]"
proof -
  have "map up_seq (drop 2 (es_unacked sample_state)) = [1]"
    by (simp add: drop_map [symmetric] sample_state_seqs)
  then show ?thesis
    using cumulative_ack [OF es_inv_sample, of 1 9] sample_state_seqs by (simp add: Let_def)
qed

section \<open>In-order delivery\<close>

definition meter_rx :: "LinkPacket \<Rightarrow> EstablishedState \<Rightarrow> EstablishedState" where
  "meter_rx p st = (let m = es_meter st in
     st\<lparr>es_meter := m\<lparr>mt_rx_packets := mt_rx_packets m + 1,
                      mt_rx_bytes := mt_rx_bytes m + of_nat (length (lp_payload p))\<rparr>\<rparr>)"

lemma meter_rx_simps [simp]:
  "es_last_received_in_sequence_psn (meter_rx p st) = es_last_received_in_sequence_psn st"
  "es_out_of_order (meter_rx p st) = es_out_of_order st"
  "es_params (meter_rx p st) = es_params st"
  "es_unacked (meter_rx p st) = es_unacked st"
  "es_last_sent_psn (meter_rx p st) = es_last_sent_psn st"
  by (simp_all add: meter_rx_def Let_def)

text \<open>The four branches of \<open>handle_inbound_data\<close>.\<close>

lemma inbound_data_next:
  assumes "lh_seq (lp_header p) = es_last_received_in_sequence_psn st + 1"
  shows "handle_inbound_data p st =
    (let (out, st') = deliver_buffered 256 (accept_in_sequence (lh_seq (lp_header p)) (meter_rx p st))
     in (delivered_of p # out, st'))"
  using assms by (simp add: handle_inbound_data_def meter_rx_def Let_def)

lemma inbound_data_dup:
  assumes "lh_seq (lp_header p) = es_last_received_in_sequence_psn st"
  shows "handle_inbound_data p st = ([], (meter_rx p st)\<lparr>es_must_send_ack := True\<rparr>)"
  using assms by (simp add: handle_inbound_data_def meter_rx_def Let_def)

lemma inbound_data_buffer:
  assumes "2 \<le> unat (lh_seq (lp_header p) - es_last_received_in_sequence_psn st)"
    "unat (lh_seq (lp_header p) - es_last_received_in_sequence_psn st) < unat (pa_max_outgoing (es_params st))"
  shows "handle_inbound_data p st =
    ([], (meter_rx p st)\<lparr>es_out_of_order := (es_out_of_order st)(lh_seq (lp_header p) \<mapsto> p)\<rparr>)"
  using assms by (auto simp: handle_inbound_data_def meter_rx_def Let_def)

lemma inbound_data_drop:
  assumes "2 \<le> unat (lh_seq (lp_header p) - es_last_received_in_sequence_psn st)"
    "unat (pa_max_outgoing (es_params st)) \<le> unat (lh_seq (lp_header p) - es_last_received_in_sequence_psn st)"
  shows "handle_inbound_data p st = ([], (meter_rx p st)\<lparr>es_must_send_ack := True\<rparr>)"
  using assms by (auto simp: handle_inbound_data_def meter_rx_def Let_def)

lemma deliver_buffered_none:
  "0 < n \<Longrightarrow> es_out_of_order st (es_last_received_in_sequence_psn st + 1) = None \<Longrightarrow>
   deliver_buffered n st = ([], st)"
  by (cases n) auto

text \<open>The packets taken from the buffer are those of the next sequence numbers, in order, and the
  others stay.\<close>

lemma deliver_buffered_run:
  assumes "deliver_buffered n st = (out, st')" "n \<le> 256"
  shows "es_last_received_in_sequence_psn st' = es_last_received_in_sequence_psn st + of_nat (length out) \<and>
    length out \<le> n \<and>
    (\<forall>i < length out. \<exists>b. es_out_of_order st (es_last_received_in_sequence_psn st + 1 + of_nat i) = Some b \<and>
       out ! i = delivered_of b) \<and>
    es_out_of_order st' = (\<lambda>k. if unat (k - (es_last_received_in_sequence_psn st + 1)) < length out then None
       else es_out_of_order st k)"
  using assms
proof (induction n arbitrary: st out)
  case (Suc n)
  let ?base = "es_last_received_in_sequence_psn st"
  show ?case
  proof (cases "es_out_of_order st (?base + 1)")
    case None
    then show ?thesis using Suc.prems by auto
  next
    case (Some b)
    let ?st = "accept_in_sequence (?base + 1) (st\<lparr>es_out_of_order := (es_out_of_order st)(?base + 1 := None)\<rparr>)"
    obtain o1 where d: "deliver_buffered n ?st = (o1, st')" and out: "out = delivered_of b # o1"
      using Suc.prems Some by (auto simp: Let_def split: prod.splits)
    have n: "n \<le> 256" using Suc.prems by simp
    note IH = Suc.IH [OF d n]
    have last: "es_last_received_in_sequence_psn st' = ?base + of_nat (length out)"
      using IH out by (simp add: algebra_simps)
    have len: "length o1 \<le> n" using IH by simp
    have idx: "\<exists>b'. es_out_of_order st (?base + 1 + of_nat i) = Some b' \<and> out ! i = delivered_of b'"
      if "i < length out" for i
    proof (cases i)
      case 0
      then show ?thesis using Some out by simp
    next
      case (Suc j)
      then have "j < length o1" using that out by simp
      with IH obtain b' where "((es_out_of_order st)(?base + 1 := None)) (?base + 1 + 1 + of_nat j) = Some b'"
          "o1 ! j = delivered_of b'"
        by (auto simp: accept_in_sequence_def mark_delivered_def)
      then show ?thesis using Suc out by (auto split: if_splits simp: algebra_simps)
    qed
    have keep: "es_out_of_order st' = (\<lambda>k. if unat (k - (?base + 1)) < length out then None else es_out_of_order st k)"
    proof
      fix k
      have IHk: "es_out_of_order st' k = (if unat (k - (?base + 1 + 1)) < length o1 then None
          else ((es_out_of_order st)(?base + 1 := None)) k)"
        using IH by (simp add: accept_in_sequence_def mark_delivered_def)
      show "es_out_of_order st' k = (if unat (k - (?base + 1)) < length out then None else es_out_of_order st k)"
      proof (cases "k = ?base + 1")
        case True
        then show ?thesis using IHk out by simp
      next
        case False
        then have "unat (k - (?base + 1)) \<noteq> 0" by (simp add: unat_eq_0)
        then have "unat (k - (?base + 1 + 1)) = unat (k - (?base + 1)) - 1"
          by (intro unat_base_Suc) simp
        then show ?thesis using IHk out False \<open>unat (k - (?base + 1)) \<noteq> 0\<close> by auto
      qed
    qed
    show ?thesis using last len idx keep out by simp
  qed
qed auto

text \<open>A packet that is neither a duplicate of the last delivered one nor outside the window, and the
  packets at hand once it has arrived.\<close>

definition fresh_data :: "LinkPacket \<Rightarrow> EstablishedState \<Rightarrow> bool" where
  "fresh_data p st \<longleftrightarrow>
    (let base = es_last_received_in_sequence_psn st; seq = lh_seq (lp_header p) in
     seq \<noteq> base \<and> (seq = base + 1 \<or> unat (seq - base) < unat (pa_max_outgoing (es_params st))))"

definition at_hand :: "LinkPacket \<Rightarrow> EstablishedState \<Rightarrow> u8 \<Rightarrow> LinkPacket option" where
  "at_hand p st =
    (if fresh_data p st then (es_out_of_order st)(lh_seq (lp_header p) \<mapsto> p) else es_out_of_order st)"

lemma es_inv_buffered:
  "es_inv st \<Longrightarrow> es_out_of_order st k = Some b \<Longrightarrow>
   2 \<le> unat (k - es_last_received_in_sequence_psn st) \<and>
   unat (k - es_last_received_in_sequence_psn st) < unat (pa_max_outgoing (es_params st))"
  unfolding es_inv_def wf_buffered_def by blast

lemma es_inv_no_next: "es_inv st \<Longrightarrow> es_out_of_order st (es_last_received_in_sequence_psn st + 1) = None"
  using es_inv_buffered [of st "es_last_received_in_sequence_psn st + 1"]
  by (cases "es_out_of_order st (es_last_received_in_sequence_psn st + 1)") auto

lemma next_run:
  assumes "es_inv st" "handle_inbound_data p st = (out, st')"
    and seq: "lh_seq (lp_header p) = es_last_received_in_sequence_psn st + 1" (is "?seq = ?base + 1")
  obtains o1 where "out = delivered_of p # o1"
    "es_last_received_in_sequence_psn st' = ?seq + of_nat (length o1)"
    "\<And>i. i < length o1 \<Longrightarrow> \<exists>b. es_out_of_order st (?seq + 1 + of_nat i) = Some b \<and> o1 ! i = delivered_of b"
    "\<And>k. es_out_of_order st' k = (if unat (k - (?seq + 1)) < length o1 then None else es_out_of_order st k)"
    "es_out_of_order st' (es_last_received_in_sequence_psn st' + 1) = None"
proof -
  let ?acc = "accept_in_sequence ?seq (meter_rx p st)"
  obtain o1 where d: "deliver_buffered 256 ?acc = (o1, st')" and out: "out = delivered_of p # o1"
    using assms(2) inbound_data_next [OF seq] by (auto split: prod.splits)
  have "wf_buffered 1 ?seq (pa_max_outgoing (es_params st)) (es_out_of_order st)"
    using wf_buffered_in_sequence [of ?base] assms(1) unfolding seq by (simp add: es_inv_def)
  then have wf1: "wf_buffered 1 (es_last_received_in_sequence_psn ?acc) (pa_max_outgoing (es_params ?acc)) (es_out_of_order ?acc)"
    by simp
  have "es_out_of_order st' (es_last_received_in_sequence_psn st' + 1) = None"
    using deliver_buffered_done [OF wf1 wf_buffered_bound [OF wf1]] d by (simp add: Let_def)
  then show thesis using deliver_buffered_run [OF d order.refl] out by (intro that [of o1]) auto
qed

text \<open>The case of the next packet: its number is the first of the run.\<close>

lemma next_delivered:
  assumes "es_inv st" "handle_inbound_data p st = (out, st')"
    and seq: "lh_seq (lp_header p) = es_last_received_in_sequence_psn st + 1" (is "?seq = ?base + 1")
    and "i < length out"
  shows "\<exists>b. at_hand p st (?base + 1 + of_nat i) = Some b \<and> out ! i = delivered_of b"
proof -
  have fresh: "at_hand p st = (es_out_of_order st)(?seq \<mapsto> p)"
    by (simp add: at_hand_def fresh_data_def Let_def seq)
  obtain o1 where r: "out = delivered_of p # o1"
    "\<And>i. i < length o1 \<Longrightarrow> \<exists>b. es_out_of_order st (?seq + 1 + of_nat i) = Some b \<and> o1 ! i = delivered_of b"
    using next_run [OF assms(1-3)] by metis
  show ?thesis
  proof (cases i)
    case 0
    then show ?thesis using r(1) fresh seq by simp
  next
    case (Suc j)
    then obtain b where b: "es_out_of_order st (?seq + 1 + of_nat j) = Some b" "o1 ! j = delivered_of b"
      using r(2) [of j] r(1) assms(4) by auto
    have k: "?base + 1 + of_nat i = ?seq + 1 + of_nat j" using Suc seq by simp
    have "?seq + 1 + of_nat j \<noteq> ?seq"
      using b(1) es_inv_no_next [OF assms(1)] unfolding seq by (metis option.distinct(1))
    then have "at_hand p st (?seq + 1 + of_nat j) = Some b"
      unfolding fresh by (simp only: fun_upd_other b(1) not_False_eq_True)
    then show ?thesis unfolding k using b(2) Suc r(1) by simp
  qed
qed

lemma next_kept:
  assumes "es_inv st" "handle_inbound_data p st = (out, st')"
    and seq: "lh_seq (lp_header p) = es_last_received_in_sequence_psn st + 1" (is "?seq = ?base + 1")
  shows "es_out_of_order st' k = (if unat (k - (?base + 1)) < length out then None else at_hand p st k)"
proof -
  have fresh: "at_hand p st = (es_out_of_order st)(?seq \<mapsto> p)"
    by (simp add: at_hand_def fresh_data_def Let_def seq)
  obtain o1 where r: "out = delivered_of p # o1"
    "\<And>k. es_out_of_order st' k = (if unat (k - (?seq + 1)) < length o1 then None else es_out_of_order st k)"
    using next_run [OF assms] by metis
  show ?thesis
  proof (cases "k = ?seq")
    case True
    then show ?thesis using r es_inv_no_next [OF assms(1)] seq by simp
  next
    case False
    then have nz: "unat (k - (?base + 1)) \<noteq> 0" using seq by (simp add: unat_eq_0)
    then have "unat (k - (?seq + 1)) = unat (k - (?base + 1)) - 1"
      using unat_base_Suc [of k ?seq] seq by simp
    then show ?thesis using r(2) [of k] r(1) False fresh nz by auto
  qed
qed

lemma next_stops:
  assumes "es_inv st" "handle_inbound_data p st = (out, st')"
    and seq: "lh_seq (lp_header p) = es_last_received_in_sequence_psn st + 1" (is "?seq = ?base + 1")
  shows "es_last_received_in_sequence_psn st' = ?base + of_nat (length out) \<and>
    at_hand p st (?base + of_nat (length out) + 1) = None"
proof -
  obtain o1 where r: "out = delivered_of p # o1"
    "es_last_received_in_sequence_psn st' = ?seq + of_nat (length o1)"
    "es_out_of_order st' (es_last_received_in_sequence_psn st' + 1) = None"
    using next_run [OF assms] by metis
  have last: "es_last_received_in_sequence_psn st' = ?base + of_nat (length out)"
    using r(1,2) seq by simp
  have "length out < 255"
  proof (rule ccontr)
    assume "\<not> length out < 255"
    then obtain b where "at_hand p st (?base + 1 + of_nat 254) = Some b"
      using next_delivered [OF assms, of 254] by auto
    moreover have "?base + 1 + of_nat 254 = ?base + 255" by simp
    ultimately have "at_hand p st (?base + 255) = Some b" by (simp only:)
    moreover have "?seq \<noteq> ?base + 255" using seq by simp
    ultimately have "es_out_of_order st (?base + 255) = Some b" by (simp add: at_hand_def split: if_splits)
    from es_inv_buffered [OF assms(1) this] show False
      using unat8_less [of "pa_max_outgoing (es_params st)"] by simp
  qed
  then have "unat (?base + of_nat (length out) + 1 - (?base + 1)) = length out" by simp
  then have "at_hand p st (?base + of_nat (length out) + 1) = es_out_of_order st' (?base + of_nat (length out) + 1)"
    using next_kept [OF assms] by simp
  then show ?thesis using r(3) last by simp
qed

text \<open>Received data is handed up strictly in sequence. Of the packets at hand, those buffered and
  the one just received, exactly the longest run that starts at the next expected number is delivered,
  each once and in order; the expected number moves on by the length of the run; whatever is not
  delivered stays buffered, and a packet is refused only when it is a duplicate or beyond the
  window, in which case an acknowledgement is forced.\<close>

theorem inbound_data_in_order:
  assumes "es_inv st" "handle_inbound_data p st = (out, st')"
  shows "let base = es_last_received_in_sequence_psn st in
    es_last_received_in_sequence_psn st' = base + of_nat (length out) \<and>
    (\<forall>i < length out. \<exists>b. at_hand p st (base + 1 + of_nat i) = Some b \<and> out ! i = delivered_of b) \<and>
    at_hand p st (base + of_nat (length out) + 1) = None \<and>
    es_out_of_order st' = (\<lambda>k. if unat (k - (base + 1)) < length out then None else at_hand p st k) \<and>
    (\<not> fresh_data p st \<longrightarrow> es_must_send_ack st')"
proof -
  let ?base = "es_last_received_in_sequence_psn st" and ?seq = "lh_seq (lp_header p)"
  let ?mx = "pa_max_outgoing (es_params st)"
  note no_next = es_inv_no_next [OF assms(1)]
  consider (nxt) "?seq = ?base + 1" | (dup) "?seq = ?base"
    | (far) "2 \<le> unat (?seq - ?base)" "?seq \<noteq> ?base + 1" "?seq \<noteq> ?base"
    using unat_ge_2 [of "?seq - ?base"] by (metis diff_eq_eq add.commute right_minus_eq)
  then show ?thesis
  proof cases
    case nxt
    then have "fresh_data p st" by (simp add: fresh_data_def Let_def)
    with next_delivered [OF assms nxt] next_kept [OF assms nxt] next_stops [OF assms nxt]
    show ?thesis unfolding Let_def by (intro conjI allI impI ext) auto
  next
    case dup
    then show ?thesis
      using assms(2) inbound_data_dup [OF dup] no_next
      by (auto simp: fresh_data_def at_hand_def Let_def)
  next
    case far
    then show ?thesis
      using assms(2) inbound_data_buffer [of p st] inbound_data_drop [of p st] no_next
      by (cases "unat (?seq - ?base) < unat ?mx") (auto simp: fresh_data_def at_hand_def Let_def not_less)
  qed
qed

theorem inbound_data_in_order_witness:
  "handle_inbound_data (LinkPacket_with_payload ACK 51 0 1 [9]) sample_state =
     ([\<lparr>dd_session_id = 1, dd_payload = [9]\<rparr>],
      accept_in_sequence 51 (meter_rx (LinkPacket_with_payload ACK 51 0 1 [9]) sample_state)) \<and>
   es_last_received_in_sequence_psn sample_state = 50"
proof -
  let ?p = "LinkPacket_with_payload ACK 51 0 1 [9]"
  have s: "lh_seq (lp_header ?p) = 51" "es_last_received_in_sequence_psn sample_state = 50"
    "es_out_of_order sample_state = Map.empty" "delivered_of ?p = \<lparr>dd_session_id = 1, dd_payload = [9]\<rparr>"
    by (simp_all add: LinkPacket_with_payload_def LinkHeader_with_payload_def sample_state_def delivered_of_def)
  obtain out st' where h: "handle_inbound_data ?p sample_state = (out, st')" by force
  have "deliver_buffered 256 (accept_in_sequence 51 (meter_rx ?p sample_state)) =
      ([], accept_in_sequence 51 (meter_rx ?p sample_state))"
    by (rule deliver_buffered_none) (simp_all add: s)
  then have e: "out = [delivered_of ?p]" "st' = accept_in_sequence 51 (meter_rx ?p sample_state)"
    using h inbound_data_next [of ?p sample_state] s by simp_all
  have "es_last_received_in_sequence_psn st' = 50 + of_nat (length out)"
    using inbound_data_in_order [OF es_inv_sample h] s by (simp add: Let_def)
  then show ?thesis using h e s by simp
qed

section \<open>Selective acknowledgement\<close>

lemma eak_missing_set:
  "set (eak_missing st f) = {k. 1 \<le> unat (k - es_last_received_in_sequence_psn st) \<and>
     unat (k - es_last_received_in_sequence_psn st) \<le> unat (f - es_last_received_in_sequence_psn st) \<and>
     es_out_of_order st k = None}" (is "_ = ?R")
proof -
  let ?b = "es_last_received_in_sequence_psn st" and ?t = "unat (f - es_last_received_in_sequence_psn st)"
  have "(\<exists>i < ?t. k = ?b + 1 + of_nat i) \<longleftrightarrow> 1 \<le> unat (k - ?b) \<and> unat (k - ?b) \<le> ?t" for k
  proof
    assume "\<exists>i < ?t. k = ?b + 1 + of_nat i"
    then obtain i where i: "i < ?t" "k - ?b = of_nat (Suc i)" by auto
    have "Suc i < 256" using i(1) unat8_less [of "f - ?b"] by linarith
    then have "unat (k - ?b) = Suc i" unfolding i(2) by (simp only: unat_of_nat8) simp
    then show "1 \<le> unat (k - ?b) \<and> unat (k - ?b) \<le> ?t" using i(1) by simp
  next
    assume a: "1 \<le> unat (k - ?b) \<and> unat (k - ?b) \<le> ?t"
    then obtain i where i: "unat (k - ?b) = Suc i" by (cases "unat (k - ?b)") auto
    have "k - ?b = of_nat (Suc i)" unfolding i [symmetric] by simp
    then have "k = ?b + 1 + of_nat i" by (simp add: algebra_simps)
    then show "\<exists>i < ?t. k = ?b + 1 + of_nat i" using a i by (intro exI [of _ i]) auto
  qed
  moreover have "set (eak_missing st f) = {k. (\<exists>i < ?t. k = ?b + 1 + of_nat i) \<and> es_out_of_order st k = None}"
    by (auto simp: eak_missing_def Let_def)
  ultimately show ?thesis by simp
qed

lemma sorted_map_keys: "sorted (map_keys m)"
proof -
  have "sorted_wrt (\<lambda>a b. (of_nat a :: u8) \<le> of_nat b) [0..<256]"
    by (rule sorted_wrt_mono_rel [OF _ sorted_wrt_upt])
      (auto simp: word_le_nat_alt simp del: of_nat_le_iff)
  then have "sorted all_keys" unfolding all_keys_def by (simp only: sorted_map)
  then show ?thesis unfolding map_keys_def by (rule sorted_wrt_filter)
qed

lemma last_map_keys: "m \<noteq> Map.empty \<Longrightarrow> last (map_keys m) = Max (dom m)"
proof -
  assume "m \<noteq> Map.empty"
  then have ne: "map_keys m \<noteq> []" by simp
  have "y \<le> last (map_keys m)" if "y \<in> set (map_keys m)" for y
    using that sorted_map_keys [of m] ne
    by (metis in_set_conv_nth last_conv_nth length_greater_0_conv diff_less less_one sorted_nth_mono
        Suc_diff_1 less_Suc_eq_le)
  then have "Max (set (map_keys m)) = last (map_keys m)"
    using ne by (intro Max_eqI) auto
  then show ?thesis by (simp add: set_map_keys)
qed

lemma unat_diff_cases:
  "unat (k - b :: u8) = (if b \<le> k then unat k - unat b else unat k + 256 - unat b)"
  by (simp add: unat_sub_if' word_le_nat_alt)

text \<open>Without a wrap, being at most as far from the base as a larger number is being between them.\<close>

lemma distance_unwrapped:
  assumes "b < (f :: u8)"
  shows "1 \<le> unat (k - b) \<and> unat (k - b) \<le> unat (f - b) \<longleftrightarrow> b < k \<and> k \<le> f"
proof -
  have uf: "unat b < unat f" "unat f < 256" using assms by (simp_all add: word_less_nat_alt)
  have f: "unat (f - b) = unat f - unat b" using unat_diff_cases [of f b] assms by simp
  show ?thesis
  proof (cases "b \<le> k")
    case True
    then have "unat (k - b) = unat k - unat b" "unat b \<le> unat k"
      using unat_diff_cases [of k b] by (simp_all add: word_le_nat_alt)
    then show ?thesis
      using uf unfolding f word_less_nat_alt word_le_nat_alt by (intro iffI conjI) linarith+
  next
    case False
    then have "unat (k - b) = unat k + 256 - unat b" "unat k < unat b"
      using unat_diff_cases [of k b] by (simp_all add: word_le_nat_alt)
    then show ?thesis
      using uf unfolding f word_less_nat_alt word_le_nat_alt by (intro iffI conjI) linarith+
  qed
qed

lemma eak_missing_unwrapped:
  assumes "es_last_received_in_sequence_psn st < f" "f \<in> dom (es_out_of_order st)"
  shows "set (eak_missing st f) =
    {k. es_last_received_in_sequence_psn st < k \<and> k < f \<and> k \<notin> dom (es_out_of_order st)}"
proof (rule set_eqI)
  fix k
  let ?b = "es_last_received_in_sequence_psn st"
  have "k \<in> set (eak_missing st f) \<longleftrightarrow>
      (1 \<le> unat (k - ?b) \<and> unat (k - ?b) \<le> unat (f - ?b)) \<and> k \<notin> dom (es_out_of_order st)"
    by (simp only: eak_missing_set mem_Collect_eq domIff conj_assoc not_not)
  then have "k \<in> set (eak_missing st f) \<longleftrightarrow> (?b < k \<and> k \<le> f) \<and> k \<notin> dom (es_out_of_order st)"
    unfolding distance_unwrapped [OF assms(1)] .
  then show "k \<in> set (eak_missing st f) \<longleftrightarrow>
      k \<in> {k. ?b < k \<and> k < f \<and> k \<notin> dom (es_out_of_order st)}"
    using assms(2) by (metis (no_types, lifting) mem_Collect_eq order.order_iff_strict)
qed

text \<open>While the sequence numbers of the window do not wrap past 255, the EAK asks for exactly the
  missing packets: every number after the last delivered one and before the furthest buffered one
  that is not itself buffered. The writer sends one packet carrying that list and the cumulative
  acknowledgement.\<close>

theorem send_eak_lists_gaps:
  assumes "es_inv st" "reliable w" "es_out_of_order st \<noteq> Map.empty"
    and "\<forall>k \<in> dom (es_out_of_order st). es_last_received_in_sequence_psn st < k"
  shows "\<exists>missing. send_eak st w = (Inr (), clear_ack_flags st,
        w\<lparr>wr_sent := wr_sent w @ [link_encode (LinkPacket_with_payload (EAK OR ACK) (es_last_sent_psn st)
            (es_last_received_in_sequence_psn st) 0 missing)]\<rparr>) \<and>
      set missing = {k. es_last_received_in_sequence_psn st < k \<and> k < Max (dom (es_out_of_order st)) \<and>
        k \<notin> dom (es_out_of_order st)}"
proof -
  let ?b = "es_last_received_in_sequence_psn st" and ?m = "es_out_of_order st"
  let ?f = "last (map_keys ?m)"
  have f: "?f = Max (dom ?m)" using assms(3) by (rule last_map_keys)
  have f_in: "?f \<in> dom ?m" using assms(3) set_map_keys [of ?m] last_in_set [of "map_keys ?m"] by auto
  then have bf: "?b < ?f" using assms(4) by blast
  have "?b + 1 \<notin> dom ?m" using es_inv_no_next [OF assms(1)] by (simp add: domIff)
  moreover have "?b < ?b + 1 \<and> ?b + 1 \<le> ?f"
    using distance_unwrapped [OF bf, of "?b + 1"] distance_unwrapped [OF bf, of ?f] bf by simp
  ultimately have "?b + 1 \<in> set (eak_missing st ?f)"
    unfolding eak_missing_unwrapped [OF bf f_in] using f_in by (auto simp: order.order_iff_strict)
  then have "eak_missing st ?f \<noteq> []" by force
  then show ?thesis
    using assms(2,3) eak_missing_unwrapped [OF bf f_in] unfolding f
    by (intro exI [of _ "eak_missing st (Max (dom ?m))"]) (simp add: send_eak_def Let_def write_packet_reliable f)
qed

definition sample_packet :: "u8 \<Rightarrow> LinkPacket" where
  "sample_packet seq = LinkPacket_with_payload ACK seq 0 1 [seq]"

lemma sample_packet_seq [simp]: "lh_seq (lp_header (sample_packet seq)) = seq"
  by (simp add: sample_packet_def LinkPacket_with_payload_def LinkHeader_with_payload_def)

definition sample_gap :: EstablishedState where
  "sample_gap = snd (handle_inbound_data (sample_packet 52) sample_state)"

lemma sample_gap_simps [simp]:
  "es_out_of_order sample_gap = [52 \<mapsto> sample_packet 52]"
  "es_last_received_in_sequence_psn sample_gap = 50" "es_last_sent_psn sample_gap = 1"
proof -
  have "handle_inbound_data (sample_packet 52) sample_state = ([], (meter_rx (sample_packet 52) sample_state)
      \<lparr>es_out_of_order := (es_out_of_order sample_state)(52 \<mapsto> sample_packet 52)\<rparr>)"
    using inbound_data_buffer [of "sample_packet 52" sample_state] by (simp add: sample_state_def)
  then show "es_out_of_order sample_gap = [52 \<mapsto> sample_packet 52]"
    "es_last_received_in_sequence_psn sample_gap = 50" "es_last_sent_psn sample_gap = 1"
    by (simp_all add: sample_gap_def sample_state_def)
qed

lemma es_inv_sample_gap: "es_inv sample_gap"
  unfolding sample_gap_def by (rule es_inv_handle_inbound_data [OF es_inv_sample])

theorem send_eak_lists_gaps_witness:
  "\<exists>missing. send_eak sample_gap \<lparr>wr_sent = [], wr_budget = None\<rparr> = (Inr (), clear_ack_flags sample_gap,
      \<lparr>wr_sent = [link_encode (LinkPacket_with_payload (EAK OR ACK) 1 50 0 missing)], wr_budget = None\<rparr>) \<and>
    set missing = {k. 50 < k \<and> k < 52}"
proof -
  have "{k. 50 < k \<and> k < (52 :: u8) \<and> k \<noteq> 52} = {k. 50 < k \<and> k < 52}" by auto
  then show ?thesis
    using send_eak_lists_gaps [OF es_inv_sample_gap, of "\<lparr>wr_sent = [], wr_budget = None\<rparr>"]
    by (simp add: reliable_def)
qed

definition wrapped_gap :: EstablishedState where
  "wrapped_gap = snd (handle_inbound_data (sample_packet 1) (snd (handle_inbound_data (sample_packet 252)
     (EstablishedState_new 99 250 Lsp_accessory_default RETRANSMIT_GIVE_UP 0))))"

lemma wrapped_gap_simps [simp]:
  "es_out_of_order wrapped_gap = [252 \<mapsto> sample_packet 252, 1 \<mapsto> sample_packet 1]"
  "es_last_received_in_sequence_psn wrapped_gap = 250" "es_last_sent_psn wrapped_gap = 99"
proof -
  let ?s0 = "EstablishedState_new 99 250 Lsp_accessory_default RETRANSMIT_GIVE_UP 0"
  let ?s1 = "(meter_rx (sample_packet 252) ?s0)\<lparr>es_out_of_order := (es_out_of_order ?s0)(252 \<mapsto> sample_packet 252)\<rparr>"
  have "handle_inbound_data (sample_packet 252) ?s0 = ([], ?s1)"
    using inbound_data_buffer [of "sample_packet 252" ?s0] by simp
  moreover have "handle_inbound_data (sample_packet 1) ?s1 = ([], (meter_rx (sample_packet 1) ?s1)
      \<lparr>es_out_of_order := (es_out_of_order ?s1)(1 \<mapsto> sample_packet 1)\<rparr>)"
    using inbound_data_buffer [of "sample_packet 1" ?s1] by simp
  ultimately show "es_out_of_order wrapped_gap = [252 \<mapsto> sample_packet 252, 1 \<mapsto> sample_packet 1]"
    "es_last_received_in_sequence_psn wrapped_gap = 250" "es_last_sent_psn wrapped_gap = 99"
    by (simp_all add: wrapped_gap_def)
qed

text \<open>Across the wrap of the sequence numbers the EAK is incomplete: with 250 delivered and 252
  and 1 buffered, the code takes the numerically largest key, 252, for the furthest, and asks for 251
  only, although 253, 254, 255 and 0 are missing too.\<close>

theorem send_eak_wrap_incomplete:
  "wr_sent (snd (snd (send_eak wrapped_gap \<lparr>wr_sent = [], wr_budget = None\<rparr>))) =
     [link_encode (LinkPacket_with_payload (EAK OR ACK) 99 250 0 [251])] \<and>
   list_all (\<lambda>k. es_out_of_order wrapped_gap k = None \<and> k - 250 < 1 - 250) [253, 254, 255, 0]"
proof -
  have "es_out_of_order wrapped_gap \<noteq> Map.empty" by simp
  from last_map_keys [OF this] have last: "last (map_keys (es_out_of_order wrapped_gap)) = 252"
    by (simp add: insert_commute)
  have upt_2: "[0..<2] = [0, Suc 0]" by (simp add: upt_conv_Cons numeral_2_eq_2)
  have "eak_missing wrapped_gap 252 = [251]"
    by (simp add: eak_missing_def Let_def upt_2)
  then have "wr_sent (snd (snd (send_eak wrapped_gap \<lparr>wr_sent = [], wr_budget = None\<rparr>))) =
     [link_encode (LinkPacket_with_payload (EAK OR ACK) 99 250 0 [251])]"
    using last by (simp add: send_eak_def Let_def write_packet_reliable reliable_def)
  then show ?thesis by simp
qed

section \<open>Retransmission\<close>

text \<open>The retransmission timer left to itself: the task wakes at each deadline and runs the handler
  until it reports that the link is to be given up. At most \<open>n\<close> wake-ups.\<close>

primrec retransmit_until_give_up :: "nat \<Rightarrow> EstablishedState \<Rightarrow> Writer \<Rightarrow> Writer option" where
  "retransmit_until_give_up 0 st w = None"
| "retransmit_until_give_up (Suc n) st w =
    (case es_retransmit_at st of
       None \<Rightarrow> None
     | Some at \<Rightarrow>
        (case handle_retransmit_fire at st w of
           (Inl e, st', w') \<Rightarrow> None
         | (Inr gave_up, st', w') \<Rightarrow> if gave_up then Some w' else retransmit_until_give_up n st' w'))"

lemma fire_retransmits:
  assumes "es_unacked st = u # us" "es_retransmit_at st = Some at" "at - es_last_progress st < es_give_up_after st"
    "reliable w"
  shows "\<exists>st'. handle_retransmit_fire at st w = (Inr False, st', w\<lparr>wr_sent := wr_sent w @ [up_wire u]\<rparr>) \<and>
    es_unacked st' = u\<lparr>up_retry_count := up_retry_count u + 1\<rparr> # us \<and>
    es_rto st' = min (es_rto st * 2) RTO_MAX \<and> es_retransmit_at st' = Some (at + es_rto st') \<and>
    es_last_progress st' = es_last_progress st \<and> es_give_up_after st' = es_give_up_after st"
  using assms by (simp add: handle_retransmit_fire_def Let_def write_flush_reliable arm_retransmit_def)

lemma fire_gives_up:
  assumes "es_unacked st \<noteq> []" "es_retransmit_at st = Some at" "es_give_up_after st \<le> at - es_last_progress st"
  shows "handle_retransmit_fire at st w = (Inr True, st, w)"
  using assms by (auto simp: handle_retransmit_fire_def Let_def neq_Nil_conv)

text \<open>C28. A peer that stops acknowledging is given up: as long as the timeout is not zero, the timer
  fires at most \<open>n\<close> times before the handler reports it, where \<open>n\<close> intervals of the current timeout (or
  8 s, if smaller) cover the give-up time, and each earlier firing sends the oldest outstanding
  packet again and nothing else.\<close>

theorem retransmission_gives_up:
  assumes "es_unacked st \<noteq> []" "es_retransmit_at st = Some at" "es_last_progress st \<le> at"
    "reliable w" "m \<le> es_rto st" "m \<le> RTO_MAX"
    "es_give_up_after st \<le> at - es_last_progress st + n * m"
  shows "\<exists>k \<le> n. retransmit_until_give_up (Suc n) st w =
    Some (w\<lparr>wr_sent := wr_sent w @ replicate k (up_wire (hd (es_unacked st)))\<rparr>)"
  using assms
proof (induction n arbitrary: st at w)
  case 0
  then show ?case using fire_gives_up [of st at w] by simp
next
  case (Suc n)
  show ?case
  proof (cases "es_give_up_after st \<le> at - es_last_progress st")
    case True
    then show ?thesis
      using Suc.prems fire_gives_up [of st at w] by (intro exI [of _ 0]) simp
  next
    case False
    obtain u us where u: "es_unacked st = u # us" using Suc.prems(1) by (cases "es_unacked st") auto
    let ?w = "w\<lparr>wr_sent := wr_sent w @ [up_wire u]\<rparr>"
    obtain st' where f: "handle_retransmit_fire at st w = (Inr False, st', ?w)"
      "es_unacked st' = u\<lparr>up_retry_count := up_retry_count u + 1\<rparr> # us"
      "es_rto st' = min (es_rto st * 2) RTO_MAX" "es_retransmit_at st' = Some (at + es_rto st')"
      "es_last_progress st' = es_last_progress st" "es_give_up_after st' = es_give_up_after st"
      using fire_retransmits [OF u Suc.prems(2) _ Suc.prems(4)] False by force
    have m: "m \<le> es_rto st'" using f(3) Suc.prems(5,6) by simp
    have "es_give_up_after st' \<le> at + es_rto st' - es_last_progress st' + n * m"
      using m Suc.prems(3,7) unfolding f(5,6) by simp
    then obtain k where "k \<le> n" "retransmit_until_give_up (Suc n) st' ?w =
        Some (?w\<lparr>wr_sent := wr_sent ?w @ replicate k (up_wire (hd (es_unacked st')))\<rparr>)"
      using Suc.IH [of st' "at + es_rto st'" ?w] f m Suc.prems by auto
    then show ?thesis
      using Suc.prems(2) f(1,2) u by (intro exI [of _ "Suc k"]) simp
  qed
qed

theorem retransmission_gives_up_witness:
  "\<exists>k \<le> 9. retransmit_until_give_up 10 sample_state \<lparr>wr_sent = [], wr_budget = None\<rparr> =
     Some \<lparr>wr_sent = replicate k (up_wire (hd (es_unacked sample_state))), wr_budget = None\<rparr>"
proof -
  have "es_unacked sample_state \<noteq> []" "es_retransmit_at sample_state = Some (7 + millis 6000)"
    "es_last_progress sample_state = 7" "es_rto sample_state = millis 6000"
    "es_give_up_after sample_state = secs 60"
    by (simp_all add: sample_state_def sample_send_def record_sent_def Let_def arm_retransmit_def
        EstablishedState_new_def LinkParams_from_peer_lsp_def Lsp_accessory_default_def RETRANSMIT_GIVE_UP_def)
  then show ?thesis
    using retransmission_gives_up [of sample_state "7 + millis 6000" "\<lparr>wr_sent = [], wr_budget = None\<rparr>" "millis 6000" 9]
    by (simp add: reliable_def RTO_MAX_def millis_def secs_def)
qed

text \<open>A peer that announces a retransmission timeout of zero is never backed off from: until a
  round trip has been measured, the deadline after a retransmission is the instant it happened at, so
  the link retransmits as fast as it can loop and the schedule of deadlines never reaches the give-up
  time.\<close>

theorem zero_timeout_never_backs_off:
  assumes "es_unacked st \<noteq> []" "es_retransmit_at st = Some at" "at - es_last_progress st < es_give_up_after st"
    "reliable w" "es_rto st = 0"
  shows "retransmit_until_give_up n st w = None"
  using assms
proof (induction n arbitrary: st w)
  case (Suc n)
  obtain u us where u: "es_unacked st = u # us" using Suc.prems(1) by (cases "es_unacked st") auto
  from fire_retransmits [OF u Suc.prems(2-4)] Suc.IH Suc.prems show ?case by fastforce
qed simp

theorem zero_timeout_never_backs_off_witness:
  "retransmit_until_give_up 1000 (sample_send [1] (EstablishedState_new 254 50
     (Lsp_accessory_default\<lparr>lsp_retransmission_timeout_ms := 0\<rparr>) RETRANSMIT_GIVE_UP 0))
     \<lparr>wr_sent = [], wr_budget = None\<rparr> = None"
  by (rule zero_timeout_never_backs_off [where at = 7])
    (simp_all add: sample_send_def record_sent_def Let_def arm_retransmit_def
        EstablishedState_new_def LinkParams_from_peer_lsp_def RETRANSMIT_GIVE_UP_def reliable_def millis_def secs_def)

text \<open>With more than 128 packets outstanding, which a peer that announces a window above 128 can
  cause, the acknowledgement of all of them is taken for a stale one and ignored.\<close>

theorem full_window_ack_ignored:
  assumes "es_inv st" "128 < length (es_unacked st)"
  shows "handle_inbound_ack now (es_last_sent_psn st) st = st"
proof -
  let ?us = "es_unacked st"
  have s: "seqs_upto (es_last_sent_psn st) ?us" and le: "length ?us \<le> unat (pa_max_outgoing (es_params st))"
    using assms(1) by (simp_all add: es_inv_def)
  have "length ?us \<le> 255" using le unat8_less [of "pa_max_outgoing (es_params st)"] by linarith
  then have n: "unat (of_nat (length ?us - 1) :: u8) = length ?us - 1" by (simp only: unat_of_nat8) simp
  have ne: "?us \<noteq> []" using assms(2) by auto
  have hd: "hd ?us = ?us ! 0" using assms(2) by (intro hd_conv_nth) auto
  have e: "es_last_sent_psn st - up_seq (hd ?us) = of_nat (length ?us - 1)"
    unfolding hd using seqs_upto_nth [OF s, of 0] assms(2) ne by simp
  have "\<not> es_last_sent_psn st - up_seq (hd ?us) \<le> 127"
    unfolding e word_le_nat_alt n using assms(2) by simp
  then have "dropWhile (\<lambda>p. es_last_sent_psn st - up_seq p \<le> 127) ?us = ?us"
    by (cases ?us) auto
  then show ?thesis
    using assms(2)
    by (cases rule: handle_inbound_ack_cases [of now "es_last_sent_psn st" st]) (auto simp: handle_inbound_ack_def dest: pop_acked_drop split: prod.splits)
qed

definition wide_start :: EstablishedState where
  "wide_start = EstablishedState_new 99 50 (Lsp_accessory_default\<lparr>lsp_max_outgoing := 200\<rparr>) RETRANSMIT_GIVE_UP 0"

lemma sample_send_wide:
  "n \<le> 200 \<Longrightarrow> es_inv ((sample_send [1] ^^ n) wide_start) \<and>
     length (es_unacked ((sample_send [1] ^^ n) wide_start)) = n \<and>
     unat (pa_max_outgoing (es_params ((sample_send [1] ^^ n) wide_start))) = 200"
proof (induction n)
  case 0
  then show ?case by (simp add: wide_start_def es_inv_new LinkParams_from_peer_lsp_def)
next
  case (Suc n)
  then show ?case by (auto intro: es_inv_sample_send simp: window_has_room_def)
qed

theorem full_window_ack_ignored_witness:
  "let st = (sample_send [1] ^^ 129) wide_start in
   length (es_unacked st) = 129 \<and> handle_inbound_ack 9 (es_last_sent_psn st) st = st"
proof -
  let ?st = "(sample_send [1] ^^ 129) wide_start"
  have "es_inv ?st" "length (es_unacked ?st) = 129" using sample_send_wide [of 129] by simp_all
  moreover from this have "handle_inbound_ack 9 (es_last_sent_psn ?st) ?st = ?st"
    by (intro full_window_ack_ignored) simp_all
  ultimately show ?thesis unfolding Let_def by blast
qed

end
