(* ===== verification/Link_Run.thy ===== *)
theory Link_Run
  imports Link_Behaviour
begin

text \<open>The link task (\<open>crates/iap2/src/link/mod.rs\<close>): detection, negotiation, the established loop and
  restarting in place, for the accessory (\<open>Link::run\<close>) and for the emulated device
  (\<open>Link::run_device\<close>). The task is a machine that consumes what its \<open>select!\<close> loops wait for, one
  input at a time: a timer tick, bytes or an error from the reader (no bytes is end of file), the
  handshake deadline, a command, the retransmission deadline, the end of the restart pause. The
  events it sends are collected in \<open>lt_events\<close>; sends to a dropped receiver are ignored by the code
  and make no difference.\<close>

section \<open>Configuration, events and commands\<close>

definition RESTART_BUDGET_WINDOW :: nat where "RESTART_BUDGET_WINDOW = secs 30"
definition RESTART_HEALTHY_RESET :: nat where "RESTART_HEALTHY_RESET = secs 60"
definition RESTART_PAUSE :: nat where "RESTART_PAUSE = millis 200"

record LinkConfig =
  lc_initial_psn :: u8
  lc_our_lsp :: Lsp
  lc_detect_interval :: nat
  lc_handshake_timeout :: nat
  lc_retransmit_give_up :: nat

definition LinkConfig_new :: "Lsp \<Rightarrow> LinkConfig" where
  "LinkConfig_new our_lsp =
    \<lparr>lc_initial_psn = 99, lc_our_lsp = our_lsp, lc_detect_interval = secs 1,
     lc_handshake_timeout = secs 30, lc_retransmit_give_up = RETRANSMIT_GIVE_UP\<rparr>"

text \<open>The reasons are the formatted texts of the code, by what they are built from.\<close>

datatype LinkReason =
    RestartFailed Iap2Error
  | LinkErr Iap2Error
  | PeerRst
  | RetransmitLimitHit
  | LocalDisconnect

datatype Iap2Event =
    Established Lsp
  | LinkRestarting LinkReason
  | LinkDown LinkReason
  | DataReceived u8 bytes

datatype Iap2Command = Disconnect | Send u8 bytes

section \<open>Detection\<close>

definition starts_with :: "bytes \<Rightarrow> bytes \<Rightarrow> bool" where
  "starts_with pre buf \<longleftrightarrow> take (length pre) buf = pre"

lemma drop_marker_shrinks:
  "starts_with DETECT_MARKER buf \<Longrightarrow> length (drop (length DETECT_MARKER) buf) < length buf"
  by (cases buf) (auto simp: starts_with_def DETECT_MARKER_def)

function drain_markers :: "bytes \<Rightarrow> bool \<Rightarrow> bool \<times> bytes" where
  "drain_markers buf drained_any =
    (if starts_with DETECT_MARKER buf
     then drain_markers (drop (length DETECT_MARKER) buf) True
     else (drained_any, buf))"
  by pat_completeness auto
termination
  by (relation "measure (length \<circ> fst)") (simp_all add: drop_marker_shrinks del: length_drop)

declare drain_markers.simps [simp del]

definition drain_detect_or_link_start :: "bytes \<Rightarrow> bool \<times> bytes" where
  "drain_detect_or_link_start buf =
    (let (drained_any, buf') = drain_markers buf False
     in (drained_any \<or> (length buf' \<ge> 2 \<and> take 2 buf' = LINK_MAGIC), buf'))"

section \<open>The task\<close>

text \<open>\<open>Established_Phase st since\<close> carries the state of \<open>established.rs\<close> and when it was entered.\<close>

datatype LinkPhase =
    Detecting
  | Negotiating
  | Established_Phase EstablishedState nat
  | Pausing
  | Finished "Iap2Error + unit"

record LinkTask =
  lt_phase :: LinkPhase
  lt_buf :: bytes
  lt_writer :: Writer
  lt_events :: "Iap2Event list"
  lt_restart_window :: "nat option"
  lt_commands :: "Iap2Command list"
  lt_commands_closed :: bool

definition link_task_start :: "Writer \<Rightarrow> LinkTask" where
  "link_task_start w =
    \<lparr>lt_phase = Detecting, lt_buf = [], lt_writer = w, lt_events = [], lt_restart_window = None,
     lt_commands = [], lt_commands_closed = False\<rparr>"

definition emit :: "Iap2Event \<Rightarrow> LinkTask \<Rightarrow> LinkTask" where
  "emit ev t = t\<lparr>lt_events := lt_events t @ [ev]\<rparr>"

definition finish :: "Iap2Error + unit \<Rightarrow> LinkTask \<Rightarrow> LinkTask" where
  "finish r t = t\<lparr>lt_phase := Finished r\<rparr>"

text \<open>\<open>discard_stale_commands\<close>: everything queued before the link came up. \<open>Inl\<close> is a disconnect, an
  explicit one or a closed channel; \<open>Inr\<close> counts the discarded sends. The queue left is returned.\<close>

fun discard_stale_commands :: "bool \<Rightarrow> Iap2Command list \<Rightarrow> (unit + nat) \<times> Iap2Command list" where
  "discard_stale_commands closed [] = ((if closed then Inl () else Inr 0), [])"
| "discard_stale_commands closed (Disconnect # rest) = (Inl (), rest)"
| "discard_stale_commands closed (Send sid pl # rest) =
    (case discard_stale_commands closed rest of
       (Inl u, q) \<Rightarrow> (Inl u, q)
     | (Inr n, q) \<Rightarrow> (Inr (n + 1), q))"

text \<open>\<open>local_disconnect\<close>: an RST, whose failure is only logged, and the event.\<close>

definition local_disconnect :: "EstablishedState \<Rightarrow> LinkTask \<Rightarrow> LinkTask" where
  "local_disconnect st t =
    (let (_, w) = write_packet (LinkPacket_header_only RST (es_last_sent_psn st) 0) (lt_writer t)
     in emit (LinkDown LocalDisconnect) (t\<lparr>lt_writer := w\<rparr>))"

section \<open>The established loop\<close>

text \<open>One packet of the inner \<open>while let\<close>: its data events, the state and the writer it leaves.\<close>

definition established_packet ::
    "nat \<Rightarrow> LinkPacket \<Rightarrow> EstablishedState \<Rightarrow> Writer \<Rightarrow>
     (Iap2Error + unit) \<times> Iap2Event list \<times> EstablishedState \<times> Writer" where
  "established_packet now pkt st w =
    (let control = lh_control (lp_header pkt) in
     if control_contains control RST then (Inl PeerReset, [], st, w)
     else
       let st1 = (if control_contains control ACK
                  then handle_inbound_ack now (lh_ack (lp_header pkt)) st else st)
       in if control_contains control EAK then
            (case handle_inbound_eak (lp_payload pkt) st1 w of (r, st2, w') \<Rightarrow> (r, [], st2, w'))
          else if has_payload (lp_header pkt) \<and> \<not> control_contains control SYN then
            (let (delivered, st2) = handle_inbound_data pkt st1;
                 evs = map (\<lambda>d. DataReceived (dd_session_id d) (dd_payload d)) delivered
             in if has_buffered_out_of_order st2
                then (case send_eak st2 w of (r, st3, w') \<Rightarrow> (r, evs, st3, w'))
                else (Inr (), evs, st2, w))
          else (Inr (), [], st1, w))"

function established_packets ::
    "nat \<Rightarrow> bytes \<Rightarrow> EstablishedState \<Rightarrow> Writer \<Rightarrow>
     (Iap2Error + unit) \<times> Iap2Event list \<times> bytes \<times> EstablishedState \<times> Writer" where
  "established_packets now buf st w =
    (case link_decode buf of
       (Inl e, buf') \<Rightarrow> (Inl IoError, [], buf', st, w)
     | (Inr None, buf') \<Rightarrow> (Inr (), [], buf', st, w)
     | (Inr (Some pkt), buf') \<Rightarrow>
        (case established_packet now pkt st w of
           (Inl e, evs, st', w') \<Rightarrow> (Inl e, evs, buf', st', w')
         | (Inr _, evs, st', w') \<Rightarrow>
            (case established_packets now buf' st' w' of
               (r, evs', buf'', st'', w'') \<Rightarrow> (r, evs @ evs', buf'', st'', w''))))"
  by pat_completeness auto
termination
  by (relation "measure (\<lambda>(now, buf, st, w). length buf)")
    (auto dest!: link_decode_shrinks [OF sym])

declare established_packets.simps [simp del]

text \<open>The part of the loop before its \<open>select!\<close>: received packets, then the send queue, then an
  acknowledgement if one is owed.\<close>

definition established_service ::
    "nat \<Rightarrow> bytes \<Rightarrow> EstablishedState \<Rightarrow> Writer \<Rightarrow>
     (Iap2Error + unit) \<times> Iap2Event list \<times> bytes \<times> EstablishedState \<times> Writer" where
  "established_service now buf st w =
    (case established_packets now buf st w of
       (Inl e, evs, buf', st', w') \<Rightarrow> (Inl e, evs, buf', st', w')
     | (Inr _, evs, buf', st', w') \<Rightarrow>
        (case drain_pending_send now st' w' of
           (Inl e, st2, w2) \<Rightarrow> (Inl e, evs, buf', st2, w2)
         | (Inr _, st2, w2) \<Rightarrow>
            (if needs_ack st2
             then (case send_standalone_ack st2 w2 of (r, st3, w3) \<Rightarrow> (r, evs, buf', st3, w3))
             else (Inr (), evs, buf', st2, w2))))"

text \<open>How \<open>Link::run\<close> ends an established phase that failed: a reset or a dead link is restarted in
  place while the restart budget lasts.\<close>

definition established_failed :: "nat \<Rightarrow> Iap2Error \<Rightarrow> EstablishedState \<Rightarrow> nat \<Rightarrow> LinkTask \<Rightarrow> LinkTask" where
  "established_failed now err st established_at t =
    (if err = PeerReset \<or> err = RetransmitLimit then
       (let reason = (if err = PeerReset then PeerRst else RetransmitLimitHit);
            window = (if now - established_at \<ge> RESTART_HEALTHY_RESET then None else lt_restart_window t)
        in case window of
             Some started \<Rightarrow>
               (if now - started \<ge> RESTART_BUDGET_WINDOW
                then finish (Inl err) (emit (LinkDown reason) (t\<lparr>lt_restart_window := window\<rparr>))
                else
                  (let w = (if err = RetransmitLimit
                            then snd (write_packet (LinkPacket_header_only RST (es_last_sent_psn st) 0) (lt_writer t))
                            else lt_writer t)
                   in (emit (LinkRestarting reason) (t\<lparr>lt_restart_window := window, lt_writer := w\<rparr>))
                        \<lparr>lt_buf := [], lt_phase := Pausing\<rparr>))
           | None \<Rightarrow>
               (let w = (if err = RetransmitLimit
                         then snd (write_packet (LinkPacket_header_only RST (es_last_sent_psn st) 0) (lt_writer t))
                         else lt_writer t)
                in (emit (LinkRestarting reason) (t\<lparr>lt_restart_window := Some now, lt_writer := w\<rparr>))
                     \<lparr>lt_buf := [], lt_phase := Pausing\<rparr>))
     else finish (Inl err) (emit (LinkDown (LinkErr err)) t))"

text \<open>Running the service part and going on, or failing.\<close>

definition established_turn :: "nat \<Rightarrow> EstablishedState \<Rightarrow> nat \<Rightarrow> LinkTask \<Rightarrow> LinkTask" where
  "established_turn now st established_at t =
    (case established_service now (lt_buf t) st (lt_writer t) of
       (r, evs, buf, st', w) \<Rightarrow>
         (let t' = t\<lparr>lt_buf := buf, lt_writer := w, lt_events := lt_events t @ evs\<rparr>
          in case r of
               Inl e \<Rightarrow> established_failed now e st' established_at t'
             | Inr _ \<Rightarrow> t'\<lparr>lt_phase := Established_Phase st' established_at\<rparr>))"

section \<open>Handshake\<close>

text \<open>A handshake that fails: only a reset during a restart, within the budget, is tried again.\<close>

definition handshake_failed :: "nat \<Rightarrow> Iap2Error \<Rightarrow> LinkTask \<Rightarrow> LinkTask" where
  "handshake_failed now err t =
    (if err = PeerReset \<and>
        (case lt_restart_window t of None \<Rightarrow> False | Some s \<Rightarrow> now - s < RESTART_BUDGET_WINDOW)
     then t\<lparr>lt_buf := [], lt_phase := Pausing\<rparr>
     else if lt_restart_window t \<noteq> None
     then finish (Inl err) (emit (LinkDown (RestartFailed err)) t)
     else finish (Inl err) t)"

definition enter_established :: "LinkConfig \<Rightarrow> nat \<Rightarrow> Lsp \<Rightarrow> u8 \<Rightarrow> LinkTask \<Rightarrow> LinkTask" where
  "enter_established cfg now peer_lsp peer_initial_psn t =
    (let st = EstablishedState_new (lc_initial_psn cfg) peer_initial_psn peer_lsp
                (lc_retransmit_give_up cfg) now
     in case discard_stale_commands (lt_commands_closed t) (lt_commands t) of
          (Inl _, q) \<Rightarrow> finish (Inr ()) (local_disconnect st (t\<lparr>lt_commands := q\<rparr>))
        | (Inr _, q) \<Rightarrow>
            established_turn now st now (emit (Established peer_lsp) (t\<lparr>lt_commands := q\<rparr>)))"

text \<open>One turn of the negotiation loop up to its \<open>select!\<close>: at most one packet is looked at.\<close>

definition negotiate_turn :: "LinkConfig \<Rightarrow> nat \<Rightarrow> LinkTask \<Rightarrow> LinkTask" where
  "negotiate_turn cfg now t =
    (case link_decode (lt_buf t) of
       (Inl e, buf) \<Rightarrow> handshake_failed now IoError (t\<lparr>lt_buf := buf\<rparr>)
     | (Inr None, buf) \<Rightarrow> t\<lparr>lt_buf := buf, lt_phase := Negotiating\<rparr>
     | (Inr (Some pkt), buf) \<Rightarrow>
        (let control = lh_control (lp_header pkt); t1 = t\<lparr>lt_buf := buf\<rparr> in
         if control_contains control RST then handshake_failed now PeerReset t1
         else if control_contains control SYN then
           (case Lsp_decode (lp_payload pkt) of
              Inl e \<Rightarrow> handshake_failed now (FrameErr e) t1
            | Inr lsp \<Rightarrow>
                (let peer_initial_psn = lh_seq (lp_header pkt) in
                 case write_packet (LinkPacket_header_only ACK (lc_initial_psn cfg) peer_initial_psn)
                        (lt_writer t1) of
                   (Inl e, w) \<Rightarrow> handshake_failed now e (t1\<lparr>lt_writer := w\<rparr>)
                 | (Inr _, w) \<Rightarrow> enter_established cfg now lsp peer_initial_psn (t1\<lparr>lt_writer := w\<rparr>)))
         else handshake_failed now (UnexpectedHandshakePacket control) t1))"

definition begin_negotiation :: "LinkConfig \<Rightarrow> nat \<Rightarrow> LinkTask \<Rightarrow> LinkTask" where
  "begin_negotiation cfg now t =
    (case write_packet (LinkPacket_with_payload SYN (lc_initial_psn cfg) 0 0 (Lsp_encode (lc_our_lsp cfg)))
            (lt_writer t) of
       (Inl e, w) \<Rightarrow> handshake_failed now e (t\<lparr>lt_writer := w\<rparr>)
     | (Inr _, w) \<Rightarrow> negotiate_turn cfg now (t\<lparr>lt_writer := w\<rparr>))"

section \<open>Inputs\<close>

datatype LinkInput =
    Tick
  | Read bytes
  | ReadFailed
  | Deadline
  | CommandReady
  | RetransmitDue
  | PauseOver
  | Enqueue Iap2Command
  | CloseCommands

definition detect_input :: "LinkConfig \<Rightarrow> nat \<Rightarrow> LinkInput \<Rightarrow> LinkTask \<Rightarrow> LinkTask" where
  "detect_input cfg now inp t =
    (case inp of
       Tick \<Rightarrow>
         (case write_flush DETECT_MARKER (lt_writer t) of
            (Inl e, w) \<Rightarrow> handshake_failed now e (t\<lparr>lt_writer := w\<rparr>)
          | (Inr _, w) \<Rightarrow> t\<lparr>lt_writer := w\<rparr>)
     | Read bs \<Rightarrow>
         (if bs = [] then handshake_failed now PeerDisconnectedDuringHandshake t
          else case drain_detect_or_link_start (lt_buf t @ bs) of
            (found, buf) \<Rightarrow>
              (if found then begin_negotiation cfg now (t\<lparr>lt_buf := buf\<rparr>) else t\<lparr>lt_buf := buf\<rparr>))
     | ReadFailed \<Rightarrow> handshake_failed now IoError t
     | Deadline \<Rightarrow> handshake_failed now (HandshakeTimeout ''Detecting'') t
     | _ \<Rightarrow> t)"

definition negotiate_input :: "LinkConfig \<Rightarrow> nat \<Rightarrow> LinkInput \<Rightarrow> LinkTask \<Rightarrow> LinkTask" where
  "negotiate_input cfg now inp t =
    (case inp of
       Read bs \<Rightarrow>
         (if bs = [] then handshake_failed now PeerDisconnectedDuringHandshake t
          else negotiate_turn cfg now (t\<lparr>lt_buf := lt_buf t @ bs\<rparr>))
     | ReadFailed \<Rightarrow> handshake_failed now IoError t
     | Deadline \<Rightarrow> handshake_failed now (HandshakeTimeout ''Negotiating'') t
     | _ \<Rightarrow> t)"

definition established_input :: "nat \<Rightarrow> LinkInput \<Rightarrow> EstablishedState \<Rightarrow> nat \<Rightarrow> LinkTask \<Rightarrow> LinkTask" where
  "established_input now inp st since t =
    (case inp of
       Tick \<Rightarrow> established_turn now (report_meter now st) since t
     | Read bs \<Rightarrow>
         (if bs = [] then established_failed now PeerDisconnected st since t
          else established_turn now st since (t\<lparr>lt_buf := lt_buf t @ bs\<rparr>))
     | ReadFailed \<Rightarrow> established_failed now IoError st since t
     | CommandReady \<Rightarrow>
         (case lt_commands t of
            [] \<Rightarrow> (if lt_commands_closed t then finish (Inr ()) (local_disconnect st t) else t)
          | Disconnect # q \<Rightarrow> finish (Inr ()) (local_disconnect st (t\<lparr>lt_commands := q\<rparr>))
          | Send sid pl # q \<Rightarrow> established_turn now (enqueue_send sid pl st) since (t\<lparr>lt_commands := q\<rparr>))
     | RetransmitDue \<Rightarrow>
         (if next_retransmit_deadline st = None then t
          else case handle_retransmit_fire now st (lt_writer t) of
            (Inl e, st', w) \<Rightarrow> established_failed now e st' since (t\<lparr>lt_writer := w\<rparr>)
          | (Inr gave_up, st', w) \<Rightarrow>
              (if gave_up then established_failed now RetransmitLimit st' since (t\<lparr>lt_writer := w\<rparr>)
               else established_turn now st' since (t\<lparr>lt_writer := w\<rparr>)))
     | _ \<Rightarrow> t)"

definition link_run_step :: "LinkConfig \<Rightarrow> nat \<Rightarrow> LinkInput \<Rightarrow> LinkTask \<Rightarrow> LinkTask" where
  "link_run_step cfg now inp t =
    (case inp of
       Enqueue c \<Rightarrow> (if lt_commands_closed t then t else t\<lparr>lt_commands := lt_commands t @ [c]\<rparr>)
     | CloseCommands \<Rightarrow> t\<lparr>lt_commands_closed := True\<rparr>
     | _ \<Rightarrow>
        (case lt_phase t of
           Detecting \<Rightarrow> detect_input cfg now inp t
         | Negotiating \<Rightarrow> negotiate_input cfg now inp t
         | Established_Phase st since \<Rightarrow> established_input now inp st since t
         | Pausing \<Rightarrow> (if inp = PauseOver then t\<lparr>lt_phase := Detecting\<rparr> else t)
         | Finished r \<Rightarrow> t))"

definition link_run :: "LinkConfig \<Rightarrow> (nat \<times> LinkInput) list \<Rightarrow> LinkTask \<Rightarrow> LinkTask" where
  "link_run cfg inputs t = foldl (\<lambda>t (now, inp). link_run_step cfg now inp t) t inputs"

section \<open>The emulated device\<close>

text \<open>\<open>detect_and_negotiate_device\<close>: one turn of its loop up to the \<open>select!\<close>; \<open>Inr (Some _)\<close> is the
  negotiated result, \<open>Inr None\<close> waits.\<close>

definition device_negotiate_turn ::
    "LinkConfig \<Rightarrow> bytes \<Rightarrow> Writer \<Rightarrow> (Iap2Error + (Lsp \<times> u8) option) \<times> bytes \<times> Writer" where
  "device_negotiate_turn cfg buf0 w =
    (case link_decode buf0 of
       (Inl e, buf) \<Rightarrow> (Inl IoError, buf, w)
     | (Inr None, buf) \<Rightarrow> (Inr None, buf, w)
     | (Inr (Some pkt), buf) \<Rightarrow>
        (let control = lh_control (lp_header pkt) in
         if control_contains control RST then (Inl PeerReset, buf, w)
         else if control_contains control SYN then
           (case Lsp_decode (lp_payload pkt) of
              Inl e \<Rightarrow> (Inl (FrameErr e), buf, w)
            | Inr lsp \<Rightarrow>
                (let peer_initial_psn = lh_seq (lp_header pkt) in
                 case write_packet (LinkPacket_with_payload (SYN OR ACK) (lc_initial_psn cfg)
                        peer_initial_psn 0 (Lsp_encode (lc_our_lsp cfg))) w of
                   (Inl e, w') \<Rightarrow> (Inl e, buf, w')
                 | (Inr _, w') \<Rightarrow> (Inr (Some (lsp, peer_initial_psn)), buf, w')))
         else (Inl (UnexpectedHandshakePacket control), buf, w)))"

text \<open>What the device's loop does with an input: its result, or the buffer and writer to go on with.\<close>

definition device_negotiate_input ::
    "LinkConfig \<Rightarrow> LinkInput \<Rightarrow> bytes \<Rightarrow> Writer \<Rightarrow> (Iap2Error + (Lsp \<times> u8) option) \<times> bytes \<times> Writer" where
  "device_negotiate_input cfg inp buf w =
    (case inp of
       Tick \<Rightarrow>
         (case write_flush DETECT_MARKER w of
            (Inl e, w') \<Rightarrow> (Inl e, buf, w')
          | (Inr _, w') \<Rightarrow> device_negotiate_turn cfg buf w')
     | Read bs \<Rightarrow>
         (if bs = [] then (Inl PeerDisconnectedDuringHandshake, buf, w)
          else device_negotiate_turn cfg (buf @ bs) w)
     | ReadFailed \<Rightarrow> (Inl IoError, buf, w)
     | Deadline \<Rightarrow> (Inl (HandshakeTimeout ''Negotiating''), buf, w)
     | _ \<Rightarrow> (Inr None, buf, w))"

end
