(* ===== verification/Link_Pipe.thy ===== *)
theory Link_Pipe
  imports Link_Behaviour
begin

text \<open>Two established endpoints end to end: what \<open>established.rs\<close> promises to the sessions above it.
  Endpoint A queues and sends, B receives and acknowledges; between them are two FIFO channels of
  frames that may lose any frame at any time. Every step runs the operations of \<open>Link_State\<close> on the
  endpoint's state and puts the bytes they write on the channel, and the frames are decoded by
  \<open>link_decode\<close>. The abstract specification is the growing list \<open>pi_enqueued\<close> of what the sessions
  asked to be sent; the theorem is that what B hands up is a prefix of its segmentation.\<close>

section \<open>The system\<close>

record Pipe =
  pi_a :: EstablishedState
  pi_b :: EstablishedState
  pi_data :: "bytes list"
  pi_acks :: "bytes list"
  pi_enqueued :: "(u8 \<times> bytes) list"
  pi_sent :: "(u8 \<times> bytes) list"
  pi_delivered :: "DeliveredData list"

definition fresh_writer :: Writer where
  "fresh_writer = \<lparr>wr_sent = [], wr_budget = None\<rparr>"

definition pipe_start :: "u8 \<Rightarrow> u8 \<Rightarrow> Lsp \<Rightarrow> Lsp \<Rightarrow> nat \<Rightarrow> nat \<Rightarrow> Pipe" where
  "pipe_start psn_a psn_b lsp_a lsp_b give_up now =
    \<lparr>pi_a = EstablishedState_new psn_a psn_b lsp_b give_up now,
     pi_b = EstablishedState_new psn_b psn_a lsp_a give_up now,
     pi_data = [], pi_acks = [], pi_enqueued = [], pi_sent = [], pi_delivered = []\<rparr>"

inductive pipe_step :: "Pipe \<Rightarrow> Pipe \<Rightarrow> bool" where
  enqueue: "pipe_step s (s\<lparr>pi_a := enqueue_send sid pl (pi_a s), pi_enqueued := pi_enqueued s @ [(sid, pl)]\<rparr>)"
| send: "window_has_room (pi_a s) \<Longrightarrow> es_pending_send (pi_a s) = (sid, pl) # rest \<Longrightarrow>
    send_data_packet now sid pl ((pi_a s)\<lparr>es_pending_send := rest\<rparr>) fresh_writer = (Inr (), a', w) \<Longrightarrow>
    pipe_step s (s\<lparr>pi_a := a', pi_data := pi_data s @ wr_sent w, pi_sent := pi_sent s @ [(sid, pl)]\<rparr>)"
| fire: "handle_retransmit_fire now (pi_a s) fresh_writer = (x, a', w) \<Longrightarrow>
    pipe_step s (s\<lparr>pi_a := a', pi_data := pi_data s @ wr_sent w\<rparr>)"
| lose_data: "pi_data s = xs @ f # ys \<Longrightarrow> pipe_step s (s\<lparr>pi_data := xs @ ys\<rparr>)"
| lose_ack: "pi_acks s = xs @ f # ys \<Longrightarrow> pipe_step s (s\<lparr>pi_acks := xs @ ys\<rparr>)"
| recv: "pi_data s = f # ys \<Longrightarrow> link_decode f = (Inr (Some p), []) \<Longrightarrow>
    handle_inbound_data p (pi_b s) = (out, b') \<Longrightarrow>
    pipe_step s (s\<lparr>pi_b := b', pi_data := ys, pi_delivered := pi_delivered s @ out\<rparr>)"
| ack: "send_standalone_ack (pi_b s) fresh_writer = (x, b', w) \<Longrightarrow>
    pipe_step s (s\<lparr>pi_b := b', pi_acks := pi_acks s @ wr_sent w\<rparr>)"
| eak: "send_eak (pi_b s) fresh_writer = (x, b', w) \<Longrightarrow>
    pipe_step s (s\<lparr>pi_b := b', pi_acks := pi_acks s @ wr_sent w\<rparr>)"
| recv_ack: "pi_acks s = f # ys \<Longrightarrow> link_decode f = (Inr (Some p), []) \<Longrightarrow>
    handle_inbound_ack now (lh_ack (lp_header p)) (pi_a s) = a' \<Longrightarrow>
    pipe_step s (s\<lparr>pi_a := a', pi_acks := ys\<rparr>)"
| recv_eak: "handle_inbound_eak payload (pi_a s) fresh_writer = (x, a', w) \<Longrightarrow>
    pipe_step s (s\<lparr>pi_a := a', pi_data := pi_data s @ wr_sent w\<rparr>)"

text \<open>What is reachable after a handshake in which the endpoints have told each other these parameters.\<close>

inductive pipe_reachable :: "Lsp \<Rightarrow> Lsp \<Rightarrow> Pipe \<Rightarrow> bool" for lsp_a lsp_b where
  start: "pipe_reachable lsp_a lsp_b (pipe_start psn_a psn_b lsp_a lsp_b give_up now)"
| step: "pipe_reachable lsp_a lsp_b s \<Longrightarrow> pipe_step s s' \<Longrightarrow> pipe_reachable lsp_a lsp_b s'"

section \<open>Segments and frames\<close>

definition seg_of :: "LinkPacket \<Rightarrow> u8 \<times> bytes" where
  "seg_of p = (lh_session_id (lp_header p), lp_payload p)"

definition dd_of :: "u8 \<times> bytes \<Rightarrow> DeliveredData" where
  "dd_of sg = \<lparr>dd_session_id = fst sg, dd_payload = snd sg\<rparr>"

lemma delivered_of_eq: "delivered_of p = dd_of (seg_of p)"
  by (simp add: delivered_of_def dd_of_def seg_of_def)

text \<open>The frame of the \<open>n\<close>-th segment, counted from one.\<close>

definition frame_of :: "u8 \<Rightarrow> (u8 \<times> bytes) list \<Rightarrow> nat \<Rightarrow> bytes \<Rightarrow> bool" where
  "frame_of psn sent n f \<longleftrightarrow> 1 \<le> n \<and> n \<le> length sent \<and>
    (\<exists>p. f = link_encode p \<and> wf_packet p \<and> lh_seq (lp_header p) = psn + of_nat n \<and>
      seg_of p = sent ! (n - 1))"

definition ack_of :: "u8 \<Rightarrow> nat \<Rightarrow> bytes \<Rightarrow> bool" where
  "ack_of psn n f \<longleftrightarrow> (\<exists>p. f = link_encode p \<and> wf_packet p \<and> lh_ack (lp_header p) = psn + of_nat n)"

lemma frame_of_append: "frame_of psn sent n f \<Longrightarrow> frame_of psn (sent @ new) n f"
  by (auto simp: frame_of_def nth_append)

lemma frame_of_decode:
  "frame_of psn sent n f \<Longrightarrow> link_decode f = (Inr (Some p), []) \<Longrightarrow>
   lh_seq (lp_header p) = psn + of_nat n \<and> seg_of p = sent ! (n - 1) \<and> 1 \<le> n \<and> n \<le> length sent"
  using link_decode_encode [of _ "[]"] by (fastforce simp: frame_of_def)

lemma ack_of_decode:
  "ack_of psn n f \<Longrightarrow> link_decode f = (Inr (Some p), []) \<Longrightarrow> lh_ack (lp_header p) = psn + of_nat n"
  using link_decode_encode [of _ "[]"] by (fastforce simp: ack_of_def)

section \<open>The receiver in terms of segment numbers\<close>

text \<open>\<open>recv_inv psn sent R b\<close>: B has delivered \<open>R\<close> segments and buffers others under their numbers.\<close>

definition recv_inv :: "u8 \<Rightarrow> (u8 \<times> bytes) list \<Rightarrow> nat \<Rightarrow> EstablishedState \<Rightarrow> bool" where
  "recv_inv psn sent R b \<longleftrightarrow> es_inv b \<and> es_last_received_in_sequence_psn b = psn + of_nat R \<and> R \<le> length sent \<and>
    (\<forall>k p. es_out_of_order b k = Some p \<longrightarrow>
      (let n = R + unat (k - es_last_received_in_sequence_psn b) in n \<le> length sent \<and> seg_of p = sent ! (n - 1)))"

definition buffered_numbers :: "nat \<Rightarrow> EstablishedState \<Rightarrow> nat set" where
  "buffered_numbers R b =
    (\<lambda>k. R + unat (k - es_last_received_in_sequence_psn b)) ` dom (es_out_of_order b)"

lemma recv_inv_append: "recv_inv psn sent R b \<Longrightarrow> recv_inv psn (sent @ new) R b"
proof -
  assume r: "recv_inv psn sent R b"
  then have pos: "es_out_of_order b k = Some p \<Longrightarrow> 1 \<le> unat (k - es_last_received_in_sequence_psn b)" for k p
    using es_inv_buffered [of b k p] by (simp add: recv_inv_def)
  show ?thesis
    using r pos by (fastforce simp: recv_inv_def Let_def nth_append)
qed

text \<open>The distance of two nearby segment numbers.\<close>

lemma unat_offset: "d < 256 \<Longrightarrow> unat (psn + of_nat (R + d) - (psn + of_nat R) :: u8) = d"
  by simp

lemma unat_offset_neg:
  "0 < d \<Longrightarrow> d < 256 \<Longrightarrow> unat (psn + of_nat R - (psn + of_nat (R + d)) :: u8) = 256 - d"
  using unat_sub_of_nat_neg [of 0 d] by simp

lemma unat_sub_shift: "e \<le> unat (x :: u8) \<Longrightarrow> unat (x - of_nat e) = unat x - e"
  using unat_sub_of_nat [of e "unat x"] by simp

lemma recv_inv_transfer:
  assumes "recv_inv psn sent R b" "es_inv b'"
    "es_last_received_in_sequence_psn b' = es_last_received_in_sequence_psn b" "es_out_of_order b' = es_out_of_order b"
  shows "recv_inv psn sent R b' \<and> buffered_numbers R b' = buffered_numbers R b"
  unfolding recv_inv_def buffered_numbers_def assms(3,4)
  using assms(1,2) unfolding recv_inv_def by blast

text \<open>The next segment arrives: it is delivered with the run behind it.\<close>

lemma recv_next_out:
  assumes inv: "recv_inv psn sent R b" and p: "lh_seq (lp_header p) = psn + of_nat (R + 1)"
      "seg_of p = sent ! R" "R < length sent" and h: "handle_inbound_data p b = (out, b')"
  obtains o1 where "out = delivered_of p # o1" "length o1 \<le> 254"
    "\<And>i. i < length o1 \<Longrightarrow> R + 2 + i \<in> buffered_numbers R b \<and> R + 2 + i \<le> length sent \<and> o1 ! i = dd_of (sent ! (R + 1 + i))"
    "es_last_received_in_sequence_psn b' = psn + of_nat (R + 1 + length o1)"
    "\<And>k. es_out_of_order b' k = (if unat (k - (lh_seq (lp_header p) + 1)) < length o1 then None else es_out_of_order b k)"
proof -
  let ?last = "es_last_received_in_sequence_psn b" and ?seq = "lh_seq (lp_header p)"
  have es: "es_inv b" and last: "?last = psn + of_nat R" using inv by (simp_all add: recv_inv_def)
  have seq: "?seq = ?last + 1" using p(1) last by simp
  obtain o1 where r: "out = delivered_of p # o1"
    "es_last_received_in_sequence_psn b' = ?seq + of_nat (length o1)"
    "\<And>i. i < length o1 \<Longrightarrow> \<exists>q. es_out_of_order b (?seq + 1 + of_nat i) = Some q \<and> o1 ! i = delivered_of q"
    "\<And>k. es_out_of_order b' k = (if unat (k - (?seq + 1)) < length o1 then None else es_out_of_order b k)"
    using next_run [OF es h seq] by metis
  have short: "length o1 \<le> 254"
  proof (rule ccontr)
    assume "\<not> length o1 \<le> 254"
    then obtain q where "es_out_of_order b (?seq + 1 + of_nat 254) = Some q" using r(3) [of 254] by auto
    moreover have "?seq + 1 + of_nat 254 = ?last" using seq by simp
    ultimately have "es_out_of_order b ?last = Some q" by (simp only:)
    from es_inv_buffered [OF es this] show False by simp
  qed
  have run: "R + 2 + i \<in> buffered_numbers R b \<and> R + 2 + i \<le> length sent \<and> o1 ! i = dd_of (sent ! (R + 1 + i))"
    if i: "i < length o1" for i
  proof -
    obtain q where q: "es_out_of_order b (?seq + 1 + of_nat i) = Some q" "o1 ! i = delivered_of q"
      using r(3) [OF i] by blast
    have "?seq + 1 + of_nat i - ?last = of_nat (i + 2)" using seq by simp
    then have d: "unat (?seq + 1 + of_nat i - ?last) = i + 2"
      using i short by (simp only: unat_of_nat8) simp
    have "R + 2 + i \<le> length sent \<and> seg_of q = sent ! (R + 1 + i)"
      using inv q(1) d by (fastforce simp: recv_inv_def Let_def)
    moreover have "R + 2 + i \<in> buffered_numbers R b"
      using q(1) d by (auto simp: buffered_numbers_def image_iff intro!: bexI [of _ "?seq + 1 + of_nat i"])
    ultimately show ?thesis using q(2) by (simp add: delivered_of_eq)
  qed
  show thesis
    using r short run p(1) by (intro that [of o1]) (auto simp: algebra_simps)
qed

lemma recv_next:
  assumes inv: "recv_inv psn sent R b" and p: "lh_seq (lp_header p) = psn + of_nat (R + 1)"
      "seg_of p = sent ! R" "R < length sent" and h: "handle_inbound_data p b = (out, b')"
  shows "\<exists>R'. recv_inv psn sent R' b' \<and> R \<le> R' \<and> out = map dd_of (take (R' - R) (drop R sent)) \<and>
    R' \<in> insert (R + 1) (buffered_numbers R b) \<and> buffered_numbers R' b' \<subseteq> buffered_numbers R b"
proof -
  let ?last = "es_last_received_in_sequence_psn b"
  obtain o1 where r: "out = delivered_of p # o1" "length o1 \<le> 254"
    "\<And>i. i < length o1 \<Longrightarrow> R + 2 + i \<in> buffered_numbers R b \<and> R + 2 + i \<le> length sent \<and> o1 ! i = dd_of (sent ! (R + 1 + i))"
    "es_last_received_in_sequence_psn b' = psn + of_nat (R + 1 + length o1)"
    "\<And>k. es_out_of_order b' k = (if unat (k - (lh_seq (lp_header p) + 1)) < length o1 then None else es_out_of_order b k)"
    using recv_next_out [OF assms] by metis
  let ?R' = "R + 1 + length o1"
  have last: "?last = psn + of_nat R" using inv by (simp add: recv_inv_def)
  have le: "?R' \<le> length sent" and mem: "?R' \<in> insert (R + 1) (buffered_numbers R b)"
    using p(3) r(3) [of "length o1 - 1"] by (cases o1; simp)+
  have out: "out = map dd_of (take (?R' - R) (drop R sent))"
    using r(1,3) p(2,3) le
    by (intro nth_equalityI) (auto simp: nth_Cons delivered_of_eq split: nat.splits)
  have num: "?R' + unat (k - es_last_received_in_sequence_psn b') = R + unat (k - ?last) \<and> es_out_of_order b k = Some q"
    if k: "es_out_of_order b' k = Some q" for k q
  proof -
    have kq: "es_out_of_order b k = Some q" "\<not> unat (k - (lh_seq (lp_header p) + 1)) < length o1"
      using k r(5) [of k] by (auto split: if_splits)
    have d: "2 \<le> unat (k - ?last)" using es_inv_buffered [OF _ kq(1)] inv by (simp add: recv_inv_def)
    have "k - (lh_seq (lp_header p) + 1) = k - ?last - of_nat 2" using p(1) last by simp
    then have "unat (k - (lh_seq (lp_header p) + 1)) = unat (k - ?last) - 2"
      using unat_sub_shift [OF d] by (simp only:)
    with kq(2) d have e: "1 + length o1 \<le> unat (k - ?last)" by simp
    have "k - es_last_received_in_sequence_psn b' = k - ?last - of_nat (1 + length o1)"
      using r(4) last by simp
    then have "unat (k - es_last_received_in_sequence_psn b') = unat (k - ?last) - (1 + length o1)"
      using unat_sub_shift [OF e] by (simp only:)
    with e kq(1) show ?thesis by simp
  qed
  have "es_inv b'" using es_inv_handle_inbound_data [of b p] inv h by (simp add: recv_inv_def)
  then have "recv_inv psn sent ?R' b'"
    using inv le r(4) num unfolding recv_inv_def Let_def by metis
  moreover have "buffered_numbers ?R' b' \<subseteq> buffered_numbers R b"
    using num by (auto simp: buffered_numbers_def image_iff dom_def) 
  ultimately show ?thesis using out mem by (intro exI [of _ ?R']) simp
qed

text \<open>Any segment from the last 127 delivered or the next 128 arrives.\<close>

lemma recv_segment:
  assumes inv: "recv_inv psn sent R b" and mx: "unat (pa_max_outgoing (es_params b)) \<le> 128"
    and p: "lh_seq (lp_header p) = psn + of_nat m" "seg_of p = sent ! (m - 1)" "1 \<le> m" "m \<le> length sent"
    and near: "R < m + 128" "m \<le> R + 128" and h: "handle_inbound_data p b = (out, b')"
  shows "\<exists>R'. recv_inv psn sent R' b' \<and> R \<le> R' \<and> out = map dd_of (take (R' - R) (drop R sent)) \<and>
    R' \<in> insert R (insert m (buffered_numbers R b)) \<and> buffered_numbers R' b' \<subseteq> insert m (buffered_numbers R b)"
proof -
  let ?last = "es_last_received_in_sequence_psn b" and ?seq = "lh_seq (lp_header p)"
  have es: "es_inv b" and last: "?last = psn + of_nat R" using inv by (simp_all add: recv_inv_def)
  have es': "es_inv b'" using es_inv_handle_inbound_data [OF es, of p] h by simp
  have same: ?thesis if "out = []" "es_last_received_in_sequence_psn b' = ?last" "es_out_of_order b' = es_out_of_order b"
    using recv_inv_transfer [OF inv es' that(2,3)] that(1) by (intro exI [of _ R]) auto
  consider (nxt) "m = R + 1" | (dup) "m = R" | (old) d where "R = m + d" "0 < d" "d < 128"
    | (ahead) d where "m = R + d" "2 \<le> d" "d \<le> 128"
    using near by (metis add.commute le_add_diff_inverse less_imp_add_positive nat_add_left_cancel_le nat_add_left_cancel_less linorder_neqE_nat Suc_leI add_Suc_right le_neq_implies_less less_one not_le numeral_2_eq_2 One_nat_def Suc_eq_plus1)
  then show ?thesis
  proof cases
    case nxt
    then show ?thesis using recv_next [OF inv _ _ _ h] p by auto
  next
    case dup
    then show ?thesis using inbound_data_dup [of p b] p(1) last h by (intro same) auto
  next
    case old
    have "unat (?seq - ?last) = 256 - d"
      unfolding p(1) last old(1) using unat_offset_neg [of d psn m] old(2,3) by simp
    then show ?thesis using inbound_data_drop [of p b] old mx h by (intro same) auto
  next
    case ahead
    have d: "unat (?seq - ?last) = d" unfolding p(1) last ahead(1) using ahead by (intro unat_offset) simp
    show ?thesis
    proof (cases "d < unat (pa_max_outgoing (es_params b))")
      case False
      then show ?thesis using inbound_data_drop [of p b] d ahead h by (intro same) auto
    next
      case True
      have b': "out = []" "b' = (meter_rx p b)\<lparr>es_out_of_order := (es_out_of_order b)(?seq \<mapsto> p)\<rparr>"
        using inbound_data_buffer [of p b] True d ahead h by auto
      have "recv_inv psn sent R b'"
        using inv es' b' d ahead p(2,4) by (auto simp: recv_inv_def Let_def)
      moreover have "buffered_numbers R b' \<subseteq> insert m (buffered_numbers R b)"
        using b' d ahead by (auto simp: buffered_numbers_def)
      ultimately show ?thesis using b'(1) by (intro exI [of _ R]) auto
    qed
  qed
qed

section \<open>The sender and the channels in terms of segment numbers\<close>

text \<open>\<open>K\<close> segments are acknowledged; the others that were sent wait with their frames.\<close>

definition send_inv :: "u8 \<Rightarrow> (u8 \<times> bytes) list \<Rightarrow> nat \<Rightarrow> EstablishedState \<Rightarrow> bool" where
  "send_inv psn sent K a \<longleftrightarrow> es_inv a \<and> es_last_sent_psn a = psn + of_nat (length sent) \<and>
    K + length (es_unacked a) = length sent \<and>
    (\<forall>i < length (es_unacked a). frame_of psn sent (K + 1 + i) (up_wire (es_unacked a ! i)))"

text \<open>Every frame in flight belongs to a segment, no older than the window \<open>W\<close> allows compared with
  the numbers in \<open>X\<close> (what the receiver has) and with the frames ahead of it.\<close>

definition data_inv :: "nat \<Rightarrow> u8 \<Rightarrow> (u8 \<times> bytes) list \<Rightarrow> nat set \<Rightarrow> nat list \<Rightarrow> bytes list \<Rightarrow> bool" where
  "data_inv W psn sent X ns fs \<longleftrightarrow> list_all2 (frame_of psn sent) ns fs \<and>
    sorted_wrt (\<lambda>x y. x < y + W) ns \<and> (\<forall>n \<in> set ns. \<forall>x \<in> X. x < n + W)"

definition ack_inv :: "u8 \<Rightarrow> nat \<Rightarrow> nat \<Rightarrow> nat list \<Rightarrow> bytes list \<Rightarrow> bool" where
  "ack_inv psn K R as fs \<longleftrightarrow> list_all2 (ack_of psn) as fs \<and> sorted as \<and> (\<forall>x \<in> set as. K \<le> x \<and> x \<le> R)"

lemma data_inv_frames: "data_inv W psn sent X ns fs \<Longrightarrow> n \<in> set ns \<Longrightarrow> 1 \<le> n \<and> n \<le> length sent"
  by (fastforce simp: data_inv_def frame_of_def list_all2_conv_all_nth in_set_conv_nth)

lemma data_inv_more_sent: "data_inv W psn sent X ns fs \<Longrightarrow> data_inv W psn (sent @ new) X ns fs"
  unfolding data_inv_def by (auto elim: list_all2_mono intro: frame_of_append)

lemma data_inv_push:
  assumes "data_inv W psn sent X ns fs" "\<forall>x \<in> X. x \<le> S" "length sent \<le> S"
    "list_all2 (frame_of psn sent') ms gs" "\<forall>m \<in> set ms. S < m + W" "\<forall>m \<in> set ms. m \<le> S \<or> ms = [m]"
    "sent' = sent \<or> sent' = sent @ [sg]"
  shows "data_inv W psn sent' X (ns @ ms) (fs @ gs)"
proof -
  have ns: "n \<le> S" if "n \<in> set ns" for n
    using data_inv_frames [OF assms(1) that] assms(3) by simp
  have 1: "data_inv W psn sent' X ns fs" using assms(1,7) data_inv_more_sent by blast
  have 2: "sorted_wrt (\<lambda>x y. x < y + W) ms"
  proof (cases "\<exists>m. ms = [m]")
    case False
    then have "x < y + W" if "x \<in> set ms" "y \<in> set ms" for x y
      using assms(5,6) that by (meson le_less_trans)
    then show ?thesis by (auto simp: sorted_wrt_iff_nth_less)
  qed auto
  show ?thesis
    using 1 2 assms(2,4,5) ns
    by (auto simp: data_inv_def sorted_wrt_append intro: list_all2_appendI) (meson le_less_trans)+
qed

lemma list_all2_middle:
  assumes "list_all2 P ns (xs @ f # ys)"
  obtains ms m ks where "ns = ms @ m # ks" "P m f" "list_all2 P (ms @ ks) (xs @ ys)"
proof -
  from assms obtain us z zs where "ns = us @ z # zs" "P z f" "list_all2 P us xs" "list_all2 P zs ys"
    by (auto simp: list_all2_append2 list_all2_Cons2)
  then show thesis by (intro that [of us z zs] list_all2_appendI)
qed

lemma data_inv_lose:
  assumes "data_inv W psn sent X ns (xs @ f # ys)"
  shows "\<exists>ns'. data_inv W psn sent X ns' (xs @ ys)"
proof -
  from assms have "list_all2 (frame_of psn sent) ns (xs @ f # ys)" by (simp add: data_inv_def)
  then obtain ms m ks where ns: "ns = ms @ m # ks" "list_all2 (frame_of psn sent) (ms @ ks) (xs @ ys)"
    by (rule list_all2_middle)
  have "sorted_wrt (\<lambda>x y. x < y + W) (ms @ m # ks)" "\<forall>n \<in> set (ms @ m # ks). \<forall>x \<in> X. x < n + W"
    using assms unfolding ns(1) data_inv_def by blast+
  then have "data_inv W psn sent X (ms @ ks) (xs @ ys)"
    using ns(2) unfolding data_inv_def by (simp add: sorted_wrt_append)
  then show ?thesis by blast
qed

lemma ack_inv_lose:
  assumes "ack_inv psn K R as (xs @ f # ys)"
  shows "\<exists>as'. ack_inv psn K R as' (xs @ ys)"
proof -
  from assms have "list_all2 (ack_of psn) as (xs @ f # ys)" by (simp add: ack_inv_def)
  then obtain ms m ks where as: "as = ms @ m # ks" "list_all2 (ack_of psn) (ms @ ks) (xs @ ys)"
    by (rule list_all2_middle)
  have "sorted (ms @ m # ks)" "\<forall>x \<in> set (ms @ m # ks). K \<le> x \<and> x \<le> R"
    using assms unfolding as(1) ack_inv_def by blast+
  then have "ack_inv psn K R (ms @ ks) (xs @ ys)"
    using as(2) unfolding ack_inv_def by (simp add: sorted_append)
  then show ?thesis by blast
qed

section \<open>Sender steps\<close>

lemma fresh_reliable [simp]: "reliable fresh_writer" "wr_sent fresh_writer = []"
  by (simp_all add: reliable_def fresh_writer_def)

text \<open>A retransmission sends frames that are outstanding and changes no sequence number.\<close>

definition resent :: "EstablishedState \<Rightarrow> EstablishedState \<Rightarrow> bytes list \<Rightarrow> bool" where
  "resent a a' fs \<longleftrightarrow> es_last_sent_psn a' = es_last_sent_psn a \<and> es_params a' = es_params a \<and>
    es_pending_send a' = es_pending_send a \<and> map up_wire (es_unacked a') = map up_wire (es_unacked a) \<and>
    set fs \<subseteq> up_wire ` set (es_unacked a)"

lemma resent_fire:
  "handle_retransmit_fire now a w = (x, a', w') \<Longrightarrow> reliable w \<Longrightarrow> wr_sent w = [] \<Longrightarrow> resent a a' (wr_sent w')"
  by (auto simp: handle_retransmit_fire_def Let_def write_flush_reliable arm_retransmit_def resent_def
      split: if_splits list.splits)

lemma resent_eak_loop:
  "eak_loop pl a w = (x, a', w') \<Longrightarrow> reliable w \<Longrightarrow>
   \<exists>fs. wr_sent w' = wr_sent w @ fs \<and> resent a a' fs \<and> reliable w'"
proof (induction pl arbitrary: a w)
  case Nil
  then show ?case by (auto simp: resent_def)
next
  case (Cons m rest)
  show ?case
  proof (cases "bump_retry m (es_unacked a)")
    case None
    then show ?thesis using Cons by simp
  next
    case (Some r)
    obtain ps wire where r: "r = (ps, wire)" by force
    note bump = bump_retry_props [OF Some [unfolded r]]
    let ?w = "w\<lparr>wr_sent := wr_sent w @ [wire]\<rparr>" and ?a = "a\<lparr>es_unacked := ps\<rparr>"
    have w: "write_all wire w = (Inr (), ?w)" using Cons.prems(2) by (simp add: write_all_def reliable_def)
    obtain fs where fs: "wr_sent w' = wr_sent ?w @ fs" "resent ?a a' fs" "reliable w'"
      using Cons.IH [of ?a ?w] Cons.prems Some r w by auto
    have "up_wire ` set ps = up_wire ` set (es_unacked a)" using bump by (metis list.set_map)
    then have "resent a a' (wire # fs)" using fs(2) bump by (auto simp: resent_def)
    then show ?thesis using fs by (intro exI [of _ "wire # fs"]) simp
  qed
qed

lemma resent_eak:
  assumes "handle_inbound_eak pl a fresh_writer = (x, a', w')"
  shows "resent a a' (wr_sent w')"
proof -
  obtain y a1 w1 where e: "eak_loop pl a fresh_writer = (y, a1, w1)" by (metis prod_cases3)
  then obtain fs where "wr_sent w1 = fs" "resent a a1 fs" "reliable w1"
    using resent_eak_loop [OF e] by auto
  then show ?thesis
    using assms e by (auto simp: handle_inbound_eak_def flush_def reliable_def split: sum.splits)
qed

lemma send_inv_resent:
  assumes "send_inv psn sent K a" "resent a a' fs" "es_inv a'"
  shows "send_inv psn sent K a' \<and>
    (\<exists>ms. list_all2 (frame_of psn sent) ms fs \<and> (\<forall>m \<in> set ms. K < m \<and> m \<le> length sent))"
proof -
  have len: "length (es_unacked a') = length (es_unacked a)"
    using assms(2) unfolding resent_def by (metis length_map)
  have wire: "up_wire (es_unacked a' ! i) = up_wire (es_unacked a ! i)" if "i < length (es_unacked a)" for i
    using assms(2) that len unfolding resent_def by (metis nth_map)
  have "\<exists>m. frame_of psn sent m f \<and> K < m \<and> m \<le> length sent" if f: "f \<in> set fs" for f
  proof -
    obtain i where "i < length (es_unacked a)" "f = up_wire (es_unacked a ! i)"
      using f assms(2) unfolding resent_def by (metis (no_types, lifting) imageE in_set_conv_nth subsetD)
    then show ?thesis
      using assms(1) by (intro exI [of _ "K + 1 + i"]) (auto simp: send_inv_def)
  qed
  then obtain g where g: "\<And>f. f \<in> set fs \<Longrightarrow> frame_of psn sent (g f) f \<and> K < g f \<and> g f \<le> length sent"
    by metis
  have "list_all2 (frame_of psn sent) (map g fs) fs"
    using g by (auto simp: list_all2_map1 intro!: list.rel_refl_strong)
  moreover have "\<forall>m \<in> set (map g fs). K < m \<and> m \<le> length sent" using g by auto
  ultimately have "\<exists>ms. list_all2 (frame_of psn sent) ms fs \<and> (\<forall>m \<in> set ms. K < m \<and> m \<le> length sent)"
    by blast
  moreover have "send_inv psn sent K a'"
    using assms len wire by (simp add: send_inv_def resent_def)
  ultimately show ?thesis by blast
qed

text \<open>A new segment goes out.\<close>

lemma send_inv_send:
  assumes "send_inv psn sent K a" "window_has_room a" "es_pending_send a = (sid, pl) # rest"
    "send_data_packet now sid pl (a\<lparr>es_pending_send := rest\<rparr>) fresh_writer = (x, a', w)"
  shows "send_inv psn (sent @ [(sid, pl)]) K a' \<and> es_pending_send a' = rest \<and> es_params a' = es_params a \<and>
    (\<exists>f. wr_sent w = [f] \<and> frame_of psn (sent @ [(sid, pl)]) (length sent + 1) f)"
proof -
  let ?a = "a\<lparr>es_pending_send := rest\<rparr>" and ?sent = "sent @ [(sid, pl)]"
  let ?p = "data_packet sid pl ?a"
  have inv: "es_inv ?a" "pl \<noteq> []" "length pl \<le> unat (pa_max_payload_len (es_params ?a))"
    using assms(1,3) by (auto simp: send_inv_def es_inv_def wf_pending_def)
  have room: "window_has_room ?a" using assms(2) by (simp add: window_has_room_def)
  have a': "a' = record_sent now (link_encode ?p) ?a" "wr_sent w = [link_encode ?p]"
    using assms(4) by (auto simp: send_data_packet_def Let_def write_flush_reliable encode_packet_def)
  have "wf_packet ?p" using inv by (intro wf_data_packet) (auto simp: es_inv_def wf_params_def)
  moreover have "lh_seq (lp_header ?p) = psn + of_nat (length sent + 1)" "seg_of ?p = (sid, pl)"
    using assms(1) by (simp_all add: data_packet_def LinkPacket_with_payload_def
        LinkHeader_with_payload_def seg_of_def send_inv_def algebra_simps)
  ultimately have f: "frame_of psn ?sent (length sent + 1) (link_encode ?p)"
    unfolding frame_of_def by (intro conjI exI [of _ ?p]) auto
  have "es_inv a'" using es_inv_send_data_packet [OF inv(1) room inv(2,3) assms(4)] .
  moreover have "frame_of psn ?sent (K + 1 + i) (up_wire (es_unacked a' ! i))" if "i < length (es_unacked a')" for i
  proof (cases "i < length (es_unacked a)")
    case True
    then show ?thesis
      using assms(1) a'(1) frame_of_append
      by (auto simp: send_inv_def record_sent_def Let_def arm_retransmit_def nth_append)
  next
    case False
    then have "i = length (es_unacked a)"
      using that a'(1) by (simp add: record_sent_def Let_def arm_retransmit_def split: if_splits)
    then show ?thesis
      using assms(1) a'(1) f
      by (auto simp: send_inv_def record_sent_def Let_def arm_retransmit_def nth_append)
  qed
  ultimately show ?thesis
    using assms(1) a' f
    by (auto simp: send_inv_def record_sent_def Let_def arm_retransmit_def algebra_simps split: if_splits)
qed

text \<open>An acknowledgement of segment \<open>x\<close> arrives.\<close>

lemma send_inv_ack:
  assumes "send_inv psn sent K a" "length (es_unacked a) \<le> 128" "K \<le> x" "x \<le> length sent"
  shows "send_inv psn sent x (handle_inbound_ack now (psn + of_nat x) a)"
proof -
  let ?a' = "handle_inbound_ack now (psn + of_nat x) a"
  let ?k = "length sent - x"
  have "of_nat x = of_nat (length sent) - (of_nat ?k :: u8)" using assms(4) by simp
  then have e: "psn + of_nat x = es_last_sent_psn a - of_nat ?k"
    using assms(1) by (simp add: send_inv_def)
  have n: "length (es_unacked a) - ?k = x - K" "?k \<le> length (es_unacked a) + 127" "es_inv a"
    using assms unfolding send_inv_def by linarith+
  have u: "es_unacked ?a' = drop (x - K) (es_unacked a)"
    using inbound_ack_drop [OF n(3) assms(2) n(2)] unfolding e n(1) .
  have "es_inv ?a'" using assms(1) by (auto simp: send_inv_def intro: es_inv_handle_inbound_ack)
  moreover have "frame_of psn sent (x + 1 + i) (up_wire (es_unacked ?a' ! i))" if "i < length (es_unacked ?a')" for i
  proof -
    have "x - K + i < length (es_unacked a)" using that u by simp
    moreover have "K + 1 + (x - K + i) = x + 1 + i" using assms(3) by simp
    ultimately show ?thesis using assms(1) u unfolding send_inv_def by (metis nth_drop less_imp_le_nat add_leD1)
  qed
  ultimately show ?thesis
    using assms u by (auto simp: send_inv_def inbound_ack_frame)
qed

section \<open>The invariant of the system\<close>

definition segments :: "LinkParams \<Rightarrow> (u8 \<times> bytes) list \<Rightarrow> (u8 \<times> bytes) list" where
  "segments pa msgs =
    concat (map (\<lambda>(sid, pl). map (Pair sid) (split_payload (unat (pa_max_payload_len pa)) pl)) msgs)"

definition pipe_inv :: "u8 \<Rightarrow> Pipe \<Rightarrow> nat \<Rightarrow> nat \<Rightarrow> bool" where
  "pipe_inv psn s K R \<longleftrightarrow>
    (let W = unat (pa_max_outgoing (es_params (pi_a s))) in
     W \<le> 128 \<and> unat (pa_max_outgoing (es_params (pi_b s))) \<le> 128 \<and>
     send_inv psn (pi_sent s) K (pi_a s) \<and> recv_inv psn (pi_sent s) R (pi_b s) \<and> K \<le> R \<and>
     (\<exists>ns. data_inv W psn (pi_sent s) (insert R (buffered_numbers R (pi_b s))) ns (pi_data s)) \<and>
     (\<exists>as. ack_inv psn K R as (pi_acks s)) \<and>
     pi_delivered s = map dd_of (take R (pi_sent s)) \<and>
     pi_sent s @ es_pending_send (pi_a s) = segments (es_params (pi_a s)) (pi_enqueued s))"

lemma recv_inv_numbers:
  "recv_inv psn sent R b \<Longrightarrow> x \<in> insert R (buffered_numbers R b) \<Longrightarrow> x \<le> length sent"
  by (auto simp: recv_inv_def buffered_numbers_def Let_def)

lemma send_inv_window:
  "send_inv psn sent K a \<Longrightarrow> length sent \<le> K + unat (pa_max_outgoing (es_params a))"
  by (auto simp: send_inv_def es_inv_def)

lemma pipe_inv_start:
  assumes "unat (lsp_max_outgoing lsp_a) \<le> 128" "unat (lsp_max_outgoing lsp_b) \<le> 128"
  shows "pipe_inv psn_a (pipe_start psn_a psn_b lsp_a lsp_b give_up now) 0 0"
proof -
  have w: "unat (pa_max_outgoing (LinkParams_from_peer_lsp l)) \<le> 128" if "unat (lsp_max_outgoing l) \<le> 128" for l
    using that by (simp add: LinkParams_from_peer_lsp_def max_def)
  show ?thesis
    using w [OF assms(1)] w [OF assms(2)]
    by (auto simp: pipe_inv_def pipe_start_def send_inv_def recv_inv_def es_inv_new data_inv_def ack_inv_def
        segments_def)
qed

lemma pipe_inv_resent:
  assumes inv: "pipe_inv psn s K R" and "resent (pi_a s) a' fs" "es_inv a'"
  shows "pipe_inv psn (s\<lparr>pi_a := a', pi_data := pi_data s @ fs\<rparr>) K R"
proof -
  let ?W = "unat (pa_max_outgoing (es_params (pi_a s)))" and ?X = "insert R (buffered_numbers R (pi_b s))"
  have si: "send_inv psn (pi_sent s) K (pi_a s)" and ri: "recv_inv psn (pi_sent s) R (pi_b s)"
    using inv by (simp_all add: pipe_inv_def Let_def)
  obtain ns where ns: "data_inv ?W psn (pi_sent s) ?X ns (pi_data s)"
    using inv by (auto simp: pipe_inv_def Let_def)
  obtain ms where ms: "list_all2 (frame_of psn (pi_sent s)) ms fs" "\<forall>m \<in> set ms. K < m \<and> m \<le> length (pi_sent s)"
    using send_inv_resent [OF si assms(2,3)] by blast
  have "data_inv ?W psn (pi_sent s) ?X (ns @ ms) (pi_data s @ fs)"
    using recv_inv_numbers [OF ri] send_inv_window [OF si] ms(2)
    by (intro data_inv_push [OF ns _ order.refl ms(1)]) force+
  moreover have "send_inv psn (pi_sent s) K a'" using send_inv_resent [OF si assms(2,3)] by blast
  ultimately show ?thesis using inv assms(2) by (auto simp: pipe_inv_def resent_def Let_def)
qed

lemma pipe_inv_send:
  assumes inv: "pipe_inv psn s K R"
    and "window_has_room (pi_a s)" "es_pending_send (pi_a s) = (sid, pl) # rest"
      "send_data_packet now sid pl ((pi_a s)\<lparr>es_pending_send := rest\<rparr>) fresh_writer = (x, a', w)"
  shows "pipe_inv psn (s\<lparr>pi_a := a', pi_data := pi_data s @ wr_sent w, pi_sent := pi_sent s @ [(sid, pl)]\<rparr>) K R"
proof -
  let ?W = "unat (pa_max_outgoing (es_params (pi_a s)))" and ?X = "insert R (buffered_numbers R (pi_b s))"
  let ?sent = "pi_sent s @ [(sid, pl)]"
  have si: "send_inv psn (pi_sent s) K (pi_a s)" and ri: "recv_inv psn (pi_sent s) R (pi_b s)"
    using inv by (simp_all add: pipe_inv_def Let_def)
  obtain ns where ns: "data_inv ?W psn (pi_sent s) ?X ns (pi_data s)"
    using inv by (auto simp: pipe_inv_def Let_def)
  obtain f where f: "wr_sent w = [f]" "frame_of psn ?sent (length (pi_sent s) + 1) f"
    "send_inv psn ?sent K a'" "es_pending_send a' = rest" "es_params a' = es_params (pi_a s)"
    using send_inv_send [OF si assms(2-4)] by blast
  have "data_inv ?W psn ?sent ?X (ns @ [length (pi_sent s) + 1]) (pi_data s @ [f])"
    using recv_inv_numbers [OF ri] f(2)
    by (intro data_inv_push [OF ns, where S = "length (pi_sent s)"]) auto
  moreover have "R \<le> length (pi_sent s)" using ri by (simp add: recv_inv_def)
  ultimately show ?thesis
    using inv f assms(3) recv_inv_append [OF ri] by (auto simp: pipe_inv_def Let_def)
qed

lemma pipe_inv_recv:
  assumes inv: "pipe_inv psn s K R" and "pi_data s = f # ys" "link_decode f = (Inr (Some p), [])"
    "handle_inbound_data p (pi_b s) = (out, b')"
  shows "\<exists>R'. pipe_inv psn (s\<lparr>pi_b := b', pi_data := ys, pi_delivered := pi_delivered s @ out\<rparr>) K R'"
proof -
  let ?W = "unat (pa_max_outgoing (es_params (pi_a s)))" and ?X = "insert R (buffered_numbers R (pi_b s))"
  have W: "?W \<le> 128" "unat (pa_max_outgoing (es_params (pi_b s))) \<le> 128" "K \<le> R"
    and si: "send_inv psn (pi_sent s) K (pi_a s)" and ri: "recv_inv psn (pi_sent s) R (pi_b s)"
    using inv by (simp_all add: pipe_inv_def Let_def)
  obtain m ns where ns: "data_inv ?W psn (pi_sent s) ?X (m # ns) (f # ys)"
    using inv assms(2) by (auto simp: pipe_inv_def Let_def data_inv_def list_all2_Cons2)
  then have m: "frame_of psn (pi_sent s) m f" "R < m + ?W" by (auto simp: data_inv_def)
  note p = frame_of_decode [OF m(1) assms(3)]
  have "m \<le> R + 128" using p send_inv_window [OF si] W by linarith
  then obtain R' where r: "recv_inv psn (pi_sent s) R' b'" "R \<le> R'" "out = map dd_of (take (R' - R) (drop R (pi_sent s)))"
    "R' \<in> insert R (insert m (buffered_numbers R (pi_b s)))" "buffered_numbers R' b' \<subseteq> insert m (buffered_numbers R (pi_b s))"
    using recv_segment [OF ri W(2), of p m out b'] p m(2) W(1) assms(4) by auto
  have "data_inv ?W psn (pi_sent s) (insert m ?X) ns ys"
    using ns by (auto simp: data_inv_def)
  then have data: "data_inv ?W psn (pi_sent s) (insert R' (buffered_numbers R' b')) ns ys"
    using r(4,5) by (auto simp: data_inv_def)
  have "es_params b' = es_params (pi_b s)"
    using same_timer_inbound_data [of p "pi_b s"] assms(4) by (simp add: same_timer_def)
  moreover have "take R' (pi_sent s) = take R (pi_sent s) @ take (R' - R) (drop R (pi_sent s))"
    using r(2) by (metis le_add_diff_inverse take_add)
  moreover have "\<exists>as. ack_inv psn K R' as (pi_acks s)"
    using inv r(2) by (fastforce simp: pipe_inv_def Let_def ack_inv_def)
  ultimately show ?thesis
    using inv r data W by (intro exI [of _ R']) (auto simp: pipe_inv_def Let_def)
qed

lemma pipe_inv_recv_ack:
  assumes inv: "pipe_inv psn s K R" and "pi_acks s = f # ys" "link_decode f = (Inr (Some p), [])"
  shows "\<exists>K'. pipe_inv psn (s\<lparr>pi_a := handle_inbound_ack now (lh_ack (lp_header p)) (pi_a s), pi_acks := ys\<rparr>) K' R"
proof -
  have si: "send_inv psn (pi_sent s) K (pi_a s)" and ri: "recv_inv psn (pi_sent s) R (pi_b s)"
    using inv by (simp_all add: pipe_inv_def Let_def)
  obtain x as where as: "ack_inv psn K R (x # as) (f # ys)"
    using inv assms(2) by (auto simp: pipe_inv_def Let_def ack_inv_def list_all2_Cons2)
  then have x: "ack_of psn x f" "K \<le> x" "x \<le> R" by (auto simp: ack_inv_def)
  have "length (es_unacked (pi_a s)) \<le> 128"
    using inv by (auto simp: pipe_inv_def Let_def send_inv_def es_inv_def)
  moreover have "x \<le> length (pi_sent s)" using x(3) ri by (simp add: recv_inv_def)
  ultimately have "send_inv psn (pi_sent s) x (handle_inbound_ack now (lh_ack (lp_header p)) (pi_a s))"
    using send_inv_ack [OF si _ x(2)] ack_of_decode [OF x(1) assms(3)] by simp
  moreover have "ack_inv psn x R as ys" using as by (auto simp: ack_inv_def)
  ultimately show ?thesis
    using inv x by (intro exI [of _ x]) (auto simp: pipe_inv_def Let_def inbound_ack_frame)
qed

text \<open>B's own frames acknowledge what it has delivered.\<close>

lemma pipe_inv_ack_sent:
  assumes inv: "pipe_inv psn s K R" and "list_all (ack_of psn R) fs" "es_inv b'"
    "es_last_received_in_sequence_psn b' = es_last_received_in_sequence_psn (pi_b s)"
    "es_out_of_order b' = es_out_of_order (pi_b s)" "es_params b' = es_params (pi_b s)"
  shows "pipe_inv psn (s\<lparr>pi_b := b', pi_acks := pi_acks s @ fs\<rparr>) K R"
proof -
  obtain as where as: "ack_inv psn K R as (pi_acks s)"
    using inv by (auto simp: pipe_inv_def Let_def)
  have "list_all2 (ack_of psn) (replicate (length fs) R) fs"
    using assms(2) by (auto simp: list_all2_conv_all_nth list_all_length)
  then have "ack_inv psn K R (as @ replicate (length fs) R) (pi_acks s @ fs)"
    using as inv by (auto simp: ack_inv_def sorted_append pipe_inv_def Let_def intro: list_all2_appendI)
  moreover have "recv_inv psn (pi_sent s) R b' \<and> buffered_numbers R b' = buffered_numbers R (pi_b s)"
    using inv assms(3-5) by (intro recv_inv_transfer) (simp_all add: pipe_inv_def Let_def)
  ultimately show ?thesis using inv assms(6) by (auto simp: pipe_inv_def Let_def)
qed

lemma ack_of_header_only:
  "ack_of psn R (link_encode (LinkPacket_header_only ACK s (psn + of_nat R)))"
  unfolding ack_of_def
  by (intro exI [of _ "LinkPacket_header_only ACK s (psn + of_nat R)"])
    (simp add: wf_header_only LinkPacket_header_only_def LinkHeader_header_only_def
      wf_header_only [unfolded LinkPacket_header_only_def LinkHeader_header_only_def])

lemma length_eak_missing: "length (eak_missing st f) < 256"
  unfolding eak_missing_def Let_def
  by (rule le_less_trans [OF length_filter_le]) simp

lemma ack_of_eak:
  assumes "eak_missing st f \<noteq> []" "es_last_received_in_sequence_psn st = psn + of_nat R"
  shows "ack_of psn R (link_encode (LinkPacket_with_payload (EAK OR ACK) s (es_last_received_in_sequence_psn st) 0
    (eak_missing st f)))" (is "ack_of psn R (link_encode ?p)")
proof -
  have "wf_packet ?p"
    using assms(1) length_eak_missing [of st f]
    by (intro wf_with_payload) (simp_all add: LINK_FRAME_OVERHEAD_def LINK_HEADER_LEN_def PAYLOAD_TRAILER_def)
  moreover have "lh_ack (lp_header ?p) = psn + of_nat R"
    using assms(2) by (simp add: LinkPacket_with_payload_def LinkHeader_with_payload_def)
  ultimately show ?thesis unfolding ack_of_def by blast
qed

lemma pipe_inv_step:
  assumes "pipe_step s s'" "pipe_inv psn s K R"
  shows "\<exists>K' R'. pipe_inv psn s' K' R'"
  using assms
proof (induction rule: pipe_step.induct)
  case (enqueue s sid pl)
  have "es_inv (enqueue_send sid pl (pi_a s))"
    using enqueue by (intro es_inv_enqueue_send) (simp add: pipe_inv_def send_inv_def Let_def)
  then show ?case
    using enqueue by (intro exI [of _ K] exI [of _ R])
      (auto simp: pipe_inv_def Let_def send_inv_def enqueue_send_eq segments_def)
next
  case (send s sid pl rest now a' w)
  then show ?case using pipe_inv_send by blast
next
  case (fire now s x a' w)
  then have "es_inv a'" "resent (pi_a s) a' (wr_sent w)"
    using es_inv_handle_retransmit_fire [OF fire(1)] resent_fire [OF fire(1)]
    by (simp_all add: pipe_inv_def send_inv_def Let_def)
  then show ?case using pipe_inv_resent [OF fire(2)] by blast
next
  case (lose_data s xs f ys)
  then show ?case using data_inv_lose unfolding pipe_inv_def Let_def by (fastforce simp: lose_data)
next
  case (lose_ack s xs f ys)
  then show ?case using ack_inv_lose unfolding pipe_inv_def Let_def by (fastforce simp: lose_ack)
next
  case (recv s f ys p out b')
  then show ?case using pipe_inv_recv by blast
next
  case (ack s x b' w)
  have last: "es_last_received_in_sequence_psn (pi_b s) = psn + of_nat R" "es_inv (pi_b s)"
    using ack(2) by (simp_all add: pipe_inv_def recv_inv_def Let_def)
  have "es_inv b'" using es_inv_send_standalone_ack [OF ack(1)] last by simp
  moreover have "wr_sent w = [link_encode (LinkPacket_header_only ACK (es_last_sent_psn (pi_b s)) (psn + of_nat R))]"
    "b' = clear_ack_flags (pi_b s)"
    using ack(1) last by (auto simp: send_standalone_ack_def write_packet_reliable)
  ultimately have "pipe_inv psn (s\<lparr>pi_b := b', pi_acks := pi_acks s @ wr_sent w\<rparr>) K R"
    by (intro pipe_inv_ack_sent [OF ack(2)]) (simp_all add: ack_of_header_only clear_ack_flags_def)
  then show ?case by blast
next
  case (eak s x b' w)
  have last: "es_last_received_in_sequence_psn (pi_b s) = psn + of_nat R" "es_inv (pi_b s)"
    using eak(2) by (simp_all add: pipe_inv_def recv_inv_def Let_def)
  have "es_inv b'" using es_inv_send_eak [OF eak(1)] last by simp
  moreover have "list_all (ack_of psn R) (wr_sent w) \<and> (b' = pi_b s \<or> b' = clear_ack_flags (pi_b s))"
    using eak(1) ack_of_eak [OF _ last(1)] last
    by (auto simp: send_eak_def Let_def write_packet_reliable split: if_splits)
  ultimately have "pipe_inv psn (s\<lparr>pi_b := b', pi_acks := pi_acks s @ wr_sent w\<rparr>) K R"
    by (intro pipe_inv_ack_sent [OF eak(2)]) (auto simp: clear_ack_flags_def)
  then show ?case by blast
next
  case (recv_ack s f ys p now a')
  then show ?case using pipe_inv_recv_ack by blast
next
  case (recv_eak payload s x a' w)
  then have "es_inv a'" "resent (pi_a s) a' (wr_sent w)"
    using es_inv_handle_inbound_eak [OF recv_eak(1)] resent_eak [OF recv_eak(1)]
    by (simp_all add: pipe_inv_def send_inv_def Let_def)
  then show ?case using pipe_inv_resent [OF recv_eak(2)] by blast
qed

lemma pipe_inv_reachable:
  assumes "pipe_reachable lsp_a lsp_b s" "unat (lsp_max_outgoing lsp_a) \<le> 128" "unat (lsp_max_outgoing lsp_b) \<le> 128"
  shows "\<exists>psn K R. pipe_inv psn s K R"
  using assms(1)
proof (induction rule: pipe_reachable.induct)
  case (start psn_a psn_b give_up now)
  then show ?case using pipe_inv_start [OF assms(2,3)] by blast
next
  case (step s s')
  then show ?case using pipe_inv_step by blast
qed

section \<open>Exactly once, in order\<close>

text \<open>The bytes of one session among messages or segments.\<close>

definition session_bytes :: "u8 \<Rightarrow> (u8 \<times> bytes) list \<Rightarrow> bytes" where
  "session_bytes sid msgs = concat (map snd (filter (\<lambda>m. fst m = sid) msgs))"

lemma session_bytes_append: "session_bytes sid (xs @ ys) = session_bytes sid xs @ session_bytes sid ys"
  by (simp add: session_bytes_def)

lemma session_bytes_segments:
  assumes "0 < unat (pa_max_payload_len pa)"
  shows "session_bytes sid (segments pa msgs) = session_bytes sid msgs"
proof (induction msgs)
  case (Cons m msgs)
  obtain s pl where m: "m = (s, pl)" by force
  have "session_bytes sid (map (Pair s) cs) = (if s = sid then concat cs else [])" for cs
    by (induction cs) (auto simp: session_bytes_def)
  then have "session_bytes sid (segments pa [m]) = session_bytes sid [m]"
    using split_payload_props [OF assms, of pl] m by (simp add: segments_def) (simp add: session_bytes_def)
  then show ?case
    using Cons session_bytes_append [of sid "segments pa [m]" "segments pa msgs"]
      session_bytes_append [of sid "[m]" msgs] by (simp add: segments_def)
qed (simp add: segments_def session_bytes_def)

definition dd_pair :: "DeliveredData \<Rightarrow> u8 \<times> bytes" where
  "dd_pair d = (dd_session_id d, dd_payload d)"

lemma dd_pair_of [simp]: "dd_pair \<circ> dd_of = id"
  by (simp add: dd_pair_def dd_of_def fun_eq_iff)

text \<open>C1. Between two endpoints that have announced windows of at most 128, over FIFO channels that may lose any frame,
  with retransmissions and the duplicates and reordered arrivals they bring, and sequence numbers that wrap: what the
  receiver has handed up is a prefix, without loss, duplication or reordering, of the segments of what was queued, so
  each session's received bytes are a prefix of its sent bytes; every acknowledged segment has been handed up; and
  no more than a window of segments is outstanding. The code does not refuse larger windows, for which the test of
  stale acknowledgements no longer fits.\<close>

theorem link_exactly_once_in_order:
  assumes "pipe_reachable lsp_a lsp_b s"
    and "unat (lsp_max_outgoing lsp_a) \<le> 128" "unat (lsp_max_outgoing lsp_b) \<le> 128"
  shows "(\<exists>R rest. map dd_pair (pi_delivered s) = take R (pi_sent s) \<and>
      length (pi_sent s) - length (es_unacked (pi_a s)) \<le> R \<and> R \<le> length (pi_sent s) \<and>
      map dd_pair (pi_delivered s) @ rest = segments (es_params (pi_a s)) (pi_enqueued s)) \<and>
    (\<exists>rest. session_bytes sid (map dd_pair (pi_delivered s)) @ rest = session_bytes sid (pi_enqueued s)) \<and>
    length (es_unacked (pi_a s)) \<le> unat (pa_max_outgoing (es_params (pi_a s)))"
proof -
  obtain psn K R where inv: "pipe_inv psn s K R" using pipe_inv_reachable [OF assms] by blast
  then have d: "map dd_pair (pi_delivered s) = take R (pi_sent s)"
    and si: "send_inv psn (pi_sent s) K (pi_a s)" and R: "K \<le> R" "R \<le> length (pi_sent s)"
    and sg: "pi_sent s @ es_pending_send (pi_a s) = segments (es_params (pi_a s)) (pi_enqueued s)"
    by (simp_all add: pipe_inv_def Let_def recv_inv_def)
  have all: "map dd_pair (pi_delivered s) @ (drop R (pi_sent s) @ es_pending_send (pi_a s)) =
      segments (es_params (pi_a s)) (pi_enqueued s)"
    unfolding d using sg by (metis append_assoc append_take_drop_id)
  have pos: "0 < unat (pa_max_payload_len (es_params (pi_a s)))"
    and win: "length (es_unacked (pi_a s)) \<le> unat (pa_max_outgoing (es_params (pi_a s)))"
    and K: "length (pi_sent s) - length (es_unacked (pi_a s)) = K"
    using si by (auto simp: send_inv_def es_inv_def wf_params_def)
  have "session_bytes sid (map dd_pair (pi_delivered s)) @
      session_bytes sid (drop R (pi_sent s) @ es_pending_send (pi_a s)) = session_bytes sid (pi_enqueued s)"
    unfolding session_bytes_append [symmetric] all session_bytes_segments [OF pos] ..
  then show ?thesis using d all R K win by blast
qed

text \<open>A run that delivers: two bytes are queued, sent and received.\<close>

definition sample_start :: Pipe where
  "sample_start = pipe_start 99 50 Lsp_accessory_default Lsp_accessory_default RETRANSMIT_GIVE_UP 0"

definition pipe_packet :: LinkPacket where
  "pipe_packet = data_packet 3 [7, 8] (pi_a sample_start)"

definition sample_pipe :: Pipe where
  "sample_pipe = sample_start\<lparr>pi_enqueued := [(3, [7, 8])],
     pi_a := record_sent 0 (encode_packet pipe_packet) (pi_a sample_start), pi_sent := [(3, [7, 8])],
     pi_b := snd (handle_inbound_data pipe_packet (pi_b sample_start)), pi_data := [],
     pi_delivered := fst (handle_inbound_data pipe_packet (pi_b sample_start))\<rparr>"

lemma sample_reachable: "pipe_reachable Lsp_accessory_default Lsp_accessory_default sample_pipe"
proof -
  let ?reach = "pipe_reachable Lsp_accessory_default Lsp_accessory_default"
  let ?s0 = sample_start
  let ?a1 = "enqueue_send 3 [7, 8] (pi_a ?s0)"
  let ?w = "\<lparr>wr_sent = [link_encode pipe_packet], wr_budget = None\<rparr>"
  let ?s1 = "?s0\<lparr>pi_a := ?a1, pi_enqueued := [(3, [7, 8])]\<rparr>"
  let ?s2 = "?s1\<lparr>pi_a := record_sent 0 (encode_packet pipe_packet) (pi_a ?s0), pi_data := [link_encode pipe_packet],
    pi_sent := [(3, [7, 8])]\<rparr>"
  have start: "pi_data ?s0 = []" "pi_sent ?s0 = []" "pi_enqueued ?s0 = []" "pi_delivered ?s0 = []"
    "es_pending_send (pi_a ?s0) = []" "window_has_room (pi_a ?s0)"
    "unat (pa_max_payload_len (es_params (pi_a ?s0))) = 4086"
    by (simp_all add: sample_start_def pipe_start_def EstablishedState_new_def LinkParams_from_peer_lsp_def
        Lsp_accessory_default_def window_has_room_def LINK_FRAME_OVERHEAD_def LINK_HEADER_LEN_def PAYLOAD_TRAILER_def Let_def)
  have a1: "?a1 = (pi_a ?s0)\<lparr>es_pending_send := [(3, [7, 8])]\<rparr>" using start by (simp add: enqueue_send_def)
  have undone: "(pi_a ?s0)\<lparr>es_pending_send := []\<rparr> = pi_a ?s0" using start(5) by simp
  have "?reach ?s0" unfolding sample_start_def by (rule pipe_reachable.start)
  from pipe_reachable.step [OF this pipe_step.enqueue [of ?s0 3 "[7, 8]"]]
  have 1: "?reach ?s1" by (simp add: start)
  have "send_data_packet 0 3 [7, 8] (pi_a ?s0) fresh_writer =
    (Inr (), record_sent 0 (encode_packet pipe_packet) (pi_a ?s0), ?w)"
    by (simp add: send_data_packet_def Let_def pipe_packet_def [symmetric] write_flush_reliable reliable_def
        fresh_writer_def encode_packet_def)
  then have "pipe_step ?s1 ?s2"
    using pipe_step.send [of ?s1 3 "[7, 8]" "[]" 0] start by (simp add: undone a1 window_has_room_def)
  with 1 have 2: "?reach ?s2" by (rule pipe_reachable.step)
  have "wf_packet pipe_packet" unfolding pipe_packet_def by (rule wf_data_packet) simp_all
  from link_decode_encode [OF this, of "[]"]
  have "pipe_step ?s2 (?s2\<lparr>pi_b := snd (handle_inbound_data pipe_packet (pi_b ?s0)), pi_data := [],
      pi_delivered := fst (handle_inbound_data pipe_packet (pi_b ?s0))\<rparr>)"
    using pipe_step.recv [of ?s2 "link_encode pipe_packet" "[]" pipe_packet] start(4)
    by (cases "handle_inbound_data pipe_packet (pi_b ?s0)") simp
  with 2 have "?reach (?s2\<lparr>pi_b := snd (handle_inbound_data pipe_packet (pi_b ?s0)), pi_data := [],
      pi_delivered := fst (handle_inbound_data pipe_packet (pi_b ?s0))\<rparr>)" by (rule pipe_reachable.step)
  then show ?thesis by (simp add: sample_pipe_def)
qed

lemma deliver_nothing: "es_out_of_order st = Map.empty \<Longrightarrow> deliver_buffered n st = ([], st)"
  by (cases n) simp_all

theorem link_exactly_once_in_order_witness:
  "map dd_pair (pi_delivered sample_pipe) = [(3, [7, 8])] \<and>
   (\<exists>R rest. map dd_pair (pi_delivered sample_pipe) = take R (pi_sent sample_pipe) \<and>
      length (pi_sent sample_pipe) - length (es_unacked (pi_a sample_pipe)) \<le> R \<and> R \<le> length (pi_sent sample_pipe) \<and>
      map dd_pair (pi_delivered sample_pipe) @ rest =
        segments (es_params (pi_a sample_pipe)) (pi_enqueued sample_pipe))"
proof -
  have "map dd_pair (pi_delivered sample_pipe) = [(3, [7, 8])]"
    by (simp add: sample_pipe_def pipe_packet_def sample_start_def pipe_start_def EstablishedState_new_def
        handle_inbound_data_def data_packet_def LinkPacket_with_payload_def LinkHeader_with_payload_def delivered_of_def
        dd_pair_def accept_in_sequence_def mark_delivered_def deliver_nothing Let_def)
  then show ?thesis
    using link_exactly_once_in_order [OF sample_reachable, of 3] by (simp add: Lsp_accessory_default_def)
qed

end
