(* ===== verification/Link_Run_Facts.thy ===== *)
theory Link_Run_Facts
  imports Link_Run Link_Pipe
begin

text \<open>Properties of the link task of \<open>Link_Run\<close>: the order of the events it reports, the restart
  budget, the handshake between the accessory and the device, and detection.\<close>

section \<open>The established loop keeps the invariant\<close>

lemma es_inv_established_packet:
  assumes "established_packet now pkt st w = (r, evs, st', w')" "es_inv st"
  shows "es_inv st'"
proof -
  define st1 where "st1 = (if control_contains (lh_control (lp_header pkt)) ACK
    then handle_inbound_ack now (lh_ack (lp_header pkt)) st else st)"
  have 1: "es_inv st1" using assms(2) by (simp add: st1_def es_inv_handle_inbound_ack)
  have 2: "es_inv st2" if "handle_inbound_data pkt st1 = (out, st2)" for out st2
    using es_inv_handle_inbound_data [OF 1, of pkt] that by simp
  show ?thesis
    using assms 1 2 unfolding established_packet_def Let_def st1_def [symmetric]
    by (auto split: if_splits prod.splits intro: es_inv_handle_inbound_eak es_inv_send_eak)
qed

lemma established_packets_induct [consumes 1, case_names pending failed frame]:
  assumes "established_packets now buf st w = res"
    and "\<And>buf buf' st w. link_decode buf = (Inr None, buf') \<Longrightarrow> P buf st w (Inr (), [], buf', st, w)"
    and "\<And>buf buf' st w pkt e evs st' w'. link_decode buf = (Inr (Some pkt), buf') \<Longrightarrow>
      established_packet now pkt st w = (Inl e, evs, st', w') \<Longrightarrow> P buf st w (Inl e, evs, buf', st', w')"
    and "\<And>buf buf' st w pkt evs st' w' r evs' buf'' st'' w''. link_decode buf = (Inr (Some pkt), buf') \<Longrightarrow>
      established_packet now pkt st w = (Inr (), evs, st', w') \<Longrightarrow>
      P buf' st' w' (r, evs', buf'', st'', w'') \<Longrightarrow> P buf st w (r, evs @ evs', buf'', st'', w'')"
  shows "P buf st w res"
  using assms(1)
proof (induction "length buf" arbitrary: buf st w res rule: less_induct)
  case less
  obtain x buf' where d: "link_decode buf = (x, buf')" by force
  show ?case
  proof (cases x)
    case (Inl e)
    then show ?thesis using d link_decode_never_fails [of buf e] by simp
  next
    case (Inr o1)
    show ?thesis
    proof (cases o1)
      case None
      then show ?thesis
        using less.prems assms(2) d Inr by (subst (asm) established_packets.simps) auto
    next
      case (Some pkt)
      obtain y evs st' w' where e: "established_packet now pkt st w = (y, evs, st', w')" by (metis prod_cases4)
      obtain r evs' buf'' st'' w'' where f: "established_packets now buf' st' w' = (r, evs', buf'', st'', w'')"
        by (metis prod_cases5)
      have "length buf' < length buf" using d Inr Some link_decode_shrinks by simp
      from less.hyps [OF this f] less.prems assms(3) [of buf pkt buf' st w] assms(4) [of buf pkt buf' st w evs st' w'] d Inr Some e f
      show ?thesis by (subst (asm) established_packets.simps) (cases y; auto)
    qed
  qed
qed

lemma es_inv_established_packets:
  assumes "established_packets now buf st w = (r, evs, buf', st', w')" "es_inv st"
  shows "es_inv st'"
proof -
  have "case (r, evs, buf', st', w') of (r, evs, buf', st', w') \<Rightarrow> es_inv st \<longrightarrow> es_inv st'"
    using assms(1)
    by (induction rule: established_packets_induct
        [where P = "\<lambda>buf st w (r, evs, buf', st', w'). es_inv st \<longrightarrow> es_inv st'"])
      (auto dest: es_inv_established_packet)
  then show ?thesis using assms(2) by simp
qed

lemma es_inv_established_service:
  "established_service now buf st w = (r, evs, buf', st', w') \<Longrightarrow> es_inv st \<Longrightarrow> es_inv st'"
  by (auto simp: established_service_def split: prod.splits sum.splits if_splits
      dest!: es_inv_established_packets dest: es_inv_drain_pending_send es_inv_send_standalone_ack)

section \<open>The order of events\<close>

text \<open>The abstract specification of what a session sees: the link comes up, delivers data, and goes
  down for a restart or for good; nothing follows the end.\<close>

datatype LinkStatus = Down | Up | Over

fun status_after :: "LinkStatus \<Rightarrow> Iap2Event \<Rightarrow> LinkStatus option" where
  "status_after Down (Established lsp) = Some Up"
| "status_after Down (LinkDown r) = Some Over"
| "status_after Up (DataReceived sid pl) = Some Up"
| "status_after Up (LinkRestarting r) = Some Down"
| "status_after Up (LinkDown r) = Some Over"
| "status_after s ev = None"

fun status_run :: "LinkStatus \<Rightarrow> Iap2Event list \<Rightarrow> LinkStatus option" where
  "status_run s [] = Some s"
| "status_run s (ev # evs) = (case status_after s ev of None \<Rightarrow> None | Some s' \<Rightarrow> status_run s' evs)"

lemma status_run_append:
  "status_run s (xs @ ys) = (case status_run s xs of None \<Rightarrow> None | Some s' \<Rightarrow> status_run s' ys)"
  by (induction xs arbitrary: s) (auto split: option.splits)

text \<open>The phases agree with the status: up exactly in the established phase.\<close>

fun phase_status :: "LinkPhase \<Rightarrow> LinkStatus \<Rightarrow> bool" where
  "phase_status (Established_Phase st since) s \<longleftrightarrow> s = Up \<and> es_inv st"
| "phase_status (Finished r) s \<longleftrightarrow> s \<noteq> Up"
| "phase_status _ s \<longleftrightarrow> s = Down"

definition task_ok :: "LinkTask \<Rightarrow> bool" where
  "task_ok t \<longleftrightarrow> (\<exists>s. status_run Down (lt_events t) = Some s \<and> phase_status (lt_phase t) s)"

definition status_is :: "LinkStatus \<Rightarrow> LinkTask \<Rightarrow> bool" where
  "status_is s t \<longleftrightarrow> status_run Down (lt_events t) = Some s"

lemma task_okI: "status_is s t \<Longrightarrow> phase_status (lt_phase t) s \<Longrightarrow> task_ok t"
  by (auto simp: task_ok_def status_is_def)

lemma status_is_emit: "status_is s t \<Longrightarrow> status_after s ev = Some s' \<Longrightarrow> status_is s' (emit ev t)"
  by (simp add: status_is_def emit_def status_run_append)

lemma status_is_update [simp]:
  "status_is s (t\<lparr>lt_phase := p\<rparr>) = status_is s t" "status_is s (t\<lparr>lt_buf := b\<rparr>) = status_is s t"
  "status_is s (t\<lparr>lt_writer := w\<rparr>) = status_is s t" "status_is s (t\<lparr>lt_restart_window := rw\<rparr>) = status_is s t"
  "status_is s (t\<lparr>lt_commands := c\<rparr>) = status_is s t" "status_is s (t\<lparr>lt_commands_closed := cl\<rparr>) = status_is s t"
  "status_is s (finish r t) = status_is s t"
  by (simp_all add: status_is_def finish_def)

lemma phase_simps [simp]: "lt_phase (finish r t) = Finished r" "lt_phase (emit ev t) = lt_phase t"
  by (simp_all add: finish_def emit_def)

lemma established_packet_events:
  "established_packet now pkt st w = (r, evs, st', w') \<Longrightarrow> status_run Up evs = Some Up"
proof -
  have data: "status_run Up (map (\<lambda>d. DataReceived (dd_session_id d) (dd_payload d)) ds) = Some Up" for ds
    by (induction ds) auto
  show "established_packet now pkt st w = (r, evs, st', w') \<Longrightarrow> status_run Up evs = Some Up"
    unfolding established_packet_def Let_def
    by (auto split: if_splits prod.splits simp: data)
qed

lemma established_packets_events:
  assumes "established_packets now buf st w = (r, evs, buf', st', w')"
  shows "status_run Up evs = Some Up"
proof -
  have "case (r, evs, buf', st', w') of (r, evs, buf', st', w') \<Rightarrow> status_run Up evs = Some Up"
    using assms(1)
    by (induction rule: established_packets_induct
        [where P = "\<lambda>buf st w (r, evs, buf', st', w'). status_run Up evs = Some Up"])
      (auto dest: established_packet_events simp: status_run_append)
  then show ?thesis by simp
qed

lemma established_service_events:
  "established_service now buf st w = (r, evs, buf', st', w') \<Longrightarrow> status_run Up evs = Some Up"
  by (auto simp: established_service_def split: prod.splits sum.splits if_splits
      dest: established_packets_events)

lemma local_disconnect_over:
  "status_is s t \<Longrightarrow> s \<noteq> Over \<Longrightarrow> task_ok (finish r (local_disconnect st t))"
  by (cases s) (auto simp: local_disconnect_def Let_def case_prod_unfold intro!: task_okI [of Over] status_is_emit)

lemma established_failed_ok:
  assumes "status_is Up t"
  shows "task_ok (established_failed now err st since t)"
proof -
  have down: "task_ok (finish x (emit (LinkDown r) u))" if "status_is Up u" for x r u
    using that by (auto intro!: task_okI [of Over] status_is_emit)
  have restart: "task_ok ((emit (LinkRestarting r) u)\<lparr>lt_buf := [], lt_phase := Pausing\<rparr>)" if "status_is Up u" for r u
    using that by (auto intro!: task_okI [of Down] status_is_emit)
  show ?thesis
    using assms by (auto simp: established_failed_def Let_def split: option.splits intro!: down restart)
qed

lemma established_turn_ok:
  assumes "status_is Up t" "es_inv st"
  shows "task_ok (established_turn now st since t)"
proof -
  obtain r evs buf st' w where s: "established_service now (lt_buf t) st (lt_writer t) = (r, evs, buf, st', w)"
    by (metis prod_cases5)
  let ?t = "t\<lparr>lt_buf := buf, lt_writer := w, lt_events := lt_events t @ evs\<rparr>"
  have up: "status_is Up ?t"
    using assms(1) established_service_events [OF s] by (simp add: status_is_def status_run_append)
  have "es_inv st'" using es_inv_established_service [OF s assms(2)] .
  then show ?thesis
    using s up established_failed_ok [OF up]
    by (auto simp: established_turn_def Let_def split: sum.splits intro: task_okI [of Up])
qed

lemma handshake_failed_ok:
  assumes "status_is Down t"
  shows "task_ok (handshake_failed now err t)"
proof -
  have "task_ok (finish x (emit (LinkDown r) t))" for x r
    using assms by (auto intro!: task_okI [of Over] status_is_emit)
  moreover have "task_ok (finish x t)" "task_ok (t\<lparr>lt_buf := [], lt_phase := Pausing\<rparr>)" for x
    using assms by (auto intro!: task_okI [of Down])
  ultimately show ?thesis by (simp add: handshake_failed_def)
qed

lemma enter_established_ok: "status_is Down t \<Longrightarrow> task_ok (enter_established cfg now lsp psn t)"
  by (auto simp: enter_established_def Let_def es_inv_new split: prod.splits sum.splits
      intro!: local_disconnect_over [of Down] established_turn_ok status_is_emit [of Down])

lemma negotiate_turn_ok: "status_is Down t \<Longrightarrow> task_ok (negotiate_turn cfg now t)"
  by (auto simp: negotiate_turn_def Let_def split: prod.splits sum.splits option.splits
      intro!: handshake_failed_ok enter_established_ok intro: task_okI [of Down])

lemma begin_negotiation_ok: "status_is Down t \<Longrightarrow> task_ok (begin_negotiation cfg now t)"
  by (auto simp: begin_negotiation_def split: prod.splits sum.splits
      intro!: handshake_failed_ok negotiate_turn_ok)

lemma established_input_ok:
  assumes "status_is Up t" "es_inv st" "lt_phase t = Established_Phase st since"
  shows "task_ok (established_input now inp st since t)"
proof -
  have stay: "task_ok t" using assms by (auto intro: task_okI [of Up])
  have fire: "es_inv st'" if "handle_retransmit_fire now st w = (x, st', w')" for x st' w w'
    using es_inv_handle_retransmit_fire [OF that assms(2)] .
  show ?thesis
    using assms stay
    by (auto simp: established_input_def es_inv_report_meter es_inv_enqueue_send
        split: LinkInput.splits list.splits Iap2Command.splits prod.splits sum.splits
        intro!: established_turn_ok established_failed_ok local_disconnect_over [of Up] dest: fire)
qed

lemma link_run_step_ok:
  assumes "task_ok t"
  shows "task_ok (link_run_step cfg now inp t)"
proof -
  obtain s where s: "status_is s t" "phase_status (lt_phase t) s"
    using assms by (auto simp: task_ok_def status_is_def)
  have detect: "task_ok (detect_input cfg now i t)" if "lt_phase t = Detecting" for i
    using s that
    by (auto simp: detect_input_def split: LinkInput.splits prod.splits sum.splits
        intro!: handshake_failed_ok begin_negotiation_ok intro: task_okI [of Down])
  have negotiate: "task_ok (negotiate_input cfg now i t)" if "lt_phase t = Negotiating" for i
    using s that
    by (auto simp: negotiate_input_def split: LinkInput.splits
        intro!: handshake_failed_ok negotiate_turn_ok intro: task_okI [of Down])
  have est: "task_ok (established_input now i st since t)" if "lt_phase t = Established_Phase st since" for i st since
    using s that established_input_ok by auto
  have stay: "task_ok (case lt_phase t of Detecting \<Rightarrow> detect_input cfg now i t
      | Negotiating \<Rightarrow> negotiate_input cfg now i t
      | Established_Phase st since \<Rightarrow> established_input now i st since t
      | Pausing \<Rightarrow> (if i = PauseOver then t\<lparr>lt_phase := Detecting\<rparr> else t)
      | Finished r \<Rightarrow> t)" for i
    using s assms detect negotiate est by (auto split: LinkPhase.splits intro: task_okI [of Down])
  have cmd: "task_ok (t\<lparr>lt_commands := c\<rparr>)" "task_ok (t\<lparr>lt_commands_closed := b\<rparr>)" for c b
    using s by (auto intro: task_okI)
  show ?thesis
    using stay [of inp] cmd assms unfolding link_run_step_def by (cases inp) simp_all
qed

lemma link_run_ok: "task_ok t \<Longrightarrow> task_ok (link_run cfg inputs t)"
  by (induction inputs arbitrary: t) (auto simp: link_run_def intro: link_run_step_ok)

text \<open>In every run of the link task, whatever the inputs and the transport's failures, the
  sessions see a well-formed history: data arrives only between \<open>Established\<close> and the next
  \<open>LinkRestarting\<close> or \<open>LinkDown\<close>, a new \<open>Established\<close> only after a restart, nothing after \<open>LinkDown\<close>; and
  the task holds an established state, in which the invariant of the link holds, exactly while the
  history says the link is up.\<close>

theorem link_event_history:
  "\<exists>s. status_run Down (lt_events (link_run cfg inputs (link_task_start w))) = Some s \<and>
    phase_status (lt_phase (link_run cfg inputs (link_task_start w))) s"
proof -
  have "task_ok (link_task_start w)" by (simp add: task_ok_def link_task_start_def)
  from link_run_ok [OF this] show ?thesis by (simp add: task_ok_def)
qed

section \<open>The restart budget\<close>

definition new_events :: "LinkTask \<Rightarrow> LinkTask \<Rightarrow> Iap2Event list" where
  "new_events t t' = drop (length (lt_events t)) (lt_events t')"

definition budget_left :: "nat \<Rightarrow> LinkTask \<Rightarrow> bool" where
  "budget_left now t \<longleftrightarrow>
    (case lt_restart_window t of None \<Rightarrow> True | Some started \<Rightarrow> now - started < RESTART_BUDGET_WINDOW)"

definition was_healthy :: "nat \<Rightarrow> LinkTask \<Rightarrow> bool" where
  "was_healthy now t \<longleftrightarrow>
    (case lt_phase t of Established_Phase st since \<Rightarrow> now - since \<ge> RESTART_HEALTHY_RESET | _ \<Rightarrow> False)"

text \<open>Pausing for a restart is the only way to go on after a failure; it needs budget or health.\<close>

definition restart_ok :: "nat \<Rightarrow> nat option \<Rightarrow> bool \<Rightarrow> LinkTask \<Rightarrow> bool" where
  "restart_ok now window healthy t' \<longleftrightarrow>
    (lt_phase t' = Pausing \<longrightarrow>
      healthy \<or> (case window of None \<Rightarrow> True | Some started \<Rightarrow> now - started < RESTART_BUDGET_WINDOW)) \<and>
    (lt_phase t' = Pausing \<longrightarrow> lt_restart_window t' \<noteq> None) \<and>
    (lt_restart_window t' = window \<or> window = None \<or> healthy)"

lemma emit_simps [simp]:
  "lt_restart_window (emit ev t) = lt_restart_window t" "lt_restart_window (finish r t) = lt_restart_window t"
  "lt_writer (emit ev t) = lt_writer t" "lt_commands (emit ev t) = lt_commands t"
  "lt_commands_closed (emit ev t) = lt_commands_closed t" "lt_buf (emit ev t) = lt_buf t"
  by (simp_all add: emit_def finish_def)

lemma restart_ok_established_failed:
  "lt_phase t \<noteq> Pausing \<Longrightarrow>
   restart_ok now (lt_restart_window t) (now - since \<ge> RESTART_HEALTHY_RESET) (established_failed now err st since t)"
  by (auto simp: established_failed_def restart_ok_def Let_def split: option.splits)

lemma restart_ok_established_turn:
  assumes "lt_phase t \<noteq> Pausing"
  shows "restart_ok now (lt_restart_window t) (now - since \<ge> RESTART_HEALTHY_RESET) (established_turn now st since t)"
proof -
  obtain r evs buf st' w where s: "established_service now (lt_buf t) st (lt_writer t) = (r, evs, buf, st', w)"
    by (metis prod_cases5)
  let ?t = "t\<lparr>lt_buf := buf, lt_writer := w, lt_events := lt_events t @ evs\<rparr>"
  show ?thesis
    using restart_ok_established_failed [of ?t now since _ st'] assms s
    by (auto simp: established_turn_def Let_def restart_ok_def split: sum.splits)
qed

lemma restart_ok_handshake_failed:
  "lt_phase t \<noteq> Pausing \<Longrightarrow> restart_ok now (lt_restart_window t) False (handshake_failed now err t)"
  by (auto simp: handshake_failed_def restart_ok_def split: option.splits)

lemma local_disconnect_window [simp]: "lt_restart_window (local_disconnect st t) = lt_restart_window t"
  by (simp add: local_disconnect_def Let_def case_prod_unfold)

lemma restart_ok_enter:
  assumes "lt_phase t \<noteq> Pausing"
  shows "restart_ok now (lt_restart_window t) False (enter_established cfg now lsp psn t)"
proof -
  have z: "\<not> RESTART_HEALTHY_RESET \<le> now - now" by (simp add: RESTART_HEALTHY_RESET_def secs_def)
  have est: "restart_ok now (lt_restart_window t) False
      (established_turn now st now (emit ev (t\<lparr>lt_commands := q\<rparr>)))" for st ev q
    using restart_ok_established_turn [of "emit ev (t\<lparr>lt_commands := q\<rparr>)" now now st] assms z by simp
  show ?thesis
    using est by (auto simp: enter_established_def Let_def restart_ok_def split: prod.splits sum.splits)
qed

lemma restart_ok_negotiate_turn:
  assumes "lt_phase t \<noteq> Pausing"
  shows "restart_ok now (lt_restart_window t) False (negotiate_turn cfg now t)"
proof -
  have failed: "restart_ok now (lt_restart_window t) False (handshake_failed now e (t\<lparr>lt_buf := b\<rparr>))"
    "restart_ok now (lt_restart_window t) False (handshake_failed now e (t\<lparr>lt_buf := b, lt_writer := w\<rparr>))"
    "restart_ok now (lt_restart_window t) False (enter_established cfg now lsp psn (t\<lparr>lt_buf := b, lt_writer := w\<rparr>))"
    for e b w lsp psn
    using restart_ok_handshake_failed [of "t\<lparr>lt_buf := b\<rparr>"] restart_ok_handshake_failed [of "t\<lparr>lt_buf := b, lt_writer := w\<rparr>"]
      restart_ok_enter [of "t\<lparr>lt_buf := b, lt_writer := w\<rparr>"] assms by simp_all
  have wait: "restart_ok now (lt_restart_window t) False (t\<lparr>lt_buf := b, lt_phase := Negotiating\<rparr>)" for b
    by (simp add: restart_ok_def)
  show ?thesis
    using failed wait
    by (auto simp: negotiate_turn_def Let_def split: prod.splits sum.splits option.splits)
qed

lemma restart_ok_begin:
  "lt_phase t \<noteq> Pausing \<Longrightarrow> restart_ok now (lt_restart_window t) False (begin_negotiation cfg now t)"
  using restart_ok_handshake_failed [of "t\<lparr>lt_writer := w\<rparr>" for w]
    restart_ok_negotiate_turn [of "t\<lparr>lt_writer := w\<rparr>" for w]
  by (auto simp: begin_negotiation_def split: prod.splits sum.splits)

lemma restart_ok_mono: "restart_ok now win False t' \<Longrightarrow> restart_ok now win h t'"
  by (auto simp: restart_ok_def)

lemma restart_ok_step:
  assumes "lt_phase t \<noteq> Pausing"
  shows "restart_ok now (lt_restart_window t) (was_healthy now t) (link_run_step cfg now inp t)"
proof -
  have stay: "restart_ok now (lt_restart_window t) h t" "restart_ok now (lt_restart_window t) h (t\<lparr>lt_commands := c\<rparr>)"
    "restart_ok now (lt_restart_window t) h (t\<lparr>lt_commands_closed := b\<rparr>)" for h c b
    using assms by (simp_all add: restart_ok_def)
  have failed: "restart_ok now (lt_restart_window t) h (handshake_failed now e (t\<lparr>lt_writer := w\<rparr>))"
    "restart_ok now (lt_restart_window t) h (handshake_failed now e t)"
    "restart_ok now (lt_restart_window t) h (begin_negotiation cfg now (t\<lparr>lt_buf := b\<rparr>))"
    "restart_ok now (lt_restart_window t) h (negotiate_turn cfg now (t\<lparr>lt_buf := b\<rparr>))" for e w b h
    using restart_ok_handshake_failed [of "t\<lparr>lt_writer := w\<rparr>"] restart_ok_handshake_failed [of t]
      restart_ok_begin [of "t\<lparr>lt_buf := b\<rparr>"] restart_ok_negotiate_turn [of "t\<lparr>lt_buf := b\<rparr>"] assms
    by (auto intro: restart_ok_mono)
  have est: "restart_ok now (lt_restart_window t) (was_healthy now t) (established_input now i st since t)"
    if "lt_phase t = Established_Phase st since" for i st since
  proof -
    have h: "was_healthy now t = (now - since \<ge> RESTART_HEALTHY_RESET)" using that by (simp add: was_healthy_def)
    note turn = restart_ok_established_turn [of t now since, folded h]
      restart_ok_established_turn [of "t\<lparr>lt_buf := b\<rparr>" now since for b, folded h]
      restart_ok_established_turn [of "t\<lparr>lt_writer := w\<rparr>" now since for w, folded h]
      restart_ok_established_turn [of "t\<lparr>lt_commands := c\<rparr>" now since for c, folded h]
    note fail = restart_ok_established_failed [of t now since, folded h]
      restart_ok_established_failed [of "t\<lparr>lt_writer := w\<rparr>" now since for w, folded h]
    have fin: "restart_ok now (lt_restart_window t) hh (finish r (local_disconnect st u))"
      if "lt_restart_window u = lt_restart_window t" for r u hh
      using that by (simp add: restart_ok_def)
    show ?thesis
      using turn fail fin stay assms
      by (cases i) (auto simp: established_input_def split: list.splits Iap2Command.splits prod.splits sum.splits)
  qed
  have wait: "restart_ok now (lt_restart_window t) h (t\<lparr>lt_writer := w\<rparr>)" "restart_ok now (lt_restart_window t) h (t\<lparr>lt_buf := b\<rparr>)" for h w b
    using assms by (simp_all add: restart_ok_def)
  have main: "restart_ok now (lt_restart_window t) (was_healthy now t) (case lt_phase t of Detecting \<Rightarrow> detect_input cfg now i t
      | Negotiating \<Rightarrow> negotiate_input cfg now i t
      | Established_Phase st since \<Rightarrow> established_input now i st since t
      | Pausing \<Rightarrow> (if i = PauseOver then t\<lparr>lt_phase := Detecting\<rparr> else t)
      | Finished r \<Rightarrow> t)" for i
  proof (cases "lt_phase t")
    case Detecting
    then show ?thesis
      using failed stay wait by (cases i) (auto simp: detect_input_def split: prod.splits sum.splits)
  next
    case Negotiating
    then show ?thesis using failed stay by (cases i) (auto simp: negotiate_input_def)
  qed (use est stay assms in auto)
  show ?thesis
    using main [of inp] stay unfolding link_run_step_def by (cases inp) simp_all
qed

text \<open>A run in which no connection has been up for 60 s when something happens to it.\<close>

fun unhealthy_run :: "LinkConfig \<Rightarrow> (nat \<times> LinkInput) list \<Rightarrow> LinkTask \<Rightarrow> bool" where
  "unhealthy_run cfg [] t \<longleftrightarrow> True"
| "unhealthy_run cfg ((now, inp) # inputs) t \<longleftrightarrow>
    \<not> was_healthy now t \<and> unhealthy_run cfg inputs (link_run_step cfg now inp t)"

text \<open>A link that keeps failing is given up: once its restart window is 30 s old, then, as long as
  no connection stays up for 60 s, the task never goes into another restart pause, whatever the peer
  and the transport do, and the window stays where it was opened.\<close>

theorem link_restart_budget:
  assumes "lt_restart_window t = Some started" "lt_phase t \<noteq> Pausing"
    "\<forall>(now, inp) \<in> set inputs. RESTART_BUDGET_WINDOW \<le> now - started" "unhealthy_run cfg inputs t"
  shows "lt_phase (link_run cfg inputs t) \<noteq> Pausing \<and> lt_restart_window (link_run cfg inputs t) = Some started"
  using assms
proof (induction inputs arbitrary: t)
  case (Cons i inputs)
  obtain now inp where i: "i = (now, inp)" by force
  let ?t = "link_run_step cfg now inp t"
  have "restart_ok now (Some started) False ?t"
    using restart_ok_step [OF Cons.prems(2), of now cfg inp] Cons.prems(1,4) i by simp
  then have "lt_restart_window ?t = Some started" "lt_phase ?t \<noteq> Pausing"
    using Cons.prems(3) i by (auto simp: restart_ok_def)
  with Cons.IH [of ?t] Cons.prems i show ?case by (simp add: link_run_def)
qed (simp add: link_run_def)

theorem link_restart_budget_witness:
  "lt_phase (link_run (LinkConfig_new Lsp_accessory_default) [(secs 40, Read [])]
      ((link_task_start \<lparr>wr_sent = [], wr_budget = None\<rparr>)\<lparr>lt_restart_window := Some 0\<rparr>)) \<noteq> Pausing"
  by (rule link_restart_budget [where started = 0, THEN conjunct1])
    (simp_all add: link_task_start_def was_healthy_def RESTART_BUDGET_WINDOW_def secs_def)

section \<open>Detection and handshake\<close>

text \<open>A stray byte blocks detection: if the first byte received in the detection phase is not
  0xFF, the detector never drops it, so it recognises neither the detect markers nor the packets that
  follow and stays in that phase until the deadline, whatever the peer sends.\<close>

theorem detection_blocked_by_stray_byte:
  assumes "lt_phase t = Detecting" "lt_buf t = b # bs" "b \<noteq> 0xFF" "\<forall>(now, r) \<in> set reads. r \<noteq> []"
  shows "lt_phase (link_run cfg (map (\<lambda>(now, r). (now, Read r)) reads) t) = Detecting \<and>
    lt_writer (link_run cfg (map (\<lambda>(now, r). (now, Read r)) reads) t) = lt_writer t"
  using assms
proof (induction reads arbitrary: t bs)
  case (Cons i reads)
  obtain now r where i: "i = (now, r)" by force
  have "\<not> starts_with DETECT_MARKER (b # c)" "take 2 (b # c) \<noteq> LINK_MAGIC" for c
    using Cons.prems(3) by (auto simp: starts_with_def DETECT_MARKER_def LINK_MAGIC_def)
  then have "drain_detect_or_link_start (b # c) = (False, b # c)" for c
    by (simp add: drain_detect_or_link_start_def drain_markers.simps [of "b # c"])
  then have "link_run_step cfg now (Read r) t = t\<lparr>lt_buf := b # bs @ r\<rparr>"
    using Cons.prems i by (simp add: link_run_step_def detect_input_def)
  with Cons.IH [of "t\<lparr>lt_buf := b # bs @ r\<rparr>" "bs @ r"] Cons.prems i show ?case
    by (simp add: link_run_def)
qed (simp add: link_run_def)

theorem detection_blocked_by_stray_byte_witness:
  "lt_phase (link_run (LinkConfig_new Lsp_accessory_default) [(1, Read DETECT_MARKER), (2, Read DETECT_MARKER)]
     ((link_task_start \<lparr>wr_sent = [], wr_budget = None\<rparr>)\<lparr>lt_buf := [0x10]\<rparr>)) = Detecting"
  using detection_blocked_by_stray_byte [where reads = "[(1, DETECT_MARKER), (2, DETECT_MARKER)]" and b = "0x10" and bs = "[]"
      and t = "(link_task_start \<lparr>wr_sent = [], wr_budget = None\<rparr>)\<lparr>lt_buf := [0x10]\<rparr>"
      and cfg = "LinkConfig_new Lsp_accessory_default"]
  by (simp add: link_task_start_def DETECT_MARKER_def)

lemma drain_marker: "drain_detect_or_link_start DETECT_MARKER = (True, [])"
  by (simp add: drain_detect_or_link_start_def drain_markers.simps starts_with_def DETECT_MARKER_def)

lemma length_Lsp_encode: "length (Lsp_encode l) = 10 + 3 * length (lsp_sessions l)"
  by (simp add: Lsp_encode_def length_encode_triples)

lemma Lsp_decode_encode: "Lsp_decode (Lsp_encode l) = Inr l"
  by (simp add: Lsp_decode_def Lsp_encode_def length_encode_triples nth_append be16_nth)

text \<open>A synchronisation packet, as sent by either side, is decoded by the other.\<close>

definition sync_packet :: "ControlBits \<Rightarrow> u8 \<Rightarrow> u8 \<Rightarrow> Lsp \<Rightarrow> LinkPacket" where
  "sync_packet c psn ack lsp = LinkPacket_with_payload c psn ack 0 (Lsp_encode lsp)"

lemma sync_packet_decode:
  assumes "length (lsp_sessions lsp) \<le> 21000" "canonical_control c"
  shows "link_decode (link_encode (sync_packet c psn ack lsp)) = (Inr (Some (sync_packet c psn ack lsp)), [])"
proof -
  have "Lsp_encode lsp \<noteq> []" using length_Lsp_encode [of lsp] by force
  then have "wf_packet (sync_packet c psn ack lsp)"
    using assms unfolding sync_packet_def
    by (intro wf_with_payload) (simp_all add: length_Lsp_encode LINK_FRAME_OVERHEAD_def LINK_HEADER_LEN_def PAYLOAD_TRAILER_def)
  from link_decode_encode [OF this, of "[]"] show ?thesis by simp
qed

lemma sync_packet_simps [simp]:
  "lh_control (lp_header (sync_packet c psn ack lsp)) = c"
  "lh_seq (lp_header (sync_packet c psn ack lsp)) = psn"
  "lp_payload (sync_packet c psn ack lsp) = Lsp_encode lsp"
  by (simp_all add: sync_packet_def LinkPacket_with_payload_def LinkHeader_with_payload_def)

lemma sync_controls [simp]:
  "\<not> control_contains SYN RST" "\<not> control_contains (SYN OR ACK) RST"
  "control_contains SYN SYN" "control_contains (SYN OR ACK) SYN"
  by (simp_all add: control_contains_def SYN_def ACK_def RST_def)

lemma link_encode_not_Nil [simp]: "link_encode p \<noteq> []"
  using length_link_encode_ge [of p] by (auto simp: LINK_HEADER_LEN_def)

lemma established_service_idle:
  assumes "es_pending_send st = []" "\<not> needs_ack st"
  shows "established_service now [] st w = (Inr (), [], [], st, w)"
proof -
  have "established_packets now [] st w = (Inr (), [], [], st, w)"
    by (simp add: established_packets.simps link_decode_short LINK_HEADER_LEN_def)
  moreover have "drain_pending_send now st w = (Inr (), st, w)"
    using assms(1) by (simp add: drain_pending_send_def drain_pending_loop.simps)
  ultimately show ?thesis using assms(2) by (simp add: established_service_def)
qed

text \<open>The handshake agrees: the accessory answers a detect marker with a SYN that carries its
  parameters; the device accepts exactly that packet, learns the accessory's parameters and sequence
  number and answers with its own; the accessory accepts the answer, acknowledges it and reports the
  link up. Both ends then start from matching states: each expects the number the other has just
  used and sends within the window the other announced.\<close>

theorem handshake_agreement:
  assumes "length (lsp_sessions (lc_our_lsp acc)) \<le> 21000" "length (lsp_sessions (lc_our_lsp dev)) \<le> 21000"
    "reliable wa" "reliable wd"
  shows "\<exists>syn reply ack. let
      t1 = link_run_step acc now1 (Read DETECT_MARKER) (link_task_start wa);
      (result, buf, wd') = device_negotiate_input dev (Read syn) [] wd;
      t2 = link_run_step acc now2 (Read reply) t1
    in lt_phase t1 = Negotiating \<and> wr_sent (lt_writer t1) = wr_sent wa @ [syn] \<and>
       result = Inr (Some (lc_our_lsp acc, lc_initial_psn acc)) \<and> buf = [] \<and>
       wr_sent wd' = wr_sent wd @ [reply] \<and>
       lt_phase t2 = Established_Phase (EstablishedState_new (lc_initial_psn acc) (lc_initial_psn dev)
           (lc_our_lsp dev) (lc_retransmit_give_up acc) now2) now2 \<and>
       lt_events t2 = [Established (lc_our_lsp dev)] \<and> wr_sent (lt_writer t2) = wr_sent wa @ [syn, ack]"
proof -
  let ?syn = "sync_packet SYN (lc_initial_psn acc) 0 (lc_our_lsp acc)"
  let ?reply = "sync_packet (SYN OR ACK) (lc_initial_psn dev) (lc_initial_psn acc) (lc_our_lsp dev)"
  let ?ack = "LinkPacket_header_only ACK (lc_initial_psn acc) (lc_initial_psn dev)"
  let ?st = "EstablishedState_new (lc_initial_psn acc) (lc_initial_psn dev) (lc_our_lsp dev)
      (lc_retransmit_give_up acc) now2"
  let ?t1 = "link_run_step acc now1 (Read DETECT_MARKER) (link_task_start wa)"
  let ?w1 = "wa\<lparr>wr_sent := wr_sent wa @ [link_encode ?syn]\<rparr>"
  have t1: "?t1 = (link_task_start wa)\<lparr>lt_writer := ?w1, lt_phase := Negotiating\<rparr>"
    using write_packet_reliable [OF assms(3), of ?syn] drain_marker
    by (simp add: link_run_step_def detect_input_def link_task_start_def DETECT_MARKER_def begin_negotiation_def
        negotiate_turn_def link_decode_short LINK_HEADER_LEN_def sync_packet_def)
  have dev: "device_negotiate_input dev (Read (link_encode ?syn)) [] wd =
      (Inr (Some (lc_our_lsp acc, lc_initial_psn acc)), [], wd\<lparr>wr_sent := wr_sent wd @ [link_encode ?reply]\<rparr>)"
    using write_packet_reliable [OF assms(4), of ?reply] sync_packet_decode [OF assms(1) canonical_flags(1)]
    by (simp add: device_negotiate_input_def device_negotiate_turn_def Let_def Lsp_decode_encode)
      (simp add: sync_packet_def)
  have idle: "es_pending_send ?st = []" "\<not> needs_ack ?st"
    by (simp_all add: EstablishedState_new_def Let_def needs_ack_def)
  have t2: "link_run_step acc now2 (Read (link_encode ?reply)) ?t1 =
      ?t1\<lparr>lt_events := [Established (lc_our_lsp dev)], lt_phase := Established_Phase ?st now2,
        lt_writer := ?w1\<lparr>wr_sent := wr_sent ?w1 @ [link_encode ?ack]\<rparr>\<rparr>"
    using write_packet_reliable [of ?w1 ?ack] sync_packet_decode [OF assms(2) canonical_flags(5)] assms(3)
    unfolding t1
    by (simp add: link_run_step_def negotiate_input_def negotiate_turn_def Let_def Lsp_decode_encode
        link_task_start_def enter_established_def established_turn_def emit_def
        established_service_idle [OF idle])
  show ?thesis
    by (rule exI [of _ "link_encode ?syn"], rule exI [of _ "link_encode ?reply"], rule exI [of _ "link_encode ?ack"])
      (simp add: Let_def dev t2, simp add: t1)
qed

theorem handshake_agreement_witness:
  "\<exists>reply. lt_events (link_run_step (LinkConfig_new Lsp_accessory_default) 3 (Read reply)
     (link_run_step (LinkConfig_new Lsp_accessory_default) 2 (Read DETECT_MARKER)
        (link_task_start \<lparr>wr_sent = [], wr_budget = None\<rparr>))) = [Established Lsp_accessory_default]"
proof -
  let ?cfg = "LinkConfig_new Lsp_accessory_default" and ?w = "\<lparr>wr_sent = [], wr_budget = None\<rparr>"
  have our: "lc_our_lsp ?cfg = Lsp_accessory_default" by (simp add: LinkConfig_new_def)
  have len: "length (lsp_sessions (lc_our_lsp ?cfg)) \<le> 21000"
    unfolding our by (simp add: Lsp_accessory_default_def)
  have "reliable ?w" by (simp add: reliable_def)
  from handshake_agreement [OF len len this this, of 2 3] show ?thesis
    unfolding our Let_def case_prod_unfold by blast
qed

end
