(* ===== verification/Csm_Codec.thy ===== *)
theory Csm_Codec
  imports Iap2_Io
begin

text \<open>Control-session messages on the wire (\<open>crates/iap2/src/csm/mod.rs\<close>): the frame and parameter
  encoding, \<open>CsmCodec\<close>, and the typed parameter fields. A Rust \<open>String\<close> is its UTF-8 bytes.\<close>

section \<open>Frames\<close>

definition CSM_START_MARKER :: u16 where "CSM_START_MARKER = 0x4040"
definition CSM_OUTER_HEADER_LEN :: nat where "CSM_OUTER_HEADER_LEN = 6"
definition CSM_PARAM_HEADER_LEN :: nat where "CSM_PARAM_HEADER_LEN = 4"

record CsmParam =
  cp_id :: u16
  cp_payload :: bytes

record CsmFrame =
  cf_msg_id :: u16
  cf_params :: "CsmParam list"

definition CsmFrame_empty :: "u16 \<Rightarrow> CsmFrame" where
  "CsmFrame_empty msg_id = \<lparr>cf_msg_id = msg_id, cf_params = []\<rparr>"

definition CsmFrame_find :: "u16 \<Rightarrow> CsmFrame \<Rightarrow> CsmParam option" where
  "CsmFrame_find param_id f = find (\<lambda>p. cp_id p = param_id) (cf_params f)"

text \<open>\<open>put_u16(x as u16)\<close> of a length.\<close>

definition put_len :: "nat \<Rightarrow> bytes" where
  "put_len n = be16 (of_nat n)"

fun encode_params :: "CsmParam list \<Rightarrow> bytes" where
  "encode_params [] = []"
| "encode_params (p # ps) =
    put_len (CSM_PARAM_HEADER_LEN + length (cp_payload p)) @ be16 (cp_id p) @ cp_payload p @ encode_params ps"

definition params_len :: "CsmParam list \<Rightarrow> nat" where
  "params_len ps = sum_list (map (\<lambda>p. CSM_PARAM_HEADER_LEN + length (cp_payload p)) ps)"

definition csm_encode :: "CsmFrame \<Rightarrow> bytes" where
  "csm_encode frame =
    (let total = CSM_OUTER_HEADER_LEN + params_len (cf_params frame) in
     be16 CSM_START_MARKER @ put_len total @ be16 (cf_msg_id frame) @ encode_params (cf_params frame))"

definition encode_param_block :: "CsmParam list \<Rightarrow> bytes" where
  "encode_param_block ps = encode_params ps"

text \<open>\<open>decode_params\<close>: the loop, with the offset in the body that its errors report.\<close>

function decode_params_at :: "nat \<Rightarrow> bytes \<Rightarrow> CsmDecodeError + CsmParam list" where
  "decode_params_at offset_in_body body =
    (if body = [] then Inr []
     else if length body < CSM_PARAM_HEADER_LEN
     then Inl (ParamLengthOverrun offset_in_body (of_nat (length body)) (length body))
     else
       let len = get16 (take 2 body);
           param_id = get16 (take 2 (drop 2 body))
       in if unat len < CSM_PARAM_HEADER_LEN then Inl (ParamLengthTooSmall len)
          else if length body < unat len then Inl (ParamLengthOverrun offset_in_body len (length body))
          else
            let payload = take (unat len - CSM_PARAM_HEADER_LEN) (drop CSM_PARAM_HEADER_LEN body)
            in res_bind (decode_params_at (offset_in_body + unat len) (drop (unat len) body))
                 (\<lambda>ps. Inr (\<lparr>cp_id = param_id, cp_payload = payload\<rparr> # ps)))"
  by pat_completeness auto
termination
  by (relation "measure (length \<circ> snd)") (auto simp: CSM_PARAM_HEADER_LEN_def)

declare decode_params_at.simps [simp del]

definition decode_params :: "bytes \<Rightarrow> CsmDecodeError + CsmParam list" where
  "decode_params body = decode_params_at 0 body"

definition decode_param_block :: "bytes \<Rightarrow> CsmDecodeError + CsmParam list" where
  "decode_param_block body = decode_params body"

text \<open>\<open>CsmCodec::decode\<close>. A frame whose parameters do not parse has been split off the buffer when
  the error is returned.\<close>

definition csm_decode :: "bytes \<Rightarrow> (CsmDecodeError + CsmFrame option) \<times> bytes" where
  "csm_decode src =
    (if length src < CSM_OUTER_HEADER_LEN then (Inr None, src)
     else
       let start = get16 (take 2 src); len = get16 (take 2 (drop 2 src)) in
       if start \<noteq> CSM_START_MARKER then (Inl (BadStartMarker start), src)
       else if unat len < CSM_OUTER_HEADER_LEN then (Inl (LengthTooSmall len), src)
       else if length src < unat len then (Inr None, src)
       else
         let msg_id = get16 (take 2 (drop 4 src));
             body = drop CSM_OUTER_HEADER_LEN (take (unat len) src);
             rest = drop (unat len) src
         in case decode_params body of
              Inl e \<Rightarrow> (Inl e, rest)
            | Inr ps \<Rightarrow> (Inr (Some \<lparr>cf_msg_id = msg_id, cf_params = ps\<rparr>), rest))"

section \<open>Taking parameters\<close>

text \<open>\<open>decode_field\<close> removes what it reads from the parameter list it is given.\<close>

type_synonym 'a field_result = "CsmDecodeError + 'a \<times> CsmParam list"

fun remove_first :: "u16 \<Rightarrow> CsmParam list \<Rightarrow> (bytes \<times> CsmParam list) option" where
  "remove_first param_id [] = None"
| "remove_first param_id (p # ps) =
    (if cp_id p = param_id then Some (cp_payload p, ps)
     else case remove_first param_id ps of
       None \<Rightarrow> None
     | Some (payload, ps') \<Rightarrow> Some (payload, p # ps'))"

definition has_param :: "u16 \<Rightarrow> CsmParam list \<Rightarrow> bool" where
  "has_param param_id ps \<longleftrightarrow> list_ex (\<lambda>p. cp_id p = param_id) ps"

definition take_one :: "u16 \<Rightarrow> CsmParam list \<Rightarrow> bytes field_result" where
  "take_one param_id ps =
    (case remove_first param_id ps of
       None \<Rightarrow> Inl (MissingParam param_id)
     | Some (payload, ps') \<Rightarrow>
         (if has_param param_id ps' then Inl (DuplicateParam param_id) else Inr (payload, ps')))"

definition take_optional :: "u16 \<Rightarrow> CsmParam list \<Rightarrow> bytes option field_result" where
  "take_optional param_id ps =
    (case remove_first param_id ps of
       None \<Rightarrow> Inr (None, ps)
     | Some (payload, ps') \<Rightarrow>
         (if has_param param_id ps' then Inl (DuplicateParam param_id) else Inr (Some payload, ps')))"

fun drain_all :: "u16 \<Rightarrow> CsmParam list \<Rightarrow> bytes list \<times> CsmParam list" where
  "drain_all param_id [] = ([], [])"
| "drain_all param_id (p # ps) =
    (case drain_all param_id ps of
       (out, rest) \<Rightarrow> (if cp_id p = param_id then (cp_payload p # out, rest) else (out, p # rest)))"

section \<open>Field types\<close>

definition param :: "u16 \<Rightarrow> bytes \<Rightarrow> CsmParam" where
  "param i payload = \<lparr>cp_id = i, cp_payload = payload\<rparr>"

text \<open>A field whose payload is read by \<open>conv\<close>, required or optional: the shape of every
  \<open>decode_field\<close> that takes a single parameter.\<close>

definition dec_required :: "(u16 \<Rightarrow> bytes \<Rightarrow> CsmDecodeError + 'a) \<Rightarrow> u16 \<Rightarrow> CsmParam list \<Rightarrow> 'a field_result" where
  "dec_required conv i ps =
    res_bind (take_one i ps) (\<lambda>(payload, ps'). res_bind (conv i payload) (\<lambda>v. Inr (v, ps')))"

definition dec_optional :: "(u16 \<Rightarrow> bytes \<Rightarrow> CsmDecodeError + 'a) \<Rightarrow> u16 \<Rightarrow> CsmParam list \<Rightarrow> 'a option field_result" where
  "dec_optional conv i ps =
    res_bind (take_optional i ps) (\<lambda>(payload, ps').
      case payload of
        None \<Rightarrow> Inr (None, ps')
      | Some b \<Rightarrow> res_bind (conv i b) (\<lambda>v. Inr (Some v, ps')))"

text \<open>\<open>Option<T>\<close> encodes nothing or its value.\<close>

fun enc_option :: "(u16 \<Rightarrow> 'a \<Rightarrow> CsmParam list) \<Rightarrow> u16 \<Rightarrow> 'a option \<Rightarrow> CsmParam list" where
  "enc_option enc i None = []"
| "enc_option enc i (Some v) = enc i v"

definition enc_bytes :: "u16 \<Rightarrow> bytes \<Rightarrow> CsmParam list" where
  "enc_bytes i v = [param i v]"
definition conv_bytes :: "u16 \<Rightarrow> bytes \<Rightarrow> CsmDecodeError + bytes" where
  "conv_bytes i b = Inr b"
definition dec_bytes :: "u16 \<Rightarrow> CsmParam list \<Rightarrow> bytes field_result" where
  "dec_bytes = dec_required conv_bytes"
definition dec_option_bytes :: "u16 \<Rightarrow> CsmParam list \<Rightarrow> bytes option field_result" where
  "dec_option_bytes = dec_optional conv_bytes"

definition enc_unit :: "u16 \<Rightarrow> unit \<Rightarrow> CsmParam list" where
  "enc_unit i v = [param i []]"
definition conv_unit :: "u16 \<Rightarrow> bytes \<Rightarrow> CsmDecodeError + unit" where
  "conv_unit i b = (if b \<noteq> [] then Inl (ParamLength i 0 (length b)) else Inr ())"
definition dec_unit :: "u16 \<Rightarrow> CsmParam list \<Rightarrow> unit field_result" where
  "dec_unit = dec_required conv_unit"
definition dec_option_unit :: "u16 \<Rightarrow> CsmParam list \<Rightarrow> unit option field_result" where
  "dec_option_unit = dec_optional conv_unit"

definition enc_bool :: "u16 \<Rightarrow> bool \<Rightarrow> CsmParam list" where
  "enc_bool i v = [param i (if v then [1] else [0])]"
definition conv_bool :: "u16 \<Rightarrow> bytes \<Rightarrow> CsmDecodeError + bool" where
  "conv_bool i b = (if length b \<noteq> 1 then Inl (ParamLength i 1 (length b)) else Inr (b ! 0 \<noteq> 0))"
definition dec_bool :: "u16 \<Rightarrow> CsmParam list \<Rightarrow> bool field_result" where
  "dec_bool = dec_required conv_bool"

text \<open>An optional flag may also be present without a payload, which means true.\<close>

definition conv_flag :: "u16 \<Rightarrow> bytes \<Rightarrow> CsmDecodeError + bool" where
  "conv_flag i b =
    (if b = [] then Inr True
     else if length b = 1 then Inr (b ! 0 \<noteq> 0)
     else Inl (ParamLength i 1 (length b)))"
definition dec_option_bool :: "u16 \<Rightarrow> CsmParam list \<Rightarrow> bool option field_result" where
  "dec_option_bool = dec_optional conv_flag"

text \<open>The integers of \<open>csm_param_be_int!\<close>: \<open>to_be\<close> and \<open>from_be\<close> are the conversions of the type, \<open>n\<close>
  its size. A signed integer has the bits of the unsigned one of its width.\<close>

definition conv_int :: "nat \<Rightarrow> (bytes \<Rightarrow> 'w) \<Rightarrow> u16 \<Rightarrow> bytes \<Rightarrow> CsmDecodeError + 'w" where
  "conv_int n from_be i b = (if length b \<noteq> n then Inl (ParamLength i n (length b)) else Inr (from_be b))"

definition enc_u8 :: "u16 \<Rightarrow> u8 \<Rightarrow> CsmParam list" where "enc_u8 i v = [param i [v]]"
definition enc_u16 :: "u16 \<Rightarrow> u16 \<Rightarrow> CsmParam list" where "enc_u16 i v = [param i (be16 v)]"
definition enc_u32 :: "u16 \<Rightarrow> u32 \<Rightarrow> CsmParam list" where "enc_u32 i v = [param i (be32 v)]"
definition enc_u64 :: "u16 \<Rightarrow> u64 \<Rightarrow> CsmParam list" where "enc_u64 i v = [param i (be64 v)]"
definition dec_u8 :: "u16 \<Rightarrow> CsmParam list \<Rightarrow> u8 field_result" where "dec_u8 = dec_required (conv_int 1 hd)"
definition dec_u16 :: "u16 \<Rightarrow> CsmParam list \<Rightarrow> u16 field_result" where "dec_u16 = dec_required (conv_int 2 get16)"
definition dec_u32 :: "u16 \<Rightarrow> CsmParam list \<Rightarrow> u32 field_result" where "dec_u32 = dec_required (conv_int 4 get32)"
definition dec_u64 :: "u16 \<Rightarrow> CsmParam list \<Rightarrow> u64 field_result" where "dec_u64 = dec_required (conv_int 8 get64)"
definition dec_option_u8 :: "u16 \<Rightarrow> CsmParam list \<Rightarrow> u8 option field_result" where
  "dec_option_u8 = dec_optional (conv_int 1 hd)"
definition dec_option_u16 :: "u16 \<Rightarrow> CsmParam list \<Rightarrow> u16 option field_result" where
  "dec_option_u16 = dec_optional (conv_int 2 get16)"
definition dec_option_u32 :: "u16 \<Rightarrow> CsmParam list \<Rightarrow> u32 option field_result" where
  "dec_option_u32 = dec_optional (conv_int 4 get32)"
definition dec_option_u64 :: "u16 \<Rightarrow> CsmParam list \<Rightarrow> u64 option field_result" where
  "dec_option_u64 = dec_optional (conv_int 8 get64)"

text \<open>The check of \<open>String::from_utf8\<close>: shortest encodings, no surrogates, at most U+10FFFF.\<close>

definition utf8_cont :: "u8 \<Rightarrow> bool" where "utf8_cont b \<longleftrightarrow> 0x80 \<le> b \<and> b \<le> 0xBF"

text \<open>The length of the well-formed character a byte string starts with, 0 if there is none.\<close>

definition utf8_char_len :: "bytes \<Rightarrow> nat" where
  "utf8_char_len bs =
    (let n = length bs; a = bs ! 0; b = bs ! 1; c = bs ! 2; d = bs ! 3 in
     if n = 0 then 0
     else if a < 0x80 then 1
     else if 0xC2 \<le> a \<and> a \<le> 0xDF then (if 2 \<le> n \<and> utf8_cont b then 2 else 0)
     else if 0xE0 \<le> a \<and> a \<le> 0xEF then
       (if 3 \<le> n \<and> (if a = 0xE0 then 0xA0 \<le> b \<and> b \<le> 0xBF
                      else if a = 0xED then 0x80 \<le> b \<and> b \<le> 0x9F
                      else utf8_cont b) \<and> utf8_cont c then 3 else 0)
     else if 0xF0 \<le> a \<and> a \<le> 0xF4 then
       (if 4 \<le> n \<and> (if a = 0xF0 then 0x90 \<le> b \<and> b \<le> 0xBF
                      else if a = 0xF4 then 0x80 \<le> b \<and> b \<le> 0x8F
                      else utf8_cont b) \<and> utf8_cont c \<and> utf8_cont d then 4 else 0)
     else 0)"

function utf8_valid :: "bytes \<Rightarrow> bool" where
  "utf8_valid bs =
    (if bs = [] then True
     else if utf8_char_len bs = 0 then False
     else utf8_valid (drop (utf8_char_len bs) bs))"
  by pat_completeness auto
termination by (relation "measure length") auto

declare utf8_valid.simps [simp del]

definition enc_string :: "u16 \<Rightarrow> bytes \<Rightarrow> CsmParam list" where
  "enc_string i s = [param i (s @ [0])]"
definition conv_string :: "u16 \<Rightarrow> bytes \<Rightarrow> CsmDecodeError + bytes" where
  "conv_string i b =
    (if b = [] \<or> last b \<noteq> 0 then Inl (StringNotTerminated i)
     else if \<not> utf8_valid (butlast b) then Inl (StringNotUtf8 i)
     else Inr (butlast b))"
definition dec_string :: "u16 \<Rightarrow> CsmParam list \<Rightarrow> bytes field_result" where
  "dec_string = dec_required conv_string"
definition dec_option_string :: "u16 \<Rightarrow> CsmParam list \<Rightarrow> bytes option field_result" where
  "dec_option_string = dec_optional conv_string"

definition enc_vec :: "(u16 \<Rightarrow> 'a \<Rightarrow> CsmParam list) \<Rightarrow> u16 \<Rightarrow> 'a list \<Rightarrow> CsmParam list" where
  "enc_vec enc i vs = concat (map (enc i) vs)"

fun convert_all :: "('b \<Rightarrow> CsmDecodeError + 'a) \<Rightarrow> 'b list \<Rightarrow> CsmDecodeError + 'a list" where
  "convert_all conv [] = Inr []"
| "convert_all conv (b # bs) = res_bind (conv b) (\<lambda>v. res_bind (convert_all conv bs) (\<lambda>vs. Inr (v # vs)))"

definition dec_vec :: "(u16 \<Rightarrow> bytes \<Rightarrow> CsmDecodeError + 'a) \<Rightarrow> u16 \<Rightarrow> CsmParam list \<Rightarrow> 'a list field_result" where
  "dec_vec conv i ps =
    (case drain_all i ps of (payloads, ps') \<Rightarrow> res_bind (convert_all (conv i) payloads) (\<lambda>vs. Inr (vs, ps')))"

definition dec_vec_bytes :: "u16 \<Rightarrow> CsmParam list \<Rightarrow> bytes list field_result" where
  "dec_vec_bytes = dec_vec conv_bytes"
definition dec_vec_string :: "u16 \<Rightarrow> CsmParam list \<Rightarrow> bytes list field_result" where
  "dec_vec_string = dec_vec conv_string"

end
