(* ===== verification/Csm_Facts.thy ===== *)
theory Csm_Facts
  imports Csm_Codec
begin

text \<open>Properties of the control-session codec, and the contract of its parameter fields as a locale,
  interpreted on every field type of \<open>csm/mod.rs\<close>.\<close>

section \<open>The codec\<close>

lemma length_encode_params: "length (encode_params ps) = params_len ps"
  by (induction ps) (auto simp: params_len_def put_len_def CSM_PARAM_HEADER_LEN_def)

lemma params_len_Cons: "params_len (p # ps) = CSM_PARAM_HEADER_LEN + length (cp_payload p) + params_len ps"
  by (simp add: params_len_def)

text \<open>A frame whose declared length does not overflow its sixteen bits.\<close>

definition csm_fits :: "CsmFrame \<Rightarrow> bool" where
  "csm_fits f \<longleftrightarrow> CSM_OUTER_HEADER_LEN + params_len (cf_params f) < 65536"

lemma take_be16 [simp]: "take 2 (be16 x @ ys) = be16 x" "take 2 (be16 x) = be16 x"
  by simp_all

lemma unat_of_nat16: "n < 65536 \<Longrightarrow> unat (of_nat n :: u16) = n"
  by (simp add: unat_of_nat)

lemma get16_put_len: "n < 65536 \<Longrightarrow> unat (get16 (put_len n)) = n"
  by (simp add: put_len_def unat_of_nat)

lemma length_put_len [simp]: "length (put_len n) = 2" "put_len n \<noteq> []"
  by (simp_all add: put_len_def) (metis length_be(1) list.size(3) zero_neq_numeral)

definition param_fits :: "CsmParam \<Rightarrow> bool" where
  "param_fits p \<longleftrightarrow> CSM_PARAM_HEADER_LEN + length (cp_payload p) < 65536"

lemma decode_params_encode_each:
  "list_all param_fits ps \<Longrightarrow> decode_params_at off (encode_params ps) = Inr ps"
proof (induction ps arbitrary: off)
  case Nil
  then show ?case by (simp add: decode_params_at.simps)
next
  case (Cons p ps)
  let ?n = "CSM_PARAM_HEADER_LEN + length (cp_payload p)"
  have n: "?n < 65536" and ps: "list_all param_fits ps" using Cons.prems by (simp_all add: param_fits_def [of p])
  have t: "take 2 (encode_params (p # ps)) = put_len ?n" "take 2 (drop 2 (encode_params (p # ps))) = be16 (cp_id p)"
    "drop ?n (encode_params (p # ps)) = encode_params ps"
    "take (?n - CSM_PARAM_HEADER_LEN) (drop CSM_PARAM_HEADER_LEN (encode_params (p # ps))) = cp_payload p"
    "\<not> length (encode_params (p # ps)) < ?n" "encode_params (p # ps) \<noteq> []"
    by (simp_all add: CSM_PARAM_HEADER_LEN_def)
  show ?case
    using Cons.IH [OF ps] get16_put_len [OF n]
    by (subst decode_params_at.simps) (simp only: t Let_def, simp add: CSM_PARAM_HEADER_LEN_def)
qed

lemma params_fit: "params_len ps < 65536 \<Longrightarrow> list_all param_fits ps"
  by (induction ps) (auto simp: params_len_Cons param_fits_def)

lemma decode_params_encode:
  "params_len ps < 65536 \<Longrightarrow> decode_params_at off (encode_params ps) = Inr ps"
  by (simp add: decode_params_encode_each params_fit)

lemma decode_params_sound:
  "decode_params_at off body = Inr ps \<Longrightarrow> body = encode_params ps"
proof (induction off body arbitrary: ps rule: decode_params_at.induct)
  case (1 off body)
  show ?case
  proof (cases "body = []")
    case True
    then show ?thesis using "1.prems" by (simp add: decode_params_at.simps)
  next
    case False
    let ?len = "get16 (take 2 body)" and ?id = "get16 (take 2 (drop 2 body))"
    let ?pl = "take (unat ?len - CSM_PARAM_HEADER_LEN) (drop CSM_PARAM_HEADER_LEN body)"
    from "1.prems" False have c: "\<not> length body < CSM_PARAM_HEADER_LEN" "\<not> unat ?len < CSM_PARAM_HEADER_LEN"
        "\<not> length body < unat ?len"
      by (subst (asm) decode_params_at.simps; auto simp: Let_def split: if_splits)+
    with "1.prems" False obtain qs where q: "decode_params_at (off + unat ?len) (drop (unat ?len) body) = Inr qs"
        "ps = \<lparr>cp_id = ?id, cp_payload = ?pl\<rparr> # qs"
      by (subst (asm) decode_params_at.simps) (auto simp: Let_def res_bind_eq_Inr)
    have IH: "drop (unat ?len) body = encode_params qs"
      using "1.IH" [OF False c(1) refl refl c(2,3) refl q(1)] .
    have n: "CSM_PARAM_HEADER_LEN + length ?pl = unat ?len" using c by simp
    have "put_len (unat ?len) = take 2 body"
      using c(1) by (simp add: put_len_def CSM_PARAM_HEADER_LEN_def be16_get16)
    moreover have "be16 ?id = take 2 (drop 2 body)"
      using c(1) by (simp add: CSM_PARAM_HEADER_LEN_def be16_get16)
    moreover have "body = take 2 body @ take 2 (drop 2 body) @ ?pl @ drop (unat ?len) body"
    proof -
      have "drop 2 (drop 2 body) = ?pl @ drop (unat ?len) body"
        using c by (simp add: CSM_PARAM_HEADER_LEN_def) (metis append_take_drop_id drop_drop le_add_diff_inverse2 not_less add.commute)
      then show ?thesis by (metis append_take_drop_id)
    qed
    ultimately show ?thesis using q(2) n IH by simp
  qed
qed

lemma csm_decode_encode:
  assumes "csm_fits f"
  shows "csm_decode (csm_encode f @ rest) = (Inr (Some f), rest)"
proof -
  let ?n = "CSM_OUTER_HEADER_LEN + params_len (cf_params f)"
  define src where "src = csm_encode f @ rest"
  have n: "?n < 65536" and p: "params_len (cf_params f) < 65536" using assms by (auto simp: csm_fits_def)
  have len: "length (csm_encode f) = ?n"
    by (simp add: csm_encode_def Let_def length_encode_params CSM_OUTER_HEADER_LEN_def)
  have t: "get16 (take 2 src) = CSM_START_MARKER" "unat (get16 (take 2 (drop 2 src))) = ?n"
    "get16 (take 2 (drop 4 src)) = cf_msg_id f"
    using get16_put_len [OF n] by (simp_all add: src_def csm_encode_def Let_def)
  have b: "take ?n src = csm_encode f" "drop ?n src = rest" "\<not> length src < ?n"
    using len by (simp_all add: src_def)
  have body: "decode_params (drop CSM_OUTER_HEADER_LEN (csm_encode f)) = Inr (cf_params f)"
    using decode_params_encode [OF p, of 0]
    by (simp add: csm_encode_def Let_def CSM_OUTER_HEADER_LEN_def decode_params_def)
  have "csm_decode src = (Inr (Some f), rest)"
    using b(3) by (simp add: csm_decode_def t b(1,2) body Let_def)
  then show ?thesis by (simp add: src_def)
qed

lemma csm_decode_sound:
  assumes "csm_decode src = (Inr (Some f), rest)"
  shows "csm_fits f \<and> src = csm_encode f @ rest"
proof -
  let ?len = "get16 (take 2 (drop 2 src))"
  have c: "CSM_OUTER_HEADER_LEN \<le> length src" "get16 (take 2 src) = CSM_START_MARKER"
    "CSM_OUTER_HEADER_LEN \<le> unat ?len" "unat ?len \<le> length src" "rest = drop (unat ?len) src"
    using assms by (auto simp: csm_decode_def Let_def split: if_splits sum.splits)
  let ?body = "drop CSM_OUTER_HEADER_LEN (take (unat ?len) src)"
  have f: "decode_params ?body = Inr (cf_params f)" "cf_msg_id f = get16 (take 2 (drop 4 src))"
    using assms c by (auto simp: csm_decode_def Let_def split: sum.splits)
  have body: "?body = encode_params (cf_params f)"
    using decode_params_sound f(1) unfolding decode_params_def by blast
  have n: "CSM_OUTER_HEADER_LEN + params_len (cf_params f) = unat ?len"
    using arg_cong [OF body, of length] c by (simp add: length_encode_params)
  have parts: "take 2 src = be16 CSM_START_MARKER" "take 2 (drop 2 src) = put_len (unat ?len)"
    "take 2 (drop 4 src) = be16 (cf_msg_id f)"
    using c(1,2) f(2) be16_get16 [of "take 2 src"] be16_get16 [of "take 2 (drop 2 src)"] be16_get16 [of "take 2 (drop 4 src)"]
    by (simp_all add: CSM_OUTER_HEADER_LEN_def put_len_def)
  have "take 6 src = take 2 src @ take 2 (drop 2 src) @ take 2 (drop 4 src)"
    using take_add [of 2 "2 + 2" src] take_add [of 2 2 "drop 2 src"] by simp
  then have "take (unat ?len) src = be16 CSM_START_MARKER @ put_len (unat ?len) @ be16 (cf_msg_id f) @ ?body"
    using parts c(3) by (metis CSM_OUTER_HEADER_LEN_def append_assoc append_take_drop_id min.absorb1 take_take)
  then have "take (unat ?len) src = csm_encode f"
    using body n by (simp add: csm_encode_def Let_def)
  moreover have "csm_fits f" using n by (simp add: csm_fits_def)
  ultimately show ?thesis using c(5) by (metis append_take_drop_id)
qed

lemma csm_decode_more:
  "csm_decode src = (Inr (Some f), r) \<Longrightarrow> csm_decode (src @ c) = (Inr (Some f), r @ c)"
  using csm_decode_sound [of src f r] csm_decode_encode [of f "r @ c"] by simp

lemma csm_decode_more_error: "csm_decode src = (Inl e, r) \<Longrightarrow> csm_decode (src @ c) = (Inl e, r @ c)"
  by (auto simp: csm_decode_def CSM_OUTER_HEADER_LEN_def Let_def split: if_splits sum.splits)

lemma csm_decode_pending: "csm_decode src = (Inr None, r) \<Longrightarrow> r = src"
  by (auto simp: csm_decode_def Let_def split: if_splits sum.splits)

interpretation csm_codec: incremental_decoder csm_decode csm_encode csm_fits
proof (unfold_locales, goal_cases)
  case (1 f rest)
  then show ?case by (rule csm_decode_encode)
next
  case (2 buf f r)
  then show ?case using csm_decode_sound [OF 2] by (simp add: csm_encode_def Let_def put_len_def)
next
  case 3
  show ?case by (simp add: csm_decode_def CSM_OUTER_HEADER_LEN_def)
next
  case (4 buf f r c)
  then show ?case by (rule csm_decode_more)
next
  case (5 buf e r c)
  then show ?case by (rule csm_decode_more_error)
next
  case (6 buf r c)
  then show ?case using csm_decode_pending by blast
qed

text \<open>C40. The control-session decoder returns a frame exactly when the buffer starts with an encoding
  of it, and consumes exactly that encoding: encoding and decoding are inverse in both directions.\<close>

theorem csm_decode_iff_encode:
  "csm_decode src = (Inr (Some f), rest) \<longleftrightarrow> csm_fits f \<and> src = csm_encode f @ rest"
  using csm_decode_sound csm_decode_encode by blast

text \<open>A sequence of control-session frames is read back exactly, however the link cuts it into
  reads.\<close>

theorem csm_stream_roundtrip:
  assumes "\<forall>f \<in> set fs. csm_fits f" "concat chunks = concat (map csm_encode fs)"
  shows "feed csm_decode [] chunks = (fs, None, [])"
  using assms csm_codec.drain_all_encoded by (simp add: csm_codec.feed_Nil_eq_drain)

theorem csm_stream_roundtrip_witness:
  "let f = \<lparr>cf_msg_id = 0x1D00, cf_params = [param 3 [1, 2], param 4 []]\<rparr> in
   feed csm_decode [] [take 5 (csm_encode f), drop 5 (csm_encode f) @ csm_encode f] = ([f, f], None, [])"
  unfolding Let_def
  by (rule csm_stream_roundtrip)
    (simp_all add: csm_fits_def params_len_def param_def CSM_OUTER_HEADER_LEN_def CSM_PARAM_HEADER_LEN_def)

section \<open>Parameter fields\<close>

definition no_param :: "u16 \<Rightarrow> CsmParam list \<Rightarrow> bool" where
  "no_param i ps \<longleftrightarrow> (\<forall>p \<in> set ps. cp_id p \<noteq> i)"

named_theorems csm_field_simps \<open>decoding a field right behind its own encoding\<close>

lemma no_param_simps [simp]:
  "no_param i []" "no_param i (p # ps) \<longleftrightarrow> cp_id p \<noteq> i \<and> no_param i ps"
  "no_param i (ps @ qs) \<longleftrightarrow> no_param i ps \<and> no_param i qs"
  by (auto simp: no_param_def)

lemma has_no_param [simp]: "no_param i ps \<Longrightarrow> \<not> has_param i ps"
  by (auto simp: has_param_def no_param_def list_ex_iff)

lemma param_simps [simp]: "cp_id (param i b) = i" "cp_payload (param i b) = b"
  by (simp_all add: param_def)

lemma remove_first_none: "no_param i ps \<Longrightarrow> remove_first i ps = None"
  by (induction ps) auto

lemma remove_first_at:
  "no_param i pre \<Longrightarrow> remove_first i (pre @ param i b # post) = Some (b, pre @ post)"
  by (induction pre) auto

lemma drain_all_none: "no_param i ps \<Longrightarrow> drain_all i ps = ([], ps)"
  by (induction ps) auto

lemma drain_all_append:
  "drain_all i (ps @ qs) = (fst (drain_all i ps) @ fst (drain_all i qs), snd (drain_all i ps) @ snd (drain_all i qs))"
  by (induction ps) (auto simp: case_prod_unfold)

lemma drain_all_params: "drain_all i (map (\<lambda>v. param i (g v)) vs) = (map g vs, [])"
  by (induction vs) auto

text \<open>The contract of a field type: its parameters carry its number, and decoding takes them out of any
  list that has no other parameter of the number, leaving the rest in order.\<close>

locale csm_field =
  fixes encf :: "u16 \<Rightarrow> 'a \<Rightarrow> CsmParam list"
    and decf :: "u16 \<Rightarrow> CsmParam list \<Rightarrow> 'a field_result"
    and okf :: "'a \<Rightarrow> bool"
  assumes enc_ids: "p \<in> set (encf i v) \<Longrightarrow> cp_id p = i"
    and dec_enc: "okf v \<Longrightarrow> no_param i pre \<Longrightarrow> no_param i post \<Longrightarrow>
      decf i (pre @ encf i v @ post) = Inr (v, pre @ post)"
begin

lemma dec_first: "okf v \<Longrightarrow> no_param i post \<Longrightarrow> decf i (encf i v @ post) = Inr (v, post)"
  using dec_enc [of v i "[]" post] by simp

lemma dec_only: "okf v \<Longrightarrow> decf i (encf i v) = Inr (v, [])"
  using dec_first [of v i "[]"] by simp

lemma no_param_enc: "i \<noteq> j \<Longrightarrow> no_param i (encf j v)"
  using enc_ids by (fastforce simp: no_param_def)

end

text \<open>A value with a payload that its converter reads back gives a required, an optional and a repeated
  field.\<close>

locale csm_value =
  fixes payload :: "'a \<Rightarrow> bytes"
    and conv :: "u16 \<Rightarrow> bytes \<Rightarrow> CsmDecodeError + 'a"
    and okf :: "'a \<Rightarrow> bool"
  assumes conv_payload: "okf v \<Longrightarrow> conv i (payload v) = Inr v"
begin

lemma convert_payloads: "list_all okf vs \<Longrightarrow> convert_all (conv i) (map payload vs) = Inr vs"
  by (induction vs) (auto simp: conv_payload)

end

sublocale csm_value \<subseteq> req: csm_field "\<lambda>i v. [param i (payload v)]" "dec_required conv" okf
  by unfold_locales (auto simp: dec_required_def take_one_def remove_first_at conv_payload)

sublocale csm_value \<subseteq> opt: csm_field "enc_option (\<lambda>i v. [param i (payload v)])" "dec_optional conv" "pred_option okf"
proof (unfold_locales, goal_cases)
  case (1 p i v)
  then show ?case by (cases v) auto
next
  case (2 v i pre post)
  then show ?case
    by (cases v) (auto simp: dec_optional_def take_optional_def remove_first_at remove_first_none conv_payload)
qed

sublocale csm_value \<subseteq> vec: csm_field "enc_vec (\<lambda>i v. [param i (payload v)])" "dec_vec conv" "list_all okf"
proof (unfold_locales, goal_cases)
  case (1 p i v)
  then show ?case by (auto simp: enc_vec_def)
next
  case (2 v i pre post)
  have "enc_vec (\<lambda>i v. [param i (payload v)]) i v = map (\<lambda>v. param i (payload v)) v"
    by (induction v) (auto simp: enc_vec_def)
  then show ?case
    using 2 by (simp add: dec_vec_def drain_all_append drain_all_none drain_all_params convert_payloads)
qed

interpretation bytes_value: csm_value "\<lambda>b. b" conv_bytes "\<lambda>_. True"
  by unfold_locales (simp add: conv_bytes_def)
interpretation unit_value: csm_value "\<lambda>_. []" conv_unit "\<lambda>_. True"
  by unfold_locales (simp add: conv_unit_def)
interpretation bool_value: csm_value "\<lambda>b. if b then [1] else [0]" conv_bool "\<lambda>_. True"
  by unfold_locales (simp add: conv_bool_def)
interpretation flag_value: csm_value "\<lambda>b. if b then [1] else [0]" conv_flag "\<lambda>_. True"
  by unfold_locales (simp add: conv_flag_def)
interpretation u8_value: csm_value "\<lambda>x. [x]" "conv_int 1 hd" "\<lambda>_. True"
  by unfold_locales (simp add: conv_int_def)
interpretation u16_value: csm_value be16 "conv_int 2 get16" "\<lambda>_. True"
  by unfold_locales (simp add: conv_int_def)
interpretation u32_value: csm_value be32 "conv_int 4 get32" "\<lambda>_. True"
  by unfold_locales (simp add: conv_int_def)
interpretation u64_value: csm_value be64 "conv_int 8 get64" "\<lambda>_. True"
  by unfold_locales (simp add: conv_int_def)
interpretation string_value: csm_value "\<lambda>s. s @ [0]" conv_string utf8_valid
  by unfold_locales (simp add: conv_string_def)

text \<open>The fields by the names the messages use.\<close>

interpretation bytes_field: csm_field enc_bytes dec_bytes "\<lambda>_. True"
  using bytes_value.req.csm_field_axioms by (simp add: enc_bytes_def [abs_def] dec_bytes_def)
interpretation option_bytes_field: csm_field "enc_option enc_bytes" dec_option_bytes "pred_option (\<lambda>_. True)"
  using bytes_value.opt.csm_field_axioms by (simp only: enc_bytes_def [abs_def] dec_option_bytes_def)
interpretation unit_field: csm_field enc_unit dec_unit "\<lambda>_. True"
  using unit_value.req.csm_field_axioms by (simp add: enc_unit_def [abs_def] dec_unit_def)
interpretation option_unit_field: csm_field "enc_option enc_unit" dec_option_unit "pred_option (\<lambda>_. True)"
  using unit_value.opt.csm_field_axioms by (simp only: enc_unit_def [abs_def] dec_option_unit_def)
interpretation u8_field: csm_field enc_u8 dec_u8 "\<lambda>_. True"
  using u8_value.req.csm_field_axioms by (simp add: enc_u8_def [abs_def] dec_u8_def)
interpretation option_u8_field: csm_field "enc_option enc_u8" dec_option_u8 "pred_option (\<lambda>_. True)"
  using u8_value.opt.csm_field_axioms by (simp only: enc_u8_def [abs_def] dec_option_u8_def)
interpretation u16_field: csm_field enc_u16 dec_u16 "\<lambda>_. True"
  using u16_value.req.csm_field_axioms by (simp add: enc_u16_def [abs_def] dec_u16_def)
interpretation option_u16_field: csm_field "enc_option enc_u16" dec_option_u16 "pred_option (\<lambda>_. True)"
  using u16_value.opt.csm_field_axioms by (simp only: enc_u16_def [abs_def] dec_option_u16_def)
interpretation u32_field: csm_field enc_u32 dec_u32 "\<lambda>_. True"
  using u32_value.req.csm_field_axioms by (simp add: enc_u32_def [abs_def] dec_u32_def)
interpretation option_u32_field: csm_field "enc_option enc_u32" dec_option_u32 "pred_option (\<lambda>_. True)"
  using u32_value.opt.csm_field_axioms by (simp only: enc_u32_def [abs_def] dec_option_u32_def)
interpretation u64_field: csm_field enc_u64 dec_u64 "\<lambda>_. True"
  using u64_value.req.csm_field_axioms by (simp add: enc_u64_def [abs_def] dec_u64_def)
interpretation option_u64_field: csm_field "enc_option enc_u64" dec_option_u64 "pred_option (\<lambda>_. True)"
  using u64_value.opt.csm_field_axioms by (simp only: enc_u64_def [abs_def] dec_option_u64_def)
interpretation string_field: csm_field enc_string dec_string "utf8_valid"
  using string_value.req.csm_field_axioms by (simp add: enc_string_def [abs_def] dec_string_def)
interpretation option_string_field: csm_field "enc_option enc_string" dec_option_string "pred_option (utf8_valid)"
  using string_value.opt.csm_field_axioms by (simp only: enc_string_def [abs_def] dec_option_string_def)
interpretation bool_field: csm_field enc_bool dec_bool "\<lambda>_. True"
  using bool_value.req.csm_field_axioms by (simp add: enc_bool_def [abs_def] dec_bool_def)
interpretation option_bool_field: csm_field "enc_option enc_bool" dec_option_bool "pred_option (\<lambda>_. True)"
  using flag_value.opt.csm_field_axioms by (simp only: enc_bool_def [abs_def] dec_option_bool_def)
interpretation vec_bytes_field: csm_field "enc_vec enc_bytes" dec_vec_bytes "list_all (\<lambda>_. True)"
  using bytes_value.vec.csm_field_axioms by (simp only: enc_bytes_def [abs_def] dec_vec_bytes_def)
interpretation vec_string_field: csm_field "enc_vec enc_string" dec_vec_string "list_all utf8_valid"
  using string_value.vec.csm_field_axioms by (simp only: enc_string_def [abs_def] dec_vec_string_def)

lemmas csm_fields =
  bytes_field.dec_enc bytes_field.no_param_enc
  option_bytes_field.dec_enc option_bytes_field.no_param_enc
  unit_field.dec_enc unit_field.no_param_enc
  option_unit_field.dec_enc option_unit_field.no_param_enc
  u8_field.dec_enc u8_field.no_param_enc
  option_u8_field.dec_enc option_u8_field.no_param_enc
  u16_field.dec_enc u16_field.no_param_enc
  option_u16_field.dec_enc option_u16_field.no_param_enc
  u32_field.dec_enc u32_field.no_param_enc
  option_u32_field.dec_enc option_u32_field.no_param_enc
  u64_field.dec_enc u64_field.no_param_enc
  option_u64_field.dec_enc option_u64_field.no_param_enc
  string_field.dec_enc string_field.no_param_enc
  option_string_field.dec_enc option_string_field.no_param_enc
  bool_field.dec_enc bool_field.no_param_enc
  option_bool_field.dec_enc option_bool_field.no_param_enc
  vec_bytes_field.dec_enc vec_bytes_field.no_param_enc
  vec_string_field.dec_enc vec_string_field.no_param_enc

declare csm_fields [csm_field_simps]

lemma pred_option_True [csm_field_simps]: "pred_option (\<lambda>_. True) x"
  by (cases x) auto

lemma list_all_True [csm_field_simps]: "list_all (\<lambda>_. True) xs"
  by (induction xs) auto

section \<open>Messages\<close>

text \<open>The contract of a message type: its frame carries its number, is read back, and a frame with
  another number is refused. An extensible message is also read back when parameters that it does not
  know stand around its own.\<close>

locale csm_message =
  fixes to_frame :: "'m \<Rightarrow> CsmFrame"
    and from_frame :: "CsmFrame \<Rightarrow> CsmDecodeError + 'm"
    and mid :: u16
    and okm :: "'m \<Rightarrow> bool"
  assumes frame_id: "cf_msg_id (to_frame m) = mid"
    and roundtrip: "okm m \<Longrightarrow> from_frame (to_frame m) = Inr m"
    and wrong_id: "cf_msg_id f \<noteq> mid \<Longrightarrow> from_frame f = Inl (WrongMsgId (cf_msg_id f) mid)"
begin

lemma to_frame_inj: "okm m \<Longrightarrow> okm m' \<Longrightarrow> to_frame m = to_frame m' \<Longrightarrow> m = m'"
  by (metis roundtrip sum.inject(2))

lemma through_codec:
  assumes "okm m" "csm_fits (to_frame m)"
  shows "\<exists>f. csm_decode (csm_encode (to_frame m) @ rest) = (Inr (Some f), rest) \<and> from_frame f = Inr m"
  using assms by (simp add: csm_decode_encode roundtrip)

end

locale extensible_message =
  fixes to_frame :: "'m \<Rightarrow> CsmFrame"
    and from_frame :: "CsmFrame \<Rightarrow> CsmDecodeError + 'm"
    and mid :: u16
    and okm :: "'m \<Rightarrow> bool"
    and ids :: "u16 list"
  assumes frame_has_id: "cf_msg_id (to_frame m) = mid"
    and read_among: "okm m \<Longrightarrow> list_all (\<lambda>i. no_param i pre \<and> no_param i post) ids \<Longrightarrow>
      from_frame \<lparr>cf_msg_id = mid, cf_params = pre @ cf_params (to_frame m) @ post\<rparr> = Inr m"
    and other_id: "cf_msg_id f \<noteq> mid \<Longrightarrow> from_frame f = Inl (WrongMsgId (cf_msg_id f) mid)"
begin

lemma read_own: "okm m \<Longrightarrow> from_frame (to_frame m) = Inr m"
  using read_among [of m "[]" "[]"] frame_has_id [of m] by (cases "to_frame m") (simp add: list_all_iff)

end

sublocale extensible_message \<subseteq> msg: csm_message to_frame from_frame mid okm
  by unfold_locales (simp_all add: frame_has_id read_own other_id)

end
