(* ===== verification/Csm_Messages.thy ===== *)
theory Csm_Messages
  imports Csm_Facts
begin

text \<open>The control-session messages of \<open>crates/iap2/src/csm\<close>: authentication, HID, device, external
  accessory, telephony and the simple messages of identification and now playing. For a type with
  \<open>#[derive(Csm)]\<close> the two conversions are what \<open>crates/iap2-macros\<close> expands it to: the fields in order of
  declaration, each with its parameter number. \<open>X_ok\<close> says that every text of a message is UTF-8, as a
  Rust \<open>String\<close> is.\<close>

section \<open>Authentication\<close>

text \<open>The messages of \<open>csm/auth.rs\<close>.\<close>

definition RequestAuthenticationCertificate_MSG_ID :: u16 where "RequestAuthenticationCertificate_MSG_ID = 0xAA00"

definition RequestAuthenticationCertificate_to_frame :: "unit \<Rightarrow> CsmFrame" where
  "RequestAuthenticationCertificate_to_frame m = \<lparr>cf_msg_id = RequestAuthenticationCertificate_MSG_ID, cf_params =
      []\<rparr>"

definition RequestAuthenticationCertificate_from_frame :: "CsmFrame \<Rightarrow> CsmDecodeError + unit" where
  "RequestAuthenticationCertificate_from_frame frame =
    (if cf_msg_id frame \<noteq> RequestAuthenticationCertificate_MSG_ID then Inl (WrongMsgId (cf_msg_id frame) RequestAuthenticationCertificate_MSG_ID) else
     Inr ())"

definition RequestAuthenticationCertificate_ok :: "unit \<Rightarrow> bool" where
  "RequestAuthenticationCertificate_ok m \<longleftrightarrow> True"

interpretation RequestAuthenticationCertificate_msg: extensible_message RequestAuthenticationCertificate_to_frame RequestAuthenticationCertificate_from_frame RequestAuthenticationCertificate_MSG_ID RequestAuthenticationCertificate_ok "[]"
  by unfold_locales (auto simp: RequestAuthenticationCertificate_to_frame_def RequestAuthenticationCertificate_from_frame_def RequestAuthenticationCertificate_ok_def csm_field_simps)

definition AuthenticationCertificate_MSG_ID :: u16 where "AuthenticationCertificate_MSG_ID = 0xAA01"

record AuthenticationCertificate =
  ac_cert :: bytes

definition AuthenticationCertificate_to_frame :: "AuthenticationCertificate \<Rightarrow> CsmFrame" where
  "AuthenticationCertificate_to_frame m = \<lparr>cf_msg_id = AuthenticationCertificate_MSG_ID, cf_params =
      enc_bytes 0 (ac_cert m)\<rparr>"

definition AuthenticationCertificate_from_frame :: "CsmFrame \<Rightarrow> CsmDecodeError + AuthenticationCertificate" where
  "AuthenticationCertificate_from_frame frame =
    (if cf_msg_id frame \<noteq> AuthenticationCertificate_MSG_ID then Inl (WrongMsgId (cf_msg_id frame) AuthenticationCertificate_MSG_ID) else
     res_bind (dec_bytes 0 (cf_params frame)) (\<lambda>(cert, ps).
     Inr \<lparr>ac_cert = cert\<rparr>))"

definition AuthenticationCertificate_ok :: "AuthenticationCertificate \<Rightarrow> bool" where
  "AuthenticationCertificate_ok m \<longleftrightarrow> True"

interpretation AuthenticationCertificate_msg: extensible_message AuthenticationCertificate_to_frame AuthenticationCertificate_from_frame AuthenticationCertificate_MSG_ID AuthenticationCertificate_ok "[0]"
  by unfold_locales (auto simp: AuthenticationCertificate_to_frame_def AuthenticationCertificate_from_frame_def AuthenticationCertificate_ok_def csm_field_simps)

definition RequestAuthenticationChallengeResponse_MSG_ID :: u16 where "RequestAuthenticationChallengeResponse_MSG_ID = 0xAA02"

record RequestAuthenticationChallengeResponse =
  racr_challenge :: bytes

definition RequestAuthenticationChallengeResponse_to_frame :: "RequestAuthenticationChallengeResponse \<Rightarrow> CsmFrame" where
  "RequestAuthenticationChallengeResponse_to_frame m = \<lparr>cf_msg_id = RequestAuthenticationChallengeResponse_MSG_ID, cf_params =
      enc_bytes 0 (racr_challenge m)\<rparr>"

definition RequestAuthenticationChallengeResponse_from_frame :: "CsmFrame \<Rightarrow> CsmDecodeError + RequestAuthenticationChallengeResponse" where
  "RequestAuthenticationChallengeResponse_from_frame frame =
    (if cf_msg_id frame \<noteq> RequestAuthenticationChallengeResponse_MSG_ID then Inl (WrongMsgId (cf_msg_id frame) RequestAuthenticationChallengeResponse_MSG_ID) else
     res_bind (dec_bytes 0 (cf_params frame)) (\<lambda>(challenge, ps).
     Inr \<lparr>racr_challenge = challenge\<rparr>))"

definition RequestAuthenticationChallengeResponse_ok :: "RequestAuthenticationChallengeResponse \<Rightarrow> bool" where
  "RequestAuthenticationChallengeResponse_ok m \<longleftrightarrow> True"

interpretation RequestAuthenticationChallengeResponse_msg: extensible_message RequestAuthenticationChallengeResponse_to_frame RequestAuthenticationChallengeResponse_from_frame RequestAuthenticationChallengeResponse_MSG_ID RequestAuthenticationChallengeResponse_ok "[0]"
  by unfold_locales (auto simp: RequestAuthenticationChallengeResponse_to_frame_def RequestAuthenticationChallengeResponse_from_frame_def RequestAuthenticationChallengeResponse_ok_def csm_field_simps)

definition AuthenticationResponse_MSG_ID :: u16 where "AuthenticationResponse_MSG_ID = 0xAA03"

record AuthenticationResponse =
  ar_response :: bytes

definition AuthenticationResponse_to_frame :: "AuthenticationResponse \<Rightarrow> CsmFrame" where
  "AuthenticationResponse_to_frame m = \<lparr>cf_msg_id = AuthenticationResponse_MSG_ID, cf_params =
      enc_bytes 0 (ar_response m)\<rparr>"

definition AuthenticationResponse_from_frame :: "CsmFrame \<Rightarrow> CsmDecodeError + AuthenticationResponse" where
  "AuthenticationResponse_from_frame frame =
    (if cf_msg_id frame \<noteq> AuthenticationResponse_MSG_ID then Inl (WrongMsgId (cf_msg_id frame) AuthenticationResponse_MSG_ID) else
     res_bind (dec_bytes 0 (cf_params frame)) (\<lambda>(response, ps).
     Inr \<lparr>ar_response = response\<rparr>))"

definition AuthenticationResponse_ok :: "AuthenticationResponse \<Rightarrow> bool" where
  "AuthenticationResponse_ok m \<longleftrightarrow> True"

interpretation AuthenticationResponse_msg: extensible_message AuthenticationResponse_to_frame AuthenticationResponse_from_frame AuthenticationResponse_MSG_ID AuthenticationResponse_ok "[0]"
  by unfold_locales (auto simp: AuthenticationResponse_to_frame_def AuthenticationResponse_from_frame_def AuthenticationResponse_ok_def csm_field_simps)

definition AuthenticationFailed_MSG_ID :: u16 where "AuthenticationFailed_MSG_ID = 0xAA04"

definition AuthenticationFailed_to_frame :: "unit \<Rightarrow> CsmFrame" where
  "AuthenticationFailed_to_frame m = \<lparr>cf_msg_id = AuthenticationFailed_MSG_ID, cf_params =
      []\<rparr>"

definition AuthenticationFailed_from_frame :: "CsmFrame \<Rightarrow> CsmDecodeError + unit" where
  "AuthenticationFailed_from_frame frame =
    (if cf_msg_id frame \<noteq> AuthenticationFailed_MSG_ID then Inl (WrongMsgId (cf_msg_id frame) AuthenticationFailed_MSG_ID) else
     Inr ())"

definition AuthenticationFailed_ok :: "unit \<Rightarrow> bool" where
  "AuthenticationFailed_ok m \<longleftrightarrow> True"

interpretation AuthenticationFailed_msg: extensible_message AuthenticationFailed_to_frame AuthenticationFailed_from_frame AuthenticationFailed_MSG_ID AuthenticationFailed_ok "[]"
  by unfold_locales (auto simp: AuthenticationFailed_to_frame_def AuthenticationFailed_from_frame_def AuthenticationFailed_ok_def csm_field_simps)

definition AuthenticationSucceeded_MSG_ID :: u16 where "AuthenticationSucceeded_MSG_ID = 0xAA05"

definition AuthenticationSucceeded_to_frame :: "unit \<Rightarrow> CsmFrame" where
  "AuthenticationSucceeded_to_frame m = \<lparr>cf_msg_id = AuthenticationSucceeded_MSG_ID, cf_params =
      []\<rparr>"

definition AuthenticationSucceeded_from_frame :: "CsmFrame \<Rightarrow> CsmDecodeError + unit" where
  "AuthenticationSucceeded_from_frame frame =
    (if cf_msg_id frame \<noteq> AuthenticationSucceeded_MSG_ID then Inl (WrongMsgId (cf_msg_id frame) AuthenticationSucceeded_MSG_ID) else
     Inr ())"

definition AuthenticationSucceeded_ok :: "unit \<Rightarrow> bool" where
  "AuthenticationSucceeded_ok m \<longleftrightarrow> True"

interpretation AuthenticationSucceeded_msg: extensible_message AuthenticationSucceeded_to_frame AuthenticationSucceeded_from_frame AuthenticationSucceeded_MSG_ID AuthenticationSucceeded_ok "[]"
  by unfold_locales (auto simp: AuthenticationSucceeded_to_frame_def AuthenticationSucceeded_from_frame_def AuthenticationSucceeded_ok_def csm_field_simps)

definition auth_SENT_BY_ACCESSORY :: "u16 list" where "auth_SENT_BY_ACCESSORY = []"
definition auth_RECEIVED_BY_ACCESSORY :: "u16 list" where "auth_RECEIVED_BY_ACCESSORY = []"

section \<open>HID\<close>

text \<open>The messages of \<open>csm/hid.rs\<close>.\<close>

definition StartHID_MSG_ID :: u16 where "StartHID_MSG_ID = 0x6800"

record StartHID =
  shid_component_id :: u16
  shid_vendor_id :: u16
  shid_product_id :: u16
  shid_descriptor :: bytes

definition StartHID_to_frame :: "StartHID \<Rightarrow> CsmFrame" where
  "StartHID_to_frame m = \<lparr>cf_msg_id = StartHID_MSG_ID, cf_params =
      enc_u16 0 (shid_component_id m) @
      enc_u16 1 (shid_vendor_id m) @
      enc_u16 2 (shid_product_id m) @
      enc_bytes 4 (shid_descriptor m)\<rparr>"

definition StartHID_from_frame :: "CsmFrame \<Rightarrow> CsmDecodeError + StartHID" where
  "StartHID_from_frame frame =
    (if cf_msg_id frame \<noteq> StartHID_MSG_ID then Inl (WrongMsgId (cf_msg_id frame) StartHID_MSG_ID) else
     res_bind (dec_u16 0 (cf_params frame)) (\<lambda>(component_id, ps).
     res_bind (dec_u16 1 ps) (\<lambda>(vendor_id, ps).
     res_bind (dec_u16 2 ps) (\<lambda>(product_id, ps).
     res_bind (dec_bytes 4 ps) (\<lambda>(descriptor, ps).
     Inr \<lparr>shid_component_id = component_id, shid_vendor_id = vendor_id, shid_product_id = product_id, shid_descriptor = descriptor\<rparr>)))))"

definition StartHID_ok :: "StartHID \<Rightarrow> bool" where
  "StartHID_ok m \<longleftrightarrow> True"

interpretation StartHID_msg: extensible_message StartHID_to_frame StartHID_from_frame StartHID_MSG_ID StartHID_ok "[0, 1, 2, 4]"
  by unfold_locales (auto simp: StartHID_to_frame_def StartHID_from_frame_def StartHID_ok_def csm_field_simps)

definition AccessoryHIDReport_MSG_ID :: u16 where "AccessoryHIDReport_MSG_ID = 0x6802"

record AccessoryHIDReport =
  ahidr_component_id :: u16
  ahidr_report :: bytes

definition AccessoryHIDReport_to_frame :: "AccessoryHIDReport \<Rightarrow> CsmFrame" where
  "AccessoryHIDReport_to_frame m = \<lparr>cf_msg_id = AccessoryHIDReport_MSG_ID, cf_params =
      enc_u16 0 (ahidr_component_id m) @
      enc_bytes 1 (ahidr_report m)\<rparr>"

definition AccessoryHIDReport_from_frame :: "CsmFrame \<Rightarrow> CsmDecodeError + AccessoryHIDReport" where
  "AccessoryHIDReport_from_frame frame =
    (if cf_msg_id frame \<noteq> AccessoryHIDReport_MSG_ID then Inl (WrongMsgId (cf_msg_id frame) AccessoryHIDReport_MSG_ID) else
     res_bind (dec_u16 0 (cf_params frame)) (\<lambda>(component_id, ps).
     res_bind (dec_bytes 1 ps) (\<lambda>(report, ps).
     Inr \<lparr>ahidr_component_id = component_id, ahidr_report = report\<rparr>)))"

definition AccessoryHIDReport_ok :: "AccessoryHIDReport \<Rightarrow> bool" where
  "AccessoryHIDReport_ok m \<longleftrightarrow> True"

interpretation AccessoryHIDReport_msg: extensible_message AccessoryHIDReport_to_frame AccessoryHIDReport_from_frame AccessoryHIDReport_MSG_ID AccessoryHIDReport_ok "[0, 1]"
  by unfold_locales (auto simp: AccessoryHIDReport_to_frame_def AccessoryHIDReport_from_frame_def AccessoryHIDReport_ok_def csm_field_simps)

definition StopHID_MSG_ID :: u16 where "StopHID_MSG_ID = 0x6803"

record StopHID =
  shidx_component_id :: u16

definition StopHID_to_frame :: "StopHID \<Rightarrow> CsmFrame" where
  "StopHID_to_frame m = \<lparr>cf_msg_id = StopHID_MSG_ID, cf_params =
      enc_u16 0 (shidx_component_id m)\<rparr>"

definition StopHID_from_frame :: "CsmFrame \<Rightarrow> CsmDecodeError + StopHID" where
  "StopHID_from_frame frame =
    (if cf_msg_id frame \<noteq> StopHID_MSG_ID then Inl (WrongMsgId (cf_msg_id frame) StopHID_MSG_ID) else
     res_bind (dec_u16 0 (cf_params frame)) (\<lambda>(component_id, ps).
     Inr \<lparr>shidx_component_id = component_id\<rparr>))"

definition StopHID_ok :: "StopHID \<Rightarrow> bool" where
  "StopHID_ok m \<longleftrightarrow> True"

interpretation StopHID_msg: extensible_message StopHID_to_frame StopHID_from_frame StopHID_MSG_ID StopHID_ok "[0]"
  by unfold_locales (auto simp: StopHID_to_frame_def StopHID_from_frame_def StopHID_ok_def csm_field_simps)

definition DeviceHIDReport_MSG_ID :: u16 where "DeviceHIDReport_MSG_ID = 0x6801"

record DeviceHIDReport =
  dhidr_component_id :: u16
  dhidr_report :: bytes

definition DeviceHIDReport_to_frame :: "DeviceHIDReport \<Rightarrow> CsmFrame" where
  "DeviceHIDReport_to_frame m = \<lparr>cf_msg_id = DeviceHIDReport_MSG_ID, cf_params =
      enc_u16 0 (dhidr_component_id m) @
      enc_bytes 1 (dhidr_report m)\<rparr>"

definition DeviceHIDReport_from_frame :: "CsmFrame \<Rightarrow> CsmDecodeError + DeviceHIDReport" where
  "DeviceHIDReport_from_frame frame =
    (if cf_msg_id frame \<noteq> DeviceHIDReport_MSG_ID then Inl (WrongMsgId (cf_msg_id frame) DeviceHIDReport_MSG_ID) else
     res_bind (dec_u16 0 (cf_params frame)) (\<lambda>(component_id, ps).
     res_bind (dec_bytes 1 ps) (\<lambda>(report, ps).
     Inr \<lparr>dhidr_component_id = component_id, dhidr_report = report\<rparr>)))"

definition DeviceHIDReport_ok :: "DeviceHIDReport \<Rightarrow> bool" where
  "DeviceHIDReport_ok m \<longleftrightarrow> True"

interpretation DeviceHIDReport_msg: extensible_message DeviceHIDReport_to_frame DeviceHIDReport_from_frame DeviceHIDReport_MSG_ID DeviceHIDReport_ok "[0, 1]"
  by unfold_locales (auto simp: DeviceHIDReport_to_frame_def DeviceHIDReport_from_frame_def DeviceHIDReport_ok_def csm_field_simps)

definition StartNativeHID_MSG_ID :: u16 where "StartNativeHID_MSG_ID = 0x6806"

definition StartNativeHID_to_frame :: "unit \<Rightarrow> CsmFrame" where
  "StartNativeHID_to_frame m = \<lparr>cf_msg_id = StartNativeHID_MSG_ID, cf_params =
      []\<rparr>"

definition StartNativeHID_from_frame :: "CsmFrame \<Rightarrow> CsmDecodeError + unit" where
  "StartNativeHID_from_frame frame =
    (if cf_msg_id frame \<noteq> StartNativeHID_MSG_ID then Inl (WrongMsgId (cf_msg_id frame) StartNativeHID_MSG_ID) else
     Inr ())"

definition StartNativeHID_ok :: "unit \<Rightarrow> bool" where
  "StartNativeHID_ok m \<longleftrightarrow> True"

interpretation StartNativeHID_msg: extensible_message StartNativeHID_to_frame StartNativeHID_from_frame StartNativeHID_MSG_ID StartNativeHID_ok "[]"
  by unfold_locales (auto simp: StartNativeHID_to_frame_def StartNativeHID_from_frame_def StartNativeHID_ok_def csm_field_simps)

definition HIDComponentUpdate_MSG_ID :: u16 where "HIDComponentUpdate_MSG_ID = 0x6807"

record HIDComponentUpdate =
  hidcu_component_id :: u16
  hidcu_component_enabled :: bool

definition HIDComponentUpdate_to_frame :: "HIDComponentUpdate \<Rightarrow> CsmFrame" where
  "HIDComponentUpdate_to_frame m = \<lparr>cf_msg_id = HIDComponentUpdate_MSG_ID, cf_params =
      enc_u16 0 (hidcu_component_id m) @
      enc_bool 1 (hidcu_component_enabled m)\<rparr>"

definition HIDComponentUpdate_from_frame :: "CsmFrame \<Rightarrow> CsmDecodeError + HIDComponentUpdate" where
  "HIDComponentUpdate_from_frame frame =
    (if cf_msg_id frame \<noteq> HIDComponentUpdate_MSG_ID then Inl (WrongMsgId (cf_msg_id frame) HIDComponentUpdate_MSG_ID) else
     res_bind (dec_u16 0 (cf_params frame)) (\<lambda>(component_id, ps).
     res_bind (dec_bool 1 ps) (\<lambda>(component_enabled, ps).
     Inr \<lparr>hidcu_component_id = component_id, hidcu_component_enabled = component_enabled\<rparr>)))"

definition HIDComponentUpdate_ok :: "HIDComponentUpdate \<Rightarrow> bool" where
  "HIDComponentUpdate_ok m \<longleftrightarrow> True"

interpretation HIDComponentUpdate_msg: extensible_message HIDComponentUpdate_to_frame HIDComponentUpdate_from_frame HIDComponentUpdate_MSG_ID HIDComponentUpdate_ok "[0, 1]"
  by unfold_locales (auto simp: HIDComponentUpdate_to_frame_def HIDComponentUpdate_from_frame_def HIDComponentUpdate_ok_def csm_field_simps)

definition TRANSPORT_COMPONENT_ID :: u16 where "TRANSPORT_COMPONENT_ID = 5353"
definition VENDOR_ID :: u16 where "VENDOR_ID = 0x1D6B"
definition PRODUCT_ID :: u16 where "PRODUCT_ID = 0xB31D"

definition TRANSPORT_DESCRIPTOR :: bytes where
  "TRANSPORT_DESCRIPTOR =
    [0x05, 0x0C, 0x09, 0x01, 0xA1, 0x01, 0x15, 0x00, 0x25, 0x01, 0x75, 0x01, 0x95, 0x06, 0x09, 0xCD,
     0x09, 0xB5, 0x09, 0xB6, 0x09, 0xE9, 0x09, 0xEA, 0x09, 0xE2, 0x81, 0x02, 0x75, 0x02, 0x95, 0x01,
     0x81, 0x03, 0xC0]"

text \<open>The constants of \<open>report_bit\<close>.\<close>

definition bit_PLAY_PAUSE :: u8 where "bit_PLAY_PAUSE = 0x01"
definition bit_NEXT :: u8 where "bit_NEXT = 0x02"
definition bit_PREV :: u8 where "bit_PREV = 0x04"
definition bit_VOLUME_UP :: u8 where "bit_VOLUME_UP = 0x08"
definition bit_VOLUME_DOWN :: u8 where "bit_VOLUME_DOWN = 0x10"
definition bit_MUTE :: u8 where "bit_MUTE = 0x20"
definition bit_SHUFFLE :: u8 where "bit_SHUFFLE = 0x40"
definition bit_REPEAT :: u8 where "bit_REPEAT = 0x80"

definition transport_report :: "u8 \<Rightarrow> AccessoryHIDReport" where
  "transport_report bits = \<lparr>ahidr_component_id = TRANSPORT_COMPONENT_ID, ahidr_report = [bits]\<rparr>"

definition hid_SENT_BY_ACCESSORY :: "u16 list" where
  "hid_SENT_BY_ACCESSORY = [StartHID_MSG_ID, AccessoryHIDReport_MSG_ID, StopHID_MSG_ID]"

definition hid_RECEIVED_BY_ACCESSORY :: "u16 list" where
  "hid_RECEIVED_BY_ACCESSORY = [DeviceHIDReport_MSG_ID, StartNativeHID_MSG_ID, HIDComponentUpdate_MSG_ID]"

section \<open>Device notifications\<close>

text \<open>The messages of \<open>csm/device.rs\<close>; signed integers are their two's complement words.\<close>

definition DeviceInformationUpdate_MSG_ID :: u16 where "DeviceInformationUpdate_MSG_ID = 0x4E09"

record DeviceInformationUpdate =
  diu_device_name :: bytes

definition DeviceInformationUpdate_to_frame :: "DeviceInformationUpdate \<Rightarrow> CsmFrame" where
  "DeviceInformationUpdate_to_frame m = \<lparr>cf_msg_id = DeviceInformationUpdate_MSG_ID, cf_params =
      enc_string 0 (diu_device_name m)\<rparr>"

definition DeviceInformationUpdate_from_frame :: "CsmFrame \<Rightarrow> CsmDecodeError + DeviceInformationUpdate" where
  "DeviceInformationUpdate_from_frame frame =
    (if cf_msg_id frame \<noteq> DeviceInformationUpdate_MSG_ID then Inl (WrongMsgId (cf_msg_id frame) DeviceInformationUpdate_MSG_ID) else
     res_bind (dec_string 0 (cf_params frame)) (\<lambda>(device_name, ps).
     Inr \<lparr>diu_device_name = device_name\<rparr>))"

definition DeviceInformationUpdate_ok :: "DeviceInformationUpdate \<Rightarrow> bool" where
  "DeviceInformationUpdate_ok m \<longleftrightarrow> utf8_valid (diu_device_name m)"

interpretation DeviceInformationUpdate_msg: extensible_message DeviceInformationUpdate_to_frame DeviceInformationUpdate_from_frame DeviceInformationUpdate_MSG_ID DeviceInformationUpdate_ok "[0]"
  by unfold_locales (auto simp: DeviceInformationUpdate_to_frame_def DeviceInformationUpdate_from_frame_def DeviceInformationUpdate_ok_def csm_field_simps)

definition DeviceLanguageUpdate_MSG_ID :: u16 where "DeviceLanguageUpdate_MSG_ID = 0x4E0A"

record DeviceLanguageUpdate =
  dlu_language :: bytes

definition DeviceLanguageUpdate_to_frame :: "DeviceLanguageUpdate \<Rightarrow> CsmFrame" where
  "DeviceLanguageUpdate_to_frame m = \<lparr>cf_msg_id = DeviceLanguageUpdate_MSG_ID, cf_params =
      enc_string 0 (dlu_language m)\<rparr>"

definition DeviceLanguageUpdate_from_frame :: "CsmFrame \<Rightarrow> CsmDecodeError + DeviceLanguageUpdate" where
  "DeviceLanguageUpdate_from_frame frame =
    (if cf_msg_id frame \<noteq> DeviceLanguageUpdate_MSG_ID then Inl (WrongMsgId (cf_msg_id frame) DeviceLanguageUpdate_MSG_ID) else
     res_bind (dec_string 0 (cf_params frame)) (\<lambda>(language, ps).
     Inr \<lparr>dlu_language = language\<rparr>))"

definition DeviceLanguageUpdate_ok :: "DeviceLanguageUpdate \<Rightarrow> bool" where
  "DeviceLanguageUpdate_ok m \<longleftrightarrow> utf8_valid (dlu_language m)"

interpretation DeviceLanguageUpdate_msg: extensible_message DeviceLanguageUpdate_to_frame DeviceLanguageUpdate_from_frame DeviceLanguageUpdate_MSG_ID DeviceLanguageUpdate_ok "[0]"
  by unfold_locales (auto simp: DeviceLanguageUpdate_to_frame_def DeviceLanguageUpdate_from_frame_def DeviceLanguageUpdate_ok_def csm_field_simps)

definition DeviceTimeUpdate_MSG_ID :: u16 where "DeviceTimeUpdate_MSG_ID = 0x4E0B"

record DeviceTimeUpdate =
  dtu_seconds_since_reference_date :: u64
  dtu_tz_offset_minutes :: u16
  dtu_dst_offset_minutes :: u8

definition DeviceTimeUpdate_to_frame :: "DeviceTimeUpdate \<Rightarrow> CsmFrame" where
  "DeviceTimeUpdate_to_frame m = \<lparr>cf_msg_id = DeviceTimeUpdate_MSG_ID, cf_params =
      enc_u64 0 (dtu_seconds_since_reference_date m) @
      enc_u16 1 (dtu_tz_offset_minutes m) @
      enc_u8 2 (dtu_dst_offset_minutes m)\<rparr>"

definition DeviceTimeUpdate_from_frame :: "CsmFrame \<Rightarrow> CsmDecodeError + DeviceTimeUpdate" where
  "DeviceTimeUpdate_from_frame frame =
    (if cf_msg_id frame \<noteq> DeviceTimeUpdate_MSG_ID then Inl (WrongMsgId (cf_msg_id frame) DeviceTimeUpdate_MSG_ID) else
     res_bind (dec_u64 0 (cf_params frame)) (\<lambda>(seconds_since_reference_date, ps).
     res_bind (dec_u16 1 ps) (\<lambda>(tz_offset_minutes, ps).
     res_bind (dec_u8 2 ps) (\<lambda>(dst_offset_minutes, ps).
     Inr \<lparr>dtu_seconds_since_reference_date = seconds_since_reference_date, dtu_tz_offset_minutes = tz_offset_minutes, dtu_dst_offset_minutes = dst_offset_minutes\<rparr>))))"

definition DeviceTimeUpdate_ok :: "DeviceTimeUpdate \<Rightarrow> bool" where
  "DeviceTimeUpdate_ok m \<longleftrightarrow> True"

interpretation DeviceTimeUpdate_msg: extensible_message DeviceTimeUpdate_to_frame DeviceTimeUpdate_from_frame DeviceTimeUpdate_MSG_ID DeviceTimeUpdate_ok "[0, 1, 2]"
  by unfold_locales (auto simp: DeviceTimeUpdate_to_frame_def DeviceTimeUpdate_from_frame_def DeviceTimeUpdate_ok_def csm_field_simps)

definition DeviceUUIDUpdate_MSG_ID :: u16 where "DeviceUUIDUpdate_MSG_ID = 0x4E0C"

record DeviceUUIDUpdate =
  duuidu_uuid :: bytes

definition DeviceUUIDUpdate_to_frame :: "DeviceUUIDUpdate \<Rightarrow> CsmFrame" where
  "DeviceUUIDUpdate_to_frame m = \<lparr>cf_msg_id = DeviceUUIDUpdate_MSG_ID, cf_params =
      enc_string 0 (duuidu_uuid m)\<rparr>"

definition DeviceUUIDUpdate_from_frame :: "CsmFrame \<Rightarrow> CsmDecodeError + DeviceUUIDUpdate" where
  "DeviceUUIDUpdate_from_frame frame =
    (if cf_msg_id frame \<noteq> DeviceUUIDUpdate_MSG_ID then Inl (WrongMsgId (cf_msg_id frame) DeviceUUIDUpdate_MSG_ID) else
     res_bind (dec_string 0 (cf_params frame)) (\<lambda>(uuid, ps).
     Inr \<lparr>duuidu_uuid = uuid\<rparr>))"

definition DeviceUUIDUpdate_ok :: "DeviceUUIDUpdate \<Rightarrow> bool" where
  "DeviceUUIDUpdate_ok m \<longleftrightarrow> utf8_valid (duuidu_uuid m)"

interpretation DeviceUUIDUpdate_msg: extensible_message DeviceUUIDUpdate_to_frame DeviceUUIDUpdate_from_frame DeviceUUIDUpdate_MSG_ID DeviceUUIDUpdate_ok "[0]"
  by unfold_locales (auto simp: DeviceUUIDUpdate_to_frame_def DeviceUUIDUpdate_from_frame_def DeviceUUIDUpdate_ok_def csm_field_simps)

definition device_SENT_BY_ACCESSORY :: "u16 list" where "device_SENT_BY_ACCESSORY = []"

definition device_RECEIVED_BY_ACCESSORY :: "u16 list" where
  "device_RECEIVED_BY_ACCESSORY =
    [DeviceInformationUpdate_MSG_ID, DeviceLanguageUpdate_MSG_ID, DeviceTimeUpdate_MSG_ID, DeviceUUIDUpdate_MSG_ID]"

section \<open>External accessory sessions\<close>

text \<open>The derived messages of \<open>csm/external_accessory.rs\<close>.\<close>

definition StartExternalAccessoryProtocolSession_MSG_ID :: u16 where "StartExternalAccessoryProtocolSession_MSG_ID = 0xEA00"

record StartExternalAccessoryProtocolSession =
  seaps_protocol_id :: u8
  seaps_session_id :: u16

definition StartExternalAccessoryProtocolSession_to_frame :: "StartExternalAccessoryProtocolSession \<Rightarrow> CsmFrame" where
  "StartExternalAccessoryProtocolSession_to_frame m = \<lparr>cf_msg_id = StartExternalAccessoryProtocolSession_MSG_ID, cf_params =
      enc_u8 0 (seaps_protocol_id m) @
      enc_u16 1 (seaps_session_id m)\<rparr>"

definition StartExternalAccessoryProtocolSession_from_frame :: "CsmFrame \<Rightarrow> CsmDecodeError + StartExternalAccessoryProtocolSession" where
  "StartExternalAccessoryProtocolSession_from_frame frame =
    (if cf_msg_id frame \<noteq> StartExternalAccessoryProtocolSession_MSG_ID then Inl (WrongMsgId (cf_msg_id frame) StartExternalAccessoryProtocolSession_MSG_ID) else
     res_bind (dec_u8 0 (cf_params frame)) (\<lambda>(protocol_id, ps).
     res_bind (dec_u16 1 ps) (\<lambda>(session_id, ps).
     Inr \<lparr>seaps_protocol_id = protocol_id, seaps_session_id = session_id\<rparr>)))"

definition StartExternalAccessoryProtocolSession_ok :: "StartExternalAccessoryProtocolSession \<Rightarrow> bool" where
  "StartExternalAccessoryProtocolSession_ok m \<longleftrightarrow> True"

interpretation StartExternalAccessoryProtocolSession_msg: extensible_message StartExternalAccessoryProtocolSession_to_frame StartExternalAccessoryProtocolSession_from_frame StartExternalAccessoryProtocolSession_MSG_ID StartExternalAccessoryProtocolSession_ok "[0, 1]"
  by unfold_locales (auto simp: StartExternalAccessoryProtocolSession_to_frame_def StartExternalAccessoryProtocolSession_from_frame_def StartExternalAccessoryProtocolSession_ok_def csm_field_simps)

definition StopExternalAccessoryProtocolSession_MSG_ID :: u16 where "StopExternalAccessoryProtocolSession_MSG_ID = 0xEA01"

record StopExternalAccessoryProtocolSession =
  seapsx_session_id :: u16

definition StopExternalAccessoryProtocolSession_to_frame :: "StopExternalAccessoryProtocolSession \<Rightarrow> CsmFrame" where
  "StopExternalAccessoryProtocolSession_to_frame m = \<lparr>cf_msg_id = StopExternalAccessoryProtocolSession_MSG_ID, cf_params =
      enc_u16 0 (seapsx_session_id m)\<rparr>"

definition StopExternalAccessoryProtocolSession_from_frame :: "CsmFrame \<Rightarrow> CsmDecodeError + StopExternalAccessoryProtocolSession" where
  "StopExternalAccessoryProtocolSession_from_frame frame =
    (if cf_msg_id frame \<noteq> StopExternalAccessoryProtocolSession_MSG_ID then Inl (WrongMsgId (cf_msg_id frame) StopExternalAccessoryProtocolSession_MSG_ID) else
     res_bind (dec_u16 0 (cf_params frame)) (\<lambda>(session_id, ps).
     Inr \<lparr>seapsx_session_id = session_id\<rparr>))"

definition StopExternalAccessoryProtocolSession_ok :: "StopExternalAccessoryProtocolSession \<Rightarrow> bool" where
  "StopExternalAccessoryProtocolSession_ok m \<longleftrightarrow> True"

interpretation StopExternalAccessoryProtocolSession_msg: extensible_message StopExternalAccessoryProtocolSession_to_frame StopExternalAccessoryProtocolSession_from_frame StopExternalAccessoryProtocolSession_MSG_ID StopExternalAccessoryProtocolSession_ok "[0]"
  by unfold_locales (auto simp: StopExternalAccessoryProtocolSession_to_frame_def StopExternalAccessoryProtocolSession_from_frame_def StopExternalAccessoryProtocolSession_ok_def csm_field_simps)

datatype AppLaunchMethod = WithUserAlert | WithoutUserAlert

fun AppLaunchMethod_as_u8 :: "AppLaunchMethod \<Rightarrow> u8" where
  "AppLaunchMethod_as_u8 WithUserAlert = 0"
| "AppLaunchMethod_as_u8 WithoutUserAlert = 1"

definition AppLaunchMethod_from_u8 :: "u8 \<Rightarrow> AppLaunchMethod option" where
  "AppLaunchMethod_from_u8 byte =
    (if byte = 0 then Some WithUserAlert else if byte = 1 then Some WithoutUserAlert else None)"

definition RequestAppLaunch_MSG_ID :: u16 where "RequestAppLaunch_MSG_ID = 0xEA02"

record RequestAppLaunch =
  ral_bundle_id :: bytes
  ral_launch_method :: AppLaunchMethod

definition RequestAppLaunch_to_frame :: "RequestAppLaunch \<Rightarrow> CsmFrame" where
  "RequestAppLaunch_to_frame m = \<lparr>cf_msg_id = RequestAppLaunch_MSG_ID, cf_params =
      enc_string 0 (ral_bundle_id m) @ enc_u8 1 (AppLaunchMethod_as_u8 (ral_launch_method m))\<rparr>"

definition RequestAppLaunch_from_frame :: "CsmFrame \<Rightarrow> CsmDecodeError + RequestAppLaunch" where
  "RequestAppLaunch_from_frame frame =
    (if cf_msg_id frame \<noteq> RequestAppLaunch_MSG_ID then Inl (WrongMsgId (cf_msg_id frame) RequestAppLaunch_MSG_ID) else
     res_bind (dec_string 0 (cf_params frame)) (\<lambda>(bundle_id, ps).
     res_bind (dec_u8 1 ps) (\<lambda>(method_byte, ps).
     case AppLaunchMethod_from_u8 method_byte of
       None \<Rightarrow> Inl (ParamDecode 1 ''AppLaunchMethod must be 0 (WithUserAlert) or 1 (WithoutUserAlert)'')
     | Some launch_method \<Rightarrow> Inr \<lparr>ral_bundle_id = bundle_id, ral_launch_method = launch_method\<rparr>)))"

definition RequestAppLaunch_ok :: "RequestAppLaunch \<Rightarrow> bool" where
  "RequestAppLaunch_ok m \<longleftrightarrow> utf8_valid (ral_bundle_id m)"

lemma AppLaunchMethod_from_as [simp]: "AppLaunchMethod_from_u8 (AppLaunchMethod_as_u8 m) = Some m"
  by (cases m) (simp_all add: AppLaunchMethod_from_u8_def)

interpretation RequestAppLaunch_msg: extensible_message RequestAppLaunch_to_frame RequestAppLaunch_from_frame RequestAppLaunch_MSG_ID RequestAppLaunch_ok "[0, 1]"
  by unfold_locales (auto simp: RequestAppLaunch_to_frame_def RequestAppLaunch_from_frame_def RequestAppLaunch_ok_def csm_field_simps)

datatype EaSessionStatus = EaOk | EaClose

fun EaSessionStatus_as_u8 :: "EaSessionStatus \<Rightarrow> u8" where
  "EaSessionStatus_as_u8 EaOk = 0"
| "EaSessionStatus_as_u8 EaClose = 1"

definition EaSessionStatus_from_u8 :: "u8 \<Rightarrow> EaSessionStatus option" where
  "EaSessionStatus_from_u8 byte =
    (if byte = 0 then Some EaOk else if byte = 1 then Some EaClose else None)"

definition StatusExternalAccessoryProtocolSession_MSG_ID :: u16 where
  "StatusExternalAccessoryProtocolSession_MSG_ID = 0xEA03"

record StatusExternalAccessoryProtocolSession =
  stea_session_id :: u16
  stea_status :: EaSessionStatus

definition StatusExternalAccessoryProtocolSession_to_frame :: "StatusExternalAccessoryProtocolSession \<Rightarrow> CsmFrame" where
  "StatusExternalAccessoryProtocolSession_to_frame m =
    \<lparr>cf_msg_id = StatusExternalAccessoryProtocolSession_MSG_ID,
     cf_params = [param 0 (be16 (stea_session_id m)), param 1 [EaSessionStatus_as_u8 (stea_status m)]]\<rparr>"

text \<open>Unlike the derived conversions this one reads the first parameter of each number and lets others
  stand.\<close>

definition StatusExternalAccessoryProtocolSession_from_frame ::
  "CsmFrame \<Rightarrow> CsmDecodeError + StatusExternalAccessoryProtocolSession" where
  "StatusExternalAccessoryProtocolSession_from_frame frame =
    (if cf_msg_id frame \<noteq> StatusExternalAccessoryProtocolSession_MSG_ID
     then Inl (WrongMsgId (cf_msg_id frame) StatusExternalAccessoryProtocolSession_MSG_ID)
     else case CsmFrame_find 0 frame of
       None \<Rightarrow> Inl (MissingParam 0)
     | Some session \<Rightarrow>
         (if length (cp_payload session) \<noteq> 2 then Inl (ParamLength 0 2 (length (cp_payload session)))
          else case CsmFrame_find 1 frame of
            None \<Rightarrow> Inl (MissingParam 1)
          | Some status \<Rightarrow>
              (if length (cp_payload status) \<noteq> 1 then Inl (ParamLength 1 1 (length (cp_payload status)))
               else case EaSessionStatus_from_u8 (cp_payload status ! 0) of
                 None \<Rightarrow> Inl (ParamDecode 1 ''EA session status must be 0 (Ok) or 1 (Close)'')
               | Some st \<Rightarrow> Inr \<lparr>stea_session_id = get16 (cp_payload session), stea_status = st\<rparr>)))"

definition StatusExternalAccessoryProtocolSession_ok :: "StatusExternalAccessoryProtocolSession \<Rightarrow> bool" where
  "StatusExternalAccessoryProtocolSession_ok m \<longleftrightarrow> True"

lemma EaSessionStatus_from_as [simp]: "EaSessionStatus_from_u8 (EaSessionStatus_as_u8 m) = Some m"
  by (cases m) (simp_all add: EaSessionStatus_from_u8_def)

lemma find_behind: "no_param i pre \<Longrightarrow> find (\<lambda>p. cp_id p = i) (pre @ ps) = find (\<lambda>p. cp_id p = i) ps"
  by (induction pre) auto

interpretation StatusExternalAccessoryProtocolSession_msg: extensible_message StatusExternalAccessoryProtocolSession_to_frame StatusExternalAccessoryProtocolSession_from_frame StatusExternalAccessoryProtocolSession_MSG_ID StatusExternalAccessoryProtocolSession_ok "[0, 1]"
  by unfold_locales (auto simp: StatusExternalAccessoryProtocolSession_to_frame_def
    StatusExternalAccessoryProtocolSession_from_frame_def CsmFrame_find_def find_behind)

definition ea_SENT_BY_ACCESSORY :: "u16 list" where
  "ea_SENT_BY_ACCESSORY = [RequestAppLaunch_MSG_ID, StatusExternalAccessoryProtocolSession_MSG_ID]"

definition ea_RECEIVED_BY_ACCESSORY :: "u16 list" where
  "ea_RECEIVED_BY_ACCESSORY =
    [StartExternalAccessoryProtocolSession_MSG_ID, StopExternalAccessoryProtocolSession_MSG_ID]"

section \<open>Telephony\<close>

text \<open>The derived messages of \<open>csm/telephony.rs\<close>.\<close>

definition StopCallStateUpdates_MSG_ID :: u16 where "StopCallStateUpdates_MSG_ID = 0x4156"

definition StopCallStateUpdates_to_frame :: "unit \<Rightarrow> CsmFrame" where
  "StopCallStateUpdates_to_frame m = \<lparr>cf_msg_id = StopCallStateUpdates_MSG_ID, cf_params =
      []\<rparr>"

definition StopCallStateUpdates_from_frame :: "CsmFrame \<Rightarrow> CsmDecodeError + unit" where
  "StopCallStateUpdates_from_frame frame =
    (if cf_msg_id frame \<noteq> StopCallStateUpdates_MSG_ID then Inl (WrongMsgId (cf_msg_id frame) StopCallStateUpdates_MSG_ID) else
     Inr ())"

definition StopCallStateUpdates_ok :: "unit \<Rightarrow> bool" where
  "StopCallStateUpdates_ok m \<longleftrightarrow> True"

interpretation StopCallStateUpdates_msg: extensible_message StopCallStateUpdates_to_frame StopCallStateUpdates_from_frame StopCallStateUpdates_MSG_ID StopCallStateUpdates_ok "[]"
  by unfold_locales (auto simp: StopCallStateUpdates_to_frame_def StopCallStateUpdates_from_frame_def StopCallStateUpdates_ok_def csm_field_simps)

definition StopCommunicationsUpdates_MSG_ID :: u16 where "StopCommunicationsUpdates_MSG_ID = 0x4159"

definition StopCommunicationsUpdates_to_frame :: "unit \<Rightarrow> CsmFrame" where
  "StopCommunicationsUpdates_to_frame m = \<lparr>cf_msg_id = StopCommunicationsUpdates_MSG_ID, cf_params =
      []\<rparr>"

definition StopCommunicationsUpdates_from_frame :: "CsmFrame \<Rightarrow> CsmDecodeError + unit" where
  "StopCommunicationsUpdates_from_frame frame =
    (if cf_msg_id frame \<noteq> StopCommunicationsUpdates_MSG_ID then Inl (WrongMsgId (cf_msg_id frame) StopCommunicationsUpdates_MSG_ID) else
     Inr ())"

definition StopCommunicationsUpdates_ok :: "unit \<Rightarrow> bool" where
  "StopCommunicationsUpdates_ok m \<longleftrightarrow> True"

interpretation StopCommunicationsUpdates_msg: extensible_message StopCommunicationsUpdates_to_frame StopCommunicationsUpdates_from_frame StopCommunicationsUpdates_MSG_ID StopCommunicationsUpdates_ok "[]"
  by unfold_locales (auto simp: StopCommunicationsUpdates_to_frame_def StopCommunicationsUpdates_from_frame_def StopCommunicationsUpdates_ok_def csm_field_simps)

definition CallStateUpdate_MSG_ID :: u16 where "CallStateUpdate_MSG_ID = 0x4155"

record CallStateUpdate =
  csu_remote_id :: "bytes option"
  csu_display_name :: "bytes option"
  csu_status :: "u8 option"
  csu_direction :: "u8 option"
  csu_call_uuid :: "bytes option"
  csu_address_book_id :: "bytes option"
  csu_label :: "bytes option"
  csu_service :: "u8 option"
  csu_is_conferenced :: "bool option"
  csu_conference_group :: "u8 option"
  csu_disconnect_reason :: "u8 option"
  csu_start_timestamp_unix_s :: "u64 option"

definition CallStateUpdate_to_frame :: "CallStateUpdate \<Rightarrow> CsmFrame" where
  "CallStateUpdate_to_frame m = \<lparr>cf_msg_id = CallStateUpdate_MSG_ID, cf_params =
      (enc_option enc_string) 0 (csu_remote_id m) @
      (enc_option enc_string) 1 (csu_display_name m) @
      (enc_option enc_u8) 2 (csu_status m) @
      (enc_option enc_u8) 3 (csu_direction m) @
      (enc_option enc_string) 4 (csu_call_uuid m) @
      (enc_option enc_string) 6 (csu_address_book_id m) @
      (enc_option enc_string) 7 (csu_label m) @
      (enc_option enc_u8) 8 (csu_service m) @
      (enc_option enc_bool) 9 (csu_is_conferenced m) @
      (enc_option enc_u8) 10 (csu_conference_group m) @
      (enc_option enc_u8) 11 (csu_disconnect_reason m) @
      (enc_option enc_u64) 12 (csu_start_timestamp_unix_s m)\<rparr>"

definition CallStateUpdate_from_frame :: "CsmFrame \<Rightarrow> CsmDecodeError + CallStateUpdate" where
  "CallStateUpdate_from_frame frame =
    (if cf_msg_id frame \<noteq> CallStateUpdate_MSG_ID then Inl (WrongMsgId (cf_msg_id frame) CallStateUpdate_MSG_ID) else
     res_bind (dec_option_string 0 (cf_params frame)) (\<lambda>(remote_id, ps).
     res_bind (dec_option_string 1 ps) (\<lambda>(display_name, ps).
     res_bind (dec_option_u8 2 ps) (\<lambda>(status, ps).
     res_bind (dec_option_u8 3 ps) (\<lambda>(direction, ps).
     res_bind (dec_option_string 4 ps) (\<lambda>(call_uuid, ps).
     res_bind (dec_option_string 6 ps) (\<lambda>(address_book_id, ps).
     res_bind (dec_option_string 7 ps) (\<lambda>(label, ps).
     res_bind (dec_option_u8 8 ps) (\<lambda>(service, ps).
     res_bind (dec_option_bool 9 ps) (\<lambda>(is_conferenced, ps).
     res_bind (dec_option_u8 10 ps) (\<lambda>(conference_group, ps).
     res_bind (dec_option_u8 11 ps) (\<lambda>(disconnect_reason, ps).
     res_bind (dec_option_u64 12 ps) (\<lambda>(start_timestamp_unix_s, ps).
     Inr \<lparr>csu_remote_id = remote_id, csu_display_name = display_name, csu_status = status, csu_direction = direction, csu_call_uuid = call_uuid, csu_address_book_id = address_book_id, csu_label = label, csu_service = service, csu_is_conferenced = is_conferenced, csu_conference_group = conference_group, csu_disconnect_reason = disconnect_reason, csu_start_timestamp_unix_s = start_timestamp_unix_s\<rparr>)))))))))))))"

definition CallStateUpdate_ok :: "CallStateUpdate \<Rightarrow> bool" where
  "CallStateUpdate_ok m \<longleftrightarrow> pred_option utf8_valid (csu_remote_id m) \<and> pred_option utf8_valid (csu_display_name m) \<and> pred_option utf8_valid (csu_call_uuid m) \<and> pred_option utf8_valid (csu_address_book_id m) \<and> pred_option utf8_valid (csu_label m)"

interpretation CallStateUpdate_msg: extensible_message CallStateUpdate_to_frame CallStateUpdate_from_frame CallStateUpdate_MSG_ID CallStateUpdate_ok "[0, 1, 2, 3, 4, 6, 7, 8, 9, 10, 11, 12]"
  by unfold_locales (auto simp: CallStateUpdate_to_frame_def CallStateUpdate_from_frame_def CallStateUpdate_ok_def csm_field_simps)

definition CommunicationsUpdate_MSG_ID :: u16 where "CommunicationsUpdate_MSG_ID = 0x4158"

record CommunicationsUpdate =
  cu_signal_strength :: "u8 option"
  cu_registration_status :: "u8 option"
  cu_airplane_mode :: "bool option"
  cu_carrier_name :: "bytes option"
  cu_cellular_supported :: "bool option"
  cu_telephony_enabled :: "bool option"
  cu_face_time_audio_enabled :: "bool option"
  cu_face_time_video_enabled :: "bool option"
  cu_mute_status :: "bool option"
  cu_current_call_count :: "u8 option"
  cu_new_voicemail_count :: "u8 option"
  cu_initiate_call_available :: "bool option"
  cu_end_and_accept_available :: "bool option"
  cu_hold_and_accept_available :: "bool option"
  cu_swap_available :: "bool option"
  cu_merge_available :: "bool option"
  cu_hold_available :: "bool option"

definition CommunicationsUpdate_to_frame :: "CommunicationsUpdate \<Rightarrow> CsmFrame" where
  "CommunicationsUpdate_to_frame m = \<lparr>cf_msg_id = CommunicationsUpdate_MSG_ID, cf_params =
      (enc_option enc_u8) 0 (cu_signal_strength m) @
      (enc_option enc_u8) 1 (cu_registration_status m) @
      (enc_option enc_bool) 2 (cu_airplane_mode m) @
      (enc_option enc_string) 4 (cu_carrier_name m) @
      (enc_option enc_bool) 5 (cu_cellular_supported m) @
      (enc_option enc_bool) 6 (cu_telephony_enabled m) @
      (enc_option enc_bool) 7 (cu_face_time_audio_enabled m) @
      (enc_option enc_bool) 8 (cu_face_time_video_enabled m) @
      (enc_option enc_bool) 9 (cu_mute_status m) @
      (enc_option enc_u8) 10 (cu_current_call_count m) @
      (enc_option enc_u8) 11 (cu_new_voicemail_count m) @
      (enc_option enc_bool) 12 (cu_initiate_call_available m) @
      (enc_option enc_bool) 13 (cu_end_and_accept_available m) @
      (enc_option enc_bool) 14 (cu_hold_and_accept_available m) @
      (enc_option enc_bool) 15 (cu_swap_available m) @
      (enc_option enc_bool) 16 (cu_merge_available m) @
      (enc_option enc_bool) 17 (cu_hold_available m)\<rparr>"

definition CommunicationsUpdate_from_frame :: "CsmFrame \<Rightarrow> CsmDecodeError + CommunicationsUpdate" where
  "CommunicationsUpdate_from_frame frame =
    (if cf_msg_id frame \<noteq> CommunicationsUpdate_MSG_ID then Inl (WrongMsgId (cf_msg_id frame) CommunicationsUpdate_MSG_ID) else
     res_bind (dec_option_u8 0 (cf_params frame)) (\<lambda>(signal_strength, ps).
     res_bind (dec_option_u8 1 ps) (\<lambda>(registration_status, ps).
     res_bind (dec_option_bool 2 ps) (\<lambda>(airplane_mode, ps).
     res_bind (dec_option_string 4 ps) (\<lambda>(carrier_name, ps).
     res_bind (dec_option_bool 5 ps) (\<lambda>(cellular_supported, ps).
     res_bind (dec_option_bool 6 ps) (\<lambda>(telephony_enabled, ps).
     res_bind (dec_option_bool 7 ps) (\<lambda>(face_time_audio_enabled, ps).
     res_bind (dec_option_bool 8 ps) (\<lambda>(face_time_video_enabled, ps).
     res_bind (dec_option_bool 9 ps) (\<lambda>(mute_status, ps).
     res_bind (dec_option_u8 10 ps) (\<lambda>(current_call_count, ps).
     res_bind (dec_option_u8 11 ps) (\<lambda>(new_voicemail_count, ps).
     res_bind (dec_option_bool 12 ps) (\<lambda>(initiate_call_available, ps).
     res_bind (dec_option_bool 13 ps) (\<lambda>(end_and_accept_available, ps).
     res_bind (dec_option_bool 14 ps) (\<lambda>(hold_and_accept_available, ps).
     res_bind (dec_option_bool 15 ps) (\<lambda>(swap_available, ps).
     res_bind (dec_option_bool 16 ps) (\<lambda>(merge_available, ps).
     res_bind (dec_option_bool 17 ps) (\<lambda>(hold_available, ps).
     Inr \<lparr>cu_signal_strength = signal_strength, cu_registration_status = registration_status, cu_airplane_mode = airplane_mode, cu_carrier_name = carrier_name, cu_cellular_supported = cellular_supported, cu_telephony_enabled = telephony_enabled, cu_face_time_audio_enabled = face_time_audio_enabled, cu_face_time_video_enabled = face_time_video_enabled, cu_mute_status = mute_status, cu_current_call_count = current_call_count, cu_new_voicemail_count = new_voicemail_count, cu_initiate_call_available = initiate_call_available, cu_end_and_accept_available = end_and_accept_available, cu_hold_and_accept_available = hold_and_accept_available, cu_swap_available = swap_available, cu_merge_available = merge_available, cu_hold_available = hold_available\<rparr>))))))))))))))))))"

definition CommunicationsUpdate_ok :: "CommunicationsUpdate \<Rightarrow> bool" where
  "CommunicationsUpdate_ok m \<longleftrightarrow> pred_option utf8_valid (cu_carrier_name m)"

interpretation CommunicationsUpdate_msg: extensible_message CommunicationsUpdate_to_frame CommunicationsUpdate_from_frame CommunicationsUpdate_MSG_ID CommunicationsUpdate_ok "[0, 1, 2, 4, 5, 6, 7, 8, 9, 10, 11, 12, 13, 14, 15, 16, 17]"
  by unfold_locales (auto simp: CommunicationsUpdate_to_frame_def CommunicationsUpdate_from_frame_def CommunicationsUpdate_ok_def csm_field_simps)

definition InitiateCall_MSG_ID :: u16 where "InitiateCall_MSG_ID = 0x415A"

record InitiateCall =
  ic_kind :: u8
  ic_destination_id :: "bytes option"
  ic_service :: "u8 option"
  ic_address_book_id :: "bytes option"

definition InitiateCall_to_frame :: "InitiateCall \<Rightarrow> CsmFrame" where
  "InitiateCall_to_frame m = \<lparr>cf_msg_id = InitiateCall_MSG_ID, cf_params =
      enc_u8 0 (ic_kind m) @
      (enc_option enc_string) 1 (ic_destination_id m) @
      (enc_option enc_u8) 2 (ic_service m) @
      (enc_option enc_string) 3 (ic_address_book_id m)\<rparr>"

definition InitiateCall_from_frame :: "CsmFrame \<Rightarrow> CsmDecodeError + InitiateCall" where
  "InitiateCall_from_frame frame =
    (if cf_msg_id frame \<noteq> InitiateCall_MSG_ID then Inl (WrongMsgId (cf_msg_id frame) InitiateCall_MSG_ID) else
     res_bind (dec_u8 0 (cf_params frame)) (\<lambda>(kind, ps).
     res_bind (dec_option_string 1 ps) (\<lambda>(destination_id, ps).
     res_bind (dec_option_u8 2 ps) (\<lambda>(service, ps).
     res_bind (dec_option_string 3 ps) (\<lambda>(address_book_id, ps).
     Inr \<lparr>ic_kind = kind, ic_destination_id = destination_id, ic_service = service, ic_address_book_id = address_book_id\<rparr>)))))"

definition InitiateCall_ok :: "InitiateCall \<Rightarrow> bool" where
  "InitiateCall_ok m \<longleftrightarrow> pred_option utf8_valid (ic_destination_id m) \<and> pred_option utf8_valid (ic_address_book_id m)"

interpretation InitiateCall_msg: extensible_message InitiateCall_to_frame InitiateCall_from_frame InitiateCall_MSG_ID InitiateCall_ok "[0, 1, 2, 3]"
  by unfold_locales (auto simp: InitiateCall_to_frame_def InitiateCall_from_frame_def InitiateCall_ok_def csm_field_simps)

definition AcceptCall_MSG_ID :: u16 where "AcceptCall_MSG_ID = 0x415B"

record AcceptCall =
  acx_accept_action :: u8
  acx_call_uuid :: "bytes option"

definition AcceptCall_to_frame :: "AcceptCall \<Rightarrow> CsmFrame" where
  "AcceptCall_to_frame m = \<lparr>cf_msg_id = AcceptCall_MSG_ID, cf_params =
      enc_u8 0 (acx_accept_action m) @
      (enc_option enc_string) 1 (acx_call_uuid m)\<rparr>"

definition AcceptCall_from_frame :: "CsmFrame \<Rightarrow> CsmDecodeError + AcceptCall" where
  "AcceptCall_from_frame frame =
    (if cf_msg_id frame \<noteq> AcceptCall_MSG_ID then Inl (WrongMsgId (cf_msg_id frame) AcceptCall_MSG_ID) else
     res_bind (dec_u8 0 (cf_params frame)) (\<lambda>(accept_action, ps).
     res_bind (dec_option_string 1 ps) (\<lambda>(call_uuid, ps).
     Inr \<lparr>acx_accept_action = accept_action, acx_call_uuid = call_uuid\<rparr>)))"

definition AcceptCall_ok :: "AcceptCall \<Rightarrow> bool" where
  "AcceptCall_ok m \<longleftrightarrow> pred_option utf8_valid (acx_call_uuid m)"

interpretation AcceptCall_msg: extensible_message AcceptCall_to_frame AcceptCall_from_frame AcceptCall_MSG_ID AcceptCall_ok "[0, 1]"
  by unfold_locales (auto simp: AcceptCall_to_frame_def AcceptCall_from_frame_def AcceptCall_ok_def csm_field_simps)

definition EndCall_MSG_ID :: u16 where "EndCall_MSG_ID = 0x415C"

record EndCall =
  ec_end_action :: u8
  ec_call_uuid :: "bytes option"

definition EndCall_to_frame :: "EndCall \<Rightarrow> CsmFrame" where
  "EndCall_to_frame m = \<lparr>cf_msg_id = EndCall_MSG_ID, cf_params =
      enc_u8 0 (ec_end_action m) @
      (enc_option enc_string) 1 (ec_call_uuid m)\<rparr>"

definition EndCall_from_frame :: "CsmFrame \<Rightarrow> CsmDecodeError + EndCall" where
  "EndCall_from_frame frame =
    (if cf_msg_id frame \<noteq> EndCall_MSG_ID then Inl (WrongMsgId (cf_msg_id frame) EndCall_MSG_ID) else
     res_bind (dec_u8 0 (cf_params frame)) (\<lambda>(end_action, ps).
     res_bind (dec_option_string 1 ps) (\<lambda>(call_uuid, ps).
     Inr \<lparr>ec_end_action = end_action, ec_call_uuid = call_uuid\<rparr>)))"

definition EndCall_ok :: "EndCall \<Rightarrow> bool" where
  "EndCall_ok m \<longleftrightarrow> pred_option utf8_valid (ec_call_uuid m)"

interpretation EndCall_msg: extensible_message EndCall_to_frame EndCall_from_frame EndCall_MSG_ID EndCall_ok "[0, 1]"
  by unfold_locales (auto simp: EndCall_to_frame_def EndCall_from_frame_def EndCall_ok_def csm_field_simps)

definition SwapCalls_MSG_ID :: u16 where "SwapCalls_MSG_ID = 0x415D"

definition SwapCalls_to_frame :: "unit \<Rightarrow> CsmFrame" where
  "SwapCalls_to_frame m = \<lparr>cf_msg_id = SwapCalls_MSG_ID, cf_params =
      []\<rparr>"

definition SwapCalls_from_frame :: "CsmFrame \<Rightarrow> CsmDecodeError + unit" where
  "SwapCalls_from_frame frame =
    (if cf_msg_id frame \<noteq> SwapCalls_MSG_ID then Inl (WrongMsgId (cf_msg_id frame) SwapCalls_MSG_ID) else
     Inr ())"

definition SwapCalls_ok :: "unit \<Rightarrow> bool" where
  "SwapCalls_ok m \<longleftrightarrow> True"

interpretation SwapCalls_msg: extensible_message SwapCalls_to_frame SwapCalls_from_frame SwapCalls_MSG_ID SwapCalls_ok "[]"
  by unfold_locales (auto simp: SwapCalls_to_frame_def SwapCalls_from_frame_def SwapCalls_ok_def csm_field_simps)

definition MergeCalls_MSG_ID :: u16 where "MergeCalls_MSG_ID = 0x415E"

definition MergeCalls_to_frame :: "unit \<Rightarrow> CsmFrame" where
  "MergeCalls_to_frame m = \<lparr>cf_msg_id = MergeCalls_MSG_ID, cf_params =
      []\<rparr>"

definition MergeCalls_from_frame :: "CsmFrame \<Rightarrow> CsmDecodeError + unit" where
  "MergeCalls_from_frame frame =
    (if cf_msg_id frame \<noteq> MergeCalls_MSG_ID then Inl (WrongMsgId (cf_msg_id frame) MergeCalls_MSG_ID) else
     Inr ())"

definition MergeCalls_ok :: "unit \<Rightarrow> bool" where
  "MergeCalls_ok m \<longleftrightarrow> True"

interpretation MergeCalls_msg: extensible_message MergeCalls_to_frame MergeCalls_from_frame MergeCalls_MSG_ID MergeCalls_ok "[]"
  by unfold_locales (auto simp: MergeCalls_to_frame_def MergeCalls_from_frame_def MergeCalls_ok_def csm_field_simps)

definition HoldStatusUpdate_MSG_ID :: u16 where "HoldStatusUpdate_MSG_ID = 0x415F"

record HoldStatusUpdate =
  hsu_hold_status :: bool
  hsu_call_uuid :: "bytes option"

definition HoldStatusUpdate_to_frame :: "HoldStatusUpdate \<Rightarrow> CsmFrame" where
  "HoldStatusUpdate_to_frame m = \<lparr>cf_msg_id = HoldStatusUpdate_MSG_ID, cf_params =
      enc_bool 0 (hsu_hold_status m) @
      (enc_option enc_string) 1 (hsu_call_uuid m)\<rparr>"

definition HoldStatusUpdate_from_frame :: "CsmFrame \<Rightarrow> CsmDecodeError + HoldStatusUpdate" where
  "HoldStatusUpdate_from_frame frame =
    (if cf_msg_id frame \<noteq> HoldStatusUpdate_MSG_ID then Inl (WrongMsgId (cf_msg_id frame) HoldStatusUpdate_MSG_ID) else
     res_bind (dec_bool 0 (cf_params frame)) (\<lambda>(hold_status, ps).
     res_bind (dec_option_string 1 ps) (\<lambda>(call_uuid, ps).
     Inr \<lparr>hsu_hold_status = hold_status, hsu_call_uuid = call_uuid\<rparr>)))"

definition HoldStatusUpdate_ok :: "HoldStatusUpdate \<Rightarrow> bool" where
  "HoldStatusUpdate_ok m \<longleftrightarrow> pred_option utf8_valid (hsu_call_uuid m)"

interpretation HoldStatusUpdate_msg: extensible_message HoldStatusUpdate_to_frame HoldStatusUpdate_from_frame HoldStatusUpdate_MSG_ID HoldStatusUpdate_ok "[0, 1]"
  by unfold_locales (auto simp: HoldStatusUpdate_to_frame_def HoldStatusUpdate_from_frame_def HoldStatusUpdate_ok_def csm_field_simps)

definition MuteStatusUpdate_MSG_ID :: u16 where "MuteStatusUpdate_MSG_ID = 0x4160"

record MuteStatusUpdate =
  msu_mute_status :: bool

definition MuteStatusUpdate_to_frame :: "MuteStatusUpdate \<Rightarrow> CsmFrame" where
  "MuteStatusUpdate_to_frame m = \<lparr>cf_msg_id = MuteStatusUpdate_MSG_ID, cf_params =
      enc_bool 0 (msu_mute_status m)\<rparr>"

definition MuteStatusUpdate_from_frame :: "CsmFrame \<Rightarrow> CsmDecodeError + MuteStatusUpdate" where
  "MuteStatusUpdate_from_frame frame =
    (if cf_msg_id frame \<noteq> MuteStatusUpdate_MSG_ID then Inl (WrongMsgId (cf_msg_id frame) MuteStatusUpdate_MSG_ID) else
     res_bind (dec_bool 0 (cf_params frame)) (\<lambda>(mute_status, ps).
     Inr \<lparr>msu_mute_status = mute_status\<rparr>))"

definition MuteStatusUpdate_ok :: "MuteStatusUpdate \<Rightarrow> bool" where
  "MuteStatusUpdate_ok m \<longleftrightarrow> True"

interpretation MuteStatusUpdate_msg: extensible_message MuteStatusUpdate_to_frame MuteStatusUpdate_from_frame MuteStatusUpdate_MSG_ID MuteStatusUpdate_ok "[0]"
  by unfold_locales (auto simp: MuteStatusUpdate_to_frame_def MuteStatusUpdate_from_frame_def MuteStatusUpdate_ok_def csm_field_simps)

definition SendDtmf_MSG_ID :: u16 where "SendDtmf_MSG_ID = 0x4161"

record SendDtmf =
  sd_tone :: u8
  sd_call_uuid :: "bytes option"

definition SendDtmf_to_frame :: "SendDtmf \<Rightarrow> CsmFrame" where
  "SendDtmf_to_frame m = \<lparr>cf_msg_id = SendDtmf_MSG_ID, cf_params =
      enc_u8 0 (sd_tone m) @
      (enc_option enc_string) 1 (sd_call_uuid m)\<rparr>"

definition SendDtmf_from_frame :: "CsmFrame \<Rightarrow> CsmDecodeError + SendDtmf" where
  "SendDtmf_from_frame frame =
    (if cf_msg_id frame \<noteq> SendDtmf_MSG_ID then Inl (WrongMsgId (cf_msg_id frame) SendDtmf_MSG_ID) else
     res_bind (dec_u8 0 (cf_params frame)) (\<lambda>(tone, ps).
     res_bind (dec_option_string 1 ps) (\<lambda>(call_uuid, ps).
     Inr \<lparr>sd_tone = tone, sd_call_uuid = call_uuid\<rparr>)))"

definition SendDtmf_ok :: "SendDtmf \<Rightarrow> bool" where
  "SendDtmf_ok m \<longleftrightarrow> pred_option utf8_valid (sd_call_uuid m)"

interpretation SendDtmf_msg: extensible_message SendDtmf_to_frame SendDtmf_from_frame SendDtmf_MSG_ID SendDtmf_ok "[0, 1]"
  by unfold_locales (auto simp: SendDtmf_to_frame_def SendDtmf_from_frame_def SendDtmf_ok_def csm_field_simps)

text \<open>The subscriptions: an empty parameter for each wanted attribute.\<close>

definition empty_params :: "u16 list \<Rightarrow> CsmParam list" where
  "empty_params ids = map (\<lambda>i. \<lparr>cp_id = i, cp_payload = []\<rparr>) ids"

definition StartCallStateUpdates_MSG_ID :: u16 where "StartCallStateUpdates_MSG_ID = 0x4154"
definition StartCommunicationsUpdates_MSG_ID :: u16 where "StartCommunicationsUpdates_MSG_ID = 0x4157"
definition CALL_STATE_SUBSCRIBE :: "u16 list" where
  "CALL_STATE_SUBSCRIBE = [0, 1, 2, 3, 4, 6, 7, 8, 9, 10, 11, 12]"
definition COMMUNICATIONS_SUBSCRIBE :: "u16 list" where
  "COMMUNICATIONS_SUBSCRIBE = [0, 1, 2, 4, 5, 6, 7, 8, 9, 10, 11, 12, 13, 14, 15, 16, 17]"

record StartCallStateUpdates =
  scsu_params :: "u16 list"

definition StartCallStateUpdates_standard :: StartCallStateUpdates where
  "StartCallStateUpdates_standard = \<lparr>scsu_params = CALL_STATE_SUBSCRIBE\<rparr>"

definition StartCallStateUpdates_to_frame :: "StartCallStateUpdates \<Rightarrow> CsmFrame" where
  "StartCallStateUpdates_to_frame m =
    \<lparr>cf_msg_id = StartCallStateUpdates_MSG_ID, cf_params = empty_params (scsu_params m)\<rparr>"

record StartCommunicationsUpdates =
  scu_params :: "u16 list"

definition StartCommunicationsUpdates_standard :: StartCommunicationsUpdates where
  "StartCommunicationsUpdates_standard = \<lparr>scu_params = COMMUNICATIONS_SUBSCRIBE\<rparr>"

definition StartCommunicationsUpdates_to_frame :: "StartCommunicationsUpdates \<Rightarrow> CsmFrame" where
  "StartCommunicationsUpdates_to_frame m =
    \<lparr>cf_msg_id = StartCommunicationsUpdates_MSG_ID, cf_params = empty_params (scu_params m)\<rparr>"

definition telephony_SENT_BY_ACCESSORY :: "u16 list" where
  "telephony_SENT_BY_ACCESSORY =
    [StartCallStateUpdates_MSG_ID, StopCallStateUpdates_MSG_ID, StartCommunicationsUpdates_MSG_ID,
     StopCommunicationsUpdates_MSG_ID, InitiateCall_MSG_ID, AcceptCall_MSG_ID, EndCall_MSG_ID, SwapCalls_MSG_ID,
     MergeCalls_MSG_ID, HoldStatusUpdate_MSG_ID, MuteStatusUpdate_MSG_ID, SendDtmf_MSG_ID]"

definition telephony_RECEIVED_BY_ACCESSORY :: "u16 list" where
  "telephony_RECEIVED_BY_ACCESSORY = [CallStateUpdate_MSG_ID, CommunicationsUpdate_MSG_ID]"

section \<open>Identification\<close>

text \<open>The derived messages of \<open>csm/identification.rs\<close>.\<close>

definition StartIdentification_MSG_ID :: u16 where "StartIdentification_MSG_ID = 0x1D00"

definition StartIdentification_to_frame :: "unit \<Rightarrow> CsmFrame" where
  "StartIdentification_to_frame m = \<lparr>cf_msg_id = StartIdentification_MSG_ID, cf_params =
      []\<rparr>"

definition StartIdentification_from_frame :: "CsmFrame \<Rightarrow> CsmDecodeError + unit" where
  "StartIdentification_from_frame frame =
    (if cf_msg_id frame \<noteq> StartIdentification_MSG_ID then Inl (WrongMsgId (cf_msg_id frame) StartIdentification_MSG_ID) else
     Inr ())"

definition StartIdentification_ok :: "unit \<Rightarrow> bool" where
  "StartIdentification_ok m \<longleftrightarrow> True"

interpretation StartIdentification_msg: extensible_message StartIdentification_to_frame StartIdentification_from_frame StartIdentification_MSG_ID StartIdentification_ok "[]"
  by unfold_locales (auto simp: StartIdentification_to_frame_def StartIdentification_from_frame_def StartIdentification_ok_def csm_field_simps)

definition IdentificationAccepted_MSG_ID :: u16 where "IdentificationAccepted_MSG_ID = 0x1D02"

definition IdentificationAccepted_to_frame :: "unit \<Rightarrow> CsmFrame" where
  "IdentificationAccepted_to_frame m = \<lparr>cf_msg_id = IdentificationAccepted_MSG_ID, cf_params =
      []\<rparr>"

definition IdentificationAccepted_from_frame :: "CsmFrame \<Rightarrow> CsmDecodeError + unit" where
  "IdentificationAccepted_from_frame frame =
    (if cf_msg_id frame \<noteq> IdentificationAccepted_MSG_ID then Inl (WrongMsgId (cf_msg_id frame) IdentificationAccepted_MSG_ID) else
     Inr ())"

definition IdentificationAccepted_ok :: "unit \<Rightarrow> bool" where
  "IdentificationAccepted_ok m \<longleftrightarrow> True"

interpretation IdentificationAccepted_msg: extensible_message IdentificationAccepted_to_frame IdentificationAccepted_from_frame IdentificationAccepted_MSG_ID IdentificationAccepted_ok "[]"
  by unfold_locales (auto simp: IdentificationAccepted_to_frame_def IdentificationAccepted_from_frame_def IdentificationAccepted_ok_def csm_field_simps)

section \<open>Now playing\<close>

text \<open>The derived messages of \<open>csm/now_playing.rs\<close>.\<close>

definition StopNowPlayingUpdates_MSG_ID :: u16 where "StopNowPlayingUpdates_MSG_ID = 0x5002"

definition StopNowPlayingUpdates_to_frame :: "unit \<Rightarrow> CsmFrame" where
  "StopNowPlayingUpdates_to_frame m = \<lparr>cf_msg_id = StopNowPlayingUpdates_MSG_ID, cf_params =
      []\<rparr>"

definition StopNowPlayingUpdates_from_frame :: "CsmFrame \<Rightarrow> CsmDecodeError + unit" where
  "StopNowPlayingUpdates_from_frame frame =
    (if cf_msg_id frame \<noteq> StopNowPlayingUpdates_MSG_ID then Inl (WrongMsgId (cf_msg_id frame) StopNowPlayingUpdates_MSG_ID) else
     Inr ())"

definition StopNowPlayingUpdates_ok :: "unit \<Rightarrow> bool" where
  "StopNowPlayingUpdates_ok m \<longleftrightarrow> True"

interpretation StopNowPlayingUpdates_msg: extensible_message StopNowPlayingUpdates_to_frame StopNowPlayingUpdates_from_frame StopNowPlayingUpdates_MSG_ID StopNowPlayingUpdates_ok "[]"
  by unfold_locales (auto simp: StopNowPlayingUpdates_to_frame_def StopNowPlayingUpdates_from_frame_def StopNowPlayingUpdates_ok_def csm_field_simps)

definition SetNowPlayingInformation_MSG_ID :: u16 where "SetNowPlayingInformation_MSG_ID = 0x5003"

record SetNowPlayingInformation =
  snpi_elapsed_time_ms :: "u32 option"
  snpi_queue_index :: "u32 option"
  snpi_queue_list_content_transfer_start_index :: "u32 option"

definition SetNowPlayingInformation_to_frame :: "SetNowPlayingInformation \<Rightarrow> CsmFrame" where
  "SetNowPlayingInformation_to_frame m = \<lparr>cf_msg_id = SetNowPlayingInformation_MSG_ID, cf_params =
      (enc_option enc_u32) 0 (snpi_elapsed_time_ms m) @
      (enc_option enc_u32) 1 (snpi_queue_index m) @
      (enc_option enc_u32) 2 (snpi_queue_list_content_transfer_start_index m)\<rparr>"

definition SetNowPlayingInformation_from_frame :: "CsmFrame \<Rightarrow> CsmDecodeError + SetNowPlayingInformation" where
  "SetNowPlayingInformation_from_frame frame =
    (if cf_msg_id frame \<noteq> SetNowPlayingInformation_MSG_ID then Inl (WrongMsgId (cf_msg_id frame) SetNowPlayingInformation_MSG_ID) else
     res_bind (dec_option_u32 0 (cf_params frame)) (\<lambda>(elapsed_time_ms, ps).
     res_bind (dec_option_u32 1 ps) (\<lambda>(queue_index, ps).
     res_bind (dec_option_u32 2 ps) (\<lambda>(queue_list_content_transfer_start_index, ps).
     Inr \<lparr>snpi_elapsed_time_ms = elapsed_time_ms, snpi_queue_index = queue_index, snpi_queue_list_content_transfer_start_index = queue_list_content_transfer_start_index\<rparr>))))"

definition SetNowPlayingInformation_ok :: "SetNowPlayingInformation \<Rightarrow> bool" where
  "SetNowPlayingInformation_ok m \<longleftrightarrow> True"

interpretation SetNowPlayingInformation_msg: extensible_message SetNowPlayingInformation_to_frame SetNowPlayingInformation_from_frame SetNowPlayingInformation_MSG_ID SetNowPlayingInformation_ok "[0, 1, 2]"
  by unfold_locales (auto simp: SetNowPlayingInformation_to_frame_def SetNowPlayingInformation_from_frame_def SetNowPlayingInformation_ok_def csm_field_simps)

end
