(* ===== verification/Csm_Identification.thy ===== *)
theory Csm_Identification
  imports Csm_Messages
begin

text \<open>The identification messages (\<open>crates/iap2/src/csm/identification.rs\<close>): what the accessory declares
  of itself, with its groups, and what a device reads of it. The lists of messages it sends and receives
  are those of the message files.\<close>

definition identification_SENT_BY_ACCESSORY :: "u16 list" where "identification_SENT_BY_ACCESSORY = []"
definition identification_RECEIVED_BY_ACCESSORY :: "u16 list" where "identification_RECEIVED_BY_ACCESSORY = []"

text \<open>The lists of \<open>now_playing.rs\<close>.\<close>

definition StartNowPlayingUpdates_MSG_ID :: u16 where "StartNowPlayingUpdates_MSG_ID = 0x5000"
definition NowPlayingUpdate_MSG_ID :: u16 where "NowPlayingUpdate_MSG_ID = 0x5001"

definition now_playing_SENT_BY_ACCESSORY :: "u16 list" where
  "now_playing_SENT_BY_ACCESSORY =
    [StartNowPlayingUpdates_MSG_ID, StopNowPlayingUpdates_MSG_ID, SetNowPlayingInformation_MSG_ID]"

definition now_playing_RECEIVED_BY_ACCESSORY :: "u16 list" where
  "now_playing_RECEIVED_BY_ACCESSORY = [NowPlayingUpdate_MSG_ID]"

section \<open>The rejection\<close>

definition IdentificationRejected_MSG_ID :: u16 where "IdentificationRejected_MSG_ID = 0x1D03"

record IdentificationRejected =
  ir_rejected_params :: "u16 list"

definition IdentificationRejected_to_frame :: "IdentificationRejected \<Rightarrow> CsmFrame" where
  "IdentificationRejected_to_frame m =
    \<lparr>cf_msg_id = IdentificationRejected_MSG_ID, cf_params = empty_params (ir_rejected_params m)\<rparr>"

definition IdentificationRejected_from_frame :: "CsmFrame \<Rightarrow> CsmDecodeError + IdentificationRejected" where
  "IdentificationRejected_from_frame frame =
    (if cf_msg_id frame \<noteq> IdentificationRejected_MSG_ID
     then Inl (WrongMsgId (cf_msg_id frame) IdentificationRejected_MSG_ID)
     else Inr \<lparr>ir_rejected_params = map cp_id (cf_params frame)\<rparr>)"

text \<open>Every parameter of a rejection is part of it, so it is no extensible message.\<close>

interpretation IdentificationRejected_msg: csm_message IdentificationRejected_to_frame
    IdentificationRejected_from_frame IdentificationRejected_MSG_ID "\<lambda>_. True"
  by unfold_locales
    (simp_all add: IdentificationRejected_to_frame_def IdentificationRejected_from_frame_def empty_params_def comp_def)

section \<open>The identification\<close>

datatype PowerProvidingCapability = PowerNone | PowerReserved | PowerAdvanced

fun power_byte :: "PowerProvidingCapability \<Rightarrow> u8" where
  "power_byte PowerNone = 0"
| "power_byte PowerReserved = 1"
| "power_byte PowerAdvanced = 2"

datatype EaProtocolMatchAction = NoAction | OptionalAction | NoAlertAction

fun match_action_byte :: "EaProtocolMatchAction \<Rightarrow> u8" where
  "match_action_byte NoAction = 0"
| "match_action_byte OptionalAction = 1"
| "match_action_byte NoAlertAction = 2"

record EaProtocol =
  eap_id :: u8
  eap_name :: bytes
  eap_match_action :: EaProtocolMatchAction
  eap_native_transport_component_identifier :: "u16 option"

definition EaProtocol_params :: "EaProtocol \<Rightarrow> CsmParam list" where
  "EaProtocol_params e =
    enc_u8 0 (eap_id e) @ enc_string 1 (eap_name e) @ enc_u8 2 (match_action_byte (eap_match_action e)) @
    enc_option enc_u16 3 (eap_native_transport_component_identifier e)"

definition EaProtocol_into_group :: "EaProtocol \<Rightarrow> bytes" where
  "EaProtocol_into_group e = encode_param_block (EaProtocol_params e)"

datatype HidComponentFunction =
    Keyboard
  | MediaPlaybackRemote
  | AssistiveTouch
  | GamepadDeviceHolding
  | Gamepad
  | AssistiveSwitchControl
  | Headset
  | BrailleDisplayKeyboard

fun hid_function_byte :: "HidComponentFunction \<Rightarrow> u8" where
  "hid_function_byte Keyboard = 0"
| "hid_function_byte MediaPlaybackRemote = 1"
| "hid_function_byte AssistiveTouch = 2"
| "hid_function_byte GamepadDeviceHolding = 4"
| "hid_function_byte Gamepad = 6"
| "hid_function_byte AssistiveSwitchControl = 7"
| "hid_function_byte Headset = 8"
| "hid_function_byte BrailleDisplayKeyboard = 10"

record HidComponent =
  hc_id :: u16
  hc_name :: bytes
  hc_function :: HidComponentFunction

definition HidComponent_into_group :: "HidComponent \<Rightarrow> bytes" where
  "HidComponent_into_group h =
    encode_param_block (enc_u16 0 (hc_id h) @ enc_string 1 (hc_name h) @ enc_u8 2 (hid_function_byte (hc_function h)))"

record BluetoothTransportComponent =
  btc_id :: u16
  btc_name :: bytes
  btc_supports_iap2_connection :: bool
  btc_mac :: bytes

definition BluetoothTransportComponent_into_group :: "BluetoothTransportComponent \<Rightarrow> bytes" where
  "BluetoothTransportComponent_into_group b =
    encode_param_block (enc_u16 0 (btc_id b) @ enc_string 1 (btc_name b) @
      (if btc_supports_iap2_connection b then enc_unit 2 () else []) @ enc_bytes 3 (btc_mac b))"

record IdentificationConfig =
  idc_name :: bytes
  idc_model_identifier :: bytes
  idc_manufacturer :: bytes
  idc_serial_number :: bytes
  idc_firmware_version :: bytes
  idc_hardware_version :: bytes
  idc_power_providing_capability :: PowerProvidingCapability
  idc_maximum_current_drawn_from_device_ma :: u16
  idc_supported_external_accessory_protocols :: "EaProtocol list"
  idc_app_match_team_id :: "bytes option"
  idc_current_language :: bytes
  idc_supported_languages :: "bytes list"
  idc_bluetooth_transport_components :: "BluetoothTransportComponent list"
  idc_hid_components :: "HidComponent list"
  idc_additional_messages_sent_by_accessory :: "u16 list"
  idc_additional_messages_received_from_accessory :: "u16 list"

text \<open>A Rust string literal, for ASCII texts.\<close>

definition text_of :: "string \<Rightarrow> bytes" where
  "text_of s = map of_char s"

record CarthingIdentification =
  ci_serial_number :: bytes
  ci_firmware_version :: bytes
  ci_bt_mac :: bytes

definition IdentificationConfig_for_carthing :: "CarthingIdentification \<Rightarrow> IdentificationConfig" where
  "IdentificationConfig_for_carthing args =
    \<lparr>idc_name = text_of ''Bridgething'',
     idc_model_identifier = text_of ''Carthing'',
     idc_manufacturer = text_of ''ThingLabs'',
     idc_serial_number = ci_serial_number args,
     idc_firmware_version = ci_firmware_version args,
     idc_hardware_version = text_of ''Spotify Car Thing'',
     idc_power_providing_capability = PowerNone,
     idc_maximum_current_drawn_from_device_ma = 0,
     idc_supported_external_accessory_protocols = [],
     idc_app_match_team_id = None,
     idc_current_language = text_of ''en'',
     idc_supported_languages = [text_of ''en''],
     idc_bluetooth_transport_components =
       [\<lparr>btc_id = TRANSPORT_COMPONENT_ID, btc_name = text_of ''Bridgething BT'',
         btc_supports_iap2_connection = True, btc_mac = ci_bt_mac args\<rparr>],
     idc_hid_components =
       [\<lparr>hc_id = TRANSPORT_COMPONENT_ID, hc_name = text_of ''Bridgething Transport'',
         hc_function = MediaPlaybackRemote\<rparr>],
     idc_additional_messages_sent_by_accessory = [],
     idc_additional_messages_received_from_accessory = []\<rparr>"

definition merge_messages :: "u16 list list \<Rightarrow> u16 list \<Rightarrow> u16 list" where
  "merge_messages builtin_groups extra = concat builtin_groups @ extra"

definition encode_messages_list :: "u16 list \<Rightarrow> bytes" where
  "encode_messages_list ids = concat (map be16 ids)"

definition sent_messages :: "IdentificationConfig \<Rightarrow> u16 list" where
  "sent_messages cfg =
    merge_messages
      [auth_SENT_BY_ACCESSORY, identification_SENT_BY_ACCESSORY, now_playing_SENT_BY_ACCESSORY,
       ea_SENT_BY_ACCESSORY, hid_SENT_BY_ACCESSORY, device_SENT_BY_ACCESSORY, telephony_SENT_BY_ACCESSORY]
      (idc_additional_messages_sent_by_accessory cfg)"

definition received_messages :: "IdentificationConfig \<Rightarrow> u16 list" where
  "received_messages cfg =
    merge_messages
      [auth_RECEIVED_BY_ACCESSORY, identification_RECEIVED_BY_ACCESSORY, now_playing_RECEIVED_BY_ACCESSORY,
       ea_RECEIVED_BY_ACCESSORY, hid_RECEIVED_BY_ACCESSORY, device_RECEIVED_BY_ACCESSORY,
       telephony_RECEIVED_BY_ACCESSORY]
      (idc_additional_messages_received_from_accessory cfg)"

definition IdentificationInformation_MSG_ID :: u16 where "IdentificationInformation_MSG_ID = 0x1D01"

definition IdentificationInformation_to_frame :: "IdentificationConfig \<Rightarrow> CsmFrame" where
  "IdentificationInformation_to_frame cfg =
    \<lparr>cf_msg_id = IdentificationInformation_MSG_ID, cf_params =
      enc_string 0 (idc_name cfg) @
      enc_string 1 (idc_model_identifier cfg) @
      enc_string 2 (idc_manufacturer cfg) @
      enc_string 3 (idc_serial_number cfg) @
      enc_string 4 (idc_firmware_version cfg) @
      enc_string 5 (idc_hardware_version cfg) @
      enc_bytes 6 (encode_messages_list (sent_messages cfg)) @
      enc_bytes 7 (encode_messages_list (received_messages cfg)) @
      enc_u8 8 (power_byte (idc_power_providing_capability cfg)) @
      enc_u16 9 (idc_maximum_current_drawn_from_device_ma cfg) @
      concat (map (\<lambda>ea. enc_bytes 10 (EaProtocol_into_group ea)) (idc_supported_external_accessory_protocols cfg)) @
      enc_option enc_string 11 (idc_app_match_team_id cfg) @
      enc_string 12 (idc_current_language cfg) @
      enc_vec enc_string 13 (idc_supported_languages cfg) @
      concat (map (\<lambda>bt. enc_bytes 17 (BluetoothTransportComponent_into_group bt)) (idc_bluetooth_transport_components cfg)) @
      concat (map (\<lambda>hid. enc_bytes 18 (HidComponent_into_group hid)) (idc_hid_components cfg))\<rparr>"

section \<open>The device's side\<close>

definition EA_PROTOCOL_PARAM :: u16 where "EA_PROTOCOL_PARAM = 10"

definition EaProtocolMatchAction_from_u8 :: "u8 \<Rightarrow> EaProtocolMatchAction option" where
  "EaProtocolMatchAction_from_u8 byte =
    (if byte = 0 then Some NoAction else if byte = 1 then Some OptionalAction
     else if byte = 2 then Some NoAlertAction else None)"

definition EaProtocol_from_group :: "bytes \<Rightarrow> CsmDecodeError + EaProtocol" where
  "EaProtocol_from_group payload =
    res_bind (decode_param_block payload) (\<lambda>ps.
    res_bind (dec_u8 0 ps) (\<lambda>(i, ps).
    res_bind (dec_string 1 ps) (\<lambda>(name, ps).
    res_bind (dec_u8 2 ps) (\<lambda>(match_action_byte, ps).
    case EaProtocolMatchAction_from_u8 match_action_byte of
      None \<Rightarrow> Inl (ParamDecode 2 ''EA protocol match action must be 0, 1, or 2'')
    | Some match_action \<Rightarrow>
        res_bind (dec_option_u16 3 ps) (\<lambda>(native, ps).
        Inr \<lparr>eap_id = i, eap_name = name, eap_match_action = match_action,
             eap_native_transport_component_identifier = native\<rparr>)))))"

fun parse_ea_protocols_in :: "CsmParam list \<Rightarrow> CsmDecodeError + EaProtocol list" where
  "parse_ea_protocols_in [] = Inr []"
| "parse_ea_protocols_in (p # ps) =
    (if cp_id p = EA_PROTOCOL_PARAM
     then res_bind (EaProtocol_from_group (cp_payload p)) (\<lambda>e.
            res_bind (parse_ea_protocols_in ps) (\<lambda>es. Inr (e # es)))
     else parse_ea_protocols_in ps)"

definition parse_ea_protocols :: "CsmFrame \<Rightarrow> CsmDecodeError + EaProtocol list" where
  "parse_ea_protocols frame = parse_ea_protocols_in (cf_params frame)"

section \<open>What the device reads\<close>

text \<open>The group's length field is 16 bits wide, which bounds the name.\<close>

definition EaProtocol_ok :: "EaProtocol \<Rightarrow> bool" where
  "EaProtocol_ok e \<longleftrightarrow> utf8_valid (eap_name e) \<and> length (eap_name e) < 65000"

lemma match_action_from_byte [simp]: "EaProtocolMatchAction_from_u8 (match_action_byte a) = Some a"
  by (cases a) (simp_all add: EaProtocolMatchAction_from_u8_def)

lemma params_len_simps [simp]:
  "params_len [] = 0" "params_len (p # ps) = CSM_PARAM_HEADER_LEN + length (cp_payload p) + params_len ps"
  "params_len (ps @ qs) = params_len ps + params_len qs"
  by (simp_all add: params_len_def)

lemma decode_param_block_encode:
  "params_len ps < 65536 \<Longrightarrow> decode_param_block (encode_param_block ps) = Inr ps"
  using decode_params_encode [of ps 0] by (simp add: decode_param_block_def encode_param_block_def decode_params_def)

lemma EaProtocol_group_roundtrip:
  assumes "EaProtocol_ok e"
  shows "EaProtocol_from_group (EaProtocol_into_group e) = Inr e"
proof -
  have "params_len (EaProtocol_params e) < 65536"
    using assms by (cases "eap_native_transport_component_identifier e")
      (simp_all add: EaProtocol_params_def EaProtocol_ok_def enc_u8_def enc_string_def enc_u16_def CSM_PARAM_HEADER_LEN_def)
  moreover have "utf8_valid (eap_name e)" using assms by (simp add: EaProtocol_ok_def)
  ultimately show ?thesis
    by (simp add: EaProtocol_from_group_def EaProtocol_into_group_def decode_param_block_encode)
      (simp add: EaProtocol_params_def u8_field.dec_first string_field.dec_first option_u16_field.dec_only csm_field_simps)
qed

lemma parse_skip: "no_param EA_PROTOCOL_PARAM ps \<Longrightarrow> parse_ea_protocols_in (ps @ qs) = parse_ea_protocols_in qs"
  by (induction ps) auto

lemma parse_groups:
  assumes "list_all EaProtocol_ok es" "no_param EA_PROTOCOL_PARAM rest"
  shows "parse_ea_protocols_in (concat (map (\<lambda>ea. enc_bytes EA_PROTOCOL_PARAM (EaProtocol_into_group ea)) es) @ rest) = Inr es"
  using assms parse_skip [OF assms(2), of "[]"]
  by (induction es) (auto simp: EaProtocol_group_roundtrip enc_bytes_def)

lemma no_param_groups:
  "i \<noteq> j \<Longrightarrow> no_param i (concat (map (\<lambda>x. enc_bytes j (g x)) xs))"
  by (induction xs) (auto simp: enc_bytes_def)

lemmas parse_behind =
  parse_skip [OF string_field.no_param_enc] parse_skip [OF bytes_field.no_param_enc]
  parse_skip [OF u8_field.no_param_enc] parse_skip [OF u16_field.no_param_enc]

text \<open>The protocols that a device reads out of an identification are those that the accessory
  declared, in order.\<close>

theorem identification_declares_protocols:
  assumes "list_all EaProtocol_ok (idc_supported_external_accessory_protocols cfg)"
  shows "parse_ea_protocols (IdentificationInformation_to_frame cfg) =
    Inr (idc_supported_external_accessory_protocols cfg)"
proof -
  let ?tail = "enc_option enc_string 11 (idc_app_match_team_id cfg) @ enc_string 12 (idc_current_language cfg) @
    enc_vec enc_string 13 (idc_supported_languages cfg) @
    concat (map (\<lambda>bt. enc_bytes 17 (BluetoothTransportComponent_into_group bt)) (idc_bluetooth_transport_components cfg)) @
    concat (map (\<lambda>hid. enc_bytes 18 (HidComponent_into_group hid)) (idc_hid_components cfg))"
  have tail: "no_param EA_PROTOCOL_PARAM ?tail"
    by (simp add: EA_PROTOCOL_PARAM_def no_param_groups csm_field_simps)
  show ?thesis
    using parse_groups [OF assms tail]
    by (simp add: parse_ea_protocols_def IdentificationInformation_to_frame_def parse_behind EA_PROTOCOL_PARAM_def)
qed

lemma utf8_valid_Nil [simp]: "utf8_valid []"
  by (simp add: utf8_valid.simps)

lemma utf8_valid_ascii [simp]: "b < 0x80 \<Longrightarrow> utf8_valid (b # bs) = utf8_valid bs"
  by (subst utf8_valid.simps) (simp add: utf8_char_len_def)

theorem identification_declares_protocols_witness:
  "let ps = [\<lparr>eap_id = 1, eap_name = text_of ''com.bridgething'', eap_match_action = NoAlertAction,
              eap_native_transport_component_identifier = None\<rparr>,
             \<lparr>eap_id = 2, eap_name = text_of ''companion'', eap_match_action = OptionalAction,
              eap_native_transport_component_identifier = Some 5353\<rparr>];
       cfg = IdentificationConfig_for_carthing
               \<lparr>ci_serial_number = text_of ''BT0001'', ci_firmware_version = text_of ''v0.1.0'', ci_bt_mac = [1, 2, 3, 4, 5, 6]\<rparr>
   in parse_ea_protocols (IdentificationInformation_to_frame
        (cfg\<lparr>idc_supported_external_accessory_protocols := ps\<rparr>)) = Inr ps"
  unfolding Let_def
  by (subst identification_declares_protocols) (simp_all add: EaProtocol_ok_def text_of_def)

end
