(* ===== verification/Csm_Now_Playing.thy ===== *)
theory Csm_Now_Playing
  imports Csm_Identification
begin

text \<open>The now-playing messages (\<open>crates/iap2/src/csm/now_playing.rs\<close>): the subscription, the update with its
  two attribute groups, the queue snapshot, and the encoders of the emulated device.\<close>

section \<open>Attribute numbers\<close>

definition MEDIA_ITEM_PERSISTENT_ID :: u16 where "MEDIA_ITEM_PERSISTENT_ID = 0x00"
definition MEDIA_ITEM_TITLE :: u16 where "MEDIA_ITEM_TITLE = 0x01"
definition MEDIA_ITEM_MEDIA_TYPE :: u16 where "MEDIA_ITEM_MEDIA_TYPE = 0x02"
definition MEDIA_ITEM_DURATION_MS :: u16 where "MEDIA_ITEM_DURATION_MS = 0x04"
definition MEDIA_ITEM_ALBUM :: u16 where "MEDIA_ITEM_ALBUM = 0x06"
definition MEDIA_ITEM_ALBUM_TRACK_NUMBER :: u16 where "MEDIA_ITEM_ALBUM_TRACK_NUMBER = 0x07"
definition MEDIA_ITEM_ALBUM_TRACK_COUNT :: u16 where "MEDIA_ITEM_ALBUM_TRACK_COUNT = 0x08"
definition MEDIA_ITEM_ARTIST :: u16 where "MEDIA_ITEM_ARTIST = 0x0C"
definition MEDIA_ITEM_ALBUM_ARTIST :: u16 where "MEDIA_ITEM_ALBUM_ARTIST = 0x0E"
definition MEDIA_ITEM_LIKE_SUPPORTED :: u16 where "MEDIA_ITEM_LIKE_SUPPORTED = 0x15"
definition MEDIA_ITEM_BAN_SUPPORTED :: u16 where "MEDIA_ITEM_BAN_SUPPORTED = 0x16"
definition MEDIA_ITEM_LIKED :: u16 where "MEDIA_ITEM_LIKED = 0x17"
definition MEDIA_ITEM_BANNED :: u16 where "MEDIA_ITEM_BANNED = 0x18"
definition MEDIA_ITEM_RESIDENT_ON_DEVICE :: u16 where "MEDIA_ITEM_RESIDENT_ON_DEVICE = 0x19"
definition MEDIA_ITEM_ARTWORK_ID :: u16 where "MEDIA_ITEM_ARTWORK_ID = 0x1A"
definition MEDIA_ITEM_CHAPTER_COUNT :: u16 where "MEDIA_ITEM_CHAPTER_COUNT = 0x1B"
definition PLAYBACK_STATE :: u16 where "PLAYBACK_STATE = 0x00"
definition PLAYBACK_POSITION_MS :: u16 where "PLAYBACK_POSITION_MS = 0x01"
definition PLAYBACK_QUEUE_INDEX :: u16 where "PLAYBACK_QUEUE_INDEX = 0x02"
definition PLAYBACK_QUEUE_COUNT :: u16 where "PLAYBACK_QUEUE_COUNT = 0x03"
definition PLAYBACK_QUEUE_CHAPTER_INDEX :: u16 where "PLAYBACK_QUEUE_CHAPTER_INDEX = 0x04"
definition PLAYBACK_SHUFFLE_MODE :: u16 where "PLAYBACK_SHUFFLE_MODE = 0x05"
definition PLAYBACK_REPEAT :: u16 where "PLAYBACK_REPEAT = 0x06"
definition PLAYBACK_APP_DISPLAY_NAME :: u16 where "PLAYBACK_APP_DISPLAY_NAME = 0x07"
definition PLAYBACK_LIBRARY_UNIQUE_ID :: u16 where "PLAYBACK_LIBRARY_UNIQUE_ID = 0x08"
definition PLAYBACK_RADIO_AD :: u16 where "PLAYBACK_RADIO_AD = 0x09"
definition PLAYBACK_RADIO_STATION_NAME :: u16 where "PLAYBACK_RADIO_STATION_NAME = 0x0A"
definition PLAYBACK_SPEED :: u16 where "PLAYBACK_SPEED = 0x0C"
definition PLAYBACK_SET_ELAPSED_TIME_AVAILABLE :: u16 where "PLAYBACK_SET_ELAPSED_TIME_AVAILABLE = 0x0D"
definition PLAYBACK_QUEUE_LIST_AVAIL :: u16 where "PLAYBACK_QUEUE_LIST_AVAIL = 0x0E"
definition PLAYBACK_QUEUE_LIST_TRANSFER_ID :: u16 where "PLAYBACK_QUEUE_LIST_TRANSFER_ID = 0x0F"
definition PLAYBACK_APP_BUNDLE :: u16 where "PLAYBACK_APP_BUNDLE = 0x10"
definition PLAYBACK_QUEUE_LIST_CONTENT_TRANSFER :: u16 where "PLAYBACK_QUEUE_LIST_CONTENT_TRANSFER = 0x11"
definition NOW_PLAYING_PARAM_MEDIA_ITEM :: u16 where "NOW_PLAYING_PARAM_MEDIA_ITEM = 0"
definition NOW_PLAYING_PARAM_PLAYBACK :: u16 where "NOW_PLAYING_PARAM_PLAYBACK = 1"

lemmas attribute_ids =
  MEDIA_ITEM_PERSISTENT_ID_def MEDIA_ITEM_TITLE_def MEDIA_ITEM_MEDIA_TYPE_def MEDIA_ITEM_DURATION_MS_def
  MEDIA_ITEM_ALBUM_def MEDIA_ITEM_ALBUM_TRACK_NUMBER_def MEDIA_ITEM_ALBUM_TRACK_COUNT_def
  MEDIA_ITEM_ARTIST_def MEDIA_ITEM_ALBUM_ARTIST_def MEDIA_ITEM_LIKE_SUPPORTED_def
  MEDIA_ITEM_BAN_SUPPORTED_def MEDIA_ITEM_LIKED_def MEDIA_ITEM_BANNED_def MEDIA_ITEM_RESIDENT_ON_DEVICE_def
  MEDIA_ITEM_ARTWORK_ID_def MEDIA_ITEM_CHAPTER_COUNT_def PLAYBACK_STATE_def PLAYBACK_POSITION_MS_def
  PLAYBACK_QUEUE_INDEX_def PLAYBACK_QUEUE_COUNT_def PLAYBACK_QUEUE_CHAPTER_INDEX_def
  PLAYBACK_SHUFFLE_MODE_def PLAYBACK_REPEAT_def PLAYBACK_APP_DISPLAY_NAME_def PLAYBACK_LIBRARY_UNIQUE_ID_def
  PLAYBACK_RADIO_AD_def PLAYBACK_RADIO_STATION_NAME_def PLAYBACK_SPEED_def
  PLAYBACK_SET_ELAPSED_TIME_AVAILABLE_def PLAYBACK_QUEUE_LIST_AVAIL_def PLAYBACK_QUEUE_LIST_TRANSFER_ID_def
  PLAYBACK_APP_BUNDLE_def PLAYBACK_QUEUE_LIST_CONTENT_TRANSFER_def NOW_PLAYING_PARAM_MEDIA_ITEM_def
  NOW_PLAYING_PARAM_PLAYBACK_def

definition MEDIA_ITEM_SUBSCRIBE :: "u16 list" where
  "MEDIA_ITEM_SUBSCRIBE =
    [MEDIA_ITEM_PERSISTENT_ID, MEDIA_ITEM_TITLE, MEDIA_ITEM_DURATION_MS, MEDIA_ITEM_ALBUM,
     MEDIA_ITEM_ALBUM_TRACK_NUMBER, MEDIA_ITEM_ALBUM_TRACK_COUNT, MEDIA_ITEM_ARTIST, MEDIA_ITEM_ALBUM_ARTIST, MEDIA_ITEM_LIKED]"

definition PLAYBACK_SUBSCRIBE :: "u16 list" where
  "PLAYBACK_SUBSCRIBE =
    [PLAYBACK_STATE, PLAYBACK_QUEUE_INDEX, PLAYBACK_QUEUE_COUNT, PLAYBACK_SHUFFLE_MODE, PLAYBACK_REPEAT,
     PLAYBACK_APP_DISPLAY_NAME, PLAYBACK_LIBRARY_UNIQUE_ID, PLAYBACK_SPEED, PLAYBACK_SET_ELAPSED_TIME_AVAILABLE, PLAYBACK_APP_BUNDLE]"

text \<open>All the attributes of each group.\<close>

definition MEDIA_ITEM_IDS :: "u16 list" where
  "MEDIA_ITEM_IDS =
    [MEDIA_ITEM_PERSISTENT_ID, MEDIA_ITEM_TITLE, MEDIA_ITEM_MEDIA_TYPE, MEDIA_ITEM_DURATION_MS,
     MEDIA_ITEM_ALBUM, MEDIA_ITEM_ALBUM_TRACK_NUMBER, MEDIA_ITEM_ALBUM_TRACK_COUNT, MEDIA_ITEM_ARTIST,
     MEDIA_ITEM_ALBUM_ARTIST, MEDIA_ITEM_LIKE_SUPPORTED, MEDIA_ITEM_BAN_SUPPORTED, MEDIA_ITEM_LIKED,
     MEDIA_ITEM_BANNED, MEDIA_ITEM_RESIDENT_ON_DEVICE, MEDIA_ITEM_ARTWORK_ID, MEDIA_ITEM_CHAPTER_COUNT]"

definition PLAYBACK_IDS :: "u16 list" where
  "PLAYBACK_IDS =
    [PLAYBACK_STATE, PLAYBACK_POSITION_MS, PLAYBACK_QUEUE_INDEX, PLAYBACK_QUEUE_COUNT,
     PLAYBACK_QUEUE_CHAPTER_INDEX, PLAYBACK_SHUFFLE_MODE, PLAYBACK_REPEAT, PLAYBACK_APP_DISPLAY_NAME,
     PLAYBACK_LIBRARY_UNIQUE_ID, PLAYBACK_RADIO_AD, PLAYBACK_RADIO_STATION_NAME, PLAYBACK_SPEED,
     PLAYBACK_SET_ELAPSED_TIME_AVAILABLE, PLAYBACK_QUEUE_LIST_AVAIL, PLAYBACK_QUEUE_LIST_TRANSFER_ID, PLAYBACK_APP_BUNDLE,
     PLAYBACK_QUEUE_LIST_CONTENT_TRANSFER]"

section \<open>The subscription\<close>

record StartNowPlayingUpdates =
  snpu_media_item :: "u16 list"
  snpu_playback :: "u16 list"

definition StartNowPlayingUpdates_subscription :: "bool \<Rightarrow> bool \<Rightarrow> StartNowPlayingUpdates" where
  "StartNowPlayingUpdates_subscription include_artwork include_position =
    \<lparr>snpu_media_item = MEDIA_ITEM_SUBSCRIBE @ (if include_artwork then [MEDIA_ITEM_ARTWORK_ID] else []),
     snpu_playback = PLAYBACK_SUBSCRIBE @ (if include_position then [PLAYBACK_POSITION_MS] else [])\<rparr>"

definition encode_subscribe_list :: "u16 list \<Rightarrow> bytes" where
  "encode_subscribe_list ids = encode_param_block (empty_params ids)"

definition StartNowPlayingUpdates_to_frame :: "StartNowPlayingUpdates \<Rightarrow> CsmFrame" where
  "StartNowPlayingUpdates_to_frame m =
    \<lparr>cf_msg_id = StartNowPlayingUpdates_MSG_ID, cf_params =
      [param NOW_PLAYING_PARAM_MEDIA_ITEM (encode_subscribe_list (snpu_media_item m)),
       param NOW_PLAYING_PARAM_PLAYBACK (encode_subscribe_list (snpu_playback m))]\<rparr>"

section \<open>Attribute values\<close>

datatype MediaTypeKind = Music | Podcast | AudioBook
datatype PlaybackState = Stopped | Playing | Paused
datatype RepeatMode = RepeatOff | RepeatTrack | RepeatAll
datatype ShuffleMode = ShuffleOff | ShuffleSongs | ShuffleAlbums

definition PlaybackState_from_byte :: "u8 \<Rightarrow> PlaybackState" where
  "PlaybackState_from_byte byte =
    (if byte = 0 then Stopped else if byte = 1 \<or> byte = 3 \<or> byte = 4 then Playing else Paused)"

definition RepeatMode_from_byte :: "u8 \<Rightarrow> RepeatMode" where
  "RepeatMode_from_byte byte = (if byte = 1 then RepeatTrack else if byte = 2 then RepeatAll else RepeatOff)"

fun RepeatMode_as_u32 :: "RepeatMode \<Rightarrow> u32" where
  "RepeatMode_as_u32 RepeatOff = 0"
| "RepeatMode_as_u32 RepeatTrack = 1"
| "RepeatMode_as_u32 RepeatAll = 2"

definition ShuffleMode_from_byte :: "u8 \<Rightarrow> ShuffleMode" where
  "ShuffleMode_from_byte byte = (if byte = 1 then ShuffleSongs else if byte = 2 then ShuffleAlbums else ShuffleOff)"

definition ShuffleMode_is_on :: "ShuffleMode \<Rightarrow> bool" where
  "ShuffleMode_is_on m \<longleftrightarrow> m \<noteq> ShuffleOff"

definition decode_media_types :: "u32 \<Rightarrow> MediaTypeKind list" where
  "decode_media_types bits =
    (if bit bits 0 then [Music] else []) @ (if bit bits 1 then [Podcast] else []) @ (if bit bits 2 then [AudioBook] else [])"

fun media_type_bit :: "MediaTypeKind \<Rightarrow> u32" where
  "media_type_bit Music = 1"
| "media_type_bit Podcast = 2"
| "media_type_bit AudioBook = 4"

definition encode_media_types :: "MediaTypeKind list \<Rightarrow> u32" where
  "encode_media_types types = foldl (\<lambda>bits t. or bits (media_type_bit t)) 0 types"

fun playback_state_byte :: "PlaybackState \<Rightarrow> u8" where
  "playback_state_byte Stopped = 0"
| "playback_state_byte Playing = 1"
| "playback_state_byte Paused = 2"

fun shuffle_mode_byte :: "ShuffleMode \<Rightarrow> u8" where
  "shuffle_mode_byte ShuffleOff = 0"
| "shuffle_mode_byte ShuffleSongs = 1"
| "shuffle_mode_byte ShuffleAlbums = 2"

fun repeat_mode_byte :: "RepeatMode \<Rightarrow> u8" where
  "repeat_mode_byte RepeatOff = 0"
| "repeat_mode_byte RepeatTrack = 1"
| "repeat_mode_byte RepeatAll = 2"

text \<open>\<open>take_optional_be_u8\<close> and its siblings are the optional integer fields again, and
  \<open>take_optional_presence_marker\<close> the optional unit. A presence flag takes the first byte of a payload of
  any length.\<close>

definition conv_presence :: "u16 \<Rightarrow> bytes \<Rightarrow> CsmDecodeError + bool" where
  "conv_presence i b = (if b = [] then Inr True else Inr (b ! 0 \<noteq> 0))"

definition take_optional_presence_bool :: "u16 \<Rightarrow> CsmParam list \<Rightarrow> bool option field_result" where
  "take_optional_presence_bool = dec_optional conv_presence"

definition encode_presence :: "u16 \<Rightarrow> bool option \<Rightarrow> CsmParam list" where
  "encode_presence i v = (if v = Some True then enc_unit i () else [])"

definition dec_map :: "('a \<Rightarrow> 'b) \<Rightarrow> (u16 \<Rightarrow> CsmParam list \<Rightarrow> 'a option field_result) \<Rightarrow> u16 \<Rightarrow> CsmParam list \<Rightarrow>
    'b option field_result" where
  "dec_map f d i ps = res_bind (d i ps) (\<lambda>(v, ps'). Inr (map_option f v, ps'))"

section \<open>The attribute groups\<close>

record MediaItemAttributes =
  mi_persistent_id :: "u64 option"
  mi_title :: "bytes option"
  mi_media_types :: "(MediaTypeKind list) option"
  mi_duration_ms :: "u32 option"
  mi_album :: "bytes option"
  mi_track_number :: "u16 option"
  mi_track_count :: "u16 option"
  mi_artist :: "bytes option"
  mi_album_artist :: "bytes option"
  mi_like_supported :: "bool option"
  mi_ban_supported :: "bool option"
  mi_liked :: "bool option"
  mi_banned :: "bool option"
  mi_resident_on_device :: "bool option"
  mi_artwork_id :: "u8 option"
  mi_chapter_count :: "u16 option"

definition MediaItemAttributes_default :: MediaItemAttributes where
  "MediaItemAttributes_default = \<lparr>mi_persistent_id = None,
     mi_title = None,
     mi_media_types = None,
     mi_duration_ms = None,
     mi_album = None,
     mi_track_number = None,
     mi_track_count = None,
     mi_artist = None,
     mi_album_artist = None,
     mi_like_supported = None,
     mi_ban_supported = None,
     mi_liked = None,
     mi_banned = None,
     mi_resident_on_device = None,
     mi_artwork_id = None,
     mi_chapter_count = None\<rparr>"

definition MediaItemAttributes_decode_group :: "bytes \<Rightarrow> CsmDecodeError + MediaItemAttributes" where
  "MediaItemAttributes_decode_group payload =
    res_bind (decode_param_block payload) (\<lambda>ps.
    res_bind (dec_option_u64 MEDIA_ITEM_PERSISTENT_ID ps) (\<lambda>(persistent_id, ps).
    res_bind (dec_option_string MEDIA_ITEM_TITLE ps) (\<lambda>(title, ps).
    res_bind (dec_map decode_media_types dec_option_u32 MEDIA_ITEM_MEDIA_TYPE ps) (\<lambda>(media_types, ps).
    res_bind (dec_option_u32 MEDIA_ITEM_DURATION_MS ps) (\<lambda>(duration_ms, ps).
    res_bind (dec_option_string MEDIA_ITEM_ALBUM ps) (\<lambda>(album, ps).
    res_bind (dec_option_u16 MEDIA_ITEM_ALBUM_TRACK_NUMBER ps) (\<lambda>(track_number, ps).
    res_bind (dec_option_u16 MEDIA_ITEM_ALBUM_TRACK_COUNT ps) (\<lambda>(track_count, ps).
    res_bind (dec_option_string MEDIA_ITEM_ARTIST ps) (\<lambda>(artist, ps).
    res_bind (dec_option_string MEDIA_ITEM_ALBUM_ARTIST ps) (\<lambda>(album_artist, ps).
    res_bind (take_optional_presence_bool MEDIA_ITEM_LIKE_SUPPORTED ps) (\<lambda>(like_supported, ps).
    res_bind (take_optional_presence_bool MEDIA_ITEM_BAN_SUPPORTED ps) (\<lambda>(ban_supported, ps).
    res_bind (take_optional_presence_bool MEDIA_ITEM_LIKED ps) (\<lambda>(liked, ps).
    res_bind (take_optional_presence_bool MEDIA_ITEM_BANNED ps) (\<lambda>(banned, ps).
    res_bind (take_optional_presence_bool MEDIA_ITEM_RESIDENT_ON_DEVICE ps) (\<lambda>(resident_on_device, ps).
    res_bind (dec_option_u8 MEDIA_ITEM_ARTWORK_ID ps) (\<lambda>(artwork_id, ps).
    res_bind (dec_option_u16 MEDIA_ITEM_CHAPTER_COUNT ps) (\<lambda>(chapter_count, ps).
    Inr \<lparr>mi_persistent_id = persistent_id,
         mi_title = title,
         mi_media_types = media_types,
         mi_duration_ms = duration_ms,
         mi_album = album,
         mi_track_number = track_number,
         mi_track_count = track_count,
         mi_artist = artist,
         mi_album_artist = album_artist,
         mi_like_supported = like_supported,
         mi_ban_supported = ban_supported,
         mi_liked = liked,
         mi_banned = banned,
         mi_resident_on_device = resident_on_device,
         mi_artwork_id = artwork_id,
         mi_chapter_count = chapter_count\<rparr>)))))))))))))))))"

definition MediaItemAttributes_params :: "MediaItemAttributes \<Rightarrow> CsmParam list" where
  "MediaItemAttributes_params m =
    enc_option enc_u64 MEDIA_ITEM_PERSISTENT_ID (mi_persistent_id m) @
    enc_option enc_string MEDIA_ITEM_TITLE (mi_title m) @
    enc_option (\<lambda>i v. enc_u32 i (encode_media_types v)) MEDIA_ITEM_MEDIA_TYPE (mi_media_types m) @
    enc_option enc_u32 MEDIA_ITEM_DURATION_MS (mi_duration_ms m) @
    enc_option enc_string MEDIA_ITEM_ALBUM (mi_album m) @
    enc_option enc_u16 MEDIA_ITEM_ALBUM_TRACK_NUMBER (mi_track_number m) @
    enc_option enc_u16 MEDIA_ITEM_ALBUM_TRACK_COUNT (mi_track_count m) @
    enc_option enc_string MEDIA_ITEM_ARTIST (mi_artist m) @
    enc_option enc_string MEDIA_ITEM_ALBUM_ARTIST (mi_album_artist m) @
    encode_presence MEDIA_ITEM_LIKE_SUPPORTED (mi_like_supported m) @
    encode_presence MEDIA_ITEM_BAN_SUPPORTED (mi_ban_supported m) @
    encode_presence MEDIA_ITEM_LIKED (mi_liked m) @
    encode_presence MEDIA_ITEM_BANNED (mi_banned m) @
    encode_presence MEDIA_ITEM_RESIDENT_ON_DEVICE (mi_resident_on_device m) @
    enc_option enc_u8 MEDIA_ITEM_ARTWORK_ID (mi_artwork_id m) @
    enc_option enc_u16 MEDIA_ITEM_CHAPTER_COUNT (mi_chapter_count m)"

definition MediaItemAttributes_encode_group :: "MediaItemAttributes \<Rightarrow> bytes" where
  "MediaItemAttributes_encode_group m = encode_param_block (MediaItemAttributes_params m)"

record PlaybackAttributes =
  pb_state :: "PlaybackState option"
  pb_position_ms :: "u32 option"
  pb_queue_index :: "u32 option"
  pb_queue_count :: "u32 option"
  pb_queue_chapter_index :: "u32 option"
  pb_shuffle_mode :: "ShuffleMode option"
  pb_repeat :: "RepeatMode option"
  pb_app_display_name :: "bytes option"
  pb_library_unique_id :: "bytes option"
  pb_apple_music_radio_ad :: "bool option"
  pb_apple_music_radio_station_name :: "bytes option"
  pb_playback_speed_hundredths :: "u16 option"
  pb_set_elapsed_time_available :: "bool option"
  pb_queue_list_avail :: "bool option"
  pb_queue_list_transfer_id :: "u8 option"
  pb_app_bundle :: "bytes option"
  pb_queue_list_content_transfer :: "unit option"

definition PlaybackAttributes_default :: PlaybackAttributes where
  "PlaybackAttributes_default = \<lparr>pb_state = None,
     pb_position_ms = None,
     pb_queue_index = None,
     pb_queue_count = None,
     pb_queue_chapter_index = None,
     pb_shuffle_mode = None,
     pb_repeat = None,
     pb_app_display_name = None,
     pb_library_unique_id = None,
     pb_apple_music_radio_ad = None,
     pb_apple_music_radio_station_name = None,
     pb_playback_speed_hundredths = None,
     pb_set_elapsed_time_available = None,
     pb_queue_list_avail = None,
     pb_queue_list_transfer_id = None,
     pb_app_bundle = None,
     pb_queue_list_content_transfer = None\<rparr>"

definition PlaybackAttributes_decode_group :: "bytes \<Rightarrow> CsmDecodeError + PlaybackAttributes" where
  "PlaybackAttributes_decode_group payload =
    res_bind (decode_param_block payload) (\<lambda>ps.
    res_bind (dec_map PlaybackState_from_byte dec_option_u8 PLAYBACK_STATE ps) (\<lambda>(state, ps).
    res_bind (dec_option_u32 PLAYBACK_POSITION_MS ps) (\<lambda>(position_ms, ps).
    res_bind (dec_option_u32 PLAYBACK_QUEUE_INDEX ps) (\<lambda>(queue_index, ps).
    res_bind (dec_option_u32 PLAYBACK_QUEUE_COUNT ps) (\<lambda>(queue_count, ps).
    res_bind (dec_option_u32 PLAYBACK_QUEUE_CHAPTER_INDEX ps) (\<lambda>(queue_chapter_index, ps).
    res_bind (dec_map ShuffleMode_from_byte dec_option_u8 PLAYBACK_SHUFFLE_MODE ps) (\<lambda>(shuffle_mode, ps).
    res_bind (dec_map RepeatMode_from_byte dec_option_u8 PLAYBACK_REPEAT ps) (\<lambda>(repeat, ps).
    res_bind (dec_option_string PLAYBACK_APP_DISPLAY_NAME ps) (\<lambda>(app_display_name, ps).
    res_bind (dec_option_string PLAYBACK_LIBRARY_UNIQUE_ID ps) (\<lambda>(library_unique_id, ps).
    res_bind (take_optional_presence_bool PLAYBACK_RADIO_AD ps) (\<lambda>(apple_music_radio_ad, ps).
    res_bind (dec_option_string PLAYBACK_RADIO_STATION_NAME ps) (\<lambda>(apple_music_radio_station_name, ps).
    res_bind (dec_option_u16 PLAYBACK_SPEED ps) (\<lambda>(playback_speed_hundredths, ps).
    res_bind (take_optional_presence_bool PLAYBACK_SET_ELAPSED_TIME_AVAILABLE ps) (\<lambda>(set_elapsed_time_available, ps).
    res_bind (take_optional_presence_bool PLAYBACK_QUEUE_LIST_AVAIL ps) (\<lambda>(queue_list_avail, ps).
    res_bind (dec_option_u8 PLAYBACK_QUEUE_LIST_TRANSFER_ID ps) (\<lambda>(queue_list_transfer_id, ps).
    res_bind (dec_option_string PLAYBACK_APP_BUNDLE ps) (\<lambda>(app_bundle, ps).
    res_bind (dec_option_unit PLAYBACK_QUEUE_LIST_CONTENT_TRANSFER ps) (\<lambda>(queue_list_content_transfer, ps).
    Inr \<lparr>pb_state = state,
         pb_position_ms = position_ms,
         pb_queue_index = queue_index,
         pb_queue_count = queue_count,
         pb_queue_chapter_index = queue_chapter_index,
         pb_shuffle_mode = shuffle_mode,
         pb_repeat = repeat,
         pb_app_display_name = app_display_name,
         pb_library_unique_id = library_unique_id,
         pb_apple_music_radio_ad = apple_music_radio_ad,
         pb_apple_music_radio_station_name = apple_music_radio_station_name,
         pb_playback_speed_hundredths = playback_speed_hundredths,
         pb_set_elapsed_time_available = set_elapsed_time_available,
         pb_queue_list_avail = queue_list_avail,
         pb_queue_list_transfer_id = queue_list_transfer_id,
         pb_app_bundle = app_bundle,
         pb_queue_list_content_transfer = queue_list_content_transfer\<rparr>))))))))))))))))))"

definition PlaybackAttributes_params :: "PlaybackAttributes \<Rightarrow> CsmParam list" where
  "PlaybackAttributes_params m =
    enc_option (\<lambda>i v. enc_u8 i (playback_state_byte v)) PLAYBACK_STATE (pb_state m) @
    enc_option enc_u32 PLAYBACK_POSITION_MS (pb_position_ms m) @
    enc_option enc_u32 PLAYBACK_QUEUE_INDEX (pb_queue_index m) @
    enc_option enc_u32 PLAYBACK_QUEUE_COUNT (pb_queue_count m) @
    enc_option enc_u32 PLAYBACK_QUEUE_CHAPTER_INDEX (pb_queue_chapter_index m) @
    enc_option (\<lambda>i v. enc_u8 i (shuffle_mode_byte v)) PLAYBACK_SHUFFLE_MODE (pb_shuffle_mode m) @
    enc_option (\<lambda>i v. enc_u8 i (repeat_mode_byte v)) PLAYBACK_REPEAT (pb_repeat m) @
    enc_option enc_string PLAYBACK_APP_DISPLAY_NAME (pb_app_display_name m) @
    enc_option enc_string PLAYBACK_LIBRARY_UNIQUE_ID (pb_library_unique_id m) @
    encode_presence PLAYBACK_RADIO_AD (pb_apple_music_radio_ad m) @
    enc_option enc_string PLAYBACK_RADIO_STATION_NAME (pb_apple_music_radio_station_name m) @
    enc_option enc_u16 PLAYBACK_SPEED (pb_playback_speed_hundredths m) @
    encode_presence PLAYBACK_SET_ELAPSED_TIME_AVAILABLE (pb_set_elapsed_time_available m) @
    encode_presence PLAYBACK_QUEUE_LIST_AVAIL (pb_queue_list_avail m) @
    enc_option enc_u8 PLAYBACK_QUEUE_LIST_TRANSFER_ID (pb_queue_list_transfer_id m) @
    enc_option enc_string PLAYBACK_APP_BUNDLE (pb_app_bundle m) @
    enc_option enc_unit PLAYBACK_QUEUE_LIST_CONTENT_TRANSFER (pb_queue_list_content_transfer m)"

definition PlaybackAttributes_encode_group :: "PlaybackAttributes \<Rightarrow> bytes" where
  "PlaybackAttributes_encode_group m = encode_param_block (PlaybackAttributes_params m)"

section \<open>The update\<close>

record NowPlayingUpdate =
  npu_media_item :: "MediaItemAttributes option"
  npu_playback :: "PlaybackAttributes option"

text \<open>An empty group parameter is the default group.\<close>

definition optional_group :: "(bytes \<Rightarrow> CsmDecodeError + 'a) \<Rightarrow> 'a \<Rightarrow> u16 \<Rightarrow> CsmParam list \<Rightarrow> 'a option field_result" where
  "optional_group decode_group default_group i ps =
    (case remove_first i ps of
       None \<Rightarrow> Inr (None, ps)
     | Some (payload, ps') \<Rightarrow>
         (if has_param i ps' then Inl (DuplicateParam i)
          else if payload = [] then Inr (Some default_group, ps')
          else res_bind (decode_group payload) (\<lambda>g. Inr (Some g, ps'))))"

definition NowPlayingUpdate_from_frame :: "CsmFrame \<Rightarrow> CsmDecodeError + NowPlayingUpdate" where
  "NowPlayingUpdate_from_frame frame =
    (if cf_msg_id frame \<noteq> NowPlayingUpdate_MSG_ID then Inl (WrongMsgId (cf_msg_id frame) NowPlayingUpdate_MSG_ID) else
     res_bind (optional_group MediaItemAttributes_decode_group MediaItemAttributes_default NOW_PLAYING_PARAM_MEDIA_ITEM
       (cf_params frame)) (\<lambda>(media_item, ps).
     res_bind (optional_group PlaybackAttributes_decode_group PlaybackAttributes_default NOW_PLAYING_PARAM_PLAYBACK ps)
       (\<lambda>(playback, ps).
     Inr \<lparr>npu_media_item = media_item, npu_playback = playback\<rparr>)))"

definition NowPlayingUpdate_to_frame :: "NowPlayingUpdate \<Rightarrow> CsmFrame" where
  "NowPlayingUpdate_to_frame m =
    \<lparr>cf_msg_id = NowPlayingUpdate_MSG_ID, cf_params =
      (case npu_media_item m of None \<Rightarrow> [] | Some g \<Rightarrow> [param NOW_PLAYING_PARAM_MEDIA_ITEM (MediaItemAttributes_encode_group g)]) @
      (case npu_playback m of None \<Rightarrow> [] | Some g \<Rightarrow> [param NOW_PLAYING_PARAM_PLAYBACK (PlaybackAttributes_encode_group g)])\<rparr>"

section \<open>The queue snapshot\<close>

text \<open>An entry whose group does not decode is skipped.\<close>

definition decode_queue_snapshot :: "bytes \<Rightarrow> CsmDecodeError + MediaItemAttributes list" where
  "decode_queue_snapshot blob =
    res_bind (decode_param_block blob) (\<lambda>entries.
      Inr (List.map_filter (\<lambda>p. case MediaItemAttributes_decode_group (cp_payload p) of
                                Inr item \<Rightarrow> Some item | Inl e \<Rightarrow> None) entries))"

definition encode_queue_snapshot :: "MediaItemAttributes list \<Rightarrow> bytes" where
  "encode_queue_snapshot items =
    encode_param_block (map (\<lambda>(idx, item). param (of_nat idx) (MediaItemAttributes_encode_group item)) (enumerate 0 items))"

section \<open>Reading back\<close>

text \<open>What the encoders can express: each kind of media once and in order, no flag that is present and
  false, and a block that fits the length field.\<close>

definition media_types_listed :: "MediaTypeKind list \<Rightarrow> bool" where
  "media_types_listed ts \<longleftrightarrow> ts \<in> set (subseqs [Music, Podcast, AudioBook])"

definition MediaItemAttributes_ok :: "MediaItemAttributes \<Rightarrow> bool" where
  "MediaItemAttributes_ok m \<longleftrightarrow>
    pred_option utf8_valid (mi_title m) \<and>
    pred_option media_types_listed (mi_media_types m) \<and>
    pred_option utf8_valid (mi_album m) \<and>
    pred_option utf8_valid (mi_artist m) \<and>
    pred_option utf8_valid (mi_album_artist m) \<and>
    mi_like_supported m \<noteq> Some False \<and>
    mi_ban_supported m \<noteq> Some False \<and>
    mi_liked m \<noteq> Some False \<and>
    mi_banned m \<noteq> Some False \<and>
    mi_resident_on_device m \<noteq> Some False \<and>
    params_len (MediaItemAttributes_params m) < 65000"

definition PlaybackAttributes_ok :: "PlaybackAttributes \<Rightarrow> bool" where
  "PlaybackAttributes_ok m \<longleftrightarrow>
    pred_option utf8_valid (pb_app_display_name m) \<and>
    pred_option utf8_valid (pb_library_unique_id m) \<and>
    pb_apple_music_radio_ad m \<noteq> Some False \<and>
    pred_option utf8_valid (pb_apple_music_radio_station_name m) \<and>
    pb_set_elapsed_time_available m \<noteq> Some False \<and>
    pb_queue_list_avail m \<noteq> Some False \<and>
    pred_option utf8_valid (pb_app_bundle m) \<and>
    params_len (PlaybackAttributes_params m) < 65000"

lemma media_types_all: "list_all (\<lambda>ts. decode_media_types (encode_media_types ts) = ts) (subseqs [Music, Podcast, AudioBook])"
  by code_simp

lemma media_types_roundtrip: "media_types_listed ts \<Longrightarrow> decode_media_types (encode_media_types ts) = ts"
  using media_types_all by (auto simp: media_types_listed_def list_all_iff simp del: subseqs.simps)

lemma state_roundtrip: "PlaybackState_from_byte (playback_state_byte v) = v"
  by (cases v) (simp_all add: PlaybackState_from_byte_def)

lemma shuffle_roundtrip: "ShuffleMode_from_byte (shuffle_mode_byte v) = v"
  by (cases v) (simp_all add: ShuffleMode_from_byte_def)

lemma repeat_roundtrip: "RepeatMode_from_byte (repeat_mode_byte v) = v"
  by (cases v) (simp_all add: RepeatMode_from_byte_def)

text \<open>A field whose value goes through a conversion.\<close>

lemma csm_field_map:
  assumes "csm_field (enc_option e) d (pred_option (\<lambda>_. True))" "\<And>v. okv v \<Longrightarrow> f (g v) = v"
  shows "csm_field (enc_option (\<lambda>i v. e i (g v))) (dec_map f d) (pred_option okv)"
proof
  have enc: "enc_option (\<lambda>i v. e i (g v)) i v = enc_option e i (map_option g v)" for i v by (cases v) simp_all
  show "p \<in> set (enc_option (\<lambda>i v. e i (g v)) i v) \<Longrightarrow> cp_id p = i" for p i v
    unfolding enc by (rule csm_field.enc_ids [OF assms(1)])
  fix v i pre post assume v: "pred_option okv v" and no: "no_param i pre" "no_param i post"
  have "map_option f (map_option g v) = v" using v assms(2) by (cases v) auto
  then show "dec_map f d i (pre @ enc_option (\<lambda>i v. e i (g v)) i v @ post) = Inr (v, pre @ post)"
    using csm_field.dec_enc [OF assms(1) _ no, of "map_option g v"]
    by (simp add: enc dec_map_def pred_option_True)
qed

interpretation media_types_field: csm_field "enc_option (\<lambda>i v. enc_u32 i (encode_media_types v))"
    "dec_map decode_media_types dec_option_u32" "pred_option media_types_listed"
  by (rule csm_field_map [OF option_u32_field.csm_field_axioms media_types_roundtrip])
interpretation state_field: csm_field "enc_option (\<lambda>i v. enc_u8 i (playback_state_byte v))"
    "dec_map PlaybackState_from_byte dec_option_u8" "pred_option (\<lambda>_. True)"
  by (rule csm_field_map [OF option_u8_field.csm_field_axioms state_roundtrip])
interpretation shuffle_field: csm_field "enc_option (\<lambda>i v. enc_u8 i (shuffle_mode_byte v))"
    "dec_map ShuffleMode_from_byte dec_option_u8" "pred_option (\<lambda>_. True)"
  by (rule csm_field_map [OF option_u8_field.csm_field_axioms shuffle_roundtrip])
interpretation repeat_field: csm_field "enc_option (\<lambda>i v. enc_u8 i (repeat_mode_byte v))"
    "dec_map RepeatMode_from_byte dec_option_u8" "pred_option (\<lambda>_. True)"
  by (rule csm_field_map [OF option_u8_field.csm_field_axioms repeat_roundtrip])

interpretation presence_field: csm_field encode_presence take_optional_presence_bool "\<lambda>v. v \<noteq> Some False"
proof (unfold_locales, goal_cases)
  case (1 p i v)
  then show ?case by (auto simp: encode_presence_def enc_unit_def split: if_splits)
next
  case (2 v i pre post)
  then show ?case
    by (cases v) (auto simp: encode_presence_def enc_unit_def take_optional_presence_bool_def dec_optional_def
      take_optional_def remove_first_at remove_first_none conv_presence_def)
qed

lemmas attribute_fields =
  media_types_field.dec_enc media_types_field.no_param_enc state_field.dec_enc state_field.no_param_enc
  shuffle_field.dec_enc shuffle_field.no_param_enc repeat_field.dec_enc repeat_field.no_param_enc
  presence_field.dec_enc presence_field.no_param_enc

declare attribute_fields [csm_field_simps]

lemma MediaItemAttributes_group_among:
  assumes "decode_param_block payload = Inr (pre @ MediaItemAttributes_params m @ post)" "MediaItemAttributes_ok m"
    "list_all (\<lambda>i. no_param i pre \<and> no_param i post) MEDIA_ITEM_IDS"
  shows "MediaItemAttributes_decode_group payload = Inr m"
  using assms unfolding MediaItemAttributes_decode_group_def
  by (auto simp: MediaItemAttributes_params_def MediaItemAttributes_ok_def csm_field_simps attribute_ids MEDIA_ITEM_IDS_def)

lemma PlaybackAttributes_group_among:
  assumes "decode_param_block payload = Inr (pre @ PlaybackAttributes_params m @ post)" "PlaybackAttributes_ok m"
    "list_all (\<lambda>i. no_param i pre \<and> no_param i post) PLAYBACK_IDS"
  shows "PlaybackAttributes_decode_group payload = Inr m"
  using assms unfolding PlaybackAttributes_decode_group_def
  by (auto simp: PlaybackAttributes_params_def PlaybackAttributes_ok_def csm_field_simps attribute_ids PLAYBACK_IDS_def)

lemma no_param_everywhere: "list_all (\<lambda>i. no_param i [] \<and> no_param i []) ids"
  by (simp add: list_all_iff)

lemma MediaItemAttributes_group:
  "MediaItemAttributes_ok m \<Longrightarrow> MediaItemAttributes_decode_group (MediaItemAttributes_encode_group m) = Inr m"
  using MediaItemAttributes_group_among [of "MediaItemAttributes_encode_group m" "[]" m "[]"]
  by (simp add: MediaItemAttributes_encode_group_def decode_param_block_encode MediaItemAttributes_ok_def list_all_iff)

lemma PlaybackAttributes_group:
  "PlaybackAttributes_ok m \<Longrightarrow> PlaybackAttributes_decode_group (PlaybackAttributes_encode_group m) = Inr m"
  using PlaybackAttributes_group_among [of "PlaybackAttributes_encode_group m" "[]" m "[]"]
  by (simp add: PlaybackAttributes_encode_group_def decode_param_block_encode PlaybackAttributes_ok_def list_all_iff)

lemma decode_param_block_Nil: "decode_param_block [] = Inr []"
  by (simp add: decode_param_block_def decode_params_def decode_params_at.simps)

lemma default_groups:
  "MediaItemAttributes_decode_group [] = Inr MediaItemAttributes_default"
  "PlaybackAttributes_decode_group [] = Inr PlaybackAttributes_default"
  by (simp_all add: MediaItemAttributes_decode_group_def PlaybackAttributes_decode_group_def decode_param_block_Nil
    MediaItemAttributes_default_def PlaybackAttributes_default_def dec_map_def dec_optional_def take_optional_def
    take_optional_presence_bool_def dec_option_string_def dec_option_u8_def dec_option_u16_def dec_option_u32_def
    dec_option_u64_def dec_option_unit_def)

lemma csm_field_group:
  assumes "\<And>g. okg g \<Longrightarrow> decode (encode g) = Inr g" "decode [] = Inr dflt"
  shows "csm_field (enc_option (\<lambda>i g. [param i (encode g)])) (optional_group decode dflt) (pred_option okg)"
proof (unfold_locales, goal_cases)
  case (1 p i v)
  then show ?case by (cases v) auto
next
  case (2 v i pre post)
  show ?case
  proof (cases v)
    case None
    then show ?thesis using 2 by (simp add: optional_group_def remove_first_none)
  next
    case (Some g)
    then have g: "decode (encode g) = Inr g" using 2 assms(1) by simp
    then have "encode g = [] \<Longrightarrow> g = dflt" using assms(2) by simp
    then show ?thesis using 2 Some g by (auto simp: optional_group_def remove_first_at)
  qed
qed

interpretation media_group_field: csm_field "enc_option (\<lambda>i g. [param i (MediaItemAttributes_encode_group g)])"
    "optional_group MediaItemAttributes_decode_group MediaItemAttributes_default" "pred_option MediaItemAttributes_ok"
  by (rule csm_field_group [OF MediaItemAttributes_group default_groups(1)])
interpretation playback_group_field: csm_field "enc_option (\<lambda>i g. [param i (PlaybackAttributes_encode_group g)])"
    "optional_group PlaybackAttributes_decode_group PlaybackAttributes_default" "pred_option PlaybackAttributes_ok"
  by (rule csm_field_group [OF PlaybackAttributes_group default_groups(2)])

definition NowPlayingUpdate_ok :: "NowPlayingUpdate \<Rightarrow> bool" where
  "NowPlayingUpdate_ok m \<longleftrightarrow>
    pred_option MediaItemAttributes_ok (npu_media_item m) \<and> pred_option PlaybackAttributes_ok (npu_playback m)"

lemma NowPlayingUpdate_params: "cf_params (NowPlayingUpdate_to_frame m) =
    enc_option (\<lambda>i g. [param i (MediaItemAttributes_encode_group g)]) 0 (npu_media_item m) @
    enc_option (\<lambda>i g. [param i (PlaybackAttributes_encode_group g)]) 1 (npu_playback m)"
  by (auto simp: NowPlayingUpdate_to_frame_def NOW_PLAYING_PARAM_MEDIA_ITEM_def NOW_PLAYING_PARAM_PLAYBACK_def
    split: option.splits)

interpretation NowPlayingUpdate_msg: extensible_message NowPlayingUpdate_to_frame NowPlayingUpdate_from_frame NowPlayingUpdate_MSG_ID NowPlayingUpdate_ok "[0, 1]"
proof (unfold_locales, goal_cases)
  case (1 m)
  then show ?case by (simp add: NowPlayingUpdate_to_frame_def)
next
  case (2 m pre post)
  then show ?case
    by (auto simp: NowPlayingUpdate_from_frame_def NowPlayingUpdate_params NowPlayingUpdate_ok_def
      NOW_PLAYING_PARAM_MEDIA_ITEM_def NOW_PLAYING_PARAM_PLAYBACK_def media_group_field.dec_enc
      media_group_field.no_param_enc playback_group_field.dec_enc playback_group_field.no_param_enc)
next
  case (3 f)
  then show ?case by (simp add: NowPlayingUpdate_from_frame_def)
qed

text \<open>The update that the accessory decodes is the one that the device encoded, through the wire, and
  also when the device adds parameters the accessory does not know: the two attribute groups with every
  attribute, absent ones included.\<close>

theorem now_playing_update_through_wire:
  assumes "NowPlayingUpdate_ok m" "list_all (\<lambda>p. cp_id p \<notin> {0, 1}) extra"
    "f = \<lparr>cf_msg_id = NowPlayingUpdate_MSG_ID, cf_params = cf_params (NowPlayingUpdate_to_frame m) @ extra\<rparr>" "csm_fits f"
  shows "\<exists>g. csm_decode (csm_encode f @ rest) = (Inr (Some g), rest) \<and> NowPlayingUpdate_from_frame g = Inr m"
proof -
  have "no_param 0 extra" "no_param 1 extra" using assms(2) by (auto simp: no_param_def list_all_iff)
  then have "NowPlayingUpdate_from_frame f = Inr m"
    using NowPlayingUpdate_msg.read_among [of m "[]" extra] assms(1,3) by simp
  then show ?thesis using assms(4) by (simp add: csm_decode_encode)
qed

text \<open>A song that plays, with a parameter number that the accessory has no name for.\<close>

definition sample_item :: MediaItemAttributes where
  "sample_item = MediaItemAttributes_default\<lparr>mi_title := Some (text_of ''Song''), mi_liked := Some True\<rparr>"

definition sample_playback :: PlaybackAttributes where
  "sample_playback = PlaybackAttributes_default\<lparr>pb_state := Some Playing, pb_position_ms := Some 1500\<rparr>"

lemma sample_params:
  "MediaItemAttributes_params sample_item = [param 1 (text_of ''Song'' @ [0]), param 0x17 []]"
  "PlaybackAttributes_params sample_playback = [param 0 [1], param 1 (be32 1500)]"
  by (simp_all add: MediaItemAttributes_params_def PlaybackAttributes_params_def sample_item_def sample_playback_def
    MediaItemAttributes_default_def PlaybackAttributes_default_def attribute_ids encode_presence_def enc_string_def
    enc_unit_def enc_u8_def enc_u32_def)

lemma sample_ok: "MediaItemAttributes_ok sample_item" "PlaybackAttributes_ok sample_playback"
  by (simp_all add: MediaItemAttributes_ok_def PlaybackAttributes_ok_def sample_params CSM_PARAM_HEADER_LEN_def)
    (simp_all add: sample_item_def sample_playback_def MediaItemAttributes_default_def PlaybackAttributes_default_def
      text_of_def)

theorem now_playing_update_through_wire_witness:
  "let m = \<lparr>npu_media_item = Some sample_item, npu_playback = Some sample_playback\<rparr>;
       f = \<lparr>cf_msg_id = NowPlayingUpdate_MSG_ID, cf_params = cf_params (NowPlayingUpdate_to_frame m) @ [param 9 [7]]\<rparr>
   in \<exists>g. csm_decode (csm_encode f @ [64]) = (Inr (Some g), [64]) \<and> NowPlayingUpdate_from_frame g = Inr m"
  unfolding Let_def
proof (rule now_playing_update_through_wire [OF _ _ refl])
  show "NowPlayingUpdate_ok \<lparr>npu_media_item = Some sample_item, npu_playback = Some sample_playback\<rparr>"
    by (simp add: NowPlayingUpdate_ok_def sample_ok)
qed (simp_all add: NowPlayingUpdate_to_frame_def csm_fits_def MediaItemAttributes_encode_group_def
    PlaybackAttributes_encode_group_def encode_param_block_def length_encode_params sample_params text_of_def
    CSM_OUTER_HEADER_LEN_def CSM_PARAM_HEADER_LEN_def)

lemma decode_params_block_each: "list_all param_fits ps \<Longrightarrow> decode_param_block (encode_param_block ps) = Inr ps"
  by (simp add: decode_param_block_def encode_param_block_def decode_params_def decode_params_encode_each)

lemma MediaItemAttributes_fits: "MediaItemAttributes_ok m \<Longrightarrow> param_fits (param i (MediaItemAttributes_encode_group m))"
  by (simp add: MediaItemAttributes_ok_def param_fits_def MediaItemAttributes_encode_group_def encode_param_block_def
    length_encode_params CSM_PARAM_HEADER_LEN_def)

text \<open>A queue snapshot is read back entry for entry, however long it is; an entry whose group is
  broken is left out and does not take the others with it.\<close>

theorem queue_snapshot_skips_broken:
  assumes "list_all MediaItemAttributes_ok before" "list_all MediaItemAttributes_ok after"
    "MediaItemAttributes_decode_group broken = Inl e" "length broken < 65532"
  shows "decode_queue_snapshot (encode_queue_snapshot before @ encode_param_block [param i broken] @ encode_queue_snapshot after)
    = Inr (before @ after)"
proof -
  let ?read = "\<lambda>p. case MediaItemAttributes_decode_group (cp_payload p) of Inr item \<Rightarrow> Some item | Inl e \<Rightarrow> None"
  let ?ps = "\<lambda>items. map (\<lambda>(idx, item). param (of_nat idx) (MediaItemAttributes_encode_group item)) (enumerate 0 items)"
  have fits: "list_all param_fits (map (\<lambda>(idx, item). param (of_nat idx) (MediaItemAttributes_encode_group item)) (enumerate n items))"
    and filt: "List.map_filter ?read (map (\<lambda>(idx, item). param (of_nat idx) (MediaItemAttributes_encode_group item)) (enumerate n items)) = items"
    if "list_all MediaItemAttributes_ok items" for items n
    using that by (induction items arbitrary: n) (auto simp: MediaItemAttributes_fits MediaItemAttributes_group)
  have app: "encode_param_block ps @ encode_param_block qs = encode_param_block (ps @ qs)" for ps qs
    by (induction ps) (simp_all add: encode_param_block_def)
  have "param_fits (param i broken)" using assms(4) by (simp add: param_fits_def CSM_PARAM_HEADER_LEN_def)
  then have "decode_queue_snapshot (encode_queue_snapshot before @ encode_param_block [param i broken] @ encode_queue_snapshot after)
    = Inr (List.map_filter ?read (?ps before @ [param i broken] @ ?ps after))"
    using assms(1,2) by (simp add: decode_queue_snapshot_def encode_queue_snapshot_def app decode_params_block_each fits)
  then show ?thesis
    using assms filt [of before 0] filt [of after 0] by (simp add: List.map_filter_def)
qed

theorem queue_snapshot_skips_broken_witness:
  "decode_queue_snapshot (encode_queue_snapshot [sample_item] @ encode_param_block [param 7 [5]] @
    encode_queue_snapshot [sample_item, sample_item]) = Inr ([sample_item] @ [sample_item, sample_item])"
  by (rule queue_snapshot_skips_broken [where e = "ParamLengthOverrun 0 1 1"])
    (simp_all add: sample_ok MediaItemAttributes_decode_group_def decode_param_block_def decode_params_def
      decode_params_at.simps CSM_PARAM_HEADER_LEN_def)

end
