(* ===== verification/Lane_Scheduler.thy ===== *)
theory Lane_Scheduler
  imports Prelude "HOL-Library.Multiset" "HOL-Library.Sublist"
begin

text \<open>The outbound lanes (\<open>crates/sdk-runtime/src/sched.rs\<close>, with the priorities of
  \<open>crates/lib/src/shared/priority.rs\<close>): \<open>LaneScheduler\<close>, which composes batches out of three lanes, and
  the budgeted channels in front of it. The trait \<open>LaneItem\<close> is the argument \<open>len\<close>.\<close>

datatype Priority = Normal | Bulk | Background

fun Priority_as_byte :: "Priority \<Rightarrow> u8" where
  "Priority_as_byte Normal = 0x00"
| "Priority_as_byte Bulk = 0x01"
| "Priority_as_byte Background = 0x02"

definition Priority_from_byte :: "u8 \<Rightarrow> Priority" where
  "Priority_from_byte byte = (if byte = 0x01 then Bulk else if byte = 0x02 then Background else Normal)"

definition LANE_RESERVE :: "nat list" where "LANE_RESERVE = [70, 20, 10]"

fun lane_index :: "Priority \<Rightarrow> nat" where
  "lane_index Normal = 0"
| "lane_index Bulk = 1"
| "lane_index Background = 2"

text \<open>\<open>usize\<close> of the 64-bit targets, where the code saturates.\<close>

definition USIZE_MAX :: nat where "USIZE_MAX = 2 ^ 64 - 1"
definition sat_add :: "nat \<Rightarrow> nat \<Rightarrow> nat" where "sat_add a b = min (a + b) USIZE_MAX"
definition sat_mul :: "nat \<Rightarrow> nat \<Rightarrow> nat" where "sat_mul a b = min (a * b) USIZE_MAX"

definition allowance :: "nat \<Rightarrow> nat \<Rightarrow> nat" where
  "allowance mx share = max (sat_mul mx share div 100) 1"

section \<open>Lanes\<close>

record 'a Lane =
  ln_queue :: "'a list"
  ln_bytes :: nat
  ln_credit :: nat

record 'a Batch =
  b_items :: "'a list"
  b_bytes :: nat

definition Lane_new :: "'a Lane" where
  "Lane_new = \<lparr>ln_queue = [], ln_bytes = 0, ln_credit = 0\<rparr>"

definition head_len :: "('a \<Rightarrow> nat) \<Rightarrow> 'a Lane \<Rightarrow> nat option" where
  "head_len len lane = (case ln_queue lane of [] \<Rightarrow> None | h # q \<Rightarrow> Some (len h))"

definition lane_push :: "('a \<Rightarrow> nat) \<Rightarrow> 'a \<Rightarrow> 'a Lane \<Rightarrow> 'a Lane" where
  "lane_push len item lane = lane\<lparr>ln_bytes := ln_bytes lane + len item, ln_queue := ln_queue lane @ [item]\<rparr>"

definition lane_pop :: "('a \<Rightarrow> nat) \<Rightarrow> 'a Lane \<Rightarrow> ('a \<times> 'a Lane) option" where
  "lane_pop len lane =
    (case ln_queue lane of
       [] \<Rightarrow> None
     | item # q \<Rightarrow> Some (item, lane\<lparr>ln_queue := q, ln_bytes := ln_bytes lane - len item\<rparr>))"

text \<open>\<open>fill\<close>: the loop over the queue.\<close>

fun fill_queue :: "('a \<Rightarrow> nat) \<Rightarrow> nat \<Rightarrow> 'a list \<Rightarrow> nat \<Rightarrow> 'a Batch \<Rightarrow> 'a list \<times> nat \<times> 'a Batch" where
  "fill_queue len ceiling [] bytes batch = ([], bytes, batch)"
| "fill_queue len ceiling (head # q) bytes batch =
    (let nxt = b_bytes batch + len head in
     if nxt > ceiling then (head # q, bytes, batch)
     else fill_queue len ceiling q (bytes - len head) \<lparr>b_items = b_items batch @ [head], b_bytes = nxt\<rparr>)"

definition lane_fill :: "('a \<Rightarrow> nat) \<Rightarrow> nat \<Rightarrow> 'a Lane \<Rightarrow> 'a Batch \<Rightarrow> 'a Lane \<times> 'a Batch" where
  "lane_fill len ceiling lane batch =
    (case fill_queue len ceiling (ln_queue lane) (ln_bytes lane) batch of
       (q, bytes, batch') \<Rightarrow> (lane\<lparr>ln_queue := q, ln_bytes := bytes\<rparr>, batch'))"

section \<open>The scheduler\<close>

record 'a LaneScheduler =
  ls_lanes :: "'a Lane list"
  ls_max_batch_bytes :: nat

definition LaneScheduler_new :: "nat \<Rightarrow> 'a LaneScheduler" where
  "LaneScheduler_new max_batch_bytes =
    \<lparr>ls_lanes = [Lane_new, Lane_new, Lane_new], ls_max_batch_bytes = max_batch_bytes\<rparr>"

definition sched_push :: "('a \<Rightarrow> nat) \<Rightarrow> Priority \<Rightarrow> 'a \<Rightarrow> 'a LaneScheduler \<Rightarrow> 'a LaneScheduler" where
  "sched_push len priority item s =
    s\<lparr>ls_lanes := (ls_lanes s)[lane_index priority := lane_push len item (ls_lanes s ! lane_index priority)]\<rparr>"

definition queued_bytes :: "'a LaneScheduler \<Rightarrow> nat" where
  "queued_bytes s = sum_list (map ln_bytes (ls_lanes s))"

definition lane_bytes :: "Priority \<Rightarrow> 'a LaneScheduler \<Rightarrow> nat" where
  "lane_bytes priority s = ln_bytes (ls_lanes s ! lane_index priority)"

definition sched_is_empty :: "'a LaneScheduler \<Rightarrow> bool" where
  "sched_is_empty s \<longleftrightarrow> list_all (\<lambda>lane. ln_queue lane = []) (ls_lanes s)"

definition lane_owed :: "('a \<Rightarrow> nat) \<Rightarrow> 'a Lane \<Rightarrow> bool" where
  "lane_owed len lane \<longleftrightarrow> (case head_len len lane of None \<Rightarrow> False | Some n \<Rightarrow> ln_credit lane \<ge> n)"

fun position :: "('a \<Rightarrow> bool) \<Rightarrow> 'a list \<Rightarrow> nat option" where
  "position P [] = None"
| "position P (x # xs) = (if P x then Some 0 else map_option Suc (position P xs))"

definition owed :: "('a \<Rightarrow> nat) \<Rightarrow> 'a LaneScheduler \<Rightarrow> nat option" where
  "owed len s = position (lane_owed len) (ls_lanes s)"

text \<open>\<open>find_map(Lane::pop)\<close>.\<close>

fun pop_first :: "('a \<Rightarrow> nat) \<Rightarrow> 'a Lane list \<Rightarrow> ('a \<times> 'a Lane list) option" where
  "pop_first len [] = None"
| "pop_first len (lane # lanes) =
    (case lane_pop len lane of
       Some (item, lane') \<Rightarrow> Some (item, lane' # lanes)
     | None \<Rightarrow> (case pop_first len lanes of None \<Rightarrow> None | Some (item, lanes') \<Rightarrow> Some (item, lane # lanes')))"

text \<open>The two passes over the lanes: first up to each lane's share on top of what is there, then up to
  the size of a batch.\<close>

fun fill_shares :: "('a \<Rightarrow> nat) \<Rightarrow> nat \<Rightarrow> nat list \<Rightarrow> 'a Lane list \<Rightarrow> 'a Batch \<Rightarrow> 'a Lane list \<times> 'a Batch" where
  "fill_shares len mx (share # shares) (lane # lanes) batch =
    (let ceiling = min (sat_add (b_bytes batch) (allowance mx share)) mx;
         (lane', batch') = lane_fill len ceiling lane batch;
         (lanes', batch'') = fill_shares len mx shares lanes batch'
     in (lane' # lanes', batch''))"
| "fill_shares len mx shares lanes batch = (lanes, batch)"

fun fill_all :: "('a \<Rightarrow> nat) \<Rightarrow> nat \<Rightarrow> 'a Lane list \<Rightarrow> 'a Batch \<Rightarrow> 'a Lane list \<times> 'a Batch" where
  "fill_all len mx [] batch = ([], batch)"
| "fill_all len mx (lane # lanes) batch =
    (let (lane', batch') = lane_fill len mx lane batch;
         (lanes', batch'') = fill_all len mx lanes batch'
     in (lane' # lanes', batch''))"

text \<open>\<open>settle\<close>: a lane that was passed over earns its share as credit.\<close>

definition settle_lane :: "nat \<Rightarrow> nat \<Rightarrow> nat \<Rightarrow> 'a Lane \<Rightarrow> 'a Lane" where
  "settle_lane mx share held lane =
    (let served = length (ln_queue lane) < held in
     lane\<lparr>ln_credit := (if served \<or> ln_queue lane = [] then 0 else sat_add (ln_credit lane) (allowance mx share))\<rparr>)"

fun settle :: "nat \<Rightarrow> nat list \<Rightarrow> nat list \<Rightarrow> 'a Lane list \<Rightarrow> 'a Lane list" where
  "settle mx (share # shares) (held # helds) (lane # lanes) = settle_lane mx share held lane # settle mx shares helds lanes"
| "settle mx shares helds lanes = lanes"

definition next_batch :: "('a \<Rightarrow> nat) \<Rightarrow> 'a LaneScheduler \<Rightarrow> ('a Batch \<times> 'a LaneScheduler) option" where
  "next_batch len s =
    (let mx = ls_max_batch_bytes s;
         held = map (\<lambda>lane. length (ln_queue lane)) (ls_lanes s);
         first = (case owed len s of None \<Rightarrow> 0 | Some i \<Rightarrow> i)
     in case pop_first len (drop first (ls_lanes s)) of
          None \<Rightarrow> None
        | Some (seed, popped) \<Rightarrow>
            let batch = \<lparr>b_items = [seed], b_bytes = len seed\<rparr>;
                (lanes1, batch1) = fill_shares len mx LANE_RESERVE (take first (ls_lanes s) @ popped) batch;
                (lanes2, batch2) = fill_all len mx lanes1 batch1
            in Some (batch2, s\<lparr>ls_lanes := settle mx LANE_RESERVE held lanes2\<rparr>))"

text \<open>\<open>Batch::into_bytes\<close>.\<close>

definition Batch_into_bytes :: "bytes Batch \<Rightarrow> bytes" where
  "Batch_into_bytes batch =
    (if length (b_items batch) = 1 then last (b_items batch) else concat (b_items batch))"

end
