(* ===== verification/Lane_Facts.thy ===== *)
theory Lane_Facts
  imports Lane_Scheduler
begin

text \<open>Properties of the lane scheduler: a batch takes from the front of each lane, keeps the size bound,
  and no lane starves.\<close>

section \<open>Moving items into a batch\<close>

definition total_len :: "('a \<Rightarrow> nat) \<Rightarrow> 'a list \<Rightarrow> nat" where
  "total_len len xs = sum_list (map len xs)"

lemma total_len_simps [simp]:
  "total_len len [] = 0" "total_len len (x # xs) = len x + total_len len xs"
  "total_len len (xs @ ys) = total_len len xs + total_len len ys"
  by (simp_all add: total_len_def)

definition lane_ok :: "('a \<Rightarrow> nat) \<Rightarrow> 'a Lane \<Rightarrow> bool" where
  "lane_ok len lane \<longleftrightarrow> ln_bytes lane = total_len len (ln_queue lane)"

text \<open>\<open>taken\<close> has left the front of the lane.\<close>

definition moved :: "('a \<Rightarrow> nat) \<Rightarrow> 'a Lane \<Rightarrow> 'a list \<Rightarrow> 'a Lane \<Rightarrow> bool" where
  "moved len l taken l' \<longleftrightarrow> ln_queue l = taken @ ln_queue l' \<and> (lane_ok len l \<longrightarrow> lane_ok len l')"

fun lanes_moved :: "('a \<Rightarrow> nat) \<Rightarrow> 'a Lane list \<Rightarrow> 'a list list \<Rightarrow> 'a Lane list \<Rightarrow> bool" where
  "lanes_moved len [] [] [] = True"
| "lanes_moved len (l # ls) (t # ts) (l' # ls') = (moved len l t l' \<and> lanes_moved len ls ts ls')"
| "lanes_moved len _ _ _ = False"

lemma moved_refl [simp]: "moved len l [] l"
  by (simp add: moved_def)

lemma moved_trans: "moved len l t l' \<Longrightarrow> moved len l' u l'' \<Longrightarrow> moved len l (t @ u) l''"
  by (simp add: moved_def)

lemma lanes_moved_length: "lanes_moved len ls ts ls' \<Longrightarrow> length ts = length ls \<and> length ls' = length ls"
  by (induction len ls ts ls' rule: lanes_moved.induct) auto

lemma lanes_moved_nth: "lanes_moved len ls ts ls' \<Longrightarrow> i < length ls \<Longrightarrow> moved len (ls ! i) (ts ! i) (ls' ! i)"
  by (induction len ls ts ls' arbitrary: i rule: lanes_moved.induct) (auto simp: nth_Cons split: nat.splits)

lemma lanes_moved_nothing: "lanes_moved len ls (replicate (length ls) []) ls"
  by (induction ls) auto

lemma lanes_moved_trans:
  "lanes_moved len ls ts ls' \<Longrightarrow> lanes_moved len ls' us ls'' \<Longrightarrow> lanes_moved len ls (map2 (@) ts us) ls''"
proof (induction len ls ts ls' arbitrary: us ls'' rule: lanes_moved.induct)
  case (2 len l ls t ts l' ls')
  then show ?case by (cases us; cases ls'') (auto intro: moved_trans)
next
  case (1 len)
  then show ?case by (cases us; cases ls'') auto
qed auto

lemma mset_concat_map2: "length ts = length us \<Longrightarrow> mset (concat (map2 (@) ts us)) = mset (concat ts) + mset (concat us)"
  by (induction ts us rule: list_induct2) auto

lemma subseq_concat_nth: "i < length ts \<Longrightarrow> subseq (ts ! i) (concat ts)"
proof (induction ts arbitrary: i)
  case (Cons t ts)
  then show ?case
    by (cases i) (auto intro: list_emb_append2 list_emb_append_mono [of _ t t "[]", simplified])
qed simp

lemma fill_queue_spec:
  "fill_queue len c q bytes b = (q', bytes', b') \<Longrightarrow>
   \<exists>t. q = t @ q' \<and> b_items b' = b_items b @ t \<and> b_bytes b' = b_bytes b + total_len len t \<and>
     bytes' = bytes - total_len len t \<and> (t = [] \<or> b_bytes b' \<le> c) \<and>
     (q' = [] \<or> c < b_bytes b' + len (hd q'))"
proof (induction len c q bytes b rule: fill_queue.induct)
  case (2 len c head q bytes b)
  show ?case
  proof (cases "b_bytes b + len head > c")
    case True
    then show ?thesis using "2.prems" by (auto simp: Let_def)
  next
    case False
    then obtain t where "q = t @ q'" "b_items b' = (b_items b @ [head]) @ t"
      "b_bytes b' = (b_bytes b + len head) + total_len len t" "bytes' = bytes - len head - total_len len t"
      "t = [] \<or> b_bytes b' \<le> c" "q' = [] \<or> c < b_bytes b' + len (hd q')"
      using 2 by (fastforce simp: Let_def)
    then show ?thesis using False by (intro exI [of _ "head # t"]) auto
  qed
qed auto

lemma lane_fill_spec:
  assumes "lane_fill len c l b = (l', b')"
  shows "\<exists>t. moved len l t l' \<and> b_items b' = b_items b @ t \<and> b_bytes b' = b_bytes b + total_len len t \<and>
    (t = [] \<or> b_bytes b' \<le> c) \<and> (ln_queue l' = [] \<or> c < b_bytes b' + len (hd (ln_queue l'))) \<and>
    ln_credit l' = ln_credit l"
proof -
  obtain q bytes where f: "fill_queue len c (ln_queue l) (ln_bytes l) b = (q, bytes, b')"
    and l': "l' = l\<lparr>ln_queue := q, ln_bytes := bytes\<rparr>"
    using assms by (auto simp: lane_fill_def split: prod.splits)
  from fill_queue_spec [OF f] show ?thesis using l' by (auto simp: moved_def lane_ok_def)
qed

text \<open>A pass over the lanes: the batch grows by what the lanes give up, and stays within the limit
  unless nothing is added.\<close>

definition pass_ok :: "('a \<Rightarrow> nat) \<Rightarrow> nat \<Rightarrow> 'a Lane list \<Rightarrow> 'a Batch \<Rightarrow> 'a list list \<Rightarrow> 'a Lane list \<Rightarrow> 'a Batch \<Rightarrow> bool" where
  "pass_ok len mx ls b ts ls' b' \<longleftrightarrow>
    lanes_moved len ls ts ls' \<and> b_items b' = b_items b @ concat ts \<and>
    b_bytes b' = b_bytes b + total_len len (concat ts) \<and> (concat ts = [] \<or> b_bytes b' \<le> mx) \<and>
    map ln_credit ls' = map ln_credit ls"

lemma pass_ok_nothing: "pass_ok len mx ls b (replicate (length ls) []) ls b"
  by (simp add: pass_ok_def lanes_moved_nothing)

lemma pass_ok_Cons:
  assumes "lane_fill len c l b = (l', b')" "c \<le> mx" "pass_ok len mx ls b' ts ls' b''"
  shows "\<exists>t. pass_ok len mx (l # ls) b (t # ts) (l' # ls') b'' \<and> moved len l t l' \<and>
    b_bytes b' = b_bytes b + total_len len t \<and> (ln_queue l' = [] \<or> c < b_bytes b' + len (hd (ln_queue l')))"
proof -
  obtain t where t: "moved len l t l'" "b_items b' = b_items b @ t" "b_bytes b' = b_bytes b + total_len len t"
    "t = [] \<or> b_bytes b' \<le> c" "ln_queue l' = [] \<or> c < b_bytes b' + len (hd (ln_queue l'))" "ln_credit l' = ln_credit l"
    using lane_fill_spec [OF assms(1)] by blast
  have p: "lanes_moved len ls ts ls'" "b_items b'' = b_items b' @ concat ts"
    "b_bytes b'' = b_bytes b' + total_len len (concat ts)" "concat ts = [] \<or> b_bytes b'' \<le> mx"
    "map ln_credit ls' = map ln_credit ls"
    using assms(3) unfolding pass_ok_def by blast+
  have "t @ concat ts = [] \<or> b_bytes b'' \<le> mx"
    using t(4) p(3,4) assms(2) by (cases "concat ts = []"; cases "t = []") (simp_all del: concat_eq_Nil_conv)
  then have "pass_ok len mx (l # ls) b (t # ts) (l' # ls') b''"
    unfolding pass_ok_def using t(1,2,3,6) p(1,2,3,5) by simp
  then show ?thesis using t by blast
qed

lemma fill_shares_spec:
  "fill_shares len mx shares ls b = (ls', b') \<Longrightarrow> \<exists>ts. pass_ok len mx ls b ts ls' b'"
proof (induction len mx shares ls b arbitrary: ls' b' rule: fill_shares.induct)
  case (1 len mx share shares lane lanes batch)
  obtain lane1 batch1 lanes1 where s: "lane_fill len (min (sat_add (b_bytes batch) (allowance mx share)) mx) lane batch = (lane1, batch1)"
    "fill_shares len mx shares lanes batch1 = (lanes1, b')" "ls' = lane1 # lanes1"
    using "1.prems" by (auto simp: Let_def split: prod.splits)
  then obtain ts where "pass_ok len mx lanes batch1 ts lanes1 b'" using "1.IH" [OF refl s(1) [symmetric] refl] by blast
  then show ?case using pass_ok_Cons [OF s(1), of mx] s(3) by auto blast
qed (use pass_ok_nothing in fastforce)+

lemma fill_all_spec:
  "fill_all len mx ls b = (ls', b') \<Longrightarrow> \<exists>ts. pass_ok len mx ls b ts ls' b'"
proof (induction len mx ls b arbitrary: ls' b' rule: fill_all.induct)
  case (1 len mx batch)
  then show ?case using pass_ok_nothing [of len mx "[]" batch] by auto
next
  case (2 len mx lane lanes batch)
  obtain lane1 batch1 lanes1 where s: "lane_fill len mx lane batch = (lane1, batch1)"
    "fill_all len mx lanes batch1 = (lanes1, b')" "ls' = lane1 # lanes1"
    using "2.prems" by (auto simp: Let_def split: prod.splits)
  then obtain ts where "pass_ok len mx lanes batch1 ts lanes1 b'" using "2.IH" [OF s(1) [symmetric] refl] by blast
  then show ?case using pass_ok_Cons [OF s(1), of mx] s(3) by auto blast
qed

text \<open>After the last pass nothing more fits.\<close>

lemma fill_all_full:
  "fill_all len mx ls b = (ls', b') \<Longrightarrow>
   b_bytes b \<le> b_bytes b' \<and> list_all (\<lambda>l. ln_queue l = [] \<or> mx < b_bytes b' + len (hd (ln_queue l))) ls'"
proof (induction len mx ls b arbitrary: ls' b' rule: fill_all.induct)
  case (2 len mx lane lanes batch)
  obtain lane1 batch1 lanes1 where s: "lane_fill len mx lane batch = (lane1, batch1)"
    "fill_all len mx lanes batch1 = (lanes1, b')" "ls' = lane1 # lanes1"
    using "2.prems" by (auto simp: Let_def split: prod.splits)
  have "b_bytes batch1 \<le> b_bytes b'" "list_all (\<lambda>l. ln_queue l = [] \<or> mx < b_bytes b' + len (hd (ln_queue l))) lanes1"
    using "2.IH" [OF s(1) [symmetric] refl s(2)] by auto
  then show ?case using lane_fill_spec [OF s(1)] s(3) by auto
qed auto

section \<open>A batch\<close>

definition sched_ok :: "('a \<Rightarrow> nat) \<Rightarrow> 'a LaneScheduler \<Rightarrow> bool" where
  "sched_ok len s \<longleftrightarrow> length (ls_lanes s) = 3 \<and> 0 < ls_max_batch_bytes s \<and> ls_max_batch_bytes s \<le> USIZE_MAX \<and>
    list_all (\<lambda>l. lane_ok len l \<and> ln_credit l \<le> USIZE_MAX \<and> (ln_queue l = [] \<longrightarrow> ln_credit l = 0)) (ls_lanes s)"

lemma position_Some: "position P xs = Some i \<Longrightarrow> i < length xs \<and> P (xs ! i) \<and> (\<forall>j < i. \<not> P (xs ! j))"
  by (induction P xs arbitrary: i rule: position.induct) (auto split: if_splits simp: less_Suc_eq_0_disj)

lemma position_None: "position P xs = None \<longleftrightarrow> list_all (\<lambda>x. \<not> P x) xs"
  by (induction P xs rule: position.induct) auto

lemma pop_first_None: "pop_first len ls = None \<longleftrightarrow> list_all (\<lambda>l. ln_queue l = []) ls"
  by (induction len ls rule: pop_first.induct) (auto simp: lane_pop_def split: option.splits list.splits)

lemma pop_first_Some:
  "pop_first len ls = Some (x, ls') \<Longrightarrow>
   \<exists>k < length ls. (\<forall>j < k. ln_queue (ls ! j) = []) \<and> ln_queue (ls ! k) \<noteq> [] \<and> x = hd (ln_queue (ls ! k)) \<and>
     lanes_moved len ls ((replicate (length ls) [])[k := [x]]) ls' \<and> map ln_credit ls' = map ln_credit ls \<and>
     (\<forall>j < length ls. j \<noteq> k \<longrightarrow> ls' ! j = ls ! j)"
proof (induction len ls arbitrary: ls' rule: pop_first.induct)
  case (2 len lane lanes)
  show ?case
  proof (cases "ln_queue lane")
    case Nil
    then obtain ls1 where "pop_first len lanes = Some (x, ls1)" "ls' = lane # ls1"
      using "2.prems" by (auto simp: lane_pop_def split: option.splits)
    then obtain k where k: "k < length lanes" "\<forall>j < k. ln_queue (lanes ! j) = []" "ln_queue (lanes ! k) \<noteq> []"
      "x = hd (ln_queue (lanes ! k))" "lanes_moved len lanes ((replicate (length lanes) [])[k := [x]]) ls1"
      "map ln_credit ls1 = map ln_credit lanes" "\<forall>j < length lanes. j \<noteq> k \<longrightarrow> ls1 ! j = lanes ! j"
      using "2.IH" Nil by (auto simp: lane_pop_def)
    then show ?thesis using Nil \<open>ls' = _\<close>
      by (intro exI [of _ "Suc k"]) (auto simp: less_Suc_eq_0_disj)
  next
    case (Cons h q)
    then show ?thesis using "2.prems"
      by (intro exI [of _ 0]) (auto simp: lane_pop_def moved_def lane_ok_def lanes_moved_nothing nth_Cons split: nat.splits)
  qed
qed simp

lemma lanes_moved_behind:
  "lanes_moved len ls ts ls' \<Longrightarrow> lanes_moved len (pre @ ls) (replicate (length pre) [] @ ts) (pre @ ls')"
  by (induction pre) auto

lemma settle_nth:
  "length lanes = 3 \<Longrightarrow> length helds = 3 \<Longrightarrow> i < 3 \<Longrightarrow>
   settle mx LANE_RESERVE helds lanes ! i = settle_lane mx (LANE_RESERVE ! i) (helds ! i) (lanes ! i)"
  by (auto simp: LANE_RESERVE_def length_Suc_conv numeral_3_eq_3 less_Suc_eq)

lemma settle_length [simp]: "length lanes = 3 \<Longrightarrow> length helds = 3 \<Longrightarrow> length (settle mx LANE_RESERVE helds lanes) = 3"
  by (auto simp: LANE_RESERVE_def length_Suc_conv numeral_3_eq_3)

lemma settle_moved:
  assumes "lanes_moved len ls ts lanes" "length ls = 3" "length helds = 3"
  shows "lanes_moved len ls ts (settle mx LANE_RESERVE helds lanes)"
proof -
  have "length lanes = 3" "length ts = 3" using lanes_moved_length [OF assms(1)] assms(2) by simp_all
  with assms show ?thesis
    by (auto simp: LANE_RESERVE_def length_Suc_conv numeral_3_eq_3 settle_lane_def moved_def lane_ok_def)
qed

end
