(* ===== verification/Lane_Batch.thy ===== *)
theory Lane_Batch
  imports Lane_Facts
begin

text \<open>What one call of \<open>next_batch\<close> does to the lanes, and that no lane starves.\<close>

section \<open>One batch\<close>

text \<open>What a call of \<open>next_batch\<close> does: lane \<open>sd\<close> gives the seed, and \<open>taken\<close> is what leaves each lane.\<close>

definition seeds :: "('a \<Rightarrow> nat) \<Rightarrow> 'a LaneScheduler \<Rightarrow> nat \<Rightarrow> bool" where
  "seeds len s sd \<longleftrightarrow> sd < 3 \<and> ln_queue (ls_lanes s ! sd) \<noteq> [] \<and>
    (case owed len s of Some i \<Rightarrow> sd = i | None \<Rightarrow> (\<forall>j < sd. ln_queue (ls_lanes s ! j) = []))"

definition earns :: "nat \<Rightarrow> nat \<Rightarrow> nat" where
  "earns mx i = allowance mx (LANE_RESERVE ! i)"

definition batch_step :: "('a \<Rightarrow> nat) \<Rightarrow> 'a LaneScheduler \<Rightarrow> nat \<Rightarrow> 'a list list \<Rightarrow> 'a Batch \<Rightarrow> 'a LaneScheduler \<Rightarrow> bool" where
  "batch_step len s sd taken b s' \<longleftrightarrow>
    seeds len s sd \<and> taken ! sd \<noteq> [] \<and>
    lanes_moved len (ls_lanes s) taken (ls_lanes s') \<and> ls_max_batch_bytes s' = ls_max_batch_bytes s \<and>
    mset (b_items b) = mset (concat taken) \<and> (\<forall>i < 3. subseq (taken ! i) (b_items b)) \<and>
    b_bytes b = total_len len (b_items b) \<and>
    (b_bytes b \<le> ls_max_batch_bytes s \<or> length (b_items b) = 1) \<and>
    (\<forall>i < 3. ln_queue (ls_lanes s' ! i) = [] \<or> ls_max_batch_bytes s < b_bytes b + len (hd (ln_queue (ls_lanes s' ! i)))) \<and>
    (\<forall>i < 3. ln_credit (ls_lanes s' ! i) =
      (if taken ! i \<noteq> [] \<or> ln_queue (ls_lanes s' ! i) = [] then 0
       else sat_add (ln_credit (ls_lanes s ! i)) (earns (ls_max_batch_bytes s) i))) \<and>
    (ln_queue (ls_lanes s ! 0) \<noteq> [] \<and> len (hd (ln_queue (ls_lanes s ! 0))) \<le> earns (ls_max_batch_bytes s) 0 \<and>
     len (hd (ln_queue (ls_lanes s ! sd))) + len (hd (ln_queue (ls_lanes s ! 0))) \<le> ls_max_batch_bytes s \<longrightarrow>
     taken ! 0 \<noteq> [])"

lemma pass_subseq: "i < length ts \<Longrightarrow> subseq (ts ! i) (concat ts)"
  by (rule subseq_concat_nth)

lemma three_passes_subseq:
  assumes "length as = n" "length bs = n" "length cs = n" "i < n"
  shows "subseq (map2 (@) (map2 (@) as bs) cs ! i) (concat as @ concat bs @ concat cs)"
proof -
  have "subseq (as ! i @ bs ! i @ cs ! i) (concat as @ concat bs @ concat cs)"
    using assms by (intro list_emb_append_mono subseq_concat_nth) simp_all
  then show ?thesis using assms by simp
qed

lemma total_len_mset: "mset xs = mset ys \<Longrightarrow> total_len len xs = total_len len ys"
  unfolding total_len_def by (metis mset_map sum_mset_sum_list)

lemma fill_shares_first:
  assumes "fill_shares len mx (share # shares) (l # ls) b = (ls', b')" "ln_queue l \<noteq> []"
    "len (hd (ln_queue l)) \<le> allowance mx share" "b_bytes b + len (hd (ln_queue l)) \<le> mx" "mx \<le> USIZE_MAX"
    "lanes_moved len (l # ls) ts ls'"
  shows "ts ! 0 \<noteq> []"
proof -
  let ?c = "min (sat_add (b_bytes b) (allowance mx share)) mx"
  obtain l1 b1 ls1 where f: "lane_fill len ?c l b = (l1, b1)" "ls' = l1 # ls1"
    using assms(1) by (auto simp: Let_def split: prod.splits)
  have "b_bytes b + len (hd (ln_queue l)) \<le> ?c"
    using assms(3-5) by (simp add: sat_add_def)
  moreover obtain t where "ln_queue l = t @ ln_queue l1" "b_bytes b1 = b_bytes b + total_len len t"
    "ln_queue l1 = [] \<or> ?c < b_bytes b1 + len (hd (ln_queue l1))"
    using lane_fill_spec [OF f(1)] unfolding moved_def by blast
  ultimately have "ln_queue l1 \<noteq> ln_queue l"
    using assms(2) by (cases t) auto
  then show ?thesis using assms(6) f(2) by (cases ts) (auto simp: moved_def)
qed

lemma concat_nothing [simp]: "concat (replicate n []) = []"
  by (induction n) auto

lemma concat_one: "k < n \<Longrightarrow> concat ((replicate n [])[k := xs]) = xs"
  by (induction n arbitrary: k) (auto split: nat.splits)

lemma next_batch_step:
  assumes ok: "sched_ok len s" and nb: "next_batch len s = Some (b, s')"
  shows "\<exists>sd taken. batch_step len s sd taken b s'"
proof -
  let ?ls = "ls_lanes s" and ?mx = "ls_max_batch_bytes s"
  let ?held = "map (\<lambda>lane. length (ln_queue lane)) ?ls"
  define first where "first = (case owed len s of None \<Rightarrow> 0 | Some i \<Rightarrow> i)"
  have n: "length ?ls = 3" "?mx \<le> USIZE_MAX" using ok by (simp_all add: sched_ok_def)
  obtain seed popped lanes1 batch1 lanes2 where pop: "pop_first len (drop first ?ls) = Some (seed, popped)"
    and f1: "fill_shares len ?mx LANE_RESERVE (take first ?ls @ popped) \<lparr>b_items = [seed], b_bytes = len seed\<rparr> = (lanes1, batch1)"
    and f2: "fill_all len ?mx lanes1 batch1 = (lanes2, b)"
    and s': "s' = s\<lparr>ls_lanes := settle ?mx LANE_RESERVE ?held lanes2\<rparr>"
    using nb by (auto simp: next_batch_def Let_def first_def split: option.splits prod.splits)
  have first: "first < 3" "owed len s = Some i \<Longrightarrow> first = i \<and> lane_owed len (?ls ! i)" for i
    using position_Some [of "lane_owed len" ?ls] n by (auto simp: owed_def first_def split: option.splits)
  obtain k where k: "k < length (drop first ?ls)" "\<forall>j < k. ln_queue (drop first ?ls ! j) = []"
    "ln_queue (drop first ?ls ! k) \<noteq> []" "seed = hd (ln_queue (drop first ?ls ! k))"
    "lanes_moved len (drop first ?ls) ((replicate (length (drop first ?ls)) [])[k := [seed]]) popped"
    "map ln_credit popped = map ln_credit (drop first ?ls)"
    using pop_first_Some [OF pop] by blast
  define sd where "sd = first + k"
  define ts0 where "ts0 = replicate first [] @ (replicate (length (drop first ?ls)) [])[k := [seed]]"
  have len_first: "length (take first ?ls) = first" using first(1) n by simp
  have m0: "lanes_moved len ?ls ts0 (take first ?ls @ popped)"
    using lanes_moved_behind [OF k(5), of "take first ?ls"] len_first by (simp add: ts0_def)
  obtain ts1 where p1: "pass_ok len ?mx (take first ?ls @ popped) \<lparr>b_items = [seed], b_bytes = len seed\<rparr> ts1 lanes1 batch1"
    using fill_shares_spec [OF f1] by blast
  obtain ts2 where p2: "pass_ok len ?mx lanes1 batch1 ts2 lanes2 b"
    using fill_all_spec [OF f2] by blast
  have m1: "lanes_moved len (take first ?ls @ popped) ts1 lanes1" and m2: "lanes_moved len lanes1 ts2 lanes2"
    using p1 p2 unfolding pass_ok_def by blast+
  have i12: "b_items batch1 = [seed] @ concat ts1" "b_items b = b_items batch1 @ concat ts2"
    "b_bytes batch1 = len seed + total_len len (concat ts1)" "b_bytes b = b_bytes batch1 + total_len len (concat ts2)"
    using p1 p2 unfolding pass_ok_def by simp_all
  have b12: "concat ts1 = [] \<or> b_bytes batch1 \<le> ?mx" "concat ts2 = [] \<or> b_bytes b \<le> ?mx"
    using p1 p2 unfolding pass_ok_def by blast+
  have c12: "map ln_credit lanes1 = map ln_credit (take first ?ls @ popped)" "map ln_credit lanes2 = map ln_credit lanes1"
    using p1 p2 unfolding pass_ok_def by blast+
  define taken where "taken = map2 (@) (map2 (@) ts0 ts1) ts2"
  have moved: "lanes_moved len ?ls taken lanes2"
    unfolding taken_def by (rule lanes_moved_trans [OF lanes_moved_trans [OF m0 m1] m2])
  have l3: "length ts0 = 3" "length ts1 = 3" "length ts2 = 3" "length lanes2 = 3" "length taken = 3" "length ?held = 3"
    using lanes_moved_length [OF m0] lanes_moved_length [OF m1] lanes_moved_length [OF m2] n
      lanes_moved_length [OF moved] by simp_all
  have c0: "concat ts0 = [seed]" and t0: "ts0 ! sd = [seed]" and sd3: "sd < 3"
    using k(1) first(1) n by (auto simp: ts0_def sd_def nth_append concat_one)
  have items: "b_items b = concat ts0 @ concat ts1 @ concat ts2"
    using i12 c0 by simp
  have mset_items: "mset (b_items b) = mset (concat taken)"
    using l3 by (simp add: items taken_def mset_concat_map2)
  have sub: "\<forall>i < 3. subseq (taken ! i) (b_items b)"
    using three_passes_subseq [OF l3(1,2,3)] by (simp add: items taken_def)
  have bytes: "b_bytes b = total_len len (b_items b)"
    using i12 by simp
  have bound: "b_bytes b \<le> ?mx \<or> length (b_items b) = 1"
    using b12 i12 by (cases "concat ts1 = []"; cases "concat ts2 = []") (simp_all del: concat_eq_Nil_conv)
  have queue: "ln_queue (ls_lanes s' ! i) = ln_queue (lanes2 ! i)" if "i < 3" for i
    using settle_nth [OF l3(4,6) that] s' by (simp add: settle_lane_def Let_def)
  have full: "ln_queue (ls_lanes s' ! i) = [] \<or> ?mx < b_bytes b + len (hd (ln_queue (ls_lanes s' ! i)))" if "i < 3" for i
    using fill_all_full [OF f2] that l3(4) by (simp add: queue list_all_length)
  have moved': "lanes_moved len ?ls taken (ls_lanes s')"
    using settle_moved [OF moved n(1) l3(6)] s' by simp
  have credits: "map ln_credit lanes2 = map ln_credit ?ls"
    using c12 k(6) by (metis append_take_drop_id map_append)
  have credit: "ln_credit (ls_lanes s' ! i) = (if taken ! i \<noteq> [] \<or> ln_queue (ls_lanes s' ! i) = [] then 0
       else sat_add (ln_credit (?ls ! i)) (earns ?mx i))" if i: "i < 3" for i
  proof -
    have "ln_queue (?ls ! i) = taken ! i @ ln_queue (lanes2 ! i)"
      using lanes_moved_nth [OF moved] i n(1) by (simp add: moved_def)
    moreover have "ln_credit (lanes2 ! i) = ln_credit (?ls ! i)"
      using arg_cong [OF credits, of "\<lambda>cs. cs ! i"] i n(1) l3(4) by simp
    ultimately show ?thesis
      using settle_nth [OF l3(4,6) i] s' i n(1) queue [OF i] by (simp add: settle_lane_def Let_def earns_def)
  qed
  have seeds: "seeds len s sd"
    using k first n sd3 by (auto simp: seeds_def sd_def first_def lane_owed_def head_len_def split: option.splits list.splits)
  have taken_sd: "taken ! sd \<noteq> []"
    using t0 l3 sd3 by (simp add: taken_def)
  have first_lane: "ln_queue (?ls ! 0) \<noteq> [] \<and> len (hd (ln_queue (?ls ! 0))) \<le> earns ?mx 0 \<and>
     len (hd (ln_queue (?ls ! sd))) + len (hd (ln_queue (?ls ! 0))) \<le> ?mx \<longrightarrow> taken ! 0 \<noteq> []"
  proof (cases "sd = 0")
    case False
    have "moved len (?ls ! 0) [] ((take first ?ls @ popped) ! 0)"
    proof -
      have "ts0 ! 0 = []" using False n k(1) by (cases first; cases k) (simp_all add: ts0_def sd_def nth_append)
      then show ?thesis using lanes_moved_nth [OF m0, of 0] n by simp
    qed
    moreover obtain l ls where l: "take first ?ls @ popped = l # ls"
      using lanes_moved_length [OF m0] n by (cases "take first ?ls @ popped") auto
    moreover have "seed = hd (ln_queue (?ls ! sd))" using k(4) n first(1) by (simp add: sd_def)
    ultimately have "ts1 ! 0 \<noteq> []"
      if "ln_queue (?ls ! 0) \<noteq> []" "len (hd (ln_queue (?ls ! 0))) \<le> earns ?mx 0"
        "len (hd (ln_queue (?ls ! sd))) + len (hd (ln_queue (?ls ! 0))) \<le> ?mx"
      using that fill_shares_first [OF f1 [unfolded l LANE_RESERVE_def] _ _ _ n(2)] m1
      by (simp add: moved_def earns_def LANE_RESERVE_def)
    then show ?thesis using l3 by (simp add: taken_def)
  qed (use taken_sd in simp)
  show ?thesis
    unfolding batch_step_def using seeds taken_sd moved' s' mset_items sub bytes bound full credit first_lane
    by (intro exI [of _ sd] exI [of _ taken]) simp
qed

lemma next_batch_None: "sched_ok len s \<Longrightarrow> next_batch len s = None \<longleftrightarrow> sched_is_empty s"
proof -
  assume ok: "sched_ok len s"
  define first where "first = (case owed len s of None \<Rightarrow> 0 | Some i \<Rightarrow> i)"
  have "next_batch len s = None \<longleftrightarrow> pop_first len (drop first (ls_lanes s)) = None"
    by (auto simp: next_batch_def Let_def first_def split: option.splits prod.splits)
  moreover have "owed len s = Some i \<Longrightarrow> i < length (ls_lanes s) \<and> ln_queue (ls_lanes s ! i) \<noteq> []" for i
    using position_Some [of "lane_owed len" "ls_lanes s" i]
    by (auto simp: owed_def lane_owed_def head_len_def split: list.splits)
  ultimately show ?thesis
    unfolding pop_first_None by (cases "owed len s") (force simp: first_def sched_is_empty_def list_all_length)+
qed

text \<open>A batch takes a run of items off the front of each lane, in order, and nothing else: what is in
  the batch and what stays in the lanes is what was queued. It is within the size of a batch unless it is a
  single item, and no lane's next item would still fit. There is a batch whenever something is queued.\<close>

theorem next_batch_takes_fronts:
  assumes "sched_ok len s"
  shows "case next_batch len s of
      None \<Rightarrow> \<forall>i < 3. ln_queue (ls_lanes s ! i) = []
    | Some (b, s') \<Rightarrow> \<exists>taken. length taken = 3 \<and>
        (\<forall>i < 3. ln_queue (ls_lanes s ! i) = taken ! i @ ln_queue (ls_lanes s' ! i) \<and> subseq (taken ! i) (b_items b)) \<and>
        mset (b_items b) = mset (concat taken) \<and> b_items b \<noteq> [] \<and>
        b_bytes b = sum_list (map len (b_items b)) \<and>
        (b_bytes b \<le> ls_max_batch_bytes s \<or> length (b_items b) = 1) \<and>
        (\<forall>i < 3. ln_queue (ls_lanes s' ! i) \<noteq> [] \<longrightarrow>
          ls_max_batch_bytes s < b_bytes b + len (hd (ln_queue (ls_lanes s' ! i))))"
proof (cases "next_batch len s")
  case None
  then show ?thesis using next_batch_None [OF assms] assms by (simp add: sched_is_empty_def list_all_length sched_ok_def)
next
  case (Some r)
  obtain b s' where r: "r = (b, s')" by (cases r)
  obtain sd taken where st: "batch_step len s sd taken b s'"
    using next_batch_step [OF assms] Some r by blast
  then have m: "lanes_moved len (ls_lanes s) taken (ls_lanes s')" "taken ! sd \<noteq> []" "sd < 3"
    by (simp_all add: batch_step_def seeds_def)
  have "length (ls_lanes s) = 3" using assms by (simp add: sched_ok_def)
  then have len3: "length taken = 3" and front: "ln_queue (ls_lanes s ! i) = taken ! i @ ln_queue (ls_lanes s' ! i)" if "i < 3" for i
    using lanes_moved_length [OF m(1)] lanes_moved_nth [OF m(1), of i] that by (auto simp: moved_def)
  have "b_items b \<noteq> []"
    using st m(2,3) by (auto simp: batch_step_def)
  moreover have "mset (b_items b) = mset (concat taken)" "b_bytes b = sum_list (map len (b_items b))"
      "b_bytes b \<le> ls_max_batch_bytes s \<or> length (b_items b) = 1"
      "\<forall>i < 3. subseq (taken ! i) (b_items b)"
      "\<forall>i < 3. ln_queue (ls_lanes s' ! i) = [] \<or> ls_max_batch_bytes s < b_bytes b + len (hd (ln_queue (ls_lanes s' ! i)))"
    using st unfolding batch_step_def total_len_def by blast+
  ultimately show ?thesis
    using front len3 [of 0] unfolding Some r option.case prod.case
    by (intro exI [of _ taken] conjI) auto
qed

end
