(* ===== verification/Lane_Fairness.thy ===== *)
theory Lane_Fairness
  imports Lane_Batch
begin

text \<open>No lane starves: whatever is pushed in between, the head of a lane leaves with one of the next
  batches, after a number of them that depends only on its length.\<close>

section \<open>The invariant\<close>

lemma lanes_upd_nth:
  "length ls = 3 \<Longrightarrow> i < 3 \<Longrightarrow> ls[lane_index p := l] ! i = (if i = lane_index p then l else ls ! i)"
  by (simp add: nth_list_update)

lemma lane_index_less [simp]: "lane_index p < 3"
  by (cases p) simp_all

lemma sched_push_ok: "sched_ok len s \<Longrightarrow> sched_ok len (sched_push len p x s)"
  by (auto simp: sched_ok_def sched_push_def list_all_length nth_list_update lane_push_def lane_ok_def)

lemma next_batch_ok:
  assumes "sched_ok len s" "next_batch len s = Some (b, s')"
  shows "sched_ok len s'"
proof -
  obtain sd taken where st: "batch_step len s sd taken b s'" using next_batch_step [OF assms] by blast
  then have m: "lanes_moved len (ls_lanes s) taken (ls_lanes s')" "ls_max_batch_bytes s' = ls_max_batch_bytes s"
    and c: "\<And>i. i < 3 \<Longrightarrow> ln_credit (ls_lanes s' ! i) = (if taken ! i \<noteq> [] \<or> ln_queue (ls_lanes s' ! i) = [] then 0
       else sat_add (ln_credit (ls_lanes s ! i)) (earns (ls_max_batch_bytes s) i))"
    unfolding batch_step_def by blast+
  have "length (ls_lanes s) = 3" "\<And>i. i < 3 \<Longrightarrow> lane_ok len (ls_lanes s ! i)"
    using assms(1) by (auto simp: sched_ok_def list_all_length)
  then have "length (ls_lanes s') = 3" "\<And>i. i < 3 \<Longrightarrow> lane_ok len (ls_lanes s' ! i)"
    using lanes_moved_length [OF m(1)] lanes_moved_nth [OF m(1)] by (auto simp: moved_def)
  moreover have "ln_credit (ls_lanes s' ! i) \<le> USIZE_MAX" if "i < 3" for i
    using c [OF that] by (simp add: sat_add_def)
  ultimately show ?thesis using assms(1) c m(2) by (auto simp: sched_ok_def list_all_length)
qed

definition pushes :: "('a \<Rightarrow> nat) \<Rightarrow> (Priority \<times> 'a) list \<Rightarrow> 'a LaneScheduler \<Rightarrow> 'a LaneScheduler" where
  "pushes len ps s = foldl (\<lambda>s (p, x). sched_push len p x s) s ps"

lemma pushes_simps [simp]:
  "pushes len [] s = s" "pushes len ((p, x) # ps) s = pushes len ps (sched_push len p x s)"
  by (simp_all add: pushes_def)

text \<open>Every queued item has a length.\<close>

definition heavy :: "('a \<Rightarrow> nat) \<Rightarrow> 'a LaneScheduler \<Rightarrow> bool" where
  "heavy len s \<longleftrightarrow> (\<forall>i < 3. \<forall>x \<in> set (ln_queue (ls_lanes s ! i)). 0 < len x)"

definition good :: "('a \<Rightarrow> nat) \<Rightarrow> 'a LaneScheduler \<Rightarrow> bool" where
  "good len s \<longleftrightarrow> sched_ok len s \<and> heavy len s \<and> 2 \<le> ls_max_batch_bytes s"

lemma good_push: "good len s \<Longrightarrow> 0 < len x \<Longrightarrow> good len (sched_push len p x s)"
  using sched_push_ok [of len s p x]
  by (auto simp: good_def heavy_def sched_push_def lane_push_def nth_list_update sched_ok_def)

lemma good_step:
  assumes "good len s" "next_batch len s = Some (b, s')"
  shows "good len s'"
proof -
  have ok: "sched_ok len s" using assms(1) by (simp add: good_def)
  obtain sd taken where st: "batch_step len s sd taken b s'" using next_batch_step [OF ok assms(2)] by blast
  then have m: "lanes_moved len (ls_lanes s) taken (ls_lanes s')" "ls_max_batch_bytes s' = ls_max_batch_bytes s"
    unfolding batch_step_def by blast+
  have "heavy len s'"
    using assms(1) lanes_moved_nth [OF m(1)] by (auto simp: heavy_def good_def sched_ok_def moved_def)
  then show ?thesis using next_batch_ok [OF ok assms(2)] assms(1) m(2) by (simp add: good_def)
qed

section \<open>Owed lanes\<close>

abbreviation lane_at :: "'a LaneScheduler \<Rightarrow> nat \<Rightarrow> 'a Lane" where
  "lane_at s i \<equiv> ls_lanes s ! i"

lemma push_credit: "sched_ok len s \<Longrightarrow> i < 3 \<Longrightarrow> ln_credit (lane_at (sched_push len p x s) i) = ln_credit (lane_at s i)"
  by (auto simp: sched_push_def sched_ok_def lanes_upd_nth lane_push_def)

lemma push_owed:
  assumes "good len s" "0 < len x" "i < 3"
  shows "lane_owed len (lane_at (sched_push len p x s) i) = lane_owed len (lane_at s i)"
proof -
  have l3: "length (ls_lanes s) = 3" and e: "ln_queue (lane_at s i) = [] \<Longrightarrow> ln_credit (lane_at s i) = 0"
    using assms by (auto simp: good_def sched_ok_def list_all_length)
  show ?thesis
  proof (cases "i = lane_index p")
    case True
    then show ?thesis using l3 e assms
      by (cases "ln_queue (lane_at s i)") (simp_all add: sched_push_def lanes_upd_nth lane_push_def lane_owed_def head_len_def)
  qed (use l3 assms in \<open>simp add: sched_push_def lanes_upd_nth\<close>)
qed

text \<open>How many batches a lane that is owed may still have to wait: only the lanes before it can take the
  seed, and after that they have to earn it again.\<close>

definition wait_rank :: "('a \<Rightarrow> nat) \<Rightarrow> 'a LaneScheduler \<Rightarrow> nat" where
  "wait_rank len s =
    (if lane_owed len (lane_at s 0) then (if ln_credit (lane_at s 1) = 0 then 3 else 5)
     else if lane_owed len (lane_at s 1)
     then (if ln_credit (lane_at s 0) = 0 \<and> ln_credit (lane_at s 1) \<le> earns (ls_max_batch_bytes s) 1 then 2 else 4)
     else 1)"

lemma wait_rank_push:
  "good len s \<Longrightarrow> 0 < len x \<Longrightarrow> wait_rank len (sched_push len p x s) = wait_rank len s"
  using push_owed [of len s x 0 p] push_owed [of len s x 1 p] push_credit [of len s 0 p x] push_credit [of len s 1 p x]
  by (simp add: wait_rank_def good_def) (simp add: sched_push_def)

lemma earns_sum: "2 \<le> mx \<Longrightarrow> earns mx 0 + earns mx 1 \<le> mx"
  by (simp add: earns_def LANE_RESERVE_def allowance_def sat_mul_def)

lemma earns_pos: "0 < earns mx i"
  by (simp add: earns_def allowance_def)

lemma not_owed: "good len s \<Longrightarrow> i < 3 \<Longrightarrow> ln_credit (lane_at s i) = 0 \<Longrightarrow> \<not> lane_owed len (lane_at s i)"
  by (cases "ln_queue (lane_at s i)")
    (auto simp: good_def heavy_def lane_owed_def head_len_def)

text \<open>A lane that a batch passes over keeps its head, and earns.\<close>

definition served :: "nat \<Rightarrow> 'a LaneScheduler \<Rightarrow> 'a LaneScheduler \<Rightarrow> bool" where
  "served i s s' \<longleftrightarrow> length (ln_queue (lane_at s' i)) < length (ln_queue (lane_at s i))"

lemma batch_lane:
  assumes "good len s" "batch_step len s sd taken b s'" "i < 3"
  shows "served i s s' \<longleftrightarrow> taken ! i \<noteq> []"
    and "\<not> served i s s' \<Longrightarrow> ln_queue (lane_at s' i) = ln_queue (lane_at s i)"
    and "ln_credit (lane_at s' i) = (if served i s s' \<or> ln_queue (lane_at s' i) = [] then 0
       else sat_add (ln_credit (lane_at s i)) (earns (ls_max_batch_bytes s) i))"
proof -
  have "lanes_moved len (ls_lanes s) taken (ls_lanes s')" and c: "ln_credit (lane_at s' i) =
    (if taken ! i \<noteq> [] \<or> ln_queue (lane_at s' i) = [] then 0 else sat_add (ln_credit (lane_at s i)) (earns (ls_max_batch_bytes s) i))"
    using assms(2,3) unfolding batch_step_def by blast+
  then have q: "ln_queue (lane_at s i) = taken ! i @ ln_queue (lane_at s' i)"
    using lanes_moved_nth assms(1,3) by (fastforce simp: moved_def good_def sched_ok_def)
  then show s: "served i s s' \<longleftrightarrow> taken ! i \<noteq> []" by (simp add: served_def)
  show "\<not> served i s s' \<Longrightarrow> ln_queue (lane_at s' i) = ln_queue (lane_at s i)" using q s by simp
  show "ln_credit (lane_at s' i) = (if served i s s' \<or> ln_queue (lane_at s' i) = [] then 0
       else sat_add (ln_credit (lane_at s i)) (earns (ls_max_batch_bytes s) i))" using c s by simp
qed

lemma owed_seeds:
  assumes "sched_ok len s" "i < 3" "lane_owed len (lane_at s i)" "seeds len s sd"
  shows "sd \<le> i \<and> lane_owed len (lane_at s sd) \<and> (\<forall>j < sd. \<not> lane_owed len (lane_at s j))"
proof (cases "owed len s")
  case None
  then show ?thesis using assms by (auto simp: owed_def position_None list_all_length sched_ok_def)
next
  case (Some k)
  then have "k < 3" "lane_owed len (lane_at s k)" "\<forall>j < k. \<not> lane_owed len (lane_at s j)"
    using position_Some assms(1) by (fastforce simp: owed_def sched_ok_def)+
  then show ?thesis using Some assms(3,4) by (auto simp: seeds_def) (metis not_le)
qed

lemma sat_add_ge: "x \<le> USIZE_MAX \<Longrightarrow> x \<le> sat_add x y"
  by (simp add: sat_add_def)

lemma owed_stays:
  assumes "good len s" "batch_step len s sd taken b s'" "i < 3" "lane_owed len (lane_at s i)" "\<not> served i s s'"
  shows "lane_owed len (lane_at s' i)"
proof -
  have q: "ln_queue (lane_at s' i) = ln_queue (lane_at s i)" by (rule batch_lane(2) [OF assms(1-3,5)])
  moreover have "ln_queue (lane_at s i) \<noteq> []" using assms(4) by (auto simp: lane_owed_def head_len_def)
  moreover have "ln_credit (lane_at s i) \<le> USIZE_MAX"
    using assms(1,3) by (simp add: good_def sched_ok_def list_all_length)
  ultimately have "ln_credit (lane_at s i) \<le> ln_credit (lane_at s' i)"
    using batch_lane(3) [OF assms(1-3)] assms(5) sat_add_ge by simp
  then show ?thesis using assms(4) q by (auto simp: lane_owed_def head_len_def split: list.splits)
qed

lemma credit_after_zero:
  assumes "good len s" "batch_step len s sd taken b s'" "i < 3" "ln_credit (lane_at s i) = 0"
  shows "ln_credit (lane_at s' i) \<le> earns (ls_max_batch_bytes s) i"
  using batch_lane(3) [OF assms(1-3)] assms(4) by (simp add: sat_add_def)

text \<open>When the lane before it takes the seed with what one passing over has earned, the first lane's
  share fits into the same batch.\<close>

lemma no_alternation:
  assumes g: "good len s" and st: "batch_step len s 1 taken b s'"
    and c: "ln_credit (lane_at s 0) = 0" "ln_credit (lane_at s 1) \<le> earns (ls_max_batch_bytes s) 1"
      "lane_owed len (lane_at s 1)"
  shows "\<not> lane_owed len (lane_at s' 0)"
proof
  assume o: "lane_owed len (lane_at s' 0)"
  show False
  proof (cases "served 0 s s' \<or> ln_queue (lane_at s' 0) = []")
    case True
    then have z: "ln_credit (lane_at s' 0) = 0" using batch_lane(3) [OF g st, of 0] by simp
    obtain h q where h: "ln_queue (lane_at s' 0) = h # q" "len h = 0"
      using o z by (auto simp: lane_owed_def head_len_def split: list.splits)
    have "lanes_moved len (ls_lanes s) taken (ls_lanes s')" using st unfolding batch_step_def by blast
    moreover have "0 < length (ls_lanes s)" using g by (simp add: good_def sched_ok_def)
    ultimately have "h \<in> set (ln_queue (lane_at s 0))"
      using lanes_moved_nth [of len "ls_lanes s" taken "ls_lanes s'" 0] h(1) by (simp add: moved_def)
    then have "0 < len h" using g unfolding good_def heavy_def by (meson zero_less_numeral)
    then show False using h(2) by simp
  next
    case False
    then have q: "ln_queue (lane_at s 0) = ln_queue (lane_at s' 0)" "ln_queue (lane_at s 0) \<noteq> []" and t: "taken ! 0 = []"
      using batch_lane(1,2) [OF g st, of 0] by auto
    have "len (hd (ln_queue (lane_at s 0))) \<le> earns (ls_max_batch_bytes s) 0"
      using o q credit_after_zero [OF g st _ c(1)] by (auto simp: lane_owed_def head_len_def split: list.splits)
    moreover have "len (hd (ln_queue (lane_at s 1))) \<le> earns (ls_max_batch_bytes s) 1"
      using c(2,3) by (auto simp: lane_owed_def head_len_def split: list.splits)
    moreover have "earns (ls_max_batch_bytes s) 0 + earns (ls_max_batch_bytes s) 1 \<le> ls_max_batch_bytes s"
      using earns_sum g by (simp add: good_def)
    ultimately show False using st q(2) t by (simp add: batch_step_def)
  qed
qed

lemma owed_waits:
  assumes g: "good len s" and nb: "next_batch len s = Some (b, s')" and i: "i < 3"
    and o: "lane_owed len (lane_at s i)" and n: "\<not> served i s s'"
  shows "wait_rank len s' < wait_rank len s"
proof -
  have ok: "sched_ok len s" and g': "good len s'" using g good_step [OF g nb] by (simp_all add: good_def)
  obtain sd taken where st: "batch_step len s sd taken b s'" using next_batch_step [OF ok nb] by blast
  have mx: "ls_max_batch_bytes s' = ls_max_batch_bytes s" and sd: "seeds len s sd" "taken ! sd \<noteq> []" "sd < 3"
    using st unfolding batch_step_def seeds_def by blast+
  have z: "ln_credit (lane_at s' sd) = 0" "\<not> lane_owed len (lane_at s' sd)"
    using batch_lane [OF g st sd(3)] sd(2) not_owed [OF g' sd(3)] by simp_all
  have "sd \<noteq> i" using batch_lane(1) [OF g st i] n sd(2) by blast
  moreover have os: "sd \<le> i" "lane_owed len (lane_at s sd)" "\<And>j. j < sd \<Longrightarrow> \<not> lane_owed len (lane_at s j)"
    using owed_seeds [OF ok i o sd(1)] by blast+
  ultimately consider "sd = 0" | "sd = 1" using i by linarith
  then show ?thesis
  proof cases
    case 1
    then show ?thesis using z os(2) credit_after_zero [OF g st, of 1] by (auto simp: wait_rank_def mx)
  next
    case 2
    then have "\<not> lane_owed len (lane_at s 0)" using os(3) by simp
    then show ?thesis using 2 z os(2) no_alternation [OF g st [unfolded 2]] by (auto simp: wait_rank_def)
  qed
qed

section \<open>No lane starves\<close>

text \<open>Turns of the writer: some items are pushed, then a batch is composed. Does a batch take from lane
  \<open>i\<close>?\<close>

fun turns_serve :: "('a \<Rightarrow> nat) \<Rightarrow> nat \<Rightarrow> (Priority \<times> 'a) list list \<Rightarrow> 'a LaneScheduler \<Rightarrow> bool" where
  "turns_serve len i [] s = False"
| "turns_serve len i (ps # pss) s =
    (let s1 = pushes len ps s in
     case next_batch len s1 of
       None \<Rightarrow> turns_serve len i pss s1
     | Some (b, s2) \<Rightarrow> served i s1 s2 \<or> turns_serve len i pss s2)"

definition heavy_items :: "('a \<Rightarrow> nat) \<Rightarrow> (Priority \<times> 'a) list \<Rightarrow> bool" where
  "heavy_items len ps \<longleftrightarrow> list_all (\<lambda>(p, x). 0 < len x) ps"

lemma pushes_keep:
  assumes "good len s" "heavy_items len ps" "i < 3"
  shows "good len (pushes len ps s) \<and> wait_rank len (pushes len ps s) = wait_rank len s \<and>
    lane_owed len (lane_at (pushes len ps s) i) = lane_owed len (lane_at s i) \<and>
    ln_credit (lane_at (pushes len ps s) i) = ln_credit (lane_at s i) \<and>
    ls_max_batch_bytes (pushes len ps s) = ls_max_batch_bytes s \<and>
    (\<exists>more. ln_queue (lane_at (pushes len ps s) i) = ln_queue (lane_at s i) @ more)"
  using assms(1,2)
proof (induction ps arbitrary: s)
  case (Cons a ps)
  obtain p x where a: "a = (p, x)" by (cases a)
  have x: "0 < len x" and ps: "heavy_items len ps" using Cons.prems(2) a by (auto simp: heavy_items_def)
  have "\<exists>more. ln_queue (lane_at (sched_push len p x s) i) = ln_queue (lane_at s i) @ more"
    using Cons.prems(1) assms(3) by (auto simp: sched_push_def good_def sched_ok_def lanes_upd_nth lane_push_def)
  moreover have "ls_max_batch_bytes (sched_push len p x s) = ls_max_batch_bytes s" by (simp add: sched_push_def)
  ultimately show ?case
    using Cons.IH [OF good_push [OF Cons.prems(1) x, of p] ps] push_owed [OF Cons.prems(1) x assms(3), of p]
      wait_rank_push [OF Cons.prems(1) x, of p] push_credit [of len s i p x] Cons.prems(1) assms(3)
    by (fastforce simp: a good_def)
qed simp

lemma nonempty_batch:
  "good len s \<Longrightarrow> i < 3 \<Longrightarrow> ln_queue (lane_at s i) \<noteq> [] \<Longrightarrow> \<exists>b s'. next_batch len s = Some (b, s')"
  using next_batch_None [of len s] by (fastforce simp: good_def sched_ok_def sched_is_empty_def list_all_length)

lemma owed_is_served:
  "good len s \<Longrightarrow> i < 3 \<Longrightarrow> lane_owed len (lane_at s i) \<Longrightarrow> list_all (heavy_items len) pss \<Longrightarrow>
   wait_rank len s \<le> length pss \<Longrightarrow> turns_serve len i pss s"
proof (induction pss arbitrary: s)
  case Nil
  then show ?case by (simp add: wait_rank_def split: if_splits)
next
  case (Cons ps pss)
  let ?s1 = "pushes len ps s"
  have p: "good len ?s1" "wait_rank len ?s1 = wait_rank len s" "lane_owed len (lane_at ?s1 i)"
    using pushes_keep [OF Cons.prems(1) _ Cons.prems(2), of ps] Cons.prems(3,4) by simp_all
  have "ln_queue (lane_at ?s1 i) \<noteq> []" using p(3) by (auto simp: lane_owed_def head_len_def)
  then obtain b s2 where nb: "next_batch len ?s1 = Some (b, s2)" using nonempty_batch [OF p(1) Cons.prems(2)] by blast
  show ?case
  proof (cases "served i ?s1 s2")
    case False
    have "sched_ok len ?s1" using p(1) by (simp add: good_def)
    then obtain sd taken where st: "batch_step len ?s1 sd taken b s2" using next_batch_step nb by blast
    have "wait_rank len s2 \<le> length pss"
      using owed_waits [OF p(1) nb Cons.prems(2) p(3) False] p(2) Cons.prems(5) by simp
    then have "turns_serve len i pss s2"
      using Cons.IH [OF good_step [OF p(1) nb] Cons.prems(2) owed_stays [OF p(1) st Cons.prems(2) p(3) False]]
        Cons.prems(4) by simp
    then show ?thesis by (simp add: nb Let_def)
  qed (simp add: nb Let_def)
qed

lemma credit_is_served:
  "good len s \<Longrightarrow> i < 3 \<Longrightarrow> ln_queue (lane_at s i) = x # q \<Longrightarrow> len x \<le> USIZE_MAX \<Longrightarrow>
   len x \<le> ln_credit (lane_at s i) + k * earns (ls_max_batch_bytes s) i \<Longrightarrow>
   list_all (heavy_items len) pss \<Longrightarrow> k + 5 \<le> length pss \<Longrightarrow> turns_serve len i pss s"
proof (induction k arbitrary: s pss q)
  case 0
  then have "lane_owed len (lane_at s i)" by (simp add: lane_owed_def head_len_def)
  then show ?case using owed_is_served [OF 0(1,2) _ 0(6)] 0(7) by (simp add: wait_rank_def)
next
  case (Suc k)
  obtain ps pss' where pss: "pss = ps # pss'" using Suc.prems(7) by (cases pss) simp_all
  let ?s1 = "pushes len ps s"
  obtain more where p: "good len ?s1" "ln_credit (lane_at ?s1 i) = ln_credit (lane_at s i)"
    "ls_max_batch_bytes ?s1 = ls_max_batch_bytes s" "ln_queue (lane_at ?s1 i) = x # q @ more"
    using pushes_keep [OF Suc.prems(1) _ Suc.prems(2), of ps] Suc.prems(3,6) pss by auto
  obtain b s2 where nb: "next_batch len ?s1 = Some (b, s2)" using nonempty_batch [OF p(1) Suc.prems(2)] p(4) by auto
  show ?case
  proof (cases "served i ?s1 s2")
    case False
    have "sched_ok len ?s1" using p(1) by (simp add: good_def)
    then obtain sd taken where st: "batch_step len ?s1 sd taken b s2" using next_batch_step nb by blast
    have q2: "ln_queue (lane_at s2 i) = x # q @ more" and m2: "ls_max_batch_bytes s2 = ls_max_batch_bytes s"
      using batch_lane(2) [OF p(1) st Suc.prems(2) False] p(3,4) st by (simp_all add: batch_step_def)
    have c2: "ln_credit (lane_at s2 i) = sat_add (ln_credit (lane_at s i)) (earns (ls_max_batch_bytes s) i)"
      using batch_lane(3) [OF p(1) st Suc.prems(2)] False q2 p(2,3) by simp
    then have "len x \<le> ln_credit (lane_at s2 i) + k * earns (ls_max_batch_bytes s2) i"
      using Suc.prems(4,5) by (simp add: m2 sat_add_def)
    then have "turns_serve len i pss' s2"
      using Suc.IH [OF good_step [OF p(1) nb] Suc.prems(2) q2 Suc.prems(4)] Suc.prems(6,7) pss by simp
    then show ?thesis by (simp add: pss nb Let_def)
  qed (simp add: pss nb Let_def)
qed

text \<open>C31. No lane starves, the lowest one included: whatever is pushed to the lanes in between, the item at
  the head of a lane leaves it after a number of batches that only depends on its own length and the lane's
  share. Each batch that passes it over earns the lane its share, and from then on it waits for at most
  five more, because the lanes above it cannot take the seed in turns.\<close>

theorem no_lane_starves:
  assumes "sched_ok len s" "2 \<le> ls_max_batch_bytes s" "heavy len s"
    "ln_queue (ls_lanes s ! lane_index p) = x # q" "len x \<le> USIZE_MAX"
    "list_all (heavy_items len) pss"
    "len x div allowance (ls_max_batch_bytes s) (LANE_RESERVE ! lane_index p) + 6 \<le> length pss"
  shows "turns_serve len (lane_index p) pss s"
proof (rule credit_is_served)
  let ?e = "earns (ls_max_batch_bytes s) (lane_index p)"
  have "len x \<le> (len x div ?e + 1) * ?e"
    using dividend_less_div_times [OF earns_pos [of "ls_max_batch_bytes s" "lane_index p"], of "len x"] by simp
  then show "len x \<le> ln_credit (lane_at s (lane_index p)) + (len x div ?e + 1) * ?e" by linarith
  show "len x div ?e + 1 + 5 \<le> length pss" using assms(7) by (simp add: earns_def)
qed (use assms in \<open>simp_all add: good_def\<close>)

section \<open>An example\<close>

text \<open>Items that are their own length: four full batches of Normal items and two bytes of Background.\<close>

definition sample_lanes :: "nat LaneScheduler" where
  "sample_lanes = pushes (\<lambda>n. n) [(Background, 2), (Normal, 10), (Normal, 10), (Normal, 10), (Normal, 10)]
    (LaneScheduler_new 10)"

lemma sample_lanes_simp:
  "sample_lanes = \<lparr>ls_lanes = [\<lparr>ln_queue = [10, 10, 10, 10], ln_bytes = 40, ln_credit = 0\<rparr>, Lane_new,
     \<lparr>ln_queue = [2], ln_bytes = 2, ln_credit = 0\<rparr>], ls_max_batch_bytes = 10\<rparr>"
  by (simp add: sample_lanes_def LaneScheduler_new_def sched_push_def lane_push_def Lane_new_def)

lemma sample_lanes_ok: "sched_ok (\<lambda>n. n) sample_lanes" "heavy (\<lambda>n. n) sample_lanes"
  by (auto simp: sample_lanes_simp sched_ok_def lane_ok_def Lane_new_def USIZE_MAX_def heavy_def nth_Cons
    numeral_3_eq_3 less_Suc_eq)

theorem next_batch_takes_fronts_witness:
  "case next_batch (\<lambda>n. n) sample_lanes of
      None \<Rightarrow> \<forall>i < 3. ln_queue (ls_lanes sample_lanes ! i) = []
    | Some (b, s') \<Rightarrow> \<exists>taken. length taken = 3 \<and>
        (\<forall>i < 3. ln_queue (ls_lanes sample_lanes ! i) = taken ! i @ ln_queue (ls_lanes s' ! i) \<and> subseq (taken ! i) (b_items b)) \<and>
        mset (b_items b) = mset (concat taken) \<and> b_items b \<noteq> [] \<and>
        b_bytes b = sum_list (map (\<lambda>n. n) (b_items b)) \<and>
        (b_bytes b \<le> ls_max_batch_bytes sample_lanes \<or> length (b_items b) = 1) \<and>
        (\<forall>i < 3. ln_queue (ls_lanes s' ! i) \<noteq> [] \<longrightarrow>
          ls_max_batch_bytes sample_lanes < b_bytes b + hd (ln_queue (ls_lanes s' ! i)))"
  by (rule next_batch_takes_fronts [OF sample_lanes_ok(1)])

theorem no_lane_starves_witness:
  "turns_serve (\<lambda>n. n) 2 (replicate 8 [(Normal, 10), (Bulk, 3)]) sample_lanes"
proof -
  have "list_all (heavy_items (\<lambda>n. n)) (replicate 8 [(Normal, 10), (Bulk, 3)])"
    by (simp add: heavy_items_def list_all_iff)
  from no_lane_starves [OF sample_lanes_ok(1) _ sample_lanes_ok(2) _ _ this, of Background 2 "[]"]
  show ?thesis
    by (simp add: sample_lanes_simp USIZE_MAX_def LANE_RESERVE_def allowance_def sat_mul_def del: turns_serve.simps)
qed

definition sample_after :: "nat list \<Rightarrow> nat list \<Rightarrow> nat \<Rightarrow> nat LaneScheduler" where
  "sample_after normal background credit =
    \<lparr>ls_lanes = [\<lparr>ln_queue = normal, ln_bytes = sum_list normal, ln_credit = 0\<rparr>, Lane_new,
       \<lparr>ln_queue = background, ln_bytes = sum_list background, ln_credit = credit\<rparr>], ls_max_batch_bytes = 10\<rparr>"

lemma next_batch_eval:
  assumes "owed len s = first" "pop_first len (drop (case first of None \<Rightarrow> 0 | Some i \<Rightarrow> i) (ls_lanes s)) = Some (seed, popped)"
    "fill_shares len (ls_max_batch_bytes s) LANE_RESERVE (take (case first of None \<Rightarrow> 0 | Some i \<Rightarrow> i) (ls_lanes s) @ popped)
      \<lparr>b_items = [seed], b_bytes = len seed\<rparr> = (lanes1, batch1)"
    "fill_all len (ls_max_batch_bytes s) lanes1 batch1 = (lanes2, batch2)"
    "settle (ls_max_batch_bytes s) LANE_RESERVE (map (\<lambda>lane. length (ln_queue lane)) (ls_lanes s)) lanes2 = lanes3"
  shows "next_batch len s = Some (batch2, s\<lparr>ls_lanes := lanes3\<rparr>)"
  using assms by (simp add: next_batch_def Let_def)

lemmas lane_eval = sample_after_def owed_def lane_owed_def head_len_def Lane_new_def lane_pop_def lane_fill_def
  settle_lane_def LANE_RESERVE_def allowance_def sat_mul_def sat_add_def USIZE_MAX_def

lemma sample_turn_normal:
  assumes "c < 2"
  shows "next_batch (\<lambda>n. n) (sample_after (10 # 10 # normal) [2] c) =
    Some (\<lparr>b_items = [10], b_bytes = 10\<rparr>, sample_after (10 # normal) [2] (c + 1))"
proof -
  let ?s = "sample_after (10 # 10 # normal) [2] c" and ?b = "\<lparr>b_items = [10], b_bytes = 10\<rparr>"
  let ?ls = "ls_lanes (sample_after (10 # normal) [2] c)"
  have "owed (\<lambda>n. n) ?s = None" using assms by (simp add: lane_eval)
  moreover have "pop_first (\<lambda>n. n) (ls_lanes ?s) = Some (10, ?ls)" by (simp add: lane_eval)
  moreover have "fill_shares (\<lambda>n. n) 10 LANE_RESERVE ?ls ?b = (?ls, ?b)" by (simp add: lane_eval Let_def)
  moreover have "fill_all (\<lambda>n. n) 10 ?ls ?b = (?ls, ?b)" by (simp add: lane_eval Let_def)
  moreover have "settle 10 LANE_RESERVE (map (\<lambda>lane. length (ln_queue lane)) (ls_lanes ?s)) ?ls =
      ls_lanes (sample_after (10 # normal) [2] (c + 1))"
    using assms by (simp add: lane_eval Let_def)
  ultimately show ?thesis
    using next_batch_eval [of "\<lambda>n. n" ?s None 10 ?ls ?ls ?b ?ls ?b] by (simp add: sample_after_def)
qed

lemma sample_turn_background:
  "\<exists>s'. next_batch (\<lambda>n. n) (sample_after (10 # normal) [2] 2) = Some (\<lparr>b_items = [2], b_bytes = 2\<rparr>, s')"
proof -
  let ?s = "sample_after (10 # normal) [2] 2" and ?b = "\<lparr>b_items = [2], b_bytes = 2\<rparr>"
  let ?ls = "ls_lanes (sample_after (10 # normal) [] 2)"
  have "owed (\<lambda>n. n) ?s = Some 2" by (simp add: lane_eval)
  moreover have "pop_first (\<lambda>n. n) (drop 2 (ls_lanes ?s)) = Some (2, drop 2 ?ls)" by (simp add: lane_eval)
  moreover have "fill_shares (\<lambda>n. n) 10 LANE_RESERVE (take 2 (ls_lanes ?s) @ drop 2 ?ls) ?b = (?ls, ?b)"
    by (simp add: lane_eval Let_def)
  moreover have "fill_all (\<lambda>n. n) 10 ?ls ?b = (?ls, ?b)" by (simp add: lane_eval Let_def)
  ultimately show ?thesis
    using next_batch_eval [of "\<lambda>n. n" ?s "Some 2" 2 "drop 2 ?ls" ?ls ?b ?ls ?b _, OF _ _ _ _ refl] by (simp add: sample_after_def)
qed

text \<open>The lanes are not a strict priority: an item of the Background lane that has been passed over often
  enough leaves before Normal items that are queued.\<close>

theorem background_before_normal:
  "\<exists>b1 s1 b2 s2 b3 s3. next_batch (\<lambda>n. n) sample_lanes = Some (b1, s1) \<and> next_batch (\<lambda>n. n) s1 = Some (b2, s2) \<and>
    next_batch (\<lambda>n. n) s2 = Some (b3, s3) \<and> b_items b1 = [10] \<and> b_items b2 = [10] \<and> b_items b3 = [2] \<and>
    ln_queue (ls_lanes s2 ! lane_index Normal) = [10, 10]"
proof -
  have "sample_lanes = sample_after [10, 10, 10, 10] [2] 0"
    by (simp add: sample_lanes_simp sample_after_def)
  moreover have "ln_queue (ls_lanes (sample_after [10, 10] [2] 2) ! lane_index Normal) = [10, 10]"
    by (simp add: sample_after_def)
  moreover have "next_batch (\<lambda>n. n) (sample_after [10, 10, 10, 10] [2] 0) = Some (\<lparr>b_items = [10], b_bytes = 10\<rparr>, sample_after [10, 10, 10] [2] 1)"
    "next_batch (\<lambda>n. n) (sample_after [10, 10, 10] [2] 1) = Some (\<lparr>b_items = [10], b_bytes = 10\<rparr>, sample_after [10, 10] [2] 2)"
    using sample_turn_normal [of 0 "[10, 10]"] sample_turn_normal [of 1 "[10]"] by (simp_all add: numeral_2_eq_2)
  moreover obtain s3 where "next_batch (\<lambda>n. n) (sample_after [10, 10] [2] 2) = Some (\<lparr>b_items = [2], b_bytes = 2\<rparr>, s3)"
    using sample_turn_background by blast
  ultimately show ?thesis by simp
qed

end
