(* ===== verification/Lane_Channel.thy ===== *)
theory Lane_Channel
  imports Lane_Fairness
begin

text \<open>The channels in front of the scheduler (\<open>OutboundLanes\<close> and \<open>LaneFeed\<close> of
  \<open>crates/sdk-runtime/src/sched.rs\<close>): a sender takes permits of its lane's budget for as long as the item
  has not been put into a batch.\<close>

section \<open>State and operations\<close>

text \<open>\<open>Held\<close>: the item with its permit, which knows the semaphore it goes back to.\<close>

record 'a Held =
  h_item :: 'a
  h_lane :: nat
  h_permits :: nat

definition held_len :: "('a \<Rightarrow> nat) \<Rightarrow> 'a Held \<Rightarrow> nat" where
  "held_len len h = len (h_item h)"

record 'a Lanes =
  la_free :: "nat list"
  la_channels :: "'a Held list list"
  la_max_lane_bytes :: nat
  la_sched :: "'a Held LaneScheduler"
  la_receiver :: bool
  la_senders :: bool

definition lanes_new :: "nat \<Rightarrow> nat \<Rightarrow> 'a Lanes" where
  "lanes_new max_lane_bytes max_batch_bytes =
    \<lparr>la_free = [max_lane_bytes, max_lane_bytes, max_lane_bytes], la_channels = [[], [], []],
     la_max_lane_bytes = max_lane_bytes, la_sched = LaneScheduler_new max_batch_bytes,
     la_receiver = True, la_senders = True\<rparr>"

text \<open>\<open>send\<close>: \<open>None\<close> while the budget does not suffice and the sender waits. Without a receiver the permit is
  dropped again.\<close>

definition lanes_send :: "('a \<Rightarrow> nat) \<Rightarrow> Priority \<Rightarrow> 'a \<Rightarrow> 'a Lanes \<Rightarrow> (bool \<times> 'a Lanes) option" where
  "lanes_send len priority item st =
    (let i = lane_index priority;
         need = min (max (len item) 1) (la_max_lane_bytes st)
     in if la_free st ! i < need then None
        else if \<not> la_receiver st then Some (False, st)
        else Some (True, st\<lparr>la_free := (la_free st)[i := la_free st ! i - need],
          la_channels := (la_channels st)[i := la_channels st ! i @ [\<lparr>h_item = item, h_lane = i, h_permits = need\<rparr>]]\<rparr>))"

definition priority_of :: "nat \<Rightarrow> Priority" where
  "priority_of i = (if i = 0 then Normal else if i = 1 then Bulk else Background)"

text \<open>\<open>take_queued\<close> empties the three channels into the scheduler.\<close>

definition take_queued :: "('a \<Rightarrow> nat) \<Rightarrow> 'a Lanes \<Rightarrow> 'a Lanes" where
  "take_queued len st =
    st\<lparr>la_channels := [[], [], []],
       la_sched := foldl (\<lambda>s i. pushes (held_len len) (map (Pair (priority_of i)) (la_channels st ! i)) s)
         (la_sched st) [0, 1, 2]\<rparr>"

text \<open>\<open>ready\<close>: \<open>None\<close> while it waits for an item; false once the senders are gone and nothing is left.\<close>

definition feed_ready :: "('a \<Rightarrow> nat) \<Rightarrow> 'a Lanes \<Rightarrow> bool option \<times> 'a Lanes" where
  "feed_ready len st =
    (let st' = take_queued len st in
     if \<not> sched_is_empty (la_sched st') then (Some True, st')
     else if la_senders st' then (None, st')
     else (Some False, st'))"

definition release :: "'a Held \<Rightarrow> nat list \<Rightarrow> nat list" where
  "release h free = free[h_lane h := free ! h_lane h + h_permits h]"

definition take_batch :: "('a \<Rightarrow> nat) \<Rightarrow> 'a Lanes \<Rightarrow> 'a Batch option \<times> 'a Lanes" where
  "take_batch len st =
    (let st' = take_queued len st in
     case next_batch (held_len len) (la_sched st') of
       None \<Rightarrow> (None, st')
     | Some (batch, sched) \<Rightarrow>
         (Some \<lparr>b_items = map h_item (b_items batch), b_bytes = b_bytes batch\<rparr>,
          st'\<lparr>la_sched := sched, la_free := fold release (b_items batch) (la_free st')\<rparr>))"

text \<open>\<open>LaneFeed::next_batch\<close>: \<open>None\<close> while it waits, \<open>Some None\<close> at the end.\<close>

definition feed_next_batch :: "('a \<Rightarrow> nat) \<Rightarrow> 'a Lanes \<Rightarrow> 'a Batch option option \<times> 'a Lanes" where
  "feed_next_batch len st =
    (case feed_ready len st of
       (None, st') \<Rightarrow> (None, st')
     | (Some False, st') \<Rightarrow> (Some None, st')
     | (Some True, st') \<Rightarrow> (case take_batch len st' of (batch, st'') \<Rightarrow> (Some batch, st'')))"

section \<open>The budget\<close>

definition permits :: "'a Held list \<Rightarrow> nat" where
  "permits hs = sum_list (map h_permits hs)"

lemma permits_simps [simp]:
  "permits [] = 0" "permits (h # hs) = h_permits h + permits hs" "permits (hs @ gs) = permits hs + permits gs"
  by (simp_all add: permits_def)

definition in_flight :: "nat \<Rightarrow> 'a Lanes \<Rightarrow> 'a Held list" where
  "in_flight i st = ln_queue (ls_lanes (la_sched st) ! i) @ la_channels st ! i"

definition held_ok :: "('a \<Rightarrow> nat) \<Rightarrow> nat \<Rightarrow> nat \<Rightarrow> 'a Held \<Rightarrow> bool" where
  "held_ok len mx i h \<longleftrightarrow> h_lane h = i \<and> h_permits h = min (max (len (h_item h)) 1) mx"

text \<open>What is free and what the items in flight hold is the budget of the lane.\<close>

definition lanes_ok :: "('a \<Rightarrow> nat) \<Rightarrow> 'a Lanes \<Rightarrow> bool" where
  "lanes_ok len st \<longleftrightarrow> length (la_free st) = 3 \<and> length (la_channels st) = 3 \<and>
    sched_ok (held_len len) (la_sched st) \<and>
    (\<forall>i < 3. la_free st ! i + permits (in_flight i st) = la_max_lane_bytes st \<and>
      list_all (held_ok len (la_max_lane_bytes st) i) (in_flight i st))"

lemma lanes_new_ok: "0 < b \<Longrightarrow> b \<le> USIZE_MAX \<Longrightarrow> lanes_ok len (lanes_new m b)"
  by (auto simp: lanes_ok_def lanes_new_def LaneScheduler_new_def sched_ok_def Lane_new_def lane_ok_def in_flight_def
    numeral_3_eq_3 less_Suc_eq)

lemma lanes_send_ok: "lanes_ok len st \<Longrightarrow> lanes_send len p x st = Some (r, st') \<Longrightarrow> lanes_ok len st'"
  by (auto simp: lanes_ok_def lanes_send_def Let_def in_flight_def nth_list_update held_ok_def split: if_splits)

lemma pushes_ok: "sched_ok len s \<Longrightarrow> sched_ok len (pushes len ps s)"
  by (induction ps arbitrary: s) (auto simp: sched_push_ok)

lemma pushes_queue:
  "sched_ok len s \<Longrightarrow> i < 3 \<Longrightarrow>
   ln_queue (lane_at (pushes len (map (Pair p) xs) s) i) =
     ln_queue (lane_at s i) @ (if lane_index p = i then xs else [])"
proof (induction xs arbitrary: s)
  case (Cons x xs)
  have "length (ls_lanes s) = 3" using Cons.prems(1) by (simp add: sched_ok_def)
  then show ?case
    using Cons.IH [OF sched_push_ok [OF Cons.prems(1), of p x] Cons.prems(2)] Cons.prems(2)
    by (auto simp: sched_push_def lanes_upd_nth lane_push_def)
qed simp

lemma take_queued_ok:
  assumes "lanes_ok len st"
  shows "lanes_ok len (take_queued len st)" "i < 3 \<Longrightarrow> in_flight i (take_queued len st) = in_flight i st"
proof -
  let ?p = "\<lambda>i s. pushes (held_len len) (map (Pair (priority_of i)) (la_channels st ! i)) s"
  let ?s = "?p 2 (?p 1 (?p 0 (la_sched st)))"
  have ok: "sched_ok (held_len len) (la_sched st)" using assms by (simp add: lanes_ok_def)
  have s: "la_sched (take_queued len st) = ?s" by (simp add: take_queued_def)
  have q: "ln_queue (lane_at ?s i) = ln_queue (lane_at (la_sched st) i) @ la_channels st ! i" if "i < 3" for i
  proof -
    have "i = 0 \<or> i = 1 \<or> i = 2" using that by linarith
    then show ?thesis
      by (elim disjE) (simp_all add: pushes_queue pushes_ok ok priority_of_def)
  qed
  show fl: "i < 3 \<Longrightarrow> in_flight i (take_queued len st) = in_flight i st" for i
  proof -
    assume i: "i < 3"
    then have "la_channels (take_queued len st) ! i = []"
      by (auto simp: take_queued_def numeral_3_eq_3 less_Suc_eq)
    then show "in_flight i (take_queued len st) = in_flight i st" using q [OF i] by (simp add: in_flight_def s)
  qed
  show "lanes_ok len (take_queued len st)"
    using assms fl pushes_ok [OF pushes_ok [OF pushes_ok [OF ok]]] unfolding lanes_ok_def s
    by (simp add: take_queued_def)
qed

lemma take_queued_again: "take_queued len (take_queued len st) = take_queued len st"
  by (simp add: take_queued_def)

text \<open>The \<open>expect\<close> of \<open>next_batch\<close> holds: a feed that is ready composes a batch.\<close>

lemma ready_composes:
  assumes "lanes_ok len st" "feed_ready len st = (Some True, st')"
  shows "\<exists>batch. fst (take_batch len st') = Some batch"
proof -
  have st': "st' = take_queued len st" "\<not> sched_is_empty (la_sched st')"
    using assms(2) by (auto simp: feed_ready_def Let_def split: if_splits)
  moreover have "sched_ok (held_len len) (la_sched st')"
    using take_queued_ok(1) [OF assms(1)] by (simp add: st' lanes_ok_def)
  ultimately have "next_batch (held_len len) (la_sched (take_queued len st')) \<noteq> None"
    using next_batch_None [of "held_len len" "la_sched st'"] by (simp add: take_queued_again)
  then show ?thesis by (auto simp: take_batch_def Let_def)
qed

lemma fold_release:
  "(\<And>h. h \<in> set hs \<Longrightarrow> h_lane h < length free) \<Longrightarrow> length (fold release hs free) = length free \<and>
   (i < length free \<longrightarrow> fold release hs free ! i = free ! i + permits (filter (\<lambda>h. h_lane h = i) hs))"
  by (induction hs arbitrary: free) (auto simp: release_def nth_list_update)

lemma permits_mset: "mset hs = mset gs \<Longrightarrow> permits (filter P hs) = permits (filter P gs)"
  unfolding permits_def by (metis mset_filter mset_map sum_mset_sum_list)

lemma filter_lane: "list_all (held_ok len mx j) hs \<Longrightarrow> filter (\<lambda>h. h_lane h = i) hs = (if i = j then hs else [])"
  by (induction hs) (auto simp: held_ok_def)

lemma concat_lanes:
  assumes "length ts = 3" "\<And>j. j < 3 \<Longrightarrow> list_all (held_ok len mx j) (ts ! j)" "i < 3"
  shows "filter (\<lambda>h. h_lane h = i) (concat ts) = ts ! i"
proof -
  obtain a b c where "ts = [a, b, c]" using assms(1) by (auto simp: length_Suc_conv numeral_3_eq_3)
  then show ?thesis
    using assms(2) [of 0] assms(2) [of 1] assms(2) [of 2] assms(3)
    by (auto simp: filter_lane numeral_3_eq_3 numeral_2_eq_2 less_Suc_eq)
qed

lemma take_batch_ok:
  assumes "lanes_ok len st" "take_batch len st = (r, st')"
  shows "lanes_ok len st'"
proof (cases "next_batch (held_len len) (la_sched (take_queued len st))")
  case None
  then show ?thesis using assms take_queued_ok(1) by (auto simp: take_batch_def Let_def)
next
  case (Some bs)
  let ?q = "take_queued len st"
  obtain b s where bs: "bs = (b, s)" by (cases bs)
  have st': "st' = ?q\<lparr>la_sched := s, la_free := fold release (b_items b) (la_free ?q)\<rparr>"
    using assms(2) Some bs by (simp add: take_batch_def Let_def)
  have q: "lanes_ok len ?q" using take_queued_ok(1) [OF assms(1)] .
  then have ok: "sched_ok (held_len len) (la_sched ?q)" and len: "length (la_free ?q) = 3"
    by (simp_all add: lanes_ok_def)
  obtain sd ts where st: "batch_step (held_len len) (la_sched ?q) sd ts b s"
    using next_batch_step [OF ok] Some bs by blast
  then have m: "lanes_moved (held_len len) (ls_lanes (la_sched ?q)) ts (ls_lanes s)" and ms: "mset (b_items b) = mset (concat ts)"
    unfolding batch_step_def by blast+
  have l3: "length (ls_lanes (la_sched ?q)) = 3" using ok by (simp add: sched_ok_def)
  have moved: "in_flight i ?q = ts ! i @ in_flight i st'" if "i < 3" for i
    using lanes_moved_nth [OF m, of i] that l3 by (simp add: in_flight_def moved_def st')
  have mx: "la_max_lane_bytes st' = la_max_lane_bytes ?q" by (simp add: st')
  have lane: "list_all (held_ok len (la_max_lane_bytes st') i) (ts ! i @ in_flight i st')"
    "la_free ?q ! i + permits (ts ! i @ in_flight i st') = la_max_lane_bytes st'" if "i < 3" for i
  proof -
    have "list_all (held_ok len (la_max_lane_bytes ?q) i) (in_flight i ?q)"
      "la_free ?q ! i + permits (in_flight i ?q) = la_max_lane_bytes ?q"
      using q that unfolding lanes_ok_def by blast+
    then show "list_all (held_ok len (la_max_lane_bytes st') i) (ts ! i @ in_flight i st')"
      "la_free ?q ! i + permits (ts ! i @ in_flight i st') = la_max_lane_bytes st'"
      unfolding moved [OF that] mx by blast+
  qed
  have t3: "length ts = 3" using lanes_moved_length [OF m] l3 by simp
  have tk: "list_all (held_ok len (la_max_lane_bytes st') i) (ts ! i)" if "i < 3" for i
    using lane(1) [OF that] by simp
  have "h_lane h < 3" if "h \<in> set (b_items b)" for h
  proof -
    have "h \<in> set (concat ts)" using that ms by (metis set_mset_mset)
    then obtain t where "t \<in> set ts" "h \<in> set t" by auto
    then obtain j where "j < 3" "h \<in> set (ts ! j)" using t3 by (metis in_set_conv_nth)
    then show ?thesis using tk [of j] by (auto simp: list_all_iff held_ok_def)
  qed
  then have rel: "length (la_free st') = 3 \<and> (i < 3 \<longrightarrow> la_free st' ! i = la_free ?q ! i + permits (ts ! i))" for i
    using fold_release [of "b_items b" "la_free ?q" i] len permits_mset [OF ms] concat_lanes [OF t3 tk]
    by (auto simp: st')
  have "la_free st' ! i + permits (in_flight i st') = la_max_lane_bytes st'" if "i < 3" for i
    using rel [of i] lane(2) [OF that] that by simp
  moreover have "list_all (held_ok len (la_max_lane_bytes st') i) (in_flight i st')" if "i < 3" for i
    using lane(1) [OF that] by simp
  moreover have "sched_ok (held_len len) (la_sched st')" "length (la_channels st') = 3"
    using next_batch_ok [OF ok] Some bs q by (simp_all add: st' lanes_ok_def)
  ultimately show ?thesis using rel by (simp add: lanes_ok_def)
qed

text \<open>The steps of the channel: a send that went through, a batch, and the end of either side.\<close>

inductive lanes_reachable :: "('a \<Rightarrow> nat) \<Rightarrow> nat \<Rightarrow> nat \<Rightarrow> 'a Lanes \<Rightarrow> bool" for len m b where
  start: "lanes_reachable len m b (lanes_new m b)"
| send: "lanes_reachable len m b st \<Longrightarrow> lanes_send len p x st = Some (r, st') \<Longrightarrow> lanes_reachable len m b st'"
| ready: "lanes_reachable len m b st \<Longrightarrow> feed_ready len st = (r, st') \<Longrightarrow> lanes_reachable len m b st'"
| batch: "lanes_reachable len m b st \<Longrightarrow> take_batch len st = (r, st') \<Longrightarrow> lanes_reachable len m b st'"
| receiver_gone: "lanes_reachable len m b st \<Longrightarrow> lanes_reachable len m b (st\<lparr>la_receiver := False\<rparr>)"
| senders_gone: "lanes_reachable len m b st \<Longrightarrow> lanes_reachable len m b (st\<lparr>la_senders := False\<rparr>)"

lemma max_kept:
  "lanes_send len p x st = Some (r, st') \<Longrightarrow> la_max_lane_bytes st' = la_max_lane_bytes st"
  "take_batch len st = (rb, st') \<Longrightarrow> la_max_lane_bytes st' = la_max_lane_bytes st"
  "feed_ready len st = (rr, st') \<Longrightarrow> la_max_lane_bytes st' = la_max_lane_bytes st \<and> st' = take_queued len st"
  by (auto simp: lanes_send_def take_batch_def feed_ready_def take_queued_def Let_def split: if_splits option.splits)

lemma lanes_reachable_ok:
  "lanes_reachable len m b st \<Longrightarrow> 0 < b \<Longrightarrow> b \<le> USIZE_MAX \<Longrightarrow> lanes_ok len st \<and> la_max_lane_bytes st = m"
proof (induction rule: lanes_reachable.induct)
  case start
  then show ?case by (simp add: lanes_new_ok) (simp add: lanes_new_def)
next
  case (send st p x r st')
  then show ?case using lanes_send_ok max_kept(1) by metis
next
  case (ready st r st')
  then show ?case using take_queued_ok(1) max_kept(3) by metis
next
  case (batch st r st')
  then show ?case using take_batch_ok max_kept(2) by metis
qed (auto simp: lanes_ok_def in_flight_def)

lemma permits_items:
  "list_all (held_ok len m i) hs \<Longrightarrow> \<forall>h \<in> set hs. len (h_item h) \<le> m \<Longrightarrow> sum_list (map (\<lambda>h. len (h_item h)) hs) \<le> permits hs"
  by (induction hs) (auto simp: held_ok_def)

lemma permits_count: "list_all (held_ok len m i) hs \<Longrightarrow> 0 < m \<Longrightarrow> length hs \<le> permits hs"
  by (induction hs) (auto simp: held_ok_def)

lemma permits_large:
  assumes "list_all (held_ok len m i) hs" "h \<in> set hs" "m < len (h_item h)" "permits hs \<le> m" "0 < m"
  shows "length hs = 1"
proof -
  obtain us vs where hs: "hs = us @ h # vs" using assms(2) by (metis split_list)
  then have "permits us + permits vs = 0" using assms by (auto simp: held_ok_def)
  moreover have "length us + length vs \<le> permits us + permits vs"
    using permits_count [of len m i us] permits_count [of len m i vs] assms(1,5) hs by fastforce
  ultimately show ?thesis by (simp add: hs)
qed

text \<open>C32. What waits in a lane is bounded by its budget, whoever sends and however slow the writer is: the
  items in flight never add up to more than it, except for a single larger item that is then in flight
  alone. When nothing is in flight the whole budget is free again.\<close>

theorem lane_budget:
  assumes "lanes_reachable len m b st" "0 < m" "0 < b" "b \<le> USIZE_MAX" "i < 3"
  shows "(sum_list (map (\<lambda>h. len (h_item h)) (in_flight i st)) \<le> m \<or> length (in_flight i st) = 1) \<and>
    (in_flight i st = [] \<longrightarrow> la_free st ! i = m)"
proof -
  have ok: "list_all (held_ok len m i) (in_flight i st)" "la_free st ! i + permits (in_flight i st) = m"
    using lanes_reachable_ok [OF assms(1,3,4)] assms(5) by (auto simp: lanes_ok_def)
  then have "sum_list (map (\<lambda>h. len (h_item h)) (in_flight i st)) \<le> m \<or> length (in_flight i st) = 1"
    using permits_items [OF ok(1)] permits_large [OF ok(1)] assms(2) by (metis le_add2 le_trans not_le)
  then show ?thesis using ok(2) by auto
qed

theorem lane_budget_witness:
  "let st = snd (the (lanes_send (\<lambda>n. n) Bulk 7 (lanes_new 5 4))) in
   (sum_list (map (\<lambda>h. h_item h) (in_flight 1 st)) \<le> 5 \<or> length (in_flight 1 st) = 1) \<and>
   (in_flight 1 st = [] \<longrightarrow> la_free st ! 1 = (5 :: nat))"
proof -
  have "lanes_send (\<lambda>n. n) Bulk 7 (lanes_new 5 4) \<noteq> None"
    by (simp add: lanes_send_def lanes_new_def)
  then obtain st where st: "lanes_send (\<lambda>n. n) Bulk 7 (lanes_new 5 4) = Some st" by blast
  then have "lanes_reachable (\<lambda>n. n) 5 4 (snd st)"
    using lanes_reachable.send [OF lanes_reachable.start, of "\<lambda>n. n" Bulk 7 5 4 "fst st" "snd st"] by simp
  from lane_budget [OF this, of 1] show ?thesis by (simp add: st USIZE_MAX_def)
qed

end
