(* ===== verification/Session_Base.thy ===== *)
theory Session_Base
  imports Link_Run Csm_Now_Playing
begin

text \<open>What the flows of the session share (\<open>crates/iap2/src/session/mod.rs\<close>): the events it reports, the
  channels it writes to, and \<open>send_csm\<close>.\<close>

section \<open>Events\<close>

text \<open>The reason of a \<open>LinkDown\<close>: the link's own, or the session's texts. The channel ends that
  \<open>EaStreamOpened\<close> hands out are named by the stream's number.\<close>

datatype DownReason =
    LinkReason LinkReason
  | SessionError Iap2Error
  | LinkTaskExited

datatype SessionEvent =
    LinkEstablished Lsp
  | LinkRestarted LinkReason
  | Authenticated
  | Identified
  | AuthFailed
  | IdentRejected "u16 list"
  | NowPlaying NowPlayingUpdate
  | CallState CallStateUpdate
  | Communications CommunicationsUpdate
  | DeviceName DeviceInformationUpdate
  | DeviceLanguage DeviceLanguageUpdate
  | DeviceTime DeviceTimeUpdate
  | DeviceUuid DeviceUUIDUpdate
  | EaStreamOpened u16 u8
  | EaStreamClosed u16
  | ArtworkBytes u8 bytes
  | QueueSnapshotBytes u8 bytes
  | SessionDown DownReason

section \<open>Channels\<close>

text \<open>An \<open>mpsc::Sender\<close>: what has been sent, and how many more sends its receiver lives for (\<open>None\<close>: all).\<close>

record 'a Chan =
  ch_sent :: "'a list"
  ch_budget :: "nat option"

definition chan_send :: "'a \<Rightarrow> 'a Chan \<Rightarrow> bool \<times> 'a Chan" where
  "chan_send x c =
    (case ch_budget c of
       None \<Rightarrow> (True, c\<lparr>ch_sent := ch_sent c @ [x]\<rparr>)
     | Some 0 \<Rightarrow> (False, c)
     | Some (Suc n) \<Rightarrow> (True, c\<lparr>ch_sent := ch_sent c @ [x], ch_budget := Some n\<rparr>))"

text \<open>The two channels of a session, with the clock, in nanoseconds, that its sleeps advance.\<close>

record SessionIo =
  io_link :: "Iap2Command Chan"
  io_events :: "SessionEvent Chan"
  io_now :: nat

definition CONTROL_SESSION_ID :: u8 where "CONTROL_SESSION_ID = 1"

definition link_send :: "Iap2Command \<Rightarrow> SessionIo \<Rightarrow> (Iap2Error + unit) \<times> SessionIo" where
  "link_send cmd io =
    (case chan_send cmd (io_link io) of
       (ok, c) \<Rightarrow> (if ok then Inr () else Inl LinkClosed, io\<lparr>io_link := c\<rparr>))"

definition send_csm :: "CsmFrame \<Rightarrow> SessionIo \<Rightarrow> (Iap2Error + unit) \<times> SessionIo" where
  "send_csm frame io = link_send (Send CONTROL_SESSION_ID (csm_encode frame)) io"

text \<open>\<open>emit\<close>: an event without a receiver is lost.\<close>

definition session_emit :: "SessionEvent \<Rightarrow> SessionIo \<Rightarrow> SessionIo" where
  "session_emit ev io = io\<lparr>io_events := snd (chan_send ev (io_events io))\<rparr>"

definition sleep :: "nat \<Rightarrow> SessionIo \<Rightarrow> SessionIo" where
  "sleep d io = io\<lparr>io_now := io_now io + d\<rparr>"

section \<open>What was sent\<close>

abbreviation sent :: "SessionIo \<Rightarrow> Iap2Command list" where
  "sent io \<equiv> ch_sent (io_link io)"
abbreviation emitted :: "SessionIo \<Rightarrow> SessionEvent list" where
  "emitted io \<equiv> ch_sent (io_events io)"

text \<open>An open channel takes everything.\<close>

definition link_open :: "SessionIo \<Rightarrow> bool" where
  "link_open io \<longleftrightarrow> ch_budget (io_link io) = None"
definition events_open :: "SessionIo \<Rightarrow> bool" where
  "events_open io \<longleftrightarrow> ch_budget (io_events io) = None"

named_theorems session_simps \<open>the effect of the session's outputs\<close>

lemma link_send_open [session_simps]:
  "link_open io \<Longrightarrow> link_send cmd io = (Inr (), io\<lparr>io_link := (io_link io)\<lparr>ch_sent := sent io @ [cmd]\<rparr>\<rparr>)"
  by (simp add: link_send_def chan_send_def link_open_def)

lemma link_send_cases:
  "link_send cmd io = (r, io') \<Longrightarrow>
   (r = Inr () \<and> sent io' = sent io @ [cmd] \<or> r = Inl LinkClosed \<and> io' = io) \<and>
   io_events io' = io_events io \<and> io_now io' = io_now io \<and> (link_open io' \<longleftrightarrow> link_open io)"
  by (auto simp: link_send_def chan_send_def link_open_def split: option.splits nat.splits)

lemma send_csm_cases:
  "send_csm f io = (r, io') \<Longrightarrow>
   (r = Inr () \<and> sent io' = sent io @ [Send CONTROL_SESSION_ID (csm_encode f)] \<or> r = Inl LinkClosed \<and> io' = io) \<and>
   io_events io' = io_events io \<and> io_now io' = io_now io \<and> (link_open io' \<longleftrightarrow> link_open io)"
  unfolding send_csm_def by (rule link_send_cases)

lemma session_emit_simps [simp]:
  "io_link (session_emit ev io) = io_link io" "io_now (session_emit ev io) = io_now io"
  "link_open (session_emit ev io) = link_open io" "events_open (session_emit ev io) = events_open io"
  by (auto simp: session_emit_def link_open_def events_open_def chan_send_def split: option.splits nat.splits)

lemma emitted_emit: "events_open io \<Longrightarrow> emitted (session_emit ev io) = emitted io @ [ev]"
  by (simp add: session_emit_def chan_send_def events_open_def)

lemma sleep_simps [simp]:
  "io_link (sleep d io) = io_link io" "io_events (sleep d io) = io_events io" "io_now (sleep d io) = io_now io + d"
  "link_open (sleep d io) = link_open io" "events_open (sleep d io) = events_open io"
  by (simp_all add: sleep_def link_open_def events_open_def)

lemma events_open_link [simp]: "events_open (io\<lparr>io_link := c\<rparr>) = events_open io"
  by (simp add: events_open_def)

end
