(* ===== verification/Session_Flows.thy ===== *)
theory Session_Flows
  imports Session_Base
begin

text \<open>The flows of the session that keep little state: authentication, identification, device
  notifications, telephony and HID (\<open>crates/iap2/src/session\<close>: \<open>auth.rs\<close>, \<open>identification.rs\<close>,
  \<open>device.rs\<close>, \<open>telephony.rs\<close>, \<open>hid.rs\<close>). A handler returns its result, the flow's new state and the
  channels.\<close>

type_synonym 'f handled = "(Iap2Error + SessionEvent option) \<times> 'f \<times> SessionIo"

text \<open>\<open>frame.try_into()?\<close>.\<close>

definition decoded :: "CsmDecodeError + 'a \<Rightarrow> Iap2Error + 'a" where
  "decoded r = (case r of Inl e \<Rightarrow> Inl (CsmDecode e) | Inr x \<Rightarrow> Inr x)"

section \<open>Authentication\<close>

text \<open>The trait \<open>MfiAccess\<close>, with the state of the coprocessor.\<close>

record 'm MfiAccess =
  mfi_cert :: "'m \<Rightarrow> (string + bytes) \<times> 'm"
  mfi_sign :: "bytes \<Rightarrow> 'm \<Rightarrow> (string + bytes) \<times> 'm"

definition CHALLENGE_LEN :: nat where "CHALLENGE_LEN = 32"

datatype AuthState =
    AwaitingCertRequest
  | AwaitingChallenge
  | AwaitingAuthResult
  | AuthAuthenticated
  | AuthRefused

definition AuthFlow_new :: AuthState where "AuthFlow_new = AwaitingCertRequest"

definition auth_handles :: "u16 \<Rightarrow> bool" where
  "auth_handles msg_id \<longleftrightarrow> 0xAA00 \<le> msg_id \<and> msg_id \<le> 0xAA05"

definition is_authenticated :: "AuthState \<Rightarrow> bool" where
  "is_authenticated st \<longleftrightarrow> st = AuthAuthenticated"

definition auth_handle ::
  "'m MfiAccess \<Rightarrow> CsmFrame \<Rightarrow> AuthState \<Rightarrow> 'm \<Rightarrow> SessionIo \<Rightarrow>
    (Iap2Error + SessionEvent option) \<times> AuthState \<times> 'm \<times> SessionIo" where
  "auth_handle mfi frame st m io =
    (let i = cf_msg_id frame in
     if i = RequestAuthenticationCertificate_MSG_ID then
       (case decoded (RequestAuthenticationCertificate_from_frame frame) of
          Inl e \<Rightarrow> (Inl e, st, m, io)
        | Inr _ \<Rightarrow>
            (case mfi_cert mfi m of
               (Inl e, m') \<Rightarrow> (Inl (MfiError e), st, m', io)
             | (Inr cert, m') \<Rightarrow>
                 (case send_csm (AuthenticationCertificate_to_frame \<lparr>ac_cert = cert\<rparr>) io of
                    (Inl e, io') \<Rightarrow> (Inl e, st, m', io')
                  | (Inr _, io') \<Rightarrow> (Inr None, AwaitingChallenge, m', io'))))
     else if i = RequestAuthenticationChallengeResponse_MSG_ID then
       (case decoded (RequestAuthenticationChallengeResponse_from_frame frame) of
          Inl e \<Rightarrow> (Inl e, st, m, io)
        | Inr req \<Rightarrow>
            (if length (racr_challenge req) \<noteq> CHALLENGE_LEN
             then (Inl (CsmDecode (ParamLength 0 CHALLENGE_LEN (length (racr_challenge req)))), st, m, io)
             else case mfi_sign mfi (racr_challenge req) m of
               (Inl e, m') \<Rightarrow> (Inl (MfiError e), st, m', io)
             | (Inr response, m') \<Rightarrow>
                 (case send_csm (AuthenticationResponse_to_frame \<lparr>ar_response = response\<rparr>) io of
                    (Inl e, io') \<Rightarrow> (Inl e, st, m', io')
                  | (Inr _, io') \<Rightarrow> (Inr None, AwaitingAuthResult, m', io'))))
     else if i = AuthenticationSucceeded_MSG_ID then
       (case decoded (AuthenticationSucceeded_from_frame frame) of
          Inl e \<Rightarrow> (Inl e, st, m, io)
        | Inr _ \<Rightarrow> (Inr None, AuthAuthenticated, m, session_emit Authenticated io))
     else if i = AuthenticationFailed_MSG_ID then
       (case decoded (AuthenticationFailed_from_frame frame) of
          Inl e \<Rightarrow> (Inl e, st, m, io)
        | Inr _ \<Rightarrow> (Inr (Some AuthFailed), AuthRefused, m, io))
     else (Inr None, st, m, io))"

section \<open>Identification\<close>

datatype IdentState = AwaitingStart | AwaitingResult | Accepted | Rejected

definition IdentificationFlow_new :: IdentState where "IdentificationFlow_new = AwaitingStart"

definition ident_handles :: "u16 \<Rightarrow> bool" where
  "ident_handles msg_id \<longleftrightarrow> 0x1D00 \<le> msg_id \<and> msg_id \<le> 0x1D03"

definition is_accepted :: "IdentState \<Rightarrow> bool" where
  "is_accepted st \<longleftrightarrow> st = Accepted"

definition ident_handle :: "CsmFrame \<Rightarrow> IdentificationConfig \<Rightarrow> IdentState \<Rightarrow> SessionIo \<Rightarrow> IdentState handled" where
  "ident_handle frame identification st io =
    (let i = cf_msg_id frame in
     if i = StartIdentification_MSG_ID then
       (case decoded (StartIdentification_from_frame frame) of
          Inl e \<Rightarrow> (Inl e, st, io)
        | Inr _ \<Rightarrow>
            (case send_csm (IdentificationInformation_to_frame identification) io of
               (Inl e, io') \<Rightarrow> (Inl e, st, io')
             | (Inr _, io') \<Rightarrow> (Inr None, AwaitingResult, io')))
     else if i = IdentificationAccepted_MSG_ID then
       (case decoded (IdentificationAccepted_from_frame frame) of
          Inl e \<Rightarrow> (Inl e, st, io)
        | Inr _ \<Rightarrow> (Inr None, Accepted, session_emit Identified io))
     else if i = IdentificationRejected_MSG_ID then
       (case decoded (IdentificationRejected_from_frame frame) of
          Inl e \<Rightarrow> (Inl e, st, io)
        | Inr rejected \<Rightarrow> (Inr (Some (IdentRejected (ir_rejected_params rejected))), Rejected, io))
     else (Inr None, st, io))"

section \<open>Device notifications\<close>

definition device_handles :: "u16 \<Rightarrow> bool" where
  "device_handles msg_id \<longleftrightarrow> msg_id = 0x4E09 \<or> msg_id = 0x4E0A \<or> msg_id = 0x4E0B \<or> msg_id = 0x4E0C"

text \<open>The flow has no state. An event of a message that decodes is reported.\<close>

definition emit_decoded :: "('a \<Rightarrow> SessionEvent) \<Rightarrow> CsmDecodeError + 'a \<Rightarrow> SessionIo \<Rightarrow>
    (Iap2Error + SessionEvent option) \<times> SessionIo" where
  "emit_decoded ev r io =
    (case decoded r of Inl e \<Rightarrow> (Inl e, io) | Inr m \<Rightarrow> (Inr None, session_emit (ev m) io))"

definition device_handle :: "CsmFrame \<Rightarrow> SessionIo \<Rightarrow> (Iap2Error + SessionEvent option) \<times> SessionIo" where
  "device_handle frame io =
    (let i = cf_msg_id frame in
     if i = 0x4E09 then emit_decoded DeviceName (DeviceInformationUpdate_from_frame frame) io
     else if i = 0x4E0A then emit_decoded DeviceLanguage (DeviceLanguageUpdate_from_frame frame) io
     else if i = 0x4E0B then emit_decoded DeviceTime (DeviceTimeUpdate_from_frame frame) io
     else if i = 0x4E0C then emit_decoded DeviceUuid (DeviceUUIDUpdate_from_frame frame) io
     else (Inr None, io))"

section \<open>Telephony\<close>

datatype TelephonyCommand =
    TelInitiate InitiateCall
  | TelAccept AcceptCall
  | TelEnd EndCall
  | TelSwap
  | TelMerge
  | TelHold HoldStatusUpdate
  | TelMute MuteStatusUpdate
  | TelDtmf SendDtmf

datatype SubscriptionState = TelIdle | TelSubscribed

definition TelephonyFlow_new :: SubscriptionState where "TelephonyFlow_new = TelIdle"

definition telephony_handles :: "u16 \<Rightarrow> bool" where
  "telephony_handles msg_id \<longleftrightarrow> msg_id = CallStateUpdate_MSG_ID \<or> msg_id = CommunicationsUpdate_MSG_ID"

definition telephony_ensure_subscribed ::
  "SubscriptionState \<Rightarrow> SessionIo \<Rightarrow> (Iap2Error + unit) \<times> SubscriptionState \<times> SessionIo" where
  "telephony_ensure_subscribed st io =
    (if st = TelIdle then
       (case send_csm (StartCallStateUpdates_to_frame StartCallStateUpdates_standard) io of
          (Inl e, io') \<Rightarrow> (Inl e, st, io')
        | (Inr _, io') \<Rightarrow>
            (case send_csm (StartCommunicationsUpdates_to_frame StartCommunicationsUpdates_standard) io' of
               (Inl e, io'') \<Rightarrow> (Inl e, st, io'')
             | (Inr _, io'') \<Rightarrow> (Inr (), TelSubscribed, io'')))
     else (Inr (), st, io))"

definition telephony_reset :: "SubscriptionState \<Rightarrow> SubscriptionState" where
  "telephony_reset st = TelIdle"

definition telephony_handle :: "CsmFrame \<Rightarrow> SessionIo \<Rightarrow> (Iap2Error + SessionEvent option) \<times> SessionIo" where
  "telephony_handle frame io =
    (let i = cf_msg_id frame in
     if i = CallStateUpdate_MSG_ID then emit_decoded CallState (CallStateUpdate_from_frame frame) io
     else if i = CommunicationsUpdate_MSG_ID then emit_decoded Communications (CommunicationsUpdate_from_frame frame) io
     else (Inr None, io))"

fun telephony_frame :: "TelephonyCommand \<Rightarrow> CsmFrame" where
  "telephony_frame (TelInitiate c) = InitiateCall_to_frame c"
| "telephony_frame (TelAccept c) = AcceptCall_to_frame c"
| "telephony_frame (TelEnd c) = EndCall_to_frame c"
| "telephony_frame TelSwap = SwapCalls_to_frame ()"
| "telephony_frame TelMerge = MergeCalls_to_frame ()"
| "telephony_frame (TelHold c) = HoldStatusUpdate_to_frame c"
| "telephony_frame (TelMute c) = MuteStatusUpdate_to_frame c"
| "telephony_frame (TelDtmf c) = SendDtmf_to_frame c"

definition telephony_command :: "TelephonyCommand \<Rightarrow> SubscriptionState \<Rightarrow> SessionIo \<Rightarrow> (Iap2Error + unit) \<times> SessionIo" where
  "telephony_command cmd st io =
    (if st \<noteq> TelSubscribed then (Inr (), io) else send_csm (telephony_frame cmd) io)"

section \<open>HID\<close>

definition TAP_RELEASE_DELAY :: nat where "TAP_RELEASE_DELAY = millis 10"
definition INTER_TAP_DELAY :: nat where "INTER_TAP_DELAY = millis 60"

datatype HidCommand = Pulse u8 | Sequence u8 u8

datatype HidState = HidIdle | HidStarted | HidStopped

definition HidFlow_new :: HidState where "HidFlow_new = HidIdle"

definition hid_handles :: "u16 \<Rightarrow> bool" where
  "hid_handles msg_id \<longleftrightarrow> msg_id = 0x6801 \<or> msg_id = 0x6806 \<or> msg_id = 0x6807"

text \<open>Inbound reports are decoded and only logged.\<close>

definition hid_handle :: "CsmFrame \<Rightarrow> Iap2Error + SessionEvent option" where
  "hid_handle frame =
    (let i = cf_msg_id frame in
     if i = 0x6801 then (case decoded (DeviceHIDReport_from_frame frame) of Inl e \<Rightarrow> Inl e | Inr _ \<Rightarrow> Inr None)
     else if i = 0x6806 then (case decoded (StartNativeHID_from_frame frame) of Inl e \<Rightarrow> Inl e | Inr _ \<Rightarrow> Inr None)
     else if i = 0x6807 then (case decoded (HIDComponentUpdate_from_frame frame) of Inl e \<Rightarrow> Inl e | Inr _ \<Rightarrow> Inr None)
     else Inr None)"

definition start_hid :: StartHID where
  "start_hid = \<lparr>shid_component_id = TRANSPORT_COMPONENT_ID, shid_vendor_id = VENDOR_ID, shid_product_id = PRODUCT_ID,
    shid_descriptor = TRANSPORT_DESCRIPTOR\<rparr>"

definition hid_ensure_started :: "HidState \<Rightarrow> SessionIo \<Rightarrow> (Iap2Error + unit) \<times> HidState \<times> SessionIo" where
  "hid_ensure_started st io =
    (if st = HidIdle then
       (case send_csm (StartHID_to_frame start_hid) io of
          (Inl e, io') \<Rightarrow> (Inl e, st, io')
        | (Inr _, io') \<Rightarrow> (Inr (), HidStarted, io'))
     else (Inr (), st, io))"

definition hid_reset :: "HidState \<Rightarrow> HidState" where
  "hid_reset st = HidIdle"

definition send_pulse :: "u8 \<Rightarrow> SessionIo \<Rightarrow> (Iap2Error + unit) \<times> SessionIo" where
  "send_pulse bits io =
    (case send_csm (AccessoryHIDReport_to_frame (transport_report bits)) io of
       (Inl e, io') \<Rightarrow> (Inl e, io')
     | (Inr _, io') \<Rightarrow>
         (case send_csm (AccessoryHIDReport_to_frame (transport_report 0)) (sleep TAP_RELEASE_DELAY io') of
            (Inl e, io'') \<Rightarrow> (Inl e, io'')
          | (Inr _, io'') \<Rightarrow> (Inr (), io'')))"

text \<open>The loop of a sequence, by the number of taps left.\<close>

fun send_pulses :: "nat \<Rightarrow> u8 \<Rightarrow> SessionIo \<Rightarrow> (Iap2Error + unit) \<times> SessionIo" where
  "send_pulses 0 bits io = (Inr (), io)"
| "send_pulses (Suc n) bits io =
    (case send_pulse bits io of
       (Inl e, io') \<Rightarrow> (Inl e, io')
     | (Inr _, io') \<Rightarrow> send_pulses n bits (if 0 < n then sleep INTER_TAP_DELAY io' else io'))"

definition hid_command :: "HidCommand \<Rightarrow> HidState \<Rightarrow> SessionIo \<Rightarrow> (Iap2Error + unit) \<times> SessionIo" where
  "hid_command cmd st io =
    (if st \<noteq> HidStarted then (Inr (), io)
     else case cmd of
       Pulse bits \<Rightarrow> (if bits = 0 then (Inr (), io) else send_pulse bits io)
     | Sequence bits count \<Rightarrow> (if bits = 0 then (Inr (), io) else send_pulses (unat count) bits io))"

definition hid_shutdown :: "HidState \<Rightarrow> SessionIo \<Rightarrow> (Iap2Error + unit) \<times> HidState \<times> SessionIo" where
  "hid_shutdown st io =
    (if st = HidStarted then
       (case send_csm (StopHID_to_frame \<lparr>shidx_component_id = TRANSPORT_COMPONENT_ID\<rparr>) io of
          (Inl e, io') \<Rightarrow> (Inl e, st, io')
        | (Inr _, io') \<Rightarrow> (Inr (), HidStopped, io'))
     else (Inr (), HidStopped, io))"

section \<open>What the device sees\<close>

lemma send_csm_open [session_simps]:
  "link_open io \<Longrightarrow> send_csm f io =
     (Inr (), io\<lparr>io_link := (io_link io)\<lparr>ch_sent := sent io @ [Send CONTROL_SESSION_ID (csm_encode f)]\<rparr>\<rparr>)"
  by (simp add: send_csm_def link_send_open)

lemma link_open_sent [simp]: "link_open (io\<lparr>io_link := (io_link io)\<lparr>ch_sent := xs\<rparr>\<rparr>) = link_open io"
  by (simp add: link_open_def)

lemma session_io_eqI:
  "io_link (a :: SessionIo) = io_link b \<Longrightarrow> io_events a = io_events b \<Longrightarrow> io_now a = io_now b \<Longrightarrow> a = b"
  by (cases a; cases b) simp

text \<open>The flow fed frame by frame, up to the first error; what it returns is an event to report.\<close>

fun auth_feed ::
  "'m MfiAccess \<Rightarrow> CsmFrame list \<Rightarrow> AuthState \<Rightarrow> 'm \<Rightarrow> SessionIo \<Rightarrow>
    (Iap2Error + SessionEvent list) \<times> AuthState \<times> 'm \<times> SessionIo" where
  "auth_feed mfi [] st m io = (Inr [], st, m, io)"
| "auth_feed mfi (f # fs) st m io =
    (case auth_handle mfi f st m io of
       (Inl e, st', m', io') \<Rightarrow> (Inl e, st', m', io')
     | (Inr r, st', m', io') \<Rightarrow>
         (case auth_feed mfi fs st' m' io' of
            (Inl e, rest) \<Rightarrow> (Inl e, rest)
          | (Inr rs, rest) \<Rightarrow> (Inr ((case r of None \<Rightarrow> [] | Some ev \<Rightarrow> [ev]) @ rs), rest)))"

text \<open>The message ids of the flow.\<close>

lemmas auth_ids = RequestAuthenticationCertificate_MSG_ID_def AuthenticationCertificate_MSG_ID_def
  RequestAuthenticationChallengeResponse_MSG_ID_def AuthenticationResponse_MSG_ID_def
  AuthenticationFailed_MSG_ID_def AuthenticationSucceeded_MSG_ID_def

lemma auth_handle_certificate:
  assumes "cf_msg_id f = RequestAuthenticationCertificate_MSG_ID"
    and "mfi_cert mfi m = (Inr cert, m')" "link_open io"
  shows "auth_handle mfi f st m io = (Inr None, AwaitingChallenge, m',
    io\<lparr>io_link := (io_link io)\<lparr>ch_sent := sent io @
      [Send CONTROL_SESSION_ID (csm_encode (AuthenticationCertificate_to_frame \<lparr>ac_cert = cert\<rparr>))]\<rparr>\<rparr>)"
  using assms
  by (simp add: auth_handle_def decoded_def RequestAuthenticationCertificate_from_frame_def send_csm_open)

lemma auth_handle_challenge:
  assumes "f = RequestAuthenticationChallengeResponse_to_frame \<lparr>racr_challenge = c\<rparr>" "length c = CHALLENGE_LEN"
    and "mfi_sign mfi c m = (Inr resp, m')" "link_open io"
  shows "auth_handle mfi f st m io = (Inr None, AwaitingAuthResult, m',
    io\<lparr>io_link := (io_link io)\<lparr>ch_sent := sent io @
      [Send CONTROL_SESSION_ID (csm_encode (AuthenticationResponse_to_frame \<lparr>ar_response = resp\<rparr>))]\<rparr>\<rparr>)"
proof -
  have id: "cf_msg_id f = RequestAuthenticationChallengeResponse_MSG_ID"
    using assms(1) by (simp add: RequestAuthenticationChallengeResponse_msg.frame_has_id)
  have dec: "RequestAuthenticationChallengeResponse_from_frame
      (RequestAuthenticationChallengeResponse_to_frame \<lparr>racr_challenge = c\<rparr>) = Inr \<lparr>racr_challenge = c\<rparr>"
    by (rule RequestAuthenticationChallengeResponse_msg.read_own)
      (simp add: RequestAuthenticationChallengeResponse_ok_def)
  show ?thesis
    unfolding auth_handle_def Let_def id
    using assms by (simp add: auth_ids decoded_def dec send_csm_open)
qed

lemma auth_handle_succeeded:
  "cf_msg_id f = AuthenticationSucceeded_MSG_ID \<Longrightarrow>
   auth_handle mfi f st m io = (Inr None, AuthAuthenticated, m, session_emit Authenticated io)"
  by (simp add: auth_handle_def auth_ids decoded_def AuthenticationSucceeded_from_frame_def)

lemma auth_handle_failed:
  "cf_msg_id f = AuthenticationFailed_MSG_ID \<Longrightarrow>
   auth_handle mfi f st m io = (Inr (Some AuthFailed), AuthRefused, m, io)"
  by (simp add: auth_handle_def auth_ids decoded_def AuthenticationFailed_from_frame_def)

text \<open>Authentication, from the device's side: to a certificate request, a challenge of 32 bytes and the
  success message the accessory answers with exactly two frames, its certificate and the coprocessor's
  signature of the very challenge, and reports \<open>Authenticated\<close>.\<close>

theorem auth_handshake:
  assumes "mfi_cert mfi m = (Inr cert, m1)" "length challenge = CHALLENGE_LEN"
    and "mfi_sign mfi challenge m1 = (Inr response, m2)" "link_open io" "events_open io"
  shows "\<exists>io'. auth_feed mfi
      [RequestAuthenticationCertificate_to_frame (),
       RequestAuthenticationChallengeResponse_to_frame \<lparr>racr_challenge = challenge\<rparr>,
       AuthenticationSucceeded_to_frame ()] AuthFlow_new m io = (Inr [], AuthAuthenticated, m2, io') \<and>
    sent io' = sent io @ map (Send CONTROL_SESSION_ID \<circ> csm_encode)
      [AuthenticationCertificate_to_frame \<lparr>ac_cert = cert\<rparr>, AuthenticationResponse_to_frame \<lparr>ar_response = response\<rparr>] \<and>
    emitted io' = emitted io @ [Authenticated]"
proof -
  note steps = auth_handle_certificate [OF RequestAuthenticationCertificate_msg.frame_has_id assms(1)]
    auth_handle_challenge [OF refl assms(2,3)] auth_handle_succeeded [OF AuthenticationSucceeded_msg.frame_has_id]
  show ?thesis using assms(4,5) by (simp add: steps emitted_emit)
qed

definition demo_mfi :: "nat MfiAccess" where
  "demo_mfi = \<lparr>mfi_cert = \<lambda>n. (Inr [0x30, 0x82], n + 1), mfi_sign = \<lambda>c n. (Inr (rev c), n + 1)\<rparr>"

definition idle_io :: SessionIo where
  "idle_io = \<lparr>io_link = \<lparr>ch_sent = [], ch_budget = None\<rparr>, io_events = \<lparr>ch_sent = [], ch_budget = None\<rparr>, io_now = 0\<rparr>"

theorem auth_handshake_witness:
  "\<exists>io'. auth_feed demo_mfi
      [RequestAuthenticationCertificate_to_frame (),
       RequestAuthenticationChallengeResponse_to_frame \<lparr>racr_challenge = replicate 32 7\<rparr>,
       AuthenticationSucceeded_to_frame ()] AuthFlow_new 0 idle_io = (Inr [], AuthAuthenticated, 2, io') \<and>
    sent io' = map (Send CONTROL_SESSION_ID \<circ> csm_encode)
      [AuthenticationCertificate_to_frame \<lparr>ac_cert = [0x30, 0x82]\<rparr>,
       AuthenticationResponse_to_frame \<lparr>ar_response = rev (replicate 32 7)\<rparr>] \<and>
    emitted io' = [Authenticated]"
  using auth_handshake [of demo_mfi 0 "[0x30, 0x82]" 1 "replicate 32 7" "rev (replicate 32 7)" 2 idle_io]
  by (simp add: demo_mfi_def idle_io_def link_open_def events_open_def CHALLENGE_LEN_def)

text \<open>Whatever the device sends, the coprocessor only ever signs challenges of the right length, and the
  flow is in the state \<open>Authenticated\<close> exactly if the last verdict of the device was a success.\<close>

fun last_verdict :: "CsmFrame list \<Rightarrow> bool \<Rightarrow> bool" where
  "last_verdict [] v = v"
| "last_verdict (f # fs) v = last_verdict fs
    (if cf_msg_id f = AuthenticationSucceeded_MSG_ID then True
     else if cf_msg_id f \<in> {AuthenticationFailed_MSG_ID, RequestAuthenticationCertificate_MSG_ID,
       RequestAuthenticationChallengeResponse_MSG_ID} then False else v)"

lemma auth_handle_state:
  "auth_handle mfi f st m io = (Inr r, st', m', io') \<Longrightarrow>
   is_authenticated st' = last_verdict [f] (is_authenticated st)"
  by (auto simp: auth_handle_def is_authenticated_def Let_def auth_ids split: if_splits sum.splits prod.splits)

lemma auth_feed_verdict:
  "auth_feed mfi fs st m io = (Inr rs, st', m', io') \<Longrightarrow>
   is_authenticated st' = last_verdict fs (is_authenticated st)"
proof (induction mfi fs st m io arbitrary: rs rule: auth_feed.induct)
  case (2 mfi f fs st m io)
  from 2(2) obtain r st1 m1 io1 rs1 where h: "auth_handle mfi f st m io = (Inr r, st1, m1, io1)"
    and f: "auth_feed mfi fs st1 m1 io1 = (Inr rs1, st', m', io')"
    by (auto split: sum.splits prod.splits)
  have "is_authenticated st' = last_verdict fs (is_authenticated st1)"
    by (rule "2.IH" [OF h [symmetric] refl refl refl f])
  with auth_handle_state [OF h] show ?case by simp
qed simp

section \<open>HID\<close>

definition press_release :: "u8 \<Rightarrow> Iap2Command list" where
  "press_release bits = map (Send CONTROL_SESSION_ID \<circ> csm_encode \<circ> AccessoryHIDReport_to_frame \<circ> transport_report) [bits, 0]"

lemma send_pulse_open:
  "link_open io \<Longrightarrow> \<exists>io'. send_pulse bits io = (Inr (), io') \<and> sent io' = sent io @ press_release bits \<and>
     io_now io' = io_now io + TAP_RELEASE_DELAY \<and> emitted io' = emitted io \<and> link_open io'"
  by (simp add: send_pulse_def send_csm_open press_release_def sleep_def link_open_def)

lemma send_pulses_open:
  "link_open io \<Longrightarrow> \<exists>io'. send_pulses n bits io = (Inr (), io') \<and>
     sent io' = sent io @ concat (replicate n (press_release bits)) \<and>
     io_now io' = io_now io + n * TAP_RELEASE_DELAY + (n - 1) * INTER_TAP_DELAY \<and> emitted io' = emitted io \<and> link_open io'"
proof (induction n arbitrary: io)
  case (Suc n)
  obtain io1 where p: "send_pulse bits io = (Inr (), io1)" "sent io1 = sent io @ press_release bits"
    "io_now io1 = io_now io + TAP_RELEASE_DELAY" "emitted io1 = emitted io" "link_open io1"
    using send_pulse_open [OF Suc.prems] by blast
  define io2 where "io2 = (if 0 < n then sleep INTER_TAP_DELAY io1 else io1)"
  have io2: "sent io2 = sent io1" "emitted io2 = emitted io1" "link_open io2"
    "io_now io2 = io_now io1 + (if 0 < n then INTER_TAP_DELAY else 0)"
    using p(5) by (simp_all add: io2_def)
  have "send_pulses (Suc n) bits io = send_pulses n bits io2"
    by (simp add: p(1) io2_def)
  moreover obtain io3 where "send_pulses n bits io2 = (Inr (), io3)"
    "sent io3 = sent io2 @ concat (replicate n (press_release bits))" "emitted io3 = emitted io2" "link_open io3"
    "io_now io3 = io_now io2 + n * TAP_RELEASE_DELAY + (n - 1) * INTER_TAP_DELAY"
    using Suc.IH [OF io2(3)] by blast
  moreover have "(if 0 < n then INTER_TAP_DELAY else 0) + (n - 1) * INTER_TAP_DELAY = (Suc n - 1) * INTER_TAP_DELAY"
    by (cases n) simp_all
  ultimately show ?case using p(2-4) io2 by simp
qed simp

text \<open>A media key sequence on a started HID component: exactly \<open>count\<close> taps reach the link, each a report with
  the key's bits and a report that releases it, and the taps take ten milliseconds each with sixty
  between two. Before the component is started, and for an empty mask, nothing is sent.\<close>

theorem hid_sequence_taps:
  assumes "link_open io"
  shows "\<exists>io'. hid_command (Sequence bits count) st io = (Inr (), io') \<and>
    (let n = (if st = HidStarted \<and> bits \<noteq> 0 then unat count else 0)
     in sent io' = sent io @ concat (replicate n (press_release bits)) \<and>
        io_now io' = io_now io + n * TAP_RELEASE_DELAY + (n - 1) * INTER_TAP_DELAY) \<and>
    emitted io' = emitted io"
  using send_pulses_open [OF assms] by (auto simp: hid_command_def Let_def)

theorem hid_sequence_taps_witness:
  "\<exists>io'. hid_command (Sequence bit_NEXT 3) HidStarted idle_io = (Inr (), io') \<and>
    sent io' = concat (replicate 3 (press_release bit_NEXT)) \<and> io_now io' = millis 150"
  using hid_sequence_taps [of idle_io bit_NEXT 3 HidStarted]
  by (auto simp: idle_io_def link_open_def bit_NEXT_def TAP_RELEASE_DELAY_def INTER_TAP_DELAY_def millis_def)

end
