(* ===== verification/Session_Ea_Transport.thy ===== *)
theory Session_Ea_Transport
  imports Session_Base Lane_Channel
begin

text \<open>The transport of external accessory streams (\<open>crates/iap2/src/session/ea_transport.rs\<close>): frames are
  taken from the lanes batch by batch, cut into link packets with the stream's number in front, and put
  back together per stream on the other side.\<close>

definition EA_LINK_SESSION_ID :: u8 where "EA_LINK_SESSION_ID = 3"
definition EA_STREAM_ID_PREFIX_LEN :: nat where "EA_STREAM_ID_PREFIX_LEN = 2"
definition EA_LANE_BYTES :: nat where "EA_LANE_BYTES = 256 * 1024"
definition EA_BATCH_BYTES :: nat where "EA_BATCH_BYTES = 32 * 1024"

record EaFrame =
  ef_stream_id :: u16
  ef_bytes :: bytes

definition ea_len :: "EaFrame \<Rightarrow> nat" where
  "ea_len f = length (ef_bytes f)"

datatype EaSendError = EaChannelClosed

text \<open>\<open>EaStreamSender::send\<close>; \<open>None\<close> while the lane's budget is used up.\<close>

definition ea_send :: "u16 \<Rightarrow> Priority \<Rightarrow> bytes \<Rightarrow> EaFrame Lanes \<Rightarrow> ((EaSendError + unit) \<times> EaFrame Lanes) option" where
  "ea_send stream_id priority frame lanes =
    (case lanes_send ea_len priority \<lparr>ef_stream_id = stream_id, ef_bytes = frame\<rparr> lanes of
       None \<Rightarrow> None
     | Some (ok, lanes') \<Rightarrow> Some (if ok then Inr () else Inl EaChannelClosed, lanes'))"

definition split_stream_frame :: "bytes \<Rightarrow> (u16 \<times> bytes) option" where
  "split_stream_frame payload =
    (if length payload < 2 then None else Some (get16 (take 2 payload), drop 2 payload))"

definition max_chunk_payload :: "u16 \<Rightarrow> nat" where
  "max_chunk_payload peer_max_len =
    (let overhead = LINK_FRAME_OVERHEAD + EA_STREAM_ID_PREFIX_LEN; total = unat peer_max_len
     in if total \<le> overhead then 1 else total - overhead)"

definition ea_chunker_new :: "EaFrame Lanes" where
  "ea_chunker_new = lanes_new EA_LANE_BYTES EA_BATCH_BYTES"

section \<open>Packets\<close>

text \<open>The inner loop of \<open>ea_packets\<close>, over the rest of one frame. An open packet is its stream and its
  bytes; the loop would not end if a packet had no room for a byte.\<close>

partial_function (option) ea_split ::
  "nat \<Rightarrow> u16 \<Rightarrow> bytes \<Rightarrow> (u16 \<times> bytes) option \<Rightarrow> bytes list \<Rightarrow> ((u16 \<times> bytes) option \<times> bytes list) option" where
  "ea_split full stream_id rest opn packets =
    (if rest = [] then Some (opn, packets)
     else
       let open_id = (case opn of None \<Rightarrow> stream_id | Some (i, buf) \<Rightarrow> i);
           buf = (case opn of None \<Rightarrow> be16 stream_id | Some (i, buf) \<Rightarrow> buf);
           tk = min (full - length buf) (length rest);
           buf' = buf @ take tk rest
       in if length buf' = full then ea_split full stream_id (drop tk rest) None (packets @ [buf'])
          else ea_split full stream_id (drop tk rest) (Some (open_id, buf')) packets)"

declare ea_split.simps [code]

fun ea_items :: "nat \<Rightarrow> EaFrame list \<Rightarrow> (u16 \<times> bytes) option \<Rightarrow> bytes list \<Rightarrow> bytes list option" where
  "ea_items full [] opn packets =
    Some (case opn of None \<Rightarrow> packets | Some (i, buf) \<Rightarrow> packets @ [buf])"
| "ea_items full (frame # frames) opn packets =
    (let (opn1, packets1) =
       (case opn of
          Some (i, buf) \<Rightarrow> if i \<noteq> ef_stream_id frame then (None, packets @ [buf]) else (opn, packets)
        | None \<Rightarrow> (opn, packets))
     in case ea_split full (ef_stream_id frame) (ef_bytes frame) opn1 packets1 of
          None \<Rightarrow> None
        | Some (opn2, packets2) \<Rightarrow> ea_items full frames opn2 packets2)"

definition ea_packets :: "EaFrame Batch \<Rightarrow> nat \<Rightarrow> bytes list option" where
  "ea_packets batch max_payload = ea_items (EA_STREAM_ID_PREFIX_LEN + max_payload) (b_items batch) None []"

text \<open>A turn of \<open>chunker_task\<close>. The place in the link's queue is reserved before the batch is composed, so
  what a batch holds is decided as late as possible.\<close>

datatype ChunkerTurn = Waits | Ended | Continues

fun send_packets :: "bytes list \<Rightarrow> Iap2Command Chan \<Rightarrow> bool \<times> Iap2Command Chan" where
  "send_packets [] link = (True, link)"
| "send_packets (p # ps) link =
    (case chan_send (Send EA_LINK_SESSION_ID p) link of
       (True, link') \<Rightarrow> send_packets ps link'
     | (False, link') \<Rightarrow> (False, link'))"

definition chunker_turn ::
  "nat \<Rightarrow> EaFrame Lanes \<Rightarrow> Iap2Command Chan \<Rightarrow> (ChunkerTurn \<times> EaFrame Lanes \<times> Iap2Command Chan) option" where
  "chunker_turn max_payload lanes link =
    (case feed_ready ea_len lanes of
       (None, lanes1) \<Rightarrow> Some (Waits, lanes1, link)
     | (Some False, lanes1) \<Rightarrow> Some (Ended, lanes1, link)
     | (Some True, lanes1) \<Rightarrow>
         (if ch_budget link = Some 0 then Some (Ended, lanes1, link)
          else case take_batch ea_len lanes1 of
            (None, lanes2) \<Rightarrow> Some (Continues, lanes2, link)
          | (Some batch, lanes2) \<Rightarrow>
              (case ea_packets batch max_payload of
                 None \<Rightarrow> None
               | Some ps \<Rightarrow> (case send_packets ps link of
                   (True, link') \<Rightarrow> Some (Continues, lanes2, link')
                 | (False, link') \<Rightarrow> Some (Ended, lanes2, link')))))"

section \<open>What arrives\<close>

text \<open>The bytes with the stream they belong to: of a frame, and of a packet as the receiver splits it.\<close>

definition frame_bytes :: "EaFrame \<Rightarrow> (u16 \<times> u8) list" where
  "frame_bytes f = map (Pair (ef_stream_id f)) (ef_bytes f)"

definition packet_bytes :: "bytes \<Rightarrow> (u16 \<times> u8) list" where
  "packet_bytes p = (case split_stream_frame p of None \<Rightarrow> [] | Some (i, chunk) \<Rightarrow> map (Pair i) chunk)"

definition open_bytes :: "(u16 \<times> bytes) option \<Rightarrow> (u16 \<times> u8) list" where
  "open_bytes opn = (case opn of None \<Rightarrow> [] | Some (i, buf) \<Rightarrow> packet_bytes buf)"

definition packet_ok :: "nat \<Rightarrow> bytes \<Rightarrow> bool" where
  "packet_ok full p \<longleftrightarrow> 2 < length p \<and> length p \<le> full"

definition open_ok :: "nat \<Rightarrow> u16 \<Rightarrow> (u16 \<times> bytes) option \<Rightarrow> bool" where
  "open_ok full i opn \<longleftrightarrow>
    (case opn of None \<Rightarrow> True | Some (j, buf) \<Rightarrow> j = i \<and> 2 < length buf \<and> length buf < full \<and> take 2 buf = be16 i)"

lemma packet_bytes_prefix: "packet_bytes (be16 i @ chunk) = map (Pair i) chunk"
  by (simp add: packet_bytes_def split_stream_frame_def)

lemma open_bytes_eq: "open_ok full i (Some (i, buf)) \<Longrightarrow> \<exists>chunk. buf = be16 i @ chunk \<and> chunk \<noteq> []"
  by (rule exI [of _ "drop 2 buf"]) (auto simp: open_ok_def dest: sym)

lemma ea_split_spec:
  assumes "2 < full" "open_ok full i opn" "list_all (packet_ok full) packets"
  shows "\<exists>opn' packets'. ea_split full i rest opn packets = Some (opn', packets') \<and> open_ok full i opn' \<and>
    list_all (packet_ok full) packets' \<and>
    concat (map packet_bytes packets') @ open_bytes opn' =
      concat (map packet_bytes packets) @ open_bytes opn @ map (Pair i) rest"
  using assms
proof (induction "length rest" arbitrary: rest opn packets rule: less_induct)
  case less
  show ?case
  proof (cases "rest = []")
    case True
    then have "ea_split full i rest opn packets = Some (opn, packets)" by (subst ea_split.simps) simp
    then show ?thesis using less.prems True by simp
  next
    case False
    define open_id where "open_id = (case opn of None \<Rightarrow> i | Some (j, buf) \<Rightarrow> j)"
    define buf where "buf = (case opn of None \<Rightarrow> be16 i | Some (j, buf) \<Rightarrow> buf)"
    define tk where "tk = min (full - length buf) (length rest)"
    obtain chunk where buf: "buf = be16 i @ chunk" "open_bytes opn = map (Pair i) chunk"
      and id: "open_id = i" and room: "length buf < full"
    proof (cases opn)
      case None
      then show ?thesis using that [of "[]"] less.prems(1) by (simp add: open_id_def buf_def open_bytes_def)
    next
      case (Some p)
      then obtain b where p: "opn = Some (i, b)" using less.prems(2) by (cases p) (simp add: open_ok_def)
      then obtain chunk where "b = be16 i @ chunk" using open_bytes_eq [of full i b] less.prems(2) by blast
      then show ?thesis using that [of chunk] p less.prems(2)
        by (simp add: open_id_def buf_def open_bytes_def packet_bytes_prefix open_ok_def)
    qed
    have tk: "0 < tk" "tk \<le> length rest" "length buf + tk \<le> full"
      using False room by (auto simp: tk_def)
    let ?buf = "buf @ take tk rest"
    have step: "ea_split full i rest opn packets =
        (if length ?buf = full then ea_split full i (drop tk rest) None (packets @ [?buf])
         else ea_split full i (drop tk rest) (Some (i, ?buf)) packets)"
      using False id by (subst ea_split.simps) (simp only: Let_def open_id_def [symmetric] buf_def [symmetric] tk_def [symmetric] if_False)
    have short: "length (drop tk rest) < length rest" using tk(1) False by simp
    have bytes: "packet_bytes ?buf = open_bytes opn @ map (Pair i) (take tk rest)"
      by (simp add: buf packet_bytes_prefix)
    have all: "map (Pair i) (take tk rest) @ map (Pair i) (drop tk rest) = map (Pair i) rest"
      by (metis append_take_drop_id map_append)
    have long: "2 < length ?buf" "length ?buf \<le> full" "take 2 ?buf = be16 i" using tk buf by simp_all
    show ?thesis
    proof (cases "length ?buf = full")
      case True
      then show ?thesis
        using less.hyps [OF short, of None "packets @ [?buf]"] less.prems step long bytes all
        by (simp add: packet_ok_def open_ok_def open_bytes_def)
    next
      case False
      then show ?thesis
        using less.hyps [OF short, of "Some (i, ?buf)" packets] less.prems step long bytes all
        by (simp add: open_ok_def open_bytes_def)
    qed
  qed
qed

lemma ea_items_spec:
  assumes "2 < full"
  shows "(case opn of None \<Rightarrow> True | Some (j, buf) \<Rightarrow> open_ok full j opn) \<Longrightarrow> list_all (packet_ok full) packets \<Longrightarrow>
    \<exists>ps. ea_items full frames opn packets = Some ps \<and> list_all (packet_ok full) ps \<and>
      concat (map packet_bytes ps) = concat (map packet_bytes packets) @ open_bytes opn @ concat (map frame_bytes frames)"
proof (induction frames arbitrary: opn packets)
  case Nil
  then show ?case by (cases opn) (auto simp: open_bytes_def open_ok_def packet_ok_def)
next
  case (Cons f fs)
  obtain opn1 packets1 where o1: "(case opn of
          Some (i, buf) \<Rightarrow> if i \<noteq> ef_stream_id f then (None, packets @ [buf]) else (opn, packets)
        | None \<Rightarrow> (opn, packets)) = (opn1, packets1)" by fastforce
  have ok1: "open_ok full (ef_stream_id f) opn1" "list_all (packet_ok full) packets1"
    and b1: "concat (map packet_bytes packets1) @ open_bytes opn1 = concat (map packet_bytes packets) @ open_bytes opn"
    using o1 Cons.prems by (auto simp: open_ok_def packet_ok_def open_bytes_def list_all_iff split: option.splits if_splits)
  obtain opn2 packets2 where s: "ea_split full (ef_stream_id f) (ef_bytes f) opn1 packets1 = Some (opn2, packets2)"
    "open_ok full (ef_stream_id f) opn2" "list_all (packet_ok full) packets2"
    "concat (map packet_bytes packets2) @ open_bytes opn2 =
      concat (map packet_bytes packets1) @ open_bytes opn1 @ frame_bytes f"
    using ea_split_spec [OF assms ok1, of "ef_bytes f"] by (auto simp: frame_bytes_def)
  have "case opn2 of None \<Rightarrow> True | Some (j, buf) \<Rightarrow> open_ok full j opn2"
    using s(2) by (auto simp: open_ok_def split: option.splits)
  from Cons.IH [OF this s(3)] show ?case
    using s(1,4) o1 b1 by (simp add: Let_def) (metis append.assoc)
qed

text \<open>C22. Whatever frames a batch holds, the packets carry exactly their bytes, each with its stream, in the
  order of the batch; no packet is empty, and none is longer than one link packet of the peer takes, so the
  link never cuts it.\<close>

theorem ea_packets_carry_frames:
  assumes "LINK_FRAME_OVERHEAD + EA_STREAM_ID_PREFIX_LEN < unat (lsp_max_len lsp)"
  shows "\<exists>ps. ea_packets batch (max_chunk_payload (lsp_max_len lsp)) = Some ps \<and>
    concat (map packet_bytes ps) = concat (map frame_bytes (b_items batch)) \<and>
    list_all (\<lambda>p. EA_STREAM_ID_PREFIX_LEN < length p \<and>
      split_payload (unat (pa_max_payload_len (LinkParams_from_peer_lsp lsp))) p = [p]) ps"
proof -
  let ?full = "EA_STREAM_ID_PREFIX_LEN + max_chunk_payload (lsp_max_len lsp)"
  have full: "?full = unat (lsp_max_len lsp) - LINK_FRAME_OVERHEAD" "2 < ?full"
    using assms by (simp_all add: max_chunk_payload_def EA_STREAM_ID_PREFIX_LEN_def)
  obtain ps where ps: "ea_packets batch (max_chunk_payload (lsp_max_len lsp)) = Some ps"
    "list_all (packet_ok ?full) ps" "concat (map packet_bytes ps) = concat (map frame_bytes (b_items batch))"
    using ea_items_spec [OF full(2), of None "[]" "b_items batch"] by (auto simp: ea_packets_def open_bytes_def)
  have "?full \<le> unat (pa_max_payload_len (LinkParams_from_peer_lsp lsp))"
  proof -
    let ?m = "lsp_max_len lsp" and ?o = "of_nat LINK_FRAME_OVERHEAD :: u16"
    have o: "unat ?o = LINK_FRAME_OVERHEAD"
      by (simp add: LINK_FRAME_OVERHEAD_def LINK_HEADER_LEN_def PAYLOAD_TRAILER_def)
    then have le: "?o \<le> ?m" using assms by (simp add: word_le_nat_alt)
    then have "unat (?m - ?o) = ?full" using o full(1) by (simp add: unat_sub)
    moreover have "?m - ?o \<le> max (?m - ?o) 1" by simp
    ultimately show ?thesis
      using le by (simp add: LinkParams_from_peer_lsp_def word_le_nat_alt word_less_nat_alt)
  qed
  then have "packet_ok ?full p \<Longrightarrow> EA_STREAM_ID_PREFIX_LEN < length p \<and>
      split_payload (unat (pa_max_payload_len (LinkParams_from_peer_lsp lsp))) p = [p]" for p
    by (auto simp: packet_ok_def EA_STREAM_ID_PREFIX_LEN_def split_payload_last)
  then show ?thesis using ps by (auto simp: list_all_iff)
qed

theorem ea_packets_carry_frames_witness:
  "let lsp = Lsp_accessory_default;
       batch = \<lparr>b_items = [\<lparr>ef_stream_id = 256, ef_bytes = [1, 2, 3]\<rparr>, \<lparr>ef_stream_id = 7, ef_bytes = [9]\<rparr>], b_bytes = 4\<rparr>
   in \<exists>ps. ea_packets batch (max_chunk_payload (lsp_max_len lsp)) = Some ps \<and>
    concat (map packet_bytes ps) = concat (map frame_bytes (b_items batch)) \<and>
    list_all (\<lambda>p. EA_STREAM_ID_PREFIX_LEN < length p \<and>
      split_payload (unat (pa_max_payload_len (LinkParams_from_peer_lsp lsp))) p = [p]) ps"
  unfolding Let_def
  by (rule ea_packets_carry_frames)
    (simp add: Lsp_accessory_default_def LINK_FRAME_OVERHEAD_def LINK_HEADER_LEN_def PAYLOAD_TRAILER_def EA_STREAM_ID_PREFIX_LEN_def)

end
