(* ===== verification/Session_External_Accessory.thy ===== *)
theory Session_External_Accessory
  imports Session_Flows Session_Ea_Transport "HOL-Library.AList"
begin

text \<open>The external accessory flow of the session (\<open>crates/iap2/src/session/external_accessory.rs\<close>): the table
  of open streams and the requests to launch the companion app.\<close>

section \<open>The flow\<close>

definition MAX_APP_LAUNCH_ATTEMPTS :: u32 where "MAX_APP_LAUNCH_ATTEMPTS = 6"
definition APP_LAUNCH_RETRY_COOLDOWN :: nat where "APP_LAUNCH_RETRY_COOLDOWN = secs 10"
definition ON_DEMAND_LAUNCH_COOLDOWN :: nat where "ON_DEMAND_LAUNCH_COOLDOWN = secs 5"

datatype AppLaunchState = LaunchArmed | LaunchActive

definition send_app_launch :: "bytes \<Rightarrow> SessionIo \<Rightarrow> (Iap2Error + unit) \<times> SessionIo" where
  "send_app_launch bundle_id io =
    send_csm (RequestAppLaunch_to_frame \<lparr>ral_bundle_id = bundle_id, ral_launch_method = WithoutUserAlert\<rparr>) io"

text \<open>The streams are a hash map from the stream's number to the channel of its inbound bytes. The chunker's
  lanes are the flow's; its task is \<open>chunker_turn\<close>.\<close>

record EaFlow =
  fl_streams :: "(u16 \<times> bytes Chan) list"
  fl_chunk :: nat
  fl_lanes :: "EaFrame Lanes"
  fl_app_launch :: AppLaunchState
  fl_relaunch_attempts :: u32
  fl_last_launch_sent :: "nat option"
  fl_last_on_demand_sent :: "nat option"
  fl_accept_protocol_id :: "u8 option"

definition EaFlow_new :: "u16 \<Rightarrow> u8 option \<Rightarrow> EaFlow" where
  "EaFlow_new peer_max_len accept_protocol_id =
    \<lparr>fl_streams = [], fl_chunk = max_chunk_payload peer_max_len, fl_lanes = ea_chunker_new,
     fl_app_launch = LaunchArmed, fl_relaunch_attempts = 0, fl_last_launch_sent = None,
     fl_last_on_demand_sent = None, fl_accept_protocol_id = accept_protocol_id\<rparr>"

definition ea_handles :: "u16 \<Rightarrow> bool" where
  "ea_handles msg_id \<longleftrightarrow> msg_id = StartExternalAccessoryProtocolSession_MSG_ID \<or>
     msg_id = StopExternalAccessoryProtocolSession_MSG_ID"

text \<open>\<open>Some(last)\<close> and less than the cooldown ago.\<close>

definition cooling_down :: "nat option \<Rightarrow> nat \<Rightarrow> nat \<Rightarrow> bool" where
  "cooling_down last_sent now cooldown = (case last_sent of None \<Rightarrow> False | Some t \<Rightarrow> now - t < cooldown)"

definition ensure_app_launch_requested :: "bytes \<Rightarrow> EaFlow \<Rightarrow> SessionIo \<Rightarrow> (Iap2Error + unit) \<times> EaFlow \<times> SessionIo" where
  "ensure_app_launch_requested bundle_id fl io =
    (if fl_app_launch fl = LaunchActive \<or> MAX_APP_LAUNCH_ATTEMPTS \<le> fl_relaunch_attempts fl then (Inr (), fl, io)
     else let now = io_now io
       in if cooling_down (fl_last_launch_sent fl) now APP_LAUNCH_RETRY_COOLDOWN then (Inr (), fl, io)
          else case send_app_launch bundle_id io of
            (Inl e, io') \<Rightarrow> (Inl e, fl, io')
          | (Inr _, io') \<Rightarrow> (Inr (), fl\<lparr>fl_relaunch_attempts := fl_relaunch_attempts fl + 1,
                                        fl_last_launch_sent := Some now\<rparr>, io'))"

definition request_app_launch :: "bytes \<Rightarrow> EaFlow \<Rightarrow> SessionIo \<Rightarrow> (Iap2Error + unit) \<times> EaFlow \<times> SessionIo" where
  "request_app_launch bundle_id fl io =
    (let now = io_now io
     in if cooling_down (fl_last_on_demand_sent fl) now ON_DEMAND_LAUNCH_COOLDOWN then (Inr (), fl, io)
        else case send_app_launch bundle_id io of
          (Inl e, io') \<Rightarrow> (Inl e, fl, io')
        | (Inr _, io') \<Rightarrow> (Inr (), fl\<lparr>fl_last_on_demand_sent := Some now\<rparr>, io'))"

definition ea_status :: "u16 \<Rightarrow> EaSessionStatus \<Rightarrow> CsmFrame" where
  "ea_status session_id status =
    StatusExternalAccessoryProtocolSession_to_frame \<lparr>stea_session_id = session_id, stea_status = status\<rparr>"

text \<open>\<open>life\<close> is how much the consumer of the new stream will take before it is dropped.\<close>

definition handle_start ::
  "StartExternalAccessoryProtocolSession \<Rightarrow> nat option \<Rightarrow> EaFlow \<Rightarrow> SessionIo \<Rightarrow> (Iap2Error + unit) \<times> EaFlow \<times> SessionIo" where
  "handle_start start life fl io =
    (let i = seaps_session_id start
     in if (case fl_accept_protocol_id fl of None \<Rightarrow> False | Some accept \<Rightarrow> seaps_protocol_id start \<noteq> accept)
          \<or> map_of (fl_streams fl) i \<noteq> None
        then (case send_csm (ea_status i EaClose) io of
                (Inl e, io') \<Rightarrow> (Inl e, fl, io')
              | (Inr _, io') \<Rightarrow> (Inr (), fl, io'))
        else let fl1 = fl\<lparr>fl_streams := (i, \<lparr>ch_sent = [], ch_budget = life\<rparr>) # fl_streams fl\<rparr>
          in case send_csm (ea_status i EaOk) io of
               (Inl e, io') \<Rightarrow> (Inl e, fl1, io')
             | (Inr _, io') \<Rightarrow> (Inr (), fl1\<lparr>fl_app_launch := LaunchActive, fl_relaunch_attempts := 0\<rparr>,
                                session_emit (EaStreamOpened i (seaps_protocol_id start)) io'))"

definition without_stream :: "u16 \<Rightarrow> (u16 \<times> bytes Chan) list \<Rightarrow> (u16 \<times> bytes Chan) list" where
  "without_stream i streams = filter (\<lambda>s. fst s \<noteq> i) streams"

text \<open>Removing an open stream, whether the peer stopped it or its consumer is gone.\<close>

definition close_stream :: "u16 \<Rightarrow> EaFlow \<Rightarrow> SessionIo \<Rightarrow> EaFlow \<times> SessionIo" where
  "close_stream i fl io =
    (let rest = without_stream i (fl_streams fl)
     in (fl\<lparr>fl_streams := rest, fl_app_launch := (if rest = [] then LaunchArmed else fl_app_launch fl)\<rparr>,
         session_emit (EaStreamClosed i) io))"

definition handle_stop :: "StopExternalAccessoryProtocolSession \<Rightarrow> EaFlow \<Rightarrow> SessionIo \<Rightarrow> EaFlow \<times> SessionIo" where
  "handle_stop stop fl io =
    (if map_of (fl_streams fl) (seapsx_session_id stop) \<noteq> None
     then close_stream (seapsx_session_id stop) fl io else (fl, io))"

definition ea_handle :: "CsmFrame \<Rightarrow> (u16 \<Rightarrow> nat option) \<Rightarrow> EaFlow \<Rightarrow> SessionIo \<Rightarrow> EaFlow handled" where
  "ea_handle frame life fl io =
    (if cf_msg_id frame = StartExternalAccessoryProtocolSession_MSG_ID then
       (case decoded (StartExternalAccessoryProtocolSession_from_frame frame) of
          Inl e \<Rightarrow> (Inl e, fl, io)
        | Inr start \<Rightarrow> (case handle_start start (life (seaps_session_id start)) fl io of
            (Inl e, fl', io') \<Rightarrow> (Inl e, fl', io')
          | (Inr _, fl', io') \<Rightarrow> (Inr None, fl', io')))
     else if cf_msg_id frame = StopExternalAccessoryProtocolSession_MSG_ID then
       (case decoded (StopExternalAccessoryProtocolSession_from_frame frame) of
          Inl e \<Rightarrow> (Inl e, fl, io)
        | Inr stop \<Rightarrow> (case handle_stop stop fl io of (fl', io') \<Rightarrow> (Inr None, fl', io')))
     else (Inr None, fl, io))"

text \<open>The drain of the table, in whatever order the hash map has; a status that cannot be sent is logged.\<close>

fun teardown_streams :: "bool \<Rightarrow> u16 list \<Rightarrow> SessionIo \<Rightarrow> SessionIo" where
  "teardown_streams with_link [] io = io"
| "teardown_streams with_link (i # ids) io =
    (let io1 = (if with_link then snd (send_csm (ea_status i EaClose) io) else io)
     in teardown_streams with_link ids (session_emit (EaStreamClosed i) io1))"

definition ea_teardown :: "(u16 list \<Rightarrow> u16 list) \<Rightarrow> bool \<Rightarrow> EaFlow \<Rightarrow> SessionIo \<Rightarrow> EaFlow \<times> SessionIo" where
  "ea_teardown hash_order with_link fl io =
    (fl\<lparr>fl_streams := []\<rparr>, teardown_streams with_link (hash_order (map fst (fl_streams fl))) io)"

definition ea_dispatch_link_data :: "bytes \<Rightarrow> EaFlow \<Rightarrow> SessionIo \<Rightarrow> EaFlow \<times> SessionIo" where
  "ea_dispatch_link_data payload fl io =
    (case split_stream_frame payload of
       None \<Rightarrow> (fl, io)
     | Some (i, chunk) \<Rightarrow>
         (case map_of (fl_streams fl) i of
            None \<Rightarrow> (fl, io)
          | Some stream \<Rightarrow>
              (case chan_send chunk stream of
                 (True, stream') \<Rightarrow> (fl\<lparr>fl_streams := AList.update i stream' (fl_streams fl)\<rparr>, io)
               | (False, _) \<Rightarrow> close_stream i fl io)))"

section \<open>Runs of the flow\<close>

text \<open>What the session feeds the flow, time passing included, up to the first error.\<close>

datatype EaInput =
    InFrame CsmFrame "u16 \<Rightarrow> nat option"
  | InData bytes
  | InEnsure bytes
  | InRequest bytes
  | InTeardown bool
  | InWait nat

fun ea_input :: "(u16 list \<Rightarrow> u16 list) \<Rightarrow> EaInput \<Rightarrow> EaFlow \<Rightarrow> SessionIo \<Rightarrow> (Iap2Error + unit) \<times> EaFlow \<times> SessionIo" where
  "ea_input ord (InFrame f life) fl io =
    (case ea_handle f life fl io of (Inl e, s) \<Rightarrow> (Inl e, s) | (Inr _, s) \<Rightarrow> (Inr (), s))"
| "ea_input ord (InData payload) fl io = (Inr (), ea_dispatch_link_data payload fl io)"
| "ea_input ord (InEnsure bundle) fl io = ensure_app_launch_requested bundle fl io"
| "ea_input ord (InRequest bundle) fl io = request_app_launch bundle fl io"
| "ea_input ord (InTeardown with_link) fl io = (Inr (), ea_teardown ord with_link fl io)"
| "ea_input ord (InWait d) fl io = (Inr (), fl, sleep d io)"

fun ea_run :: "(u16 list \<Rightarrow> u16 list) \<Rightarrow> EaInput list \<Rightarrow> EaFlow \<Rightarrow> SessionIo \<Rightarrow> (Iap2Error + unit) \<times> EaFlow \<times> SessionIo" where
  "ea_run ord [] fl io = (Inr (), fl, io)"
| "ea_run ord (i # is) fl io =
    (case ea_input ord i fl io of
       (Inl e, fl', io') \<Rightarrow> (Inl e, fl', io')
     | (Inr _, fl', io') \<Rightarrow> ea_run ord is fl' io')"

section \<open>The streams and the events\<close>

text \<open>Which streams an observer of the events takes to be open; \<open>None\<close> if a stream is opened twice or closed
  without being open.\<close>

fun stream_history :: "SessionEvent list \<Rightarrow> u16 set \<Rightarrow> u16 set option" where
  "stream_history [] S = Some S"
| "stream_history (EaStreamOpened i p # evs) S = (if i \<in> S then None else stream_history evs (insert i S))"
| "stream_history (EaStreamClosed i # evs) S = (if i \<in> S then stream_history evs (S - {i}) else None)"
| "stream_history (ev # evs) S = stream_history evs S"

lemma stream_history_append:
  "stream_history (xs @ ys) S = (case stream_history xs S of None \<Rightarrow> None | Some S' \<Rightarrow> stream_history ys S')"
  by (induction xs S rule: stream_history.induct) auto

abbreviation open_streams :: "EaFlow \<Rightarrow> u16 set" where
  "open_streams fl \<equiv> set (map fst (fl_streams fl))"

definition ea_consistent :: "EaFlow \<Rightarrow> SessionIo \<Rightarrow> bool" where
  "ea_consistent fl io \<longleftrightarrow> events_open io \<and> distinct (map fst (fl_streams fl)) \<and>
     stream_history (emitted io) {} = Some (open_streams fl)"

lemma without_stream_ids: "map fst (without_stream i ss) = filter (\<lambda>j. j \<noteq> i) (map fst ss)"
  by (induction ss) (auto simp: without_stream_def)

lemma send_csm_keeps:
  "send_csm f io = (r, io') \<Longrightarrow> io_events io' = io_events io \<and> io_now io' = io_now io \<and> events_open io' = events_open io"
  using send_csm_cases [of f io r io'] by (auto simp: events_open_def)

lemma consistent_outputs [simp]:
  "ea_consistent fl (sleep d io) = ea_consistent fl io"
  "send_csm f io = (r, io') \<Longrightarrow> ea_consistent fl io' = ea_consistent fl io"
  using send_csm_keeps [of f io r io'] by (auto simp: ea_consistent_def sleep_def events_open_def)

lemma without_stream_open: "set (map fst (without_stream i ss)) = set (map fst ss) - {i}"
  by (simp only: without_stream_ids set_filter) blast

lemma close_stream_consistent:
  assumes "ea_consistent fl io" "i \<in> open_streams fl" "close_stream i fl io = (fl', io')"
  shows "ea_consistent fl' io'"
proof -
  have "fl_streams fl' = without_stream i (fl_streams fl)" "io' = session_emit (EaStreamClosed i) io"
    using assms(3) by (auto simp: close_stream_def Let_def)
  with assms(1,2) without_stream_open [of i "fl_streams fl"] without_stream_ids [of i "fl_streams fl"]
  show ?thesis
    by (simp add: ea_consistent_def emitted_emit stream_history_append del: set_map)
qed

lemma handle_start_consistent:
  assumes "ea_consistent fl io" "handle_start start life fl io = (Inr u, fl', io')"
  shows "ea_consistent fl' io'"
proof -
  have "map_of (fl_streams fl) i = None \<longleftrightarrow> i \<notin> open_streams fl" for i
    by (simp add: map_of_eq_None_iff)
  with assms show ?thesis
    by (auto simp: handle_start_def Let_def ea_consistent_def send_csm_keeps emitted_emit stream_history_append
        split: if_splits sum.splits prod.splits dest!: send_csm_keeps)
qed

lemma ea_handle_consistent:
  assumes "ea_consistent fl io" "ea_handle f life fl io = (Inr u, fl', io')"
  shows "ea_consistent fl' io'"
proof -
  have stop: "ea_consistent fl1 io1" if "handle_stop m fl io = (fl1, io1)" for m fl1 io1
    using that assms(1) close_stream_consistent [OF assms(1)]
    by (auto simp: handle_stop_def map_of_eq_None_iff split: if_splits)
  show ?thesis
    using assms handle_start_consistent [OF assms(1)] stop
    by (auto simp: ea_handle_def split: if_splits sum.splits prod.splits)
qed

lemma consistent_same_ids:
  "map fst (fl_streams fl') = map fst (fl_streams fl) \<Longrightarrow> ea_consistent fl' io = ea_consistent fl io"
  by (simp only: ea_consistent_def)

lemma ea_dispatch_consistent:
  assumes "ea_consistent fl io" "ea_dispatch_link_data payload fl io = (fl', io')"
  shows "ea_consistent fl' io'"
proof (cases "split_stream_frame payload")
  case None
  with assms show ?thesis by (simp add: ea_dispatch_link_data_def)
next
  case (Some sc)
  obtain i chunk where sc: "split_stream_frame payload = Some (i, chunk)" using Some by (cases sc) auto
  show ?thesis
  proof (cases "map_of (fl_streams fl) i")
    case None
    with assms sc show ?thesis by (simp add: ea_dispatch_link_data_def)
  next
    case (Some stream)
    obtain ok stream' where send: "chan_send chunk stream = (ok, stream')" by (meson surj_pair)
    have "i \<in> open_streams fl" using map_of_SomeD [OF Some] by force
    then have "map fst (AList.update i stream' (fl_streams fl)) = map fst (fl_streams fl)"
      by (simp add: update_keys)
    then show ?thesis
      using assms sc Some send close_stream_consistent [OF assms(1) \<open>i \<in> open_streams fl\<close>]
        consistent_same_ids [of "fl\<lparr>fl_streams := AList.update i stream' (fl_streams fl)\<rparr>" fl io]
      by (cases ok) (auto simp: ea_dispatch_link_data_def)
  qed
qed

lemma teardown_streams_consistent:
  "events_open io \<Longrightarrow> distinct ids \<Longrightarrow> stream_history (emitted io) {} = Some (set ids) \<Longrightarrow>
   events_open (teardown_streams w ids io) \<and>
   stream_history (emitted (teardown_streams w ids io)) {} = Some {}"
proof (induction ids arbitrary: io)
  case (Cons i ids)
  define io1 where "io1 = (if w then snd (send_csm (ea_status i EaClose) io) else io)"
  have "io_events io1 = io_events io" "events_open io1"
    using Cons.prems(1) send_csm_keeps [of "ea_status i EaClose" io] by (auto simp: io1_def prod_eq_iff)
  with Cons show ?case
    by (simp add: io1_def [symmetric] emitted_emit stream_history_append)
qed simp

lemma ea_teardown_consistent:
  assumes "\<forall>xs. mset (ord xs) = mset xs" "ea_consistent fl io" "ea_teardown ord w fl io = (fl', io')"
  shows "ea_consistent fl' io'"
proof -
  let ?ids = "ord (map fst (fl_streams fl))"
  have "distinct ?ids" "set ?ids = open_streams fl"
    using assms(1,2) by (metis ea_consistent_def mset_eq_imp_distinct_iff, metis assms(1) mset_eq_setD)
  then show ?thesis
    using assms(2,3) teardown_streams_consistent [of io ?ids w]
    by (auto simp: ea_teardown_def ea_consistent_def)
qed

lemma ea_launches_consistent:
  "ea_consistent fl io \<Longrightarrow> ensure_app_launch_requested b fl io = (Inr u, fl', io') \<Longrightarrow> ea_consistent fl' io'"
  "ea_consistent fl io \<Longrightarrow> request_app_launch b fl io = (Inr u, fl', io') \<Longrightarrow> ea_consistent fl' io'"
  by (auto simp: ensure_app_launch_requested_def request_app_launch_def send_app_launch_def Let_def ea_consistent_def
      split: if_splits sum.splits prod.splits dest!: send_csm_keeps)

lemma ea_input_consistent:
  assumes "\<forall>xs. mset (ord xs) = mset xs" "ea_consistent fl io" "ea_input ord i fl io = (Inr u, fl', io')"
  shows "ea_consistent fl' io'"
  using assms ea_launches_consistent [OF assms(2)]
  by (cases i) (auto split: sum.splits prod.splits
      intro: ea_handle_consistent ea_dispatch_consistent ea_teardown_consistent)

lemma ea_run_consistent:
  "\<forall>xs. mset (ord xs) = mset xs \<Longrightarrow> ea_consistent fl io \<Longrightarrow> ea_run ord is fl io = (Inr u, fl', io') \<Longrightarrow>
   ea_consistent fl' io'"
proof (induction ord "is" fl io rule: ea_run.induct)
  case (2 ord i "is" fl io)
  from "2.prems"(3) obtain v fl1 io1 where s: "ea_input ord i fl io = (Inr v, fl1, io1)"
    "ea_run ord is fl1 io1 = (Inr u, fl', io')"
    by (auto split: sum.splits prod.splits)
  show ?case
    by (rule "2.IH" [OF s(1) [symmetric] refl refl "2.prems"(1) ea_input_consistent [OF "2.prems"(1,2) s(1)] s(2)])
qed simp

text \<open>Whatever the device sends, the companion consumes and the session tears down: the events of the flow
  open every stream before it is closed, never open one twice, and the streams that an observer of the
  events takes to be open are exactly the ones in the flow's table.\<close>

theorem ea_events_match_table:
  assumes "\<forall>xs. mset (ord xs) = mset xs" "events_open io" "emitted io = []"
    and "ea_run ord inputs (EaFlow_new max_len accept) io = (Inr (), fl, io')"
  shows "stream_history (emitted io') {} = Some (open_streams fl) \<and> distinct (map fst (fl_streams fl))"
proof -
  have "ea_consistent (EaFlow_new max_len accept) io"
    using assms(2,3) by (simp add: ea_consistent_def EaFlow_new_def)
  from ea_run_consistent [OF assms(1) this assms(4)] show ?thesis by (simp add: ea_consistent_def)
qed

definition demo_start :: "u16 \<Rightarrow> CsmFrame" where
  "demo_start i = StartExternalAccessoryProtocolSession_to_frame \<lparr>seaps_protocol_id = 1, seaps_session_id = i\<rparr>"

definition demo_inputs :: "EaInput list" where
  "demo_inputs = [InFrame (demo_start 256) (\<lambda>_. Some 1), InData [1, 0, 7], InFrame (demo_start 2) (\<lambda>_. None), InData [1, 0, 8]]"

lemma demo_run: "\<exists>fl io'. ea_run rev demo_inputs (EaFlow_new 512 (Some 1)) idle_io = (Inr (), fl, io') \<and>
    open_streams fl = {2} \<and> emitted io' = [EaStreamOpened 256 1, EaStreamOpened 2 1, EaStreamClosed 256]"
  by (simp add: demo_inputs_def demo_start_def StartExternalAccessoryProtocolSession_msg.frame_has_id ea_handle_def
      decoded_def StartExternalAccessoryProtocolSession_msg.read_own StartExternalAccessoryProtocolSession_ok_def
      handle_start_def EaFlow_new_def idle_io_def link_open_def session_simps session_emit_def chan_send_def
      ea_dispatch_link_data_def split_stream_frame_def close_stream_def without_stream_def get16_def be_nat_def)

theorem ea_events_match_table_witness:
  "\<exists>fl io'. ea_run rev demo_inputs (EaFlow_new 512 (Some 1)) idle_io = (Inr (), fl, io') \<and>
    stream_history (emitted io') {} = Some {2}"
proof -
  obtain fl io' where r: "ea_run rev demo_inputs (EaFlow_new 512 (Some 1)) idle_io = (Inr (), fl, io')"
    "open_streams fl = {2}"
    using demo_run by blast
  have "stream_history (emitted io') {} = Some (open_streams fl)"
    using ea_events_match_table [OF _ _ _ r(1)] by (simp add: idle_io_def events_open_def)
  with r show ?thesis by auto
qed

section \<open>How often the app is launched\<close>

text \<open>What the device reads as a launch request.\<close>

definition is_launch :: "Iap2Command \<Rightarrow> bool" where
  "is_launch cmd = (case cmd of
     Send s payload \<Rightarrow> s = CONTROL_SESSION_ID \<and>
       (case csm_decode payload of (Inr (Some f), _) \<Rightarrow> cf_msg_id f = RequestAppLaunch_MSG_ID | _ \<Rightarrow> False)
   | _ \<Rightarrow> False)"

definition is_opened :: "SessionEvent \<Rightarrow> bool" where
  "is_opened ev = (case ev of EaStreamOpened _ _ \<Rightarrow> True | _ \<Rightarrow> False)"

lemma is_opened_simps [simp]: "is_opened (EaStreamOpened i p)" "\<not> is_opened (EaStreamClosed i)"
  by (simp_all add: is_opened_def)

abbreviation launches :: "SessionIo \<Rightarrow> nat" where
  "launches io \<equiv> length (filter is_launch (sent io))"
abbreviation openings :: "SessionIo \<Rightarrow> nat" where
  "openings io \<equiv> length (filter is_opened (emitted io))"

lemma status_is_no_launch: "\<not> is_launch (Send s (csm_encode (ea_status i st)))"
proof -
  have f: "csm_fits (ea_status i st)"
    by (simp add: csm_fits_def ea_status_def StatusExternalAccessoryProtocolSession_to_frame_def params_len_def
        param_def CSM_OUTER_HEADER_LEN_def CSM_PARAM_HEADER_LEN_def)
  show ?thesis
    using csm_decode_encode [OF f, of "[]"]
    by (simp add: is_launch_def ea_status_def StatusExternalAccessoryProtocolSession_msg.frame_has_id
        StatusExternalAccessoryProtocolSession_MSG_ID_def RequestAppLaunch_MSG_ID_def)
qed

lemma send_status_launches: "send_csm (ea_status i st) io = (r, io') \<Longrightarrow> launches io' = launches io"
  using send_csm_cases [of "ea_status i st" io r io'] by (auto simp: status_is_no_launch)

lemma send_launch_launches:
  "send_app_launch b io = (r, io') \<Longrightarrow> launches io' \<le> launches io + (case r of Inl _ \<Rightarrow> 0 | Inr _ \<Rightarrow> 1)"
  unfolding send_app_launch_def by (drule send_csm_cases) auto

text \<open>The launches since the state \<open>io0\<close>: at most six by the flow itself for every opening of a stream, and
  \<open>d\<close> on demand.\<close>

definition launch_inv :: "SessionIo \<Rightarrow> EaFlow \<Rightarrow> SessionIo \<Rightarrow> bool" where
  "launch_inv io0 fl io \<longleftrightarrow> events_open io \<and> io_now io0 \<le> io_now io \<and> unat (fl_relaunch_attempts fl) \<le> 6 \<and>
     openings io0 \<le> openings io \<and>
     (\<exists>d. launches io \<le> launches io0 + 6 * (openings io - openings io0) + unat (fl_relaunch_attempts fl) + d \<and>
       (case fl_last_on_demand_sent fl of
          None \<Rightarrow> d = 0
        | Some t \<Rightarrow> 1 \<le> d \<and> t \<le> io_now io \<and> io_now io0 + (d - 1) * ON_DEMAND_LAUNCH_COOLDOWN \<le> t))"

lemma launch_inv_same:
  assumes "launch_inv io0 fl io"
    and "launches io' \<le> launches io" "openings io' = openings io" "io_now io \<le> io_now io'" "events_open io'"
    and "fl_relaunch_attempts fl' = fl_relaunch_attempts fl" "fl_last_on_demand_sent fl' = fl_last_on_demand_sent fl"
  shows "launch_inv io0 fl' io'"
proof -
  obtain d where d: "launches io \<le> launches io0 + 6 * (openings io - openings io0) + unat (fl_relaunch_attempts fl) + d"
    "case fl_last_on_demand_sent fl of None \<Rightarrow> d = 0
     | Some t \<Rightarrow> 1 \<le> d \<and> t \<le> io_now io \<and> io_now io0 + (d - 1) * ON_DEMAND_LAUNCH_COOLDOWN \<le> t"
    using assms(1) by (auto simp: launch_inv_def)
  have "\<exists>d. launches io' \<le> launches io0 + 6 * (openings io' - openings io0) + unat (fl_relaunch_attempts fl') + d \<and>
       (case fl_last_on_demand_sent fl' of None \<Rightarrow> d = 0
        | Some t \<Rightarrow> 1 \<le> d \<and> t \<le> io_now io' \<and> io_now io0 + (d - 1) * ON_DEMAND_LAUNCH_COOLDOWN \<le> t)"
    using d assms(2-) by (intro exI [of _ d]) (auto split: option.splits)
  then show ?thesis using assms by (simp add: launch_inv_def)
qed

lemma launch_inv_streams [simp]: "launch_inv io0 (fl\<lparr>fl_streams := ss\<rparr>) io = launch_inv io0 fl io"
  by (simp add: launch_inv_def)

lemma openings_emit:
  "events_open io \<Longrightarrow> openings (session_emit ev io) = openings io + (if is_opened ev then 1 else 0)"
  by (simp add: emitted_emit)

lemma ensure_launch_inv:
  assumes inv: "launch_inv io0 fl io" and step: "ensure_app_launch_requested b fl io = (r, fl', io')"
  shows "launch_inv io0 fl' io'"
proof (cases "fl_app_launch fl = LaunchActive \<or> MAX_APP_LAUNCH_ATTEMPTS \<le> fl_relaunch_attempts fl \<or>
    cooling_down (fl_last_launch_sent fl) (io_now io) APP_LAUNCH_RETRY_COOLDOWN")
  case True
  then show ?thesis using inv step by (auto simp: ensure_app_launch_requested_def Let_def split: if_splits)
next
  case False
  obtain s io1 where s: "send_app_launch b io = (s, io1)" by (meson surj_pair)
  have keep: "io_events io1 = io_events io" "io_now io1 = io_now io" "events_open io1 = events_open io"
    using s send_csm_keeps by (auto simp: send_app_launch_def)
  have "io1 = io'" using step s False by (auto simp: ensure_app_launch_requested_def Let_def split: sum.splits)
  show ?thesis
  proof (cases s)
    case (Inl e)
    with step s False \<open>io1 = io'\<close> keep show ?thesis
      using launch_inv_same [OF inv, of io1 fl] send_launch_launches [OF s] inv
      by (auto simp: ensure_app_launch_requested_def Let_def launch_inv_def)
  next
    case (Inr u)
    have "unat (fl_relaunch_attempts fl) < 6"
      using False by (simp add: MAX_APP_LAUNCH_ATTEMPTS_def word_le_nat_alt)
    then have inc: "unat (fl_relaunch_attempts fl + 1) = Suc (unat (fl_relaunch_attempts fl))"
      by (simp add: unat_word_ariths)
    obtain d where "launches io \<le> launches io0 + 6 * (openings io - openings io0) + unat (fl_relaunch_attempts fl) + d"
      "case fl_last_on_demand_sent fl of None \<Rightarrow> d = 0
       | Some t \<Rightarrow> 1 \<le> d \<and> t \<le> io_now io \<and> io_now io0 + (d - 1) * ON_DEMAND_LAUNCH_COOLDOWN \<le> t"
      using inv unfolding launch_inv_def by blast
    then show ?thesis
      using inv step s False Inr inc keep send_launch_launches [OF s] \<open>unat (fl_relaunch_attempts fl) < 6\<close>
      by (auto simp: ensure_app_launch_requested_def Let_def launch_inv_def intro!: exI [of _ d] split: option.splits)
  qed
qed

lemma request_launch_inv:
  assumes inv: "launch_inv io0 fl io" and step: "request_app_launch b fl io = (r, fl', io')"
  shows "launch_inv io0 fl' io'"
proof (cases "cooling_down (fl_last_on_demand_sent fl) (io_now io) ON_DEMAND_LAUNCH_COOLDOWN")
  case True
  then show ?thesis using inv step by (auto simp: request_app_launch_def Let_def)
next
  case False
  obtain s io1 where s: "send_app_launch b io = (s, io1)" by (meson surj_pair)
  have keep: "io_events io1 = io_events io" "io_now io1 = io_now io" "events_open io1 = events_open io"
    using s send_csm_keeps by (auto simp: send_app_launch_def)
  have "io1 = io'" using step s False by (auto simp: request_app_launch_def Let_def split: sum.splits)
  show ?thesis
  proof (cases s)
    case (Inl e)
    with step s False \<open>io1 = io'\<close> keep show ?thesis
      using launch_inv_same [OF inv, of io1 fl] send_launch_launches [OF s] inv
      by (auto simp: request_app_launch_def Let_def launch_inv_def)
  next
    case (Inr u)
    obtain d where d: "launches io \<le> launches io0 + 6 * (openings io - openings io0) + unat (fl_relaunch_attempts fl) + d"
      "case fl_last_on_demand_sent fl of None \<Rightarrow> d = 0
       | Some t \<Rightarrow> 1 \<le> d \<and> t \<le> io_now io \<and> io_now io0 + (d - 1) * ON_DEMAND_LAUNCH_COOLDOWN \<le> t"
      using inv by (auto simp: launch_inv_def)
    have "io_now io0 + d * ON_DEMAND_LAUNCH_COOLDOWN \<le> io_now io"
      using d(2) False inv by (cases d) (auto simp: cooling_down_def launch_inv_def split: option.splits)
    then show ?thesis
      using inv step s False Inr keep send_launch_launches [OF s] d(1) \<open>io1 = io'\<close>
      by (auto simp: request_app_launch_def Let_def launch_inv_def intro!: exI [of _ "Suc d"])
  qed
qed

lemma handle_start_launch_inv:
  assumes inv: "launch_inv io0 fl io" and step: "handle_start start life fl io = (r, fl', io')"
  shows "launch_inv io0 fl' io'"
proof -
  let ?i = "seaps_session_id start"
  have base: "launch_inv io0 fl io1" if "send_csm (ea_status ?i st) io = (s, io1)" for st s io1
    using launch_inv_same [OF inv, of io1 fl] send_status_launches [OF that] send_csm_keeps [OF that] inv
    by (simp add: launch_inv_def)
  have opened: "launch_inv io0 (fl1\<lparr>fl_app_launch := LaunchActive, fl_relaunch_attempts := 0\<rparr>)
      (session_emit (EaStreamOpened ?i p) io1)" if inv1: "launch_inv io0 fl1 io1" for fl1 io1 p
  proof -
    have "openings (session_emit (EaStreamOpened ?i p) io1) = Suc (openings io1)"
      using inv1 by (simp add: emitted_emit launch_inv_def)
    moreover obtain d where
      "launches io1 \<le> launches io0 + 6 * (openings io1 - openings io0) + unat (fl_relaunch_attempts fl1) + d"
      "case fl_last_on_demand_sent fl1 of None \<Rightarrow> d = 0
       | Some t \<Rightarrow> 1 \<le> d \<and> t \<le> io_now io1 \<and> io_now io0 + (d - 1) * ON_DEMAND_LAUNCH_COOLDOWN \<le> t"
      using inv1 unfolding launch_inv_def by blast
    ultimately show ?thesis
      using inv1 by (auto simp: launch_inv_def Suc_diff_le intro!: exI [of _ d] split: option.splits)
  qed
  show ?thesis
    using step by (auto simp: handle_start_def Let_def split: if_splits sum.splits prod.splits
        dest!: base intro: opened)
qed

lemma close_stream_launch_inv:
  "launch_inv io0 fl io \<Longrightarrow> close_stream i fl io = (fl', io') \<Longrightarrow> launch_inv io0 fl' io'"
  by (rule launch_inv_same [of io0 fl io io' fl'])
    (auto simp: close_stream_def Let_def openings_emit launch_inv_def)

lemma handle_stop_launch_inv:
  "launch_inv io0 fl io \<Longrightarrow> handle_stop m fl io = (fl', io') \<Longrightarrow> launch_inv io0 fl' io'"
  by (auto simp: handle_stop_def intro: close_stream_launch_inv split: if_splits)

lemma dispatch_launch_inv:
  assumes "launch_inv io0 fl io" "ea_dispatch_link_data p fl io = (fl', io')"
  shows "launch_inv io0 fl' io'"
proof -
  have "launch_inv io0 (fl\<lparr>fl_streams := ss\<rparr>) io" for ss
    using assms(1) by (simp add: launch_inv_def)
  with assms show ?thesis
    by (auto simp: ea_dispatch_link_data_def intro: close_stream_launch_inv
        split: option.splits prod.splits bool.splits)
qed

lemma teardown_launches:
  "events_open io \<Longrightarrow> events_open (teardown_streams w ids io) \<and> openings (teardown_streams w ids io) = openings io \<and>
     launches (teardown_streams w ids io) = launches io \<and> io_now (teardown_streams w ids io) = io_now io"
proof (induction ids arbitrary: io)
  case (Cons i ids)
  define io1 where "io1 = (if w then snd (send_csm (ea_status i EaClose) io) else io)"
  have "io_events io1 = io_events io" "events_open io1" "io_now io1 = io_now io" "launches io1 = launches io"
    using Cons.prems(1) send_csm_keeps [of "ea_status i EaClose" io] send_status_launches [of i EaClose io]
    by (auto simp: io1_def prod_eq_iff)
  with Cons show ?case
    by (simp add: io1_def [symmetric] openings_emit)
qed simp

lemma ea_input_launch_inv:
  assumes inv: "launch_inv io0 fl io" and step: "ea_input ord i fl io = (r, fl', io')"
  shows "launch_inv io0 fl' io'"
proof (cases i)
  case (InFrame f life)
  with step show ?thesis
    using inv handle_start_launch_inv [OF inv] handle_stop_launch_inv [OF inv]
    by (auto simp: ea_handle_def split: if_splits sum.splits prod.splits)
next
  case (InData p)
  with step show ?thesis using dispatch_launch_inv [OF inv] by auto
next
  case (InEnsure b)
  with step show ?thesis using ensure_launch_inv [OF inv] by auto
next
  case (InRequest b)
  with step show ?thesis using request_launch_inv [OF inv] by auto
next
  case (InTeardown w)
  have "events_open io" using inv by (simp add: launch_inv_def)
  with InTeardown step inv show ?thesis
    using teardown_launches [of io w "ord (map fst (fl_streams fl))"]
    by (auto simp: ea_teardown_def intro!: launch_inv_same [OF inv])
next
  case (InWait d)
  have "events_open io" using inv by (simp add: launch_inv_def)
  then have "launch_inv io0 fl (sleep d io)" by (intro launch_inv_same [OF inv]) simp_all
  with step InWait show ?thesis by simp
qed

lemma ea_run_launch_inv:
  "launch_inv io0 fl io \<Longrightarrow> ea_run ord is fl io = (r, fl', io') \<Longrightarrow> launch_inv io0 fl' io'"
proof (induction ord "is" fl io rule: ea_run.induct)
  case (2 ord i "is" fl io)
  obtain s fl1 io1 where s: "ea_input ord i fl io = (s, fl1, io1)"
    by (cases "ea_input ord i fl io") auto
  note inv = ea_input_launch_inv [OF "2.prems"(1) s]
  show ?case
  proof (cases s)
    case (Inl e)
    with "2.prems"(2) s inv show ?thesis by simp
  next
    case (Inr u)
    with "2.prems"(2) s have "ea_run ord is fl1 io1 = (r, fl', io')" by simp
    then show ?thesis using "2.IH" [OF s [symmetric] Inr refl inv] by simp
  qed
qed simp

text \<open>The companion app is not launched in a loop: however often launches are asked for, on a flow that has
  opened \<open>n\<close> streams the device sees at most six automatic launch requests for each of them and six before
  the first, and one on demand per five seconds. This holds also for a run that ends in an error.\<close>

theorem app_launches_bounded:
  assumes "events_open io" "ea_run ord inputs (EaFlow_new max_len accept) io = (r, fl, io')"
  shows "launches io' \<le> launches io + 6 * (openings io' - openings io + 1) +
    (1 + (io_now io' - io_now io) div ON_DEMAND_LAUNCH_COOLDOWN)"
proof -
  have "launch_inv io (EaFlow_new max_len accept) io"
    using assms(1) by (simp add: launch_inv_def EaFlow_new_def)
  from ea_run_launch_inv [OF this assms(2)] have inv: "launch_inv io fl io'" .
  then obtain d where d: "launches io' \<le> launches io + 6 * (openings io' - openings io) + unat (fl_relaunch_attempts fl) + d"
    "case fl_last_on_demand_sent fl of None \<Rightarrow> d = 0
     | Some t \<Rightarrow> 1 \<le> d \<and> t \<le> io_now io' \<and> io_now io + (d - 1) * ON_DEMAND_LAUNCH_COOLDOWN \<le> t"
    by (auto simp: launch_inv_def)
  have "d \<le> 1 + (io_now io' - io_now io) div ON_DEMAND_LAUNCH_COOLDOWN"
  proof (cases "fl_last_on_demand_sent fl")
    case (Some t)
    have "io_now io + (d - 1) * ON_DEMAND_LAUNCH_COOLDOWN \<le> io_now io'"
      using d(2) Some by (auto intro: le_trans)
    then have "(d - 1) * ON_DEMAND_LAUNCH_COOLDOWN \<le> io_now io' - io_now io" by linarith
    then have "d - 1 \<le> (io_now io' - io_now io) div ON_DEMAND_LAUNCH_COOLDOWN"
      by (metis div_le_mono nonzero_mult_div_cancel_right ON_DEMAND_LAUNCH_COOLDOWN_def secs_def
          mult_eq_0_iff zero_neq_numeral)
    then show ?thesis by linarith
  qed (use d(2) in simp)
  moreover have "unat (fl_relaunch_attempts fl) \<le> 6" using inv by (simp add: launch_inv_def)
  ultimately show ?thesis using d(1) by simp
qed

theorem app_launches_bounded_witness:
  "\<exists>r fl io'. ea_run rev (concat (replicate 9 [InEnsure [65], InRequest [65], InWait (secs 1)]))
      (EaFlow_new 512 None) idle_io = (r, fl, io') \<and> launches io' \<le> 6 * (openings io' + 1) + (1 + io_now io' div secs 5)"
  using app_launches_bounded [of idle_io]
  by (simp add: idle_io_def events_open_def ON_DEMAND_LAUNCH_COOLDOWN_def)
    (metis (no_types, lifting) app_launches_bounded surj_pair)

end
