(* ===== verification/Session_File_Transfer.thy ===== *)
theory Session_File_Transfer
  imports Session_Base
begin

text \<open>The file transfer session (\<open>crates/iap2/src/session/file_transfer.rs\<close>), which carries artwork and
  queue snapshots: the accessory's flow and the emulated device's sender.\<close>

definition FILE_TRANSFER_LINK_SESSION_ID :: u8 where "FILE_TRANSFER_LINK_SESSION_ID = 2"

definition OP_DATA :: u8 where "OP_DATA = 0x00"
definition OP_SETUP_ACK :: u8 where "OP_SETUP_ACK = 0x01"
definition OP_CANCEL :: u8 where "OP_CANCEL = 0x02"
definition OP_PAUSE :: u8 where "OP_PAUSE = 0x03"
definition OP_SETUP :: u8 where "OP_SETUP = 0x04"
definition OP_COMPLETE_ACK :: u8 where "OP_COMPLETE_ACK = 0x05"
definition OP_LAST_DATA :: u8 where "OP_LAST_DATA = 0x40"
definition OP_FIRST_DATA :: u8 where "OP_FIRST_DATA = 0x80"
definition OP_FIRST_AND_ONLY :: u8 where "OP_FIRST_AND_ONLY = 0xC0"

definition FILE_TYPE_ARTWORK :: u16 where "FILE_TYPE_ARTWORK = 2"

lemmas ft_ops = OP_DATA_def OP_SETUP_ACK_def OP_CANCEL_def OP_PAUSE_def OP_SETUP_def OP_COMPLETE_ACK_def
  OP_LAST_DATA_def OP_FIRST_DATA_def OP_FIRST_AND_ONLY_def

section \<open>The accessory\<close>

record InFlight =
  if_buffer :: bytes
  if_declared_size :: nat
  if_file_type :: u16

type_synonym FileTransferFlow = "u8 \<rightharpoonup> InFlight"

definition FileTransferFlow_new :: FileTransferFlow where
  "FileTransferFlow_new = Map.empty"

definition ft_reset :: "FileTransferFlow \<Rightarrow> FileTransferFlow" where
  "ft_reset ft = Map.empty"

text \<open>The outer \<open>option\<close> of a result is a panic: \<open>BytesMut::with_capacity\<close> does not allocate more than
  \<open>isize::MAX\<close> bytes.\<close>

type_synonym ft_result = "(Iap2Error + unit) option \<times> FileTransferFlow \<times> SessionIo"

definition ISIZE_MAX :: nat where "ISIZE_MAX = 2 ^ 63 - 1"

definition send_op :: "u8 \<Rightarrow> u8 \<Rightarrow> SessionIo \<Rightarrow> (Iap2Error + unit) \<times> SessionIo" where
  "send_op i op io = link_send (Send FILE_TRANSFER_LINK_SESSION_ID [i, op]) io"

definition ft_complete :: "u8 \<Rightarrow> FileTransferFlow \<Rightarrow> SessionIo \<Rightarrow> ft_result" where
  "ft_complete i ft io =
    (case ft i of
       None \<Rightarrow> (Some (Inr ()), ft, io)
     | Some st \<Rightarrow>
         let ft' = ft(i := None) in
         case send_op i OP_COMPLETE_ACK io of
           (Inl e, io') \<Rightarrow> (Some (Inl e), ft', io')
         | (Inr _, io') \<Rightarrow>
             let event = (if if_file_type st = FILE_TYPE_ARTWORK then ArtworkBytes i (if_buffer st)
                          else QueueSnapshotBytes i (if_buffer st))
             in (Some (Inr ()), ft', session_emit event io'))"

definition handle_setup :: "u8 \<Rightarrow> bytes \<Rightarrow> FileTransferFlow \<Rightarrow> SessionIo \<Rightarrow> ft_result" where
  "handle_setup i rest ft io =
    (if length rest \<noteq> 11 \<and> length rest \<noteq> 10 then (Some (Inr ()), ft, io)
     else
       let declared_size = unat (get64 (take 8 rest));
           file_type = get16 (take 2 (drop (if length rest = 11 then 9 else 8) rest))
       in if ISIZE_MAX < declared_size then (None, ft, io)
          else
            let ft' = ft(i \<mapsto> \<lparr>if_buffer = [], if_declared_size = declared_size, if_file_type = file_type\<rparr>)
            in case send_op i OP_SETUP_ACK io of (r, io') \<Rightarrow> (Some r, ft', io'))"

definition handle_first_and_only :: "u8 \<Rightarrow> bytes \<Rightarrow> FileTransferFlow \<Rightarrow> SessionIo \<Rightarrow> ft_result" where
  "handle_first_and_only i body ft io =
    (case ft i of
       None \<Rightarrow> (Some (Inr ()), ft, io)
     | Some st \<Rightarrow> ft_complete i (ft(i \<mapsto> st\<lparr>if_buffer := body\<rparr>)) io)"

definition handle_chunk :: "u8 \<Rightarrow> bytes \<Rightarrow> bool \<Rightarrow> bool \<Rightarrow> FileTransferFlow \<Rightarrow> SessionIo \<Rightarrow> ft_result" where
  "handle_chunk i body is_first is_last ft io =
    (case ft i of
       None \<Rightarrow> (Some (Inr ()), ft, io)
     | Some st \<Rightarrow>
         let buffer = (if is_first then [] else if_buffer st) in
         if length buffer + length body > if_declared_size st then (Some (Inr ()), ft(i := None), io)
         else
           let ft' = ft(i \<mapsto> st\<lparr>if_buffer := buffer @ body\<rparr>)
           in if is_last then ft_complete i ft' io else (Some (Inr ()), ft', io))"

definition ft_dispatch :: "bytes \<Rightarrow> FileTransferFlow \<Rightarrow> SessionIo \<Rightarrow> ft_result" where
  "ft_dispatch payload ft io =
    (if length payload < 2 then (Some (Inr ()), ft, io)
     else
       let i = payload ! 0; op = payload ! 1; rest = drop 2 payload in
       if op = OP_SETUP then handle_setup i rest ft io
       else if op = OP_FIRST_AND_ONLY then handle_first_and_only i rest ft io
       else if op = OP_FIRST_DATA then handle_chunk i rest True False ft io
       else if op = OP_DATA then handle_chunk i rest False False ft io
       else if op = OP_LAST_DATA then handle_chunk i rest False True ft io
       else if op = OP_CANCEL then (Some (Inr ()), ft(i := None), io)
       else if op = OP_PAUSE then (Some (Inr ()), ft, io)
       else if op = OP_SETUP_ACK \<or> op = OP_COMPLETE_ACK then (Some (Inr ()), ft, io)
       else (Some (Inr ()), ft, io))"

section \<open>The device\<close>

definition PER_PACKET_OVERHEAD :: nat where "PER_PACKET_OVERHEAD = LINK_HEADER_LEN + 1 + 2"

record DeviceFileTransfer =
  dft_chunk_budget :: nat
  dft_pending :: "u8 \<rightharpoonup> bytes"

definition DeviceFileTransfer_new :: "u16 \<Rightarrow> DeviceFileTransfer" where
  "DeviceFileTransfer_new peer_max_len =
    \<lparr>dft_chunk_budget = max (unat peer_max_len - PER_PACKET_OVERHEAD) 1, dft_pending = Map.empty\<rparr>"

definition dft_send :: "bytes \<Rightarrow> SessionIo \<Rightarrow> (Iap2Error + unit) \<times> SessionIo" where
  "dft_send payload io = link_send (Send FILE_TRANSFER_LINK_SESSION_ID payload) io"

definition ft_frame :: "u8 \<Rightarrow> u8 \<Rightarrow> bytes \<Rightarrow> bytes" where
  "ft_frame i op body = [i, op] @ body"

definition begin_artwork ::
  "u8 \<Rightarrow> bytes \<Rightarrow> DeviceFileTransfer \<Rightarrow> SessionIo \<Rightarrow> (Iap2Error + unit) \<times> DeviceFileTransfer \<times> SessionIo" where
  "begin_artwork i body d io =
    (case dft_send ([i, OP_SETUP] @ be64 (of_nat (length body)) @ be16 FILE_TYPE_ARTWORK) io of
       (Inl e, io') \<Rightarrow> (Inl e, d, io')
     | (Inr _, io') \<Rightarrow> (Inr (), d\<lparr>dft_pending := (dft_pending d)(i \<mapsto> body)\<rparr>, io'))"

text \<open>The chunks after the first one; without a budget the loop of \<open>send_body\<close> would not end, but the
  budget is at least one byte.\<close>

function send_chunks :: "nat \<Rightarrow> u8 \<Rightarrow> bytes \<Rightarrow> SessionIo \<Rightarrow> (Iap2Error + unit) \<times> SessionIo" where
  "send_chunks budget i remaining io =
    (if length remaining > budget \<and> 0 < budget then
       (case dft_send (ft_frame i OP_DATA (take budget remaining)) io of
          (Inl e, io') \<Rightarrow> (Inl e, io')
        | (Inr _, io') \<Rightarrow> send_chunks budget i (drop budget remaining) io')
     else dft_send (ft_frame i OP_LAST_DATA remaining) io)"
  by pat_completeness auto
termination by (relation "measure (\<lambda>(budget, i, remaining, io). length remaining)") auto

declare send_chunks.simps [simp del]

definition send_body ::
  "u8 \<Rightarrow> DeviceFileTransfer \<Rightarrow> SessionIo \<Rightarrow> (Iap2Error + unit) \<times> DeviceFileTransfer \<times> SessionIo" where
  "send_body i d io =
    (case dft_pending d i of
       None \<Rightarrow> (Inr (), d, io)
     | Some body \<Rightarrow>
         let d' = d\<lparr>dft_pending := (dft_pending d)(i := None)\<rparr>; budget = dft_chunk_budget d in
         if length body \<le> budget
         then (case dft_send (ft_frame i OP_FIRST_AND_ONLY body) io of (r, io') \<Rightarrow> (r, d', io'))
         else (case dft_send (ft_frame i OP_FIRST_DATA (take budget body)) io of
             (Inl e, io') \<Rightarrow> (Inl e, d', io')
           | (Inr _, io') \<Rightarrow> (case send_chunks budget i (drop budget body) io' of (r, io'') \<Rightarrow> (r, d', io''))))"

definition dft_on_link_data ::
  "bytes \<Rightarrow> DeviceFileTransfer \<Rightarrow> SessionIo \<Rightarrow> (Iap2Error + u8 option) \<times> DeviceFileTransfer \<times> SessionIo" where
  "dft_on_link_data payload d io =
    (if length payload < 2 then (Inr None, d, io)
     else
       let i = payload ! 0 in
       if payload ! 1 = OP_SETUP_ACK then
         (case send_body i d io of
            (Inl e, d', io') \<Rightarrow> (Inl e, d', io')
          | (Inr _, d', io') \<Rightarrow> (Inr None, d', io'))
       else if payload ! 1 = OP_COMPLETE_ACK then (Inr (Some i), d, io)
       else (Inr None, d, io))"

section \<open>Reassembly\<close>

text \<open>Dispatching a list of link payloads; the run stops at a panic.\<close>

fun ft_feed :: "bytes list \<Rightarrow> FileTransferFlow \<Rightarrow> SessionIo \<Rightarrow> bool \<times> FileTransferFlow \<times> SessionIo" where
  "ft_feed [] ft io = (True, ft, io)"
| "ft_feed (p # ps) ft io =
    (case ft_dispatch p ft io of
       (None, ft', io') \<Rightarrow> (False, ft', io')
     | (Some _, ft', io') \<Rightarrow> ft_feed ps ft' io')"

text \<open>The buffer of a transfer never outgrows the size that was declared for it.\<close>

definition ft_ok :: "FileTransferFlow \<Rightarrow> bool" where
  "ft_ok ft \<longleftrightarrow> (\<forall>i st. ft i = Some st \<longrightarrow> length (if_buffer st) \<le> if_declared_size st \<and> if_declared_size st \<le> ISIZE_MAX)"

lemma ft_complete_flow: "ft_complete i ft io = (r, ft', io') \<Longrightarrow> ft' = ft(i := None)"
  by (auto simp: ft_complete_def Let_def split: option.splits sum.splits prod.splits)

lemma ft_ok_upd:
  "ft_ok ft \<Longrightarrow> ft_ok (ft(i := None))"
  "ft_ok ft \<Longrightarrow> length (if_buffer st) \<le> if_declared_size st \<Longrightarrow> if_declared_size st \<le> ISIZE_MAX \<Longrightarrow> ft_ok (ft(i \<mapsto> st))"
  by (auto simp: ft_ok_def)

lemma ft_dispatch_ok:
  assumes "ft_ok ft" "ft_dispatch p ft io = (r, ft', io')"
  shows "ft_ok ft'"
proof -
  have by_setup: "ft_ok ft'" if "handle_setup i rest ft io = (r, ft', io')" for i rest
    using that assms(1) by (auto simp: handle_setup_def Let_def intro!: ft_ok_upd split: if_splits prod.splits)
  have by_only: "ft_ok ft'" if "handle_first_and_only i body ft io = (r, ft', io')" for i body
    using that assms(1) by (auto simp: handle_first_and_only_def dest!: ft_complete_flow intro: ft_ok_upd split: option.splits)
  have by_chunk: "ft_ok ft'" if "handle_chunk i body is_first is_last ft io = (r, ft', io')" for i body is_first is_last
    using that assms(1)
    by (auto simp: handle_chunk_def Let_def dest!: ft_complete_flow intro!: ft_ok_upd split: option.splits if_splits)
      (auto simp: ft_ok_def)
  show ?thesis
    using assms by_setup by_only by_chunk
    by (auto simp: ft_dispatch_def Let_def intro: ft_ok_upd split: if_splits)
qed

lemma ft_feed_ok: "ft_ok ft \<Longrightarrow> ft_feed ps ft io = (r, ft', io') \<Longrightarrow> ft_ok ft'"
  by (induction ps arbitrary: ft io) (auto split: prod.splits option.splits dest: ft_dispatch_ok)

text \<open>The payloads that a step put on the link.\<close>

definition new_payloads :: "SessionIo \<Rightarrow> SessionIo \<Rightarrow> bytes list" where
  "new_payloads io io' = map (\<lambda>c. case c of Send i p \<Rightarrow> p | Disconnect \<Rightarrow> []) (drop (length (sent io)) (sent io'))"

definition with_sent :: "SessionIo \<Rightarrow> bytes list \<Rightarrow> SessionIo" where
  "with_sent io ps = io\<lparr>io_link := (io_link io)\<lparr>ch_sent := sent io @ map (Send FILE_TRANSFER_LINK_SESSION_ID) ps\<rparr>\<rparr>"

lemma dft_send_open: "link_open io \<Longrightarrow> dft_send p io = (Inr (), with_sent io [p])"
  by (simp add: dft_send_def session_simps with_sent_def)

lemma with_sent_simps [simp]:
  "link_open (with_sent io ps) = link_open io" "with_sent (with_sent io ps) qs = with_sent io (ps @ qs)"
  "sent (with_sent io ps) = sent io @ map (Send FILE_TRANSFER_LINK_SESSION_ID) ps"
  by (simp_all add: link_open_def with_sent_def)

lemma ft_dispatch_frame:
  "ft_dispatch (ft_frame i OP_DATA body) ft io = handle_chunk i body False False ft io"
  "ft_dispatch (ft_frame i OP_FIRST_DATA body) ft io = handle_chunk i body True False ft io"
  "ft_dispatch (ft_frame i OP_LAST_DATA body) ft io = handle_chunk i body False True ft io"
  "ft_dispatch (ft_frame i OP_FIRST_AND_ONLY body) ft io = handle_first_and_only i body ft io"
  by (auto simp: ft_dispatch_def ft_frame_def ft_ops Let_def)

text \<open>The frames of the rest of a body complete the transfer with that rest appended.\<close>

definition completes :: "bytes list \<Rightarrow> u8 \<Rightarrow> bytes \<Rightarrow> bool" where
  "completes ps i rest \<longleftrightarrow>
    (\<forall>ft io st. ft i = Some st \<longrightarrow> length (if_buffer st) + length rest \<le> if_declared_size st \<longrightarrow>
      ft_feed ps ft io = (True, snd (ft_complete i (ft(i \<mapsto> st\<lparr>if_buffer := if_buffer st @ rest\<rparr>)) io)))"

lemma ft_complete_returns: "ft_complete i ft io = (r, ft', io') \<Longrightarrow> r \<noteq> None"
  by (auto simp: ft_complete_def Let_def split: option.splits sum.splits prod.splits)

lemma completes_last: "completes [ft_frame i OP_LAST_DATA rest] i rest"
  by (auto simp: completes_def ft_dispatch_frame handle_chunk_def Let_def split: prod.splits option.splits
    dest: ft_complete_returns)

lemma completes_data:
  assumes "completes ps i (drop n rest)"
  shows "completes (ft_frame i OP_DATA (take n rest) # ps) i rest"
  unfolding completes_def
proof (intro allI impI)
  fix ft :: FileTransferFlow and io and st :: InFlight
  assume st: "ft i = Some st" "length (if_buffer st) + length rest \<le> if_declared_size st"
  let ?st = "st\<lparr>if_buffer := if_buffer st @ take n rest\<rparr>"
  have "length (if_buffer st) + length (take n rest) \<le> if_declared_size st" using st(2) by simp
  then have "ft_feed (ft_frame i OP_DATA (take n rest) # ps) ft io = ft_feed ps (ft(i \<mapsto> ?st)) io"
    using st(1) by (simp add: ft_dispatch_frame handle_chunk_def Let_def)
  moreover have "length (if_buffer ?st) + length (drop n rest) \<le> if_declared_size ?st" using st(2) by simp
  ultimately show "ft_feed (ft_frame i OP_DATA (take n rest) # ps) ft io =
      (True, snd (ft_complete i (ft(i \<mapsto> st\<lparr>if_buffer := if_buffer st @ rest\<rparr>)) io))"
    using assms unfolding completes_def by simp
qed

lemma send_chunks_completes:
  assumes "0 < budget"
  shows "link_open io \<Longrightarrow> \<exists>ps. send_chunks budget i rest io = (Inr (), with_sent io ps) \<and> completes ps i rest"
proof (induction "length rest" arbitrary: rest io rule: less_induct)
  case less
  show ?case
  proof (cases "length rest > budget")
    case True
    let ?p = "ft_frame i OP_DATA (take budget rest)"
    have "length (drop budget rest) < length rest" using True assms by simp
    from less.hyps [OF this, of "with_sent io [?p]"] less.prems
    obtain ps where ps: "send_chunks budget i (drop budget rest) (with_sent io [?p]) = (Inr (), with_sent io (?p # ps))"
      "completes ps i (drop budget rest)" by auto
    then have "send_chunks budget i rest io = (Inr (), with_sent io (?p # ps))"
      using True assms less.prems by (subst send_chunks.simps) (simp add: dft_send_open)
    then show ?thesis using completes_data [OF ps(2)] by blast
  next
    case False
    then have "send_chunks budget i rest io = (Inr (), with_sent io [ft_frame i OP_LAST_DATA rest])"
      using less.prems by (subst send_chunks.simps) (simp add: dft_send_open)
    then show ?thesis using completes_last by blast
  qed
qed

lemma completes_first:
  assumes "completes ps i (drop n body)" "ft i = Some st" "length body \<le> if_declared_size st"
  shows "ft_feed (ft_frame i OP_FIRST_DATA (take n body) # ps) ft io =
    (True, snd (ft_complete i (ft(i \<mapsto> st\<lparr>if_buffer := body\<rparr>)) io))"
proof -
  let ?st = "st\<lparr>if_buffer := take n body\<rparr>"
  have "ft_feed (ft_frame i OP_FIRST_DATA (take n body) # ps) ft io = ft_feed ps (ft(i \<mapsto> ?st)) io"
    using assms(2,3) by (simp add: ft_dispatch_frame handle_chunk_def Let_def)
  moreover have "length (if_buffer ?st) + length (drop n body) \<le> if_declared_size ?st" using assms(3) by simp
  ultimately show ?thesis using assms(1) unfolding completes_def by simp
qed

lemma send_body_completes:
  assumes "link_open io" "dft_pending d i = Some body" "0 < dft_chunk_budget d"
  shows "\<exists>ps. send_body i d io = (Inr (), d\<lparr>dft_pending := (dft_pending d)(i := None)\<rparr>, with_sent io ps) \<and>
    (\<forall>ft st jo. ft i = Some st \<longrightarrow> length body \<le> if_declared_size st \<longrightarrow>
      ft_feed ps ft jo = (True, snd (ft_complete i (ft(i \<mapsto> st\<lparr>if_buffer := body\<rparr>)) jo)))"
proof (cases "length body \<le> dft_chunk_budget d")
  case True
  then show ?thesis
    using assms by (intro exI [of _ "[ft_frame i OP_FIRST_AND_ONLY body]"])
      (auto simp: send_body_def Let_def dft_send_open ft_dispatch_frame handle_first_and_only_def
        split: prod.splits option.splits dest: ft_complete_returns)
next
  case False
  let ?p = "ft_frame i OP_FIRST_DATA (take (dft_chunk_budget d) body)"
  obtain ps where ps: "send_chunks (dft_chunk_budget d) i (drop (dft_chunk_budget d) body) (with_sent io [?p]) =
      (Inr (), with_sent (with_sent io [?p]) ps)" "completes ps i (drop (dft_chunk_budget d) body)"
    using send_chunks_completes [OF assms(3), of "with_sent io [?p]" i "drop (dft_chunk_budget d) body"] assms(1) by auto
  then have "send_body i d io = (Inr (), d\<lparr>dft_pending := (dft_pending d)(i := None)\<rparr>, with_sent io (?p # ps))"
    using False assms by (simp add: send_body_def Let_def dft_send_open)
  then show ?thesis using completes_first [OF ps(2)] by blast
qed

lemma ft_complete_open:
  "link_open io \<Longrightarrow> ft i = Some st \<Longrightarrow> if_file_type st = FILE_TYPE_ARTWORK \<Longrightarrow>
   ft_complete i ft io = (Some (Inr ()), ft(i := None), session_emit (ArtworkBytes i (if_buffer st)) (with_sent io [[i, OP_COMPLETE_ACK]]))"
  by (simp add: ft_complete_def send_op_def session_simps with_sent_def)

text \<open>An artwork transfer: the device announces it, sends the body on the acknowledgement, and learns that
  it is complete; each side's payloads are fed to the other.\<close>

definition artwork_exchange ::
  "u8 \<Rightarrow> bytes \<Rightarrow> DeviceFileTransfer \<Rightarrow> SessionIo \<Rightarrow> FileTransferFlow \<Rightarrow> SessionIo \<Rightarrow>
    (Iap2Error + u8 option) list \<times> FileTransferFlow \<times> SessionIo" where
  "artwork_exchange i body d io ft jo =
    (let (_, d1, io1) = begin_artwork i body d io;
         (_, ft1, jo1) = ft_feed (new_payloads io io1) ft jo;
         (r1, d2, io2) = dft_on_link_data (concat (new_payloads jo jo1)) d1 io1;
         (_, ft2, jo2) = ft_feed (new_payloads io1 io2) ft1 jo1;
         (r2, d3, io3) = dft_on_link_data (concat (new_payloads jo1 jo2)) d2 io2
     in ([r1, r2], ft2, jo2))"

lemma new_payloads_with_sent [simp]: "new_payloads io (with_sent io ps) = ps"
  by (simp add: new_payloads_def comp_def)

lemma new_payloads_emit [simp]: "new_payloads io (session_emit ev io') = new_payloads io io'"
  by (simp add: new_payloads_def)

lemma setup_fed:
  assumes "length body \<le> ISIZE_MAX" "link_open jo"
  shows "ft_feed [[i, OP_SETUP] @ be64 (of_nat (length body)) @ be16 FILE_TYPE_ARTWORK] ft jo =
    (True, ft(i \<mapsto> \<lparr>if_buffer = [], if_declared_size = length body, if_file_type = FILE_TYPE_ARTWORK\<rparr>),
     with_sent jo [[i, OP_SETUP_ACK]])"
proof -
  have "unat (of_nat (length body) :: u64) = length body"
    using assms(1) by (simp add: ISIZE_MAX_def unat_of_nat)
  then show ?thesis
    using assms by (simp add: ft_dispatch_def ft_ops Let_def handle_setup_def send_op_def session_simps with_sent_def)
qed

text \<open>C21. An artwork of any size arrives whole: cut into chunks of any budget and put together again, it is
  reported once with exactly its bytes, both acknowledgements are sent, nothing of it stays behind, and what
  was left of an earlier transfer of that number does not matter.\<close>

theorem artwork_arrives:
  assumes "length body \<le> ISIZE_MAX" "0 < dft_chunk_budget d" "link_open io" "link_open jo" "events_open jo"
  shows "case artwork_exchange i body d io ft jo of (rs, ft', jo') \<Rightarrow>
    rs = [Inr None, Inr (Some i)] \<and> ft' = ft(i := None) \<and>
    emitted jo' = emitted jo @ [ArtworkBytes i body] \<and>
    sent jo' = sent jo @ [Send FILE_TRANSFER_LINK_SESSION_ID [i, OP_SETUP_ACK], Send FILE_TRANSFER_LINK_SESSION_ID [i, OP_COMPLETE_ACK]]"
proof -
  let ?set_up = "[i, OP_SETUP] @ be64 (of_nat (length body)) @ be16 FILE_TYPE_ARTWORK"
  let ?st = "\<lparr>if_buffer = [], if_declared_size = length body, if_file_type = FILE_TYPE_ARTWORK\<rparr>"
  let ?d = "d\<lparr>dft_pending := (dft_pending d)(i \<mapsto> body)\<rparr>"
  have b: "begin_artwork i body d io = (Inr (), ?d, with_sent io [?set_up])"
    using assms(3) by (simp add: begin_artwork_def dft_send_open)
  obtain ps where ps: "send_body i ?d (with_sent io [?set_up]) =
      (Inr (), ?d\<lparr>dft_pending := (dft_pending ?d)(i := None)\<rparr>, with_sent (with_sent io [?set_up]) ps)"
    "\<And>ft st jo. ft i = Some st \<Longrightarrow> length body \<le> if_declared_size st \<Longrightarrow>
      ft_feed ps ft jo = (True, snd (ft_complete i (ft(i \<mapsto> st\<lparr>if_buffer := body\<rparr>)) jo))"
    using send_body_completes [of "with_sent io [?set_up]" ?d i body] assms(2,3) by auto
  let ?jo1 = "with_sent jo [[i, OP_SETUP_ACK]]"
  let ?jo2 = "session_emit (ArtworkBytes i body) (with_sent ?jo1 [[i, OP_COMPLETE_ACK]])"
  have ack: "dft_on_link_data [i, OP_SETUP_ACK] ?d (with_sent io [?set_up]) =
      (Inr None, ?d\<lparr>dft_pending := (dft_pending ?d)(i := None)\<rparr>, with_sent (with_sent io [?set_up]) ps)"
    using ps(1) by (simp add: dft_on_link_data_def)
  have finished: "dft_on_link_data [i, OP_COMPLETE_ACK] e lo = (Inr (Some i), e, lo)" for e lo
    by (simp add: dft_on_link_data_def ft_ops)
  have "ft_feed ps (ft(i \<mapsto> ?st)) ?jo1 = (True, ft(i := None), ?jo2)"
    using ps(2) [of "ft(i \<mapsto> ?st)" ?st ?jo1] ft_complete_open [of ?jo1 "ft(i \<mapsto> ?st\<lparr>if_buffer := body\<rparr>)" i] assms(4) by simp
  moreover have "new_payloads ?jo1 ?jo2 = [[i, OP_COMPLETE_ACK]]" "new_payloads (with_sent io [?set_up]) (with_sent (with_sent io [?set_up]) ps) = ps"
    by (simp_all only: new_payloads_emit new_payloads_with_sent)
  ultimately have "artwork_exchange i body d io ft jo = ([Inr None, Inr (Some i)], ft(i := None), ?jo2)"
    unfolding artwork_exchange_def b prod.case Let_def new_payloads_with_sent setup_fed [OF assms(1,4)]
    by (simp only: new_payloads_with_sent new_payloads_emit concat.simps append_Nil2 ack prod.case finished Let_def)
  moreover have "events_open (with_sent ?jo1 [[i, OP_COMPLETE_ACK]])"
    using assms(5) by (simp add: events_open_def with_sent_def)
  then have "emitted ?jo2 = emitted jo @ [ArtworkBytes i body]"
    by (simp add: emitted_emit) (simp add: with_sent_def)
  ultimately show ?thesis by simp
qed

definition quiet_io :: SessionIo where
  "quiet_io = \<lparr>io_link = \<lparr>ch_sent = [], ch_budget = None\<rparr>, io_events = \<lparr>ch_sent = [], ch_budget = None\<rparr>, io_now = 0\<rparr>"

lemma quiet_io_open [simp]: "link_open quiet_io" "events_open quiet_io" "sent quiet_io = []" "emitted quiet_io = []"
  by (simp_all add: quiet_io_def link_open_def events_open_def)

theorem artwork_arrives_witness:
  "case artwork_exchange 5 [1, 2, 3, 4, 5, 6, 7] \<lparr>dft_chunk_budget = 3, dft_pending = Map.empty\<rparr> quiet_io
      [5 \<mapsto> \<lparr>if_buffer = [9], if_declared_size = 2, if_file_type = 0\<rparr>] quiet_io of (rs, ft', jo') \<Rightarrow>
    rs = [Inr None, Inr (Some 5)] \<and> ft' = [5 \<mapsto> \<lparr>if_buffer = [9], if_declared_size = 2, if_file_type = 0\<rparr>](5 := None) \<and>
    emitted jo' = emitted quiet_io @ [ArtworkBytes 5 [1, 2, 3, 4, 5, 6, 7]] \<and>
    sent jo' = sent quiet_io @ [Send FILE_TRANSFER_LINK_SESSION_ID [5, OP_SETUP_ACK], Send FILE_TRANSFER_LINK_SESSION_ID [5, OP_COMPLETE_ACK]]"
  by (rule artwork_arrives) (simp_all add: ISIZE_MAX_def)

text \<open>What the accessory buffers for a transfer stays within the size declared for it, whatever the peer
  sends: data beyond it drops the transfer.\<close>

theorem transfer_buffers_bounded:
  assumes "ft_feed ps FileTransferFlow_new io = (r, ft, io')" "ft i = Some st"
  shows "length (if_buffer st) \<le> if_declared_size st \<and> if_declared_size st \<le> ISIZE_MAX"
  using ft_feed_ok [OF _ assms(1)] assms(2) by (simp add: ft_ok_def FileTransferFlow_new_def)

theorem transfer_buffers_bounded_witness:
  "length (if_buffer \<lparr>if_buffer = [7], if_declared_size = 3, if_file_type = 2\<rparr>) \<le> 3 \<and> 3 \<le> ISIZE_MAX"
proof -
  let ?ps = "[[5, OP_SETUP] @ be64 (of_nat (length [0 :: u8, 0, 0])) @ be16 FILE_TYPE_ARTWORK, ft_frame 5 OP_DATA [7]]"
  let ?st = "\<lparr>if_buffer = [7], if_declared_size = 3, if_file_type = 2\<rparr>"
  have "ft_feed [hd ?ps] FileTransferFlow_new quiet_io =
      (True, FileTransferFlow_new(5 \<mapsto> \<lparr>if_buffer = [], if_declared_size = length [0 :: u8, 0, 0], if_file_type = FILE_TYPE_ARTWORK\<rparr>),
       with_sent quiet_io [[5, OP_SETUP_ACK]])"
    unfolding list.sel by (rule setup_fed) (simp_all add: ISIZE_MAX_def)
  then have "\<exists>io'. ft_feed ?ps FileTransferFlow_new quiet_io = (True, FileTransferFlow_new(5 \<mapsto> ?st), io')"
    by (auto simp: ft_dispatch_frame handle_chunk_def FILE_TYPE_ARTWORK_def split: prod.splits option.splits)
  then obtain io' where "ft_feed ?ps FileTransferFlow_new quiet_io = (True, FileTransferFlow_new(5 \<mapsto> ?st), io')" by blast
  from transfer_buffers_bounded [OF this, of 5 ?st] show ?thesis by simp
qed

text \<open>The declared size of a transfer is allocated unchecked: exactly a set-up of more than
  \<open>isize::MAX\<close> bytes makes the dispatch panic.\<close>

theorem file_transfer_panics:
  "fst (ft_dispatch p ft io) = None \<longleftrightarrow>
    length p \<in> {12, 13} \<and> p ! 1 = OP_SETUP \<and> 2 ^ 63 - 1 < unat (get64 (take 8 (drop 2 p)))"
proof -
  have c: "fst (ft_complete i ft io) \<noteq> None" for i ft io
    using ft_complete_returns by (metis prod.collapse)
  have s: "fst (handle_setup i r ft io) = None \<longleftrightarrow>
      (length r = 11 \<or> length r = 10) \<and> ISIZE_MAX < unat (get64 (take 8 r))" for i r
    by (auto simp: handle_setup_def Let_def split: prod.splits)
  have "fst (handle_first_and_only i b ft io) \<noteq> None" "fst (handle_chunk i b f l ft io) \<noteq> None" for i b f l
    using c by (auto simp: handle_first_and_only_def handle_chunk_def Let_def split: option.splits)
  then show ?thesis
    by (auto simp: ft_dispatch_def Let_def s ISIZE_MAX_def)
qed

end
