(* ===== verification/Session_Now_Playing.thy ===== *)
theory Session_Now_Playing
  imports Session_Flows
begin

text \<open>The now-playing flow of the session (\<open>crates/iap2/src/session/now_playing.rs\<close>): which attributes the
  device is asked for, by what the companion already serves. A change is sent only when it has been wanted
  for a while.\<close>

section \<open>The flow\<close>

definition ART_SETTLE :: nat where "ART_SETTLE = secs 4"
definition SUBSCRIPTION_SETTLE :: nat where "SUBSCRIPTION_SETTLE = secs 2"

record NowPlayingAuthorityState =
  au_companion_metadata :: bool
  au_companion_playback :: bool
  au_app_bundle :: "bytes option"

definition NowPlayingAuthorityState_default :: NowPlayingAuthorityState where
  "NowPlayingAuthorityState_default =
    \<lparr>au_companion_metadata = False, au_companion_playback = False, au_app_bundle = None\<rparr>"

record NowPlayingCommand =
  nc_elapsed_time_ms :: "u32 option"
  nc_queue_index :: "u32 option"

datatype NowPlayingState = NpIdle | NpSubscribed

record Subscription =
  su_artwork :: bool
  su_position :: bool

definition Subscription_INITIAL :: Subscription where
  "Subscription_INITIAL = \<lparr>su_artwork = False, su_position = True\<rparr>"

definition Subscription_csm :: "Subscription \<Rightarrow> StartNowPlayingUpdates" where
  "Subscription_csm s = StartNowPlayingUpdates_subscription (su_artwork s) (su_position s)"

record NowPlayingFlow =
  np_state :: NowPlayingState
  np_sent :: Subscription
  np_pending :: "(Subscription \<times> nat) option"
  np_subscribed_at :: "nat option"
  np_last_app_bundle :: "bytes option"

definition NowPlayingFlow_new :: NowPlayingFlow where
  "NowPlayingFlow_new = \<lparr>np_state = NpIdle, np_sent = Subscription_INITIAL, np_pending = None,
    np_subscribed_at = None, np_last_app_bundle = None\<rparr>"

definition np_handles :: "u16 \<Rightarrow> bool" where
  "np_handles msg_id \<longleftrightarrow> msg_id = NowPlayingUpdate_MSG_ID"

definition np_reset :: "NowPlayingFlow \<Rightarrow> NowPlayingFlow" where
  "np_reset fl = fl\<lparr>np_state := NpIdle, np_sent := Subscription_INITIAL, np_pending := None,
    np_subscribed_at := None, np_last_app_bundle := None\<rparr>"

definition send_subscription :: "Subscription \<Rightarrow> SessionIo \<Rightarrow> (Iap2Error + unit) \<times> SessionIo" where
  "send_subscription s io = send_csm (StartNowPlayingUpdates_to_frame (Subscription_csm s)) io"

definition np_ensure_subscribed :: "NowPlayingFlow \<Rightarrow> SessionIo \<Rightarrow> (Iap2Error + unit) \<times> NowPlayingFlow \<times> SessionIo" where
  "np_ensure_subscribed fl io =
    (if np_state fl = NpIdle then
       (case send_subscription (np_sent fl) io of
          (Inl e, io') \<Rightarrow> (Inl e, fl, io')
        | (Inr _, io') \<Rightarrow> (Inr (), fl\<lparr>np_state := NpSubscribed, np_subscribed_at := Some (io_now io')\<rparr>, io'))
     else (Inr (), fl, io))"

definition np_desired :: "NowPlayingFlow \<Rightarrow> NowPlayingAuthorityState \<Rightarrow> nat \<Rightarrow> Subscription option" where
  "np_desired fl authority now =
    (case np_last_app_bundle fl of
       None \<Rightarrow> None
     | Some foreground \<Rightarrow>
         let claimed = au_app_bundle authority;
             served = (claimed = Some foreground);
             settled = (case np_subscribed_at fl of None \<Rightarrow> False | Some at \<Rightarrow> at + ART_SETTLE \<le> now);
             artwork = (if claimed \<noteq> None \<and> \<not> served then True
                        else if claimed \<noteq> None \<and> au_companion_metadata authority then False
                        else settled)
         in Some \<lparr>su_artwork = artwork, su_position = (\<not> (served \<and> au_companion_playback authority))\<rparr>)"

definition np_note_bundle :: "bytes option \<Rightarrow> NowPlayingFlow \<Rightarrow> NowPlayingFlow" where
  "np_note_bundle delta_bundle fl =
    (case delta_bundle of
       None \<Rightarrow> fl
     | Some b \<Rightarrow> if b = [] then fl else fl\<lparr>np_last_app_bundle := Some b\<rparr>)"

definition np_reconcile ::
  "bytes option \<Rightarrow> NowPlayingAuthorityState \<Rightarrow> NowPlayingFlow \<Rightarrow> SessionIo \<Rightarrow>
    (Iap2Error + unit) \<times> NowPlayingFlow \<times> SessionIo" where
  "np_reconcile delta_bundle authority fl0 io =
    (let fl = np_note_bundle delta_bundle fl0; now = io_now io
     in case np_desired fl authority now of
          None \<Rightarrow> (Inr (), fl, io)
        | Some desired \<Rightarrow>
            if desired = np_sent fl then (Inr (), fl\<lparr>np_pending := None\<rparr>, io)
            else
              let due = (case np_pending fl of
                           Some (held, due) \<Rightarrow> if held = desired then due else now + SUBSCRIPTION_SETTLE
                         | None \<Rightarrow> now + SUBSCRIPTION_SETTLE)
              in if now < due then (Inr (), fl\<lparr>np_pending := Some (desired, due)\<rparr>, io)
                 else case send_subscription desired io of
                   (r, io') \<Rightarrow> (r, fl\<lparr>np_pending := None, np_sent := desired\<rparr>, io'))"

definition np_next_wakeup :: "NowPlayingFlow \<Rightarrow> nat \<Rightarrow> nat option" where
  "np_next_wakeup fl now =
    (if np_state fl \<noteq> NpSubscribed then None
     else
       let art_settles = (case np_subscribed_at fl of
             None \<Rightarrow> None
           | Some at \<Rightarrow> if now < at + ART_SETTLE then Some (at + ART_SETTLE) else None)
       in case (map_option snd (np_pending fl), art_settles) of
            (Some a, Some b) \<Rightarrow> Some (min a b)
          | (Some a, None) \<Rightarrow> Some a
          | (None, b) \<Rightarrow> b)"

definition np_reconcile_companion ::
  "NowPlayingAuthorityState \<Rightarrow> NowPlayingFlow \<Rightarrow> SessionIo \<Rightarrow> (Iap2Error + unit) \<times> NowPlayingFlow \<times> SessionIo" where
  "np_reconcile_companion authority fl io =
    (if np_state fl \<noteq> NpSubscribed then (Inr (), fl, io) else np_reconcile None authority fl io)"

definition np_handle ::
  "CsmFrame \<Rightarrow> NowPlayingAuthorityState \<Rightarrow> NowPlayingFlow \<Rightarrow> SessionIo \<Rightarrow> NowPlayingFlow handled" where
  "np_handle frame authority fl io =
    (if cf_msg_id frame \<noteq> NowPlayingUpdate_MSG_ID then (Inr None, fl, io)
     else case decoded (NowPlayingUpdate_from_frame frame) of
       Inl e \<Rightarrow> (Inl e, fl, io)
     | Inr update \<Rightarrow>
         let app_bundle = Option.bind (npu_playback update) pb_app_bundle
         in case np_reconcile app_bundle authority fl (session_emit (NowPlaying update) io) of
              (Inl e, fl', io') \<Rightarrow> (Inl e, fl', io')
            | (Inr _, fl', io') \<Rightarrow> (Inr None, fl', io'))"

definition np_handle_command :: "NowPlayingCommand \<Rightarrow> NowPlayingFlow \<Rightarrow> SessionIo \<Rightarrow> (Iap2Error + unit) \<times> SessionIo" where
  "np_handle_command cmd fl io =
    (if np_state fl \<noteq> NpSubscribed then (Inr (), io)
     else if nc_elapsed_time_ms cmd = None \<and> nc_queue_index cmd = None then (Inr (), io)
     else send_csm (SetNowPlayingInformation_to_frame
       \<lparr>snpi_elapsed_time_ms = nc_elapsed_time_ms cmd, snpi_queue_index = nc_queue_index cmd,
        snpi_queue_list_content_transfer_start_index = None\<rparr>) io)"

section \<open>The debounce\<close>

text \<open>A run of the flow: time passes, an update names the foreground app or does not, and the companion's
  claims are as given.\<close>

type_synonym np_step = "nat \<times> bytes option \<times> NowPlayingAuthorityState"

fun np_run :: "np_step list \<Rightarrow> NowPlayingFlow \<Rightarrow> SessionIo \<Rightarrow> (Iap2Error + unit) \<times> NowPlayingFlow \<times> SessionIo" where
  "np_run [] fl io = (Inr (), fl, io)"
| "np_run ((d, delta, authority) # steps) fl io =
    (case np_reconcile delta authority fl (sleep d io) of
       (Inl e, fl', io') \<Rightarrow> (Inl e, fl', io')
     | (Inr _, fl', io') \<Rightarrow> np_run steps fl' io')"

text \<open>What is wanted at each moment, as far as a foreground app is known. This does not look at what was
  sent or is pending.\<close>

fun np_observed :: "np_step list \<Rightarrow> NowPlayingFlow \<Rightarrow> nat \<Rightarrow> (nat \<times> Subscription) list" where
  "np_observed [] fl now = []"
| "np_observed ((d, delta, authority) # steps) fl now =
    (let fl' = np_note_bundle delta fl
     in (case np_desired fl' authority (now + d) of None \<Rightarrow> [] | Some s \<Rightarrow> [(now + d, s)]) @
        np_observed steps fl' (now + d))"

text \<open>The reference: the subscription in force after a history (latest first) is the last one that was wanted
  without interruption for the settling time.\<close>

abbreviation held_for :: "Subscription \<Rightarrow> (nat \<times> Subscription) list \<Rightarrow> (nat \<times> Subscription) list" where
  "held_for s h \<equiv> takeWhile (\<lambda>ob. snd ob = s) h"

fun settled_subscription :: "(nat \<times> Subscription) list \<Rightarrow> Subscription" where
  "settled_subscription [] = Subscription_INITIAL"
| "settled_subscription ((t, s) # older) =
    (if \<exists>ob \<in> set (held_for s ((t, s) # older)). fst ob + SUBSCRIPTION_SETTLE \<le> t then s
     else settled_subscription older)"

fun announced :: "(nat \<times> Subscription) list \<Rightarrow> Subscription list" where
  "announced [] = []"
| "announced (ob # older) = announced older @
    (if settled_subscription (ob # older) = settled_subscription older then []
     else [settled_subscription (ob # older)])"

definition subscription_send :: "Subscription \<Rightarrow> Iap2Command" where
  "subscription_send s = Send CONTROL_SESSION_ID (csm_encode (StartNowPlayingUpdates_to_frame (Subscription_csm s)))"

text \<open>How a flow and its history belong together.\<close>

definition np_history :: "(nat \<times> Subscription) list \<Rightarrow> nat \<Rightarrow> NowPlayingFlow \<Rightarrow> bool" where
  "np_history h now fl \<longleftrightarrow> np_sent fl = settled_subscription h \<and> sorted_wrt (\<lambda>a b. fst b \<le> fst a) h \<and>
     (\<forall>ob \<in> set h. fst ob \<le> now) \<and>
     (case np_pending fl of
        None \<Rightarrow> h = [] \<or> snd (hd h) = np_sent fl
      | Some (s, due) \<Rightarrow> h \<noteq> [] \<and> snd (hd h) = s \<and> s \<noteq> np_sent fl \<and>
          due = fst (last (held_for s h)) + SUBSCRIPTION_SETTLE)"

lemma oldest_is_least:
  assumes "sorted_wrt (\<lambda>a b. fst b \<le> fst a) h" "h \<noteq> []"
  shows "(\<exists>ob \<in> set h. fst ob + c \<le> (t :: nat)) \<longleftrightarrow> fst (last h) + c \<le> t"
proof -
  have "fst (last h) \<le> fst ob" if "ob \<in> set h" for ob
    using assms that by (induction h) (auto split: if_splits)
  with assms(2) show ?thesis by (meson add_right_mono last_in_set le_trans)
qed

lemma sorted_held: "sorted_wrt P h \<Longrightarrow> sorted_wrt P (held_for s h)"
  by (metis sorted_wrt_append takeWhile_dropWhile_id)

lemma settled_Cons:
  assumes "sorted_wrt (\<lambda>a b. fst b \<le> fst a) ((t, s) # h)"
  shows "settled_subscription ((t, s) # h) =
    (if fst (last ((t, s) # held_for s h)) + SUBSCRIPTION_SETTLE \<le> t then s else settled_subscription h)"
proof -
  have "sorted_wrt (\<lambda>a b. fst b \<le> fst a) ((t, s) # held_for s h)"
    using sorted_held [OF assms, of s] by simp
  note least = oldest_is_least [OF this list.distinct(2)]
  have "held_for s ((t, s) # h) = (t, s) # held_for s h" by simp
  then show ?thesis unfolding settled_subscription.simps by (simp only: least)
qed

lemma np_reconcile_history:
  assumes hist: "np_history h (io_now io) (np_note_bundle delta fl)" and lo: "link_open io"
    and want: "np_desired (np_note_bundle delta fl) authority (io_now io) = Some s"
  shows "\<exists>fl' io'. np_reconcile delta authority fl io = (Inr (), fl', io') \<and>
    np_history ((io_now io, s) # h) (io_now io) fl' \<and> link_open io' \<and> io_now io' = io_now io \<and>
    np_last_app_bundle fl' = np_last_app_bundle (np_note_bundle delta fl) \<and>
    np_subscribed_at fl' = np_subscribed_at fl \<and>
    sent io' = sent io @ (if settled_subscription ((io_now io, s) # h) = settled_subscription h then []
      else [subscription_send (settled_subscription ((io_now io, s) # h))])"
proof -
  let ?fl = "np_note_bundle delta fl" and ?now = "io_now io"
  have srt: "sorted_wrt (\<lambda>a b. fst b \<le> fst a) ((?now, s) # h)" and le: "\<forall>ob \<in> set h. fst ob \<le> ?now"
    using hist by (auto simp: np_history_def)
  note st = settled_Cons [OF srt]
  have pos: "0 < SUBSCRIPTION_SETTLE" by (simp add: SUBSCRIPTION_SETTLE_def secs_def)
  have at: "np_subscribed_at ?fl = np_subscribed_at fl"
    by (simp add: np_note_bundle_def split: option.splits)
  have cur: "np_sent ?fl = settled_subscription h" using hist by (simp add: np_history_def)
  consider (same) "s = np_sent ?fl"
    | (held) due where "s \<noteq> np_sent ?fl" "np_pending ?fl = Some (s, due)"
    | (fresh) "s \<noteq> np_sent ?fl" "\<nexists>due. np_pending ?fl = Some (s, due)"
    by blast
  then show ?thesis
  proof cases
    case same
    then have "settled_subscription ((?now, s) # h) = s" using st cur by simp
    with same show ?thesis
      using want lo srt le cur at by (auto simp: np_reconcile_def np_history_def Let_def)
  next
    case held
    then have h: "h \<noteq> []" "snd (hd h) = s" "due = fst (last (held_for s h)) + SUBSCRIPTION_SETTLE"
      using hist by (auto simp: np_history_def)
    then have ne: "held_for s h \<noteq> []" by (cases h) auto
    then have st': "settled_subscription ((?now, s) # h) = (if due \<le> ?now then s else settled_subscription h)"
      using st h(3) by simp
    have due': "due = fst (last (held_for s ((?now, s) # h))) + SUBSCRIPTION_SETTLE" using h(3) ne by simp
    show ?thesis
    proof (cases "due \<le> ?now")
      case True
      with held st' cur show ?thesis
        using want lo srt le at
        by (auto simp: np_reconcile_def np_history_def Let_def send_subscription_def send_csm_open
            subscription_send_def link_open_def)
    next
      case False
      with held st' cur due' show ?thesis
        using want lo srt le at by (auto simp: np_reconcile_def np_history_def Let_def)
    qed
  next
    case fresh
    have "held_for s h = []"
      using fresh hist by (cases h) (auto simp: np_history_def split: option.splits)
    then have st': "settled_subscription ((?now, s) # h) = settled_subscription h" using st pos by simp
    have due: "(case np_pending ?fl of Some (held, due) \<Rightarrow> if held = s then due else ?now + SUBSCRIPTION_SETTLE
        | None \<Rightarrow> ?now + SUBSCRIPTION_SETTLE) = ?now + SUBSCRIPTION_SETTLE"
      using fresh(2) by (auto split: option.splits)
    have "np_reconcile delta authority fl io =
        (Inr (), ?fl\<lparr>np_pending := Some (s, ?now + SUBSCRIPTION_SETTLE)\<rparr>, io)"
      unfolding np_reconcile_def Let_def using want fresh(1) due pos by simp
    with fresh st' cur show ?thesis
      using lo srt le at \<open>held_for s h = []\<close> by (auto simp: np_history_def)
  qed
qed

lemma np_reconcile_unknown:
  assumes "np_desired (np_note_bundle delta fl) authority (io_now io) = None"
  shows "np_reconcile delta authority fl io = (Inr (), np_note_bundle delta fl, io)"
  using assms by (simp add: np_reconcile_def)

lemma np_desired_cong:
  "np_last_app_bundle a = np_last_app_bundle b \<Longrightarrow> np_subscribed_at a = np_subscribed_at b \<Longrightarrow>
   np_desired a au t = np_desired b au t"
  by (cases "np_last_app_bundle b") (simp_all add: np_desired_def)

lemma np_observed_cong:
  "np_last_app_bundle a = np_last_app_bundle b \<Longrightarrow> np_subscribed_at a = np_subscribed_at b \<Longrightarrow>
   np_observed steps a t = np_observed steps b t"
proof (induction steps arbitrary: a b t)
  case (Cons st steps)
  obtain d delta au where "st = (d, delta, au)" by (cases st)
  moreover have "np_last_app_bundle (np_note_bundle delta a) = np_last_app_bundle (np_note_bundle delta b)"
    "np_subscribed_at (np_note_bundle delta a) = np_subscribed_at (np_note_bundle delta b)"
    using Cons.prems by (auto simp: np_note_bundle_def split: option.splits)
  ultimately show ?case
    using Cons.IH [of "np_note_bundle delta a" "np_note_bundle delta b"]
      np_desired_cong [of "np_note_bundle delta a" "np_note_bundle delta b"]
    by (simp add: Let_def)
qed simp

lemma np_history_later: "np_history h now fl \<Longrightarrow> now \<le> later \<Longrightarrow> np_history h later fl"
  by (auto simp: np_history_def)

lemma np_history_note: "np_history h now (np_note_bundle delta fl) = np_history h now fl"
  by (auto simp: np_history_def np_note_bundle_def split: option.splits)

lemma announced_append_step:
  "map subscription_send (announced (ob # h)) = map subscription_send (announced h) @
     (if settled_subscription (ob # h) = settled_subscription h then []
      else [subscription_send (settled_subscription (ob # h))])"
  by simp

lemma np_run_history:
  "np_history h (io_now io) fl \<Longrightarrow> link_open io \<Longrightarrow>
   sent io = sent0 @ map subscription_send (announced h) \<Longrightarrow>
   \<exists>fl' io'. np_run steps fl io = (Inr (), fl', io') \<and>
     (let h' = rev (np_observed steps fl (io_now io)) @ h
      in np_sent fl' = settled_subscription h' \<and> sent io' = sent0 @ map subscription_send (announced h'))"
proof (induction steps arbitrary: h fl io)
  case Nil
  then show ?case by (simp add: np_history_def)
next
  case (Cons st steps)
  obtain d delta au where st: "st = (d, delta, au)" by (cases st)
  let ?io = "sleep d io" and ?fl = "np_note_bundle delta fl"
  have hist: "np_history h (io_now ?io) ?fl"
    using np_history_later [OF Cons.prems(1)] by (simp add: np_history_note)
  show ?case
  proof (cases "np_desired ?fl au (io_now ?io)")
    case None
    then show ?thesis
      using Cons.IH [OF hist] Cons.prems st np_reconcile_unknown [OF None] by simp
  next
    case (Some s)
    obtain fl1 io1 where r: "np_reconcile delta au fl ?io = (Inr (), fl1, io1)"
      "np_history ((io_now ?io, s) # h) (io_now io1) fl1" "link_open io1" "io_now io1 = io_now ?io"
      "np_last_app_bundle fl1 = np_last_app_bundle ?fl" "np_subscribed_at fl1 = np_subscribed_at fl"
      and snt: "sent io1 = sent ?io @ (if settled_subscription ((io_now ?io, s) # h) = settled_subscription h then []
        else [subscription_send (settled_subscription ((io_now ?io, s) # h))])"
      using np_reconcile_history [OF hist _ Some] Cons.prems(2) by force
    have "sent io1 = sent0 @ map subscription_send (announced ((io_now ?io, s) # h))"
      using snt Cons.prems(3) unfolding announced_append_step by simp
    from Cons.IH [OF r(2,3) this]
    obtain fl2 io2 where "np_run steps fl1 io1 = (Inr (), fl2, io2)"
      "let h' = rev (np_observed steps fl1 (io_now io1)) @ (io_now ?io, s) # h
       in np_sent fl2 = settled_subscription h' \<and> sent io2 = sent0 @ map subscription_send (announced h')"
      by blast
    moreover have "np_observed steps fl1 (io_now io1) = np_observed steps ?fl (io_now ?io)"
    proof -
      have "np_subscribed_at ?fl = np_subscribed_at fl" by (simp add: np_note_bundle_def split: option.splits)
      then show ?thesis using np_observed_cong [of fl1 ?fl steps "io_now io1"] r(4-6) by simp
    qed
    ultimately show ?thesis using r(1) Some st by (simp add: Let_def)
  qed
qed

text \<open>C19. The subscription logic is the debounce it means to be: over any run of updates and companion claims, the
  subscriptions that reach the device are exactly the changes of the last one that was wanted without
  interruption for two seconds, each announced once.\<close>

theorem subscription_is_debounced:
  assumes "link_open io" "np_sent fl = Subscription_INITIAL" "np_pending fl = None"
  shows "\<exists>fl' io'. np_run steps fl io = (Inr (), fl', io') \<and>
    (let h = rev (np_observed steps fl (io_now io))
     in np_sent fl' = settled_subscription h \<and> sent io' = sent io @ map subscription_send (announced h))"
proof -
  have "np_history [] (io_now io) fl" using assms(2,3) by (simp add: np_history_def)
  from np_run_history [OF this assms(1), of "sent io" steps] show ?thesis by simp
qed

definition demo_flow :: NowPlayingFlow where
  "demo_flow = NowPlayingFlow_new\<lparr>np_state := NpSubscribed, np_subscribed_at := Some 0\<rparr>"

definition demo_claim :: NowPlayingAuthorityState where
  "demo_claim = \<lparr>au_companion_metadata = True, au_companion_playback = True, au_app_bundle = Some [65]\<rparr>"

text \<open>A companion that serves app \<open>A\<close>: while the foreground flaps between \<open>A\<close> and \<open>B\<close> nothing is sent; when it
  has stayed on \<open>A\<close>, one subscription without artwork and position.\<close>

theorem subscription_is_debounced_witness:
  "\<exists>fl' io'. np_run [(0, Some [65], demo_claim), (secs 1, Some [66], demo_claim), (secs 1, Some [65], demo_claim),
      (secs 1, None, demo_claim), (secs 1, None, demo_claim)] demo_flow idle_io = (Inr (), fl', io') \<and>
    sent io' = [subscription_send \<lparr>su_artwork = False, su_position = False\<rparr>]"
  using subscription_is_debounced [of idle_io demo_flow "[(0, Some [65], demo_claim), (secs 1, Some [66], demo_claim),
      (secs 1, Some [65], demo_claim), (secs 1, None, demo_claim), (secs 1, None, demo_claim)]"]
  by (auto simp: idle_io_def link_open_def demo_flow_def NowPlayingFlow_new_def demo_claim_def np_note_bundle_def
      np_desired_def Let_def Subscription_INITIAL_def SUBSCRIPTION_SETTLE_def ART_SETTLE_def secs_def)

section \<open>Waking up\<close>

text \<open>What the session does while nothing arrives: sleep until the flow's next wakeup and reconcile.\<close>

definition np_wake :: "NowPlayingAuthorityState \<Rightarrow> NowPlayingFlow \<times> SessionIo \<Rightarrow> NowPlayingFlow \<times> SessionIo" where
  "np_wake authority = (\<lambda>(fl, io).
    case np_next_wakeup fl (io_now io) of
      None \<Rightarrow> (fl, io)
    | Some at \<Rightarrow> snd (np_reconcile_companion authority fl (sleep (at - io_now io) io)))"

text \<open>After a reconciliation: what is pending is what is wanted and not yet due.\<close>

definition np_steady :: "NowPlayingAuthorityState \<Rightarrow> NowPlayingFlow \<times> SessionIo \<Rightarrow> bool" where
  "np_steady authority = (\<lambda>(fl, io).
     np_state fl = NpSubscribed \<and> np_subscribed_at fl \<noteq> None \<and> link_open io \<and>
     (case np_desired fl authority (io_now io) of
        None \<Rightarrow> np_pending fl = None
      | Some d \<Rightarrow> (if d = np_sent fl then np_pending fl = None
                  else \<exists>due. np_pending fl = Some (d, due) \<and> io_now io < due)))"

definition art_settling :: "NowPlayingFlow \<Rightarrow> nat \<Rightarrow> bool" where
  "art_settling fl now = (case np_subscribed_at fl of None \<Rightarrow> False | Some at \<Rightarrow> now < at + ART_SETTLE)"

definition np_rank :: "NowPlayingFlow \<times> SessionIo \<Rightarrow> nat" where
  "np_rank = (\<lambda>(fl, io). (if art_settling fl (io_now io) then 2 else 0) + (if np_pending fl = None then 0 else 1))"

lemma np_desired_stable:
  "art_settling fl t = art_settling fl t' \<Longrightarrow> np_desired fl au t = np_desired fl au t'"
  by (auto simp: np_desired_def art_settling_def Let_def not_less split: option.splits)

lemma np_reconcile_steady:
  assumes "np_state fl = NpSubscribed" "np_subscribed_at fl \<noteq> None" "link_open io"
    and "np_last_app_bundle fl = None \<longrightarrow> np_pending fl = None"
  shows "np_steady au (snd (np_reconcile delta au fl io)) \<and>
    fst (np_reconcile delta au fl io) = Inr () \<and>
    io_now (snd (snd (np_reconcile delta au fl io))) = io_now io \<and>
    np_subscribed_at (fst (snd (np_reconcile delta au fl io))) = np_subscribed_at fl"
proof -
  let ?fl = "np_note_bundle delta fl"
  have nb: "np_state ?fl = NpSubscribed" "np_subscribed_at ?fl = np_subscribed_at fl" "np_pending ?fl = np_pending fl"
    "np_last_app_bundle ?fl = None \<longrightarrow> np_pending fl = None"
    using assms(1,4) by (auto simp: np_note_bundle_def split: option.splits)
  have des: "np_desired (?fl\<lparr>np_pending := p\<rparr>) au t = np_desired ?fl au t"
    "np_desired (?fl\<lparr>np_pending := p, np_sent := s\<rparr>) au t = np_desired ?fl au t" for p s t
    by (rule np_desired_cong; simp)+
  show ?thesis
  proof (cases "np_desired ?fl au (io_now io)")
    case None
    then have "np_last_app_bundle ?fl = None" by (auto simp: np_desired_def Let_def split: option.splits)
    with None nb assms show ?thesis by (simp add: np_reconcile_def np_steady_def)
  next
    case (Some d)
    define due where "due = (case np_pending ?fl of Some (held, due) \<Rightarrow>
        if held = d then due else io_now io + SUBSCRIPTION_SETTLE | None \<Rightarrow> io_now io + SUBSCRIPTION_SETTLE)"
    consider "d = np_sent ?fl" | "d \<noteq> np_sent ?fl" "io_now io < due" | "d \<noteq> np_sent ?fl" "\<not> io_now io < due" by blast
    then show ?thesis
    proof cases
      case 1
      with Some nb assms des show ?thesis by (simp add: np_reconcile_def np_steady_def Let_def)
    next
      case 2
      have "np_reconcile delta au fl io = (Inr (), ?fl\<lparr>np_pending := Some (d, due)\<rparr>, io)"
        unfolding np_reconcile_def Let_def using Some 2 by (simp add: due_def)
      with Some 2 nb assms des show ?thesis by (simp add: np_steady_def)
    next
      case 3
      have "np_reconcile delta au fl io = (case send_subscription d io of
          (r, io') \<Rightarrow> (r, ?fl\<lparr>np_pending := None, np_sent := d\<rparr>, io'))"
        unfolding np_reconcile_def Let_def using Some 3 by (simp add: due_def)
      with Some nb assms des show ?thesis
        by (simp add: np_steady_def send_subscription_def send_csm_open)
    qed
  qed
qed

lemma np_reconcile_due:
  assumes "np_desired fl au (io_now io) = Some d" "np_pending fl = Some (d, due)" "due \<le> io_now io"
  shows "np_pending (fst (snd (np_reconcile None au fl io))) = None"
  using assms by (auto simp: np_reconcile_def np_note_bundle_def Let_def split: prod.splits)

lemma np_wake_step:
  assumes "np_steady au s"
  shows "np_steady au (np_wake au s) \<and> np_rank (np_wake au s) \<le> np_rank s - 1"
proof -
  obtain fl io where s: "s = (fl, io)" by (cases s)
  note st = assms [unfolded s np_steady_def prod.case]
  obtain t0 where t0: "np_subscribed_at fl = Some t0" using st by blast
  show ?thesis
  proof (cases "np_next_wakeup fl (io_now io)")
    case None
    then have "np_rank s = 0" using s st t0
      by (auto simp: np_next_wakeup_def np_rank_def art_settling_def Let_def split: option.splits if_splits)
    with None assms s show ?thesis by (simp add: np_wake_def)
  next
    case (Some at)
    let ?io = "sleep (at - io_now io) io"
    let ?r = "np_reconcile None au fl ?io"
    have later: "io_now io < at"
      using Some st by (auto simp: np_next_wakeup_def Let_def split: option.splits if_splits)
    then have now: "io_now ?io = at" by simp
    have wake: "np_wake au s = snd ?r"
      using s Some st by (simp add: np_wake_def np_reconcile_companion_def)
    have pnd: "np_last_app_bundle fl = None \<longrightarrow> np_pending fl = None"
      using st by (auto simp: np_desired_def)
    have r: "np_steady au (snd ?r)" "io_now (snd (snd ?r)) = at" "np_subscribed_at (fst (snd ?r)) = Some t0"
      using np_reconcile_steady [of fl ?io au None] st pnd t0 now by auto
    have rank: "np_rank (snd ?r) = (if at < t0 + ART_SETTLE then 2 else 0) +
        (if np_pending (fst (snd ?r)) = None then 0 else 1)"
      using r(2,3) by (simp add: np_rank_def art_settling_def case_prod_beta)
    have ranks: "np_rank s = (if io_now io < t0 + ART_SETTLE then 2 else 0) + (if np_pending fl = None then 0 else 1)"
      using s t0 by (simp add: np_rank_def art_settling_def)
    have "np_rank (snd ?r) \<le> np_rank s - 1"
    proof (cases "io_now io < t0 + ART_SETTLE \<and> at = t0 + ART_SETTLE")
      case True
      with rank ranks show ?thesis by simp
    next
      case False
      then obtain d due where p: "np_pending fl = Some (d, due)" "at = due"
        using Some st t0 by (auto simp: np_next_wakeup_def Let_def min_def split: option.splits if_splits)
      have same: "art_settling fl at = art_settling fl (io_now io)"
        using False Some st t0 later p
        by (auto simp: art_settling_def np_next_wakeup_def Let_def min_def split: if_splits)
      have "np_desired fl au (io_now io) = Some d" using st p by (auto split: option.splits if_splits)
      then have "np_desired fl au (io_now ?io) = Some d" using np_desired_stable [OF same, of au] now by simp
      from np_reconcile_due [OF this p(1)] have "np_pending (fst (snd ?r)) = None" using p(2) now by simp
      with rank ranks p same t0 show ?thesis by (auto simp: art_settling_def)
    qed
    with r(1) wake show ?thesis by simp
  qed
qed

lemma np_rank_0:
  assumes "np_steady au (fl, io)" "np_rank (fl, io) = 0"
  shows "np_next_wakeup fl (io_now io) = None"
  using assms by (auto simp: np_steady_def np_rank_def art_settling_def np_next_wakeup_def Let_def split: if_splits option.splits)

lemma np_wakes: "np_steady au s \<Longrightarrow> np_steady au ((np_wake au ^^ n) s) \<and> np_rank ((np_wake au ^^ n) s) \<le> np_rank s - n"
proof (induction n)
  case (Suc n)
  then show ?case using np_wake_step [of au "(np_wake au ^^ n) s"] by auto
qed simp

text \<open>C20. Without any further update the flow settles by itself: after an update, at most three wakeups bring the
  device to the subscription that is wanted then, and no wakeup is left, so the session does not spin.\<close>

theorem subscription_settles:
  assumes "np_state fl = NpSubscribed" "np_subscribed_at fl \<noteq> None" "link_open io"
    and "np_last_app_bundle fl = None \<longrightarrow> np_pending fl = None"
    and "(np_wake authority ^^ 3) (snd (np_reconcile delta authority fl io)) = (fl', io')"
  shows "np_next_wakeup fl' (io_now io') = None \<and>
    (np_last_app_bundle fl' = None \<or> np_desired fl' authority (io_now io') = Some (np_sent fl'))"
proof -
  let ?s = "snd (np_reconcile delta authority fl io)"
  have "np_steady authority ?s" using np_reconcile_steady [OF assms(1-4)] by simp
  from np_wakes [OF this, of 3] have w: "np_steady authority (fl', io')" "np_rank (fl', io') \<le> np_rank ?s - 3"
    using assms(5) by simp_all
  have "np_rank ?s \<le> 3" by (simp add: np_rank_def case_prod_beta)
  with w(2) have z: "np_rank (fl', io') = 0" by simp
  then have "np_pending fl' = None" by (auto simp: np_rank_def split: if_splits)
  with w(1) np_rank_0 [OF w(1) z] show ?thesis
    by (auto simp: np_steady_def np_desired_def Let_def split: option.splits if_splits)
qed

theorem subscription_settles_witness:
  "\<exists>fl' io'. (np_wake NowPlayingAuthorityState_default ^^ 3)
      (snd (np_reconcile (Some [65]) NowPlayingAuthorityState_default demo_flow idle_io)) = (fl', io') \<and>
    np_next_wakeup fl' (io_now io') = None"
proof -
  obtain fl' io' where r: "(np_wake NowPlayingAuthorityState_default ^^ 3)
      (snd (np_reconcile (Some [65]) NowPlayingAuthorityState_default demo_flow idle_io)) = (fl', io')"
    by (meson surj_pair)
  from subscription_settles [OF _ _ _ _ r] r show ?thesis
    by (auto simp: demo_flow_def NowPlayingFlow_new_def idle_io_def link_open_def)
qed

section \<open>Updates before the subscription\<close>

text \<open>Unlike \<open>reconcile_companion\<close>, the handler of an update changes the subscription also while the flow is
  idle: two updates from an app that the companion does not claim, two seconds apart, make a flow that has
  not subscribed send \<open>StartNowPlayingUpdates\<close>, whether or not the device has accepted the identification.\<close>

theorem subscription_before_subscribing:
  assumes "cf_msg_id f = NowPlayingUpdate_MSG_ID" "NowPlayingUpdate_from_frame f = Inr u"
    and "Option.bind (npu_playback u) pb_app_bundle = Some b" "b \<noteq> []"
    and "au_app_bundle authority = Some c" "c \<noteq> b" "link_open io"
  shows "\<exists>fl1 io1 fl2 io2. np_handle f authority NowPlayingFlow_new io = (Inr None, fl1, io1) \<and>
    np_handle f authority fl1 (sleep SUBSCRIPTION_SETTLE io1) = (Inr None, fl2, io2) \<and>
    np_state fl2 = NpIdle \<and> sent io2 = sent io @ [subscription_send \<lparr>su_artwork = True, su_position = True\<rparr>]"
  using assms
  by (simp add: np_handle_def decoded_def np_reconcile_def np_note_bundle_def NowPlayingFlow_new_def np_desired_def
      Let_def Subscription_INITIAL_def SUBSCRIPTION_SETTLE_def secs_def send_subscription_def send_csm_open
      subscription_send_def)

definition demo_update :: NowPlayingUpdate where
  "demo_update = \<lparr>npu_media_item = None,
    npu_playback = Some (PlaybackAttributes_default\<lparr>pb_app_bundle := Some [66]\<rparr>)\<rparr>"

theorem subscription_before_subscribing_witness:
  "\<exists>fl1 io1 fl2 io2. np_handle (NowPlayingUpdate_to_frame demo_update) demo_claim NowPlayingFlow_new idle_io = (Inr None, fl1, io1) \<and>
    np_handle (NowPlayingUpdate_to_frame demo_update) demo_claim fl1 (sleep SUBSCRIPTION_SETTLE io1) = (Inr None, fl2, io2) \<and>
    np_state fl2 = NpIdle \<and> sent io2 = [subscription_send \<lparr>su_artwork = True, su_position = True\<rparr>]"
proof -
  have "NowPlayingUpdate_from_frame (NowPlayingUpdate_to_frame demo_update) = Inr demo_update"
    by (rule NowPlayingUpdate_msg.read_own)
      (simp add: demo_update_def NowPlayingUpdate_ok_def PlaybackAttributes_ok_def PlaybackAttributes_default_def
        PlaybackAttributes_params_def attribute_ids CSM_PARAM_HEADER_LEN_def encode_presence_def enc_string_def enc_unit_def enc_u8_def enc_u32_def)
  from subscription_before_subscribing [OF NowPlayingUpdate_msg.frame_has_id this, of "[66]" demo_claim "[65]" idle_io]
  show ?thesis
    by (simp add: demo_update_def demo_claim_def idle_io_def link_open_def)
qed

end
