(* ===== verification/Session_Run.thy ===== *)
theory Session_Run
  imports Session_External_Accessory Session_File_Transfer Session_Now_Playing
begin

text \<open>The session itself (\<open>Iap2Session\<close>, \<open>crates/iap2/src/session/mod.rs\<close>): it reads the control session's
  frames, hands each to its flow, keeps the subscriptions up, and serves the link's events, the commands of
  the rest of the program and its own timer. A turn is one pass through the loop of \<open>run_inner\<close>.\<close>

section \<open>The state\<close>

text \<open>\<open>app_launch\<close> is the bundle with the current value of its watch, \<open>se_authority\<close> the current value of the
  companion's claims.\<close>

record 'm Session =
  se_identification :: IdentificationConfig
  se_app_launch :: "(bytes \<times> bool) option"
  se_mfi :: 'm
  se_auth :: AuthState
  se_ident :: IdentState
  se_now_playing :: NowPlayingFlow
  se_authority :: NowPlayingAuthorityState
  se_ea :: "EaFlow option"
  se_file_transfer :: FileTransferFlow
  se_hid :: HidState
  se_telephony :: SubscriptionState
  se_control_buf :: bytes
  se_authority_last :: NowPlayingAuthorityState
  se_io :: SessionIo

definition Session_new ::
  "IdentificationConfig \<Rightarrow> (bytes \<times> bool) option \<Rightarrow> 'm \<Rightarrow> NowPlayingAuthorityState \<Rightarrow> SessionIo \<Rightarrow> 'm Session" where
  "Session_new identification app_launch mfi authority io =
    \<lparr>se_identification = identification, se_app_launch = app_launch, se_mfi = mfi, se_auth = AuthFlow_new,
     se_ident = IdentificationFlow_new, se_now_playing = NowPlayingFlow_new, se_authority = authority,
     se_ea = None, se_file_transfer = FileTransferFlow_new, se_hid = HidFlow_new,
     se_telephony = TelephonyFlow_new, se_control_buf = [], se_authority_last = NowPlayingAuthorityState_default,
     se_io = io\<rparr>"

text \<open>What the session runs in: the coprocessor, the order of a hash map's drain, and how long the consumer
  of a stream lives.\<close>

record 'm SessionEnv =
  sv_mfi :: "'m MfiAccess"
  sv_hash_order :: "u16 list \<Rightarrow> u16 list"
  sv_stream_life :: "u16 \<Rightarrow> nat option"

type_synonym ('m, 'a) session_op = "'m Session \<Rightarrow> (Iap2Error + 'a) \<times> 'm Session"

text \<open>\<open>?\<close>: an error ends the sequence, with the state as it is then.\<close>

definition and_then :: "('m, 'a) session_op \<Rightarrow> ('a \<Rightarrow> ('m, 'b) session_op) \<Rightarrow> ('m, 'b) session_op" where
  "and_then f g s = (case f s of (Inl e, s') \<Rightarrow> (Inl e, s') | (Inr x, s') \<Rightarrow> g x s')"

definition emit_event :: "SessionEvent \<Rightarrow> 'm Session \<Rightarrow> 'm Session" where
  "emit_event ev s = s\<lparr>se_io := session_emit ev (se_io s)\<rparr>"

definition disconnect_link :: "'m Session \<Rightarrow> 'm Session" where
  "disconnect_link s = s\<lparr>se_io := snd (link_send Disconnect (se_io s))\<rparr>"

section \<open>Frames\<close>

definition handle_csm :: "'m SessionEnv \<Rightarrow> CsmFrame \<Rightarrow> ('m, SessionEvent option) session_op" where
  "handle_csm env frame s =
    (let i = cf_msg_id frame in
     if auth_handles i then
       (case auth_handle (sv_mfi env) frame (se_auth s) (se_mfi s) (se_io s) of
          (r, auth, m, io) \<Rightarrow> (r, s\<lparr>se_auth := auth, se_mfi := m, se_io := io\<rparr>))
     else if ident_handles i then
       (case ident_handle frame (se_identification s) (se_ident s) (se_io s) of
          (r, ident, io) \<Rightarrow> (r, s\<lparr>se_ident := ident, se_io := io\<rparr>))
     else if np_handles i then
       (case np_handle frame (se_authority s) (se_now_playing s) (se_io s) of
          (r, np, io) \<Rightarrow> (r, s\<lparr>se_now_playing := np, se_io := io\<rparr>))
     else if ea_handles i then
       (case se_ea s of
          None \<Rightarrow> (Inr None, s)
        | Some ea \<Rightarrow> (case ea_handle frame (sv_stream_life env) ea (se_io s) of
            (r, ea', io) \<Rightarrow> (r, s\<lparr>se_ea := Some ea', se_io := io\<rparr>)))
     else if telephony_handles i then
       (case telephony_handle frame (se_io s) of (r, io) \<Rightarrow> (r, s\<lparr>se_io := io\<rparr>))
     else if device_handles i then
       (case device_handle frame (se_io s) of (r, io) \<Rightarrow> (r, s\<lparr>se_io := io\<rparr>))
     else if hid_handles i then (hid_handle frame, s)
     else (Inr None, s))"

definition np_subscribe :: "('m, unit) session_op" where
  "np_subscribe s = (case np_ensure_subscribed (se_now_playing s) (se_io s) of
     (r, np, io) \<Rightarrow> (r, s\<lparr>se_now_playing := np, se_io := io\<rparr>))"

definition hid_start :: "('m, unit) session_op" where
  "hid_start s = (case hid_ensure_started (se_hid s) (se_io s) of
     (r, hid, io) \<Rightarrow> (r, s\<lparr>se_hid := hid, se_io := io\<rparr>))"

definition telephony_subscribe :: "('m, unit) session_op" where
  "telephony_subscribe s = (case telephony_ensure_subscribed (se_telephony s) (se_io s) of
     (r, tel, io) \<Rightarrow> (r, s\<lparr>se_telephony := tel, se_io := io\<rparr>))"

definition app_launch_request :: "('m, unit) session_op" where
  "app_launch_request s =
    (case (se_ea s, se_app_launch s) of
       (Some ea, Some (bundle, True)) \<Rightarrow>
         (case ensure_app_launch_requested bundle ea (se_io s) of
            (r, ea', io) \<Rightarrow> (r, s\<lparr>se_ea := Some ea', se_io := io\<rparr>))
     | _ \<Rightarrow> (Inr (), s))"

text \<open>What follows every frame once the device has accepted the identification.\<close>

definition keep_subscribed :: "('m, unit) session_op" where
  "keep_subscribed s =
    (if is_accepted (se_ident s)
     then and_then np_subscribe (\<lambda>_. and_then hid_start (\<lambda>_. and_then telephony_subscribe (\<lambda>_. app_launch_request))) s
     else (Inr (), s))"

definition frame_turn :: "'m SessionEnv \<Rightarrow> CsmFrame \<Rightarrow> ('m, unit) session_op" where
  "frame_turn env frame =
    and_then (handle_csm env frame) (\<lambda>reason s.
      keep_subscribed (case reason of None \<Rightarrow> s | Some ev \<Rightarrow> emit_event ev (disconnect_link s)))"

text \<open>The inner loop. No flow touches the buffer, so every turn of it has less to read.\<close>

lemma handle_csm_buf [simp]: "se_control_buf (snd (handle_csm env f s)) = se_control_buf s"
  by (auto simp: handle_csm_def Let_def split: prod.splits option.splits)

lemma keep_subscribed_buf [simp]: "se_control_buf (snd (keep_subscribed s)) = se_control_buf s"
  by (auto simp: keep_subscribed_def and_then_def np_subscribe_def hid_start_def telephony_subscribe_def
      app_launch_request_def split: prod.splits sum.splits option.splits bool.splits)

lemma frame_turn_buf: "frame_turn env f s = (r, s') \<Longrightarrow> se_control_buf s' = se_control_buf s"
proof -
  assume t: "frame_turn env f s = (r, s')"
  obtain r1 s1 where h: "handle_csm env f s = (r1, s1)" by (meson surj_pair)
  have b: "se_control_buf s1 = se_control_buf s" using handle_csm_buf [of env f s] h by simp
  have k: "se_control_buf (snd (keep_subscribed (case reason of None \<Rightarrow> s1 | Some ev \<Rightarrow> emit_event ev (disconnect_link s1)))) =
      se_control_buf s" for reason
    using b by (cases reason) (simp_all add: emit_event_def disconnect_link_def)
  show ?thesis
  proof (cases r1)
    case (Inl e)
    with t h b show ?thesis by (simp add: frame_turn_def and_then_def)
  next
    case (Inr reason)
    with t h have "keep_subscribed (case reason of None \<Rightarrow> s1 | Some ev \<Rightarrow> emit_event ev (disconnect_link s1)) = (r, s')"
      by (simp add: frame_turn_def and_then_def)
    with k [of reason] show ?thesis by simp
  qed
qed

lemma csm_decode_shorter:
  "csm_decode buf = (Inr (Some f), rest) \<Longrightarrow> length rest < length buf"
  by (auto simp: csm_decode_def Let_def CSM_OUTER_HEADER_LEN_def split: if_splits sum.splits)

function session_drain :: "'m SessionEnv \<Rightarrow> 'm Session \<Rightarrow> (Iap2Error + unit) \<times> 'm Session" where
  "session_drain env s =
    (case csm_decode (se_control_buf s) of
       (Inl e, rest) \<Rightarrow> (Inl (CsmDecode e), s\<lparr>se_control_buf := rest\<rparr>)
     | (Inr None, rest) \<Rightarrow> (Inr (), s\<lparr>se_control_buf := rest\<rparr>)
     | (Inr (Some frame), rest) \<Rightarrow>
         (case frame_turn env frame (s\<lparr>se_control_buf := rest\<rparr>) of
            (Inl e, s') \<Rightarrow> (Inl e, s')
          | (Inr _, s') \<Rightarrow> session_drain env s'))"
  by pat_completeness auto
termination
  by (relation "measure (\<lambda>(env, s). length (se_control_buf s))")
    (auto dest!: csm_decode_shorter [OF sym] frame_turn_buf [OF sym])

declare session_drain.simps [simp del]

section \<open>Turns\<close>

definition reconcile_authority :: "('m, unit) session_op" where
  "reconcile_authority s =
    (if se_authority s = se_authority_last s then (Inr (), s)
     else case np_reconcile_companion (se_authority s) (se_now_playing s) (se_io s) of
       (Inl e, np, io) \<Rightarrow> (Inl e, s\<lparr>se_now_playing := np, se_io := io\<rparr>)
     | (Inr _, np, io) \<Rightarrow> (Inr (), s\<lparr>se_now_playing := np, se_io := io, se_authority_last := se_authority s\<rparr>))"

text \<open>What a turn waits for; \<open>FromLink None\<close> is the end of the link's events. A closed command channel is
  no input. The new values of the two watches are inputs of their own.\<close>

datatype SessionInput =
    FromLink "Iap2Event option"
  | HidInput HidCommand
  | NowPlayingInput NowPlayingCommand
  | TelephonyInput TelephonyCommand
  | LaunchInput bytes
  | ShutdownInput
  | AuthorityInput NowPlayingAuthorityState
  | RelaunchInput bool
  | TimerInput

datatype SessionOutcome = Running | Finished | Failed Iap2Error | Panicked

definition accepted_protocol :: "'m Session \<Rightarrow> u8 option" where
  "accepted_protocol s =
    (case se_app_launch s of
       None \<Rightarrow> None
     | Some (bundle, _) \<Rightarrow> map_option eap_id
         (find (\<lambda>p. eap_name p = bundle) (idc_supported_external_accessory_protocols (se_identification s))))"

definition link_established :: "Lsp \<Rightarrow> 'm Session \<Rightarrow> 'm Session" where
  "link_established lsp s =
    emit_event (LinkEstablished lsp)
      (if se_ea s = None then s\<lparr>se_ea := Some (EaFlow_new (lsp_max_len lsp) (accepted_protocol s))\<rparr> else s)"

definition data_received :: "'m SessionEnv \<Rightarrow> u8 \<Rightarrow> bytes \<Rightarrow> 'm Session \<Rightarrow> SessionOutcome \<times> 'm Session" where
  "data_received env session_id payload s =
    (if session_id = CONTROL_SESSION_ID then (Running, s\<lparr>se_control_buf := se_control_buf s @ payload\<rparr>)
     else if session_id = EA_LINK_SESSION_ID then
       (case se_ea s of
          None \<Rightarrow> (Running, s)
        | Some ea \<Rightarrow> (case ea_dispatch_link_data payload ea (se_io s) of
            (ea', io) \<Rightarrow> (Running, s\<lparr>se_ea := Some ea', se_io := io\<rparr>)))
     else if session_id = FILE_TRANSFER_LINK_SESSION_ID then
       (case ft_dispatch payload (se_file_transfer s) (se_io s) of
          (r, ft, io) \<Rightarrow> (if r = None then Panicked else Running, s\<lparr>se_file_transfer := ft, se_io := io\<rparr>))
     else (Running, s))"

definition ea_close_all :: "'m SessionEnv \<Rightarrow> bool \<Rightarrow> 'm Session \<Rightarrow> 'm Session" where
  "ea_close_all env with_link s =
    (case se_ea s of
       None \<Rightarrow> s
     | Some ea \<Rightarrow> (case ea_teardown (sv_hash_order env) with_link ea (se_io s) of
         (ea', io) \<Rightarrow> s\<lparr>se_ea := Some ea', se_io := io\<rparr>))"

definition link_restarting :: "'m SessionEnv \<Rightarrow> LinkReason \<Rightarrow> 'm Session \<Rightarrow> 'm Session" where
  "link_restarting env reason s =
    emit_event (LinkRestarted reason)
      ((ea_close_all env False
         (s\<lparr>se_control_buf := [], se_auth := AuthFlow_new, se_ident := IdentificationFlow_new,
            se_file_transfer := ft_reset (se_file_transfer s), se_now_playing := np_reset (se_now_playing s),
            se_hid := hid_reset (se_hid s), se_telephony := telephony_reset (se_telephony s)\<rparr>))\<lparr>se_ea := None\<rparr>)"

definition link_down :: "LinkReason \<Rightarrow> 'm Session \<Rightarrow> 'm Session" where
  "link_down reason s =
    (case hid_shutdown (se_hid s) (se_io s) of
       (_, hid, io) \<Rightarrow> emit_event (SessionDown (LinkReason reason)) (s\<lparr>se_hid := hid, se_io := io\<rparr>))"

definition select_turn ::
  "'m SessionEnv \<Rightarrow> nat option \<Rightarrow> SessionInput \<Rightarrow> 'm Session \<Rightarrow> SessionOutcome \<times> 'm Session" where
  "select_turn env wakeup input s =
    (case input of
       FromLink (Some (Established lsp)) \<Rightarrow> (Running, link_established lsp s)
     | FromLink (Some (DataReceived i payload)) \<Rightarrow> data_received env i payload s
     | FromLink (Some (LinkRestarting reason)) \<Rightarrow> (Running, link_restarting env reason s)
     | FromLink (Some (LinkDown reason)) \<Rightarrow> (Finished, link_down reason s)
     | FromLink None \<Rightarrow> (Finished, emit_event (SessionDown LinkTaskExited) s)
     | HidInput cmd \<Rightarrow> (Running, s\<lparr>se_io := snd (hid_command cmd (se_hid s) (se_io s))\<rparr>)
     | NowPlayingInput cmd \<Rightarrow> (Running, s\<lparr>se_io := snd (np_handle_command cmd (se_now_playing s) (se_io s))\<rparr>)
     | TelephonyInput cmd \<Rightarrow> (Running, s\<lparr>se_io := snd (telephony_command cmd (se_telephony s) (se_io s))\<rparr>)
     | LaunchInput bundle \<Rightarrow>
         (case se_ea s of
            None \<Rightarrow> (Running, s)
          | Some ea \<Rightarrow> (case request_app_launch bundle ea (se_io s) of
              (_, ea', io) \<Rightarrow> (Running, s\<lparr>se_ea := Some ea', se_io := io\<rparr>)))
     | ShutdownInput \<Rightarrow> (Finished, ea_close_all env True s)
     | AuthorityInput authority \<Rightarrow> (Running, s\<lparr>se_authority := authority\<rparr>)
     | RelaunchInput relaunch \<Rightarrow>
         (Running, s\<lparr>se_app_launch := map_option (\<lambda>(bundle, _). (bundle, relaunch)) (se_app_launch s)\<rparr>)
     | TimerInput \<Rightarrow>
         (case wakeup of
            None \<Rightarrow> (Running, s)
          | Some at \<Rightarrow>
              (case np_reconcile_companion (se_authority_last s) (se_now_playing s)
                 (sleep (at - io_now (se_io s)) (se_io s)) of
                 (Inl e, np, io) \<Rightarrow> (Failed e, s\<lparr>se_now_playing := np, se_io := io\<rparr>)
               | (Inr _, np, io) \<Rightarrow> (Running, s\<lparr>se_now_playing := np, se_io := io\<rparr>))))"

text \<open>A turn whose input arrives after \<open>d\<close>.\<close>

definition session_turn :: "'m SessionEnv \<Rightarrow> nat \<Rightarrow> SessionInput \<Rightarrow> 'm Session \<Rightarrow> SessionOutcome \<times> 'm Session" where
  "session_turn env d input s =
    (case and_then (session_drain env) (\<lambda>_. reconcile_authority) s of
       (Inl e, s') \<Rightarrow> (Failed e, s')
     | (Inr _, s') \<Rightarrow>
         select_turn env (np_next_wakeup (se_now_playing s') (io_now (se_io s'))) input
           (s'\<lparr>se_io := sleep d (se_io s')\<rparr>))"

fun run_inner :: "'m SessionEnv \<Rightarrow> (nat \<times> SessionInput) list \<Rightarrow> 'm Session \<Rightarrow> SessionOutcome \<times> 'm Session" where
  "run_inner env [] s = (Running, s)"
| "run_inner env ((d, input) # inputs) s =
    (case session_turn env d input s of
       (Running, s') \<Rightarrow> run_inner env inputs s'
     | (outcome, s') \<Rightarrow> (outcome, s'))"

definition session_run :: "'m SessionEnv \<Rightarrow> (nat \<times> SessionInput) list \<Rightarrow> 'm Session \<Rightarrow> SessionOutcome \<times> 'm Session" where
  "session_run env inputs s =
    (case run_inner env inputs s of
       (Failed err, s') \<Rightarrow> (Failed err, emit_event (SessionDown (SessionError err)) (disconnect_link s'))
     | (outcome, s') \<Rightarrow> (outcome, s'))"

end
