(* ===== verification/Session_Run_Facts.thy ===== *)
theory Session_Run_Facts
  imports Session_Run
begin

text \<open>Lemmas and properties of the session: what each flow can send and report, how the streams it has
  open follow from its events, what it sends before the device has accepted the identification, and how
  it ends.\<close>

section \<open>What an operation adds to the channels\<close>

definition io_extends ::
  "(Iap2Command \<Rightarrow> bool) \<Rightarrow> (SessionEvent \<Rightarrow> bool) \<Rightarrow> SessionIo \<Rightarrow> SessionIo \<Rightarrow> bool" where
  "io_extends P Q io io' \<longleftrightarrow>
     (\<exists>cs. sent io' = sent io @ cs \<and> list_all P cs) \<and> (\<exists>evs. emitted io' = emitted io @ evs \<and> list_all Q evs) \<and>
     link_open io' = link_open io \<and> events_open io' = events_open io"

named_theorems extends \<open>what the operations of the flows add to the channels\<close>

lemma io_extends_refl [extends]: "io_extends P Q io io"
  by (simp add: io_extends_def)

lemma io_extends_trans: "io_extends P Q a b \<Longrightarrow> io_extends P Q b c \<Longrightarrow> io_extends P Q a c"
  by (fastforce simp: io_extends_def)

lemma io_extends_mono:
  "io_extends P Q a b \<Longrightarrow> (\<And>c. P c \<Longrightarrow> P' c) \<Longrightarrow> (\<And>e. Q e \<Longrightarrow> Q' e) \<Longrightarrow> io_extends P' Q' a b"
  by (auto simp: io_extends_def list_all_iff)

lemma io_extends_sleep [extends]: "io_extends P Q a b \<Longrightarrow> io_extends P Q a (sleep d b)"
  "io_extends P Q (sleep d a) b = io_extends P Q a b"
  by (auto simp: io_extends_def)

lemma chan_send_extends:
  "chan_send x c = (ok, c') \<Longrightarrow> (ch_sent c' = ch_sent c \<or> ch_sent c' = ch_sent c @ [x]) \<and>
     (ch_budget c' = None \<longleftrightarrow> ch_budget c = None)"
  by (auto simp: chan_send_def split: option.splits nat.splits)

lemma io_extends_link_send [extends]: "link_send cmd io = (r, io') \<Longrightarrow> P cmd \<Longrightarrow> io_extends P Q io io'"
  by (drule link_send_cases) (auto simp: io_extends_def events_open_def)

lemma io_extends_send_csm: "send_csm f io = (r, io') \<Longrightarrow> P (Send CONTROL_SESSION_ID (csm_encode f)) \<Longrightarrow> io_extends P Q io io'"
  by (simp add: send_csm_def io_extends_link_send)

lemma io_extends_emit: "io_extends P Q a b \<Longrightarrow> Q ev \<Longrightarrow> io_extends P Q a (session_emit ev b)"
  using chan_send_extends [of ev "io_events b"]
  by (cases "chan_send ev (io_events b)") (auto simp: io_extends_def session_emit_def events_open_def link_open_def)

text \<open>A control-session frame with one of the given numbers.\<close>

definition control_frame :: "u16 set \<Rightarrow> Iap2Command \<Rightarrow> bool" where
  "control_frame ids cmd \<longleftrightarrow> (\<exists>f. cmd = Send CONTROL_SESSION_ID (csm_encode f) \<and> cf_msg_id f \<in> ids)"

lemma send_csm_frame [extends]: "send_csm f io = (r, io') \<Longrightarrow> cf_msg_id f \<in> ids \<Longrightarrow> io_extends (control_frame ids) Q io io'"
  by (rule io_extends_send_csm) (auto simp: control_frame_def)

lemma control_frame_mono: "control_frame ids cmd \<Longrightarrow> ids \<subseteq> ids' \<Longrightarrow> control_frame ids' cmd"
  by (auto simp: control_frame_def)

section \<open>The flows\<close>

lemma auth_handle_extends:
  "auth_handle mfi f st m io = (r, st', m', io') \<Longrightarrow>
   io_extends (control_frame {AuthenticationCertificate_MSG_ID, AuthenticationResponse_MSG_ID}) ((=) Authenticated) io io'"
  by (auto simp: auth_handle_def Let_def AuthenticationCertificate_msg.frame_has_id AuthenticationResponse_msg.frame_has_id
      intro!: extends io_extends_emit elim!: send_csm_frame split: if_splits sum.splits prod.splits)

lemma ident_handle_extends:
  "ident_handle f cfg st io = (r, st', io') \<Longrightarrow>
   io_extends (control_frame {IdentificationInformation_MSG_ID}) ((=) Identified) io io' \<and>
   (st' = Accepted \<longrightarrow> st = Accepted \<or> io' = session_emit Identified io)"
  by (auto simp: ident_handle_def Let_def IdentificationInformation_to_frame_def
      intro!: extends io_extends_emit elim!: send_csm_frame split: if_splits sum.splits prod.splits)

definition is_now_playing :: "SessionEvent \<Rightarrow> bool" where
  "is_now_playing ev \<longleftrightarrow> (\<exists>u. ev = NowPlaying u)"

lemma np_reconcile_extends:
  "np_reconcile delta au fl io = (r, fl', io') \<Longrightarrow>
   io_extends (control_frame {StartNowPlayingUpdates_MSG_ID}) Q io io' \<and> np_state fl' = np_state fl"
  by (auto simp: np_reconcile_def Let_def send_subscription_def StartNowPlayingUpdates_to_frame_def np_note_bundle_def
      intro!: extends elim!: send_csm_frame split: if_splits sum.splits prod.splits option.splits)

lemma np_reconcile_companion_extends:
  "np_reconcile_companion au fl io = (r, fl', io') \<Longrightarrow>
   io_extends (control_frame {StartNowPlayingUpdates_MSG_ID}) Q io io' \<and> np_state fl' = np_state fl"
  by (auto simp: np_reconcile_companion_def intro: extends dest: np_reconcile_extends split: if_splits)

lemma np_ensure_extends:
  "np_ensure_subscribed fl io = (r, fl', io') \<Longrightarrow> io_extends (control_frame {StartNowPlayingUpdates_MSG_ID}) Q io io'"
  by (auto simp: np_ensure_subscribed_def send_subscription_def StartNowPlayingUpdates_to_frame_def
      intro: extends elim!: send_csm_frame split: if_splits sum.splits prod.splits)

lemma np_command_extends:
  "np_handle_command cmd fl io = (r, io') \<Longrightarrow> io_extends (control_frame {SetNowPlayingInformation_MSG_ID}) Q io io'"
  by (auto simp: np_handle_command_def SetNowPlayingInformation_msg.frame_has_id
      intro: extends elim!: send_csm_frame split: if_splits)

lemma np_handle_extends:
  assumes "np_handle f au fl io = (r, fl', io')"
  shows "io_extends (control_frame {StartNowPlayingUpdates_MSG_ID}) is_now_playing io io' \<and> np_state fl' = np_state fl \<and>
    (events_open io \<longrightarrow> list_ex is_now_playing (drop (length (emitted io)) (emitted io')) \<or> io' = io \<and> fl' = fl)"
proof (cases "cf_msg_id f = NowPlayingUpdate_MSG_ID \<and> (\<exists>u. decoded (NowPlayingUpdate_from_frame f) = Inr u)")
  case False
  then have "io' = io \<and> fl' = fl"
    using assms by (auto simp: np_handle_def split: if_splits sum.splits)
  then show ?thesis by (simp add: extends)
next
  case True
  then obtain u where u: "decoded (NowPlayingUpdate_from_frame f) = Inr u" by blast
  let ?io = "session_emit (NowPlaying u) io"
  obtain r1 fl1 io1 where rec: "np_reconcile (Option.bind (npu_playback u) pb_app_bundle) au fl ?io = (r1, fl1, io1)"
    by (cases "np_reconcile (Option.bind (npu_playback u) pb_app_bundle) au fl ?io") auto
  have io1: "io1 = io'" "fl1 = fl'"
    using assms True u rec by (auto simp: np_handle_def Let_def split: sum.splits)
  have e: "io_extends (control_frame {StartNowPlayingUpdates_MSG_ID}) is_now_playing ?io io'"
    "np_state fl' = np_state fl"
    using np_reconcile_extends [OF rec] io1 by auto
  have "io_extends (control_frame {StartNowPlayingUpdates_MSG_ID}) is_now_playing io ?io"
    by (intro io_extends_emit extends) (simp add: is_now_playing_def)
  moreover have "list_ex is_now_playing (drop (length (emitted io)) (emitted io'))" if o: "events_open io"
  proof -
    obtain evs where "emitted io' = emitted io @ NowPlaying u # evs"
      using e(1) emitted_emit [OF o] by (auto simp: io_extends_def)
    then show ?thesis by (simp add: is_now_playing_def)
  qed
  ultimately show ?thesis using e io_extends_trans by blast
qed

definition is_stream_event :: "SessionEvent \<Rightarrow> bool" where
  "is_stream_event ev \<longleftrightarrow> (\<exists>i p. ev = EaStreamOpened i p) \<or> (\<exists>i. ev = EaStreamClosed i)"

abbreviation ea_ids :: "u16 set" where
  "ea_ids \<equiv> {StatusExternalAccessoryProtocolSession_MSG_ID, RequestAppLaunch_MSG_ID}"

lemma ea_status_id [simp]: "cf_msg_id (ea_status i st) = StatusExternalAccessoryProtocolSession_MSG_ID"
  by (simp add: ea_status_def StatusExternalAccessoryProtocolSession_msg.frame_has_id)

lemma close_stream_extends: "close_stream i fl io = (fl', io') \<Longrightarrow> io_extends P is_stream_event io io'"
  by (auto simp: close_stream_def Let_def is_stream_event_def intro!: io_extends_emit io_extends_refl)

lemma handle_start_extends:
  "handle_start start life fl io = (r, fl', io') \<Longrightarrow> io_extends (control_frame ea_ids) is_stream_event io io'"
  by (auto simp: handle_start_def Let_def is_stream_event_def
      intro!: io_extends_emit elim!: send_csm_frame split: if_splits sum.splits prod.splits)

lemma ea_handle_extends:
  "ea_handle f life fl io = (r, fl', io') \<Longrightarrow> io_extends (control_frame ea_ids) is_stream_event io io'"
  by (auto simp: ea_handle_def handle_stop_def intro: extends handle_start_extends close_stream_extends
      split: if_splits sum.splits prod.splits)

lemma ea_launch_extends:
  "ensure_app_launch_requested b fl io = (r, fl', io') \<Longrightarrow> io_extends (control_frame ea_ids) Q io io'"
  "request_app_launch b fl io = (r, fl', io') \<Longrightarrow> io_extends (control_frame ea_ids) Q io io'"
  by (auto simp: ensure_app_launch_requested_def request_app_launch_def send_app_launch_def Let_def
      RequestAppLaunch_msg.frame_has_id intro: extends elim!: send_csm_frame split: if_splits sum.splits prod.splits)

lemma ea_dispatch_extends:
  "ea_dispatch_link_data p fl io = (fl', io') \<Longrightarrow> io_extends P is_stream_event io io'"
  by (auto simp: ea_dispatch_link_data_def intro: extends close_stream_extends
      split: option.splits prod.splits bool.splits)

lemma teardown_streams_extends: "io_extends (control_frame ea_ids) is_stream_event io (teardown_streams w ids io)"
proof (induction ids arbitrary: io)
  case (Cons i ids)
  define io1 where "io1 = (if w then snd (send_csm (ea_status i EaClose) io) else io)"
  have "io_extends (control_frame ea_ids) is_stream_event io io1"
    by (cases "send_csm (ea_status i EaClose) io") (auto simp: io1_def intro: extends elim!: send_csm_frame)
  then have "io_extends (control_frame ea_ids) is_stream_event io (session_emit (EaStreamClosed i) io1)"
    by (rule io_extends_emit) (simp add: is_stream_event_def)
  with Cons.IH show ?case by (simp add: io1_def [symmetric] Let_def) (rule io_extends_trans)
qed (simp add: extends)

lemma ea_teardown_extends:
  "ea_teardown ord w fl io = (fl', io') \<Longrightarrow> io_extends (control_frame ea_ids) is_stream_event io io'"
  using teardown_streams_extends by (auto simp: ea_teardown_def)

abbreviation telephony_ids :: "u16 set" where
  "telephony_ids \<equiv> set telephony_SENT_BY_ACCESSORY"

definition is_phone_event :: "SessionEvent \<Rightarrow> bool" where
  "is_phone_event ev \<longleftrightarrow> (case ev of CallState _ \<Rightarrow> True | Communications _ \<Rightarrow> True | DeviceName _ \<Rightarrow> True
     | DeviceLanguage _ \<Rightarrow> True | DeviceTime _ \<Rightarrow> True | DeviceUuid _ \<Rightarrow> True | _ \<Rightarrow> False)"

lemma notifications_extend:
  "telephony_handle f io = (r, io') \<Longrightarrow> io_extends P is_phone_event io io'"
  "device_handle f io = (r, io') \<Longrightarrow> io_extends P is_phone_event io io'"
  by (auto simp: telephony_handle_def device_handle_def emit_decoded_def Let_def is_phone_event_def
      intro!: extends io_extends_emit split: if_splits sum.splits)

lemma telephony_ensure_extends:
  "telephony_ensure_subscribed st io = (r, st', io') \<Longrightarrow>
   io_extends (control_frame {StartCallStateUpdates_MSG_ID, StartCommunicationsUpdates_MSG_ID}) Q io io'"
  by (auto simp: telephony_ensure_subscribed_def StartCallStateUpdates_to_frame_def
      StartCommunicationsUpdates_to_frame_def intro: extends
      dest!: send_csm_frame [where ids = "{StartCallStateUpdates_MSG_ID, StartCommunicationsUpdates_MSG_ID}"]
      elim!: io_extends_trans split: if_splits sum.splits prod.splits)

lemma hid_extends:
  "hid_ensure_started st io = (r, st', io') \<Longrightarrow> io_extends (control_frame {StartHID_MSG_ID}) Q io io'"
  "hid_shutdown st io = (r, st', io') \<Longrightarrow> io_extends (control_frame {StopHID_MSG_ID}) Q io io'"
  by (auto simp: hid_ensure_started_def hid_shutdown_def StartHID_msg.frame_has_id StopHID_msg.frame_has_id
      intro: extends elim!: send_csm_frame split: if_splits sum.splits prod.splits)

lemma telephony_command_extends:
  "telephony_command cmd st io = (r, io') \<Longrightarrow> io_extends (control_frame telephony_ids) Q io io'"
  by (cases cmd) (auto simp: telephony_command_def telephony_SENT_BY_ACCESSORY_def InitiateCall_msg.frame_has_id
      AcceptCall_msg.frame_has_id EndCall_msg.frame_has_id SwapCalls_msg.frame_has_id MergeCalls_msg.frame_has_id
      HoldStatusUpdate_msg.frame_has_id MuteStatusUpdate_msg.frame_has_id SendDtmf_msg.frame_has_id
      intro: io_extends_refl elim!: send_csm_frame split: if_splits)

lemma send_pulse_extends: "io_extends (control_frame {AccessoryHIDReport_MSG_ID}) Q io (snd (send_pulse bits io))"
proof -
  let ?P = "control_frame {AccessoryHIDReport_MSG_ID}"
  obtain r1 io1 where a: "send_csm (AccessoryHIDReport_to_frame (transport_report bits)) io = (r1, io1)"
    by (meson surj_pair)
  obtain r2 io2 where b: "send_csm (AccessoryHIDReport_to_frame (transport_report 0)) (sleep TAP_RELEASE_DELAY io1) = (r2, io2)"
    by (meson surj_pair)
  have 1: "io_extends ?P Q io io1"
    by (rule send_csm_frame [OF a]) (simp add: AccessoryHIDReport_msg.frame_has_id)
  have 2: "io_extends ?P Q io1 io2"
    using send_csm_frame [OF b, of "{AccessoryHIDReport_MSG_ID}" Q]
    by (simp add: AccessoryHIDReport_msg.frame_has_id extends)
  show ?thesis using a b 1 io_extends_trans [OF 1 2] by (auto simp: send_pulse_def split: sum.splits)
qed

lemma send_pulses_extends: "io_extends (control_frame {AccessoryHIDReport_MSG_ID}) Q io (snd (send_pulses n bits io))"
proof (induction n arbitrary: io)
  case (Suc n)
  obtain r io1 where p: "send_pulse bits io = (r, io1)" by (meson surj_pair)
  define io2 where "io2 = (if 0 < n then sleep INTER_TAP_DELAY io1 else io1)"
  have 1: "io_extends (control_frame {AccessoryHIDReport_MSG_ID}) Q io io2"
    using send_pulse_extends [of Q io bits] p by (simp add: io2_def extends)
  show ?case
  proof (cases r)
    case (Inl e)
    with p send_pulse_extends [of Q io bits] show ?thesis by simp
  next
    case (Inr u)
    with p have "send_pulses (Suc n) bits io = send_pulses n bits io2" by (simp add: io2_def)
    with io_extends_trans [OF 1 Suc.IH] show ?thesis by simp
  qed
qed (simp add: io_extends_refl)

lemma hid_command_extends: "io_extends (control_frame {AccessoryHIDReport_MSG_ID}) Q io (snd (hid_command cmd st io))"
  by (cases cmd) (simp_all add: hid_command_def io_extends_refl send_pulse_extends send_pulses_extends)

text \<open>The file transfer only answers on its own link session.\<close>

definition file_transfer_send :: "Iap2Command \<Rightarrow> bool" where
  "file_transfer_send cmd \<longleftrightarrow> (\<exists>p. cmd = Send FILE_TRANSFER_LINK_SESSION_ID p)"

definition is_file_event :: "SessionEvent \<Rightarrow> bool" where
  "is_file_event ev \<longleftrightarrow> (\<exists>i b. ev = ArtworkBytes i b) \<or> (\<exists>i b. ev = QueueSnapshotBytes i b)"

lemma send_op_extends: "send_op i op io = (r, io') \<Longrightarrow> io_extends file_transfer_send Q io io'"
  unfolding send_op_def by (erule io_extends_link_send) (simp add: file_transfer_send_def)

lemma ft_complete_extends:
  "ft_complete i ft io = (r, ft', io') \<Longrightarrow> io_extends file_transfer_send is_file_event io io'"
  by (auto simp: ft_complete_def Let_def is_file_event_def intro!: io_extends_emit intro: io_extends_refl
      split: option.splits sum.splits prod.splits if_splits dest: send_op_extends)

lemma ft_dispatch_extends:
  "ft_dispatch p ft io = (r, ft', io') \<Longrightarrow> io_extends file_transfer_send is_file_event io io'"
  by (auto simp: ft_dispatch_def handle_setup_def handle_first_and_only_def handle_chunk_def Let_def
      intro: io_extends_refl ft_complete_extends send_op_extends
      split: if_splits option.splits prod.splits sum.splits)

section \<open>The session's steps\<close>

lemma handle_csm_cases:
  assumes "handle_csm env f s = (r, s')"
  obtains
    (auth) auth m io where "s' = s\<lparr>se_auth := auth, se_mfi := m, se_io := io\<rparr>"
      "io_extends (control_frame {AuthenticationCertificate_MSG_ID, AuthenticationResponse_MSG_ID}) ((=) Authenticated) (se_io s) io"
  | (ident) ident io where "s' = s\<lparr>se_ident := ident, se_io := io\<rparr>"
      "io_extends (control_frame {IdentificationInformation_MSG_ID}) ((=) Identified) (se_io s) io"
      "ident = Accepted \<longrightarrow> se_ident s = Accepted \<or> io = session_emit Identified (se_io s)"
  | (playing) np io where "s' = s\<lparr>se_now_playing := np, se_io := io\<rparr>" "np_state np = np_state (se_now_playing s)"
      "io_extends (control_frame {StartNowPlayingUpdates_MSG_ID}) is_now_playing (se_io s) io"
      "events_open (se_io s) \<longrightarrow> list_ex is_now_playing (drop (length (emitted (se_io s))) (emitted io)) \<or> io = se_io s \<and> np = se_now_playing s"
  | (streams) ea ea' io where "s' = s\<lparr>se_ea := Some ea', se_io := io\<rparr>" "se_ea s = Some ea"
      "ea_handle f (sv_stream_life env) ea (se_io s) = (r, ea', io)"
  | (others) io where "s' = s\<lparr>se_io := io\<rparr>" "io_extends (\<lambda>_. False) is_phone_event (se_io s) io"
proof -
  consider "auth_handles (cf_msg_id f)" | "\<not> auth_handles (cf_msg_id f)" "ident_handles (cf_msg_id f)"
    | "\<not> auth_handles (cf_msg_id f)" "\<not> ident_handles (cf_msg_id f)" "np_handles (cf_msg_id f)"
    | "\<not> auth_handles (cf_msg_id f)" "\<not> ident_handles (cf_msg_id f)" "\<not> np_handles (cf_msg_id f)"
    by blast
  then show ?thesis
  proof cases
    case 1
    with assms show ?thesis
      using auth [of _ _ _] auth_handle_extends by (fastforce simp: handle_csm_def split: prod.splits)
  next
    case 2
    with assms show ?thesis
      using ident ident_handle_extends by (fastforce simp: handle_csm_def split: prod.splits)
  next
    case 3
    with assms obtain np io where "np_handle f (se_authority s) (se_now_playing s) (se_io s) = (r, np, io)"
      "s' = s\<lparr>se_now_playing := np, se_io := io\<rparr>"
      by (auto simp: handle_csm_def split: prod.splits)
    with np_handle_extends [OF this(1)] show ?thesis using playing by blast
  next
    case 4
    have "s' = s\<lparr>se_io := se_io s\<rparr>" if "s' = s" using that by simp
    with 4 assms show ?thesis
      using streams others [of "se_io s"] io_extends_refl others notifications_extend
      by (fastforce simp: handle_csm_def Let_def split: if_splits option.splits prod.splits)
  qed
qed

end
