(* ===== verification/Session_Behaviour.thy ===== *)
theory Session_Behaviour
  imports Session_Run_Facts
begin

text \<open>The properties of the session as a whole: it sends only what it has declared; before the
  device has accepted the identification, and as long as no now-playing update comes, nothing of what clients ask for; its events agree with the streams it has open, and it
  reports how it ends.\<close>

section \<open>What a session sends\<close>

text \<open>What the accessory may send: the messages that its identification lists, and those of authentication and
  identification themselves, which are not listed.\<close>

definition handshake_ids :: "u16 set" where
  "handshake_ids = {AuthenticationCertificate_MSG_ID, AuthenticationResponse_MSG_ID, IdentificationInformation_MSG_ID}"

definition declared_send :: "IdentificationConfig \<Rightarrow> Iap2Command \<Rightarrow> bool" where
  "declared_send cfg cmd \<longleftrightarrow> cmd = Disconnect \<or> file_transfer_send cmd \<or>
     control_frame (set (sent_messages cfg) \<union> handshake_ids) cmd"

definition is_down :: "SessionEvent \<Rightarrow> bool" where
  "is_down ev \<longleftrightarrow> (\<exists>r. ev = SessionDown r)"

lemma declared_ids:
  assumes "control_frame ids cmd"
    and "ids \<subseteq> set (now_playing_SENT_BY_ACCESSORY @ ea_SENT_BY_ACCESSORY @ hid_SENT_BY_ACCESSORY @ telephony_SENT_BY_ACCESSORY)
      \<union> handshake_ids"
  shows "declared_send cfg cmd"
  unfolding declared_send_def using assms(2)
  by (intro disjI2 control_frame_mono [OF assms(1)]) (auto simp: sent_messages_def merge_messages_def)

lemmas declared_defs = handshake_ids_def now_playing_SENT_BY_ACCESSORY_def ea_SENT_BY_ACCESSORY_def
  hid_SENT_BY_ACCESSORY_def telephony_SENT_BY_ACCESSORY_def

lemma io_extends_declared:
  assumes "io_extends (control_frame ids) Q io io'" "\<And>ev. Q ev \<Longrightarrow> \<not> is_down ev"
    and "ids \<subseteq> set (now_playing_SENT_BY_ACCESSORY @ ea_SENT_BY_ACCESSORY @ hid_SENT_BY_ACCESSORY @ telephony_SENT_BY_ACCESSORY)
      \<union> handshake_ids"
  shows "io_extends (declared_send cfg) (Not \<circ> is_down) io io'"
  by (rule io_extends_mono [OF assms(1)]) (use assms(2) declared_ids [OF _ assms(3)] in auto)

text \<open>A step of a running session: it only adds declared commands and no \<open>SessionDown\<close>, and keeps the
  configuration.\<close>

definition session_grows :: "'m Session \<Rightarrow> 'm Session \<Rightarrow> bool" where
  "session_grows s s' \<longleftrightarrow> se_identification s' = se_identification s \<and>
     io_extends (declared_send (se_identification s)) (Not \<circ> is_down) (se_io s) (se_io s')"

lemma session_grows_refl: "session_grows s s"
  by (simp add: session_grows_def io_extends_refl)

lemma session_grows_trans: "session_grows a b \<Longrightarrow> session_grows b c \<Longrightarrow> session_grows a c"
  by (auto simp: session_grows_def elim: io_extends_trans)

lemma session_growsI:
  "io_extends (control_frame ids) Q (se_io s) (se_io s') \<Longrightarrow> se_identification s' = se_identification s \<Longrightarrow>
   (\<And>ev. Q ev \<Longrightarrow> \<not> is_down ev) \<Longrightarrow>
   ids \<subseteq> set (now_playing_SENT_BY_ACCESSORY @ ea_SENT_BY_ACCESSORY @ hid_SENT_BY_ACCESSORY @ telephony_SENT_BY_ACCESSORY)
     \<union> handshake_ids \<Longrightarrow> session_grows s s'"
  by (simp add: session_grows_def io_extends_declared)

lemma session_grows_io:
  assumes "io_extends (control_frame ids) Q (se_io s) io" "se_io s' = io" "se_identification s' = se_identification s"
    and "\<And>ev. Q ev \<Longrightarrow> \<not> is_down ev"
    and "ids \<subseteq> set (now_playing_SENT_BY_ACCESSORY @ ea_SENT_BY_ACCESSORY @ hid_SENT_BY_ACCESSORY @ telephony_SENT_BY_ACCESSORY)
      \<union> handshake_ids"
  shows "session_grows s s'"
  using session_growsI [of ids Q s s'] assms by simp

lemma stream_event_not_down: "is_stream_event ev \<Longrightarrow> \<not> is_down ev"
  by (auto simp: is_stream_event_def is_down_def)

lemma handle_csm_grows:
  assumes "handle_csm env f s = (r, s')"
  shows "session_grows s s'"
  using assms
proof (cases rule: handle_csm_cases)
  case (auth auth m io)
  then show ?thesis
    by (intro session_growsI [where Q = "(=) Authenticated" and
        ids = "{AuthenticationCertificate_MSG_ID, AuthenticationResponse_MSG_ID}"]) (auto simp: is_down_def declared_defs)
next
  case (ident ident io)
  then show ?thesis by (intro session_growsI [where Q = "(=) Identified" and ids = "{IdentificationInformation_MSG_ID}"]) (auto simp: is_down_def declared_defs)
next
  case (playing np io)
  then show ?thesis by (intro session_growsI [where Q = is_now_playing and ids = "{StartNowPlayingUpdates_MSG_ID}"]) (auto simp: is_down_def is_now_playing_def declared_defs)
next
  case (streams ea ea' io)
  then show ?thesis using ea_handle_extends [OF streams(3)]
    by (intro session_growsI [where Q = is_stream_event and ids = ea_ids]) (auto simp: is_down_def is_stream_event_def declared_defs)
next
  case (others io)
  then have "io_extends (control_frame {}) is_phone_event (se_io s) io"
    by (auto elim: io_extends_mono)
  with others(1) show ?thesis
    by (intro session_growsI [where Q = is_phone_event and ids = "{}"]) (auto simp: is_down_def is_phone_event_def)
qed

lemma and_then_grows:
  assumes "\<And>r s'. f s = (r, s') \<Longrightarrow> session_grows s s'"
    and "\<And>x s1 r s'. f s = (Inr x, s1) \<Longrightarrow> g x s1 = (r, s') \<Longrightarrow> session_grows s1 s'"
    and "and_then f g s = (r, s')"
  shows "session_grows s s'"
proof -
  obtain r1 s1 where f: "f s = (r1, s1)" by (meson surj_pair)
  show ?thesis
  proof (cases r1)
    case (Inl e)
    with assms(3) f assms(1) [OF f] show ?thesis by (simp add: and_then_def)
  next
    case (Inr x)
    with assms(3) f have "g x s1 = (r, s')" by (simp add: and_then_def)
    with session_grows_trans [OF assms(1) [OF f] assms(2)] f Inr show ?thesis by blast
  qed
qed

lemma subscription_steps_grow:
  "np_subscribe s = (r, s') \<Longrightarrow> session_grows s s'" "hid_start s = (r, s') \<Longrightarrow> session_grows s s'"
  "telephony_subscribe s = (r, s') \<Longrightarrow> session_grows s s'" "app_launch_request s = (r, s') \<Longrightarrow> session_grows s s'"
proof -
  show "np_subscribe s = (r, s') \<Longrightarrow> session_grows s s'"
    by (auto simp: np_subscribe_def declared_defs split: prod.splits
        intro!: session_growsI [OF np_ensure_extends [where Q = "\<lambda>_. False"]])
  show "hid_start s = (r, s') \<Longrightarrow> session_grows s s'"
    by (auto simp: hid_start_def declared_defs split: prod.splits
        intro!: session_growsI [OF hid_extends(1) [where Q = "\<lambda>_. False"]])
  show "telephony_subscribe s = (r, s') \<Longrightarrow> session_grows s s'"
    by (auto simp: telephony_subscribe_def declared_defs split: prod.splits
        intro!: session_growsI [OF telephony_ensure_extends [where Q = "\<lambda>_. False"]])
  show "session_grows s s'" if launch: "app_launch_request s = (r, s')"
  proof (cases "s' = s")
    case False
    then obtain ea bid ea' io where "ensure_app_launch_requested bid ea (se_io s) = (r, ea', io)"
      "s' = s\<lparr>se_ea := Some ea', se_io := io\<rparr>"
      using launch by (auto simp: app_launch_request_def split: prod.splits option.splits bool.splits)
    then show ?thesis
      by (auto simp: declared_defs intro!: session_growsI [OF ea_launch_extends(1) [where Q = "\<lambda>_. False"]])
  qed (simp add: session_grows_refl)
qed

lemma keep_subscribed_grows: "keep_subscribed s = (r, s') \<Longrightarrow> session_grows s s'"
  unfolding keep_subscribed_def
  by (auto intro: session_grows_refl subscription_steps_grow elim!: and_then_grows [rotated 2] split: if_splits)

lemma disconnect_grows: "session_grows s (disconnect_link s)"
  by (cases "link_send Disconnect (se_io s)")
    (auto simp: session_grows_def disconnect_link_def declared_send_def intro: io_extends_link_send)

lemma emit_grows: "\<not> is_down ev \<Longrightarrow> session_grows s (emit_event ev s)"
  by (auto simp: session_grows_def emit_event_def intro!: io_extends_emit io_extends_refl)

lemma frame_turn_grows:
  assumes "frame_turn env f s = (r, s')"
  shows "session_grows s s'"
  using assms unfolding frame_turn_def
proof (rule and_then_grows [rotated 2])
  show "session_grows s s1" if "handle_csm env f s = (r1, s1)" for r1 s1
    using handle_csm_grows [OF that] .
  show "session_grows s1 s2"
    if h: "handle_csm env f s = (Inr reason, s1)"
      and k: "keep_subscribed (case reason of None \<Rightarrow> s1 | Some ev \<Rightarrow> emit_event ev (disconnect_link s1)) = (r1, s2)"
    for reason s1 r1 s2
  proof -
    have "\<not> is_down ev" if "reason = Some ev" for ev
      using h that by (auto simp: handle_csm_def Let_def is_down_def auth_handle_def ident_handle_def np_handle_def
          ea_handle_def telephony_handle_def device_handle_def emit_decoded_def hid_handle_def decoded_def
          split: if_splits prod.splits sum.splits option.splits)
    then have "session_grows s1 (case reason of None \<Rightarrow> s1 | Some ev \<Rightarrow> emit_event ev (disconnect_link s1))"
      using session_grows_trans [OF disconnect_grows emit_grows] by (cases reason) (auto intro: session_grows_refl)
    with keep_subscribed_grows [OF k] show ?thesis by (rule session_grows_trans [rotated])
  qed
qed

lemma session_grows_buf [simp]:
  "session_grows (s\<lparr>se_control_buf := b\<rparr>) s' = session_grows s s'"
  "session_grows s (s'\<lparr>se_control_buf := b\<rparr>) = session_grows s s'"
  by (simp_all add: session_grows_def)

lemma session_drain_grows: "session_drain env s = (r, s') \<Longrightarrow> session_grows s s'"
proof (induction env s arbitrary: r s' rule: session_drain.induct)
  case (1 env s)
  show ?case
  proof (cases "\<exists>f rest. csm_decode (se_control_buf s) = (Inr (Some f), rest)")
    case False
    with "1.prems" show ?thesis
      by (subst (asm) session_drain.simps) (auto intro: session_grows_refl split: prod.splits sum.splits option.splits)
  next
    case True
    then obtain f rest where d: "csm_decode (se_control_buf s) = (Inr (Some f), rest)" by blast
    obtain r1 s1 where t: "frame_turn env f (s\<lparr>se_control_buf := rest\<rparr>) = (r1, s1)" by (meson surj_pair)
    have g: "session_grows s s1" using frame_turn_grows [OF t] by simp
    show ?thesis
    proof (cases r1)
      case (Inl e)
      with "1.prems" d t g show ?thesis by (subst (asm) session_drain.simps) simp
    next
      case (Inr u)
      with "1.prems" d t have "session_drain env s1 = (r, s')" by (subst (asm) session_drain.simps) simp
      with "1.IH" [OF d [symmetric] refl refl t [symmetric] Inr] g show ?thesis by (blast intro: session_grows_trans)
    qed
  qed
qed

lemma reconcile_authority_grows: "reconcile_authority s = (r, s') \<Longrightarrow> session_grows s s'"
  by (cases "se_authority s = se_authority_last s")
    (auto simp: reconcile_authority_def declared_defs session_grows_refl split: prod.splits sum.splits
      intro!: session_growsI [OF conjunct1 [OF np_reconcile_companion_extends [where Q = "\<lambda>_. False"]]])

text \<open>The reason a turn gives for the end.\<close>

definition downs :: "SessionEvent list \<Rightarrow> DownReason list" where
  "downs evs = concat (map (\<lambda>ev. case ev of SessionDown r \<Rightarrow> [r] | _ \<Rightarrow> []) evs)"

lemma downs_simps [simp]: "downs [] = []" "downs (a @ b) = downs a @ downs b" "downs [SessionDown r] = [r]"
  by (simp_all add: downs_def)

lemma downs_none: "list_all (Not \<circ> is_down) evs \<Longrightarrow> downs evs = []"
  by (induction evs) (auto simp: downs_def is_down_def split: SessionEvent.splits)

lemma session_grows_downs:
  "session_grows s s' \<Longrightarrow> downs (emitted (se_io s')) = downs (emitted (se_io s))"
  using downs_none by (auto simp: session_grows_def io_extends_def)

fun down_reason :: "SessionInput \<Rightarrow> DownReason option" where
  "down_reason (FromLink (Some (LinkDown reason))) = Some (LinkReason reason)"
| "down_reason (FromLink None) = Some LinkTaskExited"
| "down_reason _ = None"

lemma session_grows_flows [simp]:
  "session_grows s (s'\<lparr>se_now_playing := np\<rparr>) = session_grows s s'"
  "session_grows s (s'\<lparr>se_ea := ea\<rparr>) = session_grows s s'"
  "session_grows s (s'\<lparr>se_auth := au\<rparr>) = session_grows s s'"
  "session_grows s (s'\<lparr>se_ident := ident\<rparr>) = session_grows s s'"
  "session_grows s (s'\<lparr>se_hid := hid\<rparr>) = session_grows s s'"
  "session_grows s (s'\<lparr>se_telephony := tel\<rparr>) = session_grows s s'"
  "session_grows s (s'\<lparr>se_file_transfer := ft\<rparr>) = session_grows s s'"
  "session_grows s (s'\<lparr>se_authority := a\<rparr>) = session_grows s s'"
  "session_grows s (s'\<lparr>se_app_launch := l\<rparr>) = session_grows s s'"
  by (simp_all add: session_grows_def)

lemma session_grows_left [simp]:
  "session_grows (s\<lparr>se_now_playing := np\<rparr>) s' = session_grows s s'"
  "session_grows (s\<lparr>se_ea := ea\<rparr>) s' = session_grows s s'"
  "session_grows (s\<lparr>se_auth := au\<rparr>) s' = session_grows s s'"
  "session_grows (s\<lparr>se_ident := ident\<rparr>) s' = session_grows s s'"
  "session_grows (s\<lparr>se_hid := hid\<rparr>) s' = session_grows s s'"
  "session_grows (s\<lparr>se_telephony := tel\<rparr>) s' = session_grows s s'"
  "session_grows (s\<lparr>se_file_transfer := ft\<rparr>) s' = session_grows s s'"
  "session_grows (s\<lparr>se_io := sleep d (se_io s)\<rparr>) s' = session_grows s s'"
  by (simp_all add: session_grows_def extends)

lemma ea_close_all_grows: "session_grows s (ea_close_all env w s)"
proof (cases "se_ea s")
  case (Some ea)
  obtain ea' io where t: "ea_teardown (sv_hash_order env) w ea (se_io s) = (ea', io)" by (meson surj_pair)
  show ?thesis
    using Some t session_grows_io [OF ea_teardown_extends [OF t] _ _ stream_event_not_down]
    by (simp add: ea_close_all_def declared_defs)
qed (simp add: ea_close_all_def session_grows_refl)

lemma link_restarting_grows: "session_grows s (link_restarting env reason s)"
proof -
  let ?s = "s\<lparr>se_control_buf := [], se_auth := AuthFlow_new, se_ident := IdentificationFlow_new,
      se_file_transfer := ft_reset (se_file_transfer s), se_now_playing := np_reset (se_now_playing s),
      se_hid := hid_reset (se_hid s), se_telephony := telephony_reset (se_telephony s)\<rparr>"
  have "session_grows s ((ea_close_all env False ?s)\<lparr>se_ea := None\<rparr>)"
    using ea_close_all_grows [of ?s env False] by simp
  from session_grows_trans [OF this emit_grows, of "LinkRestarted reason"]
  show ?thesis by (simp add: link_restarting_def is_down_def)
qed

lemma data_received_grows:
  assumes "data_received env i payload s = (out, s')"
  shows "session_grows s s'"
proof -
  have ft: "session_grows s (s\<lparr>se_file_transfer := ft, se_io := io\<rparr>)"
    if "ft_dispatch payload (se_file_transfer s) (se_io s) = (r, ft, io)" for r ft io
    using ft_dispatch_extends [OF that]
    by (auto simp: session_grows_def declared_send_def is_file_event_def is_down_def elim: io_extends_mono)
  have ea: "session_grows s (s\<lparr>se_ea := Some ea', se_io := io\<rparr>)"
    if "ea_dispatch_link_data payload ea (se_io s) = (ea', io)" for ea ea' io
    by (rule session_grows_io [OF ea_dispatch_extends [OF that, of "control_frame {}"] _ _ stream_event_not_down]) simp_all
  show ?thesis
    using assms ft ea
    by (auto simp: data_received_def session_grows_refl split: if_splits option.splits prod.splits)
qed

lemma select_turn_grows:
  assumes "select_turn env wakeup input s = (out, s')"
  shows "\<exists>m. session_grows s m \<and>
    s' = (case down_reason input of None \<Rightarrow> m | Some r \<Rightarrow> emit_event (SessionDown r) m) \<and>
    (out = Finished \<longleftrightarrow> down_reason input \<noteq> None \<or> input = ShutdownInput)"
proof -
  have cmd: "session_grows s (s\<lparr>se_io := io\<rparr>)" if "io_extends (control_frame ids) (\<lambda>_. False) (se_io s) io"
    "ids \<subseteq> set (now_playing_SENT_BY_ACCESSORY @ ea_SENT_BY_ACCESSORY @ hid_SENT_BY_ACCESSORY @ telephony_SENT_BY_ACCESSORY)
      \<union> handshake_ids" for ids io
    by (rule session_grows_io [OF that(1) _ _ _ that(2)]) simp_all
  show ?thesis
  proof (cases input)
    case (FromLink ev)
    show ?thesis
    proof (cases ev)
      case None
      with FromLink assms show ?thesis by (auto simp: select_turn_def intro: session_grows_refl)
    next
      case (Some e)
      show ?thesis
      proof (cases e)
        case (Established lsp)
        then have "s' = link_established lsp s" "out = Running" using FromLink Some assms by (auto simp: select_turn_def)
        moreover have "session_grows s (link_established lsp s)"
          unfolding link_established_def
          by (rule session_grows_trans [OF _ emit_grows]) (simp_all add: session_grows_refl is_down_def)
        ultimately show ?thesis using FromLink Some Established by auto
      next
        case (LinkRestarting r)
        with FromLink Some assms show ?thesis using link_restarting_grows by (auto simp: select_turn_def)
      next
        case (LinkDown r)
        obtain x hid io where h: "hid_shutdown (se_hid s) (se_io s) = (x, hid, io)"
          by (cases "hid_shutdown (se_hid s) (se_io s)") auto
        have "session_grows s (s\<lparr>se_hid := hid, se_io := io\<rparr>)"
          by (rule session_grows_io [OF hid_extends(2) [OF h, of "\<lambda>_. False"]]) (auto simp: declared_defs)
        with h FromLink Some LinkDown assms show ?thesis by (auto simp: select_turn_def link_down_def)
      next
        case (DataReceived i payload)
        have "out \<noteq> Finished"
          using assms FromLink Some DataReceived
          by (auto simp: select_turn_def data_received_def split: if_splits option.splits prod.splits)
        with assms FromLink Some DataReceived show ?thesis
          using data_received_grows by (auto simp: select_turn_def)
      qed
    qed
  next
    case (HidInput c)
    have "session_grows s (s\<lparr>se_io := snd (hid_command c (se_hid s) (se_io s))\<rparr>)"
      by (rule cmd [OF hid_command_extends]) (auto simp: declared_defs)
    with HidInput assms show ?thesis by (auto simp: select_turn_def)
  next
    case (NowPlayingInput c)
    have "session_grows s (s\<lparr>se_io := snd (np_handle_command c (se_now_playing s) (se_io s))\<rparr>)"
      by (rule cmd [OF np_command_extends [OF surjective_pairing]]) (auto simp: declared_defs)
    with NowPlayingInput assms show ?thesis by (auto simp: select_turn_def)
  next
    case (TelephonyInput c)
    have "session_grows s (s\<lparr>se_io := snd (telephony_command c (se_telephony s) (se_io s))\<rparr>)"
      by (rule cmd [OF telephony_command_extends [OF surjective_pairing]]) (auto simp: declared_defs)
    with TelephonyInput assms show ?thesis by (auto simp: select_turn_def)
  next
    case (LaunchInput b)
    have "session_grows s (s\<lparr>se_ea := Some ea', se_io := io\<rparr>)"
      if "request_app_launch b ea (se_io s) = (r, ea', io)" for r ea ea' io
      using cmd [OF ea_launch_extends(2) [OF that]] by (auto simp: declared_defs session_grows_def)
    with LaunchInput assms show ?thesis
      by (auto simp: select_turn_def session_grows_refl split: option.splits prod.splits)
  next
    case ShutdownInput
    with assms show ?thesis using ea_close_all_grows by (auto simp: select_turn_def)
  next
    case (TimerInput)
    have "session_grows s (s\<lparr>se_now_playing := np, se_io := io\<rparr>)"
      if "np_reconcile_companion au fl (sleep d (se_io s)) = (r, np, io)" for r au fl np io d
      using cmd [of "{StartNowPlayingUpdates_MSG_ID}" io] np_reconcile_companion_extends [OF that, of "\<lambda>_. False"]
      by (auto simp: declared_defs session_grows_def extends)
    with TimerInput assms show ?thesis
      by (auto simp: select_turn_def session_grows_refl split: option.splits prod.splits sum.splits)
  qed (use assms in \<open>auto simp: select_turn_def session_grows_refl\<close>)
qed

lemma session_turn_grows:
  assumes "session_turn env d input s = (out, s')"
  shows "\<exists>m. session_grows s m \<and>
    (s' = m \<and> (out = Finished \<longrightarrow> input = ShutdownInput) \<or> (\<exists>r. s' = emit_event (SessionDown r) m \<and> out = Finished))"
proof -
  obtain r1 s1 where t: "and_then (session_drain env) (\<lambda>_. reconcile_authority) s = (r1, s1)" by (meson surj_pair)
  have g: "session_grows s s1"
    by (rule and_then_grows [OF _ _ t]) (auto intro: session_drain_grows reconcile_authority_grows)
  show ?thesis
  proof (cases r1)
    case (Inl e)
    with assms t g show ?thesis by (auto simp: session_turn_def)
  next
    case (Inr u)
    let ?w = "np_next_wakeup (se_now_playing s1) (io_now (se_io s1))" and ?s = "s1\<lparr>se_io := sleep d (se_io s1)\<rparr>"
    have "select_turn env ?w input ?s = (out, s')" using assms t Inr by (simp add: session_turn_def)
    from select_turn_grows [OF this] obtain m where m: "session_grows s1 m"
      "s' = (case down_reason input of None \<Rightarrow> m | Some r \<Rightarrow> emit_event (SessionDown r) m)"
      "out = Finished \<longleftrightarrow> down_reason input \<noteq> None \<or> input = ShutdownInput" by auto
    with session_grows_trans [OF g m(1)] show ?thesis by (auto split: option.splits)
  qed
qed

lemma run_inner_grows:
  "run_inner env inputs s = (out, s') \<Longrightarrow> \<exists>m. session_grows s m \<and>
    (s' = m \<and> (out = Finished \<longrightarrow> ShutdownInput \<in> snd ` set inputs) \<or>
     (\<exists>r. s' = emit_event (SessionDown r) m \<and> out = Finished))"
proof (induction env inputs s rule: run_inner.induct)
  case (2 env d input inputs s)
  obtain o1 s1 where t: "session_turn env d input s = (o1, s1)" by (meson surj_pair)
  show ?case
  proof (cases "o1 = Running")
    case True
    then have run: "run_inner env inputs s1 = (out, s')" using "2.prems" t by simp
    have g: "session_grows s s1" using session_turn_grows [OF t] True by auto
    obtain m where m: "session_grows s1 m" "s' = m \<and> (out = Finished \<longrightarrow> ShutdownInput \<in> snd ` set inputs) \<or>
        (\<exists>r. s' = emit_event (SessionDown r) m \<and> out = Finished)"
      using "2.IH" [OF t [symmetric] True run] by blast
    show ?thesis using session_grows_trans [OF g m(1)] m(2) by (intro exI [of _ m]) auto
  next
    case False
    then have "o1 = out" "s1 = s'" using "2.prems" t by (auto split: SessionOutcome.splits)
    with session_turn_grows [OF t] show ?thesis by auto
  qed
qed (auto intro: session_grows_refl)

lemma sent_disconnect: "link_open (se_io s) \<Longrightarrow> sent (se_io (disconnect_link s)) = sent (se_io s) @ [Disconnect]"
  by (simp add: disconnect_link_def link_send_open)

lemma session_grows_open:
  "session_grows s s' \<Longrightarrow> events_open (se_io s) \<Longrightarrow> events_open (se_io s')"
  "session_grows s s' \<Longrightarrow> link_open (se_io s) \<Longrightarrow> link_open (se_io s')"
  by (auto simp: session_grows_def io_extends_def)

lemma emitted_down:
  "events_open (se_io s) \<Longrightarrow> emitted (se_io (emit_event ev s)) = emitted (se_io s) @ [ev]"
  by (simp add: emit_event_def emitted_emit)

text \<open>C18. Whatever happens, every frame that a session puts on the control session is one that its identification
  declares, or one of the handshake itself; besides there are only the disconnect and the answers on the
  file transfer session.\<close>

theorem session_sends_declared:
  assumes "session_run env inputs (Session_new cfg launch mfi authority io) = (out, s')"
  shows "\<exists>cs. sent (se_io s') = sent io @ cs \<and> list_all (declared_send cfg) cs"
proof -
  let ?s = "Session_new cfg launch mfi authority io"
  obtain o1 s1 where r: "run_inner env inputs ?s = (o1, s1)" by (meson surj_pair)
  obtain m where m: "session_grows ?s m" "s1 = m \<or> (\<exists>r. s1 = emit_event (SessionDown r) m)"
    using run_inner_grows [OF r] by auto
  have base: "\<exists>cs. sent (se_io m) = sent io @ cs \<and> list_all (declared_send cfg) cs"
    using m(1) by (auto simp: session_grows_def io_extends_def Session_new_def)
  have s1: "sent (se_io s1) = sent (se_io m)" using m(2) by (auto simp: emit_event_def)
  show ?thesis
  proof (cases o1)
    case (Failed e)
    then have "sent (se_io s') = sent (se_io (disconnect_link s1))" using assms r by (auto simp: session_run_def emit_event_def)
    moreover have "sent (se_io (disconnect_link s1)) \<in> {sent (se_io s1), sent (se_io s1) @ [Disconnect]}"
      using link_send_cases [of Disconnect "se_io s1"] by (auto simp: disconnect_link_def split: prod.splits)
        (metis (no_types, lifting) prod.collapse)
    ultimately show ?thesis using base s1 by (auto simp: declared_send_def)
  qed (use assms r base s1 in \<open>auto simp: session_run_def\<close>)
qed

text \<open>C17. A session never ends silently, a panic aside: an error is followed by a disconnect and reported as the
  reason of the one \<open>SessionDown\<close>, and the end of the link is reported once, last of all. While it runs
  nothing is reported.\<close>

theorem session_end_reported:
  assumes "events_open (se_io s)" "link_open (se_io s)" "ShutdownInput \<notin> snd ` set inputs"
    and "session_run env inputs s = (out, s')"
  shows "\<exists>evs. downs evs = [] \<and>
    (case out of
       Running \<Rightarrow> emitted (se_io s') = emitted (se_io s) @ evs
     | Panicked \<Rightarrow> emitted (se_io s') = emitted (se_io s) @ evs
     | Finished \<Rightarrow> (\<exists>r. emitted (se_io s') = emitted (se_io s) @ evs @ [SessionDown r])
     | Failed e \<Rightarrow> emitted (se_io s') = emitted (se_io s) @ evs @ [SessionDown (SessionError e)] \<and>
         sent (se_io s') \<noteq> [] \<and> List.last (sent (se_io s')) = Disconnect)"
proof -
  obtain o1 s1 where r: "run_inner env inputs s = (o1, s1)" by (meson surj_pair)
  obtain m where m: "session_grows s m" "s1 = m \<and> o1 \<noteq> Finished \<or> (\<exists>r. s1 = emit_event (SessionDown r) m \<and> o1 = Finished)"
    using run_inner_grows [OF r] assms(3) by blast
  obtain evs where evs: "emitted (se_io m) = emitted (se_io s) @ evs" "downs evs = []"
    using m(1) downs_none by (auto simp: session_grows_def io_extends_def)
  note op = session_grows_open [OF m(1)]
  show ?thesis
  proof (cases o1)
    case (Failed e)
    then have "s1 = m" "out = Failed e" "s' = emit_event (SessionDown (SessionError e)) (disconnect_link m)"
      using m(2) assms(4) r by (auto simp: session_run_def)
    moreover have "emitted (se_io (disconnect_link m)) = emitted (se_io m)" "events_open (se_io (disconnect_link m))"
      using op(1) assms(1) link_send_open [of "se_io m"] op(2) assms(2) by (auto simp: disconnect_link_def)
    ultimately show ?thesis
      using evs op assms(1,2) by (intro exI [of _ evs]) (simp add: emitted_emit sent_disconnect emit_event_def)
  next
    case Finished
    then have "out = Finished" "\<exists>r. s' = emit_event (SessionDown r) m" using m(2) assms(4) r by (auto simp: session_run_def)
    then show ?thesis using evs op(1) assms(1) by (intro exI [of _ evs]) (auto simp: emitted_down)
  qed (use m(2) assms(4) r evs in \<open>auto simp: session_run_def\<close>)
qed

text \<open>A device whose first bytes are no frame.\<close>

definition demo_session :: "nat Session" where
  "demo_session = Session_new
    (IdentificationConfig_for_carthing \<lparr>ci_serial_number = [], ci_firmware_version = [], ci_bt_mac = []\<rparr>)
    None 0 NowPlayingAuthorityState_default idle_io"

definition demo_env :: "nat SessionEnv" where
  "demo_env = \<lparr>sv_mfi = demo_mfi, sv_hash_order = rev, sv_stream_life = (\<lambda>_. None)\<rparr>"

definition demo_session_inputs :: "(nat \<times> SessionInput) list" where
  "demo_session_inputs = [(0, FromLink (Some (DataReceived 1 [0, 0, 0, 0, 0, 0]))), (5, TimerInput)]"

lemma demo_session_run:
  "fst (session_run demo_env demo_session_inputs demo_session) = Failed (CsmDecode (BadStartMarker 0))"
  by (simp add: demo_session_inputs_def session_run_def session_turn_def and_then_def session_drain.simps
      reconcile_authority_def select_turn_def data_received_def demo_session_def Session_new_def csm_decode_def
      CSM_OUTER_HEADER_LEN_def CSM_START_MARKER_def CONTROL_SESSION_ID_def get16_def be_nat_def Let_def)

theorem session_sends_declared_witness:
  "\<exists>s'. snd (session_run demo_env demo_session_inputs demo_session) = s' \<and>
    list_all (declared_send (se_identification demo_session)) (sent (se_io s'))"
  using session_sends_declared [of demo_env demo_session_inputs "se_identification demo_session" None 0
      NowPlayingAuthorityState_default idle_io]
  by (cases "session_run demo_env demo_session_inputs demo_session")
    (auto simp: demo_session_def Session_new_def idle_io_def)

theorem session_end_reported_witness:
  "\<exists>s'. session_run demo_env demo_session_inputs demo_session = (Failed (CsmDecode (BadStartMarker 0)), s') \<and>
    List.last (emitted (se_io s')) = SessionDown (SessionError (CsmDecode (BadStartMarker 0)))"
proof -
  obtain s' where r: "session_run demo_env demo_session_inputs demo_session = (Failed (CsmDecode (BadStartMarker 0)), s')"
    using demo_session_run by (metis prod.collapse)
  from session_end_reported [OF _ _ _ r] r show ?thesis
    by (auto simp: demo_session_def Session_new_def idle_io_def events_open_def link_open_def demo_session_inputs_def)
qed

section \<open>The streams of a session\<close>

definition streams_ok :: "'m Session \<Rightarrow> bool" where
  "streams_ok s \<longleftrightarrow> events_open (se_io s) \<and>
     (case se_ea s of
        None \<Rightarrow> stream_history (emitted (se_io s)) {} = Some {}
      | Some ea \<Rightarrow> ea_consistent ea (se_io s))"

lemma stream_history_neutral: "list_all (Not \<circ> is_stream_event) evs \<Longrightarrow> stream_history evs S = Some S"
  by (induction evs S rule: stream_history.induct) (auto simp: is_stream_event_def)

lemma streams_ok_neutral:
  assumes "streams_ok s" "io_extends P Q (se_io s) (se_io s')" "\<And>ev. Q ev \<Longrightarrow> \<not> is_stream_event ev" "se_ea s' = se_ea s"
  shows "streams_ok s'"
proof -
  obtain evs where "emitted (se_io s') = emitted (se_io s) @ evs" "list_all (Not \<circ> is_stream_event) evs"
    using assms(2,3) by (auto simp: io_extends_def list_all_iff)
  then have "stream_history (emitted (se_io s')) {} = stream_history (emitted (se_io s)) {}"
    by (auto simp: stream_history_append stream_history_neutral split: option.splits)
  moreover have "events_open (se_io s')" using assms(1,2) by (simp add: streams_ok_def io_extends_def)
  ultimately show ?thesis
    using assms(1,4) by (auto simp: streams_ok_def ea_consistent_def split: option.splits)
qed

lemma streams_ok_same:
  "streams_ok s \<Longrightarrow> se_io s' = se_io s \<Longrightarrow> se_ea s' = se_ea s \<Longrightarrow> streams_ok s'"
  by (auto simp: streams_ok_def split: option.splits)

lemma streams_ok_emit: "streams_ok s \<Longrightarrow> \<not> is_stream_event ev \<Longrightarrow> streams_ok (emit_event ev s)"
  by (rule streams_ok_neutral [where P = "\<lambda>_. False" and Q = "(=) ev"])
    (auto simp: emit_event_def intro: io_extends_emit io_extends_refl)

lemma streams_ok_disconnect: "streams_ok s \<Longrightarrow> streams_ok (disconnect_link s)"
  by (cases "link_send Disconnect (se_io s)", rule streams_ok_neutral [where P = "\<lambda>_. True" and Q = "\<lambda>_. False"])
    (auto simp: disconnect_link_def intro: io_extends_link_send)

lemma handle_csm_streams:
  assumes "streams_ok s" "handle_csm env f s = (Inr r, s')"
  shows "streams_ok s'"
  using assms(2)
proof (cases rule: handle_csm_cases)
  case (streams ea ea' io)
  then have "ea_consistent ea (se_io s)" using assms(1) by (simp add: streams_ok_def)
  from ea_handle_consistent [OF this streams(3)] streams(1) show ?thesis by (simp add: streams_ok_def ea_consistent_def)
qed (use assms(1) in \<open>auto elim!: streams_ok_neutral simp: is_stream_event_def is_now_playing_def is_phone_event_def\<close>)

lemma ea_launch_streams:
  "ensure_app_launch_requested b fl io = (r, fl', io') \<Longrightarrow> fl_streams fl' = fl_streams fl \<and> io_events io' = io_events io"
  "request_app_launch b fl io = (r, fl', io') \<Longrightarrow> fl_streams fl' = fl_streams fl \<and> io_events io' = io_events io"
  by (auto simp: ensure_app_launch_requested_def request_app_launch_def send_app_launch_def Let_def
      split: if_splits sum.splits prod.splits dest!: send_csm_keeps)

lemma streams_ok_launch:
  "streams_ok s \<Longrightarrow> se_ea s = Some ea \<Longrightarrow> fl_streams ea' = fl_streams ea \<and> io_events io = io_events (se_io s) \<Longrightarrow>
   streams_ok (s\<lparr>se_ea := Some ea', se_io := io\<rparr>)"
  by (auto simp: streams_ok_def ea_consistent_def events_open_def)

lemma subscription_steps_streams:
  assumes "streams_ok s"
  shows "np_subscribe s = (r, s') \<Longrightarrow> streams_ok s'" "hid_start s = (r, s') \<Longrightarrow> streams_ok s'"
    "telephony_subscribe s = (r, s') \<Longrightarrow> streams_ok s'" "app_launch_request s = (r, s') \<Longrightarrow> streams_ok s'"
  using assms
  by (auto simp: np_subscribe_def hid_start_def telephony_subscribe_def app_launch_request_def
      intro: streams_ok_neutral [OF _ np_ensure_extends [where Q = "\<lambda>_. False"]]
        streams_ok_neutral [OF _ hid_extends(1) [where Q = "\<lambda>_. False"]]
        streams_ok_neutral [OF _ telephony_ensure_extends [where Q = "\<lambda>_. False"]]
        streams_ok_launch [OF _ _ ea_launch_streams(1)]
      split: prod.splits option.splits bool.splits)

lemma and_then_Inr:
  assumes "and_then f g s = (Inr r, s')"
  obtains x s1 where "f s = (Inr x, s1)" "g x s1 = (Inr r, s')"
  using assms by (auto simp: and_then_def split: prod.splits sum.splits)

lemma and_then_invariant:
  assumes "P s" "\<And>x s'. P s \<Longrightarrow> f s = (Inr x, s') \<Longrightarrow> P s'"
    and "\<And>x s1 y s2. P s1 \<Longrightarrow> g x s1 = (Inr y, s2) \<Longrightarrow> P s2" "and_then f g s = (Inr r, s')"
  shows "P s'"
  using and_then_Inr [OF assms(4)] assms(1-3) by metis

lemma keep_subscribed_steps:
  assumes "keep_subscribed s = (Inr r, s')" "P s"
    and "\<And>s r s'. P s \<Longrightarrow> np_subscribe s = (Inr r, s') \<Longrightarrow> P s'" "\<And>s r s'. P s \<Longrightarrow> hid_start s = (Inr r, s') \<Longrightarrow> P s'"
    and "\<And>s r s'. P s \<Longrightarrow> telephony_subscribe s = (Inr r, s') \<Longrightarrow> P s'"
    and "\<And>s r s'. P s \<Longrightarrow> app_launch_request s = (Inr r, s') \<Longrightarrow> P s'"
  shows "P s'"
proof (cases "is_accepted (se_ident s)")
  case True
  with assms(1) have "and_then np_subscribe (\<lambda>_. and_then hid_start (\<lambda>_. and_then telephony_subscribe (\<lambda>_. app_launch_request))) s
      = (Inr r, s')"
    by (simp add: keep_subscribed_def)
  then show ?thesis
  proof (elim and_then_Inr)
    fix x1 s1 x2 s2 x3 s3
    assume n: "np_subscribe s = (Inr x1, s1)" and h: "hid_start s1 = (Inr x2, s2)"
      and t: "telephony_subscribe s2 = (Inr x3, s3)" and a: "app_launch_request s3 = (Inr r, s')"
    show "P s'" by (rule assms(6) [OF assms(5) [OF assms(4) [OF assms(3) [OF assms(2) n] h] t] a])
  qed
qed (use assms(1,2) in \<open>simp add: keep_subscribed_def\<close>)

lemma keep_subscribed_streams: "streams_ok s \<Longrightarrow> keep_subscribed s = (Inr r, s') \<Longrightarrow> streams_ok s'"
  by (erule keep_subscribed_steps [where P = streams_ok]) (auto intro: subscription_steps_streams)

lemma handle_csm_reason:
  "handle_csm env f s = (Inr (Some ev), s') \<Longrightarrow> ev = AuthFailed \<or> (\<exists>ps. ev = IdentRejected ps)"
  by (auto simp: handle_csm_def Let_def auth_handle_def ident_handle_def np_handle_def
      ea_handle_def telephony_handle_def device_handle_def emit_decoded_def hid_handle_def decoded_def
      split: if_splits prod.splits sum.splits option.splits)

lemma frame_turn_streams:
  assumes "streams_ok s" "frame_turn env f s = (Inr r, s')"
  shows "streams_ok s'"
proof -
  obtain reason s1 where h: "handle_csm env f s = (Inr reason, s1)"
    and k: "keep_subscribed (case reason of None \<Rightarrow> s1 | Some ev \<Rightarrow> emit_event ev (disconnect_link s1)) = (Inr r, s')"
    using assms(2) by (auto simp: frame_turn_def and_then_def split: prod.splits sum.splits)
  have "streams_ok (case reason of None \<Rightarrow> s1 | Some ev \<Rightarrow> emit_event ev (disconnect_link s1))"
    using handle_csm_streams [OF assms(1) h] handle_csm_reason [of env f s _ s1] h
    by (auto simp: is_stream_event_def intro!: streams_ok_emit streams_ok_disconnect split: option.splits)
  from keep_subscribed_streams [OF this k] show ?thesis .
qed

lemma session_drain_streams: "streams_ok s \<Longrightarrow> session_drain env s = (Inr r, s') \<Longrightarrow> streams_ok s'"
proof (induction env s rule: session_drain.induct)
  case (1 env s)
  have keep: "streams_ok (s\<lparr>se_control_buf := b\<rparr>)" for b using "1.prems"(1) by (rule streams_ok_same) simp_all
  show ?case
  proof (cases "\<exists>f rest. csm_decode (se_control_buf s) = (Inr (Some f), rest)")
    case False
    with "1.prems"(2) keep show ?thesis
      by (subst (asm) session_drain.simps) (auto split: prod.splits sum.splits option.splits)
  next
    case True
    then obtain f rest where d: "csm_decode (se_control_buf s) = (Inr (Some f), rest)" by blast
    then obtain u s1 where t: "frame_turn env f (s\<lparr>se_control_buf := rest\<rparr>) = (Inr u, s1)" "session_drain env s1 = (Inr r, s')"
      using "1.prems"(2) by (subst (asm) session_drain.simps) (auto split: prod.splits sum.splits)
    show ?thesis
      using "1.IH" [OF d [symmetric] refl refl t(1) [symmetric] refl frame_turn_streams [OF keep t(1)] t(2)] .
  qed
qed

lemma reconcile_authority_streams:
  assumes "streams_ok s" "reconcile_authority s = (Inr r, s')"
  shows "streams_ok s'"
proof (cases "se_authority s = se_authority_last s")
  case False
  then obtain x np io where n: "np_reconcile_companion (se_authority s) (se_now_playing s) (se_io s) = (x, np, io)"
    "s' = s\<lparr>se_now_playing := np, se_io := io, se_authority_last := se_authority s\<rparr>"
    using assms(2) by (auto simp: reconcile_authority_def split: prod.splits sum.splits)
  show ?thesis
    by (rule streams_ok_neutral [OF assms(1) conjunct1 [OF np_reconcile_companion_extends [where Q = "\<lambda>_. False"]]])
      (use n in auto)
qed (use assms in \<open>simp add: reconcile_authority_def\<close>)

lemma ea_close_all_streams:
  assumes "streams_ok s" "\<forall>xs. mset (sv_hash_order env xs) = mset xs"
  shows "streams_ok (ea_close_all env w s) \<and> stream_history (emitted (se_io (ea_close_all env w s))) {} = Some {}"
proof (cases "se_ea s")
  case None
  with assms(1) show ?thesis by (simp add: ea_close_all_def streams_ok_def)
next
  case (Some ea)
  obtain ea' io where t: "ea_teardown (sv_hash_order env) w ea (se_io s) = (ea', io)" by (meson surj_pair)
  have "ea_consistent ea (se_io s)" using assms(1) Some by (simp add: streams_ok_def)
  from ea_teardown_consistent [OF assms(2) this t] have c: "ea_consistent ea' io" .
  moreover have "fl_streams ea' = []" using t by (auto simp: ea_teardown_def)
  ultimately show ?thesis using Some t by (simp add: ea_close_all_def streams_ok_def ea_consistent_def)
qed

lemma link_restarting_streams:
  assumes "streams_ok s" "\<forall>xs. mset (sv_hash_order env xs) = mset xs"
  shows "streams_ok (link_restarting env reason s)"
proof -
  let ?s = "s\<lparr>se_control_buf := [], se_auth := AuthFlow_new, se_ident := IdentificationFlow_new,
      se_file_transfer := ft_reset (se_file_transfer s), se_now_playing := np_reset (se_now_playing s),
      se_hid := hid_reset (se_hid s), se_telephony := telephony_reset (se_telephony s)\<rparr>"
  have "streams_ok ?s" by (rule streams_ok_same [OF assms(1)]) simp_all
  from ea_close_all_streams [OF this assms(2), of False]
  have "streams_ok ((ea_close_all env False ?s)\<lparr>se_ea := None\<rparr>)" by (simp add: streams_ok_def)
  then show ?thesis unfolding link_restarting_def by (rule streams_ok_emit) (simp add: is_stream_event_def)
qed

lemma data_received_streams:
  assumes "streams_ok s" "data_received env i payload s = (Running, s')"
  shows "streams_ok s'"
proof -
  have ft: "streams_ok (s\<lparr>se_file_transfer := ft, se_io := io\<rparr>)"
    if "ft_dispatch payload (se_file_transfer s) (se_io s) = (r, ft, io)" for r ft io
    by (rule streams_ok_neutral [OF assms(1), where P = file_transfer_send and Q = is_file_event])
      (use ft_dispatch_extends [OF that] in \<open>auto simp: is_file_event_def is_stream_event_def\<close>)
  have ea: "streams_ok (s\<lparr>se_ea := Some ea', se_io := io\<rparr>)"
    if "ea_dispatch_link_data payload ea (se_io s) = (ea', io)" "se_ea s = Some ea" for ea ea' io
    using ea_dispatch_consistent [OF _ that(1)] assms(1) that(2) by (simp add: streams_ok_def ea_consistent_def)
  have buf: "streams_ok (s\<lparr>se_control_buf := b\<rparr>)" for b by (rule streams_ok_same [OF assms(1)]) simp_all
  show ?thesis
    using assms(2) ft ea buf assms(1)
    by (auto simp: data_received_def split: if_splits option.splits prod.splits)
qed

lemma streams_ok_sleep: "streams_ok s \<Longrightarrow> streams_ok (s\<lparr>se_io := sleep d (se_io s)\<rparr>)"
  by (rule streams_ok_neutral [where P = "\<lambda>_. False" and Q = "\<lambda>_. False"]) (auto simp: extends)

lemma select_turn_streams:
  assumes ok: "streams_ok s" and hash: "\<forall>xs. mset (sv_hash_order env xs) = mset xs"
    and step: "select_turn env wakeup input s = (Running, s')"
  shows "streams_ok s'"
proof -
  have cmd: "streams_ok (s\<lparr>se_io := io\<rparr>)" if "io_extends P (\<lambda>_. False) (se_io s) io" for P io
    by (rule streams_ok_neutral [OF ok, of P "\<lambda>_. False"]) (use that in auto)
  show ?thesis
  proof (cases input)
    case (FromLink ev)
    with step obtain e where e: "ev = Some e" by (cases ev) (auto simp: select_turn_def)
    show ?thesis
    proof (cases e)
      case (Established lsp)
      have "se_ea s = None \<Longrightarrow> stream_history (emitted (se_io s)) {} = Some {}"
        using ok by (simp add: streams_ok_def)
      then have "streams_ok (if se_ea s = None then s\<lparr>se_ea := Some (EaFlow_new (lsp_max_len lsp) (accepted_protocol s))\<rparr> else s)"
        using ok by (simp add: streams_ok_def ea_consistent_def EaFlow_new_def)
      then have "streams_ok (link_established lsp s)"
        unfolding link_established_def by (rule streams_ok_emit) (simp add: is_stream_event_def)
      with Established FromLink e step show ?thesis by (simp add: select_turn_def)
    next
      case (LinkRestarting r)
      with FromLink e step link_restarting_streams [OF ok hash] show ?thesis by (auto simp: select_turn_def)
    next
      case (LinkDown r)
      with FromLink e step show ?thesis by (simp add: select_turn_def)
    next
      case (DataReceived i payload)
      with FromLink e step data_received_streams [OF ok] show ?thesis by (simp add: select_turn_def)
    qed
  next
    case (LaunchInput b)
    with step ok show ?thesis
      using streams_ok_launch [OF ok _ ea_launch_streams(2)]
      by (auto simp: select_turn_def split: option.splits prod.splits)
  next
    case TimerInput
    have "streams_ok (s\<lparr>se_now_playing := np, se_io := io\<rparr>)"
      if "np_reconcile_companion au fl (sleep d (se_io s)) = (r, np, io)" for r au fl np io d
      by (rule streams_ok_neutral [OF streams_ok_sleep [OF ok, of d]
            conjunct1 [OF np_reconcile_companion_extends [where Q = "\<lambda>_. False"]]]) (use that in auto)
    with TimerInput step ok show ?thesis
      by (auto simp: select_turn_def split: option.splits prod.splits sum.splits)
  next
    case (AuthorityInput a)
    with step ok show ?thesis by (auto simp: select_turn_def intro: streams_ok_same)
  next
    case (RelaunchInput b)
    with step ok show ?thesis by (auto simp: select_turn_def intro: streams_ok_same)
  qed (use step cmd [OF hid_command_extends] cmd [OF np_command_extends [OF surjective_pairing]]
      cmd [OF telephony_command_extends [OF surjective_pairing]] in \<open>auto simp: select_turn_def\<close>)
qed

lemma session_turn_streams:
  assumes "streams_ok s" "\<forall>xs. mset (sv_hash_order env xs) = mset xs" "session_turn env d input s = (Running, s')"
  shows "streams_ok s'"
proof -
  obtain u s1 where t: "and_then (session_drain env) (\<lambda>_. reconcile_authority) s = (Inr u, s1)"
    "select_turn env (np_next_wakeup (se_now_playing s1) (io_now (se_io s1))) input
      (s1\<lparr>se_io := sleep d (se_io s1)\<rparr>) = (Running, s')"
    using assms(3) by (auto simp: session_turn_def split: prod.splits sum.splits)
  have "streams_ok s1"
    using and_then_invariant [where P = streams_ok, OF assms(1) _ _ t(1)] session_drain_streams reconcile_authority_streams
    by blast
  from select_turn_streams [OF streams_ok_sleep [OF this] assms(2) t(2)] show ?thesis .
qed

lemma run_inner_streams:
  "streams_ok s \<Longrightarrow> \<forall>xs. mset (sv_hash_order env xs) = mset xs \<Longrightarrow> run_inner env inputs s = (Running, s') \<Longrightarrow> streams_ok s'"
proof (induction env inputs s rule: run_inner.induct)
  case (2 env d input inputs s)
  obtain o1 s1 where t: "session_turn env d input s = (o1, s1)" by (meson surj_pair)
  with "2.prems"(3) have "o1 = Running" by (auto split: SessionOutcome.splits)
  then show ?case
    using "2.IH" [OF t [symmetric]] "2.prems" t session_turn_streams [OF "2.prems"(1,2), of d input s1] by simp
qed simp

text \<open>C2. At every moment of a session, across restarts of the link, an observer of its events knows which
  external accessory streams are open: each is opened before it is closed and never twice, and what is
  open by the events is what the session routes data to.\<close>

theorem session_streams_match_events:
  assumes "events_open io" "emitted io = []" "\<forall>xs. mset (sv_hash_order env xs) = mset xs"
    and "run_inner env inputs (Session_new cfg launch mfi authority io) = (Running, s)"
  shows "stream_history (emitted (se_io s)) {} =
    Some (case se_ea s of None \<Rightarrow> {} | Some ea \<Rightarrow> open_streams ea)"
proof -
  have "streams_ok (Session_new cfg launch mfi authority io)"
    using assms(1,2) by (simp add: streams_ok_def Session_new_def)
  from run_inner_streams [OF this assms(3,4)] show ?thesis
    by (auto simp: streams_ok_def ea_consistent_def split: option.splits)
qed

theorem session_streams_match_events_witness:
  "\<exists>s. run_inner demo_env [(0, FromLink (Some (Established Lsp_accessory_default)))] demo_session = (Running, s) \<and>
    stream_history (emitted (se_io s)) {} = Some {} \<and> se_ea s \<noteq> None"
proof -
  obtain s where r: "run_inner demo_env [(0, FromLink (Some (Established Lsp_accessory_default)))] demo_session = (Running, s)"
    and ea: "\<exists>ea. se_ea s = Some ea \<and> fl_streams ea = []"
    by (simp add: session_turn_def and_then_def session_drain.simps reconcile_authority_def select_turn_def
        link_established_def demo_session_def Session_new_def csm_decode_def CSM_OUTER_HEADER_LEN_def
        emit_event_def EaFlow_new_def)
  have "stream_history (emitted (se_io s)) {} = Some (case se_ea s of None \<Rightarrow> {} | Some ea \<Rightarrow> open_streams ea)"
    by (rule session_streams_match_events [OF _ _ _ r [unfolded demo_session_def]])
      (simp_all add: idle_io_def events_open_def demo_env_def)
  with r ea show ?thesis by auto
qed

section \<open>Before the identification\<close>

definition session_quiet :: "'m Session \<Rightarrow> bool" where
  "session_quiet s \<longleftrightarrow> np_state (se_now_playing s) = NpIdle \<and> se_hid s \<noteq> HidStarted \<and>
     se_telephony s \<noteq> TelSubscribed \<and> se_ident s \<noteq> Accepted"

definition early_send :: "Iap2Command \<Rightarrow> bool" where
  "early_send cmd \<longleftrightarrow> cmd = Disconnect \<or> file_transfer_send cmd \<or> control_frame (handshake_ids \<union> ea_ids) cmd"

definition is_loud :: "SessionEvent \<Rightarrow> bool" where
  "is_loud ev \<longleftrightarrow> ev = Identified \<or> is_now_playing ev"

text \<open>A step that, on a quiet session, either reports that the device accepted the identification (or sent a
  now-playing update), or sends only early messages and stays quiet.\<close>

definition session_calm :: "'m Session \<Rightarrow> 'm Session \<Rightarrow> bool" where
  "session_calm s s' \<longleftrightarrow> (\<exists>cs evs. sent (se_io s') = sent (se_io s) @ cs \<and> emitted (se_io s') = emitted (se_io s) @ evs \<and>
     events_open (se_io s') = events_open (se_io s) \<and>
     (session_quiet s \<and> events_open (se_io s) \<longrightarrow> list_ex is_loud evs \<or> list_all early_send cs \<and> session_quiet s'))"

lemma session_calm_trans: "session_calm a b \<Longrightarrow> session_calm b c \<Longrightarrow> session_calm a c"
  unfolding session_calm_def
  by (elim exE conjE) (rule exI, rule exI, intro conjI, assumption?, auto)

lemma calm_io:
  assumes "io_extends P Q (se_io s) (se_io s')" "\<And>c. P c \<Longrightarrow> early_send c" "session_quiet s \<Longrightarrow> session_quiet s'"
  shows "session_calm s s'"
  using assms by (fastforce simp: session_calm_def io_extends_def list_all_iff)

lemma calm_not_quiet: "session_grows s s' \<Longrightarrow> \<not> session_quiet s \<Longrightarrow> session_calm s s'"
  by (auto simp: session_calm_def session_grows_def io_extends_def)

lemma calm_same: "se_io s' = se_io s \<Longrightarrow> (session_quiet s \<Longrightarrow> session_quiet s') \<Longrightarrow> session_calm s s'"
  by (rule calm_io [where P = "\<lambda>_. False" and Q = "\<lambda>_. False"]) (simp_all add: io_extends_refl)

lemma early_control: "control_frame ids c \<Longrightarrow> ids \<subseteq> handshake_ids \<union> ea_ids \<Longrightarrow> early_send c"
  unfolding early_send_def by (intro disjI2) (rule control_frame_mono)

lemma handle_csm_calm:
  assumes "handle_csm env f s = (r, s')"
  shows "session_calm s s'"
  using assms
proof (cases rule: handle_csm_cases)
  case (auth auth m io)
  then show ?thesis
    by (intro calm_io [where Q = "(=) Authenticated" and
        P = "control_frame {AuthenticationCertificate_MSG_ID, AuthenticationResponse_MSG_ID}"]) (auto simp: session_quiet_def handshake_ids_def elim!: early_control)
next
  case (ident ident io)
  show ?thesis
  proof (cases "ident = Accepted")
    case True
    with ident have "se_ident s = Accepted \<or> io = session_emit Identified (se_io s)" by simp
    then show ?thesis
    proof
      assume "se_ident s = Accepted"
      then have "\<not> session_quiet s" by (simp add: session_quiet_def)
      with handle_csm_grows [OF assms] show ?thesis by (rule calm_not_quiet)
    next
      assume io: "io = session_emit Identified (se_io s)"
      show ?thesis
      proof (cases "events_open (se_io s)")
        case True
        with ident(1) io show ?thesis
          by (auto simp: session_calm_def emitted_emit is_loud_def)
      next
        case False
        with ident(1,2) show ?thesis by (auto simp: session_calm_def io_extends_def)
      qed
    qed
  next
    case False
    with ident show ?thesis
      by (intro calm_io [where Q = "(=) Identified" and P = "control_frame {IdentificationInformation_MSG_ID}"]) (auto simp: session_quiet_def handshake_ids_def elim!: early_control)
  qed
next
  case (playing np io)
  obtain cs evs where ext: "sent io = sent (se_io s) @ cs" "emitted io = emitted (se_io s) @ evs"
    "events_open io = events_open (se_io s)"
    using playing(3) by (auto simp: io_extends_def)
  have "io = se_io s \<and> np = se_now_playing s \<longrightarrow> list_all early_send cs \<and> (session_quiet s \<longrightarrow> session_quiet s')"
    using ext playing(1) by (auto simp: session_quiet_def)
  moreover have "events_open (se_io s) \<longrightarrow> list_ex is_loud evs \<or> io = se_io s \<and> np = se_now_playing s"
    using playing(4) ext(2) by (auto simp: is_loud_def list_ex_iff)
  ultimately show ?thesis using ext playing(1) by (auto simp: session_calm_def)
next
  case (streams ea ea' io)
  then show ?thesis
    using ea_handle_extends [OF streams(3)]
    by (intro calm_io [where Q = is_stream_event and P = "control_frame ea_ids"])
      (auto simp: session_quiet_def elim!: early_control)
next
  case (others io)
  then show ?thesis by (intro calm_io [where Q = is_phone_event and P = "\<lambda>_. False"]) (auto simp: session_quiet_def)
qed

lemma calm_disconnect: "session_calm s (disconnect_link s)"
  by (cases "link_send Disconnect (se_io s)", rule calm_io [where P = "(=) Disconnect" and Q = "\<lambda>_. False"])
    (auto simp: disconnect_link_def early_send_def session_quiet_def intro: io_extends_link_send)

lemma calm_emit: "session_calm s (emit_event ev s)"
  by (rule calm_io [where P = "\<lambda>_. False" and Q = "(=) ev"])
    (auto simp: emit_event_def session_quiet_def intro!: io_extends_emit io_extends_refl)

lemma keep_subscribed_calm: "keep_subscribed s = (r, s') \<Longrightarrow> session_calm s s'"
proof (cases "is_accepted (se_ident s)")
  case True
  assume "keep_subscribed s = (r, s')"
  with keep_subscribed_grows have "session_grows s s'" .
  moreover have "\<not> session_quiet s" using True by (simp add: is_accepted_def session_quiet_def)
  ultimately show ?thesis by (rule calm_not_quiet)
next
  case False
  assume "keep_subscribed s = (r, s')"
  with False have "s' = s" by (simp add: keep_subscribed_def)
  then show ?thesis by (simp add: calm_same)
qed

lemma frame_turn_calm:
  assumes "frame_turn env f s = (r, s')"
  shows "session_calm s s'"
proof -
  obtain r1 s1 where h: "handle_csm env f s = (r1, s1)" by (meson surj_pair)
  note c1 = handle_csm_calm [OF h]
  show ?thesis
  proof (cases r1)
    case (Inl e)
    with assms h c1 show ?thesis by (simp add: frame_turn_def and_then_def)
  next
    case (Inr reason)
    let ?s = "case reason of None \<Rightarrow> s1 | Some ev \<Rightarrow> emit_event ev (disconnect_link s1)"
    have "keep_subscribed ?s = (r, s')" using assms h Inr by (simp add: frame_turn_def and_then_def)
    note c3 = keep_subscribed_calm [OF this]
    have "session_calm s1 ?s"
      using session_calm_trans [OF calm_disconnect calm_emit] by (cases reason) (simp_all add: calm_same)
    with c1 c3 show ?thesis by (blast intro: session_calm_trans)
  qed
qed

lemma session_drain_calm: "session_drain env s = (r, s') \<Longrightarrow> session_calm s s'"
proof (induction env s arbitrary: r s' rule: session_drain.induct)
  case (1 env s)
  have keep: "session_calm s (s\<lparr>se_control_buf := b\<rparr>)" for b by (rule calm_same) (simp_all add: session_quiet_def)
  show ?case
  proof (cases "\<exists>f rest. csm_decode (se_control_buf s) = (Inr (Some f), rest)")
    case False
    with "1.prems" keep show ?thesis
      by (subst (asm) session_drain.simps) (auto split: prod.splits sum.splits option.splits)
  next
    case True
    then obtain f rest where d: "csm_decode (se_control_buf s) = (Inr (Some f), rest)" by blast
    obtain r1 s1 where t: "frame_turn env f (s\<lparr>se_control_buf := rest\<rparr>) = (r1, s1)" by (meson surj_pair)
    note g = session_calm_trans [OF keep frame_turn_calm [OF t]]
    show ?thesis
    proof (cases r1)
      case (Inl e)
      with "1.prems" d t g show ?thesis by (subst (asm) session_drain.simps) simp
    next
      case (Inr u)
      with "1.prems" d t have "session_drain env s1 = (r, s')" by (subst (asm) session_drain.simps) simp
      with "1.IH" [OF d [symmetric] refl refl t [symmetric] Inr] g show ?thesis by (blast intro: session_calm_trans)
    qed
  qed
qed

lemma np_idle_companion: "np_state np = NpIdle \<Longrightarrow> np_reconcile_companion au np io = (Inr (), np, io)"
  by (simp add: np_reconcile_companion_def)

lemma reconcile_authority_calm:
  assumes "reconcile_authority s = (r, s')"
  shows "session_calm s s'"
proof (cases "session_quiet s")
  case True
  with assms have "se_io s' = se_io s" "session_quiet s'"
    by (auto simp: reconcile_authority_def np_idle_companion session_quiet_def split: if_splits)
  then show ?thesis by (rule calm_same)
qed (rule calm_not_quiet [OF reconcile_authority_grows [OF assms]])

text \<open>After a restart the session is as quiet as a new one.\<close>

lemma link_restarting_quiet: "session_quiet (link_restarting env reason s)"
  by (simp add: link_restarting_def emit_event_def ea_close_all_def session_quiet_def np_reset_def hid_reset_def
      telephony_reset_def IdentificationFlow_new_def split: option.splits prod.splits)

lemma link_restarting_calm: "session_calm s (link_restarting env reason s)"
proof -
  let ?s = "s\<lparr>se_control_buf := [], se_auth := AuthFlow_new, se_ident := IdentificationFlow_new,
      se_file_transfer := ft_reset (se_file_transfer s), se_now_playing := np_reset (se_now_playing s),
      se_hid := hid_reset (se_hid s), se_telephony := telephony_reset (se_telephony s)\<rparr>"
  have "io_extends (control_frame ea_ids) is_stream_event (se_io ?s) (se_io (ea_close_all env False ?s))"
    using ea_teardown_extends by (auto simp: ea_close_all_def io_extends_refl split: option.splits prod.splits)
  then have "io_extends (control_frame ea_ids) (\<lambda>_. True) (se_io s) (se_io (link_restarting env reason s))"
    unfolding link_restarting_def emit_event_def
    by (auto elim: io_extends_mono intro!: io_extends_emit)
  then show ?thesis
    by (rule calm_io) (auto simp: link_restarting_quiet elim!: early_control)
qed

lemma select_turn_calm:
  assumes "select_turn env wakeup input s = (out, s')"
  shows "session_calm s s'"
proof (cases "session_quiet s")
  case False
  obtain m where m: "session_grows s m" "s' = (case down_reason input of None \<Rightarrow> m | Some r \<Rightarrow> emit_event (SessionDown r) m)"
    using select_turn_grows [OF assms] by blast
  have "session_calm m s'" using m(2) calm_emit by (auto simp: calm_same split: option.splits)
  with calm_not_quiet [OF m(1) False] show ?thesis by (rule session_calm_trans)
next
  case True
  note q = True [unfolded session_quiet_def]
  show ?thesis
  proof (cases input)
    case (FromLink ev)
    show ?thesis
    proof (cases ev)
      case None
      with FromLink assms calm_emit show ?thesis by (auto simp: select_turn_def)
    next
      case (Some e)
      show ?thesis
      proof (cases e)
        case (Established lsp)
        then have "s' = link_established lsp s" using FromLink Some assms by (simp add: select_turn_def)
        then show ?thesis
          by (auto simp: link_established_def session_quiet_def intro!: session_calm_trans [OF calm_same calm_emit])
      next
        case (LinkRestarting r)
        with FromLink Some assms show ?thesis using link_restarting_calm by (auto simp: select_turn_def)
      next
        case (LinkDown r)
        have "hid_shutdown (se_hid s) (se_io s) = (Inr (), HidStopped, se_io s)" using q by (simp add: hid_shutdown_def)
        with FromLink Some LinkDown assms show ?thesis
          by (auto simp: select_turn_def link_down_def session_quiet_def intro!: session_calm_trans [OF calm_same calm_emit])
      next
        case (DataReceived i payload)
        have ft: "session_calm s (s\<lparr>se_file_transfer := ft, se_io := io\<rparr>)"
          if "ft_dispatch payload (se_file_transfer s) (se_io s) = (r, ft, io)" for r ft io
          using ft_dispatch_extends [OF that]
          by (intro calm_io [where P = file_transfer_send and Q = is_file_event]) (auto simp: early_send_def session_quiet_def)
        have ea: "session_calm s (s\<lparr>se_ea := Some ea', se_io := io\<rparr>)"
          if "ea_dispatch_link_data payload ea (se_io s) = (ea', io)" for ea ea' io
          using ea_dispatch_extends [OF that, of "\<lambda>_. False"]
          by (intro calm_io [where P = "\<lambda>_. False" and Q = is_stream_event]) (auto simp: session_quiet_def)
        have buf: "session_calm s (s\<lparr>se_control_buf := b\<rparr>)" for b by (rule calm_same) (simp_all add: session_quiet_def)
        from assms FromLink Some DataReceived show ?thesis
          using ft ea buf by (auto simp: select_turn_def data_received_def calm_same split: if_splits option.splits prod.splits)
      qed
    qed
  next
    case (LaunchInput b)
    have "session_calm s (s\<lparr>se_ea := Some ea', se_io := io\<rparr>)"
      if "request_app_launch b ea (se_io s) = (r, ea', io)" for r ea ea' io
      using ea_launch_extends(2) [OF that, of "\<lambda>_. False"]
      by (intro calm_io [where P = "control_frame ea_ids" and Q = "\<lambda>_. False"]) (auto simp: session_quiet_def elim!: early_control)
    with LaunchInput assms show ?thesis by (auto simp: select_turn_def calm_same split: option.splits prod.splits)
  next
    case ShutdownInput
    have "io_extends (control_frame ea_ids) is_stream_event (se_io s) (se_io (ea_close_all env True s))"
      using ea_teardown_extends by (auto simp: ea_close_all_def io_extends_refl split: option.splits prod.splits)
    then have "session_calm s (ea_close_all env True s)"
      by (rule calm_io) (auto simp: ea_close_all_def session_quiet_def elim!: early_control split: option.splits prod.splits)
    with ShutdownInput assms show ?thesis by (auto simp: select_turn_def)
  next
    case TimerInput
    have "session_calm s (s\<lparr>se_io := sleep d (se_io s)\<rparr>)" for d
      by (rule calm_io [where P = "\<lambda>_. False" and Q = "\<lambda>_. False"]) (auto simp: extends session_quiet_def)
    with TimerInput assms q show ?thesis
      by (auto simp: select_turn_def calm_same np_idle_companion split: option.splits)
  qed (use assms q in \<open>auto simp: select_turn_def hid_command_def np_handle_command_def telephony_command_def calm_same
      session_quiet_def intro!: calm_same\<close>)
qed

lemma session_turn_calm:
  assumes "session_turn env d input s = (out, s')"
  shows "session_calm s s'"
proof -
  obtain r1 s1 where t: "session_drain env s = (r1, s1)" by (meson surj_pair)
  obtain r2 s2 where a: "reconcile_authority s1 = (r2, s2)" by (meson surj_pair)
  have c2: "session_calm s s2" using session_calm_trans [OF session_drain_calm [OF t] reconcile_authority_calm [OF a]] .
  have slp: "session_calm s2 (s2\<lparr>se_io := sleep d (se_io s2)\<rparr>)"
    by (rule calm_io [where P = "\<lambda>_. False" and Q = "\<lambda>_. False"]) (auto simp: extends session_quiet_def)
  show ?thesis
  proof (cases r1)
    case (Inl e)
    with assms t session_drain_calm [OF t] show ?thesis by (simp add: session_turn_def and_then_def)
  next
    case r1: (Inr u)
    show ?thesis
    proof (cases r2)
      case (Inl e)
      with assms t a r1 c2 show ?thesis by (simp add: session_turn_def and_then_def)
    next
      case (Inr v)
      with assms t a r1 have "select_turn env (np_next_wakeup (se_now_playing s2) (io_now (se_io s2))) input
          (s2\<lparr>se_io := sleep d (se_io s2)\<rparr>) = (out, s')"
        by (simp add: session_turn_def and_then_def)
      from session_calm_trans [OF c2 session_calm_trans [OF slp select_turn_calm [OF this]]] show ?thesis .
    qed
  qed
qed

lemma run_inner_calm: "run_inner env inputs s = (out, s') \<Longrightarrow> session_calm s s'"
proof (induction env inputs s rule: run_inner.induct)
  case (2 env d input inputs s)
  obtain o1 s1 where t: "session_turn env d input s = (o1, s1)" by (meson surj_pair)
  note c = session_turn_calm [OF t]
  show ?case
  proof (cases "o1 = Running")
    case True
    then have "run_inner env inputs s1 = (out, s')" using "2.prems" t by simp
    from session_calm_trans [OF c "2.IH" [OF t [symmetric] True this]] show ?thesis .
  next
    case False
    then have "s1 = s'" using "2.prems" t by (auto split: SessionOutcome.splits)
    with c show ?thesis by simp
  qed
qed (simp add: calm_same)

text \<open>C16. A run from a fresh session (or from where a restart of the link has left it) in which neither the acceptance of
  the identification nor a now-playing update arrives sends only the messages of the handshake, those of
  external accessory streams, answers on the file transfer session and the disconnect: whatever the clients ask
  for, no media key, no call control and no subscription. With a now-playing update it is not so:
  \<open>subscription_before_subscribing\<close>.\<close>

theorem quiet_before_identified:
  assumes "s = Session_new cfg launch mfi authority io \<or> s = link_restarting env reason s0" "events_open (se_io s)"
    and "run_inner env inputs s = (out, s')" "\<not> list_ex is_loud (drop (length (emitted (se_io s))) (emitted (se_io s')))"
  shows "list_all early_send (drop (length (sent (se_io s))) (sent (se_io s')))"
proof -
  have "session_quiet s"
    using assms(1) link_restarting_quiet
    by (auto simp: session_quiet_def Session_new_def NowPlayingFlow_new_def HidFlow_new_def TelephonyFlow_new_def
        IdentificationFlow_new_def)
  with run_inner_calm [OF assms(3)] assms(2,4) show ?thesis by (auto simp: session_calm_def)
qed

theorem quiet_before_identified_witness:
  "\<exists>out s'. run_inner demo_env [(0, HidInput (Pulse 1)), (0, TelephonyInput TelSwap)] demo_session = (out, s') \<and>
    list_all early_send (sent (se_io s'))"
proof -
  let ?in = "[(0, HidInput (Pulse 1)), (0, TelephonyInput TelSwap)]"
  obtain out s' where r: "run_inner demo_env ?in demo_session = (out, s')" by (meson surj_pair)
  have "se_io s' = idle_io"
    using r by (auto simp: session_turn_def and_then_def session_drain.simps reconcile_authority_def select_turn_def
        demo_session_def Session_new_def csm_decode_def CSM_OUTER_HEADER_LEN_def hid_command_def HidFlow_new_def
        telephony_command_def TelephonyFlow_new_def sleep_def)
  then show ?thesis
    using quiet_before_identified [of demo_session _ None 0 NowPlayingAuthorityState_default idle_io demo_env undefined undefined ?in out s'] r
    by (auto simp: demo_session_def Session_new_def idle_io_def events_open_def)
qed

end
