(* ===== verification/Wire_Endec.thy ===== *)
theory Wire_Endec
  imports Lane_Scheduler
begin

text \<open>The frames between the device and its gateways (\<open>crates/lib/src/protocol\<close>: \<open>mod.rs\<close>, \<open>frame.rs\<close>,
  \<open>endec.rs\<close>): sixteen bytes of header, then a serialized and perhaps compressed message. The decoder keeps
  a parsed header between calls and looks for the next magic behind bytes it cannot read. Serialization
  (\<open>rmp_serde\<close>, \<open>serde_json\<close>) and gzip (\<open>flate2\<close>) are parameters. What the code counts only for its log
  is left out.\<close>

section \<open>Frames\<close>

definition HEADER_LEN :: nat where "HEADER_LEN = 16"
definition MAGIC :: u16 where "MAGIC = 0xDEAD"
definition VERSION :: u8 where "VERSION = 2"
definition MAX_FRAME_LEN :: nat where "MAX_FRAME_LEN = 16 * 1024 * 1024"
definition COMPRESSION_NONE :: u8 where "COMPRESSION_NONE = 0"
definition COMPRESSION_GZIP :: u8 where "COMPRESSION_GZIP = 1"
definition AUTO_GZIP_THRESHOLD_BYTES :: nat where "AUTO_GZIP_THRESHOLD_BYTES = 16 * 1024 - 128"
definition ENCODING_MSGPACK :: u8 where "ENCODING_MSGPACK = 0"
definition ENCODING_JSON :: u8 where "ENCODING_JSON = 1"

datatype Compression = Gzip | Uncompressed

definition Compression_from :: "u8 \<Rightarrow> Compression" where
  "Compression_from value = (if value = COMPRESSION_GZIP then Gzip else if value = COMPRESSION_NONE then Uncompressed
     else Uncompressed)"

datatype Encoding = Msgpack | Json

definition Encoding_from :: "u8 \<Rightarrow> Encoding" where
  "Encoding_from value = (if value = ENCODING_MSGPACK then Msgpack else if value = ENCODING_JSON then Json else Msgpack)"

datatype TypedDecodeError = RmpError string | JsonError string

text \<open>The envelope probe of a typed error, which is only logged, is left out.\<close>

datatype EndecError =
    RmpSerialization string
  | TypedDecode TypedDecodeError
  | Decompress string
  | DecompressTooLarge nat
  | CompressionFailed string

fun is_recoverable :: "EndecError \<Rightarrow> bool" where
  "is_recoverable (TypedDecode e) = True"
| "is_recoverable (Decompress e) = True"
| "is_recoverable (DecompressTooLarge n) = True"
| "is_recoverable _ = False"

datatype Compress = CompressAuto | CompressNever | CompressAlways | CompressIfSmaller

record 'm PrioritizedFrame =
  pf_priority :: Priority
  pf_compress :: Compress
  pf_msg :: 'm

definition PrioritizedFrame_new :: "Priority \<Rightarrow> 'm \<Rightarrow> 'm PrioritizedFrame" where
  "PrioritizedFrame_new priority msg = \<lparr>pf_priority = priority, pf_compress = CompressAuto, pf_msg = msg\<rparr>"

datatype 'm DecodedFrame = Frame "'m PrioritizedFrame" | FrameFailed EndecError

record EndecState =
  st_compression :: Compression
  st_encoding :: Encoding
  st_priority :: Priority
  st_length :: u64
  st_header_parsed :: bool
  st_total_length :: nat

definition EndecState_default :: EndecState where
  "EndecState_default = \<lparr>st_compression = Uncompressed, st_encoding = Msgpack, st_priority = Normal, st_length = 0,
     st_header_parsed = False, st_total_length = 0\<rparr>"

text \<open>The crates the codec calls: (de)serialization in both encodings, gzip, and the reader of a gzip
  stream up to a number of bytes.\<close>

record 'm WireCodec =
  wc_to_msgpack :: "'m \<Rightarrow> string + bytes"
  wc_from_msgpack :: "bytes \<Rightarrow> string + 'm"
  wc_from_json :: "bytes \<Rightarrow> string + 'm"
  wc_gzip :: "bytes \<Rightarrow> string + bytes"
  wc_gunzip_upto :: "nat \<Rightarrow> bytes \<Rightarrow> string + bytes"

section \<open>Decoding\<close>

text \<open>The first position of the magic in the buffer.\<close>

fun magic_at :: "bytes \<Rightarrow> nat option" where
  "magic_at (a # b # rest) =
    (if get16 [a, b] = MAGIC then Some 0 else map_option Suc (magic_at (b # rest)))"
| "magic_at _ = None"

definition resync_to_magic :: "bytes \<Rightarrow> bool \<times> bytes" where
  "resync_to_magic src =
    (case magic_at src of
       Some pos \<Rightarrow> (True, drop pos src)
     | None \<Rightarrow> (False, drop (length src - (2 - 1)) src))"

definition typed_decode :: "'m WireCodec \<Rightarrow> Encoding \<Rightarrow> bytes \<Rightarrow> EndecError + 'm" where
  "typed_decode c encoding payload =
    (case encoding of
       Msgpack \<Rightarrow> (case wc_from_msgpack c payload of Inl e \<Rightarrow> Inl (TypedDecode (RmpError e)) | Inr m \<Rightarrow> Inr m)
     | Json \<Rightarrow> (case wc_from_json c payload of Inl e \<Rightarrow> Inl (TypedDecode (JsonError e)) | Inr m \<Rightarrow> Inr m))"

definition body_payload :: "'m WireCodec \<Rightarrow> Compression \<Rightarrow> bytes \<Rightarrow> EndecError + bytes" where
  "body_payload c compression body =
    (if compression = Gzip then
       (case wc_gunzip_upto c (MAX_FRAME_LEN + 1) body of
          Inl e \<Rightarrow> Inl (Decompress e)
        | Inr d \<Rightarrow> (if length d > MAX_FRAME_LEN then Inl (DecompressTooLarge MAX_FRAME_LEN) else Inr d))
     else Inr body)"

definition finish_frame ::
  "'m WireCodec \<Rightarrow> EndecState \<Rightarrow> bytes \<Rightarrow> (EndecError + 'm PrioritizedFrame option) \<times> EndecState option \<times> bytes" where
  "finish_frame c st src =
    (let src1 = drop HEADER_LEN src; body = take (unat (st_length st)) src1; rest = drop (unat (st_length st)) src1
     in (case res_bind (body_payload c (st_compression st) body) (typed_decode c (st_encoding st)) of
           Inl e \<Rightarrow> Inl e
         | Inr msg \<Rightarrow> Inr (Some (PrioritizedFrame_new (st_priority st) msg)), None, rest))"

lemma magic_at_pos: "magic_at src = Some p \<Longrightarrow> 2 \<le> length src \<and> p + 2 \<le> length src"
  by (induction src arbitrary: p rule: magic_at.induct) (auto split: if_splits)

lemma magic_at_0: "get16 (take 2 src) \<noteq> MAGIC \<Longrightarrow> magic_at src \<noteq> Some 0"
  by (cases src rule: magic_at.cases) auto

lemma resync_shrinks:
  "resync_to_magic src = (True, src') \<Longrightarrow> length src' \<le> length src \<and>
    (get16 (take 2 src) \<noteq> MAGIC \<longrightarrow> length src' < length src)"
  using magic_at_pos [of src] magic_at_0 [of src]
  by (auto simp: resync_to_magic_def split: option.splits)

function decode_buf ::
  "'m WireCodec \<Rightarrow> EndecState option \<Rightarrow> bytes \<Rightarrow>
    (EndecError + 'm PrioritizedFrame option) \<times> EndecState option \<times> bytes" where
  "decode_buf c self src =
    (if src = [] then (Inr None, self, src)
     else let st = (case self of None \<Rightarrow> EndecState_default | Some st \<Rightarrow> st) in
       if \<not> st_header_parsed st then
         (if length src < HEADER_LEN then (Inr None, Some st, src)
          else if get16 (take 2 src) \<noteq> MAGIC then
            (case resync_to_magic src of
               (True, src') \<Rightarrow> decode_buf c None src' | (False, src') \<Rightarrow> (Inr None, None, src'))
          else if src ! 2 \<noteq> VERSION \<or> unat (get64 (take 8 (drop 8 src))) > MAX_FRAME_LEN then
            (case resync_to_magic (drop 1 src) of
               (True, src') \<Rightarrow> decode_buf c None src' | (False, src') \<Rightarrow> (Inr None, None, src'))
          else
            let length_field = get64 (take 8 (drop 8 src));
                st' = \<lparr>st_compression = Compression_from (src ! 3), st_encoding = Encoding_from (src ! 4),
                       st_priority = Priority_from_byte (src ! 5), st_length = length_field,
                       st_header_parsed = True, st_total_length = HEADER_LEN + unat length_field\<rparr>
            in if length src < st_total_length st' then (Inr None, Some st', src) else finish_frame c st' src)
       else if length src < st_total_length st then (Inr None, Some st, src)
       else finish_frame c st src)"
  by pat_completeness auto
termination
  by (relation "measure (\<lambda>(c, self, src). length src)") (auto dest!: resync_shrinks [OF sym] simp: HEADER_LEN_def)

declare decode_buf.simps [simp del]

definition decode_item ::
  "'m WireCodec \<Rightarrow> EndecState option \<Rightarrow> bytes \<Rightarrow>
    (EndecError + 'm DecodedFrame option) \<times> EndecState option \<times> bytes" where
  "decode_item c self src =
    (case decode_buf c self src of
       (Inr (Some frame), r) \<Rightarrow> (Inr (Some (Frame frame)), r)
     | (Inr None, r) \<Rightarrow> (Inr None, r)
     | (Inl err, r) \<Rightarrow> (if is_recoverable err then Inr (Some (FrameFailed err)) else Inl err, r))"

section \<open>Encoding\<close>

definition compress_body :: "'m WireCodec \<Rightarrow> Priority \<Rightarrow> Compress \<Rightarrow> bytes \<Rightarrow> EndecError + Compression \<times> bytes" where
  "compress_body c priority compress packed =
    (let wanted = (case compress of
           CompressNever \<Rightarrow> False
         | CompressAlways \<Rightarrow> True
         | CompressIfSmaller \<Rightarrow> True
         | CompressAuto \<Rightarrow> priority = Normal \<and> length packed > AUTO_GZIP_THRESHOLD_BYTES)
     in if \<not> wanted then Inr (Uncompressed, packed)
        else case wc_gzip c packed of
          Inl e \<Rightarrow> Inl (CompressionFailed e)
        | Inr zipped \<Rightarrow>
            (if compress = CompressAlways \<or> length zipped < length packed then Inr (Gzip, zipped)
             else Inr (Uncompressed, packed)))"

definition encode_header :: "Compression \<Rightarrow> Priority \<Rightarrow> bytes \<Rightarrow> bytes" where
  "encode_header compression priority body =
    be16 MAGIC @ [VERSION, case compression of Gzip \<Rightarrow> COMPRESSION_GZIP | Uncompressed \<Rightarrow> COMPRESSION_NONE,
      ENCODING_MSGPACK, Priority_as_byte priority, 0, 0] @ be64 (of_nat (length body))"

definition encode_frame :: "'m WireCodec \<Rightarrow> Priority \<Rightarrow> Compress \<Rightarrow> 'm \<Rightarrow> bytes \<Rightarrow> EndecError + bytes" where
  "encode_frame c priority compress msg dst =
    (case wc_to_msgpack c msg of
       Inl e \<Rightarrow> Inl (RmpSerialization e)
     | Inr packed \<Rightarrow>
         (case compress_body c priority compress packed of
            Inl e \<Rightarrow> Inl e
          | Inr (compression, body) \<Rightarrow> Inr (dst @ encode_header compression priority body @ body)))"

definition encode_item :: "'m WireCodec \<Rightarrow> 'm PrioritizedFrame \<Rightarrow> bytes \<Rightarrow> EndecError + bytes" where
  "encode_item c frame dst = encode_frame c (pf_priority frame) (pf_compress frame) (pf_msg frame) dst"

section \<open>The reference: a scan of the whole stream\<close>

text \<open>What the header at the start of the bytes says, if it is one.\<close>

definition header_ok :: "bytes \<Rightarrow> bool" where
  "header_ok src \<longleftrightarrow> HEADER_LEN \<le> length src \<and> get16 (take 2 src) = MAGIC \<and> src ! 2 = VERSION \<and>
     unat (get64 (take 8 (drop 8 src))) \<le> MAX_FRAME_LEN"

definition header_state :: "bytes \<Rightarrow> EndecState" where
  "header_state src =
    \<lparr>st_compression = Compression_from (src ! 3), st_encoding = Encoding_from (src ! 4),
     st_priority = Priority_from_byte (src ! 5), st_length = get64 (take 8 (drop 8 src)),
     st_header_parsed = True, st_total_length = HEADER_LEN + unat (get64 (take 8 (drop 8 src)))\<rparr>"

definition frame_end :: "bytes \<Rightarrow> nat" where
  "frame_end src = HEADER_LEN + unat (get64 (take 8 (drop 8 src)))"

definition frame_at :: "'m WireCodec \<Rightarrow> bytes \<Rightarrow> 'm DecodedFrame" where
  "frame_at c src =
    (let st = header_state src; body = take (unat (st_length st)) (drop HEADER_LEN src)
     in case res_bind (body_payload c (st_compression st) body) (typed_decode c (st_encoding st)) of
          Inl e \<Rightarrow> FrameFailed e
        | Inr msg \<Rightarrow> Frame (PrioritizedFrame_new (st_priority st) msg))"

text \<open>The frames of a byte stream: where a header starts, its frame, else one byte further. This has no state,
  no search for the magic and no buffer.\<close>

function wire_scan :: "'m WireCodec \<Rightarrow> bytes \<Rightarrow> 'm DecodedFrame list" where
  "wire_scan c src =
    (if length src < HEADER_LEN then []
     else if header_ok src then
       (if length src < frame_end src then [] else frame_at c src # wire_scan c (drop (frame_end src) src))
     else wire_scan c (drop 1 src))"
  by pat_completeness auto
termination
  by (relation "measure (\<lambda>(c, src). length src)") (auto simp: frame_end_def HEADER_LEN_def)

declare wire_scan.simps [simp del]

lemma header_bytes:
  assumes "16 \<le> length src"
  shows "take 8 (drop 8 (src @ ys)) = take 8 (drop 8 src)" "take 2 (src @ ys) = take 2 src" "(src @ ys) ! 2 = src ! 2"
    "(src @ ys) ! 3 = src ! 3" "(src @ ys) ! 4 = src ! 4" "(src @ ys) ! 5 = src ! 5"
  using assms by (simp_all add: nth_append)

lemma header_same [simp]:
  assumes "HEADER_LEN \<le> length src"
  shows "frame_end (src @ ys) = frame_end src" "header_state (src @ ys) = header_state src"
    "header_ok (src @ ys) = header_ok src"
  using assms header_bytes [of src ys]
  by (simp_all add: frame_end_def header_state_def header_ok_def HEADER_LEN_def del: take_append drop_append)

lemma header_ok_length [dest]: "header_ok src \<Longrightarrow> HEADER_LEN \<le> length src"
  by (simp add: header_ok_def)

lemma frame_at_same:
  assumes "header_ok src" "frame_end src \<le> length src"
  shows "frame_at c (src @ ys) = frame_at c src"
proof -
  have h: "HEADER_LEN \<le> length src" using assms by auto
  have "take (unat (st_length (header_state src))) (drop HEADER_LEN (src @ ys)) =
      take (unat (st_length (header_state src))) (drop HEADER_LEN src)"
    using assms(2) h by (simp add: frame_end_def header_state_def)
  then show ?thesis using header_same [OF h] by (simp add: frame_at_def del: take_append drop_append)
qed

lemma scan_frame:
  assumes "header_ok src" "frame_end src \<le> length src"
  shows "wire_scan c (src @ ys) = frame_at c src # wire_scan c (drop (frame_end src) src @ ys)"
proof -
  have "HEADER_LEN \<le> length src" using assms by auto
  then show ?thesis
    using assms frame_at_same [OF assms] by (subst wire_scan.simps) simp
qed

lemma scan_skip: "\<not> header_ok src \<Longrightarrow> wire_scan c src = wire_scan c (drop 1 src)"
proof (cases "length src < HEADER_LEN")
  case True
  then have "wire_scan c src = []" "wire_scan c (drop 1 src) = []"
    by (subst wire_scan.simps, simp)+
  then show ?thesis by simp
next
  case False
  then show "\<not> header_ok src \<Longrightarrow> ?thesis" by (subst wire_scan.simps) simp
qed

text \<open>Bytes in front of the first magic hold no frame.\<close>

lemma scan_no_magic:
  assumes "magic_at src = Some p \<and> q \<le> p \<or> magic_at src = None \<and> q \<le> length src - 1"
  shows "wire_scan c (src @ ys) = wire_scan c (drop q src @ ys)"
  using assms
proof (induction q arbitrary: src p)
  case (Suc q)
  obtain a b rest where src: "src = a # b # rest" "get16 [a, b] \<noteq> MAGIC"
    using Suc.prems by (cases src rule: magic_at.cases) (auto split: if_splits)
  have "\<not> header_ok (src @ ys)" using src by (simp add: header_ok_def)
  then have "wire_scan c (src @ ys) = wire_scan c ((b # rest) @ ys)" using src(1) by (simp add: scan_skip)
  moreover have "\<exists>p'. magic_at (b # rest) = Some p' \<and> q \<le> p' \<or> magic_at (b # rest) = None \<and> q \<le> length (b # rest) - 1"
    using Suc.prems src by (cases "magic_at (b # rest)") auto
  ultimately show ?case using Suc.IH src(1) by fastforce
qed simp

lemma resync_scan:
  "resync_to_magic src = (found, src') \<Longrightarrow> wire_scan c (src @ ys) = wire_scan c (src' @ ys)"
  using scan_no_magic [of src _ _ c ys] by (auto simp: resync_to_magic_def split: option.splits)

lemma resync_nothing: "resync_to_magic src = (False, src') \<Longrightarrow> length src' < HEADER_LEN"
  by (auto simp: resync_to_magic_def HEADER_LEN_def split: option.splits)

section \<open>The decoder implements the scan\<close>

text \<open>A kept header is the header at the start of the buffer.\<close>

definition state_ok :: "EndecState option \<Rightarrow> bytes \<Rightarrow> bool" where
  "state_ok self src \<longleftrightarrow>
    (case self of None \<Rightarrow> True | Some st \<Rightarrow> st_header_parsed st \<longrightarrow> header_ok src \<and> st = header_state src)"

lemma state_ok_append: "state_ok self src \<Longrightarrow> state_ok self (src @ ys)"
  by (auto simp: state_ok_def header_ok_length split: option.splits)

lemma recoverable_body:
  "res_bind (body_payload c z body) (typed_decode c e) = Inl err \<Longrightarrow> is_recoverable err"
  by (auto simp: res_bind_eq_Inl body_payload_def typed_decode_def split: if_splits sum.splits Encoding.splits)

definition step_ok :: "'m WireCodec \<Rightarrow> bytes \<Rightarrow> (EndecError + 'm PrioritizedFrame option) \<times> EndecState option \<times> bytes \<Rightarrow> bool" where
  "step_ok c src = (\<lambda>(r, self', src').
    state_ok self' src' \<and>
    (case r of
       Inl e \<Rightarrow> is_recoverable e \<and> (\<forall>ys. wire_scan c (src @ ys) = FrameFailed e # wire_scan c (src' @ ys)) \<and> length src' < length src
     | Inr (Some f) \<Rightarrow> (\<forall>ys. wire_scan c (src @ ys) = Frame f # wire_scan c (src' @ ys)) \<and> length src' < length src
     | Inr None \<Rightarrow> (\<forall>ys. wire_scan c (src @ ys) = wire_scan c (src' @ ys)) \<and> wire_scan c src' = []))"

lemma finish_frame_step:
  assumes "header_ok src" "frame_end src \<le> length src"
  shows "step_ok c src (finish_frame c (header_state src) src)"
proof -
  have s: "wire_scan c (src @ ys) = frame_at c src # wire_scan c (drop (frame_end src) src @ ys)" for ys
    by (rule scan_frame [OF assms])
  have "drop (unat (st_length (header_state src))) (drop HEADER_LEN src) = drop (frame_end src) src"
    by (simp add: header_state_def frame_end_def add.commute)
  moreover have "length (drop (frame_end src) src) < length src"
    using assms by (simp add: frame_end_def HEADER_LEN_def header_ok_def)
  ultimately show ?thesis
    using s recoverable_body
    by (auto simp: step_ok_def finish_frame_def frame_at_def Let_def state_ok_def split: sum.splits)
qed

lemma step_ok_via:
  assumes "\<And>ys. wire_scan c (src @ ys) = wire_scan c (src1 @ ys)" "length src1 \<le> length src" "step_ok c src1 r"
  shows "step_ok c src r"
  using assms by (auto simp: step_ok_def split: sum.splits option.splits)

lemma scan_pending: "header_ok src \<Longrightarrow> length src < frame_end src \<Longrightarrow> wire_scan c src = []"
  by (subst wire_scan.simps) simp

lemma scan_short: "length src < HEADER_LEN \<Longrightarrow> wire_scan c src = []"
  by (subst wire_scan.simps) simp

lemma header_step:
  assumes "header_ok src"
  shows "step_ok c src (if length src < st_total_length (header_state src)
    then (Inr None, Some (header_state src), src) else finish_frame c (header_state src) src)"
proof (cases "length src < frame_end src")
  case True
  with assms scan_pending [OF assms True] show ?thesis
    by (simp add: header_state_def frame_end_def step_ok_def state_ok_def)
next
  case False
  with finish_frame_step [OF assms, of c] show ?thesis
    by (simp add: header_state_def frame_end_def)
qed

lemma decode_buf_step: "state_ok self src \<Longrightarrow> step_ok c src (decode_buf c self src)"
proof (induction c self src rule: decode_buf.induct)
  case (1 c self src)
  define st where "st = (case self of None \<Rightarrow> EndecState_default | Some st \<Rightarrow> st)"
  consider "src = []" | "src \<noteq> []" "st_header_parsed st" | "src \<noteq> []" "\<not> st_header_parsed st" "length src < HEADER_LEN"
    | (resync) "src \<noteq> []" "\<not> st_header_parsed st" "\<not> length src < HEADER_LEN" "\<not> header_ok src"
    | "src \<noteq> []" "\<not> st_header_parsed st" "\<not> length src < HEADER_LEN" "header_ok src"
    by blast
  then show ?case
  proof cases
    case 1
    then show ?thesis
      using "1.prems" scan_short [of "[]"] by (subst decode_buf.simps) (simp add: step_ok_def HEADER_LEN_def)
  next
    case 2
    then have h: "header_ok src" "st = header_state src"
      using "1.prems" by (auto simp: state_ok_def st_def EndecState_default_def split: option.splits)
    then show ?thesis
      using 2 header_step [OF h(1), of c] by (subst decode_buf.simps) (simp add: st_def [symmetric] Let_def)
  next
    case 3
    then show ?thesis
      using scan_short [of src] "1.prems"
      by (subst decode_buf.simps) (auto simp: st_def [symmetric] Let_def step_ok_def state_ok_def)
  next
    case resync
    have via: "step_ok c src (case resync_to_magic src1 of (True, src') \<Rightarrow> decode_buf c None src' | (False, src') \<Rightarrow> (Inr None, None, src'))"
      if eq: "\<And>ys. wire_scan c (src @ ys) = wire_scan c (src1 @ ys)" and "length src1 \<le> length src"
        and ih: "\<And>src'. resync_to_magic src1 = (True, src') \<Longrightarrow> step_ok c src' (decode_buf c None src')" for src1
    proof -
      obtain found src' where r: "resync_to_magic src1 = (found, src')" by (meson surj_pair)
      have len: "length src' \<le> length src1" using r by (auto simp: resync_to_magic_def split: option.splits)
      have e: "wire_scan c (src @ ys) = wire_scan c (src' @ ys)" for ys using eq resync_scan [OF r] by simp
      show ?thesis
      proof (cases found)
        case True
        have "step_ok c src (decode_buf c None src')"
          by (rule step_ok_via [OF e]) (use that(2) len ih r True in auto)
        with r True show ?thesis by simp
      next
        case False
        then have "wire_scan c src' = []" using resync_nothing r by (intro scan_short) simp
        with r False e show ?thesis by (simp add: step_ok_def state_ok_def)
      qed
    qed
    show ?thesis
    proof (cases "get16 (take 2 src) = MAGIC")
      case False
      have ih: "step_ok c src' (decode_buf c None src')" if "resync_to_magic src = (True, src')" for src'
        using "1.IH"(1) [OF resync(1) st_def _ _ _ that [symmetric]] resync False
        by (simp add: state_ok_def)
      from via [OF refl order.refl ih] resync False show ?thesis
        by (subst decode_buf.simps) (simp add: st_def [symmetric] Let_def)
    next
      case True
      have bad: "src ! 2 \<noteq> VERSION \<or> unat (get64 (take 8 (drop 8 src))) > MAX_FRAME_LEN"
        using resync True by (auto simp: header_ok_def)
      have ih: "step_ok c src' (decode_buf c None src')" if "resync_to_magic (drop 1 src) = (True, src')" for src'
        using "1.IH"(2) [OF resync(1) st_def _ _ _ bad that [symmetric]] resync True
        by (simp add: state_ok_def)
      have "wire_scan c (src @ ys) = wire_scan c (drop 1 src @ ys)" for ys
        using scan_skip [of "src @ ys" c] resync(1,3,4) header_same(3) [of src ys] by (cases src) auto
      from via [OF this _ ih] resync True bad show ?thesis
        by (subst decode_buf.simps) (simp add: st_def [symmetric] Let_def)
    qed
  next
    case 5
    then have f: "get16 (take 2 src) = MAGIC" "\<not> (src ! 2 \<noteq> VERSION \<or> unat (get64 (take 8 (drop 8 src))) > MAX_FRAME_LEN)"
      by (auto simp: header_ok_def)
    have "decode_buf c self src = (if length src < st_total_length (header_state src)
        then (Inr None, Some (header_state src), src) else finish_frame c (header_state src) src)"
      using 5 f by (subst decode_buf.simps) (simp add: st_def [symmetric] Let_def header_state_def)
    with header_step [OF 5(4), of c] show ?thesis by simp
  qed
qed

end
