(* ===== verification/Wire_Transport.thy ===== *)
theory Wire_Transport
  imports Wire_Endec
begin

text \<open>The receiving half of a gateway's connection (\<open>crates/gateway-rs/src/codec.rs\<close>,
  \<open>crates/gateway-rs/src/transport.rs\<close>): websocket messages are appended to a buffer the decoder drains.
  A socket is the list of what it will deliver; the end of the list is its end.\<close>

section \<open>The code\<close>

text \<open>The text of a decode error is what an error of the decoder prints, which is kept as that error, or another
  text.\<close>

datatype DecodeText = EndecText EndecError | OtherText string

datatype TransportError = TransportClosed | TransportEncode string | TransportDecode DecodeText | TransportIo string

definition map_endec :: "EndecError \<Rightarrow> TransportError" where
  "map_endec err = TransportDecode (EndecText err)"

definition gateway_encode_frame :: "'m WireCodec \<Rightarrow> 'm PrioritizedFrame \<Rightarrow> TransportError + bytes" where
  "gateway_encode_frame c frame = (case encode_item c frame [] of Inl e \<Rightarrow> Inl (map_endec e) | Inr dst \<Rightarrow> Inr dst)"

definition decode_step ::
  "'m WireCodec \<Rightarrow> EndecState option \<Rightarrow> bytes \<Rightarrow> (TransportError + 'm) option \<times> EndecState option \<times> bytes" where
  "decode_step c decoder buf =
    (case decode_item c decoder buf of
       (Inr (Some (Frame frame)), r) \<Rightarrow> (Some (Inr (pf_msg frame)), r)
     | (Inr (Some (FrameFailed err)), r) \<Rightarrow> (Some (Inl (map_endec err)), r)
     | (Inl err, r) \<Rightarrow> (Some (Inl (map_endec err)), r)
     | (Inr None, r) \<Rightarrow> (None, r))"

datatype WsEvent = WsOpen | WsBinary bytes | WsText string | WsClosed string

record SeamWsIn =
  sw_rx :: "WsEvent list"
  sw_decoder :: "EndecState option"
  sw_buf :: bytes

definition connect_timed_out :: TransportError where
  "connect_timed_out = TransportIo ''ws connect timed out after 10s''"

text \<open>The handshake waits for the socket to open, or for a first frame, which is kept. \<open>in_time\<close> is how many
  events arrive before the time limit.\<close>

fun seam_handshake :: "nat \<Rightarrow> WsEvent list \<Rightarrow> TransportError + (bytes \<times> WsEvent list)" where
  "seam_handshake 0 rx = Inl connect_timed_out"
| "seam_handshake (Suc n) [] = Inl TransportClosed"
| "seam_handshake (Suc n) (WsOpen # rx) = Inr ([], rx)"
| "seam_handshake (Suc n) (WsBinary bytes # rx) = Inr (bytes, rx)"
| "seam_handshake (Suc n) (WsText t # rx) = seam_handshake n rx"
| "seam_handshake (Suc n) (WsClosed reason # rx) = Inl (TransportDecode (OtherText (''ws connect: '' @ reason)))"

definition connect_seam_ws :: "nat \<Rightarrow> WsEvent list \<Rightarrow> TransportError + SeamWsIn" where
  "connect_seam_ws in_time rx =
    (case seam_handshake in_time rx of
       Inl e \<Rightarrow> Inl e
     | Inr (buf, rx') \<Rightarrow> Inr \<lparr>sw_rx = rx', sw_decoder = None, sw_buf = buf\<rparr>)"

function seam_recv :: "'m WireCodec \<Rightarrow> SeamWsIn \<Rightarrow> (TransportError + 'm) option \<times> SeamWsIn" where
  "seam_recv c w =
    (case decode_step c (sw_decoder w) (sw_buf w) of
       (Some result, decoder, buf) \<Rightarrow> (Some result, w\<lparr>sw_decoder := decoder, sw_buf := buf\<rparr>)
     | (None, decoder, buf) \<Rightarrow>
         let w' = w\<lparr>sw_decoder := decoder, sw_buf := buf\<rparr> in
         (case sw_rx w of
            WsBinary bytes # rx \<Rightarrow> seam_recv c (w'\<lparr>sw_rx := rx, sw_buf := buf @ bytes\<rparr>)
          | WsText t # rx \<Rightarrow> seam_recv c (w'\<lparr>sw_rx := rx\<rparr>)
          | WsOpen # rx \<Rightarrow> seam_recv c (w'\<lparr>sw_rx := rx\<rparr>)
          | WsClosed reason # rx \<Rightarrow> (None, w'\<lparr>sw_rx := rx\<rparr>)
          | [] \<Rightarrow> (None, w')))"
  by pat_completeness auto
termination by (relation "measure (\<lambda>(c, w). length (sw_rx w))") auto

declare seam_recv.simps [simp del]

text \<open>What a caller that reads to the end gets; \<open>fuel\<close> bounds the number of messages.\<close>

fun recv_all :: "'m WireCodec \<Rightarrow> nat \<Rightarrow> SeamWsIn \<Rightarrow> (TransportError + 'm) list" where
  "recv_all c 0 w = []"
| "recv_all c (Suc fuel) w =
    (case seam_recv c w of (None, w') \<Rightarrow> [] | (Some r, w') \<Rightarrow> r # recv_all c fuel w')"

section \<open>The receiver implements the scan\<close>

fun recv_result :: "'m DecodedFrame \<Rightarrow> TransportError + 'm" where
  "recv_result (Frame f) = Inr (pf_msg f)"
| "recv_result (FrameFailed e) = Inl (map_endec e)"

text \<open>The bytes a socket still delivers: what comes before its end.\<close>

fun rx_bytes :: "WsEvent list \<Rightarrow> bytes" where
  "rx_bytes (WsBinary bytes # rx) = bytes @ rx_bytes rx"
| "rx_bytes (WsClosed reason # rx) = []"
| "rx_bytes (e # rx) = rx_bytes rx"
| "rx_bytes [] = []"

definition sw_rest :: "SeamWsIn \<Rightarrow> bytes" where
  "sw_rest w = sw_buf w @ rx_bytes (sw_rx w)"

lemma decode_step_scan:
  assumes "state_ok decoder buf" "decode_step c decoder buf = (r, decoder', buf')"
  shows "state_ok decoder' buf'"
    and "case r of
        Some res \<Rightarrow> (\<exists>fr. recv_result fr = res \<and> (\<forall>ys. wire_scan c (buf @ ys) = fr # wire_scan c (buf' @ ys))) \<and> length buf' < length buf
      | None \<Rightarrow> (\<forall>ys. wire_scan c (buf @ ys) = wire_scan c (buf' @ ys)) \<and> wire_scan c buf' = []"
proof -
  have s: "step_ok c buf (decode_buf c decoder buf)" by (rule decode_buf_step [OF assms(1)])
  obtain q d b where q: "decode_buf c decoder buf = (q, d, b)" by (metis prod_cases3)
  have "state_ok decoder' buf' \<and> (case r of
        Some res \<Rightarrow> (\<exists>fr. recv_result fr = res \<and> (\<forall>ys. wire_scan c (buf @ ys) = fr # wire_scan c (buf' @ ys))) \<and> length buf' < length buf
      | None \<Rightarrow> (\<forall>ys. wire_scan c (buf @ ys) = wire_scan c (buf' @ ys)) \<and> wire_scan c buf' = [])"
  proof (cases q)
    case (Inl e)
    with s q assms(2) show ?thesis
      by (auto simp: step_ok_def decode_step_def decode_item_def intro!: exI [of _ "FrameFailed e"])
  next
    case (Inr o')
    with s q assms(2) show ?thesis
      by (cases o') (auto simp: step_ok_def decode_step_def decode_item_def intro!: exI [of _ "Frame _"])
  qed
  then show "state_ok decoder' buf'" "case r of
        Some res \<Rightarrow> (\<exists>fr. recv_result fr = res \<and> (\<forall>ys. wire_scan c (buf @ ys) = fr # wire_scan c (buf' @ ys))) \<and> length buf' < length buf
      | None \<Rightarrow> (\<forall>ys. wire_scan c (buf @ ys) = wire_scan c (buf' @ ys)) \<and> wire_scan c buf' = []"
    by simp_all
qed

lemma seam_recv_scan:
  assumes "state_ok (sw_decoder w) (sw_buf w)" "seam_recv c w = (r, w')"
  shows "case r of
      Some res \<Rightarrow> state_ok (sw_decoder w') (sw_buf w') \<and>
        (\<exists>fr. recv_result fr = res \<and> wire_scan c (sw_rest w) = fr # wire_scan c (sw_rest w'))
    | None \<Rightarrow> wire_scan c (sw_rest w) = []"
  using assms
proof (induction c w arbitrary: r w' rule: seam_recv.induct)
  case (1 c w)
  obtain res decoder buf where d: "decode_step c (sw_decoder w) (sw_buf w) = (res, decoder, buf)"
    by (metis prod_cases3)
  note s = decode_step_scan [OF "1.prems"(1) d]
  show ?case
  proof (cases res)
    case (Some x)
    with s d "1.prems"(2) show ?thesis
      by (subst (asm) seam_recv.simps) (auto simp: sw_rest_def)
  next
    case None
    note r = "1.prems"(2) [unfolded seam_recv.simps [of c w] d None, simplified Let_def, simplified]
    have same: "wire_scan c (sw_rest w) = wire_scan c (buf @ rx_bytes (sw_rx w))" "wire_scan c buf = []"
      using s(2) None by (simp_all add: sw_rest_def)
    show ?thesis
    proof (cases "sw_rx w")
      case Nil
      with r same show ?thesis by auto
    next
      case (Cons e rx)
      note ih = "1.IH" [OF d [symmetric] None refl refl Cons]
      show ?thesis
      proof (cases e)
        case WsOpen
        with ih(1) [OF WsOpen, of r w'] r Cons same s(1) show ?thesis by (cases r) (auto simp: sw_rest_def)
      next
        case (WsBinary bytes)
        with ih(2) [OF WsBinary, of r w'] state_ok_append [OF s(1)] r Cons same show ?thesis by (cases r) (auto simp: sw_rest_def)
      next
        case (WsText t)
        with ih(3) [OF WsText, of r w'] r Cons same s(1) show ?thesis by (cases r) (auto simp: sw_rest_def)
      next
        case (WsClosed reason)
        with r Cons same show ?thesis by (auto simp: sw_rest_def)
      qed
    qed
  qed
qed


lemma recv_all_scan:
  "state_ok (sw_decoder w) (sw_buf w) \<Longrightarrow> recv_all c fuel w = take fuel (map recv_result (wire_scan c (sw_rest w)))"
proof (induction fuel arbitrary: w)
  case (Suc fuel)
  obtain r w' where r: "seam_recv c w = (r, w')" by force
  with seam_recv_scan [OF Suc.prems r] Suc.IH [of w'] show ?case by (cases r) auto
qed simp

lemma seam_handshake_bytes: "seam_handshake n rx = Inr (buf, rx') \<Longrightarrow> buf @ rx_bytes rx' = rx_bytes rx"
  by (induction n rx rule: seam_handshake.induct) auto

lemma recv_connected:
  assumes "connect_seam_ws in_time rx = Inr w"
  shows "recv_all c fuel w = take fuel (map recv_result (wire_scan c (rx_bytes rx)))"
proof -
  obtain buf rx' where "seam_handshake in_time rx = Inr (buf, rx')" "w = \<lparr>sw_rx = rx', sw_decoder = None, sw_buf = buf\<rparr>"
    using assms by (auto simp: connect_seam_ws_def split: sum.splits)
  then have "state_ok (sw_decoder w) (sw_buf w)" "sw_rest w = rx_bytes rx"
    using seam_handshake_bytes by (auto simp: state_ok_def sw_rest_def)
  then show ?thesis by (simp add: recv_all_scan)
qed

text \<open>C38. However the socket cuts the byte stream into messages, a gateway receives exactly the frames a scan of
  the whole stream finds, each as its message or as the error its body gave.\<close>

theorem wire_receiver_is_scan:
  assumes "connect_seam_ws in_time rx = Inr w"
  shows "recv_all c fuel w = take fuel (map recv_result (wire_scan c (rx_bytes rx)))"
  by (rule recv_connected [OF assms])

section \<open>What is sent is received\<close>

definition codec_inverts :: "'m WireCodec \<Rightarrow> 'm \<Rightarrow> bool" where
  "codec_inverts c m =
    (case wc_to_msgpack c m of
       Inl e \<Rightarrow> True
     | Inr packed \<Rightarrow> wc_from_msgpack c packed = Inr m \<and> length packed \<le> MAX_FRAME_LEN \<and>
         (case wc_gzip c packed of
            Inl e \<Rightarrow> True
          | Inr zipped \<Rightarrow> length zipped \<le> MAX_FRAME_LEN \<and> wc_gunzip_upto c (MAX_FRAME_LEN + 1) zipped = Inr packed))"

fun encode_all :: "'m WireCodec \<Rightarrow> 'm PrioritizedFrame list \<Rightarrow> bytes \<Rightarrow> EndecError + bytes" where
  "encode_all c [] dst = Inr dst"
| "encode_all c (f # fs) dst = res_bind (encode_item c f dst) (encode_all c fs)"

lemma compress_body_inverts:
  assumes "compress_body c priority compress packed = Inr (compression, body)" "length packed \<le> MAX_FRAME_LEN"
    "case wc_gzip c packed of Inl e \<Rightarrow> True
      | Inr zipped \<Rightarrow> length zipped \<le> MAX_FRAME_LEN \<and> wc_gunzip_upto c (MAX_FRAME_LEN + 1) zipped = Inr packed"
  shows "body_payload c compression body = Inr packed \<and> length body \<le> MAX_FRAME_LEN"
  using assms by (auto simp: compress_body_def body_payload_def Let_def split: if_splits sum.splits)

lemma nat_be_numeral [wire_simps]: "nat_be (numeral k) x = nat_be (pred_numeral k) (x div 256) @ [of_nat x]"
  by (subst numeral_eq_Suc) simp

lemma be16_magic: "be16 MAGIC = [0xDE, 0xAD]"
proof -
  have "get16 [0xDE, 0xAD] = MAGIC" by (simp add: get16_def be_nat_def MAGIC_def)
  then show ?thesis using be16_get16 [of "[0xDE, 0xAD]"] by simp
qed

lemma encoded_header:
  fixes body :: bytes and compression :: Compression and priority :: Priority
  assumes "length body \<le> MAX_FRAME_LEN"
  defines "enc \<equiv> encode_header compression priority body @ body"
  shows "header_ok enc" "frame_end enc = length enc" "drop HEADER_LEN enc = body"
    "header_state enc = \<lparr>st_compression = compression, st_encoding = Msgpack, st_priority = priority,
       st_length = of_nat (length body), st_header_parsed = True, st_total_length = HEADER_LEN + length body\<rparr>"
proof -
  have l: "unat (of_nat (length body) :: u64) = length body"
    using assms(1) by (simp add: MAX_FRAME_LEN_def unat_of_nat)
  have b: "take 2 enc = be16 MAGIC" "take 8 (drop 8 enc) = be64 (of_nat (length body))" "drop 16 enc = body"
    "enc ! 2 = VERSION" "enc ! 3 = (case compression of Gzip \<Rightarrow> COMPRESSION_GZIP | Uncompressed \<Rightarrow> COMPRESSION_NONE)"
    "enc ! 4 = ENCODING_MSGPACK" "enc ! 5 = Priority_as_byte priority" "length enc = 16 + length body"
    by (simp_all add: enc_def encode_header_def be16_magic)
  have c1: "Compression_from (case compression of Gzip \<Rightarrow> COMPRESSION_GZIP | Uncompressed \<Rightarrow> COMPRESSION_NONE) = compression"
    by (cases compression) (simp_all add: Compression_from_def COMPRESSION_GZIP_def COMPRESSION_NONE_def)
  have c2: "Encoding_from ENCODING_MSGPACK = Msgpack" by (simp add: Encoding_from_def)
  have c3: "Priority_from_byte (Priority_as_byte priority) = priority"
    by (cases priority) (simp_all add: Priority_from_byte_def)
  note c = c1 c2 c3
  show "header_ok enc" "frame_end enc = length enc" "drop HEADER_LEN enc = body"
    "header_state enc = \<lparr>st_compression = compression, st_encoding = Msgpack, st_priority = priority,
       st_length = of_nat (length body), st_header_parsed = True, st_total_length = HEADER_LEN + length body\<rparr>"
    using assms(1) by (simp_all add: header_ok_def frame_end_def header_state_def HEADER_LEN_def b c l)
qed

lemma encoded_frame_at:
  assumes "encode_item c f dst = Inr dst'" "codec_inverts c (pf_msg f)"
  obtains enc where "dst' = dst @ enc" "header_ok enc" "frame_end enc = length enc"
    "frame_at c enc = Frame (PrioritizedFrame_new (pf_priority f) (pf_msg f))" "hd enc = 0xDE"
proof -
  obtain packed compression body where e: "wc_to_msgpack c (pf_msg f) = Inr packed"
    "compress_body c (pf_priority f) (pf_compress f) packed = Inr (compression, body)"
    "dst' = dst @ encode_header compression (pf_priority f) body @ body"
    using assms(1) by (auto simp: encode_item_def encode_frame_def split: sum.splits)
  have c: "wc_from_msgpack c packed = Inr (pf_msg f)" "length packed \<le> MAX_FRAME_LEN"
    "case wc_gzip c packed of Inl e \<Rightarrow> True
      | Inr zipped \<Rightarrow> length zipped \<le> MAX_FRAME_LEN \<and> wc_gunzip_upto c (MAX_FRAME_LEN + 1) zipped = Inr packed"
    using assms(2) e(1) by (simp_all add: codec_inverts_def)
  have p: "body_payload c compression body = Inr packed" and n: "length body \<le> MAX_FRAME_LEN"
    using compress_body_inverts [OF e(2) c(2,3)] by simp_all
  have l: "unat (of_nat (length body) :: u64) = length body"
    using n by (simp add: MAX_FRAME_LEN_def unat_of_nat)
  have h: "hd (encode_header compression (pf_priority f) body @ body) = 0xDE"
    by (simp add: encode_header_def be16_magic)
  show thesis
    by (rule that [OF e(3) encoded_header(1,2) [OF n] _ h])
      (simp add: frame_at_def encoded_header(3,4) [OF n] l p c(1) typed_decode_def Let_def del: drop_append)
qed

lemma encode_all_scan:
  assumes "encode_all c fs dst = Inr dst'" "\<forall>f\<in>set fs. codec_inverts c (pf_msg f)"
  shows "\<exists>enc. dst' = dst @ enc \<and> (enc = [] \<or> hd enc = 0xDE) \<and>
    (\<forall>ys. wire_scan c (enc @ ys) = map (\<lambda>f. Frame (PrioritizedFrame_new (pf_priority f) (pf_msg f))) fs @ wire_scan c ys)"
  using assms
proof (induction fs arbitrary: dst)
  case (Cons f fs)
  obtain d where d: "encode_item c f dst = Inr d" "encode_all c fs d = Inr dst'"
    using Cons.prems(1) by (auto simp: res_bind_eq_Inr)
  obtain enc where e: "d = dst @ enc" "header_ok enc" "frame_end enc = length enc"
    "frame_at c enc = Frame (PrioritizedFrame_new (pf_priority f) (pf_msg f))" "hd enc = 0xDE"
    using encoded_frame_at [OF d(1)] Cons.prems(2) by auto
  obtain enc' where e': "dst' = d @ enc'"
    "\<And>ys. wire_scan c (enc' @ ys) = map (\<lambda>f. Frame (PrioritizedFrame_new (pf_priority f) (pf_msg f))) fs @ wire_scan c ys"
    using Cons.IH [OF d(2)] Cons.prems(2) by auto
  have "wire_scan c ((enc @ enc') @ ys) = Frame (PrioritizedFrame_new (pf_priority f) (pf_msg f)) # wire_scan c (enc' @ ys)" for ys
    using scan_frame [OF e(2), of c "enc' @ ys"] e(3,4) by simp
  moreover have "enc \<noteq> []" using e(2) by (auto simp: header_ok_def HEADER_LEN_def)
  ultimately show ?case using e' e(1,5) by (intro exI [of _ "enc @ enc'"]) (simp add: hd_append)
qed simp

text \<open>Bytes without the magic, not even across their end, are skipped.\<close>

lemma scan_junk:
  assumes "magic_at (junk @ [0xDE]) = None" "enc = [] \<or> hd enc = 0xDE"
  shows "wire_scan c (junk @ enc) = wire_scan c enc"
proof (cases enc)
  case Nil
  have "magic_at junk = None" using assms(1) by (induction junk rule: magic_at.induct) (auto split: if_splits)
  then have "wire_scan c (junk @ []) = wire_scan c (drop (length junk - 1) junk @ [])"
    by (intro scan_no_magic) simp
  then show ?thesis using Nil by (simp add: scan_short HEADER_LEN_def)
next
  case (Cons b ys)
  with assms(2) have "enc = 0xDE # ys" by simp
  moreover have "wire_scan c ((junk @ [0xDE]) @ ys) = wire_scan c (drop (length junk) (junk @ [0xDE]) @ ys)"
    using assms(1) by (intro scan_no_magic) simp
  ultimately show ?thesis by simp
qed

text \<open>C39. Frames sent over a connection arrive as their messages, in order, however the socket cuts the
  stream, and also when the gateway joins it behind bytes that hold no magic; provided that the serializer and gzip
  invert what they have made of each message and that its body, packed and compressed, is within the 16 MiB of
  \<open>MAX_FRAME_LEN\<close> (\<open>codec_inverts\<close>), which the encoder does not check and the decoder refuses.\<close>

theorem wire_stream_roundtrip:
  assumes "encode_all c fs junk = Inr (rx_bytes rx)" "\<forall>f\<in>set fs. codec_inverts c (pf_msg f)"
    and "magic_at (junk @ [0xDE]) = None"
    and "connect_seam_ws in_time rx = Inr w" "length fs \<le> fuel"
  shows "recv_all c fuel w = map (\<lambda>f. Inr (pf_msg f)) fs"
proof -
  obtain enc where e: "rx_bytes rx = junk @ enc" "enc = [] \<or> hd enc = 0xDE"
    "\<And>ys. wire_scan c (enc @ ys) = map (\<lambda>f. Frame (PrioritizedFrame_new (pf_priority f) (pf_msg f))) fs @ wire_scan c ys"
    using encode_all_scan [OF assms(1,2)] by auto
  have "wire_scan c (rx_bytes rx) = map (\<lambda>f. Frame (PrioritizedFrame_new (pf_priority f) (pf_msg f))) fs"
    using scan_junk [OF assms(3) e(2), of c] e(1) e(3) [of "[]"] by (simp add: scan_short HEADER_LEN_def)
  then show ?thesis
    using recv_connected [OF assms(4), of c fuel] assms(5) by (simp add: PrioritizedFrame_new_def o_def)
qed

section \<open>A codec for the witnesses\<close>

definition demo_codec :: "bytes WireCodec" where
  "demo_codec = \<lparr>wc_to_msgpack = (\<lambda>m. Inr (0x91 # m)),
     wc_from_msgpack = (\<lambda>b. if b \<noteq> [] \<and> hd b = 0x91 then Inr (tl b) else Inl ''rmp''),
     wc_from_json = (\<lambda>b. Inl ''json''),
     wc_gzip = (\<lambda>b. Inr (0x1F # b)),
     wc_gunzip_upto = (\<lambda>n b. if b \<noteq> [] \<and> hd b = 0x1F then Inr (take n (tl b)) else Inl ''gzip'')\<rparr>"

definition demo_frames :: "bytes PrioritizedFrame list" where
  "demo_frames = [\<lparr>pf_priority = Normal, pf_compress = CompressAuto, pf_msg = [1, 2]\<rparr>,
     \<lparr>pf_priority = Bulk, pf_compress = CompressAlways, pf_msg = [3]\<rparr>]"

definition demo_rx :: "WsEvent list" where
  "demo_rx = [WsText ''hello'', WsBinary [7, 0xDE, 0xDE], WsBinary [0xAD, 2, 0, 0, 0, 0, 0, 0, 0, 0, 0, 0, 0, 0], WsOpen,
     WsBinary [3, 0x91, 1, 2, 0xDE, 0xAD, 2, 1, 0, 1, 0, 0, 0, 0], WsBinary [0, 0, 0, 0, 0, 3, 0x1F, 0x91, 3],
     WsClosed ''bye'', WsBinary [9]]"

lemma wire_receiver_is_scan_witness:
  "\<exists>w. connect_seam_ws 2 demo_rx = Inr w \<and>
     recv_all demo_codec 9 w = take 9 (map recv_result (wire_scan demo_codec (rx_bytes demo_rx)))"
  using wire_receiver_is_scan [of 2 demo_rx _ demo_codec 9]
  by (simp add: demo_rx_def connect_seam_ws_def numeral_2_eq_2)

lemma wire_stream_roundtrip_witness:
  "\<exists>w. connect_seam_ws 2 demo_rx = Inr w \<and> recv_all demo_codec 9 w = [Inr [1, 2], Inr [3]]"
proof -
  have e: "encode_all demo_codec demo_frames [7, 0xDE] = Inr (rx_bytes demo_rx)"
    by (simp add: demo_frames_def demo_codec_def demo_rx_def encode_item_def encode_frame_def compress_body_def
      AUTO_GZIP_THRESHOLD_BYTES_def encode_header_def be16_magic be64_def wire_simps VERSION_def COMPRESSION_NONE_def
      COMPRESSION_GZIP_def ENCODING_MSGPACK_def Let_def)
  have c: "\<forall>f\<in>set demo_frames. codec_inverts demo_codec (pf_msg f)"
    by (simp add: demo_frames_def demo_codec_def codec_inverts_def MAX_FRAME_LEN_def)
  have j: "magic_at ([7, 0xDE] @ [0xDE]) = None"
    by (simp add: get16_def be_nat_def MAGIC_def)
  obtain w where w: "connect_seam_ws 2 demo_rx = Inr w"
    by (simp add: demo_rx_def connect_seam_ws_def numeral_2_eq_2)
  have "recv_all demo_codec 9 w = map (\<lambda>f. Inr (pf_msg f)) demo_frames"
    by (rule wire_stream_roundtrip [OF e c j w]) (simp add: demo_frames_def)
  with w show ?thesis by (simp add: demo_frames_def)
qed

end
