(* ===== verification/Transfer_Receive.thy ===== *)
theory Transfer_Receive
  imports Prelude "HOL-Library.AList"
begin

text \<open>The receiver of a chunked transfer on the gateway's side (\<open>crates/delivery/core/src/transfer/receiver.rs\<close>):
  fragments are collected in order into the body of a registered transfer, or held for a while when they come
  before the registration. The hash maps are association lists, the mutex makes every operation one step, a
  one-shot channel is the name of the caller that waits for it, and instants are milliseconds. The digest is a
  parameter.\<close>

section \<open>Messages\<close>

type_synonym Uuid = "128 word"

record TransferRef =
  tr_id :: Uuid
  tr_total_size :: u32
  tr_sha256 :: "string option"

record TransferFragment =
  fg_transfer_id :: Uuid
  fg_offset :: u32
  fg_bytes :: bytes

record TransferAbandon =
  ab_transfer_id :: Uuid
  ab_reason :: string

record TransferAck =
  ak_transfer_id :: Uuid
  ak_received :: u32

section \<open>State\<close>

definition ACK_INTERVAL_BYTES :: u64 where "ACK_INTERVAL_BYTES = 16 * 1024"
definition MAX_TRANSFER_BYTES :: u64 where "MAX_TRANSFER_BYTES = 1024 * 1024"
definition RECEIPT_ACK_INTERVAL_BYTES :: u32 where "RECEIPT_ACK_INTERVAL_BYTES = ucast ACK_INTERVAL_BYTES"
definition PREREGISTRATION_BUDGET_BYTES :: nat where "PREREGISTRATION_BUDGET_BYTES = 512 * 1024"
definition PREREGISTRATION_TTL :: nat where "PREREGISTRATION_TTL = 5000"

datatype TransferReceiveError =
    NotRegistered Uuid
  | TimedOut Uuid
  | TooLarge Uuid u32
  | Overflow Uuid
  | Gap Uuid u32 u32
  | ShaMismatch Uuid string string
  | Abandoned Uuid string
  | Stopped Uuid

type_synonym Collected = "TransferReceiveError + bytes"
type_synonym caller = nat

record Pending =
  pn_total_size :: u32
  pn_sha256 :: "string option"
  pn_buffer :: bytes
  pn_last_acked :: u32
  pn_waiter :: "caller option"
  pn_terminal :: "Collected option"

record Buffered =
  bf_fragments :: "(u32 \<times> bytes) list"
  bf_bytes :: nat
  bf_expires_at :: nat

record RecvState =
  rs_pending :: "(Uuid \<times> Pending) list"
  rs_buffer :: "(Uuid \<times> Buffered) list"
  rs_buffered_bytes :: nat

definition RecvState_default :: RecvState where
  "RecvState_default = \<lparr>rs_pending = [], rs_buffer = [], rs_buffered_bytes = 0\<rparr>"

text \<open>What a step lets out: an acknowledgement for the sender, or the result of a caller's \<open>collect\<close>.\<close>

datatype RecvOut = AckOut TransferAck | Returned caller Uuid Collected

section \<open>Operations\<close>

text \<open>Dropping a waiter resolves its caller as stopped.\<close>

definition drop_waiter :: "Uuid \<Rightarrow> Pending \<Rightarrow> RecvOut list" where
  "drop_waiter i p = (case pn_waiter p of None \<Rightarrow> [] | Some w \<Rightarrow> [Returned w i (Inl (Stopped i))])"

definition settle_pending :: "RecvState \<Rightarrow> Uuid \<Rightarrow> Collected \<Rightarrow> RecvState \<times> RecvOut list" where
  "settle_pending state i outcome =
    (case map_of (rs_pending state) i of
       None \<Rightarrow> (state, [])
     | Some p \<Rightarrow>
         if pn_terminal p \<noteq> None then (state, [])
         else (case pn_waiter p of
           None \<Rightarrow> (state\<lparr>rs_pending := AList.update i (p\<lparr>pn_buffer := [], pn_terminal := Some outcome\<rparr>) (rs_pending state)\<rparr>, [])
         | Some w \<Rightarrow> (state\<lparr>rs_pending := AList.delete i (rs_pending state)\<rparr>, [Returned w i outcome])))"

datatype IngestStep = StepGap u32 | StepOverflow | StepComplete bytes | StepAck u32 | StepQuiet

definition ingest_step :: "Pending \<Rightarrow> u32 \<Rightarrow> bytes \<Rightarrow> Pending \<times> IngestStep" where
  "ingest_step p offset bs =
    (let have = of_nat (length (pn_buffer p)) in
     if offset \<noteq> have then (p, StepGap have)
     else if length (pn_buffer p) + length bs > unat (pn_total_size p) then (p, StepOverflow)
     else
       let buffer = pn_buffer p @ bs; received = of_nat (length buffer) in
       if received = pn_total_size p then (p\<lparr>pn_buffer := []\<rparr>, StepComplete buffer)
       else if received - pn_last_acked p \<ge> RECEIPT_ACK_INTERVAL_BYTES
         then (p\<lparr>pn_buffer := buffer, pn_last_acked := received\<rparr>, StepAck received)
       else (p\<lparr>pn_buffer := buffer\<rparr>, StepQuiet))"

definition ascii_lower :: "char \<Rightarrow> nat" where
  "ascii_lower ch = (let n = of_char ch :: nat in if 65 \<le> n \<and> n \<le> 90 then n + 32 else n)"

definition eq_ignore_ascii_case :: "string \<Rightarrow> string \<Rightarrow> bool" where
  "eq_ignore_ascii_case a b \<longleftrightarrow> map ascii_lower a = map ascii_lower b"

definition verify_body :: "(bytes \<Rightarrow> string) \<Rightarrow> Uuid \<Rightarrow> string option \<Rightarrow> bytes \<Rightarrow> Collected" where
  "verify_body sha256_hex i want body =
    (case want of
       Some want \<Rightarrow> (let got = sha256_hex body in
         if eq_ignore_ascii_case got want then Inr body else Inl (ShaMismatch i want got))
     | None \<Rightarrow> Inr body)"

definition ingest ::
  "(bytes \<Rightarrow> string) \<Rightarrow> RecvState \<Rightarrow> Uuid \<Rightarrow> u32 \<Rightarrow> bytes \<Rightarrow> RecvState \<times> RecvOut list \<times> u32 option" where
  "ingest sha state i offset bs =
    (case map_of (rs_pending state) i of
       None \<Rightarrow> (state, [], None)
     | Some p \<Rightarrow>
         if pn_terminal p \<noteq> None then (state, [], None)
         else
           let (p', step) = ingest_step p offset bs;
               state' = state\<lparr>rs_pending := AList.update i p' (rs_pending state)\<rparr> in
           (case step of
              StepGap expected \<Rightarrow> (let (s, out) = settle_pending state' i (Inl (Gap i expected offset)) in (s, out, None))
            | StepOverflow \<Rightarrow> (let (s, out) = settle_pending state' i (Inl (Overflow i)) in (s, out, None))
            | StepComplete body \<Rightarrow>
                (let (s, out) = settle_pending state' i (verify_body sha i (pn_sha256 p) body)
                 in (s, out, Some (of_nat (length body))))
            | StepAck received \<Rightarrow> (state', [], Some received)
            | StepQuiet \<Rightarrow> (state', [], None)))"

definition ack_out :: "Uuid \<Rightarrow> u32 option \<Rightarrow> RecvOut list" where
  "ack_out i received = (case received of None \<Rightarrow> [] | Some r \<Rightarrow> [AckOut \<lparr>ak_transfer_id = i, ak_received = r\<rparr>])"

definition evict_expired :: "nat \<Rightarrow> RecvState \<Rightarrow> RecvState" where
  "evict_expired now state = state\<lparr>
     rs_buffer := filter (\<lambda>(i, held). bf_expires_at held > now) (rs_buffer state),
     rs_buffered_bytes := rs_buffered_bytes state
       - sum_list (map (\<lambda>(i, held). bf_bytes held) (filter (\<lambda>(i, held). \<not> bf_expires_at held > now) (rs_buffer state)))\<rparr>"

definition hold_unregistered :: "nat \<Rightarrow> RecvState \<Rightarrow> TransferFragment \<Rightarrow> RecvState" where
  "hold_unregistered now state fragment =
    (let n = length (fg_bytes fragment) in
     if rs_buffered_bytes state + n > PREREGISTRATION_BUDGET_BYTES then state
     else
       let expires_at = now + PREREGISTRATION_TTL;
           held = (case map_of (rs_buffer state) (fg_transfer_id fragment) of
             None \<Rightarrow> \<lparr>bf_fragments = [], bf_bytes = 0, bf_expires_at = expires_at\<rparr> | Some h \<Rightarrow> h);
           held' = \<lparr>bf_fragments = bf_fragments held @ [(fg_offset fragment, fg_bytes fragment)],
             bf_bytes = bf_bytes held + n, bf_expires_at = expires_at\<rparr>
       in state\<lparr>rs_buffered_bytes := rs_buffered_bytes state + n,
            rs_buffer := AList.update (fg_transfer_id fragment) held' (rs_buffer state)\<rparr>)"

text \<open>The fragments that were held, until the transfer has its result.\<close>

fun replay ::
  "(bytes \<Rightarrow> string) \<Rightarrow> RecvState \<Rightarrow> Uuid \<Rightarrow> (u32 \<times> bytes) list \<Rightarrow> RecvState \<times> RecvOut list \<times> u32 list" where
  "replay sha state i [] = (state, [], [])"
| "replay sha state i ((offset, bs) # held) =
    (case map_of (rs_pending state) i of
       None \<Rightarrow> (state, [], [])
     | Some p \<Rightarrow>
         if pn_terminal p \<noteq> None then (state, [], [])
         else
           let (s, out, ack) = ingest sha state i offset bs; (s', out', acks) = replay sha s i held
           in (s', out @ out', (case ack of None \<Rightarrow> acks | Some r \<Rightarrow> r # acks)))"

definition new_pending :: "TransferRef \<Rightarrow> Pending" where
  "new_pending transfer =
    \<lparr>pn_total_size = tr_total_size transfer, pn_sha256 = tr_sha256 transfer, pn_buffer = [], pn_last_acked = 0,
     pn_waiter = None,
     pn_terminal =
       (if tr_total_size transfer = 0 then Some (Inr [])
        else if ucast (tr_total_size transfer) > MAX_TRANSFER_BYTES
          then Some (Inl (TooLarge (tr_id transfer) (tr_total_size transfer)))
        else None)\<rparr>"

definition register :: "(bytes \<Rightarrow> string) \<Rightarrow> nat \<Rightarrow> TransferRef \<Rightarrow> RecvState \<Rightarrow> RecvState \<times> RecvOut list" where
  "register sha now transfer state0 =
    (let state = evict_expired now state0; i = tr_id transfer in
     if map_of (rs_pending state) i \<noteq> None then (state, [])
     else
       let p = new_pending transfer; state1 = state\<lparr>rs_pending := AList.update i p (rs_pending state)\<rparr> in
       if pn_terminal p \<noteq> None then (state1, [])
       else (case map_of (rs_buffer state1) i of
         None \<Rightarrow> (state1, [])
       | Some held \<Rightarrow>
           let state2 = state1\<lparr>rs_buffer := AList.delete i (rs_buffer state1),
                 rs_buffered_bytes := rs_buffered_bytes state1 - bf_bytes held\<rparr>;
               (s, out, acks) = replay sha state2 i (bf_fragments held)
           in (s, out @ concat (map (\<lambda>r. ack_out i (Some r)) acks))))"

definition on_fragment :: "(bytes \<Rightarrow> string) \<Rightarrow> nat \<Rightarrow> TransferFragment \<Rightarrow> RecvState \<Rightarrow> RecvState \<times> RecvOut list" where
  "on_fragment sha now fragment state0 =
    (let i = fg_transfer_id fragment; state = evict_expired now state0 in
     if map_of (rs_pending state) i \<noteq> None
     then let (s, out, ack) = ingest sha state i (fg_offset fragment) (fg_bytes fragment) in (s, out @ ack_out i ack)
     else (hold_unregistered now state fragment, []))"

definition on_abandon :: "TransferAbandon \<Rightarrow> RecvState \<Rightarrow> RecvState \<times> RecvOut list" where
  "on_abandon abandon state =
    (let i = ab_transfer_id abandon;
         state1 = (case map_of (rs_buffer state) i of
           None \<Rightarrow> state
         | Some held \<Rightarrow> state\<lparr>rs_buffer := AList.delete i (rs_buffer state),
             rs_buffered_bytes := rs_buffered_bytes state - bf_bytes held\<rparr>)
     in if map_of (rs_pending state1) i \<noteq> None then settle_pending state1 i (Inl (Abandoned i (ab_reason abandon)))
        else (state1, []))"

fun settle_all :: "RecvState \<Rightarrow> Uuid list \<Rightarrow> RecvState \<times> RecvOut list" where
  "settle_all state [] = (state, [])"
| "settle_all state (i # is) =
    (let (s, out) = settle_pending state i (Inl (Stopped i)); (s', out') = settle_all s is in (s', out @ out'))"

definition stop :: "RecvState \<Rightarrow> RecvState \<times> RecvOut list" where
  "stop state =
    (let (s, out) = settle_all state (map fst (rs_pending state))
     in (s\<lparr>rs_buffer := [], rs_buffered_bytes := 0\<rparr>, out))"

text \<open>\<open>collect\<close> up to its \<open>await\<close>, and its timeout. A caller that is still waiting when another one asks
  for the same transfer loses its channel.\<close>

definition collect :: "caller \<Rightarrow> Uuid \<Rightarrow> RecvState \<Rightarrow> RecvState \<times> RecvOut list" where
  "collect w i state =
    (case map_of (rs_pending state) i of
       None \<Rightarrow> (state, [Returned w i (Inl (NotRegistered i))])
     | Some p \<Rightarrow>
         (case pn_terminal p of
            Some terminal \<Rightarrow> (state\<lparr>rs_pending := AList.delete i (rs_pending state)\<rparr>, [Returned w i terminal])
          | None \<Rightarrow> (state\<lparr>rs_pending := AList.update i (p\<lparr>pn_waiter := Some w\<rparr>) (rs_pending state)\<rparr>, drop_waiter i p)))"

definition collect_timeout :: "caller \<Rightarrow> Uuid \<Rightarrow> RecvState \<Rightarrow> RecvState \<times> RecvOut list" where
  "collect_timeout w i state =
    (case map_of (rs_pending state) i of
       Some p \<Rightarrow> (if pn_waiter p = Some w
         then (state\<lparr>rs_pending := AList.delete i (rs_pending state)\<rparr>, [Returned w i (Inl (TimedOut i))]) else (state, []))
     | None \<Rightarrow> (state, []))"

datatype RecvCall =
    Register nat TransferRef
  | OnFragment nat TransferFragment
  | OnAbandon TransferAbandon
  | Collect caller Uuid
  | CollectTimeout caller Uuid
  | Stop

fun recv_call :: "(bytes \<Rightarrow> string) \<Rightarrow> RecvCall \<Rightarrow> RecvState \<Rightarrow> RecvState \<times> RecvOut list" where
  "recv_call sha (Register now transfer) = register sha now transfer"
| "recv_call sha (OnFragment now fragment) = on_fragment sha now fragment"
| "recv_call sha (OnAbandon abandon) = on_abandon abandon"
| "recv_call sha (Collect w i) = collect w i"
| "recv_call sha (CollectTimeout w i) = collect_timeout w i"
| "recv_call sha Stop = stop"

fun recv_calls :: "(bytes \<Rightarrow> string) \<Rightarrow> RecvCall list \<Rightarrow> RecvState \<Rightarrow> RecvState \<times> RecvOut list" where
  "recv_calls sha [] state = (state, [])"
| "recv_calls sha (c # cs) state =
    (let (s, out) = recv_call sha c state; (s', out') = recv_calls sha cs s in (s', out @ out'))"

end
