(* ===== verification/Transfer_Receive_Facts.thy ===== *)
theory Transfer_Receive_Facts
  imports Transfer_Receive "HOL-Library.Sublist"
begin

text \<open>What the receiver of a transfer promises: its state stays within its bounds, and a body that a caller is
  given consists of fragments of that transfer in the order they came, without a gap, of the registered
  length and digest.\<close>

section \<open>Association lists\<close>

lemma map_of_filter_snd:
  "distinct (map fst xs) \<Longrightarrow> map_of (filter (\<lambda>(i, h). Q h) xs) i = (case map_of xs i of Some h \<Rightarrow> if Q h then Some h else None | None \<Rightarrow> None)"
  by (induction xs) (auto split: option.splits simp: map_of_eq_None_iff image_iff dest: map_of_SomeD)

lemma distinct_filter_keys: "distinct (map fst xs) \<Longrightarrow> distinct (map fst (filter Q xs))"
  by (induction xs) auto

lemma delete_absent: "i \<notin> fst ` set xs \<Longrightarrow> AList.delete i xs = xs"
  by (simp add: delete_id)

lemma sum_delete:
  "distinct (map fst xs) \<Longrightarrow> map_of xs i = Some h \<Longrightarrow>
    sum_list (map (f \<circ> snd) xs) = f h + sum_list (map (f \<circ> snd) (AList.delete i xs))" for f :: "'b \<Rightarrow> nat"
  by (induction xs) (auto simp: delete_absent split: if_splits)

lemma sum_update:
  "sum_list (map (f \<circ> snd) (AList.update i h xs)) + (case map_of xs i of Some h0 \<Rightarrow> f h0 | None \<Rightarrow> 0)
    = sum_list (map (f \<circ> snd) xs) + f h" for f :: "'b \<Rightarrow> nat"
  by (induction xs) (auto split: option.splits)

lemma sum_filter: "sum_list (map (f \<circ> snd) (filter (\<lambda>(i, h). Q h) xs)) + sum_list (map (f \<circ> snd) (filter (\<lambda>(i, h). \<not> Q h) xs))
    = sum_list (map (f \<circ> snd) xs)" for f :: "'b \<Rightarrow> nat"
  by (induction xs) auto

section \<open>The invariant\<close>

text \<open>The fragments of a transfer in a history of calls, and its registrations.\<close>

fun fragments_of :: "Uuid \<Rightarrow> RecvCall list \<Rightarrow> (u32 \<times> bytes) list" where
  "fragments_of i (OnFragment now f # cs) =
    (if fg_transfer_id f = i then [(fg_offset f, fg_bytes f)] else []) @ fragments_of i cs"
| "fragments_of i (_ # cs) = fragments_of i cs"
| "fragments_of i [] = []"

fun contiguous :: "nat \<Rightarrow> (u32 \<times> bytes) list \<Rightarrow> bool" where
  "contiguous n [] = True"
| "contiguous n ((offset, bs) # fs) = (unat offset = n \<and> contiguous (n + length bs) fs)"

definition assembled :: "RecvCall list \<Rightarrow> Uuid \<Rightarrow> bytes \<Rightarrow> bool" where
  "assembled hist i body \<longleftrightarrow>
    (\<exists>fs. subseq fs (fragments_of i hist) \<and> contiguous 0 fs \<and> concat (map snd fs) = body)"

definition digest_matches :: "(bytes \<Rightarrow> string) \<Rightarrow> string option \<Rightarrow> bytes \<Rightarrow> bool" where
  "digest_matches sha want body = (case want of None \<Rightarrow> True | Some want \<Rightarrow> eq_ignore_ascii_case (sha body) want)"

definition registered :: "RecvCall list \<Rightarrow> Uuid \<Rightarrow> u32 \<Rightarrow> string option \<Rightarrow> bool" where
  "registered hist i total_len want \<longleftrightarrow>
    (\<exists>now tr. Register now tr \<in> set hist \<and> tr_id tr = i \<and> tr_total_size tr = total_len \<and> tr_sha256 tr = want)"

text \<open>A body that may be handed over: fragments of the transfer, of the length of a registration of it, and of its digest.
  The code hands over the empty body of a transfer that is registered with length 0 without a look at the digest.\<close>

definition body_ok :: "(bytes \<Rightarrow> string) \<Rightarrow> RecvCall list \<Rightarrow> Uuid \<Rightarrow> bytes \<Rightarrow> bool" where
  "body_ok sha hist i body \<longleftrightarrow>
    assembled hist i body \<and>
    (\<exists>want. registered hist i (of_nat (length body)) want \<and> (body \<noteq> [] \<longrightarrow> digest_matches sha want body)) \<and>
    length body \<le> unat MAX_TRANSFER_BYTES"

definition pending_ok :: "(bytes \<Rightarrow> string) \<Rightarrow> RecvCall list \<Rightarrow> Uuid \<Rightarrow> Pending \<Rightarrow> bool" where
  "pending_ok sha hist i p \<longleftrightarrow>
    registered hist i (pn_total_size p) (pn_sha256 p) \<and>
    (case pn_terminal p of
       None \<Rightarrow> assembled hist i (pn_buffer p) \<and> length (pn_buffer p) < unat (pn_total_size p) \<and>
         unat (pn_total_size p) \<le> unat MAX_TRANSFER_BYTES \<and> unat (pn_last_acked p) \<le> length (pn_buffer p) \<and>
         length (pn_buffer p) < unat (pn_last_acked p) + unat RECEIPT_ACK_INTERVAL_BYTES
     | Some outcome \<Rightarrow> pn_buffer p = [] \<and> pn_waiter p = None \<and>
         (case outcome of Inl e \<Rightarrow> True | Inr body \<Rightarrow> body_ok sha hist i body))"

definition held_ok :: "RecvCall list \<Rightarrow> Uuid \<Rightarrow> Buffered \<Rightarrow> bool" where
  "held_ok hist i h \<longleftrightarrow>
    bf_bytes h = sum_list (map (length \<circ> snd) (bf_fragments h)) \<and> subseq (bf_fragments h) (fragments_of i hist)"

definition recv_inv :: "(bytes \<Rightarrow> string) \<Rightarrow> RecvCall list \<Rightarrow> RecvState \<Rightarrow> bool" where
  "recv_inv sha hist st \<longleftrightarrow>
    (\<forall>i p. map_of (rs_pending st) i = Some p \<longrightarrow> pending_ok sha hist i p) \<and>
    (\<forall>i h. map_of (rs_buffer st) i = Some h \<longrightarrow> held_ok hist i h) \<and>
    distinct (map fst (rs_buffer st)) \<and>
    rs_buffered_bytes st = sum_list (map (bf_bytes \<circ> snd) (rs_buffer st)) \<and>
    rs_buffered_bytes st \<le> PREREGISTRATION_BUDGET_BYTES"

fun out_ok :: "(bytes \<Rightarrow> string) \<Rightarrow> RecvCall list \<Rightarrow> RecvOut \<Rightarrow> bool" where
  "out_ok sha hist (Returned w i (Inr body)) = body_ok sha hist i body"
| "out_ok sha hist _ = True"

definition step_good :: "(bytes \<Rightarrow> string) \<Rightarrow> RecvCall list \<Rightarrow> RecvState \<times> RecvOut list \<Rightarrow> bool" where
  "step_good sha hist r \<longleftrightarrow> recv_inv sha hist (fst r) \<and> (\<forall>x\<in>set (snd r). out_ok sha hist x)"

subsection \<open>Longer histories\<close>

lemma fragments_of_append [simp]: "fragments_of i (cs @ ds) = fragments_of i cs @ fragments_of i ds"
  by (induction i cs rule: fragments_of.induct) auto

lemma subseq_longer: "subseq fs xs \<Longrightarrow> subseq fs (xs @ ys)"
  using list_emb_append_mono [of "(=)" fs xs "[]" ys] by simp

lemma assembled_longer: "assembled hist i body \<Longrightarrow> assembled (hist @ cs) i body"
  unfolding assembled_def by (auto intro: subseq_longer)

lemma registered_longer: "registered hist i total_len want \<Longrightarrow> registered (hist @ cs) i total_len want"
  unfolding registered_def by auto

lemma body_ok_longer: "body_ok sha hist i body \<Longrightarrow> body_ok sha (hist @ cs) i body"
  unfolding body_ok_def using assembled_longer registered_longer by metis

lemma pending_ok_longer: "pending_ok sha hist i p \<Longrightarrow> pending_ok sha (hist @ cs) i p"
  unfolding pending_ok_def
  by (auto split: option.splits sum.splits intro: assembled_longer registered_longer body_ok_longer)

lemma held_ok_longer: "held_ok hist i h \<Longrightarrow> held_ok (hist @ cs) i h"
  unfolding held_ok_def by (auto intro: subseq_longer)

lemma recv_inv_longer: "recv_inv sha hist st \<Longrightarrow> recv_inv sha (hist @ cs) st"
  unfolding recv_inv_def using pending_ok_longer held_ok_longer by metis

section \<open>Every call keeps the invariant\<close>

lemma recv_inv_pending:
  assumes "recv_inv sha hist st"
    "\<And>j q. map_of xs j = Some q \<Longrightarrow> map_of (rs_pending st) j = Some q \<or> pending_ok sha hist j q"
  shows "recv_inv sha hist (st\<lparr>rs_pending := xs\<rparr>)"
  using assms unfolding recv_inv_def by simp blast

lemma recv_inv_update:
  assumes "recv_inv sha hist st" "pending_ok sha hist i p"
  shows "recv_inv sha hist (st\<lparr>rs_pending := AList.update i p (rs_pending st)\<rparr>)"
  using assms by (intro recv_inv_pending) (auto simp: update_conv' split: if_splits)

lemma recv_inv_delete:
  assumes "recv_inv sha hist st"
  shows "recv_inv sha hist (st\<lparr>rs_pending := AList.delete i (rs_pending st)\<rparr>)"
  using assms by (intro recv_inv_pending) (auto simp: delete_conv' split: if_splits)

lemma recv_inv_get: "recv_inv sha hist st \<Longrightarrow> map_of (rs_pending st) i = Some p \<Longrightarrow> pending_ok sha hist i p"
  by (simp add: recv_inv_def)

lemma settle_updated:
  assumes "recv_inv sha hist st" "registered hist i (pn_total_size p) (pn_sha256 p)" "pn_terminal p = None"
    and "case outcome of Inl e \<Rightarrow> True | Inr body \<Rightarrow> body_ok sha hist i body"
  shows "step_good sha hist (settle_pending (st\<lparr>rs_pending := AList.update i p (rs_pending st)\<rparr>) i outcome)"
proof (cases "pn_waiter p")
  case None
  have "pending_ok sha hist i (p\<lparr>pn_buffer := [], pn_terminal := Some outcome\<rparr>)"
    using assms None by (simp add: pending_ok_def)
  then show ?thesis
    using assms None
    by (auto simp: settle_pending_def step_good_def update_conv' intro!: recv_inv_pending split: if_splits)
next
  case (Some w)
  then show ?thesis
    using assms
    by (auto simp: settle_pending_def step_good_def update_conv' delete_conv' intro!: recv_inv_pending split: if_splits sum.splits)
qed

lemma update_same: "map_of xs i = Some p \<Longrightarrow> map_of (AList.update i p xs) = map_of xs"
  by (auto simp: update_conv')

lemma settle_good:
  assumes "recv_inv sha hist st" "case outcome of Inl e \<Rightarrow> True | Inr body \<Rightarrow> body_ok sha hist i body"
  shows "step_good sha hist (settle_pending st i outcome)"
proof (cases "map_of (rs_pending st) i")
  case None
  then show ?thesis using assms by (simp add: settle_pending_def step_good_def)
next
  case (Some p)
  show ?thesis
  proof (cases "pn_terminal p")
    case None
    have p: "pending_ok sha hist i p" using recv_inv_get [OF assms(1) Some] .
    then have "pending_ok sha hist i (p\<lparr>pn_buffer := [], pn_terminal := Some outcome\<rparr>)" if "pn_waiter p = None"
      using assms that by (simp add: pending_ok_def)
    then show ?thesis
      using assms Some None
      by (auto simp: settle_pending_def step_good_def intro!: recv_inv_update recv_inv_delete split: option.splits sum.splits)
  next
    case (Some o')
    then show ?thesis using assms \<open>map_of (rs_pending st) i = Some p\<close> by (simp add: settle_pending_def step_good_def)
  qed
qed

subsection \<open>Fragments\<close>

text \<open>A fragment comes with the fragments it may follow: those that were in front of it.\<close>

definition part_of :: "(u32 \<times> bytes) list \<Rightarrow> bytes \<Rightarrow> bool" where
  "part_of seen buffer \<longleftrightarrow> (\<exists>fs. subseq fs seen \<and> contiguous 0 fs \<and> concat (map snd fs) = buffer)"

lemma assembled_part_of: "assembled hist i = part_of (fragments_of i hist)"
  by (intro ext) (simp add: assembled_def part_of_def)

lemma part_of_Nil [simp]: "part_of seen []"
  unfolding part_of_def by (intro exI [of _ "[]"]) simp

lemma part_of_snoc:
  assumes "part_of seen buffer" "unat offset = length buffer"
  shows "part_of (seen @ [(offset, bs)]) (buffer @ bs)"
proof -
  obtain fs where fs: "subseq fs seen" "contiguous 0 fs" "concat (map snd fs) = buffer"
    using assms(1) by (auto simp: part_of_def)
  have "contiguous n (fs @ [(offset, bs)]) = (contiguous n fs \<and> unat offset = n + length (concat (map snd fs)))" for n
    by (induction n fs rule: contiguous.induct) auto
  then have "contiguous 0 (fs @ [(offset, bs)])" using assms(2) fs by simp
  moreover have "subseq (fs @ [(offset, bs)]) (seen @ [(offset, bs)])" using fs(1) by simp
  ultimately show ?thesis unfolding part_of_def using fs(3) by (intro exI [of _ "fs @ [(offset, bs)]"]) simp
qed

lemma part_of_mono: "part_of seen buffer \<Longrightarrow> subseq seen seen' \<Longrightarrow> part_of seen' buffer"
  unfolding part_of_def using subseq_order.trans by blast

lemma interval [simp]: "unat RECEIPT_ACK_INTERVAL_BYTES = 16384"
  by (simp add: RECEIPT_ACK_INTERVAL_BYTES_def ACK_INTERVAL_BYTES_def)

lemma cap [simp]: "unat MAX_TRANSFER_BYTES = 1048576"
  by (simp add: MAX_TRANSFER_BYTES_def)

lemma unat_of_length: "n \<le> unat (t :: u32) \<Longrightarrow> unat (of_nat n :: u32) = n"
proof -
  assume a: "n \<le> unat t"
  have "n < 2 ^ 32" by (rule le_less_trans [OF a]) (use unsigned_less [of t, where ?'a = nat] in simp)
  then show ?thesis by (simp add: unat_of_nat)
qed

lemma of_length_eq: "n \<le> unat (t :: u32) \<Longrightarrow> of_nat n = t \<longleftrightarrow> n = unat t"
  using unat_of_length by fastforce

lemma unat_widened [simp]: "unat (ucast (t :: u32) :: u64) = unat t"
  by (simp add: unsigned_ucast_eq take_bit_nat_eq_self_iff less_le_trans [OF unsigned_less])

lemma due_iff:
  assumes "n \<le> unat (t :: u32)" "unat (a :: u32) \<le> n"
  shows "of_nat n - a \<ge> RECEIPT_ACK_INTERVAL_BYTES \<longleftrightarrow> n \<ge> unat a + 16384"
proof -
  have n: "unat (of_nat n :: u32) = n" by (rule unat_of_length [OF assms(1)])
  have "a \<le> (of_nat n :: u32)" using n assms(2) by (simp add: word_le_nat_alt)
  then have "unat (of_nat n - a) = n - unat a" by (simp add: unat_sub n)
  then show ?thesis using assms(2) by (simp add: word_le_nat_alt) linarith
qed

lemma settle_ends:
  assumes "settle_pending st i outcome = (st', out)"
  shows "map_of (rs_pending st') i = Some p' \<Longrightarrow> pn_terminal p' \<noteq> None" "rs_buffer st' = rs_buffer st"
    "rs_buffered_bytes st' = rs_buffered_bytes st"
  using assms by (auto simp: settle_pending_def update_conv' delete_conv' split: option.splits if_splits)

lemma settle_step:
  assumes "recv_inv sha hist st" "registered hist i (pn_total_size p) (pn_sha256 p)" "pn_terminal p = None"
    and "case outcome of Inl e \<Rightarrow> True | Inr body \<Rightarrow> body_ok sha hist i body"
    and "settle_pending (st\<lparr>rs_pending := AList.update i p (rs_pending st)\<rparr>) i outcome = (st', out)"
  shows "step_good sha hist (st', out) \<and> (map_of (rs_pending st') i = Some p' \<longrightarrow> pn_terminal p' \<noteq> None) \<and>
    rs_buffer st' = rs_buffer st"
  using settle_updated [OF assms(1-4)] assms(5) settle_ends [OF assms(5)] by auto

lemma ingest_good:
  assumes inv: "recv_inv sha hist st" and p: "map_of (rs_pending st) i = Some p" "pn_terminal p = None"
    and seen: "part_of seen (pn_buffer p)" "subseq (seen @ [(offset, bs)]) (fragments_of i hist)"
    and r: "ingest sha st i offset bs = (st', out, ack)"
  shows "step_good sha hist (st', out)"
    and "map_of (rs_pending st') i = Some p' \<Longrightarrow> pn_terminal p' = None \<Longrightarrow> part_of (seen @ [(offset, bs)]) (pn_buffer p')"
    and "rs_buffer st' = rs_buffer st"
proof -
  let ?n = "length (pn_buffer p)" and ?t = "unat (pn_total_size p)"
  have ok: "registered hist i (pn_total_size p) (pn_sha256 p)" "?n < ?t" "?t \<le> 1048576"
    "unat (pn_last_acked p) \<le> ?n" "?n < unat (pn_last_acked p) + 16384"
    using recv_inv_get [OF inv p(1)] p(2) by (simp_all add: pending_ok_def)
  have have_n: "offset = of_nat ?n \<longleftrightarrow> unat offset = ?n"
    using unat_of_length [of ?n "pn_total_size p"] ok(2) by (simp add: word_unat_eq_iff)
  note w = of_length_eq [of "?n + length bs" "pn_total_size p"] due_iff [of "?n + length bs" "pn_total_size p" "pn_last_acked p"]
    unat_of_length [of "?n + length bs" "pn_total_size p"]
  have mono: "part_of (seen @ [(offset, bs)]) b \<Longrightarrow> assembled hist i b" for b
    using part_of_mono seen(2) by (simp add: assembled_part_of)
  consider (gap) "unat offset \<noteq> ?n" | (over) "unat offset = ?n" "?n + length bs > ?t"
    | (full) "unat offset = ?n" "?n + length bs = ?t" | (part) "unat offset = ?n" "?n + length bs < ?t"
    by linarith
  then have "step_good sha hist (st', out) \<and>
    (map_of (rs_pending st') i = Some p' \<longrightarrow> pn_terminal p' = None \<longrightarrow> part_of (seen @ [(offset, bs)]) (pn_buffer p')) \<and>
    rs_buffer st' = rs_buffer st"
  proof cases
    case gap
    obtain s o' where s: "settle_pending (st\<lparr>rs_pending := AList.update i p (rs_pending st)\<rparr>) i (Inl (Gap i (of_nat ?n) offset)) = (s, o')"
      by force
    show ?thesis
      using settle_step [OF inv ok(1) p(2) _ s, of p'] gap r p s have_n
      by (auto simp: ingest_def ingest_step_def Let_def)
  next
    case over
    obtain s o' where s: "settle_pending (st\<lparr>rs_pending := AList.update i p (rs_pending st)\<rparr>) i (Inl (Overflow i)) = (s, o')"
      by force
    show ?thesis
      using settle_step [OF inv ok(1) p(2) _ s, of p'] over r p s have_n
      by (auto simp: ingest_def ingest_step_def Let_def)
  next
    case full
    let ?body = "pn_buffer p @ bs" and ?p = "p\<lparr>pn_buffer := []\<rparr>"
    obtain s o' where s: "settle_pending (st\<lparr>rs_pending := AList.update i ?p (rs_pending st)\<rparr>) i (verify_body sha i (pn_sha256 p) ?body) = (s, o')"
      by force
    have "assembled hist i ?body" using mono part_of_snoc [OF seen(1) full(1)] by simp
    moreover have "registered hist i (of_nat (length ?body)) (pn_sha256 p)" "length ?body \<le> 1048576"
      using ok full w(1) by simp_all
    ultimately have "body_ok sha hist i ?body" if "digest_matches sha (pn_sha256 p) ?body"
      using that by (auto simp: body_ok_def)
    then have "case verify_body sha i (pn_sha256 p) ?body of Inl e \<Rightarrow> True | Inr body \<Rightarrow> body_ok sha hist i body"
      by (cases "pn_sha256 p") (simp_all add: verify_body_def digest_matches_def Let_def)
    from settle_step [OF inv _ _ this s, of p'] full r p s ok(1) have_n w show ?thesis
      by (auto simp: ingest_def ingest_step_def Let_def)
  next
    case part
    let ?p = "p\<lparr>pn_buffer := pn_buffer p @ bs\<rparr>" and ?q = "p\<lparr>pn_buffer := pn_buffer p @ bs, pn_last_acked := of_nat (?n + length bs)\<rparr>"
    have a: "part_of (seen @ [(offset, bs)]) (pn_buffer p @ bs)" by (rule part_of_snoc [OF seen(1) part(1)])
    show ?thesis
    proof (cases "?n + length bs \<ge> unat (pn_last_acked p) + 16384")
      case True
      have "pending_ok sha hist i ?q" using ok part w(3) mono [OF a] p(2) by (simp add: pending_ok_def)
      from recv_inv_update [OF inv this] True part r p w a have_n ok(4) show ?thesis
        by (auto simp: ingest_def ingest_step_def Let_def step_good_def update_conv')
    next
      case False
      then have "pending_ok sha hist i ?p" using ok part mono [OF a] p(2) by (simp add: pending_ok_def)
      from recv_inv_update [OF inv this] False part r p w a have_n ok(4) show ?thesis
        by (auto simp: ingest_def ingest_step_def Let_def step_good_def update_conv')
    qed
  qed
  then show "step_good sha hist (st', out)"
    and "map_of (rs_pending st') i = Some p' \<Longrightarrow> pn_terminal p' = None \<Longrightarrow> part_of (seen @ [(offset, bs)]) (pn_buffer p')"
    and "rs_buffer st' = rs_buffer st" by simp_all
qed

lemma replay_good:
  assumes "recv_inv sha hist st" "subseq (seen @ held) (fragments_of i hist)"
    and "\<And>p. map_of (rs_pending st) i = Some p \<Longrightarrow> pn_terminal p = None \<Longrightarrow> part_of seen (pn_buffer p)"
    and "replay sha st i held = (st', out, acks)"
  shows "step_good sha hist (st', out)"
  using assms
proof (induction held arbitrary: st seen st' out acks)
  case Nil
  then show ?case by (simp add: step_good_def)
next
  case (Cons f held)
  obtain offset bs where f: "f = (offset, bs)" by force
  show ?case
  proof (cases "\<exists>p. map_of (rs_pending st) i = Some p \<and> pn_terminal p = None")
    case False
    then show ?thesis using Cons.prems f by (auto simp: step_good_def split: option.splits)
  next
    case True
    then obtain p where p: "map_of (rs_pending st) i = Some p" "pn_terminal p = None" by blast
    obtain s out1 ack where i: "ingest sha st i offset bs = (s, out1, ack)" by (metis prod_cases3)
    obtain s2 out2 acks2 where r: "replay sha s i held = (s2, out2, acks2)" by (metis prod_cases3)
    have eq: "st' = s2" "out = out1 @ out2" using Cons.prems(4) p f i r by auto
    have sub: "subseq (seen @ [(offset, bs)]) (fragments_of i hist)"
      by (rule subseq_order.trans [OF _ Cons.prems(2) [unfolded f]]) (rule list_emb_append_mono, simp_all)
    have g: "step_good sha hist (s, out1)"
      and part: "\<And>p'. map_of (rs_pending s) i = Some p' \<Longrightarrow> pn_terminal p' = None \<Longrightarrow> part_of (seen @ [(offset, bs)]) (pn_buffer p')"
      using ingest_good [OF Cons.prems(1) p Cons.prems(3) [OF p] sub i] by blast+
    have "step_good sha hist (s2, out2)"
      by (rule Cons.IH [OF _ _ part r]) (use g Cons.prems(2) f in \<open>auto simp: step_good_def\<close>)
    with g eq show ?thesis by (auto simp: step_good_def)
  qed
qed

subsection \<open>The calls\<close>

lemma evict_inv:
  assumes "recv_inv sha hist st"
  shows "recv_inv sha hist (evict_expired now st)"
proof -
  have "rs_buffered_bytes (evict_expired now st) = sum_list (map (bf_bytes \<circ> snd) (rs_buffer (evict_expired now st)))"
    using assms sum_filter [of bf_bytes "\<lambda>h. bf_expires_at h > now" "rs_buffer st"]
    by (simp add: recv_inv_def evict_expired_def comp_def case_prod_unfold)
  then show ?thesis
    using assms sum_filter [of bf_bytes "\<lambda>h. bf_expires_at h > now" "rs_buffer st"]
    by (auto simp: recv_inv_def evict_expired_def map_of_filter_snd distinct_filter_keys split: option.splits if_splits)
qed

lemma unhold_inv:
  assumes "recv_inv sha hist st" "map_of (rs_buffer st) i = Some held"
  shows "recv_inv sha hist (st\<lparr>rs_buffer := AList.delete i (rs_buffer st), rs_buffered_bytes := rs_buffered_bytes st - bf_bytes held\<rparr>)"
  using assms sum_delete [of "rs_buffer st" i held bf_bytes]
  by (auto simp: recv_inv_def delete_conv' distinct_delete split: if_splits)

lemma hold_inv:
  assumes inv: "recv_inv sha hist st"
  shows "recv_inv sha (hist @ [OnFragment t f]) (hold_unregistered now st f)"
proof (cases "rs_buffered_bytes st + length (fg_bytes f) > PREREGISTRATION_BUDGET_BYTES")
  case True
  then show ?thesis using recv_inv_longer [OF inv] by (simp add: hold_unregistered_def)
next
  case False
  let ?i = "fg_transfer_id f" and ?n = "length (fg_bytes f)"
  define held where "held = (case map_of (rs_buffer st) ?i of
      None \<Rightarrow> \<lparr>bf_fragments = [], bf_bytes = 0, bf_expires_at = now + PREREGISTRATION_TTL\<rparr> | Some h \<Rightarrow> h)"
  define held' where "held' = \<lparr>bf_fragments = bf_fragments held @ [(fg_offset f, fg_bytes f)], bf_bytes = bf_bytes held + ?n,
      bf_expires_at = now + PREREGISTRATION_TTL\<rparr>"
  have eq: "hold_unregistered now st f = st\<lparr>rs_buffered_bytes := rs_buffered_bytes st + ?n,
      rs_buffer := AList.update ?i held' (rs_buffer st)\<rparr>"
    using False by (simp add: hold_unregistered_def Let_def held_def held'_def)
  have "held_ok hist ?i held"
    using inv by (auto simp: recv_inv_def held_ok_def held_def split: option.splits)
  then have h: "held_ok (hist @ [OnFragment t f]) ?i held'"
    by (simp add: held_ok_def held'_def)
  have "sum_list (map (bf_bytes \<circ> snd) (AList.update ?i held' (rs_buffer st))) = rs_buffered_bytes st + ?n"
    using inv sum_update [of bf_bytes ?i held' "rs_buffer st"]
    by (cases "map_of (rs_buffer st) ?i") (auto simp: recv_inv_def held'_def held_def)
  with recv_inv_longer [OF inv, of "[OnFragment t f]"] False h show ?thesis
    by (auto simp: eq recv_inv_def update_conv' distinct_update split: if_splits)
qed

lemma on_fragment_good:
  assumes inv: "recv_inv sha hist st" and r: "on_fragment sha now f st = (st', out)"
  shows "step_good sha (hist @ [OnFragment now f]) (st', out)"
proof -
  let ?i = "fg_transfer_id f" and ?st = "evict_expired now st" and ?h = "hist @ [OnFragment now f]"
  have inv1: "recv_inv sha hist ?st" and inv2: "recv_inv sha ?h ?st"
    using evict_inv [OF inv] recv_inv_longer by blast+
  show ?thesis
  proof (cases "map_of (rs_pending ?st) ?i")
    case None
    then show ?thesis using r hold_inv [OF inv1, of now f now] by (auto simp: on_fragment_def Let_def step_good_def)
  next
    case (Some p)
    obtain s out1 ack where i: "ingest sha ?st ?i (fg_offset f) (fg_bytes f) = (s, out1, ack)" by (metis prod_cases3)
    have "step_good sha ?h (s, out1)"
    proof (cases "pn_terminal p")
      case None
      have "part_of (fragments_of ?i hist) (pn_buffer p)"
        using recv_inv_get [OF inv1 Some] None by (simp add: pending_ok_def assembled_part_of)
      then show ?thesis by (rule ingest_good(1) [OF inv2 Some None _ _ i]) simp
    next
      case (Some o')
      then show ?thesis using i inv2 \<open>map_of (rs_pending ?st) ?i = Some p\<close> by (auto simp: ingest_def step_good_def)
    qed
    moreover have "out_ok sha ?h x" if "x \<in> set (ack_out ?i ack)" for x
      using that by (auto simp: ack_out_def split: option.splits)
    ultimately show ?thesis using r Some i by (auto simp: on_fragment_def Let_def step_good_def)
  qed
qed

lemma register_good:
  assumes inv: "recv_inv sha hist st" and r: "register sha now tr st = (st', out)"
  shows "step_good sha (hist @ [Register now tr]) (st', out)"
proof -
  let ?i = "tr_id tr" and ?st = "evict_expired now st" and ?h = "hist @ [Register now tr]"
  let ?st1 = "?st\<lparr>rs_pending := AList.update ?i (new_pending tr) (rs_pending ?st)\<rparr>"
  have inv1: "recv_inv sha ?h ?st" using recv_inv_longer [OF evict_inv [OF inv]] .
  have reg: "registered ?h ?i (tr_total_size tr) (tr_sha256 tr)" by (auto simp: registered_def)
  then have "tr_total_size tr = 0 \<Longrightarrow> body_ok sha ?h ?i []"
    by (auto simp: body_ok_def assembled_part_of)
  with reg have p: "pending_ok sha ?h ?i (new_pending tr)"
    by (auto simp: pending_ok_def new_pending_def assembled_part_of word_le_nat_alt word_less_nat_alt
      unat_gt_0 not_less not_le)
  have inv2: "recv_inv sha ?h ?st1" by (rule recv_inv_update [OF inv1 p])
  show ?thesis
  proof (cases "map_of (rs_pending ?st) ?i \<noteq> None \<or> pn_terminal (new_pending tr) \<noteq> None \<or> map_of (rs_buffer ?st1) ?i = None")
    case True
    then have "(st', out) = (?st, []) \<or> (st', out) = (?st1, [])"
      using r by (auto simp: register_def Let_def split: if_splits option.splits)
    then show ?thesis using inv1 inv2 by (auto simp: step_good_def)
  next
    case False
    then obtain held where h: "map_of (rs_pending ?st) ?i = None" "pn_terminal (new_pending tr) = None"
      "map_of (rs_buffer ?st1) ?i = Some held" by auto
    let ?st2 = "?st1\<lparr>rs_buffer := AList.delete ?i (rs_buffer ?st1), rs_buffered_bytes := rs_buffered_bytes ?st1 - bf_bytes held\<rparr>"
    obtain s out1 acks where p': "replay sha ?st2 ?i (bf_fragments held) = (s, out1, acks)" by (metis prod_cases3)
    have "held_ok ?h ?i held" using inv2 h(3) by (simp add: recv_inv_def)
    then have "step_good sha ?h (s, out1)"
      by (intro replay_good [OF unhold_inv [OF inv2 h(3)] _ _ p', of "[]"]) (auto simp: held_ok_def update_conv' new_pending_def)
    moreover have "out_ok sha ?h x" if "x \<in> set (ack_out ?i (Some k))" for x k
      using that by (auto simp: ack_out_def)
    ultimately show ?thesis using r h p' by (auto simp: register_def Let_def step_good_def)
  qed
qed

lemma on_abandon_good:
  assumes inv: "recv_inv sha hist st"
  shows "step_good sha hist (on_abandon a st)"
proof -
  define st1 where "st1 = (case map_of (rs_buffer st) (ab_transfer_id a) of
           None \<Rightarrow> st
         | Some held \<Rightarrow> st\<lparr>rs_buffer := AList.delete (ab_transfer_id a) (rs_buffer st),
             rs_buffered_bytes := rs_buffered_bytes st - bf_bytes held\<rparr>)"
  have "recv_inv sha hist st1" using inv unhold_inv [OF inv] by (auto simp: st1_def split: option.splits)
  then show ?thesis
    using settle_good [of sha hist st1 "ab_transfer_id a" "Inl (Abandoned (ab_transfer_id a) (ab_reason a))"]
    by (auto simp: on_abandon_def Let_def st1_def [symmetric] step_good_def)
qed

lemma collect_good:
  assumes inv: "recv_inv sha hist st"
  shows "step_good sha hist (collect w i st)"
proof (cases "map_of (rs_pending st) i")
  case None
  then show ?thesis using inv by (simp add: collect_def step_good_def)
next
  case (Some p)
  note p = recv_inv_get [OF inv Some]
  then have "pending_ok sha hist i (p\<lparr>pn_waiter := Some w\<rparr>)" if "pn_terminal p = None"
    using that by (simp add: pending_ok_def)
  moreover have "out_ok sha hist (Returned w i o')" if "pn_terminal p = Some o'" for o'
    using p that by (cases o') (simp_all add: pending_ok_def)
  ultimately show ?thesis
    using inv Some by (auto simp: collect_def step_good_def drop_waiter_def intro: recv_inv_update recv_inv_delete split: option.splits)
qed

lemma collect_timeout_good:
  "recv_inv sha hist st \<Longrightarrow> step_good sha hist (collect_timeout w i st)"
  by (auto simp: collect_timeout_def step_good_def intro: recv_inv_delete split: option.splits)

lemma settle_all_good: "recv_inv sha hist st \<Longrightarrow> step_good sha hist (settle_all st is)"
proof (induction "is" arbitrary: st)
  case (Cons i "is")
  obtain s out where s: "settle_pending st i (Inl (Stopped i)) = (s, out)" by force
  with settle_good [OF Cons.prems, of i "Inl (Stopped i)"] have "step_good sha hist (s, out)" by simp
  with Cons.IH [of s] s show ?case by (auto simp: step_good_def split: prod.splits)
qed (simp add: step_good_def)

lemma stop_good:
  assumes "recv_inv sha hist st"
  shows "step_good sha hist (stop st)"
  using settle_all_good [OF assms, of "map fst (rs_pending st)"]
  by (auto simp: stop_def step_good_def recv_inv_def split: prod.splits)

lemma recv_call_good:
  assumes "recv_inv sha hist st"
  shows "step_good sha (hist @ [c]) (recv_call sha c st)"
proof (cases c)
  case (Register now tr)
  then show ?thesis using register_good [OF assms] by (cases "register sha now tr st") simp
next
  case (OnFragment now f)
  then show ?thesis using on_fragment_good [OF assms] by (cases "on_fragment sha now f st") simp
qed (use recv_inv_longer [OF assms, of "[c]"] on_abandon_good collect_good collect_timeout_good stop_good in simp_all)

lemma out_ok_longer: "out_ok sha hist x \<Longrightarrow> out_ok sha (hist @ cs) x"
  by (cases "(sha, hist, x)" rule: out_ok.cases) (auto intro: body_ok_longer)

lemma recv_calls_good:
  "recv_inv sha hist st \<Longrightarrow> step_good sha (hist @ cs) (recv_calls sha cs st)"
proof (induction cs arbitrary: hist st)
  case (Cons c cs)
  obtain s out where c: "recv_call sha c st = (s, out)" by force
  obtain s' out' where cs: "recv_calls sha cs s = (s', out')" by force
  have g: "step_good sha (hist @ [c]) (s, out)" using recv_call_good [OF Cons.prems, of c] c by simp
  then have "step_good sha ((hist @ [c]) @ cs) (s', out')" using Cons.IH [of "hist @ [c]" s] cs by (simp add: step_good_def)
  with g out_ok_longer [of sha "hist @ [c]" _ cs] c cs show ?case by (auto simp: step_good_def)
qed (simp add: step_good_def)

lemma recv_inv_default: "recv_inv sha [] RecvState_default"
  by (simp add: recv_inv_def RecvState_default_def)

section \<open>What callers get\<close>

text \<open>C37. Whatever is called in which order, the receiver's memory stays within its bounds: the fragments held for
  transfers nobody has registered take exactly the bytes that are counted, at most 512 KiB; the body of a running
  transfer is shorter than its registered size, which is at most 1 MiB, and less than an interval of it is
  unacknowledged; a transfer that has its result holds nothing and nobody waits for it.\<close>

theorem receiver_stays_bounded: "recv_inv sha cs (fst (recv_calls sha cs RecvState_default))"
  using recv_calls_good [OF recv_inv_default, of sha cs] by (simp add: step_good_def)

text \<open>C34. A body that \<open>collect\<close> returns consists of fragments of this transfer in the order they came, each
  where the one before it ends; it has exactly the length that the transfer was registered with, which is at most
  1 MiB, and unless it is empty the digest of that registration, where it names one. An empty body is only returned
  for a transfer registered with length 0; its digest is not looked at.\<close>

theorem receiver_bodies_genuine:
  assumes "Returned w i (Inr body) \<in> set (snd (recv_calls sha cs RecvState_default))"
  shows "body_ok sha cs i body"
  using recv_calls_good [OF recv_inv_default, of sha cs] assms by (auto simp: step_good_def)

definition demo_sha :: "bytes \<Rightarrow> string" where
  "demo_sha bs = (if length bs = 3 then ''ab'' else ''cd'')"

definition demo_calls :: "RecvCall list" where
  "demo_calls =
    [OnFragment 0 \<lparr>fg_transfer_id = 7, fg_offset = 0, fg_bytes = [1, 2]\<rparr>,
     Register 10 \<lparr>tr_id = 7, tr_total_size = 3, tr_sha256 = Some ''AB''\<rparr>,
     Collect 5 7,
     OnFragment 20 \<lparr>fg_transfer_id = 7, fg_offset = 2, fg_bytes = [3]\<rparr>]"

lemma receiver_bodies_genuine_witness: "body_ok demo_sha demo_calls 7 [1, 2, 3]"
proof (rule receiver_bodies_genuine [of 5])
  have lower: "eq_ignore_ascii_case ''ab'' ''AB''" by code_simp
  show "Returned 5 7 (Inr [1, 2, 3]) \<in> set (snd (recv_calls demo_sha demo_calls RecvState_default))"
    by (simp add: demo_calls_def RecvState_default_def on_fragment_def evict_expired_def hold_unregistered_def Let_def
      PREREGISTRATION_BUDGET_BYTES_def PREREGISTRATION_TTL_def register_def new_pending_def MAX_TRANSFER_BYTES_def
      ingest_def ingest_step_def collect_def drop_waiter_def settle_pending_def verify_body_def demo_sha_def lower
      RECEIPT_ACK_INTERVAL_BYTES_def ACK_INTERVAL_BYTES_def ack_out_def)
qed

text \<open>A transfer registered with length 0 is handed over whatever digest it was registered with.\<close>

lemma empty_body_unverified:
  "snd (recv_calls sha [Register 0 \<lparr>tr_id = 7, tr_total_size = 0, tr_sha256 = Some want\<rparr>, Collect 5 7] RecvState_default) =
    [Returned 5 7 (Inr [])]"
  by (simp add: RecvState_default_def register_def evict_expired_def new_pending_def collect_def Let_def)

end
