(* ===== verification/Transfer_Push.thy ===== *)
theory Transfer_Push
  imports Transfer_Receive_Facts
begin

text \<open>The device's sender of a transfer (\<open>crates/core/src/transfer/outbound.rs\<close>), and the system it makes with the
  gateway's receiver: fragments and acknowledgements travel in order, and an event is one turn of the sender,
  the arrival of a fragment or that of an acknowledgement.\<close>

section \<open>The sender\<close>

definition OUTBOUND_FRAGMENT_LEN :: nat where "OUTBOUND_FRAGMENT_LEN = 4 * 1024"
definition OUTBOUND_WINDOW :: u32 where "OUTBOUND_WINDOW = 64 * 1024"

text \<open>The watch channels of the running transfers, each with the bytes acknowledged so far.\<close>

type_synonym TransferOutbound = "(Uuid \<times> u32) list"

definition outbound_register :: "Uuid \<Rightarrow> TransferOutbound \<Rightarrow> TransferOutbound" where
  "outbound_register i acks = AList.update i 0 acks"

definition outbound_unregister :: "Uuid \<Rightarrow> TransferOutbound \<Rightarrow> TransferOutbound" where
  "outbound_unregister i acks = AList.delete i acks"

definition note_ack :: "Uuid \<Rightarrow> u32 \<Rightarrow> TransferOutbound \<Rightarrow> TransferOutbound" where
  "note_ack i received acks =
    (case map_of acks i of
       None \<Rightarrow> acks
     | Some acked \<Rightarrow> if received > acked then AList.update i received acks else acks)"

datatype StreamTurn =
    Awaiting
  | SendFragment TransferFragment nat
  | StreamDone

text \<open>One turn of the loop: the fragment to send and the next offset. \<open>Awaiting\<close> is the wait for the window,
  which ends with an acknowledgement or its timeout.\<close>

definition send_turn :: "Uuid \<Rightarrow> bytes \<Rightarrow> u32 \<Rightarrow> nat \<Rightarrow> StreamTurn" where
  "send_turn i bs acked offset =
    (if offset < length bs then
       (if offset \<ge> unat acked + unat OUTBOUND_WINDOW then Awaiting
        else
          let len = min OUTBOUND_FRAGMENT_LEN (length bs - offset) in
          SendFragment \<lparr>fg_transfer_id = i, fg_offset = of_nat offset, fg_bytes = take len (drop offset bs)\<rparr> (offset + len))
     else StreamDone)"

datatype OutboundMsg = FragmentMsg TransferFragment | AbandonMsg TransferAbandon

record PushState =
  ps_acks :: TransferOutbound
  ps_offset :: nat
  ps_result :: "bool option"
  ps_down :: "OutboundMsg list"
  ps_up :: "TransferAck list"
  ps_receiver :: RecvState
  ps_returned :: "RecvOut list"

datatype PushEvent = SenderTurn | WindowTimeout | DownArrives nat | UpArrives

definition acked_of :: "Uuid \<Rightarrow> PushState \<Rightarrow> u32" where
  "acked_of i s = (case map_of (ps_acks s) i of Some a \<Rightarrow> a | None \<Rightarrow> 0)"

definition stream_start :: "Uuid \<Rightarrow> RecvState \<Rightarrow> PushState" where
  "stream_start i receiver =
    \<lparr>ps_acks = outbound_register i [], ps_offset = 0, ps_result = None, ps_down = [], ps_up = [],
     ps_receiver = receiver, ps_returned = []\<rparr>"

definition is_ack :: "RecvOut \<Rightarrow> bool" where
  "is_ack x = (case x of AckOut a \<Rightarrow> True | _ \<Rightarrow> False)"

definition ack_msg :: "RecvOut \<Rightarrow> TransferAck" where
  "ack_msg x = (case x of AckOut a \<Rightarrow> a | _ \<Rightarrow> undefined)"

definition receive_down :: "(bytes \<Rightarrow> string) \<Rightarrow> nat \<Rightarrow> OutboundMsg \<Rightarrow> RecvState \<Rightarrow> RecvState \<times> RecvOut list" where
  "receive_down sha now m st =
    (case m of FragmentMsg f \<Rightarrow> on_fragment sha now f st | AbandonMsg a \<Rightarrow> on_abandon a st)"

text \<open>An event, when it can happen.\<close>

definition push_step :: "(bytes \<Rightarrow> string) \<Rightarrow> Uuid \<Rightarrow> bytes \<Rightarrow> PushEvent \<Rightarrow> PushState \<Rightarrow> PushState option" where
  "push_step sha i bs e s =
    (case e of
       SenderTurn \<Rightarrow>
         (if ps_result s \<noteq> None then None
          else case send_turn i bs (acked_of i s) (ps_offset s) of
            Awaiting \<Rightarrow> None
          | SendFragment f offset \<Rightarrow> Some (s\<lparr>ps_offset := offset, ps_down := ps_down s @ [FragmentMsg f]\<rparr>)
          | StreamDone \<Rightarrow> Some (s\<lparr>ps_acks := outbound_unregister i (ps_acks s), ps_result := Some True\<rparr>))
     | WindowTimeout \<Rightarrow>
         (if ps_result s = None \<and> send_turn i bs (acked_of i s) (ps_offset s) = Awaiting
          then Some (s\<lparr>ps_acks := outbound_unregister i (ps_acks s), ps_result := Some False,
            ps_down := ps_down s @ [AbandonMsg \<lparr>ab_transfer_id = i, ab_reason = ''ack window stalled''\<rparr>]\<rparr>)
          else None)
     | DownArrives now \<Rightarrow>
         (case ps_down s of
            [] \<Rightarrow> None
          | m # down \<Rightarrow>
              let (st, out) = receive_down sha now m (ps_receiver s) in
              Some (s\<lparr>ps_down := down, ps_receiver := st, ps_up := ps_up s @ map ack_msg (filter is_ack out),
                ps_returned := ps_returned s @ filter (\<lambda>x. \<not> is_ack x) out\<rparr>))
     | UpArrives \<Rightarrow>
         (case ps_up s of
            [] \<Rightarrow> None
          | a # up \<Rightarrow> Some (s\<lparr>ps_up := up, ps_acks := note_ack (ak_transfer_id a) (ak_received a) (ps_acks s)\<rparr>)))"

fun push_run :: "(bytes \<Rightarrow> string) \<Rightarrow> Uuid \<Rightarrow> bytes \<Rightarrow> PushEvent list \<Rightarrow> PushState \<Rightarrow> PushState option" where
  "push_run sha i bs [] s = Some s"
| "push_run sha i bs (e # es) s = Option.bind (push_step sha i bs e s) (push_run sha i bs es)"

section \<open>The invariant of the system\<close>

text \<open>The fragments under way, from where the receiver is to where the sender is.\<close>

fun under_way :: "Uuid \<Rightarrow> bytes \<Rightarrow> nat \<Rightarrow> nat \<Rightarrow> OutboundMsg list \<Rightarrow> bool" where
  "under_way i bs r offset [] = (r = offset)"
| "under_way i bs r offset (FragmentMsg f # ms) =
    (fg_transfer_id f = i \<and> unat (fg_offset f) = r \<and> fg_bytes f \<noteq> [] \<and> r + length (fg_bytes f) \<le> length bs \<and>
     fg_bytes f = take (length (fg_bytes f)) (drop r bs) \<and> under_way i bs (r + length (fg_bytes f)) offset ms)"
| "under_way i bs r offset (AbandonMsg a # ms) = False"

text \<open>The acknowledgements under way end with the last one the receiver sent.\<close>

definition acks_end :: "Uuid \<Rightarrow> nat \<Rightarrow> nat \<Rightarrow> TransferAck list \<Rightarrow> bool" where
  "acks_end i acked sent ups \<longleftrightarrow>
    (\<forall>a\<in>set ups. ak_transfer_id a = i) \<and> acked \<le> sent \<and> (\<forall>a\<in>set ups. unat (ak_received a) \<le> sent) \<and>
    (if ups = [] then acked = sent else unat (ak_received (last ups)) = sent)"

text \<open>\<open>r\<close> bytes are with the receiver, which acknowledged \<open>k\<close> of them.\<close>

definition push_inv_at :: "Uuid \<Rightarrow> bytes \<Rightarrow> string option \<Rightarrow> caller \<Rightarrow> nat \<Rightarrow> nat \<Rightarrow> PushState \<Rightarrow> bool" where
  "push_inv_at i bs want w r k s \<longleftrightarrow>
    ps_offset s \<le> length bs \<and> r \<le> length bs \<and> under_way i bs r (ps_offset s) (ps_down s) \<and>
    k \<le> r \<and> (\<forall>a\<in>set (ps_up s). ak_transfer_id a = i) \<and>
    (ps_result s = None \<and> map_of (ps_acks s) i \<noteq> None \<and> acks_end i (unat (acked_of i s)) k (ps_up s)
      \<or> ps_result s = Some True \<and> ps_offset s = length bs) \<and>
    (if r < length bs
     then ps_returned s = [] \<and> r < k + unat RECEIPT_ACK_INTERVAL_BYTES \<and>
       map_of (rs_pending (ps_receiver s)) i = Some \<lparr>pn_total_size = of_nat (length bs), pn_sha256 = want,
         pn_buffer = take r bs, pn_last_acked = of_nat k, pn_waiter = Some w, pn_terminal = None\<rparr>
     else ps_returned s = [Returned w i (Inr bs)])"

definition push_inv :: "Uuid \<Rightarrow> bytes \<Rightarrow> string option \<Rightarrow> caller \<Rightarrow> PushState \<Rightarrow> bool" where
  "push_inv i bs want w s \<longleftrightarrow> (\<exists>r k. push_inv_at i bs want w r k s)"

definition push_done :: "Uuid \<Rightarrow> bytes \<Rightarrow> caller \<Rightarrow> PushState \<Rightarrow> bool" where
  "push_done i bs w s \<longleftrightarrow> ps_result s = Some True \<and> ps_returned s = [Returned w i (Inr bs)] \<and> ps_down s = []"

definition push_measure :: "bytes \<Rightarrow> PushState \<Rightarrow> nat" where
  "push_measure bs s = 3 * (length bs - ps_offset s) + 2 * length (ps_down s) + length (ps_up s)
     + (if ps_result s = None then 1 else 0)"

lemma under_way_snoc:
  "under_way i bs r offset ms \<Longrightarrow> fg_transfer_id f = i \<Longrightarrow> unat (fg_offset f) = offset \<Longrightarrow> fg_bytes f \<noteq> [] \<Longrightarrow>
    offset + length (fg_bytes f) \<le> length bs \<Longrightarrow> fg_bytes f = take (length (fg_bytes f)) (drop offset bs) \<Longrightarrow>
    under_way i bs r (offset + length (fg_bytes f)) (ms @ [FragmentMsg f])"
  by (induction i bs r offset ms rule: under_way.induct) auto

lemma under_way_le: "under_way i bs r offset ms \<Longrightarrow> r \<le> offset"
  by (induction i bs r offset ms rule: under_way.induct) auto

lemma under_way_Nil: "under_way i bs r offset ms \<Longrightarrow> r = offset \<Longrightarrow> ms = []"
  by (cases "(i, bs, r, offset, ms)" rule: under_way.cases) (auto dest: under_way_le)

text \<open>A fragment in order.\<close>

lemma evict_pending [simp]: "rs_pending (evict_expired now st) = rs_pending st"
  by (simp add: evict_expired_def)

lemma on_fragment_part:
  assumes p: "map_of (rs_pending st) i = Some p" "pn_terminal p = None"
    and f: "fg_transfer_id f = i" "unat (fg_offset f) = length (pn_buffer p)"
      "length (pn_buffer p) + length (fg_bytes f) < unat (pn_total_size p)"
      "unat (pn_last_acked p) \<le> length (pn_buffer p)"
  defines "n \<equiv> length (pn_buffer p) + length (fg_bytes f)"
  shows "\<exists>st'. on_fragment sha now f st =
      (st', if n \<ge> unat (pn_last_acked p) + 16384 then [AckOut \<lparr>ak_transfer_id = i, ak_received = of_nat n\<rparr>] else []) \<and>
    map_of (rs_pending st') i = Some (p\<lparr>pn_buffer := pn_buffer p @ fg_bytes f,
      pn_last_acked := if n \<ge> unat (pn_last_acked p) + 16384 then of_nat n else pn_last_acked p\<rparr>)"
proof -
  let ?n = "length (pn_buffer p)"
  have o: "fg_offset f = of_nat ?n"
    using f(2,3) unat_of_length [of ?n "pn_total_size p"] by (simp add: word_unat_eq_iff)
  note w = of_length_eq [of n "pn_total_size p"] due_iff [of n "pn_total_size p" "pn_last_acked p"]
  show ?thesis
    using p f o w
    by (cases "n \<ge> unat (pn_last_acked p) + 16384")
      (auto simp: on_fragment_def ingest_def ingest_step_def Let_def n_def update_conv' ack_out_def)
qed

lemma on_fragment_full:
  assumes p: "map_of (rs_pending st) i = Some p" "pn_terminal p = None" "pn_waiter p = Some w"
    and f: "fg_transfer_id f = i" "unat (fg_offset f) = length (pn_buffer p)"
      "length (pn_buffer p) + length (fg_bytes f) = unat (pn_total_size p)"
    and body: "digest_matches sha (pn_sha256 p) (pn_buffer p @ fg_bytes f)"
  shows "\<exists>st'. on_fragment sha now f st =
      (st', [Returned w i (Inr (pn_buffer p @ fg_bytes f)), AckOut \<lparr>ak_transfer_id = i, ak_received = pn_total_size p\<rparr>])"
proof -
  let ?n = "length (pn_buffer p)"
  have o: "fg_offset f = of_nat ?n"
    using f(2,3) unat_of_length [of ?n "pn_total_size p"] by (simp add: word_unat_eq_iff)
  have t: "of_nat (?n + length (fg_bytes f)) = pn_total_size p" using f(3) by simp
  have v: "verify_body sha i (pn_sha256 p) (pn_buffer p @ fg_bytes f) = Inr (pn_buffer p @ fg_bytes f)"
    using body by (auto simp: verify_body_def digest_matches_def Let_def split: option.splits)
  show ?thesis
    using p f o t v
    by (auto simp: on_fragment_def ingest_def ingest_step_def Let_def update_conv' ack_out_def settle_pending_def)
qed

section \<open>Every event keeps it\<close>

lemma push_inv_start:
  assumes "map_of (rs_pending st) i = Some \<lparr>pn_total_size = of_nat (length bs), pn_sha256 = want, pn_buffer = [],
      pn_last_acked = 0, pn_waiter = Some w, pn_terminal = None\<rparr>" "bs \<noteq> []"
  shows "push_inv i bs want w (stream_start i st)"
  unfolding push_inv_def
  by (intro exI [of _ 0]) (use assms in \<open>simp add: push_inv_at_def stream_start_def acks_end_def acked_of_def outbound_register_def\<close>)

lemma push_inv_sender:
  assumes inv: "push_inv_at i bs want w r k s" and n: "length bs \<le> 1048576"
    and step: "push_step sha i bs SenderTurn s = Some s'"
  shows "push_inv_at i bs want w r k s' \<and> push_measure bs s' < push_measure bs s"
proof (cases "ps_offset s < length bs")
  case True
  let ?off = "ps_offset s"
  let ?len = "min OUTBOUND_FRAGMENT_LEN (length bs - ?off)"
  let ?f = "\<lparr>fg_transfer_id = i, fg_offset = of_nat ?off, fg_bytes = take ?len (drop ?off bs)\<rparr>"
  have s': "s' = s\<lparr>ps_offset := ?off + ?len, ps_down := ps_down s @ [FragmentMsg ?f]\<rparr>" "ps_result s = None"
    using step True by (auto simp: push_step_def send_turn_def Let_def split: if_splits)
  have u: "unat (of_nat ?off :: u32) = ?off" using True n by (simp add: unat_of_nat)
  have l: "0 < ?len" "?off + ?len \<le> length bs" using True by (simp_all add: OUTBOUND_FRAGMENT_LEN_def)
  have "under_way i bs r (?off + length (fg_bytes ?f)) (ps_down s @ [FragmentMsg ?f])"
    using inv u l by (intro under_way_snoc) (auto simp: push_inv_at_def)
  then show ?thesis
    using inv s' l by (auto simp: push_inv_at_def push_measure_def acked_of_def)
next
  case False
  then have "s' = s\<lparr>ps_acks := outbound_unregister i (ps_acks s), ps_result := Some True\<rparr>" "ps_result s = None"
    using step by (auto simp: push_step_def send_turn_def split: if_splits)
  with False inv show ?thesis by (auto simp: push_inv_at_def push_measure_def)
qed

lemma push_inv_up:
  assumes inv: "push_inv_at i bs want w r k s"
    and step: "push_step sha i bs UpArrives s = Some s'"
  shows "push_inv_at i bs want w r k s' \<and> push_measure bs s' < push_measure bs s"
proof -
  obtain a ups where a: "ps_up s = a # ups" using step by (auto simp: push_step_def split: list.splits)
  then have s': "s' = s\<lparr>ps_up := ups, ps_acks := note_ack (ak_transfer_id a) (ak_received a) (ps_acks s)\<rparr>"
    using step by (simp add: push_step_def)
  have i: "ak_transfer_id a = i" using inv a by (simp add: push_inv_at_def)
  have "acks_end i (unat (acked_of i s')) k ups \<and> map_of (ps_acks s') i \<noteq> None"
    if "map_of (ps_acks s) i \<noteq> None" "acks_end i (unat (acked_of i s)) k (ps_up s)"
    using that a i by (auto simp: s' acks_end_def acked_of_def note_ack_def update_conv' word_less_nat_alt word_le_nat_alt not_less split: if_splits)
  then show ?thesis using inv a by (auto simp: push_inv_at_def push_measure_def s')
qed

lemma push_inv_down:
  assumes inv: "push_inv_at i bs want w r k s" and n: "length bs \<le> 1048576" and d: "digest_matches sha want bs"
    and step: "push_step sha i bs (DownArrives now) s = Some s'"
  shows "\<exists>r' k'. push_inv_at i bs want w r' k' s' \<and> push_measure bs s' < push_measure bs s"
proof -
  obtain f down where m: "ps_down s = FragmentMsg f # down"
    using step inv by (auto simp: push_step_def push_inv_at_def split: list.splits OutboundMsg.splits elim: under_way.elims)
  let ?l = "length (fg_bytes f)"
  have f: "fg_transfer_id f = i" "unat (fg_offset f) = r" "fg_bytes f \<noteq> []" "r + ?l \<le> length bs"
    "fg_bytes f = take ?l (drop r bs)" "under_way i bs (r + ?l) (ps_offset s) down"
    using inv m by (simp_all add: push_inv_at_def)
  have r: "r < length bs" using f(3,4) by (cases "fg_bytes f") auto
  let ?p = "\<lparr>pn_total_size = of_nat (length bs), pn_sha256 = want, pn_buffer = take r bs, pn_last_acked = of_nat k,
      pn_waiter = Some w, pn_terminal = None\<rparr>"
  have p: "map_of (rs_pending (ps_receiver s)) i = Some ?p" "ps_returned s = []" "r < k + 16384" "k \<le> r"
    using inv r by (simp_all add: push_inv_at_def)
  have u: "unat (of_nat (length bs) :: u32) = length bs" "unat (of_nat k :: u32) = k"
    using n r p(4) by (simp_all add: unat_of_nat)
  have b: "take r bs @ fg_bytes f = take (r + ?l) bs" using f(5) by (simp add: take_add)
  show ?thesis
  proof (cases "r + ?l = length bs")
    case True
    obtain st' where "on_fragment sha now f (ps_receiver s) =
      (st', [Returned w i (Inr bs), AckOut \<lparr>ak_transfer_id = i, ak_received = of_nat (length bs)\<rparr>])"
      using on_fragment_full [OF p(1), of w f sha now] f True u b d r by auto
    then have "s' = s\<lparr>ps_down := down, ps_receiver := st',
        ps_up := ps_up s @ [\<lparr>ak_transfer_id = i, ak_received = of_nat (length bs)\<rparr>], ps_returned := [Returned w i (Inr bs)]\<rparr>"
      using step m p(2) by (simp add: push_step_def receive_down_def is_ack_def ack_msg_def)
    then have "push_inv_at i bs want w (length bs) (length bs) s'" "push_measure bs s' < push_measure bs s"
      using inv f True m u p by (auto simp: push_inv_at_def push_measure_def acks_end_def acked_of_def)
    then show ?thesis by blast
  next
    case False
    define due where "due \<longleftrightarrow> r + ?l \<ge> k + 16384"
    obtain st' where st: "on_fragment sha now f (ps_receiver s) =
      (st', if due then [AckOut \<lparr>ak_transfer_id = i, ak_received = of_nat (r + ?l)\<rparr>] else [])"
      "map_of (rs_pending st') i = Some (?p\<lparr>pn_buffer := take (r + ?l) bs, pn_last_acked := if due then of_nat (r + ?l) else of_nat k\<rparr>)"
      using on_fragment_part [OF p(1), of f sha now] f False u b r p(4) by (auto simp: due_def)
    then have s': "s' = s\<lparr>ps_down := down, ps_receiver := st',
        ps_up := ps_up s @ (if due then [\<lparr>ak_transfer_id = i, ak_received = of_nat (r + ?l)\<rparr>] else []), ps_returned := []\<rparr>"
      using step m p(2) by (cases due) (simp_all add: push_step_def receive_down_def is_ack_def ack_msg_def)
    have v: "unat (of_nat (r + ?l) :: u32) = r + ?l"
      using unat_of_length [of "r + ?l" "of_nat (length bs) :: u32"] u f(4) by simp
    have "push_inv_at i bs want w (r + ?l) (if due then r + ?l else k) s'"
      using inv f False p v st(2) by (auto simp: push_inv_at_def s' acks_end_def acked_of_def due_def)
    moreover have "push_measure bs s' < push_measure bs s" using m by (simp add: push_measure_def s')
    ultimately show ?thesis by blast
  qed
qed

lemma push_not_stuck:
  assumes "push_inv_at i bs want w r k s" "\<not> push_done i bs w s"
  shows "\<exists>e \<in> {SenderTurn, DownArrives 0, UpArrives}. push_step sha i bs e s \<noteq> None"
proof -
  consider "ps_down s \<noteq> []" | "ps_up s \<noteq> []" | (idle) "ps_down s = []" "ps_up s = []" by blast
  then show ?thesis
  proof cases
    case idle
    then have r: "r = ps_offset s" using assms(1) by (simp add: push_inv_at_def)
    have "ps_result s = None \<and> unat (acked_of i s) = k"
      using assms idle r by (auto simp: push_inv_at_def push_done_def acks_end_def)
    moreover have "r < length bs \<Longrightarrow> r < k + 16384" using assms(1) by (simp add: push_inv_at_def)
    ultimately show ?thesis
      using r by (auto simp: push_step_def send_turn_def Let_def OUTBOUND_WINDOW_def)
  qed (auto simp: push_step_def split: list.splits prod.splits)
qed

lemma push_step_inv:
  assumes "push_inv i bs want w s" "length bs \<le> 1048576" "digest_matches sha want bs"
    and "push_step sha i bs e s = Some s'" "e \<noteq> WindowTimeout"
  shows "push_inv i bs want w s' \<and> push_measure bs s' < push_measure bs s"
proof -
  obtain r k where inv: "push_inv_at i bs want w r k s" using assms(1) by (auto simp: push_inv_def)
  show ?thesis
  proof (cases e)
    case SenderTurn
    with push_inv_sender [OF inv assms(2)] assms(4) show ?thesis by (auto simp: push_inv_def)
  next
    case (DownArrives now)
    with push_inv_down [OF inv assms(2,3)] assms(4) show ?thesis by (auto simp: push_inv_def)
  next
    case UpArrives
    with push_inv_up [OF inv] assms(4) show ?thesis by (auto simp: push_inv_def)
  qed (use assms(5) in simp)
qed

lemma push_run_inv:
  assumes "push_inv i bs want w s" "length bs \<le> 1048576" "digest_matches sha want bs"
    and "push_run sha i bs es s = Some s'" "WindowTimeout \<notin> set es"
  shows "push_inv i bs want w s' \<and> push_measure bs s' + length es \<le> push_measure bs s"
  using assms
proof (induction es arbitrary: s)
  case (Cons e es)
  obtain s1 where s1: "push_step sha i bs e s = Some s1" "push_run sha i bs es s1 = Some s'"
    using Cons.prems(4) by (auto simp: bind_eq_Some_conv)
  have "push_inv i bs want w s1 \<and> push_measure bs s1 < push_measure bs s"
    using push_step_inv [OF Cons.prems(1-3) s1(1)] Cons.prems(5) by auto
  with Cons.IH [of s1] Cons.prems s1(2) show ?case by auto
qed simp

lemma registered_receiver:
  assumes "map_of (rs_pending st) i = None" "map_of (rs_buffer st) i = None" "distinct (map fst (rs_buffer st))"
    and "bs \<noteq> []" "length bs \<le> 1048576"
  shows "map_of (rs_pending (fst (collect w i (fst (register sha now
        \<lparr>tr_id = i, tr_total_size = of_nat (length bs), tr_sha256 = want\<rparr> st))))) i =
    Some \<lparr>pn_total_size = of_nat (length bs), pn_sha256 = want, pn_buffer = [],
      pn_last_acked = 0, pn_waiter = Some w, pn_terminal = None\<rparr>"
proof -
  have u: "unat (of_nat (length bs) :: u32) = length bs" using assms(5) by (simp add: unat_of_nat)
  then have z: "(of_nat (length bs) :: u32) \<noteq> 0" using assms(4) by (metis length_0_conv unat_0)
  have c: "\<not> (ucast (of_nat (length bs) :: u32) :: u64) > MAX_TRANSFER_BYTES"
    using u assms(5) by (simp add: word_less_nat_alt not_less)
  have b: "map_of (rs_buffer (evict_expired now st)) i = None"
    using assms(2,3) by (simp add: evict_expired_def map_of_filter_snd)
  show ?thesis
    using assms(1) b c z by (simp add: register_def Let_def new_pending_def collect_def update_conv')
qed

section \<open>The stream arrives\<close>

text \<open>C33. A transfer the gateway has registered and waits for arrives. As long as the sender does not run into its
  timeout, no order of turns and arrivals fails or stalls it: at most three events per byte are possible, until
  the sender is done and the caller has exactly the bytes, and before that one of the events is always possible.
  The window never closes for good, although the receiver acknowledges only every 16 KiB.\<close>

theorem transfer_stream_arrives:
  assumes "map_of (rs_pending st) i = None" "map_of (rs_buffer st) i = None" "distinct (map fst (rs_buffer st))"
    and "bs \<noteq> []" "length bs \<le> unat MAX_TRANSFER_BYTES" "digest_matches sha want bs"
    and "push_run sha i bs es (stream_start i (fst (collect w i (fst (register sha now
        \<lparr>tr_id = i, tr_total_size = of_nat (length bs), tr_sha256 = want\<rparr> st))))) = Some s"
    and "WindowTimeout \<notin> set es"
  shows "length es \<le> 3 * length bs + 1 \<and>
    (push_done i bs w s \<or>
      ps_returned s \<in> {[], [Returned w i (Inr bs)]} \<and> ps_result s \<noteq> Some False \<and>
      (\<exists>e \<in> {SenderTurn, DownArrives 0, UpArrives}. push_step sha i bs e s \<noteq> None))"
proof -
  let ?st = "fst (collect w i (fst (register sha now \<lparr>tr_id = i, tr_total_size = of_nat (length bs), tr_sha256 = want\<rparr> st)))"
  have n: "length bs \<le> 1048576" using assms(5) by simp
  have start: "push_inv i bs want w (stream_start i ?st)"
    by (rule push_inv_start [OF registered_receiver [OF assms(1-4) n] assms(4)])
  have run: "push_inv i bs want w s" "length es \<le> push_measure bs (stream_start i ?st)"
    using push_run_inv [OF start n assms(6,7,8)] by auto
  then obtain r k where inv: "push_inv_at i bs want w r k s" by (auto simp: push_inv_def)
  have "ps_returned s \<in> {[], [Returned w i (Inr bs)]} \<and> ps_result s \<noteq> Some False"
    using inv by (auto simp: push_inv_at_def split: if_splits)
  moreover have "push_measure bs (stream_start i ?st) = 3 * length bs + 1"
    by (simp add: push_measure_def stream_start_def)
  ultimately show ?thesis using run(2) push_not_stuck [OF inv, of sha] by auto
qed

lemma transfer_stream_arrives_witness:
  "\<exists>s. push_run demo_sha 7 [1, 2, 3] [SenderTurn, DownArrives 5, SenderTurn, UpArrives]
      (stream_start 7 (fst (collect 5 7 (fst (register demo_sha 0
        \<lparr>tr_id = 7, tr_total_size = 3, tr_sha256 = Some ''AB''\<rparr> RecvState_default))))) = Some s \<and>
    push_done 7 [1, 2, 3] 5 s"
proof -
  have lower: "eq_ignore_ascii_case ''ab'' ''AB''" by code_simp
  obtain s where s: "push_run demo_sha 7 [1, 2, 3] [SenderTurn, DownArrives 5, SenderTurn, UpArrives]
      (stream_start 7 (fst (collect 5 7 (fst (register demo_sha 0
        \<lparr>tr_id = 7, tr_total_size = 3, tr_sha256 = Some ''AB''\<rparr> RecvState_default))))) = Some s"
    "ps_result s = Some True" "ps_down s = []" "ps_up s = []"
    by (simp add: RecvState_default_def register_def evict_expired_def new_pending_def MAX_TRANSFER_BYTES_def Let_def collect_def
      drop_waiter_def stream_start_def outbound_register_def push_step_def send_turn_def acked_of_def OUTBOUND_WINDOW_def
      OUTBOUND_FRAGMENT_LEN_def receive_down_def on_fragment_def ingest_def ingest_step_def settle_pending_def verify_body_def
      demo_sha_def lower ack_out_def is_ack_def ack_msg_def outbound_unregister_def note_ack_def)
  have "push_done 7 [1, 2, 3] 5 s"
    using transfer_stream_arrives [of RecvState_default 7 "[1, 2, 3]" demo_sha "Some ''AB''"
        "[SenderTurn, DownArrives 5, SenderTurn, UpArrives]" 5 0 s] s
    by (auto simp: RecvState_default_def digest_matches_def demo_sha_def lower push_step_def)
  with s(1) show ?thesis by blast
qed

end
