(* ===== verification/Transfer_Store.thy ===== *)
theory Transfer_Store
  imports Transfer_Receive
begin

text \<open>The device's store of partial transfers (\<open>crates/core/src/transfer/mod.rs\<close>, \<open>actor.rs\<close>): an actor that
  appends chunks to files under a disk budget, verifies a complete file in a task of its own; its recovery
  of transfers at start is left out. The hash maps and the disk are association lists; a command comes with the time and
  with what the file system refuses while it runs. Numbers are the natural numbers below \<open>2 ^ 64\<close>, with the
  saturation and the wrap-around of the code written out; the digest is a parameter.\<close>

section \<open>Data\<close>

definition U64_MAX :: nat where "U64_MAX = 2 ^ 64 - 1"

definition u64_sat_add :: "nat \<Rightarrow> nat \<Rightarrow> nat" where "u64_sat_add a b = min (a + b) U64_MAX"
definition u64_add :: "nat \<Rightarrow> nat \<Rightarrow> nat" where "u64_add a b = (a + b) mod (U64_MAX + 1)"

definition TRANSFER_DISK_BUDGET_BYTES :: nat where "TRANSFER_DISK_BUDGET_BYTES = 1024 * 1024 * 1024"
definition STALE_TIMEOUT :: int where "STALE_TIMEOUT = 7 * 24 * 60 * 60"

type_synonym reply_to = nat
type_synonym path = string

datatype BeginOutcome = Resume nat | AlreadyComplete path
datatype ChunkOutcome = Continue nat | Completed path

datatype TransferError =
    ActorClosed
  | IoError
  | BudgetExceeded string nat
  | TooLarge string nat
  | ConflictingBegin string
  | UnknownTransfer string
  | OffsetMismatch string nat nat
  | SizeOverflow string nat nat nat
  | HashMismatch string string string

record Meta =
  mt_id :: string
  mt_expected_size :: nat
  mt_expected_sha256 :: "string option"
  mt_partial_path :: path
  mt_complete :: bool

text \<open>A transfer holds its file open between chunks. \<open>tokio::fs::File\<close> hands a write to another thread and returns; its failure
  is told at the next write or flush. An open file is \<open>Some failed\<close>, with a failure that is still to be told.\<close>

record Transfer =
  tf_id :: string
  tf_expected_size :: nat
  tf_expected_sha256 :: "string option"
  tf_received :: nat
  tf_last_touched_unix :: int
  tf_partial_path :: path
  tf_meta_path :: path
  tf_file :: "bool option"
  tf_complete :: bool

text \<open>A sidecar that cannot be read is \<open>None\<close>.\<close>

record Disk =
  dk_files :: "(path \<times> bytes) list"
  dk_metas :: "(path \<times> Meta option) list"

text \<open>What the file system refuses: to open or create a file, to write it (after so many bytes), to write
  the sidecar.\<close>

record Faults =
  fl_open :: bool
  fl_write :: "nat option"
  fl_meta :: bool

text \<open>A verification reads a file and reports back to the actor: the tasks that run, and the reports on their way.\<close>

datatype SealFor = ForChunk | ForBegin

record Store =
  sr_transfers_dir :: path
  sr_budget :: nat
  sr_transfers :: "(string \<times> Transfer) list"
  sr_total_disk_bytes :: nat
  sr_pending_completions :: "(string \<times> reply_to) list"
  sr_pending_begin_verifies :: "(string \<times> reply_to) list"
  sr_disk :: Disk
  sr_seals :: "(SealFor \<times> string \<times> path) list"
  sr_reports :: "(SealFor \<times> string \<times> (TransferError + string)) list"

datatype StoreReply =
    BeginReply reply_to string "TransferError + BeginOutcome"
  | ChunkReply reply_to string "TransferError + ChunkOutcome"
  | AbandonReply reply_to

section \<open>The disk\<close>

definition as_bytes :: "string \<Rightarrow> bytes" where "as_bytes s = map of_char s"

definition safe_filename :: "(bytes \<Rightarrow> string) \<Rightarrow> string \<Rightarrow> string" where
  "safe_filename sha256_hex i = sha256_hex (as_bytes i)"

definition partial_path :: "(bytes \<Rightarrow> string) \<Rightarrow> path \<Rightarrow> string \<Rightarrow> path" where
  "partial_path sha dir i = dir @ ''/'' @ safe_filename sha i @ ''.partial''"

definition meta_path :: "(bytes \<Rightarrow> string) \<Rightarrow> path \<Rightarrow> string \<Rightarrow> path" where
  "meta_path sha dir i = dir @ ''/'' @ safe_filename sha i @ ''.meta''"

definition put_file :: "path \<Rightarrow> bytes \<Rightarrow> Store \<Rightarrow> Store" where
  "put_file p content s = s\<lparr>sr_disk := (sr_disk s)\<lparr>dk_files := AList.update p content (dk_files (sr_disk s))\<rparr>\<rparr>"

definition remove_files :: "path \<Rightarrow> path \<Rightarrow> Store \<Rightarrow> Store" where
  "remove_files p m s = s\<lparr>sr_disk := (sr_disk s)\<lparr>dk_files := AList.delete p (dk_files (sr_disk s)),
     dk_metas := AList.delete m (dk_metas (sr_disk s))\<rparr>\<rparr>"

definition meta_from :: "Transfer \<Rightarrow> Meta" where
  "meta_from t = \<lparr>mt_id = tf_id t, mt_expected_size = tf_expected_size t, mt_expected_sha256 = tf_expected_sha256 t,
     mt_partial_path = tf_partial_path t, mt_complete = tf_complete t\<rparr>"

text \<open>A write of the sidecar that fails leaves one that cannot be read.\<close>

definition write_meta :: "Faults \<Rightarrow> path \<Rightarrow> Meta \<Rightarrow> Store \<Rightarrow> bool \<times> Store" where
  "write_meta fl p m s =
    (\<not> fl_meta fl,
     s\<lparr>sr_disk := (sr_disk s)\<lparr>dk_metas := AList.update p (if fl_meta fl then None else Some m) (dk_metas (sr_disk s))\<rparr>\<rparr>)"

definition put_transfer :: "string \<Rightarrow> Transfer \<Rightarrow> Store \<Rightarrow> Store" where
  "put_transfer i t s = s\<lparr>sr_transfers := AList.update i t (sr_transfers s)\<rparr>"

section \<open>Commands\<close>

definition unknown_reply :: "(reply_to \<Rightarrow> string \<Rightarrow> TransferError + 'r \<Rightarrow> StoreReply) \<Rightarrow> string \<Rightarrow> reply_to option \<Rightarrow> StoreReply list" where
  "unknown_reply mk i ack = (case ack of None \<Rightarrow> [] | Some w \<Rightarrow> [mk w i (Inl (UnknownTransfer i))])"

definition handle_abandon :: "string \<Rightarrow> Store \<Rightarrow> Store \<times> StoreReply list" where
  "handle_abandon i s =
    (let out = unknown_reply ChunkReply i (map_of (sr_pending_completions s) i)
           @ unknown_reply BeginReply i (map_of (sr_pending_begin_verifies s) i);
         s1 = s\<lparr>sr_pending_completions := AList.delete i (sr_pending_completions s),
           sr_pending_begin_verifies := AList.delete i (sr_pending_begin_verifies s)\<rparr>
     in case map_of (sr_transfers s1) i of
          None \<Rightarrow> (s1, out)
        | Some t \<Rightarrow>
            (remove_files (tf_partial_path t) (tf_meta_path t)
              (s1\<lparr>sr_transfers := AList.delete i (sr_transfers s1),
                 sr_total_disk_bytes := sr_total_disk_bytes s1 - tf_received t\<rparr>), out))"

fun abandon_all :: "string list \<Rightarrow> Store \<Rightarrow> Store \<times> StoreReply list" where
  "abandon_all [] s = (s, [])"
| "abandon_all (i # is) s =
    (let (s1, out) = handle_abandon i s; (s2, out') = abandon_all is s1 in (s2, out @ out'))"

definition starts_with_prefix :: "string \<Rightarrow> string \<Rightarrow> bool" where
  "starts_with_prefix p i \<longleftrightarrow> take (length p) i = p"

definition abandon_matching :: "string \<Rightarrow> Store \<Rightarrow> Store \<times> StoreReply list" where
  "abandon_matching prefix s =
    abandon_all (remdups (filter (starts_with_prefix prefix)
      (map fst (sr_transfers s) @ map fst (sr_pending_completions s) @ map fst (sr_pending_begin_verifies s)))) s"

definition is_stale :: "int \<Rightarrow> int \<Rightarrow> bool" where
  "is_stale now last_touched \<longleftrightarrow> now - last_touched \<ge> STALE_TIMEOUT"

definition sweep_stale :: "int \<Rightarrow> Store \<Rightarrow> Store \<times> StoreReply list" where
  "sweep_stale now s =
    abandon_all (map fst (filter (\<lambda>(i, t). is_stale now (tf_last_touched_unix t)) (sr_transfers s))) s"

text \<open>The transfer that was touched least recently.\<close>

fun oldest :: "(string \<times> Transfer) list \<Rightarrow> (string \<times> Transfer) option" where
  "oldest [] = None"
| "oldest (x # xs) =
    (case oldest xs of
       None \<Rightarrow> Some x
     | Some y \<Rightarrow> Some (if tf_last_touched_unix (snd x) \<le> tf_last_touched_unix (snd y) then x else y))"

lemma oldest_in: "oldest xs = Some x \<Longrightarrow> x \<in> set xs"
  by (induction xs arbitrary: x) (auto split: option.splits if_splits)

lemma delete_shorter: "i \<in> fst ` set xs \<Longrightarrow> length (AList.delete i xs) < length xs"
  by (induction xs) (auto simp: less_Suc_eq_le length_delete_le Suc_le_eq intro: rev_image_eqI)

lemma abandon_transfers: "sr_transfers (fst (handle_abandon i s)) = AList.delete i (sr_transfers s)"
proof (cases "map_of (sr_transfers s) i")
  case None
  then have "i \<notin> fst ` set (sr_transfers s)" by (simp add: map_of_eq_None_iff)
  then show ?thesis using None by (simp add: handle_abandon_def Let_def delete_id)
qed (simp add: handle_abandon_def Let_def remove_files_def)

function evict_until_under :: "nat \<Rightarrow> Store \<Rightarrow> Store \<times> StoreReply list" where
  "evict_until_under incoming s =
    (if u64_sat_add (sr_total_disk_bytes s) incoming > sr_budget s then
       (case oldest (sr_transfers s) of
          None \<Rightarrow> (s, [])
        | Some (victim, t) \<Rightarrow>
            (case handle_abandon victim s of
               (s1, out) \<Rightarrow> (case evict_until_under incoming s1 of (s2, out') \<Rightarrow> (s2, out @ out'))))
     else (s, []))"
  by pat_completeness auto
termination
proof (relation "measure (\<lambda>(n, s). length (sr_transfers s))")
  fix incoming s x2 victim t x y
  assume "oldest (sr_transfers s) = Some x2" "(victim, t) = x2" "(x, y) = handle_abandon victim s"
  then show "((incoming, x), incoming, s) \<in> measure (\<lambda>(n, s). length (sr_transfers s))"
    using oldest_in abandon_transfers [of victim s] delete_shorter [of victim "sr_transfers s"]
    by (metis (no_types, lifting) case_prod_conv fst_conv image_eqI in_measure)
qed simp

declare evict_until_under.simps [simp del]

definition begin_fresh ::
  "(bytes \<Rightarrow> string) \<Rightarrow> Faults \<Rightarrow> int \<Rightarrow> string \<Rightarrow> nat \<Rightarrow> string option \<Rightarrow> Store \<Rightarrow>
    (TransferError + nat) \<times> Store \<times> StoreReply list" where
  "begin_fresh sha fl now i expected_size expected_sha256 s =
    (let (s1, out) = (if u64_sat_add (sr_total_disk_bytes s) expected_size > sr_budget s
           then evict_until_under expected_size s else (s, []))
     in if u64_sat_add (sr_total_disk_bytes s1) expected_size > sr_budget s1 then (Inl (BudgetExceeded i (sr_budget s1)), s1, out)
        else
          let partial = partial_path sha (sr_transfers_dir s1) i; meta = meta_path sha (sr_transfers_dir s1) i;
              s2 = s1\<lparr>sr_disk := (sr_disk s1)\<lparr>dk_files := AList.delete partial (dk_files (sr_disk s1))\<rparr>\<rparr> in
          if fl_open fl then (Inl IoError, s2, out)
          else
            let t = \<lparr>tf_id = i, tf_expected_size = expected_size, tf_expected_sha256 = expected_sha256, tf_received = 0,
                  tf_last_touched_unix = now, tf_partial_path = partial, tf_meta_path = meta, tf_file = Some False, tf_complete = False\<rparr>;
                (ok, s3) = write_meta fl meta (meta_from t) (put_file partial [] s2)
            in if \<not> ok then (Inl IoError, s3, out) else (Inr 0, put_transfer i t s3, out))"

datatype FastPath = Reject TransferError | ResumeAt nat | VerifyComplete path | Fresh

definition begin_fast_path ::
  "int \<Rightarrow> string \<Rightarrow> nat \<Rightarrow> string option \<Rightarrow> Store \<Rightarrow> FastPath \<times> Store" where
  "begin_fast_path now i expected_size expected_sha256 s =
    (if expected_size > sr_budget s then (Reject (TooLarge i expected_size), s)
     else if map_of (sr_pending_completions s) i \<noteq> None \<or> map_of (sr_pending_begin_verifies s) i \<noteq> None
       then (Reject (ConflictingBegin i), s)
     else case map_of (sr_transfers s) i of
       Some t \<Rightarrow>
         (if tf_expected_size t \<noteq> expected_size \<or> tf_expected_sha256 t \<noteq> expected_sha256 then (Reject (ConflictingBegin i), s)
          else
            let s1 = put_transfer i (t\<lparr>tf_last_touched_unix := now\<rparr>) s in
            if tf_complete t \<or> tf_received t = tf_expected_size t then (VerifyComplete (tf_partial_path t), s1)
            else (ResumeAt (tf_received t), s1))
     | None \<Rightarrow> (Fresh, s))"

definition resume_reply :: "reply_to \<Rightarrow> string \<Rightarrow> TransferError + nat \<Rightarrow> StoreReply" where
  "resume_reply w i r = BeginReply w i (case r of Inl e \<Rightarrow> Inl e | Inr offset \<Rightarrow> Inr (Resume offset))"

definition handle_begin ::
  "(bytes \<Rightarrow> string) \<Rightarrow> Faults \<Rightarrow> int \<Rightarrow> reply_to \<Rightarrow> string \<Rightarrow> nat \<Rightarrow> string option \<Rightarrow> Store \<Rightarrow> Store \<times> StoreReply list" where
  "handle_begin sha fl now w i expected_size expected_sha256 s =
    (case begin_fast_path now i expected_size expected_sha256 s of
       (Reject err, s1) \<Rightarrow> (s1, [BeginReply w i (Inl err)])
     | (ResumeAt offset, s1) \<Rightarrow> (s1, [BeginReply w i (Inr (Resume offset))])
     | (VerifyComplete partial, s1) \<Rightarrow>
         (s1\<lparr>sr_pending_begin_verifies := AList.update i w (sr_pending_begin_verifies s1),
            sr_seals := sr_seals s1 @ [(ForBegin, i, partial)]\<rparr>, [])
     | (Fresh, s1) \<Rightarrow>
         (case begin_fresh sha fl now i expected_size expected_sha256 s1 of
            (r, s2, out) \<Rightarrow> (s2, out @ [resume_reply w i r])))"

definition digest_agrees :: "string option \<Rightarrow> string \<Rightarrow> bool" where
  "digest_agrees want actual = (case want of None \<Rightarrow> True | Some want \<Rightarrow> eq_ignore_ascii_case actual want)"

text \<open>A complete file that does not verify is dropped and its transfer starts again.\<close>

definition handle_begin_verified ::
  "(bytes \<Rightarrow> string) \<Rightarrow> Faults \<Rightarrow> int \<Rightarrow> string \<Rightarrow> TransferError + string \<Rightarrow> Store \<Rightarrow> Store \<times> StoreReply list" where
  "handle_begin_verified sha fl now i result s =
    (case map_of (sr_pending_begin_verifies s) i of
       None \<Rightarrow> (s, [])
     | Some w \<Rightarrow>
         let s1 = s\<lparr>sr_pending_begin_verifies := AList.delete i (sr_pending_begin_verifies s)\<rparr> in
         (case map_of (sr_transfers s1) i of
            None \<Rightarrow> (s1, [BeginReply w i (Inl (UnknownTransfer i))])
          | Some t \<Rightarrow>
              (case result of
                 Inl err \<Rightarrow> (s1, [BeginReply w i (Inl err)])
               | Inr actual \<Rightarrow>
                   if digest_agrees (tf_expected_sha256 t) actual then
                     let t1 = t\<lparr>tf_file := None, tf_complete := True\<rparr>;
                         s2 = put_transfer i t1 s1;
                         s3 = (if tf_complete t then s2 else snd (write_meta fl (tf_meta_path t1) (meta_from t1) s2))
                     in (s3, [BeginReply w i (Inr (AlreadyComplete (tf_partial_path t)))])
                   else
                     (case handle_abandon i s1 of
                        (s2, out) \<Rightarrow>
                          (case begin_fresh sha fl now i (tf_expected_size t) (tf_expected_sha256 t) s2 of
                             (r, s3, out') \<Rightarrow> (s3, out @ out' @ [resume_reply w i r]))))))"

datatype WriteOutcome = WriteContinue nat | HashPending path

definition file_of :: "Store \<Rightarrow> path \<Rightarrow> bytes option" where
  "file_of s p = map_of (dk_files (sr_disk s)) p"

text \<open>\<open>write_all\<close> on such a file: an empty slice is no write at all; a failure still to be told is told instead of writing.
  A slice goes in pieces of at most 2 MiB, and the failure of a piece is told when the next one is handed over, so that
  only the failure of the last piece is left for later. What has failed after so many bytes has written these. The
  result is whether the call succeeds, the bytes that reach the file, and whether a failure is left. The bytes of a
  write are taken to be in the file at once: nothing reads the file before the flush, which waits for them.\<close>

definition WRITE_PIECE_MAX :: nat where "WRITE_PIECE_MAX = 2 * 1024 * 1024"

definition file_write_all :: "nat option \<Rightarrow> bool \<Rightarrow> bytes \<Rightarrow> bool \<times> bytes \<times> bool" where
  "file_write_all fault failed bs =
    (if bs = [] then (True, [], failed)
     else if failed then (False, [], False)
     else
       (case fault of
          None \<Rightarrow> (True, bs, False)
        | Some n \<Rightarrow>
            if n div WRITE_PIECE_MAX < (length bs - 1) div WRITE_PIECE_MAX then (False, take n bs, False)
            else (True, take n bs, True)))"

definition handle_chunk_write ::
  "Faults \<Rightarrow> int \<Rightarrow> string \<Rightarrow> nat \<Rightarrow> bytes \<Rightarrow> Store \<Rightarrow> (TransferError + WriteOutcome) \<times> Store" where
  "handle_chunk_write fl now i offset bs s =
    (case map_of (sr_transfers s) i of
       None \<Rightarrow> (Inl (UnknownTransfer i), s)
     | Some t \<Rightarrow>
         let chunk_len = length bs in
         if offset \<noteq> tf_received t then (Inl (OffsetMismatch i (tf_received t) offset), s)
         else if u64_sat_add (tf_received t) chunk_len > tf_expected_size t
           then (Inl (SizeOverflow i (tf_expected_size t) (tf_received t) chunk_len), s)
         else
           (case (if tf_file t = None \<and> fl_open fl then None else file_of s (tf_partial_path t)) of
              None \<Rightarrow> (Inl IoError, s)
            | Some content \<Rightarrow>
                (case file_write_all (fl_write fl) (tf_file t = Some True) bs of
                   (ok, written, failed) \<Rightarrow>
                     let s1 = put_file (tf_partial_path t) (content @ written) s in
                     if \<not> ok then (Inl IoError, put_transfer i (t\<lparr>tf_file := Some failed\<rparr>) s1)
                     else
                       let t2 = t\<lparr>tf_file := Some failed, tf_received := u64_add (tf_received t) chunk_len,
                             tf_last_touched_unix := now\<rparr>;
                           s2 = s1\<lparr>sr_total_disk_bytes := u64_sat_add (sr_total_disk_bytes s1) chunk_len\<rparr>
                       in if tf_received t2 < tf_expected_size t2 then (Inr (WriteContinue (tf_received t2)), put_transfer i t2 s2)
                          else
                            let s3 = put_transfer i (t2\<lparr>tf_file := None\<rparr>) s2 in
                            if failed then (Inl IoError, s3) else (Inr (HashPending (tf_partial_path t)), s3))))"

text \<open>A caller whose channel is replaced learns that the actor is gone.\<close>

definition replaced :: "string \<Rightarrow> (string \<times> reply_to) list \<Rightarrow> StoreReply list" where
  "replaced i pending = (case map_of pending i of None \<Rightarrow> [] | Some w \<Rightarrow> [ChunkReply w i (Inl ActorClosed)])"

definition store_handle_chunk ::
  "Faults \<Rightarrow> int \<Rightarrow> reply_to \<Rightarrow> string \<Rightarrow> nat \<Rightarrow> bytes \<Rightarrow> Store \<Rightarrow> Store \<times> StoreReply list" where
  "store_handle_chunk fl now w i offset bs s =
    (case handle_chunk_write fl now i offset bs s of
       (Inr (WriteContinue received), s1) \<Rightarrow> (s1, [ChunkReply w i (Inr (Continue received))])
     | (Inr (HashPending partial), s1) \<Rightarrow>
         (s1\<lparr>sr_pending_completions := AList.update i w (sr_pending_completions s1),
            sr_seals := sr_seals s1 @ [(ForChunk, i, partial)]\<rparr>, replaced i (sr_pending_completions s1))
     | (Inl err, s1) \<Rightarrow> (s1, [ChunkReply w i (Inl err)]))"

definition handle_hash_completed ::
  "Faults \<Rightarrow> int \<Rightarrow> string \<Rightarrow> TransferError + string \<Rightarrow> Store \<Rightarrow> Store \<times> StoreReply list" where
  "handle_hash_completed fl now i result s =
    (case map_of (sr_pending_completions s) i of
       None \<Rightarrow> (s, [])
     | Some w \<Rightarrow>
         let s1 = s\<lparr>sr_pending_completions := AList.delete i (sr_pending_completions s)\<rparr> in
         (case result of
            Inl err \<Rightarrow> (s1, [ChunkReply w i (Inl err)])
          | Inr actual \<Rightarrow>
              (case map_of (sr_transfers s1) i of
                 None \<Rightarrow> (s1, [ChunkReply w i (Inl (UnknownTransfer i))])
               | Some t \<Rightarrow>
                   if \<not> digest_agrees (tf_expected_sha256 t) actual
                   then (s1, [ChunkReply w i (Inl (HashMismatch i (the (tf_expected_sha256 t)) actual))])
                   else
                     let t1 = t\<lparr>tf_complete := True, tf_last_touched_unix := now\<rparr>;
                         s2 = snd (write_meta fl (tf_meta_path t1) (meta_from t1) (put_transfer i t1 s1))
                     in (s2, [ChunkReply w i (Inr (Completed (tf_partial_path t)))]))))"

section \<open>The actor\<close>

text \<open>\<open>SealRuns n\<close> is the end of the \<open>n\<close>-th running verification, with a file system that fails it or not,
  \<open>ReportArrives n\<close> the handling of its report.\<close>

datatype StoreEvent =
    Begin reply_to string nat "string option" int Faults
  | AcceptChunk reply_to string nat bytes int Faults
  | Abandon reply_to string
  | AbandonMatching reply_to string
  | SealRuns nat bool
  | ReportArrives nat int Faults
  | Sweep int

definition seal :: "(bytes \<Rightarrow> string) \<Rightarrow> bool \<Rightarrow> path \<Rightarrow> Store \<Rightarrow> TransferError + string" where
  "seal sha fault p s = (if fault then Inl IoError else case file_of s p of None \<Rightarrow> Inl IoError | Some content \<Rightarrow> Inr (sha content))"

definition drop_nth :: "nat \<Rightarrow> 'a list \<Rightarrow> 'a list" where
  "drop_nth n xs = take n xs @ drop (Suc n) xs"

fun store_event :: "(bytes \<Rightarrow> string) \<Rightarrow> StoreEvent \<Rightarrow> Store \<Rightarrow> Store \<times> StoreReply list" where
  "store_event sha (Begin w i expected_size expected_sha256 now fl) s = handle_begin sha fl now w i expected_size expected_sha256 s"
| "store_event sha (AcceptChunk w i offset bs now fl) s = store_handle_chunk fl now w i offset bs s"
| "store_event sha (Abandon w i) s = (case handle_abandon i s of (s1, out) \<Rightarrow> (s1, out @ [AbandonReply w]))"
| "store_event sha (AbandonMatching w prefix) s = (case abandon_matching prefix s of (s1, out) \<Rightarrow> (s1, out @ [AbandonReply w]))"
| "store_event sha (SealRuns n fault) s =
    (if n < length (sr_seals s) then
       case sr_seals s ! n of
         (k, i, p) \<Rightarrow> (s\<lparr>sr_seals := drop_nth n (sr_seals s), sr_reports := sr_reports s @ [(k, i, seal sha fault p s)]\<rparr>, [])
     else (s, []))"
| "store_event sha (ReportArrives n now fl) s =
    (if n < length (sr_reports s) then
       (let s1 = s\<lparr>sr_reports := drop_nth n (sr_reports s)\<rparr> in
        case sr_reports s ! n of
          (ForChunk, i, result) \<Rightarrow> handle_hash_completed fl now i result s1
        | (ForBegin, i, result) \<Rightarrow> handle_begin_verified sha fl now i result s1)
     else (s, []))"
| "store_event sha (Sweep now) s = sweep_stale now s"

fun store_run :: "(bytes \<Rightarrow> string) \<Rightarrow> StoreEvent list \<Rightarrow> Store \<Rightarrow> Store \<times> StoreReply list" where
  "store_run sha [] s = (s, [])"
| "store_run sha (e # es) s =
    (let (s1, out) = store_event sha e s; (s2, out') = store_run sha es s1 in (s2, out @ out'))"

definition store_init :: "path \<Rightarrow> nat \<Rightarrow> Store" where
  "store_init dir budget =
    \<lparr>sr_transfers_dir = dir, sr_budget = budget, sr_transfers = [], sr_total_disk_bytes = 0, sr_pending_completions = [],
     sr_pending_begin_verifies = [], sr_disk = \<lparr>dk_files = [], dk_metas = []\<rparr>, sr_seals = [], sr_reports = []\<rparr>"

end
