(* ===== verification/Transfer_Store_Facts.thy ===== *)
theory Transfer_Store_Facts
  imports Transfer_Store Transfer_Receive_Facts
begin

text \<open>What the store of partial transfers promises: its accounting agrees with its transfers and its files, and
  what it reports as complete has the digest that was asked for, unless a transfer is abandoned and begun again
  while a verification of it is still under way.\<close>

declare map_of_eq_Some_iff [simp del]

section \<open>The invariant\<close>

text \<open>A failed write is only told later, so that what a transfer counts need not be in its file. When no write fails, it
  is (\<open>exact\<close>).\<close>

definition transfer_ok :: "bool \<Rightarrow> (bytes \<Rightarrow> string) \<Rightarrow> string set \<Rightarrow> Store \<Rightarrow> string \<Rightarrow> Transfer \<Rightarrow> bool" where
  "transfer_ok exact sha ids s i t \<longleftrightarrow>
    i \<in> ids \<and> tf_id t = i \<and> tf_received t \<le> tf_expected_size t \<and> tf_expected_size t \<le> sr_budget s \<and>
    tf_partial_path t = partial_path sha (sr_transfers_dir s) i \<and> tf_meta_path t = meta_path sha (sr_transfers_dir s) i \<and>
    (\<exists>content. file_of s (partial_path sha (sr_transfers_dir s) i) = Some content \<and>
       (exact \<longrightarrow> length content = tf_received t \<and> tf_file t \<noteq> Some True)) \<and>
    (tf_complete t \<longrightarrow> tf_received t = tf_expected_size t)"

definition received_bytes :: "Store \<Rightarrow> nat" where
  "received_bytes s = sum_list (map (tf_received \<circ> snd) (sr_transfers s))"

definition awaited :: "Store \<Rightarrow> string \<Rightarrow> bool" where
  "awaited s i \<longleftrightarrow> map_of (sr_pending_completions s) i \<noteq> None \<or> map_of (sr_pending_begin_verifies s) i \<noteq> None"

definition store_wf :: "bool \<Rightarrow> (bytes \<Rightarrow> string) \<Rightarrow> string set \<Rightarrow> nat \<Rightarrow> Store \<Rightarrow> bool" where
  "store_wf exact sha ids written s \<longleftrightarrow>
    distinct (map fst (sr_transfers s)) \<and>
    (\<forall>i t. map_of (sr_transfers s) i = Some t \<longrightarrow> transfer_ok exact sha ids s i t) \<and>
    sr_total_disk_bytes s = received_bytes s \<and> received_bytes s \<le> written \<and>
    (\<forall>i. awaited s i \<longrightarrow> (\<exists>t. map_of (sr_transfers s) i = Some t \<and> tf_received t = tf_expected_size t))"

text \<open>The names of the files of the transfers are different, and sizes stay below \<open>2 ^ 64\<close>.\<close>

definition names_apart :: "(bytes \<Rightarrow> string) \<Rightarrow> string set \<Rightarrow> bool" where
  "names_apart sha ids \<longleftrightarrow> inj_on (safe_filename sha) ids"

lemma partial_path_eq:
  "names_apart sha ids \<Longrightarrow> i \<in> ids \<Longrightarrow> j \<in> ids \<Longrightarrow> partial_path sha dir i = partial_path sha dir j \<longleftrightarrow> i = j"
  by (auto simp: partial_path_def names_apart_def dest: inj_onD)

lemma file_of_put [simp]: "file_of (put_file p c s) q = (if p = q then Some c else file_of s q)"
  by (simp add: file_of_def put_file_def update_conv')

lemma file_of_remove [simp]: "file_of (remove_files p m s) q = (if p = q then None else file_of s q)"
  by (simp add: file_of_def remove_files_def delete_conv')

lemma put_file_fields [simp]:
  "sr_transfers (put_file p c s) = sr_transfers s" "sr_budget (put_file p c s) = sr_budget s"
  "sr_transfers_dir (put_file p c s) = sr_transfers_dir s" "sr_total_disk_bytes (put_file p c s) = sr_total_disk_bytes s"
  "sr_pending_completions (put_file p c s) = sr_pending_completions s"
  "sr_pending_begin_verifies (put_file p c s) = sr_pending_begin_verifies s"
  "sr_seals (put_file p c s) = sr_seals s" "sr_reports (put_file p c s) = sr_reports s"
  by (simp_all add: put_file_def)

lemma remove_files_fields [simp]:
  "sr_transfers (remove_files p m s) = sr_transfers s" "sr_budget (remove_files p m s) = sr_budget s"
  "sr_transfers_dir (remove_files p m s) = sr_transfers_dir s" "sr_total_disk_bytes (remove_files p m s) = sr_total_disk_bytes s"
  "sr_pending_completions (remove_files p m s) = sr_pending_completions s"
  "sr_pending_begin_verifies (remove_files p m s) = sr_pending_begin_verifies s"
  "sr_seals (remove_files p m s) = sr_seals s" "sr_reports (remove_files p m s) = sr_reports s"
  by (simp_all add: remove_files_def)

lemma put_transfer_fields [simp]:
  "sr_transfers (put_transfer i t s) = AList.update i t (sr_transfers s)" "sr_budget (put_transfer i t s) = sr_budget s"
  "sr_transfers_dir (put_transfer i t s) = sr_transfers_dir s" "sr_total_disk_bytes (put_transfer i t s) = sr_total_disk_bytes s"
  "sr_pending_completions (put_transfer i t s) = sr_pending_completions s"
  "sr_pending_begin_verifies (put_transfer i t s) = sr_pending_begin_verifies s"
  "sr_seals (put_transfer i t s) = sr_seals s" "sr_reports (put_transfer i t s) = sr_reports s"
  "file_of (put_transfer i t s) = file_of s"
  by (simp_all add: put_transfer_def file_of_def fun_eq_iff)

lemma put_transfer_disk [simp]: "sr_disk (put_transfer i t s) = sr_disk s"
  by (simp add: put_transfer_def)

lemma write_meta_fields [simp]:
  "sr_transfers (snd (write_meta fl p m s)) = sr_transfers s" "sr_budget (snd (write_meta fl p m s)) = sr_budget s"
  "sr_transfers_dir (snd (write_meta fl p m s)) = sr_transfers_dir s"
  "sr_total_disk_bytes (snd (write_meta fl p m s)) = sr_total_disk_bytes s"
  "sr_pending_completions (snd (write_meta fl p m s)) = sr_pending_completions s"
  "sr_pending_begin_verifies (snd (write_meta fl p m s)) = sr_pending_begin_verifies s"
  "sr_seals (snd (write_meta fl p m s)) = sr_seals s" "sr_reports (snd (write_meta fl p m s)) = sr_reports s"
  "file_of (snd (write_meta fl p m s)) = file_of s"
  by (simp_all add: write_meta_def file_of_def fun_eq_iff)

text \<open>The invariant depends on these parts.\<close>

lemma store_wf_cong:
  assumes "store_wf exact sha ids n s"
    and "sr_transfers s' = sr_transfers s" "sr_budget s' = sr_budget s" "sr_transfers_dir s' = sr_transfers_dir s"
    and "sr_total_disk_bytes s' = sr_total_disk_bytes s" "file_of s' = file_of s" "\<And>i. awaited s' i \<Longrightarrow> awaited s i"
  shows "store_wf exact sha ids n s'"
proof -
  have "transfer_ok exact sha ids s' = transfer_ok exact sha ids s" by (intro ext) (simp add: transfer_ok_def assms)
  moreover have "received_bytes s' = received_bytes s" by (simp add: received_bytes_def assms)
  ultimately show ?thesis using assms unfolding store_wf_def by auto
qed

lemma store_wf_written: "store_wf exact sha ids n s \<Longrightarrow> n \<le> m \<Longrightarrow> store_wf exact sha ids m s"
  unfolding store_wf_def by auto

lemma store_wf_get: "store_wf exact sha ids n s \<Longrightarrow> map_of (sr_transfers s) i = Some t \<Longrightarrow> transfer_ok exact sha ids s i t"
  unfolding store_wf_def by auto

text \<open>A transfer that changes: its bytes, its marks and its file.\<close>

lemma store_wf_put:
  assumes wf: "store_wf exact sha ids n s" and t: "map_of (sr_transfers s) i = Some t"
    and t': "tf_received t' = tf_received t" "tf_expected_size t' = tf_expected_size t" "tf_partial_path t' = tf_partial_path t"
      "tf_meta_path t' = tf_meta_path t" "tf_id t' = tf_id t" "tf_complete t' \<Longrightarrow> tf_received t = tf_expected_size t"
      "tf_file t' = tf_file t \<or> tf_file t' = None"
  shows "store_wf exact sha ids n (put_transfer i t' s)"
proof -
  have "received_bytes (put_transfer i t' s) = received_bytes s"
    using sum_update [of tf_received i t' "sr_transfers s"] t t'(1) by (simp add: received_bytes_def)
  moreover have "transfer_ok exact sha ids (put_transfer i t' s) j u" if "map_of (AList.update i t' (sr_transfers s)) j = Some u" for j u
  proof (cases "j = i")
    case True
    then have "u = t'" using that by (simp add: update_conv')
    moreover have o: "transfer_ok exact sha ids s i t" by (rule store_wf_get [OF wf t])
    moreover obtain content where "file_of s (partial_path sha (sr_transfers_dir s) i) = Some content"
      "exact \<Longrightarrow> length content = tf_received t \<and> tf_file t \<noteq> Some True"
      using o by (auto simp: transfer_ok_def)
    moreover have "exact \<Longrightarrow> tf_file t' \<noteq> Some True" using calculation(4) t'(7) by auto
    ultimately show ?thesis using t'(1-6) True by (simp add: transfer_ok_def)
  next
    case False
    then show ?thesis using that store_wf_get [OF wf] by (simp add: update_conv' transfer_ok_def)
  qed
  moreover have "\<exists>u. map_of (AList.update i t' (sr_transfers s)) j = Some u \<and> tf_received u = tf_expected_size u"
    if "awaited (put_transfer i t' s) j" for j
    using that wf t t' by (cases "j = i") (auto simp: update_conv' store_wf_def awaited_def)
  ultimately show ?thesis
    using wf unfolding store_wf_def by (simp add: distinct_update)
qed

section \<open>Every event keeps it\<close>

lemma store_wf_abandon:
  assumes wf: "store_wf exact sha ids n s" and apart: "names_apart sha ids"
  shows "store_wf exact sha ids n (fst (handle_abandon i s))"
proof -
  let ?s1 = "s\<lparr>sr_pending_completions := AList.delete i (sr_pending_completions s),
    sr_pending_begin_verifies := AList.delete i (sr_pending_begin_verifies s)\<rparr>"
  show ?thesis
  proof (cases "map_of (sr_transfers s) i")
    case None
    then have "fst (handle_abandon i s) = ?s1" by (simp add: handle_abandon_def Let_def)
    moreover have "store_wf exact sha ids n ?s1"
      by (rule store_wf_cong [OF wf]) (auto simp: awaited_def delete_conv' file_of_def fun_eq_iff split: if_splits)
    ultimately show ?thesis by simp
  next
    case (Some t)
    let ?s' = "fst (handle_abandon i s)"
    have s': "sr_transfers ?s' = AList.delete i (sr_transfers s)" "sr_total_disk_bytes ?s' = sr_total_disk_bytes s - tf_received t"
      "sr_budget ?s' = sr_budget s" "sr_transfers_dir ?s' = sr_transfers_dir s"
      "\<And>q. file_of ?s' q = (if tf_partial_path t = q then None else file_of s q)"
      "\<And>j. awaited ?s' j \<longleftrightarrow> j \<noteq> i \<and> awaited s j"
      using Some by (auto simp: handle_abandon_def Let_def awaited_def delete_conv' file_of_def remove_files_def)
    have "received_bytes s = tf_received t + received_bytes ?s'"
      using sum_delete [of "sr_transfers s" i t tf_received] wf Some s'(1) by (simp add: received_bytes_def store_wf_def)
    moreover have "transfer_ok exact sha ids ?s' j u" if "map_of (AList.delete i (sr_transfers s)) j = Some u" for j u
    proof -
      have j: "j \<noteq> i" "map_of (sr_transfers s) j = Some u" using that by (auto simp: delete_conv' split: if_splits)
      have o: "transfer_ok exact sha ids s i t" "transfer_ok exact sha ids s j u"
        using store_wf_get [OF wf] Some j(2) by blast+
      then have "tf_partial_path t \<noteq> partial_path sha (sr_transfers_dir s) j"
        using partial_path_eq [OF apart, of i j "sr_transfers_dir s"] j(1) by (simp add: transfer_ok_def)
      then show ?thesis using o(2) s'(3-5) by (simp add: transfer_ok_def)
    qed
    ultimately show ?thesis
      using wf s'(1,2,6) unfolding store_wf_def by (auto simp: distinct_delete delete_conv')
  qed
qed

lemma store_wf_abandon_all:
  assumes "names_apart sha ids"
  shows "store_wf exact sha ids n s \<Longrightarrow> store_wf exact sha ids n (fst (abandon_all is s))"
proof (induction "is" arbitrary: s)
  case (Cons i "is")
  obtain s1 out where a: "handle_abandon i s = (s1, out)" by force
  obtain s2 out' where b: "abandon_all is s1 = (s2, out')" by force
  have "store_wf exact sha ids n s1" using store_wf_abandon [OF Cons.prems assms, of i] a by simp
  with Cons.IH [of s1] a b show ?case by simp
qed simp

lemma store_wf_evict:
  assumes "names_apart sha ids"
  shows "store_wf exact sha ids n s \<Longrightarrow> store_wf exact sha ids n (fst (evict_until_under incoming s))"
proof (induction incoming s rule: evict_until_under.induct)
  case (1 incoming s)
  then show ?case
    using store_wf_abandon [OF "1.prems" assms]
    by (subst evict_until_under.simps) (auto split: option.splits prod.splits; metis fst_conv)
qed

lemma evict_fields:
  "sr_budget (fst (evict_until_under incoming s)) = sr_budget s \<and>
   sr_transfers_dir (fst (evict_until_under incoming s)) = sr_transfers_dir s \<and>
   (map_of (sr_transfers s) i = None \<longrightarrow> map_of (sr_transfers (fst (evict_until_under incoming s))) i = None) \<and>
   (awaited (fst (evict_until_under incoming s)) i \<longrightarrow> awaited s i)"
proof (induction incoming s rule: evict_until_under.induct)
  case (1 incoming s)
  have step: "sr_budget (fst (handle_abandon v s)) = sr_budget s \<and> sr_transfers_dir (fst (handle_abandon v s)) = sr_transfers_dir s \<and>
    (map_of (sr_transfers s) i = None \<longrightarrow> map_of (sr_transfers (fst (handle_abandon v s))) i = None) \<and>
    (awaited (fst (handle_abandon v s)) i \<longrightarrow> awaited s i)" for v
    by (auto simp: handle_abandon_def Let_def awaited_def delete_conv' split: option.splits if_splits)
  show ?case
  proof (cases "u64_sat_add (sr_total_disk_bytes s) incoming > sr_budget s")
    case False
    then show ?thesis by (subst (1 2 3 4) evict_until_under.simps) simp
  next
    case True
    show ?thesis
    proof (cases "oldest (sr_transfers s)")
      case None
      then have "evict_until_under incoming s = (s, [])" using True by (subst evict_until_under.simps) simp
      then show ?thesis by simp
    next
      case (Some y)
      obtain v t where y: "y = (v, t)" by force
      obtain s1 out where a: "handle_abandon v s = (s1, out)" by force
      have e: "fst (evict_until_under incoming s) = fst (evict_until_under incoming s1)"
        using True Some y a by (subst evict_until_under.simps) (simp split: prod.splits)
      show ?thesis using "1.IH" [OF True Some y [symmetric] a [symmetric]] step [of v] a e by auto
    qed
  qed
qed

text \<open>A new transfer, with an empty file.\<close>

lemma store_wf_new:
  assumes wf: "store_wf exact sha ids n s" and apart: "names_apart sha ids" and i: "i \<in> ids" "map_of (sr_transfers s) i = None"
    and t: "tf_id t = i" "tf_received t = 0" "tf_expected_size t \<le> sr_budget s"
      "tf_partial_path t = partial_path sha (sr_transfers_dir s) i" "tf_meta_path t = meta_path sha (sr_transfers_dir s) i"
      "\<not> tf_complete t" "tf_file t \<noteq> Some True"
    and s': "sr_transfers s' = AList.update i t (sr_transfers s)" "sr_budget s' = sr_budget s"
      "sr_transfers_dir s' = sr_transfers_dir s" "sr_total_disk_bytes s' = sr_total_disk_bytes s"
      "\<And>q. file_of s' q = (if q = partial_path sha (sr_transfers_dir s) i then Some [] else file_of s q)"
      "\<And>j. awaited s' j \<Longrightarrow> awaited s j"
  shows "store_wf exact sha ids n s'"
proof -
  have "received_bytes s' = received_bytes s"
    using sum_update [of tf_received i t "sr_transfers s"] i(2) t(2) s'(1) by (simp add: received_bytes_def)
  moreover have "transfer_ok exact sha ids s' j u" if "map_of (AList.update i t (sr_transfers s)) j = Some u" for j u
  proof (cases "j = i")
    case True
    then show ?thesis using that t i s' by (simp add: transfer_ok_def update_conv')
  next
    case False
    then have u: "transfer_ok exact sha ids s j u" using that store_wf_get [OF wf] by (simp add: update_conv')
    then have "partial_path sha (sr_transfers_dir s) j \<noteq> partial_path sha (sr_transfers_dir s) i"
      using False i(1) partial_path_eq [OF apart] by (simp add: transfer_ok_def)
    then show ?thesis using u s' by (simp add: transfer_ok_def)
  qed
  moreover have "\<exists>u. map_of (AList.update i t (sr_transfers s)) j = Some u \<and> tf_received u = tf_expected_size u"
    if aw: "awaited s' j" for j
  proof -
    obtain u where "map_of (sr_transfers s) j = Some u" "tf_received u = tf_expected_size u"
      using wf s'(6) [OF aw] unfolding store_wf_def by blast
    then show ?thesis using i(2) by (cases "j = i") (auto simp: update_conv')
  qed
  ultimately show ?thesis
    using wf s'(1,4) unfolding store_wf_def by (simp add: distinct_update)
qed

lemma orphan_wf:
  assumes wf: "store_wf exact sha ids n s" and apart: "names_apart sha ids" and i: "i \<in> ids" "map_of (sr_transfers s) i = None"
    and s': "sr_transfers s' = sr_transfers s" "sr_budget s' = sr_budget s" "sr_transfers_dir s' = sr_transfers_dir s"
      "sr_total_disk_bytes s' = sr_total_disk_bytes s"
      "\<And>q. q \<noteq> partial_path sha (sr_transfers_dir s) i \<Longrightarrow> file_of s' q = file_of s q"
      "\<And>j. awaited s' j \<Longrightarrow> awaited s j"
  shows "store_wf exact sha ids n s'"
proof -
  have "transfer_ok exact sha ids s' j u" if "map_of (sr_transfers s) j = Some u" for j u
  proof -
    have u: "transfer_ok exact sha ids s j u" using that store_wf_get [OF wf] by simp
    have "j \<noteq> i" using that i(2) by auto
    then have "partial_path sha (sr_transfers_dir s) j \<noteq> partial_path sha (sr_transfers_dir s) i"
      using u i(1) partial_path_eq [OF apart] by (simp add: transfer_ok_def)
    then show ?thesis using u s' by (simp add: transfer_ok_def)
  qed
  then show ?thesis using wf s' unfolding store_wf_def by (auto simp: received_bytes_def)
qed

lemma begin_fresh_wf:
  assumes wf: "store_wf exact sha ids n s" and apart: "names_apart sha ids" and i: "i \<in> ids" "map_of (sr_transfers s) i = None"
    and sz: "sz \<le> sr_budget s" and r: "begin_fresh sha fl now i sz want s = (r, s', out)"
  shows "store_wf exact sha ids n s'"
proof -
  define s1 where "s1 = (if u64_sat_add (sr_total_disk_bytes s) sz > sr_budget s
      then fst (evict_until_under sz s) else s)"
  have wf1: "store_wf exact sha ids n s1" using wf store_wf_evict [OF apart wf] by (simp add: s1_def)
  have i1: "map_of (sr_transfers s1) i = None" using evict_fields [of sz s i] i(2) by (auto simp: s1_def)
  obtain out1 where e: "(if u64_sat_add (sr_total_disk_bytes s) sz > sr_budget s then evict_until_under sz s else (s, [])) = (s1, out1)"
    unfolding s1_def
    by (cases "u64_sat_add (sr_total_disk_bytes s) sz > sr_budget s"; cases "evict_until_under sz s") auto
  let ?p = "partial_path sha (sr_transfers_dir s1) i" and ?m = "meta_path sha (sr_transfers_dir s1) i"
  let ?s2 = "s1\<lparr>sr_disk := (sr_disk s1)\<lparr>dk_files := AList.delete ?p (dk_files (sr_disk s1))\<rparr>\<rparr>"
  let ?t = "\<lparr>tf_id = i, tf_expected_size = sz, tf_expected_sha256 = want, tf_received = 0,
      tf_last_touched_unix = now, tf_partial_path = ?p, tf_meta_path = ?m, tf_file = Some False, tf_complete = False\<rparr>"
  have f2: "file_of ?s2 q = (if q = ?p then None else file_of s1 q)" for q by (simp add: file_of_def delete_conv')
  have aw: "awaited ?s2 j = awaited s1 j" for j by (simp add: awaited_def)
  consider (over) "u64_sat_add (sr_total_disk_bytes s1) sz > sr_budget s1"
    | (refused) "\<not> u64_sat_add (sr_total_disk_bytes s1) sz > sr_budget s1" "fl_open fl"
    | (made) "\<not> u64_sat_add (sr_total_disk_bytes s1) sz > sr_budget s1" "\<not> fl_open fl" by blast
  then show ?thesis
  proof cases
    case over
    then show ?thesis using r e wf1 by (simp add: begin_fresh_def)
  next
    case refused
    then have "s' = ?s2" using r e by (simp add: begin_fresh_def Let_def)
    then show ?thesis using f2 aw by (intro orphan_wf [OF wf1 apart i(1) i1]) auto
  next
    case made
    obtain ok s3 where w: "write_meta fl ?m (meta_from ?t) (put_file ?p [] ?s2) = (ok, s3)" by force
    have s3: "s3 = snd (write_meta fl ?m (meta_from ?t) (put_file ?p [] ?s2))" by (simp add: w)
    have s': "s' = (if ok then put_transfer i ?t s3 else s3)"
      using r e made w by (auto simp: begin_fresh_def Let_def split: if_splits)
    have sz1: "sz \<le> sr_budget s1"
      using sz evict_fields [of sz s i] by (auto simp: s1_def)
    show ?thesis
    proof (cases ok)
      case True
      then show ?thesis using s' sz1 f2 aw
        by (intro store_wf_new [OF wf1 apart i(1) i1, of ?t]) (auto simp: s3 awaited_def)
    next
      case False
      then show ?thesis using s' f2 aw
        by (intro orphan_wf [OF wf1 apart i(1) i1]) (auto simp: s3 awaited_def)
    qed
  qed
qed

text \<open>More bytes of a transfer.\<close>

lemma store_wf_receive:
  assumes wf: "store_wf exact sha ids n s" and apart: "names_apart sha ids" and t: "map_of (sr_transfers s) i = Some t"
    and fits: "tf_received t + k \<le> tf_expected_size t"
    and c: "exact \<Longrightarrow> length content = tf_received t + k \<and> tf_file t' \<noteq> Some True"
    and t': "tf_received t' = tf_received t + k" "tf_expected_size t' = tf_expected_size t" "tf_partial_path t' = tf_partial_path t"
      "tf_meta_path t' = tf_meta_path t" "tf_id t' = tf_id t" "tf_complete t' = tf_complete t"
    and s': "sr_transfers s' = AList.update i t' (sr_transfers s)" "sr_budget s' = sr_budget s"
      "sr_transfers_dir s' = sr_transfers_dir s" "sr_total_disk_bytes s' = sr_total_disk_bytes s + k"
      "\<And>q. file_of s' q = (if q = tf_partial_path t then Some content else file_of s q)" "\<And>j. awaited s' j \<Longrightarrow> awaited s j"
  shows "store_wf exact sha ids (n + k) s'"
proof -
  have o: "transfer_ok exact sha ids s i t" by (rule store_wf_get [OF wf t])
  have "received_bytes s' = received_bytes s + k"
    using sum_update [of tf_received i t' "sr_transfers s"] t t'(1) s'(1) by (simp add: received_bytes_def)
  moreover have "transfer_ok exact sha ids s' j u" if "map_of (AList.update i t' (sr_transfers s)) j = Some u" for j u
  proof (cases "j = i")
    case True
    then have "u = t'" using that by (simp add: update_conv')
    then show ?thesis using o t' c s' fits True by (auto simp: transfer_ok_def)
  next
    case False
    then have u: "transfer_ok exact sha ids s j u" using that store_wf_get [OF wf] by (simp add: update_conv')
    then have "partial_path sha (sr_transfers_dir s) j \<noteq> tf_partial_path t"
      using False o partial_path_eq [OF apart, of j i] by (simp add: transfer_ok_def)
    then show ?thesis using u s' by (simp add: transfer_ok_def)
  qed
  moreover have "\<exists>u. map_of (AList.update i t' (sr_transfers s)) j = Some u \<and> tf_received u = tf_expected_size u"
    if aw: "awaited s' j" for j
  proof -
    obtain u where u: "map_of (sr_transfers s) j = Some u" "tf_received u = tf_expected_size u"
      using wf s'(6) [OF aw] unfolding store_wf_def by blast
    then show ?thesis using t t' fits by (cases "j = i") (auto simp: update_conv')
  qed
  ultimately show ?thesis
    using wf s'(1,4) unfolding store_wf_def by (simp add: distinct_update)
qed

lemma chunk_write_wf:
  assumes wf: "store_wf exact sha ids n s" and apart: "names_apart sha ids"
    and sizes: "n + length bs \<le> U64_MAX" "sr_budget s < U64_MAX" and fine: "exact \<Longrightarrow> fl_write fl = None"
    and c: "handle_chunk_write fl now i offset bs s = (r, s')"
  shows "store_wf exact sha ids (n + length bs) s'"
    and "r = Inr (HashPending p) \<Longrightarrow> \<exists>t. map_of (sr_transfers s') i = Some t \<and> tf_received t = tf_expected_size t"
proof -
  have same: "store_wf exact sha ids (n + length bs) s" by (rule store_wf_written [OF wf]) simp
  have "store_wf exact sha ids (n + length bs) s' \<and>
    (\<forall>p. r = Inr (HashPending p) \<longrightarrow> (\<exists>t. map_of (sr_transfers s') i = Some t \<and> tf_received t = tf_expected_size t))"
  proof (cases "map_of (sr_transfers s) i")
    case None
    then show ?thesis using c same by (auto simp: handle_chunk_write_def)
  next
    case (Some t)
    have o: "transfer_ok exact sha ids s i t" by (rule store_wf_get [OF wf Some])
    show ?thesis
    proof (cases "offset \<noteq> tf_received t \<or> u64_sat_add (tf_received t) (length bs) > tf_expected_size t \<or>
        tf_file t = None \<and> fl_open fl")
      case True
      then have "s' = s \<and> (\<exists>e. r = Inl e)" using c Some by (auto simp: handle_chunk_write_def Let_def split: if_splits)
      then show ?thesis using same by auto
    next
      case False
      then have fits: "tf_received t + length bs \<le> tf_expected_size t" and off: "offset = tf_received t"
        and opens: "\<not> (tf_file t = None \<and> fl_open fl)"
        using o sizes(2) by (auto simp: transfer_ok_def u64_sat_add_def min_def split: if_splits)
      have add: "u64_add (tf_received t) (length bs) = tf_received t + length bs"
        using fits o sizes(2) by (simp add: u64_add_def transfer_ok_def)
      have tot: "u64_sat_add (sr_total_disk_bytes s) (length bs) = sr_total_disk_bytes s + length bs"
        using wf sizes(1) by (simp add: u64_sat_add_def store_wf_def)
      obtain content where fc: "file_of s (tf_partial_path t) = Some content"
        "exact \<Longrightarrow> length content = tf_received t \<and> tf_file t \<noteq> Some True"
        using o by (auto simp: transfer_ok_def)
      obtain ok written failed where w: "file_write_all (fl_write fl) (tf_file t = Some True) bs = (ok, written, failed)"
        by (metis prod_cases3)
      have whole: "exact \<Longrightarrow> ok \<and> written = bs \<and> \<not> failed"
        using w fine fc(2) by (auto simp: file_write_all_def split: if_splits)
      let ?s1 = "put_file (tf_partial_path t) (content @ written) s"
      show ?thesis
      proof (cases ok)
        case False
        then have s': "s' = put_transfer i (t\<lparr>tf_file := Some failed\<rparr>) ?s1" "r = Inl IoError"
          using c Some off fits opens sizes(2) o fc(1) w
          by (auto simp: handle_chunk_write_def Let_def u64_sat_add_def transfer_ok_def split: if_splits)
        have "store_wf exact sha ids (n + 0) s'"
          by (rule store_wf_receive [OF wf apart Some, of 0 "content @ written" "t\<lparr>tf_file := Some failed\<rparr>"])
            (use fits whole False in \<open>auto simp: s' awaited_def\<close>)
        then show ?thesis using s'(2) store_wf_written [of exact sha ids n s' "n + length bs"] by simp
      next
        case True
        let ?t2 = "t\<lparr>tf_file := Some failed, tf_received := tf_received t + length bs, tf_last_touched_unix := now\<rparr>"
        let ?t = "if tf_received t + length bs < tf_expected_size t then ?t2 else ?t2\<lparr>tf_file := None\<rparr>"
        have s': "s' = put_transfer i ?t (?s1\<lparr>sr_total_disk_bytes := sr_total_disk_bytes s + length bs\<rparr>)"
          "\<And>p. r = Inr (HashPending p) \<Longrightarrow> tf_received t + length bs = tf_expected_size t"
          using c Some off fits opens sizes(2) o fc(1) w True add tot
          by (auto simp: handle_chunk_write_def Let_def not_less u64_sat_add_def transfer_ok_def split: if_splits)
        have "store_wf exact sha ids (n + length bs) s'"
          by (rule store_wf_receive [OF wf apart Some fits, of "content @ written" ?t])
            (use whole fc(2) in \<open>auto simp: s' awaited_def file_of_def put_file_def put_transfer_def update_conv'\<close>)
        moreover have "map_of (sr_transfers s') i = Some ?t" by (simp add: s' update_conv')
        ultimately show ?thesis using s'(2) by auto
      qed
    qed
  qed
  then show "store_wf exact sha ids (n + length bs) s'"
    and "r = Inr (HashPending p) \<Longrightarrow> \<exists>t. map_of (sr_transfers s') i = Some t \<and> tf_received t = tf_expected_size t"
    by auto
qed

lemma store_handle_chunk_wf:
  assumes wf: "store_wf exact sha ids n s" and apart: "names_apart sha ids"
    and sizes: "n + length bs \<le> U64_MAX" "sr_budget s < U64_MAX" and fine: "exact \<Longrightarrow> fl_write fl = None"
  shows "store_wf exact sha ids (n + length bs) (fst (store_handle_chunk fl now w i offset bs s))"
proof -
  obtain r s' where c: "handle_chunk_write fl now i offset bs s = (r, s')" by force
  note s' = chunk_write_wf [OF wf apart sizes fine c]
  have "store_wf exact sha ids (n + length bs) (s'\<lparr>sr_pending_completions := AList.update i w (sr_pending_completions s'), sr_seals := q\<rparr>)"
    if "r = Inr (HashPending p)" for p q
    using s'(1) s'(2) [OF _ that] unfolding store_wf_def transfer_ok_def received_bytes_def awaited_def
    by (auto simp: update_conv' file_of_def)
  then show ?thesis using s'(1) c by (auto simp: store_handle_chunk_def split: sum.splits WriteOutcome.splits)
qed

text \<open>A callback that is waited for, on a transfer that has all its bytes.\<close>

lemma store_wf_await:
  assumes wf: "store_wf exact sha ids n s" and t: "map_of (sr_transfers s) i = Some t" "tf_received t = tf_expected_size t"
    and s': "sr_transfers s' = sr_transfers s" "sr_budget s' = sr_budget s" "sr_transfers_dir s' = sr_transfers_dir s"
      "sr_total_disk_bytes s' = sr_total_disk_bytes s" "file_of s' = file_of s" "\<And>j. awaited s' j \<Longrightarrow> j = i \<or> awaited s j"
  shows "store_wf exact sha ids n s'"
proof -
  have "transfer_ok exact sha ids s' = transfer_ok exact sha ids s" by (intro ext) (simp add: transfer_ok_def s')
  moreover have "received_bytes s' = received_bytes s" by (simp add: received_bytes_def s')
  moreover have "\<exists>u. map_of (sr_transfers s) j = Some u \<and> tf_received u = tf_expected_size u" if "awaited s' j" for j
    using s'(6) [OF that] t wf unfolding store_wf_def by blast
  ultimately show ?thesis using wf s'(1,4) unfolding store_wf_def by auto
qed

lemma handle_begin_wf:
  assumes wf: "store_wf exact sha ids n s" and apart: "names_apart sha ids" and i: "i \<in> ids"
  shows "store_wf exact sha ids n (fst (handle_begin sha fl now w i sz want s))"
proof -
  obtain fp s1 where f: "begin_fast_path now i sz want s = (fp, s1)" by force
  have same: "fp = Reject e \<or> fp = Fresh \<Longrightarrow> s1 = s" for e
    using f by (auto simp: begin_fast_path_def Let_def split: if_splits option.splits)
  have fresh: "fp = Fresh \<Longrightarrow> map_of (sr_transfers s) i = None \<and> sz \<le> sr_budget s"
    using f by (auto simp: begin_fast_path_def Let_def split: if_splits option.splits)
  have touched: "\<exists>t. map_of (sr_transfers s) i = Some t \<and> s1 = put_transfer i (t\<lparr>tf_last_touched_unix := now\<rparr>) s \<and>
      (fp = VerifyComplete p \<longrightarrow> tf_complete t \<or> tf_received t = tf_expected_size t)"
    if "fp = ResumeAt k \<or> fp = VerifyComplete p" for k p
    using f that by (auto simp: begin_fast_path_def Let_def split: if_splits option.splits)
  have put: "store_wf exact sha ids n (put_transfer i (t\<lparr>tf_last_touched_unix := now\<rparr>) s)" if t: "map_of (sr_transfers s) i = Some t" for t
    by (rule store_wf_put [OF wf t]) (use store_wf_get [OF wf t] in \<open>auto simp: transfer_ok_def\<close>)
  show ?thesis
  proof (cases fp)
    case (Reject e)
    then show ?thesis using f same wf by (simp add: handle_begin_def)
  next
    case (ResumeAt k)
    then show ?thesis using f touched [of k] put by (auto simp: handle_begin_def)
  next
    case (VerifyComplete p)
    then obtain t where t: "map_of (sr_transfers s) i = Some t" "s1 = put_transfer i (t\<lparr>tf_last_touched_unix := now\<rparr>) s"
      "tf_complete t \<or> tf_received t = tf_expected_size t"
      using touched [of _ p] by auto
    then have "tf_received t = tf_expected_size t" using store_wf_get [OF wf t(1)] by (auto simp: transfer_ok_def)
    then show ?thesis
      using f VerifyComplete
      by (simp add: handle_begin_def)
        (rule store_wf_await [OF put [OF t(1)], of i "t\<lparr>tf_last_touched_unix := now\<rparr>"],
          auto simp: t(2) update_conv' awaited_def file_of_def fun_eq_iff split: if_splits)
  next
    case Fresh
    obtain r s2 out where b: "begin_fresh sha fl now i sz want s = (r, s2, out)" by (metis prod_cases3)
    then show ?thesis using f same Fresh fresh begin_fresh_wf [OF wf apart i _ _ b] by (simp add: handle_begin_def)
  qed
qed

lemma unawait:
  assumes "store_wf exact sha ids n s" "sr_transfers s' = sr_transfers s" "sr_budget s' = sr_budget s" "sr_transfers_dir s' = sr_transfers_dir s"
    "sr_total_disk_bytes s' = sr_total_disk_bytes s" "sr_disk s' = sr_disk s" "\<And>j. awaited s' j \<Longrightarrow> awaited s j"
  shows "store_wf exact sha ids n s'"
  by (rule store_wf_cong [OF assms(1-5) _ assms(7)]) (simp_all add: file_of_def fun_eq_iff assms)

lemma handle_hash_completed_wf:
  assumes wf: "store_wf exact sha ids n s"
  shows "store_wf exact sha ids n (fst (handle_hash_completed fl now i result s))"
proof (cases "map_of (sr_pending_completions s) i")
  case None
  then show ?thesis using wf by (simp add: handle_hash_completed_def)
next
  case (Some w)
  let ?s1 = "s\<lparr>sr_pending_completions := AList.delete i (sr_pending_completions s)\<rparr>"
  obtain t where t: "map_of (sr_transfers s) i = Some t" "tf_received t = tf_expected_size t"
    using wf Some unfolding store_wf_def awaited_def by auto
  have wf1: "store_wf exact sha ids n ?s1"
    by (rule unawait [OF wf]) (auto simp: awaited_def delete_conv' split: if_splits)
  let ?t1 = "t\<lparr>tf_complete := True, tf_last_touched_unix := now\<rparr>"
  have wf2: "store_wf exact sha ids n (put_transfer i ?t1 ?s1)"
    by (rule store_wf_put [OF wf1, of i t]) (use t in auto)
  have "store_wf exact sha ids n (snd (write_meta fl (tf_meta_path ?t1) (meta_from ?t1) (put_transfer i ?t1 ?s1)))"
    by (rule store_wf_cong [OF wf2]) (auto simp: awaited_def)
  then show ?thesis
    using Some t wf1 by (auto simp: handle_hash_completed_def Let_def split: sum.splits)
qed

lemma handle_begin_verified_wf:
  assumes wf: "store_wf exact sha ids n s" and apart: "names_apart sha ids"
  shows "store_wf exact sha ids n (fst (handle_begin_verified sha fl now i result s))"
proof (cases "map_of (sr_pending_begin_verifies s) i")
  case None
  then show ?thesis using wf by (simp add: handle_begin_verified_def)
next
  case (Some w)
  let ?s1 = "s\<lparr>sr_pending_begin_verifies := AList.delete i (sr_pending_begin_verifies s)\<rparr>"
  obtain t where t: "map_of (sr_transfers s) i = Some t" "tf_received t = tf_expected_size t"
    using wf Some unfolding store_wf_def awaited_def by auto
  have wf1: "store_wf exact sha ids n ?s1"
    by (rule unawait [OF wf]) (auto simp: awaited_def delete_conv' split: if_splits)
  let ?t1 = "t\<lparr>tf_file := None, tf_complete := True\<rparr>"
  have wf2: "store_wf exact sha ids n (put_transfer i ?t1 ?s1)"
    by (rule store_wf_put [OF wf1, of i t]) (use t in auto)
  have wf3: "store_wf exact sha ids n (snd (write_meta fl (tf_meta_path ?t1) (meta_from ?t1) (put_transfer i ?t1 ?s1)))"
    by (rule store_wf_cong [OF wf2]) (auto simp: awaited_def)
  obtain s2 out where a: "handle_abandon i ?s1 = (s2, out)" by force
  obtain r s3 out' where b: "begin_fresh sha fl now i (tf_expected_size t) (tf_expected_sha256 t) s2 = (r, s3, out')"
    by (metis prod_cases3)
  have o: "transfer_ok exact sha ids ?s1 i t" by (rule store_wf_get [OF wf1]) (use t in simp)
  have s2: "store_wf exact sha ids n s2" "map_of (sr_transfers s2) i = None" "sr_budget s2 = sr_budget s"
    using store_wf_abandon [OF wf1 apart, of i] abandon_transfers [of i ?s1] a t
    by (auto simp: delete_conv' handle_abandon_def Let_def)
  have "store_wf exact sha ids n s3"
    by (rule begin_fresh_wf [OF s2(1) apart _ s2(2) _ b]) (use o s2(3) in \<open>auto simp: transfer_ok_def\<close>)
  then show ?thesis
    using Some t(1) wf1 wf2 wf3 a b by (auto simp: handle_begin_verified_def Let_def split: sum.splits)
qed

fun event_ids :: "StoreEvent \<Rightarrow> string set" where
  "event_ids (Begin w i sz want now fl) = {i}"
| "event_ids _ = {}"

fun event_bytes :: "StoreEvent \<Rightarrow> nat" where
  "event_bytes (AcceptChunk w i offset bs now fl) = length bs"
| "event_bytes _ = 0"

text \<open>No write fails while the event is handled.\<close>

fun writes_ok :: "StoreEvent \<Rightarrow> bool" where
  "writes_ok (AcceptChunk w i offset bs now fl) \<longleftrightarrow> fl_write fl = None"
| "writes_ok _ \<longleftrightarrow> True"

lemma store_event_wf:
  assumes wf: "store_wf exact sha ids n s" and apart: "names_apart sha ids" and i: "event_ids e \<subseteq> ids"
    and sizes: "n + event_bytes e \<le> U64_MAX" "sr_budget s < U64_MAX" and fine: "exact \<Longrightarrow> writes_ok e"
  shows "store_wf exact sha ids (n + event_bytes e) (fst (store_event sha e s))"
proof (cases e)
  case (Begin w i sz want now fl)
  then show ?thesis using handle_begin_wf [OF wf apart] i by simp
next
  case (AcceptChunk w i offset bs now fl)
  then show ?thesis using store_handle_chunk_wf [OF wf apart _ sizes(2)] sizes(1) fine by simp
next
  case (Abandon w i)
  then show ?thesis using store_wf_abandon [OF wf apart, of i] by (cases "handle_abandon i s") simp
next
  case (AbandonMatching w prefix)
  then show ?thesis using store_wf_abandon_all [OF apart wf]
    by (cases "abandon_matching prefix s") (simp add: abandon_matching_def, metis fst_conv)
next
  case (SealRuns k fault)
  then show ?thesis using wf by (auto intro!: unawait [OF wf] simp: awaited_def split: prod.splits)
next
  case (ReportArrives k now fl)
  have "store_wf exact sha ids n (s\<lparr>sr_reports := q\<rparr>)" for q by (rule unawait [OF wf]) (auto simp: awaited_def)
  then show ?thesis using ReportArrives wf handle_hash_completed_wf handle_begin_verified_wf [OF _ apart]
    by (auto simp: Let_def split: prod.splits SealFor.splits)
next
  case (Sweep now)
  then show ?thesis using store_wf_abandon_all [OF apart wf] by (simp add: sweep_stale_def)
qed

lemma abandon_budget [simp]: "sr_budget (fst (handle_abandon i s)) = sr_budget s"
  by (auto simp: handle_abandon_def Let_def split: option.splits)

lemma abandon_all_budget [simp]: "sr_budget (fst (abandon_all is s)) = sr_budget s"
proof (induction "is" arbitrary: s)
  case (Cons i "is")
  obtain s1 out where a: "handle_abandon i s = (s1, out)" by force
  obtain s2 out' where b: "abandon_all is s1 = (s2, out')" by force
  show ?case using abandon_budget [of i s] Cons [of s1] a b by simp
qed simp

lemma begin_fresh_budget: "begin_fresh sha fl now i sz want s = (r, s', out) \<Longrightarrow> sr_budget s' = sr_budget s"
  using evict_fields [of sz s i]
  by (auto simp: begin_fresh_def Let_def write_meta_def put_file_def split: if_splits prod.splits)

lemma chunk_write_budget: "sr_budget (snd (handle_chunk_write fl now i offset bs s)) = sr_budget s"
  by (simp add: handle_chunk_write_def Let_def split: option.split prod.split)

lemma store_event_budget: "sr_budget (fst (store_event sha e s)) = sr_budget s"
proof (cases e)
  case (Begin w i sz want now fl)
  obtain fp s1 where f: "begin_fast_path now i sz want s = (fp, s1)" by force
  have "sr_budget s1 = sr_budget s"
    using f by (auto simp: begin_fast_path_def Let_def split: if_splits option.splits)
  then show ?thesis
    using Begin f begin_fresh_budget by (auto simp: handle_begin_def split: FastPath.splits prod.splits)
next
  case (AcceptChunk w i offset bs now fl)
  then show ?thesis using chunk_write_budget [of fl now i offset bs s]
    by (auto simp: store_handle_chunk_def split: prod.splits sum.splits WriteOutcome.splits)
next
  case (Abandon w i)
  then show ?thesis using abandon_budget [of i s] by (cases "handle_abandon i s") simp
next
  case (AbandonMatching w prefix)
  then show ?thesis
    by (cases "abandon_matching prefix s") (simp add: abandon_matching_def, metis abandon_all_budget fst_conv)
next
  case (SealRuns k fault)
  then show ?thesis by (auto split: prod.splits)
next
  case (ReportArrives k now fl)
  have c: "sr_budget (fst (handle_hash_completed fl now i r s)) = sr_budget s" for i r and s
    by (auto simp: handle_hash_completed_def Let_def split: option.splits sum.splits)
  have "sr_budget (fst (handle_begin_verified sha fl now i r s)) = sr_budget s" for i r and s
  proof (cases "map_of (sr_pending_begin_verifies s) i = None \<or> map_of (sr_transfers s) i = None")
    case True
    then show ?thesis by (auto simp: handle_begin_verified_def Let_def split: option.splits)
  next
    case False
    then obtain w t where "map_of (sr_pending_begin_verifies s) i = Some w" "map_of (sr_transfers s) i = Some t" by auto
    then show ?thesis using begin_fresh_budget abandon_budget [of i "s\<lparr>sr_pending_begin_verifies := AList.delete i (sr_pending_begin_verifies s)\<rparr>"]
      by (auto simp: handle_begin_verified_def Let_def simp del: abandon_budget split: sum.splits prod.splits)
  qed
  with c ReportArrives show ?thesis by (auto simp: Let_def split: prod.splits SealFor.splits)
next
  case (Sweep now)
  then show ?thesis by (simp add: sweep_stale_def)
qed

definition run_ids :: "StoreEvent list \<Rightarrow> string set" where
  "run_ids es = \<Union> (set (map event_ids es))"

definition run_bytes :: "StoreEvent list \<Rightarrow> nat" where
  "run_bytes es = sum_list (map event_bytes es)"

lemma store_run_wf:
  assumes "store_wf exact sha ids n s" "names_apart sha ids" "run_ids es \<subseteq> ids" "n + run_bytes es \<le> U64_MAX" "sr_budget s < U64_MAX"
    and "exact \<Longrightarrow> list_all writes_ok es"
  shows "store_wf exact sha ids (n + run_bytes es) (fst (store_run sha es s))"
  using assms
proof (induction es arbitrary: n s)
  case Nil
  then show ?case by (simp add: run_bytes_def)
next
  case (Cons e es)
  obtain s1 out where a: "store_event sha e s = (s1, out)" by force
  obtain s2 out' where b: "store_run sha es s1 = (s2, out')" by force
  have "store_wf exact sha ids (n + event_bytes e) s1"
    using store_event_wf [OF Cons.prems(1,2), of e] Cons.prems(3-6) a by (simp add: run_ids_def run_bytes_def)
  moreover have "sr_budget s1 = sr_budget s" using store_event_budget [of sha e s] a by simp
  ultimately have "store_wf exact sha ids (n + event_bytes e + run_bytes es) s2"
    using Cons.IH [of "n + event_bytes e" s1] Cons.prems b by (simp add: run_ids_def run_bytes_def)
  then show ?case using a b by (simp add: run_bytes_def add.assoc)
qed

lemma store_wf_init: "store_wf exact sha ids 0 (store_init dir budget)"
  by (simp add: store_wf_def store_init_def received_bytes_def awaited_def)

end
