(* ===== verification/Transfer_Store_Verified.thy ===== *)
theory Transfer_Store_Verified
  imports Transfer_Store_Facts
begin

text \<open>What a report of completion says about the file, the accounting of the store, and the two ways in which it
  goes wrong: a verification that outlives its transfer, and transfers that together exceed the budget.\<close>

section \<open>Verifications in flight\<close>

text \<open>What a transfer of a state is in a later one, as far as a verification of it goes.\<close>

definition keeps :: "Store \<Rightarrow> Store \<Rightarrow> string \<Rightarrow> bool" where
  "keeps s s' i \<longleftrightarrow>
    (\<forall>t'. map_of (sr_transfers s') i = Some t' \<longrightarrow>
      (\<exists>t. map_of (sr_transfers s) i = Some t \<and> tf_received t' = tf_received t \<and> tf_expected_size t' = tf_expected_size t \<and>
        tf_partial_path t' = tf_partial_path t \<and> file_of s' (tf_partial_path t) = file_of s (tf_partial_path t)))"

lemma keeps_refl [simp]: "keeps s s i"
  by (simp add: keeps_def)

lemma keeps_trans: "keeps s s1 i \<Longrightarrow> keeps s1 s2 i \<Longrightarrow> keeps s s2 i"
  unfolding keeps_def by metis

definition report_true :: "(bytes \<Rightarrow> string) \<Rightarrow> Store \<Rightarrow> Transfer \<Rightarrow> TransferError + string \<Rightarrow> bool" where
  "report_true sha s t r \<longleftrightarrow>
    (case r of Inl e \<Rightarrow> True | Inr h \<Rightarrow> (\<exists>content. file_of s (tf_partial_path t) = Some content \<and> h = sha content))"

definition seals_ok :: "(bytes \<Rightarrow> string) \<Rightarrow> Store \<Rightarrow> bool" where
  "seals_ok sha s \<longleftrightarrow>
    (\<forall>k i p t. (k, i, p) \<in> set (sr_seals s) \<longrightarrow> map_of (sr_transfers s) i = Some t \<longrightarrow>
      p = tf_partial_path t \<and> tf_received t = tf_expected_size t) \<and>
    (\<forall>k i r t. (k, i, r) \<in> set (sr_reports s) \<longrightarrow> map_of (sr_transfers s) i = Some t \<longrightarrow>
      tf_received t = tf_expected_size t \<and> report_true sha s t r)"

definition sealing :: "Store \<Rightarrow> string \<Rightarrow> bool" where
  "sealing s i \<longleftrightarrow> i \<in> (fst \<circ> snd) ` set (sr_seals s) \<or> i \<in> (fst \<circ> snd) ` set (sr_reports s)"

lemma seals_ok_keeps:
  assumes "seals_ok sha s" "set (sr_seals s') \<subseteq> set (sr_seals s)" "set (sr_reports s') \<subseteq> set (sr_reports s)"
    and "\<And>i. sealing s' i \<Longrightarrow> keeps s s' i"
  shows "seals_ok sha s'"
proof -
  have a: "sealing s' i" if "(k, i, p) \<in> set (sr_seals s')" for k i p
    using that unfolding sealing_def by force
  have b: "sealing s' i" if "(k, i, r) \<in> set (sr_reports s')" for k i and r
    using that unfolding sealing_def by force
  show ?thesis
    unfolding seals_ok_def
  proof (intro conjI allI impI)
    fix k i p t' assume "(k, i, p) \<in> set (sr_seals s')" "map_of (sr_transfers s') i = Some t'"
    with a [of k i p] assms show "p = tf_partial_path t'" "tf_received t' = tf_expected_size t'"
      unfolding seals_ok_def keeps_def by (metis subsetD)+
  next
    fix k i r t' assume h: "(k, i, r) \<in> set (sr_reports s')" "map_of (sr_transfers s') i = Some t'"
    obtain t where t: "map_of (sr_transfers s) i = Some t" "tf_received t' = tf_received t" "tf_expected_size t' = tf_expected_size t"
        "tf_partial_path t' = tf_partial_path t" "file_of s' (tf_partial_path t) = file_of s (tf_partial_path t)"
      using assms(4) [OF b [OF h(1)]] h(2) unfolding keeps_def by blast
    have "tf_received t = tf_expected_size t \<and> report_true sha s t r"
      using assms(1,3) h(1) t(1) unfolding seals_ok_def by blast
    then show "tf_received t' = tf_expected_size t'" "report_true sha s' t' r"
      using t by (simp_all add: report_true_def split: sum.splits)
  qed
qed

lemma keeps_put:
  assumes "map_of (sr_transfers s) i = Some t" "tf_received t' = tf_received t" "tf_expected_size t' = tf_expected_size t"
    "tf_partial_path t' = tf_partial_path t"
  shows "keeps s (put_transfer i t' s) j"
  using assms by (cases "j = i") (auto simp: keeps_def update_conv')

lemma keeps_same:
  assumes "sr_transfers s' = sr_transfers s" "file_of s' = file_of s"
  shows "keeps s s' j"
  using assms by (simp add: keeps_def)

lemma keeps_abandon:
  assumes wf: "store_wf exact sha ids n s" and apart: "names_apart sha ids"
  shows "keeps s (fst (handle_abandon i s)) j"
proof (cases "map_of (sr_transfers s) i")
  case None
  then show ?thesis by (auto simp: handle_abandon_def Let_def keeps_def file_of_def)
next
  case (Some t)
  show ?thesis
  proof (cases "j = i")
    case True
    then show ?thesis by (simp add: keeps_def abandon_transfers delete_conv')
  next
    case False
    have "tf_partial_path t \<noteq> tf_partial_path u" if "map_of (sr_transfers s) j = Some u" for u
      using store_wf_get [OF wf Some] store_wf_get [OF wf that] partial_path_eq [OF apart, of i j] False
      by (auto simp: transfer_ok_def)
    then show ?thesis
      using Some False by (auto simp: handle_abandon_def Let_def keeps_def delete_conv' file_of_def remove_files_def)
  qed
qed

lemma abandon_seals [simp]:
  "sr_seals (fst (handle_abandon i s)) = sr_seals s" "sr_reports (fst (handle_abandon i s)) = sr_reports s"
  by (auto simp: handle_abandon_def Let_def split: option.splits)

lemma abandon_all_keeps:
  assumes "names_apart sha ids"
  shows "store_wf exact sha ids n s \<Longrightarrow> keeps s (fst (abandon_all is s)) j \<and>
    sr_seals (fst (abandon_all is s)) = sr_seals s \<and> sr_reports (fst (abandon_all is s)) = sr_reports s"
proof (induction "is" arbitrary: s)
  case (Cons i "is")
  obtain s1 out where a: "handle_abandon i s = (s1, out)" by force
  obtain s2 out' where b: "abandon_all is s1 = (s2, out')" by force
  have "store_wf exact sha ids n s1" "keeps s s1 j" "sr_seals s1 = sr_seals s" "sr_reports s1 = sr_reports s"
    using store_wf_abandon [OF Cons.prems assms, of i] keeps_abandon [OF Cons.prems assms, of i j] abandon_seals [of i s] a
    by simp_all
  with Cons.IH [of s1] a b show ?case by (auto intro: keeps_trans)
qed simp

lemma evict_keeps:
  assumes "names_apart sha ids"
  shows "store_wf exact sha ids n s \<Longrightarrow> keeps s (fst (evict_until_under incoming s)) j \<and>
    sr_seals (fst (evict_until_under incoming s)) = sr_seals s \<and> sr_reports (fst (evict_until_under incoming s)) = sr_reports s"
proof (induction incoming s rule: evict_until_under.induct)
  case (1 incoming s)
  show ?case
  proof (cases "u64_sat_add (sr_total_disk_bytes s) incoming > sr_budget s \<and> oldest (sr_transfers s) \<noteq> None")
    case False
    then have "evict_until_under incoming s = (s, [])" by (subst evict_until_under.simps) (auto split: option.splits)
    then show ?thesis by simp
  next
    case True
    then obtain v t where y: "oldest (sr_transfers s) = Some (v, t)" by auto
    obtain s1 out where a: "handle_abandon v s = (s1, out)" by force
    have e: "fst (evict_until_under incoming s) = fst (evict_until_under incoming s1)"
      using True y a by (subst evict_until_under.simps) (simp split: prod.splits)
    have "store_wf exact sha ids n s1" "keeps s s1 j" "sr_seals s1 = sr_seals s" "sr_reports s1 = sr_reports s"
      using store_wf_abandon [OF "1.prems" assms, of v] keeps_abandon [OF "1.prems" assms, of v j] abandon_seals [of v s] a
      by simp_all
    with "1.IH" [OF _ y refl a [symmetric]] True e show ?thesis by (auto intro: keeps_trans)
  qed
qed

lemma begin_fresh_keeps:
  assumes wf: "store_wf exact sha ids n s" and apart: "names_apart sha ids" and i: "i \<in> ids" "map_of (sr_transfers s) i = None"
    and r: "begin_fresh sha fl now i sz want s = (r, s', out)"
  shows "j \<noteq> i \<Longrightarrow> keeps s s' j" "sr_seals s' = sr_seals s" "sr_reports s' = sr_reports s"
proof -
  define s1 where "s1 = (if u64_sat_add (sr_total_disk_bytes s) sz > sr_budget s
      then fst (evict_until_under sz s) else s)"
  have wf1: "store_wf exact sha ids n s1" using wf store_wf_evict [OF apart wf] by (simp add: s1_def)
  have k1: "keeps s s1 j" "sr_seals s1 = sr_seals s" "sr_reports s1 = sr_reports s" for j
    using evict_keeps [OF apart wf, of sz] by (simp_all add: s1_def)
  obtain out1 where e: "(if u64_sat_add (sr_total_disk_bytes s) sz > sr_budget s then evict_until_under sz s else (s, [])) = (s1, out1)"
    unfolding s1_def
    by (cases "u64_sat_add (sr_total_disk_bytes s) sz > sr_budget s"; cases "evict_until_under sz s") auto
  let ?p = "partial_path sha (sr_transfers_dir s1) i"
  have same: "(map_of (sr_transfers s') j = map_of (sr_transfers s1) j \<and> (\<forall>q. q \<noteq> ?p \<longrightarrow> file_of s' q = file_of s1 q)) \<and>
      sr_seals s' = sr_seals s1 \<and> sr_reports s' = sr_reports s1" if "j \<noteq> i" for j
    using r e that by (auto simp: begin_fresh_def Let_def write_meta_def put_file_def put_transfer_def update_conv' delete_conv' file_of_def
      split: if_splits)
  have "?p \<noteq> tf_partial_path u" if "map_of (sr_transfers s1) j = Some u" "j \<noteq> i" for j u
    using store_wf_get [OF wf1 that(1)] partial_path_eq [OF apart, of i j] i(1) that(2) by (auto simp: transfer_ok_def)
  then have "keeps s1 s' j" if "j \<noteq> i" for j
    using same [OF that] that unfolding keeps_def by metis
  then show "j \<noteq> i \<Longrightarrow> keeps s s' j" using k1(1) keeps_trans by blast
  show "sr_seals s' = sr_seals s" "sr_reports s' = sr_reports s"
    using r e k1(2,3) by (auto simp: begin_fresh_def Let_def write_meta_def put_file_def put_transfer_def split: if_splits)
qed

section \<open>Runs in which no transfer is begun again under a verification\<close>

fun calm_event :: "StoreEvent \<Rightarrow> Store \<Rightarrow> bool" where
  "calm_event (Begin w i sz want now fl) s = (map_of (sr_transfers s) i = None \<longrightarrow> \<not> sealing s i)"
| "calm_event (ReportArrives n now fl) s =
    (n < length (sr_reports s) \<longrightarrow>
      (case sr_reports s ! n of
         (ForBegin, i, r) \<Rightarrow> \<not> sealing (s\<lparr>sr_reports := drop_nth n (sr_reports s)\<rparr>) i
       | (ForChunk, i, r) \<Rightarrow> True))"
| "calm_event _ s = True"

fun calm_run :: "(bytes \<Rightarrow> string) \<Rightarrow> StoreEvent list \<Rightarrow> Store \<Rightarrow> bool" where
  "calm_run sha [] s = True"
| "calm_run sha (e # es) s = (calm_event e s \<and> calm_run sha es (fst (store_event sha e s)))"

lemma set_drop_nth: "set (drop_nth n xs) \<subseteq> set xs"
  by (auto simp: drop_nth_def dest: in_set_takeD in_set_dropD)

lemma sealing_fewer:
  "set (sr_seals s') \<subseteq> set (sr_seals s) \<Longrightarrow> set (sr_reports s') \<subseteq> set (sr_reports s) \<Longrightarrow> sealing s' i \<Longrightarrow> sealing s i"
  unfolding sealing_def by auto

lemma seals_ok_add:
  assumes "seals_ok sha s" "map_of (sr_transfers s) i = Some t" "tf_received t = tf_expected_size t" "tf_partial_path t = p"
    and "sr_transfers s' = sr_transfers s" "sr_disk s' = sr_disk s" "sr_seals s' = sr_seals s @ [(k, i, p)]" "sr_reports s' = sr_reports s"
  shows "seals_ok sha s'"
proof -
  have "file_of s' = file_of s" by (intro ext) (simp add: file_of_def assms(6))
  then have "report_true sha s' = report_true sha s" by (intro ext) (simp add: report_true_def split: sum.split)
  then show ?thesis using assms unfolding seals_ok_def by auto
qed

lemma begin_seals:
  assumes wf: "store_wf exact sha ids n s" and apart: "names_apart sha ids" and i: "i \<in> ids"
    and ok: "seals_ok sha s" and calm: "map_of (sr_transfers s) i = None \<longrightarrow> \<not> sealing s i"
  shows "seals_ok sha (fst (handle_begin sha fl now w i sz want s))"
proof -
  obtain fp s1 where f: "begin_fast_path now i sz want s = (fp, s1)" by force
  show ?thesis
  proof (cases fp)
    case (Reject e)
    then have "s1 = s" using f by (auto simp: begin_fast_path_def Let_def split: if_splits option.splits)
    then show ?thesis using f Reject ok by (simp add: handle_begin_def)
  next
    case Fresh
    then have none: "s1 = s" "map_of (sr_transfers s) i = None"
      using f by (auto simp: begin_fast_path_def Let_def split: if_splits option.splits)
    obtain r s2 out where b: "begin_fresh sha fl now i sz want s = (r, s2, out)" by (metis prod_cases3)
    note k = begin_fresh_keeps [OF wf apart i none(2) b]
    have "keeps s s2 j" if "sealing s2 j" for j
      using that k calm none(2) by (cases "j = i") (auto simp: sealing_def)
    then have "seals_ok sha s2" using k(2,3) by (intro seals_ok_keeps [OF ok]) auto
    then show ?thesis using f none(1) Fresh b by (simp add: handle_begin_def)
  next
    case (ResumeAt q)
    then obtain t where t: "map_of (sr_transfers s) i = Some t" "s1 = put_transfer i (t\<lparr>tf_last_touched_unix := now\<rparr>) s"
      using f by (auto simp: begin_fast_path_def Let_def split: if_splits option.splits)
    have "seals_ok sha s1"
      by (rule seals_ok_keeps [OF ok]) (auto simp: t(2) intro: keeps_put [OF t(1)])
    then show ?thesis using f ResumeAt by (simp add: handle_begin_def)
  next
    case (VerifyComplete p)
    then obtain t where t: "map_of (sr_transfers s) i = Some t" "s1 = put_transfer i (t\<lparr>tf_last_touched_unix := now\<rparr>) s"
      "tf_complete t \<or> tf_received t = tf_expected_size t" "p = tf_partial_path t"
      using f by (auto simp: begin_fast_path_def Let_def split: if_splits option.splits)
    have full: "tf_received t = tf_expected_size t" using t(3) store_wf_get [OF wf t(1)] by (auto simp: transfer_ok_def)
    have "seals_ok sha s1"
      by (rule seals_ok_keeps [OF ok]) (auto simp: t(2) intro: keeps_put [OF t(1)])
    then have "seals_ok sha (s1\<lparr>sr_pending_begin_verifies := AList.update i w (sr_pending_begin_verifies s1),
        sr_seals := sr_seals s1 @ [(ForBegin, i, p)]\<rparr>)"
      by (rule seals_ok_add [of _ _ i "t\<lparr>tf_last_touched_unix := now\<rparr>"]) (use full t in \<open>simp_all add: update_conv'\<close>)
    then show ?thesis using f VerifyComplete by (simp add: handle_begin_def)
  qed
qed

lemma file_of_total [simp]: "file_of (s\<lparr>sr_total_disk_bytes := k\<rparr>) = file_of s"
  by (simp add: file_of_def fun_eq_iff)

lemma chunk_write_keeps:
  assumes wf: "store_wf exact sha ids n s" and apart: "names_apart sha ids" and budget: "sr_budget s < U64_MAX"
    and c: "handle_chunk_write fl now i offset bs s = (r, s')"
    and full: "\<And>t. j = i \<Longrightarrow> map_of (sr_transfers s) i = Some t \<Longrightarrow> tf_received t = tf_expected_size t"
  shows "keeps s s' j"
proof (cases "map_of (sr_transfers s) i")
  case None
  then show ?thesis using c by (auto simp: handle_chunk_write_def)
next
  case (Some u)
  have o: "transfer_ok exact sha ids s i u" by (rule store_wf_get [OF wf Some])
  have other: "tf_partial_path u \<noteq> tf_partial_path v" if "map_of (sr_transfers s) j = Some v" "j \<noteq> i" for v
    using store_wf_get [OF wf that(1)] o partial_path_eq [OF apart, of i j] that(2) by (auto simp: transfer_ok_def)
  show ?thesis
  proof (cases "offset \<noteq> tf_received u \<or> u64_sat_add (tf_received u) (length bs) > tf_expected_size u")
    case True
    then have "s' = s" using c Some by (auto simp: handle_chunk_write_def Let_def split: if_splits)
    then show ?thesis by simp
  next
    case False
    have none: "bs = []" if "tf_received u = tf_expected_size u"
      using False o budget that by (auto simp: transfer_ok_def u64_sat_add_def min_def split: if_splits)
    show ?thesis
    proof (cases "j = i")
      case True
      then have fu: "tf_received u = tf_expected_size u" using full Some by simp
      have "u64_add (tf_received u) 0 = tf_received u" using o budget by (simp add: u64_add_def transfer_ok_def)
      then show ?thesis
        using c Some False none [OF fu] True fu
        by (auto simp: handle_chunk_write_def file_write_all_def Let_def keeps_def update_conv' file_of_def put_file_def
          put_transfer_def split: if_splits option.splits)
    next
      case False': False
      show ?thesis
        using c Some False other False'
        by (auto simp: handle_chunk_write_def Let_def keeps_def update_conv' split: if_splits option.splits prod.splits)
    qed
  qed
qed

lemma chunk_write_lists:
  "handle_chunk_write fl now i offset bs s = (r, s') \<Longrightarrow>
    sr_seals s' = sr_seals s \<and> sr_reports s' = sr_reports s \<and>
    (\<forall>p. r = Inr (HashPending p) \<longrightarrow>
      (\<exists>t. map_of (sr_transfers s') i = Some t \<and> tf_partial_path t = p \<and> \<not> tf_received t < tf_expected_size t))"
  by (auto simp: handle_chunk_write_def Let_def update_conv' split: if_splits option.splits prod.splits)

lemma chunk_seals:
  assumes wf: "store_wf exact sha ids n s" and apart: "names_apart sha ids"
    and sizes: "n + length bs \<le> U64_MAX" "sr_budget s < U64_MAX" and fine: "exact \<Longrightarrow> fl_write fl = None"
    and ok: "seals_ok sha s"
  shows "seals_ok sha (fst (store_handle_chunk fl now w i offset bs s))"
proof -
  obtain r s' where c: "handle_chunk_write fl now i offset bs s = (r, s')" by force
  note l = chunk_write_lists [OF c]
  have "keeps s s' j" if "sealing s' j" for j
  proof (rule chunk_write_keeps [OF wf apart sizes(2) c])
    fix t assume j: "j = i" "map_of (sr_transfers s) i = Some t"
    have "sealing s i" using that l j(1) by (simp add: sealing_def)
    then show "tf_received t = tf_expected_size t" using ok j(2) unfolding seals_ok_def sealing_def by force
  qed
  then have ok': "seals_ok sha s'" using l by (intro seals_ok_keeps [OF ok]) auto
  show ?thesis
  proof (cases "\<exists>p. r = Inr (HashPending p)")
    case False
    then show ?thesis using ok' c by (auto simp: store_handle_chunk_def split: sum.splits WriteOutcome.splits)
  next
    case True
    then obtain p where p: "r = Inr (HashPending p)" by blast
    obtain t where t: "map_of (sr_transfers s') i = Some t" "tf_partial_path t = p" "\<not> tf_received t < tf_expected_size t"
      using l p by auto
    let ?s = "s'\<lparr>sr_pending_completions := AList.update i w (sr_pending_completions s'), sr_seals := sr_seals s' @ [(ForChunk, i, p)]\<rparr>"
    have fc: "fst (store_handle_chunk fl now w i offset bs s) = ?s" using c p by (simp add: store_handle_chunk_def)
    have "store_wf exact sha ids (n + length bs) ?s"
      using store_handle_chunk_wf [OF wf apart sizes fine, of now w i offset] fc by simp
    then have "transfer_ok exact sha ids ?s i t" by (rule store_wf_get) (use t in simp)
    then have "tf_received t = tf_expected_size t" using t(3) by (simp add: transfer_ok_def)
    then have "seals_ok sha ?s" by (intro seals_ok_add [OF ok' t(1) _ t(2)]) simp_all
    then show ?thesis using fc by simp
  qed
qed

lemma seals_ok_drop_report:
  assumes "seals_ok sha s" "sr_transfers s' = sr_transfers s" "sr_disk s' = sr_disk s" "sr_seals s' = sr_seals s"
    "set (sr_reports s') \<subseteq> set (sr_reports s)"
  shows "seals_ok sha s'"
  using assms by (intro seals_ok_keeps [OF assms(1)] keeps_same) (auto simp: file_of_def)

text \<open>The handling of a report leaves the other verifications alone.\<close>

lemma hash_completed_keeps:
  "keeps s (fst (handle_hash_completed fl now i r s)) j \<and>
    sr_seals (fst (handle_hash_completed fl now i r s)) = sr_seals s \<and>
    sr_reports (fst (handle_hash_completed fl now i r s)) = sr_reports s"
proof (cases "map_of (sr_transfers s) i")
  case None
  then show ?thesis
    by (auto simp: handle_hash_completed_def Let_def keeps_def file_of_def split: option.splits sum.splits)
next
  case (Some t)
  have "keeps s (snd (write_meta fl m md (put_transfer i (t\<lparr>tf_complete := True, tf_last_touched_unix := now\<rparr>)
      (s\<lparr>sr_pending_completions := q\<rparr>)))) j" for m md q
    using Some by (cases "j = i") (auto simp: keeps_def update_conv' file_of_def)
  then show ?thesis using Some
    by (auto simp: handle_hash_completed_def Let_def keeps_same file_of_def fun_eq_iff split: option.splits sum.splits)
qed

lemma begin_verified_keeps:
  assumes wf: "store_wf exact sha ids n s" and apart: "names_apart sha ids"
  shows "(j \<noteq> i \<longrightarrow> keeps s (fst (handle_begin_verified sha fl now i r s)) j) \<and>
    sr_seals (fst (handle_begin_verified sha fl now i r s)) = sr_seals s \<and>
    sr_reports (fst (handle_begin_verified sha fl now i r s)) = sr_reports s"
proof (cases "map_of (sr_pending_begin_verifies s) i")
  case None
  then show ?thesis by (simp add: handle_begin_verified_def)
next
  case (Some w)
  let ?s1 = "s\<lparr>sr_pending_begin_verifies := AList.delete i (sr_pending_begin_verifies s)\<rparr>"
  obtain t where t: "map_of (sr_transfers s) i = Some t"
    using wf Some unfolding store_wf_def awaited_def by auto
  have wf1: "store_wf exact sha ids n ?s1"
    by (rule unawait [OF wf]) (auto simp: awaited_def delete_conv' split: if_splits)
  have k1: "keeps s ?s1 j" by (rule keeps_same) (simp_all add: file_of_def fun_eq_iff)
  let ?t1 = "t\<lparr>tf_file := None, tf_complete := True\<rparr>"
  have k2: "keeps s (put_transfer i ?t1 ?s1) j" by (rule keeps_trans [OF k1 keeps_put [of _ _ t]]) (use t in simp_all)
  have k3: "keeps s (snd (write_meta fl m md (put_transfer i ?t1 ?s1))) j" for m md
    by (rule keeps_trans [OF k2 keeps_same]) simp_all
  obtain s2 out where a: "handle_abandon i ?s1 = (s2, out)" by force
  obtain q s3 out' where b: "begin_fresh sha fl now i (tf_expected_size t) (tf_expected_sha256 t) s2 = (q, s3, out')"
    by (metis prod_cases3)
  have o: "transfer_ok exact sha ids ?s1 i t" by (rule store_wf_get [OF wf1]) (use t in simp)
  have s2: "store_wf exact sha ids n s2" "map_of (sr_transfers s2) i = None" "keeps s s2 j"
    "sr_seals s2 = sr_seals s" "sr_reports s2 = sr_reports s"
    using store_wf_abandon [OF wf1 apart, of i] abandon_transfers [of i ?s1] a
      keeps_trans [OF k1 keeps_abandon [OF wf1 apart, of i j]] abandon_seals [of i ?s1]
    by (simp_all add: delete_conv')
  have "i \<in> ids" using o by (simp add: transfer_ok_def)
  note k4 = begin_fresh_keeps [OF s2(1) apart this s2(2) b]
  show ?thesis
    using Some t k1 k2 k3 a b s2 k4 keeps_trans [OF s2(3) k4(1)]
    by (auto simp: handle_begin_verified_def Let_def split: sum.splits)
qed

lemma store_event_seals:
  assumes wf: "store_wf exact sha ids n s" and apart: "names_apart sha ids" and i: "event_ids e \<subseteq> ids"
    and sizes: "n + event_bytes e \<le> U64_MAX" "sr_budget s < U64_MAX" and fine: "exact \<Longrightarrow> writes_ok e"
    and ok: "seals_ok sha s" and calm: "calm_event e s"
  shows "seals_ok sha (fst (store_event sha e s))"
proof (cases e)
  case (Begin w i sz want now fl)
  then show ?thesis using begin_seals [OF wf apart _ ok] i calm by simp
next
  case (AcceptChunk w i offset bs now fl)
  then show ?thesis using chunk_seals [OF wf apart _ sizes(2) _ ok] sizes(1) fine by simp
next
  case (Abandon w i)
  have "seals_ok sha (fst (handle_abandon i s))"
    by (rule seals_ok_keeps [OF ok]) (auto intro: keeps_abandon [OF wf apart])
  then show ?thesis using Abandon by (cases "handle_abandon i s") simp
next
  case (AbandonMatching w prefix)
  have "seals_ok sha (fst (abandon_matching prefix s))"
    unfolding abandon_matching_def by (rule seals_ok_keeps [OF ok]) (use abandon_all_keeps [OF apart wf] in auto)
  then show ?thesis using AbandonMatching by (cases "abandon_matching prefix s") simp
next
  case (Sweep now)
  then show ?thesis
    unfolding sweep_stale_def by (intro seals_ok_keeps [OF ok]) (use abandon_all_keeps [OF apart wf] in \<open>auto simp: sweep_stale_def\<close>)
next
  case (SealRuns k fault)
  show ?thesis
  proof (cases "k < length (sr_seals s)")
    case False
    then show ?thesis using SealRuns ok by simp
  next
    case True
    obtain q i p where e: "sr_seals s ! k = (q, i, p)" by (metis prod_cases3)
    then have m: "(q, i, p) \<in> set (sr_seals s)" using True nth_mem by metis
    let ?s = "s\<lparr>sr_seals := drop_nth k (sr_seals s)\<rparr>"
    have ok': "seals_ok sha ?s"
      using set_drop_nth [of k "sr_seals s"] by (intro seals_ok_keeps [OF ok]) (auto simp: keeps_def file_of_def)
    have "tf_received t = tf_expected_size t \<and> report_true sha s t (seal sha fault p s)" if "map_of (sr_transfers s) i = Some t" for t
      using ok m that store_wf_get [OF wf that] unfolding seals_ok_def
      by (auto simp: report_true_def seal_def transfer_ok_def split: option.splits)
    moreover have "report_true sha (s\<lparr>sr_seals := a, sr_reports := b\<rparr>) = report_true sha s" for a b
      by (intro ext) (simp add: report_true_def file_of_def split: sum.split)
    moreover have "report_true sha ?s = report_true sha s"
      by (intro ext) (simp add: report_true_def file_of_def split: sum.split)
    ultimately have "seals_ok sha (s\<lparr>sr_seals := drop_nth k (sr_seals s), sr_reports := sr_reports s @ [(q, i, seal sha fault p s)]\<rparr>)"
      using ok' unfolding seals_ok_def by auto
    then show ?thesis using SealRuns True e by simp
  qed
next
  case (ReportArrives k now fl)
  show ?thesis
  proof (cases "k < length (sr_reports s)")
    case False
    then show ?thesis using ReportArrives ok by simp
  next
    case True
    obtain q i r where e: "sr_reports s ! k = (q, i, r)" by (metis prod_cases3)
    let ?s = "s\<lparr>sr_reports := drop_nth k (sr_reports s)\<rparr>"
    have ok': "seals_ok sha ?s"
      using set_drop_nth [of k "sr_reports s"] by (intro seals_ok_drop_report [OF ok]) auto
    have wf': "store_wf exact sha ids n ?s" by (rule unawait [OF wf]) (auto simp: awaited_def)
    show ?thesis
    proof (cases q)
      case ForChunk
      have "seals_ok sha (fst (handle_hash_completed fl now i r ?s))"
        by (rule seals_ok_keeps [OF ok']) (use hash_completed_keeps [of ?s fl now i r] in auto)
      then show ?thesis using ReportArrives True e ForChunk by (simp add: Let_def)
    next
      case ForBegin
      have "\<not> sealing ?s i" using calm ReportArrives True e ForBegin by simp
      then have "keeps ?s (fst (handle_begin_verified sha fl now i r ?s)) j"
        if "sealing (fst (handle_begin_verified sha fl now i r ?s)) j" for j
        using that begin_verified_keeps [OF wf' apart, of j i fl now r] by (cases "j = i") (auto simp: sealing_def)
      then have "seals_ok sha (fst (handle_begin_verified sha fl now i r ?s))"
        using begin_verified_keeps [OF wf' apart, of _ i fl now r] by (intro seals_ok_keeps [OF ok']) auto
      then show ?thesis using ReportArrives True e ForBegin by (simp add: Let_def)
    qed
  qed
qed

section \<open>Reports of completion\<close>

definition completes :: "string \<Rightarrow> path \<Rightarrow> StoreReply \<Rightarrow> bool" where
  "completes i p x \<longleftrightarrow>
    (case x of
       ChunkReply w j r \<Rightarrow> j = i \<and> r = Inr (Completed p)
     | BeginReply w j r \<Rightarrow> j = i \<and> r = Inr (AlreadyComplete p)
     | AbandonReply w \<Rightarrow> False)"

lemma completes_simps [simp]:
  "completes i p (ChunkReply w j r) \<longleftrightarrow> j = i \<and> r = Inr (Completed p)"
  "completes i p (BeginReply w j r') \<longleftrightarrow> j = i \<and> r' = Inr (AlreadyComplete p)"
  "\<not> completes i p (AbandonReply w)"
  by (auto simp: completes_def)

lemma abandon_completes: "x \<in> set (snd (handle_abandon j s)) \<Longrightarrow> \<not> completes i p x"
  by (auto simp: handle_abandon_def Let_def unknown_reply_def completes_def split: option.splits)

lemma abandon_all_completes: "x \<in> set (snd (abandon_all is s)) \<Longrightarrow> \<not> completes i p x"
proof (induction "is" arbitrary: s)
  case (Cons j "is")
  obtain s1 out where a: "handle_abandon j s = (s1, out)" by force
  obtain s2 out' where b: "abandon_all is s1 = (s2, out')" by force
  show ?case using Cons.prems Cons.IH [of s1] abandon_completes [of x j s] a b by auto
qed simp

lemma evict_completes: "x \<in> set (snd (evict_until_under k s)) \<Longrightarrow> \<not> completes i p x"
proof (induction k s rule: evict_until_under.induct)
  case (1 k s)
  show ?case
  proof (cases "u64_sat_add (sr_total_disk_bytes s) k > sr_budget s \<and> oldest (sr_transfers s) \<noteq> None")
    case False
    then have "evict_until_under k s = (s, [])" by (subst evict_until_under.simps) (auto split: option.splits)
    then show ?thesis using "1.prems" by simp
  next
    case True
    then obtain v t where y: "oldest (sr_transfers s) = Some (v, t)" by auto
    obtain s1 out where a: "handle_abandon v s = (s1, out)" by force
    obtain s2 out' where b: "evict_until_under k s1 = (s2, out')" by force
    have "evict_until_under k s = (s2, out @ out')"
      using True y a b by (subst evict_until_under.simps) simp
    then show ?thesis using "1.prems" "1.IH" [OF _ y refl a [symmetric]] True abandon_completes [of x v s] a b by auto
  qed
qed

lemma begin_fresh_completes: "begin_fresh sha fl now j sz want s = (r, s', out) \<Longrightarrow> x \<in> set out \<Longrightarrow> \<not> completes i p x"
  using evict_completes [of x sz s i p]
  by (auto simp: begin_fresh_def Let_def split: if_splits prod.splits)

lemma resume_completes [simp]: "\<not> completes i p (resume_reply w j r)"
  by (auto simp: resume_reply_def completes_def split: sum.splits)

text \<open>The file of a completed transfer.\<close>

definition verified :: "bool \<Rightarrow> (bytes \<Rightarrow> string) \<Rightarrow> Store \<Rightarrow> string \<Rightarrow> path \<Rightarrow> bool" where
  "verified exact sha s i p \<longleftrightarrow>
    (\<exists>t content. map_of (sr_transfers s) i = Some t \<and> tf_complete t \<and> p = tf_partial_path t \<and>
      file_of s p = Some content \<and> (exact \<longrightarrow> length content = tf_expected_size t) \<and>
      (case tf_expected_sha256 t of None \<Rightarrow> True | Some want \<Rightarrow> eq_ignore_ascii_case (sha content) want))"

lemma verifiedI:
  assumes "store_wf exact sha ids n s" "map_of (sr_transfers s) i = Some t" "tf_complete t" "p = tf_partial_path t"
    "file_of s p = Some content" "digest_agrees (tf_expected_sha256 t) (sha content)"
  shows "verified exact sha s i p"
  using store_wf_get [OF assms(1,2)] assms by (auto simp: verified_def digest_agrees_def transfer_ok_def)

lemma event_completes:
  assumes wf: "store_wf exact sha ids n s" and apart: "names_apart sha ids" and ok: "seals_ok sha s"
    and e: "store_event sha e s = (s', out)" "x \<in> set out" "completes i p x"
  shows "verified exact sha s' i p"
proof (cases e)
  case (Begin w j sz want now fl)
  then show ?thesis
    using e begin_fresh_completes
    by (auto simp: handle_begin_def split: FastPath.splits prod.splits)
next
  case (AcceptChunk w j offset bs now fl)
  then show ?thesis
    using e by (auto simp: store_handle_chunk_def replaced_def split: prod.splits sum.splits WriteOutcome.splits option.splits)
next
  case (Abandon w j)
  then show ?thesis using e abandon_completes [of x j s] by (cases "handle_abandon j s") auto
next
  case (AbandonMatching w prefix)
  then show ?thesis using e abandon_all_completes [of x _ s i p]
    by (cases "abandon_matching prefix s") (auto simp: abandon_matching_def, metis snd_conv)
next
  case (Sweep now)
  then show ?thesis using e abandon_all_completes by (metis snd_conv store_event.simps(7) sweep_stale_def)
next
  case (SealRuns k fault)
  then show ?thesis using e by (auto split: if_splits prod.splits)
next
  case (ReportArrives k now fl)
  then have k: "k < length (sr_reports s)" using e by (auto split: if_splits)
  obtain q j r where q: "sr_reports s ! k = (q, j, r)" by (metis prod_cases3)
  then have m: "(q, j, r) \<in> set (sr_reports s)" using k nth_mem by metis
  have true: "report_true sha s t r" if "map_of (sr_transfers s) j = Some t" for t
    using ok m that unfolding seals_ok_def by blast
  let ?s = "s\<lparr>sr_reports := drop_nth k (sr_reports s)\<rparr>"
  have wf': "store_wf exact sha ids n ?s" by (rule unawait [OF wf]) (auto simp: awaited_def)
  show ?thesis
  proof (cases q)
    case ForChunk
    have h: "handle_hash_completed fl now j r ?s = (s', out)" using e ReportArrives k q ForChunk by (simp add: Let_def)
    then obtain w actual t where c: "r = Inr actual" "map_of (sr_transfers s) j = Some t" "digest_agrees (tf_expected_sha256 t) actual"
      "i = j" "p = tf_partial_path t"
      "map_of (sr_transfers s') j = Some (t\<lparr>tf_complete := True, tf_last_touched_unix := now\<rparr>)" "file_of s' = file_of s"
      using e(2,3) by (auto simp: handle_hash_completed_def Let_def update_conv' file_of_def fun_eq_iff write_meta_def put_transfer_def
        split: option.splits sum.splits if_splits)
    have "store_wf exact sha ids n s'" using handle_hash_completed_wf [OF wf', of fl now j r] h by simp
    then show ?thesis
      using true [OF c(2)] c by (auto simp: report_true_def intro!: verifiedI)
  next
    case ForBegin
    have h: "handle_begin_verified sha fl now j r ?s = (s', out)" using e ReportArrives k q ForBegin by (simp add: Let_def)
    obtain w where w: "map_of (sr_pending_begin_verifies s) j = Some w"
      using h e(2) by (auto simp: handle_begin_verified_def split: option.splits)
    then obtain t where t: "map_of (sr_transfers s) j = Some t"
      using wf unfolding store_wf_def awaited_def by auto
    have none: "x \<notin> set (out1 @ out2 @ [resume_reply w j r'])"
      if "handle_abandon j s1 = (s2, out1)" "begin_fresh sha fl now j a b s2 = (r', s3, out2)" for s1 s2 s3 out1 out2 r' a b
      using that begin_fresh_completes e(3) abandon_completes [of x j s1] by fastforce
    obtain actual where c: "r = Inr actual" "digest_agrees (tf_expected_sha256 t) actual" "i = j" "p = tf_partial_path t"
      "map_of (sr_transfers s') j = Some (t\<lparr>tf_file := None, tf_complete := True\<rparr>)" "file_of s' = file_of s"
      using h w t e(2,3) none
      by (auto simp: handle_begin_verified_def Let_def update_conv' file_of_def fun_eq_iff write_meta_def put_transfer_def
        split: sum.splits if_splits prod.splits)
    have "store_wf exact sha ids n s'" using handle_begin_verified_wf [OF wf' apart, of fl now j r] h by simp
    then show ?thesis
      using true [OF t] c by (auto simp: report_true_def intro!: verifiedI)
  qed
qed

lemma store_run_seals:
  assumes "store_wf exact sha ids n s" "names_apart sha ids" "run_ids es \<subseteq> ids" "n + run_bytes es \<le> U64_MAX" "sr_budget s < U64_MAX"
    and "exact \<Longrightarrow> list_all writes_ok es" "seals_ok sha s" "calm_run sha es s"
  shows "seals_ok sha (fst (store_run sha es s))"
  using assms
proof (induction es arbitrary: n s)
  case (Cons e es)
  obtain s1 out where a: "store_event sha e s = (s1, out)" by force
  obtain s2 out' where b: "store_run sha es s1 = (s2, out')" by force
  have i: "event_ids e \<subseteq> ids" "n + event_bytes e \<le> U64_MAX"
    using Cons.prems(3,4) by (auto simp: run_ids_def run_bytes_def)
  have "store_wf exact sha ids (n + event_bytes e) s1"
    using store_event_wf [OF Cons.prems(1,2) i Cons.prems(5)] Cons.prems(6) a by simp
  moreover have "sr_budget s1 = sr_budget s" using store_event_budget [of sha e s] a by simp
  moreover have "seals_ok sha s1"
    using store_event_seals [OF Cons.prems(1,2) i Cons.prems(5) _ Cons.prems(7)] Cons.prems(6,8) a by simp
  ultimately have "seals_ok sha s2"
    using Cons.IH [of "n + event_bytes e" s1] Cons.prems a b by (simp add: run_ids_def run_bytes_def)
  then show ?case using a b by simp
qed simp

lemma run_append: "run_ids (es @ [e]) = run_ids es \<union> event_ids e" "run_bytes (es @ [e]) = run_bytes es + event_bytes e"
  by (auto simp: run_ids_def run_bytes_def)

lemma calm_run_append: "calm_run sha (es @ fs) s = (calm_run sha es s \<and> calm_run sha fs (fst (store_run sha es s)))"
  by (induction es arbitrary: s) (auto split: prod.splits)

text \<open>C36. Through every sequence of commands, failures of the file system and verifications, the store accounts for
  its transfers: the bytes it counts are those its transfers have counted, which are no more than were sent, every
  transfer has a file, none counts more than it expects, a complete one counts all of it, and a caller only waits for
  the verification of a transfer that counts all its bytes. As long as no write to a file has failed, every file holds
  exactly the bytes its transfer counts; a failed write is told to the actor only after the bytes were counted.\<close>

theorem store_stays_consistent:
  assumes "names_apart sha (run_ids es)" "run_bytes es \<le> U64_MAX" "budget < U64_MAX"
  shows "store_wf (list_all writes_ok es) sha (run_ids es) (run_bytes es) (fst (store_run sha es (store_init dir budget)))"
  using store_run_wf [OF store_wf_init assms(1) order.refl, of dir budget "list_all writes_ok es"] assms(2,3)
  by (simp add: store_init_def)

text \<open>C35. A transfer that is reported complete is: its file has the digest that was asked for, unless a transfer was
  begun again while a verification of its former file was under way; and its file has exactly the expected length as
  long as no write has failed. When no digest was asked for, a failed write can leave it shorter or longer.\<close>

theorem store_completion_verified:
  assumes "names_apart sha (run_ids (es @ [e]))" "run_bytes (es @ [e]) \<le> U64_MAX" "budget < U64_MAX"
    and "calm_run sha (es @ [e]) (store_init dir budget)"
    and "store_event sha e (fst (store_run sha es (store_init dir budget))) = (s, out)" "x \<in> set out" "completes i p x"
  shows "verified (list_all writes_ok es) sha s i p"
proof -
  let ?ids = "run_ids (es @ [e])" and ?s = "fst (store_run sha es (store_init dir budget))" and ?exact = "list_all writes_ok es"
  have b: "sr_budget (store_init dir budget) < U64_MAX" using assms(3) by (simp add: store_init_def)
  have i: "run_ids es \<subseteq> ?ids" "0 + run_bytes es \<le> U64_MAX" using assms(2) by (auto simp: run_append)
  have c: "calm_run sha es (store_init dir budget)" using assms(4) by (simp add: calm_run_append)
  have wf: "store_wf ?exact sha ?ids (0 + run_bytes es) ?s"
    by (rule store_run_wf [OF store_wf_init assms(1) i b])
  have "seals_ok sha ?s"
    by (rule store_run_seals [OF store_wf_init [of ?exact] assms(1) i b _ _ c]) (simp_all add: seals_ok_def store_init_def)
  then show ?thesis by (rule event_completes [OF wf assms(1) _ assms(5-7)])
qed

definition no_faults :: Faults where
  "no_faults = \<lparr>fl_open = False, fl_write = None, fl_meta = False\<rparr>"

definition demo_digest :: "bytes \<Rightarrow> string" where
  "demo_digest bs = (if bs = [1, 2, 3] then ''ab'' else if length bs = 1 then ''n'' else ''cd'')"

definition demo_store_run :: "StoreEvent list" where
  "demo_store_run = [Begin 1 ''a'' 3 (Some ''AB'') 0 no_faults, AcceptChunk 2 ''a'' 0 [1, 2, 3] 1 no_faults, SealRuns 0 False]"

lemmas store_eval = store_init_def handle_begin_def begin_fast_path_def begin_fresh_def u64_sat_add_def U64_MAX_def
  write_meta_def put_file_def put_transfer_def resume_reply_def store_handle_chunk_def handle_chunk_write_def file_of_def u64_add_def
  no_faults_def file_write_all_def WRITE_PIECE_MAX_def seal_def drop_nth_def handle_hash_completed_def digest_agrees_def Let_def replaced_def handle_abandon_def
  unknown_reply_def remove_files_def sealing_def partial_path_def meta_path_def safe_filename_def as_bytes_def

lemma store_stays_consistent_witness:
  "store_wf True demo_digest {''a''} 3 (fst (store_run demo_digest demo_store_run (store_init ''d'' 100)))"
proof -
  have r: "run_ids demo_store_run = {''a''}" "run_bytes demo_store_run = 3" "list_all writes_ok demo_store_run = True"
    by (simp_all add: demo_store_run_def run_ids_def run_bytes_def no_faults_def)
  show ?thesis
    by (rule store_stays_consistent [of demo_digest demo_store_run 100 "''d''", unfolded r])
      (simp_all add: names_apart_def U64_MAX_def)
qed

lemma store_completion_verified_witness:
  "\<exists>s. verified True demo_digest s ''a'' ''d/n.partial'' \<and> file_of s ''d/n.partial'' = Some [1, 2, 3]"
proof -
  have lower: "eq_ignore_ascii_case ''ab'' ''AB''" by code_simp
  have d: "demo_digest [1, 2, 3] = ''ab''" "demo_digest [97] = ''n''" by (simp_all add: demo_digest_def)
  obtain s where "store_event demo_digest (ReportArrives 0 2 no_faults)
      (fst (store_run demo_digest demo_store_run (store_init ''d'' 100))) = (s, [ChunkReply 2 ''a'' (Inr (Completed ''d/n.partial''))])"
    and content: "file_of s ''d/n.partial'' = Some [1, 2, 3]"
    by (simp add: demo_store_run_def store_eval d lower)
  moreover have "calm_run demo_digest (demo_store_run @ [ReportArrives 0 2 no_faults]) (store_init ''d'' 100)"
    by (simp add: demo_store_run_def store_eval d lower)
  ultimately have "verified (list_all writes_ok demo_store_run) demo_digest s ''a'' ''d/n.partial''"
    by (intro store_completion_verified [of demo_digest demo_store_run "ReportArrives 0 2 no_faults" 100 "''d''"])
      (auto simp: demo_store_run_def run_ids_def run_bytes_def names_apart_def U64_MAX_def)
  moreover have "list_all writes_ok demo_store_run" by (simp add: demo_store_run_def no_faults_def)
  ultimately show ?thesis using content by auto
qed

section \<open>Where it goes wrong\<close>

definition stale_run :: "StoreEvent list" where
  "stale_run = demo_store_run @
    [Abandon 3 ''a'', Begin 4 ''a'' 3 (Some ''AB'') 2 no_faults, AcceptChunk 5 ''a'' 0 [9, 9, 9] 3 no_faults,
     ReportArrives 0 4 no_faults]"

text \<open>A verification that outlives its transfer is taken for one of the next transfer of that name: the file is
  verified, the transfer abandoned and begun again, and when another file has arrived, the old report declares it
  complete although its digest is not the one that was asked for.\<close>

theorem stale_verification_accepted:
  "case store_run demo_digest stale_run (store_init ''d'' 100) of
     (s, out) \<Rightarrow> ChunkReply 5 ''a'' (Inr (Completed ''d/n.partial'')) \<in> set out \<and>
       file_of s ''d/n.partial'' = Some [9, 9, 9] \<and> \<not> eq_ignore_ascii_case (demo_digest [9, 9, 9]) ''AB''"
proof -
  have lower: "eq_ignore_ascii_case ''ab'' ''AB''" "\<not> eq_ignore_ascii_case ''cd'' ''AB''" by code_simp+
  have d: "demo_digest [1, 2, 3] = ''ab''" "demo_digest [97] = ''n''" "demo_digest [9, 9, 9] = ''cd''"
    by (simp_all add: demo_digest_def)
  show ?thesis by (simp add: stale_run_def demo_store_run_def store_eval d lower)
qed

definition budget_run :: "StoreEvent list" where
  "budget_run = [Begin 1 ''a'' 2 None 0 no_faults, Begin 2 ''bb'' 2 None 0 no_faults,
     AcceptChunk 3 ''a'' 0 [1, 2] 0 no_faults, AcceptChunk 4 ''bb'' 0 [1, 2] 0 no_faults]"

text \<open>The budget is tested when a transfer begins, against the bytes that have arrived by then: transfers that
  begin before the chunks of each other arrive together exceed it.\<close>

theorem budget_exceeded:
  "case fst (store_run demo_digest budget_run (store_init ''d'' 3)) of s \<Rightarrow> sr_total_disk_bytes s = 4 \<and> sr_budget s = 3"
proof -
  have d: "demo_digest [97] = ''n''" "demo_digest [98, 98] = ''cd''"
    by (simp_all add: demo_digest_def)
  show ?thesis by (simp add: budget_run_def store_eval d)
qed

definition lost_write_run :: "StoreEvent list" where
  "lost_write_run = [Begin 1 ''a'' 4 None 0 no_faults, AcceptChunk 2 ''a'' 0 [1, 2] 0 (no_faults\<lparr>fl_write := Some 0\<rparr>),
     AcceptChunk 3 ''a'' 2 [3, 4] 0 no_faults, AcceptChunk 4 ''a'' 2 [3, 4] 0 no_faults, SealRuns 0 False, ReportArrives 0 0 no_faults]"

text \<open>A chunk is acknowledged before its write is known to have succeeded: the write fails, the sender is told that
  its bytes are there, the failure is the answer to the next chunk, and when that is sent again the transfer is
  complete without the bytes of the first one. Only a digest, which a transfer need not have, would show it.\<close>

theorem lost_write_completes:
  "case store_run demo_digest lost_write_run (store_init ''d'' 100) of
     (s, out) \<Rightarrow> out = [BeginReply 1 ''a'' (Inr (Resume 0)), ChunkReply 2 ''a'' (Inr (Continue 2)),
         ChunkReply 3 ''a'' (Inl IoError), ChunkReply 4 ''a'' (Inr (Completed ''d/n.partial''))] \<and>
       file_of s ''d/n.partial'' = Some [3, 4]"
proof -
  have d: "demo_digest [97] = ''n''" by (simp add: demo_digest_def)
  show ?thesis by (simp add: lost_write_run_def store_eval d)
qed

end
