(* ===== verification/Player_Text.thy ===== *)
theory Player_Text
  imports Csm_Codec
begin

text \<open>The operations on strings that the player uses. A string is its UTF-8 bytes, as Rust has it: characters
  are cut off by their encodings, and comparing without case lowers the letters of ASCII only.\<close>

section \<open>Literals\<close>

definition lit :: "string \<Rightarrow> bytes" where "lit s = map of_char s"

section \<open>Prefixes and suffixes\<close>

definition starts_with_bytes :: "bytes \<Rightarrow> bytes \<Rightarrow> bool" where
  "starts_with_bytes s p \<longleftrightarrow> take (length p) s = p"

definition ends_with_bytes :: "bytes \<Rightarrow> bytes \<Rightarrow> bool" where
  "ends_with_bytes s p \<longleftrightarrow> length p \<le> length s \<and> drop (length s - length p) s = p"

definition strip_prefix :: "bytes \<Rightarrow> bytes \<Rightarrow> bytes option" where
  "strip_prefix p s = (if starts_with_bytes s p then Some (drop (length p) s) else None)"

text \<open>\<open>rsplit_once\<close>: the string before and after the last occurrence of a byte.\<close>

definition rsplit_once :: "u8 \<Rightarrow> bytes \<Rightarrow> (bytes \<times> bytes) option" where
  "rsplit_once c s =
    (if c \<in> set s then
       let back = takeWhile (\<lambda>b. b \<noteq> c) (rev s) in
       Some (take (length s - length back - 1) s, rev back)
     else None)"

lemma starts_with_append [simp]: "starts_with_bytes (p @ s) p"
  by (simp add: starts_with_bytes_def)

lemma strip_prefix_append [simp]: "strip_prefix p (p @ s) = Some s"
  by (simp add: strip_prefix_def)

lemma rsplit_once_append: "c \<notin> set b \<Longrightarrow> rsplit_once c (a @ c # b) = Some (a, b)"
proof -
  assume "c \<notin> set b"
  then have "takeWhile (\<lambda>x. x \<noteq> c) (rev b @ c # rev a) = rev b"
    by (subst takeWhile_append2) auto
  then show ?thesis by (simp add: rsplit_once_def Let_def)
qed

section \<open>White space\<close>

text \<open>The encodings of the characters with the property \<open>White_Space\<close>.\<close>

definition whitespace_chars :: "bytes list" where
  "whitespace_chars =
    [[0x20], [0x09], [0x0A], [0x0B], [0x0C], [0x0D], [0xC2, 0x85], [0xC2, 0xA0], [0xE1, 0x9A, 0x80]] @
    map (\<lambda>b. [0xE2, 0x80, b]) [0x80, 0x81, 0x82, 0x83, 0x84, 0x85, 0x86, 0x87, 0x88, 0x89, 0x8A, 0xA8, 0xA9, 0xAF] @
    [[0xE2, 0x81, 0x9F], [0xE3, 0x80, 0x80]]"

function strip_all :: "bytes list \<Rightarrow> bytes \<Rightarrow> bytes" where
  "strip_all cs s =
    (case find (\<lambda>c. c \<noteq> [] \<and> starts_with_bytes s c) cs of
       None \<Rightarrow> s
     | Some c \<Rightarrow> strip_all cs (drop (length c) s))"
  by pat_completeness auto
termination
proof (relation "measure (\<lambda>(cs, s). length s)", goal_cases)
  case (2 cs s c)
  then have "c \<noteq> []" "take (length c) s = c" by (auto simp: find_Some_iff starts_with_bytes_def)
  then show ?case by (cases s) (auto simp: diff_less)
qed simp

declare strip_all.simps [simp del]

definition trim_start :: "bytes \<Rightarrow> bytes" where
  "trim_start s = strip_all whitespace_chars s"

definition trim_end :: "bytes \<Rightarrow> bytes" where
  "trim_end s = rev (strip_all (map rev whitespace_chars) (rev s))"

definition trim :: "bytes \<Rightarrow> bytes" where
  "trim s = trim_end (trim_start s)"

lemma strip_all_Nil [simp]: "strip_all cs [] = []"
proof -
  have "find (\<lambda>c. c \<noteq> [] \<and> starts_with_bytes [] c) cs = None"
    by (auto simp: find_None_iff starts_with_bytes_def)
  then show ?thesis by (subst strip_all.simps) simp
qed

lemma trim_Nil [simp]: "trim [] = []"
  by (simp add: trim_def trim_start_def trim_end_def)

section \<open>Comparing without case\<close>

definition to_ascii_lowercase :: "u8 \<Rightarrow> u8" where
  "to_ascii_lowercase b = (if 65 \<le> b \<and> b \<le> 90 then b + 32 else b)"

definition ignore_ascii_case_eq :: "bytes \<Rightarrow> bytes \<Rightarrow> bool" where
  "ignore_ascii_case_eq a b \<longleftrightarrow> map to_ascii_lowercase a = map to_ascii_lowercase b"

lemma ignore_ascii_case_refl [simp]: "ignore_ascii_case_eq a a"
  by (simp add: ignore_ascii_case_eq_def)

lemma ignore_ascii_case_sym: "ignore_ascii_case_eq a b = ignore_ascii_case_eq b a"
  by (auto simp: ignore_ascii_case_eq_def)

lemma ignore_ascii_case_trans:
  "ignore_ascii_case_eq a b \<Longrightarrow> ignore_ascii_case_eq b c \<Longrightarrow> ignore_ascii_case_eq a c"
  by (simp add: ignore_ascii_case_eq_def)

section \<open>Slugs and hexadecimal\<close>

text \<open>The characters of a string, each as its bytes; a string that is not UTF-8 does not occur and is cut
  into single bytes.\<close>

function chars_of :: "bytes \<Rightarrow> bytes list" where
  "chars_of s =
    (if s = [] then []
     else let n = max 1 (utf8_char_len s) in take n s # chars_of (drop n s))"
  by pat_completeness auto
termination by (relation "measure length") (auto simp: Let_def)

declare chars_of.simps [simp del]

text \<open>\<open>to_slug\<close> keeps the alphanumeric characters; which those are is Unicode's, a parameter.\<close>

definition to_slug :: "(bytes \<Rightarrow> bool) \<Rightarrow> bytes \<Rightarrow> bytes" where
  "to_slug is_alphanumeric value =
    concat (filter is_alphanumeric (chars_of (map (\<lambda>b. if b = 0x20 then 0x5F else b) (trim value))))"

definition hex_digit :: "nat \<Rightarrow> u8" where
  "hex_digit d = (if d < 10 then of_nat (48 + d) else of_nat (87 + d))"

text \<open>\<open>{:016x}\<close>\<close>

definition hex16 :: "u64 \<Rightarrow> bytes" where
  "hex16 w = map (\<lambda>i. hex_digit (unat w div 16 ^ (15 - i) mod 16)) [0..<16]"

lemma length_hex16 [simp]: "length (hex16 w) = 16"
  by (simp add: hex16_def)

end
