(* ===== verification/Player_Authority.thy ===== *)
theory Player_Authority
  imports Player_Text Session_Now_Playing "HOL-Library.AList" "HOL-Library.Product_Lexorder"
begin

text \<open>Which companion speaks for the phone (\<open>crates/core/src/authority/mod.rs\<close>): companions claim scopes,
  one is elected, and what it claims is published to the now-playing flow of the session and to the watchers
  of the primary. A hash map is an association list; its order is the order of iteration.\<close>

section \<open>Data\<close>

text \<open>A bluetooth address, six bytes compared as they are written, is their number.\<close>

type_synonym Address = "48 word"

datatype CompanionAuthorityScope = NowPlayingMetadata | NowPlayingPlayback | Volume

record CompanionAuthority =
  ca_scopes :: "(CompanionAuthorityScope \<times> nat) list"
  ca_app_bundle :: "bytes option"

definition CompanionAuthority_default :: CompanionAuthority where
  "CompanionAuthority_default = \<lparr>ca_scopes = [], ca_app_bundle = None\<rparr>"

type_synonym Companions = "(Address \<times> CompanionAuthority) list"

text \<open>A watch channel holds a value and counts its modifications.\<close>

record 'a Watch =
  wa_value :: 'a
  wa_version :: nat

definition watch_channel :: "'a \<Rightarrow> 'a Watch" where
  "watch_channel x = \<lparr>wa_value = x, wa_version = 0\<rparr>"

definition send_if_changed :: "'a \<Rightarrow> 'a Watch \<Rightarrow> 'a Watch" where
  "send_if_changed x w = (if wa_value w \<noteq> x then \<lparr>wa_value = x, wa_version = Suc (wa_version w)\<rparr> else w)"

record AuthorityRegistry =
  ar_companions :: Companions
  ar_now_playing :: "NowPlayingAuthorityState Watch"
  ar_primary :: "Address option Watch"

definition AuthorityRegistry_new :: AuthorityRegistry where
  "AuthorityRegistry_new =
    \<lparr>ar_companions = [], ar_now_playing = watch_channel NowPlayingAuthorityState_default,
     ar_primary = watch_channel None\<rparr>"

section \<open>Claims\<close>

definition AUTHORITY_STALE_TIMEOUT :: nat where "AUTHORITY_STALE_TIMEOUT = secs 5"

fun scope_holds_indefinitely :: "CompanionAuthorityScope \<Rightarrow> bool" where
  "scope_holds_indefinitely NowPlayingMetadata = True"
| "scope_holds_indefinitely NowPlayingPlayback = True"
| "scope_holds_indefinitely Volume = True"

definition is_live :: "nat \<Rightarrow> CompanionAuthorityScope \<Rightarrow> nat \<Rightarrow> bool" where
  "is_live now scope claimed_at \<longleftrightarrow>
    scope_holds_indefinitely scope \<or> now - claimed_at < AUTHORITY_STALE_TIMEOUT"

definition ca_holds :: "nat \<Rightarrow> CompanionAuthority \<Rightarrow> CompanionAuthorityScope \<Rightarrow> bool" where
  "ca_holds now c scope =
    (case map_of (ca_scopes c) scope of None \<Rightarrow> False | Some at \<Rightarrow> is_live now scope at)"

definition ca_live_scopes :: "nat \<Rightarrow> CompanionAuthority \<Rightarrow> CompanionAuthorityScope list" where
  "ca_live_scopes now c = map fst (filter (\<lambda>(scope, at). is_live now scope at) (ca_scopes c))"

definition ca_latest_live_claim :: "nat \<Rightarrow> CompanionAuthority \<Rightarrow> nat option" where
  "ca_latest_live_claim now c =
    (case map snd (filter (\<lambda>(scope, at). is_live now scope at) (ca_scopes c)) of
       [] \<Rightarrow> None
     | at # ats \<Rightarrow> Some (fold max ats at))"

definition ca_holds_now_playing :: "nat \<Rightarrow> CompanionAuthority \<Rightarrow> bool" where
  "ca_holds_now_playing now c \<longleftrightarrow> ca_holds now c NowPlayingMetadata \<or> ca_holds now c NowPlayingPlayback"

section \<open>Election\<close>

datatype Ordering = Less | Equal | Greater

definition cmp :: "'a::linorder \<Rightarrow> 'a \<Rightarrow> Ordering" where
  "cmp a b = (if a < b then Less else if a = b then Equal else Greater)"

fun cmp_then :: "Ordering \<Rightarrow> Ordering \<Rightarrow> Ordering" where
  "cmp_then Equal o2 = o2"
| "cmp_then o1 _ = o1"

text \<open>\<open>Iterator::max_by\<close> keeps the later of two elements that compare as equal.\<close>

definition max_by :: "('a \<Rightarrow> 'a \<Rightarrow> Ordering) \<Rightarrow> 'a list \<Rightarrow> 'a option" where
  "max_by compare xs =
    (case xs of [] \<Rightarrow> None | x # ys \<Rightarrow> Some (fold (\<lambda>y best. if compare best y = Greater then best else y) ys x))"

definition compare_claims ::
    "nat \<Rightarrow> Address \<times> CompanionAuthority \<times> nat \<Rightarrow> Address \<times> CompanionAuthority \<times> nat \<Rightarrow> Ordering" where
  "compare_claims now x y =
    (case (x, y) of ((a_addr, a, a_at), (b_addr, b, b_at)) \<Rightarrow>
       cmp_then (cmp_then (cmp (ca_holds_now_playing now a) (ca_holds_now_playing now b)) (cmp a_at b_at))
         (cmp b_addr a_addr))"

definition elect :: "nat \<Rightarrow> Companions \<Rightarrow> Address option" where
  "elect now companions =
    map_option fst (max_by (compare_claims now)
      (List.map_filter (\<lambda>(addr, c). map_option (\<lambda>at. (addr, c, at)) (ca_latest_live_claim now c)) companions))"

section \<open>The registry\<close>

definition elected_companion :: "nat \<Rightarrow> Companions \<Rightarrow> CompanionAuthority option" where
  "elected_companion now cs = Option.bind (elect now cs) (map_of cs)"

definition authority_state :: "nat \<Rightarrow> Companions \<Rightarrow> NowPlayingAuthorityState" where
  "authority_state now cs =
    (let primary = elected_companion now cs in
     \<lparr>au_companion_metadata = (case primary of None \<Rightarrow> False | Some c \<Rightarrow> ca_holds now c NowPlayingMetadata),
      au_companion_playback = (case primary of None \<Rightarrow> False | Some c \<Rightarrow> ca_holds now c NowPlayingPlayback),
      au_app_bundle = Option.bind primary ca_app_bundle\<rparr>)"

definition publish :: "nat \<Rightarrow> Companions \<Rightarrow> AuthorityRegistry \<Rightarrow> AuthorityRegistry" where
  "publish now companions r =
    r\<lparr>ar_companions := companions,
      ar_now_playing := send_if_changed (authority_state now companions) (ar_now_playing r),
      ar_primary := send_if_changed (elect now companions) (ar_primary r)\<rparr>"

definition entry_or_default :: "Address \<Rightarrow> Companions \<Rightarrow> CompanionAuthority" where
  "entry_or_default addr cs = (case map_of cs addr of None \<Rightarrow> CompanionAuthority_default | Some c \<Rightarrow> c)"

definition authority_claim :: "nat \<Rightarrow> Address \<Rightarrow> CompanionAuthorityScope \<Rightarrow> AuthorityRegistry \<Rightarrow> AuthorityRegistry" where
  "authority_claim now addr scope r =
    (let c = entry_or_default addr (ar_companions r);
         c' = c\<lparr>ca_scopes := AList.update scope now (ca_scopes c)\<rparr> in
     publish now (AList.update addr c' (ar_companions r)) r)"

definition authority_release :: "nat \<Rightarrow> Address \<Rightarrow> CompanionAuthorityScope \<Rightarrow> AuthorityRegistry \<Rightarrow> AuthorityRegistry" where
  "authority_release now addr scope r =
    (let cs = ar_companions r in
     case map_of cs addr of
       None \<Rightarrow> publish now cs r
     | Some c \<Rightarrow> publish now (AList.update addr (c\<lparr>ca_scopes := AList.delete scope (ca_scopes c)\<rparr>) cs) r)"

definition authority_drop_for :: "nat \<Rightarrow> Address \<Rightarrow> AuthorityRegistry \<Rightarrow> AuthorityRegistry" where
  "authority_drop_for now addr r = publish now (AList.delete addr (ar_companions r)) r"

definition set_companion_app_bundle :: "nat \<Rightarrow> Address \<Rightarrow> bytes option \<Rightarrow> AuthorityRegistry \<Rightarrow> AuthorityRegistry" where
  "set_companion_app_bundle now addr new_bundle r =
    (case new_bundle of
       None \<Rightarrow> r
     | Some b \<Rightarrow>
         publish now (AList.update addr ((entry_or_default addr (ar_companions r))\<lparr>ca_app_bundle := Some b\<rparr>)
           (ar_companions r)) r)"

definition authority_primary :: "nat \<Rightarrow> AuthorityRegistry \<Rightarrow> Address option" where
  "authority_primary now r = elect now (ar_companions r)"

definition companion_app_bundle :: "nat \<Rightarrow> AuthorityRegistry \<Rightarrow> bytes option" where
  "companion_app_bundle now r = Option.bind (elected_companion now (ar_companions r)) ca_app_bundle"

definition is_authoritative :: "nat \<Rightarrow> CompanionAuthorityScope \<Rightarrow> AuthorityRegistry \<Rightarrow> bool" where
  "is_authoritative now scope r =
    (case elected_companion now (ar_companions r) of None \<Rightarrow> False | Some c \<Rightarrow> ca_holds now c scope)"

definition authority_live_scopes :: "nat \<Rightarrow> AuthorityRegistry \<Rightarrow> CompanionAuthorityScope list" where
  "authority_live_scopes now r =
    (case elected_companion now (ar_companions r) of None \<Rightarrow> [] | Some c \<Rightarrow> ca_live_scopes now c)"

section \<open>Calls\<close>

datatype AuthorityCall =
    Claim Address CompanionAuthorityScope
  | Release Address CompanionAuthorityScope
  | DropFor Address
  | SetBundle Address "bytes option"

fun authority_call :: "nat \<Rightarrow> AuthorityCall \<Rightarrow> AuthorityRegistry \<Rightarrow> AuthorityRegistry" where
  "authority_call now (Claim addr scope) r = authority_claim now addr scope r"
| "authority_call now (Release addr scope) r = authority_release now addr scope r"
| "authority_call now (DropFor addr) r = authority_drop_for now addr r"
| "authority_call now (SetBundle addr b) r = set_companion_app_bundle now addr b r"

fun authority_run :: "(nat \<times> AuthorityCall) list \<Rightarrow> AuthorityRegistry \<Rightarrow> AuthorityRegistry" where
  "authority_run [] r = r"
| "authority_run ((now, call) # calls) r = authority_run calls (authority_call now call r)"

section \<open>The election\<close>

lemma always_live [simp]: "is_live now scope at"
  by (cases scope) (auto simp: is_live_def)

lemma max_by_rank:
  fixes rank :: "'a \<Rightarrow> 'b::linorder"
  assumes gt: "\<And>x y. x \<in> set xs \<Longrightarrow> y \<in> set xs \<Longrightarrow> compare x y = Greater \<longleftrightarrow> rank y < rank x"
    and some: "max_by compare xs = Some m"
  shows "m \<in> set xs \<and> (\<forall>x \<in> set xs. rank x \<le> rank m)"
proof -
  have "fold (\<lambda>y best. if compare best y = Greater then best else y) ys x \<in> set (x # ys) \<and>
      (\<forall>z \<in> set (x # ys). rank z \<le> rank (fold (\<lambda>y best. if compare best y = Greater then best else y) ys x))"
    if "set (x # ys) \<subseteq> set xs" for x ys
    using that
  proof (induction ys arbitrary: x)
    case (Cons y ys)
    show ?case
    proof (cases "compare x y = Greater")
      case True
      with Cons.prems gt [of x y] have "rank y < rank x" by simp
      with Cons.IH [of x] Cons.prems True show ?thesis by fastforce
    next
      case False
      with Cons.prems gt [of x y] have "rank x \<le> rank y" by simp
      with Cons.IH [of y] Cons.prems False show ?thesis by fastforce
    qed
  qed simp
  then show ?thesis using some by (auto simp: max_by_def split: list.splits)
qed

lemma max_by_None [simp]: "max_by compare xs = None \<longleftrightarrow> xs = []"
  by (simp add: max_by_def split: list.split)

lemma latest_claim_eq:
  "ca_latest_live_claim now c = (if ca_scopes c = [] then None else Some (Max (snd ` set (ca_scopes c))))"
proof -
  have "fold max (map snd ss) t = Max (insert t (snd ` set ss))" for ss :: "(CompanionAuthorityScope \<times> nat) list" and t
    by (metis Max.set_eq_fold list.set(2) set_map)
  then show ?thesis
    by (cases "ca_scopes c") (auto simp: ca_latest_live_claim_def case_prod_beta)
qed

section \<open>What a registry stands for\<close>

text \<open>Abstractly there are the claims, each with its time, and the bundles.\<close>

record AuthorityView =
  av_claims :: "Address \<Rightarrow> CompanionAuthorityScope \<rightharpoonup> nat"
  av_bundles :: "Address \<rightharpoonup> bytes"

definition no_authority :: AuthorityView where
  "no_authority = \<lparr>av_claims = (\<lambda>_. Map.empty), av_bundles = Map.empty\<rparr>"

fun view_call :: "nat \<Rightarrow> AuthorityCall \<Rightarrow> AuthorityView \<Rightarrow> AuthorityView" where
  "view_call now (Claim a s) v = v\<lparr>av_claims := (av_claims v)(a := (av_claims v a)(s \<mapsto> now))\<rparr>"
| "view_call now (Release a s) v = v\<lparr>av_claims := (av_claims v)(a := (av_claims v a)(s := None))\<rparr>"
| "view_call now (DropFor a) v =
    v\<lparr>av_claims := (av_claims v)(a := Map.empty), av_bundles := (av_bundles v)(a := None)\<rparr>"
| "view_call now (SetBundle a b) v =
    (case b of None \<Rightarrow> v | Some x \<Rightarrow> v\<lparr>av_bundles := (av_bundles v)(a \<mapsto> x)\<rparr>)"

fun view_run :: "(nat \<times> AuthorityCall) list \<Rightarrow> AuthorityView \<Rightarrow> AuthorityView" where
  "view_run [] v = v"
| "view_run ((now, call) # calls) v = view_run calls (view_call now call v)"

text \<open>Who should lead: of the companions with a claim, one with a now-playing scope before one without, then
  the one that claimed last, then the one with the lower address.\<close>

definition claim_rank :: "AuthorityView \<Rightarrow> Address \<Rightarrow> bool \<times> nat \<times> nat" where
  "claim_rank v a =
    (av_claims v a NowPlayingMetadata \<noteq> None \<or> av_claims v a NowPlayingPlayback \<noteq> None,
     Max (ran (av_claims v a)), 2 ^ 48 - unat a)"

definition leads :: "AuthorityView \<Rightarrow> Address \<Rightarrow> bool" where
  "leads v a \<longleftrightarrow> av_claims v a \<noteq> Map.empty \<and>
    (\<forall>b. b \<noteq> a \<longrightarrow> av_claims v b \<noteq> Map.empty \<longrightarrow> claim_rank v b < claim_rank v a)"

definition companions_wf :: "Companions \<Rightarrow> bool" where
  "companions_wf cs \<longleftrightarrow> distinct (map fst cs) \<and> (\<forall>(a, c) \<in> set cs. distinct (map fst (ca_scopes c)))"

definition view_of :: "Companions \<Rightarrow> AuthorityView" where
  "view_of cs =
    \<lparr>av_claims = (\<lambda>a. case map_of cs a of None \<Rightarrow> Map.empty | Some c \<Rightarrow> map_of (ca_scopes c)),
     av_bundles = (\<lambda>a. Option.bind (map_of cs a) ca_app_bundle)\<rparr>"

lemma leads_unique: "leads v a \<Longrightarrow> leads v b \<Longrightarrow> a = b"
  unfolding leads_def by (metis less_asym)

lemma unat_address: "unat (a :: Address) < 2 ^ 48"
  using unsigned_less [of a, where ?'a = nat] by simp

lemma cmp_Greater: "cmp a b = Greater \<longleftrightarrow> b < (a :: 'a::linorder)"
  by (auto simp: cmp_def)

lemma compare_claims_rank:
  "compare_claims now (a, c, t) (b, d, u) = Greater \<longleftrightarrow>
    (ca_holds_now_playing now d, u, 2 ^ 48 - unat b) < (ca_holds_now_playing now c, t, 2 ^ 48 - unat a)"
proof -
  have "2 ^ 48 - unat b < 2 ^ 48 - unat a \<longleftrightarrow> a < b"
    using unat_address [of a] unat_address [of b] by (auto simp: word_less_nat_alt)
  then show ?thesis
    by (auto simp: compare_claims_def cmp_def less_prod_def')
qed

definition claimants :: "nat \<Rightarrow> Companions \<Rightarrow> (Address \<times> CompanionAuthority \<times> nat) list" where
  "claimants now cs =
    List.map_filter (\<lambda>(addr, c). map_option (\<lambda>at. (addr, c, at)) (ca_latest_live_claim now c)) cs"

lemma in_claimants:
  "(a, c, t) \<in> set (claimants now cs) \<longleftrightarrow>
    (a, c) \<in> set cs \<and> ca_scopes c \<noteq> [] \<and> t = Max (snd ` set (ca_scopes c))"
proof -
  have "set (List.map_filter f xs) = {y. \<exists>x \<in> set xs. f x = Some y}" for f :: "_ \<Rightarrow> (Address \<times> CompanionAuthority \<times> nat) option"
      and xs :: Companions
    by (induction xs) (auto simp: map_filter_simps split: option.split)
  then show ?thesis by (auto simp: claimants_def latest_claim_eq split: if_splits intro!: bexI [of _ "(a, c)"])
qed

lemma ran_claims:
  "distinct (map fst (ca_scopes c)) \<Longrightarrow> ran (map_of (ca_scopes c)) = snd ` set (ca_scopes c)"
  by (simp add: ran_distinct)

lemma holds_iff: "ca_holds now c scope \<longleftrightarrow> map_of (ca_scopes c) scope \<noteq> None"
  by (simp add: ca_holds_def split: option.split)

lemma claimant_rank:
  assumes wf: "companions_wf cs" and x: "(a, c, t) \<in> set (claimants now cs)"
  shows "claim_rank (view_of cs) a = (ca_holds_now_playing now c, t, 2 ^ 48 - unat a)"
    and "av_claims (view_of cs) a \<noteq> Map.empty"
proof -
  have m: "map_of cs a = Some c" and c: "ca_scopes c \<noteq> []" "t = Max (snd ` set (ca_scopes c))"
    "distinct (map fst (ca_scopes c))"
    using wf x by (auto simp: in_claimants companions_wf_def)
  show "claim_rank (view_of cs) a = (ca_holds_now_playing now c, t, 2 ^ 48 - unat a)"
    using c by (simp add: claim_rank_def view_of_def m ran_claims ca_holds_now_playing_def holds_iff)
  show "av_claims (view_of cs) a \<noteq> Map.empty"
    using c by (simp add: view_of_def m)
qed

lemma claimant_exists:
  assumes wf: "companions_wf cs" and a: "av_claims (view_of cs) a \<noteq> Map.empty"
  shows "\<exists>c t. (a, c, t) \<in> set (claimants now cs) \<and> map_of cs a = Some c"
  using a by (auto simp: view_of_def in_claimants split: option.splits dest: map_of_SomeD)

text \<open>The election of the code finds the leader.\<close>

lemma elect_leads:
  assumes wf: "companions_wf cs"
  shows "elect now cs = Some a \<longleftrightarrow> leads (view_of cs) a"
proof -
  let ?v = "view_of cs" and ?L = "claimants now cs"
  have e: "elect now cs = map_option fst (max_by (compare_claims now) ?L)"
    by (simp add: elect_def claimants_def)
  have best: "leads ?v b" if el: "elect now cs = Some b" for b
  proof -
    obtain c t where m: "max_by (compare_claims now) ?L = Some (b, c, t)"
      using el by (cases "max_by (compare_claims now) ?L") (auto simp: e)
    have g: "compare_claims now x y = Greater \<longleftrightarrow> claim_rank ?v (fst y) < claim_rank ?v (fst x)"
      if "x \<in> set ?L" "y \<in> set ?L" for x y
    proof -
      obtain a c t b d u where x: "x = (a, c, t)" and y: "y = (b, d, u)" by (metis prod_cases3)
      show ?thesis
        using claimant_rank(1) [OF wf, of a c t now] claimant_rank(1) [OF wf, of b d u now] that
        by (simp add: x y compare_claims_rank)
    qed
    from max_by_rank [OF g m] have mem: "(b, c, t) \<in> set ?L"
      and top: "\<And>x. x \<in> set ?L \<Longrightarrow> claim_rank ?v (fst x) \<le> claim_rank ?v b" by auto
    have "claim_rank ?v d < claim_rank ?v b" if d: "d \<noteq> b" "av_claims ?v d \<noteq> Map.empty" for d
    proof -
      obtain c' t' where "(d, c', t') \<in> set ?L" using claimant_exists [OF wf d(2)] by blast
      then have "claim_rank ?v d \<le> claim_rank ?v b" using top by fastforce
      moreover have "2 ^ 48 - unat d \<noteq> 2 ^ 48 - unat b"
        using d(1) unat_address [of d] unat_address [of b] by (auto simp: word_unat_eq_iff)
      then have "claim_rank ?v d \<noteq> claim_rank ?v b" by (auto simp: claim_rank_def)
      ultimately show ?thesis by simp
    qed
    then show ?thesis using claimant_rank(2) [OF wf mem] by (simp add: leads_def)
  qed
  moreover have "elect now cs \<noteq> None" if "leads ?v a"
    using claimant_exists [OF wf, of a now] that by (auto simp: e leads_def)
  ultimately show ?thesis using leads_unique by fastforce
qed

section \<open>The registry keeps its promise\<close>

definition registry_ok :: "AuthorityRegistry \<Rightarrow> AuthorityView \<Rightarrow> bool" where
  "registry_ok r v \<longleftrightarrow>
    companions_wf (ar_companions r) \<and> view_of (ar_companions r) = v \<and>
    (\<forall>now. wa_value (ar_primary r) = elect now (ar_companions r) \<and>
           wa_value (ar_now_playing r) = authority_state now (ar_companions r))"

lemma elect_any_time: "companions_wf cs \<Longrightarrow> elect now cs = elect now' cs"
  using elect_leads [of cs now] elect_leads [of cs now'] by (metis not_Some_eq)

lemma state_any_time: "companions_wf cs \<Longrightarrow> authority_state now cs = authority_state now' cs"
proof -
  have "ca_holds now = ca_holds now'" by (intro ext) (simp add: holds_iff)
  then show "companions_wf cs \<Longrightarrow> ?thesis"
    using elect_any_time [of cs now now']
    by (simp add: authority_state_def elected_companion_def cong: option.case_cong)
qed

lemma publish_ok:
  "companions_wf cs \<Longrightarrow> view_of cs = v \<Longrightarrow> registry_ok (publish now cs r) v"
  using elect_any_time state_any_time
  by (auto simp: registry_ok_def publish_def send_if_changed_def)

lemma set_update_subset: "set (AList.update a c cs) \<subseteq> insert (a, c) (set cs)"
  by (induction cs) auto

lemma set_delete_subset: "set (AList.delete a cs) \<subseteq> set cs"
  by (induction cs) auto

lemma companions_wf_update:
  "companions_wf cs \<Longrightarrow> distinct (map fst (ca_scopes c)) \<Longrightarrow> companions_wf (AList.update a c cs)"
  using set_update_subset [of a c cs] by (auto simp: companions_wf_def distinct_update)

lemma companions_wf_delete: "companions_wf cs \<Longrightarrow> companions_wf (AList.delete a cs)"
  using set_delete_subset [of a cs] by (auto simp: companions_wf_def distinct_delete)

lemma companions_wf_get:
  "companions_wf cs \<Longrightarrow> map_of cs a = Some c \<Longrightarrow> distinct (map fst (ca_scopes c))"
  by (auto simp: companions_wf_def dest: map_of_SomeD)

lemma authority_call_ok:
  assumes ok: "registry_ok r v"
  shows "registry_ok (authority_call now call r) (view_call now call v)"
proof -
  have wf: "companions_wf (ar_companions r)" and v: "v = view_of (ar_companions r)"
    using ok by (auto simp: registry_ok_def)
  show ?thesis
  proof (cases call)
    case (Claim a s)
    show ?thesis unfolding Claim
      by (cases "map_of (ar_companions r) a", insert companions_wf_get [OF wf, of a])
        (auto simp: authority_claim_def Let_def v view_of_def update_conv' fun_eq_iff entry_or_default_def
          CompanionAuthority_default_def split: option.split
          intro!: publish_ok companions_wf_update wf distinct_update)
  next
    case (Release a s)
    then show ?thesis
      by (cases "map_of (ar_companions r) a", insert companions_wf_get [OF wf, of a])
        (auto simp: authority_release_def Let_def v view_of_def update_conv' delete_conv' fun_eq_iff
          split: option.split intro!: publish_ok companions_wf_update wf distinct_delete)
  next
    case (DropFor a)
    then show ?thesis
      by (auto simp: authority_drop_for_def v view_of_def delete_conv' fun_eq_iff intro!: publish_ok companions_wf_delete wf)
  next
    case (SetBundle a b)
    then show ?thesis using ok
      by (cases "map_of (ar_companions r) a", insert companions_wf_get [OF wf, of a])
        (auto simp: set_companion_app_bundle_def v view_of_def update_conv' fun_eq_iff entry_or_default_def
          CompanionAuthority_default_def split: option.split
          intro!: publish_ok companions_wf_update wf)
  qed
qed

lemma authority_run_ok: "registry_ok r v \<Longrightarrow> registry_ok (authority_run calls r) (view_run calls v)"
proof (induction calls arbitrary: r v)
  case (Cons c calls)
  then show ?case by (cases c) (simp add: authority_call_ok)
qed simp

lemma registry_ok_new: "registry_ok AuthorityRegistry_new no_authority"
  by (auto simp: registry_ok_def AuthorityRegistry_new_def no_authority_def watch_channel_def companions_wf_def
      view_of_def elect_def max_by_def authority_state_def elected_companion_def NowPlayingAuthorityState_default_def
      map_filter_simps)

text \<open>C6. After any calls the registry shows exactly what the claims that stand say: the primary is the leader, the
  now-playing flow of the session and every question about authority are answered from its claims and its
  bundle alone, whatever others have claimed.\<close>

theorem authority_follows_leader:
  "let r = authority_run calls AuthorityRegistry_new; v = view_run calls no_authority in
    (wa_value (ar_primary r) = Some a \<longleftrightarrow> leads v a) \<and>
    (authority_primary now r = Some a \<longleftrightarrow> leads v a) \<and>
    (is_authoritative now scope r \<longleftrightarrow> (\<exists>b. leads v b \<and> av_claims v b scope \<noteq> None)) \<and>
    (companion_app_bundle now r = Some x \<longleftrightarrow> (\<exists>b. leads v b \<and> av_bundles v b = Some x)) \<and>
    wa_value (ar_now_playing r) =
      \<lparr>au_companion_metadata = is_authoritative now NowPlayingMetadata r,
       au_companion_playback = is_authoritative now NowPlayingPlayback r,
       au_app_bundle = companion_app_bundle now r\<rparr>"
proof -
  define r where "r = authority_run calls AuthorityRegistry_new"
  define v where "v = view_run calls no_authority"
  have ok: "registry_ok r v" unfolding r_def v_def by (rule authority_run_ok [OF registry_ok_new])
  then have wf: "companions_wf (ar_companions r)" and v: "view_of (ar_companions r) = v"
    by (auto simp: registry_ok_def)
  note lead = elect_leads [OF wf, unfolded v, of now]
  have here: "\<exists>c. map_of (ar_companions r) b = Some c \<and> av_claims v b = map_of (ca_scopes c) \<and> av_bundles v b = ca_app_bundle c"
    if "leads v b" for b
    using claimant_exists [OF wf, of b now] that by (auto simp: v [symmetric] leads_def view_of_def)
  have elected: "elected_companion now (ar_companions r) = Some c \<longleftrightarrow>
      (\<exists>b. leads v b \<and> map_of (ar_companions r) b = Some c)" for c
    by (auto simp: elected_companion_def bind_eq_Some_conv lead)
  show ?thesis unfolding r_def [symmetric] v_def [symmetric] Let_def
  proof (intro conjI)
    show "wa_value (ar_primary r) = Some a \<longleftrightarrow> leads v a" using ok by (simp add: registry_ok_def lead [symmetric])
    show "authority_primary now r = Some a \<longleftrightarrow> leads v a" by (simp add: authority_primary_def lead)
    show "is_authoritative now scope r \<longleftrightarrow> (\<exists>b. leads v b \<and> av_claims v b scope \<noteq> None)"
    proof (cases "elected_companion now (ar_companions r)")
      case None
      then show ?thesis using here by (auto simp: is_authoritative_def elected) (metis elected option.distinct(1))
    next
      case (Some c)
      then obtain b where "leads v b" "map_of (ar_companions r) b = Some c" using elected by blast
      with here [of b] Some show ?thesis
        by (auto simp: is_authoritative_def holds_iff dest: leads_unique)
    qed
    show "companion_app_bundle now r = Some x \<longleftrightarrow> (\<exists>b. leads v b \<and> av_bundles v b = Some x)"
      using here by (fastforce simp: companion_app_bundle_def elected bind_eq_Some_conv)
    show "wa_value (ar_now_playing r) =
      \<lparr>au_companion_metadata = is_authoritative now NowPlayingMetadata r,
       au_companion_playback = is_authoritative now NowPlayingPlayback r,
       au_app_bundle = companion_app_bundle now r\<rparr>"
      using ok by (simp add: registry_ok_def authority_state_def is_authoritative_def companion_app_bundle_def Let_def)
  qed
qed

end
