(* ===== verification/Player_Types.thy ===== *)
theory Player_Types
  imports Player_Authority Lane_Scheduler
begin

text \<open>What the player and its clients exchange (\<open>crates/lib/src/shared/player.rs\<close>, \<open>now_playing.rs\<close>, and the
  replies of \<open>crates/lib/src/client/to/player.rs\<close>). Strings are their bytes; a playback speed, a 32-bit float
  that is only passed on and compared, is its bit pattern.\<close>

section \<open>Options\<close>

fun option_or :: "'a option \<Rightarrow> 'a option \<Rightarrow> 'a option" where
  "option_or (Some x) y = Some x"
| "option_or None y = y"

definition option_filter :: "('a \<Rightarrow> bool) \<Rightarrow> 'a option \<Rightarrow> 'a option" where
  "option_filter P x = (case x of None \<Rightarrow> None | Some y \<Rightarrow> if P y then Some y else None)"

lemma option_filter_simps [simp]:
  "option_filter P None = None"
  "option_filter P (Some y) = (if P y then Some y else None)"
  by (simp_all add: option_filter_def)

lemma option_filter_eq_Some [simp]: "option_filter P x = Some y \<longleftrightarrow> x = Some y \<and> P y"
  by (auto simp: option_filter_def split: option.split)

lemma option_or_None [simp]: "option_or x None = x"
  by (cases x) simp_all

lemma option_or_eq_None [simp]: "option_or x y = None \<longleftrightarrow> x = None \<and> y = None"
  by (cases x) simp_all

lemma option_or_assoc: "option_or (option_or x y) z = option_or x (option_or y z)"
  by (cases x) simp_all

section \<open>Floats\<close>

type_synonym f32 = u32

definition F32_ONE :: f32 where "F32_ONE = 0x3F800000"

definition f32_is_nan :: "f32 \<Rightarrow> bool" where
  "f32_is_nan x \<longleftrightarrow> unat x mod 2 ^ 31 > 0x7F800000"

definition f32_eq :: "f32 \<Rightarrow> f32 \<Rightarrow> bool" where
  "f32_eq x y \<longleftrightarrow> \<not> f32_is_nan x \<and> \<not> f32_is_nan y \<and> (x = y \<or> (unat x mod 2 ^ 31 = 0 \<and> unat y mod 2 ^ 31 = 0))"

section \<open>Updates\<close>

datatype LibRepeatMode = LibRepeatOff | LibRepeatAll | LibRepeatOne
datatype LibShuffleMode = LibShuffleOff | LibShuffleSongs | LibShuffleAlbums
datatype LibMediaType = LibMusic | LibPodcast | LibAudioBook

record MediaItemUpdate =
  miu_persistent_id :: "bytes option"
  miu_title :: "bytes option"
  miu_album :: "bytes option"
  miu_album_uri :: "bytes option"
  miu_album_artist :: "bytes option"
  miu_artist :: "bytes option"
  miu_artist_uri :: "bytes option"
  miu_liked :: "bool option"
  miu_artwork_id :: "bytes option"
  miu_duration_ms :: "u32 option"
  miu_media_types :: "(LibMediaType list) option"
  miu_track_number :: "u16 option"
  miu_track_count :: "u16 option"
  miu_is_like_supported :: "bool option"
  miu_is_ban_supported :: "bool option"
  miu_is_banned :: "bool option"
  miu_is_resident_on_device :: "bool option"
  miu_chapter_count :: "u16 option"

definition MediaItemUpdate_default :: MediaItemUpdate where
  "MediaItemUpdate_default = \<lparr>miu_persistent_id = None, miu_title = None, miu_album = None, miu_album_uri = None,
     miu_album_artist = None, miu_artist = None, miu_artist_uri = None, miu_liked = None, miu_artwork_id = None,
     miu_duration_ms = None, miu_media_types = None, miu_track_number = None, miu_track_count = None,
     miu_is_like_supported = None, miu_is_ban_supported = None, miu_is_banned = None,
     miu_is_resident_on_device = None, miu_chapter_count = None\<rparr>"

record PlaybackUpdate =
  pbu_playing :: "bool option"
  pbu_position_ms :: "u32 option"
  pbu_shuffle :: "bool option"
  pbu_shuffle_mode :: "LibShuffleMode option"
  pbu_repeat :: "LibRepeatMode option"
  pbu_app_bundle :: "bytes option"
  pbu_app_display_name :: "bytes option"
  pbu_queue_index :: "u32 option"
  pbu_queue_count :: "u32 option"
  pbu_queue_chapter_index :: "u32 option"
  pbu_playback_speed :: "f32 option"
  pbu_set_elapsed_time_available :: "bool option"
  pbu_queue_list_avail :: "bool option"
  pbu_apple_music_radio_ad :: "bool option"
  pbu_apple_music_radio_station_name :: "bytes option"

definition PlaybackUpdate_default :: PlaybackUpdate where
  "PlaybackUpdate_default = \<lparr>pbu_playing = None, pbu_position_ms = None, pbu_shuffle = None, pbu_shuffle_mode = None,
     pbu_repeat = None, pbu_app_bundle = None, pbu_app_display_name = None, pbu_queue_index = None,
     pbu_queue_count = None, pbu_queue_chapter_index = None, pbu_playback_speed = None,
     pbu_set_elapsed_time_available = None, pbu_queue_list_avail = None, pbu_apple_music_radio_ad = None,
     pbu_apple_music_radio_station_name = None\<rparr>"

record LibNowPlayingUpdate =
  lnu_media_item :: "MediaItemUpdate option"
  lnu_playback :: "PlaybackUpdate option"

section \<open>Tracks and queues\<close>

record Album =
  alb_id :: bytes
  alb_name :: bytes
  alb_artwork_id :: "bytes option"

record Artist =
  ats_id :: bytes
  ats_name :: bytes
  ats_artwork_id :: "bytes option"

definition Album_default :: Album where
  "Album_default = \<lparr>alb_id = [], alb_name = [], alb_artwork_id = None\<rparr>"

definition Artist_default :: Artist where
  "Artist_default = \<lparr>ats_id = [], ats_name = [], ats_artwork_id = None\<rparr>"

definition Album_from :: "(bytes \<Rightarrow> bool) \<Rightarrow> bytes \<Rightarrow> Album" where
  "Album_from alnum name =
    \<lparr>alb_id = lit ''bridgething:album:'' @ to_slug alnum name, alb_name = name, alb_artwork_id = None\<rparr>"

definition Artist_from :: "(bytes \<Rightarrow> bool) \<Rightarrow> bytes \<Rightarrow> Artist" where
  "Artist_from alnum name =
    \<lparr>ats_id = lit ''bridgething:artist:'' @ to_slug alnum name, ats_name = name, ats_artwork_id = None\<rparr>"

record Track =
  trk_id :: bytes
  trk_name :: bytes
  trk_album :: Album
  trk_artist :: Artist
  trk_artists :: "Artist list"
  trk_duration_ms :: u32
  trk_image_id :: bytes
  trk_saved :: bool

definition Track_default :: Track where
  "Track_default = \<lparr>trk_id = [], trk_name = [], trk_album = Album_default, trk_artist = Artist_default,
     trk_artists = [], trk_duration_ms = 0, trk_image_id = [], trk_saved = False\<rparr>"

record PlaybackOptions =
  pbo_repeat :: LibRepeatMode
  pbo_shuffle :: bool

record QueueItem =
  qit_uri :: bytes
  qit_title :: "bytes option"
  qit_artist :: "bytes option"
  qit_artist_uri :: "bytes option"
  qit_album :: "bytes option"
  qit_album_uri :: "bytes option"
  qit_artwork_id :: "bytes option"
  qit_duration_ms :: "u32 option"
  qit_persistent_id :: "bytes option"
  qit_queued :: bool

record QueueSnapshot =
  qsn_order :: "bytes list"
  qsn_items :: "QueueItem list"

section \<open>The state of the player on the wire\<close>

datatype LibPlaybackState = LibStopped | LibPaused | LibPlaying

record Playback =
  wpb_state :: LibPlaybackState
  wpb_position_ms :: u32
  wpb_position_age_ms :: "u32 option"
  wpb_shuffle :: bool
  wpb_shuffle_mode :: "LibShuffleMode option"
  wpb_repeat :: LibRepeatMode
  wpb_queue_index :: "u32 option"
  wpb_queue_count :: "u32 option"
  wpb_queue_chapter_index :: "u32 option"
  wpb_set_elapsed_time_available :: "bool option"
  wpb_queue_list_avail :: "bool option"
  wpb_apple_music_radio_ad :: "bool option"

record PlayerOptions =
  plo_speed :: f32
  plo_crossfade_ms :: "u32 option"

record PlaybackContext =
  ctx_uri :: bytes
  ctx_name :: "bytes option"

datatype PlaybackTargetKind =
  UnknownTarget | Phone | Tablet | Computer | Speaker | Tv | GameConsole | Automobile | Wearable

record PlaybackTarget =
  tgt_id :: bytes
  tgt_name :: bytes
  tgt_kind :: PlaybackTargetKind
  tgt_is_active :: bool
  tgt_volume_percent :: "u32 option"

record MediaItem =
  mit_uri :: "bytes option"
  mit_persistent_id :: "bytes option"
  mit_title :: "bytes option"
  mit_album :: "bytes option"
  mit_album_uri :: "bytes option"
  mit_album_artist :: "bytes option"
  mit_artist :: "bytes option"
  mit_artist_uri :: "bytes option"
  mit_liked :: "bool option"
  mit_artwork_id :: "bytes option"
  mit_duration_ms :: "u32 option"
  mit_media_types :: "(LibMediaType list) option"
  mit_track_number :: "u16 option"
  mit_track_count :: "u16 option"
  mit_is_like_supported :: "bool option"
  mit_is_ban_supported :: "bool option"
  mit_is_banned :: "bool option"
  mit_chapter_count :: "u16 option"

record WirePlayerState =
  wps_track :: "MediaItem option"
  wps_playback :: Playback
  wps_queue :: "QueueItem list"
  wps_options :: PlayerOptions
  wps_context :: "PlaybackContext option"
  wps_target :: "PlaybackTarget option"

record CurrentlyActiveApplication =
  caa_id :: bytes
  caa_name :: bytes

record PlayerStateReply =
  psr_state :: WirePlayerState
  psr_active_app :: "CurrentlyActiveApplication option"

record PlayerQueueReply =
  pqr_current :: "QueueItem option"
  pqr_items :: "QueueItem list"
  pqr_previous :: "QueueItem list"

end
