(* ===== verification/Player_State.thy ===== *)
theory Player_State
  imports Player_Types
begin

text \<open>The state of the player (\<open>crates/core/src/player/state.rs\<close>): what the phone reports over iAP2 and what the
  companion reports are staged apart, merged by who has authority, and turned into the track, the playhead and
  the queue the clients see. The shared registry and the clock are read once per operation; an instant is a
  number of nanoseconds.\<close>

section \<open>Data\<close>

definition TRANSPORT_INTENT_WINDOW :: nat where "TRANSPORT_INTENT_WINDOW = millis 1500"
definition SEEK_INTENT_WINDOW :: nat where "SEEK_INTENT_WINDOW = millis 1500"
definition POSITION_RESYNC_TOLERANCE_MS :: nat where "POSITION_RESYNC_TOLERANCE_MS = 2000"
definition RECENTLY_PLAYED_CAP :: nat where "RECENTLY_PLAYED_CAP = 25"
definition OPTIMISTIC_MATCH_DEPTH :: nat where "OPTIMISTIC_MATCH_DEPTH = 3"

record PlayerEnv =
  pe_now :: nat
  pe_authority :: AuthorityRegistry
  pe_alphanumeric :: "bytes \<Rightarrow> bool"

record TransportIntent =
  tin_playing :: bool
  tin_expires :: nat
  tin_mismatches :: nat

record SeekIntent =
  sin_expires :: nat

record PositionAnchor =
  pan_base_ms :: nat
  pan_at :: "nat option"
  pan_playing :: bool
  pan_duration_ms :: "u32 option"

record PlayerState =
  pl_playing :: bool
  pl_context :: "PlaybackContext option"
  pl_target :: "PlaybackTarget option"
  pl_position_anchor :: "nat option"
  pl_position_ms :: nat
  pl_playback_speed :: f32
  pl_track :: "Track option"
  pl_options :: PlaybackOptions
  pl_iap2_metadata :: MediaItemUpdate
  pl_iap2_playback :: PlaybackUpdate
  pl_iap2_playback_at :: "nat option"
  pl_companion_metadata :: MediaItemUpdate
  pl_companion_playback :: PlaybackUpdate
  pl_companion_playback_at :: "nat option"
  pl_companion_source :: "Address option"
  pl_companion_queue :: "QueueItem list"
  pl_recently_played :: "QueueItem list"
  pl_previous_track_uri :: "bytes option"
  pl_root_browse_gen :: u64
  pl_present_ids :: "bytes list"
  pl_transport_intent :: "TransportIntent option"
  pl_seek_intent :: "SeekIntent option"
  pl_companion_owned :: bool
  pl_position_resync :: bool

definition PlayerState_new :: PlayerState where
  "PlayerState_new = \<lparr>pl_playing = False, pl_context = None, pl_target = None, pl_position_anchor = None,
     pl_position_ms = 0, pl_playback_speed = F32_ONE, pl_track = None,
     pl_options = \<lparr>pbo_repeat = LibRepeatOff, pbo_shuffle = False\<rparr>,
     pl_iap2_metadata = MediaItemUpdate_default, pl_iap2_playback = PlaybackUpdate_default,
     pl_iap2_playback_at = None, pl_companion_metadata = MediaItemUpdate_default,
     pl_companion_playback = PlaybackUpdate_default, pl_companion_playback_at = None, pl_companion_source = None,
     pl_companion_queue = [], pl_recently_played = [], pl_previous_track_uri = None, pl_root_browse_gen = 0,
     pl_present_ids = [], pl_transport_intent = None, pl_seek_intent = None, pl_companion_owned = False,
     pl_position_resync = False\<rparr>"

section \<open>The playhead\<close>

text \<open>\<open>as_millis() as usize\<close>, and \<open>u32::try_from(..).unwrap_or(u32::MAX)\<close>.\<close>

definition elapsed_ms :: "nat \<Rightarrow> nat \<Rightarrow> nat" where
  "elapsed_ms now at = ((now - at) div 1000000) mod (USIZE_MAX + 1)"

definition u32_or_max :: "nat \<Rightarrow> u32" where
  "u32_or_max n = (if n < 2 ^ 32 then of_nat n else -1)"

definition u32_sat_add :: "u32 \<Rightarrow> u32 \<Rightarrow> u32" where
  "u32_sat_add a b = (if unat a + unat b < 2 ^ 32 then a + b else -1)"

definition position_now_ms :: "nat \<Rightarrow> PositionAnchor \<Rightarrow> nat" where
  "position_now_ms now p =
    (case option_filter (\<lambda>_. pan_playing p) (pan_at p) of
       None \<Rightarrow> pan_base_ms p
     | Some at \<Rightarrow>
         let advanced = sat_add (pan_base_ms p) (elapsed_ms now at) in
         (case option_filter (\<lambda>d. 0 < d) (pan_duration_ms p) of
            Some duration \<Rightarrow> min advanced (unat duration)
          | None \<Rightarrow> advanced))"

definition position_anchor :: "PlayerState \<Rightarrow> PositionAnchor" where
  "position_anchor s = \<lparr>pan_base_ms = pl_position_ms s, pan_at = pl_position_anchor s, pan_playing = pl_playing s,
     pan_duration_ms = map_option trk_duration_ms (pl_track s)\<rparr>"

definition current_position_ms :: "nat \<Rightarrow> PlayerState \<Rightarrow> nat" where
  "current_position_ms now s =
    (if \<not> pl_playing s then pl_position_ms s
     else (case pl_position_anchor s of
             None \<Rightarrow> pl_position_ms s
           | Some anchor \<Rightarrow> sat_add (pl_position_ms s) (elapsed_ms now anchor)))"

definition set_transport_intent :: "nat \<Rightarrow> bool \<Rightarrow> PlayerState \<Rightarrow> PlayerState" where
  "set_transport_intent now playing s =
    s\<lparr>pl_position_ms := current_position_ms now s, pl_position_anchor := Some now, pl_playing := playing,
      pl_transport_intent := Some \<lparr>tin_playing = playing, tin_expires = now + TRANSPORT_INTENT_WINDOW, tin_mismatches = 0\<rparr>\<rparr>"

definition active_transport_intent :: "nat \<Rightarrow> PlayerState \<Rightarrow> bool option" where
  "active_transport_intent now s =
    (case pl_transport_intent s of
       None \<Rightarrow> None
     | Some intent \<Rightarrow> if now < tin_expires intent then Some (tin_playing intent) else None)"

definition set_seek_intent :: "nat \<Rightarrow> u32 \<Rightarrow> PlayerState \<Rightarrow> PlayerState" where
  "set_seek_intent now pos_ms s =
    s\<lparr>pl_position_ms := unat pos_ms, pl_position_anchor := Some now,
      pl_seek_intent := Some \<lparr>sin_expires = now + SEEK_INTENT_WINDOW\<rparr>\<rparr>"

definition seek_intent_active :: "nat \<Rightarrow> PlayerState \<Rightarrow> bool" where
  "seek_intent_active now s =
    (case pl_seek_intent s of None \<Rightarrow> False | Some i \<Rightarrow> now < sin_expires i)"

section \<open>Assets\<close>

definition is_present :: "bytes \<Rightarrow> PlayerState \<Rightarrow> bool" where
  "is_present i s \<longleftrightarrow> i \<in> set (pl_present_ids s)"

definition note_asset_ready :: "bytes \<Rightarrow> PlayerState \<Rightarrow> PlayerState" where
  "note_asset_ready i s = s\<lparr>pl_present_ids := List.insert i (pl_present_ids s)\<rparr>"

definition note_asset_cleared :: "bytes \<Rightarrow> PlayerState \<Rightarrow> PlayerState" where
  "note_asset_cleared i s = s\<lparr>pl_present_ids := removeAll i (pl_present_ids s)\<rparr>"

definition take_position_resync :: "PlayerState \<Rightarrow> bool \<times> PlayerState" where
  "take_position_resync s = (pl_position_resync s, s\<lparr>pl_position_resync := False\<rparr>)"

section \<open>Authority\<close>

definition accepts_companion_data :: "PlayerEnv \<Rightarrow> Address \<Rightarrow> bool" where
  "accepts_companion_data env addr =
    (case authority_primary (pe_now env) (pe_authority env) of None \<Rightarrow> True | Some primary \<Rightarrow> primary = addr)"

definition iap2_bundle :: "PlayerState \<Rightarrow> bytes option" where
  "iap2_bundle s = option_filter (\<lambda>b. b \<noteq> []) (pbu_app_bundle (pl_iap2_playback s))"

definition iap2_foreground_is_other_app :: "PlayerEnv \<Rightarrow> PlayerState \<Rightarrow> bool" where
  "iap2_foreground_is_other_app env s =
    (case iap2_bundle s of
       None \<Rightarrow> False
     | Some iap2 \<Rightarrow>
         (case companion_app_bundle (pe_now env) (pe_authority env) of
            Some cb \<Rightarrow> \<not> ignore_ascii_case_eq cb iap2
          | None \<Rightarrow> False))"

definition companion_now_playing_authoritative :: "PlayerEnv \<Rightarrow> CompanionAuthorityScope \<Rightarrow> PlayerState \<Rightarrow> bool" where
  "companion_now_playing_authoritative env scope s \<longleftrightarrow>
    is_authoritative (pe_now env) scope (pe_authority env) \<and> \<not> iap2_foreground_is_other_app env s"

definition companion_playback_authoritative :: "PlayerEnv \<Rightarrow> PlayerState \<Rightarrow> bool" where
  "companion_playback_authoritative env s = companion_now_playing_authoritative env NowPlayingPlayback s"

definition iap2_describes_the_companion_item :: "PlayerState \<Rightarrow> bool" where
  "iap2_describes_the_companion_item s =
    (case (miu_title (pl_companion_metadata s), miu_title (pl_iap2_metadata s)) of
       (Some companion, Some iap2) \<Rightarrow> ignore_ascii_case_eq (trim companion) (trim iap2)
     | _ \<Rightarrow> False)"

definition iap2_bundle_matches_companion :: "PlayerEnv \<Rightarrow> PlayerState \<Rightarrow> bool" where
  "iap2_bundle_matches_companion env s =
    (case iap2_bundle s of
       None \<Rightarrow> False
     | Some iap2 \<Rightarrow>
         (case companion_app_bundle (pe_now env) (pe_authority env) of
            Some cb \<Rightarrow> ignore_ascii_case_eq cb iap2
          | None \<Rightarrow> False))"

definition note_ownership :: "PlayerEnv \<Rightarrow> PlayerState \<Rightarrow> bool \<times> PlayerState" where
  "note_ownership env s =
    (let owns = companion_playback_authoritative env s;
         edge = (owns \<noteq> pl_companion_owned s);
         s1 = s\<lparr>pl_companion_owned := owns\<rparr> in
     (edge, if edge then s1\<lparr>pl_position_resync := True\<rparr> else s1))"

section \<open>Merging\<close>

definition accumulate_media :: "MediaItemUpdate \<Rightarrow> MediaItemUpdate \<Rightarrow> MediaItemUpdate" where
  "accumulate_media target src =
    \<lparr>miu_persistent_id = option_or (miu_persistent_id src) (miu_persistent_id target),
     miu_title = option_or (miu_title src) (miu_title target),
     miu_album = option_or (miu_album src) (miu_album target),
     miu_album_uri = option_or (miu_album_uri src) (miu_album_uri target),
     miu_album_artist = option_or (miu_album_artist src) (miu_album_artist target),
     miu_artist = option_or (miu_artist src) (miu_artist target),
     miu_artist_uri = option_or (miu_artist_uri src) (miu_artist_uri target),
     miu_liked = option_or (miu_liked src) (miu_liked target),
     miu_artwork_id = option_or (miu_artwork_id src) (miu_artwork_id target),
     miu_duration_ms = option_or (miu_duration_ms src) (miu_duration_ms target),
     miu_media_types = option_or (miu_media_types src) (miu_media_types target),
     miu_track_number = option_or (miu_track_number src) (miu_track_number target),
     miu_track_count = option_or (miu_track_count src) (miu_track_count target),
     miu_is_like_supported = option_or (miu_is_like_supported src) (miu_is_like_supported target),
     miu_is_ban_supported = option_or (miu_is_ban_supported src) (miu_is_ban_supported target),
     miu_is_banned = option_or (miu_is_banned src) (miu_is_banned target),
     miu_is_resident_on_device = option_or (miu_is_resident_on_device src) (miu_is_resident_on_device target),
     miu_chapter_count = option_or (miu_chapter_count src) (miu_chapter_count target)\<rparr>"

definition accumulate_playback :: "PlaybackUpdate \<Rightarrow> PlaybackUpdate \<Rightarrow> PlaybackUpdate" where
  "accumulate_playback target src =
    \<lparr>pbu_playing = option_or (pbu_playing src) (pbu_playing target),
     pbu_position_ms = option_or (pbu_position_ms src) (pbu_position_ms target),
     pbu_shuffle = option_or (pbu_shuffle src) (pbu_shuffle target),
     pbu_shuffle_mode = option_or (pbu_shuffle_mode src) (pbu_shuffle_mode target),
     pbu_repeat = option_or (pbu_repeat src) (pbu_repeat target),
     pbu_app_bundle = option_or (pbu_app_bundle src) (pbu_app_bundle target),
     pbu_app_display_name = option_or (pbu_app_display_name src) (pbu_app_display_name target),
     pbu_queue_index = option_or (pbu_queue_index src) (pbu_queue_index target),
     pbu_queue_count = option_or (pbu_queue_count src) (pbu_queue_count target),
     pbu_queue_chapter_index = option_or (pbu_queue_chapter_index src) (pbu_queue_chapter_index target),
     pbu_playback_speed = option_or (pbu_playback_speed src) (pbu_playback_speed target),
     pbu_set_elapsed_time_available = option_or (pbu_set_elapsed_time_available src) (pbu_set_elapsed_time_available target),
     pbu_queue_list_avail = option_or (pbu_queue_list_avail src) (pbu_queue_list_avail target),
     pbu_apple_music_radio_ad = option_or (pbu_apple_music_radio_ad src) (pbu_apple_music_radio_ad target),
     pbu_apple_music_radio_station_name = option_or (pbu_apple_music_radio_station_name src) (pbu_apple_music_radio_station_name target)\<rparr>"

definition merged_metadata :: "PlayerEnv \<Rightarrow> PlayerState \<Rightarrow> MediaItemUpdate" where
  "merged_metadata env s =
    (if \<not> companion_now_playing_authoritative env NowPlayingMetadata s then pl_iap2_metadata s
     else
       let companion = pl_companion_metadata s;
           iap2 = (if iap2_describes_the_companion_item s then pl_iap2_metadata s else MediaItemUpdate_default) in
       \<lparr>miu_persistent_id = option_or (miu_persistent_id companion) (miu_persistent_id iap2),
       miu_title = option_or (miu_title companion) (miu_title iap2),
       miu_album = option_or (miu_album companion) (miu_album iap2),
       miu_album_uri = option_or (miu_album_uri companion) (miu_album_uri iap2),
       miu_album_artist = option_or (miu_album_artist companion) (miu_album_artist iap2),
       miu_artist = option_or (miu_artist companion) (miu_artist iap2),
       miu_artist_uri = option_or (miu_artist_uri companion) (miu_artist_uri iap2),
       miu_liked = option_or (miu_liked companion) (miu_liked iap2),
       miu_artwork_id = miu_artwork_id companion,
       miu_duration_ms = option_or (miu_duration_ms companion) (miu_duration_ms iap2),
       miu_media_types = option_or (miu_media_types companion) (miu_media_types iap2),
       miu_track_number = option_or (miu_track_number companion) (miu_track_number iap2),
       miu_track_count = option_or (miu_track_count companion) (miu_track_count iap2),
       miu_is_like_supported = option_or (miu_is_like_supported companion) (miu_is_like_supported iap2),
       miu_is_ban_supported = option_or (miu_is_ban_supported companion) (miu_is_ban_supported iap2),
       miu_is_banned = option_or (miu_is_banned companion) (miu_is_banned iap2),
       miu_is_resident_on_device = option_or (miu_is_resident_on_device companion) (miu_is_resident_on_device iap2),
       miu_chapter_count = option_or (miu_chapter_count companion) (miu_chapter_count iap2)\<rparr>)"

definition extrapolated :: "nat \<Rightarrow> u32 option \<Rightarrow> nat option \<Rightarrow> bool option \<Rightarrow> u32 option" where
  "extrapolated now reported staged_at playing =
    (case reported of
       None \<Rightarrow> None
     | Some p \<Rightarrow>
         if playing \<noteq> Some True then Some p
         else (case staged_at of
                 None \<Rightarrow> Some p
               | Some at \<Rightarrow> Some (u32_sat_add p (of_nat (min ((now - at) div 1000000) (2 ^ 32 - 1))))))"

definition merged_playback :: "PlayerEnv \<Rightarrow> PlayerState \<Rightarrow> PlaybackUpdate" where
  "merged_playback env s =
    (let companion = pl_companion_playback s;
         iap2 = pl_iap2_playback s;
         companion_position = extrapolated (pe_now env) (pbu_position_ms companion) (pl_companion_playback_at s) (pbu_playing companion);
         iap2_position = extrapolated (pe_now env) (pbu_position_ms iap2) (pl_iap2_playback_at s) (pbu_playing iap2) in
     if companion_now_playing_authoritative env NowPlayingPlayback s then
       \<lparr>pbu_playing = option_or (pbu_playing companion) (pbu_playing iap2),
        pbu_position_ms = option_or companion_position iap2_position,
        pbu_shuffle = option_or (pbu_shuffle companion) (pbu_shuffle iap2),
        pbu_shuffle_mode = option_or (pbu_shuffle_mode companion) (pbu_shuffle_mode iap2),
        pbu_repeat = option_or (pbu_repeat companion) (pbu_repeat iap2),
        pbu_app_bundle = option_or (pbu_app_bundle companion) (pbu_app_bundle iap2),
        pbu_app_display_name = option_or (pbu_app_display_name companion) (pbu_app_display_name iap2),
        pbu_queue_index = option_or (pbu_queue_index companion) (pbu_queue_index iap2),
        pbu_queue_count = option_or (pbu_queue_count companion) (pbu_queue_count iap2),
        pbu_queue_chapter_index = option_or (pbu_queue_chapter_index companion) (pbu_queue_chapter_index iap2),
        pbu_playback_speed = option_or (pbu_playback_speed companion) (pbu_playback_speed iap2),
        pbu_set_elapsed_time_available = option_or (pbu_set_elapsed_time_available companion) (pbu_set_elapsed_time_available iap2),
        pbu_queue_list_avail = option_or (pbu_queue_list_avail companion) (pbu_queue_list_avail iap2),
        pbu_apple_music_radio_ad = option_or (pbu_apple_music_radio_ad companion) (pbu_apple_music_radio_ad iap2),
        pbu_apple_music_radio_station_name = option_or (pbu_apple_music_radio_station_name companion) (pbu_apple_music_radio_station_name iap2)\<rparr>
     else iap2\<lparr>pbu_position_ms := iap2_position\<rparr>)"

definition companion_fallthrough :: "PlaybackUpdate \<Rightarrow> PlayerState \<Rightarrow> PlaybackUpdate" where
  "companion_fallthrough merged s =
    merged\<lparr>pbu_playing := option_filter (\<lambda>_. pbu_playing (pl_companion_playback s) = None) (pbu_playing merged),
      pbu_position_ms := option_filter (\<lambda>_. pbu_position_ms (pl_companion_playback s) = None) (pbu_position_ms merged),
      pbu_shuffle := option_filter (\<lambda>_. pbu_shuffle (pl_companion_playback s) = None) (pbu_shuffle merged),
      pbu_repeat := option_filter (\<lambda>_. pbu_repeat (pl_companion_playback s) = None) (pbu_repeat merged)\<rparr>"

section \<open>Applying what was merged\<close>

text \<open>The track: whether it stays the same, and what it becomes. A new one remembers the one before it.\<close>

definition apply_track :: "PlayerEnv \<Rightarrow> MediaItemUpdate \<Rightarrow> PlayerState \<Rightarrow> bool \<times> PlayerState" where
  "apply_track env media s =
    (let has_identity = (miu_persistent_id media \<noteq> None \<or> miu_title media \<noteq> None) in
     if pl_track s = None \<and> \<not> has_identity then (False, s)
     else
       let same_track = (case (map_option trk_id (pl_track s), miu_persistent_id media) of
                           (Some existing, Some new) \<Rightarrow> existing = new
                         | _ \<Rightarrow> False);
           s1 = (if \<not> same_track \<and> miu_persistent_id media \<noteq> None \<and> pl_track s \<noteq> None
                 then s\<lparr>pl_previous_track_uri := map_option trk_id (pl_track s)\<rparr> else s);
           t0 = (if same_track then (case pl_track s of None \<Rightarrow> Track_default | Some t \<Rightarrow> t) else Track_default);
           t1 = (case miu_persistent_id media of None \<Rightarrow> t0 | Some i \<Rightarrow> t0\<lparr>trk_id := i\<rparr>);
           t2 = (case miu_title media of None \<Rightarrow> t1 | Some title \<Rightarrow> t1\<lparr>trk_name := title\<rparr>);
           t3 = (case miu_album media of None \<Rightarrow> t2 | Some album \<Rightarrow> t2\<lparr>trk_album := Album_from (pe_alphanumeric env) album\<rparr>);
           t4 = (case miu_artist media of
                   None \<Rightarrow> t3
                 | Some artist \<Rightarrow> t3\<lparr>trk_artist := Artist_from (pe_alphanumeric env) artist,
                                     trk_artists := [Artist_from (pe_alphanumeric env) artist]\<rparr>);
           t5 = t4\<lparr>trk_image_id := (case miu_artwork_id media of None \<Rightarrow> [] | Some a \<Rightarrow> a)\<rparr>;
           t6 = (case miu_duration_ms media of None \<Rightarrow> t5 | Some d \<Rightarrow> t5\<lparr>trk_duration_ms := d\<rparr>);
           t7 = (case miu_liked media of None \<Rightarrow> t6 | Some l \<Rightarrow> t6\<lparr>trk_saved := l\<rparr>) in
       (same_track, s1\<lparr>pl_track := Some t7\<rparr>))"

text \<open>Whether it plays: an intent of the user holds back one report that contradicts it.\<close>

definition apply_playing :: "nat \<Rightarrow> bool option \<Rightarrow> PlayerState \<Rightarrow> bool \<times> PlayerState" where
  "apply_playing now reported s =
    (case reported of
       Some playing \<Rightarrow>
         (case active_transport_intent now s of
            Some expected \<Rightarrow>
              if playing = expected then (True, s\<lparr>pl_playing := playing, pl_transport_intent := None\<rparr>)
              else
                let (sustained, s1) =
                  (case pl_transport_intent s of
                     None \<Rightarrow> (True, s)
                   | Some i \<Rightarrow>
                       let mismatches = min (tin_mismatches i + 1) 255 in
                       (2 \<le> mismatches, s\<lparr>pl_transport_intent := Some (i\<lparr>tin_mismatches := mismatches\<rparr>)\<rparr>)) in
                if sustained then (True, s1\<lparr>pl_playing := playing, pl_transport_intent := None\<rparr>)
                else (False, s1)
          | None \<Rightarrow> (True, s\<lparr>pl_playing := playing\<rparr>))
     | None \<Rightarrow> (active_transport_intent now s = None, s))"

text \<open>The position: a report that is close to the running playhead does not move it back.\<close>

definition apply_position :: "nat \<Rightarrow> bool \<Rightarrow> u32 \<Rightarrow> PlayerState \<Rightarrow> PlayerState" where
  "apply_position now same_track reported s =
    (if seek_intent_active now s then s
     else
       let pos = unat reported;
           current = current_position_ms now s;
           duration_known = (case pl_track s of None \<Rightarrow> False | Some t \<Rightarrow> 0 < trk_duration_ms t);
           riding = (same_track \<and> pl_playing s \<and> duration_known \<and> pl_position_anchor s \<noteq> None \<and>
             (pos - current) + (current - pos) \<le> POSITION_RESYNC_TOLERANCE_MS);
           frozen_duplicate = (same_track \<and> pl_playing s \<and> pl_position_anchor s \<noteq> None \<and>
             pos = pl_position_ms s \<and> pos < current) in
       if (riding \<and> pos < current) \<or> frozen_duplicate then s
       else
         (if riding then s else s\<lparr>pl_position_resync := True\<rparr>)
           \<lparr>pl_seek_intent := None, pl_position_ms := pos, pl_position_anchor := Some now\<rparr>)"

definition apply_options :: "PlaybackUpdate \<Rightarrow> PlayerState \<Rightarrow> PlayerState" where
  "apply_options playback s =
    (let s1 = (case pbu_shuffle playback of
                 None \<Rightarrow> s | Some x \<Rightarrow> s\<lparr>pl_options := (pl_options s)\<lparr>pbo_shuffle := x\<rparr>\<rparr>) in
     case pbu_repeat playback of
       None \<Rightarrow> s1 | Some x \<Rightarrow> s1\<lparr>pl_options := (pl_options s1)\<lparr>pbo_repeat := x\<rparr>\<rparr>)"

definition apply_merged :: "PlayerEnv \<Rightarrow> MediaItemUpdate \<Rightarrow> PlaybackUpdate \<Rightarrow> bool \<Rightarrow> PlayerState \<Rightarrow> PlayerState" where
  "apply_merged env media playback apply_time s =
    (let (same_track, s1) = apply_track env media s in
     if \<not> apply_time then s1
     else
       let (accept_position, s2) = apply_playing (pe_now env) (pbu_playing playback) s1;
           s3 = (case pbu_position_ms playback of
                   None \<Rightarrow> s2
                 | Some reported \<Rightarrow>
                     if accept_position then apply_position (pe_now env) same_track reported s2 else s2) in
       apply_options playback s3)"

section \<open>The companion\<close>

definition item_of_uri :: "QueueItem list \<Rightarrow> bytes \<Rightarrow> QueueItem option" where
  "item_of_uri items uri = map_of (rev (map (\<lambda>q. (qit_uri q, q)) items)) uri"

definition apply_companion_queue :: "PlayerEnv \<Rightarrow> Address \<Rightarrow> QueueSnapshot \<Rightarrow> PlayerState \<Rightarrow> PlayerState" where
  "apply_companion_queue env addr snapshot s =
    (if \<not> accepts_companion_data env addr then s
     else s\<lparr>pl_companion_source := Some addr,
            pl_companion_queue := List.map_filter (item_of_uri (qsn_items snapshot)) (qsn_order snapshot)\<rparr>)"

definition is_synthetic_uri :: "bytes \<Rightarrow> bool" where
  "is_synthetic_uri uri = starts_with_bytes uri (lit ''iap2:'')"

definition note_rolled_off :: "QueueItem \<Rightarrow> PlayerState \<Rightarrow> PlayerState" where
  "note_rolled_off outgoing s =
    (if is_synthetic_uri (qit_uri outgoing) then s
     else if (case pl_recently_played s of [] \<Rightarrow> None | q # _ \<Rightarrow> Some (qit_uri q)) \<noteq> Some (qit_uri outgoing)
     then s\<lparr>pl_recently_played := take RECENTLY_PLAYED_CAP (outgoing # pl_recently_played s)\<rparr>
     else s)"

definition note_library_changed :: "PlayerState \<Rightarrow> PlayerState" where
  "note_library_changed s = s\<lparr>pl_root_browse_gen := pl_root_browse_gen s + 1\<rparr>"

text \<open>Merges and applies what is staged.\<close>

definition apply_staged :: "PlayerEnv \<Rightarrow> bool \<Rightarrow> PlayerState \<Rightarrow> PlayerState" where
  "apply_staged env apply_time s = apply_merged env (merged_metadata env s) (merged_playback env s) apply_time s"

definition note_authority_changed :: "PlayerEnv \<Rightarrow> PlayerState \<Rightarrow> PlayerState" where
  "note_authority_changed env s =
    (let (edge, s1) = note_ownership env s in apply_staged env edge s1)"

definition reset_companion :: "PlayerEnv \<Rightarrow> Address \<Rightarrow> PlayerState \<Rightarrow> PlayerState" where
  "reset_companion env addr s =
    (if pl_companion_source s \<noteq> Some addr then s
     else
       let s1 = s\<lparr>pl_companion_source := None, pl_recently_played := [],
                  pl_root_browse_gen := pl_root_browse_gen s + 1,
                  pl_companion_metadata := MediaItemUpdate_default,
                  pl_companion_playback := PlaybackUpdate_default,
                  pl_companion_playback_at := None, pl_context := None, pl_target := None\<rparr>;
           (_, s2) = note_ownership env s1 in
       apply_staged env True s2)"

definition snapshot_metadata :: "MediaItem option \<Rightarrow> MediaItemUpdate" where
  "snapshot_metadata track =
    (case track of
       Some t \<Rightarrow>
         \<lparr>miu_persistent_id = mit_persistent_id t,
            miu_title = mit_title t,
            miu_album = mit_album t,
            miu_album_uri = mit_album_uri t,
            miu_album_artist = mit_album_artist t,
            miu_artist = mit_artist t,
            miu_artist_uri = mit_artist_uri t,
            miu_liked = mit_liked t,
            miu_artwork_id = mit_artwork_id t,
            miu_duration_ms = mit_duration_ms t,
            miu_media_types = mit_media_types t,
            miu_track_number = mit_track_number t,
            miu_track_count = mit_track_count t,
            miu_is_like_supported = mit_is_like_supported t,
            miu_is_ban_supported = mit_is_ban_supported t,
            miu_is_banned = mit_is_banned t,
            miu_is_resident_on_device = None,
            miu_chapter_count = mit_chapter_count t\<rparr>
     | None \<Rightarrow> MediaItemUpdate_default)"

text \<open>A position of a playing snapshot is moved on by its age, but not past the end of the track.\<close>

definition snapshot_position :: "Playback \<Rightarrow> u32 option \<Rightarrow> u32" where
  "snapshot_position pb duration_ms =
    (case option_filter (\<lambda>age. 0 < age) (wpb_position_age_ms pb) of
       Some age \<Rightarrow>
         if wpb_state pb = LibPlaying then
           let aged = u32_sat_add (wpb_position_ms pb) age in
           (case option_filter (\<lambda>d. 0 < d) duration_ms of Some d \<Rightarrow> min aged d | None \<Rightarrow> aged)
         else wpb_position_ms pb
     | None \<Rightarrow> wpb_position_ms pb)"

definition stage_companion_snapshot :: "nat \<Rightarrow> Address \<Rightarrow> WirePlayerState \<Rightarrow> PlayerState \<Rightarrow> PlayerState" where
  "stage_companion_snapshot now addr snapshot s =
    (let metadata = snapshot_metadata (wps_track snapshot);
         pb = wps_playback snapshot;
         position_ms = snapshot_position pb (miu_duration_ms metadata) in
     s\<lparr>pl_companion_source := Some addr, pl_context := wps_context snapshot, pl_target := wps_target snapshot,
       pl_companion_metadata := metadata,
       pl_companion_playback :=
         \<lparr>pbu_playing = Some (wpb_state pb = LibPlaying),
          pbu_position_ms = Some position_ms,
          pbu_shuffle = Some (wpb_shuffle pb),
          pbu_shuffle_mode = wpb_shuffle_mode pb,
          pbu_repeat = Some (wpb_repeat pb),
          pbu_app_bundle = None,
          pbu_app_display_name = None,
          pbu_queue_index = wpb_queue_index pb,
          pbu_queue_count = wpb_queue_count pb,
          pbu_queue_chapter_index = wpb_queue_chapter_index pb,
          pbu_playback_speed = Some (plo_speed (wps_options snapshot)),
          pbu_set_elapsed_time_available = wpb_set_elapsed_time_available pb,
          pbu_queue_list_avail = wpb_queue_list_avail pb,
          pbu_apple_music_radio_ad = wpb_apple_music_radio_ad pb,
          pbu_apple_music_radio_station_name = None\<rparr>,
       pl_companion_playback_at := Some now\<rparr>)"

definition apply_companion_snapshot :: "PlayerEnv \<Rightarrow> Address \<Rightarrow> WirePlayerState \<Rightarrow> PlayerState \<Rightarrow> PlayerState" where
  "apply_companion_snapshot env addr snapshot s =
    (if \<not> accepts_companion_data env addr then s
     else
       let s1 = stage_companion_snapshot (pe_now env) addr snapshot s;
           (edge, s2) = note_ownership env s1 in
       apply_staged env (pl_companion_owned s2 \<or> edge) s2)"

section \<open>The optimistic advance\<close>

definition norm_eq :: "bytes \<Rightarrow> bytes \<Rightarrow> bool" where
  "norm_eq a b = ignore_ascii_case_eq (trim a) (trim b)"

definition artists_agree :: "bytes option \<Rightarrow> bytes option \<Rightarrow> bool" where
  "artists_agree a b =
    (case (option_filter (\<lambda>s. s \<noteq> []) (map_option trim a), option_filter (\<lambda>s. s \<noteq> []) (map_option trim b)) of
       (Some x, Some y) \<Rightarrow> ignore_ascii_case_eq x y
     | _ \<Rightarrow> True)"

definition iap2_track_matches_item :: "bytes \<Rightarrow> bytes option \<Rightarrow> QueueItem \<Rightarrow> bool" where
  "iap2_track_matches_item title artist item \<longleftrightarrow>
    (case qit_title item of None \<Rightarrow> False | Some t \<Rightarrow> norm_eq t title) \<and> artists_agree artist (qit_artist item)"

definition effective_track :: "PlayerState \<Rightarrow> Track option" where
  "effective_track s =
    (case pl_track s of
       None \<Rightarrow> None
     | Some track \<Rightarrow>
         if ends_with_bytes (trk_id track) (lit ''0000000000000000'') \<and> trk_name track = [] then None
         else Some track)"

definition find_position :: "('a \<Rightarrow> bool) \<Rightarrow> 'a list \<Rightarrow> nat option" where
  "find_position P xs = (let n = length (takeWhile (\<lambda>x. \<not> P x) xs) in if n < length xs then Some n else None)"

text \<open>The item of the queue that the phone has gone on to, if it is one of the next few.\<close>

definition upcoming_after_current :: "PlayerState \<Rightarrow> QueueItem list" where
  "upcoming_after_current s =
    (case pl_track s of
       None \<Rightarrow> pl_companion_queue s
     | Some t \<Rightarrow>
         (case find_position (\<lambda>q. (qit_uri q \<noteq> [] \<and> qit_uri q = trk_id t) \<or> qit_persistent_id q = Some (trk_id t))
                 (pl_companion_queue s) of
            Some pos \<Rightarrow> drop (pos + 1) (pl_companion_queue s)
          | None \<Rightarrow> pl_companion_queue s))"

definition promoted_item :: "bytes \<Rightarrow> bytes option \<Rightarrow> PlayerState \<Rightarrow> QueueItem option" where
  "promoted_item title artist s =
    find (iap2_track_matches_item title artist)
      (filter (\<lambda>item. pl_previous_track_uri s \<noteq> Some (qit_uri item))
        (take OPTIMISTIC_MATCH_DEPTH (upcoming_after_current s)))"

definition item_metadata :: "QueueItem \<Rightarrow> MediaItemUpdate" where
  "item_metadata item =
    MediaItemUpdate_default\<lparr>miu_persistent_id := Some (qit_uri item), miu_title := qit_title item,
      miu_artist := qit_artist item, miu_artist_uri := qit_artist_uri item, miu_album := qit_album item,
      miu_album_uri := qit_album_uri item, miu_artwork_id := qit_artwork_id item,
      miu_duration_ms := qit_duration_ms item\<rparr>"

definition try_optimistic_advance :: "PlayerEnv \<Rightarrow> PlayerState \<Rightarrow> PlayerState" where
  "try_optimistic_advance env s =
    (if \<not> pl_companion_owned s \<or> \<not> iap2_bundle_matches_companion env s then s
     else
       case option_filter (\<lambda>t. trim t \<noteq> []) (miu_title (pl_iap2_metadata s)) of
         None \<Rightarrow> s
       | Some title \<Rightarrow>
           let artist = miu_artist (pl_iap2_metadata s) in
           if (case effective_track s of
                 None \<Rightarrow> False
               | Some track \<Rightarrow> norm_eq (trk_name track) title \<and> artists_agree artist (Some (ats_name (trk_artist track))))
           then s
           else
             (case promoted_item title artist s of
                None \<Rightarrow> s
              | Some item \<Rightarrow>
                  s\<lparr>pl_companion_metadata := item_metadata item,
                    pl_companion_playback := (pl_companion_playback s)\<lparr>pbu_playing := None, pbu_position_ms := None\<rparr>,
                    pl_companion_playback_at := None\<rparr>))"

section \<open>What the phone reports\<close>

definition is_idle_sentinel :: "MediaItemUpdate option \<Rightarrow> bool" where
  "is_idle_sentinel media =
    (case media of
       None \<Rightarrow> False
     | Some m \<Rightarrow>
         (case miu_persistent_id m of None \<Rightarrow> False | Some p \<Rightarrow> ends_with_bytes p (lit ''0000000000000000'')) \<and>
         miu_title m = Some [])"

text \<open>Of an idle report only a duration counts; \<open>None\<close>: the update is dropped.\<close>

definition without_idle :: "LibNowPlayingUpdate \<Rightarrow> LibNowPlayingUpdate option" where
  "without_idle update =
    (if is_idle_sentinel (lnu_media_item update) then
       (case option_filter (\<lambda>d. 0 < d) (Option.bind (lnu_media_item update) miu_duration_ms) of
          None \<Rightarrow> None
        | Some d \<Rightarrow> Some \<lparr>lnu_media_item = Some (MediaItemUpdate_default\<lparr>miu_duration_ms := Some d\<rparr>), lnu_playback = None\<rparr>)
     else Some update)"

definition stage_media :: "nat \<Rightarrow> MediaItemUpdate \<Rightarrow> PlayerState \<Rightarrow> PlayerState" where
  "stage_media now media s =
    (let s1 = (if miu_persistent_id media \<noteq> None \<and> miu_persistent_id (pl_iap2_metadata s) \<noteq> miu_persistent_id media
               then s\<lparr>pl_iap2_metadata := MediaItemUpdate_default,
                      pl_iap2_playback := (pl_iap2_playback s)\<lparr>pbu_position_ms := Some 0\<rparr>,
                      pl_iap2_playback_at := Some now\<rparr>
               else s) in
     s1\<lparr>pl_iap2_metadata := accumulate_media (pl_iap2_metadata s1) media\<rparr>)"

definition stage_playback :: "nat \<Rightarrow> PlaybackUpdate \<Rightarrow> PlayerState \<Rightarrow> PlayerState" where
  "stage_playback now play s =
    (let s1 = (if pbu_position_ms play \<noteq> None then s\<lparr>pl_iap2_playback_at := Some now\<rparr> else s) in
     s1\<lparr>pl_iap2_playback := accumulate_playback (pl_iap2_playback s1) play\<rparr>)"

text \<open>While the companion owns the playback, what it has reported itself is not applied again.\<close>

definition apply_iap2 :: "PlayerEnv \<Rightarrow> bool \<Rightarrow> PlayerState \<Rightarrow> PlayerState" where
  "apply_iap2 env edge s =
    (let play = merged_playback env s in
     apply_merged env (merged_metadata env s)
       (if pl_companion_owned s \<and> \<not> edge then companion_fallthrough play s else play) True s)"

definition apply_now_playing :: "PlayerEnv \<Rightarrow> LibNowPlayingUpdate \<Rightarrow> PlayerState \<Rightarrow> PlayerState" where
  "apply_now_playing env update s =
    (case without_idle update of
       None \<Rightarrow> s
     | Some u \<Rightarrow>
         let s1 = (case lnu_media_item u of None \<Rightarrow> s | Some media \<Rightarrow> stage_media (pe_now env) media s);
             s2 = (case lnu_playback u of None \<Rightarrow> s1 | Some play \<Rightarrow> stage_playback (pe_now env) play s1);
             (edge, s3) = note_ownership env s2 in
         apply_iap2 env edge (try_optimistic_advance env s3))"

definition apply_artwork_id :: "PlayerEnv \<Rightarrow> bytes \<Rightarrow> PlayerState \<Rightarrow> PlayerState" where
  "apply_artwork_id env asset_id s =
    (let s1 = s\<lparr>pl_iap2_metadata := (pl_iap2_metadata s)\<lparr>miu_artwork_id := Some asset_id\<rparr>\<rparr>;
         (edge, s2) = note_ownership env s1 in
     apply_iap2 env edge s2)"

section \<open>Replies\<close>

definition queue_items_match :: "QueueItem \<Rightarrow> QueueItem \<Rightarrow> bool" where
  "queue_items_match a b \<longleftrightarrow>
    (qit_uri a \<noteq> [] \<and> qit_uri a = qit_uri b) \<or>
    (qit_persistent_id a \<noteq> None \<and> qit_persistent_id a = qit_persistent_id b)"

definition derive_next :: "QueueItem list \<Rightarrow> QueueItem option \<Rightarrow> QueueItem list" where
  "derive_next upcoming current =
    (case current of
       None \<Rightarrow> upcoming
     | Some cur \<Rightarrow>
         (case find_position (\<lambda>q. queue_items_match q cur) upcoming of
            Some pos \<Rightarrow> drop (pos + 1) upcoming
          | None \<Rightarrow> upcoming))"

definition build_queue_item :: "Track \<Rightarrow> MediaItemUpdate \<Rightarrow> bytes option \<Rightarrow> QueueItem" where
  "build_queue_item track merged art_id =
    \<lparr>qit_uri = trk_id track, qit_title = miu_title merged, qit_artist = miu_artist merged,
     qit_artist_uri = miu_artist_uri merged, qit_album = miu_album merged, qit_album_uri = miu_album_uri merged,
     qit_artwork_id = art_id, qit_duration_ms = miu_duration_ms merged, qit_persistent_id = Some (trk_id track),
     qit_queued = False\<rparr>"

definition build_media_item :: "Track \<Rightarrow> MediaItemUpdate \<Rightarrow> bytes option \<Rightarrow> MediaItem" where
  "build_media_item track merged art_id =
    \<lparr>mit_uri = (if is_synthetic_uri (trk_id track) then None else Some (trk_id track)),
     mit_persistent_id = Some (trk_id track),
     mit_title = miu_title merged,
     mit_album = miu_album merged,
     mit_album_uri = miu_album_uri merged,
     mit_album_artist = miu_album_artist merged,
     mit_artist = miu_artist merged,
     mit_artist_uri = miu_artist_uri merged,
     mit_liked = miu_liked merged,
     mit_artwork_id = art_id,
     mit_duration_ms = miu_duration_ms merged,
     mit_media_types = miu_media_types merged,
     mit_track_number = miu_track_number merged,
     mit_track_count = miu_track_count merged,
     mit_is_like_supported = miu_is_like_supported merged,
     mit_is_ban_supported = miu_is_ban_supported merged,
     mit_is_banned = miu_is_banned merged,
     mit_chapter_count = miu_chapter_count merged\<rparr>"

definition active_app :: "PlayerEnv \<Rightarrow> PlayerState \<Rightarrow> CurrentlyActiveApplication option" where
  "active_app env s =
    (case effective_track s of
       None \<Rightarrow> None
     | Some track \<Rightarrow>
         if \<not> is_synthetic_uri (trk_id track) then None
         else
           let play = merged_playback env s;
               app_bundle = pbu_app_bundle play in
           Some \<lparr>caa_id = (case app_bundle of None \<Rightarrow> [] | Some b \<Rightarrow> b),
                 caa_name = (case option_or (pbu_app_display_name play) app_bundle of
                               None \<Rightarrow> lit ''phone'' | Some name \<Rightarrow> name)\<rparr>)"

definition current_artwork_id :: "PlayerEnv \<Rightarrow> PlayerState \<Rightarrow> bytes option" where
  "current_artwork_id env s =
    (case effective_track s of
       None \<Rightarrow> None
     | Some _ \<Rightarrow> option_filter (\<lambda>a. a \<noteq> []) (miu_artwork_id (merged_metadata env s)))"

definition playback_reply :: "PlayerEnv \<Rightarrow> PlaybackUpdate \<Rightarrow> PlayerState \<Rightarrow> Playback" where
  "playback_reply env play s =
    \<lparr>wpb_state = (if pl_playing s then LibPlaying else LibPaused),
     wpb_position_ms = u32_or_max (current_position_ms (pe_now env) s), wpb_position_age_ms = None,
     wpb_shuffle = pbo_shuffle (pl_options s), wpb_shuffle_mode = pbu_shuffle_mode play,
     wpb_repeat = pbo_repeat (pl_options s), wpb_queue_index = pbu_queue_index play,
     wpb_queue_count = pbu_queue_count play, wpb_queue_chapter_index = pbu_queue_chapter_index play,
     wpb_set_elapsed_time_available = pbu_set_elapsed_time_available play,
     wpb_queue_list_avail = pbu_queue_list_avail play,
     wpb_apple_music_radio_ad = pbu_apple_music_radio_ad play\<rparr>"

definition replies :: "PlayerEnv \<Rightarrow> PlayerState \<Rightarrow> PlayerStateReply \<times> PlayerQueueReply" where
  "replies env s =
    (let merged_meta = merged_metadata env s;
         merged_play = merged_playback env s;
         companion_authoritative = companion_now_playing_authoritative env NowPlayingMetadata s;
         head_art = option_filter (\<lambda>a. a \<noteq> []) (miu_artwork_id merged_meta);
         raw_upcoming = (if companion_authoritative then pl_companion_queue s else []);
         effective = effective_track s;
         context = (if effective \<noteq> None \<and> companion_authoritative then pl_context s else None);
         target = (if effective \<noteq> None \<and> companion_authoritative then pl_target s else None);
         queue_current = map_option (\<lambda>t. build_queue_item t merged_meta head_art) effective;
         next_items = derive_next raw_upcoming queue_current;
         media_item = map_option (\<lambda>t. build_media_item t merged_meta head_art) effective;
         options = \<lparr>plo_speed = (case pbu_playback_speed merged_play of None \<Rightarrow> pl_playback_speed s | Some v \<Rightarrow> v),
                    plo_crossfade_ms = None\<rparr> in
     (\<lparr>psr_state = \<lparr>wps_track = media_item, wps_playback = playback_reply env merged_play s, wps_queue = next_items,
                    wps_options = options, wps_context = context, wps_target = target\<rparr>,
       psr_active_app = active_app env s\<rparr>,
      \<lparr>pqr_current = queue_current, pqr_items = next_items, pqr_previous = pl_recently_played s\<rparr>))"

end
