(* ===== verification/Player_Actor.thy ===== *)
theory Player_Actor
  imports Player_State
begin

text \<open>The player's actor (\<open>crates/core/src/player/mod.rs\<close>): its commands, the snapshot it publishes, when it
  broadcasts to the clients, and the artwork it keeps pinned. Between two commands the clock and the registry of
  authority may change; a turn reads them once. What the broadcasts of a turn return comes with the turn, as
  does an event of the asset cache; whether the cache accepts a change of retention is ignored by the code.\<close>

section \<open>Snapshots\<close>

record PlayerSnapshot =
  psn_state_reply :: PlayerStateReply
  psn_position :: PositionAnchor
  psn_queue_reply :: PlayerQueueReply
  psn_iap2_shuffle :: "bool option"
  psn_iap2_repeat_mode :: "LibRepeatMode option"
  psn_iap2_set_elapsed_time_available :: "bool option"
  psn_iap2_app_bundle :: "bytes option"
  psn_iap2_playing :: "bool option"
  psn_current_artwork_id :: "bytes option"
  psn_root_browse_gen :: u64
  psn_companion_playback_authoritative :: bool

definition snapshot_of :: "PlayerEnv \<Rightarrow> PlayerState \<Rightarrow> PlayerSnapshot" where
  "snapshot_of env s =
    (let (state_reply, queue_reply) = replies env s in
     \<lparr>psn_state_reply = state_reply, psn_position = position_anchor s, psn_queue_reply = queue_reply,
      psn_iap2_shuffle = pbu_shuffle (pl_iap2_playback s),
      psn_iap2_repeat_mode = pbu_repeat (pl_iap2_playback s),
      psn_iap2_set_elapsed_time_available = pbu_set_elapsed_time_available (pl_iap2_playback s),
      psn_iap2_app_bundle = iap2_bundle s,
      psn_iap2_playing = pbu_playing (pl_iap2_playback s),
      psn_current_artwork_id = current_artwork_id env s,
      psn_root_browse_gen = pl_root_browse_gen s,
      psn_companion_playback_authoritative = companion_playback_authoritative env s\<rparr>)"

text \<open>What a handle answers from the snapshot it last saw, at a later time.\<close>

definition handle_position_ms :: "nat \<Rightarrow> PlayerSnapshot \<Rightarrow> u32" where
  "handle_position_ms now snapshot = u32_or_max (position_now_ms now (psn_position snapshot))"

definition handle_state_reply :: "nat \<Rightarrow> PlayerSnapshot \<Rightarrow> PlayerStateReply" where
  "handle_state_reply now snapshot =
    (let reply = psn_state_reply snapshot in
     reply\<lparr>psr_state := (psr_state reply)\<lparr>wps_playback :=
       (wps_playback (psr_state reply))\<lparr>wpb_position_ms := handle_position_ms now snapshot\<rparr>\<rparr>\<rparr>)"

section \<open>Signatures\<close>

record BroadcastSig =
  bsg_state :: PlayerStateReply
  bsg_queue :: PlayerQueueReply

definition BroadcastSig_of :: "PlayerSnapshot \<Rightarrow> BroadcastSig" where
  "BroadcastSig_of snapshot =
    (let reply = psn_state_reply snapshot;
         st = psr_state reply;
         st1 = st\<lparr>wps_playback := (wps_playback st)\<lparr>wpb_position_ms := 0\<rparr>,
                  wps_track := map_option (\<lambda>t. t\<lparr>mit_liked := None\<rparr>) (wps_track st)\<rparr> in
     \<lparr>bsg_state = reply\<lparr>psr_state := st1\<rparr>, bsg_queue = psn_queue_reply snapshot\<rparr>)"

text \<open>The derived equality: speeds are compared as floats.\<close>

definition sig_speed :: "BroadcastSig \<Rightarrow> f32" where
  "sig_speed x = plo_speed (wps_options (psr_state (bsg_state x)))"

definition sig_rest :: "BroadcastSig \<Rightarrow> BroadcastSig" where
  "sig_rest x =
    x\<lparr>bsg_state := (bsg_state x)\<lparr>psr_state := (psr_state (bsg_state x))\<lparr>wps_options :=
      (wps_options (psr_state (bsg_state x)))\<lparr>plo_speed := 0\<rparr>\<rparr>\<rparr>\<rparr>"

definition sig_eq :: "BroadcastSig \<Rightarrow> BroadcastSig \<Rightarrow> bool" where
  "sig_eq x y \<longleftrightarrow> f32_eq (sig_speed x) (sig_speed y) \<and> sig_rest x = sig_rest y"

definition titled :: "MediaItem \<Rightarrow> bool" where
  "titled item \<longleftrightarrow> (case mit_title item of None \<Rightarrow> False | Some t \<Rightarrow> trim t \<noteq> [])"

definition holds_incomplete_transition :: "PlayerSnapshot \<Rightarrow> BroadcastSig option \<Rightarrow> bool" where
  "holds_incomplete_transition snapshot last_sig =
    (case wps_track (psr_state (psn_state_reply snapshot)) of
       None \<Rightarrow> False
     | Some new \<Rightarrow>
         if titled new then False
         else
           (case Option.bind last_sig (\<lambda>s. wps_track (psr_state (bsg_state s))) of
              None \<Rightarrow> False
            | Some prev \<Rightarrow> titled prev \<and> mit_persistent_id new \<noteq> mit_persistent_id prev))"

section \<open>Commands\<close>

datatype PlayerCommand =
    SendState
  | ApplyNowPlaying LibNowPlayingUpdate
  | ApplyArtworkId bytes
  | ApplyCompanionQueue Address QueueSnapshot
  | ApplyCompanionSnapshot Address WirePlayerState
  | ApplyTransportIntent bool
  | ApplySeekIntent u32
  | ResetCompanion Address
  | NoteAuthorityChanged
  | NoteLibraryChanged

fun forces_broadcast :: "PlayerCommand \<Rightarrow> bool" where
  "forces_broadcast SendState = True"
| "forces_broadcast (ApplyTransportIntent _) = True"
| "forces_broadcast (ApplySeekIntent _) = True"
| "forces_broadcast (ResetCompanion _) = True"
| "forces_broadcast _ = False"

datatype ProcessedKind = FullKind | QueueOnly

fun kind_for_command :: "PlayerCommand \<Rightarrow> ProcessedKind" where
  "kind_for_command (ApplyCompanionQueue _ _) = QueueOnly"
| "kind_for_command _ = FullKind"

fun apply_command :: "PlayerEnv \<Rightarrow> PlayerCommand \<Rightarrow> PlayerState \<Rightarrow> PlayerState" where
  "apply_command env SendState s = s"
| "apply_command env (ApplyNowPlaying update) s = apply_now_playing env update s"
| "apply_command env (ApplyArtworkId i) s = apply_artwork_id env i s"
| "apply_command env (ApplyCompanionQueue addr snapshot) s = apply_companion_queue env addr snapshot s"
| "apply_command env (ApplyCompanionSnapshot addr snap) s = apply_companion_snapshot env addr snap s"
| "apply_command env (ApplyTransportIntent playing) s = set_transport_intent (pe_now env) playing s"
| "apply_command env (ApplySeekIntent p) s = set_seek_intent (pe_now env) p s"
| "apply_command env (ResetCompanion addr) s = reset_companion env addr s"
| "apply_command env NoteAuthorityChanged s = note_authority_changed env s"
| "apply_command env NoteLibraryChanged s = note_library_changed s"

definition rolled_off :: "QueueItem option \<Rightarrow> QueueItem option \<Rightarrow> QueueItem option" where
  "rolled_off prev current =
    (case prev of
       None \<Rightarrow> None
     | Some p \<Rightarrow>
         (case qit_persistent_id p of
            None \<Rightarrow> None
          | Some prev_pid \<Rightarrow>
              if (case qit_title p of None \<Rightarrow> True | Some t \<Rightarrow> trim t = []) then None
              else if Option.bind current qit_persistent_id \<noteq> Some prev_pid then Some p else None))"

section \<open>The actor\<close>

datatype PlayerOut =
    Published PlayerSnapshot
  | SnapshotSent PlayerStateReply
  | QueueSent PlayerQueueReply
  | Pinned bytes
  | Unpinned bytes

record PlayerActor =
  pac_state :: PlayerState
  pac_last_sig :: "BroadcastSig option"
  pac_pinned_head :: "bytes option"
  pac_prev_current :: "QueueItem option"
  pac_asset_events :: bool
  pac_out :: "PlayerOut list"

definition PlayerActor_new :: PlayerActor where
  "PlayerActor_new = \<lparr>pac_state = PlayerState_new, pac_last_sig = None, pac_pinned_head = None,
     pac_prev_current = None, pac_asset_events = True, pac_out = []\<rparr>"

datatype PlayerInput =
    Command PlayerCommand
  | AssetReady bytes
  | AssetCleared bytes
  | AssetLagged
  | AssetClosed

text \<open>Broadcasting stops at the first failure; a failed broadcast is only logged.\<close>

fun broadcast_for :: "bool list \<Rightarrow> ProcessedKind \<Rightarrow> PlayerSnapshot \<Rightarrow> PlayerOut list" where
  "broadcast_for results FullKind snapshot =
    (if (case results of [] \<Rightarrow> True | ok # _ \<Rightarrow> ok)
     then SnapshotSent (psn_state_reply snapshot) #
       (if (case results of _ # ok # _ \<Rightarrow> ok | _ \<Rightarrow> True) then [QueueSent (psn_queue_reply snapshot)] else [])
     else [])"
| "broadcast_for results QueueOnly snapshot =
    (if (case results of [] \<Rightarrow> True | ok # _ \<Rightarrow> ok) then [QueueSent (psn_queue_reply snapshot)] else [])"

definition reconcile_head_pin :: "PlayerEnv \<Rightarrow> PlayerActor \<Rightarrow> PlayerActor" where
  "reconcile_head_pin env a =
    (let desired = option_filter (\<lambda>i. is_present i (pac_state a)) (current_artwork_id env (pac_state a)) in
     if desired = pac_pinned_head a then a
     else
       a\<lparr>pac_out := pac_out a @ (case pac_pinned_head a of None \<Rightarrow> [] | Some old \<Rightarrow> [Unpinned old]) @
                     (case desired of None \<Rightarrow> [] | Some new \<Rightarrow> [Pinned new]),
         pac_pinned_head := desired\<rparr>)"

text \<open>What follows every handled input: publish, broadcast when it matters, keep the right artwork pinned.\<close>

definition finish_turn :: "PlayerEnv \<Rightarrow> bool list \<Rightarrow> ProcessedKind \<Rightarrow> bool \<Rightarrow> PlayerActor \<Rightarrow> PlayerActor" where
  "finish_turn env results kind force a =
    (let first = snapshot_of env (pac_state a);
         state = (case rolled_off (pac_prev_current a) (pqr_current (psn_queue_reply first)) of
                    None \<Rightarrow> pac_state a
                  | Some outgoing \<Rightarrow> note_rolled_off outgoing (pac_state a));
         snapshot = snapshot_of env state;
         sig = BroadcastSig_of snapshot;
         send = (\<not> holds_incomplete_transition snapshot (pac_last_sig a) \<and>
           (force \<or> (case pac_last_sig a of None \<Rightarrow> True | Some l \<Rightarrow> \<not> sig_eq l sig))) in
     reconcile_head_pin env
       (a\<lparr>pac_state := state, pac_prev_current := pqr_current (psn_queue_reply snapshot),
          pac_last_sig := (if send then Some sig else pac_last_sig a),
          pac_out := pac_out a @ [Published snapshot] @ (if send then broadcast_for results kind snapshot else [])\<rparr>))"

fun player_turn :: "PlayerEnv \<Rightarrow> bool list \<Rightarrow> PlayerInput \<Rightarrow> PlayerActor \<Rightarrow> PlayerActor" where
  "player_turn env results (Command cmd) a =
    (let s1 = apply_command env cmd (pac_state a) in
     if forces_broadcast cmd then finish_turn env results (kind_for_command cmd) True (a\<lparr>pac_state := s1\<rparr>)
     else
       let (resync, s2) = take_position_resync s1 in
       finish_turn env results (kind_for_command cmd) resync (a\<lparr>pac_state := s2\<rparr>))"
| "player_turn env results (AssetReady i) a =
    (if pac_asset_events a
     then finish_turn env results FullKind False (a\<lparr>pac_state := note_asset_ready i (pac_state a)\<rparr>) else a)"
| "player_turn env results (AssetCleared i) a =
    (if pac_asset_events a
     then finish_turn env results FullKind False (a\<lparr>pac_state := note_asset_cleared i (pac_state a)\<rparr>) else a)"
| "player_turn env results AssetLagged a =
    (if pac_asset_events a then finish_turn env results FullKind False a else a)"
| "player_turn env results AssetClosed a = a\<lparr>pac_asset_events := False\<rparr>"

type_synonym player_event = "PlayerEnv \<times> bool list \<times> PlayerInput"

fun player_run :: "player_event list \<Rightarrow> PlayerActor \<Rightarrow> PlayerActor" where
  "player_run [] a = a"
| "player_run ((env, results, i) # events) a = player_run events (player_turn env results i a)"

end
