(* ===== verification/Player_Events.thy ===== *)
theory Player_Events
  imports Player_Actor Session_Base
begin

text \<open>How the events of an iAP2 session reach the player (\<open>crates/core/src/handler/iap2.rs\<close>): the track a phone
  is on is followed per address, updates are translated, and artwork is filed under the track whose update
  announced its transfer. The events for other services (peers, telephony, time, the accessory streams) do
  nothing here; the standard hasher and the division that makes a speed a float are parameters. A hash map
  is an association list; the asset cache may refuse an insertion.\<close>

section \<open>Data\<close>

definition IDLE_PID_HEX :: bytes where "IDLE_PID_HEX = lit ''0000000000000000''"
definition NONMUSIC_PREFIX :: bytes where "NONMUSIC_PREFIX = lit ''nonmusic-''"

record NowPlayingCheckpoint =
  npc_track_pid_hex :: "bytes option"
  npc_track_title :: "bytes option"
  npc_app_bundle :: "bytes option"

definition NowPlayingCheckpoint_default :: NowPlayingCheckpoint where
  "NowPlayingCheckpoint_default = \<lparr>npc_track_pid_hex = None, npc_track_title = None, npc_app_bundle = None\<rparr>"

record PendingArtEntry =
  pae_transfer_id :: u8
  pae_track_key :: bytes

record RouterEnv =
  ren_hash_bytes :: "bytes \<Rightarrow> u64"
  ren_hash_strs :: "bytes list \<Rightarrow> u64"
  ren_hundredths :: "u16 \<Rightarrow> f32"

record Router =
  rou_pending_art :: "(Address \<times> PendingArtEntry) list"
  rou_checkpoint :: "(Address \<times> NowPlayingCheckpoint) list"
  rou_assets :: "bytes list"
  rou_commands :: "PlayerCommand list"

definition Router_new :: Router where
  "Router_new = \<lparr>rou_pending_art = [], rou_checkpoint = [], rou_assets = [], rou_commands = []\<rparr>"

section \<open>Pending artwork\<close>

definition pending_mark :: "Address \<Rightarrow> u8 \<Rightarrow> bytes \<Rightarrow> Router \<Rightarrow> Router" where
  "pending_mark addr transfer_id key r =
    r\<lparr>rou_pending_art :=
      AList.update addr \<lparr>pae_transfer_id = transfer_id, pae_track_key = key\<rparr> (rou_pending_art r)\<rparr>"

definition take_if_matches :: "Address \<Rightarrow> u8 \<Rightarrow> Router \<Rightarrow> bytes option \<times> Router" where
  "take_if_matches addr transfer_id r =
    (case map_of (rou_pending_art r) addr of
       Some entry \<Rightarrow>
         if pae_transfer_id entry = transfer_id
         then (Some (pae_track_key entry), r\<lparr>rou_pending_art := AList.delete addr (rou_pending_art r)\<rparr>) else (None, r)
     | None \<Rightarrow> (None, r))"

definition pending_clear :: "Address \<Rightarrow> Router \<Rightarrow> Router" where
  "pending_clear addr r = r\<lparr>rou_pending_art := AList.delete addr (rou_pending_art r)\<rparr>"

definition iap2_art_prefix_of :: "bytes \<Rightarrow> bytes option" where
  "iap2_art_prefix_of asset_id =
    Option.bind (strip_prefix (lit ''iap2/art/'') asset_id) (\<lambda>rest. map_option fst (rsplit_once 0x2F rest))"

definition pending_has :: "bytes \<Rightarrow> Router \<Rightarrow> bool" where
  "pending_has asset_id r \<longleftrightarrow>
    (\<exists>(_, e) \<in> set (rou_pending_art r). iap2_art_prefix_of asset_id = Some (pae_track_key e))"

definition iap2_art_asset_id :: "RouterEnv \<Rightarrow> bytes \<Rightarrow> bytes \<Rightarrow> bytes" where
  "iap2_art_asset_id ren key content = lit ''iap2/art/'' @ key @ [0x2F] @ hex16 (ren_hash_bytes ren content)"

section \<open>Which track\<close>

datatype TrackDelta =
    Unchanged
  | Idle
  | Same "bytes option"
  | Change bytes "bytes option"

definition is_ascii_hexdigit :: "u8 \<Rightarrow> bool" where
  "is_ascii_hexdigit b \<longleftrightarrow> (0x30 \<le> b \<and> b \<le> 0x39) \<or> (0x41 \<le> b \<and> b \<le> 0x46) \<or> (0x61 \<le> b \<and> b \<le> 0x66)"

definition is_real_pid_key :: "bytes \<Rightarrow> bool" where
  "is_real_pid_key key \<longleftrightarrow> length key = 16 \<and> key \<noteq> IDLE_PID_HEX \<and> list_all is_ascii_hexdigit key"

definition nonmusic_key :: "RouterEnv \<Rightarrow> bytes \<Rightarrow> bytes option \<Rightarrow> bytes" where
  "nonmusic_key ren title artist =
    NONMUSIC_PREFIX @ hex16 (ren_hash_strs ren (title # (case artist of None \<Rightarrow> [] | Some a \<Rightarrow> [a])))"

definition track_delta :: "RouterEnv \<Rightarrow> MediaItemAttributes option \<Rightarrow> NowPlayingCheckpoint \<Rightarrow> TrackDelta" where
  "track_delta ren media current =
    (case media of
       None \<Rightarrow> Unchanged
     | Some m \<Rightarrow>
         let title = option_filter (\<lambda>t. t \<noteq> []) (mi_title m);
             pid = mi_persistent_id m in
         if (case pid of None \<Rightarrow> False | Some p \<Rightarrow> p \<noteq> 0) then
           let key = hex16 (the pid) in
           if npc_track_pid_hex current = Some key then Same title else Change key title
         else
           (case title of
              Some t \<Rightarrow>
                if npc_track_title current = Some t then Same None
                else if pid = None \<and> (case npc_track_pid_hex current of None \<Rightarrow> False | Some k \<Rightarrow> is_real_pid_key k) \<and>
                        npc_track_title current = None
                then Same (Some t)
                else Change (nonmusic_key ren t (mi_artist m)) (Some t)
            | None \<Rightarrow> if pid = Some 0 then Idle else Unchanged))"

section \<open>Translation\<close>

fun translate_repeat :: "RepeatMode \<Rightarrow> LibRepeatMode" where
  "translate_repeat RepeatOff = LibRepeatOff"
| "translate_repeat RepeatTrack = LibRepeatOne"
| "translate_repeat RepeatAll = LibRepeatAll"

fun translate_shuffle :: "ShuffleMode \<Rightarrow> LibShuffleMode" where
  "translate_shuffle ShuffleOff = LibShuffleOff"
| "translate_shuffle ShuffleSongs = LibShuffleSongs"
| "translate_shuffle ShuffleAlbums = LibShuffleAlbums"

definition translate_media_types :: "MediaTypeKind list \<Rightarrow> LibMediaType list" where
  "translate_media_types types =
    map (\<lambda>t. case t of Music \<Rightarrow> LibMusic | Podcast \<Rightarrow> LibPodcast | AudioBook \<Rightarrow> LibAudioBook) types"

definition track_uri :: "bytes \<Rightarrow> bytes" where
  "track_uri key = lit ''iap2:track:'' @ key"

definition translate_media_item :: "bytes option \<Rightarrow> MediaItemAttributes \<Rightarrow> MediaItemUpdate" where
  "translate_media_item track_key media =
    \<lparr>miu_persistent_id = map_option track_uri track_key,
     miu_title = mi_title media,
     miu_album = mi_album media,
     miu_album_uri = None,
     miu_album_artist = mi_album_artist media,
     miu_artist = mi_artist media,
     miu_artist_uri = None,
     miu_liked = mi_liked media,
     miu_artwork_id = None,
     miu_duration_ms = mi_duration_ms media,
     miu_media_types = map_option translate_media_types (mi_media_types media),
     miu_track_number = mi_track_number media,
     miu_track_count = mi_track_count media,
     miu_is_like_supported = mi_like_supported media,
     miu_is_ban_supported = mi_ban_supported media,
     miu_is_banned = mi_banned media,
     miu_is_resident_on_device = mi_resident_on_device media,
     miu_chapter_count = mi_chapter_count media\<rparr>"

definition translate_playback :: "RouterEnv \<Rightarrow> PlaybackAttributes \<Rightarrow> PlaybackUpdate" where
  "translate_playback ren play =
    \<lparr>pbu_playing = map_option (\<lambda>s. s = Playing) (pb_state play),
     pbu_position_ms = pb_position_ms play,
     pbu_shuffle = map_option ShuffleMode_is_on (pb_shuffle_mode play),
     pbu_shuffle_mode = map_option translate_shuffle (pb_shuffle_mode play),
     pbu_repeat = map_option translate_repeat (pb_repeat play),
     pbu_app_bundle = pb_app_bundle play,
     pbu_app_display_name = pb_app_display_name play,
     pbu_queue_index = pb_queue_index play,
     pbu_queue_count = pb_queue_count play,
     pbu_queue_chapter_index = pb_queue_chapter_index play,
     pbu_playback_speed = map_option (ren_hundredths ren) (pb_playback_speed_hundredths play),
     pbu_set_elapsed_time_available = pb_set_elapsed_time_available play,
     pbu_queue_list_avail = None,
     pbu_apple_music_radio_ad = pb_apple_music_radio_ad play,
     pbu_apple_music_radio_station_name = pb_apple_music_radio_station_name play\<rparr>"

definition translate_now_playing :: "RouterEnv \<Rightarrow> bytes option \<Rightarrow> NowPlayingUpdate \<Rightarrow> LibNowPlayingUpdate" where
  "translate_now_playing ren track_key update =
    \<lparr>lnu_media_item = map_option (translate_media_item track_key) (npu_media_item update),
     lnu_playback = map_option (translate_playback ren) (npu_playback update)\<rparr>"

section \<open>The router\<close>

text \<open>Another app in the foreground forgets the track of the one before.\<close>

definition note_app_bundle :: "NowPlayingUpdate \<Rightarrow> NowPlayingCheckpoint \<Rightarrow> NowPlayingCheckpoint" where
  "note_app_bundle update entry =
    (case option_filter (\<lambda>b. b \<noteq> []) (Option.bind (npu_playback update) pb_app_bundle) of
       None \<Rightarrow> entry
     | Some app \<Rightarrow>
         (if (case npc_app_bundle entry of None \<Rightarrow> False | Some held \<Rightarrow> held \<noteq> app)
          then entry\<lparr>npc_track_pid_hex := None, npc_track_title := None\<rparr> else entry)\<lparr>npc_app_bundle := Some app\<rparr>)"

text \<open>The key the update goes under, the checkpoint after it, and whether the track has changed.\<close>

definition follow_track :: "RouterEnv \<Rightarrow> NowPlayingUpdate \<Rightarrow> NowPlayingCheckpoint \<Rightarrow> bytes option \<times> NowPlayingCheckpoint \<times> bool" where
  "follow_track ren update entry =
    (case track_delta ren (npu_media_item update) entry of
       Unchanged \<Rightarrow> (npc_track_pid_hex entry, entry, False)
     | Idle \<Rightarrow> (Some IDLE_PID_HEX, entry, False)
     | Same title \<Rightarrow>
         (npc_track_pid_hex entry, if title \<noteq> None then entry\<lparr>npc_track_title := title\<rparr> else entry, False)
     | Change key title \<Rightarrow>
         (Some key, entry\<lparr>npc_track_pid_hex := Some key, npc_track_title := title\<rparr>, True))"

definition route_now_playing :: "RouterEnv \<Rightarrow> Address \<Rightarrow> NowPlayingUpdate \<Rightarrow> Router \<Rightarrow> Router" where
  "route_now_playing ren addr update r =
    (let entry = note_app_bundle update
           (case map_of (rou_checkpoint r) addr of None \<Rightarrow> NowPlayingCheckpoint_default | Some c \<Rightarrow> c);
         (pid_hex, entry1, changed) = follow_track ren update entry;
         r1 = r\<lparr>rou_checkpoint := AList.update addr entry1 (rou_checkpoint r)\<rparr>;
         r2 = (if changed then pending_clear addr r1 else r1);
         r3 = (case pid_hex of
                 None \<Rightarrow> r2
               | Some key \<Rightarrow>
                   if key \<noteq> IDLE_PID_HEX then
                     (case Option.bind (npu_media_item update) mi_artwork_id of
                        None \<Rightarrow> r2 | Some transfer_id \<Rightarrow> pending_mark addr transfer_id key r2)
                   else r2) in
     r3\<lparr>rou_commands := rou_commands r3 @ [ApplyNowPlaying (translate_now_playing ren pid_hex update)]\<rparr>)"

definition route_artwork :: "RouterEnv \<Rightarrow> bool \<Rightarrow> Address \<Rightarrow> u8 \<Rightarrow> bytes \<Rightarrow> Router \<Rightarrow> Router" where
  "route_artwork ren cache_ok addr transfer_id content r =
    (if content = [] then r
     else
       case take_if_matches addr transfer_id r of
         (None, r1) \<Rightarrow> r1
       | (Some key, r1) \<Rightarrow>
           let asset_id = iap2_art_asset_id ren key content in
           if \<not> cache_ok then r1
           else r1\<lparr>rou_assets := rou_assets r1 @ [asset_id],
                   rou_commands := rou_commands r1 @ [ApplyArtworkId asset_id]\<rparr>)"

definition forget_session :: "Address \<Rightarrow> Router \<Rightarrow> Router" where
  "forget_session addr r = pending_clear addr (r\<lparr>rou_checkpoint := AList.delete addr (rou_checkpoint r)\<rparr>)"

fun route :: "RouterEnv \<Rightarrow> bool \<Rightarrow> Address \<Rightarrow> SessionEvent \<Rightarrow> Router \<Rightarrow> Router" where
  "route ren cache_ok addr (NowPlaying update) r = route_now_playing ren addr update r"
| "route ren cache_ok addr (ArtworkBytes transfer_id content) r = route_artwork ren cache_ok addr transfer_id content r"
| "route ren cache_ok addr (LinkRestarted _) r = forget_session addr r"
| "route ren cache_ok addr (SessionDown _) r = forget_session addr r"
| "route ren cache_ok addr _ r = r"

fun route_all :: "RouterEnv \<Rightarrow> (bool \<times> Address \<times> SessionEvent) list \<Rightarrow> Router \<Rightarrow> Router" where
  "route_all ren [] r = r"
| "route_all ren ((cache_ok, addr, event) # events) r = route_all ren events (route ren cache_ok addr event r)"

end
