(* ===== verification/Player_Facts.thy ===== *)
theory Player_Facts
  imports Player_Events
begin

text \<open>What the operations of the player leave alone: applying what was merged never touches what is staged,
  and what is staged changes only by its own source. The playhead between reports.\<close>

section \<open>What is staged\<close>

record Staged =
  sg_iap2_metadata :: MediaItemUpdate
  sg_iap2_playback :: PlaybackUpdate
  sg_iap2_at :: "nat option"
  sg_companion_metadata :: MediaItemUpdate
  sg_companion_playback :: PlaybackUpdate
  sg_companion_at :: "nat option"
  sg_source :: "Address option"
  sg_queue :: "QueueItem list"
  sg_context :: "PlaybackContext option"
  sg_target :: "PlaybackTarget option"
  sg_owned :: bool
  sg_recents :: "QueueItem list"
  sg_gen :: u64
  sg_present :: "bytes list"
  sg_speed :: f32

definition staged :: "PlayerState \<Rightarrow> Staged" where
  "staged s = \<lparr>sg_iap2_metadata = pl_iap2_metadata s, sg_iap2_playback = pl_iap2_playback s,
     sg_iap2_at = pl_iap2_playback_at s, sg_companion_metadata = pl_companion_metadata s,
     sg_companion_playback = pl_companion_playback s, sg_companion_at = pl_companion_playback_at s,
     sg_source = pl_companion_source s, sg_queue = pl_companion_queue s, sg_context = pl_context s,
     sg_target = pl_target s, sg_owned = pl_companion_owned s, sg_recents = pl_recently_played s,
     sg_gen = pl_root_browse_gen s, sg_present = pl_present_ids s, sg_speed = pl_playback_speed s\<rparr>"

text \<open>The playhead and what the user wants of it.\<close>

record Playhead =
  ph_playing :: bool
  ph_anchor :: "nat option"
  ph_position :: nat
  ph_transport :: "TransportIntent option"
  ph_seek :: "SeekIntent option"

definition playhead :: "PlayerState \<Rightarrow> Playhead" where
  "playhead s = \<lparr>ph_playing = pl_playing s, ph_anchor = pl_position_anchor s, ph_position = pl_position_ms s,
     ph_transport = pl_transport_intent s, ph_seek = pl_seek_intent s\<rparr>"

lemma staged_apply_track [simp]: "staged (snd (apply_track env media s)) = staged s"
  by (simp add: apply_track_def Let_def staged_def)

lemma playhead_apply_track [simp]: "playhead (snd (apply_track env media s)) = playhead s"
  by (simp add: apply_track_def Let_def playhead_def)

lemma staged_apply_playing [simp]: "staged (snd (apply_playing now reported s)) = staged s"
  by (simp add: apply_playing_def Let_def staged_def split: option.split)

lemma staged_apply_position [simp]: "staged (apply_position now same_track reported s) = staged s"
  by (simp add: apply_position_def Let_def staged_def)

lemma staged_apply_options [simp]: "staged (apply_options playback s) = staged s"
  by (simp add: apply_options_def Let_def staged_def split: option.split)

lemma playhead_apply_options [simp]: "playhead (apply_options playback s) = playhead s"
  by (simp add: apply_options_def Let_def playhead_def split: option.split)

lemma staged_apply_merged [simp]: "staged (apply_merged env media playback apply_time s) = staged s"
  by (simp add: apply_merged_def Let_def case_prod_beta split: option.split)

text \<open>Without a play state and a position of its own, an update leaves the playhead where it is.\<close>

lemma playhead_apply_merged:
  assumes "pbu_playing playback = None" "pbu_position_ms playback = None"
  shows "playhead (apply_merged env media playback apply_time s) = playhead s"
  using assms by (simp add: apply_merged_def apply_playing_def Let_def case_prod_beta)

lemma track_apply_merged:
  "pl_track (apply_merged env media playback apply_time s) = pl_track (snd (apply_track env media s))"
  by (auto simp: apply_merged_def apply_playing_def apply_position_def apply_options_def Let_def case_prod_beta
      split: option.split)

lemma note_ownership_staged:
  "staged (snd (note_ownership env s)) = (staged s)\<lparr>sg_owned := companion_playback_authoritative env s\<rparr>"
  "playhead (snd (note_ownership env s)) = playhead s"
  "fst (note_ownership env s) \<longleftrightarrow> companion_playback_authoritative env s \<noteq> pl_companion_owned s"
  by (auto simp: note_ownership_def Let_def staged_def playhead_def)

lemma staged_eqD:
  assumes "staged s = staged s'"
  shows "pl_iap2_metadata s = pl_iap2_metadata s'" "pl_iap2_playback s = pl_iap2_playback s'"
    "pl_iap2_playback_at s = pl_iap2_playback_at s'"
    "pl_companion_metadata s = pl_companion_metadata s'" "pl_companion_playback s = pl_companion_playback s'"
    "pl_companion_playback_at s = pl_companion_playback_at s'"
    "pl_companion_source s = pl_companion_source s'" "pl_companion_queue s = pl_companion_queue s'"
    "pl_context s = pl_context s'" "pl_target s = pl_target s'" "pl_companion_owned s = pl_companion_owned s'"
    "pl_recently_played s = pl_recently_played s'" "pl_root_browse_gen s = pl_root_browse_gen s'"
    "pl_present_ids s = pl_present_ids s'" "pl_playback_speed s = pl_playback_speed s'"
  using assms by (simp_all add: staged_def)

lemma playhead_eqD:
  assumes "playhead s = playhead s'"
  shows "pl_playing s = pl_playing s'" "pl_position_anchor s = pl_position_anchor s'"
    "pl_position_ms s = pl_position_ms s'" "pl_transport_intent s = pl_transport_intent s'"
    "pl_seek_intent s = pl_seek_intent s'"
  using assms by (simp_all add: playhead_def)

text \<open>Who has authority, and what is merged, is decided by what is staged.\<close>

lemma merged_cong:
  assumes "pl_iap2_metadata s = pl_iap2_metadata s'" "pl_iap2_playback s = pl_iap2_playback s'"
    "pl_iap2_playback_at s = pl_iap2_playback_at s'" "pl_companion_metadata s = pl_companion_metadata s'"
    "pl_companion_playback s = pl_companion_playback s'" "pl_companion_playback_at s = pl_companion_playback_at s'"
  shows "companion_now_playing_authoritative env scope s = companion_now_playing_authoritative env scope s'"
    "merged_metadata env s = merged_metadata env s'" "merged_playback env s = merged_playback env s'"
  unfolding merged_metadata_def merged_playback_def companion_now_playing_authoritative_def
    iap2_foreground_is_other_app_def iap2_bundle_def iap2_describes_the_companion_item_def assms
  by (rule refl)+

lemmas merged_staged = merged_cong [OF staged_eqD(1-6)]

section \<open>Staging by commands\<close>

text \<open>The phone's metadata after a command.\<close>

definition media_after :: "MediaItemUpdate \<Rightarrow> MediaItemUpdate \<Rightarrow> MediaItemUpdate" where
  "media_after media m =
    accumulate_media (if miu_persistent_id media \<noteq> None \<and> miu_persistent_id m \<noteq> miu_persistent_id media
                      then MediaItemUpdate_default else m) media"

definition phone_after :: "PlayerCommand \<Rightarrow> MediaItemUpdate \<Rightarrow> MediaItemUpdate" where
  "phone_after cmd m =
    (case cmd of
       ApplyNowPlaying update \<Rightarrow>
         (case without_idle update of
            None \<Rightarrow> m
          | Some u \<Rightarrow> (case lnu_media_item u of None \<Rightarrow> m | Some media \<Rightarrow> media_after media m))
     | ApplyArtworkId i \<Rightarrow> m\<lparr>miu_artwork_id := Some i\<rparr>
     | _ \<Rightarrow> m)"

lemma phone_stage [simp]:
  "pl_iap2_metadata (stage_media now media s) = media_after media (pl_iap2_metadata s)"
  "pl_iap2_metadata (stage_playback now play s) = pl_iap2_metadata s"
  by (simp_all add: stage_media_def stage_playback_def media_after_def Let_def)

lemma phone_apply_merged [simp]:
  "pl_iap2_metadata (apply_merged env media playback t s) = pl_iap2_metadata s"
  by (rule staged_eqD(1)) simp

lemma phone_note_ownership [simp]: "pl_iap2_metadata (snd (note_ownership env s)) = pl_iap2_metadata s"
  by (simp add: note_ownership_def Let_def)

lemma phone_advance [simp]: "pl_iap2_metadata (try_optimistic_advance env s) = pl_iap2_metadata s"
  by (simp add: try_optimistic_advance_def Let_def split: option.split)

lemma phone_apply_command: "pl_iap2_metadata (apply_command env cmd s) = phone_after cmd (pl_iap2_metadata s)"
proof (cases cmd)
  case (ApplyNowPlaying update)
  then show ?thesis
    by (auto simp: phone_after_def apply_now_playing_def apply_iap2_def Let_def case_prod_beta split: option.split)
next
  case (ApplyArtworkId i)
  then show ?thesis
    by (simp add: phone_after_def apply_artwork_id_def apply_iap2_def Let_def case_prod_beta)
qed (simp_all add: phone_after_def apply_companion_queue_def apply_companion_snapshot_def stage_companion_snapshot_def
    set_transport_intent_def set_seek_intent_def reset_companion_def note_authority_changed_def note_library_changed_def
    apply_staged_def Let_def case_prod_beta)

lemma phone_finish_turn [simp]:
  "pl_iap2_metadata (pac_state (finish_turn env results kind force a)) = pl_iap2_metadata (pac_state a)"
  by (simp add: finish_turn_def reconcile_head_pin_def note_rolled_off_def Let_def split: option.split)

fun is_phone_command :: "PlayerCommand \<Rightarrow> bool" where
  "is_phone_command (ApplyNowPlaying _) = True"
| "is_phone_command (ApplyArtworkId _) = True"
| "is_phone_command _ = False"

text \<open>The commands in a run of the actor.\<close>

fun commands_of :: "player_event list \<Rightarrow> PlayerCommand list" where
  "commands_of [] = []"
| "commands_of ((_, _, Command cmd) # events) = cmd # commands_of events"
| "commands_of (_ # events) = commands_of events"

lemma phone_player_run:
  "pl_iap2_metadata (pac_state (player_run events a)) = fold phone_after (commands_of events) (pl_iap2_metadata (pac_state a))"
proof (induction events arbitrary: a rule: commands_of.induct)
  case (2 env results cmd events)
  show ?case
    by (simp add: 2 phone_apply_command take_position_resync_def case_prod_beta Let_def)
qed (simp_all add: note_asset_ready_def note_asset_cleared_def)

end
