(* ===== verification/Player_Artwork.thy ===== *)
theory Player_Artwork
  imports Player_Facts
begin

text \<open>Artwork over the whole way from the session's events to the player: whatever else happens in between, the
  artwork held for what the phone plays is that of the very track its transfer was announced with.\<close>

declare map_of_eq_Some_iff [simp del]

section \<open>Keys\<close>






lemma track_uri_inj [simp]: "track_uri a = track_uri b \<longleftrightarrow> a = b"
  by (simp add: track_uri_def)

section \<open>What the router maintains\<close>

text \<open>The phone's metadata belongs to a track: its identity is that key's, or an idle one.\<close>

definition on_track :: "bytes \<Rightarrow> MediaItemUpdate \<Rightarrow> bool" where
  "on_track key m \<longleftrightarrow>
    miu_persistent_id m = Some (track_uri key) \<or> miu_persistent_id m = Some (track_uri IDLE_PID_HEX)"





lemma option_or_same [simp]: "option_or x x = x"
  by (cases x) simp_all



lemma on_track_same: "miu_persistent_id m' = miu_persistent_id m \<Longrightarrow> on_track key m' = on_track key m"
  by (simp add: on_track_def)

















section \<open>The transfer behind an artwork\<close>

text \<open>The events of one phone, each with whether the asset cache takes what is inserted.\<close>

definition from_phone :: "Address \<Rightarrow> (bool \<times> SessionEvent) list \<Rightarrow> (bool \<times> Address \<times> SessionEvent) list" where
  "from_phone addr events = map (\<lambda>(cache_ok, event). (cache_ok, addr, event)) events"





lemma from_phone_simps [simp]:
  "from_phone addr [] = []" "from_phone addr ((c, e) # events) = (c, addr, e) # from_phone addr events"
  "from_phone addr (es @ fs) = from_phone addr es @ from_phone addr fs"
  by (simp_all add: from_phone_def)

lemma route_all_append [simp]: "route_all ren (es @ fs) r = route_all ren fs (route_all ren es r)"
  by (induction ren es r rule: route_all.induct) simp_all




















end
