(* ===== verification/Player_Playhead.thy ===== *)
theory Player_Playhead
  imports Player_Facts
begin

text \<open>The playhead: what moves it and what does not.\<close>

section \<open>Well-formed states\<close>

definition player_wf :: "PlayerState \<Rightarrow> bool" where
  "player_wf s \<longleftrightarrow>
    length (pl_recently_played s) \<le> RECENTLY_PLAYED_CAP \<and>
    list_all (\<lambda>q. \<not> is_synthetic_uri (qit_uri q)) (pl_recently_played s) \<and>
    successively (\<lambda>p q. qit_uri p \<noteq> qit_uri q) (pl_recently_played s) \<and>
    distinct (pl_present_ids s) \<and>
    pl_position_ms s \<le> USIZE_MAX \<and>
    pred_option (\<lambda>i. tin_mismatches i \<le> 1) (pl_transport_intent s)"

lemma player_wf_cong:
  assumes "staged s = staged s'" "playhead s = playhead s'"
  shows "player_wf s = player_wf s'"
  using staged_eqD [OF assms(1)] playhead_eqD [OF assms(2)] by (simp add: player_wf_def)

lemma wf_staged: "staged s' = staged s \<Longrightarrow> player_wf s \<Longrightarrow> pl_position_ms s' \<le> USIZE_MAX \<Longrightarrow>
    pred_option (\<lambda>i. tin_mismatches i \<le> 1) (pl_transport_intent s') \<Longrightarrow> player_wf s'"
  by (frule staged_eqD(12), drule staged_eqD(14)) (simp add: player_wf_def)

lemma unat32_USIZE: "unat (x :: u32) \<le> USIZE_MAX"
  by (rule order.trans [OF less_imp_le [OF unat32_less]]) (simp add: USIZE_MAX_def)

lemma sat_add_USIZE [simp]: "sat_add a b \<le> USIZE_MAX"
  by (simp add: sat_add_def)

lemma wf_apply_playing:
  assumes "player_wf s"
  shows "player_wf (snd (apply_playing now reported s))"
proof (rule wf_staged [OF _ assms])
  show "staged (snd (apply_playing now reported s)) = staged s" by simp
  show "pl_position_ms (snd (apply_playing now reported s)) \<le> USIZE_MAX"
    "pred_option (\<lambda>i. tin_mismatches i \<le> 1) (pl_transport_intent (snd (apply_playing now reported s)))"
    using assms by (auto simp: apply_playing_def player_wf_def Let_def split: option.split)
qed

lemma wf_apply_position:
  assumes "player_wf s"
  shows "player_wf (apply_position now same_track reported s)"
proof (rule wf_staged [OF _ assms])
  show "staged (apply_position now same_track reported s) = staged s" by simp
  show "pl_position_ms (apply_position now same_track reported s) \<le> USIZE_MAX"
    "pred_option (\<lambda>i. tin_mismatches i \<le> 1) (pl_transport_intent (apply_position now same_track reported s))"
    using assms by (auto simp: apply_position_def player_wf_def Let_def unat32_USIZE)
qed

lemma wf_apply_merged: "player_wf s \<Longrightarrow> player_wf (apply_merged env media playback t s)"
proof -
  assume wf: "player_wf s"
  have "player_wf (snd (apply_track env media s))"
    using wf player_wf_cong [OF staged_apply_track playhead_apply_track] by blast
  moreover have "player_wf (apply_options playback s') = player_wf s'" for s'
    by (rule player_wf_cong) simp_all
  ultimately show ?thesis
    by (auto simp: apply_merged_def Let_def case_prod_beta wf_apply_playing wf_apply_position split: option.split)
qed

lemma wf_note_ownership: "player_wf s \<Longrightarrow> player_wf (snd (note_ownership env s))"
  by (simp add: note_ownership_def player_wf_def Let_def)

lemma wf_advance: "player_wf s \<Longrightarrow> player_wf (try_optimistic_advance env s)"
  by (simp add: try_optimistic_advance_def player_wf_def Let_def split: option.split)

lemma wf_apply_iap2: "player_wf s \<Longrightarrow> player_wf (apply_iap2 env edge s)"
  by (simp add: apply_iap2_def Let_def wf_apply_merged)

lemma wf_apply_command:
  assumes "player_wf s"
  shows "player_wf (apply_command env cmd s)"
proof (cases cmd)
  case (ApplyNowPlaying update)
  have "player_wf (stage_media now media s')" "player_wf (stage_playback now play s')" if "player_wf s'" for now media play s'
    using that by (simp_all add: stage_media_def stage_playback_def player_wf_def Let_def)
  then show ?thesis using assms
    by (simp add: ApplyNowPlaying apply_now_playing_def Let_def case_prod_beta wf_apply_iap2 wf_advance wf_note_ownership
        split: option.split)
next
  case (ApplyArtworkId i)
  have "player_wf (s\<lparr>pl_iap2_metadata := m\<rparr>)" for m using assms by (simp add: player_wf_def)
  then show ?thesis by (simp add: ApplyArtworkId apply_artwork_id_def Let_def case_prod_beta wf_apply_iap2 wf_note_ownership)
next
  case (ApplyCompanionSnapshot addr snap)
  have "player_wf (stage_companion_snapshot now addr snap s)" for now
    using assms by (simp add: stage_companion_snapshot_def player_wf_def Let_def)
  then show ?thesis using assms
    by (simp add: ApplyCompanionSnapshot apply_companion_snapshot_def apply_staged_def Let_def case_prod_beta
        wf_apply_merged wf_note_ownership)
next
  case (ResetCompanion addr)
  have "player_wf (s\<lparr>pl_companion_source := None, pl_recently_played := [], pl_root_browse_gen := g,
      pl_companion_metadata := m, pl_companion_playback := p, pl_companion_playback_at := None,
      pl_context := None, pl_target := None\<rparr>)" for g m p
    using assms by (simp add: player_wf_def)
  then show ?thesis using assms
    by (simp add: ResetCompanion reset_companion_def apply_staged_def Let_def case_prod_beta wf_apply_merged wf_note_ownership)
next
  case NoteAuthorityChanged
  then show ?thesis using assms
    by (simp add: note_authority_changed_def apply_staged_def case_prod_beta wf_apply_merged wf_note_ownership)
next
  case (ApplyTransportIntent p)
  have "current_position_ms now s \<le> USIZE_MAX" for now
    using assms by (simp add: current_position_ms_def player_wf_def split: option.split)
  then show ?thesis using assms by (simp add: ApplyTransportIntent set_transport_intent_def player_wf_def)
qed (use assms in \<open>simp_all add: apply_companion_queue_def set_seek_intent_def note_library_changed_def player_wf_def unat32_USIZE\<close>)

lemma wf_note_rolled_off: "player_wf s \<Longrightarrow> player_wf (note_rolled_off q s)"
proof -
  assume wf: "player_wf s"
  have t: "successively P (take n xs)" if "successively P xs" for P and n and xs :: "QueueItem list"
    using that by (induction xs arbitrary: n) (auto simp: take_Cons' successively_Cons)
  have "list_all P (take n xs)" if "list_all P xs" for P n and xs :: "QueueItem list"
    using that by (auto simp: list_all_iff dest: in_set_takeD)
  with wf show ?thesis
    by (auto simp: note_rolled_off_def player_wf_def successively_Cons intro!: t split: list.splits)
qed

lemma wf_finish_turn: "player_wf (pac_state a) \<Longrightarrow> player_wf (pac_state (finish_turn env results kind force a))"
  by (simp add: finish_turn_def reconcile_head_pin_def Let_def wf_note_rolled_off split: option.split)

lemma wf_player_turn:
  assumes "player_wf (pac_state a)"
  shows "player_wf (pac_state (player_turn env results i a))"
proof -
  have "player_wf (s\<lparr>pl_position_resync := False\<rparr>) = player_wf s" for s by (simp add: player_wf_def)
  moreover have "player_wf (note_asset_ready x s)" "player_wf (note_asset_cleared x s)" if "player_wf s" for x s
    using that by (simp_all add: note_asset_ready_def note_asset_cleared_def player_wf_def distinct_removeAll)
  ultimately show ?thesis using assms
    by (cases i) (simp_all add: Let_def take_position_resync_def wf_finish_turn wf_apply_command)
qed

text \<open>C4. However the actor runs, its history is bounded, names no item twice in a row and none that cannot be
  played again, the position fits its type, and an intent of the user has been contradicted at most once.\<close>

theorem player_stays_well_formed: "player_wf (pac_state (player_run turns PlayerActor_new))"
proof -
  have "player_wf (pac_state a) \<Longrightarrow> player_wf (pac_state (player_run turns a))" for a
    by (induction turns arbitrary: a) (auto simp: wf_player_turn)
  moreover have "player_wf (pac_state PlayerActor_new)"
    by (simp add: player_wf_def PlayerActor_new_def PlayerState_new_def)
  ultimately show ?thesis .
qed

section \<open>The companion's playhead\<close>

lemma playhead_stage [simp]:
  "playhead (stage_media now media s) = playhead s" "playhead (stage_playback now play s) = playhead s"
  "playhead (try_optimistic_advance env s) = playhead s"
  by (simp_all add: stage_media_def stage_playback_def try_optimistic_advance_def playhead_def Let_def split: option.split)

lemma owned_stage [simp]:
  "pl_companion_owned (stage_media now media s) = pl_companion_owned s"
  "pl_companion_owned (stage_playback now play s) = pl_companion_owned s"
  "pl_companion_owned (try_optimistic_advance env s) = pl_companion_owned s"
  by (simp_all add: stage_media_def stage_playback_def try_optimistic_advance_def Let_def split: option.split)

lemma owned_note_ownership [simp]:
  "pl_companion_owned (snd (note_ownership env s)) = companion_playback_authoritative env s"
  by (simp add: note_ownership_def Let_def)

lemma staged_apply_iap2 [simp]: "staged (apply_iap2 env edge s) = staged s"
  by (simp add: apply_iap2_def Let_def)

lemma playhead_apply_iap2:
  assumes "pl_companion_owned s" "\<not> edge" "pbu_playing (pl_companion_playback s) \<noteq> None"
    "pbu_position_ms (pl_companion_playback s) \<noteq> None"
  shows "playhead (apply_iap2 env edge s) = playhead s"
proof -
  have "pbu_playing (companion_fallthrough p s) = None" "pbu_position_ms (companion_fallthrough p s) = None" for p
    using assms(3,4) by (auto simp: companion_fallthrough_def option_filter_def split: option.split)
  then show ?thesis using assms(1,2) by (simp add: apply_iap2_def Let_def playhead_apply_merged)
qed

text \<open>C23. What the phone reports never moves the playhead when the companion owns the playback before and after the
  report and has itself said whether it plays and where. A companion that owns the playback and has said
  neither leaves the playhead to the phone, which is not covered here.\<close>

theorem companion_playhead_undisturbed:
  assumes "is_phone_command cmd" and "s' = apply_command env cmd s"
    and "pl_companion_owned s" and "pl_companion_owned s'"
    and "pbu_playing (pl_companion_playback s') \<noteq> None" and "pbu_position_ms (pl_companion_playback s') \<noteq> None"
  shows "playhead s' = playhead s"
proof -
  have done_by: "playhead s' = playhead s"
    if s': "s' = apply_iap2 env (fst (note_ownership env s2)) x" and x: "x = try_optimistic_advance env (snd (note_ownership env s2))
        \<or> x = snd (note_ownership env s2)" and s2: "playhead s2 = playhead s" "pl_companion_owned s2 = pl_companion_owned s" for s2 x
  proof -
    have st: "pl_companion_owned x = pl_companion_owned s'" "pl_companion_playback x = pl_companion_playback s'"
      using staged_eqD(5,11) [OF staged_apply_iap2 [of env "fst (note_ownership env s2)" x]] by (simp_all add: s')
    have own: "companion_playback_authoritative env s2" using x st(1) assms(4) by auto
    then have edge: "\<not> fst (note_ownership env s2)" using s2(2) assms(3) by (simp add: note_ownership_staged(3))
    have ph: "playhead x = playhead s2" using x by (auto simp: note_ownership_staged(2))
    show ?thesis unfolding s'
      by (subst playhead_apply_iap2) (use st assms(4-6) edge ph s2 in auto)
  qed
  show ?thesis
  proof (cases cmd)
    case (ApplyNowPlaying update)
    show ?thesis
    proof (cases "without_idle update")
      case None
      then show ?thesis using assms(2) by (simp add: ApplyNowPlaying apply_now_playing_def)
    next
      case (Some u)
      show ?thesis
        by (rule done_by [of "case lnu_playback u of None \<Rightarrow> (case lnu_media_item u of None \<Rightarrow> s | Some media \<Rightarrow> stage_media (pe_now env) media s)
            | Some play \<Rightarrow> stage_playback (pe_now env) play
                (case lnu_media_item u of None \<Rightarrow> s | Some media \<Rightarrow> stage_media (pe_now env) media s)", OF _ disjI1 [OF refl]])
          (simp_all add: assms(2) ApplyNowPlaying apply_now_playing_def Some Let_def case_prod_beta split: option.split)
    qed
  next
    case (ApplyArtworkId i)
    show ?thesis
      by (rule done_by [of "s\<lparr>pl_iap2_metadata := (pl_iap2_metadata s)\<lparr>miu_artwork_id := Some i\<rparr>\<rparr>", OF _ disjI2 [OF refl]])
        (simp_all add: assms(2) ApplyArtworkId apply_artwork_id_def Let_def case_prod_beta playhead_def)
  qed (use assms(1) in simp_all)
qed

section \<open>Without a companion\<close>

definition alone :: "PlayerEnv \<Rightarrow> PlayerState \<Rightarrow> bool" where
  "alone env s \<longleftrightarrow> \<not> pl_companion_owned s \<and>
    \<not> is_authoritative (pe_now env) NowPlayingPlayback (pe_authority env) \<and>
    \<not> is_authoritative (pe_now env) NowPlayingMetadata (pe_authority env)"

definition tick :: "u32 \<Rightarrow> LibNowPlayingUpdate" where
  "tick x = \<lparr>lnu_media_item = None, lnu_playback = Some (PlaybackUpdate_default\<lparr>pbu_position_ms := Some x\<rparr>)\<rparr>"

lemma without_idle_tick [simp]: "without_idle (tick x) = Some (tick x)"
  by (simp add: without_idle_def is_idle_sentinel_def tick_def)

lemma staged_tick:
  "stage_playback now (PlaybackUpdate_default\<lparr>pbu_position_ms := Some x\<rparr>) s =
    s\<lparr>pl_iap2_playback_at := Some now, pl_iap2_playback := (pl_iap2_playback s)\<lparr>pbu_position_ms := Some x\<rparr>\<rparr>"
  by (simp add: stage_playback_def accumulate_playback_def PlaybackUpdate_default_def)

lemma u32_sat_add_0 [simp]: "u32_sat_add x 0 = x"
  using unat32_less [of x] by (simp add: u32_sat_add_def)

text \<open>A tick of a phone that plays alone.\<close>

lemma apply_tick:
  assumes "alone env s"
  shows "apply_now_playing env (tick x) s =
    apply_merged env (pl_iap2_metadata s) ((pl_iap2_playback s)\<lparr>pbu_position_ms := Some x\<rparr>) True
      (s\<lparr>pl_iap2_playback_at := Some (pe_now env),
         pl_iap2_playback := (pl_iap2_playback s)\<lparr>pbu_position_ms := Some x\<rparr>\<rparr>)"
proof -
  let ?s = "s\<lparr>pl_iap2_playback_at := Some (pe_now env), pl_iap2_playback := (pl_iap2_playback s)\<lparr>pbu_position_ms := Some x\<rparr>\<rparr>"
  have no: "\<not> companion_now_playing_authoritative env NowPlayingMetadata s'"
    "\<not> companion_now_playing_authoritative env NowPlayingPlayback s'" for s'
    using assms by (simp_all add: alone_def companion_now_playing_authoritative_def)
  have "note_ownership env ?s = (False, ?s)"
    using assms no by (simp add: note_ownership_def companion_playback_authoritative_def alone_def Let_def)
  moreover have "try_optimistic_advance env ?s = ?s" using assms by (simp add: try_optimistic_advance_def alone_def)
  moreover have "merged_playback env ?s = (pl_iap2_playback s)\<lparr>pbu_position_ms := Some x\<rparr>"
    by (simp add: merged_playback_def no extrapolated_def)
  moreover have "merged_metadata env ?s = pl_iap2_metadata s" by (simp add: merged_metadata_def no)
  ultimately show ?thesis using assms
    by (simp add: apply_now_playing_def) (simp add: tick_def staged_tick apply_iap2_def alone_def Let_def)
qed

lemma apply_playing_track:
  "fst (apply_playing now reported (snd (apply_track env media s))) = fst (apply_playing now reported s)"
  "playhead (snd (apply_playing now reported (snd (apply_track env media s)))) = playhead (snd (apply_playing now reported s))"
  using playhead_eqD [OF playhead_apply_track [of env media s]]
  by (auto simp: apply_playing_def active_transport_intent_def playhead_def Let_def split: option.split)

lemma merged_playing:
  "pl_playing (apply_merged env media playback True s) = pl_playing (snd (apply_playing (pe_now env) (pbu_playing playback) s))"
  "pl_transport_intent (apply_merged env media playback True s) =
    pl_transport_intent (snd (apply_playing (pe_now env) (pbu_playing playback) s))"
proof -
  have pos: "pl_playing (apply_position now t x s') = pl_playing s'"
    "pl_transport_intent (apply_position now t x s') = pl_transport_intent s'" for now t x s'
    by (simp_all add: apply_position_def Let_def)
  have opt: "pl_playing (apply_options playback s') = pl_playing s'"
    "pl_transport_intent (apply_options playback s') = pl_transport_intent s'" for s'
    using playhead_eqD [OF playhead_apply_options [of playback s']] by simp_all
  note eq = playhead_eqD [OF apply_playing_track(2) [of "pe_now env" "pbu_playing playback" env media s]]
  show "pl_playing (apply_merged env media playback True s) = pl_playing (snd (apply_playing (pe_now env) (pbu_playing playback) s))"
    "pl_transport_intent (apply_merged env media playback True s) =
      pl_transport_intent (snd (apply_playing (pe_now env) (pbu_playing playback) s))"
    by (simp_all add: apply_merged_def Let_def case_prod_beta pos opt eq split: option.split)
qed

text \<open>C25. An intent of the user is meant to ride over one stale report. But a tick that says nothing of the play state
  counts as well, since what was staged before is merged again: two of them undo the intent.\<close>

theorem ticks_undo_intent:
  assumes "pbu_playing (pl_iap2_playback s) = Some (\<not> p)"
    and "alone env s" "alone env' s"
    and "pe_now env < now + TRANSPORT_INTENT_WINDOW" "pe_now env' < now + TRANSPORT_INTENT_WINDOW"
    and "s1 = set_transport_intent now p s"
  shows "pl_playing s1 = p \<and>
    pl_playing (apply_now_playing env (tick x) s1) = p \<and>
    pl_playing (apply_now_playing env' (tick y) (apply_now_playing env (tick x) s1)) = (\<not> p)"
proof -
  have s1: "pl_playing s1 = p" "pl_iap2_playback s1 = pl_iap2_playback s" "alone env s1" "alone env' s1"
    "pl_transport_intent s1 = Some \<lparr>tin_playing = p, tin_expires = now + TRANSPORT_INTENT_WINDOW, tin_mismatches = 0\<rparr>"
    using assms by (simp_all add: set_transport_intent_def alone_def)
  define s2 where "s2 = apply_now_playing env (tick x) s1"
  have s2: "pl_playing s2 = p"
    "pl_transport_intent s2 = Some \<lparr>tin_playing = p, tin_expires = now + TRANSPORT_INTENT_WINDOW, tin_mismatches = 1\<rparr>"
    using assms(1,4)
    by (simp_all add: s2_def apply_tick [OF s1(3)] merged_playing s1 apply_playing_def active_transport_intent_def Let_def)
  have "staged s2 = staged (s1\<lparr>pl_iap2_playback_at := Some (pe_now env),
      pl_iap2_playback := (pl_iap2_playback s1)\<lparr>pbu_position_ms := Some x\<rparr>\<rparr>)"
    by (simp add: s2_def apply_tick [OF s1(3)])
  from staged_eqD(2,11) [OF this] have "pbu_playing (pl_iap2_playback s2) = Some (\<not> p)" "alone env' s2"
    using assms(1) s1 by (simp_all add: alone_def)
  then have "pl_playing (apply_now_playing env' (tick y) s2) = (\<not> p)"
    using assms(5)
    by (simp add: apply_tick [of env' s2] merged_playing s2 apply_playing_def active_transport_intent_def Let_def)
  with s1(1) s2(1) show ?thesis by (simp add: s2_def)
qed

section \<open>Progress\<close>

text \<open>A phone alone that plays a track of known length, with nothing that the user has just asked for.\<close>

definition riding :: "PlayerState \<Rightarrow> bool" where
  "riding s \<longleftrightarrow> pl_playing s \<and> pbu_playing (pl_iap2_playback s) = Some True \<and>
    pl_transport_intent s = None \<and> pl_seek_intent s = None \<and> pl_position_anchor s \<noteq> None \<and>
    miu_duration_ms (pl_iap2_metadata s) \<noteq> Some 0 \<and>
    (case pl_track s of None \<Rightarrow> False
     | Some t \<Rightarrow> 0 < trk_duration_ms t \<and> miu_persistent_id (pl_iap2_metadata s) = Some (trk_id t))"

fun ticks_run :: "(PlayerEnv \<times> u32) list \<Rightarrow> PlayerState \<Rightarrow> PlayerState" where
  "ticks_run [] s = s"
| "ticks_run ((env, x) # ticks) s = ticks_run ticks (apply_now_playing env (tick x) s)"

text \<open>Each report is within the tolerance of the playhead it meets.\<close>

fun ticks_close :: "(PlayerEnv \<times> u32) list \<Rightarrow> PlayerState \<Rightarrow> bool" where
  "ticks_close [] s = True"
| "ticks_close ((env, x) # ticks) s =
    (alone env s \<and>
     (unat x - current_position_ms (pe_now env) s) + (current_position_ms (pe_now env) s - unat x) \<le> POSITION_RESYNC_TOLERANCE_MS \<and>
     ticks_close ticks (apply_now_playing env (tick x) s))"

lemma track_kept:
  assumes "pl_track s = Some t" "miu_persistent_id media = Some (trk_id t)"
  shows "\<exists>t'. pl_track (snd (apply_track env media s)) = Some t' \<and> trk_id t' = trk_id t \<and>
    trk_duration_ms t' = (case miu_duration_ms media of None \<Rightarrow> trk_duration_ms t | Some d \<Rightarrow> d)"
  using assms
  by (cases "miu_title media"; cases "miu_album media"; cases "miu_artist media"; cases "miu_duration_ms media";
      cases "miu_liked media"; simp add: apply_track_def)

lemma riding_track:
  assumes "riding s"
  shows "fst (apply_track env (pl_iap2_metadata s) s)"
    "\<exists>t. pl_track (snd (apply_track env (pl_iap2_metadata s) s)) = Some t \<and> 0 < trk_duration_ms t \<and>
       miu_persistent_id (pl_iap2_metadata s) = Some (trk_id t)"
proof -
  obtain t where t: "pl_track s = Some t" "0 < trk_duration_ms t" "miu_persistent_id (pl_iap2_metadata s) = Some (trk_id t)"
    "miu_duration_ms (pl_iap2_metadata s) \<noteq> Some 0"
    using assms by (auto simp: riding_def split: option.splits)
  show "fst (apply_track env (pl_iap2_metadata s) s)" by (simp add: apply_track_def Let_def t)
  obtain t' where t': "pl_track (snd (apply_track env (pl_iap2_metadata s) s)) = Some t'"
    "trk_id t' = trk_id t" "trk_duration_ms t' = (case miu_duration_ms (pl_iap2_metadata s) of None \<Rightarrow> trk_duration_ms t | Some d \<Rightarrow> d)"
    using track_kept [OF t(1,3)] by auto
  moreover have "0 < trk_duration_ms t'" using t'(3) t(2,4) by (auto simp: word_gt_0 split: option.splits)
  ultimately show "\<exists>t. pl_track (snd (apply_track env (pl_iap2_metadata s) s)) = Some t \<and> 0 < trk_duration_ms t \<and>
       miu_persistent_id (pl_iap2_metadata s) = Some (trk_id t)"
    using t(3) by auto
qed

lemma position_of_tick:
  assumes r: "riding s" and a: "alone env s"
    and close: "(unat x - current_position_ms (pe_now env) s) + (current_position_ms (pe_now env) s - unat x) \<le> POSITION_RESYNC_TOLERANCE_MS"
  defines "s' \<equiv> apply_now_playing env (tick x) s"
  shows "riding s'" "pl_position_resync s' = pl_position_resync s"
    "(pl_position_ms s' = pl_position_ms s \<and> pl_position_anchor s' = pl_position_anchor s) \<or>
     (pl_position_ms s' = unat x \<and> pl_position_anchor s' = Some (pe_now env) \<and> current_position_ms (pe_now env) s \<le> unat x)"
proof -
  let ?play = "(pl_iap2_playback s)\<lparr>pbu_position_ms := Some x\<rparr>"
  let ?s0 = "s\<lparr>pl_iap2_playback_at := Some (pe_now env), pl_iap2_playback := ?play\<rparr>"
  have "riding ?s0" using r by (simp add: riding_def cong: option.case_cong)
  note track = riding_track [OF this, of env]
  obtain t where t: "pl_track (snd (apply_track env (pl_iap2_metadata s) ?s0)) = Some t" "0 < trk_duration_ms t"
    "miu_persistent_id (pl_iap2_metadata s) = Some (trk_id t)"
    using track(2) by auto
  define s1 where "s1 = snd (apply_track env (pl_iap2_metadata s) ?s0)"
  have ph: "playhead s1 = playhead s" and st: "staged s1 = staged ?s0"
    by (simp_all add: s1_def) (simp add: playhead_def)
  note ph' = playhead_eqD [OF ph]
  have rs: "pl_position_resync s1 = pl_position_resync s" by (simp add: s1_def apply_track_def Let_def)
  have cur: "current_position_ms now s1 = current_position_ms now s" for now
    by (simp add: current_position_ms_def ph' cong: option.case_cong)
  have "apply_playing (pe_now env) (Some True) s1 = (True, s1)"
    using r ph' by (simp add: apply_playing_def active_transport_intent_def riding_def)
  then have s': "s' = apply_options ?play (apply_position (pe_now env) True x s1)"
    using r track(1) by (simp add: s'_def apply_tick [OF a] apply_merged_def Let_def case_prod_beta s1_def riding_def)
  define s2 where "s2 = apply_position (pe_now env) True x s1"
  have opt: "playhead s' = playhead s2" "staged s' = staged s2" by (simp_all add: s' s2_def)
  have opt2: "pl_track s' = pl_track s2" "pl_position_resync s' = pl_position_resync s2"
    by (simp_all add: s' s2_def apply_options_def Let_def split: option.split)
  have seek: "\<not> seek_intent_active (pe_now env) s1" using r ph' by (simp add: seek_intent_active_def riding_def)
  have ride: "pl_playing s1" "pl_position_anchor s1 \<noteq> None" "pl_track s1 = Some t"
    using r ph' t(1) by (simp_all add: riding_def s1_def)
  have s2: "s2 = s1 \<or> (current_position_ms (pe_now env) s \<le> unat x \<and>
      s2 = s1\<lparr>pl_seek_intent := None, pl_position_ms := unat x, pl_position_anchor := Some (pe_now env)\<rparr>)"
    using seek ride t(2) close by (auto simp: s2_def apply_position_def Let_def cur not_less)
  have "pl_track s2 = Some t" "pl_position_resync s2 = pl_position_resync s1" "pl_seek_intent s2 = None"
    "pl_playing s2" "pl_transport_intent s2 = None" "pl_position_anchor s2 \<noteq> None"
    using s2 ride r ph' by (auto simp: riding_def)
  moreover have "pl_iap2_playback s' = ?play" "pl_iap2_metadata s' = pl_iap2_metadata s"
    using staged_eqD(1,2) [OF opt(2)] staged_eqD(1,2) [OF st] staged_eqD(1,2) [OF staged_apply_position [of "pe_now env" True x s1]]
    by (simp_all add: s2_def)
  ultimately show "riding s'" "pl_position_resync s' = pl_position_resync s"
    using playhead_eqD [OF opt(1)] opt2 r t rs by (simp_all add: riding_def)
  show "(pl_position_ms s' = pl_position_ms s \<and> pl_position_anchor s' = pl_position_anchor s) \<or>
     (pl_position_ms s' = unat x \<and> pl_position_anchor s' = Some (pe_now env) \<and> current_position_ms (pe_now env) s \<le> unat x)"
    using s2 playhead_eqD(2,3) [OF opt(1)] ph' by auto
qed

lemma elapsed_mono: "n div 1000000 \<le> USIZE_MAX \<Longrightarrow> m \<le> n \<Longrightarrow> elapsed_ms m a \<le> elapsed_ms n a"
proof -
  assume n: "n div 1000000 \<le> USIZE_MAX" and m: "m \<le> n"
  have "(n - a) div 1000000 \<le> n div 1000000" "(m - a) div 1000000 \<le> (n - a) div 1000000"
    using m by (auto intro!: div_le_mono)
  then show ?thesis using n by (simp add: elapsed_ms_def USIZE_MAX_def)
qed

lemma current_mono:
  "n div 1000000 \<le> USIZE_MAX \<Longrightarrow> m \<le> n \<Longrightarrow> current_position_ms m s \<le> current_position_ms n s"
  by (auto simp: current_position_ms_def sat_add_def min_def dest: elapsed_mono split: option.split)
    (meson add_left_mono elapsed_mono order.trans nat_le_linear)+

text \<open>C24. While a track of known duration plays as the phone reports it, with no companion in charge and no intent of the
  user pending, and as long as each position report is near the playhead it meets: the playhead never goes back,
  and none of the reports forces a broadcast.\<close>

theorem progress_never_rewinds:
  assumes "riding s" and "ticks_close ticks s"
    and "sorted (now # map (\<lambda>(env, x). pe_now env) ticks @ [later])"
    and "later div 1000000 \<le> USIZE_MAX"
  shows "current_position_ms now s \<le> current_position_ms later (ticks_run ticks s) \<and>
    pl_position_resync (ticks_run ticks s) = pl_position_resync s"
  using assms
proof (induction ticks arbitrary: now s)
  case Nil
  then show ?case by (simp add: current_mono)
next
  case (Cons e ticks)
  obtain env x where e: "e = (env, x)" by (cases e)
  let ?s = "apply_now_playing env (tick x) s"
  have a: "alone env s" and close: "(unat x - current_position_ms (pe_now env) s) +
      (current_position_ms (pe_now env) s - unat x) \<le> POSITION_RESYNC_TOLERANCE_MS"
    using Cons.prems(2) by (simp_all add: e)
  note tick = position_of_tick [OF Cons.prems(1) a close]
  have now: "now \<le> pe_now env" "pe_now env \<le> later" using Cons.prems(3) by (auto simp: e)
  have "pe_now env div 1000000 \<le> USIZE_MAX" using now(2) Cons.prems(4) by (meson div_le_mono order.trans)
  then have "current_position_ms now s \<le> current_position_ms (pe_now env) s" using now(1) by (rule current_mono)
  also have "\<dots> \<le> current_position_ms (pe_now env) ?s"
  proof -
    have "unat x \<le> USIZE_MAX" by (rule unat32_USIZE)
    with tick(1,3) Cons.prems(1) show ?thesis
      by (auto simp: current_position_ms_def riding_def elapsed_ms_def sat_add_def)
  qed
  also have "\<dots> \<le> current_position_ms later (ticks_run ticks ?s)"
    using Cons.IH [OF tick(1)] Cons.prems by (auto simp: e)
  finally show ?case
    using Cons.IH [OF tick(1), of "pe_now env"] Cons.prems tick(2) by (auto simp: e)
qed

section \<open>Examples\<close>

definition demo_owner :: PlayerEnv where
  "demo_owner = \<lparr>pe_now = 9, pe_authority = authority_claim 0 1 NowPlayingPlayback AuthorityRegistry_new,
     pe_alphanumeric = (\<lambda>_. True)\<rparr>"

definition demo_owned :: PlayerState where
  "demo_owned = PlayerState_new\<lparr>pl_companion_owned := True,
     pl_companion_playback := PlaybackUpdate_default\<lparr>pbu_playing := Some True, pbu_position_ms := Some 5\<rparr>\<rparr>"

lemma demo_owner_authority: "is_authoritative 9 NowPlayingPlayback (pe_authority demo_owner)"
  by (simp add: demo_owner_def authority_claim_def AuthorityRegistry_new_def entry_or_default_def
      CompanionAuthority_default_def Let_def publish_def is_authoritative_def elected_companion_def elect_def
      ca_latest_live_claim_def map_filter_simps max_by_def ca_holds_def)

lemma companion_playhead_undisturbed_witness:
  "playhead (apply_command demo_owner (ApplyArtworkId [1]) demo_owned) = playhead demo_owned"
proof -
  let ?s2 = "demo_owned\<lparr>pl_iap2_metadata := (pl_iap2_metadata demo_owned)\<lparr>miu_artwork_id := Some [1]\<rparr>\<rparr>"
  have e: "apply_command demo_owner (ApplyArtworkId [1]) demo_owned =
      apply_iap2 demo_owner (fst (note_ownership demo_owner ?s2)) (snd (note_ownership demo_owner ?s2))"
    by (simp add: apply_artwork_id_def Let_def case_prod_beta)
  have own: "companion_playback_authoritative demo_owner ?s2"
    using demo_owner_authority
    by (simp add: companion_playback_authoritative_def companion_now_playing_authoritative_def
        iap2_foreground_is_other_app_def iap2_bundle_def demo_owned_def PlayerState_new_def PlaybackUpdate_default_def)
      (simp add: demo_owner_def)
  note st = staged_eqD(5,11) [OF staged_apply_iap2 [of demo_owner "fst (note_ownership demo_owner ?s2)" "snd (note_ownership demo_owner ?s2)"],
      folded e]
  have "pl_companion_playback (snd (note_ownership demo_owner ?s2)) = pl_companion_playback demo_owned"
    by (simp add: note_ownership_def Let_def)
  with st own show ?thesis
    by (intro companion_playhead_undisturbed [OF _ refl]) (simp_all add: demo_owned_def)
qed

lemma alone_new: "alone \<lparr>pe_now = now, pe_authority = AuthorityRegistry_new, pe_alphanumeric = alnum\<rparr> s \<longleftrightarrow> \<not> pl_companion_owned s"
  by (simp add: alone_def is_authoritative_def elected_companion_def elect_def AuthorityRegistry_new_def map_filter_simps
      max_by_def)

definition demo_alone :: "nat \<Rightarrow> PlayerEnv" where
  "demo_alone now = \<lparr>pe_now = now, pe_authority = AuthorityRegistry_new, pe_alphanumeric = (\<lambda>_. True)\<rparr>"

lemma demo_alone [simp]: "alone (demo_alone now) s \<longleftrightarrow> \<not> pl_companion_owned s" "pe_now (demo_alone now) = now"
  by (simp_all add: demo_alone_def alone_new)

definition demo_riding :: PlayerState where
  "demo_riding = PlayerState_new\<lparr>pl_playing := True, pl_position_anchor := Some 0,
     pl_iap2_playback := PlaybackUpdate_default\<lparr>pbu_playing := Some True\<rparr>,
     pl_iap2_metadata := MediaItemUpdate_default\<lparr>miu_persistent_id := Some [1]\<rparr>,
     pl_track := Some (Track_default\<lparr>trk_id := [1], trk_duration_ms := 100000\<rparr>)\<rparr>"

lemma ticks_undo_intent_witness:
  "let s1 = set_transport_intent 0 False demo_riding in
   \<not> pl_playing s1 \<and> \<not> pl_playing (apply_now_playing (demo_alone 1) (tick 5) s1) \<and>
   pl_playing (apply_now_playing (demo_alone 2) (tick 6) (apply_now_playing (demo_alone 1) (tick 5) s1))"
  using ticks_undo_intent [of demo_riding False "demo_alone 1" "demo_alone 2" 0 _ 5 6, OF _ _ _ _ _ refl]
  by (simp add: demo_riding_def PlayerState_new_def TRANSPORT_INTENT_WINDOW_def millis_def Let_def)

lemma progress_never_rewinds_witness:
  "current_position_ms 0 demo_riding \<le> current_position_ms 2000000000 (ticks_run [(demo_alone 1000000000, 1500)] demo_riding) \<and>
   pl_position_resync (ticks_run [(demo_alone 1000000000, 1500)] demo_riding) = pl_position_resync demo_riding"
  by (rule progress_never_rewinds)
    (simp_all add: demo_riding_def PlayerState_new_def riding_def PlaybackUpdate_default_def MediaItemUpdate_default_def
      Track_default_def current_position_ms_def elapsed_ms_def sat_add_def USIZE_MAX_def POSITION_RESYNC_TOLERANCE_MS_def)

end
