(* ===== verification/Player_Sources.thy ===== *)
theory Player_Sources
  imports Player_Playhead
begin

text \<open>Where what the player shows comes from: the phone's metadata as a history of its reports, the phone's view
  once the companion is gone, and the advance through the companion's queue that the phone's reports allow.\<close>

section \<open>The phone's metadata\<close>

text \<open>The updates of the item that plays: since the last one that named another item.\<close>

definition latest :: "(MediaItemUpdate \<Rightarrow> 'a option) \<Rightarrow> MediaItemUpdate list \<Rightarrow> 'a option" where
  "latest f ms = fold (\<lambda>m acc. option_or (f m) acc) ms None"

definition latest_media :: "MediaItemUpdate list \<Rightarrow> MediaItemUpdate" where
  "latest_media ms = \<lparr>miu_persistent_id = latest miu_persistent_id ms, miu_title = latest miu_title ms, miu_album = latest miu_album ms
    , miu_album_uri = latest miu_album_uri ms, miu_album_artist = latest miu_album_artist ms, miu_artist = latest miu_artist ms
    , miu_artist_uri = latest miu_artist_uri ms, miu_liked = latest miu_liked ms, miu_artwork_id = latest miu_artwork_id ms
    , miu_duration_ms = latest miu_duration_ms ms, miu_media_types = latest miu_media_types ms, miu_track_number = latest miu_track_number ms
    , miu_track_count = latest miu_track_count ms, miu_is_like_supported = latest miu_is_like_supported ms, miu_is_ban_supported = latest miu_is_ban_supported ms
    , miu_is_banned = latest miu_is_banned ms, miu_is_resident_on_device = latest miu_is_resident_on_device ms, miu_chapter_count = latest miu_chapter_count ms
    \<rparr>"

definition current_item :: "MediaItemUpdate list \<Rightarrow> MediaItemUpdate list" where
  "current_item ms =
    fold (\<lambda>m seg. if miu_persistent_id m \<noteq> None \<and> latest miu_persistent_id seg \<noteq> miu_persistent_id m then [m] else seg @ [m])
      ms []"

text \<open>What a command of the phone says of the item: of an idle report the duration, of artwork its name.\<close>

definition media_of :: "PlayerCommand \<Rightarrow> MediaItemUpdate option" where
  "media_of cmd =
    (case cmd of
       ApplyNowPlaying u \<Rightarrow> Option.bind (without_idle u) lnu_media_item
     | ApplyArtworkId i \<Rightarrow> Some (MediaItemUpdate_default\<lparr>miu_artwork_id := Some i\<rparr>)
     | _ \<Rightarrow> None)"

lemma latest_simps [simp]:
  "latest f [] = None" "latest f (ms @ [m]) = option_or (f m) (latest f ms)" "latest f [m] = f m"
  by (simp_all add: latest_def)

lemma latest_media_snoc: "latest_media (ms @ [m]) = accumulate_media (latest_media ms) m"
  by (simp add: latest_media_def accumulate_media_def)

lemma latest_media_Nil [simp]: "latest_media [] = MediaItemUpdate_default"
  by (simp add: latest_media_def MediaItemUpdate_default_def)

lemma accumulate_default [simp]: "accumulate_media MediaItemUpdate_default m = m"
  by (simp add: accumulate_media_def MediaItemUpdate_default_def)

lemma latest_media_pid [simp]: "miu_persistent_id (latest_media ms) = latest miu_persistent_id ms"
  by (simp add: latest_media_def)

lemma phone_after_media:
  "phone_after cmd m = (case media_of cmd of None \<Rightarrow> m | Some media \<Rightarrow> media_after media m)"
  by (auto simp: phone_after_def media_of_def media_after_def accumulate_media_def MediaItemUpdate_default_def
      split: PlayerCommand.split option.split)

lemma media_after_fold: "fold media_after ms MediaItemUpdate_default = latest_media (current_item ms)"
proof (induction ms rule: rev_induct)
  case (snoc m ms)
  have "latest_media [m] = m" using latest_media_snoc [of "[]" m] by simp
  then show ?case
    by (simp add: snoc) (simp add: current_item_def media_after_def latest_media_snoc)
qed (simp add: current_item_def)

lemma phone_fold: "fold phone_after cmds m = fold media_after (List.map_filter media_of cmds) m"
  by (induction cmds arbitrary: m) (auto simp: map_filter_simps phone_after_media split: option.split)

text \<open>C15. Whatever the turns, each attribute held for the phone is the last one it reported for the item it plays;
  an attribute that a report leaves unset keeps its value.\<close>

theorem phone_metadata_is_history:
  "pl_iap2_metadata (pac_state (player_run turns PlayerActor_new)) =
    latest_media (current_item (List.map_filter media_of (commands_of turns)))"
proof -
  have "pl_iap2_metadata (pac_state PlayerActor_new) = MediaItemUpdate_default"
    by (simp add: PlayerActor_new_def PlayerState_new_def)
  then show ?thesis by (simp add: phone_player_run phone_fold media_after_fold)
qed

section \<open>Without the companion\<close>

lemma track_named:
  assumes "miu_persistent_id media = Some i" "miu_title media = Some t"
  shows "\<exists>t'. pl_track (snd (apply_track env media s)) = Some t' \<and> trk_id t' = i \<and> trk_name t' = t"
  using assms
  by (cases "pl_track s"; cases "miu_album media"; cases "miu_artist media"; cases "miu_duration_ms media";
      cases "miu_liked media"; simp add: apply_track_def Let_def)

lemma build_by_id:
  "trk_id t = trk_id t' \<Longrightarrow> build_media_item t m art = build_media_item t' m art"
  "trk_id t = trk_id t' \<Longrightarrow> build_queue_item t m art = build_queue_item t' m art"
  by (simp_all add: build_media_item_def build_queue_item_def)

text \<open>Of the state of playback the phone decides what it has reported; the rest is left as it was, also where the
  companion has put it.\<close>

definition kept :: "'a option \<Rightarrow> 'a \<Rightarrow> 'a" where
  "kept reported held = (case reported of None \<Rightarrow> held | Some v \<Rightarrow> v)"

definition plays :: "PlayerState \<Rightarrow> bool" where
  "plays s \<longleftrightarrow> kept (pbu_playing (pl_iap2_playback s)) (pl_playing s)"

lemma apply_options_kept:
  "pl_options (apply_options play s) =
    (pl_options s)\<lparr>pbo_shuffle := kept (pbu_shuffle play) (pbo_shuffle (pl_options s)),
      pbo_repeat := kept (pbu_repeat play) (pbo_repeat (pl_options s))\<rparr>"
  by (simp add: apply_options_def kept_def Let_def split: option.split)

lemma options_apply_merged:
  "pl_options (apply_merged env media play True s) =
    (pl_options s)\<lparr>pbo_shuffle := kept (pbu_shuffle play) (pbo_shuffle (pl_options s)),
      pbo_repeat := kept (pbu_repeat play) (pbo_repeat (pl_options s))\<rparr>"
proof -
  have "pl_options (snd (apply_track env media s)) = pl_options s" for media s
    by (simp add: apply_track_def Let_def)
  moreover have "pl_options (snd (apply_playing now r s)) = pl_options s" for now r s
    by (auto simp: apply_playing_def Let_def split: option.split)
  moreover have "pl_options (apply_position now same r s) = pl_options s" for now same r s
    by (simp add: apply_position_def Let_def)
  ultimately show ?thesis
    by (simp add: apply_merged_def Let_def case_prod_beta apply_options_kept split: option.split)
qed

lemma playing_apply_merged:
  assumes "active_transport_intent (pe_now env) s = None"
  shows "pl_playing (apply_merged env media play True s) = kept (pbu_playing play) (pl_playing s)"
proof -
  let ?s1 = "snd (apply_track env media s)"
  have t: "pl_playing ?s1 = pl_playing s" "active_transport_intent (pe_now env) ?s1 = None"
    using assms by (simp_all add: apply_track_def active_transport_intent_def Let_def)
  have "pl_playing (apply_position now same r x) = pl_playing x" for now same r x
    by (simp add: apply_position_def Let_def)
  moreover have "pl_playing (apply_options p x) = pl_playing x" for p x
    by (simp add: apply_options_def Let_def split: option.split)
  moreover have "pl_playing (snd (apply_playing (pe_now env) (pbu_playing play) ?s1)) = kept (pbu_playing play) (pl_playing s)"
    using t by (simp add: apply_playing_def kept_def split: option.split)
  ultimately show ?thesis
    by (simp add: apply_merged_def Let_def case_prod_beta split: option.split)
qed

text \<open>C7. Once a companion has left and the registry no longer names one, and the phone has named its item by an
  identity and a title: the clients are shown that item by the phone's attributes alone, and nothing of the companion's
  context, target, queue or history. Of the playback they are shown the phone's shuffle, repeat and speed where it has
  reported them and what was there before where it has not, the same of its play state unless the user has just asked
  for another, and its indices, counts and flags alone. Nothing is said of the position.\<close>

theorem reset_shows_phone:
  assumes "pl_companion_source s = Some addr"
    and "\<not> is_authoritative (pe_now env) NowPlayingMetadata (pe_authority env)"
    and "\<not> is_authoritative (pe_now env) NowPlayingPlayback (pe_authority env)"
    and "miu_persistent_id (pl_iap2_metadata s) = Some i"
    and "miu_title (pl_iap2_metadata s) = Some title" and "title \<noteq> []"
  shows "let (st, q) = replies env (reset_companion env addr s);
             item = Track_default\<lparr>trk_id := i\<rparr>;
             art = option_filter (\<lambda>a. a \<noteq> []) (miu_artwork_id (pl_iap2_metadata s));
             phone = pl_iap2_playback s; shown = wps_playback (psr_state st) in
     wps_track (psr_state st) = Some (build_media_item item (pl_iap2_metadata s) art) \<and>
     wps_context (psr_state st) = None \<and> wps_target (psr_state st) = None \<and> wps_queue (psr_state st) = [] \<and>
     q = \<lparr>pqr_current = Some (build_queue_item item (pl_iap2_metadata s) art), pqr_items = [], pqr_previous = []\<rparr> \<and>
     wpb_shuffle shown = kept (pbu_shuffle phone) (pbo_shuffle (pl_options s)) \<and>
     wpb_repeat shown = kept (pbu_repeat phone) (pbo_repeat (pl_options s)) \<and>
     plo_speed (wps_options (psr_state st)) = kept (pbu_playback_speed phone) (pl_playback_speed s) \<and>
     (active_transport_intent (pe_now env) s = None \<longrightarrow>
        wpb_state shown = (if plays s then LibPlaying else LibPaused)) \<and>
     wpb_shuffle_mode shown = pbu_shuffle_mode phone \<and>
     wpb_queue_index shown = pbu_queue_index phone \<and> wpb_queue_count shown = pbu_queue_count phone \<and>
     wpb_queue_chapter_index shown = pbu_queue_chapter_index phone \<and>
     wpb_set_elapsed_time_available shown = pbu_set_elapsed_time_available phone \<and>
     wpb_queue_list_avail shown = pbu_queue_list_avail phone \<and>
     wpb_apple_music_radio_ad shown = pbu_apple_music_radio_ad phone"
proof -
  define s1 where "s1 = s\<lparr>pl_companion_source := None, pl_recently_played := [],
    pl_root_browse_gen := pl_root_browse_gen s + 1, pl_companion_metadata := MediaItemUpdate_default,
    pl_companion_playback := PlaybackUpdate_default, pl_companion_playback_at := None, pl_context := None, pl_target := None\<rparr>"
  define s2 where "s2 = snd (note_ownership env s1)"
  define s' where "s' = reset_companion env addr s"
  have s': "s' = apply_merged env (merged_metadata env s2) (merged_playback env s2) True s2"
    using assms(1) by (simp add: s'_def reset_companion_def s1_def s2_def apply_staged_def Let_def case_prod_beta)
  have no: "\<not> companion_now_playing_authoritative env NowPlayingMetadata x" for x
    using assms(2) by (simp add: companion_now_playing_authoritative_def)
  have "staged s' = staged s2" by (simp add: s')
  note st = staged_eqD [OF this]
  have phone: "pl_iap2_metadata s2 = pl_iap2_metadata s" "pl_recently_played s2 = []"
    by (simp_all add: s2_def s1_def note_ownership_def Let_def)
  have merged: "merged_metadata env x = pl_iap2_metadata x" for x by (simp add: merged_metadata_def no)
  obtain t' where t': "pl_track s' = Some t'" "trk_id t' = i" "trk_name t' = title"
    using track_named [of "pl_iap2_metadata s" i title env s2] assms(4,5)
    by (auto simp: s' track_apply_merged merged phone)
  have track: "effective_track s' = Some t'" using t' assms(6) by (simp add: effective_track_def)
  have silent: "\<not> companion_now_playing_authoritative env NowPlayingPlayback x" for x
    using assms(3) by (simp add: companion_now_playing_authoritative_def)
  have play: "merged_playback env s2 = (pl_iap2_playback s)\<lparr>pbu_position_ms := pbu_position_ms (merged_playback env s2)\<rparr>"
    by (simp add: merged_playback_def silent s2_def s1_def note_ownership_def Let_def)
  have fields: "pbu_shuffle (merged_playback env s2) = pbu_shuffle (pl_iap2_playback s)"
    "pbu_repeat (merged_playback env s2) = pbu_repeat (pl_iap2_playback s)"
    "pbu_playing (merged_playback env s2) = pbu_playing (pl_iap2_playback s)"
    by (subst play, simp)+
  have before: "pl_options s2 = pl_options s" "pl_playing s2 = pl_playing s" "pl_playback_speed s2 = pl_playback_speed s"
    "pl_iap2_playback s2 = pl_iap2_playback s" "active_transport_intent now s2 = active_transport_intent now s" for now
    by (simp_all add: s2_def s1_def note_ownership_def active_transport_intent_def Let_def)
  have options: "pl_options s' = (pl_options s)\<lparr>pbo_shuffle := kept (pbu_shuffle (pl_iap2_playback s)) (pbo_shuffle (pl_options s)),
      pbo_repeat := kept (pbu_repeat (pl_iap2_playback s)) (pbo_repeat (pl_options s))\<rparr>"
    by (simp add: s' options_apply_merged before fields)
  have playing: "pl_playing s' = plays s" if "active_transport_intent (pe_now env) s = None"
    using that by (simp add: s' playing_apply_merged before fields plays_def)
  then show ?thesis
    unfolding s'_def [symmetric]
    using build_by_id [of t' "Track_default\<lparr>trk_id := i\<rparr>"] t'(2)
    by (simp add: replies_def Let_def no merged st phone derive_next_def find_position_def track
        playback_reply_def merged_playback_def silent options playing before kept_def [symmetric])
qed

section \<open>The advance\<close>

lemma upcoming_staged [simp]:
  "upcoming_after_current (stage_media now media s) = upcoming_after_current s"
  "upcoming_after_current (stage_playback now play s) = upcoming_after_current s"
  "upcoming_after_current (snd (note_ownership env s)) = upcoming_after_current s"
  "pl_previous_track_uri (stage_media now media s) = pl_previous_track_uri s"
  "pl_previous_track_uri (stage_playback now play s) = pl_previous_track_uri s"
  "pl_previous_track_uri (snd (note_ownership env s)) = pl_previous_track_uri s"
  "pl_companion_metadata (stage_media now media s) = pl_companion_metadata s"
  "pl_companion_metadata (stage_playback now play s) = pl_companion_metadata s"
  "pl_companion_metadata (snd (note_ownership env s)) = pl_companion_metadata s"
  by (simp_all add: upcoming_after_current_def stage_media_def stage_playback_def note_ownership_def Let_def
      cong: option.case_cong)

lemma advance_cases:
  assumes "pl_companion_metadata (try_optimistic_advance env s) \<noteq> pl_companion_metadata s"
  shows "\<exists>item title. pl_companion_metadata (try_optimistic_advance env s) = item_metadata item \<and>
    item \<in> set (take OPTIMISTIC_MATCH_DEPTH (upcoming_after_current s)) \<and>
    pl_previous_track_uri s \<noteq> Some (qit_uri item) \<and>
    miu_title (pl_iap2_metadata s) = Some title \<and>
    iap2_track_matches_item title (miu_artist (pl_iap2_metadata s)) item \<and>
    iap2_bundle_matches_companion env s \<and> pl_companion_owned s"
proof -
  have f: "find P xs = Some x \<Longrightarrow> x \<in> set xs \<and> P x" for P xs and x :: QueueItem
    by (metis find_Some_iff nth_mem)
  obtain title item where t: "miu_title (pl_iap2_metadata s) = Some title"
    and p: "promoted_item title (miu_artist (pl_iap2_metadata s)) s = Some item"
    and o: "pl_companion_owned s" "iap2_bundle_matches_companion env s"
    and m: "pl_companion_metadata (try_optimistic_advance env s) = item_metadata item"
    using assms by (auto simp: try_optimistic_advance_def Let_def split: if_splits option.splits)
  show ?thesis
    using f [OF p [unfolded promoted_item_def]] t o m by (intro exI [of _ item] exI [of _ title]) auto
qed

text \<open>A report of the phone replaces what the companion has said of the item only by one of the next three of its
  own queue, not the one that has just been left, whose title and artist agree with the report, and only while
  it is the companion's app that plays.\<close>

theorem advance_follows_queue:
  assumes "s' = apply_now_playing env update s"
    and "pl_companion_metadata s' \<noteq> pl_companion_metadata s"
  shows "\<exists>item title. pl_companion_metadata s' = item_metadata item \<and>
    item \<in> set (take OPTIMISTIC_MATCH_DEPTH (upcoming_after_current s)) \<and>
    pl_previous_track_uri s \<noteq> Some (qit_uri item) \<and>
    miu_title (pl_iap2_metadata s') = Some title \<and>
    iap2_track_matches_item title (miu_artist (pl_iap2_metadata s')) item \<and>
    iap2_bundle_matches_companion env s' \<and> pl_companion_owned s'"
proof -
  obtain u where u: "without_idle update = Some u"
    using assms by (cases "without_idle update") (auto simp: apply_now_playing_def)
  define s1 where "s1 = (case lnu_media_item u of None \<Rightarrow> s | Some media \<Rightarrow> stage_media (pe_now env) media s)"
  define s2 where "s2 = (case lnu_playback u of None \<Rightarrow> s1 | Some play \<Rightarrow> stage_playback (pe_now env) play s1)"
  define s3 where "s3 = snd (note_ownership env s2)"
  have same: "upcoming_after_current s3 = upcoming_after_current s" "pl_previous_track_uri s3 = pl_previous_track_uri s"
    "pl_companion_metadata s3 = pl_companion_metadata s"
    by (simp_all add: s3_def s2_def s1_def split: option.split)
  have "s' = apply_iap2 env (fst (note_ownership env s2)) (try_optimistic_advance env s3)"
    unfolding s3_def s2_def s1_def assms(1) apply_now_playing_def u by (simp add: Let_def case_prod_beta)
  then have "staged s' = staged (try_optimistic_advance env s3)" by simp
  note st = staged_eqD [OF this]
  have "pl_iap2_playback (try_optimistic_advance env s3) = pl_iap2_playback s3"
    by (simp add: try_optimistic_advance_def Let_def split: option.split)
  then have b: "iap2_bundle_matches_companion env s' = iap2_bundle_matches_companion env s3"
    by (simp add: iap2_bundle_matches_companion_def iap2_bundle_def st)
  show ?thesis using advance_cases [of env s3] assms(2) by (simp add: st same b)
qed

section \<open>Examples\<close>

definition demo_staged :: PlayerState where
  "demo_staged = PlayerState_new\<lparr>pl_companion_source := Some 1, pl_recently_played := [],
     pl_playing := True, pl_options := \<lparr>pbo_repeat = LibRepeatAll, pbo_shuffle = False\<rparr>,
     pl_iap2_playback := PlaybackUpdate_default\<lparr>pbu_playing := Some False, pbu_shuffle := Some True\<rparr>,
     pl_iap2_metadata := MediaItemUpdate_default\<lparr>miu_persistent_id := Some [1], miu_title := Some [65]\<rparr>\<rparr>"

lemma reset_shows_phone_witness:
  "let shown = psr_state (fst (replies (demo_alone 3) (reset_companion (demo_alone 3) 1 demo_staged))) in
     wps_track shown = Some (build_media_item (Track_default\<lparr>trk_id := [1]\<rparr>) (pl_iap2_metadata demo_staged) None) \<and>
     wpb_state (wps_playback shown) = LibPaused \<and> wpb_shuffle (wps_playback shown) \<and>
     wpb_repeat (wps_playback shown) = LibRepeatAll"
proof -
  have a: "\<not> is_authoritative (pe_now (demo_alone 3)) NowPlayingMetadata (pe_authority (demo_alone 3))"
    "\<not> is_authoritative (pe_now (demo_alone 3)) NowPlayingPlayback (pe_authority (demo_alone 3))"
    using demo_alone(1) [of 3 demo_riding] by (simp_all add: alone_def demo_riding_def PlayerState_new_def)
  have i: "active_transport_intent (pe_now (demo_alone 3)) demo_staged = None"
    by (simp add: active_transport_intent_def demo_staged_def PlayerState_new_def)
  from reset_shows_phone [of demo_staged 1 "demo_alone 3" "[1]" "[65]"] a i show ?thesis
    by (simp add: demo_staged_def MediaItemUpdate_default_def PlaybackUpdate_default_def kept_def plays_def
        Let_def case_prod_beta)
qed

definition demo_spotify :: PlayerEnv where
  "demo_spotify = \<lparr>pe_now = 9, pe_authority = set_companion_app_bundle 0 1 (Some [7])
     (authority_claim 0 1 NowPlayingPlayback AuthorityRegistry_new), pe_alphanumeric = (\<lambda>_. True)\<rparr>"

definition demo_next :: QueueItem where
  "demo_next = \<lparr>qit_uri = [9], qit_title = Some [66], qit_artist = None, qit_artist_uri = None, qit_album = None,
     qit_album_uri = None, qit_artwork_id = None, qit_duration_ms = None, qit_persistent_id = None, qit_queued = False\<rparr>"

definition demo_before :: PlayerState where
  "demo_before = PlayerState_new\<lparr>pl_companion_owned := True, pl_companion_queue := [demo_next],
     pl_iap2_playback := PlaybackUpdate_default\<lparr>pbu_app_bundle := Some [7]\<rparr>\<rparr>"

definition demo_report :: LibNowPlayingUpdate where
  "demo_report = \<lparr>lnu_media_item = Some (MediaItemUpdate_default\<lparr>miu_title := Some [66]\<rparr>), lnu_playback = None\<rparr>"

lemma demo_trim: "trim [66] = [66]"
  by (simp add: trim_def trim_start_def trim_end_def strip_all.simps whitespace_chars_def starts_with_bytes_def)

lemma demo_spotify_authority:
  "is_authoritative 9 NowPlayingPlayback (pe_authority demo_spotify)"
  "companion_app_bundle 9 (pe_authority demo_spotify) = Some [7]" "pe_now demo_spotify = 9"
  by (simp_all add: demo_spotify_def authority_claim_def AuthorityRegistry_new_def entry_or_default_def
      CompanionAuthority_default_def Let_def publish_def is_authoritative_def elected_companion_def elect_def
      ca_latest_live_claim_def map_filter_simps max_by_def ca_holds_def set_companion_app_bundle_def companion_app_bundle_def)

lemma demo_advance:
  "pl_companion_metadata (apply_now_playing demo_spotify demo_report demo_before) = item_metadata demo_next"
proof -
  let ?s = "stage_media 9 (MediaItemUpdate_default\<lparr>miu_title := Some [66]\<rparr>) demo_before"
  have s: "pl_iap2_metadata ?s = MediaItemUpdate_default\<lparr>miu_title := Some [66]\<rparr>" "pl_companion_owned ?s"
    "pl_companion_queue ?s = [demo_next]" "pl_track ?s = None" "pl_previous_track_uri ?s = None"
    "pl_iap2_playback ?s = PlaybackUpdate_default\<lparr>pbu_app_bundle := Some [7]\<rparr>"
    by (simp_all add: stage_media_def demo_before_def PlayerState_new_def MediaItemUpdate_default_def accumulate_media_def)
  define s3 where "s3 = snd (note_ownership demo_spotify ?s)"
  have own: "companion_playback_authoritative demo_spotify ?s"
    by (simp add: companion_playback_authoritative_def companion_now_playing_authoritative_def demo_spotify_authority
        iap2_foreground_is_other_app_def iap2_bundle_def s)
  have s3: "pl_iap2_metadata s3 = MediaItemUpdate_default\<lparr>miu_title := Some [66]\<rparr>" "pl_companion_owned s3"
    "pl_companion_queue s3 = [demo_next]" "pl_track s3 = None" "pl_previous_track_uri s3 = None"
    "pl_iap2_playback s3 = PlaybackUpdate_default\<lparr>pbu_app_bundle := Some [7]\<rparr>"
    using own s by (simp_all add: s3_def note_ownership_def Let_def demo_before_def PlayerState_new_def)
  have "apply_now_playing demo_spotify demo_report demo_before =
      apply_iap2 demo_spotify (fst (note_ownership demo_spotify ?s)) (try_optimistic_advance demo_spotify s3)"
    by (simp add: apply_now_playing_def demo_report_def without_idle_def is_idle_sentinel_def MediaItemUpdate_default_def
        Let_def case_prod_beta s3_def demo_spotify_authority)
  moreover have "pl_companion_metadata (try_optimistic_advance demo_spotify s3) = item_metadata demo_next"
    by (simp add: try_optimistic_advance_def s3 iap2_bundle_matches_companion_def iap2_bundle_def demo_spotify_authority
        demo_trim effective_track_def promoted_item_def upcoming_after_current_def OPTIMISTIC_MATCH_DEPTH_def
        MediaItemUpdate_default_def iap2_track_matches_item_def norm_eq_def artists_agree_def demo_next_def)
  ultimately show ?thesis using staged_eqD(4) [OF staged_apply_iap2] by metis
qed

lemma advance_follows_queue_witness:
  "let s' = apply_now_playing demo_spotify demo_report demo_before in
   \<exists>item title. pl_companion_metadata s' = item_metadata item \<and>
    item \<in> set (take OPTIMISTIC_MATCH_DEPTH (upcoming_after_current demo_before)) \<and>
    miu_title (pl_iap2_metadata s') = Some title \<and>
    iap2_track_matches_item title (miu_artist (pl_iap2_metadata s')) item"
proof -
  have "pl_companion_metadata (apply_now_playing demo_spotify demo_report demo_before) \<noteq> pl_companion_metadata demo_before"
    unfolding demo_advance
    by (simp add: demo_before_def PlayerState_new_def item_metadata_def MediaItemUpdate_default_def)
  from advance_follows_queue [OF refl this] show ?thesis unfolding Let_def by blast
qed

end
