(* ===== verification/Asset_Cache.thy ===== *)
theory Asset_Cache
  imports Lane_Scheduler "HOL-Library.AList" "HOL-Library.Product_Lexorder"
begin

text \<open>The asset cache of the device (\<open>crates/core/src/asset/mod.rs\<close>, \<open>actor.rs\<close>): an actor that keeps assets in
  memory or on disk under a budget for each, forgets those whose time is up, tells its subscribers what has come
  and gone, and finds the persistent ones again after a restart. The hash map of the entries, the files and the
  rows of the database are association lists, and a path is either a name in the directory of the blobs or one
  outside of it. A command comes with the clocks, the free space and what the disk and the database refuse while
  it runs; the digest that names a file is a parameter. What \<open>evict_entry\<close> returns is used by no one and left out.\<close>

section \<open>Retention\<close>

definition MEMORY_BUDGET_BYTES :: nat where "MEMORY_BUDGET_BYTES = 8 * 1024 * 1024"
definition DISK_BUDGET_BYTES :: nat where "DISK_BUDGET_BYTES = 512 * 1024 * 1024"
definition DISK_FREE_HEADROOM_BYTES :: nat where "DISK_FREE_HEADROOM_BYTES = 128 * 1024 * 1024"

datatype AssetRetention = WireLru | WirePinned | WireTtl u32 | WirePersistent

datatype Tier = MemoryTier | DiskTier
datatype Lifetime = KeepPinned | Lru | Ttl u32

record Retention =
  rt_tier :: Tier
  rt_lifetime :: Lifetime

definition MEM_LRU :: Retention where "MEM_LRU = \<lparr>rt_tier = MemoryTier, rt_lifetime = Lru\<rparr>"
definition MEM_PINNED :: Retention where "MEM_PINNED = \<lparr>rt_tier = MemoryTier, rt_lifetime = KeepPinned\<rparr>"
definition DISK_PINNED :: Retention where "DISK_PINNED = \<lparr>rt_tier = DiskTier, rt_lifetime = KeepPinned\<rparr>"
definition DISK_LRU :: Retention where "DISK_LRU = \<lparr>rt_tier = DiskTier, rt_lifetime = Lru\<rparr>"
definition disk_ttl :: "u32 \<Rightarrow> Retention" where "disk_ttl seconds = \<lparr>rt_tier = DiskTier, rt_lifetime = Ttl seconds\<rparr>"

fun retention_from_wire :: "AssetRetention \<Rightarrow> Retention" where
  "retention_from_wire WireLru = MEM_LRU"
| "retention_from_wire WirePinned = MEM_PINNED"
| "retention_from_wire (WireTtl seconds) = \<lparr>rt_tier = MemoryTier, rt_lifetime = Ttl seconds\<rparr>"
| "retention_from_wire WirePersistent = DISK_PINNED"

definition ttl_seconds :: "Retention \<Rightarrow> u32 option" where
  "ttl_seconds r = (case rt_lifetime r of Ttl s \<Rightarrow> Some s | _ \<Rightarrow> None)"

definition is_pinned :: "Retention \<Rightarrow> bool" where "is_pinned r \<longleftrightarrow> rt_lifetime r = KeepPinned"

definition is_disk_persisted :: "Retention \<Rightarrow> bool" where
  "is_disk_persisted r \<longleftrightarrow> rt_tier r = DiskTier \<and> (case rt_lifetime r of Ttl _ \<Rightarrow> False | _ \<Rightarrow> True)"

section \<open>Entries, files and rows\<close>

datatype AssetPath = BlobPath bytes | OtherPath bytes

datatype EntryStorage = InMemory bytes | OnDisk bytes

record AssetEntry =
  ent_retention :: Retention
  ent_mime :: "bytes option"
  ent_byte_len :: nat
  ent_accessed_at :: int
  ent_lru_seq :: u64
  ent_ttl_deadline :: "nat option"
  ent_storage :: EntryStorage

definition entry_tier :: "AssetEntry \<Rightarrow> Tier" where
  "entry_tier e = (case ent_storage e of InMemory _ \<Rightarrow> MemoryTier | OnDisk _ \<Rightarrow> DiskTier)"

record AssetRow =
  row_path :: bytes
  row_mime :: "bytes option"
  row_byte_len :: int
  row_inserted_at :: int
  row_accessed_at :: int
  row_pinned :: bool

datatype AssetCacheEvent = AssetIsReady bytes | AssetIsCleared bytes

datatype AssetError = AssetDb | AssetCacheClosed | AssetIo | DiskBudgetExceeded

record CachedAsset =
  ca_bytes :: bytes
  ca_mime :: "bytes option"

text \<open>The actor, with the files and the rows it works on, and everything it has told its subscribers.\<close>

record AssetActor =
  aa_entries :: "(bytes \<times> AssetEntry) list"
  aa_memory_byte_total :: nat
  aa_disk_byte_total :: nat
  aa_lru_clock :: u64
  aa_dirty_persist :: "bytes list"
  aa_files :: "(AssetPath \<times> bytes) list"
  aa_rows :: "(bytes \<times> AssetRow) list"
  aa_events :: "AssetCacheEvent list"

definition AssetActor_new :: "(AssetPath \<times> bytes) list \<Rightarrow> (bytes \<times> AssetRow) list \<Rightarrow> AssetActor" where
  "AssetActor_new files rows = \<lparr>aa_entries = [], aa_memory_byte_total = 0, aa_disk_byte_total = 0, aa_lru_clock = 0,
     aa_dirty_persist = [], aa_files = files, aa_rows = rows, aa_events = []\<rparr>"

text \<open>What surrounds one command. A write that fails may leave the file as it was or a part of the content; a
  rename may find the source on another device.\<close>

datatype WriteResult = WriteOk | WriteNothing | WritePart nat
datatype RenameResult = Renamed | CrossesDevices | RenameFailed

record AssetEnv =
  ae_instant :: nat
  ae_unix_now :: int
  ae_free :: nat
  ae_write :: WriteResult
  ae_rename :: RenameResult
  ae_fsync_source :: bool
  ae_copy :: bool
  ae_fsync_dir :: bool
  ae_stat :: bool
  ae_read :: bool
  ae_remove :: "AssetPath \<Rightarrow> bool"
  ae_row_write :: bool
  ae_row_delete :: "bytes \<Rightarrow> bool"
  ae_row_update :: bool

definition remove_file :: "AssetEnv \<Rightarrow> AssetPath \<Rightarrow> AssetActor \<Rightarrow> AssetActor" where
  "remove_file env p a = (if ae_remove env p then a\<lparr>aa_files := AList.delete p (aa_files a)\<rparr> else a)"

definition write_file :: "AssetEnv \<Rightarrow> AssetPath \<Rightarrow> bytes \<Rightarrow> AssetActor \<Rightarrow> bool \<times> AssetActor" where
  "write_file env p content a =
    (case ae_write env of
       WriteOk \<Rightarrow> (True, a\<lparr>aa_files := AList.update p content (aa_files a)\<rparr>)
     | WriteNothing \<Rightarrow> (False, a)
     | WritePart n \<Rightarrow> (False, a\<lparr>aa_files := AList.update p (take n content) (aa_files a)\<rparr>))"

text \<open>\<open>rename_or_copy\<close> of \<open>crates/core/src/paths.rs\<close>: a copy goes through a staging file, so it happens or does not.\<close>

definition rename_or_copy :: "AssetEnv \<Rightarrow> AssetPath \<Rightarrow> AssetPath \<Rightarrow> AssetActor \<Rightarrow> bool \<times> AssetActor" where
  "rename_or_copy env source dest a =
    (case map_of (aa_files a) source of
       None \<Rightarrow> (False, a)
     | Some content \<Rightarrow>
         if \<not> ae_fsync_source env then (False, a)
         else
           (case ae_rename env of
              Renamed \<Rightarrow> (ae_fsync_dir env, a\<lparr>aa_files := AList.update dest content (AList.delete source (aa_files a))\<rparr>)
            | CrossesDevices \<Rightarrow>
                if ae_copy env
                then (ae_fsync_dir env, remove_file env source (a\<lparr>aa_files := AList.update dest content (aa_files a)\<rparr>))
                else (False, a)
            | RenameFailed \<Rightarrow> (False, a)))"

section \<open>Small steps\<close>

definition next_lru_seq :: "AssetActor \<Rightarrow> u64 \<times> AssetActor" where
  "next_lru_seq a = (let c = aa_lru_clock a + 1 in (c, a\<lparr>aa_lru_clock := c\<rparr>))"

definition ttl_deadline_for :: "nat \<Rightarrow> Retention \<Rightarrow> nat option" where
  "ttl_deadline_for now r = map_option (\<lambda>s. now + max (unat s) 1 * 1000000000) (ttl_seconds r)"

definition as_i64 :: "nat \<Rightarrow> int" where
  "as_i64 n = (let m = n mod 2 ^ 64 in if m < 2 ^ 63 then int m else int m - 2 ^ 64)"

definition tell :: "AssetCacheEvent \<Rightarrow> AssetActor \<Rightarrow> AssetActor" where
  "tell ev a = a\<lparr>aa_events := aa_events a @ [ev]\<rparr>"

definition persist_write ::
  "AssetEnv \<Rightarrow> bytes \<Rightarrow> bytes \<Rightarrow> bytes option \<Rightarrow> nat \<Rightarrow> int \<Rightarrow> bool \<Rightarrow> AssetActor \<Rightarrow> (AssetError + unit) \<times> AssetActor" where
  "persist_write env i path mime byte_len now pinned a =
    (if ae_row_write env
     then (Inr (), a\<lparr>aa_rows := AList.update i \<lparr>row_path = path, row_mime = mime, row_byte_len = as_i64 byte_len,
             row_inserted_at = now, row_accessed_at = now, row_pinned = pinned\<rparr> (aa_rows a)\<rparr>)
     else (Inl AssetDb, a))"

definition delete_row :: "AssetEnv \<Rightarrow> bytes \<Rightarrow> AssetActor \<Rightarrow> AssetActor" where
  "delete_row env i a = (if ae_row_delete env i then a\<lparr>aa_rows := AList.delete i (aa_rows a)\<rparr> else a)"

definition evict_entry :: "AssetEnv \<Rightarrow> bytes \<Rightarrow> AssetActor \<Rightarrow> AssetActor" where
  "evict_entry env i a =
    (case map_of (aa_entries a) i of
       None \<Rightarrow> a
     | Some e \<Rightarrow>
         let a1 = a\<lparr>aa_entries := AList.delete i (aa_entries a)\<rparr> in
         (case ent_storage e of
            InMemory _ \<Rightarrow> a1\<lparr>aa_memory_byte_total := aa_memory_byte_total a1 - ent_byte_len e\<rparr>
          | OnDisk path \<Rightarrow>
              let a2 = remove_file env (BlobPath path)
                (a1\<lparr>aa_disk_byte_total := aa_disk_byte_total a1 - ent_byte_len e,
                    aa_dirty_persist := removeAll i (aa_dirty_persist a1)\<rparr>) in
              if is_disk_persisted (ent_retention e) then delete_row env i a2 else a2))"

text \<open>An eviction that the subscribers are told of.\<close>

definition evict_and_tell :: "AssetEnv \<Rightarrow> bytes \<Rightarrow> AssetActor \<Rightarrow> AssetActor" where
  "evict_and_tell env i a = tell (AssetIsCleared i) (evict_entry env i a)"

section \<open>Victims\<close>

record Victims =
  vt_lru :: "(bytes \<times> nat) option"
  vt_ttl :: "(bytes \<times> u64) option"
  vt_pinned :: "(bytes \<times> u64) option"

definition no_victims :: Victims where "no_victims = \<lparr>vt_lru = None, vt_ttl = None, vt_pinned = None\<rparr>"

definition lru_score :: "u64 \<Rightarrow> AssetEntry \<Rightarrow> nat" where
  "lru_score clock e = max (min ((unat clock - unat (ent_lru_seq e)) * ent_byte_len e) (2 ^ 128 - 1)) 1"

definition oldest :: "bytes \<Rightarrow> u64 \<Rightarrow> (bytes \<times> u64) option \<Rightarrow> (bytes \<times> u64) option" where
  "oldest i seq best = (case best of None \<Rightarrow> Some (i, seq) | Some (j, t) \<Rightarrow> if t \<le> seq then best else Some (i, seq))"

definition consider_victim :: "u64 \<Rightarrow> bytes \<times> AssetEntry \<Rightarrow> Victims \<Rightarrow> Victims" where
  "consider_victim clock x v =
    (let (i, e) = x in
     case ent_storage e of
       OnDisk _ \<Rightarrow> v
     | InMemory _ \<Rightarrow>
         (case rt_lifetime (ent_retention e) of
            Lru \<Rightarrow>
              let score = lru_score clock e in
              (case vt_lru v of
                 None \<Rightarrow> v\<lparr>vt_lru := Some (i, score)\<rparr>
               | Some (j, s) \<Rightarrow> if score \<le> s then v else v\<lparr>vt_lru := Some (i, score)\<rparr>)
          | Ttl _ \<Rightarrow> v\<lparr>vt_ttl := oldest i (ent_lru_seq e) (vt_ttl v)\<rparr>
          | KeepPinned \<Rightarrow> v\<lparr>vt_pinned := oldest i (ent_lru_seq e) (vt_pinned v)\<rparr>))"

definition pick_memory_victim :: "AssetActor \<Rightarrow> bytes option" where
  "pick_memory_victim a =
    (let v = fold (consider_victim (aa_lru_clock a)) (aa_entries a) no_victims in
     case vt_lru v of
       Some (i, _) \<Rightarrow> Some i
     | None \<Rightarrow>
         (case vt_ttl v of
            Some (i, _) \<Rightarrow> Some i
          | None \<Rightarrow> map_option fst (vt_pinned v)))"

definition min_by_key :: "('a \<Rightarrow> 'k :: linorder) \<Rightarrow> 'a list \<Rightarrow> 'a option" where
  "min_by_key f xs =
    fold (\<lambda>x best. case best of None \<Rightarrow> Some x | Some b \<Rightarrow> if f x < f b then Some x else Some b) xs None"

definition age_key :: "bytes \<times> AssetEntry \<Rightarrow> int \<times> u64" where
  "age_key x = (ent_accessed_at (snd x), ent_lru_seq (snd x))"

definition pick_disk_evictable_victim :: "AssetActor \<Rightarrow> bytes option" where
  "pick_disk_evictable_victim a =
    map_option fst (min_by_key age_key
      (filter (\<lambda>(_, e). entry_tier e = DiskTier \<and> rt_lifetime (ent_retention e) \<noteq> KeepPinned) (aa_entries a)))"

definition pick_disk_pinned_victim :: "AssetActor \<Rightarrow> bytes option" where
  "pick_disk_pinned_victim a =
    map_option fst (min_by_key age_key
      (filter (\<lambda>(_, e). entry_tier e = DiskTier \<and> rt_lifetime (ent_retention e) = KeepPinned) (aa_entries a)))"

definition disk_over_limit :: "nat \<Rightarrow> nat \<Rightarrow> nat \<Rightarrow> nat \<Rightarrow> bool" where
  "disk_over_limit current_bytes free_bytes budget headroom \<longleftrightarrow> current_bytes > budget \<or> free_bytes < headroom"

text \<open>A victim is an entry, so that the loops below come to an end.\<close>

lemma min_by_key_in: "min_by_key f xs = Some x \<Longrightarrow> x \<in> set xs"
proof -
  have "fold (\<lambda>x best. case best of None \<Rightarrow> Some x | Some b \<Rightarrow> if f x < f b then Some x else Some b) xs b = Some x
      \<Longrightarrow> x \<in> set xs \<or> b = Some x" for b
    by (induction xs arbitrary: b) (auto split: option.splits if_splits)
  then show "min_by_key f xs = Some x \<Longrightarrow> x \<in> set xs" by (fastforce simp: min_by_key_def)
qed

lemma min_by_key_None [simp]: "min_by_key f xs = None \<longleftrightarrow> xs = []"
proof -
  have "fold (\<lambda>x best. case best of None \<Rightarrow> Some x | Some b \<Rightarrow> if f x < f b then Some x else Some b) xs b = None
      \<longleftrightarrow> xs = [] \<and> b = None" for b
    by (induction xs arbitrary: b) (auto split: option.splits)
  then show ?thesis by (simp add: min_by_key_def)
qed

lemma vt_consider:
  "vt_lru (consider_victim c (i, e) v) =
    (if entry_tier e = MemoryTier \<and> rt_lifetime (ent_retention e) = Lru
     then (case vt_lru v of
             None \<Rightarrow> Some (i, lru_score c e)
           | Some (j, s) \<Rightarrow> if lru_score c e \<le> s then vt_lru v else Some (i, lru_score c e))
     else vt_lru v)"
  "vt_ttl (consider_victim c (i, e) v) =
    (if entry_tier e = MemoryTier \<and> ttl_seconds (ent_retention e) \<noteq> None then oldest i (ent_lru_seq e) (vt_ttl v) else vt_ttl v)"
  "vt_pinned (consider_victim c (i, e) v) =
    (if entry_tier e = MemoryTier \<and> rt_lifetime (ent_retention e) = KeepPinned then oldest i (ent_lru_seq e) (vt_pinned v)
     else vt_pinned v)"
  by (cases "ent_storage e"; cases "rt_lifetime (ent_retention e)";
      simp add: consider_victim_def entry_tier_def ttl_seconds_def Let_def split: option.split)+

text \<open>A fold that keeps the best of the elements of one kind finds one if there is one, and only such.\<close>

lemma fold_best:
  assumes step: "\<And>i e v. get (f (i, e) v) = (if P e then better i e (get v) else get v)"
    and better: "\<And>i e b. better i e b = Some (i, key e) \<or> better i e b = b \<and> b \<noteq> None"
  shows "get (fold f es v) = Some (i, s) \<Longrightarrow> get v = Some (i, s) \<or> (\<exists>e. (i, e) \<in> set es \<and> P e)"
    and "get (fold f es v) = None \<longleftrightarrow> get v = None \<and> (\<forall>(i, e) \<in> set es. \<not> P e)"
proof (induction es arbitrary: v)
  case (Cons x es)
  obtain j e where x: "x = (j, e)" by (cases x)
  { case 1
    then have "get (f x v) = Some (i, s) \<or> (\<exists>e. (i, e) \<in> set es \<and> P e)" using Cons(1) by simp
    then show ?case using better [of j e "get v"] by (auto simp: x step split: if_splits)
  next
    case 2
    show ?case using Cons(2) [of "f x v"] better [of j e "get v"] by (auto simp: x step) }
qed simp_all

definition lru_better :: "u64 \<Rightarrow> bytes \<Rightarrow> AssetEntry \<Rightarrow> (bytes \<times> nat) option \<Rightarrow> (bytes \<times> nat) option" where
  "lru_better c i e best =
    (case best of
       None \<Rightarrow> Some (i, lru_score c e)
     | Some (j, s) \<Rightarrow> if lru_score c e \<le> s then best else Some (i, lru_score c e))"

lemma lru_better_cases: "lru_better c i e b = Some (i, lru_score c e) \<or> lru_better c i e b = b \<and> b \<noteq> None"
  by (auto simp: lru_better_def split: option.split)

lemma oldest_cases: "oldest i s b = Some (i, s) \<or> oldest i s b = b \<and> b \<noteq> None"
  by (auto simp: oldest_def split: option.split)

lemmas lru_fold = fold_best [where f = "consider_victim c" and get = vt_lru and better = "lru_better c" and
  key = "lru_score c", OF vt_consider(1) [of c, folded lru_better_def] lru_better_cases] for c

lemmas ttl_fold = fold_best [where f = "consider_victim c" and get = vt_ttl and better = "\<lambda>i e. oldest i (ent_lru_seq e)"
  and key = ent_lru_seq, OF vt_consider(2) [of c] oldest_cases] for c

lemmas pinned_fold = fold_best [where f = "consider_victim c" and get = vt_pinned and
  better = "\<lambda>i e. oldest i (ent_lru_seq e)" and key = ent_lru_seq, OF vt_consider(3) [of c] oldest_cases] for c

lemma no_victims_simps [simp]: "vt_lru no_victims = None" "vt_ttl no_victims = None" "vt_pinned no_victims = None"
  by (simp_all add: no_victims_def)

lemma tier_cases: "entry_tier e = MemoryTier \<or> entry_tier e = DiskTier" by (cases "entry_tier e") auto

lemma lifetime_cases: "rt_lifetime r = Lru \<or> ttl_seconds r \<noteq> None \<or> rt_lifetime r = KeepPinned"
  by (cases "rt_lifetime r") (auto simp: ttl_seconds_def)

text \<open>Which entry must go: one that is least recently used before one with a time to live, and a pinned one last.\<close>

lemma pick_memory_victim_cases:
  assumes "pick_memory_victim a = Some i"
  obtains (lru) e where "(i, e) \<in> set (aa_entries a)" "entry_tier e = MemoryTier" "rt_lifetime (ent_retention e) = Lru"
  | (ttl) e where "(i, e) \<in> set (aa_entries a)" "entry_tier e = MemoryTier" "ttl_seconds (ent_retention e) \<noteq> None"
  | (pinned) e where "(i, e) \<in> set (aa_entries a)" "entry_tier e = MemoryTier" "rt_lifetime (ent_retention e) = KeepPinned"
      "\<forall>(j, f) \<in> set (aa_entries a). entry_tier f = MemoryTier \<longrightarrow> rt_lifetime (ent_retention f) = KeepPinned"
proof -
  let ?v = "fold (consider_victim (aa_lru_clock a)) (aa_entries a) no_victims"
  show thesis
  proof (cases "vt_lru ?v")
    case (Some x)
    with assms lru_fold(1) [of "aa_lru_clock a" "aa_entries a" no_victims "fst x" "snd x"] show ?thesis
      by (auto simp: pick_memory_victim_def Let_def split: prod.splits intro: lru)
  next
    case no_lru: None
    show ?thesis
    proof (cases "vt_ttl ?v")
      case (Some x)
      with assms no_lru ttl_fold(1) [of "aa_lru_clock a" "aa_entries a" no_victims "fst x" "snd x"] show ?thesis
        by (auto simp: pick_memory_victim_def Let_def split: prod.splits intro: ttl)
    next
      case None
      with assms no_lru obtain s where p: "vt_pinned ?v = Some (i, s)"
        by (auto simp: pick_memory_victim_def Let_def)
      have "rt_lifetime (ent_retention f) = KeepPinned" if "(j, f) \<in> set (aa_entries a)" "entry_tier f = MemoryTier" for j f
        using that no_lru None lru_fold(2) [of "aa_lru_clock a" "aa_entries a" no_victims]
          ttl_fold(2) [of "aa_lru_clock a" "aa_entries a" no_victims] lifetime_cases [of "ent_retention f"] by auto
      with pinned_fold(1) [OF p] show ?thesis by (auto intro: pinned)
    qed
  qed
qed

lemma pick_memory_victim_in:
  assumes "pick_memory_victim a = Some i"
  obtains e where "(i, e) \<in> set (aa_entries a)" "entry_tier e = MemoryTier"
  using assms by (cases rule: pick_memory_victim_cases) auto

lemma pick_memory_victim_None:
  "pick_memory_victim a = None \<longleftrightarrow> (\<forall>(i, e) \<in> set (aa_entries a). entry_tier e = DiskTier)"
proof -
  let ?v = "fold (consider_victim (aa_lru_clock a)) (aa_entries a) no_victims"
  have "pick_memory_victim a = None \<longleftrightarrow> vt_lru ?v = None \<and> vt_ttl ?v = None \<and> vt_pinned ?v = None"
    by (auto simp: pick_memory_victim_def Let_def split: option.split)
  moreover have "entry_tier e = DiskTier \<longleftrightarrow> \<not> (entry_tier e = MemoryTier \<and> rt_lifetime (ent_retention e) = Lru) \<and>
      \<not> (entry_tier e = MemoryTier \<and> ttl_seconds (ent_retention e) \<noteq> None) \<and>
      \<not> (entry_tier e = MemoryTier \<and> rt_lifetime (ent_retention e) = KeepPinned)" for e
    using tier_cases [of e] lifetime_cases [of "ent_retention e"] by auto
  ultimately show ?thesis
    unfolding lru_fold(2) ttl_fold(2) pinned_fold(2) by (auto simp del: not_None_eq)
qed

lemma pick_disk_in:
  "pick_disk_evictable_victim a = Some i \<Longrightarrow>
    \<exists>e. (i, e) \<in> set (aa_entries a) \<and> entry_tier e = DiskTier \<and> rt_lifetime (ent_retention e) \<noteq> KeepPinned"
  "pick_disk_pinned_victim a = Some i \<Longrightarrow>
    \<exists>e. (i, e) \<in> set (aa_entries a) \<and> entry_tier e = DiskTier \<and> rt_lifetime (ent_retention e) = KeepPinned"
  by (fastforce simp: pick_disk_evictable_victim_def pick_disk_pinned_victim_def dest: min_by_key_in)+

lemma entries_evict_entry: "aa_entries (evict_entry env i a) = AList.delete i (aa_entries a)"
  by (auto simp: evict_entry_def remove_file_def delete_row_def Let_def map_of_eq_None_iff split: option.splits EntryStorage.splits)

lemma evict_shrinks: "(i, e) \<in> set (aa_entries a) \<Longrightarrow> length (aa_entries (evict_and_tell env i a)) < length (aa_entries a)"
proof -
  assume "(i, e) \<in> set (aa_entries a)"
  then have "length (filter (\<lambda>(j, _). i \<noteq> j) (aa_entries a)) < length (aa_entries a)"
    by (intro length_filter_less) auto
  then show ?thesis
    by (simp add: evict_and_tell_def tell_def entries_evict_entry AList.delete_eq)
qed

section \<open>Eviction\<close>

function evict_until_under_memory_budget :: "AssetEnv \<Rightarrow> AssetActor \<Rightarrow> AssetActor" where
  "evict_until_under_memory_budget env a =
    (if aa_memory_byte_total a > MEMORY_BUDGET_BYTES
     then (case pick_memory_victim a of
             None \<Rightarrow> a
           | Some victim \<Rightarrow> evict_until_under_memory_budget env (evict_and_tell env victim a))
     else a)"
  by pat_completeness auto

termination
  by (relation "measure (\<lambda>(env, a). length (aa_entries a))") (auto elim!: pick_memory_victim_in intro: evict_shrinks)

definition freed_bytes :: "bytes \<Rightarrow> AssetActor \<Rightarrow> nat" where
  "freed_bytes i a = (case map_of (aa_entries a) i of None \<Rightarrow> 0 | Some e \<Rightarrow> ent_byte_len e)"

definition free_add :: "nat \<Rightarrow> nat \<Rightarrow> nat" where "free_add x y = min (x + y) (2 ^ 64 - 1)"

text \<open>The two loops of \<open>enforce_disk_limits\<close>; both carry the space they believe to be free.\<close>

function evict_over_limit :: "AssetEnv \<Rightarrow> nat \<Rightarrow> nat \<Rightarrow> AssetActor \<Rightarrow> nat \<times> AssetActor" where
  "evict_over_limit env min_free free a =
    (if disk_over_limit (aa_disk_byte_total a) free DISK_BUDGET_BYTES min_free
     then (case pick_disk_evictable_victim a of
             None \<Rightarrow> (free, a)
           | Some victim \<Rightarrow>
               evict_over_limit env min_free (free_add free (freed_bytes victim a)) (evict_and_tell env victim a))
     else (free, a))"
  by pat_completeness auto

termination
  by (relation "measure (\<lambda>(env, m, f, a). length (aa_entries a))") (auto dest!: pick_disk_in(1) intro: evict_shrinks)

function evict_pinned :: "AssetEnv \<Rightarrow> nat \<Rightarrow> nat \<Rightarrow> AssetActor \<Rightarrow> AssetActor" where
  "evict_pinned env min_free free a =
    (if free < min_free
     then (case pick_disk_pinned_victim a of
             None \<Rightarrow> a
           | Some victim \<Rightarrow>
               evict_pinned env min_free (free_add free (freed_bytes victim a)) (evict_and_tell env victim a))
     else a)"
  by pat_completeness auto

termination
  by (relation "measure (\<lambda>(env, m, f, a). length (aa_entries a))") (auto dest!: pick_disk_in(2) intro: evict_shrinks)

declare evict_until_under_memory_budget.simps [simp del] evict_over_limit.simps [simp del] evict_pinned.simps [simp del]

definition enforce_disk_limits :: "AssetEnv \<Rightarrow> nat \<Rightarrow> AssetActor \<Rightarrow> AssetActor" where
  "enforce_disk_limits env min_free a =
    (let (free, a1) = evict_over_limit env min_free (ae_free env) a in evict_pinned env min_free free a1)"

definition evict_until_under_disk_budget :: "AssetEnv \<Rightarrow> AssetActor \<Rightarrow> AssetActor" where
  "evict_until_under_disk_budget env a = enforce_disk_limits env DISK_FREE_HEADROOM_BYTES a"

definition reserve_disk :: "AssetEnv \<Rightarrow> nat \<Rightarrow> AssetActor \<Rightarrow> AssetActor" where
  "reserve_disk env need_bytes a = enforce_disk_limits env (free_add DISK_FREE_HEADROOM_BYTES need_bytes) a"

definition make_disk_room :: "AssetEnv \<Rightarrow> bytes \<Rightarrow> bool \<Rightarrow> AssetActor \<Rightarrow> (AssetError + unit) \<times> AssetActor" where
  "make_disk_room env new_id new_is_pinned a =
    (let a1 = evict_until_under_disk_budget env a in
     if aa_disk_byte_total a1 > DISK_BUDGET_BYTES \<and> new_is_pinned
     then (Inl DiskBudgetExceeded, evict_entry env new_id a1)
     else (Inr (), a1))"

section \<open>Commands\<close>

definition new_entry :: "AssetEnv \<Rightarrow> Retention \<Rightarrow> bytes option \<Rightarrow> nat \<Rightarrow> u64 \<Rightarrow> EntryStorage \<Rightarrow> AssetEntry" where
  "new_entry env r mime byte_len lru_seq storage =
    \<lparr>ent_retention = r, ent_mime = mime, ent_byte_len = byte_len, ent_accessed_at = ae_unix_now env,
     ent_lru_seq = lru_seq, ent_ttl_deadline = ttl_deadline_for (ae_instant env) r, ent_storage = storage\<rparr>"

definition put_entry :: "bytes \<Rightarrow> AssetEntry \<Rightarrow> AssetActor \<Rightarrow> AssetActor" where
  "put_entry i e a = a\<lparr>aa_entries := AList.update i e (aa_entries a)\<rparr>"

text \<open>What both insertions do once the content is in memory, or in the file it stays in.\<close>

definition enter_memory :: "AssetEnv \<Rightarrow> bytes \<Rightarrow> bytes \<Rightarrow> bytes option \<Rightarrow> Retention \<Rightarrow> AssetActor \<Rightarrow> (AssetError + unit) \<times> AssetActor" where
  "enter_memory env i content mime r a =
    (let a1 = a\<lparr>aa_memory_byte_total := sat_add (aa_memory_byte_total a) (length content)\<rparr>;
         (lru_seq, a2) = next_lru_seq a1;
         a3 = put_entry i (new_entry env r mime (length content) lru_seq (InMemory content)) a2
     in (Inr (), tell (AssetIsReady i) (evict_until_under_memory_budget env a3)))"

definition enter_disk ::
  "AssetEnv \<Rightarrow> bytes \<Rightarrow> bytes \<Rightarrow> nat \<Rightarrow> bytes option \<Rightarrow> Retention \<Rightarrow> AssetActor \<Rightarrow> (AssetError + unit) \<times> AssetActor" where
  "enter_disk env i dest byte_len mime r a =
    (let a1 = a\<lparr>aa_disk_byte_total := sat_add (aa_disk_byte_total a) byte_len\<rparr>;
         (persisted, a2) =
           (if is_disk_persisted r
            then persist_write env i dest mime byte_len (ae_unix_now env) (is_pinned r) a1 else (Inr (), a1))
     in case persisted of
          Inl err \<Rightarrow> (Inl err, a2)
        | Inr _ \<Rightarrow>
            let (lru_seq, a3) = next_lru_seq a2;
                a4 = put_entry i (new_entry env r mime byte_len lru_seq (OnDisk dest)) a3;
                (room, a5) = make_disk_room env i (is_pinned r) a4
            in case room of
                 Inl err \<Rightarrow> (Inl err, a5)
               | Inr _ \<Rightarrow> (Inr (), tell (AssetIsReady i) a5))"

definition safe_blob_name :: "(bytes \<Rightarrow> bytes) \<Rightarrow> bytes \<Rightarrow> bytes" where
  "safe_blob_name sha256_hex i = sha256_hex i"

definition handle_insert ::
  "(bytes \<Rightarrow> bytes) \<Rightarrow> AssetEnv \<Rightarrow> bytes \<Rightarrow> bytes \<Rightarrow> bytes option \<Rightarrow> Retention \<Rightarrow> AssetActor \<Rightarrow> (AssetError + unit) \<times> AssetActor" where
  "handle_insert sha env i content mime r a =
    (if content = [] then (Inr (), a)
     else
       let a1 = evict_entry env i a in
       (case rt_tier r of
          MemoryTier \<Rightarrow> enter_memory env i content mime r a1
        | DiskTier \<Rightarrow>
            let dest = safe_blob_name sha i;
                (written, a2) = write_file env (BlobPath dest) content a1
            in if written then enter_disk env i dest (length content) mime r a2 else (Inl AssetIo, a2)))"

definition handle_insert_from_path ::
  "(bytes \<Rightarrow> bytes) \<Rightarrow> AssetEnv \<Rightarrow> bytes \<Rightarrow> AssetPath \<Rightarrow> bytes option \<Rightarrow> Retention \<Rightarrow> AssetActor \<Rightarrow> (AssetError + unit) \<times> AssetActor" where
  "handle_insert_from_path sha env i source mime r a =
    (case (if ae_stat env then map_of (aa_files a) source else None) of
       None \<Rightarrow> (Inl AssetIo, a)
     | Some found \<Rightarrow>
         if found = [] then (Inr (), remove_file env source a)
         else
           let a1 = evict_entry env i a in
           (case rt_tier r of
              DiskTier \<Rightarrow>
                let dest = safe_blob_name sha i;
                    (moved, a2) = rename_or_copy env source (BlobPath dest) (remove_file env (BlobPath dest) a1)
                in if moved then enter_disk env i dest (length found) mime r a2 else (Inl AssetIo, a2)
            | MemoryTier \<Rightarrow>
                (case (if ae_read env then map_of (aa_files a1) source else None) of
                   None \<Rightarrow> (Inl AssetIo, a1)
                 | Some content \<Rightarrow> enter_memory env i content mime r (remove_file env source a1))))"

definition handle_set_retention :: "AssetEnv \<Rightarrow> bytes \<Rightarrow> Retention \<Rightarrow> AssetActor \<Rightarrow> (AssetError + unit) \<times> AssetActor" where
  "handle_set_retention env i r a =
    (case map_of (aa_entries a) i of
       None \<Rightarrow> (Inr (), a)
     | Some e \<Rightarrow>
         if entry_tier e \<noteq> rt_tier r then (Inr (), a)
         else
           let a1 = put_entry i (e\<lparr>ent_retention := r, ent_ttl_deadline := ttl_deadline_for (ae_instant env) r\<rparr>) a in
           (case ent_storage e of
              InMemory _ \<Rightarrow> (Inr (), a1)
            | OnDisk dest \<Rightarrow>
                if is_disk_persisted r
                then persist_write env i dest (ent_mime e) (ent_byte_len e) (ent_accessed_at e) (is_pinned r) a1
                else (Inr (), delete_row env i a1)))"

definition handle_get :: "AssetEnv \<Rightarrow> bytes \<Rightarrow> AssetActor \<Rightarrow> CachedAsset option \<times> AssetActor" where
  "handle_get env i a =
    (let (lru_seq, a1) = next_lru_seq a in
     case map_of (aa_entries a1) i of
       None \<Rightarrow> (None, a1)
     | Some e \<Rightarrow>
         let a2 = put_entry i (e\<lparr>ent_accessed_at := ae_unix_now env, ent_lru_seq := lru_seq\<rparr>) a1 in
         (case ent_storage e of
            InMemory content \<Rightarrow> (Some \<lparr>ca_bytes = content, ca_mime = ent_mime e\<rparr>, a2)
          | OnDisk path \<Rightarrow>
              (case (if ae_read env then map_of (aa_files a2) (BlobPath path) else None) of
                 None \<Rightarrow> (None, a2)
               | Some raw \<Rightarrow>
                   (Some \<lparr>ca_bytes = raw, ca_mime = ent_mime e\<rparr>,
                    a2\<lparr>aa_dirty_persist := List.insert i (aa_dirty_persist a2)\<rparr>))))"

definition handle_clear :: "AssetEnv \<Rightarrow> bytes \<Rightarrow> AssetActor \<Rightarrow> AssetActor" where
  "handle_clear env i a = (if map_of (aa_entries a) i \<noteq> None then evict_and_tell env i a else a)"

definition ttl_sweep :: "AssetEnv \<Rightarrow> AssetActor \<Rightarrow> AssetActor" where
  "ttl_sweep env a =
    (let expired = map fst (filter (\<lambda>(_, e). case ent_ttl_deadline e of None \<Rightarrow> False | Some d \<Rightarrow> d \<le> ae_instant env) (aa_entries a))
     in fold (evict_and_tell env) expired a)"

definition flush_persist_touches :: "AssetEnv \<Rightarrow> AssetActor \<Rightarrow> AssetActor" where
  "flush_persist_touches env a =
    (if aa_dirty_persist a = [] then a
     else
       a\<lparr>aa_dirty_persist := [],
         aa_rows := (if ae_row_update env
           then map (\<lambda>(i, row). (i, if i \<in> set (aa_dirty_persist a) then row\<lparr>row_accessed_at := ae_unix_now env\<rparr> else row)) (aa_rows a)
           else aa_rows a)\<rparr>)"

datatype AssetCommand =
    InsertAsset bytes bytes "bytes option" Retention
  | InsertFromPath bytes AssetPath "bytes option" Retention
  | SetRetention bytes Retention
  | GetAsset bytes
  | ContainsAsset bytes
  | IsDiskPinned bytes
  | ClearAsset bytes
  | ReserveDisk nat

datatype AssetReply =
    Acked "AssetError + unit"
  | GotAsset "CachedAsset option"
  | Answered bool

fun handle_asset :: "(bytes \<Rightarrow> bytes) \<Rightarrow> AssetEnv \<Rightarrow> AssetCommand \<Rightarrow> AssetActor \<Rightarrow> AssetReply \<times> AssetActor" where
  "handle_asset sha env (InsertAsset i content mime r) a = apfst Acked (handle_insert sha env i content mime r a)"
| "handle_asset sha env (InsertFromPath i source mime r) a = apfst Acked (handle_insert_from_path sha env i source mime r a)"
| "handle_asset sha env (SetRetention i r) a = apfst Acked (handle_set_retention env i r a)"
| "handle_asset sha env (GetAsset i) a = apfst GotAsset (handle_get env i a)"
| "handle_asset sha env (ContainsAsset i) a = (Answered (map_of (aa_entries a) i \<noteq> None), a)"
| "handle_asset sha env (IsDiskPinned i) a =
    (Answered (case map_of (aa_entries a) i of
       None \<Rightarrow> False | Some e \<Rightarrow> entry_tier e = DiskTier \<and> is_pinned (ent_retention e)), a)"
| "handle_asset sha env (ClearAsset i) a = (Acked (Inr ()), handle_clear env i a)"
| "handle_asset sha env (ReserveDisk need) a = (Acked (Inr ()), reserve_disk env need a)"

section \<open>Restart\<close>

text \<open>A row whose file is gone is dropped; what is left becomes an entry, oldest first.\<close>

definition restore_row :: "AssetEnv \<Rightarrow> bytes \<times> AssetRow \<Rightarrow> AssetActor \<Rightarrow> AssetActor" where
  "restore_row env x a =
    (let (i, row) = x in
     if map_of (aa_files a) (BlobPath (row_path row)) = None then delete_row env i a
     else
       let byte_len = nat (max (row_byte_len row) 0);
           a1 = a\<lparr>aa_disk_byte_total := sat_add (aa_disk_byte_total a) byte_len\<rparr>;
           (lru_seq, a2) = next_lru_seq a1
       in put_entry i \<lparr>ent_retention = (if row_pinned row then DISK_PINNED else DISK_LRU), ent_mime = row_mime row,
            ent_byte_len = byte_len, ent_accessed_at = row_accessed_at row, ent_lru_seq = lru_seq,
            ent_ttl_deadline = None, ent_storage = OnDisk (row_path row)\<rparr> a2)"

definition live_blob_names :: "AssetActor \<Rightarrow> bytes list" where
  "live_blob_names a = List.map_filter (\<lambda>(_, e). case ent_storage e of OnDisk path \<Rightarrow> Some path | InMemory _ \<Rightarrow> None) (aa_entries a)"

definition sweep_orphan_blobs :: "AssetEnv \<Rightarrow> bytes list \<Rightarrow> AssetActor \<Rightarrow> AssetActor" where
  "sweep_orphan_blobs env live a =
    a\<lparr>aa_files := filter (\<lambda>(p, _). case p of OtherPath _ \<Rightarrow> True | BlobPath name \<Rightarrow> name \<in> set live \<or> \<not> ae_remove env p) (aa_files a)\<rparr>"

definition bootstrap :: "AssetEnv \<Rightarrow> AssetActor \<Rightarrow> AssetActor" where
  "bootstrap env a =
    (let a1 = fold (restore_row env) (sort_key (\<lambda>(_, row). row_accessed_at row) (aa_rows a)) a;
         a2 = sweep_orphan_blobs env (live_blob_names a1) a1
     in evict_until_under_disk_budget env a2)"

definition asset_restart :: "AssetEnv \<Rightarrow> AssetActor \<Rightarrow> AssetActor" where
  "asset_restart env a = bootstrap env (AssetActor_new (aa_files a) (aa_rows a))"

text \<open>The actor's loop: a command, or a tick of the sweep.\<close>

datatype AssetInput = AssetCmd AssetCommand | AssetSweep

fun asset_step :: "(bytes \<Rightarrow> bytes) \<Rightarrow> AssetEnv \<times> AssetInput \<Rightarrow> AssetActor \<Rightarrow> AssetActor" where
  "asset_step sha (env, AssetCmd cmd) a = snd (handle_asset sha env cmd a)"
| "asset_step sha (env, AssetSweep) a = flush_persist_touches env (ttl_sweep env a)"

definition asset_run :: "(bytes \<Rightarrow> bytes) \<Rightarrow> (AssetEnv \<times> AssetInput) list \<Rightarrow> AssetActor \<Rightarrow> AssetActor" where
  "asset_run sha inputs a = fold (asset_step sha) inputs a"

end
