(* ===== verification/Asset_Facts.thy ===== *)
theory Asset_Facts
  imports Asset_Cache
begin

text \<open>The invariant of the asset cache and that every operation keeps it: the byte counts are those of the
  entries, the content of an entry is in memory or in the file that its name gives, and the rows of the database
  are those of the persistent entries. The database is taken to work; the disk may refuse anything.\<close>

declare map_of_eq_Some_iff [simp del]

section \<open>Counting\<close>

definition tier_len :: "Tier \<Rightarrow> AssetEntry \<Rightarrow> nat" where
  "tier_len t e = (if entry_tier e = t then ent_byte_len e else 0)"

definition bytes_of :: "Tier \<Rightarrow> (bytes \<rightharpoonup> AssetEntry) \<Rightarrow> nat" where
  "bytes_of t m = (\<Sum>i\<in>dom m. tier_len t (the (m i)))"

lemma bytes_of_empty [simp]: "bytes_of t Map.empty = 0"
  by (simp add: bytes_of_def)

lemma bytes_of_remove:
  assumes "finite (dom m)" and "m i = Some e"
  shows "bytes_of t m = bytes_of t (m(i := None)) + tier_len t e"
proof -
  have "bytes_of t m = tier_len t e + (\<Sum>j\<in>dom m - {i}. tier_len t (the (m j)))"
    using assms sum.remove [of "dom m" i "\<lambda>j. tier_len t (the (m j))"] by (auto simp: bytes_of_def)
  moreover have "(\<Sum>j\<in>dom m - {i}. tier_len t (the (m j))) = bytes_of t (m(i := None))"
    by (auto simp: bytes_of_def intro!: sum.cong)
  ultimately show ?thesis by simp
qed

lemma bytes_of_upd:
  "finite (dom m) \<Longrightarrow> bytes_of t (m(i \<mapsto> e)) = bytes_of t (m(i := None)) + tier_len t e"
  using bytes_of_remove [of "m(i \<mapsto> e)" i e t] by simp

lemma bytes_of_drop_le: "finite (dom m) \<Longrightarrow> bytes_of t (m(i := None)) \<le> bytes_of t m"
  using bytes_of_remove [of m i _ t] by (cases "m i") (auto simp: fun_upd_idem)

lemma bytes_of_zero: "(\<And>i e. m i = Some e \<Longrightarrow> entry_tier e \<noteq> t) \<Longrightarrow> bytes_of t m = 0"
  unfolding bytes_of_def tier_len_def by (intro sum.neutral) (clarsimp, blast)

lemma bytes_of_cong:
  assumes "dom m = dom m'" and "\<And>i e e'. m i = Some e \<Longrightarrow> m' i = Some e' \<Longrightarrow> tier_len t e = tier_len t e'"
  shows "bytes_of t m = bytes_of t m'"
  unfolding bytes_of_def
proof (rule sum.cong [OF assms(1)])
  fix i assume "i \<in> dom m'"
  then obtain e' where e': "m' i = Some e'" by auto
  then obtain e where "m i = Some e" using assms(1) by blast
  with e' show "tier_len t (the (m i)) = tier_len t (the (m' i))" using assms(2) by simp
qed

section \<open>The invariant\<close>

abbreviation entry_map :: "AssetActor \<Rightarrow> bytes \<rightharpoonup> AssetEntry" where "entry_map a \<equiv> map_of (aa_entries a)"
abbreviation file_map :: "AssetActor \<Rightarrow> AssetPath \<rightharpoonup> bytes" where "file_map a \<equiv> map_of (aa_files a)"
abbreviation row_map :: "AssetActor \<Rightarrow> bytes \<rightharpoonup> AssetRow" where "row_map a \<equiv> map_of (aa_rows a)"

definition fits :: "bytes \<Rightarrow> bool" where "fits content \<longleftrightarrow> length content < 2 ^ 63"

definition entry_ok :: "(bytes \<Rightarrow> bytes) \<Rightarrow> (AssetPath \<rightharpoonup> bytes) \<Rightarrow> bytes \<Rightarrow> AssetEntry \<Rightarrow> bool" where
  "entry_ok sha files i e \<longleftrightarrow> rt_tier (ent_retention e) = entry_tier e \<and>
    (\<exists>content. fits content \<and> length content = ent_byte_len e \<and>
      (case ent_storage e of
         InMemory c \<Rightarrow> c = content
       | OnDisk path \<Rightarrow> path = sha i \<and> files (BlobPath path) = Some content))"

definition row_describes :: "AssetEntry \<Rightarrow> AssetRow \<Rightarrow> bool" where
  "row_describes e row \<longleftrightarrow> ent_storage e = OnDisk (row_path row) \<and> row_mime row = ent_mime e \<and>
    row_byte_len row = int (ent_byte_len e) \<and> row_pinned row = is_pinned (ent_retention e)"

definition row_ok :: "AssetEntry option \<Rightarrow> AssetRow option \<Rightarrow> bool" where
  "row_ok entry row \<longleftrightarrow>
    (case row of
       None \<Rightarrow> (\<forall>e. entry = Some e \<longrightarrow> \<not> is_disk_persisted (ent_retention e))
     | Some w \<Rightarrow> (\<exists>e. entry = Some e \<and> is_disk_persisted (ent_retention e) \<and> row_describes e w))"

definition asset_inv :: "(bytes \<Rightarrow> bytes) \<Rightarrow> bytes set \<Rightarrow> AssetActor \<Rightarrow> bool" where
  "asset_inv sha ids a \<longleftrightarrow>
    inj_on sha ids \<and> dom (entry_map a) \<subseteq> ids \<and>
    distinct (map fst (aa_entries a)) \<and> distinct (map fst (aa_rows a)) \<and>
    aa_memory_byte_total a = bytes_of MemoryTier (entry_map a) \<and>
    aa_disk_byte_total a = bytes_of DiskTier (entry_map a) \<and>
    (\<forall>i e. entry_map a i = Some e \<longrightarrow> entry_ok sha (file_map a) i e) \<and>
    (\<forall>i. row_ok (entry_map a i) (row_map a i)) \<and>
    (\<forall>p content. file_map a p = Some content \<longrightarrow> fits content)"

definition db_ok :: "AssetEnv \<Rightarrow> bool" where
  "db_ok env \<longleftrightarrow> ae_row_write env \<and> (\<forall>i. ae_row_delete env i)"

lemma entry_ok_files:
  "entry_ok sha files i e \<Longrightarrow> (\<And>p. ent_storage e = OnDisk p \<Longrightarrow> files' (BlobPath p) = files (BlobPath p)) \<Longrightarrow>
    entry_ok sha files' i e"
  by (auto simp: entry_ok_def split: EntryStorage.splits)

lemma entry_ok_path: "entry_ok sha files i e \<Longrightarrow> ent_storage e = OnDisk p \<Longrightarrow> p = sha i"
  by (auto simp: entry_ok_def)

lemma asset_invD:
  assumes "asset_inv sha ids a"
  shows "inj_on sha ids" "dom (entry_map a) \<subseteq> ids" "distinct (map fst (aa_entries a))" "distinct (map fst (aa_rows a))"
    "aa_memory_byte_total a = bytes_of MemoryTier (entry_map a)" "aa_disk_byte_total a = bytes_of DiskTier (entry_map a)"
    "entry_map a i = Some e \<Longrightarrow> entry_ok sha (file_map a) i e" "row_ok (entry_map a i) (row_map a i)"
    "file_map a p = Some content \<Longrightarrow> fits content"
  using assms by (auto simp: asset_inv_def)

lemma row_ok_simps [simp]: "row_ok None row \<longleftrightarrow> row = None"
  "row_ok (Some e) None \<longleftrightarrow> \<not> is_disk_persisted (ent_retention e)"
  "row_ok (Some e) (Some w) \<longleftrightarrow> is_disk_persisted (ent_retention e) \<and> row_describes e w"
  by (auto simp: row_ok_def split: option.split)

text \<open>What the invariant does not look at.\<close>

lemma asset_inv_cong:
  "asset_inv sha ids a \<Longrightarrow> aa_entries a' = aa_entries a \<Longrightarrow> aa_memory_byte_total a' = aa_memory_byte_total a \<Longrightarrow>
    aa_disk_byte_total a' = aa_disk_byte_total a \<Longrightarrow> aa_files a' = aa_files a \<Longrightarrow> aa_rows a' = aa_rows a \<Longrightarrow>
    asset_inv sha ids a'"
  by (simp add: asset_inv_def)

lemma inv_tell [simp]: "asset_inv sha ids (tell ev a) = asset_inv sha ids a"
  by (simp add: tell_def asset_inv_def)

lemma remove_file_maps [simp]:
  "aa_entries (remove_file env p a) = aa_entries a" "aa_rows (remove_file env p a) = aa_rows a"
  "aa_events (remove_file env p a) = aa_events a" "aa_lru_clock (remove_file env p a) = aa_lru_clock a"
  "aa_memory_byte_total (remove_file env p a) = aa_memory_byte_total a"
  "aa_disk_byte_total (remove_file env p a) = aa_disk_byte_total a"
  "aa_dirty_persist (remove_file env p a) = aa_dirty_persist a"
  "file_map (remove_file env p a) = (if ae_remove env p then (file_map a)(p := None) else file_map a)"
  by (simp_all add: remove_file_def delete_conv')

lemma delete_row_maps [simp]:
  "aa_entries (delete_row env i a) = aa_entries a" "aa_files (delete_row env i a) = aa_files a"
  "aa_events (delete_row env i a) = aa_events a" "aa_lru_clock (delete_row env i a) = aa_lru_clock a"
  "aa_memory_byte_total (delete_row env i a) = aa_memory_byte_total a"
  "aa_disk_byte_total (delete_row env i a) = aa_disk_byte_total a"
  "aa_rows (delete_row env i a) = (if ae_row_delete env i then AList.delete i (aa_rows a) else aa_rows a)"
  by (simp_all add: delete_row_def)

section \<open>Evicting one entry\<close>

lemma evict_entry_absent: "entry_map a i = None \<Longrightarrow> evict_entry env i a = a"
  by (simp add: evict_entry_def)

lemma evict_entry_maps:
  "entry_map (evict_entry env i a) = (entry_map a)(i := None)"
  "aa_events (evict_entry env i a) = aa_events a"
  "aa_lru_clock (evict_entry env i a) = aa_lru_clock a"
  by (auto simp: entries_evict_entry delete_conv' evict_entry_def Let_def split: option.split EntryStorage.split)

lemma evict_entry_totals:
  assumes "entry_map a i = Some e"
  shows "aa_memory_byte_total (evict_entry env i a) = aa_memory_byte_total a - tier_len MemoryTier e"
    "aa_disk_byte_total (evict_entry env i a) = aa_disk_byte_total a - tier_len DiskTier e"
  using assms by (auto simp: evict_entry_def Let_def tier_len_def entry_tier_def split: EntryStorage.split)

lemma evict_entry_files:
  "p \<noteq> BlobPath (sha i) \<Longrightarrow> asset_inv sha ids a \<Longrightarrow> file_map (evict_entry env i a) p = file_map a p"
  by (auto simp: evict_entry_def Let_def split: option.split EntryStorage.split dest: entry_ok_path asset_invD(7))

lemma evict_entry_files_le: "file_map (evict_entry env i a) p = Some c \<Longrightarrow> file_map a p = Some c"
  by (auto simp: evict_entry_def Let_def split: option.splits EntryStorage.splits if_splits)

lemma evict_entry_rows:
  assumes "asset_inv sha ids a" and "db_ok env"
  shows "row_map (evict_entry env i a) = (row_map a)(i := None)" "distinct (map fst (aa_rows (evict_entry env i a)))"
proof -
  have r: "row_ok (entry_map a i) (row_map a i)" and d: "distinct (map fst (aa_rows a))"
    using assms(1) by (rule asset_invD)+
  show "row_map (evict_entry env i a) = (row_map a)(i := None)"
  proof (cases "entry_map a i")
    case None
    with r show ?thesis by (simp add: evict_entry_absent fun_upd_idem)
  next
    case (Some e)
    show ?thesis
    proof (cases "is_disk_persisted (ent_retention e)")
      case True
      then have "entry_tier e = DiskTier"
        using asset_invD(7) [OF assms(1) Some] by (simp add: entry_ok_def is_disk_persisted_def)
      with True Some assms(2) show ?thesis
        by (auto simp: evict_entry_def Let_def db_ok_def delete_conv' entry_tier_def split: EntryStorage.splits)
    next
      case False
      with r Some have "row_map a i = None" by (cases "row_map a i") auto
      with Some False show ?thesis by (auto simp: evict_entry_def Let_def fun_upd_idem split: EntryStorage.split)
    qed
  qed
  show "distinct (map fst (aa_rows (evict_entry env i a)))"
    using d by (auto simp: evict_entry_def Let_def distinct_delete split: option.split EntryStorage.split)
qed

lemma inv_evict_entry:
  assumes inv: "asset_inv sha ids a" and db: "db_ok env"
  shows "asset_inv sha ids (evict_entry env i a)"
proof (cases "entry_map a i")
  case None
  with inv show ?thesis by (simp add: evict_entry_absent)
next
  case (Some e)
  let ?a = "evict_entry env i a"
  have "entry_ok sha (file_map ?a) j f" if "entry_map ?a j = Some f" for j f
  proof -
    from that have j: "j \<noteq> i" "entry_map a j = Some f" by (auto simp: evict_entry_maps split: if_splits)
    then have ok: "entry_ok sha (file_map a) j f" using asset_invD(7) [OF inv] by blast
    have "i \<in> ids" "j \<in> ids" using asset_invD(2) [OF inv] Some j(2) by auto
    with j(1) have "sha j \<noteq> sha i" using asset_invD(1) [OF inv] by (auto dest: inj_onD)
    with ok show ?thesis
      by (intro entry_ok_files [OF ok]) (auto dest!: entry_ok_path [OF ok] simp: evict_entry_files [OF _ inv])
  qed
  moreover have "row_ok (entry_map ?a j) (row_map ?a j)" for j
    using asset_invD(8) [OF inv, of j] by (simp add: evict_entry_maps evict_entry_rows [OF inv db])
  moreover have "bytes_of t (entry_map a) = bytes_of t (entry_map ?a) + tier_len t e" for t
    using bytes_of_remove [of "entry_map a" i e t] Some by (simp add: evict_entry_maps finite_dom_map_of)
  moreover have "dom (entry_map ?a) \<subseteq> ids" using asset_invD(2) [OF inv] by (auto simp: evict_entry_maps(1))
  ultimately show ?thesis
    using inv Some evict_entry_rows(2) [OF inv db]
    by (simp add: asset_inv_def evict_entry_totals entries_evict_entry distinct_delete)
      (use evict_entry_files_le [of env i a] in blast)
qed

section \<open>What an asset is\<close>

definition asset_of :: "AssetActor \<Rightarrow> bytes \<rightharpoonup> CachedAsset" where
  "asset_of a i =
    (case entry_map a i of
       None \<Rightarrow> None
     | Some e \<Rightarrow>
         map_option (\<lambda>c. \<lparr>ca_bytes = c, ca_mime = ent_mime e\<rparr>)
           (case ent_storage e of InMemory c \<Rightarrow> Some c | OnDisk path \<Rightarrow> file_map a (BlobPath path)))"

lemma dom_asset_of: "asset_inv sha ids a \<Longrightarrow> asset_of a i = None \<longleftrightarrow> entry_map a i = None"
  using asset_invD(7) [of sha ids a i] by (auto simp: asset_of_def entry_ok_def split: option.split EntryStorage.split)

lemma asset_of_tell [simp]: "asset_of (tell ev a) = asset_of a"
  by (simp add: asset_of_def tell_def fun_eq_iff cong: option.case_cong EntryStorage.case_cong)

lemma asset_of_evict_entry:
  assumes inv: "asset_inv sha ids a"
  shows "asset_of (evict_entry env i a) = (asset_of a)(i := None)"
proof
  fix j
  show "asset_of (evict_entry env i a) j = ((asset_of a)(i := None)) j"
  proof (cases "j = i \<or> entry_map a j = None")
    case True
    then show ?thesis by (auto simp: asset_of_def evict_entry_maps)
  next
    case False
    then obtain e where j: "j \<noteq> i" "entry_map a j = Some e" by auto
    have "file_map (evict_entry env i a) (BlobPath p) = file_map a (BlobPath p)" if "ent_storage e = OnDisk p" for p
    proof (cases "entry_map a i")
      case (Some f)
      have "i \<in> ids" "j \<in> ids" using asset_invD(2) [OF inv] Some j(2) by auto
      with j(1) have "sha j \<noteq> sha i" using asset_invD(1) [OF inv] by (auto dest: inj_onD)
      then show ?thesis
        using entry_ok_path [OF asset_invD(7) [OF inv j(2)] that] by (simp add: evict_entry_files [OF _ inv])
    qed (simp add: evict_entry_absent)
    then show ?thesis using j by (simp add: asset_of_def evict_entry_maps split: EntryStorage.split)
  qed
qed

text \<open>A sequence of evictions that the subscribers have been told of, in order.\<close>

definition evicts :: "bytes list \<Rightarrow> AssetActor \<Rightarrow> AssetActor \<Rightarrow> bool" where
  "evicts gone a a' \<longleftrightarrow> entry_map a' = entry_map a |` (- set gone) \<and> asset_of a' = asset_of a |` (- set gone) \<and>
    aa_events a' = aa_events a @ map AssetIsCleared gone \<and> set gone \<subseteq> dom (entry_map a) \<and> aa_lru_clock a' = aa_lru_clock a"

lemma evicts_refl [simp]: "evicts [] a a"
  by (simp add: evicts_def restrict_map_def)

lemma evicts_trans: "evicts gone a b \<Longrightarrow> evicts gone' b c \<Longrightarrow> evicts (gone @ gone') a c"
  by (auto simp: evicts_def Int_commute)

lemma restrict_UNIV [simp]: "m |` UNIV = m"
  by (simp add: restrict_map_def)

lemma restrict_single: "m |` (- {i}) = m(i := None)"
  by (auto simp: restrict_map_def)

lemma evicts_evict_and_tell:
  assumes "asset_inv sha ids a" and "i \<in> dom (entry_map a)"
  shows "evicts [i] a (evict_and_tell env i a)"
  using assms
  by (auto simp: evicts_def evict_and_tell_def restrict_single asset_of_evict_entry, simp_all add: tell_def evict_entry_maps)

lemma inv_evict_and_tell: "asset_inv sha ids a \<Longrightarrow> db_ok env \<Longrightarrow> asset_inv sha ids (evict_and_tell env i a)"
  by (simp add: evict_and_tell_def inv_evict_entry)

section \<open>The loops\<close>

text \<open>The entries that go have a property in common.\<close>

definition all_are :: "(AssetEntry \<Rightarrow> bool) \<Rightarrow> bytes list \<Rightarrow> AssetActor \<Rightarrow> bool" where
  "all_are P gone a \<longleftrightarrow> (\<forall>i\<in>set gone. \<exists>e. entry_map a i = Some e \<and> P e)"

lemma all_are_Nil [simp]: "all_are P [] a" by (simp add: all_are_def)

lemma evicts_Cons:
  assumes "asset_inv sha ids a" and "(v, e) \<in> set (aa_entries a)" and "P e"
    and "evicts gone (evict_and_tell env v a) c" and "all_are P gone (evict_and_tell env v a)"
  shows "evicts (v # gone) a c" "all_are P (v # gone) a"
proof -
  have v: "entry_map a v = Some e" using assms(2) asset_invD(3) [OF assms(1)] by simp
  have ev: "evicts [v] a (evict_and_tell env v a)" using v by (intro evicts_evict_and_tell [OF assms(1)]) auto
  from evicts_trans [OF ev assms(4)] show "evicts (v # gone) a c" by simp
  show "all_are P (v # gone) a"
    using assms(3,5) v ev by (auto simp: all_are_def evicts_def restrict_map_def split: if_splits)
qed

lemma memory_loop:
  assumes "asset_inv sha ids a" and "db_ok env"
  shows "\<exists>gone. evicts gone a (evict_until_under_memory_budget env a) \<and>
    all_are (\<lambda>e. entry_tier e = MemoryTier) gone a \<and>
    asset_inv sha ids (evict_until_under_memory_budget env a) \<and>
    aa_memory_byte_total (evict_until_under_memory_budget env a) \<le> MEMORY_BUDGET_BYTES"
  using assms
proof (induction env a rule: evict_until_under_memory_budget.induct)
  case (1 env a)
  note inv = 1(2) and db = 1(3)
  show ?case
  proof (cases "MEMORY_BUDGET_BYTES < aa_memory_byte_total a")
    case False
    then show ?thesis using inv by (intro exI [of _ "[]"]) (simp add: evict_until_under_memory_budget.simps)
  next
    case over: True
    show ?thesis
    proof (cases "pick_memory_victim a")
      case None
      then have "bytes_of MemoryTier (entry_map a) = 0"
        unfolding pick_memory_victim_None by (intro bytes_of_zero) (auto dest!: map_of_SomeD)
      with over inv show ?thesis by (simp add: asset_inv_def)
    next
      case (Some v)
      then obtain e where e: "(v, e) \<in> set (aa_entries a)" "entry_tier e = MemoryTier" by (rule pick_memory_victim_in)
      have eq: "evict_until_under_memory_budget env a = evict_until_under_memory_budget env (evict_and_tell env v a)"
        using over Some by (subst evict_until_under_memory_budget.simps) simp
      from 1(1) [OF over Some inv_evict_and_tell [OF inv db] db] show ?thesis
        unfolding eq using evicts_Cons [OF inv e(1), of "\<lambda>e. entry_tier e = MemoryTier"] e(2) by blast
    qed
  qed
qed

lemma pick_disk_None:
  "pick_disk_evictable_victim a = None \<Longrightarrow> entry_map a i = Some e \<Longrightarrow> entry_tier e = DiskTier \<Longrightarrow>
    rt_lifetime (ent_retention e) = KeepPinned"
  by (auto simp: pick_disk_evictable_victim_def filter_empty_conv dest!: map_of_SomeD)

abbreviation on_disk :: "AssetEntry \<Rightarrow> bool" where "on_disk e \<equiv> entry_tier e = DiskTier"
abbreviation pinned_on_disk :: "AssetEntry \<Rightarrow> bool" where
  "pinned_on_disk e \<equiv> entry_tier e = DiskTier \<and> rt_lifetime (ent_retention e) = KeepPinned"
abbreviation evictable_on_disk :: "AssetEntry \<Rightarrow> bool" where
  "evictable_on_disk e \<equiv> entry_tier e = DiskTier \<and> rt_lifetime (ent_retention e) \<noteq> KeepPinned"

lemma over_limit_loop:
  assumes "asset_inv sha ids a" and "db_ok env"
  shows "\<exists>gone. evicts gone a (snd (evict_over_limit env min_free free a)) \<and> all_are evictable_on_disk gone a \<and>
    asset_inv sha ids (snd (evict_over_limit env min_free free a)) \<and>
    (aa_disk_byte_total (snd (evict_over_limit env min_free free a)) \<le> DISK_BUDGET_BYTES \<or>
     (\<forall>i e. entry_map (snd (evict_over_limit env min_free free a)) i = Some e \<longrightarrow> \<not> evictable_on_disk e))"
  using assms
proof (induction env min_free free a rule: evict_over_limit.induct)
  case (1 env min_free free a)
  note inv = 1(2) and db = 1(3)
  show ?case
  proof (cases "disk_over_limit (aa_disk_byte_total a) free DISK_BUDGET_BYTES min_free")
    case False
    then show ?thesis using inv by (intro exI [of _ "[]"]) (simp add: evict_over_limit.simps disk_over_limit_def)
  next
    case over: True
    show ?thesis
    proof (cases "pick_disk_evictable_victim a")
      case None
      then show ?thesis using over inv pick_disk_None [OF None]
        by (intro exI [of _ "[]"]) (auto simp: evict_over_limit.simps)
    next
      case (Some v)
      then obtain e where e: "(v, e) \<in> set (aa_entries a)" "evictable_on_disk e" using pick_disk_in(1) by blast
      have eq: "evict_over_limit env min_free free a =
          evict_over_limit env min_free (free_add free (freed_bytes v a)) (evict_and_tell env v a)"
        using over Some by (subst evict_over_limit.simps) simp
      from 1(1) [OF over Some inv_evict_and_tell [OF inv db] db] show ?thesis
        unfolding eq using evicts_Cons [OF inv e(1), of evictable_on_disk] e(2) by blast
    qed
  qed
qed

lemma pinned_loop:
  assumes "asset_inv sha ids a" and "db_ok env"
  shows "\<exists>gone. evicts gone a (evict_pinned env min_free free a) \<and> all_are pinned_on_disk gone a \<and>
    asset_inv sha ids (evict_pinned env min_free free a)"
  using assms
proof (induction env min_free free a rule: evict_pinned.induct)
  case (1 env min_free free a)
  note inv = 1(2) and db = 1(3)
  show ?case
  proof (cases "free < min_free \<and> pick_disk_pinned_victim a \<noteq> None")
    case False
    then show ?thesis using inv by (intro exI [of _ "[]"]) (auto simp: evict_pinned.simps)
  next
    case True
    then obtain v where v: "free < min_free" "pick_disk_pinned_victim a = Some v" by auto
    then obtain e where e: "(v, e) \<in> set (aa_entries a)" "pinned_on_disk e" using pick_disk_in(2) by blast
    have eq: "evict_pinned env min_free free a =
        evict_pinned env min_free (free_add free (freed_bytes v a)) (evict_and_tell env v a)"
      using v by (subst evict_pinned.simps) simp
    from 1(1) [OF v inv_evict_and_tell [OF inv db] db] show ?thesis
      unfolding eq using evicts_Cons [OF inv e(1), of pinned_on_disk] e(2) by blast
  qed
qed

lemma bytes_of_restrict_le: "finite (dom m) \<Longrightarrow> bytes_of t (m |` S) \<le> bytes_of t m"
  unfolding bytes_of_def by (rule order.trans [OF _ sum_mono2 [of "dom m" "dom m \<inter> S"]]) (auto intro!: sum_mono)

lemma evicts_totals:
  assumes "evicts gone a a'" "asset_inv sha ids a" "asset_inv sha ids a'"
  shows "aa_memory_byte_total a' \<le> aa_memory_byte_total a" "aa_disk_byte_total a' \<le> aa_disk_byte_total a"
  using assms bytes_of_restrict_le [OF finite_dom_map_of] by (simp_all add: evicts_def asset_inv_def)

lemma disk_limits:
  assumes "asset_inv sha ids a" and "db_ok env"
  obtains gone where "evicts gone a (enforce_disk_limits env min_free a)"
    "all_are on_disk gone a"
    "asset_inv sha ids (enforce_disk_limits env min_free a)"
    "aa_disk_byte_total (enforce_disk_limits env min_free a) \<le> DISK_BUDGET_BYTES \<or>
     (\<forall>i e. entry_map (enforce_disk_limits env min_free a) i = Some e \<longrightarrow> \<not> evictable_on_disk e)"
proof -
  let ?f = "fst (evict_over_limit env min_free (ae_free env) a)" and ?b = "snd (evict_over_limit env min_free (ae_free env) a)"
  have eq: "enforce_disk_limits env min_free a = evict_pinned env min_free ?f ?b"
    by (simp add: enforce_disk_limits_def case_prod_beta)
  obtain g where g: "evicts g a ?b" "all_are evictable_on_disk g a" "asset_inv sha ids ?b"
    "aa_disk_byte_total ?b \<le> DISK_BUDGET_BYTES \<or> (\<forall>i e. entry_map ?b i = Some e \<longrightarrow> \<not> evictable_on_disk e)"
    using over_limit_loop [OF assms] by blast
  let ?c = "evict_pinned env min_free ?f ?b"
  obtain h where h: "evicts h ?b ?c" "all_are pinned_on_disk h ?b" "asset_inv sha ids ?c"
    using pinned_loop [OF g(3) assms(2)] by blast
  have "all_are on_disk (g @ h) a"
    using g(1,2) h(2) by (fastforce simp: all_are_def evicts_def restrict_map_def split: if_splits)
  moreover have "aa_disk_byte_total ?c \<le> DISK_BUDGET_BYTES \<or> (\<forall>i e. entry_map ?c i = Some e \<longrightarrow> \<not> evictable_on_disk e)"
    using g(4) evicts_totals(2) [OF h(1) g(3) h(3)] h(1) by (auto simp: evicts_def restrict_map_def split: if_splits)
  ultimately show ?thesis using that [of "g @ h"] evicts_trans [OF g(1) h(1)] h(3) by (simp add: eq)
qed

text \<open>With enough room nothing is evicted.\<close>

lemma disk_limits_idle:
  "aa_disk_byte_total a \<le> DISK_BUDGET_BYTES \<Longrightarrow> min_free \<le> ae_free env \<Longrightarrow> enforce_disk_limits env min_free a = a"
  by (simp add: enforce_disk_limits_def evict_over_limit.simps evict_pinned.simps disk_over_limit_def)

end
