(* ===== verification/Asset_Steps.thy ===== *)
theory Asset_Steps
  imports Asset_Facts
begin

text \<open>What each command does to the invariant, the budgets, the assets that can be had, and what the subscribers
  are told.\<close>

section \<open>New files and new entries\<close>

definition within_budget :: "AssetActor \<Rightarrow> bool" where
  "within_budget a \<longleftrightarrow> aa_memory_byte_total a \<le> MEMORY_BUDGET_BYTES \<and> aa_disk_byte_total a \<le> DISK_BUDGET_BYTES"

lemma within_evicts:
  "evicts gone a a' \<Longrightarrow> asset_inv sha ids a \<Longrightarrow> asset_inv sha ids a' \<Longrightarrow> within_budget a \<Longrightarrow> within_budget a'"
  using evicts_totals [of gone a a' sha ids] by (auto simp: within_budget_def)

lemma within_evict_entry:
  "asset_inv sha ids a \<Longrightarrow> within_budget a \<Longrightarrow> within_budget (evict_entry env i a)"
  by (cases "entry_map a i") (auto simp: within_budget_def evict_entry_absent evict_entry_totals)

text \<open>Files may change as long as those of the entries do not.\<close>

lemma inv_files:
  assumes inv: "asset_inv sha ids a"
    and same: "aa_entries a' = aa_entries a" "aa_memory_byte_total a' = aa_memory_byte_total a"
      "aa_disk_byte_total a' = aa_disk_byte_total a" "aa_rows a' = aa_rows a"
    and files: "\<And>i. i \<in> dom (entry_map a) \<Longrightarrow> file_map a' (BlobPath (sha i)) = file_map a (BlobPath (sha i))"
    and fit: "\<And>p c. file_map a' p = Some c \<Longrightarrow> fits c"
  shows "asset_inv sha ids a'" "asset_of a' = asset_of a"
proof -
  have "entry_ok sha (file_map a') i e" if "entry_map a i = Some e" for i e
    using asset_invD(7) [OF inv that] files [of i] that
    by (intro entry_ok_files [OF asset_invD(7) [OF inv that]]) (auto dest!: entry_ok_path [OF asset_invD(7) [OF inv that]])
  then show "asset_inv sha ids a'" using inv same fit by (auto simp: asset_inv_def)
  show "asset_of a' = asset_of a"
  proof
    fix i show "asset_of a' i = asset_of a i"
    proof (cases "entry_map a i")
      case (Some e)
      then have "i \<in> dom (entry_map a)" by auto
      then show ?thesis using Some files [of i] entry_ok_path [OF asset_invD(7) [OF inv Some]]
        by (auto simp: asset_of_def same split: EntryStorage.split)
    qed (simp add: asset_of_def same)
  qed
qed

lemma fits_take: "fits c \<Longrightarrow> fits (take n c)"
  by (simp add: fits_def)

lemma other_blob:
  assumes "asset_inv sha ids a" and "entry_map a i = None" and "i \<in> ids" and "j \<in> dom (entry_map a)"
  shows "sha j \<noteq> sha i"
proof -
  have "j \<in> ids" "j \<noteq> i" using assms(2,4) asset_invD(2) [OF assms(1)] by auto
  with assms(3) show ?thesis using asset_invD(1) [OF assms(1)] by (auto dest: inj_onD)
qed

lemma inv_write_file:
  assumes inv: "asset_inv sha ids a" and i: "entry_map a i = None" "i \<in> ids" and fit: "fits content"
    and a': "a' = snd (write_file env (BlobPath (sha i)) content a)"
  shows "asset_inv sha ids a'" "asset_of a' = asset_of a" "aa_entries a' = aa_entries a" "aa_events a' = aa_events a"
    "aa_memory_byte_total a' = aa_memory_byte_total a" "aa_disk_byte_total a' = aa_disk_byte_total a"
    "fst (write_file env (BlobPath (sha i)) content a) \<Longrightarrow> file_map a' (BlobPath (sha i)) = Some content"
proof -
  show same: "aa_entries a' = aa_entries a" "aa_events a' = aa_events a"
    "aa_memory_byte_total a' = aa_memory_byte_total a" "aa_disk_byte_total a' = aa_disk_byte_total a"
    by (simp_all add: a' write_file_def split: WriteResult.split)
  have rows: "aa_rows a' = aa_rows a" by (simp add: a' write_file_def split: WriteResult.split)
  have "file_map a' (BlobPath (sha j)) = file_map a (BlobPath (sha j))" if "j \<in> dom (entry_map a)" for j
    using other_blob [OF inv i that] by (simp add: a' write_file_def update_conv' split: WriteResult.split)
  moreover have "fits c" if "file_map a' p = Some c" for p c
    using that fit fits_take asset_invD(9) [OF inv]
    by (auto simp: a' write_file_def update_conv' split: WriteResult.splits if_splits)
  ultimately show "asset_inv sha ids a'" "asset_of a' = asset_of a"
    using inv_files [OF inv same(1,3,4) rows] by blast+
  show "fst (write_file env (BlobPath (sha i)) content a) \<Longrightarrow> file_map a' (BlobPath (sha i)) = Some content"
    by (simp add: a' write_file_def update_conv' split: WriteResult.splits)
qed

lemma inv_new_entry:
  assumes inv: "asset_inv sha ids a" and i: "entry_map a i = None" "i \<in> ids"
    and entries: "aa_entries a' = AList.update i e (aa_entries a)"
    and totals: "aa_memory_byte_total a' = aa_memory_byte_total a + tier_len MemoryTier e"
      "aa_disk_byte_total a' = aa_disk_byte_total a + tier_len DiskTier e"
    and files: "aa_files a' = aa_files a"
    and rows: "row_map a' = (row_map a)(i := row)" "distinct (map fst (aa_rows a'))"
    and ok: "row_ok (Some e) row" "entry_ok sha (file_map a) i e"
  shows "asset_inv sha ids a'" "asset_of a' = (asset_of a)(i := asset_of a' i)"
proof -
  have m: "entry_map a' = (entry_map a)(i \<mapsto> e)" by (simp add: entries update_conv')
  have b: "bytes_of t (entry_map a') = bytes_of t (entry_map a) + tier_len t e" for t
    using bytes_of_upd [OF finite_dom_map_of, of t "aa_entries a" i e] i(1) by (simp add: m fun_upd_idem)
  have "row_ok (entry_map a' j) (row_map a' j)" for j
    using asset_invD(8) [OF inv, of j] ok(1) by (simp add: m rows(1))
  moreover have "entry_ok sha (file_map a') j f" if "entry_map a' j = Some f" for j f
    using that ok(2) asset_invD(7) [OF inv] by (auto simp: m files split: if_splits)
  moreover have "dom (entry_map a') \<subseteq> ids" using asset_invD(2) [OF inv] i(2) by (auto simp: m)
  ultimately show "asset_inv sha ids a'"
    using inv rows(2) by (simp add: asset_inv_def b totals files) (simp add: entries distinct_update)
  show "asset_of a' = (asset_of a)(i := asset_of a' i)"
    by (auto simp: asset_of_def m files fun_eq_iff cong: option.case_cong EntryStorage.case_cong)
qed

section \<open>Entering an asset\<close>

text \<open>What an insertion amounts to: the new asset is there and announced, unless it has been evicted again.\<close>

definition entered :: "bytes \<Rightarrow> CachedAsset \<Rightarrow> bytes list \<Rightarrow> AssetActor \<Rightarrow> AssetActor \<Rightarrow> bool" where
  "entered i x gone a a' \<longleftrightarrow> asset_of a' = (asset_of a)(i \<mapsto> x) |` (- set gone) \<and>
    set gone \<subseteq> insert i (dom (entry_map a)) \<and>
    aa_events a' = aa_events a @ map AssetIsCleared gone @ [AssetIsReady i]"

lemma put_entry_maps [simp]:
  "aa_entries (put_entry i e a) = AList.update i e (aa_entries a)" "aa_files (put_entry i e a) = aa_files a"
  "aa_rows (put_entry i e a) = aa_rows a" "aa_events (put_entry i e a) = aa_events a"
  "aa_memory_byte_total (put_entry i e a) = aa_memory_byte_total a"
  "aa_disk_byte_total (put_entry i e a) = aa_disk_byte_total a"
  "aa_lru_clock (put_entry i e a) = aa_lru_clock a"
  by (simp_all add: put_entry_def)

lemma sat_add_small: "x \<le> DISK_BUDGET_BYTES \<Longrightarrow> n < 2 ^ 63 \<Longrightarrow> sat_add x n = x + n"
  "x \<le> MEMORY_BUDGET_BYTES \<Longrightarrow> n < 2 ^ 63 \<Longrightarrow> sat_add x n = x + n"
  by (simp_all add: sat_add_def USIZE_MAX_def DISK_BUDGET_BYTES_def MEMORY_BUDGET_BYTES_def)

lemma enter_memory_ok:
  assumes inv: "asset_inv sha ids a" and w: "within_budget a" and i: "entry_map a i = None" "i \<in> ids"
    and fit: "fits content" and r: "rt_tier r = MemoryTier" and db: "db_ok env"
    and a': "a' = snd (enter_memory env i content mime r a)"
  shows "asset_inv sha ids a'" "within_budget a'"
    "\<exists>gone. entered i \<lparr>ca_bytes = content, ca_mime = mime\<rparr> gone a a'"
proof -
  let ?seq = "aa_lru_clock a + 1"
  let ?e = "new_entry env r mime (length content) ?seq (InMemory content)"
  define b where "b = put_entry i ?e (snd (next_lru_seq
    (a\<lparr>aa_memory_byte_total := sat_add (aa_memory_byte_total a) (length content)\<rparr>)))"
  have a'_eq: "a' = tell (AssetIsReady i) (evict_until_under_memory_budget env b)"
    by (simp add: a' enter_memory_def b_def next_lru_seq_def Let_def)
  have tl: "tier_len MemoryTier ?e = length content" "tier_len DiskTier ?e = 0"
    by (simp_all add: tier_len_def entry_tier_def new_entry_def)
  have tot: "aa_memory_byte_total b = aa_memory_byte_total a + tier_len MemoryTier ?e"
    "aa_disk_byte_total b = aa_disk_byte_total a + tier_len DiskTier ?e"
    unfolding tl using w fit by (simp_all add: b_def next_lru_seq_def Let_def sat_add_small fits_def within_budget_def)
  have inv_b: "asset_inv sha ids b" and of_b: "asset_of b = (asset_of a)(i := asset_of b i)"
  proof -
    have "row_map a i = None" using asset_invD(8) [OF inv, of i] i(1) by simp
    then show "asset_inv sha ids b" "asset_of b = (asset_of a)(i := asset_of b i)"
      using inv_new_entry [OF inv i, of b ?e "row_map a i"] tot asset_invD(4) [OF inv] r fit
      by (simp_all add: b_def next_lru_seq_def Let_def fun_upd_idem is_disk_persisted_def entry_ok_def entry_tier_def new_entry_def)
  qed
  have "asset_of b i = Some \<lparr>ca_bytes = content, ca_mime = mime\<rparr>"
    by (simp add: b_def asset_of_def update_conv' new_entry_def)
  with of_b have of_b: "asset_of b = (asset_of a)(i \<mapsto> \<lparr>ca_bytes = content, ca_mime = mime\<rparr>)" by simp
  obtain gone where g: "evicts gone b (evict_until_under_memory_budget env b)"
      "asset_inv sha ids (evict_until_under_memory_budget env b)"
      "aa_memory_byte_total (evict_until_under_memory_budget env b) \<le> MEMORY_BUDGET_BYTES"
    using memory_loop [OF inv_b db] by blast
  have b_maps: "entry_map b = (entry_map a)(i \<mapsto> ?e)" "aa_events b = aa_events a"
    by (simp_all add: b_def next_lru_seq_def Let_def update_conv')
  show "asset_inv sha ids a'" using g(2) by (simp add: a'_eq)
  have "aa_disk_byte_total b \<le> DISK_BUDGET_BYTES" using w tot(2) tl(2) by (simp add: within_budget_def)
  then show "within_budget a'"
    using g(3) evicts_totals(2) [OF g(1) inv_b g(2)] by (simp add: a'_eq within_budget_def tell_def)
  have "entered i \<lparr>ca_bytes = content, ca_mime = mime\<rparr> gone a a'"
    using g(1) b_maps by (auto simp: entered_def evicts_def of_b a'_eq, simp_all add: tell_def)
  then show "\<exists>gone. entered i \<lparr>ca_bytes = content, ca_mime = mime\<rparr> gone a a'" ..
qed

lemma as_i64_small: "n < 2 ^ 63 \<Longrightarrow> as_i64 n = int n"
  by (simp add: as_i64_def Let_def)

text \<open>The new asset is the only one that can take the disk over its budget; a pinned one is rejected then, and any
  other has been evicted.\<close>

lemma enter_disk_ok:
  assumes inv: "asset_inv sha ids a" and w: "within_budget a" and i: "entry_map a i = None" "i \<in> ids"
    and fit: "fits content" and r: "rt_tier r = DiskTier" and db: "db_ok env"
    and f: "file_map a (BlobPath (sha i)) = Some content"
    and res: "(res, a') = enter_disk env i (sha i) (length content) mime r a"
  shows "asset_inv sha ids a'" "within_budget a'"
    "res = Inr () \<Longrightarrow> \<exists>gone. entered i \<lparr>ca_bytes = content, ca_mime = mime\<rparr> gone a a'"
    "res \<noteq> Inr () \<Longrightarrow> \<exists>gone. asset_of a' = asset_of a |` (- set gone) \<and> set gone \<subseteq> insert i (dom (entry_map a)) \<and>
       aa_events a' = aa_events a @ map AssetIsCleared gone"
proof -
  let ?seq = "aa_lru_clock a + 1"
  let ?e = "new_entry env r mime (length content) ?seq (OnDisk (sha i))"
  let ?x = "\<lparr>ca_bytes = content, ca_mime = mime\<rparr>"
  define a1 where "a1 = a\<lparr>aa_disk_byte_total := sat_add (aa_disk_byte_total a) (length content)\<rparr>"
  define a2 where "a2 = (if is_disk_persisted r
    then snd (persist_write env i (sha i) mime (length content) (ae_unix_now env) (is_pinned r) a1) else a1)"
  define b where "b = put_entry i ?e (snd (next_lru_seq a2))"
  define c where "c = evict_until_under_disk_budget env b"
  have eq: "(res, a') = (if aa_disk_byte_total c > DISK_BUDGET_BYTES \<and> is_pinned r
      then (Inl DiskBudgetExceeded, evict_entry env i c) else (Inr (), tell (AssetIsReady i) c))"
  proof -
    have p: "(if is_disk_persisted r then persist_write env i (sha i) mime (length content) (ae_unix_now env) (is_pinned r) a1
        else (Inr (), a1)) = (Inr (), a2)"
      using db by (simp add: a2_def persist_write_def db_ok_def)
    have clock: "aa_lru_clock a2 = aa_lru_clock a" using db by (simp add: a2_def a1_def persist_write_def db_ok_def)
    show ?thesis
      unfolding res enter_disk_def a1_def [symmetric] Let_def p prod.case sum.case next_lru_seq_def
      by (simp add: make_disk_room_def c_def b_def next_lru_seq_def Let_def clock case_prod_beta)
  qed
  have tl: "tier_len MemoryTier ?e = 0" "tier_len DiskTier ?e = length content"
    by (simp_all add: tier_len_def entry_tier_def new_entry_def)
  have a2: "aa_entries a2 = aa_entries a" "aa_files a2 = aa_files a" "aa_events a2 = aa_events a"
    "aa_memory_byte_total a2 = aa_memory_byte_total a" "aa_disk_byte_total a2 = aa_disk_byte_total a + length content"
    using w fit db by (simp_all add: a2_def a1_def persist_write_def db_ok_def sat_add_small fits_def within_budget_def)
  have inv_b: "asset_inv sha ids b" and of_b: "asset_of b = (asset_of a)(i := asset_of b i)"
  proof -
    let ?row = "if is_disk_persisted r then Some \<lparr>row_path = sha i, row_mime = mime, row_byte_len = as_i64 (length content),
      row_inserted_at = ae_unix_now env, row_accessed_at = ae_unix_now env, row_pinned = is_pinned r\<rparr> else None"
    have "row_map a i = None" using asset_invD(8) [OF inv, of i] i(1) by simp
    then have "row_map b = (row_map a)(i := ?row)" "distinct (map fst (aa_rows b))"
      using db asset_invD(4) [OF inv]
      by (simp_all add: b_def next_lru_seq_def Let_def a2_def a1_def persist_write_def db_ok_def update_conv' fun_upd_idem distinct_update)
    moreover have "row_ok (Some ?e) ?row"
      using fit by (simp add: row_describes_def new_entry_def as_i64_small fits_def)
    moreover have "entry_ok sha (file_map a) i ?e"
      using f fit r by (simp add: entry_ok_def entry_tier_def new_entry_def)
    ultimately show "asset_inv sha ids b" "asset_of b = (asset_of a)(i := asset_of b i)"
      using inv_new_entry [OF inv i, of b ?e ?row] by (simp_all add: b_def next_lru_seq_def Let_def a2 tl)
  qed
  have "asset_of b i = Some ?x"
    using f by (simp add: b_def asset_of_def update_conv' new_entry_def next_lru_seq_def Let_def a2(2))
  with of_b have of_b: "asset_of b = (asset_of a)(i \<mapsto> ?x)" by simp
  have b_maps: "entry_map b = (entry_map a)(i \<mapsto> ?e)" "aa_events b = aa_events a"
    by (simp_all add: b_def next_lru_seq_def Let_def a2 update_conv')
  obtain gone where g: "evicts gone b c" "all_are on_disk gone b" "asset_inv sha ids c"
    "aa_disk_byte_total c \<le> DISK_BUDGET_BYTES \<or> (\<forall>j f. entry_map c j = Some f \<longrightarrow> \<not> evictable_on_disk f)"
    using disk_limits [OF inv_b db] unfolding c_def evict_until_under_disk_budget_def by blast
  have others: "bytes_of DiskTier ((entry_map c)(i := None)) \<le> DISK_BUDGET_BYTES"
  proof -
    have "(entry_map c)(i := None) = entry_map a |` (- insert i (set gone))"
      using g(1) i(1) by (auto simp: evicts_def b_maps restrict_map_def fun_eq_iff)
    then have "bytes_of DiskTier ((entry_map c)(i := None)) \<le> bytes_of DiskTier (entry_map a)"
      by (simp add: bytes_of_restrict_le finite_dom_map_of)
    also have "\<dots> \<le> DISK_BUDGET_BYTES" using w asset_invD(6) [OF inv] by (simp add: within_budget_def)
    finally show ?thesis .
  qed
  have mem: "aa_memory_byte_total c \<le> MEMORY_BUDGET_BYTES"
    using evicts_totals(1) [OF g(1) inv_b g(3)] w by (simp add: b_def next_lru_seq_def Let_def a2 within_budget_def)
  show "asset_inv sha ids a'" using eq g(3) by (auto simp: inv_evict_entry [OF g(3) db] split: if_splits)
  show "within_budget a'"
  proof (cases "aa_disk_byte_total c > DISK_BUDGET_BYTES \<and> is_pinned r")
    case True
    then have a': "a' = evict_entry env i c" using eq by simp
    have "aa_disk_byte_total a' = bytes_of DiskTier ((entry_map c)(i := None))"
      using asset_invD(6) [OF inv_evict_entry [OF g(3) db, of i]] by (simp add: a' evict_entry_maps)
    moreover have "aa_memory_byte_total a' \<le> aa_memory_byte_total c"
      by (cases "entry_map c i") (simp_all add: a' evict_entry_absent evict_entry_totals)
    ultimately show ?thesis using others mem by (simp add: within_budget_def)
  next
    case False
    then have a': "a' = tell (AssetIsReady i) c" using eq by (simp split: if_splits)
    have "aa_disk_byte_total c \<le> DISK_BUDGET_BYTES"
    proof (rule ccontr)
      assume over: "\<not> aa_disk_byte_total c \<le> DISK_BUDGET_BYTES"
      then have "\<not> is_pinned r" using False by simp
      then have "evictable_on_disk ?e" by (simp add: new_entry_def entry_tier_def is_pinned_def)
      then have "entry_map c i = None"
        using g(1,4) over by (auto simp: evicts_def b_maps restrict_map_def split: if_splits)
      then have "bytes_of DiskTier (entry_map c) \<le> DISK_BUDGET_BYTES" using others by (simp add: fun_upd_idem)
      with over asset_invD(6) [OF g(3)] show False by simp
    qed
    with mem show ?thesis by (simp add: a' within_budget_def tell_def)
  qed
  have ev: "asset_of c = (asset_of a)(i \<mapsto> ?x) |` (- set gone)" "aa_events c = aa_events a @ map AssetIsCleared gone"
    "set gone \<subseteq> insert i (dom (entry_map a))"
    using g(1) by (auto simp: evicts_def of_b b_maps)
  show "res = Inr () \<Longrightarrow> \<exists>gone. entered i ?x gone a a'"
  proof -
    assume "res = Inr ()"
    then have a': "a' = tell (AssetIsReady i) c" using eq by (simp split: if_splits)
    then have "aa_events a' = aa_events a @ map AssetIsCleared gone @ [AssetIsReady i]" by (simp add: tell_def ev(2))
    with ev(1,3) have "entered i ?x gone a a'" by (simp add: entered_def a')
    then show "\<exists>gone. entered i ?x gone a a'" ..
  qed
  show "res \<noteq> Inr () \<Longrightarrow> \<exists>gone. asset_of a' = asset_of a |` (- set gone) \<and> set gone \<subseteq> insert i (dom (entry_map a)) \<and>
       aa_events a' = aa_events a @ map AssetIsCleared gone"
  proof -
    assume "res \<noteq> Inr ()"
    then have a': "a' = evict_entry env i c" using eq by (simp split: if_splits)
    have "asset_of a i = None" using dom_asset_of [OF inv] i(1) by simp
    then have "asset_of a' = asset_of a |` (- set gone)"
      by (auto simp: a' asset_of_evict_entry [OF g(3)] ev(1) restrict_map_def fun_eq_iff)
    moreover have "aa_events a' = aa_events a @ map AssetIsCleared gone" using ev(2) by (simp add: a' evict_entry_maps)
    ultimately show ?thesis using ev(3) by blast
  qed
qed


section \<open>Commands\<close>

text \<open>What a command asks of an abstract map from names to assets, when it is answered like this.\<close>

fun asset_spec :: "AssetCommand \<Rightarrow> AssetReply \<Rightarrow> (AssetPath \<rightharpoonup> bytes) \<Rightarrow> (bytes \<rightharpoonup> CachedAsset) \<Rightarrow> (bytes \<rightharpoonup> CachedAsset)" where
  "asset_spec (InsertAsset i content mime r) (Acked (Inr _)) files m =
    (if content = [] then m else m(i \<mapsto> \<lparr>ca_bytes = content, ca_mime = mime\<rparr>))"
| "asset_spec (InsertFromPath i source mime r) (Acked (Inr _)) files m =
    (case files source of
       None \<Rightarrow> m
     | Some content \<Rightarrow> if content = [] then m else m(i \<mapsto> \<lparr>ca_bytes = content, ca_mime = mime\<rparr>))"
| "asset_spec (ClearAsset i) reply files m = m(i := None)"
| "asset_spec _ _ files m = m"

fun asset_announced :: "AssetCommand \<Rightarrow> AssetReply \<Rightarrow> (AssetPath \<rightharpoonup> bytes) \<Rightarrow> bytes list" where
  "asset_announced (InsertAsset i content mime r) (Acked (Inr _)) files = (if content = [] then [] else [i])"
| "asset_announced (InsertFromPath i source mime r) (Acked (Inr _)) files =
    (case files source of None \<Rightarrow> [] | Some content \<Rightarrow> if content = [] then [] else [i])"
| "asset_announced _ _ files = []"

fun lost_by :: "AssetCommand \<Rightarrow> AssetReply \<Rightarrow> bytes set" where
  "lost_by (InsertAsset i content mime r) (Acked (Inl _)) = {i}"
| "lost_by (InsertFromPath i source mime r) (Acked (Inl _)) = {i}"
| "lost_by _ _ = {}"

fun asset_cmd_ok :: "bytes set \<Rightarrow> AssetCommand \<Rightarrow> bool" where
  "asset_cmd_ok ids (InsertAsset i content mime r) \<longleftrightarrow> i \<in> ids \<and> fits content"
| "asset_cmd_ok ids (InsertFromPath i source mime r) \<longleftrightarrow> i \<in> ids \<and> (case source of OtherPath _ \<Rightarrow> True | BlobPath _ \<Rightarrow> False)"
| "asset_cmd_ok ids _ \<longleftrightarrow> True"

text \<open>Between two states: the assets are those asked for, less those the subscribers were told have gone, and less
  at most the one that an insertion has failed to replace.\<close>

definition effect :: "AssetCommand \<Rightarrow> AssetReply \<Rightarrow> AssetActor \<Rightarrow> AssetActor \<Rightarrow> bool" where
  "effect cmd reply a a' \<longleftrightarrow> (\<exists>gone lost. lost \<subseteq> lost_by cmd reply \<and>
    asset_of a' = asset_spec cmd reply (file_map a) (asset_of a) |` (- (set gone \<union> lost)) \<and>
    aa_events a' = aa_events a @ map AssetIsCleared gone @ map AssetIsReady (asset_announced cmd reply (file_map a)))"

lemma effectI:
  "lost \<subseteq> lost_by cmd reply \<Longrightarrow> asset_of a' = asset_spec cmd reply (file_map a) (asset_of a) |` (- (set gone \<union> lost)) \<Longrightarrow>
    aa_events a' = aa_events a @ map AssetIsCleared gone @ map AssetIsReady (asset_announced cmd reply (file_map a)) \<Longrightarrow>
    effect cmd reply a a'"
  by (auto simp: effect_def)

lemma effect_evicts:
  "evicts gone a a' \<Longrightarrow> asset_spec cmd reply (file_map a) (asset_of a) = asset_of a \<Longrightarrow> asset_announced cmd reply (file_map a) = [] \<Longrightarrow>
    effect cmd reply a a'"
  by (rule effectI [of "{}" _ _ _ _ gone]) (simp_all add: evicts_def)

lemma effect_same:
  "asset_of a' = asset_of a \<Longrightarrow> aa_events a' = aa_events a \<Longrightarrow>
    asset_spec cmd reply (file_map a) (asset_of a) = asset_of a \<Longrightarrow> asset_announced cmd reply (file_map a) = [] \<Longrightarrow>
    effect cmd reply a a'"
  by (rule effectI [of "{}" _ _ _ _ "[]"]) (simp_all add: restrict_map_def)

text \<open>An insertion first evicts what it replaces, and then enters the new asset or fails.\<close>

lemma effect_entered:
  assumes "asset_inv sha ids a" and "asset_of b = (asset_of a)(i := None)" and "aa_events b = aa_events a"
    and "entered i x gone b a'" and "asset_spec cmd reply (file_map a) (asset_of a) = (asset_of a)(i \<mapsto> x)"
    and "asset_announced cmd reply (file_map a) = [i]"
  shows "effect cmd reply a a'"
  by (rule effectI [of "{}" _ _ _ _ gone]) (use assms in \<open>simp_all add: entered_def\<close>)

lemma effect_lost:
  assumes "asset_of b = (asset_of a)(i := None)" and "aa_events b = aa_events a"
    and "asset_of a' = asset_of b |` (- set gone)" and "aa_events a' = aa_events b @ map AssetIsCleared gone"
    and "lost_by cmd reply = {i}" "asset_spec cmd reply (file_map a) (asset_of a) = asset_of a"
    and "asset_announced cmd reply (file_map a) = []"
  shows "effect cmd reply a a'"
proof (rule effectI [of "{i}" _ _ _ _ gone])
  show "asset_of a' = asset_spec cmd reply (file_map a) (asset_of a) |` (- (set gone \<union> {i}))"
    by (simp add: assms(1,3,6) restrict_map_def fun_eq_iff)
qed (simp_all add: assms)

lemma evicted_first:
  assumes "asset_inv sha ids a" "within_budget a" "db_ok env"
  shows "asset_inv sha ids (evict_entry env i a)" "within_budget (evict_entry env i a)"
    "entry_map (evict_entry env i a) i = None" "asset_of (evict_entry env i a) = (asset_of a)(i := None)"
    "aa_events (evict_entry env i a) = aa_events a"
  using assms by (simp_all add: inv_evict_entry within_evict_entry evict_entry_maps asset_of_evict_entry)

lemma enter_result:
  assumes inv: "asset_inv sha ids a" and b: "asset_inv sha ids b" "within_budget b" "entry_map b i = None" "i \<in> ids"
      "asset_of b = (asset_of a)(i := None)" "aa_events b = aa_events a"
    and fit: "fits content" and db: "db_ok env" and f: "file_map b (BlobPath (sha i)) = Some content" and r: "rt_tier r = DiskTier"
    and res: "(res, a') = enter_disk env i (sha i) (length content) mime r b"
    and cmd: "asset_spec cmd (Acked (Inr ())) (file_map a) (asset_of a) = (asset_of a)(i \<mapsto> \<lparr>ca_bytes = content, ca_mime = mime\<rparr>)"
      "asset_announced cmd (Acked (Inr ())) (file_map a) = [i]" "\<And>err. lost_by cmd (Acked (Inl err)) = {i}"
      "\<And>err. asset_spec cmd (Acked (Inl err)) (file_map a) (asset_of a) = asset_of a"
      "\<And>err. asset_announced cmd (Acked (Inl err)) (file_map a) = []"
  shows "asset_inv sha ids a' \<and> within_budget a' \<and> effect cmd (Acked res) a a'"
proof (cases res)
  case (Inl err)
  obtain gone where g: "asset_of a' = asset_of b |` (- set gone)" "aa_events a' = aa_events b @ map AssetIsCleared gone"
    using enter_disk_ok(4) [OF b(1-4) fit r db f res] Inl by blast
  show ?thesis
    using enter_disk_ok(1,2) [OF b(1-4) fit r db f res]
      effect_lost [OF b(5,6) g, of cmd "Acked (Inl err)", OF cmd(3) cmd(4) cmd(5)] by (simp add: Inl)
next
  case (Inr u)
  obtain gone where g: "entered i \<lparr>ca_bytes = content, ca_mime = mime\<rparr> gone b a'"
    using enter_disk_ok(3) [OF b(1-4) fit r db f res] Inr by auto
  show ?thesis
    using enter_disk_ok(1,2) [OF b(1-4) fit r db f res] effect_entered [OF inv b(5,6) g cmd(1,2)] by (simp add: Inr)
qed

lemma insert_ok:
  assumes inv: "asset_inv sha ids a" and w: "within_budget a" and db: "db_ok env" and i: "i \<in> ids" and fit: "fits content"
    and res: "(res, a') = handle_insert sha env i content mime r a"
  shows "asset_inv sha ids a' \<and> within_budget a' \<and> effect (InsertAsset i content mime r) (Acked res) a a'"
proof (cases "content = []")
  case True
  then have "a' = a" "res = Inr ()" using res by (simp_all add: handle_insert_def)
  with inv w True show ?thesis by (simp add: effect_same)
next
  case False
  let ?x = "\<lparr>ca_bytes = content, ca_mime = mime\<rparr>" and ?b = "evict_entry env i a"
  note b = evicted_first [OF inv w db, of i]
  show ?thesis
  proof (cases "rt_tier r")
    case MemoryTier
    then have r: "res = Inr ()" "a' = snd (enter_memory env i content mime r ?b)"
      using res False by (simp_all add: handle_insert_def Let_def enter_memory_def case_prod_beta)
    show ?thesis
      using enter_memory_ok [OF b(1-3) i fit MemoryTier db r(2)] effect_entered [OF inv b(4,5)] False r(1) by auto
  next
    case DiskTier
    let ?w = "write_file env (BlobPath (sha i)) content ?b"
    note wf = inv_write_file [OF b(1,3) i fit refl, of env]
    have eq: "(res, a') = (if fst ?w then enter_disk env i (sha i) (length content) mime r (snd ?w) else (Inl AssetIo, snd ?w))"
      using res False DiskTier by (simp add: handle_insert_def Let_def safe_blob_name_def case_prod_beta)
    show ?thesis
    proof (cases "fst ?w")
      case True
      then show ?thesis using False eq
        by (intro enter_result [OF inv wf(1) _ _ i _ _ fit db _ DiskTier])
          (simp_all add: wf b within_budget_def b(2) [unfolded within_budget_def])
    next
      case no: False
      then have "res = Inl AssetIo" "a' = snd ?w" using eq by simp_all
      moreover have "effect (InsertAsset i content mime r) (Acked (Inl AssetIo)) a (snd ?w)"
        by (rule effect_lost [where b = "snd ?w" and gone = "[]" and i = i]) (simp_all add: wf b)
      ultimately show ?thesis using wf(1,5,6) b(2) by (simp add: within_budget_def)
    qed
  qed
qed


lemma inv_remove_file:
  assumes inv: "asset_inv sha ids a" and free: "\<And>j. j \<in> dom (entry_map a) \<Longrightarrow> p \<noteq> BlobPath (sha j)"
  shows "asset_inv sha ids (remove_file env p a)" "asset_of (remove_file env p a) = asset_of a"
proof -
  have "file_map (remove_file env p a) (BlobPath (sha j)) = file_map a (BlobPath (sha j))" if "j \<in> dom (entry_map a)" for j
    using free [OF that] by simp
  moreover have "fits c" if "file_map (remove_file env p a) q = Some c" for q c
    using that asset_invD(9) [OF inv, of q c] by (simp split: if_splits)
  ultimately show "asset_inv sha ids (remove_file env p a)" "asset_of (remove_file env p a) = asset_of a"
    using inv_files [OF inv, of "remove_file env p a"] by simp_all
qed

lemma rename_or_copy_same [simp]:
  "aa_entries (snd (rename_or_copy env p q a)) = aa_entries a" "aa_rows (snd (rename_or_copy env p q a)) = aa_rows a"
  "aa_events (snd (rename_or_copy env p q a)) = aa_events a"
  "aa_memory_byte_total (snd (rename_or_copy env p q a)) = aa_memory_byte_total a"
  "aa_disk_byte_total (snd (rename_or_copy env p q a)) = aa_disk_byte_total a"
  by (simp_all add: rename_or_copy_def split: option.split RenameResult.split)

lemma inv_rename:
  assumes inv: "asset_inv sha ids a" and i: "entry_map a i = None" "i \<in> ids"
    and a': "a' = snd (rename_or_copy env (OtherPath q) (BlobPath (sha i)) a)"
  shows "asset_inv sha ids a'" "asset_of a' = asset_of a"
    "fst (rename_or_copy env (OtherPath q) (BlobPath (sha i)) a) \<Longrightarrow>
      file_map a' (BlobPath (sha i)) = file_map a (OtherPath q)"
proof -
  have "file_map a' (BlobPath (sha j)) = file_map a (BlobPath (sha j))" if "j \<in> dom (entry_map a)" for j
    using other_blob [OF inv i that]
    by (simp add: a' rename_or_copy_def update_conv' delete_conv' split: option.split RenameResult.split)
  moreover have "fits c" if "file_map a' p = Some c" for p c
    using that asset_invD(9) [OF inv]
    by (auto simp: a' rename_or_copy_def update_conv' delete_conv' split: option.splits RenameResult.splits if_splits)
  ultimately show "asset_inv sha ids a'" "asset_of a' = asset_of a"
    using inv_files [OF inv, of a'] by (simp_all add: a')
  show "fst (rename_or_copy env (OtherPath q) (BlobPath (sha i)) a) \<Longrightarrow>
      file_map a' (BlobPath (sha i)) = file_map a (OtherPath q)"
    by (auto simp: a' rename_or_copy_def update_conv' delete_conv' split: option.splits RenameResult.splits if_splits)
qed

lemma insert_from_path_ok:
  assumes inv: "asset_inv sha ids a" and w: "within_budget a" and db: "db_ok env" and i: "i \<in> ids"
    and res: "(res, a') = handle_insert_from_path sha env i (OtherPath q) mime r a"
  shows "asset_inv sha ids a' \<and> within_budget a' \<and> effect (InsertFromPath i (OtherPath q) mime r) (Acked res) a a'"
proof (cases "if ae_stat env then file_map a (OtherPath q) else None")
  case None
  then have "res = Inl AssetIo" "a' = a" using res by (simp_all add: handle_insert_from_path_def)
  with inv w show ?thesis by (simp add: effect_same)
next
  case (Some found)
  then have src: "file_map a (OtherPath q) = Some found" "ae_stat env" by (simp_all split: if_splits)
  note fit = asset_invD(9) [OF inv src(1)]
  note b = evicted_first [OF inv w db, of i]
  let ?b = "evict_entry env i a" and ?cmd = "InsertFromPath i (OtherPath q) mime r"
  have src_b: "file_map ?b (OtherPath q) = Some found" using src(1) by (simp add: evict_entry_files [OF _ inv])
  show ?thesis
  proof (cases "found = []")
    case True
    then have "res = Inr ()" "a' = remove_file env (OtherPath q) a"
      using res src by (simp_all add: handle_insert_from_path_def)
    with inv_remove_file [OF inv, of "OtherPath q" env] w src True show ?thesis
      by (simp add: effect_same within_budget_def)
  next
    case False
    show ?thesis
    proof (cases "rt_tier r")
      case MemoryTier
      show ?thesis
      proof (cases "ae_read env")
        case False
        then have "res = Inl AssetIo" "a' = ?b"
          using res src \<open>found \<noteq> []\<close> MemoryTier by (simp_all add: handle_insert_from_path_def Let_def)
        moreover have "effect ?cmd (Acked (Inl AssetIo)) a ?b"
          by (rule effect_lost [where b = ?b and gone = "[]" and i = i]) (simp_all add: b)
        ultimately show ?thesis using b by simp
      next
        case True
        let ?c = "remove_file env (OtherPath q) ?b"
        have r: "res = Inr ()" "a' = snd (enter_memory env i found mime r ?c)"
          using res src src_b \<open>found \<noteq> []\<close> MemoryTier True
          by (simp_all add: handle_insert_from_path_def Let_def enter_memory_def case_prod_beta)
        note c = inv_remove_file [OF b(1), of "OtherPath q" env]
        have "within_budget ?c" "entry_map ?c i = None" using b(2,3) by (simp_all add: within_budget_def)
        then have e: "asset_inv sha ids a'" "within_budget a'"
            "\<exists>gone. entered i \<lparr>ca_bytes = found, ca_mime = mime\<rparr> gone ?c a'"
          using enter_memory_ok [OF _ _ _ i fit MemoryTier db r(2)] c by simp_all
        then obtain gone where g: "entered i \<lparr>ca_bytes = found, ca_mime = mime\<rparr> gone ?c a'" by blast
        have "effect ?cmd (Acked (Inr ())) a a'"
          by (rule effect_entered [OF inv _ _ g]) (use c b src \<open>found \<noteq> []\<close> in simp_all)
        with e r(1) show ?thesis by simp
      qed
    next
      case DiskTier
      let ?c = "remove_file env (BlobPath (sha i)) ?b"
      let ?m = "rename_or_copy env (OtherPath q) (BlobPath (sha i)) ?c"
      have "BlobPath (sha i) \<noteq> BlobPath (sha j)" if "j \<in> dom (entry_map ?b)" for j
        using other_blob [OF b(1,3) i that] by auto
      note c = inv_remove_file [OF b(1) this, of env]
      have c3: "entry_map ?c i = None" using b(3) by simp
      note d = inv_rename [OF c(1) c3 i refl, of env q]
      have eq: "(res, a') = (if fst ?m then enter_disk env i (sha i) (length found) mime r (snd ?m) else (Inl AssetIo, snd ?m))"
        using res src \<open>found \<noteq> []\<close> DiskTier
        by (simp add: handle_insert_from_path_def Let_def safe_blob_name_def case_prod_beta)
      have w': "within_budget (snd ?m)" using b(2) by (simp add: within_budget_def)
      show ?thesis
      proof (cases "fst ?m")
        case True
        with d(3) have f: "file_map (snd ?m) (BlobPath (sha i)) = Some found" using src_b by simp
        have eq': "(res, a') = enter_disk env i (sha i) (length found) mime r (snd ?m)" using eq True by simp
        show ?thesis
          by (rule enter_result [OF inv d(1) w' _ i _ _ fit db f DiskTier eq'])
            (use b c c3 d src \<open>found \<noteq> []\<close> in simp_all)
      next
        case no: False
        then have r: "res = Inl AssetIo" "a' = snd ?m" using eq by simp_all
        have "effect ?cmd (Acked (Inl AssetIo)) a (snd ?m)"
          by (rule effect_lost [where b = "snd ?m" and gone = "[]" and i = i]) (use b c d in simp_all)
        with d(1) w' r show ?thesis by simp
      qed
    qed
  qed
qed

text \<open>A touched entry keeps its content.\<close>

lemma inv_touch:
  assumes inv: "asset_inv sha ids a" and i: "entry_map a i = Some e"
    and entries: "aa_entries a' = AList.update i e' (aa_entries a)"
    and e': "ent_storage e' = ent_storage e" "ent_mime e' = ent_mime e" "ent_byte_len e' = ent_byte_len e"
      "rt_tier (ent_retention e') = entry_tier e"
    and totals: "aa_memory_byte_total a' = aa_memory_byte_total a" "aa_disk_byte_total a' = aa_disk_byte_total a"
    and files: "aa_files a' = aa_files a"
    and rows: "row_map a' = (row_map a)(i := row)" "distinct (map fst (aa_rows a'))" "row_ok (Some e') row"
  shows "asset_inv sha ids a'" "asset_of a' = asset_of a" "within_budget a \<Longrightarrow> within_budget a'"
proof -
  have m: "entry_map a' = (entry_map a)(i \<mapsto> e')" by (simp add: entries update_conv')
  have tier: "entry_tier e' = entry_tier e" by (simp add: entry_tier_def e'(1))
  have tl: "tier_len t e' = tier_len t e" for t by (simp add: tier_len_def tier e'(3))
  have b: "bytes_of t (entry_map a') = bytes_of t (entry_map a)" for t
  proof (rule bytes_of_cong)
    show "dom (entry_map a') = dom (entry_map a)" using i by (simp add: m insert_absorb domI)
    fix j f f' assume "entry_map a' j = Some f" "entry_map a j = Some f'"
    then show "tier_len t f = tier_len t f'"
      using i tl by (cases "j = i") (auto simp: m)
  qed
  have "entry_ok sha (file_map a) i e'"
    using asset_invD(7) [OF inv i] by (simp add: entry_ok_def e' tier)
  then have "entry_ok sha (file_map a') j f" if "entry_map a' j = Some f" for j f
    using that asset_invD(7) [OF inv] by (auto simp: m files split: if_splits)
  moreover have "row_ok (entry_map a' j) (row_map a' j)" for j
    using asset_invD(8) [OF inv, of j] rows(3) by (simp add: m rows(1))
  moreover have "dom (entry_map a') \<subseteq> ids" using asset_invD(2) [OF inv] i by (auto simp: m)
  ultimately show "asset_inv sha ids a'"
    using inv rows(2) by (simp add: asset_inv_def b totals files) (simp add: entries distinct_update)
  show "asset_of a' = asset_of a"
  proof
    fix j show "asset_of a' j = asset_of a j"
      by (cases "j = i") (simp_all add: asset_of_def m files e' i cong: option.case_cong EntryStorage.case_cong)
  qed
  show "within_budget a \<Longrightarrow> within_budget a'" by (simp add: within_budget_def totals)
qed

lemma set_retention_ok:
  assumes inv: "asset_inv sha ids a" and db: "db_ok env" and res: "(res, a') = handle_set_retention env i r a"
  shows "asset_inv sha ids a'" "asset_of a' = asset_of a" "within_budget a \<Longrightarrow> within_budget a'" "aa_events a' = aa_events a"
proof -
  have "asset_inv sha ids a' \<and> asset_of a' = asset_of a \<and> (within_budget a \<longrightarrow> within_budget a') \<and> aa_events a' = aa_events a"
  proof (cases "\<exists>e. entry_map a i = Some e \<and> entry_tier e = rt_tier r")
    case False
    then have "a' = a" using res by (auto simp: handle_set_retention_def split: option.splits)
    with inv show ?thesis by simp
  next
    case True
    then obtain e where e: "entry_map a i = Some e" "entry_tier e = rt_tier r" by blast
    let ?e = "e\<lparr>ent_retention := r, ent_ttl_deadline := ttl_deadline_for (ae_instant env) r\<rparr>"
    note ok = asset_invD(7) [OF inv e(1)] and rows = asset_invD(4) [OF inv] asset_invD(8) [OF inv, of i]
    have len: "ent_byte_len e < 2 ^ 63" using ok by (auto simp: entry_ok_def fits_def)
    show ?thesis
    proof (cases "ent_storage e")
      case (InMemory c)
      then have a': "a' = put_entry i ?e a" using res e by (simp add: handle_set_retention_def Let_def)
      have "rt_tier r = MemoryTier" using e(2) InMemory by (simp add: entry_tier_def)
      moreover have "row_map a i = None"
        using rows(2) e InMemory calculation by (cases "row_map a i") (auto simp: row_describes_def)
      ultimately show ?thesis
        using inv_touch [OF inv e(1), of a' ?e "row_map a i"] e(2) rows(1)
        by (simp add: a' is_disk_persisted_def fun_upd_idem)
    next
      case (OnDisk dest)
      show ?thesis
      proof (cases "is_disk_persisted r")
        case True
        let ?row = "\<lparr>row_path = dest, row_mime = ent_mime e, row_byte_len = as_i64 (ent_byte_len e),
          row_inserted_at = ent_accessed_at e, row_accessed_at = ent_accessed_at e, row_pinned = is_pinned r\<rparr>"
        have a': "a' = put_entry i ?e a\<lparr>aa_rows := AList.update i ?row (aa_rows a)\<rparr>"
          using res e OnDisk True db by (simp add: handle_set_retention_def Let_def persist_write_def db_ok_def put_entry_def)
        show ?thesis
          using inv_touch [OF inv e(1), of a' ?e "Some ?row"] e(2) rows(1) True OnDisk
          by (simp add: a' update_conv' distinct_update row_describes_def as_i64_small [OF len] put_entry_def)
      next
        case False
        then have a': "a' = delete_row env i (put_entry i ?e a)"
          using res e OnDisk by (simp add: handle_set_retention_def Let_def)
        show ?thesis
          using inv_touch [OF inv e(1), of a' ?e None] e(2) rows(1) False db
          by (simp add: a' delete_conv' distinct_delete db_ok_def)
      qed
    qed
  qed
  then show "asset_inv sha ids a'" "asset_of a' = asset_of a" "within_budget a \<Longrightarrow> within_budget a'" "aa_events a' = aa_events a"
    by simp_all
qed

text \<open>What is had is what the map says; a file that cannot be read gives nothing.\<close>

lemma get_ok:
  assumes inv: "asset_inv sha ids a" and res: "(found, a') = handle_get env i a"
  shows "asset_inv sha ids a'" "asset_of a' = asset_of a" "within_budget a \<Longrightarrow> within_budget a'" "aa_events a' = aa_events a"
    "found = Some x \<Longrightarrow> asset_of a i = Some x" "ae_read env \<Longrightarrow> found = asset_of a i"
proof -
  let ?c = "aa_lru_clock a + 1"
  have "asset_inv sha ids a' \<and> asset_of a' = asset_of a \<and> (within_budget a \<longrightarrow> within_budget a') \<and> aa_events a' = aa_events a \<and>
    (found = Some x \<longrightarrow> asset_of a i = Some x) \<and> (ae_read env \<longrightarrow> found = asset_of a i)"
  proof (cases "entry_map a i")
    case None
    then have a': "a' = a\<lparr>aa_lru_clock := ?c\<rparr>" "found = None"
      using res by (simp_all add: handle_get_def next_lru_seq_def Let_def)
    with inv None show ?thesis
      by (simp add: asset_inv_def asset_of_def within_budget_def fun_eq_iff cong: option.case_cong EntryStorage.case_cong)
  next
    case (Some e)
    let ?e = "e\<lparr>ent_accessed_at := ae_unix_now env, ent_lru_seq := ?c\<rparr>"
    let ?b = "put_entry i ?e (a\<lparr>aa_lru_clock := ?c\<rparr>)"
    have touch: "asset_inv sha ids b \<and> asset_of b = asset_of a \<and> (within_budget a \<longrightarrow> within_budget b)"
      if "b = ?b \<or> b = ?b\<lparr>aa_dirty_persist := d\<rparr>" for b d
    proof -
      have "row_ok (Some ?e) (row_map a i)"
        using asset_invD(8) [OF inv, of i] Some by (cases "row_map a i") (simp_all add: row_describes_def)
      then show ?thesis
        using that inv_touch [OF inv Some, of b ?e "row_map a i"] asset_invD(4) [OF inv] asset_invD(7) [OF inv Some]
        by (auto simp: fun_upd_idem entry_ok_def)
    qed
    show ?thesis
      using res Some touch [of ?b] touch [OF disjI2, of _ "List.insert i (aa_dirty_persist a)"]
      by (auto simp: handle_get_def next_lru_seq_def Let_def asset_of_def put_entry_def split: EntryStorage.splits option.splits if_splits)
  qed
  then show "asset_inv sha ids a'" "asset_of a' = asset_of a" "within_budget a \<Longrightarrow> within_budget a'" "aa_events a' = aa_events a"
    "found = Some x \<Longrightarrow> asset_of a i = Some x" "ae_read env \<Longrightarrow> found = asset_of a i" by simp_all
qed

end
