(* ===== verification/Asset_Run.thy ===== *)
theory Asset_Run
  imports Asset_Steps
begin

text \<open>The asset cache over its whole life, restarts included: it stays within its budgets, gives out only what was
  entered last, keeps what is persistent over a restart, and tells its subscribers. The contract of a component
  that runs in turns is a locale, and so is that of one whose subscribers follow the names it holds.\<close>

section \<open>Components that run in turns\<close>

locale run_invariant =
  fixes step :: "'i \<Rightarrow> 's \<Rightarrow> 's" and ok :: "'i \<Rightarrow> bool" and inv :: "'s \<Rightarrow> bool"
  assumes keeps: "ok x \<Longrightarrow> inv s \<Longrightarrow> inv (step x s)"
begin

lemma run_keeps: "list_all ok xs \<Longrightarrow> inv s \<Longrightarrow> inv (fold step xs s)"
  by (induction xs arbitrary: s) (simp_all add: keeps)

end

text \<open>One that tells its subscribers what comes and goes. A subscriber that replays what it is told knows of
  everything there is, and of nothing else if no turn has lost anything silently.\<close>

locale key_announcer = run_invariant +
  fixes keys :: "'s \<Rightarrow> 'k set" and told :: "'s \<Rightarrow> 'e list" and replay :: "'e \<Rightarrow> 'k set \<Rightarrow> 'k set"
    and exact :: "'i \<Rightarrow> 's \<Rightarrow> bool"
  assumes mono: "K \<subseteq> L \<Longrightarrow> replay ev K \<subseteq> replay ev L"
    and announces: "ok x \<Longrightarrow> inv s \<Longrightarrow> \<exists>evs. told (step x s) = told s @ evs \<and> keys (step x s) \<subseteq> fold replay evs (keys s)"
    and announces_exactly: "ok x \<Longrightarrow> inv s \<Longrightarrow> exact x s \<Longrightarrow>
      \<exists>evs. told (step x s) = told s @ evs \<and> keys (step x s) = fold replay evs (keys s)"
begin

fun all_exact :: "'i list \<Rightarrow> 's \<Rightarrow> bool" where
  "all_exact [] s \<longleftrightarrow> True"
| "all_exact (x # xs) s \<longleftrightarrow> exact x s \<and> all_exact xs (step x s)"

lemma fold_mono: "K \<subseteq> L \<Longrightarrow> fold replay evs K \<subseteq> fold replay evs L"
  by (induction evs arbitrary: K L) (simp_all add: mono)

lemma followed:
  "list_all ok xs \<Longrightarrow> inv s \<Longrightarrow>
    \<exists>evs. told (fold step xs s) = told s @ evs \<and> keys (fold step xs s) \<subseteq> fold replay evs (keys s)"
proof (induction xs arbitrary: s)
  case (Cons x xs)
  then obtain evs where e: "told (step x s) = told s @ evs" "keys (step x s) \<subseteq> fold replay evs (keys s)"
    using announces by fastforce
  obtain evs' where e': "told (fold step xs (step x s)) = told (step x s) @ evs'"
    "keys (fold step xs (step x s)) \<subseteq> fold replay evs' (keys (step x s))"
    using Cons keeps by fastforce
  from e' e fold_mono [OF e(2), of evs'] show ?case by (intro exI [of _ "evs @ evs'"]) auto
qed simp

lemma followed_exactly:
  "list_all ok xs \<Longrightarrow> inv s \<Longrightarrow> all_exact xs s \<Longrightarrow>
    \<exists>evs. told (fold step xs s) = told s @ evs \<and> keys (fold step xs s) = fold replay evs (keys s)"
proof (induction xs arbitrary: s)
  case (Cons x xs)
  then obtain evs where e: "told (step x s) = told s @ evs" "keys (step x s) = fold replay evs (keys s)"
    using announces_exactly by fastforce
  obtain evs' where e': "told (fold step xs (step x s)) = told (step x s) @ evs'"
    "keys (fold step xs (step x s)) = fold replay evs' (keys (step x s))"
    using Cons keeps by fastforce
  from e' e show ?case by (intro exI [of _ "evs @ evs'"]) auto
qed simp

end

section \<open>One turn\<close>

lemma cmd_ok:
  assumes inv: "asset_inv sha ids a" and w: "within_budget a" and db: "db_ok env" and cmd: "asset_cmd_ok ids cmd"
    and res: "(reply, a') = handle_asset sha env cmd a"
  shows "asset_inv sha ids a' \<and> within_budget a' \<and> effect cmd reply a a'"
proof (cases cmd)
  case (InsertAsset i content mime r)
  then show ?thesis
    using insert_ok [OF inv w db, of i content "fst (handle_insert sha env i content mime r a)" a' mime r] cmd res
    by (simp add: apfst_def map_prod_def case_prod_beta)
next
  case (InsertFromPath i source mime r)
  then obtain q where "source = OtherPath q" using cmd by (cases source) auto
  with InsertFromPath show ?thesis
    using insert_from_path_ok [OF inv w db, of i "fst (handle_insert_from_path sha env i source mime r a)" a' q mime r] cmd res
    by (simp add: apfst_def map_prod_def case_prod_beta)
next
  case (SetRetention i r)
  then show ?thesis
    using set_retention_ok [OF inv db, of "fst (handle_set_retention env i r a)" a' i r] w res
    by (auto simp: apfst_def map_prod_def case_prod_beta intro: effect_same)
next
  case (GetAsset i)
  then show ?thesis
    using get_ok(1-4) [OF inv, of "fst (handle_get env i a)" a' env i] w res
    by (auto simp: apfst_def map_prod_def case_prod_beta intro: effect_same)
next
  case (ClearAsset i)
  then have a': "a' = handle_clear env i a" "reply = Acked (Inr ())" using res by simp_all
  show ?thesis
  proof (cases "entry_map a i")
    case None
    then show ?thesis using inv w dom_asset_of [OF inv, of i]
      by (simp add: a' ClearAsset handle_clear_def effect_same fun_upd_idem)
  next
    case (Some e)
    then have eq: "a' = evict_and_tell env i a" by (simp add: a' handle_clear_def)
    have ev: "evicts [i] a a'" unfolding eq by (rule evicts_evict_and_tell [OF inv]) (use Some in auto)
    have "effect cmd reply a a'"
      by (rule effectI [of "{}" _ _ _ _ "[i]"]) (use ev in \<open>simp_all add: evicts_def ClearAsset restrict_single\<close>)
    then show ?thesis
      using within_evicts [OF ev inv _ w] inv_evict_and_tell [OF inv db, of i] by (simp add: eq)
  qed
next
  case (ReserveDisk need)
  then have a': "a' = enforce_disk_limits env (free_add DISK_FREE_HEADROOM_BYTES need) a" using res by (simp add: reserve_disk_def)
  obtain gone where g: "evicts gone a a'" "asset_inv sha ids a'" using disk_limits [OF inv db] unfolding a' by blast
  then show ?thesis using within_evicts [OF g(1) inv g(2) w] by (auto simp: ReserveDisk intro: effect_evicts)
qed (use inv w res in \<open>auto intro: effect_same\<close>)

lemma sweep_evicts:
  "asset_inv sha ids a \<Longrightarrow> db_ok env \<Longrightarrow> distinct xs \<Longrightarrow> set xs \<subseteq> dom (entry_map a) \<Longrightarrow>
    evicts xs a (fold (evict_and_tell env) xs a) \<and> asset_inv sha ids (fold (evict_and_tell env) xs a)"
proof (induction xs arbitrary: a)
  case (Cons x xs)
  have ev: "evicts [x] a (evict_and_tell env x a)" using Cons.prems by (intro evicts_evict_and_tell) auto
  moreover have "set xs \<subseteq> dom (entry_map (evict_and_tell env x a))"
    using Cons.prems ev by (auto simp: evicts_def restrict_map_def)
  ultimately show ?case
    using Cons.IH [of "evict_and_tell env x a"] Cons.prems evicts_trans [OF ev, of xs] by (simp add: inv_evict_and_tell)
qed simp

definition expired :: "nat \<Rightarrow> AssetEntry \<Rightarrow> bool" where
  "expired now e \<longleftrightarrow> (case ent_ttl_deadline e of None \<Rightarrow> False | Some d \<Rightarrow> d \<le> now)"

lemma ttl_sweep_ok:
  assumes inv: "asset_inv sha ids a" and db: "db_ok env"
  shows "\<exists>gone. evicts gone a (ttl_sweep env a) \<and> asset_inv sha ids (ttl_sweep env a) \<and>
    (\<forall>i. i \<in> set gone \<longleftrightarrow> (\<exists>e. entry_map a i = Some e \<and> expired (ae_instant env) e))"
proof -
  let ?xs = "map fst (filter (\<lambda>(_, e). expired (ae_instant env) e) (aa_entries a))"
  note d = asset_invD(3) [OF inv]
  have "set ?xs \<subseteq> dom (entry_map a)" using d by (force simp: dom_map_of_conv_image_fst)
  moreover have "distinct ?xs" using d by (simp add: distinct_map_filter)
  moreover have "i \<in> set ?xs \<longleftrightarrow> (\<exists>e. entry_map a i = Some e \<and> expired (ae_instant env) e)" for i
    using d by (force simp: map_of_eq_Some_iff)
  ultimately show ?thesis
    using sweep_evicts [OF inv db, of ?xs] unfolding ttl_sweep_def Let_def expired_def by blast
qed

lemma map_of_touched: "map_of (map (\<lambda>(i, x). (i, f i x)) xs) i = map_option (f i) (map_of xs i)"
  by (induction xs) auto

lemma flush_ok:
  assumes inv: "asset_inv sha ids a"
  shows "asset_inv sha ids (flush_persist_touches env a)" "asset_of (flush_persist_touches env a) = asset_of a"
    "aa_events (flush_persist_touches env a) = aa_events a" "within_budget (flush_persist_touches env a) = within_budget a"
    "aa_entries (flush_persist_touches env a) = aa_entries a"
proof -
  let ?a = "flush_persist_touches env a"
  show same: "aa_entries ?a = aa_entries a" "aa_events ?a = aa_events a" "within_budget ?a = within_budget a"
    by (simp_all add: flush_persist_touches_def within_budget_def)
  have files: "aa_files ?a = aa_files a" "aa_memory_byte_total ?a = aa_memory_byte_total a"
    "aa_disk_byte_total ?a = aa_disk_byte_total a" by (simp_all add: flush_persist_touches_def)
  show "asset_of ?a = asset_of a"
    by (simp add: asset_of_def same files fun_eq_iff cong: option.case_cong EntryStorage.case_cong)
  define f where "f i row = (if i \<in> set (aa_dirty_persist a) then row\<lparr>row_accessed_at := ae_unix_now env\<rparr> else row)" for i and row :: AssetRow
  have rows: "aa_rows ?a = aa_rows a \<or> aa_rows ?a = map (\<lambda>(i, row). (i, f i row)) (aa_rows a)"
    by (simp add: flush_persist_touches_def f_def)
  then have "distinct (map fst (aa_rows ?a))" using asset_invD(4) [OF inv] by (auto simp: comp_def case_prod_beta)
  moreover have "row_ok (entry_map a i) (row_map ?a i)" for i
  proof -
    have "row_describes e (f i w) = row_describes e w" for e w by (simp add: f_def row_describes_def)
    then have "row_ok (entry_map a i) (map_option (f i) (row_map a i)) = row_ok (entry_map a i) (row_map a i)"
      by (cases "entry_map a i"; cases "row_map a i") simp_all
    then show ?thesis using rows asset_invD(8) [OF inv, of i] by (auto simp: map_of_touched)
  qed
  ultimately show "asset_inv sha ids ?a" using inv by (simp add: asset_inv_def same files)
qed

section \<open>Restart\<close>

definition persisted :: "AssetActor \<Rightarrow> bytes \<Rightarrow> bool" where
  "persisted a i \<longleftrightarrow> (\<exists>e. entry_map a i = Some e \<and> is_disk_persisted (ent_retention e))"

text \<open>What the restored entry has of the former one.\<close>

definition restores :: "AssetEntry \<Rightarrow> AssetEntry \<Rightarrow> bool" where
  "restores e e' \<longleftrightarrow> ent_storage e' = ent_storage e \<and> ent_mime e' = ent_mime e \<and> ent_byte_len e' = ent_byte_len e \<and>
    ent_retention e' = ent_retention e"

lemma bytes_of_map_le:
  assumes "finite (dom m)" and "\<And>i e'. m' i = Some e' \<Longrightarrow> \<exists>e. m i = Some e \<and> tier_len t e' = tier_len t e"
  shows "bytes_of t m' \<le> bytes_of t m"
proof -
  have "dom m' \<subseteq> dom m" using assms(2) by fastforce
  moreover have "tier_len t (the (m' i)) = tier_len t (the (m i))" if "i \<in> dom m'" for i
    using assms(2) that by fastforce
  ultimately show ?thesis unfolding bytes_of_def using assms(1)
    by (simp add: sum_mono2 cong: sum.cong)
qed

lemma restored_retention:
  assumes "is_disk_persisted r" shows "(if is_pinned r then DISK_PINNED else DISK_LRU) = r"
  using assms by (cases r; cases "rt_lifetime r") (auto simp: is_disk_persisted_def is_pinned_def DISK_PINNED_def DISK_LRU_def)

lemma restore_row_ok:
  assumes inv: "asset_inv sha ids a" and row: "row_map a i = Some w"
    and s: "aa_files s = aa_files a" "aa_disk_byte_total s \<le> DISK_BUDGET_BYTES"
  shows "\<exists>e e'. entry_map a i = Some e \<and> is_disk_persisted (ent_retention e) \<and> restores e e' \<and>
    aa_entries (restore_row env (i, w) s) = AList.update i e' (aa_entries s) \<and>
    aa_disk_byte_total (restore_row env (i, w) s) = aa_disk_byte_total s + tier_len DiskTier e' \<and>
    tier_len MemoryTier e' = 0 \<and> aa_memory_byte_total (restore_row env (i, w) s) = aa_memory_byte_total s \<and>
    aa_files (restore_row env (i, w) s) = aa_files s \<and> aa_rows (restore_row env (i, w) s) = aa_rows s \<and>
    aa_events (restore_row env (i, w) s) = aa_events s"
proof -
  obtain e where e: "entry_map a i = Some e" "is_disk_persisted (ent_retention e)" "row_describes e w"
    using asset_invD(8) [OF inv, of i] row by (cases "entry_map a i") auto
  from e(3) have st: "ent_storage e = OnDisk (row_path w)" and len: "row_byte_len w = int (ent_byte_len e)"
    by (simp_all add: row_describes_def)
  obtain content where c: "file_map a (BlobPath (row_path w)) = Some content" "length content = ent_byte_len e" "fits content"
    using asset_invD(7) [OF inv e(1)] st by (auto simp: entry_ok_def)
  let ?e = "\<lparr>ent_retention = ent_retention e, ent_mime = ent_mime e, ent_byte_len = ent_byte_len e,
    ent_accessed_at = row_accessed_at w, ent_lru_seq = aa_lru_clock s + 1, ent_ttl_deadline = None, ent_storage = ent_storage e\<rparr>"
  have "ent_byte_len e < 2 ^ 63" using c(2,3) by (simp add: fits_def)
  then have "restore_row env (i, w) s = put_entry i ?e
      (s\<lparr>aa_disk_byte_total := aa_disk_byte_total s + ent_byte_len e, aa_lru_clock := aa_lru_clock s + 1\<rparr>)"
    using c(1) s e(3) restored_retention [OF e(2)]
    by (simp add: restore_row_def Let_def next_lru_seq_def sat_add_small len st row_describes_def)
  moreover have "tier_len DiskTier ?e = ent_byte_len e" "tier_len MemoryTier ?e = 0"
    by (simp_all add: tier_len_def entry_tier_def st)
  ultimately show ?thesis using e(1,2) by (intro exI [of _ e] exI [of _ ?e]) (simp add: restores_def)
qed

definition restored :: "AssetActor \<Rightarrow> AssetActor \<Rightarrow> bool" where
  "restored a s \<longleftrightarrow> aa_files s = aa_files a \<and> aa_rows s = aa_rows a \<and> aa_events s = [] \<and>
    aa_memory_byte_total s = 0 \<and> aa_disk_byte_total s = bytes_of DiskTier (entry_map s) \<and> distinct (map fst (aa_entries s)) \<and>
    bytes_of MemoryTier (entry_map s) = 0 \<and>
    (\<forall>i e'. entry_map s i = Some e' \<longrightarrow> (\<exists>e. entry_map a i = Some e \<and> is_disk_persisted (ent_retention e) \<and> restores e e'))"

lemma restored_fold:
  assumes inv: "asset_inv sha ids a" and w: "within_budget a"
    and rows: "distinct (map fst rs)" "set rs \<subseteq> set (aa_rows a)"
  shows "restored a (fold (restore_row env) rs (AssetActor_new (aa_files a) (aa_rows a))) \<and>
    dom (entry_map (fold (restore_row env) rs (AssetActor_new (aa_files a) (aa_rows a)))) = fst ` set rs"
  using rows
proof (induction rs rule: rev_induct)
  case (snoc x rs)
  obtain i r where x: "x = (i, r)" by (cases x)
  let ?s = "fold (restore_row env) rs (AssetActor_new (aa_files a) (aa_rows a))"
  have IH: "restored a ?s" "dom (entry_map ?s) = fst ` set rs" using snoc by simp_all
  have row: "row_map a i = Some r" using snoc.prems asset_invD(4) [OF inv] by (auto simp: x)
  have new: "entry_map ?s i = None" using snoc.prems IH(2) by (auto simp: x domIff)
  have small: "aa_disk_byte_total ?s \<le> DISK_BUDGET_BYTES"
  proof -
    have "bytes_of DiskTier (entry_map ?s) \<le> bytes_of DiskTier (entry_map a)"
      using IH(1) by (intro bytes_of_map_le [OF finite_dom_map_of])
        (fastforce simp: restored_def restores_def tier_len_def entry_tier_def)
    then show ?thesis using IH(1) w asset_invD(6) [OF inv] by (simp add: restored_def within_budget_def)
  qed
  obtain e e' where e: "entry_map a i = Some e" "is_disk_persisted (ent_retention e)" "restores e e'"
    "aa_entries (restore_row env x ?s) = AList.update i e' (aa_entries ?s)"
    "aa_disk_byte_total (restore_row env x ?s) = aa_disk_byte_total ?s + tier_len DiskTier e'"
    "tier_len MemoryTier e' = 0" "aa_memory_byte_total (restore_row env x ?s) = aa_memory_byte_total ?s"
    "aa_files (restore_row env x ?s) = aa_files ?s" "aa_rows (restore_row env x ?s) = aa_rows ?s"
    "aa_events (restore_row env x ?s) = aa_events ?s"
    using restore_row_ok [OF inv row _ small, of env] IH(1) by (auto simp: x restored_def)
  have m: "entry_map (restore_row env x ?s) = (entry_map ?s)(i \<mapsto> e')" by (simp add: e(4) update_conv')
  have b: "bytes_of t (entry_map (restore_row env x ?s)) = bytes_of t (entry_map ?s) + tier_len t e'" for t
    using bytes_of_upd [OF finite_dom_map_of, of t "aa_entries ?s" i e'] new by (simp add: m fun_upd_idem)
  have "restored a (restore_row env x ?s)"
    using IH(1) e(1-3) unfolding restored_def b by (simp add: e(5-10) m, simp add: e(4) distinct_update)
  moreover have "dom (entry_map (restore_row env x ?s)) = fst ` set (rs @ [x])"
    unfolding m using IH(2) by (simp add: x)
  ultimately show ?case by simp
qed (simp add: restored_def AssetActor_new_def)


lemma live_blob_names_in: "(i, e) \<in> set (aa_entries s) \<Longrightarrow> ent_storage e = OnDisk p \<Longrightarrow> p \<in> set (live_blob_names s)"
  by (force simp: live_blob_names_def List.map_filter_def split: EntryStorage.split)

lemma live_blob_names_from:
  "p \<in> set (live_blob_names s) \<Longrightarrow> \<exists>i e. (i, e) \<in> set (aa_entries s) \<and> ent_storage e = OnDisk p"
  by (force simp: live_blob_names_def List.map_filter_def split: EntryStorage.splits)

lemma map_of_filter_key: "map_of (filter (\<lambda>(k, _). P k) xs) k = (if P k then map_of xs k else None)"
  by (induction xs) auto

lemma sweep_files:
  "file_map (sweep_orphan_blobs env live s) p =
    (case p of OtherPath q \<Rightarrow> file_map s p
     | BlobPath n \<Rightarrow> if n \<in> set live \<or> \<not> ae_remove env p then file_map s p else None)"
  by (simp add: sweep_orphan_blobs_def map_of_filter_key split: AssetPath.split)

text \<open>The state in which the limits of the disk are enforced.\<close>

definition rebooted :: "AssetEnv \<Rightarrow> AssetActor \<Rightarrow> AssetActor" where
  "rebooted env a =
    (let s = fold (restore_row env) (sort_key (\<lambda>(_, row). row_accessed_at row) (aa_rows a)) (AssetActor_new (aa_files a) (aa_rows a))
     in sweep_orphan_blobs env (live_blob_names s) s)"

lemma asset_restart_eq: "asset_restart env a = evict_until_under_disk_budget env (rebooted env a)"
  by (simp add: asset_restart_def bootstrap_def rebooted_def Let_def AssetActor_new_def)

lemma rebooted_ok:
  assumes inv: "asset_inv sha ids a" and w: "within_budget a"
  shows "asset_inv sha ids (rebooted env a)" "within_budget (rebooted env a)" "aa_events (rebooted env a) = []"
    "asset_of (rebooted env a) i = (if persisted a i then asset_of a i else None)"
    "\<exists>e'. persisted a i \<longrightarrow> entry_map (rebooted env a) i = Some e' \<and> restores (the (entry_map a i)) e'"
    "ae_remove env (BlobPath n) \<Longrightarrow> file_map (rebooted env a) (BlobPath n) \<noteq> None \<longleftrightarrow> (\<exists>i. persisted a i \<and> n = sha i)"
proof -
  let ?rs = "sort_key (\<lambda>(_, row). row_accessed_at row) (aa_rows a)"
  define s where "s = fold (restore_row env) ?rs (AssetActor_new (aa_files a) (aa_rows a))"
  have "distinct (map fst ?rs)"
    using asset_invD(4) [OF inv] by (metis distinct_map distinct_sort mset_eq_setD mset_sort distinct_count_atmost_1 mset_map)
  then have r: "restored a s" "dom (entry_map s) = fst ` set (aa_rows a)"
    using restored_fold [OF inv w, of ?rs env] by (simp_all add: s_def)
  have pers: "i \<in> dom (entry_map s) \<longleftrightarrow> persisted a i" for i
  proof -
    have "i \<in> dom (entry_map s) \<longleftrightarrow> row_map a i \<noteq> None" using r(2) by (simp add: map_of_eq_None_iff)
    also have "\<dots> \<longleftrightarrow> persisted a i"
      using asset_invD(8) [OF inv, of i] by (cases "entry_map a i"; cases "row_map a i") (auto simp: persisted_def)
    finally show ?thesis .
  qed
  have eq: "rebooted env a = sweep_orphan_blobs env (live_blob_names s) s" by (simp add: rebooted_def s_def Let_def)
  have same: "aa_entries (rebooted env a) = aa_entries s" "aa_rows (rebooted env a) = aa_rows a"
    "aa_memory_byte_total (rebooted env a) = aa_memory_byte_total s"
    "aa_disk_byte_total (rebooted env a) = aa_disk_byte_total s" "aa_events (rebooted env a) = []"
    using r(1) by (simp_all add: eq sweep_orphan_blobs_def restored_def)
  have entry: "\<exists>e. entry_map a i = Some e \<and> is_disk_persisted (ent_retention e) \<and> restores e e' \<and> ent_storage e' = OnDisk (sha i) \<and>
      file_map (rebooted env a) (BlobPath (sha i)) = file_map a (BlobPath (sha i))" if s_i: "entry_map s i = Some e'" for i e'
  proof -
    obtain e where e: "entry_map a i = Some e" "is_disk_persisted (ent_retention e)" "restores e e'"
      using r(1) s_i by (auto simp: restored_def)
    have "ent_storage e = OnDisk (sha i)"
      using asset_invD(7) [OF inv e(1)] e(2) by (cases "ent_storage e") (auto simp: entry_ok_def is_disk_persisted_def entry_tier_def)
    then have st: "ent_storage e' = OnDisk (sha i)" using e(3) by (simp add: restores_def)
    have "file_map (rebooted env a) (BlobPath (sha i)) = file_map a (BlobPath (sha i))"
      using live_blob_names_in [OF map_of_SomeD [OF s_i] st] r(1) by (simp add: eq sweep_files restored_def)
    with e st show ?thesis by blast
  qed
  have of: "asset_of (rebooted env a) i = (if persisted a i then asset_of a i else None)" for i
  proof (cases "entry_map s i")
    case None
    then show ?thesis using pers [of i] by (auto simp: asset_of_def same)
  next
    case (Some e')
    then obtain e where e: "entry_map a i = Some e" "restores e e'" "ent_storage e = OnDisk (sha i)"
      "file_map (rebooted env a) (BlobPath (sha i)) = file_map a (BlobPath (sha i))" "persisted a i"
      using entry [OF Some] pers [of i] by (auto simp: restores_def)
    with Some show ?thesis by (simp add: asset_of_def same restores_def)
  qed
  then show "asset_of (rebooted env a) i = (if persisted a i then asset_of a i else None)" .
  show "\<exists>e'. persisted a i \<longrightarrow> entry_map (rebooted env a) i = Some e' \<and> restores (the (entry_map a i)) e'"
    using entry pers [of i] by (fastforce simp: same domIff)
  have "entry_ok sha (file_map (rebooted env a)) i e'" if "entry_map s i = Some e'" for i e'
  proof -
    obtain e where e: "entry_map a i = Some e" "restores e e'"
      "file_map (rebooted env a) (BlobPath (sha i)) = file_map a (BlobPath (sha i))" using entry [OF \<open>entry_map s i = Some e'\<close>] by blast
    then show ?thesis
      using asset_invD(7) [OF inv e(1)] by (auto simp: entry_ok_def restores_def entry_tier_def split: EntryStorage.splits)
  qed
  moreover have "row_ok (entry_map s i) (row_map a i)" for i
  proof (cases "entry_map s i")
    case None
    then have "\<not> persisted a i" using pers [of i] by (simp add: domIff)
    then show ?thesis using None asset_invD(8) [OF inv, of i]
      by (cases "row_map a i"; cases "entry_map a i") (auto simp: persisted_def)
  next
    case (Some e')
    obtain e where e: "entry_map a i = Some e" "is_disk_persisted (ent_retention e)" "restores e e'" using entry [OF Some] by blast
    then show ?thesis using Some asset_invD(8) [OF inv, of i]
      by (cases "row_map a i") (auto simp: restores_def row_describes_def)
  qed
  moreover have "dom (entry_map s) \<subseteq> ids" using asset_invD(2) [OF inv] pers by (fastforce simp: persisted_def)
  moreover have "fits c" if "file_map (rebooted env a) p = Some c" for p c
    using that r(1) asset_invD(9) [OF inv, of p c] by (auto simp: eq sweep_files restored_def split: AssetPath.splits if_splits)
  ultimately show inv': "asset_inv sha ids (rebooted env a)"
    using r(1) inv unfolding asset_inv_def same by (simp add: restored_def)
  have "bytes_of DiskTier (entry_map s) \<le> bytes_of DiskTier (entry_map a)"
    using entry by (intro bytes_of_map_le [OF finite_dom_map_of]) (fastforce simp: restores_def tier_len_def entry_tier_def)
  then show "within_budget (rebooted env a)"
    using w r(1) asset_invD(6) [OF inv] by (simp add: within_budget_def same restored_def)
  show "aa_events (rebooted env a) = []" by (rule same)
  show "file_map (rebooted env a) (BlobPath n) \<noteq> None \<longleftrightarrow> (\<exists>i. persisted a i \<and> n = sha i)" if "ae_remove env (BlobPath n)"
  proof
    assume "file_map (rebooted env a) (BlobPath n) \<noteq> None"
    then have "n \<in> set (live_blob_names s)" using that by (auto simp: eq sweep_files split: if_splits)
    then obtain i e where "(i, e) \<in> set (aa_entries s)" "ent_storage e = OnDisk n" using live_blob_names_from by blast
    moreover have "distinct (map fst (aa_entries s))" using r(1) by (simp add: restored_def)
    ultimately show "\<exists>i. persisted a i \<and> n = sha i" using entry [of i e] by (auto simp: persisted_def)
  next
    assume "\<exists>i. persisted a i \<and> n = sha i"
    then obtain i where i: "persisted a i" "n = sha i" by blast
    then obtain e' where e': "entry_map s i = Some e'" using pers [of i] by auto
    then show "file_map (rebooted env a) (BlobPath n) \<noteq> None"
      using asset_invD(7) [OF inv', of i e'] entry [OF e'] by (auto simp: same entry_ok_def i(2))
  qed
qed

lemma restart_ok:
  assumes "asset_inv sha ids a" "within_budget a" "db_ok env"
  shows "asset_inv sha ids (asset_restart env a)" "within_budget (asset_restart env a)"
    "\<exists>gone. evicts gone (rebooted env a) (asset_restart env a)"
proof -
  obtain gone where "evicts gone (rebooted env a) (asset_restart env a)" "asset_inv sha ids (asset_restart env a)"
    using disk_limits [OF rebooted_ok(1) [OF assms(1,2)] assms(3), of env]
    unfolding asset_restart_eq evict_until_under_disk_budget_def by blast
  then show "asset_inv sha ids (asset_restart env a)" "within_budget (asset_restart env a)"
    "\<exists>gone. evicts gone (rebooted env a) (asset_restart env a)"
    using within_evicts [of gone "rebooted env a"] rebooted_ok [OF assms(1,2)] by blast+
qed

section \<open>Lives\<close>

datatype AssetTurn = AssetTurn AssetEnv AssetInput | AssetReboot AssetEnv

fun asset_turn :: "(bytes \<Rightarrow> bytes) \<Rightarrow> AssetTurn \<Rightarrow> AssetActor \<Rightarrow> AssetActor" where
  "asset_turn sha (AssetTurn env inp) a = asset_step sha (env, inp) a"
| "asset_turn sha (AssetReboot env) a = asset_restart env a"

fun input_ok :: "bytes set \<Rightarrow> AssetEnv \<times> AssetInput \<Rightarrow> bool" where
  "input_ok ids (env, AssetCmd cmd) \<longleftrightarrow> db_ok env \<and> asset_cmd_ok ids cmd"
| "input_ok ids (env, AssetSweep) \<longleftrightarrow> db_ok env"

fun turn_ok :: "bytes set \<Rightarrow> AssetTurn \<Rightarrow> bool" where
  "turn_ok ids (AssetTurn env inp) \<longleftrightarrow> input_ok ids (env, inp)"
| "turn_ok ids (AssetReboot env) \<longleftrightarrow> db_ok env"

definition asset_good :: "(bytes \<Rightarrow> bytes) \<Rightarrow> bytes set \<Rightarrow> AssetActor \<Rightarrow> bool" where
  "asset_good sha ids a \<longleftrightarrow> asset_inv sha ids a \<and> within_budget a"

text \<open>What a turn makes of an abstract map from names to assets; nothing comes of a sweep or a restart.\<close>

fun turn_spec :: "(bytes \<Rightarrow> bytes) \<Rightarrow> AssetTurn \<Rightarrow> AssetActor \<Rightarrow> (bytes \<rightharpoonup> CachedAsset) \<Rightarrow> (bytes \<rightharpoonup> CachedAsset)" where
  "turn_spec sha (AssetTurn env (AssetCmd cmd)) a m = asset_spec cmd (fst (handle_asset sha env cmd a)) (file_map a) m"
| "turn_spec sha (AssetTurn env AssetSweep) a m = m"
| "turn_spec sha (AssetReboot env) a m = m"

lemma asset_spec_mono: "m \<subseteq>\<^sub>m n \<Longrightarrow> asset_spec cmd reply files m \<subseteq>\<^sub>m asset_spec cmd reply files n"
  by (cases "(cmd, reply, files, m)" rule: asset_spec.cases) (auto simp: map_le_def split: option.split)

lemma turn_spec_mono: "m \<subseteq>\<^sub>m n \<Longrightarrow> turn_spec sha t a m \<subseteq>\<^sub>m turn_spec sha t a n"
  by (cases "(sha, t, a, m)" rule: turn_spec.cases) (simp_all add: asset_spec_mono)

lemma restrict_le [simp]: "m |` S \<subseteq>\<^sub>m m"
  by (auto simp: map_le_def)

lemma sweep_step:
  assumes "asset_good sha ids a" and "db_ok env"
  obtains gone where "evicts gone a (asset_step sha (env, AssetSweep) a)" "asset_good sha ids (asset_step sha (env, AssetSweep) a)"
proof -
  obtain gone where g: "evicts gone a (ttl_sweep env a)" "asset_inv sha ids (ttl_sweep env a)"
    using ttl_sweep_ok [of sha ids a env] assms by (auto simp: asset_good_def)
  note f = flush_ok [OF g(2), of env]
  have "evicts gone a (asset_step sha (env, AssetSweep) a)"
    using g(1) f by (simp add: evicts_def, simp add: flush_persist_touches_def)
  moreover have "asset_good sha ids (asset_step sha (env, AssetSweep) a)"
    using f within_evicts [OF g(1) _ g(2)] assms(1) by (simp add: asset_good_def)
  ultimately show ?thesis using that by blast
qed

lemma asset_turn_ok:
  assumes "turn_ok ids t" and "asset_good sha ids a"
  shows "asset_good sha ids (asset_turn sha t a) \<and> asset_of (asset_turn sha t a) \<subseteq>\<^sub>m turn_spec sha t a (asset_of a)"
proof (cases "(sha, t, a, asset_of a)" rule: turn_spec.cases)
  case (1 sha env cmd a m)
  then show ?thesis
    using assms cmd_ok [of sha ids a env cmd "fst (handle_asset sha env cmd a)" "snd (handle_asset sha env cmd a)"]
    by (auto simp: asset_good_def effect_def restrict_le)
next
  case (2 sha env a m)
  with assms obtain gone where "evicts gone a (asset_step sha (env, AssetSweep) a)"
      "asset_good sha ids (asset_step sha (env, AssetSweep) a)"
    using sweep_step [of sha ids a env] by auto
  with 2 show ?thesis by (auto simp: evicts_def map_le_def restrict_map_def simp del: asset_step.simps)
next
  case (3 sha env a m)
  then have a: "asset_inv sha ids a" "within_budget a" "db_ok env" using assms by (simp_all add: asset_good_def)
  then have "asset_of (asset_restart env a) \<subseteq>\<^sub>m asset_of a"
    using restart_ok(3) [OF a] rebooted_ok(4) [OF a(1,2), of env]
    by (auto simp: evicts_def map_le_def restrict_map_def split: if_splits)
  with 3 restart_ok(1,2) [OF a] show ?thesis by (simp add: asset_good_def)
qed

interpretation asset_life: run_invariant "asset_turn sha" "turn_ok ids" "asset_good sha ids" for sha ids
  by unfold_locales (simp add: asset_turn_ok)

lemma asset_good_new:
  "inj_on sha ids \<Longrightarrow> list_all (\<lambda>(_, c). fits c) files \<Longrightarrow> asset_good sha ids (AssetActor_new files [])"
  by (auto simp: asset_good_def asset_inv_def within_budget_def AssetActor_new_def list_all_iff dest!: map_of_SomeD)

end
