(* ===== verification/Asset_Behaviour.thy ===== *)
theory Asset_Behaviour
  imports Asset_Run
begin

text \<open>The properties of the asset cache, and three ways in which it leaves its subscribers or its own accounting
  wrong.\<close>

section \<open>Budgets\<close>

lemma reachable_good:
  assumes "inj_on sha ids" and "list_all (\<lambda>(_, c). fits c) files" and "list_all (turn_ok ids) turns"
  shows "asset_good sha ids (fold (asset_turn sha) turns (AssetActor_new files []))"
  by (rule asset_life.run_keeps [OF assms(3) asset_good_new [OF assms(1,2)]])

text \<open>C10. While the database works, and whatever the disk refuses, through any commands, sweeps and restarts: the byte
  counts are those of the assets that can be had, and both stay within their budgets.\<close>

theorem cache_within_budget:
  assumes "inj_on sha ids" and "list_all (\<lambda>(_, c). fits c) files" and "list_all (turn_ok ids) turns"
    and "a = fold (asset_turn sha) turns (AssetActor_new files [])"
  shows "aa_memory_byte_total a \<le> MEMORY_BUDGET_BYTES \<and> aa_disk_byte_total a \<le> DISK_BUDGET_BYTES \<and>
    aa_memory_byte_total a + aa_disk_byte_total a = (\<Sum>i\<in>dom (asset_of a). length (ca_bytes (the (asset_of a i))))"
proof -
  have good: "asset_good sha ids a" unfolding assms(4) by (rule reachable_good [OF assms(1-3)])
  then have inv: "asset_inv sha ids a" by (simp add: asset_good_def)
  have dom: "dom (asset_of a) = dom (entry_map a)" using dom_asset_of [OF inv] by (simp add: dom_def)
  have len: "tier_len MemoryTier e + tier_len DiskTier e = length (ca_bytes (the (asset_of a i)))"
    if e: "entry_map a i = Some e" for i e
    using asset_invD(7) [OF inv e] by (auto simp: entry_ok_def asset_of_def e tier_len_def entry_tier_def split: EntryStorage.splits)
  have "aa_memory_byte_total a + aa_disk_byte_total a =
      (\<Sum>i\<in>dom (entry_map a). tier_len MemoryTier (the (entry_map a i)) + tier_len DiskTier (the (entry_map a i)))"
    by (simp add: asset_invD(5,6) [OF inv] bytes_of_def sum.distrib)
  also have "\<dots> = (\<Sum>i\<in>dom (entry_map a). length (ca_bytes (the (asset_of a i))))"
    by (rule sum.cong) (auto simp: len)
  finally show ?thesis using good by (simp add: asset_good_def within_budget_def dom)
qed

section \<open>What is given out\<close>

text \<open>What was entered last under each name, over a whole life.\<close>

fun latest_entered :: "(bytes \<Rightarrow> bytes) \<Rightarrow> AssetTurn list \<Rightarrow> AssetActor \<Rightarrow> (bytes \<rightharpoonup> CachedAsset) \<Rightarrow> (bytes \<rightharpoonup> CachedAsset)" where
  "latest_entered sha [] a m = m"
| "latest_entered sha (t # turns) a m = latest_entered sha turns (asset_turn sha t a) (turn_spec sha t a m)"

lemma asset_of_latest:
  "list_all (turn_ok ids) turns \<Longrightarrow> asset_good sha ids a \<Longrightarrow> asset_of a \<subseteq>\<^sub>m m \<Longrightarrow>
    asset_of (fold (asset_turn sha) turns a) \<subseteq>\<^sub>m latest_entered sha turns a m"
proof (induction turns arbitrary: a m)
  case (Cons t turns)
  then have ok: "asset_good sha ids (asset_turn sha t a)" "asset_of (asset_turn sha t a) \<subseteq>\<^sub>m turn_spec sha t a (asset_of a)"
    using asset_turn_ok by auto
  with Cons.prems(3) have "asset_of (asset_turn sha t a) \<subseteq>\<^sub>m turn_spec sha t a m"
    using turn_spec_mono map_le_trans by blast
  with Cons.IH ok(1) Cons.prems(1) show ?case by simp
qed simp

text \<open>C8. The cache implements a map that may forget: an asset it gives out is the one entered last under that name, bytes
  and type, by an insertion that has been acknowledged and not cleared since. Neither a failed insertion nor an
  eviction, nor what the disk has kept over a restart, lets a former one reappear. All of this while the database
  works (\<open>db_ok\<close> in every turn, which \<open>turn_ok\<close> asks for): \<open>torn_blob_restored\<close> below is what happens otherwise.\<close>

theorem cache_serves_latest:
  assumes "inj_on sha ids" and "list_all (\<lambda>(_, c). fits c) files" and "list_all (turn_ok ids) turns"
    and "fst (handle_get env i (fold (asset_turn sha) turns (AssetActor_new files []))) = Some x"
  shows "latest_entered sha turns (AssetActor_new files []) Map.empty i = Some x"
proof -
  let ?new = "AssetActor_new files []" and ?a = "fold (asset_turn sha) turns (AssetActor_new files [])"
  have good: "asset_good sha ids ?new" "asset_good sha ids ?a"
    using asset_good_new reachable_good assms(1-3) by blast+
  then have "asset_inv sha ids ?a" by (simp add: asset_good_def)
  then have "asset_of ?a i = Some x"
    using get_ok(5) [OF _ prod.collapse] assms(4) by blast
  moreover have "asset_of ?new = Map.empty" by (simp add: asset_of_def AssetActor_new_def fun_eq_iff)
  then have "asset_of ?a \<subseteq>\<^sub>m latest_entered sha turns ?new Map.empty"
    using asset_of_latest [OF assms(3) good(1)] by simp
  ultimately show ?thesis by (auto simp: map_le_def dom_def)
qed

text \<open>C9. A restart with room to spare keeps every persistent asset, with its bytes, its type and its retention, forgets all
  the others, and leaves no file behind that belongs to none.\<close>

theorem restart_keeps_persistent:
  assumes "inj_on sha ids" and "list_all (\<lambda>(_, c). fits c) files" and "list_all (turn_ok ids) turns"
    and "a = fold (asset_turn sha) turns (AssetActor_new files [])" and "a' = asset_restart env a"
    and "db_ok env" and "DISK_FREE_HEADROOM_BYTES \<le> ae_free env"
    and "ae_read env'" and "ae_remove env (BlobPath n)"
  shows "fst (handle_get env' i a') = (if persisted a i then fst (handle_get env' i a) else None) \<and>
    (persisted a i \<longrightarrow> map_option ent_retention (entry_map a' i) = map_option ent_retention (entry_map a i)) \<and>
    (file_map a' (BlobPath n) \<noteq> None \<longleftrightarrow> (\<exists>j. persisted a j \<and> n = sha j))"
proof -
  have inv: "asset_inv sha ids a" "within_budget a"
    using reachable_good [OF assms(1-3)] by (simp_all add: assms(4) asset_good_def)
  note r = rebooted_ok [OF inv, where env = env]
  have a': "a' = rebooted env a"
    using disk_limits_idle [OF _ assms(7)] r(2)
    by (simp add: assms(5) asset_restart_eq evict_until_under_disk_budget_def within_budget_def)
  have get: "fst (handle_get env' i b) = asset_of b i" if "asset_inv sha ids b" for b
    using get_ok(6) [OF that prod.collapse assms(8)] .
  have "map_option ent_retention (entry_map a' i) = map_option ent_retention (entry_map a i)" if "persisted a i"
    using r(5) [where i = i] that by (auto simp: a' persisted_def restores_def)
  then show ?thesis using r(1,4) r(6) [OF assms(9)] inv(1) by (simp add: get a')
qed

text \<open>A sweep drops exactly the assets whose time is up.\<close>

lemma sweep_drops_expired:
  assumes "asset_good sha ids a" and "db_ok env"
  shows "entry_map (asset_step sha (env, AssetSweep) a) i =
    (case entry_map a i of None \<Rightarrow> None | Some e \<Rightarrow> if expired (ae_instant env) e then None else Some e)"
proof -
  obtain gone where g: "evicts gone a (ttl_sweep env a)" "asset_inv sha ids (ttl_sweep env a)"
    "i \<in> set gone \<longleftrightarrow> (\<exists>e. entry_map a i = Some e \<and> expired (ae_instant env) e)"
    using ttl_sweep_ok [of sha ids a env] assms by (auto simp: asset_good_def)
  then show ?thesis using flush_ok(5) [OF g(2), of env] by (simp add: evicts_def restrict_map_def split: option.split)
qed

section \<open>What goes wrong\<close>

lemma pick_only_lru:
  assumes "entry_map a i = Some e" and "entry_tier e = MemoryTier" and "rt_lifetime (ent_retention e) = Lru"
    and "distinct (map fst (aa_entries a))"
    and others: "\<And>j f. entry_map a j = Some f \<Longrightarrow> entry_tier f = MemoryTier \<Longrightarrow> rt_lifetime (ent_retention f) = Lru \<Longrightarrow> j = i"
  shows "pick_memory_victim a = Some i"
proof -
  let ?v = "fold (consider_victim (aa_lru_clock a)) (aa_entries a) no_victims"
  have "vt_lru ?v \<noteq> None"
    using lru_fold(2) [of "aa_lru_clock a" "aa_entries a" no_victims] map_of_SomeD [OF assms(1)] assms(2,3) by auto
  then obtain j s where j: "vt_lru ?v = Some (j, s)" by auto
  with lru_fold(1) [OF j] others assms(4) have "j = i" by (auto simp: map_of_eq_Some_iff)
  with j show ?thesis by (simp add: pick_memory_victim_def Let_def)
qed

text \<open>C26. An insertion into memory tells its subscribers that the asset is ready after the eviction that it causes. When
  every other asset in memory is pinned or has a time to live, the new one is the victim: it is announced as
  ready, last, and is not there.\<close>

theorem evicted_asset_announced:
  assumes "asset_good sha ids a" and "i \<in> ids" and "fits content" and "content \<noteq> []" and "entry_map a i = None"
    and "\<forall>j f. entry_map a j = Some f \<and> entry_tier f = MemoryTier \<longrightarrow> rt_lifetime (ent_retention f) \<noteq> Lru"
    and "MEMORY_BUDGET_BYTES < aa_memory_byte_total a + length content"
    and "(reply, a') = handle_asset sha env (InsertAsset i content mime MEM_LRU) a"
  shows "reply = Acked (Inr ()) \<and> aa_events a' = aa_events a @ [AssetIsCleared i, AssetIsReady i] \<and>
    fst (handle_asset sha env' (ContainsAsset i) a') = Answered False"
proof -
  have inv: "asset_inv sha ids a" and w: "aa_memory_byte_total a \<le> MEMORY_BUDGET_BYTES"
    using assms(1) by (simp_all add: asset_good_def within_budget_def)
  let ?e = "new_entry env MEM_LRU mime (length content) (aa_lru_clock a + 1) (InMemory content)"
  define b where "b = put_entry i ?e (snd (next_lru_seq
    (a\<lparr>aa_memory_byte_total := sat_add (aa_memory_byte_total a) (length content)\<rparr>)))"
  have res: "reply = Acked (Inr ())" "a' = tell (AssetIsReady i) (evict_until_under_memory_budget env b)"
    using assms(4,5,8) by (simp_all add: handle_insert_def MEM_LRU_def Let_def enter_memory_def evict_entry_absent b_def
      next_lru_seq_def)
  have b: "entry_map b = (entry_map a)(i \<mapsto> ?e)" "aa_events b = aa_events a"
    "aa_memory_byte_total b = aa_memory_byte_total a + length content" "distinct (map fst (aa_entries b))"
    using w assms(3) asset_invD(3) [OF inv]
    by (simp_all add: b_def next_lru_seq_def Let_def update_conv' sat_add_small fits_def distinct_update)
  have "pick_memory_victim b = Some i"
    by (rule pick_only_lru [of b i ?e])
      (use b assms(6) in \<open>auto simp: new_entry_def entry_tier_def MEM_LRU_def split: if_splits\<close>)
  moreover have "aa_memory_byte_total (evict_and_tell env i b) = aa_memory_byte_total a"
    using b evict_entry_totals [of b i ?e env]
    by (simp add: evict_and_tell_def tell_def tier_len_def new_entry_def entry_tier_def)
  ultimately have "evict_until_under_memory_budget env b = evict_and_tell env i b"
    using assms(7) w b(3) by (subst evict_until_under_memory_budget.simps)
      (simp add: evict_until_under_memory_budget.simps)
  then show ?thesis
    using res b(2) by (simp add: evict_and_tell_def tell_def evict_entry_maps)
qed

text \<open>An insertion that fails after it has evicted what it was to replace says nothing of that.\<close>

lemma failed_insert_unannounced:
  assumes "entry_map a i \<noteq> None" and "content \<noteq> []" and "rt_tier r = DiskTier" and "ae_write env \<noteq> WriteOk"
    and "(reply, a') = handle_asset sha env (InsertAsset i content mime r) a"
  shows "reply = Acked (Inl AssetIo) \<and> entry_map a' i = None \<and> aa_events a' = aa_events a"
  using assms by (auto simp: handle_insert_def Let_def write_file_def evict_entry_maps split: WriteResult.splits)

text \<open>An insertion whose row cannot be written has counted its bytes already: they count for ever, for no entry.\<close>

lemma failed_row_leaks:
  assumes "entry_map a i = None" and "content \<noteq> []" and "is_disk_persisted r" and "ae_write env = WriteOk"
    and "\<not> ae_row_write env" and "(reply, a') = handle_asset sha env (InsertAsset i content mime r) a"
  shows "reply = Acked (Inl AssetDb) \<and> aa_entries a' = aa_entries a \<and>
    aa_disk_byte_total a' = sat_add (aa_disk_byte_total a) (length content)"
  using assms by (auto simp: handle_insert_def Let_def write_file_def enter_disk_def persist_write_def is_disk_persisted_def
      evict_entry_absent)

text \<open>A restart announces nothing: a subscriber that starts with the cache does not learn of what has been restored.\<close>

lemma restored_unannounced:
  assumes "asset_good sha ids a" and "persisted a i" and "DISK_FREE_HEADROOM_BYTES \<le> ae_free env"
  shows "entry_map (asset_restart env a) i \<noteq> None \<and> aa_events (asset_restart env a) = []"
proof -
  have inv: "asset_inv sha ids a" "within_budget a" using assms(1) by (simp_all add: asset_good_def)
  note r = rebooted_ok [OF inv, where env = env]
  have "asset_restart env a = rebooted env a"
    using disk_limits_idle [OF _ assms(3)] r(2)
    by (simp add: asset_restart_eq evict_until_under_disk_budget_def within_budget_def)
  then show ?thesis using r(3) r(5) [of i] assms(2) by auto
qed

section \<open>Witnesses\<close>

definition demo_asset_env :: AssetEnv where
  "demo_asset_env = \<lparr>ae_instant = 0, ae_unix_now = 1000, ae_free = 4 * DISK_FREE_HEADROOM_BYTES, ae_write = WriteOk,
     ae_rename = Renamed, ae_fsync_source = True, ae_copy = True, ae_fsync_dir = True, ae_stat = True, ae_read = True,
     ae_remove = (\<lambda>_. True), ae_row_write = True, ae_row_delete = (\<lambda>_. True), ae_row_update = True\<rparr>"

definition demo_asset_turns :: "AssetTurn list" where
  "demo_asset_turns =
    [AssetTurn demo_asset_env (AssetCmd (InsertAsset [1] [7, 7] None DISK_LRU)),
     AssetTurn demo_asset_env (AssetCmd (InsertAsset [2] [9] None MEM_LRU)),
     AssetTurn demo_asset_env AssetSweep, AssetReboot demo_asset_env]"

definition demo_memory_turns :: "AssetTurn list" where
  "demo_memory_turns = [AssetTurn demo_asset_env (AssetCmd (InsertAsset [2] [9] None MEM_LRU))]"

lemma demo_turns_ok:
  "list_all (turn_ok UNIV) demo_asset_turns" "list_all (turn_ok UNIV) demo_memory_turns" "inj_on (\<lambda>b. b) UNIV"
  "list_all (\<lambda>(_ :: AssetPath, c). fits c) []" "db_ok demo_asset_env"
  "DISK_FREE_HEADROOM_BYTES \<le> ae_free demo_asset_env" "ae_read demo_asset_env" "ae_remove demo_asset_env p"
  by (simp_all add: demo_asset_turns_def demo_memory_turns_def demo_asset_env_def db_ok_def fits_def)

text \<open>When the disk is full for the blob and for the database at once, the row of the former asset stays, the new blob
  is cut off, and the insertion fails: the next restart gives out the torn bytes, which were never entered, under
  the former row.\<close>

definition full_disk_env :: AssetEnv where
  "full_disk_env = demo_asset_env\<lparr>ae_write := WritePart 1, ae_row_write := False, ae_row_delete := (\<lambda>_. False)\<rparr>"

lemma torn_blob_restored:
  "fst (handle_get demo_asset_env [1] (fold (asset_turn (\<lambda>b. b))
      [AssetTurn demo_asset_env (AssetCmd (InsertAsset [1] [7, 7] None DISK_LRU)),
       AssetTurn full_disk_env (AssetCmd (InsertAsset [1] [8, 9] None DISK_LRU)),
       AssetReboot demo_asset_env] (AssetActor_new [] []))) = Some \<lparr>ca_bytes = [8], ca_mime = None\<rparr>"
proof -
  let ?first = "snd (handle_asset (\<lambda>b. b) demo_asset_env (InsertAsset [1] [7, 7] None DISK_LRU) (AssetActor_new [] []))"
  let ?torn = "snd (handle_asset (\<lambda>b. b) full_disk_env (InsertAsset [1] [8, 9] None DISK_LRU) ?first)"
  have idle: "evict_until_under_disk_budget demo_asset_env a = a" if "aa_disk_byte_total a \<le> DISK_BUDGET_BYTES" for a
    using that by (simp add: evict_until_under_disk_budget_def disk_limits_idle demo_asset_env_def)
  have budget: "2 \<le> DISK_BUDGET_BYTES" by (simp add: DISK_BUDGET_BYTES_def)
  let ?row = "\<lparr>row_path = [1], row_mime = None, row_byte_len = 2, row_inserted_at = 1000, row_accessed_at = 1000, row_pinned = False\<rparr>"
  have calm: "ae_write demo_asset_env = WriteOk" "ae_row_write demo_asset_env" "ae_remove demo_asset_env p"
    "ae_unix_now demo_asset_env = 1000" "ae_read demo_asset_env" for p
    by (simp_all add: demo_asset_env_def)
  have full: "ae_write full_disk_env = WritePart 1" "ae_remove full_disk_env p" "\<not> ae_row_delete full_disk_env i" for p i
    by (simp_all add: full_disk_env_def calm)
  have first: "aa_rows ?first = [([1], ?row)]" "aa_files ?first = [(BlobPath [1], [7, 7])]"
    "\<exists>e. aa_entries ?first = [([1], e)] \<and> ent_storage e = OnDisk [1] \<and> is_disk_persisted (ent_retention e)"
    using budget
    by (simp_all add: handle_insert_def evict_entry_def AssetActor_new_def DISK_LRU_def Let_def write_file_def calm
        enter_disk_def persist_write_def is_disk_persisted_def is_pinned_def as_i64_def next_lru_seq_def put_entry_def
        new_entry_def make_disk_room_def idle sat_add_def USIZE_MAX_def tell_def safe_blob_name_def)
  then have torn: "aa_rows ?torn = [([1], ?row)]" "aa_files ?torn = [(BlobPath [1], [8])]"
    by (auto simp: handle_insert_def evict_entry_def DISK_LRU_def Let_def write_file_def remove_file_def delete_row_def
        full safe_blob_name_def)
  have restart: "fst (handle_get demo_asset_env [1] (asset_restart demo_asset_env b)) = Some \<lparr>ca_bytes = [8], ca_mime = None\<rparr>"
    if "aa_rows b = [([1], ?row)]" "aa_files b = [(BlobPath [1], [8])]" for b
    using budget that
    by (simp add: asset_restart_def bootstrap_def AssetActor_new_def restore_row_def Let_def next_lru_seq_def
        put_entry_def live_blob_names_def map_filter_simps sweep_orphan_blobs_def idle sat_add_def USIZE_MAX_def
        handle_get_def calm)
  show ?thesis using restart [OF torn] by simp
qed

theorem cache_within_budget_witness:
  "aa_disk_byte_total (fold (asset_turn (\<lambda>b. b)) demo_asset_turns (AssetActor_new [] [])) \<le> DISK_BUDGET_BYTES"
  using cache_within_budget [OF demo_turns_ok(3,4,1) refl] by simp

lemma demo_memory_get:
  "fst (handle_get demo_asset_env [2] (fold (asset_turn (\<lambda>b. b)) demo_memory_turns (AssetActor_new [] []))) =
    Some \<lparr>ca_bytes = [9], ca_mime = None\<rparr>"
  by (simp add: demo_memory_turns_def handle_insert_def evict_entry_def AssetActor_new_def MEM_LRU_def enter_memory_def
      next_lru_seq_def Let_def put_entry_def new_entry_def sat_add_def USIZE_MAX_def tell_def MEMORY_BUDGET_BYTES_def
      evict_until_under_memory_budget.simps handle_get_def)

theorem cache_serves_latest_witness:
  "latest_entered (\<lambda>b. b) demo_memory_turns (AssetActor_new [] []) Map.empty [2] = Some \<lparr>ca_bytes = [9], ca_mime = None\<rparr>"
  by (rule cache_serves_latest [OF demo_turns_ok(3,4,2) demo_memory_get])

theorem restart_keeps_persistent_witness:
  "let a = fold (asset_turn (\<lambda>b. b)) demo_asset_turns (AssetActor_new [] []); a' = asset_restart demo_asset_env a in
     fst (handle_get demo_asset_env [1] a') = (if persisted a [1] then fst (handle_get demo_asset_env [1] a) else None)"
  using restart_keeps_persistent [OF demo_turns_ok(3,4,1) refl refl demo_turns_ok(5,6,7,8), of "[1]" "[1]"]
  unfolding Let_def by (rule conjunct1)

theorem evicted_asset_announced_witness:
  "let content = replicate (9 * 1024 * 1024) 0;
       a' = snd (handle_asset (\<lambda>b. b) demo_asset_env (InsertAsset [1] content None MEM_LRU) (AssetActor_new [] []))
   in aa_events a' = [AssetIsCleared [1], AssetIsReady [1]] \<and>
      fst (handle_asset (\<lambda>b. b) demo_asset_env (ContainsAsset [1]) a') = Answered False"
proof -
  let ?new = "AssetActor_new [] []" and ?content = "replicate (9 * 1024 * 1024) (0 :: u8)"
  let ?r = "handle_asset (\<lambda>b. b) demo_asset_env (InsertAsset [1] ?content None MEM_LRU) ?new"
  have "fst ?r = Acked (Inr ()) \<and> aa_events (snd ?r) = aa_events ?new @ [AssetIsCleared [1], AssetIsReady [1]] \<and>
      fst (handle_asset (\<lambda>b. b) demo_asset_env (ContainsAsset [1]) (snd ?r)) = Answered False"
    by (rule evicted_asset_announced [OF asset_good_new [OF demo_turns_ok(3,4)] UNIV_I _ _ _ _ _ prod.collapse])
      (simp_all add: fits_def AssetActor_new_def MEMORY_BUDGET_BYTES_def)
  then show ?thesis unfolding Let_def by (simp add: AssetActor_new_def)
qed

end
