(* ===== verification/Player_Clients.thy ===== *)
theory Player_Clients
  imports Player_Facts
begin

text \<open>What the clients of the player see: the snapshots it broadcasts against the state it is in, the artwork
  it keeps pinned, and the history it keeps of what was played.\<close>

section \<open>The time only moves the playhead\<close>

lemma holds_any_time: "ca_holds now = ca_holds 0"
  by (intro ext) (simp add: ca_holds_def split: option.split)

lemma elect_no_time: "elect now cs = elect 0 cs"
proof -
  have "compare_claims now = compare_claims 0"
    by (intro ext) (simp add: compare_claims_def ca_holds_now_playing_def holds_any_time [of now] split: prod.split)
  moreover have "ca_latest_live_claim now = ca_latest_live_claim 0"
    by (intro ext) (simp add: ca_latest_live_claim_def)
  ultimately show ?thesis by (simp add: elect_def)
qed

lemma authority_no_time:
  "is_authoritative now scope r = is_authoritative 0 scope r"
  "companion_app_bundle now r = companion_app_bundle 0 r"
  "authority_primary now r = authority_primary 0 r"
  by (simp_all add: is_authoritative_def companion_app_bundle_def authority_primary_def elected_companion_def
      elect_no_time [of now] holds_any_time [of now] cong: option.case_cong)

lemma authoritative_same_registry:
  assumes "pe_authority env = pe_authority env'"
  shows "companion_now_playing_authoritative env scope s = companion_now_playing_authoritative env' scope s"
  unfolding companion_now_playing_authoritative_def iap2_foreground_is_other_app_def assms
  by (simp add: authority_no_time(1) [of "pe_now env"] authority_no_time(1) [of "pe_now env'"]
      authority_no_time(2) [of "pe_now env"] authority_no_time(2) [of "pe_now env'"]
      cong: option.case_cong)

lemma merged_same_registry:
  assumes "pe_authority env = pe_authority env'"
  shows "merged_metadata env s = merged_metadata env' s"
    "(merged_playback env s)\<lparr>pbu_position_ms := p\<rparr> = (merged_playback env' s)\<lparr>pbu_position_ms := p\<rparr>"
  using authoritative_same_registry [OF assms]
  by (simp_all add: merged_metadata_def merged_playback_def Let_def)

section \<open>What is compared\<close>

definition state_speed :: "PlayerStateReply \<Rightarrow> f32" where
  "state_speed r = plo_speed (wps_options (psr_state r))"

text \<open>A reply without its position, its like, the upcoming queue (which has a message of its own) and its speed.\<close>

definition shown :: "PlayerStateReply \<Rightarrow> PlayerStateReply" where
  "shown r =
    r\<lparr>psr_state := (psr_state r)\<lparr>wps_playback := (wps_playback (psr_state r))\<lparr>wpb_position_ms := 0\<rparr>,
       wps_track := map_option (\<lambda>t. t\<lparr>mit_liked := None\<rparr>) (wps_track (psr_state r)),
       wps_queue := [], wps_options := (wps_options (psr_state r))\<lparr>plo_speed := 0\<rparr>\<rparr>\<rparr>"

definition same_speed :: "f32 \<Rightarrow> f32 \<Rightarrow> bool" where
  "same_speed x y \<longleftrightarrow> x = y \<or> f32_eq x y"

definition same_state :: "PlayerStateReply \<Rightarrow> PlayerStateReply \<Rightarrow> bool" where
  "same_state r r' \<longleftrightarrow> shown r = shown r' \<and> same_speed (state_speed r) (state_speed r')"

lemma same_state_refl [simp]: "same_state r r"
  by (simp add: same_state_def same_speed_def)

lemma same_state_trans: "same_state r r' \<Longrightarrow> same_state r' r'' \<Longrightarrow> same_state r r''"
  by (auto simp: same_state_def same_speed_def f32_eq_def)

lemma shown_sig [simp]:
  "shown (bsg_state (BroadcastSig_of snapshot)) = shown (psn_state_reply snapshot)"
  "state_speed (bsg_state (BroadcastSig_of snapshot)) = state_speed (psn_state_reply snapshot)"
  "bsg_queue (BroadcastSig_of snapshot) = psn_queue_reply snapshot"
  by (simp_all add: BroadcastSig_of_def shown_def state_speed_def Let_def option.map_comp o_def)

lemma sig_eq_same:
  assumes "sig_eq x y"
  shows "same_state (bsg_state x) (bsg_state y)" "bsg_queue x = bsg_queue y"
proof -
  have r: "sig_rest x = sig_rest y" and v: "f32_eq (sig_speed x) (sig_speed y)" using assms by (auto simp: sig_eq_def)
  have "shown (bsg_state (sig_rest z)) = shown (bsg_state z)" for z
    by (simp add: sig_rest_def shown_def)
  then have "shown (bsg_state x) = shown (bsg_state y)" using r by metis
  then show "same_state (bsg_state x) (bsg_state y)"
    using v by (simp add: same_state_def same_speed_def sig_speed_def state_speed_def)
  show "bsg_queue x = bsg_queue y" using arg_cong [OF r, of bsg_queue] by (simp add: sig_rest_def)
qed

lemma replies_same_registry:
  assumes "pe_authority env = pe_authority env'"
  shows "shown (fst (replies env s)) = shown (fst (replies env' s))"
    "state_speed (fst (replies env s)) = state_speed (fst (replies env' s))"
    "snd (replies env s) = snd (replies env' s)"
proof -
  note m = merged_same_registry [OF assms] authoritative_same_registry [OF assms]
  define p where "p = merged_playback env s"
  define p' where "p' = merged_playback env' s"
  have pp: "pbu_shuffle_mode p = pbu_shuffle_mode p'" "pbu_queue_index p = pbu_queue_index p'"
    "pbu_queue_count p = pbu_queue_count p'" "pbu_queue_chapter_index p = pbu_queue_chapter_index p'"
    "pbu_set_elapsed_time_available p = pbu_set_elapsed_time_available p'"
    "pbu_queue_list_avail p = pbu_queue_list_avail p'" "pbu_apple_music_radio_ad p = pbu_apple_music_radio_ad p'"
    "pbu_playback_speed p = pbu_playback_speed p'" "pbu_app_bundle p = pbu_app_bundle p'"
    "pbu_app_display_name p = pbu_app_display_name p'"
    using merged_same_registry(2) [OF assms, where s = s and p = None] by (cases p; cases p'; simp add: p_def [symmetric] p'_def [symmetric])+
  have a: "active_app env s = active_app env' s"
    by (simp add: active_app_def p_def [symmetric] p'_def [symmetric] pp Let_def split: option.split)
  show "shown (fst (replies env s)) = shown (fst (replies env' s))"
    "state_speed (fst (replies env s)) = state_speed (fst (replies env' s))"
    "snd (replies env s) = snd (replies env' s)"
    by (simp_all add: replies_def shown_def state_speed_def Let_def m(1,3) a p_def [symmetric] p'_def [symmetric]
        playback_reply_def pp)
qed

section \<open>What the clients have\<close>

definition client_state :: "PlayerOut list \<Rightarrow> PlayerStateReply option" where
  "client_state out = fold (\<lambda>x c. case x of SnapshotSent r \<Rightarrow> Some r | _ \<Rightarrow> c) out None"

definition client_queue :: "PlayerOut list \<Rightarrow> PlayerQueueReply option" where
  "client_queue out = fold (\<lambda>x c. case x of QueueSent r \<Rightarrow> Some r | _ \<Rightarrow> c) out None"

text \<open>The artwork that is pinned once the cache has done what it was told.\<close>

definition pins :: "PlayerOut list \<Rightarrow> bytes set" where
  "pins out = fold (\<lambda>x p. case x of Pinned i \<Rightarrow> insert i p | Unpinned i \<Rightarrow> p - {i} | _ \<Rightarrow> p) out {}"

lemma client_append:
  "client_state (out @ more_out) = (case client_state more_out of None \<Rightarrow> client_state out | Some r \<Rightarrow> Some r)"
  "client_queue (out @ more_out) = (case client_queue more_out of None \<Rightarrow> client_queue out | Some r \<Rightarrow> Some r)"
proof -
  have "fold (\<lambda>x c. case x of SnapshotSent r \<Rightarrow> Some r | _ \<Rightarrow> c) xs c =
      (case fold (\<lambda>x c. case x of SnapshotSent r \<Rightarrow> Some r | _ \<Rightarrow> c) xs None of None \<Rightarrow> c | Some r \<Rightarrow> Some r)" for xs c
    by (induction xs rule: rev_induct) (auto split: PlayerOut.split option.split)
  then show "client_state (out @ more_out) = (case client_state more_out of None \<Rightarrow> client_state out | Some r \<Rightarrow> Some r)"
    unfolding client_state_def fold_append comp_def by blast
  have "fold (\<lambda>x c. case x of QueueSent r \<Rightarrow> Some r | _ \<Rightarrow> c) xs c =
      (case fold (\<lambda>x c. case x of QueueSent r \<Rightarrow> Some r | _ \<Rightarrow> c) xs None of None \<Rightarrow> c | Some r \<Rightarrow> Some r)" for xs c
    by (induction xs rule: rev_induct) (auto split: PlayerOut.split option.split)
  then show "client_queue (out @ more_out) = (case client_queue more_out of None \<Rightarrow> client_queue out | Some r \<Rightarrow> Some r)"
    unfolding client_queue_def fold_append comp_def by blast
qed

lemma broadcast_client:
  assumes "list_all (\<lambda>ok. ok) results"
  shows "client_queue (broadcast_for results kind snapshot) = Some (psn_queue_reply snapshot)"
    "client_state (broadcast_for results kind snapshot) =
      (if kind = FullKind then Some (psn_state_reply snapshot) else None)"
  using assms by (cases kind; auto simp: client_queue_def client_state_def split: list.split)+

lemma published_client [simp]:
  "client_queue (Published snapshot # out) = client_queue out"
  "client_state (Published snapshot # out) = client_state out"
  "client_queue [] = None" "client_state [] = None"
  by (simp_all add: client_queue_def client_state_def)

lemma reconcile_fields [simp]:
  "pac_state (reconcile_head_pin env a) = pac_state a"
  "pac_last_sig (reconcile_head_pin env a) = pac_last_sig a"
  "pac_prev_current (reconcile_head_pin env a) = pac_prev_current a"
  "pac_asset_events (reconcile_head_pin env a) = pac_asset_events a"
  "client_state (pac_out (reconcile_head_pin env a)) = client_state (pac_out a)"
  "client_queue (pac_out (reconcile_head_pin env a)) = client_queue (pac_out a)"
  by (simp_all add: reconcile_head_pin_def Let_def client_append split: option.split)
    (simp_all add: client_state_def client_queue_def)

section \<open>Turns\<close>

text \<open>The state a turn ends in, its snapshot, and whether it broadcasts.\<close>

definition turn_state :: "PlayerEnv \<Rightarrow> PlayerActor \<Rightarrow> PlayerState" where
  "turn_state env a =
    (case rolled_off (pac_prev_current a) (pqr_current (snd (replies env (pac_state a)))) of
       None \<Rightarrow> pac_state a | Some outgoing \<Rightarrow> note_rolled_off outgoing (pac_state a))"

definition turn_sends :: "PlayerEnv \<Rightarrow> bool \<Rightarrow> PlayerActor \<Rightarrow> bool" where
  "turn_sends env force a \<longleftrightarrow>
    (let snapshot = snapshot_of env (turn_state env a) in
     \<not> holds_incomplete_transition snapshot (pac_last_sig a) \<and>
     (force \<or> (case pac_last_sig a of None \<Rightarrow> True | Some l \<Rightarrow> \<not> sig_eq l (BroadcastSig_of snapshot))))"

lemma snapshot_replies [simp]:
  "psn_state_reply (snapshot_of env s) = fst (replies env s)"
  "psn_queue_reply (snapshot_of env s) = snd (replies env s)"
  by (simp_all add: snapshot_of_def case_prod_beta)

lemma finish_turn_fields:
  "pac_state (finish_turn env results kind force a) = turn_state env a"
  "pac_last_sig (finish_turn env results kind force a) =
    (if turn_sends env force a then Some (BroadcastSig_of (snapshot_of env (turn_state env a))) else pac_last_sig a)"
  "pac_prev_current (finish_turn env results kind force a) = pqr_current (snd (replies env (turn_state env a)))"
  "pac_asset_events (finish_turn env results kind force a) = pac_asset_events a"
  "client_state (pac_out (finish_turn env results kind force a)) =
    client_state (pac_out a @ (if turn_sends env force a then broadcast_for results kind (snapshot_of env (turn_state env a)) else []))"
  "client_queue (pac_out (finish_turn env results kind force a)) =
    client_queue (pac_out a @ (if turn_sends env force a then broadcast_for results kind (snapshot_of env (turn_state env a)) else []))"
  by (simp_all add: finish_turn_def turn_state_def turn_sends_def Let_def client_append cong: option.case_cong)

lemma active_app_cong:
  assumes "effective_track s = effective_track s'" "merged_playback env s = merged_playback env s'"
  shows "active_app env s = active_app env s'"
  unfolding active_app_def assms ..

lemma rolled_off_shown [simp]:
  "fst (replies env (note_rolled_off q s)) = fst (replies env s)"
  "pqr_current (snd (replies env (note_rolled_off q s))) = pqr_current (snd (replies env s))"
proof -
  have "merged_metadata env (note_rolled_off q s) = merged_metadata env s"
    "merged_playback env (note_rolled_off q s) = merged_playback env s"
    "companion_now_playing_authoritative env sc (note_rolled_off q s) = companion_now_playing_authoritative env sc s" for sc
    by (rule merged_cong; simp add: note_rolled_off_def)+
  note m = this
  have "effective_track (note_rolled_off q s) = effective_track s"
    by (simp add: note_rolled_off_def effective_track_def)
  note e = this
  have "pl_companion_queue (note_rolled_off q s) = pl_companion_queue s" "pl_context (note_rolled_off q s) = pl_context s"
    "pl_target (note_rolled_off q s) = pl_target s" "pl_playback_speed (note_rolled_off q s) = pl_playback_speed s"
    "pl_playing (note_rolled_off q s) = pl_playing s" "pl_options (note_rolled_off q s) = pl_options s"
    "current_position_ms now (note_rolled_off q s) = current_position_ms now s" for now
    by (simp_all add: note_rolled_off_def current_position_ms_def cong: option.case_cong)
  note f = this
  show "fst (replies env (note_rolled_off q s)) = fst (replies env s)"
    "pqr_current (snd (replies env (note_rolled_off q s))) = pqr_current (snd (replies env s))"
    by (simp_all add: replies_def Let_def m e f playback_reply_def active_app_cong [OF e m(2)] cong: option.case_cong)
qed

lemma turn_state_shown [simp]: "fst (replies env (turn_state env a)) = fst (replies env (pac_state a))"
  by (simp add: turn_state_def split: option.split)

section \<open>The clients are up to date\<close>

lemma holds_shown:
  assumes "shown r = shown r'" "psn_state_reply x = r" "psn_state_reply x' = r'"
  shows "holds_incomplete_transition x l = holds_incomplete_transition x' l"
proof -
  have t: "map_option (\<lambda>t. t\<lparr>mit_liked := None\<rparr>) (wps_track (psr_state r)) =
      map_option (\<lambda>t. t\<lparr>mit_liked := None\<rparr>) (wps_track (psr_state r'))"
    using arg_cong [OF assms(1), of "\<lambda>r. wps_track (psr_state r)"] by (simp add: shown_def)
  have e: "titled t = titled t'" "mit_persistent_id t = mit_persistent_id t'"
    if "t\<lparr>mit_liked := None\<rparr> = t'\<lparr>mit_liked := None\<rparr>" for t t' :: MediaItem
  proof -
    have "mit_title t = mit_title t'" using arg_cong [OF that, of mit_title] by simp
    then show "titled t = titled t'" by (simp add: titled_def)
    show "mit_persistent_id t = mit_persistent_id t'" using arg_cong [OF that, of mit_persistent_id] by simp
  qed
  show ?thesis
  proof (cases "wps_track (psr_state r)")
    case None
    with t show ?thesis by (simp add: holds_incomplete_transition_def assms(2,3))
  next
    case (Some x1)
    with t obtain x2 where x2: "wps_track (psr_state r') = Some x2" and eq: "x1\<lparr>mit_liked := None\<rparr> = x2\<lparr>mit_liked := None\<rparr>"
      by (cases "wps_track (psr_state r')") auto
    show ?thesis using e [OF eq] by (simp add: holds_incomplete_transition_def assms(2,3) Some x2 cong: option.case_cong)
  qed
qed

definition clients_hold :: "PlayerActor \<Rightarrow> bool" where
  "clients_hold a \<longleftrightarrow>
    (case pac_last_sig a of
       None \<Rightarrow> client_queue (pac_out a) = None \<and> client_state (pac_out a) = None
     | Some l \<Rightarrow> client_queue (pac_out a) = Some (bsg_queue l) \<and>
         (\<forall>c. client_state (pac_out a) = Some c \<longrightarrow> same_state c (bsg_state l)))"

definition sig_current :: "AuthorityRegistry \<Rightarrow> PlayerActor \<Rightarrow> bool" where
  "sig_current auth a \<longleftrightarrow>
    (\<forall>l env. pac_last_sig a = Some l \<longrightarrow> pe_authority env = auth \<longrightarrow>
       holds_incomplete_transition (snapshot_of env (pac_state a)) (Some l) \<or>
       (same_state (bsg_state l) (fst (replies env (pac_state a))) \<and> bsg_queue l = snd (replies env (pac_state a))))"

lemma same_state_registry:
  "pe_authority env = pe_authority env' \<Longrightarrow> same_state (fst (replies env s)) (fst (replies env' s))"
  by (simp add: same_state_def same_speed_def replies_same_registry(1,2) [of env env'])

lemma sig_currentI:
  assumes auth: "pe_authority env = auth"
    and h: "\<And>l. pac_last_sig a = Some l \<Longrightarrow>
       holds_incomplete_transition (snapshot_of env (pac_state a)) (Some l) \<or>
       (same_state (bsg_state l) (fst (replies env (pac_state a))) \<and> bsg_queue l = snd (replies env (pac_state a)))"
  shows "sig_current auth a"
  unfolding sig_current_def
proof (intro allI impI)
  fix l and env' :: PlayerEnv assume l: "pac_last_sig a = Some l" and a': "pe_authority env' = auth"
  have r: "pe_authority env = pe_authority env'" using auth a' by simp
  have "holds_incomplete_transition (snapshot_of env (pac_state a)) (Some l) =
      holds_incomplete_transition (snapshot_of env' (pac_state a)) (Some l)"
    by (rule holds_shown [OF replies_same_registry(1) [OF r, of "pac_state a"]]) simp_all
  then show "holds_incomplete_transition (snapshot_of env' (pac_state a)) (Some l) \<or>
       (same_state (bsg_state l) (fst (replies env' (pac_state a))) \<and> bsg_queue l = snd (replies env' (pac_state a)))"
    using h [OF l] same_state_trans [OF _ same_state_registry [OF r]] replies_same_registry(3) [OF r] by auto
qed

lemma same_state_sig: "same_state (bsg_state (BroadcastSig_of x)) (psn_state_reply x)"
  "same_state (psn_state_reply x) (bsg_state (BroadcastSig_of x))"
  by (simp_all add: same_state_def same_speed_def)

lemma finish_turn_clients:
  fixes s1 a force kind results env
  defines "a' \<equiv> finish_turn env results kind force (a\<lparr>pac_state := s1\<rparr>)"
  assumes I: "clients_hold a" and F: "sig_current auth a" and env: "pe_authority env = auth" and ok: "list_all (\<lambda>ok. ok) results"
    and q: "kind = QueueOnly \<Longrightarrow> same_state (fst (replies env (pac_state a))) (fst (replies env s1))"
  shows "clients_hold a' \<and> sig_current auth a'"
proof -
  let ?a = "a\<lparr>pac_state := s1\<rparr>"
  let ?x = "snapshot_of env (turn_state env ?a)"
  note fields = finish_turn_fields [of env results kind force ?a, folded a'_def]
  show ?thesis
  proof (cases "turn_sends env force ?a")
    case True
    have sig: "pac_last_sig a' = Some (BroadcastSig_of ?x)" by (simp add: fields True)
    have out: "client_queue (pac_out a') = Some (snd (replies env (turn_state env ?a)))"
      "client_state (pac_out a') = (if kind = FullKind then Some (fst (replies env (turn_state env ?a))) else client_state (pac_out a))"
      by (simp_all add: fields True client_append broadcast_client [OF ok])
    have "same_state c (bsg_state (BroadcastSig_of ?x))" if c: "client_state (pac_out a') = Some c" for c
    proof (cases "kind = FullKind")
      case True
      with c out(2) show ?thesis using same_state_sig(2) [of ?x] by simp
    next
      case False
      then have kind: "kind = QueueOnly" by (cases kind) auto
      with c out(2) have c': "client_state (pac_out a) = Some c" by simp
      then obtain l where l: "pac_last_sig a = Some l" "same_state c (bsg_state l)"
        using I by (auto simp: clients_hold_def split: option.splits)
      have qs: "same_state (fst (replies env (pac_state a))) (fst (replies env s1))" by (rule q [OF kind])
      have "holds_incomplete_transition (snapshot_of env (pac_state a)) (Some l) = holds_incomplete_transition ?x (Some l)"
        by (rule holds_shown [of "fst (replies env (pac_state a))" "fst (replies env s1)"])
          (use qs in \<open>simp_all add: same_state_def\<close>)
      then have "\<not> holds_incomplete_transition (snapshot_of env (pac_state a)) (Some l)"
        using True l(1) by (simp add: turn_sends_def Let_def)
      then have "same_state (bsg_state l) (fst (replies env (pac_state a)))"
        using F l(1) env by (auto simp: sig_current_def)
      from same_state_trans [OF same_state_trans [OF l(2) this] qs] show ?thesis
        using same_state_sig(2) [of ?x] by (auto dest: same_state_trans)
    qed
    moreover have "sig_current auth a'"
      by (rule sig_currentI [OF env]) (use same_state_sig(1) [of ?x] in \<open>simp add: sig fields(1)\<close>)
    ultimately show ?thesis by (simp add: clients_hold_def sig out(1))
  next
    case False
    have sig: "pac_last_sig a' = pac_last_sig a" by (simp add: fields False)
    have "clients_hold a'" using I by (simp add: clients_hold_def sig fields False cong: option.case_cong)
    moreover have "sig_current auth a'"
    proof (rule sig_currentI [OF env])
      fix l assume l: "pac_last_sig a' = Some l"
      with False have "holds_incomplete_transition ?x (Some l) \<or> sig_eq l (BroadcastSig_of ?x)"
        by (auto simp: sig turn_sends_def Let_def)
      then show "holds_incomplete_transition (snapshot_of env (pac_state a')) (Some l) \<or>
         (same_state (bsg_state l) (fst (replies env (pac_state a'))) \<and> bsg_queue l = snd (replies env (pac_state a')))"
        using sig_eq_same [of l "BroadcastSig_of ?x"] same_state_sig(1) [of ?x]
        by (auto simp: fields(1) dest: same_state_trans)
    qed
    ultimately show ?thesis ..
  qed
qed

lemma queue_command_shown: "same_state (fst (replies env s)) (fst (replies env (apply_companion_queue env addr q s)))"
proof -
  let ?s = "apply_companion_queue env addr q s"
  have m: "merged_metadata env ?s = merged_metadata env s" "merged_playback env ?s = merged_playback env s"
    "companion_now_playing_authoritative env sc ?s = companion_now_playing_authoritative env sc s" for sc
    by (rule merged_cong; simp add: apply_companion_queue_def)+
  have f: "effective_track ?s = effective_track s" "pl_context ?s = pl_context s" "pl_target ?s = pl_target s"
    "pl_playback_speed ?s = pl_playback_speed s" "pl_playing ?s = pl_playing s" "pl_options ?s = pl_options s"
    "current_position_ms now ?s = current_position_ms now s" for now
    by (simp_all add: apply_companion_queue_def effective_track_def current_position_ms_def cong: option.case_cong)
  show ?thesis
    by (simp add: same_state_def same_speed_def replies_def shown_def state_speed_def Let_def m f playback_reply_def
        active_app_cong [OF f(1) m(2)] cong: option.case_cong)
qed

lemma replies_resync [simp]: "replies env (s\<lparr>pl_position_resync := b\<rparr>) = replies env s"
proof -
  let ?s = "s\<lparr>pl_position_resync := b\<rparr>"
  have m: "merged_metadata env ?s = merged_metadata env s" "merged_playback env ?s = merged_playback env s"
    "companion_now_playing_authoritative env sc ?s = companion_now_playing_authoritative env sc s" for sc
    by (rule merged_cong; simp)+
  have f: "effective_track ?s = effective_track s" "current_position_ms now ?s = current_position_ms now s" for now
    by (simp_all add: effective_track_def current_position_ms_def cong: option.case_cong)
  show ?thesis
    by (simp add: replies_def Let_def m f playback_reply_def active_app_cong [OF f(1) m(2)] cong: option.case_cong)
qed

lemma player_turn_clients:
  assumes I: "clients_hold a" and F: "sig_current auth a" and env: "pe_authority env = auth" and ok: "list_all (\<lambda>ok. ok) results"
  shows "clients_hold (player_turn env results i a) \<and> sig_current auth (player_turn env results i a)"
proof -
  note finish = finish_turn_clients [OF I F env ok]
  show ?thesis
  proof (cases i)
    case (Command cmd)
    have same: "same_state (fst (replies env (pac_state a))) (fst (replies env (apply_command env cmd (pac_state a))))"
      if "kind_for_command cmd = QueueOnly"
      using that queue_command_shown by (cases cmd) simp_all
    show ?thesis
    proof (cases "forces_broadcast cmd")
      case True
      then show ?thesis using finish [OF same] by (simp add: Command Let_def)
    next
      case False
      then show ?thesis using finish [OF same] finish [of _ "(apply_command env cmd (pac_state a))\<lparr>pl_position_resync := False\<rparr>"]
        same by (simp add: Command Let_def take_position_resync_def)
    qed
  next
    case AssetLagged
    then show ?thesis using finish [of FullKind "pac_state a" False] I F by simp
  next
    case AssetClosed
    then show ?thesis using I F by (simp add: clients_hold_def sig_current_def cong: option.case_cong)
  qed (use finish [of FullKind] I F in simp_all)
qed

lemma player_run_clients:
  assumes "clients_hold a" "sig_current auth a"
    and "list_all (\<lambda>(env, results, _). pe_authority env = auth \<and> list_all (\<lambda>ok. ok) results) events"
  shows "clients_hold (player_run events a) \<and> sig_current auth (player_run events a)"
  using assms
proof (induction events arbitrary: a)
  case (Cons e events)
  obtain env results i where e: "e = (env, results, i)" by (cases e)
  show ?case using Cons player_turn_clients [of a auth env results i] by (simp add: e)
qed simp

lemma clients_start: "clients_hold PlayerActor_new" "sig_current auth PlayerActor_new"
  by (simp_all add: clients_hold_def sig_current_def PlayerActor_new_def)

text \<open>C5. While the registry of authority stays the same and broadcasts succeed, the clients always have the
  current queue, and the current state as far as they were ever sent one; save when the actor holds back a track
  that has no title yet.\<close>

theorem clients_are_current:
  assumes "list_all (\<lambda>(env, results, _). pe_authority env = auth \<and> list_all (\<lambda>ok. ok) results) turns"
    and "a = player_run turns PlayerActor_new"
    and "pac_last_sig a \<noteq> None"
    and "pe_authority env = auth"
    and "\<not> holds_incomplete_transition (snapshot_of env (pac_state a)) (pac_last_sig a)"
  shows "client_queue (pac_out a) = Some (snd (replies env (pac_state a))) \<and>
    (client_state (pac_out a) = Some reply \<longrightarrow> same_state reply (fst (replies env (pac_state a))))"
proof -
  have I: "clients_hold a" and F: "sig_current auth a"
    using player_run_clients [OF clients_start assms(1)] by (simp_all add: assms(2))
  obtain l where l: "pac_last_sig a = Some l" using assms(3) by blast
  then have "same_state (bsg_state l) (fst (replies env (pac_state a)))" "bsg_queue l = snd (replies env (pac_state a))"
    using F assms(4,5) by (auto simp: sig_current_def)
  with I show ?thesis by (auto simp: clients_hold_def l dest: same_state_trans)
qed

lemma holds_own_sig: "\<not> holds_incomplete_transition x (Some (BroadcastSig_of x))"
proof -
  have "wps_track (psr_state (bsg_state (BroadcastSig_of x))) =
      map_option (\<lambda>t. t\<lparr>mit_liked := None\<rparr>) (wps_track (psr_state (psn_state_reply x)))"
    by (simp add: BroadcastSig_of_def Let_def)
  then show ?thesis by (simp add: holds_incomplete_transition_def split: option.split)
qed

lemma first_turn_sends: "pac_last_sig a = None \<Longrightarrow> turn_sends env force a"
  by (simp add: turn_sends_def Let_def holds_incomplete_transition_def split: option.split)

definition demo_env :: "nat \<Rightarrow> PlayerEnv" where
  "demo_env now = \<lparr>pe_now = now, pe_authority = AuthorityRegistry_new, pe_alphanumeric = (\<lambda>_. True)\<rparr>"

definition demo_turns :: "player_event list" where
  "demo_turns =
    [(demo_env 5, [True, True],
      Command (ApplyNowPlaying \<lparr>lnu_media_item = Some (MediaItemUpdate_default\<lparr>miu_persistent_id := Some [1],
        miu_title := Some [65]\<rparr>), lnu_playback = Some (PlaybackUpdate_default\<lparr>pbu_playing := Some True\<rparr>)\<rparr>))]"

lemma clients_are_current_witness:
  "let env = demo_env 7;
       a = player_run demo_turns PlayerActor_new in
   \<forall>reply. client_queue (pac_out a) = Some (snd (replies env (pac_state a))) \<and>
   (client_state (pac_out a) = Some reply \<longrightarrow> same_state reply (fst (replies env (pac_state a))))"
proof -
  let ?env = "demo_env 7" and ?early = "demo_env 5"
  let ?a = "player_run demo_turns PlayerActor_new"
  have auth: "pe_authority ?early = pe_authority ?env" by (simp add: demo_env_def)
  have sig: "pac_last_sig ?a = Some (BroadcastSig_of (snapshot_of ?early (pac_state ?a)))"
    by (simp add: demo_turns_def Let_def case_prod_beta finish_turn_fields first_turn_sends PlayerActor_new_def)
  have "holds_incomplete_transition (snapshot_of ?env (pac_state ?a)) (pac_last_sig ?a) =
      holds_incomplete_transition (snapshot_of ?early (pac_state ?a)) (pac_last_sig ?a)"
    by (rule holds_shown [OF replies_same_registry(1) [OF auth [symmetric], of "pac_state ?a"]]) simp_all
  then have h: "\<not> holds_incomplete_transition (snapshot_of ?env (pac_state ?a)) (pac_last_sig ?a)"
    using holds_own_sig by (simp only: sig not_False_eq_True)
  have l: "list_all (\<lambda>(env, results, _). pe_authority env = AuthorityRegistry_new \<and> list_all (\<lambda>ok. ok) results) demo_turns"
    by (simp add: demo_turns_def demo_env_def)
  have n: "pac_last_sig ?a \<noteq> None" using sig by simp
  have r: "pe_authority ?env = AuthorityRegistry_new" by (simp add: demo_env_def)
  show ?thesis unfolding Let_def
    by (intro allI clients_are_current [OF l refl n r h])
qed

section \<open>The pinned artwork\<close>

lemma pins_append_quiet:
  "(\<And>x. x \<in> set ys \<Longrightarrow> (case x of Pinned i \<Rightarrow> False | Unpinned i \<Rightarrow> False | _ \<Rightarrow> True)) \<Longrightarrow> pins (out @ ys) = pins out"
proof (induction ys rule: rev_induct)
  case (snoc y ys)
  from snoc.prems [of y] snoc.IH snoc.prems show ?case
    by (cases y) (auto simp: pins_def)
qed simp

lemma pins_reconcile:
  assumes "pins (pac_out a) = set_option (pac_pinned_head a)"
  shows "pac_pinned_head (reconcile_head_pin env a) =
      option_filter (\<lambda>i. is_present i (pac_state a)) (current_artwork_id env (pac_state a)) \<and>
    pins (pac_out (reconcile_head_pin env a)) = set_option (pac_pinned_head (reconcile_head_pin env a))"
  using assms by (auto simp: reconcile_head_pin_def Let_def pins_def split: option.split)

lemma pins_finish_turn:
  fixes env results kind force a
  defines "a' \<equiv> finish_turn env results kind force a"
  assumes "pins (pac_out a) = set_option (pac_pinned_head a)"
  shows "pac_pinned_head a' = option_filter (\<lambda>i. is_present i (pac_state a')) (current_artwork_id env (pac_state a'))"
    and "pins (pac_out a') = set_option (pac_pinned_head a')"
proof -
  have q: "case x of Pinned i \<Rightarrow> False | Unpinned i \<Rightarrow> False | _ \<Rightarrow> True"
    if "x \<in> set (Published y # (if b then broadcast_for results kind z else []))" for x y z b
    using that by (cases kind) (auto split: list.splits if_splits)
  define a1 where "a1 = a\<lparr>pac_state := turn_state env a,
    pac_prev_current := pqr_current (snd (replies env (turn_state env a))),
    pac_last_sig := (if turn_sends env force a then Some (BroadcastSig_of (snapshot_of env (turn_state env a))) else pac_last_sig a),
    pac_out := pac_out a @ Published (snapshot_of env (turn_state env a)) #
      (if turn_sends env force a then broadcast_for results kind (snapshot_of env (turn_state env a)) else [])\<rparr>"
  have a': "a' = reconcile_head_pin env a1"
    by (simp add: a'_def a1_def finish_turn_def turn_state_def turn_sends_def Let_def cong: option.case_cong)
  have "pins (pac_out a1) = set_option (pac_pinned_head a1)"
    using assms(2) pins_append_quiet [of "Published (snapshot_of env (turn_state env a)) #
      (if turn_sends env force a then broadcast_for results kind (snapshot_of env (turn_state env a)) else [])" "pac_out a", OF q]
    by (simp add: a1_def)
  from pins_reconcile [OF this, of env] show
    "pac_pinned_head a' = option_filter (\<lambda>i. is_present i (pac_state a')) (current_artwork_id env (pac_state a'))"
    "pins (pac_out a') = set_option (pac_pinned_head a')" by (simp_all add: a')
qed

lemma pins_player_turn:
  assumes "pins (pac_out a) = set_option (pac_pinned_head a)"
  shows "pins (pac_out (player_turn env results i a)) = set_option (pac_pinned_head (player_turn env results i a))"
  using assms by (cases i) (simp_all add: Let_def take_position_resync_def pins_finish_turn(2))

lemma player_run_append: "player_run (xs @ ys) a = player_run ys (player_run xs a)"
  by (induction xs arbitrary: a) auto

lemma pins_player_run:
  "pins (pac_out a) = set_option (pac_pinned_head a) \<Longrightarrow>
    pins (pac_out (player_run turns a)) = set_option (pac_pinned_head (player_run turns a))"
  by (induction turns arbitrary: a) (auto simp: pins_player_turn)

text \<open>At most one artwork is ever pinned, and after every command it is exactly the one the clients are shown, if
  the cache has it.\<close>

theorem head_pin_follows_artwork:
  "let a = player_run (turns @ [(env, results, Command cmd)]) PlayerActor_new in
   pins (pac_out a) =
     set_option (option_filter (\<lambda>i. is_present i (pac_state a)) (current_artwork_id env (pac_state a))) \<and>
   option_filter (\<lambda>i. is_present i (pac_state a)) (current_artwork_id env (pac_state a)) = pac_pinned_head a"
proof -
  have "pins (pac_out PlayerActor_new) = set_option (pac_pinned_head PlayerActor_new)"
    by (simp add: PlayerActor_new_def pins_def)
  from pins_player_run [OF this] have "pins (pac_out (player_run turns PlayerActor_new)) =
      set_option (pac_pinned_head (player_run turns PlayerActor_new))" .
  then show ?thesis
    by (simp add: player_run_append Let_def take_position_resync_def pins_finish_turn)
qed

end
