(* ===== verification/Asset_Player.thy ===== *)
theory Asset_Player
  imports Asset_Behaviour Player_Clients
begin

text \<open>The asset cache and the player that follows its events: which assets the player takes to be there, and so which
  artwork it pins. The cache is an instance of a component whose subscribers follow the names it holds.\<close>

section \<open>What subscribers know\<close>

fun mirror :: "AssetCacheEvent \<Rightarrow> bytes set \<Rightarrow> bytes set" where
  "mirror (AssetIsReady i) K = insert i K"
| "mirror (AssetIsCleared i) K = K - {i}"

lemma mirror_cleared: "fold mirror (map AssetIsCleared gone) K = K - set gone"
  by (induction gone arbitrary: K) auto

lemma mirror_ready: "fold mirror (map AssetIsReady ready) K = K \<union> set ready"
  by (induction ready arbitrary: K) auto

text \<open>A turn that takes nothing away silently, and in which what is announced is there.\<close>

fun honest :: "(bytes \<Rightarrow> bytes) \<Rightarrow> AssetEnv \<times> AssetInput \<Rightarrow> AssetActor \<Rightarrow> bool" where
  "honest sha (env, AssetCmd cmd) a \<longleftrightarrow>
    (let (reply, a') = handle_asset sha env cmd a in
     lost_by cmd reply = {} \<and> set (asset_announced cmd reply (file_map a)) \<subseteq> dom (entry_map a'))"
| "honest sha (env, AssetSweep) a \<longleftrightarrow> True"

lemma dom_asset_spec:
  "dom (asset_spec cmd reply files m) =
    (case cmd of ClearAsset i \<Rightarrow> dom m - {i} | _ \<Rightarrow> dom m \<union> set (asset_announced cmd reply files))"
  by (cases "(cmd, reply, files, m)" rule: asset_spec.cases) (auto split: option.split)

lemma clear_announces:
  assumes "asset_good sha ids a" and "db_ok env"
  shows "\<exists>evs. aa_events (handle_clear env i a) = aa_events a @ evs \<and>
    dom (asset_of (handle_clear env i a)) = fold mirror evs (dom (asset_of a))"
proof (cases "entry_map a i")
  case None
  then show ?thesis by (intro exI [of _ "[]"]) (simp add: handle_clear_def)
next
  case (Some e)
  have "evicts [i] a (evict_and_tell env i a)"
    using assms Some by (intro evicts_evict_and_tell) (auto simp: asset_good_def)
  then show ?thesis using Some
    by (intro exI [of _ "[AssetIsCleared i]"]) (auto simp: handle_clear_def evicts_def restrict_single)
qed

lemma cache_announces:
  assumes "input_ok ids x" and good: "asset_good sha ids a"
  shows "\<exists>evs. aa_events (asset_step sha x a) = aa_events a @ evs \<and>
    dom (asset_of (asset_step sha x a)) \<subseteq> fold mirror evs (dom (asset_of a)) \<and>
    (honest sha x a \<longrightarrow> dom (asset_of (asset_step sha x a)) = fold mirror evs (dom (asset_of a)))"
proof (cases "(sha, x, a)" rule: asset_step.cases)
  case (1 sha' env cmd a')
  then have db: "db_ok env" "asset_cmd_ok ids cmd" using assms(1) by auto
  let ?r = "handle_asset sha env cmd a"
  show ?thesis
  proof (cases "\<exists>i. cmd = ClearAsset i")
    case True
    then obtain i where i: "cmd = ClearAsset i" by blast
    obtain evs where "aa_events (handle_clear env i a) = aa_events a @ evs"
      "dom (asset_of (handle_clear env i a)) = fold mirror evs (dom (asset_of a))"
      using clear_announces [OF good db(1)] by blast
    then show ?thesis using 1 i by (intro exI [of _ evs]) (simp del: honest.simps)
  next
    case no_clear: False
    have inv: "asset_inv sha ids a" "within_budget a" using good by (simp_all add: asset_good_def)
    have c: "asset_inv sha ids (snd ?r)" "effect cmd (fst ?r) a (snd ?r)"
      using cmd_ok [OF inv db prod.collapse] by simp_all
    obtain gone lost where e: "lost \<subseteq> lost_by cmd (fst ?r)"
      "asset_of (snd ?r) = asset_spec cmd (fst ?r) (file_map a) (asset_of a) |` (- (set gone \<union> lost))"
      "aa_events (snd ?r) = aa_events a @ map AssetIsCleared gone @ map AssetIsReady (asset_announced cmd (fst ?r) (file_map a))"
      using c(2) by (auto simp: effect_def)
    let ?new = "set (asset_announced cmd (fst ?r) (file_map a))"
    have d: "dom (asset_of (snd ?r)) = (dom (asset_of a) \<union> ?new) - (set gone \<union> lost)"
      using no_clear by (simp add: e(2) dom_asset_spec split: AssetCommand.split) blast
    have dom: "dom (entry_map (snd ?r)) = dom (asset_of (snd ?r))" using dom_asset_of [OF c(1)] by (simp add: dom_def)
    have "dom (asset_of (snd ?r)) = (dom (asset_of a) - set gone) \<union> ?new" if "honest sha x a"
    proof -
      have "lost = {}" "?new \<subseteq> dom (asset_of (snd ?r))" using that e(1) 1 unfolding dom [symmetric] by (simp_all add: case_prod_beta)
      then show ?thesis using d by blast
    qed
    moreover have "dom (asset_of (snd ?r)) \<subseteq> (dom (asset_of a) - set gone) \<union> ?new" using d by blast
    ultimately show ?thesis using 1 e(3)
      by (intro exI [of _ "map AssetIsCleared gone @ map AssetIsReady (asset_announced cmd (fst ?r) (file_map a))"])
        (simp add: mirror_cleared mirror_ready del: honest.simps)
  qed
next
  case (2 sha' env a')
  then have db: "db_ok env" using assms(1) by simp
  obtain gone where "evicts gone a (asset_step sha (env, AssetSweep) a)" by (rule sweep_step [OF good db])
  with 2 show ?thesis
    by (intro exI [of _ "map AssetIsCleared gone"]) (auto simp: evicts_def mirror_cleared simp del: asset_step.simps)
qed

lemma asset_step_good:
  assumes "input_ok ids x" and "asset_good sha ids a" shows "asset_good sha ids (asset_step sha x a)"
  using assms asset_turn_ok [of ids "AssetTurn (fst x) (snd x)" sha a] by simp

lemma mirror_mono: "K \<subseteq> L \<Longrightarrow> mirror ev K \<subseteq> mirror ev L"
  by (cases ev) auto

interpretation asset_news: key_announcer "asset_step sha" "input_ok ids" "asset_good sha ids" "\<lambda>a. dom (asset_of a)"
    aa_events mirror "honest sha" for sha ids
proof unfold_locales
  show "asset_good sha ids (asset_step sha x s)" if "input_ok ids x" "asset_good sha ids s" for x s
    using that by (rule asset_step_good)
  show "mirror ev K \<subseteq> mirror ev L" if "K \<subseteq> L" for K L ev
    using that by (rule mirror_mono)
  show "\<exists>evs. aa_events (asset_step sha x s) = aa_events s @ evs \<and>
      dom (asset_of (asset_step sha x s)) \<subseteq> fold mirror evs (dom (asset_of s))"
    if "input_ok ids x" "asset_good sha ids s" for x s
    using cache_announces [OF that] by blast
  show "\<exists>evs. aa_events (asset_step sha x s) = aa_events s @ evs \<and>
      dom (asset_of (asset_step sha x s)) = fold mirror evs (dom (asset_of s))"
    if "input_ok ids x" "asset_good sha ids s" "honest sha x s" for x s
    using cache_announces [OF that(1,2)] that(3) by blast
qed

fun all_honest :: "(bytes \<Rightarrow> bytes) \<Rightarrow> (AssetEnv \<times> AssetInput) list \<Rightarrow> AssetActor \<Rightarrow> bool" where
  "all_honest sha [] a \<longleftrightarrow> True"
| "all_honest sha (x # xs) a \<longleftrightarrow> honest sha x a \<and> all_honest sha xs (asset_step sha x a)"

lemma all_honest_exact: "all_honest sha xs a = asset_news.all_exact sha xs a"
  by (induction xs arbitrary: a) simp_all

section \<open>What the player knows\<close>

fun heard_event :: "PlayerInput \<Rightarrow> AssetCacheEvent list" where
  "heard_event (AssetReady i) = [AssetIsReady i]"
| "heard_event (AssetCleared i) = [AssetIsCleared i]"
| "heard_event _ = []"

definition heard :: "player_event list \<Rightarrow> AssetCacheEvent list" where
  "heard turns = concat (map (\<lambda>(env, results, i). heard_event i) turns)"

abbreviation known :: "PlayerState \<Rightarrow> bytes set" where "known s \<equiv> set (pl_present_ids s)"

lemma known_apply_merged [simp]: "pl_present_ids (apply_merged env m p t s) = pl_present_ids s"
  by (rule staged_eqD(14)) simp

lemma known_note_ownership [simp]: "pl_present_ids (snd (note_ownership env s)) = pl_present_ids s"
  by (simp add: note_ownership_def Let_def)

lemma known_apply_iap2 [simp]: "pl_present_ids (apply_iap2 env edge s) = pl_present_ids s"
  by (simp add: apply_iap2_def Let_def)

lemma known_advance [simp]: "pl_present_ids (try_optimistic_advance env s) = pl_present_ids s"
  by (simp add: try_optimistic_advance_def Let_def split: option.split)

lemma known_stage [simp]:
  "pl_present_ids (stage_media now media s) = pl_present_ids s" "pl_present_ids (stage_playback now play s) = pl_present_ids s"
  "pl_present_ids (stage_companion_snapshot now addr snap s) = pl_present_ids s"
  by (simp_all add: stage_media_def stage_playback_def stage_companion_snapshot_def Let_def)

lemma known_apply_command [simp]: "pl_present_ids (apply_command env cmd s) = pl_present_ids s"
  by (cases cmd)
    (simp_all add: apply_now_playing_def apply_artwork_id_def apply_companion_queue_def apply_companion_snapshot_def
      apply_staged_def set_transport_intent_def set_seek_intent_def reset_companion_def note_authority_changed_def
      note_library_changed_def Let_def case_prod_beta split: option.split)

lemma known_finish_turn [simp]: "pl_present_ids (pac_state (finish_turn env results kind force a)) = pl_present_ids (pac_state a)"
  by (simp add: finish_turn_def reconcile_head_pin_def Let_def note_rolled_off_def split: option.split)

lemma finish_turn_listens [simp]: "pac_asset_events (finish_turn env results kind force a) = pac_asset_events a"
  by (simp add: finish_turn_def reconcile_head_pin_def Let_def)

lemma known_player_turn:
  assumes "pac_asset_events a" and "i \<noteq> AssetClosed"
  shows "known (pac_state (player_turn env results i a)) = fold mirror (heard_event i) (known (pac_state a))"
    "pac_asset_events (player_turn env results i a)"
  using assms by (cases i; auto simp: Let_def take_position_resync_def note_asset_ready_def note_asset_cleared_def)+

lemma known_player_run:
  "pac_asset_events a \<Longrightarrow> list_all (\<lambda>(env, results, i). i \<noteq> AssetClosed) turns \<Longrightarrow>
    known (pac_state (player_run turns a)) = fold mirror (heard turns) (known (pac_state a))"
  by (induction turns arbitrary: a) (auto simp: heard_def known_player_turn)

text \<open>The artwork that is pinned is known.\<close>

lemma pinned_is_known:
  assumes "list_all (\<lambda>(env, results, i). i \<noteq> AssetClosed) turns"
    and "pins (pac_out a) = set_option (pac_pinned_head a)" "pac_asset_events a"
    and "\<And>i. pac_pinned_head a = Some i \<Longrightarrow> i \<in> known (pac_state a)"
    and "pac_pinned_head (player_run turns a) = Some i"
  shows "i \<in> known (pac_state (player_run turns a))"
  using assms
proof (induction turns arbitrary: a)
  case (Cons t turns)
  obtain env results x where t: "t = (env, results, x)" by (cases t)
  have x: "x \<noteq> AssetClosed" using Cons.prems(1) by (simp add: t)
  have "j \<in> known (pac_state (player_turn env results x a))" if "pac_pinned_head (player_turn env results x a) = Some j" for j
    using that x Cons.prems(2,3)
    by (cases x) (auto simp: Let_def take_position_resync_def pins_finish_turn option_filter_def is_present_def
        split: option.splits if_splits)
  then show ?case
    using Cons.IH [of "player_turn env results x a"] Cons.prems pins_player_turn [OF Cons.prems(2)] known_player_turn(2) [OF Cons.prems(3) x]
    by (auto simp: t)
qed simp

section \<open>Together\<close>

text \<open>C11. In a life of the cache that starts empty and is not restarted, while the database works, a player that has
  heard every event of the cache knows of every asset that is there. As long as no insertion has failed and none
  was announced that had been evicted at once, it knows of no other, and the artwork it keeps pinned is one that
  the cache can give out. What a restart restores is not announced (\<open>restored_unannounced\<close>), so the player does
  not know of it.\<close>

theorem player_knows_assets:
  assumes "inj_on sha ids" and "list_all (\<lambda>(_, c). fits c) files" and "list_all (input_ok ids) inputs"
    and "a = asset_run sha inputs (AssetActor_new files [])"
    and "list_all (\<lambda>(env, results, i). i \<noteq> AssetClosed) turns" and "heard turns = aa_events a"
    and "p = player_run turns PlayerActor_new"
  shows "(fst (handle_asset sha env (ContainsAsset i) a) = Answered True \<longrightarrow> is_present i (pac_state p)) \<and>
    (all_honest sha inputs (AssetActor_new files []) \<longrightarrow>
      (is_present i (pac_state p) \<longleftrightarrow> fst (handle_asset sha env (ContainsAsset i) a) = Answered True) \<and>
      (pac_pinned_head p = Some i \<longrightarrow> fst (handle_asset sha env (ContainsAsset i) a) = Answered True))"
proof -
  let ?new = "AssetActor_new files []"
  have good: "asset_good sha ids ?new" by (rule asset_good_new [OF assms(1,2)])
  have "asset_good sha ids a" unfolding assms(4) asset_run_def by (rule asset_news.run_keeps [OF assms(3) good])
  then have dom: "dom (entry_map a) = dom (asset_of a)" using dom_asset_of [of sha ids a] by (simp add: asset_good_def dom_def)
  have empty: "dom (asset_of ?new) = {}" "aa_events ?new = []" by (simp_all add: asset_of_def AssetActor_new_def dom_def)
  have known: "known (pac_state p) = fold mirror (aa_events a) {}"
    unfolding assms(7) assms(6) [symmetric]
    by (subst known_player_run [OF _ assms(5)]) (simp_all add: PlayerActor_new_def PlayerState_new_def)
  have "dom (asset_of a) \<subseteq> known (pac_state p)"
    using asset_news.followed [OF assms(3) good] unfolding known empty assms(4) asset_run_def by auto
  moreover have "dom (asset_of a) = known (pac_state p)" if "all_honest sha inputs ?new"
    using asset_news.followed_exactly [OF assms(3) good that [unfolded all_honest_exact]]
    unfolding known empty assms(4) asset_run_def by auto
  moreover have "i \<in> known (pac_state p)" if "pac_pinned_head p = Some i"
    using pinned_is_known [OF assms(5), of PlayerActor_new i] that by (simp add: assms(7) PlayerActor_new_def pins_def)
  ultimately show ?thesis by (auto simp: is_present_def dom [symmetric])
qed


definition demo_news :: "(AssetEnv \<times> AssetInput) list" where
  "demo_news = [(demo_asset_env, AssetCmd (InsertAsset [2] [9] None MEM_LRU))]"

lemma demo_news_run:
  "aa_events (asset_run (\<lambda>b. b) demo_news (AssetActor_new [] [])) = [AssetIsReady [2]]"
  "entry_map (asset_run (\<lambda>b. b) demo_news (AssetActor_new [] [])) [2] \<noteq> None"
  by (simp_all add: demo_news_def asset_run_def handle_insert_def evict_entry_def AssetActor_new_def MEM_LRU_def
      enter_memory_def next_lru_seq_def Let_def put_entry_def new_entry_def sat_add_def USIZE_MAX_def tell_def
      MEMORY_BUDGET_BYTES_def evict_until_under_memory_budget.simps)

theorem player_knows_assets_witness:
  "is_present [2] (pac_state (player_run [(Player_Clients.demo_env 0, [], AssetReady [2])] PlayerActor_new))"
proof -
  have ok: "list_all (input_ok UNIV) demo_news" by (simp add: demo_news_def demo_turns_ok(5) fits_def)
  have heard: "heard [(Player_Clients.demo_env 0, [], AssetReady [2])] =
      aa_events (asset_run (\<lambda>b. b) demo_news (AssetActor_new [] []))" by (simp add: heard_def demo_news_run)
  show ?thesis
    using player_knows_assets [OF demo_turns_ok(3,4) ok refl _ heard refl, of demo_asset_env "[2]"] demo_news_run(2) by simp
qed

section \<open>The pin of the player\<close>

text \<open>What \<open>reconcile_head_pin\<close> asks of the cache.\<close>

fun pin_commands :: "PlayerOut \<Rightarrow> AssetCommand list" where
  "pin_commands (Player_Actor.Pinned i) = [SetRetention i DISK_PINNED]"
| "pin_commands (Unpinned i) = [SetRetention i DISK_LRU]"
| "pin_commands _ = []"

text \<open>An asset that was stored as persistent is pinned while it is the artwork of the track that is shown, and is only
  one of those that may be evicted when it no longer is.\<close>

lemma shown_asset_loses_pin:
  assumes "entry_map a i = Some e" and "ent_retention e = DISK_PINNED" and "entry_tier e = DiskTier" and "db_ok env"
    and "inputs = map (\<lambda>cmd. (env, AssetCmd cmd)) (concat (map pin_commands [Player_Actor.Pinned i, Unpinned i]))"
  shows "\<exists>e'. entry_map (asset_run sha inputs a) i = Some e' \<and> ent_retention e' = DISK_LRU"
  using assms(1-4)
  by (auto simp: assms(5) asset_run_def handle_set_retention_def DISK_PINNED_def DISK_LRU_def Let_def persist_write_def
      db_ok_def put_entry_def update_conv' entry_tier_def is_disk_persisted_def split: EntryStorage.splits)

end
