(* ===== verification/Ancs_Notifications.thy ===== *)
theory Ancs_Notifications
  imports Player_Text
begin

text \<open>The phone's notifications over bluetooth low energy (\<open>crates/core/src/bluetooth/le/ancs.rs\<close>, and the turns of the
  session that drives it, \<open>mod.rs\<close>): the notification source announces them, their attributes are fetched one at a
  time over the control point and come back in pieces on the data source. The characteristics and the bus are
  what a turn is given and what it puts out. A panic of the code is a value.\<close>

section \<open>Constants\<close>

definition COMMAND_GET_NOTIFICATION_ATTRIBUTES :: u8 where "COMMAND_GET_NOTIFICATION_ATTRIBUTES = 0x00"
definition COMMAND_PERFORM_NOTIFICATION_ACTION :: u8 where "COMMAND_PERFORM_NOTIFICATION_ACTION = 0x02"

definition ATTR_APP_IDENTIFIER :: u8 where "ATTR_APP_IDENTIFIER = 0x00"
definition ATTR_TITLE :: u8 where "ATTR_TITLE = 0x01"
definition ATTR_SUBTITLE :: u8 where "ATTR_SUBTITLE = 0x02"
definition ATTR_MESSAGE :: u8 where "ATTR_MESSAGE = 0x03"
definition ATTR_DATE :: u8 where "ATTR_DATE = 0x05"
definition ATTR_POSITIVE_ACTION_LABEL :: u8 where "ATTR_POSITIVE_ACTION_LABEL = 0x06"
definition ATTR_NEGATIVE_ACTION_LABEL :: u8 where "ATTR_NEGATIVE_ACTION_LABEL = 0x07"

definition FLAG_SILENT :: u8 where "FLAG_SILENT = 0x01"
definition FLAG_IMPORTANT :: u8 where "FLAG_IMPORTANT = 0x02"
definition FLAG_PRE_EXISTING :: u8 where "FLAG_PRE_EXISTING = 0x04"
definition FLAG_POSITIVE_ACTION :: u8 where "FLAG_POSITIVE_ACTION = 0x08"
definition FLAG_NEGATIVE_ACTION :: u8 where "FLAG_NEGATIVE_ACTION = 0x10"

definition EVENT_ADDED :: u8 where "EVENT_ADDED = 0x00"
definition EVENT_MODIFIED :: u8 where "EVENT_MODIFIED = 0x01"
definition EVENT_REMOVED :: u8 where "EVENT_REMOVED = 0x02"

definition TITLE_MAX :: u16 where "TITLE_MAX = 256"
definition SUBTITLE_MAX :: u16 where "SUBTITLE_MAX = 256"
definition MESSAGE_MAX :: u16 where "MESSAGE_MAX = 1024"

definition PENDING_QUEUE_CAP :: nat where "PENDING_QUEUE_CAP = 64"
definition ATTRIBUTE_FETCH_ATTEMPTS :: nat where "ATTRIBUTE_FETCH_ATTEMPTS = 3"
definition ATTRIBUTE_AUTH_PROBE_INTERVAL :: nat where "ATTRIBUTE_AUTH_PROBE_INTERVAL = 60 * 1000000000"
definition ATTRIBUTE_AUTH_GUIDANCE_THRESHOLD :: nat where "ATTRIBUTE_AUTH_GUIDANCE_THRESHOLD = 3"

definition ANCS_ID_PREFIX :: bytes where "ANCS_ID_PREFIX = lit ''ancs:''"

section \<open>Text\<close>

text \<open>\<open>String::from_utf8_lossy\<close>: a byte string is cut into characters and the longest pieces that can no longer become
  one; each of those becomes U+FFFD. The length of such a piece, at a place where no character starts:\<close>

definition utf8_broken_len :: "bytes \<Rightarrow> nat" where
  "utf8_broken_len bs =
    (let a = bs ! 0; at = (\<lambda>i. if i < length bs then bs ! i else 0) in
     if 0xE0 \<le> a \<and> a \<le> 0xEF then
       (if (if a = 0xE0 then 0xA0 \<le> at 1 \<and> at 1 \<le> 0xBF
            else if a = 0xED then 0x80 \<le> at 1 \<and> at 1 \<le> 0x9F
            else utf8_cont (at 1)) then 2 else 1)
     else if 0xF0 \<le> a \<and> a \<le> 0xF4 then
       (if (if a = 0xF0 then 0x90 \<le> at 1 \<and> at 1 \<le> 0xBF
            else if a = 0xF4 then 0x80 \<le> at 1 \<and> at 1 \<le> 0x8F
            else utf8_cont (at 1)) then (if utf8_cont (at 2) then 3 else 2) else 1)
     else 1)"

definition REPLACEMENT :: bytes where "REPLACEMENT = [0xEF, 0xBF, 0xBD]"

lemma utf8_broken_len_pos: "0 < utf8_broken_len bs"
  by (simp add: utf8_broken_len_def Let_def)

function from_utf8_lossy :: "bytes \<Rightarrow> bytes" where
  "from_utf8_lossy bs =
    (if bs = [] then []
     else if utf8_char_len bs = 0 then REPLACEMENT @ from_utf8_lossy (drop (utf8_broken_len bs) bs)
     else take (utf8_char_len bs) bs @ from_utf8_lossy (drop (utf8_char_len bs) bs))"
  by pat_completeness auto
termination by (relation "measure length") (auto simp: utf8_broken_len_pos)

declare from_utf8_lossy.simps [simp del]

text \<open>\<open>s.get(a..b)\<close>, and \<open>parse\<close> for a signed and an unsigned number. The years parsed are too short to
  overflow.\<close>

definition is_char_boundary :: "bytes \<Rightarrow> nat \<Rightarrow> bool" where
  "is_char_boundary s i \<longleftrightarrow> i = 0 \<or> i = length s \<or> i < length s \<and> \<not> utf8_cont (s ! i)"

definition str_get :: "nat \<Rightarrow> nat \<Rightarrow> bytes \<Rightarrow> bytes option" where
  "str_get a b s =
    (if a \<le> b \<and> b \<le> length s \<and> is_char_boundary s a \<and> is_char_boundary s b then Some (take (b - a) (drop a s)) else None)"

definition is_digit :: "u8 \<Rightarrow> bool" where "is_digit b \<longleftrightarrow> 0x30 \<le> b \<and> b \<le> 0x39"

definition digits_value :: "bytes \<Rightarrow> nat option" where
  "digits_value s =
    (if s \<noteq> [] \<and> list_all is_digit s then Some (foldl (\<lambda>n b. 10 * n + unat (b - 0x30)) 0 s) else None)"

definition parse_u32 :: "bytes \<Rightarrow> nat option" where
  "parse_u32 s =
    Option.bind (case s of b # r \<Rightarrow> if b = 0x2B then digits_value r else digits_value s | [] \<Rightarrow> None)
      (\<lambda>n. if n < 2 ^ 32 then Some n else None)"

definition parse_i32 :: "bytes \<Rightarrow> int option" where
  "parse_i32 s =
    (case s of
       [] \<Rightarrow> None
     | b # r \<Rightarrow>
         if b = 0x2B then map_option int (digits_value r)
         else if b = 0x2D then map_option (\<lambda>n. - int n) (digits_value r)
         else map_option int (digits_value s))"

text \<open>A number in decimal, as \<open>format!\<close> writes it.\<close>

fun decimal :: "nat \<Rightarrow> bytes" where
  "decimal n = (if n < 10 then [of_nat (48 + n)] else decimal (n div 10) @ [of_nat (48 + n mod 10)])"

declare decimal.simps [simp del]

section \<open>Dates\<close>

definition days_from_civil :: "int \<Rightarrow> nat \<Rightarrow> nat \<Rightarrow> int option" where
  "days_from_civil y0 m d =
    (if \<not> (1 \<le> m \<and> m \<le> 12) \<or> d = 0 \<or> d > 31 then None
     else
       let y = (if m \<le> 2 then y0 - 1 else y0);
           era = y div 400;
           yoe = y - era * 400;
           doy = (153 * int (if m > 2 then m - 3 else m + 9) + 2) div 5 + int d - 1;
           doe = yoe * 365 + yoe div 4 - yoe div 100 + doy
       in Some (era * 146097 + doe - 719468))"

datatype 'a panicking = Panic | Fine 'a

definition parse_date_fields :: "bytes \<Rightarrow> nat option" where
  "parse_date_fields s =
    (case (Option.bind (str_get 0 4 s) parse_i32, Option.bind (str_get 4 6 s) parse_u32, Option.bind (str_get 6 8 s) parse_u32,
           Option.bind (str_get 9 11 s) parse_u32, Option.bind (str_get 11 13 s) parse_u32, Option.bind (str_get 13 15 s) parse_u32) of
       (Some year, Some month, Some day, Some hour, Some minute, Some second) \<Rightarrow>
         (case days_from_civil year month day of
            None \<Rightarrow> None
          | Some days \<Rightarrow>
              let secs = days * 86400 + int hour * 3600 + int minute * 60 + int second in
              if 0 \<le> secs \<and> secs < 2 ^ 32 then Some (nat secs) else None)
     | _ \<Rightarrow> None)"

text \<open>The slice \<open>s[8..9]\<close> panics where no character starts.\<close>

definition parse_ancs_date :: "bytes \<Rightarrow> nat option panicking" where
  "parse_ancs_date s =
    (if length s \<noteq> 15 then Fine None
     else
       (case str_get 8 9 s of
          None \<Rightarrow> Panic
        | Some c \<Rightarrow> if c \<noteq> lit ''T'' then Fine None else Fine (parse_date_fields s)))"

section \<open>Frames\<close>

record PendingNotification =
  pn_uid :: u32
  pn_event_id :: u8
  pn_flags :: u8
  pn_category :: u8
  pn_attempts :: nat

datatype NsAction = NsRemoved u32 | NsFetch PendingNotification | NsIgnore

definition le16 :: "u16 \<Rightarrow> bytes" where "le16 x = rev (be16 x)"
definition le32 :: "u32 \<Rightarrow> bytes" where "le32 x = rev (be32 x)"
definition get_le16 :: "bytes \<Rightarrow> u16" where "get_le16 bs = get16 (rev bs)"
definition get_le32 :: "bytes \<Rightarrow> u32" where "get_le32 bs = get32 (rev bs)"

definition classify_ns_frame :: "bytes \<Rightarrow> NsAction" where
  "classify_ns_frame frame =
    (if length frame < 8 then NsIgnore
     else
       let event_id = frame ! 0; flags = frame ! 1; category = frame ! 2;
           uid = get_le32 (take 4 (drop 4 frame)) in
       if event_id = EVENT_REMOVED then NsRemoved uid
       else if event_id \<noteq> EVENT_ADDED \<and> event_id \<noteq> EVENT_MODIFIED then NsIgnore
       else if flags AND FLAG_PRE_EXISTING \<noteq> 0 then NsIgnore
       else NsFetch \<lparr>pn_uid = uid, pn_event_id = event_id, pn_flags = flags, pn_category = category, pn_attempts = 0\<rparr>)"

definition build_get_attributes :: "u32 \<Rightarrow> bytes" where
  "build_get_attributes uid =
    [COMMAND_GET_NOTIFICATION_ATTRIBUTES] @ le32 uid @ [ATTR_APP_IDENTIFIER] @ [ATTR_TITLE] @ le16 TITLE_MAX @
    [ATTR_SUBTITLE] @ le16 SUBTITLE_MAX @ [ATTR_MESSAGE] @ le16 MESSAGE_MAX @
    [ATTR_POSITIVE_ACTION_LABEL, ATTR_NEGATIVE_ACTION_LABEL, ATTR_DATE]"

definition build_perform_action :: "u32 \<Rightarrow> u8 \<Rightarrow> bytes" where
  "build_perform_action uid action = [COMMAND_PERFORM_NOTIFICATION_ACTION] @ le32 uid @ [action]"

record NotificationFields =
  nf_app_id :: "bytes option"
  nf_title :: "bytes option"
  nf_subtitle :: "bytes option"
  nf_message :: "bytes option"
  nf_date_unix_s :: "nat option"
  nf_positive_label :: "bytes option"
  nf_negative_label :: "bytes option"

definition NotificationFields_default :: NotificationFields where
  "NotificationFields_default = \<lparr>nf_app_id = None, nf_title = None, nf_subtitle = None, nf_message = None,
     nf_date_unix_s = None, nf_positive_label = None, nf_negative_label = None\<rparr>"

definition set_field :: "u8 \<Rightarrow> bytes \<Rightarrow> NotificationFields \<Rightarrow> NotificationFields panicking" where
  "set_field attr_id text flds =
    (if attr_id = ATTR_APP_IDENTIFIER then Fine (flds\<lparr>nf_app_id := Some text\<rparr>)
     else if attr_id = ATTR_TITLE then Fine (flds\<lparr>nf_title := Some text\<rparr>)
     else if attr_id = ATTR_SUBTITLE then Fine (flds\<lparr>nf_subtitle := Some text\<rparr>)
     else if attr_id = ATTR_MESSAGE then Fine (flds\<lparr>nf_message := Some text\<rparr>)
     else if attr_id = ATTR_DATE then
       (case parse_ancs_date text of Panic \<Rightarrow> Panic | Fine date \<Rightarrow> Fine (flds\<lparr>nf_date_unix_s := date\<rparr>))
     else if attr_id = ATTR_POSITIVE_ACTION_LABEL then Fine (flds\<lparr>nf_positive_label := Some text\<rparr>)
     else if attr_id = ATTR_NEGATIVE_ACTION_LABEL then Fine (flds\<lparr>nf_negative_label := Some text\<rparr>)
     else Fine flds)"

text \<open>The loop over the attributes: the date is the last one that was asked for and ends the response.\<close>

function gna_attributes :: "bytes \<Rightarrow> nat \<Rightarrow> NotificationFields \<Rightarrow> (NotificationFields \<times> nat) option panicking" where
  "gna_attributes buf idx flds =
    (if idx < length buf then
       if idx + 3 > length buf then Fine None
       else
         let attr_id = buf ! idx; len = unat (get_le16 (take 2 (drop (idx + 1) buf))); start = idx + 3 in
         if start + len > length buf then Fine None
         else
           (case set_field attr_id (from_utf8_lossy (take len (drop start buf))) flds of
              Panic \<Rightarrow> Panic
            | Fine flds' \<Rightarrow>
                if attr_id = ATTR_DATE then Fine (Some (flds', start + len))
                else gna_attributes buf (start + len) flds')
     else Fine None)"
  by pat_completeness auto
termination by (relation "measure (\<lambda>(buf, idx, flds). length buf - idx)") auto

declare gna_attributes.simps [simp del]

definition parse_gna_response :: "bytes \<Rightarrow> (NotificationFields \<times> nat) option panicking" where
  "parse_gna_response buf =
    (if length buf < 5 then Fine None
     else if buf ! 0 \<noteq> COMMAND_GET_NOTIFICATION_ATTRIBUTES then Fine None
     else gna_attributes buf 5 NotificationFields_default)"

section \<open>Notifications\<close>

datatype NotificationCategory =
    OtherCategory | IncomingCall | MissedCall | Voicemail | Social | Schedule | Email | News
  | HealthAndFitness | BusinessAndFinance | Location | Entertainment

definition decode_category :: "u8 \<Rightarrow> NotificationCategory" where
  "decode_category b =
    (if b = 1 then IncomingCall else if b = 2 then MissedCall else if b = 3 then Voicemail else if b = 4 then Social
     else if b = 5 then Schedule else if b = 6 then Email else if b = 7 then News else if b = 8 then HealthAndFitness
     else if b = 9 then BusinessAndFinance else if b = 10 then Location else if b = 11 then Entertainment
     else OtherCategory)"

record NotificationApp =
  nap_bundle_id :: bytes
  nap_display_name :: "bytes option"
  nap_icon_asset_id :: "bytes option"

record NotificationFlags =
  nfl_silent :: bool
  nfl_important :: bool

record NotificationAction =
  nac_label :: bytes

record Notification =
  ntf_id :: bytes
  ntf_app :: NotificationApp
  ntf_category :: NotificationCategory
  ntf_title :: "bytes option"
  ntf_subtitle :: "bytes option"
  ntf_message :: "bytes option"
  ntf_timestamp_unix_s :: "nat option"
  ntf_flags :: NotificationFlags
  ntf_positive_action :: "NotificationAction option"
  ntf_negative_action :: "NotificationAction option"

datatype DismissReason = UserDismissed | Acted | RemoteDismissed

datatype NotificationsEvent =
    NotificationPosted Notification
  | NotificationUpdated Notification
  | NotificationRemoved bytes DismissReason

definition notification_id :: "u32 \<Rightarrow> bytes" where "notification_id uid = ANCS_ID_PREFIX @ decimal (unat uid)"

definition or_else :: "bytes option \<Rightarrow> bytes \<Rightarrow> bytes" where
  "or_else x d = (case x of Some t \<Rightarrow> t | None \<Rightarrow> d)"

definition notification_of :: "PendingNotification \<Rightarrow> NotificationFields \<Rightarrow> Notification" where
  "notification_of meta flds =
    \<lparr>ntf_id = notification_id (pn_uid meta),
     ntf_app = \<lparr>nap_bundle_id = or_else (nf_app_id flds) (lit ''unknown''), nap_display_name = None, nap_icon_asset_id = None\<rparr>,
     ntf_category = decode_category (pn_category meta), ntf_title = nf_title flds, ntf_subtitle = nf_subtitle flds,
     ntf_message = nf_message flds, ntf_timestamp_unix_s = nf_date_unix_s flds,
     ntf_flags = \<lparr>nfl_silent = (pn_flags meta AND FLAG_SILENT \<noteq> 0), nfl_important = (pn_flags meta AND FLAG_IMPORTANT \<noteq> 0)\<rparr>,
     ntf_positive_action = (if pn_flags meta AND FLAG_POSITIVE_ACTION \<noteq> 0
       then Some \<lparr>nac_label = or_else (nf_positive_label flds) (lit ''OK'')\<rparr> else None),
     ntf_negative_action = (if pn_flags meta AND FLAG_NEGATIVE_ACTION \<noteq> 0
       then Some \<lparr>nac_label = or_else (nf_negative_label flds) (lit ''Dismiss'')\<rparr> else None)\<rparr>"

definition emit_notification :: "PendingNotification \<Rightarrow> NotificationFields \<Rightarrow> NotificationsEvent" where
  "emit_notification meta flds =
    (if pn_event_id meta = EVENT_MODIFIED then NotificationUpdated (notification_of meta flds)
     else NotificationPosted (notification_of meta flds))"

section \<open>The client of the service\<close>

record Ancs =
  an_pending :: "PendingNotification list"
  an_in_flight :: "PendingNotification option"
  an_ds_buffer :: bytes
  an_consecutive_timeouts :: nat
  an_last_auth_probe :: nat

definition Ancs_new :: "nat \<Rightarrow> Ancs" where
  "Ancs_new now = \<lparr>an_pending = [], an_in_flight = None, an_ds_buffer = [], an_consecutive_timeouts = 0,
     an_last_auth_probe = now\<rparr>"

definition has_in_flight :: "Ancs \<Rightarrow> bool" where "has_in_flight a \<longleftrightarrow> an_in_flight a \<noteq> None"

definition pump_allowed :: "nat \<Rightarrow> Ancs \<Rightarrow> bool" where
  "pump_allowed now a \<longleftrightarrow> an_in_flight a = None \<and>
    (an_consecutive_timeouts a < ATTRIBUTE_AUTH_GUIDANCE_THRESHOLD \<or>
     now - an_last_auth_probe a \<ge> ATTRIBUTE_AUTH_PROBE_INTERVAL)"

datatype AncsAuthState = AuthUnknown | Probing | Authorized | Unauthorized

datatype AncsOut = ControlWrite bytes | AncsEvent NotificationsEvent | AuthState AncsAuthState

text \<open>A retry after a failed write goes to the front again; the write may fail.\<close>

definition retry_or_drop :: "PendingNotification \<Rightarrow> PendingNotification list \<Rightarrow> PendingNotification list" where
  "retry_or_drop item pending =
    (let tried = item\<lparr>pn_attempts := pn_attempts item + 1\<rparr> in
     if pn_attempts tried < ATTRIBUTE_FETCH_ATTEMPTS then tried # pending else pending)"

definition pump :: "nat \<Rightarrow> bool \<Rightarrow> Ancs \<Rightarrow> bool \<times> Ancs \<times> AncsOut list" where
  "pump now write_ok a =
    (case an_pending a of
       [] \<Rightarrow> (True, a, [])
     | item # rest \<Rightarrow>
         let out = [ControlWrite (build_get_attributes (pn_uid item))] in
         if \<not> write_ok then (False, a\<lparr>an_pending := retry_or_drop item rest\<rparr>, out)
         else
           (True,
            a\<lparr>an_pending := rest,
              an_last_auth_probe := (if an_consecutive_timeouts a \<ge> ATTRIBUTE_AUTH_GUIDANCE_THRESHOLD then now
                                     else an_last_auth_probe a),
              an_in_flight := Some item\<rparr>, out))"

definition on_notification_source :: "bytes \<Rightarrow> Ancs \<Rightarrow> Ancs \<times> AncsOut list" where
  "on_notification_source frame a =
    (case classify_ns_frame frame of
       NsRemoved uid \<Rightarrow> (a, [AncsEvent (NotificationRemoved (notification_id uid) RemoteDismissed)])
     | NsFetch pending \<Rightarrow>
         (a\<lparr>an_pending := (if length (an_pending a) \<ge> PENDING_QUEUE_CAP then tl (an_pending a) else an_pending a) @ [pending]\<rparr>, [])
     | NsIgnore \<Rightarrow> (a, []))"

text \<open>The loop runs at most once: what it has drained is no longer in flight.\<close>

definition on_data_source :: "bytes \<Rightarrow> Ancs \<Rightarrow> (bool \<times> Ancs \<times> AncsOut list) panicking" where
  "on_data_source value a =
    (let a1 = a\<lparr>an_ds_buffer := an_ds_buffer a @ value\<rparr> in
     case an_in_flight a1 of
       None \<Rightarrow> Fine (False, a1, [])
     | Some meta \<Rightarrow>
         (case parse_gna_response (an_ds_buffer a1) of
            Panic \<Rightarrow> Panic
          | Fine None \<Rightarrow> Fine (False, a1, [])
          | Fine (Some (flds, consumed)) \<Rightarrow>
              Fine (True,
                a1\<lparr>an_ds_buffer := drop consumed (an_ds_buffer a1), an_in_flight := None, an_consecutive_timeouts := 0\<rparr>,
                [AncsEvent (emit_notification meta flds)])))"

definition on_invoke :: "u32 \<Rightarrow> u8 \<Rightarrow> AncsOut list" where
  "on_invoke uid action = [ControlWrite (build_perform_action uid action)]"

definition on_fetch_timeout :: "Ancs \<Rightarrow> bool \<times> Ancs" where
  "on_fetch_timeout a =
    (case an_in_flight a of
       None \<Rightarrow> (False, a)
     | Some p \<Rightarrow>
         let timeouts = min (an_consecutive_timeouts a + 1) (2 ^ 32 - 1) in
         (timeouts = ATTRIBUTE_AUTH_GUIDANCE_THRESHOLD,
          a\<lparr>an_in_flight := None, an_consecutive_timeouts := timeouts, an_ds_buffer := [],
            an_pending := retry_or_drop p (an_pending a)\<rparr>))"

section \<open>The turns of the session\<close>

text \<open>One turn of the select loop: the pump, then what arrives. A failed write over a link that is gone, and the end of a
  stream, end the session; a run is what happens before. The timeout of a fetch is a turn in which nothing else arrives.\<close>

datatype LeInput =
    NotificationSource bytes
  | DataSource bytes
  | Invoke u32 u8
  | FetchTimeout
  | OtherWakeup

definition le_pump :: "nat \<Rightarrow> bool \<Rightarrow> Ancs \<Rightarrow> Ancs \<times> AncsOut list" where
  "le_pump now write_ok a = (if pump_allowed now a then snd (pump now write_ok a) else (a, []))"

fun le_input :: "LeInput \<Rightarrow> Ancs \<Rightarrow> (Ancs \<times> AncsOut list) panicking" where
  "le_input (NotificationSource frame) a = Fine (on_notification_source frame a)"
| "le_input (DataSource value) a =
    (case on_data_source value a of
       Panic \<Rightarrow> Panic
     | Fine (drained, a1, out) \<Rightarrow> Fine (a1, out @ (if drained then [AuthState Authorized] else [])))"
| "le_input (Invoke uid action) a = Fine (a, on_invoke uid action)"
| "le_input FetchTimeout a =
    (if has_in_flight a
     then let (unauthorized, a1) = on_fetch_timeout a in Fine (a1, if unauthorized then [AuthState Unauthorized] else [])
     else Fine (a, []))"
| "le_input OtherWakeup a = Fine (a, [])"

definition le_turn :: "nat \<times> bool \<times> LeInput \<Rightarrow> Ancs \<Rightarrow> (Ancs \<times> AncsOut list) panicking" where
  "le_turn t a =
    (let (now, write_ok, input) = t; (a1, out1) = le_pump now write_ok a in
     case le_input input a1 of Panic \<Rightarrow> Panic | Fine (a2, out2) \<Rightarrow> Fine (a2, out1 @ out2))"

fun le_run :: "(nat \<times> bool \<times> LeInput) list \<Rightarrow> Ancs \<Rightarrow> (Ancs \<times> AncsOut list) panicking" where
  "le_run [] a = Fine (a, [])"
| "le_run (t # turns) a =
    (case le_turn t a of
       Panic \<Rightarrow> Panic
     | Fine (a1, out1) \<Rightarrow> (case le_run turns a1 of Panic \<Rightarrow> Panic | Fine (a2, out2) \<Rightarrow> Fine (a2, out1 @ out2)))"

text \<open>The identifiers of notifications that a client may act on, and what is sent for one: \<open>None\<close> when it is malformed.
  Identifiers of another origin are left to others.\<close>

definition ACTION_POSITIVE :: u8 where "ACTION_POSITIVE = 0x00"
definition ACTION_NEGATIVE :: u8 where "ACTION_NEGATIVE = 0x01"

definition try_invoke :: "bytes \<Rightarrow> u8 \<Rightarrow> bool \<times> LeInput option" where
  "try_invoke i action =
    (if take (length ANCS_ID_PREFIX) i \<noteq> ANCS_ID_PREFIX then (False, None)
     else
       (case parse_u32 (drop (length ANCS_ID_PREFIX) i) of
          None \<Rightarrow> (True, None)
        | Some uid \<Rightarrow> (True, Some (Invoke (of_nat uid) action))))"

text \<open>What the reporter makes of the states it is told: only a change is broadcast to the gateways.\<close>

definition auth_report :: "AncsAuthState \<Rightarrow> AncsAuthState \<Rightarrow> AncsAuthState \<times> AncsAuthState list" where
  "auth_report nxt known = (if known = nxt then (known, []) else (nxt, [nxt]))"

fun auth_reports :: "AncsOut list \<Rightarrow> AncsAuthState \<Rightarrow> AncsAuthState \<times> AncsAuthState list" where
  "auth_reports [] known = (known, [])"
| "auth_reports (AuthState nxt # out) known =
    (let (known1, told1) = auth_report nxt known; (known2, told2) = auth_reports out known1 in (known2, told1 @ told2))"
| "auth_reports (_ # out) known = auth_reports out known"

end
