(* ===== verification/Ancs_Facts.thy ===== *)
theory Ancs_Facts
  imports Ancs_Notifications
begin

text \<open>The responses of the phone and how the data source puts them together: what a conforming response is, that a
  prefix of one yields nothing, and that a whole one yields the fields it was made of.\<close>

section \<open>Bytes and text\<close>

lemma length_le [simp]: "length (le16 x) = 2" "length (le32 y) = 4"
  by (simp_all add: le16_def le32_def)

lemma get_le16_le16 [simp]: "get_le16 (le16 x) = x"
  by (simp add: get_le16_def le16_def)

lemma get_le32_le32 [simp]: "get_le32 (le32 x) = x"
  by (simp add: get_le32_def le32_def)

lemma from_utf8_lossy_valid: "utf8_valid bs \<Longrightarrow> from_utf8_lossy bs = bs"
proof (induction bs rule: from_utf8_lossy.induct)
  case (1 bs)
  show ?case
  proof (cases "bs = []")
    case True
    then show ?thesis by (simp add: from_utf8_lossy.simps)
  next
    case False
    with 1(3) have len: "utf8_char_len bs \<noteq> 0" and rest: "utf8_valid (drop (utf8_char_len bs) bs)"
      by (auto simp: utf8_valid.simps [of bs] split: if_splits)
    with 1(2) False have "from_utf8_lossy (drop (utf8_char_len bs) bs) = drop (utf8_char_len bs) bs" by simp
    with False len show ?thesis by (simp add: from_utf8_lossy.simps [of bs])
  qed
qed

section \<open>Decimal numbers\<close>

lemma digit_byte: "n < 10 \<Longrightarrow> is_digit (of_nat (48 + n)) \<and> unat (of_nat (48 + n) - 0x30 :: u8) = n"
proof -
  assume "n < 10"
  then have "n \<in> {0, 1, 2, 3, 4, 5, 6, 7, 8, 9}" by auto
  then show ?thesis by (auto simp: is_digit_def)
qed

lemma decimal_digits: "decimal n \<noteq> [] \<and> list_all is_digit (decimal n) \<and>
    foldl (\<lambda>n b. 10 * n + unat (b - 0x30)) 0 (decimal n) = n"
proof (induction n rule: decimal.induct)
  case (1 n)
  show ?case
  proof (cases "n < 10")
    case True
    then show ?thesis using digit_byte [of n] by (simp add: decimal.simps [of n])
  next
    case False
    have "decimal n = decimal (n div 10) @ [of_nat (48 + n mod 10)]" using False by (simp add: decimal.simps [of n])
    moreover have "n mod 10 < 10" by simp
    note digit_byte [OF this]
    ultimately show ?thesis using 1 [OF False] by simp
  qed
qed

lemma parse_decimal: "n < 2 ^ 32 \<Longrightarrow> parse_u32 (decimal n) = Some n"
proof -
  assume n: "n < 2 ^ 32"
  obtain b r where d: "decimal n = b # r" using decimal_digits [of n] by (cases "decimal n") auto
  then have "is_digit b" using decimal_digits [of n] by simp
  then have "b \<noteq> 0x2B" by (auto simp: is_digit_def)
  moreover have "digits_value (b # r) = Some n" using decimal_digits [of n] by (simp add: digits_value_def d)
  ultimately show ?thesis using n by (simp add: parse_u32_def d)
qed

text \<open>The identifier a notification is posted under is the one its actions are found by.\<close>

lemma try_invoke_notification: "try_invoke (notification_id uid) action = (True, Some (Invoke uid action))"
  using parse_decimal [of "unat uid"] unsigned_less [of uid]
  by (simp add: try_invoke_def notification_id_def)

lemma notification_id_inject [simp]: "notification_id u = notification_id v \<longleftrightarrow> u = v"
  using try_invoke_notification [of u 0] try_invoke_notification [of v 0] by (metis LeInput.inject(3) option.inject prod.inject)

section \<open>The attributes of a response\<close>

definition attr_bytes :: "u8 \<times> bytes \<Rightarrow> bytes" where
  "attr_bytes x = [fst x] @ le16 (of_nat (length (snd x))) @ snd x"

lemma length_attr_bytes [simp]: "length (attr_bytes x) = 3 + length (snd x)"
  by (simp add: attr_bytes_def)

lemma gna_attribute:
  assumes "length v < 65536"
  shows "gna_attributes (pre @ attr_bytes (i, v) @ rest) (length pre) f =
    (case set_field i (from_utf8_lossy v) f of
       Panic \<Rightarrow> Panic
     | Fine f' \<Rightarrow>
         if i = ATTR_DATE then Fine (Some (f', length pre + length (attr_bytes (i, v))))
         else gna_attributes (pre @ attr_bytes (i, v) @ rest) (length pre + length (attr_bytes (i, v))) f')"
proof -
  let ?buf = "pre @ attr_bytes (i, v) @ rest"
  have id: "?buf ! length pre = i" by (simp add: attr_bytes_def nth_append)
  have len: "take 2 (drop (length pre + 1) ?buf) = le16 (of_nat (length v))"
    by (simp add: attr_bytes_def)
  have n: "unat (get_le16 (le16 (of_nat (length v)))) = length v"
    using assms by (simp add: unat_of_nat)
  have val: "take (length v) (drop (length pre + 3) ?buf) = v"
    by (simp add: attr_bytes_def)
  have step: "gna_attributes ?buf (length pre) f = (case set_field i (from_utf8_lossy v) f of
       Panic \<Rightarrow> Panic
     | Fine f' \<Rightarrow>
         if i = ATTR_DATE then Fine (Some (f', length pre + 3 + length v))
         else gna_attributes ?buf (length pre + 3 + length v) f')"
    by (subst gna_attributes.simps) (simp only: id len n val Let_def, simp)
  show ?thesis by (simp add: step add.assoc split: panicking.split)
qed

lemma gna_attribute_short:
  assumes "length v < 65536" "k < length (attr_bytes (i, v))"
  shows "gna_attributes (pre @ take k (attr_bytes (i, v))) (length pre) f = Fine None"
proof (cases "k < 3")
  case True
  then show ?thesis by (subst gna_attributes.simps) (auto simp: Let_def)
next
  case False
  let ?buf = "pre @ take k (attr_bytes (i, v))"
  have k: "take k (attr_bytes (i, v)) = [i] @ le16 (of_nat (length v)) @ take (k - 3) v"
    using False by (auto simp: attr_bytes_def take_Cons' numeral_3_eq_3 Suc_diff_le)
  have len: "unat (get_le16 (take 2 (drop (length pre + 1) ?buf))) = length v"
    using assms(1) by (simp add: k unat_of_nat)
  have "length ?buf < length pre + 3 + length v" using assms(2) by simp
  then show ?thesis using len by (subst gna_attributes.simps) (auto simp: Let_def)
qed

definition attrs_ok :: "(u8 \<times> bytes) list \<Rightarrow> bool" where
  "attrs_ok attrs \<longleftrightarrow> list_all (\<lambda>(i, v). i \<noteq> ATTR_DATE \<and> length v < 65536) attrs"

definition response_body :: "(u8 \<times> bytes) list \<Rightarrow> bytes \<Rightarrow> bytes" where
  "response_body attrs date = concat (map attr_bytes attrs) @ attr_bytes (ATTR_DATE, date)"

definition with_field :: "NotificationFields \<Rightarrow> u8 \<times> bytes \<Rightarrow> NotificationFields" where
  "with_field f x = (case set_field (fst x) (from_utf8_lossy (snd x)) f of Fine f' \<Rightarrow> f' | Panic \<Rightarrow> f)"

lemma set_field_fine: "i \<noteq> ATTR_DATE \<Longrightarrow> set_field i (from_utf8_lossy v) f = Fine (with_field f (i, v))"
  by (simp add: set_field_def with_field_def)

lemma attrs_ok_simps [simp]:
  "attrs_ok []" "attrs_ok ((i, v) # attrs) \<longleftrightarrow> i \<noteq> ATTR_DATE \<and> length v < 65536 \<and> attrs_ok attrs"
  by (simp_all add: attrs_ok_def)

lemma response_body_simps [simp]:
  "response_body [] date = attr_bytes (ATTR_DATE, date)"
  "response_body (x # attrs) date = attr_bytes x @ response_body attrs date"
  by (simp_all add: response_body_def)

lemma gna_attributes_whole:
  assumes "attrs_ok attrs" "length date < 65536"
  shows "gna_attributes (pre @ response_body attrs date @ rest) (length pre) f =
    (case set_field ATTR_DATE (from_utf8_lossy date) (foldl with_field f attrs) of
       Panic \<Rightarrow> Panic
     | Fine f' \<Rightarrow> Fine (Some (f', length pre + length (response_body attrs date))))"
  using assms
proof (induction attrs arbitrary: pre f)
  case Nil
  then show ?case by (simp add: gna_attribute del: length_attr_bytes split: panicking.split)
next
  case (Cons x attrs)
  obtain i v where x: "x = (i, v)" by (cases x)
  have ok: "i \<noteq> ATTR_DATE" "length v < 65536" "attrs_ok attrs" using Cons.prems by (simp_all add: x)
  have "gna_attributes (pre @ response_body (x # attrs) date @ rest) (length pre) f =
    gna_attributes ((pre @ attr_bytes (i, v)) @ response_body attrs date @ rest) (length (pre @ attr_bytes (i, v)))
      (with_field f (i, v))"
    using gna_attribute [OF ok(2), of pre i "response_body attrs date @ rest" f] ok(1)
    by (simp add: x set_field_fine add.assoc)
  also note Cons.IH [OF ok(3) Cons.prems(2)]
  finally show ?case by (simp add: x add.assoc split: panicking.split)
qed

lemma gna_attributes_part:
  assumes "attrs_ok attrs" "length date < 65536" "k < length (response_body attrs date)"
  shows "gna_attributes (pre @ take k (response_body attrs date)) (length pre) f = Fine None"
  using assms
proof (induction attrs arbitrary: pre f k)
  case Nil
  then show ?case by (simp add: gna_attribute_short)
next
  case (Cons x attrs)
  obtain i v where x: "x = (i, v)" by (cases x)
  have ok: "i \<noteq> ATTR_DATE" "length v < 65536" "attrs_ok attrs" using Cons.prems by (simp_all add: x)
  show ?case
  proof (cases "k < length (attr_bytes (i, v))")
    case True
    then show ?thesis using gna_attribute_short [OF ok(2) True] by (simp add: x)
  next
    case False
    let ?k = "k - length (attr_bytes (i, v))"
    have short: "?k < length (response_body attrs date)" using Cons.prems(3) False by (simp add: x)
    have cut: "take k (response_body (x # attrs) date) = attr_bytes (i, v) @ take ?k (response_body attrs date)"
      using False by (simp add: x)
    have "gna_attributes (pre @ take k (response_body (x # attrs) date)) (length pre) f =
      gna_attributes ((pre @ attr_bytes (i, v)) @ take ?k (response_body attrs date)) (length (pre @ attr_bytes (i, v)))
        (with_field f (i, v))"
      unfolding cut using gna_attribute [OF ok(2), of pre i "take ?k (response_body attrs date)" f] ok(1)
      by (simp add: set_field_fine add.assoc)
    also have "\<dots> = Fine None" by (rule Cons.IH [OF ok(3) Cons.prems(2) short])
    finally show ?thesis .
  qed
qed

section \<open>The responses of a phone\<close>

text \<open>What a phone tells of a notification: the attributes in the order in which they were asked for, the labels of
  the actions it has, the date at the end.\<close>

record PhoneNote =
  note_app :: bytes
  note_title :: bytes
  note_subtitle :: bytes
  note_message :: bytes
  note_positive :: "bytes option"
  note_negative :: "bytes option"
  note_date :: bytes

definition note_attrs :: "PhoneNote \<Rightarrow> (u8 \<times> bytes) list" where
  "note_attrs n =
    [(ATTR_APP_IDENTIFIER, note_app n), (ATTR_TITLE, note_title n), (ATTR_SUBTITLE, note_subtitle n),
     (ATTR_MESSAGE, note_message n)] @
    (case note_positive n of Some l \<Rightarrow> [(ATTR_POSITIVE_ACTION_LABEL, l)] | None \<Rightarrow> []) @
    (case note_negative n of Some l \<Rightarrow> [(ATTR_NEGATIVE_ACTION_LABEL, l)] | None \<Rightarrow> [])"

definition phone_response :: "u32 \<Rightarrow> PhoneNote \<Rightarrow> bytes" where
  "phone_response uid n =
    [COMMAND_GET_NOTIFICATION_ATTRIBUTES] @ le32 uid @ response_body (note_attrs n) (note_date n)"

definition sendable :: "bytes \<Rightarrow> bool" where "sendable v \<longleftrightarrow> utf8_valid v \<and> length v < 65536"

definition conforming :: "PhoneNote \<Rightarrow> bool" where
  "conforming n \<longleftrightarrow> sendable (note_app n) \<and> sendable (note_title n) \<and> sendable (note_subtitle n) \<and>
    sendable (note_message n) \<and> pred_option sendable (note_positive n) \<and> pred_option sendable (note_negative n) \<and>
    sendable (note_date n) \<and> parse_ancs_date (note_date n) \<noteq> Panic"

definition note_fields :: "PhoneNote \<Rightarrow> NotificationFields" where
  "note_fields n = \<lparr>nf_app_id = Some (note_app n), nf_title = Some (note_title n), nf_subtitle = Some (note_subtitle n),
     nf_message = Some (note_message n),
     nf_date_unix_s = (case parse_ancs_date (note_date n) of Fine d \<Rightarrow> d | Panic \<Rightarrow> None),
     nf_positive_label = note_positive n, nf_negative_label = note_negative n\<rparr>"

lemmas attr_ids = ATTR_APP_IDENTIFIER_def ATTR_TITLE_def ATTR_SUBTITLE_def ATTR_MESSAGE_def ATTR_DATE_def
  ATTR_POSITIVE_ACTION_LABEL_def ATTR_NEGATIVE_ACTION_LABEL_def

lemma attrs_ok_note: "conforming n \<Longrightarrow> attrs_ok (note_attrs n)"
  by (auto simp: conforming_def note_attrs_def sendable_def attr_ids split: option.splits)

lemma note_attrs_fields:
  assumes "conforming n"
  shows "set_field ATTR_DATE (from_utf8_lossy (note_date n)) (foldl with_field NotificationFields_default (note_attrs n)) =
    Fine (note_fields n)"
  using assms
  by (auto simp: conforming_def sendable_def note_attrs_def with_field_def set_field_def attr_ids from_utf8_lossy_valid
      note_fields_def NotificationFields_default_def split: option.splits panicking.splits)

lemma parse_whole_response:
  assumes "conforming n"
  shows "parse_gna_response (phone_response uid n @ rest) = Fine (Some (note_fields n, length (phone_response uid n)))"
proof -
  let ?pre = "[COMMAND_GET_NOTIFICATION_ATTRIBUTES] @ le32 uid"
  have "length (note_date n) < 65536" using assms by (simp add: conforming_def sendable_def)
  from gna_attributes_whole [OF attrs_ok_note [OF assms] this, of ?pre rest NotificationFields_default]
  show ?thesis by (simp add: parse_gna_response_def phone_response_def note_attrs_fields [OF assms])
qed

lemma parse_partial_response:
  assumes "conforming n" "k < length (phone_response uid n)"
  shows "parse_gna_response (take k (phone_response uid n)) = Fine None"
proof (cases "k < 5")
  case True
  then show ?thesis using assms(2) by (simp add: parse_gna_response_def)
next
  case False
  let ?pre = "[COMMAND_GET_NOTIFICATION_ATTRIBUTES] @ le32 uid"
  let ?body = "response_body (note_attrs n) (note_date n)"
  have len: "length (note_date n) < 65536" using assms by (simp add: conforming_def sendable_def)
  have short: "k - 5 < length ?body" using assms(2) False by (simp add: phone_response_def)
  have "take k (phone_response uid n) = take k (?pre @ ?body)" by (simp add: phone_response_def)
  also have "\<dots> = take k ?pre @ take (k - length ?pre) ?body" by (rule take_append)
  also have "\<dots> = ?pre @ take (k - 5) ?body" using False by simp
  finally have cut: "take k (phone_response uid n) = ?pre @ take (k - 5) ?body" .
  from gna_attributes_part [OF attrs_ok_note [OF assms(1)] len short, of ?pre NotificationFields_default]
  show ?thesis unfolding cut by (simp add: parse_gna_response_def)
qed

end
