(* ===== verification/Ancs_Run.thy ===== *)
theory Ancs_Run
  imports Ancs_Facts "HOL-Library.Multiset"
begin

text \<open>Runs of the session: what a phone that answers gets to the clients, and what holds of every run.\<close>

section \<open>Reading a run\<close>

fun input_data :: "LeInput \<Rightarrow> bytes" where
  "input_data (DataSource v) = v"
| "input_data _ = []"

fun input_fetched :: "LeInput \<Rightarrow> PendingNotification list" where
  "input_fetched (NotificationSource frame) = (case classify_ns_frame frame of NsFetch p \<Rightarrow> [p] | _ \<Rightarrow> [])"
| "input_fetched _ = []"

definition run_data :: "(nat \<times> bool \<times> LeInput) list \<Rightarrow> bytes" where
  "run_data turns = concat (map (\<lambda>t. input_data (snd (snd t))) turns)"

definition run_fetched :: "(nat \<times> bool \<times> LeInput) list \<Rightarrow> PendingNotification list" where
  "run_fetched turns = concat (map (\<lambda>t. input_fetched (snd (snd t))) turns)"

fun post_of :: "AncsOut \<Rightarrow> NotificationsEvent list" where
  "post_of (AncsEvent (NotificationRemoved _ _)) = []"
| "post_of (AncsEvent e) = [e]"
| "post_of _ = []"

definition posted :: "AncsOut list \<Rightarrow> NotificationsEvent list" where
  "posted out = concat (map post_of out)"

lemma run_data_simps [simp]:
  "run_data [] = []" "run_data (t # ts) = input_data (snd (snd t)) @ run_data ts"
  "run_data (ts @ us) = run_data ts @ run_data us"
  by (simp_all add: run_data_def)

lemma run_fetched_simps [simp]:
  "run_fetched [] = []" "run_fetched (t # ts) = input_fetched (snd (snd t)) @ run_fetched ts"
  "run_fetched (ts @ us) = run_fetched ts @ run_fetched us"
  by (simp_all add: run_fetched_def)

lemma posted_simps [simp]:
  "posted [] = []" "posted (x # out) = post_of x @ posted out" "posted (out @ out') = posted out @ posted out'"
  by (simp_all add: posted_def)

lemma post_of_emit [simp]: "post_of (AncsEvent (emit_notification p f)) = [emit_notification p f]"
  by (simp add: emit_notification_def)

lemma le_run_append:
  "le_run (ts @ us) a =
    (case le_run ts a of
       Panic \<Rightarrow> Panic
     | Fine (a1, out1) \<Rightarrow> (case le_run us a1 of Panic \<Rightarrow> Panic | Fine (a2, out2) \<Rightarrow> Fine (a2, out1 @ out2)))"
  by (induction ts arbitrary: a) (auto split: panicking.splits prod.splits)

lemma le_pump_waiting [simp]: "an_in_flight a = Some p \<Longrightarrow> le_pump now ok a = (a, [])"
  by (simp add: le_pump_def pump_allowed_def)

section \<open>An answered fetch\<close>

lemma waiting_turn:
  assumes flight: "an_in_flight a = Some p"
    and input: "snd (snd t) \<noteq> FetchTimeout"
    and note_ok: "conforming n"
    and data: "phone_response uid n = an_ds_buffer a @ input_data (snd (snd t)) @ rest" "rest \<noteq> []"
    and room: "length (an_pending a) + length (input_fetched (snd (snd t))) \<le> PENDING_QUEUE_CAP"
  shows "\<exists>out. le_turn t a = Fine (a\<lparr>an_ds_buffer := an_ds_buffer a @ input_data (snd (snd t)),
    an_pending := an_pending a @ input_fetched (snd (snd t))\<rparr>, out) \<and> posted out = []"
proof -
  obtain now ok input where t: "t = (now, ok, input)" by (cases t) auto
  have none: "parse_gna_response (an_ds_buffer a @ input_data input) = Fine None"
    using parse_partial_response [OF note_ok, of "length (an_ds_buffer a @ input_data input)" uid] data
    by (simp add: t)
  show ?thesis
  proof (cases input)
    case (NotificationSource frame)
    then show ?thesis using flight room
      by (cases "classify_ns_frame frame") (auto simp: t le_turn_def on_notification_source_def)
  next
    case (DataSource v)
    then show ?thesis using flight none by (simp add: t le_turn_def on_data_source_def)
  qed (use flight input in \<open>auto simp: t le_turn_def on_invoke_def\<close>)
qed

lemma waiting_run:
  assumes "an_in_flight a = Some p" "\<forall>t\<in>set ts. snd (snd t) \<noteq> FetchTimeout" "conforming n"
    and "phone_response uid n = an_ds_buffer a @ run_data ts @ rest" "rest \<noteq> []"
    and "length (an_pending a) + length (run_fetched ts) \<le> PENDING_QUEUE_CAP"
  shows "\<exists>out. le_run ts a = Fine (a\<lparr>an_ds_buffer := an_ds_buffer a @ run_data ts,
    an_pending := an_pending a @ run_fetched ts\<rparr>, out) \<and> posted out = []"
  using assms
proof (induction ts arbitrary: a)
  case Nil
  then show ?case by simp
next
  case (Cons t ts)
  let ?a = "a\<lparr>an_ds_buffer := an_ds_buffer a @ input_data (snd (snd t)),
    an_pending := an_pending a @ input_fetched (snd (snd t))\<rparr>"
  obtain out1 where 1: "le_turn t a = Fine (?a, out1)" "posted out1 = []"
    using waiting_turn [of a p t n uid "run_data ts @ rest"] Cons.prems by auto
  obtain out2 where 2: "le_run ts ?a = Fine (?a\<lparr>an_ds_buffer := an_ds_buffer ?a @ run_data ts,
      an_pending := an_pending ?a @ run_fetched ts\<rparr>, out2)" "posted out2 = []"
    using Cons.IH [of ?a] Cons.prems by auto
  from 1 2 show ?case by simp
qed

definition answers :: "u32 \<Rightarrow> PhoneNote \<Rightarrow> (nat \<times> bool \<times> LeInput) list \<Rightarrow> bool" where
  "answers uid n turns \<longleftrightarrow> turns \<noteq> [] \<and> fst (snd (hd turns)) \<and> (\<forall>t\<in>set turns. snd (snd t) \<noteq> FetchTimeout) \<and>
    run_data turns = phone_response uid n \<and> input_data (snd (snd (last turns))) \<noteq> []"

lemma answered_in_flight:
  assumes flight: "an_in_flight a = Some p" and empty: "an_ds_buffer a = []"
    and ans: "answers uid n turns" and note_ok: "conforming n"
    and room: "length (an_pending a) + length (run_fetched turns) \<le> PENDING_QUEUE_CAP"
  shows "\<exists>out. le_run turns a = Fine (a\<lparr>an_in_flight := None, an_consecutive_timeouts := 0,
      an_pending := an_pending a @ run_fetched turns\<rparr>, out) \<and> posted out = [emit_notification p (note_fields n)]"
proof -
  obtain ts t where turns: "turns = ts @ [t]"
    using ans by (metis answers_def append_butlast_last_id)
  obtain now ok v where t: "t = (now, ok, DataSource v)" and v: "v \<noteq> []"
    using ans by (cases t; cases "snd (snd t)") (auto simp: answers_def turns)
  have resp: "phone_response uid n = an_ds_buffer a @ run_data ts @ v"
    using ans empty by (simp add: answers_def turns t)
  let ?a = "a\<lparr>an_ds_buffer := an_ds_buffer a @ run_data ts, an_pending := an_pending a @ run_fetched ts\<rparr>"
  obtain out1 where 1: "le_run ts a = Fine (?a, out1)" "posted out1 = []"
    using waiting_run [OF flight _ note_ok resp v] ans room by (auto simp: answers_def turns)
  have whole: "parse_gna_response (run_data ts @ v) = Fine (Some (note_fields n, length (run_data ts @ v)))"
    using parse_whole_response [OF note_ok, of uid "[]"] resp empty by simp
  have "le_turn t ?a = Fine (?a\<lparr>an_ds_buffer := [], an_in_flight := None, an_consecutive_timeouts := 0\<rparr>,
    [AncsEvent (emit_notification p (note_fields n)), AuthState Authorized])"
    using flight empty whole by (simp add: t le_turn_def on_data_source_def)
  with 1 empty show ?thesis by (simp add: turns le_run_append t)
qed

lemma pumped_run:
  assumes "an_in_flight a = None" "an_consecutive_timeouts a < ATTRIBUTE_AUTH_GUIDANCE_THRESHOLD"
    and "an_pending a = p # rest" "turns \<noteq> []" "fst (snd (hd turns))"
  shows "le_run turns a =
    (case le_run turns (a\<lparr>an_pending := rest, an_in_flight := Some p\<rparr>) of
       Panic \<Rightarrow> Panic
     | Fine (a', out) \<Rightarrow> Fine (a', ControlWrite (build_get_attributes (pn_uid p)) # out))"
proof -
  obtain now input ts where turns: "turns = (now, True, input) # ts"
    using assms(4,5) by (cases turns) auto
  have "le_pump now True a =
      (a\<lparr>an_pending := rest, an_in_flight := Some p\<rparr>, [ControlWrite (build_get_attributes (pn_uid p))])"
    using assms(1-3) by (simp add: le_pump_def pump_allowed_def pump_def)
  then show ?thesis by (simp add: turns le_turn_def split: panicking.split prod.split)
qed

lemma answered_fetch:
  assumes "an_in_flight a = None" "an_ds_buffer a = []"
    and "an_consecutive_timeouts a < ATTRIBUTE_AUTH_GUIDANCE_THRESHOLD" "an_pending a = p # rest"
    and "answers uid n turns" "conforming n" "length rest + length (run_fetched turns) \<le> PENDING_QUEUE_CAP"
  shows "\<exists>out. le_run turns a = Fine (a\<lparr>an_consecutive_timeouts := 0, an_pending := rest @ run_fetched turns\<rparr>, out) \<and>
    posted out = [emit_notification p (note_fields n)]"
proof -
  let ?a = "a\<lparr>an_pending := rest, an_in_flight := Some p\<rparr>"
  obtain out where run: "le_run turns ?a = Fine (?a\<lparr>an_in_flight := None, an_consecutive_timeouts := 0,
      an_pending := an_pending ?a @ run_fetched turns\<rparr>, out)" "posted out = [emit_notification p (note_fields n)]"
    using answered_in_flight [of ?a p uid n turns] assms by auto
  have pump: "le_run turns a = (case le_run turns ?a of Panic \<Rightarrow> Panic
      | Fine (a', out) \<Rightarrow> Fine (a', ControlWrite (build_get_attributes (pn_uid p)) # out))"
    using pumped_run [of a p rest turns] assms by (simp add: answers_def)
  have same: "?a\<lparr>an_in_flight := None, an_consecutive_timeouts := 0, an_pending := an_pending ?a @ run_fetched turns\<rparr> =
      a\<lparr>an_consecutive_timeouts := 0, an_pending := rest @ run_fetched turns\<rparr>"
    using assms(1) by (cases a) simp
  show ?thesis using pump run unfolding same by auto
qed

lemma answered_queue:
  assumes "an_in_flight a = None" "an_ds_buffer a = []"
    and "an_consecutive_timeouts a < ATTRIBUTE_AUTH_GUIDANCE_THRESHOLD"
    and "an_pending a = map fst jobs @ rest"
    and "\<forall>(p, n, turns)\<in>set jobs. conforming n \<and> answers (pn_uid p) n turns"
    and "length jobs + length rest + length (run_fetched (concat (map (snd \<circ> snd) jobs))) \<le> PENDING_QUEUE_CAP"
  shows "\<exists>a' out. le_run (concat (map (snd \<circ> snd) jobs)) a = Fine (a', out) \<and>
    posted out = map (\<lambda>(p, n, _). emit_notification p (note_fields n)) jobs \<and>
    an_in_flight a' = None \<and> an_ds_buffer a' = [] \<and>
    an_pending a' = rest @ run_fetched (concat (map (snd \<circ> snd) jobs))"
  using assms
proof (induction jobs arbitrary: a rest)
  case Nil
  then show ?case by simp
next
  case (Cons j jobs)
  obtain p n turns where j: "j = (p, n, turns)" by (cases j)
  let ?rest = "map fst jobs @ rest"
  let ?a = "a\<lparr>an_consecutive_timeouts := 0, an_pending := ?rest @ run_fetched turns\<rparr>"
  obtain out1 where 1: "le_run turns a = Fine (?a, out1)" "posted out1 = [emit_notification p (note_fields n)]"
    using answered_fetch [of a p ?rest "pn_uid p" n turns] Cons.prems by (auto simp: j)
  have tail: "length jobs + length (rest @ run_fetched turns) + length (run_fetched (concat (map (snd \<circ> snd) jobs)))
      \<le> PENDING_QUEUE_CAP"
    using Cons.prems(6) by (simp add: j comp_def)
  have "\<exists>a' out. le_run (concat (map (snd \<circ> snd) jobs)) ?a = Fine (a', out) \<and>
    posted out = map (\<lambda>(p, n, _). emit_notification p (note_fields n)) jobs \<and>
    an_in_flight a' = None \<and> an_ds_buffer a' = [] \<and>
    an_pending a' = (rest @ run_fetched turns) @ run_fetched (concat (map (snd \<circ> snd) jobs))"
    by (rule Cons.IH [OF _ _ _ _ _ tail]) (use Cons.prems in \<open>auto simp: ATTRIBUTE_AUTH_GUIDANCE_THRESHOLD_def\<close>)
  then obtain a' out2 where 2: "le_run (concat (map (snd \<circ> snd) jobs)) ?a = Fine (a', out2)"
      "posted out2 = map (\<lambda>(p, n, _). emit_notification p (note_fields n)) jobs"
      "an_in_flight a' = None" "an_ds_buffer a' = []"
      "an_pending a' = (rest @ run_fetched turns) @ run_fetched (concat (map (snd \<circ> snd) jobs))"
    by blast
  show ?case using 1 2 by (simp add: j le_run_append comp_def)
qed

section \<open>What every run accounts for\<close>

text \<open>The notifications whose attributes are still to come, apart from how often they were asked for, and the
  requests that are left to them.\<close>

definition held :: "Ancs \<Rightarrow> PendingNotification list" where
  "held a = an_pending a @ (case an_in_flight a of Some p \<Rightarrow> [p] | None \<Rightarrow> [])"

definition token :: "PendingNotification \<Rightarrow> PendingNotification" where "token p = p\<lparr>pn_attempts := 0\<rparr>"

definition tries_left :: "PendingNotification \<Rightarrow> nat" where
  "tries_left p = ATTRIBUTE_FETCH_ATTEMPTS - pn_attempts p"

definition budget :: "Ancs \<Rightarrow> nat" where
  "budget a = sum_list (map tries_left (an_pending a)) +
    (case an_in_flight a of Some p \<Rightarrow> tries_left p - 1 | None \<Rightarrow> 0)"

fun is_request :: "AncsOut \<Rightarrow> bool" where
  "is_request (ControlWrite cmd) \<longleftrightarrow> take 1 cmd = [COMMAND_GET_NOTIFICATION_ATTRIBUTES]"
| "is_request _ \<longleftrightarrow> False"

definition requests :: "AncsOut list \<Rightarrow> nat" where "requests out = length (filter is_request out)"

definition held_ok :: "Ancs \<Rightarrow> bool" where
  "held_ok a \<longleftrightarrow> (\<forall>p\<in>set (held a). pn_attempts p < ATTRIBUTE_FETCH_ATTEMPTS) \<and> length (held a) \<le> PENDING_QUEUE_CAP + 1"

definition accounted :: "Ancs \<Rightarrow> PendingNotification list \<Rightarrow> Ancs \<Rightarrow> AncsOut list \<Rightarrow> bool" where
  "accounted a new a' out \<longleftrightarrow>
    (\<exists>es. posted out = map (\<lambda>(p, f). emit_notification p f) es \<and>
       mset (map token (held a')) + mset (map fst es) \<subseteq># mset (map token (held a)) + mset (map token new)) \<and>
    requests out + budget a' \<le> budget a + ATTRIBUTE_FETCH_ATTEMPTS * length new \<and> held_ok a'"

lemma requests_simps [simp]:
  "requests [] = 0" "requests (x # out) = (if is_request x then 1 else 0) + requests out"
  "requests (out @ out') = requests out + requests out'"
  by (simp_all add: requests_def)

lemma is_request_get [simp]: "is_request (ControlWrite (build_get_attributes uid))"
  by (simp add: build_get_attributes_def)

lemma is_request_perform [simp]: "\<not> is_request (ControlWrite (build_perform_action uid action))"
  by (simp add: build_perform_action_def COMMAND_GET_NOTIFICATION_ATTRIBUTES_def COMMAND_PERFORM_NOTIFICATION_ACTION_def)

declare is_request.simps(1) [simp del]

lemma emit_token [simp]: "emit_notification (token p) f = emit_notification p f"
  by (simp add: token_def emit_notification_def notification_of_def)

lemma accounted_refl: "held_ok a \<Longrightarrow> posted out = [] \<Longrightarrow> requests out = 0 \<Longrightarrow> accounted a [] a out"
  by (auto simp: accounted_def)

lemma accounted_trans:
  assumes 1: "accounted a n1 a1 out1" and 2: "accounted a1 n2 a2 out2"
  shows "accounted a (n1 @ n2) a2 (out1 @ out2)"
proof -
  obtain es1 where e1: "posted out1 = map (\<lambda>(p, f). emit_notification p f) es1"
    "mset (map token (held a1)) + mset (map fst es1) \<subseteq># mset (map token (held a)) + mset (map token n1)"
    using 1 by (auto simp: accounted_def)
  obtain es2 where e2: "posted out2 = map (\<lambda>(p, f). emit_notification p f) es2"
    "mset (map token (held a2)) + mset (map fst es2) \<subseteq># mset (map token (held a1)) + mset (map token n2)"
    using 2 by (auto simp: accounted_def)
  have "mset (map token (held a2)) + mset (map fst (es1 @ es2)) \<subseteq>#
    mset (map token (held a)) + mset (map token (n1 @ n2))"
    unfolding subseteq_mset_def
  proof
    fix x
    show "count (mset (map token (held a2)) + mset (map fst (es1 @ es2))) x \<le>
      count (mset (map token (held a)) + mset (map token (n1 @ n2))) x"
      using mset_subset_eq_count [OF e1(2), of x] mset_subset_eq_count [OF e2(2), of x] by simp
  qed
  moreover have "posted (out1 @ out2) = map (\<lambda>(p, f). emit_notification p f) (es1 @ es2)"
    using e1(1) e2(1) by simp
  moreover have "requests (out1 @ out2) + budget a2 \<le> budget a + ATTRIBUTE_FETCH_ATTEMPTS * length (n1 @ n2)"
    using 1 2 by (simp add: accounted_def add_mult_distrib2)
  moreover have "held_ok a2" using 2 by (simp add: accounted_def)
  ultimately show ?thesis unfolding accounted_def by blast
qed

lemma accounted_pump: "held_ok a \<Longrightarrow> accounted a [] (fst (le_pump now ok a)) (snd (le_pump now ok a))"
  by (cases "an_pending a"; cases "an_in_flight a")
    (auto simp: le_pump_def pump_def pump_allowed_def accounted_def held_ok_def held_def budget_def tries_left_def
      retry_or_drop_def token_def Let_def)

lemma accounted_announce:
  assumes "held_ok a"
  shows "accounted a (input_fetched (NotificationSource frame)) (fst (on_notification_source frame a))
    (snd (on_notification_source frame a))"
proof (cases "classify_ns_frame frame")
  case (NsFetch p)
  have "pn_attempts p = 0" using NsFetch by (auto simp: classify_ns_frame_def Let_def split: if_splits)
  then show ?thesis using assms NsFetch
    by (cases "an_pending a")
      (auto simp: on_notification_source_def accounted_def held_ok_def held_def budget_def tries_left_def
        ATTRIBUTE_FETCH_ATTEMPTS_def PENDING_QUEUE_CAP_def split: option.splits)
qed (use assms in \<open>auto simp: on_notification_source_def intro: accounted_refl\<close>)

lemma accounted_timeout: "held_ok a \<Longrightarrow> accounted a [] (snd (on_fetch_timeout a)) []"
  by (cases "an_in_flight a")
    (auto simp: on_fetch_timeout_def accounted_def held_ok_def held_def budget_def tries_left_def retry_or_drop_def
      token_def Let_def)

lemma accounted_data:
  assumes "held_ok a" "on_data_source v a = Fine (drained, a', out)"
  shows "accounted a [] a' out"
proof (cases "an_in_flight a")
  case None
  then show ?thesis using assms by (auto simp: on_data_source_def accounted_def held_ok_def held_def budget_def)
next
  case (Some p)
  show ?thesis
  proof (cases "parse_gna_response (an_ds_buffer a @ v)")
    case Panic
    then show ?thesis using assms(2) Some by (simp add: on_data_source_def)
  next
    case (Fine r)
    show ?thesis
    proof (cases r)
      case None
      then show ?thesis using assms Some Fine
        by (auto simp: on_data_source_def accounted_def held_ok_def held_def budget_def)
    next
      case (Some x)
      obtain f k where x: "x = (f, k)" by (cases x)
      have a': "a' = a\<lparr>an_ds_buffer := drop k (an_ds_buffer a @ v), an_in_flight := None, an_consecutive_timeouts := 0\<rparr>"
        and out: "out = [AncsEvent (emit_notification p f)]"
        using assms(2) Fine Some x \<open>an_in_flight a = Some p\<close> by (auto simp: on_data_source_def)
      have "posted out = map (\<lambda>(p, f). emit_notification p f) [(token p, f)]" by (simp add: out)
      moreover have "mset (map token (held a')) + mset (map fst [(token p, f)]) \<subseteq># mset (map token (held a))"
        using \<open>an_in_flight a = Some p\<close> by (simp add: a' held_def)
      moreover have "requests out + budget a' \<le> budget a" "held_ok a'"
        using \<open>an_in_flight a = Some p\<close> assms(1) by (auto simp: a' out budget_def held_ok_def held_def)
      ultimately show ?thesis unfolding accounted_def by (intro conjI exI [of _ "[(token p, f)]"]) simp_all
    qed
  qed
qed

lemma accounted_out: "accounted a new a' out \<Longrightarrow> accounted a new a' (out @ [AuthState b])"
  by (simp add: accounted_def)

lemma accounted_input:
  assumes "held_ok a" "le_input input a = Fine (a', out)"
  shows "accounted a (input_fetched input) a' out"
proof (cases input)
  case (NotificationSource frame)
  then show ?thesis using accounted_announce [OF assms(1), of frame] assms(2) by (simp del: input_fetched.simps)
next
  case (DataSource v)
  then obtain drained out0 where run: "on_data_source v a = Fine (drained, a', out0)"
    and out: "out = out0 @ (if drained then [AuthState Authorized] else [])"
    using assms(2) by (auto split: panicking.splits)
  from accounted_data [OF assms(1) run] show ?thesis by (simp add: DataSource out accounted_out)
next
  case FetchTimeout
  obtain u a1 where "on_fetch_timeout a = (u, a1)" by (cases "on_fetch_timeout a")
  then show ?thesis using accounted_timeout [OF assms(1)] accounted_out [of a "[]" a1 "[]"] accounted_refl [OF assms(1)] assms(2)
    by (auto simp: FetchTimeout split: if_splits)
qed (use assms in \<open>auto simp: on_invoke_def intro: accounted_refl\<close>)

lemma accounted_turn:
  assumes "held_ok a" "le_turn t a = Fine (a', out)"
  shows "accounted a (input_fetched (snd (snd t))) a' out"
proof -
  obtain now ok input where t: "t = (now, ok, input)" by (cases t) auto
  obtain a1 out1 where p: "le_pump now ok a = (a1, out1)" by (cases "le_pump now ok a")
  obtain out2 where i: "le_input input a1 = Fine (a', out2)" and out: "out = out1 @ out2"
    using assms(2) by (auto simp: t p le_turn_def split: panicking.splits prod.splits)
  have 1: "accounted a [] a1 out1" using accounted_pump [OF assms(1), of now ok] by (simp add: p)
  then have "held_ok a1" by (simp add: accounted_def)
  from accounted_trans [OF 1 accounted_input [OF this i]] show ?thesis by (simp add: out t)
qed

lemma accounted_run:
  assumes "held_ok a" "le_run turns a = Fine (a', out)"
  shows "accounted a (run_fetched turns) a' out"
  using assms
proof (induction turns arbitrary: a out)
  case Nil
  then show ?case by (auto intro: accounted_refl)
next
  case (Cons t turns)
  obtain a1 out1 where 1: "le_turn t a = Fine (a1, out1)"
    using Cons.prems(2) by (cases "le_turn t a") auto
  obtain out2 where 2: "le_run turns a1 = Fine (a', out2)" and out: "out = out1 @ out2"
    using Cons.prems(2) 1 by (auto split: panicking.splits)
  have acc: "accounted a (input_fetched (snd (snd t))) a1 out1" by (rule accounted_turn [OF Cons.prems(1) 1])
  then have "held_ok a1" by (simp add: accounted_def)
  from accounted_trans [OF acc Cons.IH [OF this 2]] show ?case by (simp add: out)
qed

text \<open>The gateways know the last state that was reported, and are never told the same one twice in a row.\<close>

lemma auth_reports_changes:
  assumes "auth_reports out known = (known', told)"
  shows "last (known # told) = known' \<and> distinct_adj (known # told)"
  using assms
proof (induction out known arbitrary: known' told rule: auth_reports.induct)
  case (2 nxt out known)
  then show ?case by (auto simp: auth_report_def split: prod.splits if_splits)
qed (auto split: prod.splits)

end
