(* ===== verification/Ancs_Dates.thy ===== *)
theory Ancs_Dates
  imports Ancs_Notifications
begin

text \<open>The dates of the notifications: the arithmetic of the code counts the days of the calendar, and the text of a
  date yields its second.\<close>

section \<open>The calendar\<close>

definition leap_year :: "int \<Rightarrow> bool" where
  "leap_year y \<longleftrightarrow> 4 dvd y \<and> \<not> 100 dvd y \<or> 400 dvd y"

definition month_length :: "int \<Rightarrow> nat \<Rightarrow> nat" where
  "month_length y m =
    (if m = 2 then (if leap_year y then 29 else 28) else if m \<in> {4, 6, 9, 11} then 30 else 31)"

fun next_date :: "int \<times> nat \<times> nat \<Rightarrow> int \<times> nat \<times> nat" where
  "next_date (y, m, d) =
    (if d < month_length y m then (y, m, d + 1) else if m < 12 then (y, m + 1, 1) else (y + 1, 1, 1))"

definition date_after :: "nat \<Rightarrow> int \<times> nat \<times> nat" where
  "date_after n = (next_date ^^ n) (1970, 1, 1)"

fun calendar_date :: "int \<times> nat \<times> nat \<Rightarrow> bool" where
  "calendar_date (y, m, d) \<longleftrightarrow> 1 \<le> m \<and> m \<le> 12 \<and> 1 \<le> d \<and> d \<le> month_length y m"

lemma month_length_bounds: "28 \<le> month_length y m" "month_length y m \<le> 31"
  by (simp_all add: month_length_def)

lemma calendar_next: "calendar_date x \<Longrightarrow> calendar_date (next_date x)"
  using month_length_bounds(1) [of "fst x" "fst (snd x) + 1"] month_length_bounds(1) [of "fst x + 1" 1]
  by (cases x) auto

lemma calendar_date_after: "calendar_date (date_after n)"
proof (induction n)
  case 0
  show ?case by (simp add: date_after_def month_length_def)
next
  case (Suc n)
  then show ?case using calendar_next by (simp add: date_after_def)
qed

section \<open>Counting days\<close>

text \<open>The days before the first of March of a year.\<close>

definition march_days :: "int \<Rightarrow> int" where
  "march_days y = 365 * y + y div 4 - y div 100 + y div 400 - 719468"

lemma era_days:
  fixes y :: int
  shows "(y div 400) * 146097 + ((y - (y div 400) * 400) * 365 + (y - (y div 400) * 400) div 4 -
    (y - (y div 400) * 400) div 100) = 365 * y + y div 4 - y div 100 + y div 400"
proof -
  define e where "e = y div 400"
  have "(y - e * 400) div 4 = y div 4 - 100 * e"
    using div_mult_self1 [of 4 y "- 100 * e"] by simp
  moreover have "(y - e * 400) div 100 = y div 100 - 4 * e"
    using div_mult_self1 [of 100 y "- 4 * e"] by simp
  ultimately show ?thesis by (simp add: e_def [symmetric])
qed

lemma div_of_pred:
  fixes y k :: int
  assumes "0 < k"
  shows "y div k = (y - 1) div k + (if k dvd y then 1 else 0)"
proof (cases "k dvd y")
  case True
  then obtain c where "y = k * c" by blast
  then have "y - 1 = k * (c - 1) + (k - 1)" by (simp add: algebra_simps)
  then have "(y - 1) div k = c - 1" by (rule int_div_pos_eq) (use assms in simp_all)
  then show ?thesis using \<open>y = k * c\<close> assms by simp
next
  case False
  then have "y mod k \<noteq> 0" by (simp add: dvd_eq_mod_eq_0)
  then have "1 \<le> y mod k" "y mod k < k" using assms pos_mod_sign [of k y] pos_mod_bound [of k y] by linarith+
  moreover have "y - 1 = k * (y div k) + (y mod k - 1)" using mult_div_mod_eq [of k y] by linarith
  then have "(y - 1) div k = y div k" by (rule int_div_pos_eq) (use calculation in simp_all)
  then show ?thesis using False by simp
qed

lemma march_days_next: "march_days y = march_days (y - 1) + (if leap_year y then 366 else 365)"
proof -
  have "400 dvd y \<Longrightarrow> 100 dvd y" "100 dvd y \<Longrightarrow> 4 dvd y"
    by (rule dvd_trans [of _ 400], simp_all) (rule dvd_trans [of _ 100], simp_all)
  then show ?thesis
    using div_of_pred [of 4 y] div_of_pred [of 100 y] div_of_pred [of 400 y]
    by (auto simp: march_days_def leap_year_def)
qed

definition month_start :: "nat \<Rightarrow> int" where
  "month_start m = (153 * int (if m > 2 then m - 3 else m + 9) + 2) div 5"

lemma day_sum:
  fixes e :: int
  shows "e + (x + q - c) = s \<Longrightarrow> e + (x + q - c + (ms + d - 1)) - 719468 = s - 719468 + ms + d - 1"
  by simp

lemma days_from_civil_march:
  assumes "1 \<le> m" "m \<le> 12" "1 \<le> d" "d \<le> 31"
  shows "days_from_civil y m d = Some (march_days (if m \<le> 2 then y - 1 else y) + month_start m + int d - 1)"
proof -
  define z where "z = (if m \<le> 2 then y - 1 else y)"
  have range: "(\<not> (1 \<le> m \<and> m \<le> 12) \<or> d = 0 \<or> d > 31) = False" using assms by auto
  have "days_from_civil y m d = Some ((z div 400) * 146097 + ((z - (z div 400) * 400) * 365 + (z - (z div 400) * 400) div 4 -
    (z - (z div 400) * 400) div 100 + (month_start m + int d - 1)) - 719468)"
    unfolding days_from_civil_def Let_def z_def [symmetric] month_start_def range if_False by (rule refl)
  also have "\<dots> = Some (march_days z + month_start m + int d - 1)"
    unfolding march_days_def option.inject by (rule day_sum [OF era_days])
  finally show ?thesis by (simp add: z_def)
qed

lemma month_cases: "1 \<le> m \<Longrightarrow> m \<le> (12 :: nat) \<Longrightarrow> m \<in> {1, 2, 3, 4, 5, 6, 7, 8, 9, 10, 11, 12}"
  by (simp, presburger)

lemma days_from_civil_next:
  assumes "calendar_date (y, m, d)" "days_from_civil y m d = Some k"
  shows "(case next_date (y, m, d) of (y', m', d') \<Rightarrow> days_from_civil y' m' d') = Some (k + 1)"
proof -
  have d: "1 \<le> m" "m \<le> 12" "1 \<le> d" "d \<le> 31" using assms(1) month_length_bounds(2) [of y m] by auto
  have k: "k = march_days (if m \<le> 2 then y - 1 else y) + month_start m + int d - 1"
    using assms(2) by (simp add: days_from_civil_march [OF d])
  show ?thesis
  proof (cases "d < month_length y m")
    case True
    with d show ?thesis using month_length_bounds(2) [of y m] by (simp add: days_from_civil_march k)
  next
    case False
    then have len: "d = month_length y m" using assms(1) by simp
    show ?thesis using month_cases [OF d(1,2)] march_days_next [of y]
      by (elim insertE emptyE; simp add: days_from_civil_march k len month_length_def month_start_def)
  qed
qed

lemma days_from_civil_counts: "(case date_after n of (y, m, d) \<Rightarrow> days_from_civil y m d) = Some (int n)"
proof (induction n)
  case 0
  show ?case by (simp add: date_after_def days_from_civil_def)
next
  case (Suc n)
  obtain y m d where yd: "date_after n = (y, m, d)" by (cases "date_after n") auto
  have "date_after (Suc n) = next_date (y, m, d)" using yd by (simp add: date_after_def)
  then show ?case
    using days_from_civil_next [of y m d "int n"] calendar_date_after [of n] Suc by (simp add: yd del: next_date.simps)
qed

section \<open>The text of a date\<close>

definition digit :: "nat \<Rightarrow> u8" where "digit k = of_nat (48 + k)"

definition two_digits :: "nat \<Rightarrow> bytes" where "two_digits n = [digit (n div 10), digit (n mod 10)]"

definition date_text :: "nat \<times> nat \<times> nat \<Rightarrow> nat \<times> nat \<times> nat \<Rightarrow> bytes" where
  "date_text date tim =
    (case (date, tim) of ((y, m, d), (hh, mm, ss)) \<Rightarrow>
      two_digits (y div 100) @ two_digits (y mod 100) @ two_digits m @ two_digits d @ lit ''T'' @
      two_digits hh @ two_digits mm @ two_digits ss)"

lemma digit_cases: "k < 10 \<Longrightarrow> k \<in> {0, 1, 2, 3, 4, 5, 6, 7, 8, 9 :: nat}"
  by auto

lemma digit_facts:
  assumes "k < 10"
  shows "is_digit (digit k)" "unat (digit k - 0x30) = k" "digit k \<noteq> 0x2B" "digit k \<noteq> 0x2D" "\<not> utf8_cont (digit k)"
  using digit_cases [OF assms] by (auto simp: digit_def is_digit_def utf8_cont_def)

lemma length_two_digits [simp]: "length (two_digits n) = 2"
  by (simp add: two_digits_def)

lemma parse_two_digits: "n < 100 \<Longrightarrow> parse_u32 (two_digits n) = Some n"
  by (simp add: parse_u32_def two_digits_def digits_value_def digit_facts)

lemma horner_four:
  fixes n :: nat
  shows "n = 100 * p + q \<Longrightarrow> p = 10 * a + b \<Longrightarrow> q = 10 * c + d \<Longrightarrow> 10 * (10 * (10 * a + b) + c) + d = n"
  by simp

lemma parse_four_digits:
  assumes "n < 10000"
  shows "parse_i32 (two_digits (n div 100) @ two_digits (n mod 100)) = Some (int n)"
proof -
  have sum: "10 * (10 * (10 * (n div 100 div 10) + n div 100 mod 10) + n mod 100 div 10) + n mod 100 mod 10 = n"
    by (rule horner_four [of n "n div 100" "n mod 100"]) simp_all
  have "n div 100 < 100" "n mod 100 < 100" using assms by simp_all
  then have "n div 100 div 10 < 10" "n div 100 mod 10 < 10" "n mod 100 div 10 < 10" "n mod 100 mod 10 < 10" by simp_all
  then show ?thesis
    using sum by (simp add: parse_i32_def two_digits_def digits_value_def digit_facts del: mod_mult_self1)
qed

lemma str_get_plain:
  assumes "list_all (\<lambda>b. \<not> utf8_cont b) s" "a \<le> b" "b \<le> length s"
  shows "str_get a b s = Some (take (b - a) (drop a s))"
proof -
  have "is_char_boundary s i" if "i \<le> length s" for i
    using assms(1) that by (cases "i = length s") (auto simp: is_char_boundary_def list_all_length)
  then show ?thesis using assms(2,3) by (simp add: str_get_def)
qed

lemma two_digits_plain: "n < 100 \<Longrightarrow> list_all (\<lambda>b. \<not> utf8_cont b) (two_digits n)"
  by (simp add: two_digits_def digit_facts)

definition seconds_of :: "nat \<Rightarrow> nat \<times> nat \<times> nat \<Rightarrow> nat" where
  "seconds_of days tim = (case tim of (hh, mm, ss) \<Rightarrow> days * 86400 + hh * 3600 + mm * 60 + ss)"

lemma date_text_fields:
  assumes "y < 10000" "m < 100" "d < 100" "hh < 100" "mm < 100" "ss < 100"
  defines "s \<equiv> date_text (y, m, d) (hh, mm, ss)"
  shows "length s = 15" "str_get 8 9 s = Some (lit ''T'')"
    "Option.bind (str_get 0 4 s) parse_i32 = Some (int y)" "Option.bind (str_get 4 6 s) parse_u32 = Some m"
    "Option.bind (str_get 6 8 s) parse_u32 = Some d" "Option.bind (str_get 9 11 s) parse_u32 = Some hh"
    "Option.bind (str_get 11 13 s) parse_u32 = Some mm" "Option.bind (str_get 13 15 s) parse_u32 = Some ss"
proof -
  have s: "s = (two_digits (y div 100) @ two_digits (y mod 100)) @ two_digits m @ two_digits d @ lit ''T'' @
      two_digits hh @ two_digits mm @ two_digits ss"
    by (simp add: s_def date_text_def)
  have T: "length (lit ''T'') = 1" "list_all (\<lambda>b. \<not> utf8_cont b) (lit ''T'')"
    by (simp_all add: lit_def utf8_cont_def)
  have "list_all (\<lambda>b. \<not> utf8_cont b) s" using assms(1-6) T(2) by (simp add: s two_digits_plain)
  moreover show len: "length s = 15" using T(1) by (simp add: s)
  ultimately have get: "b \<le> 15 \<Longrightarrow> a \<le> b \<Longrightarrow> str_get a b s = Some (take (b - a) (drop a s))" for a b
    by (simp add: str_get_plain)
  show "str_get 8 9 s = Some (lit ''T'')" using T(1) by (subst get) (simp_all add: s)
  show "Option.bind (str_get 0 4 s) parse_i32 = Some (int y)"
    using parse_four_digits [OF assms(1)] by (subst get) (simp_all add: s)
  show "Option.bind (str_get 4 6 s) parse_u32 = Some m" using assms(2)
    by (subst get) (simp_all add: s parse_two_digits)
  show "Option.bind (str_get 6 8 s) parse_u32 = Some d" using assms(3)
    by (subst get) (simp_all add: s parse_two_digits)
  show "Option.bind (str_get 9 11 s) parse_u32 = Some hh" using T(1) assms(4)
    by (subst get) (simp_all add: s parse_two_digits)
  show "Option.bind (str_get 11 13 s) parse_u32 = Some mm" using T(1) assms(5)
    by (subst get) (simp_all add: s parse_two_digits)
  show "Option.bind (str_get 13 15 s) parse_u32 = Some ss" using T(1) assms(6)
    by (subst get) (simp_all add: s parse_two_digits)
qed

lemma parse_date_text:
  assumes "date_after n = (int y, m, d)" "y < 10000" "hh < 100" "mm < 100" "ss < 100"
  shows "parse_ancs_date (date_text (y, m, d) (hh, mm, ss)) =
    Fine (if seconds_of n (hh, mm, ss) < 2 ^ 32 then Some (seconds_of n (hh, mm, ss)) else None)"
proof -
  have "m < 100" "d < 100"
    using calendar_date_after [of n] month_length_bounds(2) [of "int y" m] assms(1) by auto
  note parts = date_text_fields [OF assms(2) this assms(3-5)]
  have "days_from_civil (int y) m d = Some (int n)"
    using days_from_civil_counts [of n] by (simp add: assms(1))
  moreover have "int n * 86400 + int hh * 3600 + int mm * 60 + int ss = int (seconds_of n (hh, mm, ss))"
    by (simp add: seconds_of_def)
  ultimately show ?thesis by (simp add: parse_ancs_date_def parts parse_date_fields_def Let_def)
qed

end
