(* ===== verification/Ancs_Behaviour.thy ===== *)
theory Ancs_Behaviour
  imports Ancs_Run Ancs_Dates
begin

text \<open>The properties of the notifications of the phone: what is announced and answered reaches the clients as the phone
  has it, nothing else does, and the dates are those of the calendar. Two flaws are stated as they are: a notification
  that the phone takes back while its attributes are fetched is shown all the same, and some dates end the session.\<close>

section \<open>A concrete phone\<close>

definition demo_note :: PhoneNote where
  "demo_note = \<lparr>note_app = lit ''mail'', note_title = lit ''Hi'', note_subtitle = [], note_message = lit ''Lunch?'',
     note_positive = None, note_negative = Some (lit ''Clear''), note_date = date_text (1970, 2, 1) (13, 45, 0)\<rparr>"

definition demo_pending :: "u32 \<Rightarrow> PendingNotification" where
  "demo_pending uid = \<lparr>pn_uid = uid, pn_event_id = EVENT_ADDED, pn_flags = FLAG_NEGATIVE_ACTION, pn_category = 6, pn_attempts = 0\<rparr>"

definition demo_frame :: "u8 \<Rightarrow> u32 \<Rightarrow> bytes" where
  "demo_frame event_id uid = [event_id, FLAG_NEGATIVE_ACTION, 6, 1] @ le32 uid"

definition demo_turns :: "u32 \<Rightarrow> (nat \<times> bool \<times> LeInput) list" where
  "demo_turns uid =
    [(0, True, DataSource (take 30 (phone_response uid demo_note))), (1, False, NotificationSource (demo_frame EVENT_ADDED 9)),
     (2, True, DataSource (drop 30 (phone_response uid demo_note)))]"

lemma demo_date: "date_after 31 = (1970, 2, 1)"
  by code_simp

lemma ascii_valid: "list_all (\<lambda>b. b < 0x80) s \<Longrightarrow> utf8_valid s"
proof (induction s)
  case Nil
  show ?case by (simp add: utf8_valid.simps)
next
  case (Cons b s)
  then have "utf8_char_len (b # s) = 1" by (simp add: utf8_char_len_def Let_def)
  then show ?case using Cons by (simp add: utf8_valid.simps [of "b # s"])
qed

lemma demo_conforming: "conforming demo_note"
proof -
  have date: "parse_ancs_date (note_date demo_note) \<noteq> Panic"
    using parse_date_text [of 31 1970 2 1 13 45 0] by (simp add: demo_date demo_note_def)
  have "sendable (note_app demo_note)" "sendable (note_title demo_note)" "sendable (note_subtitle demo_note)"
    "sendable (note_message demo_note)" "pred_option sendable (note_positive demo_note)"
    "pred_option sendable (note_negative demo_note)" "sendable (note_date demo_note)"
    by (simp_all add: demo_note_def sendable_def ascii_valid lit_def date_text_def two_digits_def digit_def)
  then show ?thesis using date by (simp add: conforming_def)
qed

lemma demo_answers: "answers uid demo_note (demo_turns uid)"
proof -
  have "50 < length (phone_response uid demo_note)"
    by (simp add: phone_response_def note_attrs_def demo_note_def lit_def date_text_def)
  then show ?thesis by (simp add: answers_def demo_turns_def)
qed

lemma demo_classify:
  "classify_ns_frame (demo_frame EVENT_ADDED uid) = NsFetch (demo_pending uid)"
  "classify_ns_frame (demo_frame EVENT_REMOVED uid) = NsRemoved uid"
  by (simp_all add: demo_frame_def classify_ns_frame_def demo_pending_def EVENT_ADDED_def EVENT_REMOVED_def
      EVENT_MODIFIED_def FLAG_NEGATIVE_ACTION_def FLAG_PRE_EXISTING_def Let_def)

lemma demo_fetched: "run_fetched (demo_turns uid) = [demo_pending 9]"
  by (simp add: demo_turns_def demo_classify)

section \<open>Properties\<close>

text \<open>C12. Suppose that nothing is in flight, that the phone answers each request, in order, with the attributes of the very
  notification asked for, and that each request can be written, none times out, and the queue never passes its 64
  places. Suppose further that the texts are valid UTF-8 below 64 KiB and the dates are none that \<open>parse_ancs_date\<close>
  panics on. Then every pending notification reaches the clients, in the order announced and with the phone's own
  texts and date, however the responses are cut into pieces and whatever is announced, removed or invoked between
  the pieces; and the queue then holds exactly what was announced meanwhile. What a late response does is
  \<open>stale_response_accepted\<close>.\<close>
theorem notifications_arrive:
  assumes "an_in_flight a = None" "an_ds_buffer a = []"
    and "an_consecutive_timeouts a < ATTRIBUTE_AUTH_GUIDANCE_THRESHOLD"
    and "an_pending a = map fst jobs"
    and "\<forall>(p, n, turns)\<in>set jobs. conforming n \<and> answers (pn_uid p) n turns"
    and "length jobs + length (run_fetched (concat (map (snd \<circ> snd) jobs))) \<le> PENDING_QUEUE_CAP"
  shows "\<exists>a' out. le_run (concat (map (snd \<circ> snd) jobs)) a = Fine (a', out) \<and>
    posted out = map (\<lambda>(p, n, _). emit_notification p (note_fields n)) jobs \<and>
    an_in_flight a' = None \<and> an_ds_buffer a' = [] \<and>
    an_pending a' = run_fetched (concat (map (snd \<circ> snd) jobs))"
  using answered_queue [of a jobs "[]"] assms by simp

theorem notifications_arrive_witness:
  "\<exists>a' out. le_run (demo_turns 7 @ demo_turns 8) ((Ancs_new 0)\<lparr>an_pending := [demo_pending 7, demo_pending 8]\<rparr>) = Fine (a', out) \<and>
    posted out = [emit_notification (demo_pending 7) (note_fields demo_note), emit_notification (demo_pending 8) (note_fields demo_note)] \<and>
    an_pending a' = [demo_pending 9, demo_pending 9]"
proof -
  let ?a = "(Ancs_new 0)\<lparr>an_pending := [demo_pending 7, demo_pending 8]\<rparr>"
  let ?jobs = "[(demo_pending 7, demo_note, demo_turns 7), (demo_pending 8, demo_note, demo_turns 8)]"
  have uid: "pn_uid (demo_pending u) = u" for u by (simp add: demo_pending_def)
  have "\<exists>a' out. le_run (concat (map (snd \<circ> snd) ?jobs)) ?a = Fine (a', out) \<and>
    posted out = map (\<lambda>(p, n, _). emit_notification p (note_fields n)) ?jobs \<and>
    an_in_flight a' = None \<and> an_ds_buffer a' = [] \<and> an_pending a' = run_fetched (concat (map (snd \<circ> snd) ?jobs))"
    by (rule notifications_arrive)
      (simp_all add: Ancs_new_def demo_conforming demo_answers uid demo_fetched ATTRIBUTE_AUTH_GUIDANCE_THRESHOLD_def
        PENDING_QUEUE_CAP_def)
  then show ?thesis by (auto simp: demo_fetched)
qed

text \<open>C13. The date of a notification is read as the calendar has it: the text of the date that follows 1 January 1970 by n
  days, with a time of day, yields the seconds to it, and nothing once they no longer fit 32 bits. This is the calendar
  of leap years, counted day by day, and it comes through the byte slices, the parsed numbers and the arithmetic of
  eras of 400 years with which the code does without it.\<close>
theorem notification_date_is_calendar:
  assumes "date_after n = (int y, m, d)" "y < 10000" "hh < 100" "mm < 100" "ss < 100"
  shows "parse_ancs_date (date_text (y, m, d) (hh, mm, ss)) =
    Fine (if n * 86400 + hh * 3600 + mm * 60 + ss < 2 ^ 32 then Some (n * 86400 + hh * 3600 + mm * 60 + ss) else None)"
  using parse_date_text [OF assms] by (simp add: seconds_of_def)

theorem notification_date_is_calendar_witness:
  "parse_ancs_date (date_text (1970, 2, 1) (13, 45, 0)) = Fine (Some 2727900)"
  using notification_date_is_calendar [of 31 1970 2 1 13 45 0] by (simp add: demo_date)

text \<open>C14. Nothing is invented: in every run of a new session, with failing writes, lost responses, timeouts and any bytes
  on the data source, the notifications posted are ones that were announced, each at most once; the phone is asked at
  most three times for each, and at most 65 are held.\<close>
theorem notifications_only_announced:
  assumes "le_run turns (Ancs_new now) = Fine (a, out)"
  shows "\<exists>es. posted out = map (\<lambda>(p, f). emit_notification p f) es \<and>
    mset (map fst es) \<subseteq># mset (map token (run_fetched turns)) \<and>
    requests out \<le> 3 * length (run_fetched turns) \<and> length (held a) \<le> 65"
proof -
  have "held_ok (Ancs_new now)" "held (Ancs_new now) = []" "budget (Ancs_new now) = 0"
    by (simp_all add: held_ok_def held_def Ancs_new_def budget_def)
  with accounted_run [OF _ assms] obtain es where
    "posted out = map (\<lambda>(p, f). emit_notification p f) es"
    "mset (map token (held a)) + mset (map fst es) \<subseteq># mset (map token (run_fetched turns))"
    "requests out + budget a \<le> 3 * length (run_fetched turns)" "held_ok a"
    unfolding accounted_def ATTRIBUTE_FETCH_ATTEMPTS_def by auto
  moreover from this have "mset (map fst es) \<subseteq># mset (map token (run_fetched turns))"
    by (metis mset_subset_eq_add_right subset_mset.order_trans)
  ultimately show ?thesis by (auto simp: held_ok_def PENDING_QUEUE_CAP_def)
qed

theorem notifications_only_announced_witness:
  "\<exists>a out. le_run ((0, True, NotificationSource (demo_frame EVENT_ADDED 7)) # demo_turns 7) (Ancs_new 0) = Fine (a, out) \<and>
    posted out = [emit_notification (demo_pending 7) (note_fields demo_note)] \<and> requests out \<le> 6 \<and> length (held a) \<le> 65"
proof -
  let ?turn = "(0, True, NotificationSource (demo_frame EVENT_ADDED 7))"
  let ?a = "(Ancs_new 0)\<lparr>an_pending := [demo_pending 7]\<rparr>"
  have uid: "pn_uid (demo_pending 7) = 7" by (simp add: demo_pending_def)
  have turn: "le_turn ?turn (Ancs_new 0) = Fine (?a, [])"
    by (simp add: le_turn_def le_pump_def pump_allowed_def pump_def Ancs_new_def on_notification_source_def demo_classify
        PENDING_QUEUE_CAP_def)
  obtain a out where run: "le_run (demo_turns 7) ?a = Fine (a, out)"
      "posted out = [emit_notification (demo_pending 7) (note_fields demo_note)]"
    using answered_fetch [of ?a "demo_pending 7" "[]" 7 demo_note "demo_turns 7"]
    by (auto simp: Ancs_new_def demo_conforming demo_answers demo_fetched uid ATTRIBUTE_AUTH_GUIDANCE_THRESHOLD_def
        PENDING_QUEUE_CAP_def)
  have whole: "le_run (?turn # demo_turns 7) (Ancs_new 0) = Fine (a, out)"
    by (simp add: turn run(1))
  from notifications_only_announced [OF whole] have "requests out \<le> 6" "length (held a) \<le> 65"
    by (auto simp: demo_classify demo_fetched)
  then show ?thesis using whole run(2) by blast
qed

text \<open>A notification that the phone takes back while its attributes are being fetched is posted nonetheless, after
  its removal: the removal touches neither the queue nor what is in flight, and nothing takes the post back.\<close>
theorem removed_notification_posted:
  assumes "an_in_flight a = Some p" "an_ds_buffer a = []"
    and "classify_ns_frame frame = NsRemoved (pn_uid p)"
    and "conforming n" "answers (pn_uid p) n turns"
    and "length (an_pending a) + length (run_fetched turns) \<le> PENDING_QUEUE_CAP"
  shows "\<exists>a' out. le_run ((now, ok, NotificationSource frame) # turns) a =
      Fine (a', AncsEvent (NotificationRemoved (notification_id (pn_uid p)) RemoteDismissed) # out) \<and>
    posted out = [emit_notification p (note_fields n)] \<and> an_in_flight a' = None"
proof -
  have "le_turn (now, ok, NotificationSource frame) a =
    Fine (a, [AncsEvent (NotificationRemoved (notification_id (pn_uid p)) RemoteDismissed)])"
    using assms(1,3) by (simp add: le_turn_def on_notification_source_def)
  then show ?thesis using answered_in_flight [OF assms(1,2,5,4,6)] by auto
qed

theorem removed_notification_posted_witness:
  "\<exists>a' out. le_run ((0, True, NotificationSource (demo_frame EVENT_REMOVED 7)) # demo_turns 7)
      ((Ancs_new 0)\<lparr>an_in_flight := Some (demo_pending 7)\<rparr>) =
      Fine (a', AncsEvent (NotificationRemoved (notification_id 7) RemoteDismissed) # out) \<and>
    posted out = [emit_notification (demo_pending 7) (note_fields demo_note)] \<and> an_in_flight a' = None"
proof -
  have uid: "pn_uid (demo_pending 7) = 7" by (simp add: demo_pending_def)
  show ?thesis
    using removed_notification_posted [of "(Ancs_new 0)\<lparr>an_in_flight := Some (demo_pending 7)\<rparr>" "demo_pending 7"
        "demo_frame EVENT_REMOVED 7" demo_note "demo_turns 7" 0 True]
    by (simp add: Ancs_new_def uid demo_classify demo_conforming demo_answers demo_fetched PENDING_QUEUE_CAP_def)
qed

section \<open>Flaws\<close>

lemma stale_response_accepted:
  assumes "an_in_flight a = Some p" "an_ds_buffer a = []" "conforming n"
  shows "\<exists>a' out. le_turn (now, ok, DataSource (phone_response other n)) a = Fine (a', out) \<and>
    posted out = [emit_notification p (note_fields n)]"
  using assms parse_whole_response [OF assms(3), of other "[]"]
  by (auto simp: le_turn_def on_data_source_def)

lemma split_date_panics:
  assumes "length s = 15" "utf8_cont (s ! 8) \<or> utf8_cont (s ! 9)"
  shows "parse_ancs_date s = Panic"
proof -
  have "str_get 8 9 s = None" using assms by (auto simp: str_get_def is_char_boundary_def)
  then show ?thesis using assms(1) by (simp add: parse_ancs_date_def)
qed

lemma split_date_ends_session:
  assumes "an_in_flight a = Some p" "an_ds_buffer a = []" "attrs_ok (note_attrs n)" "length (note_date n) < 65536"
    and "length (from_utf8_lossy (note_date n)) = 15"
    and "utf8_cont (from_utf8_lossy (note_date n) ! 8) \<or> utf8_cont (from_utf8_lossy (note_date n) ! 9)"
  shows "le_turn (now, ok, DataSource (phone_response uid n)) a = Panic"
proof -
  let ?pre = "[COMMAND_GET_NOTIFICATION_ATTRIBUTES] @ le32 uid"
  have "set_field ATTR_DATE (from_utf8_lossy (note_date n)) f = Panic" for f
    using split_date_panics [OF assms(5,6)] by (simp add: set_field_def attr_ids)
  then have "parse_gna_response (phone_response uid n) = Panic"
    using gna_attributes_whole [OF assms(3,4), of ?pre "[]" NotificationFields_default]
    by (simp add: parse_gna_response_def phone_response_def)
  then show ?thesis using assms(1,2) by (simp add: le_turn_def on_data_source_def)
qed

end
