(* ===== verification/Spec2Isabelle.thy ===== *)
theory Spec2Isabelle
  imports Link_Run_Facts Link_Pipe Csm_Identification Csm_Now_Playing Lane_Fairness Lane_Channel
    Session_Behaviour Wire_Transport Transfer_Push Transfer_Store_Verified Player_Artwork Player_Sources Asset_Player
    Ancs_Behaviour
begin

text \<open>
  bridgething turns a small car display into a client of the phone it is connected to. The device runs a daemon
  (\<open>crates/core\<close>) that speaks Apple's iAP2 protocol with the phone over bluetooth (\<open>crates/iap2\<close>), a framed
  message protocol with the companion app and the gateways behind it (\<open>crates/lib\<close>, \<open>crates/sdk-runtime\<close>,
  \<open>crates/gateway-rs\<close>), and shows its clients one player that merges what the phone and the companion say. This
  development models that path from the bytes of the link up to what the clients of the player are shown, and
  beside it the transfer of files in both directions, the cache of assets and the notifications of the phone.

  \<^bold>\<open>The parts and how they meet.\<close> The link decodes packets (\<open>Link_Frame\<close>), keeps a window of unacknowledged ones and
  reorders what arrives (\<open>Link_State\<close>), and is driven by a task that detects, negotiates and restarts
  (\<open>Link_Run\<close>). What the link delivers are the streams of the session: control messages (\<open>Csm_Codec\<close> and the
  messages above it), file transfers and external accessory streams. The session (\<open>Session_Run\<close>) dispatches them
  to its flows and reports events. The frames of the accessory streams come from the lane scheduler
  (\<open>Lane_Scheduler\<close>, \<open>Lane_Channel\<close>) and carry the messages of the wire protocol (\<open>Wire_Endec\<close>,
  \<open>Wire_Transport\<close>), among them the fragments of transfers (\<open>Transfer_Push\<close>, \<open>Transfer_Receive\<close>; in the other
  direction \<open>Transfer_Store\<close>). The events of the session reach the player through the router (\<open>Player_Events\<close>);
  the player's actor (\<open>Player_Actor\<close>) also takes the commands of companions, admitted by the registry of authority
  (\<open>Player_Authority\<close>), and follows the events of the asset cache (\<open>Asset_Cache\<close>), in which the router files
  artwork.

  \<^bold>\<open>Theories and sources.\<close>
  \<^item> \<open>Prelude\<close>: words, byte strings, big-endian numbers, results, and the contract of a streaming decoder
    (\<open>tokio_util::codec::Decoder\<close>) as the locales \<open>stream_decoder\<close> and \<open>incremental_decoder\<close>, which the link codec
    and the codec of control messages interpret. \<open>Iap2_Io\<close>: \<open>iap2/src/error.rs\<close> and the writer.
  \<^item> \<open>Link_Frame\<close>: \<open>iap2/src/frame.rs\<close>. \<open>Link_State\<close> with \<open>Link_State_Facts\<close> and \<open>Link_Behaviour\<close>:
    \<open>iap2/src/link/established.rs\<close>. \<open>Link_Run\<close> with \<open>Link_Run_Facts\<close>: \<open>iap2/src/link/mod.rs\<close>. \<open>Link_Pipe\<close>: two
    established endpoints and FIFO channels that may lose any frame, for the exactly-once theorem (windows up to 128).
  \<^item> \<open>Csm_Codec\<close>, \<open>Csm_Facts\<close>: \<open>iap2/src/csm/mod.rs\<close>; the contract of a field type is the locale \<open>csm_field\<close> (built
    from \<open>csm_value\<close>), that of a message \<open>csm_message\<close> and \<open>extensible_message\<close>, interpreted on every field type and
    every message. \<open>Csm_Messages\<close>, \<open>Csm_Identification\<close>, \<open>Csm_Now_Playing\<close>: the other files of \<open>iap2/src/csm\<close>, with
    what the derive macro of \<open>crates/macros\<close> writes for them.
  \<^item> \<open>Session_Base\<close>, \<open>Session_Flows\<close>, \<open>Session_Ea_Transport\<close>, \<open>Session_External_Accessory\<close>, \<open>Session_File_Transfer\<close>,
    \<open>Session_Now_Playing\<close>, \<open>Session_Run\<close> with \<open>Session_Run_Facts\<close> and \<open>Session_Behaviour\<close>: \<open>iap2/src/session\<close>.
  \<^item> \<open>Lane_Scheduler\<close>, \<open>Lane_Channel\<close> with \<open>Lane_Facts\<close>, \<open>Lane_Batch\<close>, \<open>Lane_Fairness\<close>: \<open>sdk-runtime/src/sched.rs\<close>.
  \<^item> \<open>Wire_Endec\<close>: \<open>lib/src/protocol\<close>. \<open>Wire_Transport\<close>: \<open>gateway-rs/src/codec.rs\<close>, \<open>transport.rs\<close>.
  \<^item> \<open>Transfer_Receive\<close>, \<open>Transfer_Receive_Facts\<close>: \<open>delivery/core/src/transfer/receiver.rs\<close>. \<open>Transfer_Push\<close>:
    \<open>core/src/transfer/outbound.rs\<close> and the system of both. \<open>Transfer_Store\<close>, \<open>Transfer_Store_Facts\<close>,
    \<open>Transfer_Store_Verified\<close>: \<open>core/src/transfer/mod.rs\<close>, \<open>actor.rs\<close>.
  \<^item> \<open>Player_Text\<close>, \<open>Player_Types\<close>: strings and the types of \<open>lib/src/shared\<close>. \<open>Player_Authority\<close>:
    \<open>core/src/authority/mod.rs\<close>. \<open>Player_State\<close>: \<open>core/src/player/state.rs\<close>. \<open>Player_Actor\<close>:
    \<open>core/src/player/mod.rs\<close>. \<open>Player_Events\<close>: \<open>core/src/handler/iap2.rs\<close>. \<open>Player_Facts\<close>, \<open>Player_Artwork\<close>,
    \<open>Player_Clients\<close>, \<open>Player_Playhead\<close>, \<open>Player_Sources\<close>: their properties.
  \<^item> \<open>Asset_Cache\<close>: \<open>core/src/asset/mod.rs\<close>, \<open>actor.rs\<close>; \<open>Asset_Facts\<close> (its invariant and the loops of eviction),
    \<open>Asset_Steps\<close> (every command), \<open>Asset_Run\<close> (restart and whole lives; the locales \<open>run_invariant\<close> and \<open>key_announcer\<close>),
    \<open>Asset_Behaviour\<close> and \<open>Asset_Player\<close> (its properties, alone and with the player that follows its events).
  \<^item> \<open>Ancs_Notifications\<close>: \<open>core/src/bluetooth/le/ancs.rs\<close> and the turns of \<open>le/mod.rs\<close> that concern it; \<open>Ancs_Facts\<close> (the
    bytes of a response), \<open>Ancs_Run\<close> (runs of the session), \<open>Ancs_Dates\<close> (the calendar), \<open>Ancs_Behaviour\<close>.

  \<^bold>\<open>How the code is modelled.\<close> A struct is a record (its fields with a prefix of the struct), an enum a datatype, a
  function a function of the same name, with a suffix or prefix where the name clashes. Integers that are counted
  modulo their width are words; lengths and offsets are natural numbers, with \<open>saturating_add\<close> and the wrap-around
  of the code written out (\<open>USIZE_MAX\<close> and \<open>U64_MAX\<close> are those of a 64-bit target). Errors are values of a sum.
  Strings are their UTF-8 bytes; floats are bit patterns, compared as the code compares them. A hash map is an
  association list with one entry per key; where the code iterates over one, the list gives the order. An
  asynchronous operation is a function of the state; what other tasks, the network, the disk or the clock
  contribute comes with each step as data (the time and the registry are read once per operation), and a theorem
  about runs quantifies over all of them. Loops are recursive functions with a measure, or fold over what they
  consume. The reader's loop (\<open>drain\<close>) has fuel one more than the bytes at hand, which is enough since every frame
  takes one at least (\<open>drain_fuel_enough\<close>); \<open>ea_split\<close>, which does not end for some limits, is a partial function
  into an option, and the theorem about it states that it returns. A write to a \<open>tokio::fs::File\<close> is told late, as
  that type documents: \<open>write_all\<close> returns once the bytes are handed over, and a failure is the answer to the next
  write or flush (\<open>file_write_all\<close> in \<open>Transfer_Store\<close>).

  \<^bold>\<open>Parameters.\<close> The authentication chip, digests, serialization and gzip, the hasher, and what the runtime does with
  a task are arguments of the definitions; what the theorems need of them is a hypothesis with a witness.

  \<^bold>\<open>What is shown.\<close>
  \<^item> The link: decoding any cut of a stream of encodings gives the packets back; damage is never delivered; the
    invariant of both window and reorder buffer; in-order delivery exactly once over lossy channels, for windows of at
    most 128; bounded retransmission while the timeout is not zero, and bounded restarts; the agreement of both sides
    after the handshake.
  \<^item> The session: it sends only what it has declared, and no media key, call control or subscription before the device
    has accepted the identification, unless a now-playing update comes first; its streams agree with its events; artwork arrives whole; the subscription is the debounced last wish and settles;
    how it ends is reported once.
  \<^item> The lanes: batches within the bound, order within a lane, the budget of a lane, and a bound on the number of
    batches an item waits, whatever is pushed beside it.
  \<^item> The wire: the receiver is equivalent to a scan of the whole stream, and frames within the cap arrive however they are
    cut.
  \<^item> Transfers: a body that is handed out has the registered length and, unless empty, the registered digest; a
    transfer to a waiting gateway completes under every order of turns; the device's store keeps its accounting, its
    files hold what it counts as long as no write has failed, and what it reports complete has the digest asked for,
    except for the race that is a finding.
  \<^item> The player: its published authority is that of an elected leader; artwork of the phone is only ever that
    of the transfer which the shown track's update announced; clients are current; the playhead does not jump for
    ticks near it while a known track plays, nor for the phone's while a companion that reports state and position
    owns it; what is shown after a companion has left; what an optimistic advance may promote.
  \<^item> The asset cache, while its database works: it stays within its budgets; it gives out only what was entered last;
    what is persistent survives a restart, and nothing else; the player that follows its events from an empty start
    knows what is there, save for the cases that are findings.
  \<^item> The notifications: what the phone announces and answers in time, within the bounds of the queue, reaches the clients
    with its texts and its date; only what was announced does, and the phone is asked at most three times for each.
  The findings of the manifest are proved as theorems of the same kind, on a concrete run or for all of a class.

  \<^bold>\<open>Not modelled.\<close> The detail of logging, tracing and metrics. The device side of a link after its handshake (used by
  the tests only), the emulator and the worker of the authentication chip. Of the router, what it passes to other
  services. Of the store, its recovery at start. The types of \<open>lib/src\<close> whose serialization is derived, and the
  generated surface of the SDKs. Everything that is mostly the use of an outside service: bluetooth, systemd,
  display, network, audio, the database layer, the providers of media, the desktop backends, the Spotify client. The
  floating-point code of signal processing and language understanding. The update service of the device and its
  counterpart in \<open>crates/delivery\<close> (\<open>ota\<close>), the blob and bundle stores, the companion's hub and the SDK's
  correlation of requests and replies have logic of their own that this development does not reach.
\<close>

end
